(* ===== verification/Prelude.thy ===== *)
theory Prelude
  imports Main "HOL-Library.Char_ord" "HOL-Library.List_Lexorder" "HOL-Library.Product_Lexorder"
begin

text \<open>
  Shared vocabulary of the development: results of fallible code, the small relational
  algebra the repositories are written in (filtered update, filtered delete, single-row
  lookup), first-wins de-duplication, minimum by key, and the order SQL uses for nullable
  columns (\<open>x IS NULL, x ASC\<close>).
\<close>

section \<open>Collections of facts\<close>

named_theorems res_simps "results: bind, guard and their inversions"
named_theorems row_simps "rows: effect of filtered updates and deletes"

section \<open>Results\<close>

text \<open>
  Every raise of the source is a value. \<open>Service_Error code\<close> stands for the structured
  service exceptions (TaskFlowServiceError, EmployeeServiceError, ChannelBindingServiceError,
  which carry a stable \<open>error_code\<close>; the human readable reason is not modelled),
  \<open>Integrity_Error index\<close> for a violated database constraint, \<open>Value_Error\<close> for a plain
  Python ValueError, \<open>Multiple_Results\<close> for \<open>scalar_one_or_none\<close> on several rows,
  \<open>Overflow_Error\<close>, \<open>Timeout_Error\<close> and \<open>Key_Error\<close> for Python's own.
\<close>

datatype app_error =
    Service_Error string
  | Integrity_Error string
  | Value_Error
  | Multiple_Results
  | Overflow_Error
  | Timeout_Error
  | Key_Error

type_synonym 'a res = "app_error + 'a"

definition bindE :: "'e + 'a \<Rightarrow> ('a \<Rightarrow> 'e + 'b) \<Rightarrow> 'e + 'b" where
  "bindE m f = (case m of Inl e \<Rightarrow> Inl e | Inr x \<Rightarrow> f x)"

definition guardE :: "bool \<Rightarrow> 'e \<Rightarrow> 'e + unit" where
  "guardE c e = (if c then Inr () else Inl e)"

definition service_error :: "string \<Rightarrow> 'a res" where
  "service_error code = Inl (Service_Error code)"

definition is_ok :: "'e + 'a \<Rightarrow> bool" where
  "is_ok m = (case m of Inl _ \<Rightarrow> False | Inr _ \<Rightarrow> True)"

text \<open>
  For evaluation by the code equations: with these the rest of a sequence, a let or a
  pattern match on pairs is only evaluated once its argument is a value.
\<close>

declare bindE_def [code_unfold]
declare Let_def [code_unfold]
declare case_prod_beta [code_unfold]

lemma bindE_simps [simp, res_simps]:
  "bindE (Inl e) f = Inl e"
  "bindE (Inr x) f = f x"
  by (simp_all add: bindE_def)

lemma bindE_eq_Inr_iff [res_simps]:
  "bindE m f = Inr y \<longleftrightarrow> (\<exists>x. m = Inr x \<and> f x = Inr y)"
  by (cases m) simp_all

lemma bindE_eq_Inl_iff [res_simps]:
  "bindE m f = Inl e \<longleftrightarrow> m = Inl e \<or> (\<exists>x. m = Inr x \<and> f x = Inl e)"
  by (cases m) simp_all

lemma bindE_InrE:
  assumes "bindE m f = Inr y"
  obtains x where "m = Inr x" and "f x = Inr y"
  using assms by (auto simp: bindE_eq_Inr_iff)

lemma bindE_assoc: "bindE (bindE m f) g = bindE m (\<lambda>x. bindE (f x) g)"
  by (cases m) simp_all

lemma bindE_cong [fundef_cong]:
  assumes "m = m'" and "\<And>x. m' = Inr x \<Longrightarrow> f x = f' x"
  shows "bindE m f = bindE m' f'"
  using assms by (cases m') simp_all

lemma guardE_eq_Inr_iff [simp, res_simps]: "guardE c e = Inr u \<longleftrightarrow> c"
  by (simp add: guardE_def)

lemma guardE_eq_Inl_iff [simp, res_simps]: "guardE c e = Inl e' \<longleftrightarrow> \<not> c \<and> e' = e"
  by (auto simp: guardE_def)

lemma guardE_True [simp]: "guardE True e = Inr ()"
  by (simp add: guardE_def)

lemma guardE_False [simp]: "guardE False e = Inl e"
  by (simp add: guardE_def)

lemma bind_guardE: "bindE (guardE c e) f = (if c then f () else Inl e)"
  by (simp add: guardE_def)

lemma service_error_not_Inr [simp, res_simps]: "service_error c \<noteq> Inr x"
  by (simp add: service_error_def)

lemma is_ok_simps [simp]: "is_ok (Inr x)" "\<not> is_ok (Inl e)"
  by (simp_all add: is_ok_def)

text \<open>A loop whose body may raise: the first error ends it.\<close>

fun foldE :: "('a \<Rightarrow> 's \<Rightarrow> 'e + 's) \<Rightarrow> 'a list \<Rightarrow> 's \<Rightarrow> 'e + 's" where
  "foldE f [] s = Inr s"
| "foldE f (x # xs) s = bindE (f x s) (foldE f xs)"

fun mapE :: "('a \<Rightarrow> 'e + 'b) \<Rightarrow> 'a list \<Rightarrow> 'e + 'b list" where
  "mapE f [] = Inr []"
| "mapE f (x # xs) = bindE (f x) (\<lambda>y. bindE (mapE f xs) (\<lambda>ys. Inr (y # ys)))"

lemma foldE_invariant:
  assumes "foldE f xs s = Inr s'" and "P s"
    and "\<And>x s s'. x \<in> set xs \<Longrightarrow> P s \<Longrightarrow> f x s = Inr s' \<Longrightarrow> P s'"
  shows "P s'"
  using assms
proof (induction xs arbitrary: s)
  case Nil
  then show ?case by simp
next
  case (Cons x xs)
  from Cons.prems(1) obtain s1 where s1: "f x s = Inr s1" "foldE f xs s1 = Inr s'"
    by (auto simp: bindE_eq_Inr_iff)
  have "P s1" using Cons.prems(2,3) s1(1) by (meson list.set_intros(1))
  with Cons.IH [OF s1(2)] Cons.prems(3) show ?case by (meson list.set_intros(2))
qed

lemma foldE_total:
  assumes "\<And>x s. x \<in> set xs \<Longrightarrow> \<exists>s'. f x s = Inr s'"
  shows "\<exists>s'. foldE f xs s = Inr s'"
  using assms
proof (induction xs arbitrary: s)
  case (Cons x xs)
  from Cons.prems [of x s] obtain s1 where "f x s = Inr s1" by auto
  with Cons show ?case by simp
qed simp

lemma list_all2_rightD:
  assumes "list_all2 P xs ys" and "y \<in> set ys"
  shows "\<exists>x \<in> set xs. P x y"
  using assms by (induction rule: list_all2_induct) auto

lemma list_all2_left_mem:
  assumes "list_all2 P xs ys"
  shows "list_all2 (\<lambda>x y. x \<in> set xs \<and> P x y) xs ys"
proof -
  have "list_all2 (\<lambda>x y. x \<in> set zs \<and> P x y) xs ys" if "set xs \<subseteq> set zs" for zs
    using assms that by (induction rule: list_all2_induct) auto
  then show ?thesis by blast
qed

lemma mapE_view:
  assumes "list_all2 P xs ys" and "\<And>x y. P x y \<Longrightarrow> \<exists>m. f y = Inr m \<and> view m = spec x"
  shows "\<exists>ms. mapE f ys = Inr ms \<and> map view ms = map spec xs"
  using assms(1)
proof (induction rule: list_all2_induct)
  case (Cons x xs y ys)
  from Cons assms(2) [OF Cons(1)] show ?case by auto
qed simp

lemma fold_invariant_list:
  assumes "P s" and "\<And>x s. x \<in> set xs \<Longrightarrow> P s \<Longrightarrow> P (f x s)"
  shows "P (fold f xs s)"
  using assms by (induction xs arbitrary: s) auto

section \<open>Fields an update may leave alone\<close>

text \<open>The \<open>_UNSET\<close> sentinels: an argument that was not given, as opposed to an explicit None.\<close>

datatype 'a field = Unset | Given 'a

fun field_or :: "'a field \<Rightarrow> 'a \<Rightarrow> 'a" where
  "field_or Unset d = d"
| "field_or (Given x) d = x"

definition opt_or :: "'a option \<Rightarrow> 'a \<Rightarrow> 'a" where
  "opt_or o' d = (case o' of None \<Rightarrow> d | Some x \<Rightarrow> x)"

lemma opt_or_simps [simp]: "opt_or None d = d" "opt_or (Some x) d = x"
  by (simp_all add: opt_or_def)

section \<open>Rows\<close>

text \<open>
  \<open>UPDATE ... WHERE p\<close> and \<open>DELETE ... WHERE p\<close> over a table kept as a list of rows, with
  the row count the code reads back.
\<close>

definition update_where :: "('r \<Rightarrow> bool) \<Rightarrow> ('r \<Rightarrow> 'r) \<Rightarrow> 'r list \<Rightarrow> 'r list" where
  "update_where p f rows = map (\<lambda>r. if p r then f r else r) rows"

definition delete_where :: "('r \<Rightarrow> bool) \<Rightarrow> 'r list \<Rightarrow> 'r list" where
  "delete_where p rows = filter (\<lambda>r. \<not> p r) rows"

definition rowcount :: "('r \<Rightarrow> bool) \<Rightarrow> 'r list \<Rightarrow> nat" where
  "rowcount p rows = length (filter p rows)"

text \<open>\<open>scalar_one_or_none\<close>: None without a row, the row when there is one, an error otherwise.\<close>

definition scalar_one_or_none :: "'a list \<Rightarrow> 'a option res" where
  "scalar_one_or_none rows =
     (case rows of [] \<Rightarrow> Inr None | [r] \<Rightarrow> Inr (Some r) | _ \<Rightarrow> Inl Multiple_Results)"

lemma set_update_where [row_simps]:
  "r' \<in> set (update_where p f rows) \<longleftrightarrow>
     (\<exists>r \<in> set rows. r' = (if p r then f r else r))"
  by (auto simp: update_where_def)

lemma set_delete_where [row_simps]: "set (delete_where p rows) = {r \<in> set rows. \<not> p r}"
  by (simp add: delete_where_def)

lemma rowcount_pos_iff [row_simps]: "0 < rowcount p rows \<longleftrightarrow> (\<exists>r \<in> set rows. p r)"
  by (auto simp: rowcount_def filter_empty_conv)

lemma rowcount_0_iff [row_simps]: "rowcount p rows = 0 \<longleftrightarrow> (\<forall>r \<in> set rows. \<not> p r)"
  by (auto simp: rowcount_def filter_empty_conv)

lemma update_where_none:
  assumes "\<forall>r \<in> set rows. \<not> p r"
  shows "update_where p f rows = rows"
  using assms by (simp add: update_where_def map_idI)

lemma map_update_where:
  assumes "\<And>r. p r \<Longrightarrow> g (f r) = g r"
  shows "map g (update_where p f rows) = map g rows"
  using assms by (simp add: update_where_def)

lemma length_update_where [simp]: "length (update_where p f rows) = length rows"
  by (simp add: update_where_def)

text \<open>
  Facts about one row are stated for an arbitrary row type, so that they apply to the wide
  records of the tables without unfolding them.
\<close>

lemma find_update_row:
  assumes "\<forall>t \<in> set rows. key t = key r \<longrightarrow> own t = own r"
  shows "find (\<lambda>t. own t = p \<and> key t = i) (update_where (\<lambda>t. key t = key r) (\<lambda>_. r) rows) =
    (if own r = p \<and> key r = i \<and> (\<exists>t \<in> set rows. key t = key r) then Some r
     else find (\<lambda>t. own t = p \<and> key t = i) rows)"
  using assms by (induction rows) (auto simp: update_where_def)

lemma find_keyed_iff:
  assumes "distinct (map key rows)"
  shows "find (\<lambda>t. own t = p \<and> key t = i) rows = Some r \<longleftrightarrow> r \<in> set rows \<and> own r = p \<and> key r = i"
  using assms by (induction rows) auto

lemma find_update_where:
  assumes "\<And>t. q t \<Longrightarrow> q (f t)"
  shows "find q (update_where q f rows) = map_option f (find q rows)"
  using assms by (induction rows) (auto simp: update_where_def)

lemma find_SomeD:
  assumes "find P rows = Some r"
  shows "r \<in> set rows" and "P r"
  using assms by (auto simp: find_Some_iff)

lemma distinct_key_eqD:
  assumes "distinct (map key rows)" and "r \<in> set rows" and "s \<in> set rows" and "key r = key s"
  shows "r = s"
  using assms by (auto simp: distinct_map inj_on_def)

lemma scalar_filter_Some:
  assumes "scalar_one_or_none (filter p rows) = Inr (Some r)"
  shows "r \<in> set rows \<and> p r"
proof -
  from assms have "filter p rows = [r]" by (auto simp: scalar_one_or_none_def split: list.splits)
  from arg_cong [OF this, of set] show ?thesis by auto
qed

lemma scalar_unique:
  assumes "distinct (map key rows)" and "r \<in> set rows" and "key r = k"
  shows "scalar_one_or_none (filter (\<lambda>x. key x = k) rows) = Inr (Some r)"
proof -
  have "filter (\<lambda>x. key x = k) rows = [r]"
    using assms
  proof (induction rows)
    case (Cons x xs)
    then have fresh: "\<forall>y \<in> set xs. key y \<noteq> key x" by (metis distinct.simps(2) image_eqI list.set_map list.simps(9))
    show ?case
    proof (cases "r = x")
      case True
      with fresh Cons.prems(3) show ?thesis by (simp add: filter_empty_conv)
    next
      case False
      with Cons fresh show ?thesis by auto
    qed
  qed simp
  then show ?thesis by (simp add: scalar_one_or_none_def)
qed

lemma update_where_mem: "r \<in> set rows \<Longrightarrow> (if p r then f r else r) \<in> set (update_where p f rows)"
  by (auto simp: update_where_def)

text \<open>A partial unique index: rows without a key are outside it.\<close>

definition unique_index :: "('r \<Rightarrow> 'k option) \<Rightarrow> 'r list \<Rightarrow> bool" where
  "unique_index key rows = distinct (List.map_filter key rows)"

lemma unique_index_Nil [simp]: "unique_index key []"
  by (simp add: unique_index_def List.map_filter_def)

lemma unique_index_Cons [simp]:
  "unique_index key (r # rows) \<longleftrightarrow>
     unique_index key rows \<and> (\<forall>k. key r = Some k \<longrightarrow> (\<forall>s \<in> set rows. key s \<noteq> Some k))"
  by (cases "key r") (force simp: unique_index_def List.map_filter_def)+

text \<open>Losing keys, or keeping them, never violates the index.\<close>

lemma unique_index_update_where:
  assumes "unique_index key rows" and "\<And>r. p r \<Longrightarrow> key (f r) = key r \<or> key (f r) = None"
  shows "unique_index key (update_where p f rows)"
  using assms
proof (induction rows)
  case Nil
  then show ?case by (simp add: update_where_def)
next
  case (Cons r rows)
  have eq: "update_where p f (r # rows) = (if p r then f r else r) # update_where p f rows"
    by (simp add: update_where_def)
  have IH: "unique_index key (update_where p f rows)" using Cons by simp
  have key: "key (if p s then f s else s) = key s \<or> key (if p s then f s else s) = None" for s
    using Cons.prems(2) by auto
  have "\<forall>k. key (if p r then f r else r) = Some k \<longrightarrow>
          (\<forall>s \<in> set (update_where p f rows). key s \<noteq> Some k)"
  proof (intro allI impI ballI)
    fix k s
    assume k: "key (if p r then f r else r) = Some k"
      and s: "s \<in> set (update_where p f rows)"
    from k key [of r] have kr: "key r = Some k" by (metis option.distinct(1))
    from s obtain s0 where s0: "s0 \<in> set rows" "s = (if p s0 then f s0 else s0)"
      by (auto simp: set_update_where)
    from Cons.prems(1) kr s0(1) have "key s0 \<noteq> Some k" by simp
    with key [of s0] s0(2) show "key s \<noteq> Some k" by (metis option.distinct(1))
  qed
  with IH show ?case by (simp add: eq)
qed

lemma unique_index_filter:
  "unique_index key rows \<Longrightarrow> unique_index key (filter p rows)"
  by (induction rows) auto

lemma unique_index_eqD:
  assumes "unique_index key rows" and "r \<in> set rows" and "s \<in> set rows"
    and "key r = Some k" and "key s = Some k"
  shows "r = s"
  using assms by (induction rows) auto

text \<open>Rewriting one row found by its key.\<close>

lemma update_where_single:
  assumes "distinct (map key rows)" and "r \<in> set rows" and "p r" and "\<And>t. p t \<Longrightarrow> key t = key r"
  shows "update_where p f rows = update_where (\<lambda>t. key t = key r) (\<lambda>_. f r) rows"
proof -
  have "p t = (key t = key r) \<and> (p t \<longrightarrow> f t = f r)" if "t \<in> set rows" for t
    using assms distinct_key_eqD [OF assms(1) that assms(2)] by metis
  then show ?thesis by (simp add: update_where_def)
qed

lemma unique_index_update_one:
  assumes "unique_index k rows" and "distinct (map key rows)" and "r \<in> set rows"
  shows "unique_index k (update_where (\<lambda>t. key t = key r) (\<lambda>_. r') rows) \<longleftrightarrow>
    (\<forall>x. k r' = Some x \<longrightarrow> (\<forall>s \<in> set rows. key s \<noteq> key r \<longrightarrow> k s \<noteq> Some x))"
  using assms
proof (induction rows)
  case Nil
  then show ?case by simp
next
  case (Cons t rows)
  have step: "update_where p f (t # rows) = (if p t then f t else t) # update_where p f rows" for p f
    by (simp add: update_where_def)
  show ?case
  proof (cases "key t = key r")
    case True
    with Cons.prems(2) have other: "\<forall>s \<in> set rows. key s \<noteq> key r"
      by (metis distinct.simps(2) image_eqI list.set_map list.simps(9))
    then have "update_where (\<lambda>t. key t = key r) (\<lambda>_. r') rows = rows"
      by (intro update_where_none) simp
    with True other Cons.prems(1) show ?thesis by (auto simp: step)
  next
    case False
    with Cons.prems have r: "r \<in> set rows" by auto
    have IH: "unique_index k (update_where (\<lambda>t. key t = key r) (\<lambda>_. r') rows) \<longleftrightarrow>
      (\<forall>x. k r' = Some x \<longrightarrow> (\<forall>s \<in> set rows. key s \<noteq> key r \<longrightarrow> k s \<noteq> Some x))"
      using Cons r by simp
    let ?u = "update_where (\<lambda>t. key t = key r) (\<lambda>_. r') rows"
    have mem: "s \<in> set ?u \<longleftrightarrow> s = r' \<or> s \<in> set rows \<and> key s \<noteq> key r" for s
      using r by (auto simp: set_update_where)
    have "(\<forall>x. k t = Some x \<longrightarrow> (\<forall>s \<in> set ?u. k s \<noteq> Some x))
        \<longleftrightarrow> (\<forall>x. k r' = Some x \<longrightarrow> k t \<noteq> Some x)"
      using Cons.prems(1) unfolding unique_index_Cons Ball_def mem by blast
    with IH False show ?thesis unfolding step by simp blast
  qed
qed

section \<open>Order of appearance and minima\<close>

text \<open>\<open>tuple(dict.fromkeys(xs))\<close> and the \<open>seen\<close>-set loops: keep the first of equal items.\<close>

fun uniq_first :: "'a list \<Rightarrow> 'a list \<Rightarrow> 'a list" where
  "uniq_first seen [] = []"
| "uniq_first seen (x # xs) =
     (if x \<in> set seen then uniq_first seen xs else x # uniq_first (x # seen) xs)"

lemma set_uniq_first: "set (uniq_first seen xs) = set xs - set seen"
  by (induction xs arbitrary: seen) auto

lemma distinct_uniq_first [simp]: "distinct (uniq_first seen xs)"
  by (induction xs arbitrary: seen) (auto simp: set_uniq_first)

text \<open>
  A dict comprehension \<open>{key x: x for x in xs}\<close> as the list of its values: a later value
  replaces an earlier one of the same key in its place.
\<close>

definition dict_put :: "('a \<Rightarrow> 'k) \<Rightarrow> 'a \<Rightarrow> 'a list \<Rightarrow> 'a list" where
  "dict_put key x xs =
     (if list_ex (\<lambda>y. key y = key x) xs then map (\<lambda>y. if key y = key x then x else y) xs
      else xs @ [x])"

definition dict_of :: "('a \<Rightarrow> 'k) \<Rightarrow> 'a list \<Rightarrow> 'a list" where
  "dict_of key xs = foldl (\<lambda>d x. dict_put key x d) [] xs"

lemma distinct_dict_put: "distinct (map key xs) \<Longrightarrow> distinct (map key (dict_put key x xs))"
proof -
  assume d: "distinct (map key xs)"
  have same: "map key (map (\<lambda>y. if key y = key x then x else y) xs) = map key xs" by simp
  show ?thesis
  proof (cases "list_ex (\<lambda>y. key y = key x) xs")
    case True
    then have eq: "dict_put key x xs = map (\<lambda>y. if key y = key x then x else y) xs"
      by (simp add: dict_put_def)
    show ?thesis unfolding eq same by (rule d)
  next
    case False
    with d show ?thesis by (auto simp: dict_put_def list_ex_iff)
  qed
qed

lemma distinct_dict_of [simp]: "distinct (map key (dict_of key xs))"
proof -
  have "distinct (map key (foldl (\<lambda>d x. dict_put key x d) d xs))" if "distinct (map key d)" for d
    using that by (induction xs arbitrary: d) (simp_all add: distinct_dict_put)
  then show ?thesis by (simp add: dict_of_def)
qed

lemma dict_of_distinct: "distinct (map key xs) \<Longrightarrow> dict_of key xs = xs"
proof -
  assume d: "distinct (map key xs)"
  have "foldl (\<lambda>d x. dict_put key x d) d xs = d @ xs"
    if "distinct (map key (d @ xs))" for d
    using that
  proof (induction xs arbitrary: d)
    case (Cons x xs)
    then have "key x \<notin> key ` set d" by simp
    then have "key y \<noteq> key x" if "y \<in> set d" for y using imageI [OF that, of key] by auto
    then have "\<not> list_ex (\<lambda>y. key y = key x) d" by (simp add: list_ex_iff)
    then have "dict_put key x d = d @ [x]" by (simp add: dict_put_def)
    with Cons show ?case by simp
  qed simp
  from this [of "[]"] d show ?thesis by (simp add: dict_of_def)
qed

fun min_on :: "('a \<Rightarrow> 'k::linorder) \<Rightarrow> 'a list \<Rightarrow> 'a option" where
  "min_on key [] = None"
| "min_on key (x # xs) =
     (case min_on key xs of None \<Rightarrow> Some x
      | Some y \<Rightarrow> if key x \<le> key y then Some x else Some y)"

lemma min_on_eq_None_iff [simp]: "min_on key xs = None \<longleftrightarrow> xs = []"
  by (cases xs) (auto split: option.splits)

lemma min_on_SomeD:
  assumes "min_on key xs = Some x"
  shows "x \<in> set xs" and "\<And>y. y \<in> set xs \<Longrightarrow> key x \<le> key y"
proof -
  have "x \<in> set xs \<and> (\<forall>y \<in> set xs. key x \<le> key y)"
    using assms
  proof (induction xs arbitrary: x)
    case Nil
    then show ?case by simp
  next
    case (Cons z zs)
    then show ?case by (fastforce split: option.splits if_splits)
  qed
  then show "x \<in> set xs" and "\<And>y. y \<in> set xs \<Longrightarrow> key x \<le> key y" by auto
qed

section \<open>SQL's order on nullable columns\<close>

text \<open>
  \<open>ORDER BY x IS NULL, x ASC\<close> puts NULL after every value. The type carries that order
  itself, so that a whole ORDER BY clause is one tuple of the library's product order.
\<close>

type_synonym instant = int

datatype nulls_last = At instant | Null

fun nulls_last_of :: "instant option \<Rightarrow> nulls_last" where
  "nulls_last_of None = Null"
| "nulls_last_of (Some i) = At i"

instantiation nulls_last :: linorder
begin

fun less_eq_nulls_last :: "nulls_last \<Rightarrow> nulls_last \<Rightarrow> bool" where
  "less_eq_nulls_last (At i) (At j) = (i \<le> j)"
| "less_eq_nulls_last (At i) Null = True"
| "less_eq_nulls_last Null (At j) = False"
| "less_eq_nulls_last Null Null = True"

definition less_nulls_last :: "nulls_last \<Rightarrow> nulls_last \<Rightarrow> bool" where
  "less_nulls_last a b = (a \<le> b \<and> \<not> b \<le> a)"

instance
proof
  fix a b c :: nulls_last
  show "a \<le> a" by (cases a) simp_all
  show "a < b \<longleftrightarrow> a \<le> b \<and> \<not> b \<le> a" by (simp add: less_nulls_last_def)
  show "a \<le> b \<Longrightarrow> b \<le> c \<Longrightarrow> a \<le> c" by (cases a; cases b; cases c) simp_all
  show "a \<le> b \<Longrightarrow> b \<le> a \<Longrightarrow> a = b" by (cases a; cases b) simp_all
  show "a \<le> b \<or> b \<le> a" by (cases a; cases b) auto
qed

end

end
