(* ===== verification/Py_Strings.thy ===== *)
theory Py_Strings
  imports Prelude
begin

text \<open>
  The operations of Python's \<open>str\<close> the program uses, on strings whose code points are below
  256: a \<open>string\<close> is a list of characters and a character is one code point
  (\<open>of_char\<close>). On that range the functions agree with Python's: white space is what
  \<open>str.isspace\<close> accepts, \<open>lower\<close> folds the ASCII and Latin-1 capitals, \<open>isdigit\<close>
  includes the superscript digits, \<open>word_char\<close> is the class \<open>\w\<close> of a \<open>str\<close> pattern.
\<close>

section \<open>Characters\<close>

definition code_pt :: "char \<Rightarrow> nat" where
  "code_pt c = of_char c"

definition is_space :: "char \<Rightarrow> bool" where
  "is_space c = (let n = code_pt c in
     (9 \<le> n \<and> n \<le> 13) \<or> (28 \<le> n \<and> n \<le> 32) \<or> n = 133 \<or> n = 160)"

definition is_ascii_digit :: "char \<Rightarrow> bool" where
  "is_ascii_digit c = (let n = code_pt c in 48 \<le> n \<and> n \<le> 57)"

definition is_ascii_lower :: "char \<Rightarrow> bool" where
  "is_ascii_lower c = (let n = code_pt c in 97 \<le> n \<and> n \<le> 122)"

definition is_ascii_upper :: "char \<Rightarrow> bool" where
  "is_ascii_upper c = (let n = code_pt c in 65 \<le> n \<and> n \<le> 90)"

text \<open>\<open>str.isdigit\<close> of one character: the decimal digits and the three Latin-1 superscripts.\<close>

definition is_py_digit :: "char \<Rightarrow> bool" where
  "is_py_digit c = (is_ascii_digit c \<or> code_pt c \<in> {178, 179, 185})"

text \<open>\<open>\w\<close> of a \<open>str\<close> pattern: alphanumeric (\<open>str.isalnum\<close>) or underscore.\<close>

definition is_word_char :: "char \<Rightarrow> bool" where
  "is_word_char c = (let n = code_pt c in
     is_ascii_digit c \<or> is_ascii_lower c \<or> is_ascii_upper c \<or> n = 95
     \<or> n \<in> {170, 178, 179, 181, 185, 186, 188, 189, 190}
     \<or> (192 \<le> n \<and> n \<noteq> 215 \<and> n \<noteq> 247))"

definition lower_char :: "char \<Rightarrow> char" where
  "lower_char c = (let n = code_pt c in
     if (65 \<le> n \<and> n \<le> 90) \<or> (192 \<le> n \<and> n \<le> 222 \<and> n \<noteq> 215) then char_of (n + 32) else c)"

lemma code_pt_less [simp]: "code_pt c < 256"
  by (simp add: code_pt_def)

lemma code_pt_char_of [simp]: "n < 256 \<Longrightarrow> code_pt (char_of n) = n"
  by (simp add: code_pt_def)

lemma code_pt_inject: "code_pt c = code_pt d \<longleftrightarrow> c = d"
  by (simp add: code_pt_def)

lemma code_pt_lower_char:
  "code_pt (lower_char c) =
     (let n = code_pt c in
      if (65 \<le> n \<and> n \<le> 90) \<or> (192 \<le> n \<and> n \<le> 222 \<and> n \<noteq> 215) then n + 32 else n)"
  by (auto simp: lower_char_def Let_def)

lemma is_space_lower_char [simp]: "is_space (lower_char c) = is_space c"
  by (auto simp: is_space_def code_pt_lower_char Let_def split: if_splits)

lemma lower_char_idem [simp]: "lower_char (lower_char c) = lower_char c"
  by (auto simp: code_pt_inject [symmetric] code_pt_lower_char Let_def)

text \<open>The classifications on the bits of a character, for evaluation.\<close>

lemma is_space_code [code]:
  "is_space (Char b0 b1 b2 b3 b4 b5 b6 b7) =
     (\<not> b7 \<and> \<not> b6 \<and> \<not> b5 \<and> \<not> b4 \<and> b3 \<and> (b0 \<or> b1 \<or> b2) \<and> \<not> (b2 \<and> b1)
      \<or> \<not> b7 \<and> \<not> b6 \<and> \<not> b5 \<and> b4 \<and> b3 \<and> b2
      \<or> \<not> b6 \<and> b5 \<and> \<not> b4 \<and> \<not> b3 \<and> \<not> b2 \<and> \<not> b1 \<and> \<not> b0
      \<or> b7 \<and> \<not> b6 \<and> \<not> b5 \<and> \<not> b4 \<and> \<not> b3 \<and> b2 \<and> \<not> b1 \<and> b0)"
  by (cases b7; cases b6; cases b5; cases b4; cases b3; cases b2; cases b1; cases b0;
      simp add: is_space_def code_pt_def)

lemma is_ascii_digit_code [code]:
  "is_ascii_digit (Char b0 b1 b2 b3 b4 b5 b6 b7) =
     (\<not> b7 \<and> \<not> b6 \<and> b5 \<and> b4 \<and> (\<not> b3 \<or> \<not> b2 \<and> \<not> b1))"
  by (cases b7; cases b6; cases b5; cases b4; cases b3; cases b2; cases b1; cases b0;
      simp add: is_ascii_digit_def code_pt_def)

lemma is_ascii_lower_code [code]:
  "is_ascii_lower (Char b0 b1 b2 b3 b4 b5 b6 b7) =
     (\<not> b7 \<and> b6 \<and> b5 \<and> (b0 \<or> b1 \<or> b2 \<or> b3 \<or> b4) \<and> \<not> (b4 \<and> b3 \<and> (b2 \<or> b1 \<and> b0)))"
  by (cases b7; cases b6; cases b5; cases b4; cases b3; cases b2; cases b1; cases b0;
      simp add: is_ascii_lower_def code_pt_def)

lemma lower_char_code [code]:
  "lower_char (Char b0 b1 b2 b3 b4 b5 b6 b7) =
     (if \<not> b7 \<and> b6 \<and> \<not> b5 \<and> (b0 \<or> b1 \<or> b2 \<or> b3 \<or> b4) \<and> \<not> (b4 \<and> b3 \<and> (b2 \<or> b1 \<and> b0))
         \<or> b7 \<and> b6 \<and> \<not> b5 \<and> \<not> (b4 \<and> b3 \<and> b2 \<and> b1 \<and> b0) \<and> \<not> (b4 \<and> \<not> b3 \<and> b2 \<and> b1 \<and> b0)
      then Char b0 b1 b2 b3 b4 True b6 b7 else Char b0 b1 b2 b3 b4 b5 b6 b7)"
  by (cases b7; cases b6; cases b5; cases b4; cases b3; cases b2; cases b1; cases b0;
      simp add: lower_char_def code_pt_def char_of_def bit_0)

section \<open>Trimming and case\<close>

definition lstrip :: "string \<Rightarrow> string" where
  "lstrip s = dropWhile is_space s"

definition rstrip :: "string \<Rightarrow> string" where
  "rstrip s = rev (dropWhile is_space (rev s))"

definition strip :: "string \<Rightarrow> string" where
  "strip s = rstrip (lstrip s)"

definition lower :: "string \<Rightarrow> string" where
  "lower s = map lower_char s"

text \<open>\<open>x or None\<close> of a string and \<open>str(x or "")\<close> of an optional one.\<close>

definition text_or_none :: "string \<Rightarrow> string option" where
  "text_or_none s = (if s = [] then None else Some s)"

definition str_or_empty :: "string option \<Rightarrow> string" where
  "str_or_empty o' = (case o' of None \<Rightarrow> [] | Some s \<Rightarrow> s)"

text \<open>A string on which \<open>strip\<close> has nothing left to do.\<close>

definition trimmed :: "string \<Rightarrow> bool" where
  "trimmed s = (s = [] \<or> (\<not> is_space (hd s) \<and> \<not> is_space (last s)))"

lemma str_or_empty_simps [simp]: "str_or_empty None = []" "str_or_empty (Some s) = s"
  by (simp_all add: str_or_empty_def)

lemma text_or_none_eq_None_iff [simp]: "text_or_none s = None \<longleftrightarrow> s = []"
  by (simp add: text_or_none_def)

lemma text_or_none_eq_Some_iff [simp]: "text_or_none s = Some t \<longleftrightarrow> s = t \<and> t \<noteq> []"
  by (auto simp: text_or_none_def)

lemma strip_Nil [simp]: "strip [] = []"
  by (simp add: strip_def lstrip_def rstrip_def)

lemma last_rstrip: "rstrip s \<noteq> [] \<Longrightarrow> \<not> is_space (last (rstrip s))"
  by (simp add: rstrip_def last_rev hd_dropWhile)

lemma hd_lstrip: "lstrip s \<noteq> [] \<Longrightarrow> \<not> is_space (hd (lstrip s))"
  by (simp add: lstrip_def hd_dropWhile)

lemma rstrip_decomp: "\<exists>w. s = rstrip s @ w \<and> (\<forall>c \<in> set w. is_space c)"
proof (intro exI conjI)
  show "s = rstrip s @ rev (takeWhile is_space (rev s))"
    unfolding rstrip_def by (metis rev_append rev_rev_ident takeWhile_dropWhile_id)
  show "\<forall>c \<in> set (rev (takeWhile is_space (rev s))). is_space c"
    by (auto dest: set_takeWhileD)
qed

lemma lstrip_decomp: "\<exists>w. s = w @ lstrip s \<and> (\<forall>c \<in> set w. is_space c)"
  unfolding lstrip_def by (metis set_takeWhileD takeWhile_dropWhile_id)

lemma hd_rstrip: "rstrip s \<noteq> [] \<Longrightarrow> hd (rstrip s) = hd s"
  using rstrip_decomp [of s] by (metis hd_append2)

lemma trimmed_strip [simp]: "trimmed (strip s)"
proof (cases "strip s = []")
  case False
  then have ne: "rstrip (lstrip s) \<noteq> []" by (simp add: strip_def)
  then have "lstrip s \<noteq> []" by (auto simp: rstrip_def)
  then have "\<not> is_space (hd (lstrip s))" by (rule hd_lstrip)
  with ne have "\<not> is_space (hd (rstrip (lstrip s)))" by (simp add: hd_rstrip)
  with last_rstrip [OF ne] show ?thesis by (simp add: trimmed_def strip_def)
qed (simp add: trimmed_def)

lemma strip_trimmed: "trimmed s \<Longrightarrow> strip s = s"
proof (cases s)
  case (Cons c cs)
  assume "trimmed s"
  with Cons have h: "\<not> is_space c" and l: "\<not> is_space (last s)" by (auto simp: trimmed_def)
  have "lstrip s = s" using Cons h by (simp add: lstrip_def)
  moreover have "rstrip s = s"
  proof -
    from Cons obtain d ds where r: "rev s = d # ds" by (cases "rev s") auto
    then have d: "d = last s" by (metis hd_rev list.sel(1))
    have "dropWhile is_space (rev s) = rev s" unfolding r using l d by simp
    then show ?thesis by (simp add: rstrip_def)
  qed
  ultimately show ?thesis by (simp add: strip_def)
qed simp

lemma strip_idem [simp]: "strip (strip s) = strip s"
  by (rule strip_trimmed) simp

lemma strip_subset: "set (strip s) \<subseteq> set s"
proof -
  have "set (strip s) \<subseteq> set (lstrip s)"
    using rstrip_decomp [of "lstrip s"] by (metis set_append strip_def sup_ge1)
  also have "\<dots> \<subseteq> set s" by (auto simp: lstrip_def dest: set_dropWhileD)
  finally show ?thesis .
qed

lemma lower_Nil_iff [simp]: "lower s = [] \<longleftrightarrow> s = []"
  by (simp add: lower_def)

lemma lower_idem [simp]: "lower (lower s) = lower s"
  by (simp add: lower_def)

lemma strip_no_space: "(\<forall>c \<in> set s. \<not> is_space c) \<Longrightarrow> strip s = s"
  by (rule strip_trimmed) (auto simp: trimmed_def)

lemma dropWhile_space_lower: "dropWhile is_space (map lower_char s) = map lower_char (dropWhile is_space s)"
  by (induction s) simp_all

lemma strip_lower: "strip (lower s) = lower (strip s)"
  by (simp add: strip_def lstrip_def rstrip_def lower_def dropWhile_space_lower rev_map)

lemma trimmed_lower_strip [simp]: "trimmed (lower (strip s))"
  by (metis strip_idem strip_lower trimmed_strip)

section \<open>Joining, splitting, searching\<close>

fun join_with :: "string \<Rightarrow> string list \<Rightarrow> string" where
  "join_with sep [] = []"
| "join_with sep [x] = x"
| "join_with sep (x # y # ys) = x @ sep @ join_with sep (y # ys)"

text \<open>\<open>str.partition\<close> on a single character: what is before it, whether it occurs, what follows.\<close>

fun partition_at :: "char \<Rightarrow> string \<Rightarrow> string \<times> bool \<times> string" where
  "partition_at c [] = ([], False, [])"
| "partition_at c (x # xs) =
     (if x = c then ([], True, xs)
      else let (a, found, b) = partition_at c xs in (x # a, found, b))"

text \<open>\<open>needle in text\<close>.\<close>

fun occurs_in :: "string \<Rightarrow> string \<Rightarrow> bool" where
  "occurs_in p [] = (p = [])"
| "occurs_in p (c # cs) = (take (length p) (c # cs) = p \<or> occurs_in p cs)"

fun has_prefix :: "string \<Rightarrow> string \<Rightarrow> bool" where
  "has_prefix p s = (take (length p) s = p)"

lemma occurs_in_iff: "occurs_in p s \<longleftrightarrow> (\<exists>u v. s = u @ p @ v)"
proof (induction s)
  case Nil
  then show ?case by auto
next
  case (Cons c cs)
  show ?case
  proof
    assume occ: "occurs_in p (c # cs)"
    show "\<exists>u v. c # cs = u @ p @ v"
    proof (cases "take (length p) (c # cs) = p")
      case True
      then have "c # cs = [] @ p @ drop (length p) (c # cs)"
        by (metis append_Nil append_take_drop_id)
      then show ?thesis by blast
    next
      case False
      with occ have "occurs_in p cs" by simp
      then obtain u v where "cs = u @ p @ v" using Cons.IH by blast
      then have "c # cs = (c # u) @ p @ v" by simp
      then show ?thesis by blast
    qed
  next
    assume "\<exists>u v. c # cs = u @ p @ v"
    then obtain u v where uv: "c # cs = u @ p @ v" by blast
    show "occurs_in p (c # cs)"
    proof (cases u)
      case Nil
      with uv have "take (length p) (c # cs) = p" by simp
      then show ?thesis by simp
    next
      case (Cons d u')
      with uv have "cs = u' @ p @ v" by simp
      then show ?thesis using Cons.IH by auto
    qed
  qed
qed

section \<open>Numbers\<close>

fun digit_char :: "nat \<Rightarrow> char" where
  "digit_char d = char_of (48 + d)"

fun nat_str :: "nat \<Rightarrow> string" where
  "nat_str n = (if n < 10 then [digit_char n] else nat_str (n div 10) @ [digit_char (n mod 10)])"

declare nat_str.simps [simp del]

text \<open>\<open>int(s)\<close> of a string of ASCII digits.\<close>

definition digit_value :: "char \<Rightarrow> nat" where
  "digit_value c = code_pt c - 48"

definition nat_of_str :: "string \<Rightarrow> nat" where
  "nat_of_str s = foldl (\<lambda>a c. 10 * a + digit_value c) 0 s"

lemma nat_str_digits: "\<forall>c \<in> set (nat_str n). is_ascii_digit c"
proof (induction n rule: nat_str.induct)
  case (1 n)
  show ?case
    by (subst nat_str.simps) (use 1 in \<open>auto simp: is_ascii_digit_def Let_def\<close>)
qed

lemma nat_str_not_Nil [simp]: "nat_str n \<noteq> []"
  by (subst nat_str.simps) simp

lemma nat_of_nat_str [simp]: "nat_of_str (nat_str n) = n"
proof (induction n rule: nat_str.induct)
  case (1 n)
  show ?case
    by (subst nat_str.simps) (use 1 in \<open>auto simp: nat_of_str_def digit_value_def\<close>)
qed

lemma nat_str_inject [simp]: "nat_str m = nat_str n \<longleftrightarrow> m = n"
  by (metis nat_of_nat_str)

text \<open>\<open>str.split\<close> on a single character: always at least one piece.\<close>

fun split_on :: "char \<Rightarrow> string \<Rightarrow> string list" where
  "split_on c [] = [[]]"
| "split_on c (x # xs) =
     (if x = c then [] # split_on c xs
      else (case split_on c xs of [] \<Rightarrow> [[x]] | y # ys \<Rightarrow> (x # y) # ys))"

lemma split_on_not_Nil [simp]: "split_on c s \<noteq> []"
  by (cases s) (auto split: list.splits)

lemma join_split_on: "join_with [c] (split_on c s) = s"
proof (induction s)
  case Nil
  then show ?case by simp
next
  case (Cons x xs)
  obtain y ys where y: "split_on c xs = y # ys" by (cases "split_on c xs") simp_all
  with Cons show ?case by (cases ys) auto
qed

text \<open>
  \<open>int(s)\<close> of a string: surrounding white space, a sign, decimal digits with single
  underscores between them; None is a ValueError. The superscripts are digits for
  \<open>isdigit\<close> and not for \<open>int\<close>.
\<close>

fun digit_groups_ok :: "bool \<Rightarrow> string \<Rightarrow> bool" where
  "digit_groups_ok after_digit [] = after_digit"
| "digit_groups_ok after_digit (c # cs) =
     (if is_ascii_digit c then digit_groups_ok True cs
      else c = CHR ''_'' \<and> after_digit \<and> digit_groups_ok False cs)"

definition unsigned_int :: "string \<Rightarrow> int option" where
  "unsigned_int s =
     (if digit_groups_ok False s then Some (int (nat_of_str (filter is_ascii_digit s))) else None)"

definition py_int :: "string \<Rightarrow> int option" where
  "py_int s =
     (case strip s of
        [] \<Rightarrow> None
      | c # cs \<Rightarrow>
          (if c = CHR ''-'' then map_option uminus (unsigned_int cs)
           else if c = CHR ''+'' then unsigned_int cs
           else unsigned_int (c # cs)))"

lemma digit_groups_ok_digits: "\<forall>c \<in> set s. is_ascii_digit c \<Longrightarrow> digit_groups_ok b s = (b \<or> s \<noteq> [])"
  by (induction s arbitrary: b) auto

lemma unsigned_int_nat_str [simp]: "unsigned_int (nat_str n) = Some (int n)"
  using nat_str_digits [of n] by (simp add: unsigned_int_def digit_groups_ok_digits)

lemma digit_not_space: "is_ascii_digit c \<Longrightarrow> \<not> is_space c"
  by (auto simp: is_ascii_digit_def is_space_def Let_def)

lemma strip_nat_str [simp]: "strip (nat_str n) = nat_str n"
  using nat_str_digits [of n] digit_not_space by (intro strip_no_space) blast

lemma separators_not_digits [simp]:
  "\<not> is_ascii_digit (CHR ''/'')" "\<not> is_ascii_digit (CHR ''-'')" "\<not> is_ascii_digit (CHR '','')"
  "\<not> is_ascii_digit (CHR ''*'')" "\<not> is_ascii_digit (CHR ''+'')"
  by (simp_all add: is_ascii_digit_def code_pt_def Let_def)

lemma py_int_nat_str [simp]: "py_int (nat_str n) = Some (int n)"
proof -
  obtain c cs where cs: "nat_str n = c # cs" by (cases "nat_str n") simp_all
  with nat_str_digits [of n] have "is_ascii_digit c" by simp
  then have "c \<noteq> CHR ''-''" "c \<noteq> CHR ''+''" by auto
  moreover have "strip (nat_str n) = c # cs" using cs strip_nat_str [of n] by metis
  moreover have "unsigned_int (c # cs) = Some (int n)" using unsigned_int_nat_str [of n] cs by simp
  ultimately show ?thesis unfolding py_int_def strip_nat_str unfolding cs by simp
qed

lemma split_on_free: "c \<notin> set s \<Longrightarrow> split_on c s = [s]"
  by (induction s) auto

lemma split_on_append: "c \<notin> set s \<Longrightarrow> split_on c (s @ c # t) = s # split_on c t"
  by (induction s) auto

lemma split_on_join:
  "ws \<noteq> [] \<Longrightarrow> (\<forall>w \<in> set ws. c \<notin> set w) \<Longrightarrow> split_on c (join_with [c] ws) = ws"
proof (induction ws)
  case Nil
  then show ?case by simp
next
  case (Cons w ws)
  then show ?case by (cases ws) (simp_all add: split_on_free split_on_append)
qed

lemma partition_at_free: "c \<notin> set s \<Longrightarrow> partition_at c s = (s, False, [])"
  by (induction s) auto

text \<open>\<open>str.split()\<close> without an argument.\<close>

function split_words :: "string \<Rightarrow> string list" where
  "split_words s =
     (case dropWhile is_space s of
        [] \<Rightarrow> []
      | c # cs \<Rightarrow> (c # takeWhile (\<lambda>x. \<not> is_space x) cs) # split_words (dropWhile (\<lambda>x. \<not> is_space x) cs))"
  by pat_completeness auto

termination
proof (relation "measure length")
  fix s c cs
  assume "dropWhile is_space s = c # cs"
  then have "length (c # cs) \<le> length s" by (metis length_dropWhile_le)
  moreover have "length (dropWhile (\<lambda>x. \<not> is_space x) cs) \<le> length cs" by (rule length_dropWhile_le)
  ultimately show "(dropWhile (\<lambda>x. \<not> is_space x) cs, s) \<in> measure length" by simp
qed simp

declare split_words.simps [simp del]

lemma split_words_append:
  assumes "w \<noteq> []" and "\<forall>c \<in> set w. \<not> is_space c" and "s = [] \<or> is_space (hd s)"
  shows "split_words (w @ s) = w # split_words s"
proof -
  obtain c cs where w: "w = c # cs" using assms(1) by (cases w) auto
  have "takeWhile (\<lambda>x. \<not> is_space x) (cs @ s) = cs" "dropWhile (\<lambda>x. \<not> is_space x) (cs @ s) = s"
    using assms(2,3) w by (cases s; simp add: takeWhile_append2 dropWhile_append2)+
  then show ?thesis using assms(2) w by (subst split_words.simps) simp
qed

lemma split_words_space: "is_space c \<Longrightarrow> split_words (c # s) = split_words s"
  by (subst (1 2) split_words.simps) simp

lemma is_space_space [simp]: "is_space (CHR '' '')"
  by (simp add: is_space_def code_pt_def)

lemma split_words_join:
  "\<forall>w \<in> set ws. w \<noteq> [] \<and> (\<forall>c \<in> set w. \<not> is_space c) \<Longrightarrow> split_words (join_with '' '' ws) = ws"
proof (induction ws)
  case Nil
  then show ?case by (subst split_words.simps) simp
next
  case (Cons w ws)
  have nil: "split_words [] = []" by (subst split_words.simps) simp
  show ?case
  proof (cases ws)
    case Nil
    with Cons.prems split_words_append [of w "[]"] nil show ?thesis by simp
  next
    case (Cons v vs)
    have "split_words (w @ CHR '' '' # join_with '' '' ws) = w # split_words (join_with '' '' ws)"
      using Cons.prems split_words_append [of w "CHR '' '' # join_with '' '' ws"] by (simp add: split_words_space)
    with Cons Cons.IH Cons.prems show ?thesis by simp
  qed
qed

end
