(* ===== verification/Task_Store.thy ===== *)
theory Task_Store
  imports Py_Strings
begin

text \<open>
  The Task Flow tables (afkbot/models/task*.py) and the plain persistence operations of
  TaskFlowRepository (afkbot/repositories/task_flow_repo.py): rows are records, a table is the
  list of its rows, an operation takes the database and returns it changed. A JSON column
  holds the decoded value: \<open>labels_json\<close> a list of strings, \<open>details_json\<close> the object's
  entries. The claim protocol of the repository is in the theory Task_Claims.
\<close>

section \<open>Column types\<close>

datatype status =
  Plan | Todo | Claimed | Running | Blocked | Review | Completed | Failed | Cancelled

fun status_name :: "status \<Rightarrow> string" where
  "status_name Plan = ''plan''"
| "status_name Todo = ''todo''"
| "status_name Claimed = ''claimed''"
| "status_name Running = ''running''"
| "status_name Blocked = ''blocked''"
| "status_name Review = ''review''"
| "status_name Completed = ''completed''"
| "status_name Failed = ''failed''"
| "status_name Cancelled = ''cancelled''"

definition all_statuses :: "status list" where
  "all_statuses = [Plan, Todo, Claimed, Running, Blocked, Review, Completed, Failed, Cancelled]"

definition status_of_name :: "string \<Rightarrow> status option" where
  "status_of_name s = find (\<lambda>st. status_name st = s) all_statuses"

text \<open>The JSON values found in event details; a datetime is serialised from its instant.\<close>

datatype jval =
    JNull
  | JBool bool
  | JInt int
  | JStr string
  | JTime instant
  | JList "jval list"
  | JObj "(string \<times> jval) list"

definition j_opt :: "string option \<Rightarrow> jval" where
  "j_opt o' = (case o' of None \<Rightarrow> JNull | Some s \<Rightarrow> JStr s)"

definition j_time :: "instant option \<Rightarrow> jval" where
  "j_time o' = (case o' of None \<Rightarrow> JNull | Some i \<Rightarrow> JTime i)"

text \<open>The value of EMPLOYEE_OWNER_TYPE, the one AI executor type.\<close>

definition employee_type :: string where
  "employee_type = ''employee''"

definition active_status :: "status \<Rightarrow> bool" where
  "active_status s = (s = Claimed \<or> s = Running)"

definition terminal_status :: "status \<Rightarrow> bool" where
  "terminal_status s = (s = Completed \<or> s = Failed \<or> s = Cancelled)"

lemma active_status_simps [simp]:
  "active_status Claimed" "active_status Running"
  "\<not> active_status Plan" "\<not> active_status Todo" "\<not> active_status Blocked"
  "\<not> active_status Review" "\<not> active_status Completed" "\<not> active_status Failed"
  "\<not> active_status Cancelled"
  by (simp_all add: active_status_def)

lemma terminal_status_simps [simp]:
  "terminal_status Completed" "terminal_status Failed" "terminal_status Cancelled"
  "\<not> terminal_status Plan" "\<not> terminal_status Todo" "\<not> terminal_status Claimed"
  "\<not> terminal_status Running" "\<not> terminal_status Blocked" "\<not> terminal_status Review"
  by (simp_all add: terminal_status_def)

lemma active_not_terminal: "active_status s \<Longrightarrow> \<not> terminal_status s"
  by (cases s) simp_all

lemma status_of_status_name [simp]: "status_of_name (status_name s) = Some s"
  by (cases s) (simp_all add: status_of_name_def all_statuses_def)

section \<open>Rows\<close>

record task =
  t_id :: string
  t_profile_id :: string
  t_flow_id :: "string option"
  t_title :: string
  t_description :: string
  t_status :: status
  t_priority :: int
  t_due_at :: "instant option"
  t_ready_at :: "instant option"
  t_owner_type :: string
  t_owner_ref :: string
  t_reviewer_type :: "string option"
  t_reviewer_ref :: "string option"
  t_source_type :: string
  t_source_ref :: "string option"
  t_created_by_type :: string
  t_created_by_ref :: string
  t_labels :: "string list"
  t_requires_review :: bool
  t_blocked_reason_code :: "string option"
  t_blocked_reason_text :: "string option"
  t_claim_token :: "string option"
  t_claim_owner_type :: "string option"
  t_claim_owner_ref :: "string option"
  t_claim_source_status :: "status option"
  t_claimed_by :: "string option"
  t_lease_until :: "instant option"
  t_current_attempt :: int
  t_last_session_id :: "string option"
  t_last_session_profile_id :: "string option"
  t_last_run_id :: "nat option"
  t_last_error_code :: "string option"
  t_last_error_text :: "string option"
  t_started_at :: "instant option"
  t_finished_at :: "instant option"
  t_created_at :: instant
  t_updated_at :: instant

record dependency =
  dep_task_id :: string
  dep_on :: string
  dep_satisfied_on :: status

record event =
  e_id :: nat
  e_task_id :: string
  e_run_id :: "nat option"
  e_type :: string
  e_actor_type :: "string option"
  e_actor_ref :: "string option"
  e_message :: "string option"
  e_from :: "status option"
  e_to :: "status option"
  e_details :: "(string \<times> jval) list"
  e_created_at :: instant

record task_run =
  r_id :: nat
  r_task_id :: string
  r_attempt :: int
  r_owner_type :: string
  r_owner_ref :: string
  r_execution_mode :: string
  r_status :: string
  r_session_id :: "string option"
  r_run_id :: "int option"
  r_worker_id :: "string option"
  r_summary :: "string option"
  r_error_code :: "string option"
  r_error_text :: "string option"
  r_started_at :: instant
  r_finished_at :: "instant option"

record attachment =
  a_id :: string
  a_task_id :: string
  a_profile_id :: string
  a_name :: string
  a_content_type :: "string option"
  a_kind :: string
  a_byte_size :: nat
  a_sha256 :: string
  a_created_by_type :: string
  a_created_by_ref :: string
  a_content :: "char list"
  a_created_at :: instant

record flow =
  f_id :: string
  f_profile_id :: string
  f_title :: string
  f_description :: "string option"
  f_status :: string
  f_created_by_type :: string
  f_created_by_ref :: string
  f_default_owner_type :: "string option"
  f_default_owner_ref :: "string option"
  f_labels :: "string list"

text \<open>
  The database: the tables, the next autoincrement ids of the event and run tables and the
  database clock that \<open>func.now()\<close> reads.
\<close>

record db =
  db_profiles :: "string list"
  db_flows :: "flow list"
  db_tasks :: "task list"
  db_deps :: "dependency list"
  db_events :: "event list"
  db_runs :: "task_run list"
  db_attachments :: "attachment list"
  db_next_event :: nat
  db_next_run :: nat
  db_clock :: instant

section \<open>Constraints\<close>

text \<open>
  The primary key and the two partial unique indexes on active employee work
  (\<open>ux_task_active_employee_owner\<close>, \<open>ux_task_active_employee_claim_owner\<close>), checked when a
  statement is flushed. A row outside an index has no key; a NULL column never conflicts.
\<close>

definition owner_index_key :: "task \<Rightarrow> (string \<times> string \<times> string) option" where
  "owner_index_key t =
     (if t_owner_type t = employee_type \<and> active_status (t_status t)
      then Some (t_profile_id t, t_owner_type t, t_owner_ref t) else None)"

definition claim_index_key :: "task \<Rightarrow> (string \<times> string \<times> string) option" where
  "claim_index_key t =
     (case (t_claim_owner_type t, t_claim_owner_ref t) of
        (Some ty, Some ref) \<Rightarrow>
          (if ty = employee_type \<and> active_status (t_status t)
           then Some (t_profile_id t, ty, ref) else None)
      | _ \<Rightarrow> None)"

definition check_task_indexes :: "db \<Rightarrow> unit res" where
  "check_task_indexes d =
     (if \<not> distinct (map t_id (db_tasks d)) then Inl (Integrity_Error ''task_pkey'')
      else if \<not> unique_index owner_index_key (db_tasks d)
      then Inl (Integrity_Error ''ux_task_active_employee_owner'')
      else if \<not> unique_index claim_index_key (db_tasks d)
      then Inl (Integrity_Error ''ux_task_active_employee_claim_owner'')
      else Inr ())"

text \<open>What the constraints guarantee of a stored database.\<close>

definition task_constraints :: "db \<Rightarrow> bool" where
  "task_constraints d \<longleftrightarrow>
     distinct (map t_id (db_tasks d))
     \<and> unique_index owner_index_key (db_tasks d)
     \<and> unique_index claim_index_key (db_tasks d)"

lemma check_task_indexes_ok_iff [simp]:
  "check_task_indexes d = Inr () \<longleftrightarrow> task_constraints d"
  by (simp add: check_task_indexes_def task_constraints_def)

lemma check_task_indexes_unit [simp]:
  "check_task_indexes d = Inr u \<longleftrightarrow> task_constraints d"
  using check_task_indexes_ok_iff by simp

section \<open>Tasks\<close>

text \<open>A row built by \<open>Task(...)\<close>: the columns the constructor leaves out have their defaults.\<close>

definition task_defaults :: "instant \<Rightarrow> task" where
  "task_defaults clock = \<lparr>t_id = [], t_profile_id = [], t_flow_id = None, t_title = [],
     t_description = [], t_status = Todo, t_priority = 50, t_due_at = None, t_ready_at = None,
     t_owner_type = [], t_owner_ref = [], t_reviewer_type = None, t_reviewer_ref = None,
     t_source_type = ''manual'', t_source_ref = None, t_created_by_type = [],
     t_created_by_ref = [], t_labels = [], t_requires_review = False,
     t_blocked_reason_code = None, t_blocked_reason_text = None, t_claim_token = None,
     t_claim_owner_type = None, t_claim_owner_ref = None, t_claim_source_status = None,
     t_claimed_by = None, t_lease_until = None, t_current_attempt = 0,
     t_last_session_id = None, t_last_session_profile_id = None, t_last_run_id = None,
     t_last_error_code = None, t_last_error_text = None, t_started_at = None,
     t_finished_at = None, t_created_at = clock, t_updated_at = clock\<rparr>"

definition repo_create_task :: "task \<Rightarrow> db \<Rightarrow> (db \<times> task) res" where
  "repo_create_task row d =
     (let d' = d\<lparr>db_tasks := db_tasks d @ [row]\<rparr> in
      bindE (check_task_indexes d') (\<lambda>_. Inr (d', row)))"

definition get_task :: "string \<Rightarrow> string \<Rightarrow> db \<Rightarrow> task option" where
  "get_task profile_id task_id d =
     find (\<lambda>t. t_profile_id t = profile_id \<and> t_id t = task_id) (db_tasks d)"

definition get_flow :: "string \<Rightarrow> string \<Rightarrow> db \<Rightarrow> flow option" where
  "get_flow profile_id flow_id d =
     find (\<lambda>f. f_profile_id f = profile_id \<and> f_id f = flow_id) (db_flows d)"

definition bound_status :: "status \<Rightarrow> bool" where
  "bound_status s = (s = Claimed \<or> s = Running \<or> s = Review)"

definition get_task_by_session_binding ::
    "string \<Rightarrow> string \<Rightarrow> string \<Rightarrow> string \<Rightarrow> db \<Rightarrow> task option" where
  "get_task_by_session_binding profile_id session_id actor_type actor_ref d =
     find (\<lambda>t. t_profile_id t = profile_id \<and> t_last_session_id t = Some session_id
             \<and> bound_status (t_status t)
             \<and> ((t_owner_type t = actor_type \<and> t_owner_ref t = actor_ref)
                \<or> (t_claim_owner_type t = Some actor_type \<and> t_claim_owner_ref t = Some actor_ref)
                \<or> (t_status t = Review \<and> t_reviewer_type t = Some actor_type
                   \<and> t_reviewer_ref t = Some actor_ref)))
       (db_tasks d)"

definition get_active_task_by_session :: "string \<Rightarrow> string \<Rightarrow> db \<Rightarrow> task option" where
  "get_active_task_by_session profile_id session_id d =
     find (\<lambda>t. t_profile_id t = profile_id \<and> t_last_session_id t = Some session_id
             \<and> bound_status (t_status t)) (db_tasks d)"

definition has_active_ai_task :: "string \<Rightarrow> string \<Rightarrow> string \<Rightarrow> string option \<Rightarrow> db \<Rightarrow> bool" where
  "has_active_ai_task profile_id owner_type owner_ref exclude_task_id d =
     list_ex (\<lambda>t. t_profile_id t = profile_id \<and> t_owner_type t = owner_type
                \<and> t_owner_ref t = owner_ref \<and> active_status (t_status t)
                \<and> (case exclude_task_id of None \<Rightarrow> True | Some i \<Rightarrow> t_id t \<noteq> i)) (db_tasks d)"

text \<open>Newest first: \<open>created_at DESC, id DESC\<close>.\<close>

definition list_tasks_by_source ::
    "string \<Rightarrow> string \<Rightarrow> string \<Rightarrow> nat option \<Rightarrow> db \<Rightarrow> task list" where
  "list_tasks_by_source profile_id source_type source_ref limit d =
     (let rows = rev (sort_key (\<lambda>t. (t_created_at t, t_id t))
                   (filter (\<lambda>t. t_profile_id t = profile_id \<and> t_source_type t = source_type
                              \<and> t_source_ref t = Some source_ref) (db_tasks d)))
      in case limit of None \<Rightarrow> rows | Some n \<Rightarrow> take n rows)"

definition employee_has_references :: "string \<Rightarrow> string \<Rightarrow> db \<Rightarrow> bool" where
  "employee_has_references profile_id employee_id d =
     (list_ex (\<lambda>t. t_profile_id t = profile_id
                \<and> ((t_owner_type t = employee_type \<and> t_owner_ref t = employee_id)
                   \<or> (t_reviewer_type t = Some employee_type \<and> t_reviewer_ref t = Some employee_id)
                   \<or> (t_claim_owner_type t = Some employee_type
                      \<and> t_claim_owner_ref t = Some employee_id))) (db_tasks d)
      \<or> list_ex (\<lambda>f. f_profile_id f = profile_id \<and> f_default_owner_type f = Some employee_type
                 \<and> f_default_owner_ref f = Some employee_id) (db_flows d))"

definition repo_delete_task :: "string \<Rightarrow> string \<Rightarrow> db \<Rightarrow> db \<times> bool" where
  "repo_delete_task profile_id task_id d =
     (let p = (\<lambda>t. t_profile_id t = profile_id \<and> t_id t = task_id) in
      (d\<lparr>db_tasks := delete_where p (db_tasks d)\<rparr>, 0 < rowcount p (db_tasks d)))"

definition delete_task_dependencies :: "string \<Rightarrow> db \<Rightarrow> db" where
  "delete_task_dependencies task_id d =
     d\<lparr>db_deps := delete_where (\<lambda>e. dep_task_id e = task_id \<or> dep_on e = task_id) (db_deps d)\<rparr>"

definition delete_task_events :: "string \<Rightarrow> db \<Rightarrow> db" where
  "delete_task_events task_id d =
     d\<lparr>db_events := delete_where (\<lambda>e. e_task_id e = task_id) (db_events d)\<rparr>"

definition delete_task_runs :: "string \<Rightarrow> db \<Rightarrow> db" where
  "delete_task_runs task_id d =
     d\<lparr>db_runs := delete_where (\<lambda>r. r_task_id r = task_id) (db_runs d)\<rparr>"

definition delete_task_attachments :: "string \<Rightarrow> db \<Rightarrow> db" where
  "delete_task_attachments task_id d =
     d\<lparr>db_attachments := delete_where (\<lambda>a. a_task_id a = task_id) (db_attachments d)\<rparr>"

section \<open>Updating a task row\<close>

text \<open>The keyword arguments of TaskFlowRepository.update_task.\<close>

record task_patch =
  p_title :: "string option"
  p_description :: "string option"
  p_status :: "status option"
  p_priority :: "int option"
  p_due_at :: "instant option"
  p_ready_at :: "instant option field"
  p_owner_type :: "string option"
  p_owner_ref :: "string option"
  p_reviewer_type :: "string option field"
  p_reviewer_ref :: "string option field"
  p_requires_review :: "bool option"
  p_labels :: "string list option"
  p_last_session_id :: "string option field"
  p_last_session_profile_id :: "string option field"
  p_blocked_reason_code :: "string option field"
  p_blocked_reason_text :: "string option field"

definition no_patch :: task_patch where
  "no_patch = \<lparr>p_title = None, p_description = None, p_status = None, p_priority = None,
     p_due_at = None, p_ready_at = Unset, p_owner_type = None, p_owner_ref = None,
     p_reviewer_type = Unset, p_reviewer_ref = Unset, p_requires_review = None,
     p_labels = None, p_last_session_id = Unset, p_last_session_profile_id = Unset,
     p_blocked_reason_code = Unset, p_blocked_reason_text = Unset\<rparr>"

definition patch_columns :: "task_patch \<Rightarrow> task \<Rightarrow> task" where
  "patch_columns p t = t\<lparr>
     t_title := opt_or (p_title p) (t_title t),
     t_description := opt_or (p_description p) (t_description t),
     t_status := opt_or (p_status p) (t_status t),
     t_priority := opt_or (p_priority p) (t_priority t),
     t_due_at := (case p_due_at p of None \<Rightarrow> t_due_at t | Some x \<Rightarrow> Some x),
     t_ready_at := field_or (p_ready_at p) (t_ready_at t),
     t_owner_type := opt_or (p_owner_type p) (t_owner_type t),
     t_owner_ref := opt_or (p_owner_ref p) (t_owner_ref t),
     t_reviewer_type := field_or (p_reviewer_type p) (t_reviewer_type t),
     t_reviewer_ref := field_or (p_reviewer_ref p) (t_reviewer_ref t),
     t_requires_review := opt_or (p_requires_review p) (t_requires_review t),
     t_labels := opt_or (p_labels p) (t_labels t),
     t_last_session_id := field_or (p_last_session_id p) (t_last_session_id t),
     t_last_session_profile_id :=
       field_or (p_last_session_profile_id p) (t_last_session_profile_id t)\<rparr>"

definition patch_blocked_reason :: "task_patch \<Rightarrow> task \<Rightarrow> task" where
  "patch_blocked_reason p t =
     (if p_blocked_reason_code p \<noteq> Unset \<or> p_blocked_reason_text p \<noteq> Unset \<or> p_status p \<noteq> None
      then t\<lparr>t_blocked_reason_code := field_or (p_blocked_reason_code p) None,
             t_blocked_reason_text := field_or (p_blocked_reason_text p) None\<rparr>
      else t)"

definition clear_claim_columns :: "task \<Rightarrow> task" where
  "clear_claim_columns t = t\<lparr>t_claim_token := None, t_claim_owner_type := None,
     t_claim_owner_ref := None, t_claim_source_status := None, t_claimed_by := None,
     t_lease_until := None\<rparr>"

definition patch_claim :: "task_patch \<Rightarrow> task \<Rightarrow> task" where
  "patch_claim p t =
     (case p_status p of
        Some s \<Rightarrow> (if active_status s then t else clear_claim_columns t)
      | None \<Rightarrow> t)"

definition patch_ready :: "instant \<Rightarrow> task_patch \<Rightarrow> task \<Rightarrow> task" where
  "patch_ready now p t =
     (case p_status p of
        None \<Rightarrow> t
      | Some Todo \<Rightarrow> (if t_ready_at t = None then t\<lparr>t_ready_at := Some now\<rparr> else t)
      | Some _ \<Rightarrow> (if p_ready_at p = Unset then t\<lparr>t_ready_at := None\<rparr> else t))"

definition patch_finished :: "instant \<Rightarrow> task_patch \<Rightarrow> task \<Rightarrow> task" where
  "patch_finished now p t =
     (case p_status p of
        None \<Rightarrow> t
      | Some s \<Rightarrow>
          (if \<not> terminal_status s then t\<lparr>t_finished_at := None\<rparr>
           else if t_finished_at t = None then t\<lparr>t_finished_at := Some now\<rparr> else t))"

definition apply_patch :: "instant \<Rightarrow> task_patch \<Rightarrow> task \<Rightarrow> task" where
  "apply_patch now p t =
     patch_finished now p (patch_ready now p (patch_claim p (patch_blocked_reason p
       (patch_columns p t))))"

text \<open>An ORM flush writes a row, and moves \<open>updated_at\<close>, only when a column changed.\<close>

definition touch_row :: "instant \<Rightarrow> task \<Rightarrow> task \<Rightarrow> task" where
  "touch_row clock old new = (if new = old then old else new\<lparr>t_updated_at := clock\<rparr>)"

definition put_task :: "task \<Rightarrow> db \<Rightarrow> db" where
  "put_task row d = d\<lparr>db_tasks := update_where (\<lambda>t. t_id t = t_id row) (\<lambda>_. row) (db_tasks d)\<rparr>"

definition repo_update_task ::
    "instant \<Rightarrow> string \<Rightarrow> string \<Rightarrow> task_patch \<Rightarrow> db \<Rightarrow> (db \<times> task option) res" where
  "repo_update_task now profile_id task_id p d =
     (case get_task profile_id task_id d of
        None \<Rightarrow> Inr (d, None)
      | Some row \<Rightarrow>
          (let row' = touch_row (db_clock d) row (apply_patch now p row);
               d' = put_task row' d
           in bindE (check_task_indexes d') (\<lambda>_. Inr (d', Some row'))))"

section \<open>Dependencies, events, runs, attachments\<close>

definition repo_create_dependency :: "string \<Rightarrow> string \<Rightarrow> status \<Rightarrow> db \<Rightarrow> db \<times> dependency" where
  "repo_create_dependency task_id depends_on satisfied_on d =
     (let row = \<lparr>dep_task_id = task_id, dep_on = depends_on, dep_satisfied_on = satisfied_on\<rparr>
      in (d\<lparr>db_deps := db_deps d @ [row]\<rparr>, row))"

definition repo_list_dependencies :: "string \<Rightarrow> db \<Rightarrow> dependency list" where
  "repo_list_dependencies task_id d =
     sort_key dep_on (filter (\<lambda>e. dep_task_id e = task_id) (db_deps d))"

definition get_dependency :: "string \<Rightarrow> string \<Rightarrow> db \<Rightarrow> dependency option" where
  "get_dependency task_id depends_on d =
     find (\<lambda>e. dep_task_id e = task_id \<and> dep_on e = depends_on) (db_deps d)"

definition list_dependents :: "string \<Rightarrow> db \<Rightarrow> dependency list" where
  "list_dependents depends_on d =
     sort_key dep_task_id (filter (\<lambda>e. dep_on e = depends_on) (db_deps d))"

definition repo_delete_dependency :: "string \<Rightarrow> string \<Rightarrow> db \<Rightarrow> db \<times> bool" where
  "repo_delete_dependency task_id depends_on d =
     (let p = (\<lambda>e. dep_task_id e = task_id \<and> dep_on e = depends_on) in
      (d\<lparr>db_deps := delete_where p (db_deps d)\<rparr>, 0 < rowcount p (db_deps d)))"

text \<open>An event as its caller describes it; the table assigns the id and the time.\<close>

definition event_of :: "string \<Rightarrow> string \<Rightarrow> event" where
  "event_of task_id event_type = \<lparr>e_id = 0, e_task_id = task_id, e_run_id = None,
     e_type = event_type, e_actor_type = None, e_actor_ref = None, e_message = None,
     e_from = None, e_to = None, e_details = [], e_created_at = 0\<rparr>"

definition create_task_event :: "event \<Rightarrow> db \<Rightarrow> db \<times> event" where
  "create_task_event ev d =
     (let row = ev\<lparr>e_id := db_next_event d, e_created_at := db_clock d\<rparr> in
      (d\<lparr>db_events := db_events d @ [row], db_next_event := Suc (db_next_event d)\<rparr>, row))"

definition record_task_event :: "event \<Rightarrow> db \<Rightarrow> db" where
  "record_task_event ev d = fst (create_task_event ev d)"

definition has_task_run_event :: "nat \<Rightarrow> string \<Rightarrow> db \<Rightarrow> bool" where
  "has_task_run_event run event_type d =
     list_ex (\<lambda>e. e_run_id e = Some run \<and> e_type e = event_type) (db_events d)"

definition create_task_run ::
    "string \<Rightarrow> int \<Rightarrow> string \<Rightarrow> string \<Rightarrow> string \<Rightarrow> string \<Rightarrow> string option \<Rightarrow> int option
     \<Rightarrow> string option \<Rightarrow> instant \<Rightarrow> db \<Rightarrow> db \<times> task_run" where
  "create_task_run task_id attempt owner_type owner_ref mode st session_id run_id worker_id
     started_at d =
     (let row = \<lparr>r_id = db_next_run d, r_task_id = task_id, r_attempt = attempt,
            r_owner_type = owner_type, r_owner_ref = owner_ref, r_execution_mode = mode,
            r_status = st, r_session_id = session_id, r_run_id = run_id,
            r_worker_id = worker_id, r_summary = None, r_error_code = None,
            r_error_text = None, r_started_at = started_at, r_finished_at = None\<rparr>
      in (d\<lparr>db_runs := db_runs d @ [row], db_next_run := Suc (db_next_run d)\<rparr>, row))"

definition get_task_run :: "nat \<Rightarrow> string option \<Rightarrow> db \<Rightarrow> task_run option" where
  "get_task_run run task_id d =
     find (\<lambda>r. r_id r = run \<and> (case task_id of None \<Rightarrow> True | Some i \<Rightarrow> r_task_id r = i)) (db_runs d)"

record run_patch =
  u_run_id :: "int option field"
  u_summary :: "string option field"
  u_error_code :: "string option field"
  u_error_text :: "string option field"
  u_finished_at :: "instant option field"

definition no_run_patch :: run_patch where
  "no_run_patch = \<lparr>u_run_id = Unset, u_summary = Unset, u_error_code = Unset,
     u_error_text = Unset, u_finished_at = Unset\<rparr>"

definition update_task_run :: "nat \<Rightarrow> string \<Rightarrow> run_patch \<Rightarrow> db \<Rightarrow> db" where
  "update_task_run run st u d =
     d\<lparr>db_runs := update_where (\<lambda>r. r_id r = run)
        (\<lambda>r. r\<lparr>r_status := st,
              r_run_id := field_or (u_run_id u) (r_run_id r),
              r_summary := field_or (u_summary u) (r_summary r),
              r_error_code := field_or (u_error_code u) (r_error_code r),
              r_error_text := field_or (u_error_text u) (r_error_text r),
              r_finished_at := field_or (u_finished_at u) (r_finished_at r)\<rparr>) (db_runs d)\<rparr>"

definition repo_create_attachment :: "attachment \<Rightarrow> db \<Rightarrow> db \<times> attachment" where
  "repo_create_attachment row d = (d\<lparr>db_attachments := db_attachments d @ [row]\<rparr>, row)"

text \<open>Newest first: \<open>created_at DESC, id DESC\<close>.\<close>

definition list_task_attachments :: "string \<Rightarrow> db \<Rightarrow> attachment list" where
  "list_task_attachments task_id d =
     rev (sort_key (\<lambda>a. (a_created_at a, a_id a))
       (filter (\<lambda>a. a_task_id a = task_id) (db_attachments d)))"

section \<open>The keyed-row interface\<close>

text \<open>
  What the service relies on when it reads a row by its key, changes it and writes it back:
  the written row is the one read next, and no other row moves.
\<close>

locale row_store =
  fixes get :: "'k \<Rightarrow> 'd \<Rightarrow> 'r option"
    and put :: "'r \<Rightarrow> 'd \<Rightarrow> 'd"
    and key :: "'r \<Rightarrow> 'k"
    and inv :: "'d \<Rightarrow> bool"
  assumes get_key: "get k d = Some r \<Longrightarrow> key r = k"
    and get_put: "inv d \<Longrightarrow> get (key r) d \<noteq> None \<Longrightarrow>
           get k (put r d) = (if k = key r then Some r else get k d)"
    and inv_put: "inv d \<Longrightarrow> get (key r) d \<noteq> None \<Longrightarrow> inv (put r d)"
begin

definition modify :: "('r \<Rightarrow> 'r) \<Rightarrow> 'k \<Rightarrow> 'd \<Rightarrow> 'd" where
  "modify f k d = (case get k d of None \<Rightarrow> d | Some r \<Rightarrow> put (f r) d)"

lemma get_modify:
  assumes "inv d" and "\<And>r. key (f r) = key r"
  shows "get k' (modify f k d) = (if k' = k then map_option f (get k d) else get k' d)"
proof (cases "get k d")
  case None
  then show ?thesis by (simp add: modify_def)
next
  case (Some r)
  then have "key (f r) = k" using assms(2) get_key by metis
  then show ?thesis using Some get_put [of d "f r" k'] assms(1) by (simp add: modify_def)
qed

lemma inv_modify:
  assumes "inv d" and "\<And>r. key (f r) = key r"
  shows "inv (modify f k d)"
proof (cases "get k d")
  case (Some r)
  then have "key (f r) = k" using assms(2) get_key by metis
  then show ?thesis using Some inv_put [of d "f r"] assms(1) by (simp add: modify_def)
qed (simp add: modify_def assms(1))

text \<open>A run of modifications leaves every key it does not name alone.\<close>

lemma get_fold_modify:
  assumes "inv d" and "\<And>r. key (f r) = key r" and "k' \<notin> set ks"
  shows "get k' (fold (modify f) ks d) = get k' d"
  using assms
proof (induction ks arbitrary: d)
  case (Cons k ks)
  then have "get k' (fold (modify f) ks (modify f k d)) = get k' (modify f k d)"
    by (simp add: inv_modify)
  then show ?case using Cons.prems by (simp add: get_modify)
qed simp

end

section \<open>Lemmas\<close>

lemma get_task_SomeD:
  assumes "get_task p i d = Some t"
  shows "t \<in> set (db_tasks d)" and "t_profile_id t = p" and "t_id t = i"
  using assms by (auto simp: get_task_def find_Some_iff)

definition ids_unique :: "db \<Rightarrow> bool" where
  "ids_unique d \<longleftrightarrow> distinct (map t_id (db_tasks d))"

lemma task_constraints_ids [simp]: "task_constraints d \<Longrightarrow> ids_unique d"
  by (simp add: task_constraints_def ids_unique_def)

lemma ids_unique_eqD:
  assumes "ids_unique d" and "t \<in> set (db_tasks d)" and "u \<in> set (db_tasks d)"
    and "t_id t = t_id u"
  shows "t = u"
  using assms by (auto simp: ids_unique_def distinct_map inj_on_def)

lemma get_task_eq_Some_iff:
  assumes "ids_unique d"
  shows "get_task p i d = Some t \<longleftrightarrow>
           t \<in> set (db_tasks d) \<and> t_profile_id t = p \<and> t_id t = i"
  unfolding get_task_def by (rule find_keyed_iff) (use assms in \<open>simp add: ids_unique_def\<close>)

lemma patch_columns_frame [simp]:
  "t_id (patch_columns p t) = t_id t"
  "t_profile_id (patch_columns p t) = t_profile_id t"
  "t_flow_id (patch_columns p t) = t_flow_id t"
  "t_source_type (patch_columns p t) = t_source_type t"
  "t_source_ref (patch_columns p t) = t_source_ref t"
  "t_created_by_type (patch_columns p t) = t_created_by_type t"
  "t_created_by_ref (patch_columns p t) = t_created_by_ref t"
  "t_current_attempt (patch_columns p t) = t_current_attempt t"
  "t_last_run_id (patch_columns p t) = t_last_run_id t"
  "t_created_at (patch_columns p t) = t_created_at t"
  by (simp_all add: patch_columns_def)

lemma patch_columns_sets [simp]:
  "t_status (patch_columns p t) = opt_or (p_status p) (t_status t)"
  "t_owner_type (patch_columns p t) = opt_or (p_owner_type p) (t_owner_type t)"
  "t_owner_ref (patch_columns p t) = opt_or (p_owner_ref p) (t_owner_ref t)"
  "t_reviewer_type (patch_columns p t) = field_or (p_reviewer_type p) (t_reviewer_type t)"
  "t_reviewer_ref (patch_columns p t) = field_or (p_reviewer_ref p) (t_reviewer_ref t)"
  "t_ready_at (patch_columns p t) = field_or (p_ready_at p) (t_ready_at t)"
  "t_claim_token (patch_columns p t) = t_claim_token t"
  "t_claim_owner_type (patch_columns p t) = t_claim_owner_type t"
  "t_claim_owner_ref (patch_columns p t) = t_claim_owner_ref t"
  "t_claim_source_status (patch_columns p t) = t_claim_source_status t"
  "t_claimed_by (patch_columns p t) = t_claimed_by t"
  "t_lease_until (patch_columns p t) = t_lease_until t"
  "t_finished_at (patch_columns p t) = t_finished_at t"
  by (simp_all add: patch_columns_def)

lemma patch_blocked_reason_frame [simp]:
  "t_id (patch_blocked_reason p t) = t_id t"
  "t_profile_id (patch_blocked_reason p t) = t_profile_id t"
  "t_flow_id (patch_blocked_reason p t) = t_flow_id t"
  "t_source_type (patch_blocked_reason p t) = t_source_type t"
  "t_source_ref (patch_blocked_reason p t) = t_source_ref t"
  "t_created_by_type (patch_blocked_reason p t) = t_created_by_type t"
  "t_created_by_ref (patch_blocked_reason p t) = t_created_by_ref t"
  "t_current_attempt (patch_blocked_reason p t) = t_current_attempt t"
  "t_last_run_id (patch_blocked_reason p t) = t_last_run_id t"
  "t_created_at (patch_blocked_reason p t) = t_created_at t"
  "t_status (patch_blocked_reason p t) = t_status t"
  "t_owner_type (patch_blocked_reason p t) = t_owner_type t"
  "t_owner_ref (patch_blocked_reason p t) = t_owner_ref t"
  "t_reviewer_type (patch_blocked_reason p t) = t_reviewer_type t"
  "t_reviewer_ref (patch_blocked_reason p t) = t_reviewer_ref t"
  "t_claim_token (patch_blocked_reason p t) = t_claim_token t"
  "t_claim_owner_type (patch_blocked_reason p t) = t_claim_owner_type t"
  "t_claim_owner_ref (patch_blocked_reason p t) = t_claim_owner_ref t"
  "t_claim_source_status (patch_blocked_reason p t) = t_claim_source_status t"
  "t_claimed_by (patch_blocked_reason p t) = t_claimed_by t"
  "t_lease_until (patch_blocked_reason p t) = t_lease_until t"
  "t_ready_at (patch_blocked_reason p t) = t_ready_at t"
  "t_finished_at (patch_blocked_reason p t) = t_finished_at t"
  by (simp_all add: patch_blocked_reason_def)

lemma clear_claim_frame [simp]:
  "t_id (clear_claim_columns t) = t_id t"
  "t_profile_id (clear_claim_columns t) = t_profile_id t"
  "t_flow_id (clear_claim_columns t) = t_flow_id t"
  "t_source_type (clear_claim_columns t) = t_source_type t"
  "t_source_ref (clear_claim_columns t) = t_source_ref t"
  "t_created_by_type (clear_claim_columns t) = t_created_by_type t"
  "t_created_by_ref (clear_claim_columns t) = t_created_by_ref t"
  "t_current_attempt (clear_claim_columns t) = t_current_attempt t"
  "t_last_run_id (clear_claim_columns t) = t_last_run_id t"
  "t_created_at (clear_claim_columns t) = t_created_at t"
  "t_status (clear_claim_columns t) = t_status t"
  "t_owner_type (clear_claim_columns t) = t_owner_type t"
  "t_owner_ref (clear_claim_columns t) = t_owner_ref t"
  "t_reviewer_type (clear_claim_columns t) = t_reviewer_type t"
  "t_reviewer_ref (clear_claim_columns t) = t_reviewer_ref t"
  "t_blocked_reason_code (clear_claim_columns t) = t_blocked_reason_code t"
  "t_blocked_reason_text (clear_claim_columns t) = t_blocked_reason_text t"
  "t_ready_at (clear_claim_columns t) = t_ready_at t"
  "t_finished_at (clear_claim_columns t) = t_finished_at t"
  by (simp_all add: clear_claim_columns_def)

lemma patch_claim_frame [simp]:
  "t_id (patch_claim p t) = t_id t"
  "t_profile_id (patch_claim p t) = t_profile_id t"
  "t_flow_id (patch_claim p t) = t_flow_id t"
  "t_source_type (patch_claim p t) = t_source_type t"
  "t_source_ref (patch_claim p t) = t_source_ref t"
  "t_created_by_type (patch_claim p t) = t_created_by_type t"
  "t_created_by_ref (patch_claim p t) = t_created_by_ref t"
  "t_current_attempt (patch_claim p t) = t_current_attempt t"
  "t_last_run_id (patch_claim p t) = t_last_run_id t"
  "t_created_at (patch_claim p t) = t_created_at t"
  "t_status (patch_claim p t) = t_status t"
  "t_owner_type (patch_claim p t) = t_owner_type t"
  "t_owner_ref (patch_claim p t) = t_owner_ref t"
  "t_reviewer_type (patch_claim p t) = t_reviewer_type t"
  "t_reviewer_ref (patch_claim p t) = t_reviewer_ref t"
  "t_blocked_reason_code (patch_claim p t) = t_blocked_reason_code t"
  "t_blocked_reason_text (patch_claim p t) = t_blocked_reason_text t"
  "t_ready_at (patch_claim p t) = t_ready_at t"
  "t_finished_at (patch_claim p t) = t_finished_at t"
  by (simp_all add: patch_claim_def split: option.split)

lemma patch_ready_frame [simp]:
  "t_id (patch_ready now p t) = t_id t"
  "t_profile_id (patch_ready now p t) = t_profile_id t"
  "t_flow_id (patch_ready now p t) = t_flow_id t"
  "t_source_type (patch_ready now p t) = t_source_type t"
  "t_source_ref (patch_ready now p t) = t_source_ref t"
  "t_created_by_type (patch_ready now p t) = t_created_by_type t"
  "t_created_by_ref (patch_ready now p t) = t_created_by_ref t"
  "t_current_attempt (patch_ready now p t) = t_current_attempt t"
  "t_last_run_id (patch_ready now p t) = t_last_run_id t"
  "t_created_at (patch_ready now p t) = t_created_at t"
  "t_status (patch_ready now p t) = t_status t"
  "t_owner_type (patch_ready now p t) = t_owner_type t"
  "t_owner_ref (patch_ready now p t) = t_owner_ref t"
  "t_reviewer_type (patch_ready now p t) = t_reviewer_type t"
  "t_reviewer_ref (patch_ready now p t) = t_reviewer_ref t"
  "t_blocked_reason_code (patch_ready now p t) = t_blocked_reason_code t"
  "t_blocked_reason_text (patch_ready now p t) = t_blocked_reason_text t"
  "t_claim_token (patch_ready now p t) = t_claim_token t"
  "t_claim_owner_type (patch_ready now p t) = t_claim_owner_type t"
  "t_claim_owner_ref (patch_ready now p t) = t_claim_owner_ref t"
  "t_claim_source_status (patch_ready now p t) = t_claim_source_status t"
  "t_claimed_by (patch_ready now p t) = t_claimed_by t"
  "t_lease_until (patch_ready now p t) = t_lease_until t"
  "t_finished_at (patch_ready now p t) = t_finished_at t"
  by (simp_all add: patch_ready_def split: option.split status.split)

lemma patch_finished_frame [simp]:
  "t_id (patch_finished now p t) = t_id t"
  "t_profile_id (patch_finished now p t) = t_profile_id t"
  "t_flow_id (patch_finished now p t) = t_flow_id t"
  "t_source_type (patch_finished now p t) = t_source_type t"
  "t_source_ref (patch_finished now p t) = t_source_ref t"
  "t_created_by_type (patch_finished now p t) = t_created_by_type t"
  "t_created_by_ref (patch_finished now p t) = t_created_by_ref t"
  "t_current_attempt (patch_finished now p t) = t_current_attempt t"
  "t_last_run_id (patch_finished now p t) = t_last_run_id t"
  "t_created_at (patch_finished now p t) = t_created_at t"
  "t_status (patch_finished now p t) = t_status t"
  "t_owner_type (patch_finished now p t) = t_owner_type t"
  "t_owner_ref (patch_finished now p t) = t_owner_ref t"
  "t_reviewer_type (patch_finished now p t) = t_reviewer_type t"
  "t_reviewer_ref (patch_finished now p t) = t_reviewer_ref t"
  "t_blocked_reason_code (patch_finished now p t) = t_blocked_reason_code t"
  "t_blocked_reason_text (patch_finished now p t) = t_blocked_reason_text t"
  "t_claim_token (patch_finished now p t) = t_claim_token t"
  "t_claim_owner_type (patch_finished now p t) = t_claim_owner_type t"
  "t_claim_owner_ref (patch_finished now p t) = t_claim_owner_ref t"
  "t_claim_source_status (patch_finished now p t) = t_claim_source_status t"
  "t_claimed_by (patch_finished now p t) = t_claimed_by t"
  "t_lease_until (patch_finished now p t) = t_lease_until t"
  "t_ready_at (patch_finished now p t) = t_ready_at t"
  by (simp_all add: patch_finished_def split: option.split)

lemma apply_patch_frame [simp]:
  "t_id (apply_patch now p t) = t_id t"
  "t_profile_id (apply_patch now p t) = t_profile_id t"
  "t_flow_id (apply_patch now p t) = t_flow_id t"
  "t_source_type (apply_patch now p t) = t_source_type t"
  "t_source_ref (apply_patch now p t) = t_source_ref t"
  "t_created_by_type (apply_patch now p t) = t_created_by_type t"
  "t_created_by_ref (apply_patch now p t) = t_created_by_ref t"
  "t_current_attempt (apply_patch now p t) = t_current_attempt t"
  "t_last_run_id (apply_patch now p t) = t_last_run_id t"
  "t_created_at (apply_patch now p t) = t_created_at t"
  "t_status (apply_patch now p t) = opt_or (p_status p) (t_status t)"
  "t_owner_type (apply_patch now p t) = opt_or (p_owner_type p) (t_owner_type t)"
  "t_owner_ref (apply_patch now p t) = opt_or (p_owner_ref p) (t_owner_ref t)"
  "t_reviewer_type (apply_patch now p t) = field_or (p_reviewer_type p) (t_reviewer_type t)"
  "t_reviewer_ref (apply_patch now p t) = field_or (p_reviewer_ref p) (t_reviewer_ref t)"
  by (simp_all add: apply_patch_def)

lemma touch_row_frame [simp]:
  "t_id (touch_row c old new) = t_id new"
  "t_profile_id (touch_row c old new) = t_profile_id new"
  "t_status (touch_row c old new) = t_status new"
  "t_owner_type (touch_row c old new) = t_owner_type new"
  "t_owner_ref (touch_row c old new) = t_owner_ref new"
  "t_claim_token (touch_row c old new) = t_claim_token new"
  "t_claim_owner_type (touch_row c old new) = t_claim_owner_type new"
  "t_claim_owner_ref (touch_row c old new) = t_claim_owner_ref new"
  "t_claim_source_status (touch_row c old new) = t_claim_source_status new"
  "t_claimed_by (touch_row c old new) = t_claimed_by new"
  "t_lease_until (touch_row c old new) = t_lease_until new"
  "t_ready_at (touch_row c old new) = t_ready_at new"
  "t_blocked_reason_code (touch_row c old new) = t_blocked_reason_code new"
  "t_blocked_reason_text (touch_row c old new) = t_blocked_reason_text new"
  "t_finished_at (touch_row c old new) = t_finished_at new"
  "t_last_run_id (touch_row c old new) = t_last_run_id new"
  "t_flow_id (touch_row c old new) = t_flow_id new"
  "t_created_at (touch_row c old new) = t_created_at new"
  "t_reviewer_type (touch_row c old new) = t_reviewer_type new"
  "t_reviewer_ref (touch_row c old new) = t_reviewer_ref new"
  by (auto simp: touch_row_def)

text \<open>The stored tasks under the interface: keyed by profile and id.\<close>

definition task_key :: "task \<Rightarrow> string \<times> string" where
  "task_key t = (t_profile_id t, t_id t)"

definition get_task_by_key :: "string \<times> string \<Rightarrow> db \<Rightarrow> task option" where
  "get_task_by_key k d = get_task (fst k) (snd k) d"

lemma set_put_task:
  "u \<in> set (db_tasks (put_task r d)) \<longleftrightarrow>
     (\<exists>t \<in> set (db_tasks d). u = (if t_id t = t_id r then r else t))"
  by (simp add: put_task_def set_update_where)

lemma map_id_put_task: "map t_id (db_tasks (put_task r d)) = map t_id (db_tasks d)"
  by (simp add: put_task_def update_where_def)

lemma ids_unique_put_task [simp]: "ids_unique (put_task r d) = ids_unique d"
  by (simp add: ids_unique_def map_id_put_task)

interpretation task_rows: row_store get_task_by_key put_task task_key ids_unique
proof unfold_locales
  show "task_key r = k" if "get_task_by_key k d = Some r" for k d r
    using get_task_SomeD [OF that [unfolded get_task_by_key_def]] by (simp add: task_key_def)
  show "ids_unique (put_task r d)" if "ids_unique d" for d r using that by simp
  show "get_task_by_key k (put_task r d) = (if k = task_key r then Some r else get_task_by_key k d)"
    if inv: "ids_unique d" and ex: "get_task_by_key (task_key r) d \<noteq> None" for d r k
  proof -
    from ex obtain r0 where r0: "get_task (t_profile_id r) (t_id r) d = Some r0"
      by (cases "get_task (t_profile_id r) (t_id r) d") (simp_all add: get_task_by_key_def task_key_def)
    note r0D = get_task_SomeD [OF r0]
    have only: "\<forall>t \<in> set (db_tasks d). t_id t = t_id r \<longrightarrow> t_profile_id t = t_profile_id r"
      using ids_unique_eqD [OF inv _ r0D(1)] r0D(2,3) by metis
    have hit: "\<exists>t \<in> set (db_tasks d). t_id t = t_id r" using r0D by metis
    obtain p i where k: "k = (p, i)" by (cases k)
    show ?thesis
      unfolding k get_task_by_key_def get_task_def put_task_def task_key_def fst_conv snd_conv
      using find_update_row [OF only, of p i] hit by simp
  qed
qed

lemma get_task_put_task:
  assumes "ids_unique d" and "get_task p i d = Some r0" and "t_profile_id r = p" and "t_id r = i"
  shows "get_task p' i' (put_task r d) = (if p' = p \<and> i' = i then Some r else get_task p' i' d)"
  using task_rows.get_put [of d r "(p', i')"] assms
  by (auto simp: get_task_by_key_def task_key_def)

lemma repo_update_task_SomeD:
  assumes "repo_update_task now p i patch d = Inr (d', Some row')"
  obtains row where "get_task p i d = Some row"
    and "row' = touch_row (db_clock d) row (apply_patch now patch row)"
    and "d' = put_task row' d" and "task_constraints d'"
  using assms by (auto simp: repo_update_task_def Let_def bindE_eq_Inr_iff split: option.splits)

lemma repo_update_task_get:
  assumes "ids_unique d" and "repo_update_task now p i patch d = Inr (d', Some row')"
  shows "get_task p' i' d' = (if p' = p \<and> i' = i then Some row' else get_task p' i' d)"
proof -
  from assms(2) obtain row where row: "get_task p i d = Some row"
    and row': "row' = touch_row (db_clock d) row (apply_patch now patch row)"
    and d': "d' = put_task row' d" by (rule repo_update_task_SomeD)
  show ?thesis unfolding d'
    by (rule get_task_put_task [OF assms(1) row])
      (use row' get_task_SomeD [OF row] in simp_all)
qed

lemma put_task_frame [simp]:
  "db_profiles (put_task r d) = db_profiles d"
  "db_flows (put_task r d) = db_flows d"
  "db_deps (put_task r d) = db_deps d"
  "db_events (put_task r d) = db_events d"
  "db_runs (put_task r d) = db_runs d"
  "db_attachments (put_task r d) = db_attachments d"
  "db_clock (put_task r d) = db_clock d"
  by (simp_all add: put_task_def)

lemma record_task_event_frame [simp]:
  "db_profiles (record_task_event ev d) = db_profiles d"
  "db_flows (record_task_event ev d) = db_flows d"
  "db_tasks (record_task_event ev d) = db_tasks d"
  "db_deps (record_task_event ev d) = db_deps d"
  "db_runs (record_task_event ev d) = db_runs d"
  "db_attachments (record_task_event ev d) = db_attachments d"
  "db_clock (record_task_event ev d) = db_clock d"
  by (simp_all add: record_task_event_def create_task_event_def Let_def)

lemma update_task_run_frame [simp]:
  "db_tasks (update_task_run r st u d) = db_tasks d"
  "db_deps (update_task_run r st u d) = db_deps d"
  "db_events (update_task_run r st u d) = db_events d"
  "db_profiles (update_task_run r st u d) = db_profiles d"
  by (simp_all add: update_task_run_def)

lemma get_task_cong: "db_tasks d = db_tasks d' \<Longrightarrow> get_task p i d = get_task p i d'"
  by (simp add: get_task_def)

lemma get_task_record_task_event [simp]: "get_task p i (record_task_event ev d) = get_task p i d"
  by (rule get_task_cong) simp

lemma task_constraints_cong:
  "db_tasks d = db_tasks d' \<Longrightarrow> task_constraints d = task_constraints d'"
  by (simp add: task_constraints_def)

lemma task_constraints_record_task_event [simp]:
  "task_constraints (record_task_event ev d) = task_constraints d"
  by (rule task_constraints_cong) simp

section \<open>Data of the concrete instances\<close>

definition example_task :: "string \<Rightarrow> task" where
  "example_task i = (task_defaults 0)\<lparr>t_id := i, t_profile_id := ''default'',
     t_owner_type := employee_type, t_owner_ref := ''ann''\<rparr>"

definition example_db :: "task list \<Rightarrow> dependency list \<Rightarrow> db" where
  "example_db tasks deps = \<lparr>db_profiles = [''default''], db_flows = [], db_tasks = tasks,
     db_deps = deps, db_events = [], db_runs = [], db_attachments = [], db_next_event = 0,
     db_next_run = 0, db_clock = 5\<rparr>"

definition urgent_task :: task where
  "urgent_task = (example_task ''b'')\<lparr>t_priority := 70\<rparr>"

definition two_tasks :: db where
  "two_tasks = example_db [example_task ''a'', urgent_task] []"

end
