(* ===== verification/Worklist.thy ===== *)
theory Worklist
  imports Prelude
begin

text \<open>
  The stack-driven graph searches of the program: collecting everything reachable (the
  reports below a manager) and looking for one node (the cycle check on dependency edges).
  Both terminate because expanding a node uses up its outgoing edges. The locale states how
  a reachability check keeps a growing graph acyclic.
\<close>

section \<open>The searches\<close>

definition succs :: "('a \<times> 'a) list \<Rightarrow> 'a \<Rightarrow> 'a list" where
  "succs es x = map snd (filter (\<lambda>e. fst e = x) es)"

text \<open>
  \<open>pending\<close> is a stack whose top is the head of the list: \<open>pop()\<close> takes it, and extending the
  stack by a list leaves the last item of that list on top.
\<close>

definition unexpanded :: "('a \<times> 'a) list \<Rightarrow> 'a list \<Rightarrow> nat" where
  "unexpanded es seen = length (filter (\<lambda>e. fst e \<notin> set seen) es)"

lemma unexpanded_step:
  assumes "x \<notin> set seen"
  shows "length (succs es x) + unexpanded es (x # seen) = unexpanded es seen"
  using assms by (induction es) (auto simp: succs_def unexpanded_def)

function reach_loop :: "('a \<times> 'a) list \<Rightarrow> 'a list \<Rightarrow> 'a list \<Rightarrow> 'a list" where
  "reach_loop es [] seen = seen"
| "reach_loop es (x # pending) seen =
     (if x \<in> set seen then reach_loop es pending seen
      else reach_loop es (rev (succs es x) @ pending) (x # seen))"
  by pat_completeness auto
termination
proof (relation "measure (\<lambda>(es, pending, seen). length pending + unexpanded es seen)")
  fix es x pending seen
  assume "x \<notin> set seen"
  from unexpanded_step [OF this, of es]
  show "((es, rev (succs es x) @ pending, x # seen), es, x # pending, seen)
      \<in> measure (\<lambda>(es, pending, seen). length pending + unexpanded es seen)"
    by simp
qed simp_all

function search_loop :: "('a \<times> 'a) list \<Rightarrow> 'a \<Rightarrow> 'a list \<Rightarrow> 'a list \<Rightarrow> bool" where
  "search_loop es target [] seen = False"
| "search_loop es target (x # pending) seen =
     (if x = target then True
      else if x \<in> set seen then search_loop es target pending seen
      else search_loop es target (rev (succs es x) @ pending) (x # seen))"
  by pat_completeness auto
termination
proof (relation "measure (\<lambda>(es, target, pending, seen). length pending + unexpanded es seen)")
  fix es target x pending seen
  assume "x \<notin> set seen"
  from unexpanded_step [OF this, of es]
  show "((es, target, rev (succs es x) @ pending, x # seen), es, target, x # pending, seen)
      \<in> measure (\<lambda>(es, target, pending, seen). length pending + unexpanded es seen)"
    by simp
qed simp_all

section \<open>What they compute\<close>

lemma set_succs [simp]: "set (succs es x) = {y. (x, y) \<in> set es}"
  by (force simp: succs_def)

text \<open>Every expanded node has its successors among the seen and pending ones.\<close>

definition frontier :: "('a \<times> 'a) list \<Rightarrow> 'a list \<Rightarrow> 'a list \<Rightarrow> bool" where
  "frontier es pending seen \<longleftrightarrow> set es `` set seen \<subseteq> set seen \<union> set pending"

lemma frontier_skip:
  "frontier es (x # pending) seen \<Longrightarrow> x \<in> set seen \<Longrightarrow> frontier es pending seen"
  by (auto simp: frontier_def)

lemma frontier_expand:
  "frontier es (x # pending) seen \<Longrightarrow> frontier es (rev (succs es x) @ pending) (x # seen)"
  by (auto simp: frontier_def)

lemma reach_expand:
  assumes "x \<in> S"
  shows "R\<^sup>* `` (S \<union> R `` {x}) = R\<^sup>* `` S"
  using assms by (auto intro: converse_rtrancl_into_rtrancl)

lemma closed_rtrancl:
  assumes "R `` S \<subseteq> S"
  shows "R\<^sup>* `` S = S"
proof
  show "R\<^sup>* `` S \<subseteq> S"
  proof
    fix y assume "y \<in> R\<^sup>* `` S"
    then obtain x where "(x, y) \<in> R\<^sup>*" "x \<in> S" by blast
    then show "y \<in> S" using assms by (induction rule: rtrancl_induct) blast+
  qed
qed blast

lemma set_reach_loop:
  assumes "frontier es pending seen"
  shows "set (reach_loop es pending seen) = (set es)\<^sup>* `` (set seen \<union> set pending)"
  using assms
proof (induction es pending seen rule: reach_loop.induct)
  case (1 es seen)
  then have "set es `` set seen \<subseteq> set seen" by (simp add: frontier_def)
  then show ?case by (simp add: closed_rtrancl)
next
  case (2 es x pending seen)
  show ?case
  proof (cases "x \<in> set seen")
    case True
    then have "set (reach_loop es pending seen) = (set es)\<^sup>* `` (set seen \<union> set pending)"
      by (rule "2.IH"(1)) (rule frontier_skip [OF "2.prems" True])
    moreover have "set seen \<union> set (x # pending) = set seen \<union> set pending" using True by auto
    ultimately show ?thesis using True by simp
  next
    case False
    then have "set (reach_loop es (rev (succs es x) @ pending) (x # seen))
        = (set es)\<^sup>* `` (set (x # seen) \<union> set (rev (succs es x) @ pending))"
      by (rule "2.IH"(2)) (rule frontier_expand [OF "2.prems"])
    also have "set (x # seen) \<union> set (rev (succs es x) @ pending)
        = (set seen \<union> set (x # pending)) \<union> set es `` {x}" by auto
    also have "(set es)\<^sup>* `` \<dots> = (set es)\<^sup>* `` (set seen \<union> set (x # pending))"
      by (rule reach_expand) simp
    finally show ?thesis using False by simp
  qed
qed

lemma search_loop_iff:
  assumes "frontier es pending seen" and "target \<notin> set seen"
  shows "search_loop es target pending seen \<longleftrightarrow> target \<in> (set es)\<^sup>* `` (set seen \<union> set pending)"
  using assms
proof (induction es target pending seen rule: search_loop.induct)
  case (1 es target seen)
  then have "set es `` set seen \<subseteq> set seen" by (simp add: frontier_def)
  with 1 show ?case by (simp add: closed_rtrancl)
next
  case (2 es target x pending seen)
  consider (hit) "x = target" | (skip) "x \<noteq> target" "x \<in> set seen"
    | (expand) "x \<noteq> target" "x \<notin> set seen" by blast
  then show ?case
  proof cases
    case hit
    then have "target \<in> (set es)\<^sup>* `` (set seen \<union> set (x # pending))" by auto
    with hit show ?thesis by simp
  next
    case skip
    then have "search_loop es target pending seen
        \<longleftrightarrow> target \<in> (set es)\<^sup>* `` (set seen \<union> set pending)"
      by (rule "2.IH"(1)) (rule frontier_skip [OF "2.prems"(1) skip(2)], rule "2.prems"(2))
    moreover have "set seen \<union> set (x # pending) = set seen \<union> set pending" using skip by auto
    ultimately show ?thesis using skip by simp
  next
    case expand
    then have "search_loop es target (rev (succs es x) @ pending) (x # seen)
        \<longleftrightarrow> target \<in> (set es)\<^sup>* `` (set (x # seen) \<union> set (rev (succs es x) @ pending))"
      by (rule "2.IH"(2)) (rule frontier_expand [OF "2.prems"(1)], use "2.prems"(2) expand in simp)
    also have "set (x # seen) \<union> set (rev (succs es x) @ pending)
        = (set seen \<union> set (x # pending)) \<union> set es `` {x}" by auto
    also have "(set es)\<^sup>* `` \<dots> = (set es)\<^sup>* `` (set seen \<union> set (x # pending))"
      by (rule reach_expand) simp
    finally show ?thesis using expand by simp
  qed
qed

lemma set_reach_from [simp]: "set (reach_loop es pending []) = (set es)\<^sup>* `` set pending"
  by (subst set_reach_loop) (simp_all add: frontier_def)

lemma search_from [simp]:
  "search_loop es target pending [] \<longleftrightarrow> (\<exists>x \<in> set pending. (x, target) \<in> (set es)\<^sup>*)"
  by (subst search_loop_iff) (auto simp: frontier_def)

section \<open>Growing an acyclic graph\<close>

text \<open>
  A client that adds an edge only when a check has excluded a path back. \<open>ok\<close> is the check,
  \<open>add\<close> the insertion; what they must guarantee is the two laws.
\<close>

locale guarded_graph =
  fixes rel :: "'d \<Rightarrow> ('a \<times> 'a) set"
    and ok :: "'d \<Rightarrow> 'a \<Rightarrow> 'a \<Rightarrow> bool"
    and add :: "'a \<Rightarrow> 'a \<Rightarrow> 'd \<Rightarrow> 'd"
  assumes ok_no_path: "ok d a b \<Longrightarrow> (b, a) \<notin> (rel d)\<^sup>*"
    and rel_add: "ok d a b \<Longrightarrow> rel (add a b d) \<subseteq> insert (a, b) (rel d)"
begin

fun grow :: "('a \<times> 'a) list \<Rightarrow> 'd \<Rightarrow> 'd" where
  "grow [] d = d"
| "grow ((a, b) # es) d = grow es (if ok d a b then add a b d else d)"

lemma acyclic_add:
  assumes "acyclic (rel d)" and "ok d a b"
  shows "acyclic (rel (add a b d))"
proof (rule acyclic_subset)
  show "acyclic (insert (a, b) (rel d))"
    using assms ok_no_path by (simp add: acyclic_insert)
  show "rel (add a b d) \<subseteq> insert (a, b) (rel d)" by (rule rel_add [OF assms(2)])
qed

lemma acyclic_grow: "acyclic (rel d) \<Longrightarrow> acyclic (rel (grow es d))"
  by (induction es d rule: grow.induct) (simp_all add: acyclic_add)

end

section \<open>Topological order\<close>

text \<open>Every node of the list comes after all its predecessors.\<close>

definition topological :: "('a \<times> 'a) set \<Rightarrow> 'a list \<Rightarrow> bool" where
  "topological E xs \<longleftrightarrow> (\<forall>ys t zs. xs = ys @ t # zs \<longrightarrow> E\<inverse> `` {t} \<subseteq> set ys)"

lemma topological_Nil [simp]: "topological E []"
  by (simp add: topological_def)

lemma topological_snoc: "topological E (xs @ [t]) \<longleftrightarrow> topological E xs \<and> E\<inverse> `` {t} \<subseteq> set xs"
proof
  assume top: "topological E (xs @ [t])"
  have "E\<inverse> `` {u} \<subseteq> set ys" if "xs = ys @ u # zs" for ys u zs
    using top that by (simp add: topological_def)
  with top show "topological E xs \<and> E\<inverse> `` {t} \<subseteq> set xs" by (simp add: topological_def)
next
  assume r: "topological E xs \<and> E\<inverse> `` {t} \<subseteq> set xs"
  have "E\<inverse> `` {u} \<subseteq> set ys" if eq: "xs @ [t] = ys @ u # zs" for ys u zs
  proof (cases zs rule: rev_cases)
    case Nil
    with eq r show ?thesis by simp
  next
    case (snoc zs' z)
    with eq have "xs = ys @ u # zs'" by simp
    with r show ?thesis by (simp add: topological_def)
  qed
  then show "topological E (xs @ [t])" by (simp add: topological_def)
qed

lemma topological_acyclic:
  assumes "topological E xs" and "snd ` E \<subseteq> set xs"
  shows "acyclic E"
proof (rule acyclicI_order)
  fix a b assume ab: "(a, b) \<in> E"
  with assms(2) have "b \<in> set xs" by force
  then obtain ys zs where xs: "xs = ys @ b # zs" "b \<notin> set ys" by (meson split_list_first)
  then have "a \<in> set ys" using assms(1) ab by (auto simp: topological_def)
  then have "length (takeWhile (\<lambda>y. y \<noteq> a) xs) < length ys"
    unfolding xs by (induction ys) auto
  moreover have "length (takeWhile (\<lambda>y. y \<noteq> b) xs) = length ys"
    using xs(2) unfolding xs(1) by (induction ys) auto
  ultimately show "- int (length (takeWhile (\<lambda>y. y \<noteq> b) xs))
      < - int (length (takeWhile (\<lambda>y. y \<noteq> a) xs))"
    by simp
qed

text \<open>A set of nodes in which everyone has a predecessor lies on a cycle, or is empty.\<close>

lemma acyclic_no_predecessors:
  assumes "finite E" and "acyclic E" and "\<And>u. u \<in> U \<Longrightarrow> \<exists>s \<in> U. (s, u) \<in> E"
  shows "U = {}"
proof (rule ccontr)
  assume "U \<noteq> {}"
  then obtain u where u: "u \<in> U" by blast
  from finite_acyclic_wf [OF assms(1,2)] have "wf E" .
  with u obtain z where "z \<in> U" "\<forall>y. (y, z) \<in> E \<longrightarrow> y \<notin> U" unfolding wf_eq_minimal by blast
  with assms(3) show False by blast
qed

end
