(* ===== verification/Employees.thy ===== *)
theory Employees
  imports Py_Strings Worklist
begin

text \<open>
  Profile-local employees (afkbot/services/employees): descriptor parsing, the markdown store,
  validation of the organisation graph, the resolved org chart and the hard tool gate. A
  descriptor file is taken with its front matter already read into key/value pairs.
\<close>

section \<open>Identifiers\<close>

definition id_start_char :: "char \<Rightarrow> bool" where
  "id_start_char c = (is_ascii_lower c \<or> is_ascii_digit c)"

definition id_char :: "char \<Rightarrow> bool" where
  "id_char c = (id_start_char c \<or> c = CHR ''-'')"

text \<open>\<open>^[a-z0-9][a-z0-9-]{0,127}$\<close> on a stripped string, and the same without a bound.\<close>

definition employee_id_ok :: "string \<Rightarrow> bool" where
  "employee_id_ok s =
     (case s of [] \<Rightarrow> False
      | c # cs \<Rightarrow> id_start_char c \<and> list_all id_char cs \<and> length cs \<le> 127)"

definition validate_employee_id :: "string \<Rightarrow> string res" where
  "validate_employee_id employee_id =
     (let normalized = strip employee_id in
      if employee_id_ok normalized then Inr normalized else service_error ''invalid_employee_id'')"

definition profile_id_ok :: "string \<Rightarrow> bool" where
  "profile_id_ok s = (case s of [] \<Rightarrow> False | c # cs \<Rightarrow> id_start_char c \<and> list_all id_char cs)"

definition validate_profile :: "string \<Rightarrow> string res" where
  "validate_profile profile_id =
     (let normalized = strip profile_id in
      if profile_id_ok normalized then Inr normalized else service_error ''invalid_profile_id'')"

section \<open>Descriptors\<close>

datatype employee_status = Active | Disabled | Archived

record employee =
  emp_id :: string
  emp_profile_id :: string
  emp_name :: string
  emp_title :: string
  emp_role :: string
  emp_status :: employee_status
  emp_manager_id :: "string option"
  emp_reports :: "string list"
  emp_derived_reports :: "string list"
  emp_can_delegate_to :: "string list"
  emp_allowed_tools :: "string list"
  emp_can_use_subagents :: bool
  emp_subagent_allowlist :: "string list"
  emp_max_active_tasks :: int
  emp_body :: string

text \<open>Front matter values; a file is its front matter and its body.\<close>

datatype fm_value = Fm_Str string | Fm_Bool bool | Fm_List "string list"

type_synonym metadata = "(string \<times> fm_value) list"
type_synonym employee_file = "metadata \<times> string"

abbreviation descriptor_invalid :: "'a res" where
  "descriptor_invalid \<equiv> service_error ''employee_descriptor_invalid''"

definition required_string :: "metadata \<Rightarrow> string \<Rightarrow> string res" where
  "required_string m key =
     (case map_of m key of
        Some (Fm_Str s) \<Rightarrow> (if strip s = [] then descriptor_invalid else Inr (strip s))
      | _ \<Rightarrow> descriptor_invalid)"

definition optional_employee_id :: "metadata \<Rightarrow> string \<Rightarrow> string option res" where
  "optional_employee_id m key =
     (case map_of m key of
        None \<Rightarrow> Inr None
      | Some (Fm_Str s) \<Rightarrow>
          (if strip s = [] then descriptor_invalid
           else bindE (validate_employee_id (strip s)) (\<lambda>i. Inr (Some i)))
      | Some _ \<Rightarrow> descriptor_invalid)"

definition string_tuple :: "metadata \<Rightarrow> string \<Rightarrow> string list res" where
  "string_tuple m key =
     (case map_of m key of
        None \<Rightarrow> Inr []
      | Some (Fm_Str s) \<Rightarrow>
          Inr (uniq_first [] (filter (\<lambda>i. i \<noteq> []) (map strip (split_on (CHR '','') s))))
      | Some (Fm_List xs) \<Rightarrow> Inr (uniq_first [] (filter (\<lambda>i. i \<noteq> []) (map strip xs)))
      | Some (Fm_Bool _) \<Rightarrow> descriptor_invalid)"

definition employee_id_tuple :: "metadata \<Rightarrow> string \<Rightarrow> string list res" where
  "employee_id_tuple m key = bindE (string_tuple m key) (mapE validate_employee_id)"

definition subagent_name_tuple :: "metadata \<Rightarrow> string \<Rightarrow> string list res" where
  "subagent_name_tuple m key =
     bindE (string_tuple m key) (\<lambda>names.
     bindE (guardE (\<not> list_ex (\<lambda>n. list_ex (\<lambda>c. c = CHR ''/'' \<or> c = CHR 0x5C \<or> is_space c) n) names)
              (Service_Error ''employee_descriptor_invalid''))
       (\<lambda>_. Inr names))"

definition bool_value :: "fm_value \<Rightarrow> bool res" where
  "bool_value v =
     (case v of
        Fm_Bool b \<Rightarrow> Inr b
      | Fm_Str s \<Rightarrow>
          (let l = lower (strip s) in
           if l \<in> {''true'', ''1'', ''yes''} then Inr True
           else if l \<in> {''false'', ''0'', ''no'', ''''} then Inr False
           else descriptor_invalid)
      | Fm_List _ \<Rightarrow> descriptor_invalid)"

text \<open>\<open>int(str(value).strip())\<close>: a boolean or a list has no integer text.\<close>

definition positive_int :: "fm_value \<Rightarrow> int res" where
  "positive_int v =
     (case v of
        Fm_Str s \<Rightarrow>
          (case py_int s of
             None \<Rightarrow> descriptor_invalid
           | Some n \<Rightarrow> if n < 1 then descriptor_invalid else Inr n)
      | _ \<Rightarrow> descriptor_invalid)"

definition parse_status :: "string \<Rightarrow> employee_status res" where
  "parse_status s =
     (if s = ''active'' then Inr Active else if s = ''disabled'' then Inr Disabled
      else if s = ''archived'' then Inr Archived else service_error ''invalid_employee_status'')"

definition parse_employee_markdown :: "string \<Rightarrow> string \<Rightarrow> employee_file \<Rightarrow> employee res" where
  "parse_employee_markdown profile_id employee_id file =
     (let m = fst file in
      bindE (required_string m ''id'') (\<lambda>raw_id.
      bindE (guardE (raw_id = employee_id) (Service_Error ''employee_id_mismatch'')) (\<lambda>_.
      bindE (required_string m ''status'') (\<lambda>status_text.
      bindE (parse_status status_text) (\<lambda>st.
      bindE (positive_int (opt_or (map_of m ''max_active_tasks'') (Fm_Str ''1''))) (\<lambda>max_active.
      bindE (guardE (max_active = 1) (Service_Error ''unsupported_employee_capacity'')) (\<lambda>_.
      bindE (required_string m ''name'') (\<lambda>name.
      bindE (required_string m ''title'') (\<lambda>title.
      bindE (required_string m ''role'') (\<lambda>role.
      bindE (optional_employee_id m ''manager_id'') (\<lambda>manager.
      bindE (employee_id_tuple m ''reports'') (\<lambda>reports.
      bindE (employee_id_tuple m ''can_delegate_to'') (\<lambda>delegates.
      bindE (string_tuple m ''allowed_tools'') (\<lambda>tools.
      bindE (bool_value (opt_or (map_of m ''can_use_subagents'') (Fm_Bool False))) (\<lambda>subagents.
      bindE (subagent_name_tuple m ''subagent_allowlist'') (\<lambda>allowlist.
      Inr \<lparr>emp_id = employee_id, emp_profile_id = profile_id, emp_name = name,
           emp_title = title, emp_role = role, emp_status = st, emp_manager_id = manager,
           emp_reports = reports, emp_derived_reports = [], emp_can_delegate_to = delegates,
           emp_allowed_tools = tools, emp_can_use_subagents = subagents,
           emp_subagent_allowlist = allowlist, emp_max_active_tasks = max_active,
           emp_body = strip (snd file)\<rparr>))))))))))))))))"

section \<open>The store\<close>

text \<open>The employee directory of each profile: file stems and contents.\<close>

type_synonym employee_files = "string \<Rightarrow> (string \<times> employee_file) list"

definition list_markdown :: "employee_files \<Rightarrow> string \<Rightarrow> (string \<times> employee_file) list res" where
  "list_markdown files profile_id =
     bindE (validate_profile profile_id) (\<lambda>p. Inr (sort_key (\<lambda>e. fst e @ ''.md'') (files p)))"

definition get_markdown :: "employee_files \<Rightarrow> string \<Rightarrow> string \<Rightarrow> employee_file res" where
  "get_markdown files profile_id employee_id =
     bindE (validate_profile profile_id) (\<lambda>p.
     bindE (validate_employee_id employee_id) (\<lambda>e.
       case map_of (files p) e of
         None \<Rightarrow> service_error ''employee_not_found''
       | Some f \<Rightarrow> Inr f))"

definition list_employees :: "employee_files \<Rightarrow> string \<Rightarrow> employee list res" where
  "list_employees files profile_id =
     bindE (list_markdown files profile_id) (\<lambda>entries.
     bindE (mapE (\<lambda>(i, f). parse_employee_markdown profile_id i f) entries) (\<lambda>emps.
     Inr (sort_key emp_id emps)))"

definition get_employee :: "employee_files \<Rightarrow> string \<Rightarrow> string \<Rightarrow> employee res" where
  "get_employee files profile_id employee_id =
     bindE (validate_employee_id employee_id) (\<lambda>i.
     bindE (get_markdown files profile_id i) (\<lambda>f.
       parse_employee_markdown profile_id i f))"

definition upsert_employee ::
    "employee_files \<Rightarrow> string \<Rightarrow> string \<Rightarrow> employee_file \<Rightarrow> (employee_files \<times> employee) res" where
  "upsert_employee files profile_id employee_id file =
     bindE (validate_employee_id employee_id) (\<lambda>i.
     bindE (parse_employee_markdown profile_id i file) (\<lambda>emp.
     bindE (validate_profile profile_id) (\<lambda>p.
     Inr (files(p := dict_put fst (i, file) (files p)), emp))))"

text \<open>
  The file is removed before its content is parsed for the answer, so an unreadable descriptor
  is deleted as well and the error is reported for it: the new directory is returned beside
  the result.
\<close>

definition delete_employee ::
    "(string \<Rightarrow> string \<Rightarrow> bool) \<Rightarrow> employee_files \<Rightarrow> string \<Rightarrow> string \<Rightarrow> employee_files \<times> employee res" where
  "delete_employee has_references files profile_id employee_id =
     (case validate_employee_id employee_id of
        Inl e \<Rightarrow> (files, Inl e)
      | Inr i \<Rightarrow>
          (if has_references profile_id i then (files, service_error ''employee_in_use'')
           else
             (case get_markdown files profile_id i of
                Inl e \<Rightarrow> (files, Inl e)
              | Inr f \<Rightarrow>
                  (let p = strip profile_id in
                   (files(p := filter (\<lambda>e. fst e \<noteq> i) (files p)),
                    parse_employee_markdown profile_id i f)))))"

section \<open>Validation of the graph\<close>

record issue =
  i_code :: string
  i_employee_id :: string
  i_target :: "string option"

definition issue_of :: "string \<Rightarrow> string \<Rightarrow> string option \<Rightarrow> issue" where
  "issue_of code employee_id target = \<lparr>i_code = code, i_employee_id = employee_id, i_target = target\<rparr>"

definition find_employee :: "employee list \<Rightarrow> string \<Rightarrow> employee option" where
  "find_employee emps i = find (\<lambda>e. emp_id e = i) emps"

definition has_employee :: "employee list \<Rightarrow> string \<Rightarrow> bool" where
  "has_employee emps i = (find_employee emps i \<noteq> None)"

definition manager_of :: "employee list \<Rightarrow> string \<Rightarrow> string option" where
  "manager_of emps i = (case find_employee emps i of None \<Rightarrow> None | Some e \<Rightarrow> emp_manager_id e)"

definition report_issues :: "employee list \<Rightarrow> employee \<Rightarrow> string \<Rightarrow> issue list" where
  "report_issues emps e r =
     (case find_employee emps r of
        None \<Rightarrow> [issue_of ''employee_missing_report'' (emp_id e) (Some r)]
      | Some rep \<Rightarrow>
          (case emp_manager_id rep of
             None \<Rightarrow> []
           | Some m \<Rightarrow>
               if m \<noteq> emp_id e then [issue_of ''employee_report_conflict'' (emp_id e) (Some r)]
               else []))"

definition employee_issues :: "employee list \<Rightarrow> employee \<Rightarrow> issue list" where
  "employee_issues emps e =
     (case emp_manager_id e of
        None \<Rightarrow> []
      | Some m \<Rightarrow>
          (if has_employee emps m then []
           else [issue_of ''employee_missing_manager'' (emp_id e) (Some m)]))
     @ concat (map (report_issues emps e) (emp_reports e))
     @ concat (map (\<lambda>g. if has_employee emps g then []
                       else [issue_of ''employee_missing_delegate'' (emp_id e) (Some g)])
               (emp_can_delegate_to e))"

text \<open>
  Following managers from one employee: None when the chain leaves the map, otherwise the
  cycle it runs into, in the order it was walked. A step adds an employee not yet seen.
\<close>

function cycle_walk :: "employee list \<Rightarrow> string list \<Rightarrow> string option \<Rightarrow> string list option" where
  "cycle_walk emps seen None = None"
| "cycle_walk emps seen (Some c) =
     (if \<not> has_employee emps c then None
      else if c \<in> set seen then Some (dropWhile (\<lambda>x. x \<noteq> c) seen)
      else cycle_walk emps (seen @ [c]) (manager_of emps c))"
  by pat_completeness auto
termination
proof (relation "measure (\<lambda>(emps, seen, c). length (filter (\<lambda>i. i \<notin> set seen) (map emp_id emps)))")
  fix emps seen c
  assume "\<not> \<not> has_employee emps c" and c: "c \<notin> set seen"
  then have "c \<in> set (map emp_id emps)"
    by (auto simp: has_employee_def find_employee_def find_None_iff)
  then have "length (filter (\<lambda>i. i \<notin> set (seen @ [c])) is) < length (filter (\<lambda>i. i \<notin> set seen) is)"
    if "c \<in> set is" for "is"
    using that c
  proof (induction "is")
    case (Cons i "is")
    have "length (filter (\<lambda>i. i \<notin> set (seen @ [c])) is) \<le> length (filter (\<lambda>i. i \<notin> set seen) is)"
      by (induction "is") auto
    with Cons show ?case by auto
  qed simp
  from this [OF \<open>c \<in> set (map emp_id emps)\<close>]
  show "((emps, seen @ [c], manager_of emps c), emps, seen, Some c)
      \<in> measure (\<lambda>(emps, seen, c). length (filter (\<lambda>i. i \<notin> set seen) (map emp_id emps)))"
    by (simp only: in_measure case_prod_conv)
qed simp_all

text \<open>Each cycle is reported once, under the sorted tuple of its members.\<close>

fun collect_cycles :: "employee list \<Rightarrow> string list list \<Rightarrow> string list \<Rightarrow> issue list" where
  "collect_cycles emps reported [] = []"
| "collect_cycles emps reported (i # is) =
     (case cycle_walk emps [] (Some i) of
        Some (c # cs) \<Rightarrow>
          (let normalized = sort (c # cs) in
           if normalized \<in> set reported then collect_cycles emps reported is
           else issue_of ''employee_hierarchy_cycle'' c None
                # collect_cycles emps (normalized # reported) is)
      | _ \<Rightarrow> collect_cycles emps reported is)"

definition cycle_issues :: "employee list \<Rightarrow> issue list" where
  "cycle_issues emps = collect_cycles emps [] (sort (map emp_id emps))"

definition validate_employees :: "employee list \<Rightarrow> issue list" where
  "validate_employees employees =
     (let emps = dict_of emp_id employees
      in concat (map (employee_issues emps) emps) @ cycle_issues emps)"

definition org_valid :: "issue list \<Rightarrow> bool" where
  "org_valid issues = (issues = [])"

section \<open>The org chart\<close>

record org_chart =
  ch_employees :: "employee list"
  ch_roots :: "string list"
  ch_edges :: "(string \<times> string) list"
  ch_issues :: "issue list"

definition manager_edges :: "employee list \<Rightarrow> (string \<times> string) list" where
  "manager_edges emps =
     concat (map (\<lambda>e. case emp_manager_id e of
        None \<Rightarrow> [] | Some m \<Rightarrow> if has_employee emps m then [(m, emp_id e)] else []) emps)"

definition collect_descendant_reports :: "(string \<times> string) list \<Rightarrow> string \<Rightarrow> string list" where
  "collect_descendant_reports es i = reach_loop es (rev (succs es i)) []"

definition build_org_chart :: "employee list \<Rightarrow> org_chart" where
  "build_org_chart employees =
     (let emps = dict_of emp_id employees;
          es = manager_edges emps;
          resolved = map (\<lambda>e. e\<lparr>emp_derived_reports :=
                        sort (collect_descendant_reports es (emp_id e))\<rparr>) emps
      in \<lparr>ch_employees = resolved,
          ch_roots = sort (map emp_id (filter (\<lambda>e. case emp_manager_id e of
              None \<Rightarrow> True | Some m \<Rightarrow> \<not> has_employee emps m) emps)),
          ch_edges = sort es,
          ch_issues = validate_employees resolved\<rparr>)"

definition profile_org_chart :: "employee_files \<Rightarrow> string \<Rightarrow> org_chart res" where
  "profile_org_chart files profile_id =
     bindE (list_employees files profile_id) (\<lambda>emps. Inr (build_org_chart emps))"

section \<open>The tool gate of a detached employee runtime\<close>

text \<open>
  The trusted context carries the owner type and ref of the runtime. Call parameters: the
  \<open>subagent_name\<close> of subagent.run, and the jobs of session.job.run as kind and
  \<open>subagent_name\<close> (None for an item that is not a mapping, no list at all for None).
\<close>

type_synonym runtime_context = "(string option \<times> string option) option"

record tool_params =
  tp_subagent_name :: "string option"
  tp_jobs :: "(string option \<times> string option) option list option"

definition tool_name_allowed :: "string \<Rightarrow> string list \<Rightarrow> bool" where
  "tool_name_allowed tool_name allowed_tools =
     list_ex (\<lambda>item. let allowed = strip item; name = strip tool_name in
        allowed \<noteq> [] \<and>
        (allowed = name
         \<or> has_prefix (rev ''.*'') (rev allowed) \<and> has_prefix (butlast allowed) name)) allowed_tools"

definition employee_id_from_trusted_context :: "runtime_context \<Rightarrow> string option" where
  "employee_id_from_trusted_context ctx =
     (case ctx of
        None \<Rightarrow> None
      | Some (ty, ref) \<Rightarrow>
          (let owner_type = lower (strip (str_or_empty ty)); r = strip (str_or_empty ref) in
           if owner_type \<noteq> ''employee'' then None
           else (case validate_employee_id r of Inl _ \<Rightarrow> None | Inr i \<Rightarrow> Some i)))"

definition requested_subagent_names :: "string \<Rightarrow> tool_params \<Rightarrow> string list" where
  "requested_subagent_names tool_name ps =
     (if tool_name = ''subagent.run'' then
        (let n = strip (str_or_empty (tp_subagent_name ps)) in if n = [] then [] else [n])
      else if tool_name \<noteq> ''session.job.run'' then []
      else (case tp_jobs ps of
              None \<Rightarrow> []
            | Some jobs \<Rightarrow>
                filter (\<lambda>n. n \<noteq> []) (map (\<lambda>(kind, n). strip (str_or_empty n))
                  (filter (\<lambda>(kind, n). strip (str_or_empty kind) = ''subagent'')
                    (List.map_filter id jobs)))))"

text \<open>None lets the call through, Some is the error code of the refusal.\<close>

definition employee_tool_policy_result ::
    "employee_files \<Rightarrow> string \<Rightarrow> runtime_context \<Rightarrow> string \<Rightarrow> tool_params \<Rightarrow> string option" where
  "employee_tool_policy_result files profile_id ctx tool_name ps =
     (case employee_id_from_trusted_context ctx of
        None \<Rightarrow> None
      | Some i \<Rightarrow>
          (case get_employee files profile_id i of
             Inl (Service_Error code) \<Rightarrow> Some code
           | Inl _ \<Rightarrow> Some ''error''
           | Inr e \<Rightarrow>
               (if emp_status e \<noteq> Active then Some ''employee_tool_forbidden''
                else if emp_allowed_tools e = [] then Some ''employee_tool_forbidden''
                else if \<not> tool_name_allowed tool_name (emp_allowed_tools e)
                then Some ''employee_tool_forbidden''
                else
                  (let requested = requested_subagent_names tool_name ps in
                   if requested = [] then None
                   else if \<not> emp_can_use_subagents e then Some ''employee_tool_forbidden''
                   else if emp_subagent_allowlist e \<noteq> []
                           \<and> list_ex (\<lambda>n. n \<notin> set (emp_subagent_allowlist e)) requested
                   then Some ''employee_tool_forbidden''
                   else None))))"

section \<open>Lemmas\<close>

lemma find_employee_SomeD:
  assumes "find_employee emps i = Some e"
  shows "e \<in> set emps" and "emp_id e = i"
  using find_SomeD [OF assms [unfolded find_employee_def]] by simp_all

lemma has_employee_iff: "has_employee emps i \<longleftrightarrow> i \<in> emp_id ` set emps"
proof -
  have "find (\<lambda>e. emp_id e = i) emps = None \<longleftrightarrow> (\<forall>e \<in> set emps. emp_id e \<noteq> i)"
    unfolding find_None_iff by blast
  then show ?thesis unfolding has_employee_def find_employee_def image_iff by metis
qed

lemma find_employee_distinct:
  assumes "distinct (map emp_id emps)" and "e \<in> set emps"
  shows "find_employee emps (emp_id e) = Some e"
proof -
  obtain f where f: "find_employee emps (emp_id e) = Some f"
    using assms(2) has_employee_iff [of emps "emp_id e"] by (auto simp: has_employee_def)
  have "f = e" by (rule distinct_key_eqD [OF assms(1)])
      (use find_employee_SomeD [OF f] assms(2) in simp_all)
  with f show ?thesis by simp
qed

text \<open>The manager relation of a validated map: from an employee to a present manager.\<close>

definition manager_rel :: "employee list \<Rightarrow> (string \<times> string) set" where
  "manager_rel emps = {(i, m). has_employee emps i \<and> manager_of emps i = Some m \<and> has_employee emps m}"

lemma set_manager_edges:
  assumes "distinct (map emp_id emps)"
  shows "set (manager_edges emps) = (manager_rel emps)\<inverse>"
proof -
  have "(m, i) \<in> set (manager_edges emps) \<longleftrightarrow> (i, m) \<in> manager_rel emps" for m i
  proof
    assume "(m, i) \<in> set (manager_edges emps)"
    then obtain e where e: "e \<in> set emps" "(m, i) \<in> set (case emp_manager_id e of
        None \<Rightarrow> [] | Some m \<Rightarrow> if has_employee emps m then [(m, emp_id e)] else [])"
      unfolding manager_edges_def set_concat set_map by blast
    then have em: "emp_manager_id e = Some m" "emp_id e = i" "has_employee emps m"
      by (cases "emp_manager_id e"; simp split: if_splits)+
    have "find_employee emps i = Some e" using find_employee_distinct [OF assms e(1)] em(2) by simp
    then show "(i, m) \<in> manager_rel emps"
      using em by (simp add: manager_rel_def manager_of_def has_employee_def)
  next
    assume r: "(i, m) \<in> manager_rel emps"
    then obtain e where f: "find_employee emps i = Some e"
      by (cases "find_employee emps i") (simp_all add: manager_rel_def has_employee_def)
    with r have em: "emp_manager_id e = Some m" "has_employee emps m"
      by (simp_all add: manager_rel_def manager_of_def)
    have "(m, i) \<in> set (case emp_manager_id e of
        None \<Rightarrow> [] | Some m \<Rightarrow> if has_employee emps m then [(m, emp_id e)] else [])"
      using em find_employee_SomeD(2) [OF f] by simp
    with find_employee_SomeD(1) [OF f] show "(m, i) \<in> set (manager_edges emps)"
      unfolding manager_edges_def set_concat set_map by blast
  qed
  then show ?thesis by auto
qed

lemma set_descendants:
  "set (collect_descendant_reports es i) = {r. (i, r) \<in> (set es)\<^sup>+}"
proof -
  have "set (collect_descendant_reports es i) = (set es)\<^sup>* `` (set es `` {i})"
    by (simp add: collect_descendant_reports_def Image_def)
  also have "\<dots> = {r. (i, r) \<in> (set es)\<^sup>+}"
    by (auto simp: trancl_unfold_left dest: tranclD intro: rtrancl_into_trancl2)
  finally show ?thesis .
qed

subsection \<open>Cycles\<close>

lemma manager_rel_functional: "(i, m) \<in> manager_rel emps \<Longrightarrow> (i, m') \<in> manager_rel emps \<Longrightarrow> m = m'"
  by (simp add: manager_rel_def)

fun linked :: "(string \<times> string) set \<Rightarrow> string list \<Rightarrow> string \<Rightarrow> bool" where
  "linked R [] c = True"
| "linked R [x] c = ((x, c) \<in> R)"
| "linked R (x # y # ys) c = ((x, y) \<in> R \<and> linked R (y # ys) c)"

lemma linked_snoc: "linked R xs c \<Longrightarrow> (c, d) \<in> R \<Longrightarrow> linked R (xs @ [c]) d"
  by (induction R xs c rule: linked.induct) auto

lemma linked_trancl: "linked R xs c \<Longrightarrow> x \<in> set xs \<Longrightarrow> (x, c) \<in> R\<^sup>+"
proof (induction R xs c arbitrary: x rule: linked.induct)
  case (3 R y z zs c)
  have z: "(z, c) \<in> R\<^sup>+" using 3 by simp
  show ?case
  proof (cases "x = y")
    case True
    with 3(2) have "(x, z) \<in> R" by simp
    then show ?thesis using z by (rule trancl_into_trancl2)
  next
    case False
    with 3 show ?thesis by simp
  qed
qed auto

lemma cycle_walk_sound:
  assumes "cycle_walk emps seen cur = Some cyc"
    and "\<And>c. cur = Some c \<Longrightarrow> has_employee emps c \<Longrightarrow> linked (manager_rel emps) seen c"
  shows "\<exists>c cs. cyc = c # cs \<and> (c, c) \<in> (manager_rel emps)\<^sup>+"
  using assms
proof (induction emps seen cur rule: cycle_walk.induct)
  case (1 emps seen)
  then show ?case by simp
next
  case (2 emps seen c)
  have has: "has_employee emps c" using "2.prems"(1) by (simp split: if_splits)
  have link: "linked (manager_rel emps) seen c" by (rule "2.prems"(2) [OF refl has])
  show ?case
  proof (cases "c \<in> set seen")
    case True
    then have "dropWhile (\<lambda>x. x \<noteq> c) seen \<noteq> []" by auto
    then obtain cs where "dropWhile (\<lambda>x. x \<noteq> c) seen = c # cs"
      using hd_dropWhile [of "\<lambda>x. x \<noteq> c" seen] by (cases "dropWhile (\<lambda>x. x \<noteq> c) seen") auto
    moreover have "(c, c) \<in> (manager_rel emps)\<^sup>+" by (rule linked_trancl [OF link True])
    ultimately have "cyc = c # cs \<and> (c, c) \<in> (manager_rel emps)\<^sup>+"
      using "2.prems"(1) has True by simp
    then show ?thesis by blast
  next
    case False
    have rec: "cycle_walk emps (seen @ [c]) (manager_of emps c) = Some cyc"
      using "2.prems"(1) has False by simp
    show ?thesis
    proof (rule "2.IH" [OF _ False rec])
      show "\<not> \<not> has_employee emps c" using has by simp
      fix d assume "manager_of emps c = Some d" and "has_employee emps d"
      then have "(c, d) \<in> manager_rel emps" using has by (simp add: manager_rel_def)
      with link show "linked (manager_rel emps) (seen @ [c]) d" by (rule linked_snoc)
    qed
  qed
qed

lemma cycle_walk_complete:
  assumes "cycle_walk emps seen (Some c) = None" and "(c, x) \<in> (manager_rel emps)\<^sup>*"
  shows "(x, x) \<notin> (manager_rel emps)\<^sup>+"
  using assms
proof (induction emps seen "Some c" arbitrary: c x rule: cycle_walk.induct)
  case (2 emps seen c)
  let ?R = "manager_rel emps"
  show ?case
  proof (cases "\<exists>m. (c, m) \<in> ?R")
    case False
    then have "x = c" using 2(3) by (metis converse_rtranclE)
    with False show ?thesis by (meson tranclD)
  next
    case True
    then obtain m where m: "(c, m) \<in> ?R" by blast
    then have has: "has_employee emps c" and mgr: "manager_of emps c = Some m"
      by (simp_all add: manager_rel_def)
    have notin: "c \<notin> set seen" using 2(2) has by (auto split: if_splits)
    have rec: "cycle_walk emps (seen @ [c]) (Some m) = None" using 2(2) has notin mgr by simp
    have IH: "(y, y) \<notin> ?R\<^sup>+" if "(m, y) \<in> ?R\<^sup>*" for y
      by (rule 2(1) [OF _ notin mgr rec that]) (use has in simp)
    show ?thesis
    proof
      assume xx: "(x, x) \<in> ?R\<^sup>+"
      have "(m, x) \<in> ?R\<^sup>*"
      proof (cases "x = c")
        case True
        with xx obtain z where "(c, z) \<in> ?R" "(z, c) \<in> ?R\<^sup>*" by (meson tranclD)
        with m True show ?thesis using manager_rel_functional by metis
      next
        case False
        with 2(3) obtain z where "(c, z) \<in> ?R" "(z, x) \<in> ?R\<^sup>*" by (metis converse_rtranclE)
        with m show ?thesis using manager_rel_functional by metis
      qed
      from IH [OF this] xx show False by simp
    qed
  qed
qed

lemma collect_cycles_Nil_iff:
  "collect_cycles emps [] xs = [] \<longleftrightarrow> (\<forall>i \<in> set xs. cycle_walk emps [] (Some i) = None)"
proof (induction xs)
  case (Cons i "is")
  have ne: "cycle_walk emps [] (Some i) \<noteq> Some []"
    using cycle_walk_sound [of emps "[]" "Some i"] by fastforce
  show ?case
  proof (cases "cycle_walk emps [] (Some i)")
    case None
    with Cons show ?thesis by simp
  next
    case (Some cyc)
    with ne obtain c cs where "cyc = c # cs" by (cases cyc) auto
    with Some show ?thesis by (simp add: Let_def)
  qed
qed simp

lemma cycle_issues_Nil_iff: "cycle_issues emps = [] \<longleftrightarrow> acyclic (manager_rel emps)"
proof -
  have "cycle_issues emps = [] \<longleftrightarrow> (\<forall>i \<in> emp_id ` set emps. cycle_walk emps [] (Some i) = None)"
    unfolding cycle_issues_def by (subst collect_cycles_Nil_iff) simp_all
  also have "\<dots> \<longleftrightarrow> acyclic (manager_rel emps)"
  proof
    assume none: "\<forall>i \<in> emp_id ` set emps. cycle_walk emps [] (Some i) = None"
    show "acyclic (manager_rel emps)"
      unfolding acyclic_def
    proof (intro allI notI)
      fix x assume xx: "(x, x) \<in> (manager_rel emps)\<^sup>+"
      then obtain z where "(x, z) \<in> manager_rel emps" by (meson tranclD)
      then have "x \<in> emp_id ` set emps" by (simp add: manager_rel_def has_employee_iff)
      with none have "cycle_walk emps [] (Some x) = None" by (rule bspec)
      from cycle_walk_complete [OF this, of x] xx show False by simp
    qed
  next
    assume ac: "acyclic (manager_rel emps)"
    show "\<forall>i \<in> emp_id ` set emps. cycle_walk emps [] (Some i) = None"
    proof (intro ballI)
      fix i
      show "cycle_walk emps [] (Some i) = None"
      proof (cases "cycle_walk emps [] (Some i)")
        case (Some cyc)
        have "\<exists>c cs. cyc = c # cs \<and> (c, c) \<in> (manager_rel emps)\<^sup>+"
          by (rule cycle_walk_sound [OF Some]) simp
        with ac show ?thesis by (auto simp: acyclic_def)
      qed
    qed
  qed
  finally show ?thesis .
qed

lemma has_prefix_iff: "has_prefix p s \<longleftrightarrow> (\<exists>r. s = p @ r)"
  by (auto intro: exI [of _ "drop (length p) s"]) (metis append_take_drop_id)

section \<open>The resolved chart\<close>

lemma find_employee_map:
  assumes "\<And>e. emp_id (f e) = emp_id e"
  shows "find_employee (map f emps) i = map_option f (find_employee emps i)"
  by (induction emps) (simp_all add: find_employee_def assms)

lemma manager_rel_map:
  assumes "\<And>e. emp_id (f e) = emp_id e" and "\<And>e. emp_manager_id (f e) = emp_manager_id e"
  shows "manager_rel (map f emps) = manager_rel emps"
  using assms
  by (auto simp: manager_rel_def has_employee_def manager_of_def find_employee_map split: option.splits)

lemma ch_employees_build:
  "ch_employees (build_org_chart emps) =
     map (\<lambda>e. e\<lparr>emp_derived_reports :=
       sort (collect_descendant_reports (manager_edges (dict_of emp_id emps)) (emp_id e))\<rparr>)
       (dict_of emp_id emps)"
  by (simp add: build_org_chart_def Let_def)

lemma manager_rel_build: "manager_rel (ch_employees (build_org_chart emps)) = manager_rel (dict_of emp_id emps)"
  unfolding ch_employees_build by (rule manager_rel_map) simp_all

lemma ids_build [simp]: "map emp_id (ch_employees (build_org_chart emps)) = map emp_id (dict_of emp_id emps)"
  by (simp add: ch_employees_build comp_def)

lemma set_derived_reports:
  assumes "e \<in> set (ch_employees (build_org_chart emps))"
  shows "set (emp_derived_reports e) =
     {r. (r, emp_id e) \<in> (manager_rel (ch_employees (build_org_chart emps)))\<^sup>+}"
proof -
  let ?d = "dict_of emp_id emps"
  from assms obtain e0 where "e0 \<in> set ?d"
    and "e = e0\<lparr>emp_derived_reports := sort (collect_descendant_reports (manager_edges ?d) (emp_id e0))\<rparr>"
    unfolding ch_employees_build set_map by blast
  then have "set (emp_derived_reports e) = {r. (emp_id e, r) \<in> ((manager_rel ?d)\<inverse>)\<^sup>+}"
    using set_descendants [of "manager_edges ?d" "emp_id e"] set_manager_edges [of ?d] by simp
  then show ?thesis by (simp add: manager_rel_build trancl_converse)
qed

lemma find_employee_chart:
  "e \<in> set (ch_employees (build_org_chart emps)) \<Longrightarrow>
     find_employee (ch_employees (build_org_chart emps)) (emp_id e) = Some e"
  by (rule find_employee_distinct) simp_all

section \<open>Issues\<close>

lemma employee_issue_codes:
  "i \<in> set (employee_issues emps e) \<Longrightarrow> i_code i \<noteq> ''employee_hierarchy_cycle''"
  by (auto simp: employee_issues_def report_issues_def issue_of_def split: option.splits if_splits)

lemma collect_cycles_codes:
  "i \<in> set (collect_cycles emps seen xs) \<Longrightarrow> i_code i = ''employee_hierarchy_cycle''"
  by (induction emps seen xs rule: collect_cycles.induct)
    (auto simp: issue_of_def Let_def split: option.splits list.splits if_splits)

lemma cycle_issue_iff:
  "(\<exists>i \<in> set (validate_employees emps). i_code i = ''employee_hierarchy_cycle'') \<longleftrightarrow>
     \<not> acyclic (manager_rel (dict_of emp_id emps))"
proof -
  let ?d = "dict_of emp_id emps"
  have split: "(\<exists>i \<in> set (xs @ ys). P i) \<longleftrightarrow> ys \<noteq> []"
    if "\<And>i. i \<in> set xs \<Longrightarrow> \<not> P i" and "\<And>i. i \<in> set ys \<Longrightarrow> P i" for xs ys :: "issue list" and P
    using that by (metis Un_iff list.set_intros(1) neq_Nil_conv set_append empty_iff list.set(1))
  have "(\<exists>i \<in> set (validate_employees emps). i_code i = ''employee_hierarchy_cycle'') \<longleftrightarrow>
      cycle_issues ?d \<noteq> []"
    unfolding validate_employees_def Let_def
  proof (rule split)
    fix i assume "i \<in> set (concat (map (employee_issues ?d) ?d))"
    then obtain e where "i \<in> set (employee_issues ?d e)" unfolding set_concat set_map by blast
    then show "i_code i \<noteq> ''employee_hierarchy_cycle''" by (rule employee_issue_codes)
  next
    fix i assume "i \<in> set (cycle_issues ?d)"
    then show "i_code i = ''employee_hierarchy_cycle''"
      unfolding cycle_issues_def by (rule collect_cycles_codes)
  qed
  then show ?thesis by (simp add: cycle_issues_Nil_iff)
qed

lemma tool_name_allowed_iff:
  "tool_name_allowed tool allowed \<longleftrightarrow>
     (\<exists>item \<in> set allowed. strip item \<noteq> []
        \<and> (strip item = strip tool
           \<or> (\<exists>base rest. strip item = base @ ''.*'' \<and> strip tool = base @ ''.'' @ rest)))"
proof -
  have wild: "has_prefix (rev ''.*'') (rev a) \<and> has_prefix (butlast a) n \<longleftrightarrow>
      (\<exists>base rest. a = base @ ''.*'' \<and> n = base @ ''.'' @ rest)" for a n :: string
  proof -
    have "has_prefix (rev ''.*'') (rev a) \<longleftrightarrow> (\<exists>base. a = base @ ''.*'')"
      unfolding has_prefix_iff by (metis rev_append rev_rev_ident)
    then show ?thesis by (auto simp: has_prefix_iff butlast_append simp del: has_prefix.simps)
  qed
  show ?thesis unfolding tool_name_allowed_def Let_def list_ex_iff wild by blast
qed

section \<open>Properties\<close>

definition example_employee :: "string \<Rightarrow> string option \<Rightarrow> employee" where
  "example_employee i manager = \<lparr>emp_id = i, emp_profile_id = ''default'', emp_name = i,
     emp_title = ''Engineer'', emp_role = ''engineer'', emp_status = Active,
     emp_manager_id = manager, emp_reports = [], emp_derived_reports = [],
     emp_can_delegate_to = [], emp_allowed_tools = [''task.*''], emp_can_use_subagents = False,
     emp_subagent_allowlist = [], emp_max_active_tasks = 1, emp_body = ''body''\<rparr>"

definition example_file :: "string \<Rightarrow> string option \<Rightarrow> string \<times> employee_file" where
  "example_file i manager = (i,
     ([(''id'', Fm_Str i), (''status'', Fm_Str ''active''), (''name'', Fm_Str i),
       (''title'', Fm_Str ''Engineer''), (''role'', Fm_Str ''engineer''),
       (''allowed_tools'', Fm_List [''task.*''])]
      @ (case manager of None \<Rightarrow> [] | Some m \<Rightarrow> [(''manager_id'', Fm_Str m)]), ''body''))"

text \<open>The derived reports the org chart lists for an employee are all direct and indirect
  reports of it: the transitive closure of the manager relation, also when the relation has
  cycles.\<close>

theorem derived_reports_transitive:
  assumes "e \<in> set (ch_employees (build_org_chart emps))"
  shows "set (emp_derived_reports e) =
     {r. (r, emp_id e) \<in> (manager_rel (ch_employees (build_org_chart emps)))\<^sup>+}"
  by (rule set_derived_reports [OF assms])

theorem derived_reports_transitive_witness:
  "\<exists>e \<in> set (ch_employees (build_org_chart [example_employee ''ann'' None,
        example_employee ''bob'' (Some ''ann''), example_employee ''carl'' (Some ''bob'')])).
     emp_id e = ''ann'' \<and> emp_derived_reports e = [''bob'', ''carl'']
     \<and> (''carl'', ''ann'') \<in> (manager_rel (ch_employees (build_org_chart [example_employee ''ann'' None,
        example_employee ''bob'' (Some ''ann''), example_employee ''carl'' (Some ''bob'')])))\<^sup>+"
proof -
  let ?c = "build_org_chart [example_employee ''ann'' None,
        example_employee ''bob'' (Some ''ann''), example_employee ''carl'' (Some ''bob'')]"
  let ?e = "(example_employee ''ann'' None)\<lparr>emp_derived_reports := [''bob'', ''carl'']\<rparr>"
  have mem: "?e \<in> set (ch_employees ?c)" by code_simp
  then show ?thesis
    using derived_reports_transitive [OF mem] by (intro bexI [OF _ mem]) (auto simp: example_employee_def)
qed

text \<open>Validation reports a hierarchy cycle exactly when following managers from some employee
  leads back to it.\<close>

theorem cycle_reported_iff_cyclic:
  "(\<exists>i \<in> set (ch_issues (build_org_chart emps)). i_code i = ''employee_hierarchy_cycle'') \<longleftrightarrow>
     \<not> acyclic (manager_rel (ch_employees (build_org_chart emps)))"
proof -
  let ?c = "ch_employees (build_org_chart emps)"
  have "dict_of emp_id ?c = ?c" by (rule dict_of_distinct) simp
  moreover have "ch_issues (build_org_chart emps) = validate_employees ?c"
    by (simp add: build_org_chart_def Let_def)
  ultimately show ?thesis using cycle_issue_iff [of ?c] by simp
qed

text \<open>The hard tool gate lets a call of an employee runtime through exactly when the
  employee's descriptor can be read, it is active, one of its non-empty tool patterns is the
  tool's name or ends in \<open>.*\<close> with the rest up to the dot a prefix of that name, and every
  requested subagent is permitted.\<close>

theorem tool_gate_admits_iff:
  assumes "employee_id_from_trusted_context ctx = Some i"
  shows "employee_tool_policy_result files p ctx tool ps = None \<longleftrightarrow>
    (\<exists>e. get_employee files p i = Inr e \<and> emp_status e = Active
       \<and> (\<exists>item \<in> set (emp_allowed_tools e). strip item \<noteq> []
            \<and> (strip item = strip tool
               \<or> (\<exists>base rest. strip item = base @ ''.*'' \<and> strip tool = base @ ''.'' @ rest)))
       \<and> (requested_subagent_names tool ps \<noteq> [] \<longrightarrow> emp_can_use_subagents e
            \<and> (emp_subagent_allowlist e \<noteq> [] \<longrightarrow>
                 set (requested_subagent_names tool ps) \<subseteq> set (emp_subagent_allowlist e))))"
proof (cases "get_employee files p i")
  case (Inl err)
  with assms show ?thesis by (simp add: employee_tool_policy_result_def split: app_error.split)
next
  case (Inr e)
  have nonempty: "tool_name_allowed tool (emp_allowed_tools e) \<Longrightarrow> emp_allowed_tools e \<noteq> []"
    by (auto simp: tool_name_allowed_def)
  show ?thesis
    unfolding tool_name_allowed_iff [symmetric] using nonempty
    by (auto simp: employee_tool_policy_result_def assms Inr Let_def list_ex_iff)
qed

theorem tool_gate_admits_iff_witness:
  "employee_tool_policy_result (\<lambda>_. [example_file ''bob'' None]) ''default''
     (Some (Some ''employee'', Some ''bob'')) ''task.update''
     \<lparr>tp_subagent_name = None, tp_jobs = None\<rparr> = None
   \<and> employee_tool_policy_result (\<lambda>_. [example_file ''bob'' None]) ''default''
     (Some (Some ''employee'', Some ''bob'')) ''tasks''
     \<lparr>tp_subagent_name = None, tp_jobs = None\<rparr> \<noteq> None"
proof -
  let ?ctx = "Some (Some ''employee'', Some ''bob'')" and ?f = "\<lambda>_::string. [example_file ''bob'' None]"
  let ?e = "example_employee ''bob'' None"
  have ok: "employee_id_from_trusted_context ?ctx = Some ''bob''"
    "get_employee ?f ''default'' ''bob'' = Inr ?e"
    "requested_subagent_names ''task.update'' \<lparr>tp_subagent_name = None, tp_jobs = None\<rparr> = []"
    "strip ''task.*'' = ''task.*''" "strip ''task.update'' = ''task.update''" "strip ''tasks'' = ''tasks''"
    by code_simp+
  have "''task.*'' = ''task'' @ ''.*'' \<and> ''task.update'' = ''task'' @ ''.'' @ ''update''" by simp
  then have wild: "\<exists>base rest. ''task.*'' = base @ ''.*'' \<and> ''task.update'' = base @ ''.'' @ rest" by blast
  have no: "\<not> (\<exists>base rest. ''task.*'' = base @ ''.*'' \<and> ''tasks'' = base @ ''.'' @ rest)"
  proof (intro notI, elim exE conjE)
    fix base rest assume "''task.*'' = base @ ''.*''" and t: "''tasks'' = base @ ''.'' @ rest"
    then have "base = ''task''" using append_same_eq [of "''task''" "''.*''" base] by simp
    with t show False by simp
  qed
  show ?thesis
    unfolding tool_gate_admits_iff [OF ok(1)]
    using ok wild no by (simp add: example_employee_def)
qed

lemma map_of_replace:
  "map_of (map (\<lambda>y. if fst y = k then (k, v) else y) xs) j =
     (if j = k then (if list_ex (\<lambda>y. fst y = k) xs then Some v else None) else map_of xs j)"
  by (induction xs) auto

lemma map_of_dict_put: "map_of (dict_put fst (k, v) xs) = (map_of xs)(k \<mapsto> v)"
proof
  fix j
  show "map_of (dict_put fst (k, v) xs) j = ((map_of xs)(k \<mapsto> v)) j"
  proof (cases "list_ex (\<lambda>y. fst y = k) xs")
    case True
    then have "dict_put fst (k, v) xs = map (\<lambda>y. if fst y = k then (k, v) else y) xs"
      by (simp add: dict_put_def)
    with True show ?thesis by (simp only: map_of_replace) simp
  next
    case False
    then have "map_of xs k = None" by (induction xs) auto
    with False show ?thesis by (auto simp: dict_put_def map_add_def split: option.split)
  qed
qed

lemma validate_employee_id_InrD: "validate_employee_id s = Inr i \<Longrightarrow> i = strip s"
  by (simp add: validate_employee_id_def Let_def split: if_splits)

lemma validate_employee_id_strip: "validate_employee_id (strip s) = validate_employee_id s"
  by (simp add: validate_employee_id_def)

lemma validate_profile_InrD: "validate_profile s = Inr i \<Longrightarrow> i = strip s"
  by (simp add: validate_profile_def Let_def split: if_splits)

text \<open>Reading an employee depends on the one file of its id.\<close>

lemma get_employee_cong:
  assumes "map_of (files' (strip p)) (strip i) = map_of (files (strip p)) (strip i)"
  shows "get_employee files' p i = get_employee files p i"
proof (cases "validate_employee_id i")
  case (Inr j)
  then have j: "j = strip i" by (rule validate_employee_id_InrD)
  have "get_markdown files' p j = get_markdown files p j"
  proof (cases "validate_profile p")
    case (Inr q)
    with validate_profile_InrD [OF this] assms j show ?thesis
      by (simp add: get_markdown_def validate_employee_id_def Let_def service_error_def)
  qed (simp add: get_markdown_def)
  with Inr show ?thesis by (simp add: get_employee_def)
qed (simp add: get_employee_def)

text \<open>An employee written through the service is read back as it was returned, and every
  other employee of every profile is read as before.\<close>

theorem upsert_then_get:
  assumes "upsert_employee files p i file = Inr (files', e)"
  shows "get_employee files' p i = Inr e
    \<and> (strip q \<noteq> strip p \<or> strip j \<noteq> strip i \<longrightarrow> get_employee files' q j = get_employee files q j)"
proof -
  from assms obtain k pr where k: "validate_employee_id i = Inr k"
    and parse: "parse_employee_markdown p k file = Inr e" and pr: "validate_profile p = Inr pr"
    and f': "files' = files(pr := dict_put fst (k, file) (files pr))"
    by (auto simp: upsert_employee_def bindE_eq_Inr_iff)
  note kD = validate_employee_id_InrD [OF k] and prD = validate_profile_InrD [OF pr]
  have vk: "validate_employee_id k = Inr k" using k validate_employee_id_strip [of i] kD by simp
  have m: "map_of (files' pr) k = Some file" by (simp add: f' map_of_dict_put)
  have "get_employee files' p i = Inr e"
    by (simp add: get_employee_def get_markdown_def k pr vk m parse)
  moreover have "get_employee files' q j = get_employee files q j"
    if "strip q \<noteq> strip p \<or> strip j \<noteq> strip i"
    by (rule get_employee_cong) (use that in \<open>auto simp: f' prD kD map_of_dict_put\<close>)
  ultimately show ?thesis by blast
qed

theorem upsert_then_get_witness:
  "\<exists>files' e. upsert_employee (\<lambda>_. [example_file ''ann'' None]) ''default'' ''bob''
        (snd (example_file ''bob'' (Some ''ann''))) = Inr (files', e)
     \<and> get_employee files' ''default'' ''bob'' = Inr e
     \<and> get_employee files' ''default'' ''ann'' = Inr (example_employee ''ann'' None)"
proof -
  let ?f = "\<lambda>_::string. [example_file ''ann'' None]"
  let ?r = "upsert_employee ?f ''default'' ''bob'' (snd (example_file ''bob'' (Some ''ann'')))"
  have ok: "is_ok ?r" "get_employee ?f ''default'' ''ann'' = Inr (example_employee ''ann'' None)"
    "strip ''ann'' \<noteq> strip ''bob''"
    by code_simp+
  from ok(1) obtain x where "?r = Inr x" by (auto simp: is_ok_def split: sum.splits)
  then obtain files' e where r: "?r = Inr (files', e)" by (cases x) auto
  from upsert_then_get [OF r, of "''default''" "''ann''"] ok(2,3) r show ?thesis by auto
qed

end
