(* ===== verification/Task_Inputs.thy ===== *)
theory Task_Inputs
  imports Task_Store Employees
begin

text \<open>
  Normalisation and validation of what callers pass to the Task Flow service: the helpers at
  the end of afkbot/services/task_flow/service.py, the shared owner, timing and principal
  helpers (ai_executors.py, owner_inputs.py, timing.py, automations/principals.py).
  Instants count microseconds.
\<close>

section \<open>Texts\<close>

definition normalize_required_text :: "string option \<Rightarrow> string \<Rightarrow> string res" where
  "normalize_required_text value field_name =
     (let normalized = strip (str_or_empty value) in
      if normalized \<noteq> [] then Inr normalized else service_error (''invalid_'' @ field_name))"

definition normalize_optional_text :: "string option \<Rightarrow> string option" where
  "normalize_optional_text value = text_or_none (strip (str_or_empty value))"

definition normalize_task_description :: "string option \<Rightarrow> bool \<Rightarrow> string option res" where
  "normalize_task_description description required =
     (let normalized = normalize_optional_text description in
      if required \<and> normalized = None then service_error ''invalid_description''
      else Inr normalized)"

definition normalize_labels :: "string list option \<Rightarrow> string list" where
  "normalize_labels labels =
     (case labels of None \<Rightarrow> []
      | Some xs \<Rightarrow> uniq_first [] (filter (\<lambda>v. v \<noteq> []) (map strip xs)))"

definition normalize_status :: "string \<Rightarrow> status res" where
  "normalize_status st =
     bindE (normalize_required_text (Some st) ''status'') (\<lambda>s.
       case status_of_name (lower s) of
         None \<Rightarrow> service_error ''invalid_status''
       | Some x \<Rightarrow> Inr x)"

definition normalize_create_task_status :: "string option \<Rightarrow> status option res" where
  "normalize_create_task_status st =
     (case st of
        None \<Rightarrow> Inr None
      | Some s \<Rightarrow>
          bindE (normalize_status s) (\<lambda>x.
            if x = Plan \<or> x = Todo then Inr (Some x) else service_error ''invalid_status''))"

definition ensure_plan_status_owner_is_human :: "status option \<Rightarrow> string \<Rightarrow> unit res" where
  "ensure_plan_status_owner_is_human st owner_type =
     (if st \<noteq> Some Plan then Inr ()
      else if owner_type = ''human'' then Inr ()
      else service_error ''task_plan_requires_human_owner'')"

section \<open>Owners\<close>

definition normalize_task_owner_type :: "string option \<Rightarrow> string option" where
  "normalize_task_owner_type owner_type = text_or_none (lower (strip (str_or_empty owner_type)))"

definition is_ai_executor_owner_type :: "string option \<Rightarrow> bool" where
  "is_ai_executor_owner_type owner_type =
     (normalize_task_owner_type owner_type = Some employee_type)"

definition parse_employee_owner_ref :: "string option \<Rightarrow> string option" where
  "parse_employee_owner_ref owner_ref =
     (let normalized = strip (str_or_empty owner_ref) in
      if normalized = [] then None
      else (case validate_employee_id normalized of Inl _ \<Rightarrow> None | Inr i \<Rightarrow> Some i))"

definition resolve_task_owner_inputs ::
    "string option \<Rightarrow> string option \<Rightarrow> string option \<times> string option" where
  "resolve_task_owner_inputs owner_type owner_ref =
     (let ty = normalize_task_owner_type owner_type; r = normalize_optional_text owner_ref
      in (if ty = None \<and> r \<noteq> None then Some employee_type else ty, r))"

definition validate_owner_pair :: "string option \<Rightarrow> string option \<Rightarrow> bool \<Rightarrow> unit res" where
  "validate_owner_pair owner_type owner_ref allow_missing =
     (case (normalize_task_owner_type owner_type, normalize_optional_text owner_ref) of
        (None, None) \<Rightarrow> (if allow_missing then Inr () else service_error ''invalid_owner'')
      | (Some ty, Some r) \<Rightarrow>
          (if ty \<noteq> employee_type \<and> ty \<noteq> ''human'' then service_error ''invalid_owner_type''
           else if ty = employee_type \<and> parse_employee_owner_ref (Some r) = None
           then service_error ''invalid_owner_ref''
           else Inr ())
      | _ \<Rightarrow> service_error ''invalid_owner'')"

section \<open>Automation principals\<close>

definition build_automation_principal_ref :: "string \<Rightarrow> nat \<Rightarrow> string" where
  "build_automation_principal_ref profile_id automation_id =
     ''automation:'' @ profile_id @ '':'' @ nat_str automation_id"

text \<open>
  \<open>isdigit\<close> lets the superscript digits through, on which \<open>int\<close> then raises.
\<close>

definition parse_automation_principal_ref :: "string option \<Rightarrow> (string \<times> nat) option res" where
  "parse_automation_principal_ref actor_ref =
     (let normalized = strip (str_or_empty actor_ref) in
      if normalized = [] then Inr None
      else
        (case partition_at (CHR '':'') normalized of
           (prefix, sep, remainder) \<Rightarrow>
             (if prefix \<noteq> ''automation'' \<or> \<not> sep then Inr None
              else
                (case partition_at (CHR '':'') remainder of
                   (profile_id, sep', automation_id) \<Rightarrow>
                     (let p = strip profile_id; a = strip automation_id in
                      if \<not> sep' \<or> p = [] \<or> a = [] \<or> \<not> list_all is_py_digit a then Inr None
                      else if list_all is_ascii_digit a then Inr (Some (p, nat_of_str a))
                      else Inl Value_Error)))))"

definition parse_automation_actor_ref :: "string option \<Rightarrow> (string \<times> string) option res" where
  "parse_automation_actor_ref actor_ref =
     bindE (parse_automation_principal_ref actor_ref)
       (\<lambda>p. Inr (map_option (\<lambda>(q, n). (q, nat_str n)) p))"

definition validate_actor_pair :: "string option \<Rightarrow> string option \<Rightarrow> bool \<Rightarrow> unit res" where
  "validate_actor_pair actor_type actor_ref allow_missing =
     (case (normalize_optional_text actor_type, normalize_optional_text actor_ref) of
        (None, None) \<Rightarrow> (if allow_missing then Inr () else service_error ''invalid_actor'')
      | (Some ty, Some r) \<Rightarrow>
          (if ty \<noteq> employee_type \<and> ty \<noteq> ''human'' \<and> ty \<noteq> ''automation''
           then service_error ''invalid_actor_type''
           else
             bindE (if ty = ''automation''
                    then bindE (parse_automation_actor_ref (Some r))
                           (\<lambda>p. if p = None then service_error ''invalid_actor_ref'' else Inr ())
                    else Inr ())
               (\<lambda>_. if ty = employee_type \<and> parse_employee_owner_ref (Some r) = None
                    then service_error ''invalid_actor_ref'' else Inr ()))
      | _ \<Rightarrow> service_error ''invalid_actor'')"

section \<open>Timing inputs\<close>

definition seconds :: "int \<Rightarrow> instant" where
  "seconds n = n * 1000000"

text \<open>Unset is \<open>should_update = False\<close>.\<close>

definition resolve_ready_at_update ::
    "instant option field \<Rightarrow> int option field \<Rightarrow> string option \<Rightarrow> bool \<Rightarrow> instant
     \<Rightarrow> instant option field res" where
  "resolve_ready_at_update ready_at retry_after_sec st require_blocked now_utc =
     (let ready_requested = (case ready_at of Given (Some _) \<Rightarrow> True | _ \<Rightarrow> False) in
      case retry_after_sec of
        Given (Some n) \<Rightarrow>
          (if ready_requested then service_error ''task_ready_at_conflict''
           else if require_blocked \<and> st \<noteq> Some ''blocked''
           then service_error ''task_retry_after_requires_blocked_status''
           else Inr (Given (Some (now_utc + seconds n))))
      | _ \<Rightarrow> Inr ready_at)"

section \<open>Lemmas\<close>

lemma normalize_optional_text_SomeD:
  "normalize_optional_text v = Some s \<Longrightarrow> s \<noteq> [] \<and> trimmed s"
  by (auto simp: normalize_optional_text_def)

lemma normalize_optional_text_trimmed [simp]:
  "trimmed s \<Longrightarrow> s \<noteq> [] \<Longrightarrow> normalize_optional_text (Some s) = Some s"
  by (simp add: normalize_optional_text_def strip_trimmed)

lemma normalize_optional_text_None [simp]: "normalize_optional_text None = None"
  by (simp add: normalize_optional_text_def)

lemma normalize_required_text_InrD:
  "normalize_required_text v f = Inr s \<Longrightarrow> s \<noteq> [] \<and> trimmed s"
  by (auto simp: normalize_required_text_def Let_def split: if_splits)

lemma normalize_labels_clean:
  "distinct (normalize_labels labels)
   \<and> (\<forall>l \<in> set (normalize_labels labels). l \<noteq> [] \<and> trimmed l)"
  by (auto simp: normalize_labels_def set_uniq_first split: option.split)

lemma status_of_name_SomeD: "status_of_name s = Some st \<Longrightarrow> status_name st = s"
  by (auto simp: status_of_name_def find_Some_iff)

lemma partition_at_append:
  assumes "c \<notin> set p"
  shows "partition_at c (p @ c # r) = (p, True, r)"
  using assms by (induction p) auto

lemma list_all_digit_nat_str: "list_all is_ascii_digit (nat_str n)"
  using nat_str_digits by (simp add: list_all_iff)

lemma automation_ref_roundtrip_aux:
  assumes "CHR '':'' \<notin> set p" and "trimmed p" and "p \<noteq> []"
  shows "parse_automation_principal_ref (Some (build_automation_principal_ref p n)) = Inr (Some (p, n))"
proof -
  let ?ref = "build_automation_principal_ref p n"
  have digits: "last (nat_str n) \<in> set (nat_str n)" by simp
  then have "\<not> is_space (last (nat_str n))"
    using nat_str_digits [of n] digit_not_space by blast
  then have "trimmed ?ref"
    by (simp add: trimmed_def build_automation_principal_ref_def is_space_def code_pt_def)
  then have st: "strip ?ref = ?ref" by (rule strip_trimmed)
  have ref: "?ref = ''automation'' @ CHR '':'' # (p @ CHR '':'' # nat_str n)"
    by (simp add: build_automation_principal_ref_def)
  have p1: "partition_at (CHR '':'') ?ref = (''automation'', True, p @ CHR '':'' # nat_str n)"
    unfolding ref by (rule partition_at_append) simp
  have p2: "partition_at (CHR '':'') (p @ CHR '':'' # nat_str n) = (p, True, nat_str n)"
    by (rule partition_at_append) (rule assms(1))
  have py: "list_all is_py_digit (nat_str n)"
    using list_all_digit_nat_str [of n] by (auto simp: list_all_iff is_py_digit_def)
  show ?thesis
    using assms p1 p2 py list_all_digit_nat_str [of n] st
    by (simp add: parse_automation_principal_ref_def Let_def strip_trimmed ref)
qed

end
