(* ===== verification/Task_Deps.thy ===== *)
theory Task_Deps
  imports Task_Inputs
begin

text \<open>
  Dependencies between tasks (afkbot/services/task_flow/service.py): validated insertion of an
  edge with its cycle check, and the reconciliation that blocks a task on an unsatisfied
  prerequisite and promotes it when all of them are satisfied.
\<close>

section \<open>Wake requests\<close>

definition record_task_wake_requested ::
    "task \<Rightarrow> string \<Rightarrow> string option \<Rightarrow> string option \<Rightarrow> string option
     \<Rightarrow> (string \<times> jval) list \<Rightarrow> db \<Rightarrow> db" where
  "record_task_wake_requested t reason_code actor_type actor_ref message details d =
     record_task_event ((event_of (t_id t) ''wake_requested'')
       \<lparr>e_actor_type := actor_type, e_actor_ref := actor_ref,
        e_message := Some (case message of None \<Rightarrow> ''Wake requested: '' @ reason_code
                            | Some m \<Rightarrow> if m = [] then ''Wake requested: '' @ reason_code else m),
        e_details := [(''reason_code'', JStr reason_code),
          (''owner_type'', JStr (t_owner_type t)), (''owner_ref'', JStr (t_owner_ref t)),
          (''reviewer_type'', j_opt (t_reviewer_type t)),
          (''reviewer_ref'', j_opt (t_reviewer_ref t)),
          (''status'', JStr (status_name (t_status t))),
          (''ready_at'', j_time (t_ready_at t))] @ details\<rparr>) d"

section \<open>The cycle check\<close>

text \<open>
  The edges the check follows: those whose prerequisite exists in the profile, in the order
  \<open>list_dependencies\<close> returns them.
\<close>

definition dependency_edges :: "string \<Rightarrow> db \<Rightarrow> (string \<times> string) list" where
  "dependency_edges profile_id d =
     map (\<lambda>e. (dep_task_id e, dep_on e))
       (filter (\<lambda>e. get_task profile_id (dep_on e) d \<noteq> None) (sort_key dep_on (db_deps d)))"

definition ensure_no_dependency_cycle :: "string \<Rightarrow> string \<Rightarrow> string \<Rightarrow> db \<Rightarrow> unit res" where
  "ensure_no_dependency_cycle profile_id task_id depends_on d =
     (if search_loop (dependency_edges profile_id d) task_id [depends_on] []
      then service_error ''task_dependency_cycle'' else Inr ())"

definition create_dependency_edge ::
    "string \<Rightarrow> string \<Rightarrow> string \<Rightarrow> status \<Rightarrow> db \<Rightarrow> (db \<times> dependency) res" where
  "create_dependency_edge profile_id task_id depends_on satisfied_on d =
     bindE (normalize_required_text (Some depends_on) ''depends_on_task_id'') (\<lambda>dep.
     bindE (guardE (dep \<noteq> task_id) (Service_Error ''task_dependency_invalid'')) (\<lambda>_.
     bindE (guardE (get_task profile_id dep d \<noteq> None)
              (Service_Error ''task_dependency_not_found'')) (\<lambda>_.
     bindE (guardE (get_dependency task_id dep d = None)
              (Service_Error ''task_dependency_exists'')) (\<lambda>_.
     bindE (ensure_no_dependency_cycle profile_id task_id dep d) (\<lambda>_.
     Inr (repo_create_dependency task_id dep satisfied_on d))))))"

section \<open>Reconciliation\<close>

definition edge_satisfied :: "string \<Rightarrow> dependency \<Rightarrow> db \<Rightarrow> bool" where
  "edge_satisfied profile_id e d =
     (case get_task profile_id (dep_on e) d of
        None \<Rightarrow> False
      | Some prerequisite \<Rightarrow> t_status prerequisite = dep_satisfied_on e)"

definition waits_on_dependencies :: "task \<Rightarrow> bool" where
  "waits_on_dependencies t =
     (t_status t = Blocked \<and> t_blocked_reason_code t = Some ''dependency_wait'')"

definition promote_patch :: task_patch where
  "promote_patch = no_patch\<lparr>p_status := Some Todo, p_blocked_reason_code := Given None,
     p_blocked_reason_text := Given None\<rparr>"

definition dependency_wait_patch :: task_patch where
  "dependency_wait_patch = no_patch\<lparr>p_status := Some Blocked,
     p_blocked_reason_code := Given (Some ''dependency_wait''),
     p_blocked_reason_text := Given (Some ''Waiting for dependent tasks to complete.'')\<rparr>"

text \<open>The common promotion: back to todo, the event, and a wake request for AI owners.\<close>

definition promote_task :: "instant \<Rightarrow> task \<Rightarrow> db \<Rightarrow> (db \<times> task) res" where
  "promote_task now t d =
     bindE (repo_update_task now (t_profile_id t) (t_id t) promote_patch d) (\<lambda>(d1, r).
       case r of
         None \<Rightarrow> Inr (d1, t)
       | Some promoted \<Rightarrow>
           (let d2 = record_task_event ((event_of (t_id promoted) ''dependencies_satisfied'')
                       \<lparr>e_from := Some (t_status t), e_to := Some (t_status promoted)\<rparr>) d1;
                d3 = (if is_ai_executor_owner_type (Some (t_owner_type promoted))
                      then record_task_wake_requested promoted ''dependencies_satisfied'' None None
                        (Some ''Dependencies satisfied; task is ready for AI execution.'') [] d2
                      else d2)
            in Inr (d3, promoted)))"

definition reconcile_task_readiness :: "instant \<Rightarrow> task \<Rightarrow> db \<Rightarrow> (db \<times> task) res" where
  "reconcile_task_readiness now t d =
     (let deps = repo_list_dependencies (t_id t) d in
      if deps = [] then Inr (d, t)
      else if \<not> list_all (\<lambda>e. edge_satisfied (t_profile_id t) e d) deps then Inr (d, t)
      else if \<not> waits_on_dependencies t then Inr (d, t)
      else promote_task now t d)"

definition reconcile_task_readiness_after_dependency_change ::
    "instant \<Rightarrow> task \<Rightarrow> db \<Rightarrow> (db \<times> task) res" where
  "reconcile_task_readiness_after_dependency_change now t d =
     (let deps = repo_list_dependencies (t_id t) d in
      if deps = [] then
        (if waits_on_dependencies t then promote_task now t d else Inr (d, t))
      else if \<not> list_all (\<lambda>e. edge_satisfied (t_profile_id t) e d) deps then
        (if \<not> waits_on_dependencies t then
           bindE (repo_update_task now (t_profile_id t) (t_id t) dependency_wait_patch d) (\<lambda>(d1, r).
             case r of
               None \<Rightarrow> Inr (d1, t)
             | Some blocked \<Rightarrow>
                 Inr (record_task_event ((event_of (t_id blocked) ''dependencies_blocked'')
                        \<lparr>e_from := Some (t_status t), e_to := Some (t_status blocked),
                         e_details := [(''blocked_reason_code'', JStr ''dependency_wait'')]\<rparr>) d1,
                      blocked))
         else Inr (d, t))
      else reconcile_task_readiness now t d)"

definition reconcile_dependent_tasks :: "instant \<Rightarrow> string \<Rightarrow> string \<Rightarrow> db \<Rightarrow> db res" where
  "reconcile_dependent_tasks now profile_id task_id d =
     foldE (\<lambda>e d. case get_task profile_id (dep_task_id e) d of
          None \<Rightarrow> Inr d
        | Some t \<Rightarrow> bindE (reconcile_task_readiness now t d) (\<lambda>r. Inr (fst r)))
       (list_dependents task_id d) d"

section \<open>Deleting a task row\<close>

definition delete_task_row :: "instant \<Rightarrow> task \<Rightarrow> string list \<Rightarrow> db \<Rightarrow> db res" where
  "delete_task_row now row skip_ids d =
     bindE (guardE (\<not> active_status (t_status row))
              (Service_Error ''task_delete_active_conflict'')) (\<lambda>_.
       let dependents = filter (\<lambda>i. i \<notin> set skip_ids)
             (map dep_task_id (list_dependents (t_id row) d));
           d1 = delete_task_dependencies (t_id row) (delete_task_runs (t_id row)
                  (delete_task_events (t_id row) (delete_task_attachments (t_id row) d)));
           (d2, deleted) = repo_delete_task (t_profile_id row) (t_id row) d1
       in bindE (guardE deleted (Service_Error ''task_not_found'')) (\<lambda>_.
            foldE (\<lambda>i d. case get_task (t_profile_id row) i d of
                 None \<Rightarrow> Inr d
               | Some t \<Rightarrow>
                   bindE (reconcile_task_readiness_after_dependency_change now t d)
                     (\<lambda>r. Inr (fst r)))
              (uniq_first [] dependents) d2))"

section \<open>The cycle check decides reachability\<close>

lemma set_dependency_edges:
  "set (dependency_edges p d) =
     {(dep_task_id e, dep_on e) | e. e \<in> set (db_deps d) \<and> get_task p (dep_on e) d \<noteq> None}"
  by (auto simp: dependency_edges_def)

text \<open>The successors of a node are what the loop reads from the repository.\<close>

lemma filter_sort_key_comm: "filter P (sort_key f xs) = sort_key f (filter P xs)"
  by (rule filter_sort)

lemma succs_dependency_edges:
  "succs (dependency_edges p d) i =
     map dep_on (filter (\<lambda>e. get_task p (dep_on e) d \<noteq> None) (repo_list_dependencies i d))"
proof -
  have "filter (\<lambda>e. fst e = i) (dependency_edges p d)
      = map (\<lambda>e. (dep_task_id e, dep_on e))
          (filter (\<lambda>e. get_task p (dep_on e) d \<noteq> None)
            (filter (\<lambda>e. dep_task_id e = i) (sort_key dep_on (db_deps d))))"
    by (simp add: dependency_edges_def filter_map comp_def conj_commute)
  then show ?thesis
    by (simp add: succs_def repo_list_dependencies_def filter_sort_key_comm comp_def)
qed

lemma ensure_no_cycle_iff:
  "ensure_no_dependency_cycle p i dep d = Inr () \<longleftrightarrow>
     (dep, i) \<notin> (set (dependency_edges p d))\<^sup>*"
  by (simp add: ensure_no_dependency_cycle_def)

lemma create_dependency_edge_InrD:
  assumes "create_dependency_edge p i raw st d = Inr (d', e)"
  shows "dep_on e = strip raw" and "dep_task_id e = i" and "dep_satisfied_on e = st"
    and "d' = d\<lparr>db_deps := db_deps d @ [e]\<rparr>"
    and "dep_on e \<noteq> i" and "get_task p (dep_on e) d \<noteq> None" and "get_dependency i (dep_on e) d = None"
    and "(dep_on e, i) \<notin> (set (dependency_edges p d))\<^sup>*"
  using assms
  by (auto simp: create_dependency_edge_def repo_create_dependency_def normalize_required_text_def
      bindE_eq_Inr_iff Let_def ensure_no_cycle_iff split: if_splits)

text \<open>Under the graph interface: a stripped id whose insertion is accepted.\<close>

definition dep_edge_ok :: "string \<Rightarrow> db \<Rightarrow> string \<Rightarrow> string \<Rightarrow> bool" where
  "dep_edge_ok p d i dep = (strip dep = dep \<and> is_ok (create_dependency_edge p i dep Completed d))"

definition dep_edge_add :: "string \<Rightarrow> string \<Rightarrow> db \<Rightarrow> db" where
  "dep_edge_add i dep d = fst (repo_create_dependency i dep Completed d)"

lemma is_okE:
  assumes "is_ok r"
  obtains x where "r = Inr x"
  using assms by (cases r) simp_all

lemma get_task_deps_cong [simp]: "get_task p i (d\<lparr>db_deps := xs\<rparr>) = get_task p i d"
  by (rule get_task_cong) simp

lemma set_edges_append:
  "set (dependency_edges p (d\<lparr>db_deps := db_deps d @ [e]\<rparr>)) =
     set (dependency_edges p d) \<union>
       (if get_task p (dep_on e) d \<noteq> None then {(dep_task_id e, dep_on e)} else {})"
  by (auto simp: set_dependency_edges)

interpretation dep_graph: guarded_graph "\<lambda>d. set (dependency_edges p d)" "dep_edge_ok p" dep_edge_add
  for p
proof unfold_locales
  fix d a b
  assume ok: "dep_edge_ok p d a b"
  then obtain d' e where r: "create_dependency_edge p a b Completed d = Inr (d', e)"
    by (auto simp: dep_edge_ok_def elim: is_okE)
  have b: "dep_on e = b" using create_dependency_edge_InrD(1) [OF r] ok by (simp add: dep_edge_ok_def)
  show "(b, a) \<notin> (set (dependency_edges p d))\<^sup>*"
    using create_dependency_edge_InrD(8) [OF r] b by simp
  show "set (dependency_edges p (dep_edge_add a b d)) \<subseteq> insert (a, b) (set (dependency_edges p d))"
    by (simp add: dep_edge_add_def repo_create_dependency_def set_edges_append Let_def subset_insertI)
qed

lemma acyclic_create_edge:
  assumes "acyclic (set (dependency_edges p d))" and "create_dependency_edge p i raw st d = Inr (d', e)"
  shows "acyclic (set (dependency_edges p d'))"
proof -
  note E = create_dependency_edge_InrD [OF assms(2)]
  have "set (dependency_edges p d') = insert (i, dep_on e) (set (dependency_edges p d))"
    using E(2,4,6) by (simp add: set_edges_append)
  with assms(1) E(8) show ?thesis by (simp add: acyclic_insert)
qed

section \<open>Changes confined to one task\<close>

definition local_change :: "string \<Rightarrow> db \<Rightarrow> db \<Rightarrow> bool" where
  "local_change i d d' \<longleftrightarrow> db_deps d' = db_deps d
     \<and> (\<forall>p' i'. i' \<noteq> i \<longrightarrow> get_task p' i' d' = get_task p' i' d)
     \<and> ids_unique d'"

lemma local_change_refl: "ids_unique d \<Longrightarrow> local_change i d d"
  by (simp add: local_change_def)

lemma local_change_trans: "local_change i d d' \<Longrightarrow> local_change i d' d'' \<Longrightarrow> local_change i d d''"
  by (simp add: local_change_def)

lemma ids_unique_record_task_event [simp]: "ids_unique (record_task_event ev d) = ids_unique d"
  by (simp add: ids_unique_def)

lemma local_change_event: "ids_unique d \<Longrightarrow> local_change i d (record_task_event ev d)"
  by (simp add: local_change_def)

lemma local_change_update:
  assumes "ids_unique d" and "repo_update_task now p i patch d = Inr (d', r)"
  shows "local_change i d d'"
proof (cases r)
  case None
  with assms(2) have "d' = d"
    by (auto simp: repo_update_task_def Let_def bindE_eq_Inr_iff split: option.splits)
  with assms(1) show ?thesis by (simp add: local_change_refl)
next
  case (Some row')
  note up = assms(2) [unfolded Some]
  from up obtain row where "d' = put_task row' d" by (rule repo_update_task_SomeD)
  then show ?thesis
    using repo_update_task_get [OF assms(1) up] assms(1) by (simp add: local_change_def)
qed

lemma repo_update_task_found:
  assumes "get_task p i d = Some t" and "repo_update_task now p i patch d = Inr (d', r)"
  obtains t' where "r = Some t'" and "t' = touch_row (db_clock d) t (apply_patch now patch t)"
  using assms by (auto simp: repo_update_task_def Let_def bindE_eq_Inr_iff)

lemma wake_frame [simp]:
  "db_deps (record_task_wake_requested t rc at ar m ds d) = db_deps d"
  "db_tasks (record_task_wake_requested t rc at ar m ds d) = db_tasks d"
  "get_task p i (record_task_wake_requested t rc at ar m ds d) = get_task p i d"
  "ids_unique (record_task_wake_requested t rc at ar m ds d) = ids_unique d"
  by (simp_all add: record_task_wake_requested_def)

lemma promote_task_InrD:
  assumes ids: "ids_unique d" and t: "get_task (t_profile_id t) (t_id t) d = Some t"
    and pr: "promote_task now t d = Inr (d', t')"
  shows "local_change (t_id t) d d'" and "get_task (t_profile_id t) (t_id t) d' = Some t'"
    and "t_status t' = Todo" and "t_blocked_reason_code t' = None" and "t_ready_at t' \<noteq> None"
    and "t_id t' = t_id t" and "t_profile_id t' = t_profile_id t"
proof -
  from pr obtain d1 r where up: "repo_update_task now (t_profile_id t) (t_id t) promote_patch d = Inr (d1, r)"
    by (auto simp: promote_task_def bindE_eq_Inr_iff)
  from t up obtain u where r: "r = Some u"
    and u: "u = touch_row (db_clock d) t (apply_patch now promote_patch t)"
    by (rule repo_update_task_found)
  have t': "t' = u" and d': "db_deps d' = db_deps d1" "db_tasks d' = db_tasks d1"
    using pr up r by (auto simp: promote_task_def Let_def split: if_splits)
  have lc: "local_change (t_id t) d d1" by (rule local_change_update [OF ids up])
  have get: "get_task p' i' d' = get_task p' i' d1" for p' i' by (rule get_task_cong) (rule d'(2))
  show "local_change (t_id t) d d'"
    using lc d' get by (simp add: local_change_def ids_unique_def)
  show "get_task (t_profile_id t) (t_id t) d' = Some t'"
    unfolding get t' using repo_update_task_get [OF ids up [unfolded r]] by simp
  show "t_status t' = Todo" and "t_id t' = t_id t" and "t_profile_id t' = t_profile_id t"
    unfolding t' u by (simp_all add: promote_patch_def)
  show "t_ready_at t' \<noteq> None" unfolding t' u
    by (simp add: apply_patch_def promote_patch_def patch_ready_def)
  show "t_blocked_reason_code t' = None" unfolding t' u
    by (simp add: apply_patch_def patch_blocked_reason_def promote_patch_def)
qed

section \<open>What reconciliation establishes\<close>

definition prerequisites_met :: "string \<Rightarrow> string \<Rightarrow> db \<Rightarrow> bool" where
  "prerequisites_met p i d = list_all (\<lambda>e. edge_satisfied p e d) (repo_list_dependencies i d)"

definition no_self_edge :: "db \<Rightarrow> bool" where
  "no_self_edge d = list_all (\<lambda>e. dep_task_id e \<noteq> dep_on e) (db_deps d)"

lemma prerequisites_met_local:
  assumes lc: "local_change i d d'" and ns: "no_self_edge d"
  shows "prerequisites_met p i d' = prerequisites_met p i d"
proof -
  have deps: "repo_list_dependencies i d' = repo_list_dependencies i d"
    using lc by (simp add: repo_list_dependencies_def local_change_def)
  have "edge_satisfied p e d' = edge_satisfied p e d" if "e \<in> set (repo_list_dependencies i d)" for e
  proof -
    have "dep_task_id e = i" and "e \<in> set (db_deps d)" using that by (simp_all add: repo_list_dependencies_def)
    with ns have "dep_on e \<noteq> i" by (simp add: no_self_edge_def list_all_iff) metis
    with lc show ?thesis by (simp add: edge_satisfied_def local_change_def)
  qed
  then show ?thesis by (simp add: prerequisites_met_def deps list_all_iff)
qed

lemma reconcile_task_readiness_cases:
  assumes "reconcile_task_readiness now t d = Inr (d', t')"
  obtains (same) "d' = d" "t' = t"
      "\<not> (repo_list_dependencies (t_id t) d \<noteq> [] \<and> prerequisites_met (t_profile_id t) (t_id t) d
          \<and> waits_on_dependencies t)"
    | (promoted) "promote_task now t d = Inr (d', t')"
      "repo_list_dependencies (t_id t) d \<noteq> []" "prerequisites_met (t_profile_id t) (t_id t) d"
      "waits_on_dependencies t"
proof (cases "repo_list_dependencies (t_id t) d \<noteq> [] \<and> prerequisites_met (t_profile_id t) (t_id t) d
    \<and> waits_on_dependencies t")
  case True
  with assms have "promote_task now t d = Inr (d', t')"
    by (simp add: reconcile_task_readiness_def Let_def prerequisites_met_def)
  with True show thesis using promoted by blast
next
  case False
  with assms have "d' = d" "t' = t"
    by (auto simp: reconcile_task_readiness_def Let_def prerequisites_met_def split: if_splits)
  with False show thesis using same by blast
qed

lemma reconcile_change_cases:
  assumes "reconcile_task_readiness_after_dependency_change now t d = Inr (d', t')"
  obtains (same) "d' = d" "t' = t"
      "waits_on_dependencies t = (\<not> prerequisites_met (t_profile_id t) (t_id t) d)"
    | (promoted) "promote_task now t d = Inr (d', t')" "prerequisites_met (t_profile_id t) (t_id t) d"
      "waits_on_dependencies t"
    | (blocked) d1 r where "\<not> waits_on_dependencies t"
      "\<not> prerequisites_met (t_profile_id t) (t_id t) d"
      "repo_update_task now (t_profile_id t) (t_id t) dependency_wait_patch d = Inr (d1, r)"
      "r = None \<Longrightarrow> d' = d1 \<and> t' = t"
      "\<And>b. r = Some b \<Longrightarrow> t' = b \<and> (\<exists>ev. d' = record_task_event ev d1)"
proof (cases "prerequisites_met (t_profile_id t) (t_id t) d")
  case met: True
  show thesis
  proof (cases "waits_on_dependencies t")
    case True
    with met assms have "promote_task now t d = Inr (d', t')"
      by (auto simp: reconcile_task_readiness_after_dependency_change_def
          reconcile_task_readiness_def Let_def prerequisites_met_def split: if_splits)
    then show thesis using promoted met True by blast
  next
    case False
    with met assms have "d' = d" "t' = t"
      by (auto simp: reconcile_task_readiness_after_dependency_change_def
          reconcile_task_readiness_def Let_def prerequisites_met_def split: if_splits)
    then show thesis using same met False by blast
  qed
next
  case unmet: False
  then have ne: "repo_list_dependencies (t_id t) d \<noteq> []" by (auto simp: prerequisites_met_def)
  show thesis
  proof (cases "waits_on_dependencies t")
    case True
    with unmet ne assms have "d' = d" "t' = t"
      by (auto simp: reconcile_task_readiness_after_dependency_change_def Let_def
          prerequisites_met_def split: if_splits)
    then show thesis using same unmet True by blast
  next
    case False
    with unmet ne assms obtain d1 r where
      up: "repo_update_task now (t_profile_id t) (t_id t) dependency_wait_patch d = Inr (d1, r)"
      and rest: "(case r of None \<Rightarrow> Inr (d1, t)
        | Some blocked \<Rightarrow>
            Inr (record_task_event ((event_of (t_id blocked) ''dependencies_blocked'')
                  \<lparr>e_from := Some (t_status t), e_to := Some (t_status blocked),
                   e_details := [(''blocked_reason_code'', JStr ''dependency_wait'')]\<rparr>) d1,
                 blocked)) = (Inr (d', t') :: (db \<times> task) res)"
      by (auto simp: reconcile_task_readiness_after_dependency_change_def Let_def
          prerequisites_met_def bindE_eq_Inr_iff)
    show thesis
      by (rule blocked [OF False unmet up]) (use rest in auto)
  qed
qed

lemma blocked_patch_waits:
  "waits_on_dependencies (touch_row c t (apply_patch now dependency_wait_patch t))"
  by (simp add: waits_on_dependencies_def dependency_wait_patch_def apply_patch_def
      patch_blocked_reason_def)

lemma todo_not_waits: "t_status t = Todo \<Longrightarrow> \<not> waits_on_dependencies t"
  by (simp add: waits_on_dependencies_def)

lemma reconcile_change_establishes:
  assumes ids: "ids_unique d" and t: "get_task (t_profile_id t) (t_id t) d = Some t"
    and ns: "no_self_edge d"
    and rc: "reconcile_task_readiness_after_dependency_change now t d = Inr (d', t')"
  shows "local_change (t_id t) d d' \<and> get_task (t_profile_id t) (t_id t) d' = Some t'
    \<and> waits_on_dependencies t' = (\<not> prerequisites_met (t_profile_id t) (t_id t) d')
    \<and> t_id t' = t_id t \<and> t_profile_id t' = t_profile_id t"
  using rc
proof (cases rule: reconcile_change_cases)
  case same
  with ids t show ?thesis by (simp add: local_change_refl)
next
  case promoted
  note P = promote_task_InrD [OF ids t promoted(1)]
  show ?thesis
    using P promoted(2) prerequisites_met_local [OF P(1) ns] todo_not_waits [OF P(3)] by simp
next
  case (blocked d1 r)
  from t blocked(3) obtain u where r: "r = Some u"
    and u: "u = touch_row (db_clock d) t (apply_patch now dependency_wait_patch t)"
    by (rule repo_update_task_found)
  from blocked(5) [OF r] obtain ev where t': "t' = u" and d': "d' = record_task_event ev d1" by blast
  have lc1: "local_change (t_id t) d d1" by (rule local_change_update [OF ids blocked(3)])
  then have "ids_unique d1" by (simp add: local_change_def)
  then have lc: "local_change (t_id t) d d'"
    unfolding d' using local_change_trans [OF lc1] local_change_event by blast
  moreover have "get_task (t_profile_id t) (t_id t) d' = Some t'"
    using repo_update_task_get [OF ids blocked(3) [unfolded r]] t' d' by simp
  moreover have "waits_on_dependencies t'" unfolding t' u by (rule blocked_patch_waits)
  moreover have "\<not> prerequisites_met (t_profile_id t) (t_id t) d'"
    using prerequisites_met_local [OF lc ns] blocked(2) by simp
  ultimately show ?thesis using t' u by simp
qed

section \<open>What a reconciliation leaves alone\<close>

text \<open>
  Between two databases only the row of one task and events about it were added; which tasks
  exist does not change.
\<close>

definition confined :: "string \<Rightarrow> db \<Rightarrow> db \<Rightarrow> bool" where
  "confined i d d' \<longleftrightarrow> db_deps d' = db_deps d \<and> db_runs d' = db_runs d
     \<and> db_attachments d' = db_attachments d \<and> db_flows d' = db_flows d
     \<and> db_profiles d' = db_profiles d
     \<and> map task_key (db_tasks d') = map task_key (db_tasks d)
     \<and> (\<forall>e \<in> set (db_events d'). e \<in> set (db_events d) \<or> e_task_id e = i)"

lemma confined_refl [simp]: "confined i d d"
  by (simp add: confined_def)

lemma confined_trans: "confined i d d' \<Longrightarrow> confined i d' d'' \<Longrightarrow> confined i d d''"
  unfolding confined_def by metis

lemma confined_record:
  assumes "confined i d d'" and "e_task_id ev = i"
  shows "confined i d (record_task_event ev d')"
proof -
  have "set (db_events (record_task_event ev d')) =
      insert (ev\<lparr>e_id := db_next_event d', e_created_at := db_clock d'\<rparr>) (set (db_events d'))"
    by (simp add: record_task_event_def create_task_event_def Let_def)
  with assms show ?thesis by (simp add: confined_def)
qed

lemma e_task_id_event_of [simp]: "e_task_id (event_of i ty) = i"
  by (simp add: event_of_def)

lemma confined_wake:
  "confined (t_id t) d d' \<Longrightarrow> confined (t_id t) d (record_task_wake_requested t rc at ar m ds d')"
  unfolding record_task_wake_requested_def by (rule confined_record) simp_all

lemma confined_update:
  assumes ids: "ids_unique d" and up: "repo_update_task now p i patch d = Inr (d', r)"
  shows "confined i d d'"
proof (cases r)
  case None
  with up have "d' = d" by (auto simp: repo_update_task_def Let_def bindE_eq_Inr_iff split: option.splits)
  then show ?thesis by simp
next
  case (Some row')
  with up obtain row where row: "get_task p i d = Some row"
    and row': "row' = touch_row (db_clock d) row (apply_patch now patch row)"
    and d': "d' = put_task row' d" by (auto elim: repo_update_task_SomeD)
  note D = get_task_SomeD [OF row]
  have "task_key (if t_id t = t_id row' then row' else t) = task_key t" if "t \<in> set (db_tasks d)" for t
    using ids_unique_eqD [OF ids that D(1)] D row' by (simp add: task_key_def)
  then have "map task_key (db_tasks d') = map task_key (db_tasks d)"
    unfolding d' by (simp add: put_task_def update_where_def)
  then show ?thesis by (simp add: confined_def d')
qed

lemma get_task_None_iff: "get_task p i d = None \<longleftrightarrow> (p, i) \<notin> set (map task_key (db_tasks d))"
  by (auto simp: get_task_def find_None_iff task_key_def)

lemma confined_exists: "confined i d d' \<Longrightarrow> get_task p j d' = None \<longleftrightarrow> get_task p j d = None"
  unfolding get_task_None_iff confined_def by metis

lemma confined_edges: "confined i d d' \<Longrightarrow> dependency_edges p d' = dependency_edges p d"
  using confined_exists [of i d d' p] by (simp add: dependency_edges_def confined_def)

lemma confined_promote:
  assumes ids: "ids_unique d" and t: "get_task (t_profile_id t) (t_id t) d = Some t"
    and pr: "promote_task now t d = Inr (d', t')"
  shows "confined (t_id t) d d'"
proof -
  from pr obtain d1 r where up: "repo_update_task now (t_profile_id t) (t_id t) promote_patch d = Inr (d1, r)"
    by (auto simp: promote_task_def bindE_eq_Inr_iff)
  from t up obtain u where r: "r = Some u"
    and u: "u = touch_row (db_clock d) t (apply_patch now promote_patch t)"
    by (rule repo_update_task_found)
  have id: "t_id t = t_id u" using u by simp
  have c: "confined (t_id u) d d1" using confined_update [OF ids up] id by simp
  show ?thesis
    unfolding id using pr up r confined_record [OF c] confined_wake
    by (auto simp: promote_task_def Let_def split: if_splits)
qed

lemma confined_reconcile:
  assumes ids: "ids_unique d" and t: "get_task (t_profile_id t) (t_id t) d = Some t"
    and rc: "reconcile_task_readiness now t d = Inr (d', t')"
  shows "confined (t_id t) d d'"
  using rc by (cases rule: reconcile_task_readiness_cases) (simp_all add: confined_promote [OF ids t])

lemma confined_reconcile_change:
  assumes ids: "ids_unique d" and t: "get_task (t_profile_id t) (t_id t) d = Some t"
    and rc: "reconcile_task_readiness_after_dependency_change now t d = Inr (d', t')"
  shows "confined (t_id t) d d'"
  using rc
proof (cases rule: reconcile_change_cases)
  case promoted
  then show ?thesis by (simp add: confined_promote [OF ids t])
next
  case (blocked d1 r)
  from t blocked(3) obtain u where r: "r = Some u"
    and u: "u = touch_row (db_clock d) t (apply_patch now dependency_wait_patch t)"
    by (rule repo_update_task_found)
  have id: "t_id u = t_id t" using u by simp
  have c: "confined (t_id t) d d1" by (rule confined_update [OF ids blocked(3)])
  have "\<not> prerequisites_met (t_profile_id t) (t_id t) d \<Longrightarrow> repo_list_dependencies (t_id t) d \<noteq> []"
    by (auto simp: prerequisites_met_def)
  then show ?thesis
    using rc blocked(1-3) r id confined_record [OF c]
    by (auto simp: reconcile_task_readiness_after_dependency_change_def Let_def prerequisites_met_def
        split: if_splits)
qed simp

section \<open>Deletion\<close>

text \<open>Nothing in the database is about the task any more.\<close>

definition no_trace :: "string \<Rightarrow> db \<Rightarrow> bool" where
  "no_trace i d \<longleftrightarrow> (\<forall>e \<in> set (db_deps d). dep_task_id e \<noteq> i \<and> dep_on e \<noteq> i)
     \<and> (\<forall>e \<in> set (db_events d). e_task_id e \<noteq> i) \<and> (\<forall>r \<in> set (db_runs d). r_task_id r \<noteq> i)
     \<and> (\<forall>a \<in> set (db_attachments d). a_task_id a \<noteq> i)"

lemma no_trace_confined: "confined j d d' \<Longrightarrow> j \<noteq> i \<Longrightarrow> no_trace i d \<Longrightarrow> no_trace i d'"
  unfolding confined_def no_trace_def by metis

lemma no_trace_delete:
  "no_trace i (delete_task_dependencies i (delete_task_runs i
     (delete_task_events i (delete_task_attachments i d))))"
  by (simp add: no_trace_def delete_task_dependencies_def delete_task_runs_def
      delete_task_events_def delete_task_attachments_def set_delete_where)

lemma reconcile_change_ids_unique:
  assumes "ids_unique d" and "confined i d d'"
  shows "ids_unique d'"
proof -
  have "map t_id (db_tasks e) = map snd (map task_key (db_tasks e))" for e :: db
    by (simp add: task_key_def)
  with assms show ?thesis unfolding ids_unique_def confined_def by metis
qed

lemma delete_task_row_clean:
  assumes ids: "ids_unique d" and dl: "delete_task_row now row skip d = Inr d'"
  shows "no_trace (t_id row) d' \<and> get_task (t_profile_id row) (t_id row) d' = None"
proof -
  let ?i = "t_id row" and ?p = "t_profile_id row"
  define d1 where "d1 = delete_task_dependencies ?i (delete_task_runs ?i
      (delete_task_events ?i (delete_task_attachments ?i d)))"
  define d2 where "d2 = fst (repo_delete_task ?p ?i d1)"
  have tasks: "db_tasks d1 = db_tasks d"
    by (simp add: d1_def delete_task_dependencies_def delete_task_runs_def
        delete_task_events_def delete_task_attachments_def)
  let ?P = "\<lambda>e. no_trace ?i e \<and> get_task ?p ?i e = None \<and> ids_unique e"
  have d2: "d2 = d1\<lparr>db_tasks := filter (\<lambda>t. \<not> (t_profile_id t = ?p \<and> t_id t = ?i)) (db_tasks d)\<rparr>"
    by (simp add: d2_def repo_delete_task_def Let_def delete_where_def tasks)
  have start: "?P d2"
    using no_trace_delete [of ?i d] ids
    by (auto simp: d2 no_trace_def d1_def get_task_def find_None_iff ids_unique_def distinct_map_filter)
  from dl obtain js where fold: "foldE (\<lambda>i d. case get_task ?p i d of None \<Rightarrow> Inr d
      | Some t \<Rightarrow> bindE (reconcile_task_readiness_after_dependency_change now t d) (\<lambda>r. Inr (fst r))) js d2
      = Inr d'"
    by (auto simp: delete_task_row_def Let_def bindE_eq_Inr_iff d2_def d1_def case_prod_beta)
  have "?P d'"
  proof (rule foldE_invariant [where P = ?P, OF fold start])
    fix j e e'
    assume P: "?P e" and st: "(case get_task ?p j e of None \<Rightarrow> Inr e
      | Some t \<Rightarrow> bindE (reconcile_task_readiness_after_dependency_change now t e) (\<lambda>r. Inr (fst r))) = Inr e'"
    show "?P e'"
    proof (cases "get_task ?p j e")
      case None
      with P st show ?thesis by simp
    next
      case (Some t)
      note tD = get_task_SomeD [OF Some]
      with st Some obtain t' where
        rc: "reconcile_task_readiness_after_dependency_change now t e = Inr (e', t')"
        by (auto simp: bindE_eq_Inr_iff)
      have c: "confined (t_id t) e e'"
        by (rule confined_reconcile_change [OF _ _ rc]) (use P Some tD in simp_all)
      have "t_id t \<noteq> ?i" using P Some tD by auto
      with c P show ?thesis
        using no_trace_confined confined_exists [OF c] reconcile_change_ids_unique by metis
    qed
  qed
  then show ?thesis by simp
qed

section \<open>Waking dependents\<close>

text \<open>A task that waits although all its prerequisites are met.\<close>

definition missed_wake :: "string \<Rightarrow> string \<Rightarrow> db \<Rightarrow> bool" where
  "missed_wake p i d =
     (case get_task p i d of None \<Rightarrow> False
      | Some t \<Rightarrow> waits_on_dependencies t \<and> repo_list_dependencies i d \<noteq> []
                  \<and> prerequisites_met p i d)"

definition terminal_edges :: "db \<Rightarrow> bool" where
  "terminal_edges d = list_all (\<lambda>e. terminal_status (dep_satisfied_on e)) (db_deps d)"

lemma promote_edge_satisfied:
  assumes ids: "ids_unique d" and t: "get_task (t_profile_id t) (t_id t) d = Some t"
    and w: "waits_on_dependencies t" and pr: "promote_task now t d = Inr (d', t')"
    and e: "terminal_status (dep_satisfied_on e)"
  shows "edge_satisfied p e d' = edge_satisfied p e d"
proof (cases "p = t_profile_id t \<and> dep_on e = t_id t")
  case True
  note P = promote_task_InrD [OF ids t pr]
  have "t_status t = Blocked" using w by (simp add: waits_on_dependencies_def)
  with e P(2,3) t True show ?thesis by (auto simp: edge_satisfied_def)
next
  case False
  note P = promote_task_InrD [OF ids t pr]
  have "get_task p (dep_on e) d' = get_task p (dep_on e) d"
  proof (cases "dep_on e = t_id t")
    case True
    with False have "p \<noteq> t_profile_id t" by simp
    moreover have "get_task q (t_id t) d = None" if "q \<noteq> t_profile_id t" for q
      using ids_unique_eqD [OF ids] get_task_SomeD [OF t] get_task_SomeD [of q "t_id t" d] that
      by (metis not_None_eq)
    moreover have "get_task q (t_id t) d' = None \<longleftrightarrow> get_task q (t_id t) d = None" for q
      by (rule confined_exists [OF confined_promote [OF ids t pr]])
    ultimately show ?thesis using True by simp
  next
    case False
    with P(1) show ?thesis by (simp add: local_change_def)
  qed
  then show ?thesis by (simp add: edge_satisfied_def)
qed

lemma reconcile_no_missed_wake:
  assumes ids: "ids_unique d" and t: "get_task p j d = Some t" and te: "terminal_edges d"
    and rc: "reconcile_task_readiness now t d = Inr (d', t')"
  shows "\<not> missed_wake p j d' \<and> (missed_wake p i d' \<longrightarrow> missed_wake p i d)
    \<and> ids_unique d' \<and> db_deps d' = db_deps d"
proof -
  note tD = get_task_SomeD [OF t]
  have t': "get_task (t_profile_id t) (t_id t) d = Some t" using t tD by simp
  have c: "confined (t_id t) d d'" by (rule confined_reconcile [OF ids t' rc])
  have ids': "ids_unique d'" by (rule reconcile_change_ids_unique [OF ids c])
  have deps: "db_deps d' = db_deps d" using c by (simp add: confined_def)
  show ?thesis
    using rc
  proof (cases rule: reconcile_task_readiness_cases)
    case same
    with t tD ids show ?thesis by (auto simp: missed_wake_def)
  next
    case promoted
    note P = promote_task_InrD [OF ids t' promoted(1)]
    have met: "prerequisites_met p k d' = prerequisites_met p k d" for k
      using promote_edge_satisfied [OF ids t' promoted(4,1)] te
      by (simp add: prerequisites_met_def repo_list_dependencies_def deps list_all_iff terminal_edges_def)
    have ld: "repo_list_dependencies k d' = repo_list_dependencies k d" for k
      by (simp add: repo_list_dependencies_def deps)
    have j: "\<not> missed_wake p j d'" using P(2,3) tD todo_not_waits by (simp add: missed_wake_def)
    have "missed_wake p i d' \<longrightarrow> missed_wake p i d"
    proof (cases "i = t_id t")
      case True
      with j tD show ?thesis by simp
    next
      case False
      then have "get_task p i d' = get_task p i d" using P(1) by (simp add: local_change_def)
      then show ?thesis by (simp add: missed_wake_def met ld split: option.split)
    qed
    with j ids' deps show ?thesis by blast
  qed
qed

lemma reconcile_dependents_no_missed_wake:
  assumes "reconcile_dependent_tasks now p i d = Inr d'" and "ids_unique d" and "terminal_edges d"
    and "e \<in> set (db_deps d)" and "dep_on e = i"
  shows "\<not> missed_wake p (dep_task_id e) d'"
proof -
  let ?f = "\<lambda>e d. case get_task p (dep_task_id e) d of
          None \<Rightarrow> Inr d
        | Some t \<Rightarrow> bindE (reconcile_task_readiness now t d) (\<lambda>r. Inr (fst r))"
  have step: "\<not> missed_wake p (dep_task_id x) s' \<and> (\<forall>j. missed_wake p j s' \<longrightarrow> missed_wake p j s)
      \<and> ids_unique s' \<and> terminal_edges s'"
    if "?f x s = Inr s'" and "ids_unique s" and "terminal_edges s" for x s s'
  proof (cases "get_task p (dep_task_id x) s")
    case None
    with that show ?thesis by (simp add: missed_wake_def)
  next
    case (Some t)
    with that(1) obtain t' where "reconcile_task_readiness now t s = Inr (s', t')"
      by (auto simp: bindE_eq_Inr_iff)
    from reconcile_no_missed_wake [OF that(2) Some that(3) this]
    show ?thesis using that(3) by (simp add: terminal_edges_def)
  qed
  have "foldE ?f xs s = Inr s' \<Longrightarrow> ids_unique s \<Longrightarrow> terminal_edges s \<Longrightarrow>
      (\<forall>x \<in> set xs. \<not> missed_wake p (dep_task_id x) s')
      \<and> (\<forall>j. missed_wake p j s' \<longrightarrow> missed_wake p j s)" for xs s s'
  proof (induction xs arbitrary: s)
    case (Cons x xs)
    from Cons.prems(1) obtain s1 where s1: "?f x s = Inr s1" and rest: "foldE ?f xs s1 = Inr s'"
      by (auto simp: bindE_eq_Inr_iff)
    note st = step [OF s1 Cons.prems(2,3)]
    with Cons.IH [OF rest] show ?case by auto
  qed simp
  moreover have "foldE ?f (list_dependents i d) d = Inr d'"
    using assms(1) by (simp add: reconcile_dependent_tasks_def)
  ultimately have "\<forall>x \<in> set (list_dependents i d). \<not> missed_wake p (dep_task_id x) d'"
    using assms(2,3) by blast
  moreover have "e \<in> set (list_dependents i d)" using assms(4,5) by (simp add: list_dependents_def)
  ultimately show ?thesis by blast
qed

end
