(* ===== verification/Lease.thy ===== *)
theory Lease
  imports Prelude
begin

text \<open>
  The contract shared by the two places of the program in which workers hold a row under a
  secret token and touch it by updates guarded with that token: the claim columns of a task
  (theory Task_Claims) and the rows of the session turn queue (theory Turn_Queue). The locale
  states what one guarded operation may do; the lemmas are about whole runs of them, issued
  by holders that may have lost their lease in the meantime.
\<close>

locale lease =
  fixes rows :: "'d \<Rightarrow> 'r set"
    and key :: "'r \<Rightarrow> 'k"
    and token :: "'r \<Rightarrow> 't option"
    and run :: "'o \<Rightarrow> 'k \<Rightarrow> 't \<Rightarrow> 'd \<Rightarrow> 'd \<times> bool"
  assumes frame: "r \<in> rows d \<Longrightarrow> \<not> (key r = k \<and> token r = Some t) \<Longrightarrow> r \<in> rows (fst (run x k t d))"
    and origin: "r \<in> rows (fst (run x k t d)) \<Longrightarrow> r \<notin> rows d \<Longrightarrow>
           (\<exists>r0 \<in> rows d. key r0 = k \<and> token r0 = Some t) \<and> key r = k
           \<and> (token r = Some t \<or> token r = None)"
    and applied: "snd (run x k t d) \<Longrightarrow> \<exists>r \<in> rows d. key r = k \<and> token r = Some t"
begin

definition held :: "'t \<Rightarrow> 'd \<Rightarrow> bool" where
  "held t d \<longleftrightarrow> (\<exists>r \<in> rows d. token r = Some t)"

fun runs :: "('o \<times> 'k \<times> 't) list \<Rightarrow> 'd \<Rightarrow> 'd" where
  "runs [] d = d"
| "runs ((x, k, t) # cs) d = runs cs (fst (run x k t d))"

lemma stale_run:
  assumes "\<not> (\<exists>r \<in> rows d. key r = k \<and> token r = Some t)"
  shows "rows (fst (run x k t d)) = rows d" and "\<not> snd (run x k t d)"
proof -
  have "r \<in> rows (fst (run x k t d)) \<longleftrightarrow> r \<in> rows d" for r
    using frame [of r d k t x] origin [of r x k t d] assms by blast
  then show "rows (fst (run x k t d)) = rows d" by blast
  show "\<not> snd (run x k t d)" using applied [of x k t d] assms by blast
qed

text \<open>A token nobody holds is never brought back by guarded operations.\<close>

lemma run_not_held: "\<not> held t d \<Longrightarrow> \<not> held t (fst (run x k t' d))"
  unfolding held_def using origin [of _ x k t' d] by (metis option.distinct(1))

lemma runs_not_held: "\<not> held t d \<Longrightarrow> \<not> held t (runs cs d)"
  by (induction cs d rule: runs.induct) (simp_all add: run_not_held)

text \<open>Everything a holder of a lost token still sends changes no row.\<close>

lemma stale_runs:
  assumes "\<not> held t d" and "\<forall>c \<in> set cs. snd (snd c) = t"
  shows "rows (runs cs d) = rows d"
  using assms
proof (induction cs d rule: runs.induct)
  case (2 x k t' cs d)
  then have t': "t' = t" by simp
  have "\<not> (\<exists>r \<in> rows d. key r = k \<and> token r = Some t)"
    using 2(2) unfolding held_def by blast
  from stale_run(1) [OF this] run_not_held [OF 2(2)] 2 t' show ?case by simp
qed simp

text \<open>A held row is only moved by its holder.\<close>

lemma exclusive_runs:
  assumes "r \<in> rows d" and "token r = Some t" and "\<forall>c \<in> set cs. snd (snd c) \<noteq> t"
  shows "r \<in> rows (runs cs d)"
  using assms
proof (induction cs d rule: runs.induct)
  case (2 x k t' cs d)
  then have "r \<in> rows (fst (run x k t' d))" by (intro frame) auto
  with 2 show ?case by simp
qed simp

end

end
