(* ===== verification/Turn_Queue.thy ===== *)
theory Turn_Queue
  imports Py_Strings Lease
begin

text \<open>
  The per-session turn queue: ChatSessionTurnQueueRepository
  (afkbot/repositories/chat_session_turn_queue_repo.py) and the waiting side in
  SessionOrchestrator (afkbot/services/session_orchestration/service.py). A marker is queued,
  becomes running when it is the oldest of its session and nothing runs there, and is removed
  by its owner or, when its heartbeat stopped, by a stale sweep.
\<close>

section \<open>Rows and operations\<close>

datatype turn_status = Turn_Queued | Turn_Running

record turn_item =
  q_id :: nat
  q_profile :: string
  q_session :: string
  q_owner_token :: string
  q_client_msg_id :: "string option"
  q_source :: string
  q_status :: turn_status
  q_updated_at :: instant

record turn_queue =
  q_items :: "turn_item list"
  q_next :: nat
  q_clock :: instant


definition in_session :: "string \<Rightarrow> string \<Rightarrow> turn_item \<Rightarrow> bool" where
  "in_session profile_id session_id r = (q_profile r = profile_id \<and> q_session r = session_id)"

definition next_queued :: "string \<Rightarrow> string \<Rightarrow> turn_queue \<Rightarrow> nat option" where
  "next_queued profile_id session_id q =
     min_on id (map q_id (filter (\<lambda>r. in_session profile_id session_id r \<and> q_status r = Turn_Queued)
       (q_items q)))"

definition try_mark_running ::
    "nat \<Rightarrow> string \<Rightarrow> string \<Rightarrow> string \<Rightarrow> instant \<Rightarrow> turn_queue \<Rightarrow> turn_queue \<times> bool" where
  "try_mark_running item profile_id session_id owner_token touched_at q =
     (if list_ex (\<lambda>r. in_session profile_id session_id r \<and> q_status r = Turn_Running) (q_items q)
      then (q, False)
      else if next_queued profile_id session_id q \<noteq> Some item then (q, False)
      else
        (let p = (\<lambda>r. q_id r = item \<and> q_owner_token r = owner_token \<and> q_status r = Turn_Queued)
         in (q\<lparr>q_items := update_where p
                (\<lambda>r. r\<lparr>q_status := Turn_Running, q_updated_at := touched_at\<rparr>) (q_items q)\<rparr>,
             0 < rowcount p (q_items q))))"

definition owns_marker :: "nat \<Rightarrow> string \<Rightarrow> turn_item \<Rightarrow> bool" where
  "owns_marker item owner_token r = (q_id r = item \<and> q_owner_token r = owner_token)"

definition touch :: "nat \<Rightarrow> string \<Rightarrow> instant \<Rightarrow> turn_queue \<Rightarrow> turn_queue \<times> bool" where
  "touch item owner_token touched_at q =
     (q\<lparr>q_items := update_where (owns_marker item owner_token)
        (\<lambda>r. r\<lparr>q_updated_at := touched_at\<rparr>) (q_items q)\<rparr>,
      0 < rowcount (owns_marker item owner_token) (q_items q))"

definition release_marker :: "nat \<Rightarrow> string \<Rightarrow> turn_queue \<Rightarrow> turn_queue" where
  "release_marker item owner_token q =
     q\<lparr>q_items := delete_where (owns_marker item owner_token) (q_items q)\<rparr>"

definition release_stale :: "instant \<Rightarrow> string \<Rightarrow> string \<Rightarrow> turn_queue \<Rightarrow> turn_queue \<times> nat" where
  "release_stale older_than profile_id session_id q =
     (let p = (\<lambda>r. in_session profile_id session_id r \<and> q_updated_at r \<le> older_than) in
      (q\<lparr>q_items := delete_where p (q_items q)\<rparr>, rowcount p (q_items q)))"

record activity =
  act_profile :: string
  act_session :: string
  act_queued :: nat
  act_running :: nat
  act_latest :: "instant option"

text \<open>
  One group per key with live rows; the batches of 200 keys only split the query.
\<close>

definition session_group :: "instant \<Rightarrow> turn_queue \<Rightarrow> string \<times> string \<Rightarrow> activity list" where
  "session_group older_than q key =
     (let rows = filter (\<lambda>r. in_session (fst key) (snd key) r \<and> older_than < q_updated_at r) (q_items q)
      in if rows = [] then []
         else [\<lparr>act_profile = fst key, act_session = snd key,
                act_queued = rowcount (\<lambda>r. q_status r = Turn_Queued) rows,
                act_running = rowcount (\<lambda>r. q_status r = Turn_Running) rows,
                act_latest = Some (foldl max (q_updated_at (hd rows)) (map q_updated_at rows))\<rparr>])"

definition list_session_activity ::
    "(string \<times> string) list \<Rightarrow> instant \<Rightarrow> turn_queue \<Rightarrow> activity list" where
  "list_session_activity keys older_than q =
     concat (map (session_group older_than q)
       (uniq_first [] (map (\<lambda>(p, s). (strip p, strip s))
          (filter (\<lambda>(p, s). strip p \<noteq> [] \<and> strip s \<noteq> []) keys))))"

section \<open>Waiting for the slot\<close>

definition poll_queue_marker_once ::
    "nat \<Rightarrow> string \<Rightarrow> string \<Rightarrow> string \<Rightarrow> bool \<Rightarrow> instant \<Rightarrow> instant \<Rightarrow> turn_queue \<Rightarrow> turn_queue \<times> bool" where
  "poll_queue_marker_once item profile_id session_id owner_token sweep cutoff now q =
     (let q1 = (if sweep then fst (release_stale cutoff profile_id session_id q) else q)
      in try_mark_running item profile_id session_id owner_token now q1)"

text \<open>Durations in microseconds; the provider timeout is a float setting in the code.\<close>

definition session_turn_queue_stale_cutoff :: "int \<Rightarrow> int \<Rightarrow> instant \<Rightarrow> instant" where
  "session_turn_queue_stale_cutoff tool_timeout_max_sec llm_request_timeout_us now =
     now - max (300 * 1000000) (max (tool_timeout_max_sec * 3 * 1000000) (llm_request_timeout_us * 2))"

text \<open>
  The poll delay in milliseconds. \<open>0.05 * (2 ** attempt)\<close> converts the integer power to a
  float first, which fails from \<open>2 ** 1024\<close> on.
\<close>

definition session_queue_poll_delay :: "nat \<Rightarrow> nat res" where
  "session_queue_poll_delay attempt =
     (if attempt = 0 then Inr 50
      else if 1024 \<le> attempt then Inl Overflow_Error
      else Inr (min 500 (50 * 2 ^ attempt)))"

definition wait_timeout_ms :: nat where
  "wait_timeout_ms = 86400000"

lemma poll_delay_pos: "session_queue_poll_delay a = Inr d \<Longrightarrow> 0 < d"
  by (auto simp: session_queue_poll_delay_def split: if_splits)

text \<open>
  The polling loop, with what each poll comes back with and the time it takes (with what the sleep after
  it takes beyond its delay) as parameters, in milliseconds. A locked database counts as not admitted,
  any other exception of a poll ends the wait.
\<close>

datatype poll_answer = Admitted | Not_Admitted | Locked_Out | Poll_Raised app_error

function wait_until_marker_is_running :: "(nat \<Rightarrow> poll_answer) \<Rightarrow> (nat \<Rightarrow> nat) \<Rightarrow> nat \<Rightarrow> nat \<Rightarrow> nat res" where
  "wait_until_marker_is_running poll spent attempt elapsed =
     (if wait_timeout_ms \<le> elapsed then Inl Timeout_Error
      else (case poll attempt of
          Admitted \<Rightarrow> Inr attempt
        | Poll_Raised e \<Rightarrow> Inl e
        | _ \<Rightarrow> (case session_queue_poll_delay attempt of
              Inl e \<Rightarrow> Inl e
            | Inr d \<Rightarrow> wait_until_marker_is_running poll spent (Suc attempt) (elapsed + spent attempt + d))))"
  by pat_completeness auto
termination
  by (relation "measure (\<lambda>(poll, spent, attempt, elapsed). wait_timeout_ms - elapsed)")
    (auto dest: poll_delay_pos)

declare wait_until_marker_is_running.simps [simp del]

section \<open>The queue as a state machine\<close>














section \<open>Markers as leases\<close>

text \<open>What an owner does to its marker after it was admitted or while it waits.\<close>

datatype marker_op = Heartbeat instant | Remove

fun run_marker_op :: "marker_op \<Rightarrow> nat \<Rightarrow> string \<Rightarrow> turn_queue \<Rightarrow> turn_queue \<times> bool" where
  "run_marker_op (Heartbeat at) i tok q = touch i tok at q"
| "run_marker_op Remove i tok q =
     (release_marker i tok q, 0 < rowcount (owns_marker i tok) (q_items q))"

definition marker_token :: "turn_item \<Rightarrow> string option" where
  "marker_token r = Some (q_owner_token r)"

interpretation marker: lease "\<lambda>q::turn_queue. set (q_items q)" q_id marker_token run_marker_op
proof unfold_locales
  fix r k t x and q :: turn_queue
  assume "r \<in> set (q_items q)" and "\<not> (q_id r = k \<and> marker_token r = Some t)"
  then show "r \<in> set (q_items (fst (run_marker_op x k t q)))"
    by (cases x) (auto simp: touch_def release_marker_def owns_marker_def marker_token_def
        set_update_where set_delete_where)
next
  fix r x k t and q :: turn_queue
  assume "r \<in> set (q_items (fst (run_marker_op x k t q)))" and "r \<notin> set (q_items q)"
  then show "(\<exists>r0 \<in> set (q_items q). q_id r0 = k \<and> marker_token r0 = Some t) \<and> q_id r = k
      \<and> (marker_token r = Some t \<or> marker_token r = None)"
    by (cases x) (auto simp: touch_def release_marker_def owns_marker_def marker_token_def
        set_update_where set_delete_where split: if_splits)
next
  fix x k t and q :: turn_queue
  assume "snd (run_marker_op x k t q)"
  then show "\<exists>r \<in> set (q_items q). q_id r = k \<and> marker_token r = Some t"
    by (cases x) (auto simp: touch_def owns_marker_def marker_token_def rowcount_pos_iff)
qed

section \<open>The wait\<close>

text \<open>A poll after which the waiting goes on.\<close>

definition kept_waiting :: "(nat \<Rightarrow> poll_answer) \<Rightarrow> nat \<Rightarrow> bool" where
  "kept_waiting poll k \<longleftrightarrow> poll k = Not_Admitted \<or> poll k = Locked_Out"

lemma wait_step_not_acquired:
  assumes "kept_waiting poll a" and "e < wait_timeout_ms" and "session_queue_poll_delay a = Inr d"
  shows "wait_until_marker_is_running poll spent a e = wait_until_marker_is_running poll spent (Suc a) (e + spent a + d)"
  using assms by (subst wait_until_marker_is_running.simps) (auto simp: kept_waiting_def)

section \<open>Properties\<close>






text \<open>The time slept before a poll.\<close>

primrec slept_before :: "nat \<Rightarrow> nat" where
  "slept_before 0 = 0"
| "slept_before (Suc a) = slept_before a
     + (case session_queue_poll_delay a of Inr d \<Rightarrow> d | Inl _ \<Rightarrow> 0)"

text \<open>The time gone when a poll begins.\<close>

definition waited :: "(nat \<Rightarrow> nat) \<Rightarrow> nat \<Rightarrow> nat" where
  "waited spent k = sum spent {..<k} + slept_before k"

lemma poll_delay_late: "session_queue_poll_delay (4 + n) = (if 1020 \<le> n then Inl Overflow_Error else Inr 500)"
proof -
  have "(500 :: nat) \<le> 800 * 2 ^ n" by (rule order_trans [of _ "800 * 1"]) simp_all
  then have "(500 :: nat) \<le> 50 * 2 ^ (4 + n)" by (simp add: power_add)
  then show ?thesis by (simp add: session_queue_poll_delay_def)
qed

lemma slept_before_late: "n \<le> 1020 \<Longrightarrow> slept_before (4 + n) = 750 + 500 * n"
proof (induction n)
  case 0
  then show ?case by (simp add: session_queue_poll_delay_def eval_nat_numeral)
next
  case (Suc n)
  have "slept_before (4 + Suc n) = slept_before (Suc (4 + n))" by (simp only: add_Suc_right)
  also have "\<dots> = slept_before (4 + n) + 500" using Suc.prems poll_delay_late [of n] by (simp only: slept_before.simps) simp
  finally show ?case using Suc by simp
qed

lemma slept_before_1024: "slept_before 1024 = 510750"
  using slept_before_late [of 1020] by simp

lemma slept_before_mono: "j \<le> k \<Longrightarrow> slept_before j \<le> slept_before k"
  by (rule lift_Suc_mono_le [of slept_before]) simp_all

lemma slept_before_bound: "k \<le> 1024 \<Longrightarrow> slept_before k \<le> 510750"
  using slept_before_mono [of k 1024] by (simp add: slept_before_1024)

lemma poll_delay_Inr: "a < 1024 \<Longrightarrow> \<exists>d. session_queue_poll_delay a = Inr d"
  by (simp add: session_queue_poll_delay_def)

lemma wait_reaches:
  assumes "\<forall>j < k. kept_waiting poll j \<and> waited spent j < wait_timeout_ms" and "k \<le> 1024"
  shows "wait_until_marker_is_running poll spent 0 0 = wait_until_marker_is_running poll spent k (waited spent k)"
  using assms
proof (induction k)
  case 0
  then show ?case by (simp add: waited_def)
next
  case (Suc k)
  then obtain d where d: "session_queue_poll_delay k = Inr d" using poll_delay_Inr [of k] by auto
  have "waited spent (Suc k) = waited spent k + spent k + d" by (simp add: waited_def d)
  with wait_step_not_acquired [OF _ _ d, of poll "waited spent k" spent] Suc show ?case by simp
qed

text \<open>C9 A wait that is not cancelled always ends, with its first poll that is not a refusal or a locked database: admitted when
  that poll admits, with its exception when it raises. The poll number 1025 is the last: then the
  computation of the next delay raises an OverflowError. The 24-hour timeout only ends it before when
  the polls alone, without the 510.75 seconds slept between them at most, took all that time.\<close>

theorem wait_ends:
  "\<exists>k \<le> 1024. (\<forall>j < k. kept_waiting poll j \<and> waited spent j < wait_timeout_ms)
     \<and> (kept_waiting poll k \<and> waited spent k < wait_timeout_ms \<longrightarrow> k = 1024)
     \<and> wait_until_marker_is_running poll spent 0 0 =
         (if wait_timeout_ms \<le> waited spent k then Inl Timeout_Error
          else (case poll k of Admitted \<Rightarrow> Inr k | Poll_Raised e \<Rightarrow> Inl e | _ \<Rightarrow> Inl Overflow_Error))
     \<and> waited spent k \<le> sum spent {..<k} + 510750 \<and> slept_before 1024 = 510750"
proof -
  define goes_on where "goes_on k \<longleftrightarrow> kept_waiting poll k \<and> waited spent k < wait_timeout_ms" for k
  define k where "k = (LEAST k. k = 1024 \<or> \<not> goes_on k)"
  have least: "k = 1024 \<or> \<not> goes_on k" unfolding k_def by (rule LeastI [of _ 1024]) simp
  have le: "k \<le> 1024" unfolding k_def by (rule Least_le) simp
  have before: "goes_on j" if "j < k" for j
    using not_less_Least [of j "\<lambda>k. k = 1024 \<or> \<not> goes_on k"] that by (simp add: k_def)
  have run: "wait_until_marker_is_running poll spent 0 0 = wait_until_marker_is_running poll spent k (waited spent k)"
    by (rule wait_reaches [OF _ le]) (use before in \<open>simp add: goes_on_def\<close>)
  have "wait_until_marker_is_running poll spent k (waited spent k) =
      (if wait_timeout_ms \<le> waited spent k then Inl Timeout_Error
       else (case poll k of Admitted \<Rightarrow> Inr k | Poll_Raised e \<Rightarrow> Inl e | _ \<Rightarrow> Inl Overflow_Error))"
  proof (cases "goes_on k")
    case True
    with least have "k = 1024" by simp
    with True show ?thesis
      by (subst wait_until_marker_is_running.simps)
        (auto simp: goes_on_def kept_waiting_def session_queue_poll_delay_def)
  next
    case False
    then show ?thesis
      by (subst wait_until_marker_is_running.simps) (auto simp: goes_on_def kept_waiting_def split: poll_answer.split)
  qed
  with run have "wait_until_marker_is_running poll spent 0 0 =
      (if wait_timeout_ms \<le> waited spent k then Inl Timeout_Error
       else (case poll k of Admitted \<Rightarrow> Inr k | Poll_Raised e \<Rightarrow> Inl e | _ \<Rightarrow> Inl Overflow_Error))" by simp
  moreover have "waited spent k \<le> sum spent {..<k} + 510750" using slept_before_bound [OF le] by (simp add: waited_def)
  ultimately show ?thesis using le before least slept_before_1024 unfolding goes_on_def by blast
qed

text \<open>A database that stays locked: every poll takes ten milliseconds.\<close>

theorem wait_ends_witness:
  "wait_until_marker_is_running (\<lambda>_. Locked_Out) (\<lambda>_. 10) 0 0 = Inl Overflow_Error
   \<and> wait_until_marker_is_running (\<lambda>j. if j = 2 then Admitted else Locked_Out) (\<lambda>_. 10) 0 0 = Inr 2"
proof
  obtain k where k: "k \<le> 1024" "kept_waiting (\<lambda>_. Locked_Out) k \<and> waited (\<lambda>_. 10) k < wait_timeout_ms \<longrightarrow> k = 1024"
      "wait_until_marker_is_running (\<lambda>_. Locked_Out) (\<lambda>_. 10) 0 0 =
         (if wait_timeout_ms \<le> waited (\<lambda>_. 10) k then Inl Timeout_Error
          else (case Locked_Out of Admitted \<Rightarrow> Inr k | Poll_Raised e \<Rightarrow> Inl e | _ \<Rightarrow> Inl Overflow_Error))"
      "waited (\<lambda>_. 10) k \<le> sum (\<lambda>_. 10) {..<k} + 510750"
    using wait_ends [of "\<lambda>_. Locked_Out" "\<lambda>_. 10"] by blast
  then show "wait_until_marker_is_running (\<lambda>_. Locked_Out) (\<lambda>_. 10) 0 0 = Inl Overflow_Error"
    by (simp add: wait_timeout_ms_def)
next
  let ?poll = "\<lambda>j. if j = (2 :: nat) then Admitted else Locked_Out"
  obtain k where k: "k \<le> 1024" "\<forall>j < k. kept_waiting ?poll j" "kept_waiting ?poll k \<and> waited (\<lambda>_. 10) k < wait_timeout_ms \<longrightarrow> k = 1024"
      "wait_until_marker_is_running ?poll (\<lambda>_. 10) 0 0 =
         (if wait_timeout_ms \<le> waited (\<lambda>_. 10) k then Inl Timeout_Error
          else (case ?poll k of Admitted \<Rightarrow> Inr k | Poll_Raised e \<Rightarrow> Inl e | _ \<Rightarrow> Inl Overflow_Error))"
      "waited (\<lambda>_. 10) k \<le> sum (\<lambda>_. 10) {..<k} + 510750"
    using wait_ends [of ?poll "\<lambda>_. 10"] by blast
  have "k \<le> 2" using k(2) by (auto simp: kept_waiting_def not_le [symmetric])
  moreover have small: "waited (\<lambda>_. 10) k < wait_timeout_ms" using k(1,5) by (simp add: wait_timeout_ms_def)
  ultimately have "k = 2" using k(3) by (auto simp: kept_waiting_def split: if_splits)
  with k(4) small show "wait_until_marker_is_running ?poll (\<lambda>_. 10) 0 0 = Inr 2" by simp
qed

end
