(* ===== verification/Task_Guards.thy ===== *)
theory Task_Guards
  imports Task_Deps Turn_Queue
begin

text \<open>
  Who may do what: the principal, permission and session guards of
  afkbot/services/task_flow/service.py. The environment record holds what a request reads
  besides the Task Flow tables: employee files, automations, chat sessions, the turn queue
  and settings.
\<close>

section \<open>Environment and actors\<close>

text \<open>
  \<open>env_public_required\<close> is False for a service built without settings.
  \<open>env_local_human\<close> is what \<open>resolve_local_human_ref\<close> answers (it asks the operating system);
  \<open>env_reason_text\<close> is the human readable reason that goes with an error code.
\<close>

record env =
  env_files :: employee_files
  env_automations :: "(string \<times> nat \<times> string) list"
  env_sessions :: "(string \<times> string) list"
  env_queue :: turn_queue
  env_public_required :: bool
  env_local_human :: string
  env_tool_timeout_sec :: int
  env_llm_timeout_us :: int
  env_reason_text :: "string \<Rightarrow> string"

text \<open>The identity arguments every mutating operation takes; Unset is the default sentinel.\<close>

record actor =
  ac_type :: "string option"
  ac_ref :: "string option"
  ac_session :: "string option field"

definition ac_session_text :: "string option field \<Rightarrow> string option" where
  "ac_session_text s = (case s of Unset \<Rightarrow> None | Given v \<Rightarrow> normalize_optional_text v)"

section \<open>Existence of principals\<close>

definition ensure_profile_exists :: "string \<Rightarrow> db \<Rightarrow> unit res" where
  "ensure_profile_exists profile_id d =
     guardE (profile_id \<in> set (db_profiles d)) (Service_Error ''profile_not_found'')"

definition require_task :: "string \<Rightarrow> string \<Rightarrow> db \<Rightarrow> task res" where
  "require_task profile_id task_id d =
     bindE (ensure_profile_exists profile_id d) (\<lambda>_.
       case get_task profile_id task_id d of
         None \<Rightarrow> service_error ''task_not_found''
       | Some row \<Rightarrow> Inr row)"

definition require_flow :: "string \<Rightarrow> string \<Rightarrow> db \<Rightarrow> flow res" where
  "require_flow profile_id flow_id d =
     bindE (ensure_profile_exists profile_id d) (\<lambda>_.
       case get_flow profile_id flow_id d of
         None \<Rightarrow> service_error ''task_flow_not_found''
       | Some row \<Rightarrow> Inr row)"

definition ensure_task_principal_ref_exists ::
    "env \<Rightarrow> string option \<Rightarrow> string option \<Rightarrow> string option \<Rightarrow> string \<Rightarrow> unit res" where
  "ensure_task_principal_ref_exists env profile_id principal_type principal_ref invalid_code =
     (let ty = normalize_task_owner_type principal_type;
          ref = normalize_optional_text principal_ref in
      if ty = Some employee_type \<and> ref \<noteq> None then
        (case parse_employee_owner_ref ref of
           None \<Rightarrow> service_error invalid_code
         | Some employee_id \<Rightarrow>
             (case profile_id of
                None \<Rightarrow> Inr ()
              | Some p \<Rightarrow>
                  bindE (get_employee (env_files env) p employee_id) (\<lambda>e.
                    if emp_status e \<noteq> Active then service_error invalid_code else Inr ())))
      else if ty = Some ''ai_profile'' \<or> ty = Some ''ai_subagent'' then service_error invalid_code
      else Inr ())"

definition ensure_actor_refs_exist ::
    "env \<Rightarrow> string option \<Rightarrow> string option \<Rightarrow> string option \<Rightarrow> string option \<Rightarrow> string option \<Rightarrow> unit res" where
  "ensure_actor_refs_exist env profile_id owner_type owner_ref reviewer_type reviewer_ref =
     bindE (ensure_task_principal_ref_exists env profile_id owner_type owner_ref ''invalid_owner_ref'')
       (\<lambda>_. ensure_task_principal_ref_exists env profile_id reviewer_type reviewer_ref
              ''invalid_reviewer_ref'')"

definition automation_live :: "env \<Rightarrow> string \<Rightarrow> nat \<Rightarrow> bool" where
  "automation_live env p n =
     (case find (\<lambda>(q, m, st). q = p \<and> m = n) (env_automations env) of
        None \<Rightarrow> False | Some (q, m, st) \<Rightarrow> st \<noteq> ''deleted'')"

definition ensure_principal_exists ::
    "env \<Rightarrow> string option \<Rightarrow> string option \<Rightarrow> string option \<Rightarrow> db \<Rightarrow> unit res" where
  "ensure_principal_exists env profile_id actor_type actor_ref d =
     bindE (ensure_task_principal_ref_exists env profile_id actor_type actor_ref ''invalid_actor_ref'')
       (\<lambda>_. if actor_type = Some ''automation'' \<and> actor_ref \<noteq> None then
              bindE (parse_automation_principal_ref actor_ref) (\<lambda>parsed.
                case parsed of
                  None \<Rightarrow> service_error ''invalid_actor_ref''
                | Some (p, n) \<Rightarrow>
                    bindE (ensure_profile_exists p d) (\<lambda>_.
                      if automation_live env p n then Inr ()
                      else service_error ''automation_not_found''))
            else Inr ())"

definition resolve_default_employee_owner_ref :: "env \<Rightarrow> string \<Rightarrow> string res" where
  "resolve_default_employee_owner_ref env profile_id =
     (case profile_org_chart (env_files env) profile_id of
        Inl (Service_Error _) \<Rightarrow> service_error ''task_employee_owner_required''
      | Inl e \<Rightarrow> Inl e
      | Inr chart \<Rightarrow>
          (case filter (\<lambda>i. case find_employee (ch_employees chart) i of
                   None \<Rightarrow> False | Some e \<Rightarrow> emp_status e = Active) (ch_roots chart) of
             [i] \<Rightarrow> Inr i
           | _ \<Rightarrow> service_error ''task_employee_owner_required''))"

section \<open>Public principals\<close>

definition ensure_public_principal_identity :: "env \<Rightarrow> actor \<Rightarrow> string \<Rightarrow> unit res" where
  "ensure_public_principal_identity env a code =
     (if \<not> env_public_required env then Inr ()
      else
        (case (normalize_optional_text (ac_type a), normalize_optional_text (ac_ref a)) of
           (Some ty, Some ref) \<Rightarrow>
             bindE (validate_actor_pair (Some ty) (Some ref) False) (\<lambda>_.
             bindE (guardE (\<not> (ty = ''human'' \<and> ref \<noteq> env_local_human env)) (Service_Error code)) (\<lambda>_.
             bindE (guardE (\<not> (ty = employee_type \<and> ac_session_text (ac_session a) = None))
                      (Service_Error code)) (\<lambda>_.
             guardE (\<not> (is_ai_executor_owner_type (Some ty) \<and> ac_session_text (ac_session a) = None))
               (Service_Error code))))
         | _ \<Rightarrow> service_error code))"

definition session_live :: "env \<Rightarrow> string \<Rightarrow> string \<Rightarrow> instant \<Rightarrow> bool" where
  "session_live env profile_id session_id now =
     list_ex (\<lambda>a. 0 < act_queued a + act_running a)
       (list_session_activity [(profile_id, session_id)]
          (session_turn_queue_stale_cutoff (env_tool_timeout_sec env) (env_llm_timeout_us env) now)
          (env_queue env))"

definition ensure_public_ai_principal_session ::
    "env \<Rightarrow> instant \<Rightarrow> string \<Rightarrow> actor \<Rightarrow> string \<Rightarrow> db \<Rightarrow> unit res" where
  "ensure_public_ai_principal_session env now task_profile_id a code d =
     (if \<not> env_public_required env then Inr ()
      else if normalize_task_owner_type (ac_type a) \<noteq> Some employee_type then Inr ()
      else
        (case (normalize_optional_text (ac_ref a), ac_session_text (ac_session a)) of
           (Some ref, Some sess) \<Rightarrow>
             bindE (guardE (case map_of (env_sessions env) sess of
                        None \<Rightarrow> False | Some p \<Rightarrow> p = task_profile_id) (Service_Error code)) (\<lambda>_.
             bindE (guardE (\<not> (get_task_by_session_binding task_profile_id sess employee_type ref d = None
                            \<and> get_active_task_by_session task_profile_id sess d \<noteq> None))
                      (Service_Error code)) (\<lambda>_.
             guardE (session_live env task_profile_id sess now) (Service_Error code)))
         | _ \<Rightarrow> Inr ()))"

section \<open>Manager scope\<close>

definition actor_chart :: "env \<Rightarrow> string \<Rightarrow> org_chart res" where
  "actor_chart env profile_id = profile_org_chart (env_files env) profile_id"

definition managed_by :: "employee \<Rightarrow> string list" where
  "managed_by e = emp_can_delegate_to e @ emp_reports e @ emp_derived_reports e"

definition task_actor_has_manager_scope ::
    "env \<Rightarrow> task \<Rightarrow> string \<Rightarrow> string option \<Rightarrow> string option \<Rightarrow> bool res" where
  "task_actor_has_manager_scope env row task_profile_id actor_type actor_ref =
     (let ty = normalize_optional_text actor_type; rf = normalize_optional_text actor_ref in
      case rf of
        None \<Rightarrow> Inr False
      | Some ref \<Rightarrow>
          (if ty = Some ''human'' then Inr True
           else if ty \<noteq> Some employee_type then Inr False
           else
             bindE (actor_chart env task_profile_id) (\<lambda>chart.
               case find_employee (ch_employees chart) ref of
                 None \<Rightarrow> Inr False
               | Some e \<Rightarrow>
                   (if emp_status e \<noteq> Active then Inr False
                    else
                      let managed = set (managed_by e);
                          refs = set (filter (\<lambda>r. r \<noteq> [] \<and> r \<noteq> ref)
                            [t_owner_ref row, str_or_empty (t_reviewer_ref row), t_created_by_ref row])
                      in Inr (t_owner_type row = employee_type \<and> t_owner_ref row \<in> managed
                              \<or> t_reviewer_type row = Some employee_type
                                \<and> (case t_reviewer_ref row of None \<Rightarrow> False | Some r \<Rightarrow> r \<in> managed)
                              \<or> t_created_by_type row = employee_type \<and> refs \<inter> managed \<noteq> {})))))"

definition ensure_ai_actor_admitted_to_backlog ::
    "string \<Rightarrow> string option \<Rightarrow> string option \<Rightarrow> string \<Rightarrow> unit res" where
  "ensure_ai_actor_admitted_to_backlog task_profile_id actor_type actor_ref code =
     (case normalize_optional_text actor_ref of
        None \<Rightarrow> Inr ()
      | Some ref \<Rightarrow>
          (if normalize_optional_text actor_type \<noteq> Some ''automation'' then Inr ()
           else
             bindE (parse_automation_actor_ref (Some ref)) (\<lambda>parsed.
               case parsed of
                 None \<Rightarrow> service_error code
               | Some (p, n) \<Rightarrow> if p \<noteq> task_profile_id then service_error code else Inr ())))"

definition ensure_task_actor_can_manage ::
    "env \<Rightarrow> task \<Rightarrow> string \<Rightarrow> string option \<Rightarrow> string option \<Rightarrow> unit res" where
  "ensure_task_actor_can_manage env row task_profile_id actor_type actor_ref =
     (let ty = normalize_optional_text actor_type; rf = normalize_optional_text actor_ref in
      if ty = None \<and> rf = None then Inr ()
      else if ty = Some ''human'' \<and> rf \<noteq> None then Inr ()
      else
        bindE (task_actor_has_manager_scope env row task_profile_id ty rf) (\<lambda>scope.
          if scope then Inr ()
          else if ty = Some ''automation'' \<and> rf \<noteq> None
                  \<and> t_created_by_type row = ''automation'' \<and> Some (t_created_by_ref row) = rf
          then Inr ()
          else if ty = Some employee_type \<and> rf \<noteq> None
                  \<and> t_created_by_type row = employee_type \<and> Some (t_created_by_ref row) = rf
          then Inr ()
          else if ty = Some employee_type \<and> rf \<noteq> None
                  \<and> t_owner_type row = employee_type \<and> Some (t_owner_ref row) = rf
          then Inr ()
          else service_error ''task_actor_forbidden''))"

definition ensure_flow_actor_can_manage ::
    "env \<Rightarrow> string \<Rightarrow> string option \<Rightarrow> string option \<Rightarrow> unit res" where
  "ensure_flow_actor_can_manage env profile_id actor_type actor_ref =
     (let ty = normalize_optional_text actor_type in
      case normalize_optional_text actor_ref of
        None \<Rightarrow> service_error ''task_actor_forbidden''
      | Some ref \<Rightarrow>
          (if ty = Some ''human'' then Inr ()
           else if ty = Some ''automation'' then
             ensure_ai_actor_admitted_to_backlog profile_id ty (Some ref) ''task_actor_forbidden''
           else if ty \<noteq> Some employee_type then service_error ''task_actor_forbidden''
           else
             bindE (actor_chart env profile_id) (\<lambda>chart.
               case find_employee (ch_employees chart) ref of
                 None \<Rightarrow> service_error ''task_actor_forbidden''
               | Some e \<Rightarrow>
                   (if emp_status e \<noteq> Active then service_error ''task_actor_forbidden''
                    else if managed_by e \<noteq> [] then Inr ()
                    else service_error ''task_actor_forbidden''))))"

definition ensure_ai_owner_assignment_allowed ::
    "env \<Rightarrow> string \<Rightarrow> string option \<Rightarrow> string option \<Rightarrow> string option \<Rightarrow> string option \<Rightarrow> unit res" where
  "ensure_ai_owner_assignment_allowed env task_profile_id actor_type actor_ref owner_type owner_ref =
     (let ty = normalize_optional_text actor_type in
      case (normalize_optional_text owner_ref, normalize_optional_text actor_ref) of
        (Some oref, Some ref) \<Rightarrow>
          (if normalize_task_owner_type owner_type \<noteq> Some employee_type then Inr ()
           else if ty = Some ''human'' then Inr ()
           else if ty = Some ''automation'' then
             ensure_ai_actor_admitted_to_backlog task_profile_id ty (Some ref) ''task_owner_forbidden''
           else if ty \<noteq> Some employee_type then Inr ()
           else if ref = oref then Inr ()
           else
             bindE (actor_chart env task_profile_id) (\<lambda>chart.
               case find_employee (ch_employees chart) ref of
                 None \<Rightarrow> service_error ''task_owner_forbidden''
               | Some e \<Rightarrow>
                   (if emp_status e \<noteq> Active then service_error ''task_owner_forbidden''
                    else if oref \<in> set (managed_by e) then Inr ()
                    else service_error ''task_owner_forbidden'')))
      | _ \<Rightarrow> Inr ())"

section \<open>Session bindings\<close>

definition ensure_ai_actor_session_binding_allowed ::
    "string \<Rightarrow> actor \<Rightarrow> string option field \<Rightarrow> string option field \<Rightarrow> unit res" where
  "ensure_ai_actor_session_binding_allowed task_profile_id a session_id session_profile_id =
     (if normalize_optional_text (ac_type a) \<noteq> Some employee_type
         \<or> normalize_optional_text (ac_ref a) = None then Inr ()
      else
        (case (ac_session_text (ac_session a), ac_session_text session_id) of
           (Some actor_session, Some s) \<Rightarrow>
             bindE (guardE (s = actor_session) (Service_Error ''task_session_binding_forbidden'')) (\<lambda>_.
               (case session_profile_id of
                  Given (Some sp) \<Rightarrow>
                    guardE (normalize_optional_text (Some sp) = Some task_profile_id)
                      (Service_Error ''task_session_binding_forbidden'')
                | _ \<Rightarrow> Inr ()))
         | _ \<Rightarrow> Inr ()))"

definition ensure_public_session_binding_allowed ::
    "env \<Rightarrow> string \<Rightarrow> actor \<Rightarrow> string option field \<Rightarrow> string option field \<Rightarrow> unit res" where
  "ensure_public_session_binding_allowed env task_profile_id a session_id session_profile_id =
     (if \<not> env_public_required env then Inr ()
      else if session_id = Unset \<and> session_profile_id = Unset then Inr ()
      else if session_id \<noteq> Unset \<and> ac_session_text session_id = None then Inr ()
      else if normalize_optional_text (ac_type a) \<noteq> Some employee_type
              \<or> normalize_optional_text (ac_ref a) = None
      then service_error ''task_session_binding_forbidden''
      else ensure_ai_actor_session_binding_allowed task_profile_id a session_id session_profile_id)"

section \<open>Data of the concrete instances with employees\<close>

text \<open>Ann manages Bob, Bob manages Carl; Dan stands alone.\<close>

definition example_env :: env where
  "example_env = \<lparr>env_files = (\<lambda>_. [example_file ''ann'' None, example_file ''bob'' (Some ''ann''),
       example_file ''carl'' (Some ''bob''), example_file ''dan'' None]),
     env_automations = [], env_sessions = [],
     env_queue = \<lparr>q_items = [], q_next = 0, q_clock = 0\<rparr>, env_public_required = False,
     env_local_human = ''me'', env_tool_timeout_sec = 60, env_llm_timeout_us = 0,
     env_reason_text = id\<rparr>"

definition human_actor :: actor where
  "human_actor = \<lparr>ac_type = Some ''human'', ac_ref = Some ''me'', ac_session = Unset\<rparr>"

definition employee_actor :: "string \<Rightarrow> actor" where
  "employee_actor i = \<lparr>ac_type = Some employee_type, ac_ref = Some i, ac_session = Unset\<rparr>"

section \<open>Properties\<close>

text \<open>What an employee may manage: the tasks it created or owns, and, while it is active, the
  tasks whose owner, reviewer or (for employee-created tasks) any participant is among those
  it may delegate to, its reports or its derived reports. Every other task is refused.\<close>

theorem employee_may_manage_iff:
  assumes "trimmed ref" and "ref \<noteq> []" and "actor_chart env p = Inr chart"
  shows "ensure_task_actor_can_manage env row p (Some employee_type) (Some ref) = Inr () \<longleftrightarrow>
     t_created_by_type row = employee_type \<and> t_created_by_ref row = ref
     \<or> t_owner_type row = employee_type \<and> t_owner_ref row = ref
     \<or> (\<exists>e. find_employee (ch_employees chart) ref = Some e \<and> emp_status e = Active
          \<and> (t_owner_type row = employee_type \<and> t_owner_ref row \<in> set (managed_by e)
             \<or> t_reviewer_type row = Some employee_type
               \<and> (\<exists>r \<in> set (managed_by e). t_reviewer_ref row = Some r)
             \<or> t_created_by_type row = employee_type
               \<and> (\<exists>r \<in> set (managed_by e) - {[], ref}.
                    r = t_owner_ref row \<or> Some r = t_reviewer_ref row \<or> r = t_created_by_ref row)))"
proof -
  have n: "normalize_optional_text (Some ref) = Some ref" by (simp add: assms(1,2))
  have ty: "normalize_optional_text (Some employee_type) = Some employee_type" by code_simp
  have ne: "employee_type \<noteq> ''human''" "employee_type \<noteq> ''automation''" by (simp_all add: employee_type_def)
  let ?scope = "\<lambda>e. t_owner_type row = employee_type \<and> t_owner_ref row \<in> set (managed_by e)
      \<or> t_reviewer_type row = Some employee_type
          \<and> (case t_reviewer_ref row of None \<Rightarrow> False | Some r \<Rightarrow> r \<in> set (managed_by e))
      \<or> t_created_by_type row = employee_type
          \<and> set (filter (\<lambda>r. r \<noteq> [] \<and> r \<noteq> ref)
               [t_owner_ref row, str_or_empty (t_reviewer_ref row), t_created_by_ref row]) \<inter> set (managed_by e) \<noteq> {}"
  have sc: "task_actor_has_manager_scope env row p (Some employee_type) (Some ref) =
      Inr (case find_employee (ch_employees chart) ref of None \<Rightarrow> False
           | Some e \<Rightarrow> emp_status e = Active \<and> ?scope e)"
    by (simp add: task_actor_has_manager_scope_def n ty ne assms(3) Let_def split: option.split)
  have rev: "(case t_reviewer_ref row of None \<Rightarrow> False | Some r \<Rightarrow> r \<in> M) \<longleftrightarrow>
      (\<exists>r \<in> M. t_reviewer_ref row = Some r)" for M
    by (auto split: option.split)
  have parts: "set (filter (\<lambda>r. r \<noteq> [] \<and> r \<noteq> ref)
        [t_owner_ref row, str_or_empty (t_reviewer_ref row), t_created_by_ref row]) \<inter> M \<noteq> {} \<longleftrightarrow>
      (\<exists>r \<in> M - {[], ref}. r = t_owner_ref row \<or> Some r = t_reviewer_ref row \<or> r = t_created_by_ref row)" for M
    by (cases "t_reviewer_ref row") auto
  have eq: "ensure_task_actor_can_manage env row p (Some employee_type) (Some ref) = Inr () \<longleftrightarrow>
      (case find_employee (ch_employees chart) ref of None \<Rightarrow> False
           | Some e \<Rightarrow> emp_status e = Active \<and> ?scope e)
      \<or> t_created_by_type row = employee_type \<and> t_created_by_ref row = ref
      \<or> t_owner_type row = employee_type \<and> t_owner_ref row = ref"
    unfolding ensure_task_actor_can_manage_def Let_def n ty sc by (simp add: ne)
  show ?thesis
    unfolding eq rev parts by (cases "find_employee (ch_employees chart) ref") (simp_all, blast)
qed

theorem employee_may_manage_iff_witness:
  "ensure_task_actor_can_manage example_env (example_task ''a'') ''default'' (Some employee_type) (Some ''dan'')
     \<noteq> Inr ()"
proof -
  have tr: "trimmed ''dan''" by code_simp
  have ok: "(case actor_chart example_env ''default'' of Inl _ \<Rightarrow> False
      | Inr chart \<Rightarrow> map_option managed_by (find_employee (ch_employees chart) ''dan'') = Some [])"
    by code_simp
  then obtain chart where ch: "actor_chart example_env ''default'' = Inr chart"
    and m: "map_option managed_by (find_employee (ch_employees chart) ''dan'') = Some []"
    by (cases "actor_chart example_env ''default''") auto
  show ?thesis
    unfolding employee_may_manage_iff [OF tr _ ch, simplified]
    using m by (auto simp: example_task_def task_defaults_def)
qed

text \<open>An active employee may manage every task owned by an employee below it in the
  hierarchy, however many levels down.\<close>

theorem managers_manage_whole_subtree:
  assumes "list_employees (env_files env) p = Inr emps"
    and "e \<in> set (ch_employees (build_org_chart emps))" and "emp_status e = Active"
    and "trimmed (emp_id e)" and "emp_id e \<noteq> []"
    and "t_owner_type row = employee_type"
    and "(t_owner_ref row, emp_id e) \<in> (manager_rel (ch_employees (build_org_chart emps)))\<^sup>+"
  shows "ensure_task_actor_can_manage env row p (Some employee_type) (Some (emp_id e)) = Inr ()"
proof -
  have ch: "actor_chart env p = Inr (build_org_chart emps)"
    by (simp add: actor_chart_def profile_org_chart_def assms(1))
  have "t_owner_ref row \<in> set (managed_by e)"
    using set_derived_reports [OF assms(2)] assms(7) by (simp add: managed_by_def)
  then have "task_actor_has_manager_scope env row p (Some employee_type) (Some (emp_id e)) = Inr True"
    using assms(3-6) find_employee_chart [OF assms(2)] ch
      normalize_optional_text_trimmed [of employee_type]
    by (simp add: task_actor_has_manager_scope_def Let_def employee_type_def trimmed_def is_space_def code_pt_def)
  then show ?thesis
    using normalize_optional_text_trimmed [of employee_type] assms(4,5)
    by (simp add: ensure_task_actor_can_manage_def Let_def employee_type_def trimmed_def is_space_def code_pt_def)
qed

theorem managers_manage_whole_subtree_witness:
  "ensure_task_actor_can_manage example_env ((example_task ''a'')\<lparr>t_owner_ref := ''carl''\<rparr>) ''default''
     (Some employee_type) (Some ''ann'') = Inr ()"
proof -
  let ?emps = "[example_employee ''ann'' None, example_employee ''bob'' (Some ''ann''),
    example_employee ''carl'' (Some ''bob''), example_employee ''dan'' None]"
  let ?e = "(example_employee ''ann'' None)\<lparr>emp_derived_reports := [''bob'', ''carl'']\<rparr>"
  have l: "list_employees (env_files example_env) ''default'' = Inr ?emps" by code_simp
  have mem: "?e \<in> set (ch_employees (build_org_chart ?emps))" by code_simp
  have tr: "trimmed ''ann''" by code_simp
  have path: "(''carl'', ''ann'') \<in> (manager_rel (ch_employees (build_org_chart ?emps)))\<^sup>+"
    using set_derived_reports [OF mem] by (auto simp: example_employee_def)
  show ?thesis
    using managers_manage_whole_subtree [OF l mem, of "(example_task ''a'')\<lparr>t_owner_ref := ''carl''\<rparr>"] tr path
    by (simp add: example_employee_def example_task_def)
qed

end
