(* ===== verification/Task_Events.thy ===== *)
theory Task_Events
  imports Task_Guards
begin

text \<open>
  What the service writes beside a task row (afkbot/services/task_flow/service.py): update
  details, comments with @employee mentions, attachments, and the autonomous escalation of a
  blocked employee task to the employee's manager.
\<close>

section \<open>Update details\<close>

definition decode_labels :: "string list \<Rightarrow> string list" where
  "decode_labels labels = filter (\<lambda>i. strip i \<noteq> []) labels"

definition change :: "string \<Rightarrow> jval \<Rightarrow> jval \<Rightarrow> (string \<times> jval) list" where
  "change key before after = [(key, JObj [(''before'', before), (''after'', after)])]"

definition principal_json :: "jval \<Rightarrow> jval \<Rightarrow> jval" where
  "principal_json ty ref = JObj [(''type'', ty), (''ref'', ref)]"

definition build_task_update_event_details ::
    "task \<Rightarrow> task \<Rightarrow> string list option \<Rightarrow> (string \<times> jval) list" where
  "build_task_update_event_details b a labels =
     (if t_title b \<noteq> t_title a then change ''title'' (JStr (t_title b)) (JStr (t_title a)) else [])
     @ (if t_description b \<noteq> t_description a then [(''description_changed'', JBool True)] else [])
     @ (if t_priority b \<noteq> t_priority a
        then change ''priority'' (JInt (t_priority b)) (JInt (t_priority a)) else [])
     @ (if t_due_at b \<noteq> t_due_at a
        then change ''due_at'' (j_time (t_due_at b)) (j_time (t_due_at a)) else [])
     @ (if t_ready_at b \<noteq> t_ready_at a
        then change ''ready_at'' (j_time (t_ready_at b)) (j_time (t_ready_at a)) else [])
     @ (if t_owner_type b \<noteq> t_owner_type a \<or> t_owner_ref b \<noteq> t_owner_ref a
        then change ''owner'' (principal_json (JStr (t_owner_type b)) (JStr (t_owner_ref b)))
               (principal_json (JStr (t_owner_type a)) (JStr (t_owner_ref a))) else [])
     @ (if t_reviewer_type b \<noteq> t_reviewer_type a \<or> t_reviewer_ref b \<noteq> t_reviewer_ref a
        then change ''reviewer'' (principal_json (j_opt (t_reviewer_type b)) (j_opt (t_reviewer_ref b)))
               (principal_json (j_opt (t_reviewer_type a)) (j_opt (t_reviewer_ref a))) else [])
     @ (if t_requires_review b \<noteq> t_requires_review a
        then change ''requires_review'' (JBool (t_requires_review b)) (JBool (t_requires_review a))
        else [])
     @ (if labels \<noteq> None \<and> decode_labels (t_labels b) \<noteq> decode_labels (t_labels a)
        then change ''labels'' (JList (map JStr (decode_labels (t_labels b))))
               (JList (map JStr (decode_labels (t_labels a)))) else [])
     @ (if t_status b \<noteq> t_status a
        then change ''status'' (JStr (status_name (t_status b))) (JStr (status_name (t_status a)))
        else [])
     @ (if t_last_session_id b \<noteq> t_last_session_id a
           \<or> t_last_session_profile_id b \<noteq> t_last_session_profile_id a
        then change ''session''
               (JObj [(''session_id'', j_opt (t_last_session_id b)),
                      (''session_profile_id'', j_opt (t_last_session_profile_id b))])
               (JObj [(''session_id'', j_opt (t_last_session_id a)),
                      (''session_profile_id'', j_opt (t_last_session_profile_id a))]) else [])
     @ (if t_blocked_reason_code b \<noteq> t_blocked_reason_code a
           \<or> t_blocked_reason_text b \<noteq> t_blocked_reason_text a
        then change ''blocked_reason''
               (JObj [(''code'', j_opt (t_blocked_reason_code b)),
                      (''text'', j_opt (t_blocked_reason_text b))])
               (JObj [(''code'', j_opt (t_blocked_reason_code a)),
                      (''text'', j_opt (t_blocked_reason_text a))]) else [])"

section \<open>Mentions\<close>

definition mention_char :: "char \<Rightarrow> bool" where
  "mention_char c = (is_ascii_digit c \<or> is_ascii_lower c \<or> is_ascii_upper c
     \<or> c = CHR ''_'' \<or> c = CHR ''.'' \<or> c = CHR ''-'')"

definition mention_sep :: "char \<Rightarrow> bool" where
  "mention_sep c = (c = CHR '':'' \<or> c = CHR ''/'')"

text \<open>The lookbehind: what precedes the at sign is none of \<open>[\w./:-]\<close>.\<close>

definition mention_start :: "char option \<Rightarrow> bool" where
  "mention_start prev =
     (case prev of None \<Rightarrow> True
      | Some c \<Rightarrow> \<not> (is_word_char c \<or> c = CHR ''.'' \<or> c = CHR ''-'' \<or> mention_sep c))"

text \<open>What follows a match: an optional separator and a second run of name characters.\<close>

definition mention_rest :: "string \<Rightarrow> string" where
  "mention_rest r =
     (case r of [] \<Rightarrow> []
      | c # cs \<Rightarrow> if mention_sep c then dropWhile mention_char cs else r)"

text \<open>
  The first groups of all matches, from left to right; the first argument is the character
  before the scan position.
\<close>

function scan_mentions :: "char option \<Rightarrow> string \<Rightarrow> string list" where
  "scan_mentions prev [] = []"
| "scan_mentions prev (c # cs) =
     (let g = takeWhile mention_char cs; r = dropWhile mention_char cs; rest = mention_rest r in
      if c = CHR ''@'' \<and> mention_start prev \<and> g \<noteq> []
      then g # scan_mentions (Some (last (take (length cs - length rest) cs))) rest
      else scan_mentions (Some c) cs)"
  by pat_completeness auto
termination
proof (relation "measure (\<lambda>(prev, s). length s)")
  fix prev :: "char option" and c cs x y z
  have d: "length (dropWhile mention_char s) \<le> length s" for s by (rule length_dropWhile_le)
  have "length (mention_rest s) \<le> length s" for s
    using d by (auto simp: mention_rest_def intro: le_SucI split: list.split)
  then have "length (mention_rest (dropWhile mention_char cs)) < length (c # cs)"
    using d [of cs] by (metis le_imp_less_Suc le_trans length_Cons)
  moreover assume "y = dropWhile mention_char cs" and "z = mention_rest y"
  ultimately show "((Some (last (take (length cs - length z) cs)), z), prev, c # cs)
      \<in> measure (\<lambda>(prev, s). length s)" by simp
qed simp_all

definition extract_task_mentions :: "string \<Rightarrow> string list" where
  "extract_task_mentions message =
     uniq_first [] (filter (\<lambda>i. parse_employee_owner_ref (Some i) \<noteq> None)
       (map strip (scan_mentions None message)))"

text \<open>A message without an at sign mentions nobody.\<close>

lemma scan_mentions_no_at: "CHR ''@'' \<notin> set s \<Longrightarrow> scan_mentions prev s = []"
  by (induction prev s rule: scan_mentions.induct) (auto simp: Let_def)

lemma extract_task_mentions_code [code]:
  "extract_task_mentions message =
     (if CHR ''@'' \<in> set message
      then uniq_first [] (filter (\<lambda>i. parse_employee_owner_ref (Some i) \<noteq> None)
             (map strip (scan_mentions None message)))
      else [])"
  by (simp add: extract_task_mentions_def scan_mentions_no_at)

definition extract_active_task_mentions :: "env \<Rightarrow> string \<Rightarrow> string \<Rightarrow> string list" where
  "extract_active_task_mentions env profile_id message =
     filter (\<lambda>i. case get_employee (env_files env) profile_id i of
                   Inl _ \<Rightarrow> False | Inr e \<Rightarrow> emp_status e = Active)
       (extract_task_mentions message)"

definition mention_json :: "string \<Rightarrow> jval" where
  "mention_json i = JObj [(''owner_type'', JStr employee_type), (''owner_ref'', JStr i),
     (''token'', JStr (CHR ''@'' # i))]"

section \<open>Comments\<close>

definition record_mention :: "string \<Rightarrow> nat option \<Rightarrow> string \<Rightarrow> string \<Rightarrow> string \<Rightarrow> string \<Rightarrow> db \<Rightarrow> db" where
  "record_mention task_id run actor_type actor_ref message i d =
     record_task_event ((event_of task_id ''wake_requested'')
       \<lparr>e_run_id := run, e_actor_type := Some actor_type, e_actor_ref := Some actor_ref,
        e_message := Some ''Explicit mention requested AI attention.'',
        e_details := [(''reason_code'', JStr ''explicit_mention''),
          (''owner_type'', JStr employee_type), (''owner_ref'', JStr i),
          (''status'', JStr ''mentioned''), (''mentions'', JList [mention_json i])]\<rparr>)
     (record_task_event ((event_of task_id ''mention_created'')
       \<lparr>e_run_id := run, e_actor_type := Some actor_type, e_actor_ref := Some actor_ref,
        e_message := Some message,
        e_details := [(''mentions'', JList [mention_json i])]\<rparr>) d)"

definition append_task_comment_event ::
    "env \<Rightarrow> string \<Rightarrow> string \<Rightarrow> string \<Rightarrow> string \<Rightarrow> string \<Rightarrow> string \<Rightarrow> nat option \<Rightarrow> db \<Rightarrow> db \<times> event" where
  "append_task_comment_event env profile_id task_id actor_type actor_ref message comment_type run d =
     (let mentions = extract_active_task_mentions env profile_id message;
          (d1, row) = create_task_event ((event_of task_id ''comment_added'')
            \<lparr>e_run_id := run, e_actor_type := Some actor_type, e_actor_ref := Some actor_ref,
             e_message := Some message,
             e_details := (''comment_type'', JStr comment_type)
               # (if mentions = [] then [] else [(''mentions'', JList (map mention_json mentions))])\<rparr>) d
      in (fold (record_mention task_id run actor_type actor_ref message) mentions d1, row))"

section \<open>Attachments\<close>

record new_attachment =
  na_id :: string
  na_name :: string
  na_content_type :: "string option"
  na_kind :: string
  na_byte_size :: nat
  na_sha256 :: string
  na_content :: "char list"

definition create_task_attachment ::
    "string \<Rightarrow> string \<Rightarrow> task \<Rightarrow> new_attachment \<Rightarrow> db \<Rightarrow> db" where
  "create_task_attachment actor_type actor_ref t na d =
     (let (d1, row) = repo_create_attachment \<lparr>a_id = na_id na, a_task_id = t_id t,
            a_profile_id = t_profile_id t, a_name = na_name na,
            a_content_type = na_content_type na, a_kind = na_kind na,
            a_byte_size = na_byte_size na, a_sha256 = na_sha256 na,
            a_created_by_type = actor_type, a_created_by_ref = actor_ref,
            a_content = na_content na, a_created_at = db_clock d\<rparr> d
      in record_task_event ((event_of (t_id t) ''attachment_added'')
           \<lparr>e_actor_type := Some actor_type, e_actor_ref := Some actor_ref,
            e_message := Some (a_name row),
            e_details := [(''attachment_id'', JStr (a_id row)), (''name'', JStr (a_name row)),
              (''content_type'', j_opt (a_content_type row)), (''kind'', JStr (a_kind row)),
              (''byte_size'', JInt (int (a_byte_size row))), (''sha256'', JStr (a_sha256 row))]\<rparr>) d1)"

section \<open>Manager escalation\<close>

definition manager_escalation_codes :: "string list" where
  "manager_escalation_codes = [''manager_reassignment_required'', ''orchestrator_handoff_required'']"

text \<open>The markers of the source within the modelled character range.\<close>

definition manager_escalation_markers :: "string list" where
  "manager_escalation_markers =
     [''task_owner_forbidden'', ''manager handoff'', ''managerial handoff'', ''orchestrator handoff'']"

definition requires_manager_escalation_blocker :: "string option \<Rightarrow> string option \<Rightarrow> bool" where
  "requires_manager_escalation_blocker reason_code reason_text =
     (lower (strip (str_or_empty reason_code)) \<in> set manager_escalation_codes
      \<or> list_ex (\<lambda>m. occurs_in m (lower (strip (str_or_empty reason_text)))) manager_escalation_markers)"

definition canonical_manager_escalation_reason_code :: "string \<Rightarrow> string option \<Rightarrow> string" where
  "canonical_manager_escalation_reason_code reason_code reason_text =
     (let code = lower (strip reason_code) in
      if code \<in> set manager_escalation_codes then code
      else if requires_manager_escalation_blocker (Some code) reason_text
      then ''manager_reassignment_required''
      else code)"

definition resolve_manager_escalation_employee :: "env \<Rightarrow> string \<Rightarrow> string \<Rightarrow> employee option" where
  "resolve_manager_escalation_employee env profile_id employee_id =
     (case get_employee (env_files env) profile_id employee_id of
        Inl _ \<Rightarrow> None
      | Inr e \<Rightarrow>
          (let manager_id = strip (str_or_empty (emp_manager_id e)) in
           if manager_id = [] then None
           else (case get_employee (env_files env) profile_id manager_id of
                   Inl _ \<Rightarrow> None
                 | Inr m \<Rightarrow> if emp_status m \<noteq> Active then None else Some m)))"

definition build_manager_escalation_description :: "task \<Rightarrow> string \<Rightarrow> string \<Rightarrow> string \<Rightarrow> string" where
  "build_manager_escalation_description t manager_id reason_code reason_text =
     join_with [CHR 0x0A]
       [''Resolve an autonomous Task Flow blocker.'',
        [],
        ''Source task: '' @ t_id t,
        ''Source owner: '' @ t_owner_type t @ '':'' @ t_owner_ref t,
        ''Assigned manager: '' @ employee_type @ '':'' @ manager_id,
        ''Blocker: '' @ (if reason_code = [] then ''manager_reassignment_required'' else reason_code),
        ''Details: '' @ (if reason_text = []
          then ''The responsible employee cannot continue without manager routing.'' else reason_text),
        [],
        ''Expected manager actions:'',
        ''- inspect the source task, comments, dependencies, and flow documents;'',
        ''- decide whether to reassign, delegate remediation, split work, or escalate upward;'',
        ''- create any needed remediation/check tasks with explicit dependencies;'',
        ''- update the source task so it can continue, or leave a concrete blocker comment if it cannot.'',
        [],
        ''Do not mark this task complete until the source task has a clear next executable owner, dependency, or terminal state.'']"

definition escalation_details :: "task \<Rightarrow> string \<Rightarrow> string \<Rightarrow> (string \<times> jval) list" where
  "escalation_details t code text =
     [(''source_task_id'', JStr (t_id t)), (''source_owner_type'', JStr (t_owner_type t)),
      (''source_owner_ref'', JStr (t_owner_ref t)),
      (''escalation_type'', JStr ''manager_reassignment''),
      (''blocked_reason_code'', j_opt (text_or_none code)),
      (''blocked_reason_text'', j_opt (text_or_none text))]"

definition escalation_reason :: "string \<Rightarrow> string" where
  "escalation_reason code = (if code = [] then ''manager_reassignment_required'' else code)"

definition open_escalation :: "task \<Rightarrow> db \<Rightarrow> task option" where
  "open_escalation t d =
     find (\<lambda>r. \<not> terminal_status (t_status r))
       (list_tasks_by_source (t_profile_id t) ''manager_escalation'' (t_id t) (Some 10) d)"

definition escalation_row ::
    "instant \<Rightarrow> string \<Rightarrow> task \<Rightarrow> string \<Rightarrow> string \<Rightarrow> string \<Rightarrow> string option \<Rightarrow> string option \<Rightarrow> instant \<Rightarrow> task" where
  "escalation_row now new_id t manager_id code text actor_type actor_ref clock =
     (task_defaults clock)\<lparr>t_id := new_id, t_profile_id := t_profile_id t, t_flow_id := t_flow_id t,
        t_title := take 255 (''Resolve blocker for '' @ t_title t),
        t_description := build_manager_escalation_description t manager_id code text,
        t_status := Todo, t_priority := max (t_priority t) 80, t_due_at := t_due_at t,
        t_ready_at := Some now, t_owner_type := employee_type, t_owner_ref := manager_id,
        t_source_type := ''manager_escalation'', t_source_ref := Some (t_id t),
        t_created_by_type := (case actor_type of None \<Rightarrow> t_owner_type t
                              | Some a \<Rightarrow> if a = [] then t_owner_type t else a),
        t_created_by_ref := (case actor_ref of None \<Rightarrow> t_owner_ref t
                             | Some a \<Rightarrow> if a = [] then t_owner_ref t else a),
        t_labels := normalize_labels (Some (decode_labels (t_labels t)
          @ [''manager-escalation'', ''autonomous-routing'']))\<rparr>"

text \<open>No manager to route to: an event and a system comment on the blocked task.\<close>

definition record_unroutable_escalation ::
    "env \<Rightarrow> task \<Rightarrow> string \<Rightarrow> string \<Rightarrow> string option \<Rightarrow> string option \<Rightarrow> db \<Rightarrow> db" where
  "record_unroutable_escalation env t code text actor_type actor_ref d =
     (let d1 = record_task_event ((event_of (t_id t) ''manager_escalation_unroutable'')
            \<lparr>e_actor_type := actor_type, e_actor_ref := actor_ref,
             e_message := Some ''Manager escalation could not find the blocked employee's active direct manager in this profile.'',
             e_details := tl (escalation_details t code text)\<rparr>) d
      in fst (append_task_comment_event env (t_profile_id t) (t_id t) ''system'' ''task-flow''
           ''Manager escalation could not be routed because the blocked employee has no active direct manager configured.''
           ''system'' None d1))"

definition create_escalation ::
    "env \<Rightarrow> instant \<Rightarrow> string \<Rightarrow> task \<Rightarrow> employee \<Rightarrow> string \<Rightarrow> string \<Rightarrow> string option \<Rightarrow> string option \<Rightarrow> db \<Rightarrow> db res" where
  "create_escalation env now new_id t manager code text actor_type actor_ref d =
     bindE (repo_create_task (escalation_row now new_id t (emp_id manager) code text actor_type actor_ref
              (db_clock d)) d) (\<lambda>(d1, esc).
       let d2 = record_task_event ((event_of (t_id esc) ''created'')
             \<lparr>e_actor_type := actor_type, e_actor_ref := actor_ref, e_to := Some (t_status esc),
              e_details := [(''flow_id'', j_opt (t_flow_id esc)), (''owner_type'', JStr (t_owner_type esc)),
                (''owner_ref'', JStr (t_owner_ref esc)), (''reviewer_type'', j_opt (t_reviewer_type esc)),
                (''reviewer_ref'', j_opt (t_reviewer_ref esc)), (''priority'', JInt (t_priority esc)),
                (''labels'', JList (map JStr (t_labels esc))), (''depends_on_task_ids'', JList []),
                (''requires_review'', JBool False), (''source_type'', JStr (t_source_type esc)),
                (''source_ref'', j_opt (t_source_ref esc)),
                (''escalation_type'', JStr ''manager_reassignment'')]\<rparr>) d1;
           d3 = record_task_event ((event_of (t_id t) ''recovery_action_created'')
             \<lparr>e_actor_type := actor_type, e_actor_ref := actor_ref,
              e_message := Some (''Created manager escalation task '' @ t_id esc @ '' for ''
                                 @ emp_id manager @ ''.''),
              e_details := [(''owner_type'', JStr employee_type), (''owner_ref'', JStr (emp_id manager)),
                (''recovery_task_id'', JStr (t_id esc))] @ escalation_details t code text\<rparr>) d2;
           d4 = fst (append_task_comment_event env (t_profile_id t) (t_id t)
             (t_created_by_type esc) (t_created_by_ref esc)
             (''Autonomous manager escalation created for '' @ employee_type @ '':'' @ emp_id manager
              @ '' as task '' @ t_id esc @ ''.'') ''system'' None d3)
       in Inr (record_task_wake_requested esc (escalation_reason code) actor_type actor_ref
            (Some (''Manager escalation requested for '' @ t_owner_type t @ '':'' @ t_owner_ref t @ ''.''))
            (escalation_details t code text) d4))"

definition record_manager_escalation_if_needed ::
    "env \<Rightarrow> instant \<Rightarrow> string \<Rightarrow> task \<Rightarrow> string option \<Rightarrow> string option \<Rightarrow> string option \<Rightarrow> string option
     \<Rightarrow> db \<Rightarrow> db res" where
  "record_manager_escalation_if_needed env now new_id t reason_code reason_text actor_type actor_ref d =
     (let code = lower (strip (str_or_empty reason_code)); text = strip (str_or_empty reason_text) in
      if t_owner_type t \<noteq> employee_type \<or> t_owner_ref t = [] then Inr d
      else if \<not> requires_manager_escalation_blocker (Some code) (Some text) then Inr d
      else
        (case open_escalation t d of
           Some esc \<Rightarrow>
             Inr (record_task_wake_requested esc (escalation_reason code) actor_type actor_ref
               (Some ''Manager escalation is already open and should continue.'')
               (escalation_details t code text) d)
         | None \<Rightarrow>
             (case resolve_manager_escalation_employee env (t_profile_id t) (t_owner_ref t) of
                None \<Rightarrow> Inr (record_unroutable_escalation env t code text actor_type actor_ref d)
              | Some manager \<Rightarrow>
                  create_escalation env now new_id t manager code text actor_type actor_ref d)))"

end
