(* ===== verification/Task_Claims.thy ===== *)
theory Task_Claims
  imports Task_Store Lease
begin

text \<open>
  The claim protocol of TaskFlowRepository (afkbot/repositories/task_flow_repo.py, from
  \<open>claim_next_runnable_task\<close> to \<open>clear_task_claim\<close>): choosing the next runnable task, taking
  it under a token with a lease, and the updates that are guarded by that token.
\<close>

section \<open>Who would execute a task\<close>

text \<open>\<open>coalesce(nullif(column, ''), fallback)\<close>.\<close>

definition coalesce_text :: "string option \<Rightarrow> string \<Rightarrow> string" where
  "coalesce_text column fallback =
     (case column of None \<Rightarrow> fallback | Some s \<Rightarrow> if s = [] then fallback else s)"

definition claim_owner_of :: "task \<Rightarrow> string \<times> string" where
  "claim_owner_of t =
     (if t_status t = Review
      then (coalesce_text (t_reviewer_type t) (t_owner_type t),
            coalesce_text (t_reviewer_ref t) (t_owner_ref t))
      else (t_owner_type t, t_owner_ref t))"

definition active_claim_owner_of :: "task \<Rightarrow> string \<times> string" where
  "active_claim_owner_of t =
     (coalesce_text (t_claim_owner_type t) (t_owner_type t),
      coalesce_text (t_claim_owner_ref t) (t_owner_ref t))"

section \<open>Runnable candidates\<close>

definition due_at_or_before :: "instant option \<Rightarrow> instant \<Rightarrow> bool" where
  "due_at_or_before at now = (case at of None \<Rightarrow> False | Some i \<Rightarrow> i \<le> now)"

definition todo_candidate :: "instant \<Rightarrow> task \<Rightarrow> bool" where
  "todo_candidate now t =
     (t_status t = Todo \<and> (t_ready_at t = None \<or> due_at_or_before (t_ready_at t) now))"

definition blocked_candidate :: "instant \<Rightarrow> task \<Rightarrow> bool" where
  "blocked_candidate now t =
     (t_status t = Blocked
      \<and> (due_at_or_before (t_ready_at t) now
         \<or> t_blocked_reason_code t = Some ''review_changes_requested'')
      \<and> t_blocked_reason_code t \<noteq> Some ''dependency_wait'')"

definition owner_work_candidate :: "instant \<Rightarrow> task \<Rightarrow> bool" where
  "owner_work_candidate now t =
     (t_owner_type t = employee_type \<and> t_owner_ref t \<noteq> []
      \<and> (todo_candidate now t \<or> blocked_candidate now t))"

definition review_candidate :: "task \<Rightarrow> bool" where
  "review_candidate t =
     (t_status t = Review \<and> fst (claim_owner_of t) = employee_type
      \<and> snd (claim_owner_of t) \<noteq> [])"

definition active_owner_exists :: "task list \<Rightarrow> task \<Rightarrow> bool" where
  "active_owner_exists rows t =
     list_ex (\<lambda>a. t_profile_id a = t_profile_id t \<and> active_status (t_status a)
                \<and> active_claim_owner_of a = claim_owner_of t) rows"

text \<open>The arguments of \<open>claim_next_runnable_task\<close>.\<close>

record claim_request =
  c_now :: instant
  c_lease_until :: instant
  c_token :: string
  c_worker :: string
  c_profile :: "string option"
  c_owner_ref :: "string option"

definition in_scope :: "claim_request \<Rightarrow> task \<Rightarrow> bool" where
  "in_scope rq t =
     ((case c_profile rq of None \<Rightarrow> True | Some p \<Rightarrow> t_profile_id t = p)
      \<and> (case c_owner_ref rq of None \<Rightarrow> True | Some r \<Rightarrow> snd (claim_owner_of t) = r))"

definition is_candidate :: "claim_request \<Rightarrow> task list \<Rightarrow> task \<Rightarrow> bool" where
  "is_candidate rq rows t =
     (in_scope rq t
      \<and> (owner_work_candidate (c_now rq) t \<or> review_candidate t)
      \<and> \<not> active_owner_exists rows t)"

definition runnable_candidates :: "claim_request \<Rightarrow> task list \<Rightarrow> task list" where
  "runnable_candidates rq rows = filter (is_candidate rq rows) rows"

section \<open>The scheduling order\<close>

type_synonym base_rank = "int \<times> nulls_last \<times> nulls_last \<times> instant \<times> string"
type_synonym final_rank = "int \<times> nulls_last \<times> nat \<times> nulls_last \<times> instant \<times> string"

definition task_claim_base_ordering :: "task \<Rightarrow> base_rank" where
  "task_claim_base_ordering t =
     (- t_priority t, nulls_last_of (t_due_at t), nulls_last_of (t_ready_at t),
      t_created_at t, t_id t)"

text \<open>\<open>row_number() OVER (PARTITION BY profile, claim owner ORDER BY base ordering) = 1\<close>.\<close>

definition same_partition :: "task \<Rightarrow> task \<Rightarrow> bool" where
  "same_partition t u =
     (t_profile_id u = t_profile_id t \<and> claim_owner_of u = claim_owner_of t)"

definition owner_rank_one :: "task list \<Rightarrow> task \<Rightarrow> bool" where
  "owner_rank_one cands t =
     (min_on task_claim_base_ordering (filter (same_partition t) cands) = Some t)"

definition no_flow_bucket :: string where
  "no_flow_bucket = ''__taskflow_no_flow__''"

definition flow_bucket :: "task \<Rightarrow> string" where
  "flow_bucket t = opt_or (t_flow_id t) no_flow_bucket"

definition active_flow_load :: "task list \<Rightarrow> task \<Rightarrow> nat" where
  "active_flow_load rows t =
     rowcount (\<lambda>a. t_profile_id a = t_profile_id t \<and> flow_bucket a = flow_bucket t
                 \<and> fst (active_claim_owner_of a) = employee_type
                 \<and> active_status (t_status a)) rows"

definition eligible_ordering :: "task list \<Rightarrow> task \<Rightarrow> final_rank" where
  "eligible_ordering rows t =
     (- t_priority t, nulls_last_of (t_due_at t), active_flow_load rows t,
      nulls_last_of (t_ready_at t), t_created_at t, t_id t)"

definition select_candidate :: "claim_request \<Rightarrow> task list \<Rightarrow> task option" where
  "select_candidate rq rows =
     (let cands = runnable_candidates rq rows
      in min_on (eligible_ordering rows) (filter (owner_rank_one cands) cands))"

section \<open>Taking the claim\<close>

text \<open>The WHERE clause of the update, and its new values.\<close>

definition still_claimable :: "instant \<Rightarrow> string \<times> string \<Rightarrow> task \<Rightarrow> bool" where
  "still_claimable now owner t =
     ((t_owner_type t, t_owner_ref t) = owner \<and> todo_candidate now t
      \<or> (t_owner_type t, t_owner_ref t) = owner \<and> blocked_candidate now t
      \<or> t_status t = Review \<and> claim_owner_of t = owner)"

definition claimed_row :: "claim_request \<Rightarrow> task \<Rightarrow> instant \<Rightarrow> task \<Rightarrow> task" where
  "claimed_row rq cand clock t = t\<lparr>
     t_status := Claimed,
     t_claim_token := Some (c_token rq),
     t_claim_owner_type := Some (fst (claim_owner_of cand)),
     t_claim_owner_ref := Some (snd (claim_owner_of cand)),
     t_claim_source_status := Some (t_status cand),
     t_claimed_by := Some (c_worker rq),
     t_lease_until := Some (c_lease_until rq),
     t_ready_at := None,
     t_blocked_reason_code := None,
     t_blocked_reason_text := None,
     t_last_run_id := None,
     t_last_error_code := None,
     t_last_error_text := None,
     t_started_at := None,
     t_finished_at := None,
     t_updated_at := clock\<rparr>"

definition get_task_by_claim_token :: "string \<Rightarrow> db \<Rightarrow> task option res" where
  "get_task_by_claim_token token d =
     scalar_one_or_none (filter (\<lambda>t. t_claim_token t = Some token) (db_tasks d))"

text \<open>
  Three attempts. \<open>others n\<close> is what other sessions commit between the selection and the
  update of an attempt (\<open>\<lambda>_ d. d\<close> when nobody interferes): the update then matches no row
  and the next attempt selects again.
\<close>

fun claim_attempts :: "nat \<Rightarrow> (nat \<Rightarrow> db \<Rightarrow> db) \<Rightarrow> claim_request \<Rightarrow> db \<Rightarrow> (db \<times> task option) res" where
  "claim_attempts 0 others rq d = Inr (d, None)"
| "claim_attempts (Suc n) others rq d =
     (case select_candidate rq (db_tasks d) of
        None \<Rightarrow> Inr (d, None)
      | Some cand \<Rightarrow>
          (let d1 = others n d;
               hit = (\<lambda>t. t_id t = t_id cand \<and> still_claimable (c_now rq) (claim_owner_of cand) t)
           in if rowcount hit (db_tasks d1) = 0 then claim_attempts n others rq d1
              else let d2 = d1\<lparr>db_tasks :=
                          update_where hit (claimed_row rq cand (db_clock d1)) (db_tasks d1)\<rparr>
                   in bindE (check_task_indexes d2) (\<lambda>_.
                      bindE (get_task_by_claim_token (c_token rq) d2) (\<lambda>row.
                      Inr (d2, row)))))"

definition claim_next_runnable_task ::
    "(nat \<Rightarrow> db \<Rightarrow> db) \<Rightarrow> claim_request \<Rightarrow> db \<Rightarrow> (db \<times> task option) res" where
  "claim_next_runnable_task others rq d = claim_attempts 3 others rq d"

section \<open>Updates under the token\<close>

definition guarded_update :: "(task \<Rightarrow> bool) \<Rightarrow> (task \<Rightarrow> task) \<Rightarrow> db \<Rightarrow> db \<times> bool" where
  "guarded_update p f d =
     (d\<lparr>db_tasks := update_where p (\<lambda>t. (f t)\<lparr>t_updated_at := db_clock d\<rparr>) (db_tasks d)\<rparr>,
      0 < rowcount p (db_tasks d))"

definition holds_claim :: "string \<Rightarrow> string \<Rightarrow> task \<Rightarrow> bool" where
  "holds_claim task_id token t = (t_id t = task_id \<and> t_claim_token t = Some token)"

definition attach_task_run ::
    "string \<Rightarrow> string \<Rightarrow> nat \<Rightarrow> string option \<Rightarrow> string option \<Rightarrow> db \<Rightarrow> db \<times> bool" where
  "attach_task_run task_id token run session_id session_profile_id d =
     guarded_update (holds_claim task_id token)
       (\<lambda>t. t\<lparr>t_last_run_id := Some run,
              t_last_session_id :=
                (case session_id of None \<Rightarrow> t_last_session_id t | Some s \<Rightarrow> Some s),
              t_last_session_profile_id :=
                (case session_profile_id of None \<Rightarrow> t_last_session_profile_id t
                 | Some s \<Rightarrow> Some s)\<rparr>) d"

definition mark_task_started :: "string \<Rightarrow> string \<Rightarrow> instant \<Rightarrow> db \<Rightarrow> db \<times> bool" where
  "mark_task_started task_id token started_at d =
     guarded_update (\<lambda>t. holds_claim task_id token t \<and> t_status t = Claimed)
       (\<lambda>t. t\<lparr>t_status := Running, t_started_at := Some started_at,
              t_current_attempt := t_current_attempt t + 1\<rparr>) d"

definition refresh_task_claim :: "string \<Rightarrow> string \<Rightarrow> instant \<Rightarrow> db \<Rightarrow> db \<times> bool" where
  "refresh_task_claim task_id token lease_until d =
     guarded_update (\<lambda>t. holds_claim task_id token t \<and> active_status (t_status t))
       (\<lambda>t. t\<lparr>t_lease_until := Some lease_until\<rparr>) d"

text \<open>The row as the two releasing updates leave it.\<close>

definition released_row ::
    "status \<Rightarrow> instant option \<Rightarrow> string option \<Rightarrow> string option \<Rightarrow> task \<Rightarrow> task" where
  "released_row st ready_at error_code error_text t =
     (clear_claim_columns t)\<lparr>t_status := st, t_ready_at := ready_at, t_started_at := None,
        t_blocked_reason_code := None, t_blocked_reason_text := None,
        t_last_error_code := error_code, t_last_error_text := error_text,
        t_finished_at := None\<rparr>"

definition release_expired_task_claim ::
    "string \<Rightarrow> string \<Rightarrow> instant \<Rightarrow> instant option \<Rightarrow> status \<Rightarrow> string option \<Rightarrow> string option
     \<Rightarrow> db \<Rightarrow> db \<times> bool" where
  "release_expired_task_claim task_id token now ready_at st error_code error_text d =
     guarded_update (\<lambda>t. holds_claim task_id token t \<and> active_status (t_status t)
                       \<and> due_at_or_before (t_lease_until t) now)
       (released_row st ready_at error_code error_text) d"

definition release_task_claim ::
    "string \<Rightarrow> string \<Rightarrow> instant option \<Rightarrow> status \<Rightarrow> string option \<Rightarrow> string option
     \<Rightarrow> db \<Rightarrow> db \<times> bool" where
  "release_task_claim task_id token ready_at st error_code error_text d =
     guarded_update (\<lambda>t. holds_claim task_id token t \<and> active_status (t_status t))
       (released_row st ready_at error_code error_text) d"

record final_values =
  v_status :: status
  v_finished_at :: instant
  v_ready_at :: "instant option field"
  v_run_id :: "nat option"
  v_error_code :: "string option"
  v_error_text :: "string option"
  v_blocked_code :: "string option"
  v_blocked_text :: "string option"

definition finalized_row :: "final_values \<Rightarrow> task \<Rightarrow> task" where
  "finalized_row v t =
     (clear_claim_columns t)\<lparr>t_status := v_status v, t_finished_at := Some (v_finished_at v),
        t_last_error_code := v_error_code v, t_last_error_text := v_error_text v,
        t_blocked_reason_code := v_blocked_code v, t_blocked_reason_text := v_blocked_text v,
        t_last_run_id := (case v_run_id v of None \<Rightarrow> t_last_run_id t | Some r \<Rightarrow> Some r),
        t_ready_at := field_or (v_ready_at v) None\<rparr>"

definition finalize_task_claim :: "string \<Rightarrow> string \<Rightarrow> final_values \<Rightarrow> db \<Rightarrow> db \<times> bool" where
  "finalize_task_claim task_id token v d =
     guarded_update (\<lambda>t. holds_claim task_id token t \<and> active_status (t_status t))
       (finalized_row v) d"

definition clear_task_claim ::
    "string \<Rightarrow> string \<Rightarrow> nat option \<Rightarrow> string option field \<Rightarrow> string option field
     \<Rightarrow> db \<Rightarrow> db \<times> bool" where
  "clear_task_claim task_id token run error_code error_text d =
     guarded_update (holds_claim task_id token)
       (\<lambda>t. (clear_claim_columns t)\<lparr>
          t_last_run_id := (case run of None \<Rightarrow> t_last_run_id t | Some r \<Rightarrow> Some r),
          t_last_error_code := field_or error_code (t_last_error_code t),
          t_last_error_text := field_or error_text (t_last_error_text t)\<rparr>) d"

definition list_expired_claimed_tasks ::
    "instant \<Rightarrow> string option \<Rightarrow> string option \<Rightarrow> nat option \<Rightarrow> db \<Rightarrow> task list" where
  "list_expired_claimed_tasks now profile owner_ref limit d =
     (let rows = sort_key (\<lambda>t. (nulls_last_of (t_lease_until t), t_updated_at t, t_created_at t))
        (filter (\<lambda>t. fst (active_claim_owner_of t) = employee_type
           \<and> active_status (t_status t) \<and> t_claim_token t \<noteq> None
           \<and> due_at_or_before (t_lease_until t) now
           \<and> (case profile of None \<Rightarrow> True | Some p \<Rightarrow> t_profile_id t = p)
           \<and> (case owner_ref of None \<Rightarrow> True | Some r \<Rightarrow> snd (active_claim_owner_of t) = r))
          (db_tasks d))
      in case limit of None \<Rightarrow> rows | Some n \<Rightarrow> take n rows)"

definition list_ai_plan_tasks ::
    "string option \<Rightarrow> string option \<Rightarrow> nat option \<Rightarrow> db \<Rightarrow> task list" where
  "list_ai_plan_tasks profile owner_ref limit d =
     (let rows = sort_key (\<lambda>t. (t_updated_at t, t_created_at t))
        (filter (\<lambda>t. t_owner_type t = employee_type \<and> t_status t = Plan
           \<and> (case profile of None \<Rightarrow> True | Some p \<Rightarrow> t_profile_id t = p)
           \<and> (case owner_ref of None \<Rightarrow> True | Some r \<Rightarrow> t_owner_ref t = r)) (db_tasks d))
      in case limit of None \<Rightarrow> rows | Some n \<Rightarrow> take n rows)"

section \<open>Selection\<close>

lemma candidate_claimable:
  assumes "is_candidate rq rows t"
  shows "still_claimable (c_now rq) (claim_owner_of t) t"
  using assms
  by (auto simp add: is_candidate_def owner_work_candidate_def review_candidate_def
      still_claimable_def todo_candidate_def blocked_candidate_def claim_owner_of_def)

lemma claimable_status:
  "still_claimable now owner t \<Longrightarrow> t_status t = Todo \<or> t_status t = Blocked \<or> t_status t = Review"
  by (auto simp add: still_claimable_def todo_candidate_def blocked_candidate_def)

lemma claimable_not_active: "still_claimable now owner t \<Longrightarrow> \<not> active_status (t_status t)"
  using claimable_status [of now owner t] by auto

lemma same_partition_sym: "same_partition t u = same_partition u t"
  by (simp add: same_partition_def eq_commute)

lemma same_partition_eq: "same_partition t u \<Longrightarrow> same_partition t = same_partition u"
  by (simp add: same_partition_def fun_eq_iff)

lemma same_partition_refl [simp]: "same_partition t t"
  by (simp add: same_partition_def)

lemma min_on_exists:
  assumes "x \<in> set xs"
  obtains y where "min_on key xs = Some y"
  using assms by (cases "min_on key xs") auto

lemma owner_rank_one_exists:
  assumes "u \<in> set cands"
  obtains v where "v \<in> set cands" and "owner_rank_one cands v" and "same_partition u v"
    and "task_claim_base_ordering v \<le> task_claim_base_ordering u"
proof -
  have u: "u \<in> set (filter (same_partition u) cands)" using assms by simp
  then obtain v where v: "min_on task_claim_base_ordering (filter (same_partition u) cands) = Some v"
    by (rule min_on_exists)
  note vD = min_on_SomeD [OF v]
  have "same_partition u v" and "v \<in> set cands" using vD(1) by simp_all
  moreover have "owner_rank_one cands v"
    using v by (simp add: owner_rank_one_def same_partition_eq [OF \<open>same_partition u v\<close>, symmetric])
  ultimately show ?thesis using that vD(2) [OF u] by blast
qed

lemma select_candidate_SomeD:
  assumes "select_candidate rq rows = Some t"
  shows "t \<in> set rows" and "is_candidate rq rows t"
    and "owner_rank_one (runnable_candidates rq rows) t"
    and "\<And>u. u \<in> set rows \<Longrightarrow> is_candidate rq rows u \<Longrightarrow>
           owner_rank_one (runnable_candidates rq rows) u \<Longrightarrow>
           eligible_ordering rows t \<le> eligible_ordering rows u"
proof -
  let ?c = "runnable_candidates rq rows"
  from assms have m: "min_on (eligible_ordering rows) (filter (owner_rank_one ?c) ?c) = Some t"
    by (simp add: select_candidate_def Let_def)
  note mD = min_on_SomeD [OF m]
  from mD(1) show "t \<in> set rows" and "is_candidate rq rows t" and "owner_rank_one ?c t"
    by (simp_all add: runnable_candidates_def)
  fix u
  assume "u \<in> set rows" and "is_candidate rq rows u" and "owner_rank_one ?c u"
  then have "u \<in> set (filter (owner_rank_one ?c) ?c)" by (simp add: runnable_candidates_def)
  then show "eligible_ordering rows t \<le> eligible_ordering rows u" by (rule mD(2))
qed

lemma select_candidate_None_iff:
  "select_candidate rq rows = None \<longleftrightarrow> (\<forall>t \<in> set rows. \<not> is_candidate rq rows t)"
proof
  let ?c = "runnable_candidates rq rows"
  assume "select_candidate rq rows = None"
  then have none: "filter (owner_rank_one ?c) ?c = []"
    by (simp add: select_candidate_def Let_def)
  show "\<forall>t \<in> set rows. \<not> is_candidate rq rows t"
  proof (intro ballI notI)
    fix t assume "t \<in> set rows" and "is_candidate rq rows t"
    then have "t \<in> set ?c" by (simp add: runnable_candidates_def)
    then obtain v where "v \<in> set ?c" "owner_rank_one ?c v" by (rule owner_rank_one_exists)
    with none show False by (metis filter_empty_conv)
  qed
next
  assume "\<forall>t \<in> set rows. \<not> is_candidate rq rows t"
  then have "runnable_candidates rq rows = []" by (simp add: runnable_candidates_def)
  then show "select_candidate rq rows = None" by (simp add: select_candidate_def Let_def)
qed

text \<open>Nothing runnable is more urgent than what is selected.\<close>

definition urgency :: "task \<Rightarrow> int \<times> nulls_last" where
  "urgency t = (- t_priority t, nulls_last_of (t_due_at t))"

lemma urgency_base: "task_claim_base_ordering t \<le> task_claim_base_ordering u \<Longrightarrow> urgency t \<le> urgency u"
  unfolding task_claim_base_ordering_def urgency_def by (force simp: less_eq_prod_simp)

lemma urgency_eligible: "eligible_ordering rows t \<le> eligible_ordering rows u \<Longrightarrow> urgency t \<le> urgency u"
  unfolding eligible_ordering_def urgency_def by (force simp: less_eq_prod_simp)

lemma select_candidate_most_urgent:
  assumes "select_candidate rq rows = Some t" and "u \<in> set rows" and "is_candidate rq rows u"
  shows "urgency t \<le> urgency u"
proof -
  let ?c = "runnable_candidates rq rows"
  have "u \<in> set ?c" using assms(2,3) by (simp add: runnable_candidates_def)
  then obtain v where v: "v \<in> set ?c" "owner_rank_one ?c v"
    and vu: "task_claim_base_ordering v \<le> task_claim_base_ordering u"
    by (rule owner_rank_one_exists)
  have "eligible_ordering rows t \<le> eligible_ordering rows v"
    by (rule select_candidate_SomeD(4) [OF assms(1)])
      (use v in \<open>simp_all add: runnable_candidates_def\<close>)
  then show ?thesis using urgency_eligible urgency_base [OF vu] order_trans by blast
qed

section \<open>The claim\<close>

lemma claimed_row_sel [simp]:
  "t_id (claimed_row rq c clk t) = t_id t"
  "t_profile_id (claimed_row rq c clk t) = t_profile_id t"
  "t_status (claimed_row rq c clk t) = Claimed"
  "t_owner_type (claimed_row rq c clk t) = t_owner_type t"
  "t_owner_ref (claimed_row rq c clk t) = t_owner_ref t"
  "t_claim_token (claimed_row rq c clk t) = Some (c_token rq)"
  "t_claim_owner_type (claimed_row rq c clk t) = Some (fst (claim_owner_of c))"
  "t_claim_owner_ref (claimed_row rq c clk t) = Some (snd (claim_owner_of c))"
  "t_claim_source_status (claimed_row rq c clk t) = Some (t_status c)"
  "t_claimed_by (claimed_row rq c clk t) = Some (c_worker rq)"
  "t_lease_until (claimed_row rq c clk t) = Some (c_lease_until rq)"
  "t_ready_at (claimed_row rq c clk t) = None"
  "t_finished_at (claimed_row rq c clk t) = None"
  by (simp_all add: claimed_row_def)

definition fresh_token :: "string \<Rightarrow> db \<Rightarrow> bool" where
  "fresh_token token d \<longleftrightarrow> (\<forall>t \<in> set (db_tasks d). t_claim_token t \<noteq> Some token)"

definition claimed_db :: "claim_request \<Rightarrow> task \<Rightarrow> db \<Rightarrow> db" where
  "claimed_db rq cand d = put_task (claimed_row rq cand (db_clock d) cand) d"

lemma filter_token_put:
  assumes "distinct (map key rows)" and "r \<in> set rows"
    and "\<forall>t \<in> set rows. tok t \<noteq> Some x" and "key r' = key r" and "tok r' = Some x"
  shows "filter (\<lambda>t. tok t = Some x) (update_where (\<lambda>t. key t = key r) (\<lambda>_. r') rows) = [r']"
  using assms
proof (induction rows)
  case (Cons t rows)
  show ?case
  proof (cases "key t = key r")
    case True
    with Cons.prems(1) have "\<forall>s \<in> set rows. key s \<noteq> key r"
      by (metis distinct.simps(2) image_eqI list.set_map list.simps(9))
    then have "update_where (\<lambda>t. key t = key r) (\<lambda>_. r') rows = rows"
      by (intro update_where_none) simp
    moreover have "filter (\<lambda>t. tok t = Some x) rows = []"
      using Cons.prems(3) by (simp add: filter_empty_conv)
    ultimately show ?thesis using True Cons.prems(5) by (simp add: update_where_def)
  next
    case False
    then have "r \<in> set rows" using Cons.prems(2) by auto
    with Cons False show ?thesis by (simp add: update_where_def)
  qed
qed simp

text \<open>One attempt on a database in which no interference happens.\<close>

lemma claim_attempt_quiet:
  assumes tc: "task_constraints d" and fresh: "fresh_token (c_token rq) d"
    and sel: "select_candidate rq (db_tasks d) = Some cand"
  shows "claim_attempts (Suc n) (\<lambda>_ d. d) rq d =
     bindE (check_task_indexes (claimed_db rq cand d))
       (\<lambda>_. Inr (claimed_db rq cand d, Some (claimed_row rq cand (db_clock d) cand)))"
proof -
  note selD = select_candidate_SomeD [OF sel]
  let ?hit = "\<lambda>t. t_id t = t_id cand \<and> still_claimable (c_now rq) (claim_owner_of cand) t"
  let ?row = "claimed_row rq cand (db_clock d) cand"
  have ids: "distinct (map t_id (db_tasks d))" using tc by (simp add: task_constraints_def)
  have hit: "?hit cand" using candidate_claimable [OF selD(2)] by simp
  then have pos: "rowcount ?hit (db_tasks d) \<noteq> 0"
    unfolding rowcount_0_iff using selD(1) by metis
  have upd: "update_where ?hit (claimed_row rq cand (db_clock d)) (db_tasks d)
      = update_where (\<lambda>t. t_id t = t_id cand) (\<lambda>_. ?row) (db_tasks d)"
    by (rule update_where_single [OF ids selD(1), of ?hit]) (rule hit, simp)
  have db': "d\<lparr>db_tasks := update_where ?hit (claimed_row rq cand (db_clock d)) (db_tasks d)\<rparr>
      = claimed_db rq cand d"
    unfolding upd claimed_db_def put_task_def by simp
  have tok: "get_task_by_claim_token (c_token rq) (claimed_db rq cand d) = Inr (Some ?row)"
  proof -
    have "filter (\<lambda>t. t_claim_token t = Some (c_token rq)) (db_tasks (claimed_db rq cand d)) = [?row]"
      using filter_token_put [OF ids selD(1), of t_claim_token "c_token rq" ?row] fresh
      by (simp add: claimed_db_def put_task_def fresh_token_def)
    then show ?thesis by (simp add: get_task_by_claim_token_def scalar_one_or_none_def)
  qed
  show ?thesis
    by (simp add: sel Let_def pos db' tok)
qed

lemma claim_index_key_SomeD:
  assumes "claim_index_key a = Some (p, ty, ref)"
  shows "t_profile_id a = p" and "ty = employee_type" and "active_status (t_status a)"
    and "t_claim_owner_type a = Some ty" and "t_claim_owner_ref a = Some ref"
  using assms by (auto simp: claim_index_key_def split: option.splits if_splits)

lemma owner_index_key_Some_iff:
  "owner_index_key a = Some (p, ty, ref) \<longleftrightarrow>
     t_profile_id a = p \<and> t_owner_type a = ty \<and> t_owner_ref a = ref \<and> ty = employee_type
     \<and> active_status (t_status a)"
  by (auto simp: owner_index_key_def)

lemma candidate_owner_ref: "is_candidate rq rows t \<Longrightarrow> snd (claim_owner_of t) \<noteq> []"
  by (auto simp: is_candidate_def owner_work_candidate_def review_candidate_def claim_owner_of_def
      todo_candidate_def blocked_candidate_def)

lemma candidate_owner_type: "is_candidate rq rows t \<Longrightarrow> fst (claim_owner_of t) = employee_type"
  by (auto simp: is_candidate_def owner_work_candidate_def review_candidate_def claim_owner_of_def
      todo_candidate_def blocked_candidate_def)

text \<open>
  The candidate's claim owner is idle, so the index on claim owners accepts the claim; the
  index on owners accepts it unless the task's own owner has other active work.
\<close>

definition owner_busy :: "task list \<Rightarrow> task \<Rightarrow> bool" where
  "owner_busy rows c \<longleftrightarrow> t_owner_type c = employee_type \<and>
     (\<exists>a \<in> set rows. active_status (t_status a) \<and> t_profile_id a = t_profile_id c
        \<and> t_owner_type a = t_owner_type c \<and> t_owner_ref a = t_owner_ref c)"

lemma claimed_db_constraints:
  assumes tc: "task_constraints d" and sel: "select_candidate rq (db_tasks d) = Some c"
  shows "check_task_indexes (claimed_db rq c d) =
    (if owner_busy (db_tasks d) c then Inl (Integrity_Error ''ux_task_active_employee_owner'')
     else Inr ())"
proof -
  note selD = select_candidate_SomeD [OF sel]
  let ?row = "claimed_row rq c (db_clock d) c"
  have ids: "distinct (map t_id (db_tasks d))" and oi: "unique_index owner_index_key (db_tasks d)"
    and ci: "unique_index claim_index_key (db_tasks d)"
    using tc by (simp_all add: task_constraints_def)
  have rows: "db_tasks (claimed_db rq c d)
      = update_where (\<lambda>t. t_id t = t_id c) (\<lambda>_. ?row) (db_tasks d)"
    by (simp add: claimed_db_def put_task_def)
  have idle: "\<not> active_status (t_status c)"
    using claimable_not_active candidate_claimable [OF selD(2)] by blast
  have ids': "distinct (map t_id (db_tasks (claimed_db rq c d)))"
    using ids unfolding claimed_db_def map_id_put_task .
  have "unique_index claim_index_key (db_tasks (claimed_db rq c d))"
    unfolding rows unique_index_update_one [OF ci ids selD(1)]
  proof (intro allI impI ballI notI)
    fix x s
    assume x: "claim_index_key ?row = Some x" and s: "s \<in> set (db_tasks d)"
      and sk: "claim_index_key s = Some x"
    obtain p ty ref where xx: "x = (p, ty, ref)" by (cases x)
    note xD = claim_index_key_SomeD [OF x [unfolded xx]]
    note sD = claim_index_key_SomeD [OF sk [unfolded xx]]
    have "ref \<noteq> []" using xD(5) candidate_owner_ref [OF selD(2)] by simp
    then have "active_claim_owner_of s = (ty, ref)"
      using sD(2,4,5) by (simp add: active_claim_owner_of_def coalesce_text_def employee_type_def)
    also have "\<dots> = claim_owner_of c" using xD(4,5) by (simp add: prod_eq_iff)
    finally have "active_owner_exists (db_tasks d) c"
      unfolding active_owner_exists_def list_ex_iff using s sD(1,3) xD(1) by (metis claimed_row_sel(2))
    with selD(2) show False by (simp add: is_candidate_def)
  qed
  moreover have "unique_index owner_index_key (db_tasks (claimed_db rq c d))
      \<longleftrightarrow> \<not> owner_busy (db_tasks d) c"
  proof -
    have key: "owner_index_key ?row = Some x \<longleftrightarrow>
        x = (t_profile_id c, t_owner_type c, t_owner_ref c) \<and> t_owner_type c = employee_type" for x
      by (cases x) (auto simp: owner_index_key_Some_iff)
    have "(\<forall>s \<in> set (db_tasks d). t_id s \<noteq> t_id c \<longrightarrow>
           owner_index_key s \<noteq> Some (t_profile_id c, t_owner_type c, t_owner_ref c)) \<longleftrightarrow>
         \<not> (\<exists>a \<in> set (db_tasks d). active_status (t_status a) \<and> t_profile_id a = t_profile_id c
            \<and> t_owner_type a = t_owner_type c \<and> t_owner_ref a = t_owner_ref c)"
      if "t_owner_type c = employee_type"
      using idle distinct_key_eqD [OF ids _ selD(1)] that unfolding owner_index_key_Some_iff by metis
    then show ?thesis
      unfolding rows unique_index_update_one [OF oi ids selD(1)] key owner_busy_def by blast
  qed
  ultimately show ?thesis using ids' by (simp add: check_task_indexes_def)
qed

section \<open>The claim under interference\<close>

text \<open>
  Whatever is committed between selection and update, a returned row was claimable when the
  update ran, and the database it leaves satisfies the constraints.
\<close>

fun update_rounds :: "nat \<Rightarrow> (nat \<Rightarrow> db \<Rightarrow> db) \<Rightarrow> db \<Rightarrow> (db \<times> db) list" where
  "update_rounds 0 others d = []"
| "update_rounds (Suc n) others d = (d, others n d) # update_rounds n others (others n d)"

lemma claim_attempts_Some:
  assumes "claim_attempts n others rq d = Inr (d', Some t')"
    and "fresh_token (c_token rq) d"
    and "\<And>k e. fresh_token (c_token rq) e \<Longrightarrow> fresh_token (c_token rq) (others k e)"
  shows "\<exists>(d0, d1) \<in> set (update_rounds n others d). \<exists>cand t. select_candidate rq (db_tasks d0) = Some cand
    \<and> t \<in> set (db_tasks d1)
    \<and> still_claimable (c_now rq) (claim_owner_of cand) t
    \<and> t_id t = t_id cand
    \<and> t' = claimed_row rq cand (db_clock d1) t
    \<and> d' = put_task t' d1 \<and> task_constraints d'"
  using assms
proof (induction n arbitrary: d)
  case 0
  then show ?case by simp
next
  case (Suc n)
  obtain cand where sel: "select_candidate rq (db_tasks d) = Some cand"
    using Suc.prems(1) by (cases "select_candidate rq (db_tasks d)") simp_all
  let ?hit = "\<lambda>t. t_id t = t_id cand \<and> still_claimable (c_now rq) (claim_owner_of cand) t"
  define d1 where "d1 = others n d"
  have fr1: "fresh_token (c_token rq) d1" unfolding d1_def by (rule Suc.prems(3) [OF Suc.prems(2)])
  show ?case
  proof (cases "rowcount ?hit (db_tasks d1) = 0")
    case True
    with Suc.prems(1) sel have "claim_attempts n others rq d1 = Inr (d', Some t')"
      by (simp add: Let_def d1_def)
    from Suc.IH [OF this fr1 Suc.prems(3)] show ?thesis by (auto simp: d1_def)
  next
    case False
    define d2 where "d2 = d1\<lparr>db_tasks :=
        update_where ?hit (claimed_row rq cand (db_clock d1)) (db_tasks d1)\<rparr>"
    have "bindE (check_task_indexes d2) (\<lambda>_. bindE (get_task_by_claim_token (c_token rq) d2)
            (\<lambda>row. Inr (d2, row))) = Inr (d', Some t')"
      using Suc.prems(1) sel False unfolding d2_def d1_def by (simp add: Let_def)
    then have chk: "task_constraints d2" and tok: "get_task_by_claim_token (c_token rq) d2 = Inr (Some t')"
      and d': "d' = d2"
      unfolding bindE_eq_Inr_iff by auto
    have "filter (\<lambda>t. t_claim_token t = Some (c_token rq)) (db_tasks d2) = [t']"
      using tok unfolding get_task_by_claim_token_def scalar_one_or_none_def
      by (cases "filter (\<lambda>t. t_claim_token t = Some (c_token rq)) (db_tasks d2)")
        (simp_all split: list.splits)
    then have "t' \<in> set (filter (\<lambda>t. t_claim_token t = Some (c_token rq)) (db_tasks d2))"
      by simp
    then have t': "t' \<in> set (db_tasks d2)" "t_claim_token t' = Some (c_token rq)"
      by simp_all
    from t'(1) obtain t where t: "t \<in> set (db_tasks d1)"
      and tt: "t' = (if ?hit t then claimed_row rq cand (db_clock d1) t else t)"
      unfolding d2_def by (simp add: set_update_where) blast
    have "?hit t"
    proof (rule ccontr)
      assume "\<not> ?hit t"
      with tt have "t' = t" by simp
      with fr1 t t'(2) show False by (simp add: fresh_token_def)
    qed
    have "map t_id (db_tasks d2) = map t_id (db_tasks d1)"
      unfolding d2_def by (simp add: map_update_where claimed_row_def)
    with chk have ids: "distinct (map t_id (db_tasks d1))" by (metis ids_unique_def task_constraints_ids)
    have "update_where ?hit (claimed_row rq cand (db_clock d1)) (db_tasks d1)
        = update_where (\<lambda>r. t_id r = t_id t) (\<lambda>_. t') (db_tasks d1)"
      unfolding tt using \<open>?hit t\<close> by (subst update_where_single [OF ids t]) simp_all
    moreover have "t_id t' = t_id t" using tt \<open>?hit t\<close> by (simp add: claimed_row_def)
    ultimately have "d2 = put_task t' d1" by (simp add: d2_def put_task_def)
    with \<open>?hit t\<close> sel t tt chk d' show ?thesis by (auto simp: d1_def)
  qed
qed

section \<open>Guarded updates\<close>

text \<open>The operations a worker issues under its token.\<close>

datatype claim_op =
    Attach nat "string option" "string option"
  | Start instant
  | Refresh instant
  | Release_Expired instant "instant option" status "string option" "string option"
  | Release "instant option" status "string option" "string option"
  | Finalize final_values
  | Clear "nat option" "string option field" "string option field"

fun run_claim_op :: "claim_op \<Rightarrow> string \<Rightarrow> string \<Rightarrow> db \<Rightarrow> db \<times> bool" where
  "run_claim_op (Attach r s sp) i tok d = attach_task_run i tok r s sp d"
| "run_claim_op (Start at) i tok d = mark_task_started i tok at d"
| "run_claim_op (Refresh l) i tok d = refresh_task_claim i tok l d"
| "run_claim_op (Release_Expired now r st ec et) i tok d =
     release_expired_task_claim i tok now r st ec et d"
| "run_claim_op (Release r st ec et) i tok d = release_task_claim i tok r st ec et d"
| "run_claim_op (Finalize v) i tok d = finalize_task_claim i tok v d"
| "run_claim_op (Clear r ec et) i tok d = clear_task_claim i tok r ec et d"

text \<open>Every one is a guarded update: its WHERE clause and the values it sets.\<close>

fun op_guard :: "claim_op \<Rightarrow> string \<Rightarrow> string \<Rightarrow> task \<Rightarrow> bool" where
  "op_guard (Attach r s sp) i tok t = holds_claim i tok t"
| "op_guard (Start at) i tok t = (holds_claim i tok t \<and> t_status t = Claimed)"
| "op_guard (Release_Expired now r st ec et) i tok t =
     (holds_claim i tok t \<and> active_status (t_status t) \<and> due_at_or_before (t_lease_until t) now)"
| "op_guard (Clear r ec et) i tok t = holds_claim i tok t"
| "op_guard _ i tok t = (holds_claim i tok t \<and> active_status (t_status t))"

fun op_effect :: "claim_op \<Rightarrow> task \<Rightarrow> task" where
  "op_effect (Attach r s sp) t = t\<lparr>t_last_run_id := Some r,
     t_last_session_id := (case s of None \<Rightarrow> t_last_session_id t | Some x \<Rightarrow> Some x),
     t_last_session_profile_id :=
       (case sp of None \<Rightarrow> t_last_session_profile_id t | Some x \<Rightarrow> Some x)\<rparr>"
| "op_effect (Start at) t = t\<lparr>t_status := Running, t_started_at := Some at,
     t_current_attempt := t_current_attempt t + 1\<rparr>"
| "op_effect (Refresh l) t = t\<lparr>t_lease_until := Some l\<rparr>"
| "op_effect (Release_Expired now r st ec et) t = released_row st r ec et t"
| "op_effect (Release r st ec et) t = released_row st r ec et t"
| "op_effect (Finalize v) t = finalized_row v t"
| "op_effect (Clear r ec et) t = (clear_claim_columns t)\<lparr>
     t_last_run_id := (case r of None \<Rightarrow> t_last_run_id t | Some x \<Rightarrow> Some x),
     t_last_error_code := field_or ec (t_last_error_code t),
     t_last_error_text := field_or et (t_last_error_text t)\<rparr>"

lemma guarded_update_cong:
  assumes "\<And>t. p t = q t" and "\<And>t. f t = g t"
  shows "guarded_update p f d = guarded_update q g d"
proof -
  have "p = q" and "f = g" by (rule ext, rule assms)+
  then show ?thesis by simp
qed

lemmas claim_op_defs = attach_task_run_def mark_task_started_def refresh_task_claim_def
  release_expired_task_claim_def release_task_claim_def finalize_task_claim_def clear_task_claim_def

lemma run_claim_op_eq: "run_claim_op x i tok d = guarded_update (op_guard x i tok) (op_effect x) d"
  by (cases x; simp only: run_claim_op.simps claim_op_defs; rule guarded_update_cong; simp)

lemma op_guardD: "op_guard x i tok t \<Longrightarrow> t_id t = i \<and> t_claim_token t = Some tok"
  by (cases x) (simp_all add: holds_claim_def)

lemma released_row_sel [simp]:
  "t_id (released_row st r ec et t) = t_id t"
  "t_profile_id (released_row st r ec et t) = t_profile_id t"
  "t_owner_type (released_row st r ec et t) = t_owner_type t"
  "t_owner_ref (released_row st r ec et t) = t_owner_ref t"
  "t_status (released_row st r ec et t) = st"
  "t_claim_token (released_row st r ec et t) = None"
  "t_ready_at (released_row st r ec et t) = r"
  by (simp_all add: released_row_def clear_claim_columns_def)

lemma finalized_row_sel [simp]:
  "t_id (finalized_row v t) = t_id t"
  "t_profile_id (finalized_row v t) = t_profile_id t"
  "t_owner_type (finalized_row v t) = t_owner_type t"
  "t_owner_ref (finalized_row v t) = t_owner_ref t"
  "t_status (finalized_row v t) = v_status v"
  "t_claim_token (finalized_row v t) = None"
  "t_finished_at (finalized_row v t) = Some (v_finished_at v)"
  by (simp_all add: finalized_row_def clear_claim_columns_def)

lemma op_effect_frame [simp]:
  "t_id (op_effect x t) = t_id t"
  "t_profile_id (op_effect x t) = t_profile_id t"
  "t_owner_type (op_effect x t) = t_owner_type t"
  "t_owner_ref (op_effect x t) = t_owner_ref t"
  by (cases x; simp)+

lemma op_effect_token: "t_claim_token (op_effect x t) = t_claim_token t \<or> t_claim_token (op_effect x t) = None"
  by (cases x) (simp_all add: clear_claim_columns_def)

lemma set_guarded_update:
  "u \<in> set (db_tasks (fst (guarded_update p f d))) \<longleftrightarrow>
     (\<exists>t \<in> set (db_tasks d). u = (if p t then (f t)\<lparr>t_updated_at := db_clock d\<rparr> else t))"
  by (simp add: guarded_update_def set_update_where)

lemma snd_guarded_update: "snd (guarded_update p f d) \<longleftrightarrow> (\<exists>t \<in> set (db_tasks d). p t)"
  by (simp add: guarded_update_def rowcount_pos_iff)

interpretation claim: lease "\<lambda>d::db. set (db_tasks d)" t_id t_claim_token run_claim_op
proof unfold_locales
  fix r k t x and d :: db
  assume "r \<in> set (db_tasks d)" and "\<not> (t_id r = k \<and> t_claim_token r = Some t)"
  then have "r \<in> set (db_tasks d)" and "\<not> op_guard x k t r" using op_guardD by blast+
  then show "r \<in> set (db_tasks (fst (run_claim_op x k t d)))"
    unfolding run_claim_op_eq set_guarded_update by metis
next
  fix r x k t and d :: db
  assume r: "r \<in> set (db_tasks (fst (run_claim_op x k t d)))" and new: "r \<notin> set (db_tasks d)"
  from r obtain u where u: "u \<in> set (db_tasks d)"
    and ru: "r = (if op_guard x k t u then (op_effect x u)\<lparr>t_updated_at := db_clock d\<rparr> else u)"
    unfolding run_claim_op_eq set_guarded_update by blast
  have g: "op_guard x k t u" using new u ru by metis
  then have "r = (op_effect x u)\<lparr>t_updated_at := db_clock d\<rparr>" using ru by simp
  with u op_guardD [OF g] op_effect_token [of x u]
  show "(\<exists>r0 \<in> set (db_tasks d). t_id r0 = k \<and> t_claim_token r0 = Some t) \<and> t_id r = k
      \<and> (t_claim_token r = Some t \<or> t_claim_token r = None)"
    by auto
next
  fix x k t and d :: db
  assume "snd (run_claim_op x k t d)"
  then show "\<exists>r \<in> set (db_tasks d). t_id r = k \<and> t_claim_token r = Some t"
    unfolding run_claim_op_eq snd_guarded_update using op_guardD by blast
qed

section \<open>The claim as one equation\<close>

lemma claim_quiet:
  assumes "task_constraints d" and "fresh_token (c_token rq) d"
  shows "claim_next_runnable_task (\<lambda>_ d. d) rq d =
    (case select_candidate rq (db_tasks d) of
       None \<Rightarrow> Inr (d, None)
     | Some c \<Rightarrow>
         (if owner_busy (db_tasks d) c then Inl (Integrity_Error ''ux_task_active_employee_owner'')
          else Inr (claimed_db rq c d, Some (claimed_row rq c (db_clock d) c))))"
proof (cases "select_candidate rq (db_tasks d)")
  case None
  then show ?thesis by (simp add: claim_next_runnable_task_def numeral_3_eq_3)
next
  case (Some c)
  then show ?thesis
    unfolding claim_next_runnable_task_def numeral_3_eq_3 claim_attempt_quiet [OF assms Some]
    by (simp add: claimed_db_constraints [OF assms(1) Some])
qed

lemma selected_first_of_owner:
  assumes "select_candidate rq rows = Some t" and "u \<in> set rows" and "is_candidate rq rows u"
    and "same_partition t u"
  shows "task_claim_base_ordering t \<le> task_claim_base_ordering u"
proof -
  let ?c = "runnable_candidates rq rows"
  have m: "min_on task_claim_base_ordering (filter (same_partition t) ?c) = Some t"
    using select_candidate_SomeD(3) [OF assms(1)] by (simp add: owner_rank_one_def)
  have "u \<in> set (filter (same_partition t) ?c)"
    using assms(2-4) by (simp add: runnable_candidates_def)
  with min_on_SomeD(2) [OF m] show ?thesis .
qed

section \<open>Properties\<close>

text \<open>Data the concrete instances below run on.\<close>

definition example_request :: claim_request where
  "example_request = \<lparr>c_now = 100, c_lease_until = 900, c_token = ''t1'', c_worker = ''w'',
     c_profile = None, c_owner_ref = None\<rparr>"

lemma two_tasks_ok: "task_constraints two_tasks" "fresh_token (c_token example_request) two_tasks"
  by (simp_all add: two_tasks_def urgent_task_def example_db_def example_task_def task_defaults_def
      task_constraints_def owner_index_key_def claim_index_key_def fresh_token_def)

text \<open>C1 A worker that claims while nobody interferes gets a runnable task, marked as claimed
  under its token, and no runnable task of the table is more urgent (higher priority, then
  earlier due date) than it; among the tasks of the same executor it is the first of the whole
  scheduling order.\<close>

theorem claim_takes_most_urgent:
  assumes "task_constraints d" and "fresh_token (c_token rq) d"
    and "claim_next_runnable_task (\<lambda>_ d. d) rq d = Inr (d', Some t')"
  shows "\<exists>t \<in> set (db_tasks d). is_candidate rq (db_tasks d) t
     \<and> t' = claimed_row rq t (db_clock d) t \<and> d' = put_task t' d
     \<and> (\<forall>u \<in> set (db_tasks d). is_candidate rq (db_tasks d) u \<longrightarrow> urgency t \<le> urgency u)
     \<and> (\<forall>u \<in> set (db_tasks d). is_candidate rq (db_tasks d) u \<longrightarrow> same_partition t u \<longrightarrow>
          task_claim_base_ordering t \<le> task_claim_base_ordering u)"
proof (cases "select_candidate rq (db_tasks d)")
  case None
  with assms show ?thesis by (simp add: claim_quiet)
next
  case (Some t)
  have t': "t' = claimed_row rq t (db_clock d) t" and d': "d' = put_task t' d"
    using assms(3) by (auto simp: claim_quiet [OF assms(1,2)] Some claimed_db_def split: if_splits)
  with select_candidate_SomeD(1,2) [OF Some] select_candidate_most_urgent [OF Some]
    selected_first_of_owner [OF Some]
  show ?thesis by blast
qed

lemma two_tasks_claim:
  "claim_next_runnable_task (\<lambda>_ d. d) example_request two_tasks =
     Inr (claimed_db example_request urgent_task two_tasks, Some (claimed_row example_request urgent_task 5 urgent_task))"
proof -
  have "select_candidate example_request (db_tasks two_tasks) = Some urgent_task" by code_simp
  moreover have "\<not> owner_busy (db_tasks two_tasks) urgent_task"
    by (simp add: owner_busy_def two_tasks_def example_db_def example_task_def urgent_task_def task_defaults_def)
  ultimately show ?thesis by (simp add: claim_quiet [OF two_tasks_ok]) (simp add: two_tasks_def example_db_def)
qed

theorem claim_takes_most_urgent_witness:
  "\<exists>t \<in> set (db_tasks two_tasks). is_candidate example_request (db_tasks two_tasks) t
     \<and> claimed_row example_request urgent_task 5 urgent_task = claimed_row example_request t (db_clock two_tasks) t
     \<and> (\<forall>u \<in> set (db_tasks two_tasks). is_candidate example_request (db_tasks two_tasks) u \<longrightarrow>
          urgency t \<le> urgency u)"
  using claim_takes_most_urgent [OF two_tasks_ok two_tasks_claim] by blast

text \<open>A claim without interference comes back empty exactly when the table holds no runnable
  task in the worker's scope, and it then changes nothing.\<close>

theorem claim_empty_iff_no_candidate:
  assumes "task_constraints d" and "fresh_token (c_token rq) d"
  shows "claim_next_runnable_task (\<lambda>_ d. d) rq d = Inr (d', None) \<longleftrightarrow>
     d' = d \<and> (\<forall>t \<in> set (db_tasks d). \<not> is_candidate rq (db_tasks d) t)"
  unfolding claim_quiet [OF assms] select_candidate_None_iff [symmetric]
  by (auto split: option.split)

theorem claim_empty_iff_no_candidate_witness:
  "claim_next_runnable_task (\<lambda>_ d. d) example_request (example_db [] []) = Inr (example_db [] [], None)"
  using claim_empty_iff_no_candidate [of "example_db [] []" example_request "example_db [] []"]
  by (simp add: example_db_def task_constraints_def fresh_token_def)

text \<open>The claim fails with the index on active owners exactly when the owner of the task it
  selects has other active work, although that work is done by somebody else (a reviewer).\<close>

theorem claim_fails_iff_owner_busy:
  assumes "task_constraints d" and "fresh_token (c_token rq) d"
  shows "claim_next_runnable_task (\<lambda>_ d. d) rq d = Inl e \<longleftrightarrow>
     e = Integrity_Error ''ux_task_active_employee_owner''
     \<and> (\<exists>c. select_candidate rq (db_tasks d) = Some c \<and> owner_busy (db_tasks d) c)"
  unfolding claim_quiet [OF assms] by (auto split: option.split)

text \<open>Ann's first task is under review by Bob; her second one is the most urgent.\<close>

definition reviewed_task :: task where
  "reviewed_task = (example_task ''r'')\<lparr>t_status := Running, t_claim_token := Some ''t0'',
     t_claim_owner_type := Some employee_type, t_claim_owner_ref := Some ''bob'',
     t_claim_source_status := Some Review, t_claimed_by := Some ''w0'', t_lease_until := Some 500\<rparr>"

definition other_task :: task where
  "other_task = (example_task ''c'')\<lparr>t_owner_ref := ''carl''\<rparr>"

definition busy_owner_db :: db where
  "busy_owner_db = example_db [reviewed_task, urgent_task, other_task] []"

lemma busy_owner_db_ok: "task_constraints busy_owner_db"
  by (simp add: busy_owner_db_def reviewed_task_def urgent_task_def other_task_def example_db_def
      example_task_def task_defaults_def task_constraints_def owner_index_key_def claim_index_key_def)

lemma busy_owner_db_fresh:
  "t_claim_token reviewed_task \<noteq> Some tok \<Longrightarrow> fresh_token tok busy_owner_db"
  by (simp add: busy_owner_db_def reviewed_task_def urgent_task_def other_task_def example_db_def
      example_task_def task_defaults_def fresh_token_def)

lemma busy_owner_selected:
  "select_candidate example_request (db_tasks busy_owner_db) = Some urgent_task"
  by code_simp

lemma busy_owner_busy: "owner_busy (db_tasks busy_owner_db) urgent_task"
  by (simp add: owner_busy_def busy_owner_db_def example_db_def reviewed_task_def
      example_task_def urgent_task_def task_defaults_def)

theorem claim_fails_iff_owner_busy_witness:
  "claim_next_runnable_task (\<lambda>_ d. d) example_request busy_owner_db =
     Inl (Integrity_Error ''ux_task_active_employee_owner'')
   \<and> is_candidate example_request (db_tasks busy_owner_db) other_task"
proof
  have "fresh_token (c_token example_request) busy_owner_db"
    by (rule busy_owner_db_fresh) (simp add: reviewed_task_def example_request_def)
  from claim_fails_iff_owner_busy [OF busy_owner_db_ok this,
      of "Integrity_Error ''ux_task_active_employee_owner''"]
  show "claim_next_runnable_task (\<lambda>_ d. d) example_request busy_owner_db =
     Inl (Integrity_Error ''ux_task_active_employee_owner'')"
    using busy_owner_selected busy_owner_busy by simp
  show "is_candidate example_request (db_tasks busy_owner_db) other_task" by code_simp
qed

text \<open>C4 Whatever other sessions commit between the selection and the update of an attempt, a
  claim that returns a task made exactly one change, to the table as those sessions had left it: in
  that very table the task was still claimable (not active, and its owner, reviewer and readiness
  still made it the work of the executor it was selected for), it is that row that now carries the
  claim, every other row is untouched, and the constraints of the table hold.\<close>

theorem claim_safe_under_interference:
  assumes "claim_next_runnable_task others rq d = Inr (d', Some t')"
    and "fresh_token (c_token rq) d"
    and "\<And>k e. fresh_token (c_token rq) e \<Longrightarrow> fresh_token (c_token rq) (others k e)"
  shows "\<exists>(d0, d1) \<in> set (update_rounds 3 others d). \<exists>cand t. select_candidate rq (db_tasks d0) = Some cand
    \<and> t \<in> set (db_tasks d1) \<and> t_id t = t_id cand
    \<and> still_claimable (c_now rq) (claim_owner_of cand) t \<and> \<not> active_status (t_status t)
    \<and> t' = claimed_row rq cand (db_clock d1) t \<and> d' = put_task t' d1 \<and> task_constraints d'"
  using claim_attempts_Some [OF assms(1) [unfolded claim_next_runnable_task_def] assms(2,3)] claimable_not_active
  by fast

text \<open>The selected task is taken by somebody else before the first update.\<close>

definition steal :: "nat \<Rightarrow> db \<Rightarrow> db" where
  "steal k d = (if k = 2 then put_task (urgent_task\<lparr>t_status := Cancelled\<rparr>) d else d)"

lemma steal_claims:
  "claim_next_runnable_task steal example_request two_tasks =
     Inr (claimed_db example_request (example_task ''a'') (steal 2 two_tasks),
          Some (claimed_row example_request (example_task ''a'') 5 (example_task ''a'')))"
  by code_simp

theorem claim_safe_under_interference_witness:
  "\<exists>(d0, d1) \<in> set (update_rounds 3 steal two_tasks). \<exists>cand t. select_candidate example_request (db_tasks d0) = Some cand
    \<and> t \<in> set (db_tasks d1) \<and> still_claimable 100 (claim_owner_of cand) t
    \<and> claimed_db example_request (example_task ''a'') (steal 2 two_tasks)
      = put_task (claimed_row example_request (example_task ''a'') 5 (example_task ''a'')) d1"
proof -
  have fr: "fresh_token (c_token example_request) (steal k e)"
    if "fresh_token (c_token example_request) e" for k e
    using that
    by (auto simp: steal_def fresh_token_def set_put_task urgent_task_def example_task_def
        task_defaults_def split: if_splits)
  have now: "c_now example_request = 100" by (simp add: example_request_def)
  from claim_safe_under_interference [OF steal_claims two_tasks_ok(2) fr]
  show ?thesis unfolding now by fast
qed

text \<open>Operations after which the worker's token is on no row it named.\<close>

fun gives_up :: "claim_op \<Rightarrow> bool" where
  "gives_up (Attach r s sp) = False"
| "gives_up (Start at) = False"
| "gives_up (Refresh l) = False"
| "gives_up _ = True"

lemma gives_up_token: "gives_up x \<Longrightarrow> t_claim_token (op_effect x t) = None"
  by (cases x) (simp_all add: clear_claim_columns_def)

lemma gives_up_not_held:
  assumes uniq: "unique_index t_claim_token (db_tasks d)" and gu: "gives_up x"
    and ok: "snd (run_claim_op x i tok d)"
  shows "\<not> claim.held tok (fst (run_claim_op x i tok d))"
  unfolding claim.held_def
proof (intro notI, elim bexE)
  fix r assume r: "r \<in> set (db_tasks (fst (run_claim_op x i tok d)))" and rt: "t_claim_token r = Some tok"
  from ok obtain h where h: "h \<in> set (db_tasks d)" and gh: "op_guard x i tok h"
    unfolding run_claim_op_eq snd_guarded_update by blast
  from r obtain u where u: "u \<in> set (db_tasks d)"
    and ru: "r = (if op_guard x i tok u then (op_effect x u)\<lparr>t_updated_at := db_clock d\<rparr> else u)"
    unfolding run_claim_op_eq set_guarded_update by blast
  show False
  proof (cases "op_guard x i tok u")
    case True
    with ru have "t_claim_token r = t_claim_token (op_effect x u)" by simp
    with gives_up_token [OF gu, of u] rt show False by simp
  next
    case False
    with ru rt have "t_claim_token u = Some tok" by simp
    then have "u = h" using unique_index_eqD [OF uniq u h] op_guardD [OF gh] by simp
    with gh False show False by simp
  qed
qed

text \<open>A worker whose token no task carries any more (its lease was swept, or it finished)
  changes no task, whatever sequence of attach, start, heartbeat, release, finalise and clear
  updates it still sends.\<close>

theorem lost_claim_changes_nothing:
  assumes "\<not> claim.held tok d" and "\<forall>c \<in> set cs. snd (snd c) = tok"
  shows "set (db_tasks (claim.runs cs d)) = set (db_tasks d)"
  by (rule claim.stale_runs [OF assms])

theorem lost_claim_changes_nothing_witness:
  "set (db_tasks (claim.runs [(Start 7, ''r'', ''old''), (Release None Todo None None, ''r'', ''old'')]
     busy_owner_db)) = set (db_tasks busy_owner_db)"
  by (rule lost_claim_changes_nothing [of "''old''"])
    (simp_all add: claim.held_def busy_owner_db_def example_db_def reviewed_task_def urgent_task_def
      other_task_def example_task_def task_defaults_def)

text \<open>C5 A claimed task is moved only under its own token: no sequence of guarded updates by
  holders of other tokens changes its row.\<close>

theorem claim_is_exclusive:
  assumes "t \<in> set (db_tasks d)" and "t_claim_token t = Some tok"
    and "\<forall>c \<in> set cs. snd (snd c) \<noteq> tok"
  shows "t \<in> set (db_tasks (claim.runs cs d))"
  by (rule claim.exclusive_runs [OF assms])

theorem claim_is_exclusive_witness:
  "reviewed_task \<in> set (db_tasks (claim.runs
     [(Clear None Unset Unset, ''r'', ''t9''), (Release None Todo None None, ''r'', ''t9'')] busy_owner_db))"
  by (rule claim_is_exclusive [of _ _ "''t0''"])
    (simp_all add: busy_owner_db_def example_db_def reviewed_task_def)

text \<open>A claim is started at most once: after a start that took effect, a second start under
  the same token takes none.\<close>

theorem start_at_most_once:
  assumes "mark_task_started i tok at d = (d', True)"
  shows "snd (mark_task_started i tok at' d') = False"
proof -
  let ?p = "\<lambda>t. holds_claim i tok t \<and> t_status t = Claimed"
  have d': "d' = fst (run_claim_op (Start at) i tok d)" using assms by simp
  have "\<not> ?p u" if "u \<in> set (db_tasks d')" for u
  proof -
    from that obtain t where "u = (if ?p t then (op_effect (Start at) t)\<lparr>t_updated_at := db_clock d\<rparr> else t)"
      unfolding d' run_claim_op_eq set_guarded_update by auto
    then show ?thesis by auto
  qed
  then show ?thesis by (auto simp: mark_task_started_def guarded_update_def rowcount_0_iff rowcount_pos_iff)
qed

theorem start_at_most_once_witness:
  "snd (mark_task_started ''b'' ''t1'' 9
     (fst (mark_task_started ''b'' ''t1'' 7 (claimed_db example_request urgent_task two_tasks)))) = False"
proof -
  have "snd (mark_task_started ''b'' ''t1'' 7 (claimed_db example_request urgent_task two_tasks))"
    by code_simp
  then show ?thesis using start_at_most_once [of "''b''" "''t1''" 7] by (simp add: prod_eq_iff)
qed

end
