(* ===== verification/Task_Update.thy ===== *)
theory Task_Update
  imports Task_Events Task_Claims
begin

text \<open>
  TaskFlowService.update_task and block_task (afkbot/services/task_flow/service.py): the
  normalisation of the arguments, the guards and effective values computed from the current
  row, and the write with its reconciliation, events and escalation. A failed operation
  returns its error and the transaction is rolled back.
\<close>

section \<open>Arguments\<close>

record update_args =
  ua_title :: "string option"
  ua_description :: "string option"
  ua_status :: "string option"
  ua_priority :: "int option"
  ua_due_at :: "instant option"
  ua_ready_at :: "instant option field"
  ua_owner_type :: "string option"
  ua_owner_ref :: "string option"
  ua_reviewer_type :: "string option field"
  ua_reviewer_ref :: "string option field"
  ua_requires_review :: "bool option"
  ua_labels :: "string list option"
  ua_session_id :: "string option field"
  ua_session_profile_id :: "string option field"
  ua_blocked_code :: "string option field"
  ua_blocked_text :: "string option field"
  ua_attachments :: "new_attachment list"

definition no_update :: update_args where
  "no_update = \<lparr>ua_title = None, ua_description = None, ua_status = None, ua_priority = None,
     ua_due_at = None, ua_ready_at = Unset, ua_owner_type = None, ua_owner_ref = None,
     ua_reviewer_type = Unset, ua_reviewer_ref = Unset, ua_requires_review = None,
     ua_labels = None, ua_session_id = Unset, ua_session_profile_id = Unset,
     ua_blocked_code = Unset, ua_blocked_text = Unset, ua_attachments = []\<rparr>"

record update_values =
  uv_title :: "string option"
  uv_description :: "string option"
  uv_status :: "status option"
  uv_priority :: "int option"
  uv_due_at :: "instant option"
  uv_ready_arg :: "instant option field"
  uv_ready_at :: "instant option field"
  uv_owner_type :: "string option"
  uv_owner_ref :: "string option"
  uv_reviewer_type :: "string option field"
  uv_reviewer_ref :: "string option field"
  uv_requires_review :: "bool option"
  uv_labels :: "string list option"
  uv_session_id :: "string option field"
  uv_session_profile_id :: "string option field"
  uv_blocked_code :: "string option field"
  uv_blocked_text :: "string option field"
  uv_attachments :: "new_attachment list"

fun map_given :: "('a \<Rightarrow> 'b) \<Rightarrow> 'a field \<Rightarrow> 'b field" where
  "map_given f Unset = Unset"
| "map_given f (Given x) = Given (f x)"

fun given_value :: "'a option field \<Rightarrow> 'a option" where
  "given_value Unset = None"
| "given_value (Given x) = x"

text \<open>\<open>field not in {UNSET, None}\<close>.\<close>

fun is_value :: "'a option field \<Rightarrow> bool" where
  "is_value (Given (Some _)) = True"
| "is_value _ = False"

definition option_E :: "('a \<Rightarrow> 'b res) \<Rightarrow> 'a option \<Rightarrow> 'b option res" where
  "option_E f o' = (case o' of None \<Rightarrow> Inr None | Some x \<Rightarrow> bindE (f x) (\<lambda>y. Inr (Some y)))"

definition normalize_actor :: "actor \<Rightarrow> actor" where
  "normalize_actor a = \<lparr>ac_type = normalize_optional_text (ac_type a),
     ac_ref = normalize_optional_text (ac_ref a),
     ac_session = map_given normalize_optional_text (ac_session a)\<rparr>"

definition check_actor_pair :: "actor \<Rightarrow> unit res" where
  "check_actor_pair a =
     (if ac_type a \<noteq> None \<or> ac_ref a \<noteq> None
      then validate_actor_pair (ac_type a) (ac_ref a) False else Inr ())"

definition check_owner_pair :: "string option \<Rightarrow> string option \<Rightarrow> unit res" where
  "check_owner_pair ty ref =
     (if ty \<noteq> None \<or> ref \<noteq> None then validate_owner_pair ty ref False else Inr ())"

section \<open>Normalisation\<close>

definition escalation_update :: "string option field \<Rightarrow> string option field \<Rightarrow> bool" where
  "escalation_update code text =
     ((code \<noteq> Unset \<or> text \<noteq> Unset)
      \<and> requires_manager_escalation_blocker (given_value code) (given_value text))"

definition normalize_update :: "env \<Rightarrow> actor \<Rightarrow> update_args \<Rightarrow> update_values res" where
  "normalize_update env a u =
     bindE (option_E normalize_status (ua_status u)) (\<lambda>st.
     bindE (option_E (\<lambda>t. normalize_required_text (Some t) ''title'') (ua_title u)) (\<lambda>title.
     bindE (normalize_task_description (ua_description u) False) (\<lambda>description.
     let code0 = map_given normalize_optional_text (ua_blocked_code u);
         text = map_given normalize_optional_text (ua_blocked_text u);
         sess = map_given normalize_optional_text (ua_session_id u);
         sess_prof0 = map_given normalize_optional_text (ua_session_profile_id u);
         sess_prof = (if sess = Given None then Given None else sess_prof0);
         escalation = escalation_update code0 text;
         code = (if escalation \<and> (case code0 of Given (Some c) \<Rightarrow> c \<notin> set manager_escalation_codes
                                   | _ \<Rightarrow> True)
                 then Given (Some ''manager_reassignment_required'') else code0);
         ready = (if escalation \<and> ua_ready_at u = Unset then Given None else ua_ready_at u);
         oty = normalize_task_owner_type (ua_owner_type u);
         oref = normalize_optional_text (ua_owner_ref u);
         rty = map_given normalize_task_owner_type (ua_reviewer_type u);
         rref = map_given normalize_optional_text (ua_reviewer_ref u)
     in
     bindE (guardE (\<not> (sess_prof0 \<noteq> Unset \<and> sess = Unset))
              (Service_Error ''task_session_profile_requires_session_id'')) (\<lambda>_.
     bindE (guardE (\<not> (code0 = Given (Some ''dependency_wait'') \<and> is_value (ua_ready_at u)))
              (Service_Error ''task_dependency_wait_ready_at_conflict'')) (\<lambda>_.
     bindE (guardE (\<not> (escalation \<and> is_value (ua_ready_at u)))
              (Service_Error ''task_manager_escalation_ready_at_conflict'')) (\<lambda>_.
     bindE (check_owner_pair oty oref) (\<lambda>_.
     bindE (if rty \<noteq> Unset \<or> rref \<noteq> Unset
            then validate_owner_pair (given_value rty) (given_value rref) True else Inr ()) (\<lambda>_.
     bindE (check_actor_pair (normalize_actor a)) (\<lambda>_.
     bindE (ensure_public_principal_identity env (normalize_actor a) ''task_actor_required'') (\<lambda>_.
     Inr \<lparr>uv_title = title, uv_description = description, uv_status = st,
          uv_priority = ua_priority u, uv_due_at = ua_due_at u, uv_ready_arg = ua_ready_at u,
          uv_ready_at = ready, uv_owner_type = oty, uv_owner_ref = oref, uv_reviewer_type = rty,
          uv_reviewer_ref = rref, uv_requires_review = ua_requires_review u,
          uv_labels = ua_labels u, uv_session_id = sess, uv_session_profile_id = sess_prof,
          uv_blocked_code = code, uv_blocked_text = text,
          uv_attachments = ua_attachments u\<rparr>))))))))))"

section \<open>Guards and effective values\<close>

definition owner_changed :: "update_values \<Rightarrow> task \<Rightarrow> bool" where
  "owner_changed v row =
     ((uv_owner_type v \<noteq> None \<and> uv_owner_type v \<noteq> Some (t_owner_type row))
      \<or> (uv_owner_ref v \<noteq> None \<and> uv_owner_ref v \<noteq> Some (t_owner_ref row)))"

definition effective_status :: "update_values \<Rightarrow> task \<Rightarrow> status option" where
  "effective_status v row =
     (if owner_changed v row \<and> uv_status v = None \<and> active_status (t_status row)
      then Some Todo else uv_status v)"

definition resolve_session_profile :: "string \<Rightarrow> string option \<Rightarrow> string" where
  "resolve_session_profile profile_id fallback =
     (let f = strip (str_or_empty fallback) in if f \<noteq> [] then f else profile_id)"

text \<open>
  The blocker columns and revisit time to write: an existing manager blocker is kept, and only
  a human or the responsible manager may resolve it.
\<close>

definition resolve_blocker ::
    "env \<Rightarrow> string \<Rightarrow> actor \<Rightarrow> update_values \<Rightarrow> task \<Rightarrow> status
     \<Rightarrow> (string option field \<times> string option field \<times> instant option field) res" where
  "resolve_blocker env profile_id a v row after =
     (let existing = (t_status row = Blocked
            \<and> requires_manager_escalation_blocker (t_blocked_reason_code row) (t_blocked_reason_text row));
          preserving = (existing \<and> after = Blocked \<and> uv_blocked_code v = Unset
            \<and> uv_blocked_text v = Unset)
      in if preserving then
           (if is_value (uv_ready_arg v)
            then service_error ''task_manager_escalation_ready_at_conflict''
            else Inr (Given (t_blocked_reason_code row), Given (t_blocked_reason_text row), Given None))
         else if existing \<and> after \<noteq> Blocked then
           bindE (task_actor_has_manager_scope env row profile_id (ac_type a) (ac_ref a)) (\<lambda>scope.
             if scope then Inr (uv_blocked_code v, uv_blocked_text v, uv_ready_at v)
             else service_error ''task_manager_escalation_resolution_forbidden'')
         else Inr (uv_blocked_code v, uv_blocked_text v, uv_ready_at v))"

text \<open>The session columns to write, after their guards.\<close>

definition resolve_session ::
    "env \<Rightarrow> string \<Rightarrow> actor \<Rightarrow> string option field \<Rightarrow> string option field \<Rightarrow> task \<Rightarrow> db
     \<Rightarrow> string option field res" where
  "resolve_session env profile_id a sess sess_prof row d =
     (case sess of
        Unset \<Rightarrow> Inr Unset
      | Given s \<Rightarrow>
          (let eff = (if s = None then None
                      else (case sess_prof of
                              Unset \<Rightarrow> Some (resolve_session_profile (t_profile_id row) None)
                            | Given p \<Rightarrow> p))
           in bindE (case eff of None \<Rightarrow> Inr () | Some p \<Rightarrow> ensure_profile_exists p d) (\<lambda>_.
              bindE (ensure_public_session_binding_allowed env profile_id a (Given s) (Given eff)) (\<lambda>_.
              Inr (Given eff)))))"

definition active_ai_guards ::
    "string \<Rightarrow> actor \<Rightarrow> update_values \<Rightarrow> task \<Rightarrow> string option \<Rightarrow> db \<Rightarrow> unit res" where
  "active_ai_guards profile_id a v row session_text d =
     (let oty = opt_or (uv_owner_type v) (t_owner_type row);
          oref = opt_or (uv_owner_ref v) (t_owner_ref row);
          st = effective_status v row; after = opt_or st (t_status row)
      in bindE (guardE (\<not> (ac_type a = Some ''automation'' \<and> active_status after))
                  (Service_Error ''task_session_binding_forbidden'')) (\<lambda>_.
         bindE (guardE (\<not> (is_ai_executor_owner_type (Some oty) \<and> active_status after
                          \<and> session_text = None))
                  (Service_Error ''task_session_required'')) (\<lambda>_.
         guardE (\<not> (is_ai_executor_owner_type (Some oty)
                   \<and> (case st of None \<Rightarrow> False | Some s \<Rightarrow> active_status s)
                   \<and> has_active_ai_task profile_id oty oref (Some (t_id row)) d))
           (Service_Error ''task_owner_active_conflict''))))"

text \<open>The keyword arguments of the row update.\<close>

definition update_patch ::
    "update_values \<Rightarrow> status option \<Rightarrow> string option field \<Rightarrow> string option field
     \<Rightarrow> string option field \<times> string option field \<times> instant option field \<Rightarrow> task_patch" where
  "update_patch v st sess eff_prof blocker =
     \<lparr>p_title = uv_title v, p_description = uv_description v, p_status = st,
      p_priority = uv_priority v, p_due_at = uv_due_at v, p_ready_at = snd (snd blocker),
      p_owner_type = uv_owner_type v, p_owner_ref = uv_owner_ref v,
      p_reviewer_type = uv_reviewer_type v, p_reviewer_ref = uv_reviewer_ref v,
      p_requires_review = uv_requires_review v,
      p_labels = map_option (\<lambda>l. normalize_labels (Some l)) (uv_labels v),
      p_last_session_id = sess, p_last_session_profile_id = eff_prof,
      p_blocked_reason_code = fst blocker, p_blocked_reason_text = fst (snd blocker)\<rparr>"

definition update_task_plan ::
    "env \<Rightarrow> instant \<Rightarrow> string \<Rightarrow> string \<Rightarrow> actor \<Rightarrow> update_values \<Rightarrow> db
     \<Rightarrow> (task \<times> status option \<times> task_patch) res" where
  "update_task_plan env now profile_id task_id a v d =
     bindE (ensure_profile_exists profile_id d) (\<lambda>_.
     bindE (ensure_public_ai_principal_session env now profile_id a ''task_actor_required'' d) (\<lambda>_.
     bindE (ensure_principal_exists env (Some profile_id) (ac_type a) (ac_ref a) d) (\<lambda>_.
     case get_task profile_id task_id d of
       None \<Rightarrow> service_error ''task_not_found''
     | Some row \<Rightarrow>
         bindE (ensure_task_actor_can_manage env row profile_id (ac_type a) (ac_ref a)) (\<lambda>_.
         let changed = owner_changed v row;
             oty = opt_or (uv_owner_type v) (t_owner_type row);
             oref = opt_or (uv_owner_ref v) (t_owner_ref row);
             rty = field_or (uv_reviewer_type v) (t_reviewer_type row);
             rref = field_or (uv_reviewer_ref v) (t_reviewer_ref row);
             st = effective_status v row;
             after = opt_or st (t_status row);
             sess = (if changed \<and> uv_session_id v = Unset then Given None else uv_session_id v);
             sess_prof = (if changed \<and> uv_session_id v = Unset then Given None
                          else uv_session_profile_id v);
             session_text = normalize_optional_text
               (field_or sess (t_last_session_id row))
         in
         bindE (guardE (\<not> (changed \<and> (case uv_status v of None \<Rightarrow> False | Some s \<Rightarrow> active_status s)))
                  (Service_Error ''task_owner_reassign_conflict'')) (\<lambda>_.
         bindE (ensure_actor_refs_exist env (Some profile_id) (Some oty) (Some oref) rty rref) (\<lambda>_.
         bindE (ensure_ai_owner_assignment_allowed env profile_id (ac_type a) (ac_ref a)
                  (Some oty) (Some oref)) (\<lambda>_.
         bindE (resolve_blocker env profile_id a v row after) (\<lambda>(code, text, ready).
         bindE (ensure_plan_status_owner_is_human (Some after) oty) (\<lambda>_.
         bindE (active_ai_guards profile_id a v row session_text d) (\<lambda>_.
         bindE (resolve_session env profile_id a sess sess_prof row d) (\<lambda>eff_prof.
         Inr (row, st, update_patch v st sess eff_prof (code, text, ready)))))))))))))"

section \<open>The write\<close>

definition active_owner_conflict :: "string \<Rightarrow> 'a res \<Rightarrow> 'a res" where
  "active_owner_conflict code r =
     (case r of
        Inl (Integrity_Error ix) \<Rightarrow>
          (if ix = ''ux_task_active_employee_owner'' \<or> ix = ''ux_task_active_employee_claim_owner''
           then service_error code else r)
      | _ \<Rightarrow> r)"

definition text_or :: "string option \<Rightarrow> string \<Rightarrow> string" where
  "text_or o' d = (case o' of None \<Rightarrow> d | Some s \<Rightarrow> if s = [] then d else s)"

definition reconcile_after_update :: "instant \<Rightarrow> string \<Rightarrow> status option \<Rightarrow> task \<Rightarrow> db \<Rightarrow> (db \<times> task) res" where
  "reconcile_after_update now profile_id st row d =
     (case st of
        Some Completed \<Rightarrow>
          bindE (reconcile_dependent_tasks now profile_id (t_id row) d) (\<lambda>d'. Inr (d', row))
      | Some Todo \<Rightarrow> reconcile_task_readiness_after_dependency_change now row d
      | _ \<Rightarrow> Inr (d, row))"

text \<open>The events after the write; none of them changes a task row except by creating one.\<close>

definition record_update_events ::
    "actor \<Rightarrow> update_values \<Rightarrow> task \<Rightarrow> task \<Rightarrow> db \<Rightarrow> db" where
  "record_update_events a v before row d =
     (let d1 = fold (create_task_attachment (text_or (ac_type a) (t_created_by_type row))
                 (text_or (ac_ref a) (t_created_by_ref row)) row) (uv_attachments v) d;
          details = build_task_update_event_details before row (uv_labels v)
            @ (if uv_attachments v = [] then []
               else [(''attachments_added'', JInt (int (length (uv_attachments v))))]);
          moved = (t_status before \<noteq> t_status row);
          d2 = (if details = [] then d1
                else record_task_event ((event_of (t_id row) ''updated'')
                  \<lparr>e_actor_type := ac_type a, e_actor_ref := ac_ref a,
                   e_from := (if moved then Some (t_status before) else None),
                   e_to := (if moved then Some (t_status row) else None),
                   e_details := details\<rparr>) d1)
      in if is_ai_executor_owner_type (Some (t_owner_type row))
            \<and> t_status row \<in> {Todo, Blocked, Review} \<and> t_ready_at row \<noteq> None
            \<and> (t_ready_at before \<noteq> t_ready_at row \<or> moved)
         then record_task_wake_requested row
                (text_or (t_blocked_reason_code row) (status_name (t_status row)))
                (ac_type a) (ac_ref a) (Some ''Task has a scheduled AI wake.'') [] d2
         else d2)"

definition update_task_write ::
    "env \<Rightarrow> instant \<Rightarrow> string \<Rightarrow> string \<Rightarrow> actor \<Rightarrow> update_values \<Rightarrow> string
     \<Rightarrow> task \<times> status option \<times> task_patch \<Rightarrow> db \<Rightarrow> (db \<times> task) res" where
  "update_task_write env now profile_id task_id a v new_id plan d =
     (case plan of (before, st, patch) \<Rightarrow>
        bindE (active_owner_conflict ''task_owner_active_conflict''
                 (repo_update_task now profile_id task_id patch d)) (\<lambda>(d1, updated).
          case updated of
            None \<Rightarrow> service_error ''task_not_found''
          | Some row1 \<Rightarrow>
              bindE (reconcile_after_update now profile_id st row1 d1) (\<lambda>(d2, row).
                let d3 = record_update_events a v before row d2 in
                if is_ai_executor_owner_type (Some (t_owner_type row)) \<and> t_status row = Blocked
                then bindE (record_manager_escalation_if_needed env now new_id row
                        (t_blocked_reason_code row) (t_blocked_reason_text row)
                        (ac_type a) (ac_ref a) d3) (\<lambda>d4. Inr (d4, row))
                else Inr (d3, row))))"

text \<open>\<open>new_id\<close> is the identifier a manager escalation task would get.\<close>

definition service_update_task ::
    "env \<Rightarrow> instant \<Rightarrow> string \<Rightarrow> string \<Rightarrow> actor \<Rightarrow> update_args \<Rightarrow> string \<Rightarrow> db \<Rightarrow> (db \<times> task) res" where
  "service_update_task env now profile_id task_id a u new_id d =
     bindE (normalize_update env a u) (\<lambda>v.
     bindE (update_task_plan env now profile_id task_id (normalize_actor a) v d) (\<lambda>plan.
     update_task_write env now profile_id task_id (normalize_actor a) v new_id plan d))"

text \<open>\<open>owner_type\<close> to \<open>reviewer_ref\<close> have None as their default and are passed on as given.\<close>

definition block_task ::
    "env \<Rightarrow> instant \<Rightarrow> string \<Rightarrow> string \<Rightarrow> string \<Rightarrow> string \<Rightarrow> actor \<Rightarrow> instant option field
     \<Rightarrow> string option \<Rightarrow> string option \<Rightarrow> string option \<Rightarrow> string option \<Rightarrow> string \<Rightarrow> db \<Rightarrow> (db \<times> task) res" where
  "block_task env now profile_id task_id reason_code reason_text a ready_at owner_type owner_ref
     reviewer_type reviewer_ref new_id d =
     bindE (normalize_required_text (Some reason_code) ''reason_code'') (\<lambda>code0.
     bindE (normalize_required_text (Some reason_text) ''reason_text'') (\<lambda>text.
     let code = canonical_manager_escalation_reason_code code0 (Some text) in
     bindE (guardE (\<not> (code = ''dependency_wait'' \<and> is_value ready_at))
              (Service_Error ''task_dependency_wait_ready_at_conflict'')) (\<lambda>_.
     bindE (guardE (\<not> (requires_manager_escalation_blocker (Some code) (Some text) \<and> is_value ready_at))
              (Service_Error ''task_manager_escalation_ready_at_conflict'')) (\<lambda>_.
     service_update_task env now profile_id task_id a
       (no_update\<lparr>ua_status := Some ''blocked'', ua_ready_at := ready_at,
          ua_owner_type := owner_type, ua_owner_ref := owner_ref,
          ua_reviewer_type := Given reviewer_type, ua_reviewer_ref := Given reviewer_ref,
          ua_blocked_code := Given (Some code), ua_blocked_text := Given (Some text)\<rparr>) new_id d))))"

section \<open>What a successful update tells\<close>

lemma active_owner_conflict_Inr [simp]: "active_owner_conflict c r = Inr x \<longleftrightarrow> r = Inr x"
  by (auto simp: active_owner_conflict_def service_error_def split: sum.split app_error.split)

lemma update_patch_sel [simp]:
  "p_status (update_patch v st s e b) = st" "p_ready_at (update_patch v st s e b) = snd (snd b)"
  "p_reviewer_type (update_patch v st s e b) = uv_reviewer_type v"
  "p_reviewer_ref (update_patch v st s e b) = uv_reviewer_ref v"
  "p_owner_type (update_patch v st s e b) = uv_owner_type v"
  "p_owner_ref (update_patch v st s e b) = uv_owner_ref v"
  "p_blocked_reason_code (update_patch v st s e b) = fst b"
  "p_blocked_reason_text (update_patch v st s e b) = fst (snd b)"
  by (simp_all add: update_patch_def)

lemma update_task_plan_InrD:
  assumes "update_task_plan env now p i a v d = Inr (row, st, patch)"
  obtains sess eff b where "get_task p i d = Some row" and "st = effective_status v row"
    and "patch = update_patch v st sess eff b"
    and "resolve_blocker env p a v row (opt_or st (t_status row)) = Inr b"
    and "ensure_plan_status_owner_is_human (Some (opt_or st (t_status row)))
       (opt_or (uv_owner_type v) (t_owner_type row)) = Inr ()"
proof -
  from assms obtain r where g: "get_task p i d = Some r"
    by (cases "get_task p i d") (auto simp: update_task_plan_def bindE_eq_Inr_iff)
  from assms obtain b e1 sess eff where
    rb: "resolve_blocker env p a v r (opt_or (effective_status v r) (t_status r)) = Inr b"
    and pl: "ensure_plan_status_owner_is_human (Some (opt_or (effective_status v r) (t_status r)))
       (opt_or (uv_owner_type v) (t_owner_type r)) = Inr e1"
    and rest: "Inr (r, effective_status v r, update_patch v (effective_status v r) sess eff (fst b, fst (snd b), snd (snd b)))
      = (Inr (row, st, patch) :: (task \<times> status option \<times> task_patch) res)"
    unfolding update_task_plan_def g option.case Let_def case_prod_beta
    by (elim bindE_InrE) (rule that)
  show thesis by (rule that [of sess eff b]) (use g rb pl rest in auto)
qed

lemma update_task_write_InrD:
  assumes "update_task_write env now p i a v new_id (before, st, patch) d = Inr (d', t)"
  obtains d1 row1 d2 where "repo_update_task now p i patch d = Inr (d1, Some row1)"
    and "reconcile_after_update now p st row1 d1 = Inr (d2, t)"
proof -
  from assms obtain x where x: "active_owner_conflict ''task_owner_active_conflict''
        (repo_update_task now p i patch d) = Inr x"
    and rest0: "(case x of (d1, updated) \<Rightarrow> case updated of None \<Rightarrow> service_error ''task_not_found''
      | Some row1 \<Rightarrow>
          bindE (reconcile_after_update now p st row1 d1) (\<lambda>(d2, row).
            let d3 = record_update_events a v before row d2 in
            if is_ai_executor_owner_type (Some (t_owner_type row)) \<and> t_status row = Blocked
            then bindE (record_manager_escalation_if_needed env now new_id row
                    (t_blocked_reason_code row) (t_blocked_reason_text row)
                    (ac_type a) (ac_ref a) d3) (\<lambda>d4. Inr (d4, row))
            else Inr (d3, row))) = Inr (d', t)"
    unfolding update_task_write_def prod.case by (elim bindE_InrE) (rule that)
  note rest = rest0 [unfolded case_prod_beta [of _ x]]
  from rest obtain row1 where r1: "snd x = Some row1"
    by (cases "snd x") simp_all
  from rest [unfolded r1 option.case] obtain y where y: "reconcile_after_update now p st row1 (fst x) = Inr y"
    and fin: "(case y of (d2, row) \<Rightarrow>
            let d3 = record_update_events a v before row d2 in
            if is_ai_executor_owner_type (Some (t_owner_type row)) \<and> t_status row = Blocked
            then bindE (record_manager_escalation_if_needed env now new_id row
                    (t_blocked_reason_code row) (t_blocked_reason_text row)
                    (ac_type a) (ac_ref a) d3) (\<lambda>d4. Inr (d4, row))
            else Inr (d3, row)) = Inr (d', t)"
    by (elim bindE_InrE) (rule that)
  have "snd y = t" using fin by (cases y) (auto simp: Let_def bindE_eq_Inr_iff split: if_splits)
  then show thesis using that [of "fst x" row1 "fst y"] x y r1 by (simp add: prod_eq_iff)
qed

text \<open>
  The returned row is the patched one, reconciled when its new status is Todo; in every other
  case it is the patched row itself.
\<close>

lemma service_update_task_InrD:
  assumes "service_update_task env now p i a u new_id d = Inr (d', t)"
  obtains v row st sess eff b row1 where "normalize_update env a u = Inr v"
    and "get_task p i d = Some row" and "st = effective_status v row"
    and "resolve_blocker env p (normalize_actor a) v row (opt_or st (t_status row)) = Inr b"
    and "ensure_plan_status_owner_is_human (Some (opt_or st (t_status row)))
       (opt_or (uv_owner_type v) (t_owner_type row)) = Inr ()"
    and "row1 = touch_row (db_clock d) row (apply_patch now (update_patch v st sess eff b) row)"
    and "t = row1 \<or> st = Some Todo \<and> (\<exists>d1 d2. reconcile_task_readiness_after_dependency_change now row1 d1 = Inr (d2, t))"
proof -
  from assms obtain v x where nv: "normalize_update env a u = Inr v"
    and pl: "update_task_plan env now p i (normalize_actor a) v d = Inr x"
    and wr: "update_task_write env now p i (normalize_actor a) v new_id x d = Inr (d', t)"
    unfolding service_update_task_def by (elim bindE_InrE) (rule that)
  obtain row st patch where x: "x = (row, st, patch)" by (cases x)
  from pl [unfolded x] show thesis
  proof (rule update_task_plan_InrD)
    fix sess eff b
    assume P: "get_task p i d = Some row" "st = effective_status v row"
      "patch = update_patch v st sess eff b"
      "resolve_blocker env p (normalize_actor a) v row (opt_or st (t_status row)) = Inr b"
      "ensure_plan_status_owner_is_human (Some (opt_or st (t_status row)))
       (opt_or (uv_owner_type v) (t_owner_type row)) = Inr ()"
    from wr [unfolded x] obtain d1 row1 d2 where up: "repo_update_task now p i patch d = Inr (d1, Some row1)"
      and rc: "reconcile_after_update now p st row1 d1 = Inr (d2, t)"
      by (rule update_task_write_InrD)
    from P(1) up have row1: "row1 = touch_row (db_clock d) row (apply_patch now patch row)"
      by (auto simp: repo_update_task_def Let_def bindE_eq_Inr_iff)
    have "t = row1 \<or> st = Some Todo \<and> (\<exists>d1 d2. reconcile_task_readiness_after_dependency_change now row1 d1 = Inr (d2, t))"
    proof (cases st)
      case (Some s)
      with rc show ?thesis by (cases s) (auto simp: reconcile_after_update_def bindE_eq_Inr_iff)
    qed (use rc in \<open>simp add: reconcile_after_update_def\<close>)
    with that [OF nv P(1,2,4,5)] row1 P(3) show thesis by blast
  qed
qed

lemma updated_status:
  "t_status (touch_row c row (apply_patch now (update_patch v st s e b) row)) = opt_or st (t_status row)"
  by simp

lemma reconciled_owner_status:
  assumes "reconcile_task_readiness_after_dependency_change now t d = Inr (d', t')"
  shows "t' = t \<or> t_status t' = Todo \<or> t_status t' = Blocked"
  using assms
proof (cases rule: reconcile_change_cases)
  case promoted
  then obtain d1 r where "repo_update_task now (t_profile_id t) (t_id t) promote_patch d = Inr (d1, r)"
    and "r = None \<longrightarrow> t' = t" and "\<And>u. r = Some u \<Longrightarrow> t' = u"
    by (auto simp: promote_task_def bindE_eq_Inr_iff Let_def split: option.splits if_splits)
  then show ?thesis
    by (cases r) (auto simp: promote_patch_def elim!: repo_update_task_SomeD)
next
  case (blocked d1 r)
  then show ?thesis
    by (cases r) (auto simp: dependency_wait_patch_def elim!: repo_update_task_SomeD)
qed simp

section \<open>Properties\<close>

text \<open>A task blocked for a manager's decision leaves the state Blocked through
  \<open>update_task\<close> only when the actor is a human or has manager scope over it: the blocked
  employee cannot lift the escalation itself.\<close>

theorem escalation_lifted_only_by_manager:
  assumes "service_update_task env now p i a u new_id d = Inr (d', t)"
    and "get_task p i d = Some row" and "t_status row = Blocked"
    and "requires_manager_escalation_blocker (t_blocked_reason_code row) (t_blocked_reason_text row)"
    and "t_status t \<noteq> Blocked"
  shows "task_actor_has_manager_scope env row p (ac_type (normalize_actor a)) (ac_ref (normalize_actor a))
     = Inr True"
  using assms(1)
proof (rule service_update_task_InrD)
  fix v row' st sess eff b row1
  assume "get_task p i d = Some row'" and "st = effective_status v row'"
    and rb: "resolve_blocker env p (normalize_actor a) v row' (opt_or st (t_status row')) = Inr b"
    and row1: "row1 = touch_row (db_clock d) row' (apply_patch now (update_patch v st sess eff b) row')"
    and t: "t = row1 \<or> st = Some Todo
      \<and> (\<exists>d1 d2. reconcile_task_readiness_after_dependency_change now row1 d1 = Inr (d2, t))"
  then have r: "row' = row" using assms(2) by simp
  have "opt_or st (t_status row) \<noteq> Blocked"
  proof
    assume "opt_or st (t_status row) = Blocked"
    then have "t_status row1 = Blocked" and "st \<noteq> Some Todo" using row1 r by auto
    with t assms(5) show False by auto
  qed
  with rb assms(3,4) show ?thesis unfolding r
    by (auto simp: resolve_blocker_def Let_def bindE_eq_Inr_iff split: if_splits)
qed

definition escalated_task :: task where
  "escalated_task = (example_task ''a'')\<lparr>t_owner_ref := ''bob'', t_status := Blocked,
     t_blocked_reason_code := Some ''manager_reassignment_required''\<rparr>"

definition escalated_db :: db where
  "escalated_db = example_db [escalated_task] []"

theorem escalation_lifted_only_by_manager_witness:
  "task_actor_has_manager_scope example_env escalated_task ''default'' (Some employee_type) (Some ''ann'') = Inr True
   \<and> \<not> is_ok (service_update_task example_env 9 ''default'' ''a'' (employee_actor ''bob'')
        (no_update\<lparr>ua_status := Some ''todo''\<rparr>) ''n'' escalated_db)"
proof
  let ?u = "no_update\<lparr>ua_status := Some ''todo''\<rparr>"
  let ?r = "\<lambda>who. service_update_task example_env 9 ''default'' ''a'' (employee_actor who) ?u ''n'' escalated_db"
  have row: "get_task ''default'' ''a'' escalated_db = Some escalated_task" "t_status escalated_task = Blocked"
    "requires_manager_escalation_blocker (t_blocked_reason_code escalated_task) (t_blocked_reason_text escalated_task)"
    by code_simp+
  have n: "normalize_actor (employee_actor ''ann'') = \<lparr>ac_type = Some employee_type, ac_ref = Some ''ann'', ac_session = Unset\<rparr>"
    by code_simp
  have "case_sum (\<lambda>_. False) (\<lambda>r. t_status (snd r) \<noteq> Blocked) (?r ''ann'')" by code_simp
  then obtain d' t where r: "?r ''ann'' = Inr (d', t)" and t: "t_status t \<noteq> Blocked"
    by (cases "?r ''ann''") auto
  from escalation_lifted_only_by_manager [OF r row t]
  show "task_actor_has_manager_scope example_env escalated_task ''default'' (Some employee_type) (Some ''ann'') = Inr True"
    by (simp add: n)
  show "\<not> is_ok (?r ''bob'')" by code_simp
qed

text \<open>\<open>update_task\<close> never leaves a task in PLAN that a human does not own.\<close>

theorem plan_is_human_owned:
  assumes "service_update_task env now p i a u new_id d = Inr (d', t)" and "t_status t = Plan"
  shows "t_owner_type t = ''human''"
  using assms(1)
proof (rule service_update_task_InrD)
  fix v row st sess eff b row1
  assume pl: "ensure_plan_status_owner_is_human (Some (opt_or st (t_status row)))
       (opt_or (uv_owner_type v) (t_owner_type row)) = Inr ()"
    and row1: "row1 = touch_row (db_clock d) row (apply_patch now (update_patch v st sess eff b) row)"
    and t: "t = row1 \<or> st = Some Todo
      \<and> (\<exists>d1 d2. reconcile_task_readiness_after_dependency_change now row1 d1 = Inr (d2, t))"
  have "t = row1" using t assms(2) reconciled_owner_status [of now row1 _ _ t] by auto
  then have "t_status t = opt_or st (t_status row)"
    and ow: "t_owner_type t = opt_or (uv_owner_type v) (t_owner_type row)" using row1 by simp_all
  with pl assms(2) show ?thesis
    by (simp add: ensure_plan_status_owner_is_human_def split: if_splits)
qed

definition human_plan_db :: db where
  "human_plan_db = example_db [(example_task ''a'')\<lparr>t_owner_type := ''human'', t_owner_ref := ''me''\<rparr>] []"

theorem plan_is_human_owned_witness:
  "\<exists>d' t. service_update_task example_env 9 ''default'' ''a'' human_actor
        (no_update\<lparr>ua_status := Some ''plan''\<rparr>) ''n'' human_plan_db = Inr (d', t)
     \<and> t_status t = Plan \<and> t_owner_type t = ''human''"
proof -
  let ?r = "service_update_task example_env 9 ''default'' ''a'' human_actor
        (no_update\<lparr>ua_status := Some ''plan''\<rparr>) ''n'' human_plan_db"
  have "case_sum (\<lambda>_. False) (\<lambda>r. t_status (snd r) = Plan) ?r" by code_simp
  then obtain d' t where r: "?r = Inr (d', t)" and t: "t_status t = Plan" by (cases ?r) auto
  from plan_is_human_owned [OF r t] r t show ?thesis by blast
qed

lemma normalize_update_InrD:
  assumes "normalize_update env a u = Inr v"
  shows "uv_reviewer_type v = map_given normalize_task_owner_type (ua_reviewer_type u)
    \<and> uv_reviewer_ref v = map_given normalize_optional_text (ua_reviewer_ref u)
    \<and> option_E normalize_status (ua_status u) = Inr (uv_status v)
    \<and> uv_blocked_text v = map_given normalize_optional_text (ua_blocked_text u)"
  using assms unfolding normalize_update_def Let_def
  by - (elim bindE_InrE, simp, drule sym, simp)

lemma option_E_Some [simp]: "option_E f (Some x) = Inr (Some y) \<longleftrightarrow> f x = Inr y"
  by (auto simp: option_E_def bindE_eq_Inr_iff)

text \<open>Blocking a task without naming a reviewer erases the reviewer it had: the default None of
  the reviewer arguments is passed on as a value, which clears the columns.\<close>

theorem block_task_erases_reviewer:
  assumes "block_task env now p i code text a ready oty oref None None new_id d = Inr (d', t)"
  shows "t_status t = Blocked \<and> t_reviewer_type t = None \<and> t_reviewer_ref t = None"
proof -
  let ?u = "\<lambda>c s. no_update\<lparr>ua_status := Some ''blocked'', ua_ready_at := ready,
          ua_owner_type := oty, ua_owner_ref := oref,
          ua_reviewer_type := Given None, ua_reviewer_ref := Given None,
          ua_blocked_code := Given (Some c), ua_blocked_text := Given (Some s)\<rparr>"
  from assms obtain c s where up: "service_update_task env now p i a (?u c s) new_id d = Inr (d', t)"
    unfolding block_task_def Let_def by (elim bindE_InrE) (rule that)
  from up show ?thesis
  proof (rule service_update_task_InrD)
    fix v row st sess eff b row1
    assume nv: "normalize_update env a (?u c s) = Inr v" and st: "st = effective_status v row"
      and row1: "row1 = touch_row (db_clock d) row (apply_patch now (update_patch v st sess eff b) row)"
      and t: "t = row1 \<or> st = Some Todo
      \<and> (\<exists>d1 d2. reconcile_task_readiness_after_dependency_change now row1 d1 = Inr (d2, t))"
    note N = normalize_update_InrD [OF nv]
    have rv: "uv_reviewer_type v = Given None" "uv_reviewer_ref v = Given None"
      using N by (simp_all add: normalize_task_owner_type_def text_or_none_def str_or_empty_def)
    have "normalize_status ''blocked'' = Inr Blocked" by code_simp
    then have "uv_status v = Some Blocked" using N by (simp add: option_E_def)
    then have "st = Some Blocked" using st by (simp add: effective_status_def)
    then show ?thesis using t row1 rv by auto
  qed
qed

definition task_with_reviewer :: task where
  "task_with_reviewer = (example_task ''r'')\<lparr>t_reviewer_type := Some employee_type,
     t_reviewer_ref := Some ''bob''\<rparr>"

theorem block_task_erases_reviewer_witness:
  "t_reviewer_ref task_with_reviewer = Some ''bob'' \<and>
   (\<exists>d' t. block_task example_env 9 ''default'' ''r'' ''need_input'' ''which one?'' human_actor Unset
        None None None None ''n'' (example_db [task_with_reviewer] []) = Inr (d', t)
     \<and> t_status t = Blocked \<and> t_reviewer_ref t = None)"
proof -
  let ?r = "block_task example_env 9 ''default'' ''r'' ''need_input'' ''which one?'' human_actor Unset
        None None None None ''n'' (example_db [task_with_reviewer] [])"
  have "is_ok ?r" by code_simp
  then obtain d' t where r: "?r = Inr (d', t)" by (cases ?r) auto
  have "t_reviewer_ref task_with_reviewer = Some ''bob''" by code_simp
  with block_task_erases_reviewer [OF r] r show ?thesis by blast
qed

end
