(* ===== verification/Task_Service.thy ===== *)
theory Task_Service
  imports Task_Update
begin

text \<open>
  The other mutating operations of TaskFlowService (afkbot/services/task_flow/service.py):
  creation, deletion, comments, review decisions, dependency edges and delegation. Identifiers
  the code draws from uuid4 are arguments.
\<close>

section \<open>Creation\<close>

record create_args =
  ca_title :: "string option"
  ca_description :: "string option"
  ca_status :: "string option"
  ca_created_by_type :: "string option"
  ca_created_by_ref :: "string option"
  ca_actor_session :: "string option"
  ca_session_id :: "string option"
  ca_session_profile_id :: "string option"
  ca_flow_id :: "string option"
  ca_priority :: int
  ca_due_at :: "instant option"
  ca_owner_type :: "string option"
  ca_owner_ref :: "string option"
  ca_reviewer_type :: "string option"
  ca_reviewer_ref :: "string option"
  ca_source_type :: "string option"
  ca_source_ref :: "string option"
  ca_labels :: "string list"
  ca_requires_review :: bool
  ca_depends_on :: "string list"
  ca_attachments :: "new_attachment list"

record create_values =
  cv_title :: string
  cv_description :: string
  cv_status :: "status option"
  cv_actor :: actor
  cv_actor_type :: string
  cv_actor_ref :: string
  cv_session_id :: "string option"
  cv_session_profile_id :: "string option"
  cv_flow_id :: "string option"
  cv_reviewer_type :: "string option"
  cv_reviewer_ref :: "string option"
  cv_source_type :: string
  cv_labels :: "string list"
  cv_depends_on :: "string list"

definition normalize_create :: "create_args \<Rightarrow> create_values res" where
  "normalize_create u =
     bindE (normalize_required_text (ca_title u) ''title'') (\<lambda>title.
     bindE (normalize_task_description (ca_description u) True) (\<lambda>description.
     bindE (normalize_create_task_status (ca_status u)) (\<lambda>st.
     bindE (normalize_required_text (ca_source_type u) ''source_type'') (\<lambda>source_type.
     bindE (normalize_required_text (ca_created_by_type u) ''created_by_type'') (\<lambda>cty.
     bindE (normalize_required_text (ca_created_by_ref u) ''created_by_ref'') (\<lambda>cref.
     let sess = normalize_optional_text (ca_session_id u);
         sess_prof = normalize_optional_text (ca_session_profile_id u) in
     bindE (validate_actor_pair (Some cty) (Some cref) False) (\<lambda>_.
     bindE (guardE (\<not> (sess_prof \<noteq> None \<and> sess = None))
              (Service_Error ''task_session_profile_requires_session_id'')) (\<lambda>_.
     Inr \<lparr>cv_title = title, cv_description = str_or_empty description, cv_status = st,
          cv_actor = \<lparr>ac_type = Some cty, ac_ref = Some cref,
            ac_session = Given (normalize_optional_text (ca_actor_session u))\<rparr>,
          cv_actor_type = cty, cv_actor_ref = cref, cv_session_id = sess,
          cv_session_profile_id = sess_prof,
          cv_flow_id = normalize_optional_text (ca_flow_id u),
          cv_reviewer_type = normalize_task_owner_type (ca_reviewer_type u),
          cv_reviewer_ref = normalize_optional_text (ca_reviewer_ref u),
          cv_source_type = source_type, cv_labels = normalize_labels (Some (ca_labels u)),
          cv_depends_on = normalize_labels (Some (ca_depends_on u))\<rparr>))))))))"

text \<open>The owner: the request, then the flow's default, then the one active root employee.\<close>

definition resolve_create_owner ::
    "env \<Rightarrow> string \<Rightarrow> create_args \<Rightarrow> flow option \<Rightarrow> (string \<times> string) res" where
  "resolve_create_owner env profile_id u fl =
     (let flow_type = (case fl of None \<Rightarrow> None | Some f \<Rightarrow> f_default_owner_type f);
          flow_ref = (case fl of None \<Rightarrow> None | Some f \<Rightarrow> f_default_owner_ref f);
          oty = (case normalize_task_owner_type (ca_owner_type u) of
                   Some t \<Rightarrow> t
                 | None \<Rightarrow> opt_or (normalize_task_owner_type flow_type) employee_type);
          oref = (case normalize_optional_text (ca_owner_ref u) of
                    Some r \<Rightarrow> Some r | None \<Rightarrow> normalize_optional_text flow_ref)
      in case oref of
           Some r \<Rightarrow> Inr (oty, r)
         | None \<Rightarrow> bindE (resolve_default_employee_owner_ref env profile_id) (\<lambda>r. Inr (oty, r)))"

definition create_session_profile ::
    "env \<Rightarrow> string \<Rightarrow> create_values \<Rightarrow> db \<Rightarrow> string option res" where
  "create_session_profile env profile_id v d =
     (case cv_session_id v of
        None \<Rightarrow> Inr (cv_session_profile_id v)
      | Some s \<Rightarrow>
          (let p = opt_or (cv_session_profile_id v) (resolve_session_profile profile_id None);
               actor_session = ac_session_text (ac_session (cv_actor v)) in
           bindE (ensure_profile_exists p d) (\<lambda>_.
           bindE (guardE (\<not> (is_ai_executor_owner_type (Some (cv_actor_type v))
                            \<and> actor_session \<noteq> None \<and> Some s \<noteq> actor_session))
                    (Service_Error ''task_session_binding_forbidden'')) (\<lambda>_.
           bindE (ensure_public_session_binding_allowed env profile_id (cv_actor v)
                    (Given (Some s)) (Given (Some p))) (\<lambda>_. Inr (Some p))))))"

definition create_task_guards ::
    "env \<Rightarrow> instant \<Rightarrow> string \<Rightarrow> create_args \<Rightarrow> create_values \<Rightarrow> db
     \<Rightarrow> (string \<times> string \<times> string option) res" where
  "create_task_guards env now profile_id u v d =
     bindE (ensure_profile_exists profile_id d) (\<lambda>_.
     bindE (ensure_public_ai_principal_session env now profile_id (cv_actor v)
              ''task_creator_forbidden'' d) (\<lambda>_.
     bindE (case cv_flow_id v of
              None \<Rightarrow> Inr None
            | Some f \<Rightarrow> (case get_flow profile_id f d of
                           None \<Rightarrow> service_error ''task_flow_not_found'' | Some fl \<Rightarrow> Inr (Some fl)))
       (\<lambda>fl.
     bindE (resolve_create_owner env profile_id u fl) (\<lambda>(oty, oref).
     bindE (validate_owner_pair (Some oty) (Some oref) False) (\<lambda>_.
     bindE (validate_owner_pair (cv_reviewer_type v) (cv_reviewer_ref v) True) (\<lambda>_.
     bindE (ensure_public_principal_identity env (cv_actor v) ''task_creator_forbidden'') (\<lambda>_.
     bindE (ensure_principal_exists env (Some profile_id) (Some (cv_actor_type v))
              (Some (cv_actor_ref v)) d) (\<lambda>_.
     bindE (ensure_ai_actor_admitted_to_backlog profile_id (Some (cv_actor_type v))
              (Some (cv_actor_ref v)) ''task_creator_forbidden'') (\<lambda>_.
     bindE (ensure_actor_refs_exist env (Some profile_id) (Some oty) (Some oref)
              (cv_reviewer_type v) (cv_reviewer_ref v)) (\<lambda>_.
     bindE (ensure_ai_owner_assignment_allowed env profile_id (Some (cv_actor_type v))
              (Some (cv_actor_ref v)) (Some oty) (Some oref)) (\<lambda>_.
     bindE (create_session_profile env profile_id v d) (\<lambda>sess_prof.
     Inr (oty, oref, sess_prof)))))))))))))"

definition create_status :: "create_values \<Rightarrow> status" where
  "create_status v =
     (case cv_status v of
        None \<Rightarrow> if cv_depends_on v \<noteq> [] then Blocked else Todo
      | Some s \<Rightarrow> s)"

definition created_row ::
    "instant \<Rightarrow> string \<Rightarrow> string \<Rightarrow> create_args \<Rightarrow> create_values \<Rightarrow> string \<times> string \<times> string option
     \<Rightarrow> instant \<Rightarrow> task" where
  "created_row now new_id profile_id u v resolved clock =
     (let st = create_status v; waits = (cv_depends_on v \<noteq> [] \<and> st = Blocked) in
      (task_defaults clock)\<lparr>t_id := new_id, t_profile_id := profile_id, t_flow_id := cv_flow_id v,
        t_title := cv_title v, t_description := cv_description v, t_status := st,
        t_priority := ca_priority u, t_due_at := ca_due_at u,
        t_ready_at := (if cv_depends_on v \<noteq> [] \<or> st \<noteq> Todo then None else Some now),
        t_owner_type := fst resolved, t_owner_ref := fst (snd resolved),
        t_reviewer_type := cv_reviewer_type v, t_reviewer_ref := cv_reviewer_ref v,
        t_source_type := cv_source_type v, t_source_ref := normalize_optional_text (ca_source_ref u),
        t_created_by_type := cv_actor_type v, t_created_by_ref := cv_actor_ref v,
        t_labels := cv_labels v, t_requires_review := ca_requires_review u,
        t_blocked_reason_code := (if waits then Some ''dependency_wait'' else None),
        t_blocked_reason_text :=
          (if waits then Some ''Waiting for dependent tasks to complete.'' else None),
        t_last_session_id := cv_session_id v, t_last_session_profile_id := snd (snd resolved)\<rparr>)"

definition record_created ::
    "create_args \<Rightarrow> create_values \<Rightarrow> string \<times> string \<times> string option \<Rightarrow> task \<Rightarrow> db \<Rightarrow> db" where
  "record_created u v resolved row d =
     (let d1 = record_task_event ((event_of (t_id row) ''created'')
        \<lparr>e_actor_type := Some (cv_actor_type v), e_actor_ref := Some (cv_actor_ref v),
         e_to := Some (t_status row),
         e_details := [(''description_changed'', JBool True), (''flow_id'', j_opt (cv_flow_id v)),
           (''owner_type'', JStr (fst resolved)), (''owner_ref'', JStr (fst (snd resolved))),
           (''reviewer_type'', j_opt (cv_reviewer_type v)),
           (''reviewer_ref'', j_opt (cv_reviewer_ref v)), (''priority'', JInt (ca_priority u)),
           (''labels'', JList (map JStr (cv_labels v))),
           (''depends_on_task_ids'', JList (map JStr (cv_depends_on v))),
           (''requires_review'', JBool (ca_requires_review u)),
           (''attachment_count'', JInt (int (length (ca_attachments u))))]\<rparr>) d
      in if is_ai_executor_owner_type (Some (t_owner_type row)) \<and> t_status row = Todo
         then record_task_wake_requested row ''task_created'' (Some (cv_actor_type v))
                (Some (cv_actor_ref v)) (Some ''AI-owned task created and ready for execution.'') [] d1
         else d1)"

definition add_create_edges :: "string \<Rightarrow> string \<Rightarrow> string list \<Rightarrow> db \<Rightarrow> db res" where
  "add_create_edges profile_id task_id deps d =
     foldE (\<lambda>dep d. bindE (create_dependency_edge profile_id task_id dep Completed d)
                      (\<lambda>r. Inr (fst r))) deps d"

definition service_create_task ::
    "env \<Rightarrow> instant \<Rightarrow> string \<Rightarrow> create_args \<Rightarrow> string \<Rightarrow> db \<Rightarrow> (db \<times> task) res" where
  "service_create_task env now profile_id u new_id d =
     bindE (normalize_create u) (\<lambda>v.
     active_owner_conflict ''task_owner_conflict''
       (bindE (create_task_guards env now profile_id u v d) (\<lambda>resolved.
        bindE (ensure_plan_status_owner_is_human (Some (create_status v)) (fst resolved)) (\<lambda>_.
        bindE (repo_create_task (created_row now new_id profile_id u v resolved (db_clock d)) d)
          (\<lambda>(d1, row).
        bindE (add_create_edges profile_id new_id (cv_depends_on v) d1) (\<lambda>d2.
        bindE (if cv_depends_on v \<noteq> [] then reconcile_task_readiness now row d2 else Inr (d2, row))
          (\<lambda>(d3, row').
        let d4 = fold (create_task_attachment (cv_actor_type v) (cv_actor_ref v) row')
                   (ca_attachments u) d3
        in Inr (record_created u v resolved row' d4, row'))))))))"

section \<open>Actor checks of the other operations\<close>

definition require_task_for ::
    "env \<Rightarrow> instant \<Rightarrow> string \<Rightarrow> string \<Rightarrow> actor \<Rightarrow> string \<Rightarrow> db \<Rightarrow> task res" where
  "require_task_for env now profile_id task_id a code d =
     bindE (require_task profile_id task_id d) (\<lambda>row.
     bindE (ensure_public_ai_principal_session env now profile_id a code d) (\<lambda>_.
     bindE (ensure_principal_exists env (Some profile_id) (ac_type a) (ac_ref a) d) (\<lambda>_.
     Inr row)))"

section \<open>Deletion\<close>

definition service_delete_task ::
    "env \<Rightarrow> instant \<Rightarrow> string \<Rightarrow> string \<Rightarrow> actor \<Rightarrow> db \<Rightarrow> db res" where
  "service_delete_task env now profile_id task_id a0 d =
     (let a = normalize_actor a0 in
      bindE (normalize_required_text (Some task_id) ''task_id'') (\<lambda>i.
      bindE (check_actor_pair a) (\<lambda>_.
      bindE (ensure_public_principal_identity env a ''task_actor_required'') (\<lambda>_.
      bindE (require_task profile_id i d) (\<lambda>row.
      bindE (guardE (\<not> active_status (t_status row)) (Service_Error ''task_delete_active_conflict'')) (\<lambda>_.
      bindE (ensure_public_ai_principal_session env now profile_id a ''task_actor_required'' d) (\<lambda>_.
      bindE (ensure_principal_exists env (Some profile_id) (ac_type a) (ac_ref a) d) (\<lambda>_.
      bindE (if ac_type a \<noteq> None \<or> ac_ref a \<noteq> None
             then ensure_task_actor_can_manage env row profile_id (ac_type a) (ac_ref a)
             else Inr ()) (\<lambda>_.
      delete_task_row now row [] d)))))))))"

section \<open>Comments\<close>

definition add_task_comment ::
    "env \<Rightarrow> instant \<Rightarrow> string \<Rightarrow> string \<Rightarrow> string \<Rightarrow> actor \<Rightarrow> string \<Rightarrow> nat option \<Rightarrow> string
     \<Rightarrow> db \<Rightarrow> (db \<times> event) res" where
  "add_task_comment env now profile_id task_id message a0 comment_type run new_id d =
     bindE (normalize_required_text (Some message) ''message'') (\<lambda>msg.
     bindE (normalize_required_text (ac_type a0) ''actor_type'') (\<lambda>aty.
     bindE (normalize_required_text (ac_ref a0) ''actor_ref'') (\<lambda>aref.
     bindE (normalize_required_text (Some comment_type) ''comment_type'') (\<lambda>ctype.
     let a = \<lparr>ac_type = Some aty, ac_ref = Some aref,
              ac_session = map_given normalize_optional_text (ac_session a0)\<rparr> in
     bindE (validate_actor_pair (Some aty) (Some aref) False) (\<lambda>_.
     bindE (ensure_public_principal_identity env a ''task_actor_required'') (\<lambda>_.
     bindE (require_task_for env now profile_id task_id a ''task_actor_required'' d) (\<lambda>t.
     bindE (ensure_task_actor_can_manage env t profile_id (Some aty) (Some aref)) (\<lambda>_.
     bindE (ensure_actor_refs_exist env (Some profile_id) (Some aty) (Some aref) None None) (\<lambda>_.
     bindE (guardE (case run of None \<Rightarrow> True | Some r \<Rightarrow> get_task_run r (Some (t_id t)) d \<noteq> None)
              (Service_Error ''task_run_not_found'')) (\<lambda>_.
     let (d1, row) = append_task_comment_event env profile_id (t_id t) aty aref msg ctype run d;
         wake = (t_owner_type t = employee_type \<and> t_owner_ref t \<noteq> []
                 \<and> \<not> terminal_status (t_status t)
                 \<and> \<not> (aty = employee_type \<and> aref = t_owner_ref t))
     in if \<not> wake then Inr (d1, row)
        else
          let d2 = record_task_wake_requested t ''comment_added'' (Some aty) (Some aref)
                     (Some ''Comment added for the responsible employee.'')
                     [(''comment_id'', JInt (int (e_id row)))] d1
          in if t_status t = Blocked
             then bindE (record_manager_escalation_if_needed env now new_id t
                           (t_blocked_reason_code t) (t_blocked_reason_text t)
                           (Some aty) (Some aref) d2) (\<lambda>d3. Inr (d3, row))
             else Inr (d2, row)))))))))))"

section \<open>Review\<close>

definition task_is_review_actionable :: "task \<Rightarrow> bool" where
  "task_is_review_actionable row =
     (t_status row = Review
      \<or> active_status (t_status row) \<and> t_claim_source_status row = Some Review)"

definition task_matches_review_inbox :: "task \<Rightarrow> string \<Rightarrow> string \<Rightarrow> bool" where
  "task_matches_review_inbox row actor_type actor_ref =
     (if \<not> task_is_review_actionable row then False
      else (case (t_reviewer_type row, t_reviewer_ref row) of
              (Some ty, Some r) \<Rightarrow> ty = actor_type \<and> r = actor_ref
            | _ \<Rightarrow> t_owner_type row = actor_type \<and> t_owner_ref row = actor_ref))"

definition task_matches_human_inbox :: "task \<Rightarrow> string \<Rightarrow> bool" where
  "task_matches_human_inbox row owner_ref =
     (if t_status row = Todo \<or> t_status row = Blocked
      then t_owner_type row = ''human'' \<and> t_owner_ref row = owner_ref
      else if t_status row = Review
      then (t_owner_type row = ''human'' \<and> t_owner_ref row = owner_ref)
        \<or> (t_reviewer_type row = Some ''human'' \<and> t_reviewer_ref row = Some owner_ref)
      else False)"

definition ensure_review_actor_matches_task :: "task \<Rightarrow> actor \<Rightarrow> unit res" where
  "ensure_review_actor_matches_task row a =
     (case (ac_type a, ac_ref a) of
        (Some ty, Some r) \<Rightarrow>
          guardE (task_matches_review_inbox row ty r) (Service_Error ''task_review_actor_mismatch'')
      | _ \<Rightarrow> Inr ())"

text \<open>Review operations lower the actor type as well.\<close>

definition normalize_review_actor :: "actor \<Rightarrow> actor" where
  "normalize_review_actor a = \<lparr>ac_type = normalize_task_owner_type (ac_type a),
     ac_ref = normalize_optional_text (ac_ref a),
     ac_session = map_given normalize_optional_text (ac_session a)\<rparr>"

definition approve_review_task ::
    "env \<Rightarrow> instant \<Rightarrow> string \<Rightarrow> string \<Rightarrow> actor \<Rightarrow> db \<Rightarrow> (db \<times> task) res" where
  "approve_review_task env now profile_id task_id a0 d =
     (let a = normalize_review_actor a0 in
      bindE (check_actor_pair a) (\<lambda>_.
      bindE (ensure_public_principal_identity env a ''task_review_actor_required'') (\<lambda>_.
      bindE (require_task_for env now profile_id task_id a ''task_review_actor_required'' d) (\<lambda>row.
      bindE (guardE (task_is_review_actionable row) (Service_Error ''task_review_invalid_state'')) (\<lambda>_.
      bindE (ensure_review_actor_matches_task row a) (\<lambda>_.
      bindE (repo_update_task now profile_id (t_id row)
               (no_patch\<lparr>p_status := Some Completed, p_blocked_reason_code := Given None,
                  p_blocked_reason_text := Given None\<rparr>) d) (\<lambda>(d1, r).
        case r of
          None \<Rightarrow> service_error ''task_not_found''
        | Some updated \<Rightarrow>
            bindE (reconcile_dependent_tasks now profile_id (t_id updated) d1) (\<lambda>d2.
            Inr (record_task_event ((event_of (t_id updated) ''review_approved'')
                   \<lparr>e_run_id := t_last_run_id updated, e_actor_type := ac_type a,
                    e_actor_ref := ac_ref a, e_message := Some ''Review approved.'',
                    e_from := Some (t_status row), e_to := Some (t_status updated)\<rparr>) d2,
                 updated)))))))))"

definition review_changes_owner ::
    "actor \<Rightarrow> string option \<Rightarrow> string option \<Rightarrow> task \<Rightarrow> string \<times> string" where
  "review_changes_owner a oty oref row =
     (let to_reviewer = (oty = None \<and> oref = None \<and> is_ai_executor_owner_type (ac_type a)
            \<and> (case (ac_type a, ac_ref a) of
                 (Some ty, Some r) \<Rightarrow> task_matches_review_inbox row ty r | _ \<Rightarrow> False))
      in (opt_or oty (if to_reviewer then str_or_empty (ac_type a) else t_owner_type row),
          opt_or oref (if to_reviewer then str_or_empty (ac_ref a) else t_owner_ref row)))"

definition request_review_changes ::
    "env \<Rightarrow> instant \<Rightarrow> string \<Rightarrow> string \<Rightarrow> string \<Rightarrow> string \<Rightarrow> actor \<Rightarrow> string option \<Rightarrow> string option
     \<Rightarrow> string \<Rightarrow> db \<Rightarrow> (db \<times> task) res" where
  "request_review_changes env now profile_id task_id reason_text reason_code a0 owner_type owner_ref
     new_id d =
     (let a = normalize_review_actor a0; oty = normalize_task_owner_type owner_type;
          oref = normalize_optional_text owner_ref in
      bindE (normalize_required_text (Some reason_text) ''reason_text'') (\<lambda>text.
      bindE (normalize_required_text (Some reason_code) ''reason_code'') (\<lambda>code0.
      let code = canonical_manager_escalation_reason_code code0 (Some text) in
      bindE (check_actor_pair a) (\<lambda>_.
      bindE (ensure_public_principal_identity env a ''task_review_actor_required'') (\<lambda>_.
      bindE (check_owner_pair oty oref) (\<lambda>_.
      bindE (require_task_for env now profile_id task_id a ''task_review_actor_required'' d) (\<lambda>row.
      bindE (guardE (task_is_review_actionable row) (Service_Error ''task_review_invalid_state'')) (\<lambda>_.
      bindE (ensure_review_actor_matches_task row a) (\<lambda>_.
      let (ety, eref) = review_changes_owner a oty oref row;
          escalation = requires_manager_escalation_blocker (Some code) (Some text) in
      bindE (ensure_actor_refs_exist env (Some profile_id) (Some ety) (Some eref)
               (t_reviewer_type row) (t_reviewer_ref row)) (\<lambda>_.
      bindE (ensure_ai_owner_assignment_allowed env profile_id (ac_type a) (ac_ref a)
               (Some ety) (Some eref)) (\<lambda>_.
      bindE (repo_update_task now profile_id (t_id row)
               (no_patch\<lparr>p_status := Some Blocked, p_owner_type := Some ety, p_owner_ref := Some eref,
                  p_ready_at := Given (if is_ai_executor_owner_type (Some ety)
                      \<and> code \<noteq> ''dependency_wait'' \<and> \<not> escalation then Some now else None),
                  p_blocked_reason_code := Given (Some code),
                  p_blocked_reason_text := Given (Some text)\<rparr>) d) (\<lambda>(d1, r).
        case r of
          None \<Rightarrow> service_error ''task_not_found''
        | Some u \<Rightarrow>
            (let d2 = record_task_event ((event_of (t_id u) ''review_changes_requested'')
                   \<lparr>e_run_id := t_last_run_id u, e_actor_type := ac_type a, e_actor_ref := ac_ref a,
                    e_message := Some text, e_from := Some (t_status row), e_to := Some (t_status u),
                    e_details := [(''reason_code'', JStr code), (''owner_type'', JStr (t_owner_type u)),
                      (''owner_ref'', JStr (t_owner_ref u))]\<rparr>) d1;
                 ai = is_ai_executor_owner_type (Some (t_owner_type u));
                 d3 = (if ai \<and> \<not> escalation
                       then record_task_wake_requested u code (ac_type a) (ac_ref a)
                         (Some ''Review changes requested; AI owner should resume this task.'') [] d2
                       else d2)
             in if ai
                then bindE (record_manager_escalation_if_needed env now new_id u (Some code) (Some text)
                              (ac_type a) (ac_ref a) d3) (\<lambda>d4. Inr (d4, u))
                else Inr (d3, u))))))))))))))"

section \<open>Dependencies\<close>

definition dependency_actor_checks ::
    "env \<Rightarrow> instant \<Rightarrow> string \<Rightarrow> string \<Rightarrow> actor \<Rightarrow> db \<Rightarrow> task res" where
  "dependency_actor_checks env now profile_id task_id a d =
     bindE (check_actor_pair a) (\<lambda>_.
     bindE (ensure_public_principal_identity env a ''task_actor_required'') (\<lambda>_.
     bindE (require_task_for env now profile_id task_id a ''task_actor_required'' d) (\<lambda>t.
     bindE (ensure_task_actor_can_manage env t profile_id (ac_type a) (ac_ref a)) (\<lambda>_.
     Inr t))))"

definition reconcile_refreshed :: "instant \<Rightarrow> string \<Rightarrow> string \<Rightarrow> db \<Rightarrow> db res" where
  "reconcile_refreshed now profile_id task_id d =
     (case get_task profile_id task_id d of
        None \<Rightarrow> Inr d
      | Some t \<Rightarrow> bindE (reconcile_task_readiness_after_dependency_change now t d) (\<lambda>r. Inr (fst r)))"

text \<open>The edge is stored under the stripped id and looked up again under the given one.\<close>

definition add_dependency ::
    "env \<Rightarrow> instant \<Rightarrow> string \<Rightarrow> string \<Rightarrow> string \<Rightarrow> string \<Rightarrow> actor \<Rightarrow> db \<Rightarrow> (db \<times> dependency) res" where
  "add_dependency env now profile_id task_id depends_on satisfied_on a0 d =
     bindE (normalize_status satisfied_on) (\<lambda>st.
     bindE (dependency_actor_checks env now profile_id task_id (normalize_actor a0) d) (\<lambda>t.
     bindE (create_dependency_edge profile_id (t_id t) depends_on st d) (\<lambda>(d1, _).
     let d2 = record_task_event ((event_of (t_id t) ''dependency_added'')
           \<lparr>e_details := [(''depends_on_task_id'', JStr depends_on),
              (''satisfied_on_status'', JStr (status_name st))]\<rparr>) d1 in
     bindE (reconcile_refreshed now profile_id (t_id t) d2) (\<lambda>d3.
       case get_dependency (t_id t) depends_on d3 of
         None \<Rightarrow> service_error ''task_dependency_not_found''
       | Some e \<Rightarrow> Inr (d3, e)))))"

definition remove_dependency ::
    "env \<Rightarrow> instant \<Rightarrow> string \<Rightarrow> string \<Rightarrow> string \<Rightarrow> actor \<Rightarrow> db \<Rightarrow> db res" where
  "remove_dependency env now profile_id task_id depends_on a0 d =
     bindE (dependency_actor_checks env now profile_id task_id (normalize_actor a0) d) (\<lambda>t.
     let (d1, deleted) = repo_delete_dependency (t_id t) depends_on d in
     bindE (guardE deleted (Service_Error ''task_dependency_not_found'')) (\<lambda>_.
     reconcile_refreshed now profile_id (t_id t)
       (record_task_event ((event_of (t_id t) ''dependency_removed'')
          \<lparr>e_details := [(''depends_on_task_id'', JStr depends_on)]\<rparr>) d1)))"

definition reconcile_completed_task :: "instant \<Rightarrow> string \<Rightarrow> string \<Rightarrow> db \<Rightarrow> db res" where
  "reconcile_completed_task now profile_id task_id d =
     bindE (ensure_profile_exists profile_id d) (\<lambda>_.
     bindE (guardE (get_task profile_id task_id d \<noteq> None) (Service_Error ''task_not_found'')) (\<lambda>_.
     reconcile_dependent_tasks now profile_id task_id d))"

section \<open>Delegation\<close>

record delegate_args =
  da_owner_type :: "string option"
  da_owner_ref :: "string option"
  da_description :: "string option"
  da_title :: "string option"
  da_flow_id :: "string option"
  da_priority :: "int option"
  da_due_at :: "instant option"
  da_labels :: "string list option"
  da_requires_review :: "bool option"
  da_wait :: bool
  da_handoff_note :: "string option"

definition delegated_row ::
    "instant \<Rightarrow> string \<Rightarrow> string \<Rightarrow> delegate_args \<Rightarrow> string \<Rightarrow> string \<Rightarrow> string \<Rightarrow> string option
     \<Rightarrow> actor \<Rightarrow> task \<Rightarrow> instant \<Rightarrow> task" where
  "delegated_row now new_id profile_id u oty oref description flow_id a src clock =
     (task_defaults clock)\<lparr>t_id := new_id, t_profile_id := profile_id, t_flow_id := flow_id,
        t_title := (case normalize_optional_text (da_title u) of
                      None \<Rightarrow> t_title src @ '' ['' @ oref @ '']'' | Some t \<Rightarrow> t),
        t_description := description, t_status := Todo,
        t_priority := opt_or (da_priority u) (t_priority src),
        t_due_at := (case da_due_at u of None \<Rightarrow> t_due_at src | Some i \<Rightarrow> Some i),
        t_ready_at := Some now, t_owner_type := oty, t_owner_ref := oref,
        t_source_type := ''task_delegation'', t_source_ref := Some (t_id src),
        t_created_by_type := str_or_empty (ac_type a), t_created_by_ref := str_or_empty (ac_ref a),
        t_labels := (case da_labels u of None \<Rightarrow> decode_labels (t_labels src)
                     | Some l \<Rightarrow> normalize_labels (Some l)),
        t_requires_review := opt_or (da_requires_review u) False\<rparr>"

text \<open>The wait edge on the delegated task, its event, and the source's new state.\<close>

definition wait_for_delegated ::
    "instant \<Rightarrow> string \<Rightarrow> actor \<Rightarrow> task \<Rightarrow> string \<Rightarrow> db \<Rightarrow> (db \<times> task) res" where
  "wait_for_delegated now profile_id a src new_id d =
     bindE (create_dependency_edge profile_id (t_id src) new_id Completed d) (\<lambda>(d1, _).
     let d2 = record_task_event ((event_of (t_id src) ''dependency_added'')
           \<lparr>e_actor_type := ac_type a, e_actor_ref := ac_ref a,
            e_details := [(''depends_on_task_id'', JStr new_id),
              (''satisfied_on_status'', JStr ''completed'')]\<rparr>) d1 in
     (case get_task profile_id (t_id src) d2 of
        None \<Rightarrow> Inr (d2, src)
      | Some t \<Rightarrow> reconcile_task_readiness_after_dependency_change now t d2))"

definition delegate_task_guards ::
    "env \<Rightarrow> instant \<Rightarrow> string \<Rightarrow> string \<Rightarrow> actor \<Rightarrow> string \<Rightarrow> string \<Rightarrow> db \<Rightarrow> task res" where
  "delegate_task_guards env now profile_id source_id a oty oref d =
     bindE (require_task_for env now profile_id source_id a ''task_actor_required'' d) (\<lambda>src.
     bindE (guardE (\<not> terminal_status (t_status src)) (Service_Error ''task_delegate_invalid_state'')) (\<lambda>_.
     bindE (ensure_task_actor_can_manage env src profile_id (ac_type a) (ac_ref a)) (\<lambda>_.
     bindE (ensure_actor_refs_exist env (Some profile_id) (ac_type a) (ac_ref a) None None) (\<lambda>_.
     bindE (ensure_actor_refs_exist env (Some profile_id) (Some oty) (Some oref) None None) (\<lambda>_.
     bindE (ensure_ai_owner_assignment_allowed env profile_id (ac_type a) (ac_ref a) (Some oty) (Some oref))
       (\<lambda>_. Inr src))))))"

text \<open>What is recorded about the new task: its creation, and a comment on either side.\<close>

definition record_delegated ::
    "env \<Rightarrow> string \<Rightarrow> delegate_args \<Rightarrow> string \<Rightarrow> string \<Rightarrow> string option \<Rightarrow> string \<Rightarrow> string \<Rightarrow> task
     \<Rightarrow> task \<Rightarrow> db \<Rightarrow> db" where
  "record_delegated env profile_id u oty oref flow_id aty aref src row d =
     (let d2 = record_task_event ((event_of (t_id row) ''created'')
           \<lparr>e_actor_type := Some aty, e_actor_ref := Some aref, e_to := Some (t_status row),
            e_details := [(''flow_id'', j_opt flow_id), (''owner_type'', JStr (t_owner_type row)),
              (''owner_ref'', JStr (t_owner_ref row)), (''reviewer_type'', JNull),
              (''reviewer_ref'', JNull), (''priority'', JInt (t_priority row)),
              (''labels'', JList (map JStr (t_labels row))), (''depends_on_task_ids'', JList []),
              (''requires_review'', JBool (t_requires_review row)),
              (''source_type'', JStr (t_source_type row)), (''source_ref'', j_opt (t_source_ref row))]\<rparr>) d;
         note = (case normalize_optional_text (da_handoff_note u) of
                   None \<Rightarrow> ''Delegated to '' @ oty @ '':'' @ oref @ '' as task '' @ t_id row @ ''.''
                 | Some n \<Rightarrow> n);
         d3 = fst (append_task_comment_event env profile_id (t_id src) aty aref note ''delegation'' None d2)
     in fst (append_task_comment_event env profile_id (t_id row) aty aref
          (''Delegated from task '' @ t_id src @ ''. Upstream owner: '' @ t_owner_type src @ '':''
           @ t_owner_ref src @ ''.'') ''delegation_brief'' None d3))"

definition delegate_task ::
    "env \<Rightarrow> instant \<Rightarrow> string \<Rightarrow> string \<Rightarrow> delegate_args \<Rightarrow> actor \<Rightarrow> string \<Rightarrow> db
     \<Rightarrow> (db \<times> task \<times> task) res" where
  "delegate_task env now profile_id source_task_id u a0 new_id d =
     bindE (normalize_required_text (Some source_task_id) ''source_task_id'') (\<lambda>source_id.
     case normalize_task_owner_type (da_owner_type u) of
       None \<Rightarrow> service_error ''invalid_delegated_owner_type''
     | Some oty \<Rightarrow>
     bindE (normalize_required_text (da_owner_ref u) ''delegated_owner_ref'') (\<lambda>oref.
     bindE (normalize_task_description (da_description u) True) (\<lambda>description.
     bindE (normalize_required_text (ac_type a0) ''actor_type'') (\<lambda>aty.
     bindE (normalize_required_text (ac_ref a0) ''actor_ref'') (\<lambda>aref.
     let a = \<lparr>ac_type = Some aty, ac_ref = Some aref,
              ac_session = map_given normalize_optional_text (ac_session a0)\<rparr> in
     bindE (validate_actor_pair (Some aty) (Some aref) False) (\<lambda>_.
     bindE (validate_owner_pair (Some oty) (Some oref) False) (\<lambda>_.
     bindE (ensure_public_principal_identity env a ''task_actor_required'') (\<lambda>_.
     bindE (delegate_task_guards env now profile_id source_id a oty oref d) (\<lambda>src.
     let flow_id = (case normalize_optional_text (da_flow_id u) of
                      None \<Rightarrow> t_flow_id src | Some f \<Rightarrow> Some f) in
     bindE (guardE (case flow_id of None \<Rightarrow> True | Some f \<Rightarrow> get_flow profile_id f d \<noteq> None)
              (Service_Error ''task_flow_not_found'')) (\<lambda>_.
     bindE (repo_create_task (delegated_row now new_id profile_id u oty oref
              (str_or_empty description) flow_id a src (db_clock d)) d) (\<lambda>(d1, row).
     let d4 = record_delegated env profile_id u oty oref flow_id aty aref src row d1
     in if da_wait u
        then bindE (wait_for_delegated now profile_id a src new_id d4) (\<lambda>(d5, src'). Inr (d5, src', row))
        else Inr (d4, src, row))))))))))))"

section \<open>What the successful operations tell\<close>

lemma require_task_InrD: "require_task p i d = Inr t \<Longrightarrow> get_task p i d = Some t"
  by (auto simp: require_task_def bindE_eq_Inr_iff split: option.splits)

lemma require_task_for_InrD: "require_task_for env now p i a c d = Inr t \<Longrightarrow> get_task p i d = Some t"
  using require_task_InrD by (auto simp: require_task_for_def bindE_eq_Inr_iff)

lemma dependency_actor_checks_InrD: "dependency_actor_checks env now p i a d = Inr t \<Longrightarrow> get_task p i d = Some t"
  using require_task_for_InrD by (auto simp: dependency_actor_checks_def bindE_eq_Inr_iff)

lemma get_task_self: "get_task p i d = Some t \<Longrightarrow> get_task (t_profile_id t) (t_id t) d = Some t"
  using get_task_SomeD [of p i d t] by simp

lemma prerequisites_met_cong:
  assumes "db_deps d' = db_deps d" and "db_tasks d' = db_tasks d"
  shows "prerequisites_met p i d' = prerequisites_met p i d"
proof -
  have "get_task q j d' = get_task q j d" for q j by (rule get_task_cong) (rule assms(2))
  then show ?thesis
    by (simp add: prerequisites_met_def repo_list_dependencies_def assms(1) edge_satisfied_def)
qed

text \<open>Adding or removing edges and then reconciling the task on its stored row.\<close>

lemma reconcile_refreshed_InrD:
  assumes "reconcile_refreshed now p i d = Inr d'" and "ids_unique d" and "get_task p i d = Some t"
    and "no_self_edge d"
  obtains t' where "get_task p i d' = Some t'" and "confined i d d'"
    and "waits_on_dependencies t' = (\<not> prerequisites_met p i d')"
proof -
  note tD = get_task_SomeD [OF assms(3)]
  from assms(1,3) obtain t' where
    rc: "reconcile_task_readiness_after_dependency_change now t d = Inr (d', t')"
    by (auto simp: reconcile_refreshed_def bindE_eq_Inr_iff)
  note R = reconcile_change_establishes [OF assms(2) get_task_self [OF assms(3)] assms(4) rc]
    confined_reconcile_change [OF assms(2) get_task_self [OF assms(3)] rc]
  show thesis using that [of t'] R tD by simp
qed

section \<open>Properties: dependencies\<close>

text \<open>The edge stored by a successful \<open>add_dependency\<close>, and what remains to be done.\<close>

lemma add_dependency_InrD:
  assumes "add_dependency env now p i dep st a d = Inr (d', e)"
  obtains t d1 e1 d2 s where "get_task p i d = Some t"
    and "create_dependency_edge p i dep s d = Inr (d1, e1)"
    and "\<exists>ev. d2 = record_task_event ev d1" and "reconcile_refreshed now p i d2 = Inr d'"
    and "get_dependency i dep d' = Some e"
proof -
  let ?ev = "\<lambda>i s. (event_of i ''dependency_added'')
           \<lparr>e_details := [(''depends_on_task_id'', JStr dep),
              (''satisfied_on_status'', JStr (status_name s))]\<rparr>"
  from assms obtain s t x where ck: "dependency_actor_checks env now p i (normalize_actor a) d = Inr t"
    and cx: "create_dependency_edge p (t_id t) dep s d = Inr x"
    and rest: "(case x of (d1, _) \<Rightarrow>
     let d2 = record_task_event (?ev (t_id t) s) d1 in
     bindE (reconcile_refreshed now p (t_id t) d2) (\<lambda>d3.
       case get_dependency (t_id t) dep d3 of
         None \<Rightarrow> service_error ''task_dependency_not_found''
       | Some e \<Rightarrow> Inr (d3, e))) = Inr (d', e)"
    unfolding add_dependency_def by (elim bindE_InrE) (rule that)
  have t: "get_task p i d = Some t" by (rule dependency_actor_checks_InrD [OF ck])
  note id = get_task_SomeD(3) [OF t]
  obtain d1 e1 where x: "x = (d1, e1)" by (cases x)
  have ce: "create_dependency_edge p i dep s d = Inr (d1, e1)" using cx x id by simp
  have r2: "bindE (reconcile_refreshed now p i (record_task_event (?ev i s) d1)) (\<lambda>d3.
       case get_dependency i dep d3 of
         None \<Rightarrow> service_error ''task_dependency_not_found''
       | Some e \<Rightarrow> Inr (d3, e)) = Inr (d', e)"
    using rest by (simp add: x id Let_def)
  show thesis
    by (rule that [OF t ce _ _ _])
      (use r2 in \<open>auto simp: bindE_eq_Inr_iff split: option.splits\<close>)
qed

text \<open>C6 Adding a dependency through the service keeps the dependency graph of a profile
  acyclic: the check made before the edge is stored is the only one, and it suffices.\<close>

theorem add_dependency_keeps_acyclic:
  assumes "ids_unique d" and "no_self_edge d" and "acyclic (set (dependency_edges p d))"
    and "add_dependency env now p i dep st a d = Inr (d', e)"
  shows "acyclic (set (dependency_edges p d'))"
  using assms(4)
proof (rule add_dependency_InrD)
  fix t d1 e1 d2 s
  assume t: "get_task p i d = Some t" and ce: "create_dependency_edge p i dep s d = Inr (d1, e1)"
    and ev: "\<exists>ev. d2 = record_task_event ev d1" and rf: "reconcile_refreshed now p i d2 = Inr d'"
  note E = create_dependency_edge_InrD [OF ce]
  have d2: "db_tasks d2 = db_tasks d" "db_deps d2 = db_deps d @ [e1]" using E(4) ev by auto
  have ids: "ids_unique d2" and t2: "get_task p i d2 = Some t" and ns: "no_self_edge d2"
    using assms(1,2) t get_task_cong [OF d2(1)] d2 E(2,5)
    by (auto simp: ids_unique_def no_self_edge_def)
  have "dependency_edges p d' = dependency_edges p d2"
    using rf ids t2 ns by (rule reconcile_refreshed_InrD) (rule confined_edges)
  moreover have "get_task p j d2 = get_task p j d1" for j
    by (rule get_task_cong) (use E(4) d2 in simp)
  then have "dependency_edges p d2 = dependency_edges p d1"
    using d2 E(4) by (simp add: dependency_edges_def)
  ultimately show ?thesis using acyclic_create_edge [OF assms(3) ce] by simp
qed

text \<open>After a dependency was added the task waits in the state Blocked with the reason
  \<open>dependency_wait\<close> exactly when one of its prerequisites is not in its satisfying status.\<close>

theorem add_dependency_blocks_until_met:
  assumes "ids_unique d" and "no_self_edge d"
    and "add_dependency env now p i dep st a d = Inr (d', e)"
  shows "\<exists>t'. get_task p i d' = Some t' \<and> waits_on_dependencies t' = (\<not> prerequisites_met p i d')
    \<and> e \<in> set (db_deps d') \<and> dep_task_id e = i \<and> dep_on e = dep"
  using assms(3)
proof (rule add_dependency_InrD)
  fix t d1 e1 d2 s
  assume t: "get_task p i d = Some t" and ce: "create_dependency_edge p i dep s d = Inr (d1, e1)"
    and ev: "\<exists>ev. d2 = record_task_event ev d1" and rf: "reconcile_refreshed now p i d2 = Inr d'"
    and e: "get_dependency i dep d' = Some e"
  note E = create_dependency_edge_InrD [OF ce]
  have d2: "db_tasks d2 = db_tasks d" "db_deps d2 = db_deps d @ [e1]" using E(4) ev by auto
  have ids: "ids_unique d2" and t2: "get_task p i d2 = Some t" and ns: "no_self_edge d2"
    using assms(1,2) t get_task_cong [OF d2(1)] d2 E(2,5)
    by (auto simp: ids_unique_def no_self_edge_def)
  have "e \<in> set (db_deps d')" "dep_task_id e = i" "dep_on e = dep"
    using find_SomeD [OF e [unfolded get_dependency_def]] by simp_all
  with rf ids t2 ns show ?thesis by - (rule reconcile_refreshed_InrD, blast+)
qed

text \<open>Two tasks of Ann's; \<open>b\<close> has no dependency yet.\<close>

lemma two_tasks_edges: "ids_unique two_tasks" "no_self_edge two_tasks"
  "dependency_edges ''default'' two_tasks = []"
  by code_simp+

lemma two_tasks_add:
  "is_ok (add_dependency example_env 9 ''default'' ''b'' ''a'' ''completed'' human_actor two_tasks)"
  by code_simp

theorem add_dependency_keeps_acyclic_witness:
  "\<exists>d' e. add_dependency example_env 9 ''default'' ''b'' ''a'' ''completed'' human_actor two_tasks = Inr (d', e)
     \<and> acyclic (set (dependency_edges ''default'' d'))"
proof -
  from two_tasks_add obtain d' e where
    ad: "add_dependency example_env 9 ''default'' ''b'' ''a'' ''completed'' human_actor two_tasks = Inr (d', e)"
    by (metis is_okE surj_pair)
  have "acyclic (set (dependency_edges ''default'' two_tasks))" by (simp add: two_tasks_edges acyclic_def)
  from add_dependency_keeps_acyclic [OF two_tasks_edges(1,2) this ad] ad show ?thesis by blast
qed

theorem add_dependency_blocks_until_met_witness:
  "\<exists>d' e. add_dependency example_env 9 ''default'' ''b'' ''a'' ''completed'' human_actor two_tasks = Inr (d', e)
     \<and> (\<exists>t'. get_task ''default'' ''b'' d' = Some t' \<and> waits_on_dependencies t' \<and> \<not> prerequisites_met ''default'' ''b'' d')"
proof -
  let ?r = "add_dependency example_env 9 ''default'' ''b'' ''a'' ''completed'' human_actor two_tasks"
  from two_tasks_add obtain d' e where ad: "?r = Inr (d', e)"
    by (metis is_okE surj_pair)
  have "(case ?r of Inl _ \<Rightarrow> False | Inr (d', e) \<Rightarrow> \<not> prerequisites_met ''default'' ''b'' d')" by code_simp
  with add_dependency_blocks_until_met [OF two_tasks_edges(1,2) ad] ad show ?thesis by auto
qed

text \<open>\<open>add_dependency\<close> always fails when the prerequisite's id is given with surrounding
  white space, although the prerequisite exists: the edge is stored under the stripped id and
  then looked up under the given one.\<close>

theorem add_dependency_rejects_padded_id:
  assumes "strip dep \<noteq> dep" and "\<forall>e \<in> set (db_deps d). dep_on e \<noteq> dep"
    and "ids_unique d" and "no_self_edge d"
  shows "\<not> is_ok (add_dependency env now p i dep st a d)"
proof
  assume "is_ok (add_dependency env now p i dep st a d)"
  then obtain d' e where "add_dependency env now p i dep st a d = Inr (d', e)"
    by (metis is_okE surj_pair)
  then show False
  proof (rule add_dependency_InrD)
    fix t d1 e1 d2 s
    assume t: "get_task p i d = Some t" and ce: "create_dependency_edge p i dep s d = Inr (d1, e1)"
      and ev: "\<exists>ev. d2 = record_task_event ev d1" and rf: "reconcile_refreshed now p i d2 = Inr d'"
      and e: "get_dependency i dep d' = Some e"
    note E = create_dependency_edge_InrD [OF ce]
    have d2: "db_tasks d2 = db_tasks d" "db_deps d2 = db_deps d @ [e1]" using E(4) ev by auto
    have ids: "ids_unique d2" and t2: "get_task p i d2 = Some t" and ns: "no_self_edge d2"
      using assms(3,4) t get_task_cong [OF d2(1)] d2 E(2,5)
      by (auto simp: ids_unique_def no_self_edge_def)
    have "db_deps d' = db_deps d2"
      using rf ids t2 ns by (rule reconcile_refreshed_InrD) (simp add: confined_def)
    moreover have "e \<in> set (db_deps d')" "dep_on e = dep"
      using find_SomeD [OF e [unfolded get_dependency_def]] by simp_all
    ultimately show False using assms(1,2) E(1) d2 by auto
  qed
qed

theorem add_dependency_rejects_padded_id_witness:
  "add_dependency example_env 9 ''default'' ''b'' '' a'' ''completed'' human_actor two_tasks
     = service_error ''task_dependency_not_found''
   \<and> get_task ''default'' (strip '' a'') two_tasks \<noteq> None"
proof -
  have "strip '' a'' \<noteq> '' a''" and "\<forall>e \<in> set (db_deps two_tasks). dep_on e \<noteq> '' a''"
    and "get_task ''default'' (strip '' a'') two_tasks \<noteq> None"
    and "(case add_dependency example_env 9 ''default'' ''b'' '' a'' ''completed'' human_actor two_tasks of
            Inr _ \<Rightarrow> True | Inl e \<Rightarrow> e = Service_Error ''task_dependency_not_found'')"
    by code_simp+
  with add_dependency_rejects_padded_id [OF this(1,2) two_tasks_edges(1,2), of example_env 9 "''default''"
      "''b''" "''completed''" human_actor]
  show ?thesis by (auto simp: service_error_def is_ok_def split: sum.splits)
qed

text \<open>C7 When a task is completed, no dependent of it is left behind: a task that depends on it
  and whose prerequisites are all met does not stay blocked on its dependencies (for edges
  that are satisfied by a terminal status, as the default \<open>completed\<close> is).\<close>

theorem completion_wakes_dependents:
  assumes "reconcile_completed_task now p i d = Inr d'" and "ids_unique d" and "terminal_edges d"
    and "e \<in> set (db_deps d)" and "dep_on e = i"
  shows "\<not> missed_wake p (dep_task_id e) d'"
  by (rule reconcile_dependents_no_missed_wake [OF _ assms(2-5)])
    (use assms(1) in \<open>auto simp: reconcile_completed_task_def bindE_eq_Inr_iff\<close>)

definition waiting_task :: task where
  "waiting_task = (example_task ''b'')\<lparr>t_status := Blocked,
     t_blocked_reason_code := Some ''dependency_wait''\<rparr>"

definition wait_edge :: dependency where
  "wait_edge = \<lparr>dep_task_id = ''b'', dep_on = ''a'', dep_satisfied_on = Completed\<rparr>"

definition completed_db :: db where
  "completed_db = example_db [(example_task ''a'')\<lparr>t_status := Completed\<rparr>, waiting_task] [wait_edge]"

theorem completion_wakes_dependents_witness:
  "missed_wake ''default'' ''b'' completed_db
   \<and> (\<exists>d'. reconcile_completed_task 9 ''default'' ''a'' completed_db = Inr d'
        \<and> \<not> missed_wake ''default'' ''b'' d')"
proof -
  have ok: "ids_unique completed_db" "terminal_edges completed_db"
    "missed_wake ''default'' ''b'' completed_db"
    "is_ok (reconcile_completed_task 9 ''default'' ''a'' completed_db)"
    by code_simp+
  from ok(4) obtain d' where rc: "reconcile_completed_task 9 ''default'' ''a'' completed_db = Inr d'"
    by (rule is_okE)
  have "wait_edge \<in> set (db_deps completed_db)" and "dep_on wait_edge = ''a''" and "dep_task_id wait_edge = ''b''"
    by (simp_all add: completed_db_def example_db_def wait_edge_def)
  with completion_wakes_dependents [OF rc ok(1,2)] rc ok(3) show ?thesis by metis
qed

section \<open>Properties: deletion\<close>

text \<open>Deleting a task succeeds only for a task that is not being worked on, and leaves
  nothing about it: no dependency edge in either direction, no event, run or attachment, and
  the dependents that were reconciled afterwards did not bring any back.\<close>

theorem deleted_task_leaves_no_trace:
  assumes "service_delete_task env now p raw a d = Inr d'" and "ids_unique d"
  shows "no_trace (strip raw) d' \<and> get_task p (strip raw) d' = None
    \<and> (\<exists>row. get_task p (strip raw) d = Some row \<and> \<not> active_status (t_status row))"
proof -
  from assms(1) obtain i row u where i: "normalize_required_text (Some raw) ''task_id'' = Inr i"
    and rq: "require_task p i d = Inr row"
    and g: "guardE (\<not> active_status (t_status row)) (Service_Error ''task_delete_active_conflict'') = Inr u"
    and dl: "delete_task_row now row [] d = Inr d'"
    unfolding service_delete_task_def Let_def by (elim bindE_InrE) (rule that)
  have "i = strip raw" using i by (simp add: normalize_required_text_def Let_def split: if_splits)
  then have row: "get_task p (strip raw) d = Some row" "\<not> active_status (t_status row)"
    using require_task_InrD [OF rq] g by simp_all
  show ?thesis using delete_task_row_clean [OF assms(2) dl] row get_task_SomeD [OF row(1)] by simp
qed

theorem deleted_task_leaves_no_trace_witness:
  "\<exists>d'. service_delete_task example_env 9 ''default'' ''a'' human_actor completed_db = Inr d'
     \<and> no_trace ''a'' d'"
proof -
  have ok: "ids_unique completed_db"
    "is_ok (service_delete_task example_env 9 ''default'' ''a'' human_actor completed_db)"
    "strip ''a'' = ''a''"
    by code_simp+
  from ok(2) obtain d' where dl: "service_delete_task example_env 9 ''default'' ''a'' human_actor completed_db = Inr d'"
    by (rule is_okE)
  from deleted_task_leaves_no_trace [OF dl ok(1)] dl ok(3) show ?thesis by simp
qed

section \<open>Properties: creation\<close>

lemma create_attachment_frame [simp]:
  "db_tasks (create_task_attachment ty r t na d) = db_tasks d"
  "db_deps (create_task_attachment ty r t na d) = db_deps d"
  by (simp_all add: create_task_attachment_def repo_create_attachment_def Let_def)

lemma create_attachments_frame [simp]:
  "db_tasks (fold (create_task_attachment ty r t) xs d) = db_tasks d"
  "db_deps (fold (create_task_attachment ty r t) xs d) = db_deps d"
  by (induction xs arbitrary: d) simp_all

lemma record_created_frame [simp]:
  "db_tasks (record_created u v rs t d) = db_tasks d"
  "db_deps (record_created u v rs t d) = db_deps d"
  by (simp_all add: record_created_def Let_def)

lemma add_create_edges_InrD:
  assumes "add_create_edges p i deps d = Inr d'" and "no_self_edge d"
  shows "db_tasks d' = db_tasks d \<and> no_self_edge d' \<and> set (db_deps d) \<subseteq> set (db_deps d')
    \<and> (deps \<noteq> [] \<longrightarrow> repo_list_dependencies i d' \<noteq> [])"
  using assms
proof (induction deps arbitrary: d)
  case (Cons x deps)
  then obtain d1 e where ce: "create_dependency_edge p i x Completed d = Inr (d1, e)"
    and rest: "add_create_edges p i deps d1 = Inr d'"
    by (auto simp: add_create_edges_def bindE_eq_Inr_iff)
  note E = create_dependency_edge_InrD [OF ce]
  have "no_self_edge d1" using Cons.prems(2) E(2,4,5) by (auto simp: no_self_edge_def)
  note IH = Cons.IH [OF rest this]
  have "e \<in> set (db_deps d')" using IH E(4) by auto
  with E(2) have "e \<in> set (repo_list_dependencies i d')" by (simp add: repo_list_dependencies_def)
  with IH E(4) show ?case by fastforce
qed (simp add: add_create_edges_def)

lemma normalize_create_InrD:
  assumes "normalize_create u = Inr v"
  shows "cv_depends_on v = normalize_labels (Some (ca_depends_on u))"
    and "normalize_create_task_status (ca_status u) = Inr (cv_status v)"
  using assms by (auto simp: normalize_create_def Let_def bindE_eq_Inr_iff)

text \<open>The stages of a successful creation.\<close>

lemma service_create_task_InrD:
  assumes "service_create_task env now p u new_id d = Inr (d', t)" and "no_self_edge d"
    and "normalize_labels (Some (ca_depends_on u)) \<noteq> []"
  obtains v resolved d2 d3 where "normalize_create u = Inr v"
    and "get_task p new_id d2 = Some (created_row now new_id p u v resolved (db_clock d))"
    and "ids_unique d2" and "no_self_edge d2" and "repo_list_dependencies new_id d2 \<noteq> []"
    and "reconcile_task_readiness now (created_row now new_id p u v resolved (db_clock d)) d2 = Inr (d3, t)"
    and "db_tasks d' = db_tasks d3" and "db_deps d' = db_deps d3"
proof -
  from assms(1) obtain v where nv: "normalize_create u = Inr v"
    and r1: "bindE (create_task_guards env now p u v d) (\<lambda>resolved.
        bindE (ensure_plan_status_owner_is_human (Some (create_status v)) (fst resolved)) (\<lambda>_.
        bindE (repo_create_task (created_row now new_id p u v resolved (db_clock d)) d)
          (\<lambda>(d1, row).
        bindE (add_create_edges p new_id (cv_depends_on v) d1) (\<lambda>d2.
        bindE (if cv_depends_on v \<noteq> [] then reconcile_task_readiness now row d2 else Inr (d2, row))
          (\<lambda>(d3, row').
        let d4 = fold (create_task_attachment (cv_actor_type v) (cv_actor_ref v) row')
                   (ca_attachments u) d3
        in Inr (record_created u v resolved row' d4, row')))))) = Inr (d', t)"
    by (auto simp: service_create_task_def bindE_eq_Inr_iff)
  have deps: "cv_depends_on v \<noteq> []" using normalize_create_InrD [OF nv] assms(3) by simp
  from r1 obtain rs x where cr: "repo_create_task (created_row now new_id p u v rs (db_clock d)) d = Inr x"
    and r2: "(case x of (d1, row) \<Rightarrow>
        bindE (add_create_edges p new_id (cv_depends_on v) d1) (\<lambda>d2.
        bindE (if cv_depends_on v \<noteq> [] then reconcile_task_readiness now row d2 else Inr (d2, row))
          (\<lambda>(d3, row').
        let d4 = fold (create_task_attachment (cv_actor_type v) (cv_actor_ref v) row')
                   (ca_attachments u) d3
        in Inr (record_created u v rs row' d4, row')))) = Inr (d', t)"
    by (elim bindE_InrE) (rule that)
  let ?row = "created_row now new_id p u v rs (db_clock d)"
  obtain d1 where x: "x = (d1, ?row)" and d1: "d1 = d\<lparr>db_tasks := db_tasks d @ [?row]\<rparr>"
    and tc: "task_constraints d1"
    using cr by (auto simp: repo_create_task_def Let_def bindE_eq_Inr_iff)
  from r2 obtain d2 y where ae: "add_create_edges p new_id (cv_depends_on v) d1 = Inr d2"
    and rc: "reconcile_task_readiness now ?row d2 = Inr y"
    and fin: "(case y of (d3, row') \<Rightarrow>
        let d4 = fold (create_task_attachment (cv_actor_type v) (cv_actor_ref v) row')
                   (ca_attachments u) d3
        in Inr (record_created u v rs row' d4, row')) = (Inr (d', t) :: (db \<times> task) res)"
    using deps unfolding x by (simp only: case_prod_conv if_True) (elim bindE_InrE, simp)
  obtain d3 where y: "y = (d3, t)" and d3: "db_tasks d' = db_tasks d3" "db_deps d' = db_deps d3"
    using fin by (cases y) (auto simp: Let_def)
  have row: "t_id ?row = new_id" "t_profile_id ?row = p" by (simp_all add: created_row_def Let_def)
  have "no_self_edge d1" using assms(2) by (simp add: d1 no_self_edge_def)
  note A = add_create_edges_InrD [OF ae this]
  have ids: "ids_unique d2" using tc A by (simp add: task_constraints_def ids_unique_def)
  have "get_task p new_id d2 = Some ?row"
    unfolding get_task_eq_Some_iff [OF ids] using A d1 row by simp
  with that [OF nv _ ids, of rs d3] A deps rc y d3 show thesis by simp
qed

text \<open>A task created with dependencies and without an explicit status waits for them: it is
  Blocked on \<open>dependency_wait\<close> exactly as long as one of them is not met.\<close>

theorem new_task_waits_for_dependencies:
  assumes "service_create_task env now p u new_id d = Inr (d', t)" and "no_self_edge d"
    and "normalize_labels (Some (ca_depends_on u)) \<noteq> []" and "ca_status u = None"
  shows "waits_on_dependencies t = (\<not> prerequisites_met p new_id d')"
  using assms(1-3)
proof (rule service_create_task_InrD)
  fix v rs d2 d3
  let ?row = "created_row now new_id p u v rs (db_clock d)"
  assume nv: "normalize_create u = Inr v" and g: "get_task p new_id d2 = Some ?row"
    and ids: "ids_unique d2" and ns: "no_self_edge d2" and ne: "repo_list_dependencies new_id d2 \<noteq> []"
    and rc: "reconcile_task_readiness now ?row d2 = Inr (d3, t)"
    and d': "db_tasks d' = db_tasks d3" "db_deps d' = db_deps d3"
  have row: "t_id ?row = new_id" "t_profile_id ?row = p" by (simp_all add: created_row_def Let_def)
  have w: "waits_on_dependencies ?row"
    using normalize_create_InrD [OF nv] assms(3,4)
    by (simp add: waits_on_dependencies_def created_row_def create_status_def Let_def
        normalize_create_task_status_def)
  have m: "prerequisites_met p new_id d' = prerequisites_met p new_id d3"
    by (rule prerequisites_met_cong [OF d'(2,1)])
  show ?thesis
    using rc
  proof (cases rule: reconcile_task_readiness_cases)
    case same
    with w ne m row show ?thesis by simp
  next
    case promoted
    note P = promote_task_InrD [OF ids get_task_self [OF g] promoted(1)]
    have "prerequisites_met p new_id d3"
      using prerequisites_met_local [OF P(1) ns, of p] promoted(3) row by simp
    with m todo_not_waits [OF P(3)] show ?thesis by simp
  qed
qed

definition example_create :: create_args where
  "example_create = \<lparr>ca_title = Some ''T'', ca_description = Some ''D'', ca_status = None,
     ca_created_by_type = Some ''human'', ca_created_by_ref = Some ''me'', ca_actor_session = None,
     ca_session_id = None, ca_session_profile_id = None, ca_flow_id = None, ca_priority = 50,
     ca_due_at = None, ca_owner_type = Some employee_type, ca_owner_ref = Some ''bob'',
     ca_reviewer_type = None, ca_reviewer_ref = None, ca_source_type = Some ''manual'',
     ca_source_ref = None, ca_labels = [], ca_requires_review = False, ca_depends_on = ['' a ''],
     ca_attachments = []\<rparr>"

theorem new_task_waits_for_dependencies_witness:
  "\<exists>d' t. service_create_task example_env 9 ''default'' example_create ''n'' two_tasks = Inr (d', t)
     \<and> waits_on_dependencies t \<and> \<not> prerequisites_met ''default'' ''n'' d'"
proof -
  let ?r = "service_create_task example_env 9 ''default'' example_create ''n'' two_tasks"
  have ok: "(case ?r of Inl _ \<Rightarrow> False | Inr (d', t) \<Rightarrow> waits_on_dependencies t)"
    "normalize_labels (Some (ca_depends_on example_create)) \<noteq> []" "ca_status example_create = None"
    by code_simp+
  then obtain d' t where r: "?r = Inr (d', t)" and w: "waits_on_dependencies t"
    by (cases ?r) auto
  from new_task_waits_for_dependencies [OF r two_tasks_edges(2) ok(2,3)] r w show ?thesis by blast
qed

text \<open>A task created with the explicit status \<open>todo\<close> ignores its dependencies: whether they
  are met or not it is Todo without a ready time, that is, claimable at any moment.\<close>

theorem explicit_todo_ignores_dependencies:
  assumes "service_create_task env now p u new_id d = Inr (d', t)" and "no_self_edge d"
    and "normalize_labels (Some (ca_depends_on u)) \<noteq> []"
    and "normalize_create_task_status (ca_status u) = Inr (Some Todo)"
  shows "t_status t = Todo \<and> t_ready_at t = None \<and> todo_candidate at t"
  using assms(1-3)
proof (rule service_create_task_InrD)
  fix v rs d2 d3
  let ?row = "created_row now new_id p u v rs (db_clock d)"
  assume nv: "normalize_create u = Inr v" and rc: "reconcile_task_readiness now ?row d2 = Inr (d3, t)"
  have "cv_status v = Some Todo" using normalize_create_InrD(2) [OF nv] assms(4) by simp
  then have st: "t_status ?row = Todo" and rd: "t_ready_at ?row = None"
    using normalize_create_InrD(1) [OF nv] assms(3)
    by (simp_all add: created_row_def create_status_def Let_def)
  from rc have "t = ?row"
    by (cases rule: reconcile_task_readiness_cases) (use todo_not_waits [OF st] in simp_all)
  with st rd show ?thesis by (simp add: todo_candidate_def)
qed

theorem explicit_todo_ignores_dependencies_witness:
  "\<exists>d' t. service_create_task example_env 9 ''default'' (example_create\<lparr>ca_status := Some ''todo''\<rparr>)
        ''n'' two_tasks = Inr (d', t)
     \<and> todo_candidate 10 t \<and> \<not> prerequisites_met ''default'' ''n'' d'"
proof -
  let ?u = "example_create\<lparr>ca_status := Some ''todo''\<rparr>"
  let ?r = "service_create_task example_env 9 ''default'' ?u ''n'' two_tasks"
  have ok: "(case ?r of Inl _ \<Rightarrow> False | Inr (d', t) \<Rightarrow> \<not> prerequisites_met ''default'' ''n'' d')"
    "normalize_labels (Some (ca_depends_on ?u)) \<noteq> []"
    "normalize_create_task_status (ca_status ?u) = Inr (Some Todo)"
    by code_simp+
  then obtain d' t where r: "?r = Inr (d', t)" and w: "\<not> prerequisites_met ''default'' ''n'' d'"
    by (cases ?r) auto
  from explicit_todo_ignores_dependencies [OF r two_tasks_edges(2) ok(2,3)] r w show ?thesis by blast
qed

section \<open>Properties: delegation\<close>

lemma record_mention_frame [simp]:
  "db_tasks (record_mention i r ty ref m x d) = db_tasks d"
  "db_deps (record_mention i r ty ref m x d) = db_deps d"
  by (simp_all add: record_mention_def)

lemma record_mentions_frame [simp]:
  "db_tasks (fold (record_mention i r ty ref m) xs d) = db_tasks d"
  "db_deps (fold (record_mention i r ty ref m) xs d) = db_deps d"
  by (induction xs arbitrary: d) simp_all

lemma append_comment_frame [simp]:
  "db_tasks (fst (append_task_comment_event env p i ty ref m ct r d)) = db_tasks d"
  "db_deps (fst (append_task_comment_event env p i ty ref m ct r d)) = db_deps d"
  by (simp_all add: append_task_comment_event_def create_task_event_def Let_def)

lemma wait_for_delegated_InrD:
  assumes wf: "wait_for_delegated now p a src new_id d = Inr (d', s')" and ids: "ids_unique d"
    and ns: "no_self_edge d" and src: "get_task p (t_id src) d = Some src"
    and new: "get_task p new_id d = Some c" and todo: "t_status c \<noteq> Completed"
    and tr: "strip new_id = new_id"
  shows "waits_on_dependencies s' \<and> get_task p (t_id src) d' = Some s'
    \<and> (\<exists>e \<in> set (db_deps d'). dep_task_id e = t_id src \<and> dep_on e = new_id \<and> dep_satisfied_on e = Completed)"
proof -
  note srcD = get_task_SomeD [OF src]
  from wf obtain x where cx: "create_dependency_edge p (t_id src) new_id Completed d = Inr x"
    and rest: "(case x of (d1, _) \<Rightarrow>
       let d2 = record_task_event ((event_of (t_id src) ''dependency_added'')
           \<lparr>e_actor_type := ac_type a, e_actor_ref := ac_ref a,
            e_details := [(''depends_on_task_id'', JStr new_id),
              (''satisfied_on_status'', JStr ''completed'')]\<rparr>) d1 in
       (case get_task p (t_id src) d2 of
          None \<Rightarrow> Inr (d2, src)
        | Some t \<Rightarrow> reconcile_task_readiness_after_dependency_change now t d2)) = Inr (d', s')"
    unfolding wait_for_delegated_def by (elim bindE_InrE) (rule that)
  obtain d1 e where x: "x = (d1, e)" by (cases x)
  note E = create_dependency_edge_InrD [OF cx [unfolded x]]
  have tasks1: "db_tasks d1 = db_tasks d" using E(4) by simp
  define d2 where "d2 = record_task_event ((event_of (t_id src) ''dependency_added'')
           \<lparr>e_actor_type := ac_type a, e_actor_ref := ac_ref a,
            e_details := [(''depends_on_task_id'', JStr new_id),
              (''satisfied_on_status'', JStr ''completed'')]\<rparr>) d1"
  have d2: "db_tasks d2 = db_tasks d" "db_deps d2 = db_deps d @ [e]" using E(4) by (simp_all add: d2_def)
  have rc: "reconcile_task_readiness_after_dependency_change now src d2 = Inr (d', s')"
    using rest get_task_cong [OF tasks1, of p "t_id src"] src
    by (simp add: x Let_def d2_def)
  have get2: "get_task q j d2 = get_task q j d" for q j by (rule get_task_cong [OF d2(1)])
  have ids2: "ids_unique d2" and ns2: "no_self_edge d2"
    using ids ns d2 E(2,5) by (auto simp: ids_unique_def no_self_edge_def)
  have self: "get_task (t_profile_id src) (t_id src) d2 = Some src"
    using get_task_self [OF src] by (simp add: get2)
  have c: "confined (t_id src) d2 d'" by (rule confined_reconcile_change [OF ids2 self rc])
  note R = reconcile_change_establishes [OF ids2 self ns2 rc]
  have e: "dep_on e = new_id" "dep_task_id e = t_id src" "dep_satisfied_on e = Completed"
    using E(1-3) tr by simp_all
  have mem: "e \<in> set (repo_list_dependencies (t_id src) d2)" using e d2 by (simp add: repo_list_dependencies_def)
  have "\<not> edge_satisfied p e d2" using new todo e by (simp add: edge_satisfied_def get2)
  then have "\<not> prerequisites_met p (t_id src) d2"
    using mem by (auto simp: prerequisites_met_def list_all_iff)
  moreover have "prerequisites_met p (t_id src) d' = prerequisites_met p (t_id src) d2"
    by (rule prerequisites_met_local [OF _ ns2]) (use R in blast)
  ultimately have "waits_on_dependencies s'" using R srcD(2) by simp
  moreover have "e \<in> set (db_deps d')" using c d2 by (simp add: confined_def)
  ultimately show ?thesis using R e srcD(2) by auto
qed

lemma delegate_task_guards_InrD:
  "delegate_task_guards env now p i a oty oref d = Inr src \<Longrightarrow>
     get_task p i d = Some src \<and> \<not> terminal_status (t_status src)"
  using require_task_for_InrD by (auto simp: delegate_task_guards_def bindE_eq_Inr_iff)

text \<open>Delegating with \<open>wait\<close> creates a task that is ready at once for the delegated owner and
  blocks the source on it: the source waits on an edge that only the completion of the new
  task satisfies.\<close>

theorem delegation_blocks_source:
  assumes "delegate_task env now p raw u a new_id d = Inr (d', s', c)" and "da_wait u"
    and "no_self_edge d" and "strip new_id = new_id"
  shows "waits_on_dependencies s' \<and> get_task p (strip raw) d' = Some s'
    \<and> t_status c = Todo \<and> t_ready_at c = Some now \<and> t_source_ref c = Some (strip raw)
    \<and> (\<exists>e \<in> set (db_deps d'). dep_task_id e = strip raw \<and> dep_on e = t_id c
         \<and> dep_satisfied_on e = Completed)"
proof -
  obtain oty where oty: "normalize_task_owner_type (da_owner_type u) = Some oty"
    using assms(1)
    by (cases "normalize_task_owner_type (da_owner_type u)") (auto simp: delegate_task_def bindE_eq_Inr_iff)
  from assms(1) obtain i oref desc aty aref src fl x A where
    i: "normalize_required_text (Some raw) ''source_task_id'' = Inr i"
    and gs: "delegate_task_guards env now p i A oty oref d = Inr src"
    and cr: "repo_create_task (delegated_row now new_id p u oty oref desc fl A src (db_clock d)) d = Inr x"
    and rest: "(case x of (d1, row) \<Rightarrow>
      if da_wait u
      then bindE (wait_for_delegated now p A src new_id
                    (record_delegated env p u oty oref fl aty aref src row d1))
             (\<lambda>(d5, src'). Inr (d5, src', row))
      else Inr (record_delegated env p u oty oref fl aty aref src row d1, src, row)) = Inr (d', s', c)"
    unfolding delegate_task_def oty option.case Let_def by (elim bindE_InrE) (rule that)
  have i': "i = strip raw" using i by (simp add: normalize_required_text_def Let_def split: if_splits)
  have src: "get_task p (t_id src) d = Some src" and sid: "t_id src = strip raw"
    using delegate_task_guards_InrD [OF gs] get_task_SomeD [of p i d src] i' by simp_all
  let ?row = "delegated_row now new_id p u oty oref desc fl A src (db_clock d)"
  obtain d1 where x: "x = (d1, ?row)" and d1: "d1 = d\<lparr>db_tasks := db_tasks d @ [?row]\<rparr>"
    and tc: "task_constraints d1"
    using cr by (auto simp: repo_create_task_def Let_def bindE_eq_Inr_iff)
  define d4 where "d4 = record_delegated env p u oty oref fl aty aref src ?row d1"
  have d4: "db_tasks d4 = db_tasks d @ [?row]" "db_deps d4 = db_deps d"
    by (simp_all add: d4_def record_delegated_def Let_def d1)
  have ids: "ids_unique d4" using tc d4 by (simp add: task_constraints_def ids_unique_def d1)
  have row: "t_id ?row = new_id" "t_profile_id ?row = p" "t_status ?row = Todo"
    "t_ready_at ?row = Some now" "t_source_ref ?row = Some (t_id src)"
    by (simp_all add: delegated_row_def)
  have src4: "get_task p (t_id src) d4 = Some src" and new4: "get_task p new_id d4 = Some ?row"
    unfolding get_task_eq_Some_iff [OF ids] using get_task_SomeD [OF src] row d4 by simp_all
  have ns: "no_self_edge d4" using assms(3) d4 by (simp add: no_self_edge_def)
  have wf: "wait_for_delegated now p A src new_id d4 = Inr (d', s')" and c: "c = ?row"
    using rest assms(2) by (auto simp: x Let_def d4_def bindE_eq_Inr_iff)
  have "t_status ?row \<noteq> Completed" using row by simp
  from wait_for_delegated_InrD [OF wf ids ns src4 new4 this assms(4)] row c sid
  show ?thesis by simp
qed

definition example_delegate :: delegate_args where
  "example_delegate = \<lparr>da_owner_type = Some ''human'', da_owner_ref = Some ''me'',
     da_description = Some ''D'', da_title = None, da_flow_id = None, da_priority = None,
     da_due_at = None, da_labels = None, da_requires_review = None, da_wait = True,
     da_handoff_note = None\<rparr>"

theorem delegation_blocks_source_witness:
  "\<exists>d' s' c. delegate_task example_env 9 ''default'' ''a'' example_delegate human_actor ''n'' two_tasks
       = Inr (d', s', c) \<and> waits_on_dependencies s'"
proof -
  have ok: "is_ok (delegate_task example_env 9 ''default'' ''a'' example_delegate human_actor ''n'' two_tasks)"
    "da_wait example_delegate" "strip ''n'' = ''n''"
    by code_simp+
  from ok(1) obtain r where "delegate_task example_env 9 ''default'' ''a'' example_delegate human_actor ''n'' two_tasks = Inr r"
    by (rule is_okE)
  then obtain d' s' c where
    r: "delegate_task example_env 9 ''default'' ''a'' example_delegate human_actor ''n'' two_tasks = Inr (d', s', c)"
    by (cases r) auto
  from delegation_blocks_source [OF r ok(2) two_tasks_edges(2) ok(3)] r show ?thesis by blast
qed

end
