(* ===== verification/Task_Lifecycle.thy ===== *)
theory Task_Lifecycle
  imports Task_Claims
begin

text \<open>
  The task table as a state machine: every write the repository performs on it is a step, the
  reachable tables are those the steps lead to from an empty one, and the invariants that the
  scheduler and the service rely on are proved by rule induction. A claim is committed
  against a table that may have moved since the candidate was selected.
\<close>

section \<open>Steps\<close>

text \<open>The statuses the callers pass: a release re-queues, a finalisation leaves active work.\<close>

fun op_statuses_ok :: "claim_op \<Rightarrow> bool" where
  "op_statuses_ok (Release_Expired now r st ec et) = (\<not> active_status st \<and> \<not> terminal_status st)"
| "op_statuses_ok (Release r st ec et) = (\<not> active_status st \<and> \<not> terminal_status st)"
| "op_statuses_ok (Finalize v) = (\<not> active_status (v_status v))"
| "op_statuses_ok (Clear r ec et) = True"
| "op_statuses_ok (Attach r s sp) = True"
| "op_statuses_ok (Start at) = True"
| "op_statuses_ok (Refresh l) = True"

text \<open>What a freshly built row looks like: no claim, not active, not terminal.\<close>

definition new_row :: "task \<Rightarrow> bool" where
  "new_row t \<longleftrightarrow> \<not> active_status (t_status t) \<and> \<not> terminal_status (t_status t)
     \<and> t_claim_token t = None \<and> t_claim_owner_type t = None \<and> t_claim_owner_ref t = None
     \<and> t_claim_source_status t = None \<and> t_claimed_by t = None \<and> t_lease_until t = None"

inductive task_step :: "db \<Rightarrow> db \<Rightarrow> bool" where
  create: "new_row row \<Longrightarrow> repo_create_task row d = Inr (d', row') \<Longrightarrow> task_step d d'"
| update: "repo_update_task now p i patch d = Inr (d', r) \<Longrightarrow> task_step d d'"
| claim: "fresh_token (c_token rq) d \<Longrightarrow>
     claim_attempts (Suc 0) (\<lambda>_ _. d) rq d0 = Inr (d', Some t') \<Longrightarrow> task_step d d'"
| guarded: "op_statuses_ok x \<Longrightarrow> run_claim_op x i tok d = (d', b) \<Longrightarrow> task_step d d'"
| delete: "repo_delete_task p i d = (d', b) \<Longrightarrow> task_step d d'"
| elsewhere: "db_tasks d' = db_tasks d \<Longrightarrow> task_step d d'"

inductive reachable :: "db \<Rightarrow> bool" where
  start: "db_tasks d = [] \<Longrightarrow> reachable d"
| step: "reachable d \<Longrightarrow> task_step d d' \<Longrightarrow> reachable d'"

inductive_cases task_stepE: "task_step d d'"

section \<open>The invariant\<close>

definition unclaimed :: "task \<Rightarrow> bool" where
  "unclaimed t \<longleftrightarrow> t_claim_token t = None \<and> t_claim_owner_type t = None
     \<and> t_claim_owner_ref t = None \<and> t_claim_source_status t = None \<and> t_claimed_by t = None
     \<and> t_lease_until t = None"

definition row_ok :: "task \<Rightarrow> bool" where
  "row_ok t \<longleftrightarrow> (\<not> active_status (t_status t) \<longrightarrow> unclaimed t)
     \<and> (terminal_status (t_status t) \<longrightarrow> t_finished_at t \<noteq> None)"

definition store_ok :: "db \<Rightarrow> bool" where
  "store_ok d \<longleftrightarrow> task_constraints d \<and> unique_index t_claim_token (db_tasks d)
     \<and> (\<forall>t \<in> set (db_tasks d). row_ok t)"

lemma unclaimed_clear [simp]: "unclaimed (clear_claim_columns t)"
  by (simp add: unclaimed_def clear_claim_columns_def)

lemma unclaimed_cong:
  assumes "t_claim_token u = t_claim_token t" "t_claim_owner_type u = t_claim_owner_type t"
    "t_claim_owner_ref u = t_claim_owner_ref t"
    "t_claim_source_status u = t_claim_source_status t"
    "t_claimed_by u = t_claimed_by t" "t_lease_until u = t_lease_until t"
  shows "unclaimed u = unclaimed t"
  using assms by (simp add: unclaimed_def)

lemma unclaimed_patch_blocked [simp]: "unclaimed (patch_blocked_reason p t) = unclaimed t"
  by (rule unclaimed_cong) simp_all

lemma unclaimed_patch_ready [simp]: "unclaimed (patch_ready now p t) = unclaimed t"
  by (rule unclaimed_cong) simp_all

lemma unclaimed_patch_finished [simp]: "unclaimed (patch_finished now p t) = unclaimed t"
  by (rule unclaimed_cong) simp_all

lemma unclaimed_patch_columns [simp]: "unclaimed (patch_columns p t) = unclaimed t"
  by (rule unclaimed_cong) simp_all

lemma unclaimed_touch_row [simp]: "unclaimed (touch_row c t u) = unclaimed u"
  by (rule unclaimed_cong) simp_all

lemma finished_apply_patch:
  "t_finished_at (apply_patch now p t) =
     (case p_status p of None \<Rightarrow> t_finished_at t
      | Some s \<Rightarrow> if \<not> terminal_status s then None
                  else if t_finished_at t = None then Some now else t_finished_at t)"
  by (simp add: apply_patch_def patch_finished_def split: option.split)

lemma row_ok_apply_patch:
  assumes "row_ok t"
  shows "row_ok (apply_patch now p t)"
proof (cases "p_status p")
  case None
  then have "unclaimed (apply_patch now p t) = unclaimed t"
    by (simp add: apply_patch_def patch_claim_def)
  with None assms show ?thesis by (simp add: row_ok_def finished_apply_patch)
next
  case (Some s)
  have "unclaimed (apply_patch now p t)" if "\<not> active_status s"
    using Some that by (simp add: apply_patch_def patch_claim_def)
  with Some show ?thesis by (simp add: row_ok_def finished_apply_patch)
qed

lemma row_ok_touch_row: "row_ok u \<Longrightarrow> row_ok (touch_row c t u)"
  by (simp add: row_ok_def)

lemma token_apply_patch:
  "t_claim_token (apply_patch now p t) = t_claim_token t
   \<or> t_claim_token (apply_patch now p t) = None"
  by (auto simp: apply_patch_def patch_claim_def clear_claim_columns_def split: option.split)

section \<open>Every step preserves it\<close>

lemma unique_index_put_task:
  assumes "unique_index k (db_tasks d)" and "get_task p i d = Some r0" and "t_id r = i"
    and "k r = k r0 \<or> k r = None"  and "ids_unique d"
  shows "unique_index k (db_tasks (put_task r d))"
proof -
  note D = get_task_SomeD [OF assms(2)]
  have ids: "distinct (map t_id (db_tasks d))" using assms(5) by (simp add: ids_unique_def)
  have eq: "db_tasks (put_task r d) = update_where (\<lambda>t. t_id t = t_id r0) (\<lambda>_. r) (db_tasks d)"
    using D(3) assms(3) by (simp add: put_task_def)
  show ?thesis
    unfolding eq unique_index_update_one [OF assms(1) ids D(1)]
    using unique_index_eqD [OF assms(1) D(1)] assms(4) by (metis option.distinct(1))
qed

lemma store_ok_update:
  assumes ok: "store_ok d" and up: "repo_update_task now p i patch d = Inr (d', r)"
  shows "store_ok d'"
proof (cases r)
  case None
  with up have "d' = d" by (auto simp: repo_update_task_def Let_def bindE_eq_Inr_iff split: option.splits)
  with ok show ?thesis by simp
next
  case (Some row')
  with up obtain row where row: "get_task p i d = Some row"
    and row': "row' = touch_row (db_clock d) row (apply_patch now patch row)"
    and d': "d' = put_task row' d" and tc: "task_constraints d'"
    by (auto elim: repo_update_task_SomeD)
  note D = get_task_SomeD [OF row]
  have ids: "ids_unique d" using ok by (simp add: store_ok_def)
  have "row_ok row'" unfolding row'
    by (intro row_ok_touch_row row_ok_apply_patch) (use ok D(1) in \<open>simp add: store_ok_def\<close>)
  then have "\<forall>t \<in> set (db_tasks d'). row_ok t"
    using ok unfolding d' Ball_def set_put_task store_ok_def by metis
  moreover have "unique_index t_claim_token (db_tasks d')"
    unfolding d'
    by (rule unique_index_put_task [OF _ row _ _ ids])
      (use ok D(3) row' token_apply_patch [of now patch row] in \<open>simp_all add: store_ok_def\<close>)
  ultimately show ?thesis using tc by (simp add: store_ok_def)
qed

lemma row_ok_claimed [simp]: "row_ok (claimed_row rq c clk t)"
  by (simp add: row_ok_def)

lemma distinct_map_update_where:
  assumes "distinct (map key rows)" and "\<And>t. key (f t) = key t"
  shows "distinct (map key (update_where p f rows))"
proof -
  have "map key (update_where p f rows) = map key rows" by (rule map_update_where) (rule assms(2))
  with assms(1) show ?thesis by simp
qed

lemma op_effect_owner_key:
  assumes "op_statuses_ok x" and "op_guard x i tok t"
  shows "owner_index_key (op_effect x t) = owner_index_key t \<or> owner_index_key (op_effect x t) = None"
  using assms by (cases x) (simp_all add: owner_index_key_def clear_claim_columns_def)

lemma op_effect_claim_key:
  assumes "op_statuses_ok x" and "op_guard x i tok t"
  shows "claim_index_key (op_effect x t) = claim_index_key t \<or> claim_index_key (op_effect x t) = None"
  using assms
  by (cases x) (simp_all add: claim_index_key_def clear_claim_columns_def released_row_def
      finalized_row_def split: option.split)

lemma row_ok_op_effect:
  assumes "op_statuses_ok x" and "op_guard x i tok t" and "row_ok t"
  shows "row_ok (op_effect x t)"
proof -
  have "t_claim_token t = Some tok" using op_guardD [OF assms(2)] by simp
  then have act: "active_status (t_status t)" using assms(3) by (auto simp: row_ok_def unclaimed_def)
  with assms show ?thesis
    by (cases x) (simp_all add: row_ok_def released_row_def finalized_row_def clear_claim_columns_def
        unclaimed_def active_not_terminal)
qed

lemma index_keys_touch [simp]:
  "owner_index_key (t\<lparr>t_updated_at := c\<rparr>) = owner_index_key t"
  "claim_index_key (t\<lparr>t_updated_at := c\<rparr>) = claim_index_key t"
  "row_ok (t\<lparr>t_updated_at := c\<rparr>) = row_ok t"
  by (simp_all add: owner_index_key_def claim_index_key_def row_ok_def unclaimed_def
      split: option.split)

lemma store_ok_guarded:
  assumes ok: "store_ok d" and st: "op_statuses_ok x" and run: "run_claim_op x i tok d = (d', b)"
  shows "store_ok d'"
proof -
  let ?f = "\<lambda>t. (op_effect x t)\<lparr>t_updated_at := db_clock d\<rparr>"
  have rows: "db_tasks d' = update_where (op_guard x i tok) ?f (db_tasks d)"
    using run [symmetric] by (simp add: run_claim_op_eq guarded_update_def)
  have tc: "task_constraints d" using ok by (simp add: store_ok_def)
  have "distinct (map t_id (db_tasks d'))" unfolding rows
    by (rule distinct_map_update_where) (use tc in \<open>simp_all add: task_constraints_def\<close>)
  moreover have "unique_index owner_index_key (db_tasks d')" unfolding rows
    by (rule unique_index_update_where)
      (use tc op_effect_owner_key [OF st] in \<open>simp_all add: task_constraints_def\<close>)
  moreover have "unique_index claim_index_key (db_tasks d')" unfolding rows
    by (rule unique_index_update_where)
      (use tc op_effect_claim_key [OF st] in \<open>simp_all add: task_constraints_def\<close>)
  moreover have "unique_index t_claim_token (db_tasks d')" unfolding rows
    by (rule unique_index_update_where)
      (use ok op_effect_token in \<open>simp_all add: store_ok_def\<close>)
  moreover have "\<forall>t \<in> set (db_tasks d'). row_ok t"
  proof
    fix t assume "t \<in> set (db_tasks d')"
    then obtain u where "u \<in> set (db_tasks d)" and "t = (if op_guard x i tok u then ?f u else u)"
      unfolding rows set_update_where by blast
    then show "row_ok t" using ok row_ok_op_effect [OF st, of i tok u] by (simp add: store_ok_def)
  qed
  ultimately show ?thesis by (simp add: store_ok_def task_constraints_def)
qed

lemma store_ok_claim:
  assumes ok: "store_ok d" and fresh: "fresh_token (c_token rq) d"
    and cl: "claim_attempts (Suc 0) (\<lambda>_ _. d) rq d0 = Inr (d', Some t')"
  shows "store_ok d'"
proof -
  obtain cand where sel: "select_candidate rq (db_tasks d0) = Some cand"
    using cl by (cases "select_candidate rq (db_tasks d0)") simp_all
  let ?hit = "\<lambda>t. t_id t = t_id cand \<and> still_claimable (c_now rq) (claim_owner_of cand) t"
  let ?f = "claimed_row rq cand (db_clock d)"
  have pos: "rowcount ?hit (db_tasks d) \<noteq> 0"
    using cl sel by (auto simp: Let_def split: if_splits)
  then obtain r where r: "r \<in> set (db_tasks d)" and hr: "?hit r" unfolding rowcount_0_iff by blast
  have rows: "db_tasks d' = update_where ?hit ?f (db_tasks d)" and tc: "task_constraints d'"
    using cl sel pos by (auto simp: Let_def bindE_eq_Inr_iff split: if_splits)
  have ids: "distinct (map t_id (db_tasks d))"
    and tk: "unique_index t_claim_token (db_tasks d)"
    using ok by (simp_all add: store_ok_def task_constraints_def)
  have one: "db_tasks d' = update_where (\<lambda>t. t_id t = t_id r) (\<lambda>_. ?f r) (db_tasks d)"
    unfolding rows by (rule update_where_single [OF ids r, of ?hit]) (rule hr, use hr in simp)
  have "unique_index t_claim_token (db_tasks d')"
    unfolding one unique_index_update_one [OF tk ids r]
    using fresh by (simp add: fresh_token_def)
  moreover have "\<forall>t \<in> set (db_tasks d'). row_ok t"
  proof
    fix t assume "t \<in> set (db_tasks d')"
    then obtain u where "u \<in> set (db_tasks d)" and "t = (if t_id u = t_id r then ?f r else u)"
      unfolding one set_update_where by blast
    then show "row_ok t" using ok by (simp add: store_ok_def)
  qed
  ultimately show ?thesis using tc by (simp add: store_ok_def)
qed

lemma unique_index_append_new:
  "unique_index k rows \<Longrightarrow> k r = None \<Longrightarrow> unique_index k (rows @ [r])"
  by (induction rows) auto

lemma store_ok_create:
  assumes ok: "store_ok d" and new: "new_row row" and cr: "repo_create_task row d = Inr (d', row')"
  shows "store_ok d'"
proof -
  have rows: "db_tasks d' = db_tasks d @ [row]" and tc: "task_constraints d'"
    using cr by (auto simp: repo_create_task_def Let_def bindE_eq_Inr_iff)
  have "row_ok row" using new by (simp add: new_row_def row_ok_def unclaimed_def)
  moreover have "unique_index t_claim_token (db_tasks d')" unfolding rows
    by (rule unique_index_append_new) (use ok new in \<open>simp_all add: store_ok_def new_row_def\<close>)
  ultimately show ?thesis using ok tc rows by (simp add: store_ok_def)
qed

lemma store_ok_filter:
  assumes "store_ok d" and "db_tasks d' = filter p (db_tasks d)"
  shows "store_ok d'"
  using assms by (simp add: store_ok_def task_constraints_def distinct_map_filter unique_index_filter)

lemma store_ok_delete:
  assumes "store_ok d" and "repo_delete_task p i d = (d', b)"
  shows "store_ok d'"
proof (rule store_ok_filter [OF assms(1)])
  show "db_tasks d' = filter (\<lambda>t. \<not> (t_profile_id t = p \<and> t_id t = i)) (db_tasks d)"
    using assms(2) [symmetric] by (simp add: repo_delete_task_def delete_where_def Let_def)
qed

lemma store_ok_cong:
  assumes "db_tasks d' = db_tasks d" and "store_ok d"
  shows "store_ok d'"
  using assms by (simp add: store_ok_def task_constraints_def)

lemma store_ok_step: "task_step d d' \<Longrightarrow> store_ok d \<Longrightarrow> store_ok d'"
proof (induction rule: task_step.induct)
  case (create row d d' row')
  show ?case by (rule store_ok_create [OF create(3,1,2)])
next
  case (update now p i patch d d' r)
  show ?case by (rule store_ok_update [OF update(2,1)])
next
  case (claim rq d d0 d' t')
  show ?case by (rule store_ok_claim [OF claim(3,1,2)])
next
  case (guarded x i tok d d' b)
  show ?case by (rule store_ok_guarded [OF guarded(3,1,2)])
next
  case (delete p i d d' b)
  show ?case by (rule store_ok_delete [OF delete(2,1)])
next
  case (elsewhere d' d)
  show ?case by (rule store_ok_cong [OF elsewhere])
qed

lemma store_ok_empty: "db_tasks d = [] \<Longrightarrow> store_ok d"
  by (simp add: store_ok_def task_constraints_def)

theorem reachable_store_ok: "reachable d \<Longrightarrow> store_ok d"
  by (induction rule: reachable.induct) (blast intro: store_ok_empty store_ok_step)+

section \<open>Properties\<close>

text \<open>C2 In every reachable table two active tasks of one profile never run under the same
  employee: a worker's claims exclude each other per executor.\<close>

theorem one_active_task_per_executor:
  assumes "reachable d" and "t \<in> set (db_tasks d)" and "u \<in> set (db_tasks d)"
    and "active_status (t_status t)" and "active_status (t_status u)"
    and "t_profile_id t = t_profile_id u"
    and "t_claim_owner_type t = Some employee_type" and "t_claim_owner_type u = Some employee_type"
    and "t_claim_owner_ref t = Some r" and "t_claim_owner_ref u = Some r"
  shows "t = u"
proof -
  have "unique_index claim_index_key (db_tasks d)"
    using reachable_store_ok [OF assms(1)] by (simp add: store_ok_def task_constraints_def)
  from unique_index_eqD [OF this assms(2,3)] show ?thesis
    using assms(4-10) by (simp add: claim_index_key_def)
qed

lemma reachable_two_tasks: "reachable two_tasks"
proof -
  have "new_row (example_task ''a'')" and "new_row urgent_task"
    and c1: "repo_create_task (example_task ''a'') (example_db [] [])
      = Inr (example_db [example_task ''a''] [], example_task ''a'')"
    and c2: "repo_create_task urgent_task (example_db [example_task ''a''] []) = Inr (two_tasks, urgent_task)"
    by code_simp+
  then have "task_step (example_db [] []) (example_db [example_task ''a''] [])"
    and "task_step (example_db [example_task ''a''] []) two_tasks"
    using create by blast+
  moreover have "reachable (example_db [] [])" by (rule start) (simp add: example_db_def)
  ultimately show ?thesis using step by blast
qed

definition claimed_two_tasks :: db where
  "claimed_two_tasks = claimed_db example_request urgent_task two_tasks"

lemma reachable_claimed: "reachable claimed_two_tasks"
proof (rule step [OF reachable_two_tasks])
  show "task_step two_tasks claimed_two_tasks"
  proof (rule claim [of example_request _ two_tasks])
    show "fresh_token (c_token example_request) two_tasks" by (rule two_tasks_ok)
    show "claim_attempts (Suc 0) (\<lambda>_ _. two_tasks) example_request two_tasks = Inr (claimed_two_tasks,
        Some (claimed_row example_request urgent_task 5 urgent_task))"
      unfolding claimed_two_tasks_def by code_simp
  qed
qed

theorem one_active_task_per_executor_witness:
  "\<exists>t \<in> set (db_tasks claimed_two_tasks). active_status (t_status t)
     \<and> (\<forall>u \<in> set (db_tasks claimed_two_tasks). active_status (t_status u) \<longrightarrow>
          t_claim_owner_ref u = Some ''ann'' \<longrightarrow> u = t)"
proof -
  let ?t = "claimed_row example_request urgent_task 5 urgent_task"
  have mem: "?t \<in> set (db_tasks claimed_two_tasks)" by code_simp
  have t: "active_status (t_status ?t)" "t_profile_id ?t = ''default''"
    "t_claim_owner_type ?t = Some employee_type" "t_claim_owner_ref ?t = Some ''ann''"
    by code_simp+
  have "u = ?t" if "u \<in> set (db_tasks claimed_two_tasks)" and "active_status (t_status u)"
    and "t_claim_owner_ref u = Some ''ann''" for u
  proof (rule one_active_task_per_executor [OF reachable_claimed that(1) mem that(2) t(1) _ _ t(3) that(3) t(4)])
    have all: "list_all (\<lambda>u. t_profile_id u = ''default'' \<and> (active_status (t_status u) \<longrightarrow>
        t_claim_owner_type u = Some employee_type)) (db_tasks claimed_two_tasks)"
      by code_simp
    with that(1) have u: "t_profile_id u = ''default'' \<and> (active_status (t_status u) \<longrightarrow>
        t_claim_owner_type u = Some employee_type)"
      unfolding list_all_iff by blast
    show "t_profile_id u = t_profile_id ?t" using u t(2) by simp
    show "t_claim_owner_type u = Some employee_type" using u that(2) by simp
  qed
  with mem t(1) show ?thesis by blast
qed

text \<open>C3 In every reachable table a task that is neither claimed nor running carries no claim
  columns, a finished task has its finishing time, and no two tasks carry the same token.\<close>

theorem claims_follow_status:
  assumes "reachable d" and "t \<in> set (db_tasks d)"
  shows "(\<not> active_status (t_status t) \<longrightarrow> unclaimed t)
    \<and> (terminal_status (t_status t) \<longrightarrow> t_finished_at t \<noteq> None)
    \<and> (\<forall>u \<in> set (db_tasks d). t_claim_token t \<noteq> None \<longrightarrow> t_claim_token u = t_claim_token t \<longrightarrow> u = t)"
proof -
  have ok: "store_ok d" by (rule reachable_store_ok [OF assms(1)])
  then have row: "row_ok t" and tk: "unique_index t_claim_token (db_tasks d)"
    using assms(2) by (simp_all add: store_ok_def)
  have "u = t" if "u \<in> set (db_tasks d)" "t_claim_token t \<noteq> None" "t_claim_token u = t_claim_token t" for u
    using unique_index_eqD [OF tk that(1) assms(2)] that(2,3) by auto
  with row show ?thesis by (simp add: row_ok_def)
qed

theorem claims_follow_status_witness:
  "unclaimed (example_task ''a'') \<and> example_task ''a'' \<in> set (db_tasks claimed_two_tasks)"
proof -
  have mem: "example_task ''a'' \<in> set (db_tasks claimed_two_tasks)" by code_simp
  have "\<not> active_status (t_status (example_task ''a''))" by code_simp
  with claims_follow_status [OF reachable_claimed mem] mem show ?thesis by blast
qed

text \<open>In a reachable table a worker that finalises, releases or clears its claim has ended it
  for good: nothing it sends afterwards under that token changes a task.\<close>

theorem finished_claim_is_final:
  assumes "reachable d" and "gives_up x" and "run_claim_op x i tok d = (d', True)"
    and "\<forall>c \<in> set cs. snd (snd c) = tok"
  shows "set (db_tasks (claim.runs cs d')) = set (db_tasks d')"
proof -
  have "unique_index t_claim_token (db_tasks d)"
    using reachable_store_ok [OF assms(1)] by (simp add: store_ok_def)
  from gives_up_not_held [OF this assms(2), of i tok] have "\<not> claim.held tok d'"
    using assms(3) by simp
  then show ?thesis by (rule claim.stale_runs) (rule assms(4))
qed

theorem finished_claim_is_final_witness:
  "set (db_tasks (claim.runs [(Start 50, ''b'', ''t1'')]
      (fst (release_task_claim ''b'' ''t1'' (Some 9) Todo None None claimed_two_tasks))))
   = set (db_tasks (fst (release_task_claim ''b'' ''t1'' (Some 9) Todo None None claimed_two_tasks)))"
proof -
  have "snd (release_task_claim ''b'' ''t1'' (Some 9) Todo None None claimed_two_tasks)" by code_simp
  then show ?thesis
    using finished_claim_is_final [OF reachable_claimed, of "Release (Some 9) Todo None None" "''b''" "''t1''"
        _ "[(Start 50, ''b'', ''t1'')]"]
    by (simp add: prod_eq_iff)
qed

end
