(* ===== verification/Task_Runtime.thy ===== *)
theory Task_Runtime
  imports Task_Service Task_Lifecycle
begin

text \<open>
  The detached worker (afkbot/services/task_flow/runtime_service.py): sweeping expired claims,
  claiming the next task, and turning the end of an agent turn into the task's next durable
  state. The turn itself (the agent loop) is a parameter: how it ended, its run log, and what
  happened to the database meanwhile.
\<close>

section \<open>Data\<close>

record runtime_settings =
  rs_claim_ttl_sec :: int
  rs_profile_id :: "string option"
  rs_owner_ref :: "string option"
  rs_batch_size :: int
  rs_revisit_initial_sec :: int
  rs_revisit_max_sec :: int

record claimed_execution =
  x_task_id :: string
  x_task_profile_id :: string
  x_execution_profile_id :: string
  x_flow_id :: "string option"
  x_description :: string
  x_attachments :: "attachment list"
  x_owner_type :: string
  x_owner_ref :: string
  x_executor_type :: string
  x_executor_ref :: string
  x_source_status :: status
  x_source_type :: string
  x_source_ref :: "string option"
  x_priority :: int
  x_attempt :: int
  x_requires_review :: bool
  x_labels :: "string list"
  x_claim_token :: string
  x_task_run_id :: nat
  x_session_id :: string
  x_worker_id :: string

record execution_outcome =
  o_status :: status
  o_summary :: "string option"
  o_error_code :: "string option"
  o_error_text :: "string option"
  o_blocked_code :: "string option"
  o_blocked_text :: "string option"
  o_run_id :: "int option"

definition outcome_of :: "status \<Rightarrow> execution_outcome" where
  "outcome_of st = \<lparr>o_status = st, o_summary = None, o_error_code = None, o_error_text = None,
     o_blocked_code = None, o_blocked_text = None, o_run_id = None\<rparr>"

section \<open>Helpers\<close>

definition claim_ttl :: "runtime_settings \<Rightarrow> instant" where
  "claim_ttl rs = seconds (max 1 (rs_claim_ttl_sec rs))"

definition should_schedule_blocked_revisit :: "string option \<Rightarrow> bool" where
  "should_schedule_blocked_revisit code =
     (lower (strip (str_or_empty code))
      \<in> {''external_poll'', ''external_state_poll'', ''external_status_poll''})"

definition blocked_revisit_delay_sec :: "runtime_settings \<Rightarrow> int \<Rightarrow> int" where
  "blocked_revisit_delay_sec rs attempt =
     (let n = max 1 attempt;
          initial_sec = max 60 (rs_revisit_initial_sec rs);
          max_sec = max initial_sec (rs_revisit_max_sec rs)
      in min max_sec (initial_sec * 2 ^ nat (max 0 (n - 1))))"

definition blocked_revisit_ready_at :: "runtime_settings \<Rightarrow> instant \<Rightarrow> int \<Rightarrow> instant" where
  "blocked_revisit_ready_at rs reference attempt =
     reference + seconds (blocked_revisit_delay_sec rs attempt)"

definition trim_text :: "string option \<Rightarrow> nat \<Rightarrow> string option" where
  "trim_text value limit =
     (let text = strip (str_or_empty value) in if text = [] then None else Some (take limit text))"

definition task_run_status_for_persisted_task :: "task \<Rightarrow> claimed_execution \<Rightarrow> string" where
  "task_run_status_for_persisted_task current x =
     (if t_status current = Todo then
        (if lower (strip (t_owner_type current)) \<noteq> x_owner_type x
            \<or> strip (t_owner_ref current) \<noteq> x_owner_ref x
         then ''reassigned'' else ''cancelled'')
      else status_name (t_status current))"

definition task_run_error_code :: "task \<Rightarrow> execution_outcome \<Rightarrow> string option" where
  "task_run_error_code current o' =
     (let blocked = strip (str_or_empty (t_blocked_reason_code current));
          last_code = strip (str_or_empty (t_last_error_code current))
      in if blocked \<noteq> [] then Some (take 64 blocked)
         else if last_code \<noteq> [] then Some (take 64 last_code) else o_error_code o')"

definition task_run_error_text :: "task \<Rightarrow> execution_outcome \<Rightarrow> string option" where
  "task_run_error_text current o' =
     (case trim_text (t_blocked_reason_text current) 2000 of
        Some t \<Rightarrow> Some t
      | None \<Rightarrow> (case trim_text (t_last_error_text current) 2000 of
                   Some t \<Rightarrow> Some t | None \<Rightarrow> o_error_text o'))"

definition task_event_type_for_outcome :: "status \<Rightarrow> string" where
  "task_event_type_for_outcome st =
     (case st of Completed \<Rightarrow> ''execution_completed'' | Review \<Rightarrow> ''execution_review_ready''
      | Blocked \<Rightarrow> ''execution_blocked'' | Failed \<Rightarrow> ''execution_failed''
      | _ \<Rightarrow> ''execution_finished'')"

text \<open>Python's \<open>a or b\<close> on optional texts.\<close>

definition or_text :: "string option \<Rightarrow> string option \<Rightarrow> string option" where
  "or_text a b = (case a of None \<Rightarrow> b | Some s \<Rightarrow> if s = [] then b else Some s)"

definition task_event_message_for_outcome :: "execution_outcome \<Rightarrow> string option" where
  "task_event_message_for_outcome o' =
     (case o_status o' of
        Completed \<Rightarrow> o_summary o'
      | Review \<Rightarrow> o_summary o'
      | Blocked \<Rightarrow> or_text (or_text (o_blocked_text o') (o_summary o')) (o_error_text o')
      | Failed \<Rightarrow> or_text (o_error_text o') (o_summary o')
      | _ \<Rightarrow> or_text (o_summary o') (o_error_text o'))"

definition task_event_details_for_outcome :: "execution_outcome \<Rightarrow> (string \<times> jval) list" where
  "task_event_details_for_outcome o' =
     (''summary_present'', JBool (trim_text (o_summary o') 1 \<noteq> None))
     # (case o_run_id o' of None \<Rightarrow> [] | Some r \<Rightarrow> [(''run_id'', JInt r)])
     @ (case o_error_code o' of None \<Rightarrow> [] | Some c \<Rightarrow> [(''error_code'', JStr c)])
     @ (case o_blocked_code o' of None \<Rightarrow> [] | Some c \<Rightarrow> [(''blocked_reason_code'', JStr c)])"

definition claim_release_status :: "status option \<Rightarrow> status" where
  "claim_release_status source = (if source = Some Review then Review else Todo)"

definition fallback_comment_type :: "status \<Rightarrow> string" where
  "fallback_comment_type st =
     (case st of Review \<Rightarrow> ''review_summary'' | Blocked \<Rightarrow> ''blocked_reason''
      | _ \<Rightarrow> ''completion_summary'')"

definition fallback_comment_message :: "execution_outcome \<Rightarrow> string option" where
  "fallback_comment_message o' =
     (let labelled = (\<lambda>label text none. Some (case text of None \<Rightarrow> none | Some t \<Rightarrow> label @ t)) in
      case o_status o' of
        Review \<Rightarrow> labelled ''Ready for review: '' (trim_text (o_summary o') 4000) ''Ready for review.''
      | Blocked \<Rightarrow> labelled ''Blocked: ''
          (trim_text (or_text (or_text (o_blocked_text o') (o_error_text o')) (o_summary o')) 4000)
          ''Blocked without an explicit task comment.''
      | Failed \<Rightarrow> labelled ''Failed: '' (trim_text (or_text (o_error_text o') (o_summary o')) 4000)
          ''Failed without an explicit task comment.''
      | Completed \<Rightarrow> labelled ''Completed: '' (trim_text (o_summary o') 4000)
          ''Completed without an explicit task comment.''
      | _ \<Rightarrow> None)"

definition runtime_event :: "string \<Rightarrow> string \<Rightarrow> string \<Rightarrow> event" where
  "runtime_event task_id event_type worker =
     (event_of task_id event_type)\<lparr>e_actor_type := Some ''runtime'', e_actor_ref := Some worker\<rparr>"

section \<open>Sweeping expired claims\<close>

definition lease_expired_text :: string where
  "lease_expired_text = ''Task claim lease expired before execution completed.''"

text \<open>
  One expired row. The event \<open>lease_expired\<close> always says \<open>todo\<close>, also when a review task
  goes back to review.
\<close>

definition sweep_one :: "instant \<Rightarrow> string \<Rightarrow> task \<Rightarrow> db \<times> nat \<Rightarrow> db \<times> nat" where
  "sweep_one now worker row s =
     (let token = strip (str_or_empty (t_claim_token row));
          release_to = claim_release_status (t_claim_source_status row);
          ready = (if release_to = Review then None else Some now)
      in if token = [] then s
         else
           (case release_expired_task_claim (t_id row) token now ready release_to
                   (Some ''task_lease_expired'') (Some lease_expired_text) (fst s) of
              (d1, released) \<Rightarrow>
                (if \<not> released then (d1, snd s)
                 else
                   let d2 = (case t_last_run_id row of
                          None \<Rightarrow> d1
                        | Some r \<Rightarrow> update_task_run r ''cancelled''
                            (no_run_patch\<lparr>u_error_code := Given (Some ''task_lease_expired''),
                               u_error_text := Given (Some lease_expired_text),
                               u_finished_at := Given (Some now)\<rparr>) d1);
                       d3 = record_task_event ((runtime_event (t_id row) ''lease_expired'' worker)
                          \<lparr>e_run_id := t_last_run_id row, e_message := Some lease_expired_text,
                           e_from := Some (t_status row), e_to := Some Todo,
                           e_details := [(''error_code'', JStr ''task_lease_expired'')]\<rparr>) d2;
                       d4 = record_task_event ((runtime_event (t_id row) ''recovery_action_created'' worker)
                          \<lparr>e_run_id := t_last_run_id row,
                           e_message := Some ''Expired AI claim released for retry.'',
                           e_details := [(''reason_code'', JStr ''task_lease_expired''),
                             (''owner_type'', JStr (fst (active_claim_owner_of row))),
                             (''owner_ref'', JStr (snd (active_claim_owner_of row))),
                             (''next_status'', JStr (status_name release_to)),
                             (''ready_at'', j_time ready)]\<rparr>) d3
                   in (d4, Suc (snd s)))))"

definition sweep_expired_claims ::
    "instant \<Rightarrow> string \<Rightarrow> int \<Rightarrow> string option \<Rightarrow> string option \<Rightarrow> db \<Rightarrow> db \<times> nat" where
  "sweep_expired_claims now worker limit profile_id owner_ref d =
     fold (sweep_one now worker)
       (list_expired_claimed_tasks now profile_id owner_ref (Some (nat (max 1 limit))) d) (d, 0)"

section \<open>Claiming\<close>

definition plan_guard_text :: string where
  "plan_guard_text = ''Task assigned to AI was left in PLAN; moved to Blocked so it is visible and can be fixed''"

definition guard_plan_row :: "instant \<Rightarrow> string \<Rightarrow> task \<Rightarrow> db \<times> nat \<Rightarrow> (db \<times> nat) res" where
  "guard_plan_row now worker row s =
     bindE (repo_update_task now (t_profile_id row) (t_id row)
              (no_patch\<lparr>p_status := Some Blocked,
                 p_blocked_reason_code := Given (Some ''invalid_plan_status''),
                 p_blocked_reason_text := Given (Some plan_guard_text),
                 p_ready_at := Given None\<rparr>) (fst s)) (\<lambda>(d1, r).
       if r = None then Inr (d1, snd s)
       else
         let d2 = record_task_event ((runtime_event (t_id row) ''blocked'' worker)
               \<lparr>e_message := Some plan_guard_text, e_from := Some Plan, e_to := Some Blocked,
                e_details := [(''reason_code'', JStr ''invalid_plan_status'')]\<rparr>) d1;
             d3 = record_task_event ((runtime_event (t_id row) ''runtime_claim_rejected'' worker)
               \<lparr>e_message := Some plan_guard_text, e_from := Some Plan, e_to := Some Blocked,
                e_details := [(''error_code'', JStr ''invalid_plan_status''),
                  (''owner_type'', JStr (t_owner_type row)), (''owner_ref'', JStr (t_owner_ref row))]\<rparr>) d2
         in Inr (d3, Suc (snd s)))"

definition guard_ai_owned_plan_tasks ::
    "instant \<Rightarrow> string \<Rightarrow> string option \<Rightarrow> string option \<Rightarrow> int \<Rightarrow> db \<Rightarrow> (db \<times> nat) res" where
  "guard_ai_owned_plan_tasks now worker profile_id owner_ref limit d =
     foldE (guard_plan_row now worker)
       (list_ai_plan_tasks profile_id owner_ref (Some (nat (max 1 limit))) d) (d, 0)"

definition employee_status_name :: "employee_status \<Rightarrow> string" where
  "employee_status_name st =
     (case st of Active \<Rightarrow> ''active'' | Disabled \<Rightarrow> ''disabled'' | Archived \<Rightarrow> ''archived'')"

text \<open>Why the executor cannot run, as reason code and text; None when it can.\<close>

definition inactive_reason :: "env \<Rightarrow> string \<Rightarrow> string \<Rightarrow> (string \<times> string) option res" where
  "inactive_reason env profile_id ref =
     (case get_employee (env_files env) profile_id ref of
        Inl (Service_Error code) \<Rightarrow> Inr (Some (code, env_reason_text env code))
      | Inl e \<Rightarrow> Inl e
      | Inr e \<Rightarrow>
          (if emp_status e = Active then Inr None
           else Inr (Some (''task_employee_inactive'',
                  ''Employee '' @ emp_id e @ '' is '' @ employee_status_name (emp_status e)
                  @ '' and cannot run tasks.''))))"

definition block_inactive_employee_claim ::
    "env \<Rightarrow> instant \<Rightarrow> task \<Rightarrow> string \<Rightarrow> string \<Rightarrow> string \<Rightarrow> db \<Rightarrow> (db \<times> bool) res" where
  "block_inactive_employee_claim env now row worker ty ref d =
     (if ty \<noteq> employee_type then Inr (d, False)
      else
        bindE (inactive_reason env (t_profile_id row) ref) (\<lambda>why.
          case why of
            None \<Rightarrow> Inr (d, False)
          | Some (code, text) \<Rightarrow>
              bindE (repo_update_task now (t_profile_id row) (t_id row)
                       (no_patch\<lparr>p_status := Some Blocked, p_ready_at := Given None,
                          p_blocked_reason_code := Given (Some code),
                          p_blocked_reason_text := Given (Some text)\<rparr>) d) (\<lambda>(d1, r).
                if r = None then Inr (d1, True)
                else
                  let prev = opt_or (t_claim_source_status row) Todo;
                      d2 = record_task_event ((runtime_event (t_id row) ''blocked'' worker)
                        \<lparr>e_message := Some text, e_from := Some prev, e_to := Some Blocked,
                         e_details := [(''reason_code'', JStr code), (''owner_type'', JStr ty),
                           (''owner_ref'', JStr ref)]\<rparr>) d1;
                      d3 = record_task_event ((runtime_event (t_id row) ''runtime_claim_rejected'' worker)
                        \<lparr>e_message := Some text, e_from := Some prev, e_to := Some Blocked,
                         e_details := [(''error_code'', JStr code), (''owner_type'', JStr ty),
                           (''owner_ref'', JStr ref)]\<rparr>) d2
                  in Inr (d3, True))))"

definition task_session_id :: "string \<Rightarrow> string" where
  "task_session_id task_id = ''taskflow:'' @ task_id"

definition claimed_execution_of ::
    "string \<Rightarrow> string \<Rightarrow> task \<Rightarrow> string \<times> string \<Rightarrow> nat \<Rightarrow> attachment list \<Rightarrow> claimed_execution" where
  "claimed_execution_of worker token row executor run attachments =
     \<lparr>x_task_id = t_id row, x_task_profile_id = t_profile_id row,
      x_execution_profile_id = strip (t_profile_id row), x_flow_id = t_flow_id row,
      x_description = t_description row, x_attachments = attachments,
      x_owner_type = t_owner_type row, x_owner_ref = t_owner_ref row,
      x_executor_type = fst executor, x_executor_ref = snd executor,
      x_source_status = opt_or (t_claim_source_status row) (t_status row),
      x_source_type = t_source_type row, x_source_ref = t_source_ref row,
      x_priority = t_priority row, x_attempt = t_current_attempt row + 1,
      x_requires_review = t_requires_review row, x_labels = decode_labels (t_labels row),
      x_claim_token = token, x_task_run_id = run, x_session_id = task_session_id (t_id row),
      x_worker_id = worker\<rparr>"

datatype claim_result = No_Work | Rejected | Claim claimed_execution

text \<open>One attempt is one transaction.\<close>

definition claim_transaction ::
    "env \<Rightarrow> runtime_settings \<Rightarrow> (nat \<Rightarrow> db \<Rightarrow> db) \<Rightarrow> string \<Rightarrow> instant \<Rightarrow> string \<Rightarrow> db
     \<Rightarrow> (db \<times> claim_result) res" where
  "claim_transaction env rs others worker now token d =
     bindE (guard_ai_owned_plan_tasks now worker (rs_profile_id rs) (rs_owner_ref rs)
              (max (rs_batch_size rs) 1) d) (\<lambda>(d1, _).
     bindE (claim_next_runnable_task others \<lparr>c_now = now, c_lease_until = now + claim_ttl rs,
              c_token = token, c_worker = worker, c_profile = rs_profile_id rs,
              c_owner_ref = rs_owner_ref rs\<rparr> d1) (\<lambda>(d2, claimed).
       case claimed of
         None \<Rightarrow> Inr (d2, No_Work)
       | Some row \<Rightarrow>
           (let ty = strip (fst (active_claim_owner_of row));
                ref = strip (snd (active_claim_owner_of row)) in
            bindE (block_inactive_employee_claim env now row worker ty ref d2) (\<lambda>(d3, rejected).
              if rejected then Inr (d3, Rejected)
              else
                let (d4, run) = create_task_run (t_id row) (t_current_attempt row + 1) ty ref
                      ''detached'' ''claimed'' (Some (task_session_id (t_id row))) None
                      (Some worker) now d3;
                    (d5, attached) = attach_task_run (t_id row) token (r_id run)
                      (Some (task_session_id (t_id row))) (Some (strip (t_profile_id row))) d4
                in if \<not> attached then service_error ''runtimeerror''
                   else Inr (d5, Claim (claimed_execution_of worker token row (ty, ref) (r_id run)
                          (list_task_attachments (t_id row) d5)))))))"

text \<open>
  Up to three attempts, each with its own time and token. An attempt that violates an active
  owner index is rolled back and retried; a rejected claim is committed and the loop goes on.
\<close>

fun claim_next_task ::
    "env \<Rightarrow> runtime_settings \<Rightarrow> (nat \<Rightarrow> db \<Rightarrow> db) \<Rightarrow> string \<Rightarrow> (instant \<times> string) list \<Rightarrow> db
     \<Rightarrow> db \<times> claimed_execution option res" where
  "claim_next_task env rs others worker [] d = (d, Inr None)"
| "claim_next_task env rs others worker ((now, token) # attempts) d =
     (case claim_transaction env rs others worker now token d of
        Inl (Integrity_Error ix) \<Rightarrow>
          (if ix = ''ux_task_active_employee_owner'' \<or> ix = ''ux_task_active_employee_claim_owner''
           then claim_next_task env rs others worker attempts d
           else (d, Inl (Integrity_Error ix)))
      | Inl e \<Rightarrow> (d, Inl e)
      | Inr (d', No_Work) \<Rightarrow> (d', Inr None)
      | Inr (d', Rejected) \<Rightarrow> claim_next_task env rs others worker attempts d'
      | Inr (d', Claim x) \<Rightarrow> (d', Inr (Some x)))"

section \<open>Classifying the end of a turn\<close>

text \<open>The envelope of a turn result, and the run log's events with their payload texts.\<close>

record turn_result =
  tr_action :: string
  tr_message :: "string option"
  tr_blocked_reason :: "string option"
  tr_run_id :: int

record run_event =
  re_type :: string
  re_payload :: "(string \<times> string) list"

definition payload_text :: "run_event \<Rightarrow> string \<Rightarrow> string" where
  "payload_text e key = str_or_empty (map_of (re_payload e) key)"

definition first_text :: "string \<Rightarrow> string \<Rightarrow> string" where
  "first_text a b = (if a = [] then b else a)"

definition blocked_outcome :: "string \<Rightarrow> string option \<Rightarrow> int \<Rightarrow> execution_outcome" where
  "blocked_outcome code text run_id =
     (outcome_of Blocked)\<lparr>o_summary := text, o_error_code := Some code, o_error_text := text,
        o_blocked_code := Some code, o_blocked_text := text, o_run_id := Some run_id\<rparr>"

definition failed_outcome :: "string \<Rightarrow> string option \<Rightarrow> int \<Rightarrow> execution_outcome" where
  "failed_outcome code text run_id =
     (outcome_of Failed)\<lparr>o_error_code := Some code, o_error_text := text, o_run_id := Some run_id\<rparr>"

text \<open>One event: its outcome, or None when the scan goes on.\<close>

definition classify_run_event :: "int \<Rightarrow> run_event \<Rightarrow> execution_outcome option" where
  "classify_run_event run_id e =
     (if re_type e = ''turn.finalize'' then
        (let blocked = strip (payload_text e ''blocked_reason'') in
         if blocked = [] then None
         else Some (blocked_outcome blocked
                (trim_text (Some (first_text (payload_text e ''assistant_message'') blocked)) 2000) run_id))
      else if re_type e = ''llm.call.timeout'' then
        Some (failed_outcome (strip (first_text (payload_text e ''error_code'') ''llm_timeout''))
          (Some ''Task run timed out while waiting for the LLM provider.'') run_id)
      else if re_type e = ''llm.call.error'' then
        Some (failed_outcome (strip (first_text (payload_text e ''error_code'') ''llm_provider_error''))
          (trim_text (Some (first_text (strip (payload_text e ''reason''))
             ''Task run failed before the LLM provider completed.'')) 2000) run_id)
      else if re_type e = ''llm.call.done'' then
        (let code = strip (payload_text e ''error_code'') in
         if code = [] then None
         else
           (let reason = first_text (strip (payload_text e ''reason''))
                  (''Task run completed with LLM error code: '' @ code);
                detail = strip (payload_text e ''error_detail'');
                full = (if detail \<noteq> [] \<and> \<not> occurs_in detail reason
                        then reason @ '' Detail: '' @ detail else reason)
            in Some (failed_outcome code (trim_text (Some full) 2000) run_id)))
      else None)"

fun classify_runlog_failure :: "int \<Rightarrow> run_event list \<Rightarrow> execution_outcome option" where
  "classify_runlog_failure run_id [] = None"
| "classify_runlog_failure run_id (e # es) =
     (case classify_run_event run_id e of
        Some o' \<Rightarrow> Some o' | None \<Rightarrow> classify_runlog_failure run_id es)"

text \<open>The store returns at most 256 events of the run.\<close>

definition classify_turn_result ::
    "claimed_execution \<Rightarrow> turn_result \<Rightarrow> run_event list \<Rightarrow> execution_outcome" where
  "classify_turn_result x r events =
     (if tr_action r \<noteq> ''finalize'' then
        blocked_outcome (text_or (tr_blocked_reason r) (''task_action_'' @ tr_action r))
          (trim_text (tr_message r) 2000) (tr_run_id r)
      else
        (case classify_runlog_failure (tr_run_id r) (take 256 events) of
           Some o' \<Rightarrow> o'
         | None \<Rightarrow>
             (if text_or (tr_blocked_reason r) [] \<noteq> []
              then blocked_outcome (str_or_empty (tr_blocked_reason r))
                     (trim_text (tr_message r) 2000) (tr_run_id r)
              else (outcome_of (if x_source_status x = Review \<or> x_requires_review x
                                then Review else Completed))
                     \<lparr>o_summary := trim_text (tr_message r) 4000, o_run_id := Some (tr_run_id r)\<rparr>)))"

section \<open>Persisting the outcome\<close>

definition mark_started :: "instant \<Rightarrow> claimed_execution \<Rightarrow> db \<Rightarrow> db \<times> bool" where
  "mark_started now x d =
     (let (d1, started) = mark_task_started (x_task_id x) (x_claim_token x) now d
      in (if started then update_task_run (x_task_run_id x) ''running'' no_run_patch d1 else d1,
          started))"

definition refresh_claim :: "runtime_settings \<Rightarrow> instant \<Rightarrow> claimed_execution \<Rightarrow> db \<Rightarrow> db \<times> bool" where
  "refresh_claim rs now x d =
     refresh_task_claim (x_task_id x) (x_claim_token x) (now + claim_ttl rs) d"

definition cancel_patch :: "string \<Rightarrow> string \<Rightarrow> instant \<Rightarrow> run_patch" where
  "cancel_patch code text now = no_run_patch\<lparr>u_error_code := Given (Some code),
     u_error_text := Given (Some text), u_finished_at := Given (Some now)\<rparr>"

definition release_for_retry :: "instant \<Rightarrow> claimed_execution \<Rightarrow> string \<Rightarrow> string \<Rightarrow> db \<Rightarrow> db" where
  "release_for_retry now x code text d =
     (let st = claim_release_status (Some (x_source_status x));
          d1 = fst (release_task_claim (x_task_id x) (x_claim_token x)
                 (if st = Review then None else Some now) st (Some code) (Some text) d)
      in update_task_run (x_task_run_id x) ''cancelled'' (cancel_patch code text now) d1)"

definition ensure_runtime_summary_comment :: "claimed_execution \<Rightarrow> execution_outcome \<Rightarrow> db \<Rightarrow> db" where
  "ensure_runtime_summary_comment x o' d =
     (if o_status o' \<notin> {Review, Blocked, Completed, Failed} then d
      else if has_task_run_event (x_task_run_id x) ''comment_added'' d then d
      else (case fallback_comment_message o' of
              None \<Rightarrow> d
            | Some m \<Rightarrow>
                record_task_event ((runtime_event (x_task_id x) ''comment_added'' (x_worker_id x))
                  \<lparr>e_run_id := Some (x_task_run_id x), e_message := Some m,
                   e_details := [(''comment_type'', JStr (fallback_comment_type (o_status o')))]\<rparr>) d))"

definition run_outcome_patch ::
    "execution_outcome \<Rightarrow> string option \<Rightarrow> string option \<Rightarrow> string option \<Rightarrow> instant \<Rightarrow> run_patch" where
  "run_outcome_patch o' summary code text now =
     \<lparr>u_run_id = Given (o_run_id o'), u_summary = Given summary, u_error_code = Given code,
      u_error_text = Given text, u_finished_at = Given (Some now)\<rparr>"

definition revisit_at :: "runtime_settings \<Rightarrow> instant \<Rightarrow> claimed_execution \<Rightarrow> execution_outcome \<Rightarrow> instant option" where
  "revisit_at rs now x o' =
     (if o_status o' = Blocked \<and> should_schedule_blocked_revisit (o_blocked_code o')
      then Some (blocked_revisit_ready_at rs now (x_attempt x)) else None)"

definition outcome_values :: "runtime_settings \<Rightarrow> instant \<Rightarrow> claimed_execution \<Rightarrow> execution_outcome \<Rightarrow> final_values" where
  "outcome_values rs now x o' =
     \<lparr>v_status = o_status o', v_finished_at = now, v_ready_at = Given (revisit_at rs now x o'),
      v_run_id = Some (x_task_run_id x),
      v_error_code = (if o_status o' = Failed then o_error_code o' else None),
      v_error_text = (if o_status o' = Failed then o_error_text o' else None),
      v_blocked_code = o_blocked_code o', v_blocked_text = o_blocked_text o'\<rparr>"

definition record_finalized ::
    "runtime_settings \<Rightarrow> instant \<Rightarrow> claimed_execution \<Rightarrow> execution_outcome \<Rightarrow> db \<Rightarrow> db" where
  "record_finalized rs now x o' d =
     (let d1 = update_task_run (x_task_run_id x) (status_name (o_status o'))
                 (run_outcome_patch o' (o_summary o') (o_error_code o') (o_error_text o') now) d;
          d2 = record_task_event ((runtime_event (x_task_id x)
                   (task_event_type_for_outcome (o_status o')) (x_worker_id x))
                 \<lparr>e_run_id := Some (x_task_run_id x), e_message := task_event_message_for_outcome o',
                  e_from := Some Running, e_to := Some (o_status o'),
                  e_details := task_event_details_for_outcome o'\<rparr>) d1;
          d3 = (case revisit_at rs now x o' of
                  None \<Rightarrow> d2
                | Some at \<Rightarrow>
                    record_task_event ((runtime_event (x_task_id x) ''wake_requested'' (x_worker_id x))
                      \<lparr>e_run_id := Some (x_task_run_id x),
                       e_message := Some ''Blocked AI task scheduled for revisit.'',
                       e_details := [(''reason_code'', JStr (text_or (o_blocked_code o') ''blocked_revisit'')),
                         (''owner_type'', JStr (x_owner_type x)), (''owner_ref'', JStr (x_owner_ref x)),
                         (''status'', JStr ''blocked''), (''ready_at'', JTime at)]\<rparr>) d2)
      in ensure_runtime_summary_comment x o' d3)"

text \<open>
  The task moved before this worker finalised. The row read first is the one whose columns are
  used afterwards (the session keeps the loaded object across the raw clearing update).
\<close>

definition clear_unfinalized ::
    "runtime_settings \<Rightarrow> instant \<Rightarrow> claimed_execution \<Rightarrow> execution_outcome \<Rightarrow> task \<Rightarrow> db \<Rightarrow> db res" where
  "clear_unfinalized rs now x o' current d =
     (let keep = (\<lambda>v. if o_status o' = Failed then Given v else Unset);
          d1 = (if t_claim_token current = Some (x_claim_token x)
                then fst (clear_task_claim (x_task_id x) (x_claim_token x) (Some (x_task_run_id x))
                       (keep (o_error_code o')) (keep (o_error_text o')) d)
                else d)
      in if t_status current = Blocked \<and> t_ready_at current = None
            \<and> should_schedule_blocked_revisit (t_blocked_reason_code current)
         then bindE (repo_update_task now (x_task_profile_id x) (x_task_id x)
                       (no_patch\<lparr>p_ready_at := Given (Some
                          (blocked_revisit_ready_at rs now (x_attempt x)))\<rparr>) d1) (\<lambda>r. Inr (fst r))
         else Inr d1)"

definition record_unfinalized ::
    "instant \<Rightarrow> claimed_execution \<Rightarrow> execution_outcome \<Rightarrow> task \<Rightarrow> db \<Rightarrow> db" where
  "record_unfinalized now x o' current d =
     (if active_status (t_status current)
      then update_task_run (x_task_run_id x) ''cancelled''
             (run_outcome_patch o' (o_summary o') (Some ''task_claim_lost'')
                (Some ''Task claim was lost before runtime finalization completed.'') now) d
      else update_task_run (x_task_run_id x) (task_run_status_for_persisted_task current x)
             (run_outcome_patch o'
                (if t_status current = Blocked \<or> t_status current = Review
                 then trim_text (t_blocked_reason_text current) 4000 else o_summary o')
                (task_run_error_code current o') (task_run_error_text current o') now) d)"

definition handle_unfinalized_outcome ::
    "runtime_settings \<Rightarrow> instant \<Rightarrow> claimed_execution \<Rightarrow> execution_outcome \<Rightarrow> db \<Rightarrow> (db \<times> bool) res" where
  "handle_unfinalized_outcome rs now x o' d =
     (case get_task (x_task_profile_id x) (x_task_id x) d of
        None \<Rightarrow>
          Inr (update_task_run (x_task_run_id x) ''cancelled''
                 (run_outcome_patch o' (o_summary o') (Some ''task_not_found'')
                    (Some ''Task disappeared before runtime finalization completed.'') now) d, False)
      | Some current \<Rightarrow>
          bindE (clear_unfinalized rs now x o' current d) (\<lambda>d2.
          Inr (record_unfinalized now x o' current d2, t_status current = Completed)))"

text \<open>
  One transaction for the outcome and, after it committed, one for the dependents; the
  database is returned beside the error when the second one fails.
\<close>

definition persist_outcome ::
    "runtime_settings \<Rightarrow> instant \<Rightarrow> claimed_execution \<Rightarrow> execution_outcome \<Rightarrow> db \<Rightarrow> db \<times> unit res" where
  "persist_outcome rs now x o' d =
     (case finalize_task_claim (x_task_id x) (x_claim_token x) (outcome_values rs now x o') d of
        (d1, finalized) \<Rightarrow>
          (case (if finalized then Inr (record_finalized rs now x o' d1, o_status o' = Completed)
                 else handle_unfinalized_outcome rs now x o' d1) of
             Inl e \<Rightarrow> (d, Inl e)
           | Inr (d2, reconcile) \<Rightarrow>
               (if \<not> reconcile then (d2, Inr ())
                else (case reconcile_completed_task now (x_task_profile_id x) (x_task_id x) d2 of
                        Inl e \<Rightarrow> (d2, Inl e)
                      | Inr d3 \<Rightarrow> (d3, Inr ())))))"

definition persist_failure ::
    "runtime_settings \<Rightarrow> instant \<Rightarrow> claimed_execution \<Rightarrow> string \<Rightarrow> string \<Rightarrow> db \<Rightarrow> db \<times> unit res" where
  "persist_failure rs now x code text d =
     persist_outcome rs now x
       ((outcome_of Failed)\<lparr>o_error_code := Some code, o_error_text := Some text\<rparr>) d"

section \<open>Executing a claimed task\<close>

text \<open>How the agent turn (with its lease refreshes) ended.\<close>

datatype turn_end =
    Turn_Done turn_result "run_event list"
  | Turn_Raised string string
  | Turn_Cancelled

datatype execution_end = Finished | Cancelled_Error | Raised app_error

definition runtime_target_ok :: "env \<Rightarrow> claimed_execution \<Rightarrow> unit res" where
  "runtime_target_ok env x =
     (if x_executor_type x \<noteq> employee_type then Inr ()
      else bindE (get_employee (env_files env) (x_task_profile_id x) (x_executor_ref x)) (\<lambda>e.
             guardE (emp_status e = Active) (Service_Error ''runtimeerror'')))"

definition error_code_text :: "app_error \<Rightarrow> string" where
  "error_code_text e =
     (case e of Service_Error c \<Rightarrow> take 64 c | Integrity_Error _ \<Rightarrow> ''integrityerror''
      | Value_Error \<Rightarrow> ''valueerror'' | Multiple_Results \<Rightarrow> ''multipleresultsfound''
      | Overflow_Error \<Rightarrow> ''overflowerror'' | Timeout_Error \<Rightarrow> ''timeouterror''
      | Key_Error \<Rightarrow> ''keyerror'')"

text \<open>
  \<open>during\<close> is what the agent's own tools and other sessions commit while the turn runs,
  \<open>started_at\<close> and \<open>now\<close> the times around it. Building the runtime target comes before the
  try block: its error leaves the task running under the claim.
\<close>

definition execute_claimed_task ::
    "env \<Rightarrow> runtime_settings \<Rightarrow> instant \<Rightarrow> instant \<Rightarrow> (db \<Rightarrow> db) \<Rightarrow> turn_end \<Rightarrow> claimed_execution
     \<Rightarrow> db \<Rightarrow> db \<times> execution_end" where
  "execute_claimed_task env rs started_at now during ended x d =
     (case mark_started started_at x d of
        (d1, started) \<Rightarrow>
          (if \<not> started
           then (release_for_retry now x ''task_claim_lost''
                   ''Failed to transition claimed task into running state'' d1, Finished)
           else
             (case runtime_target_ok env x of
                Inl e \<Rightarrow> (d1, Raised e)
              | Inr _ \<Rightarrow>
                  (let d2 = during d1;
                       fail = (\<lambda>code text d.
                         (case persist_failure rs now x code text d of
                            (d', Inr _) \<Rightarrow> (d', Finished) | (d', Inl e) \<Rightarrow> (d', Raised e)))
                   in case ended of
                        Turn_Cancelled \<Rightarrow>
                          (release_for_retry now x ''task_execution_cancelled''
                             ''Task execution cancelled before completion'' d2, Cancelled_Error)
                      | Turn_Raised code text \<Rightarrow> fail code text d2
                      | Turn_Done r events \<Rightarrow>
                          (case persist_outcome rs now x (classify_turn_result x r events) d2 of
                             (d3, Inr _) \<Rightarrow> (d3, Finished)
                           | (d3, Inl e) \<Rightarrow>
                               fail (error_code_text e) (env_reason_text env (error_code_text e)) d3)))))"

end
