(* ===== verification/Task_Worker.thy ===== *)
theory Task_Worker
  imports Task_Runtime
begin

text \<open>
  What a worker does to the task table between claiming a task and the end of its execution:
  every write of theory Task_Runtime is a sequence of the repository's updates, so the
  invariants of theory Task_Lifecycle carry over to whole executions.
\<close>

section \<open>The steps of a worker\<close>

text \<open>The writes a worker performs after it holds a claim.\<close>

inductive worker_step :: "db \<Rightarrow> db \<Rightarrow> bool" where
  update: "repo_update_task now p i patch d = Inr (d', r) \<Longrightarrow> worker_step d d'"
| guarded: "op_statuses_ok x \<Longrightarrow> run_claim_op x i tok d = (d', b) \<Longrightarrow> worker_step d d'"
| elsewhere: "db_tasks d' = db_tasks d \<Longrightarrow> worker_step d d'"

abbreviation worker_steps :: "db \<Rightarrow> db \<Rightarrow> bool" where
  "worker_steps \<equiv> worker_step\<^sup>*\<^sup>*"

lemma worker_task_step: "worker_step d d' \<Longrightarrow> task_step d d'"
  by (induction rule: worker_step.induct) (blast intro: task_step.intros)+

lemma worker_steps_reachable: "worker_steps d d' \<Longrightarrow> reachable d \<Longrightarrow> reachable d'"
  by (induction rule: rtranclp_induct) (blast intro: reachable.step worker_task_step)+

text \<open>The rows that carry the token of a claim are the claimed task itself.\<close>

definition claim_of :: "claimed_execution \<Rightarrow> db \<Rightarrow> bool" where
  "claim_of x d \<longleftrightarrow> (\<forall>t \<in> set (db_tasks d). t_claim_token t = Some (x_claim_token x) \<longrightarrow>
     t_id t = x_task_id x \<and> t_profile_id t = x_task_profile_id x)"

text \<open>A worker's step writes rows over rows, and puts no token on them.\<close>

lemma worker_step_origin:
  assumes "worker_step d d'" and "u \<in> set (db_tasks d')"
  shows "\<exists>t \<in> set (db_tasks d). t_id u = t_id t \<and> t_profile_id u = t_profile_id t
    \<and> (t_claim_token u = t_claim_token t \<or> t_claim_token u = None)"
  using assms
proof (induction rule: worker_step.induct)
  case (update now p i patch d d' r)
  show ?case
  proof (cases r)
    case None
    with update have "d' = d" by (auto simp: repo_update_task_def Let_def bindE_eq_Inr_iff split: option.splits)
    with update show ?thesis by blast
  next
    case (Some row')
    with update(1) obtain row where row: "get_task p i d = Some row"
      and row': "row' = touch_row (db_clock d) row (apply_patch now patch row)"
      and d': "d' = put_task row' d" by (auto elim: repo_update_task_SomeD)
    note D = get_task_SomeD [OF row]
    from update(2) obtain t where t: "t \<in> set (db_tasks d)" "u = (if t_id t = t_id row' then row' else t)"
      unfolding d' set_put_task by blast
    show ?thesis
    proof (cases "t_id t = t_id row'")
      case True
      then have "u = row'" using t by simp
      then show ?thesis using D(1) row' token_apply_patch [of now patch row] by (intro bexI [of _ row]) simp_all
    next
      case False
      with t show ?thesis by auto
    qed
  qed
next
  case (guarded x i tok d d' b)
  then have "d' = fst (guarded_update (op_guard x i tok) (op_effect x) d)" by (simp add: run_claim_op_eq)
  with guarded(3) obtain t where t: "t \<in> set (db_tasks d)"
    "u = (if op_guard x i tok t then (op_effect x t)\<lparr>t_updated_at := db_clock d\<rparr> else t)"
    using set_guarded_update by blast
  then show ?case using op_effect_token [of x t] by (intro bexI [of _ t]) simp_all
next
  case (elsewhere d' d)
  then show ?case by auto
qed

lemma worker_step_claim_of:
  assumes "worker_step d d'" and "claim_of x d"
  shows "claim_of x d'"
  unfolding claim_of_def
proof (intro ballI impI)
  fix u assume "u \<in> set (db_tasks d')" and tk: "t_claim_token u = Some (x_claim_token x)"
  from worker_step_origin [OF assms(1) this(1)] obtain t where "t \<in> set (db_tasks d)"
    "t_id u = t_id t" "t_profile_id u = t_profile_id t"
    "t_claim_token u = t_claim_token t \<or> t_claim_token u = None" by blast
  with assms(2) tk show "t_id u = x_task_id x \<and> t_profile_id u = x_task_profile_id x"
    by (simp add: claim_of_def)
qed

lemma worker_step_not_held:
  assumes "worker_step d d'" and "\<not> claim.held tok d"
  shows "\<not> claim.held tok d'"
  unfolding claim.held_def
proof (intro notI, elim bexE)
  fix u assume "u \<in> set (db_tasks d')" and tk: "t_claim_token u = Some tok"
  from worker_step_origin [OF assms(1) this(1)] tk assms(2) show False
    unfolding claim.held_def by (metis option.distinct(1))
qed

lemma worker_steps_claim_of: "worker_steps d d' \<Longrightarrow> claim_of x d \<Longrightarrow> claim_of x d'"
  by (induction rule: rtranclp_induct) (blast intro: worker_step_claim_of)+

lemma worker_steps_not_held: "worker_steps d d' \<Longrightarrow> \<not> claim.held tok d \<Longrightarrow> \<not> claim.held tok d'"
  by (induction rule: rtranclp_induct) (use worker_step_not_held in blast)+

lemma steps_elsewhere: "db_tasks d' = db_tasks d \<Longrightarrow> worker_steps d d'"
  by (blast intro: worker_step.elsewhere)

lemma steps_update: "repo_update_task now p i patch d = Inr (d', r) \<Longrightarrow> worker_steps d d'"
  by (blast intro: worker_step.update)

lemma steps_guarded: "op_statuses_ok x \<Longrightarrow> worker_steps d (fst (run_claim_op x i tok d))"
  by (metis prod.collapse r_into_rtranclp worker_step.guarded)

lemma steps_then: "worker_steps d d1 \<Longrightarrow> db_tasks d' = db_tasks d1 \<Longrightarrow> worker_steps d d'"
  using rtranclp_trans [OF _ steps_elsewhere] by metis

lemma steps_promote:
  assumes pr: "promote_task now t d = Inr (d', t')"
  shows "worker_steps d d'"
proof -
  from pr obtain d1 r where up: "repo_update_task now (t_profile_id t) (t_id t) promote_patch d = Inr (d1, r)"
    by (auto simp: promote_task_def bindE_eq_Inr_iff)
  have "db_tasks d' = db_tasks d1"
    using pr up by (cases r) (auto simp: promote_task_def Let_def split: if_splits)
  with steps_update [OF up] show ?thesis by (rule steps_then)
qed

lemma steps_reconcile: "reconcile_task_readiness now t d = Inr (d', t') \<Longrightarrow> worker_steps d d'"
  by (erule reconcile_task_readiness_cases) (simp_all add: steps_promote)

lemma steps_reconcile_dependents:
  assumes "reconcile_dependent_tasks now p i d = Inr d'"
  shows "worker_steps d d'"
proof (rule foldE_invariant [where P = "worker_steps d", OF assms [unfolded reconcile_dependent_tasks_def]])
  fix e s s'
  assume P: "worker_steps d s" and st: "(case get_task p (dep_task_id e) s of None \<Rightarrow> Inr s
        | Some t \<Rightarrow> bindE (reconcile_task_readiness now t s) (\<lambda>r. Inr (fst r))) = Inr s'"
  show "worker_steps d s'"
  proof (cases "get_task p (dep_task_id e) s")
    case None
    with P st show ?thesis by simp
  next
    case (Some t)
    with st obtain r where "reconcile_task_readiness now t s = Inr r" and "s' = fst r"
      by (auto simp: bindE_eq_Inr_iff)
    with steps_reconcile [of now t s "fst r" "snd r"] P show ?thesis by simp
  qed
qed simp

lemma steps_reconcile_completed:
  "reconcile_completed_task now p i d = Inr d' \<Longrightarrow> worker_steps d d'"
  using steps_reconcile_dependents by (auto simp: reconcile_completed_task_def bindE_eq_Inr_iff)

lemma finalize_op: "finalize_task_claim i tok v d = run_claim_op (Finalize v) i tok d"
  and clear_op: "clear_task_claim i tok r ec et d = run_claim_op (Clear r ec et) i tok d"
  and release_op: "release_task_claim i tok ra st e1 e2 d = run_claim_op (Release ra st e1 e2) i tok d"
  and start_op: "mark_task_started i tok at d = run_claim_op (Start at) i tok d"
  by simp_all

lemma db_tasks_summary_comment [simp]: "db_tasks (ensure_runtime_summary_comment x o' d) = db_tasks d"
  by (simp add: ensure_runtime_summary_comment_def split: option.split)

lemma db_tasks_record_finalized [simp]: "db_tasks (record_finalized rs now x o' d) = db_tasks d"
  by (simp add: record_finalized_def Let_def split: option.split)

lemma db_tasks_record_unfinalized [simp]: "db_tasks (record_unfinalized now x o' t d) = db_tasks d"
  by (simp add: record_unfinalized_def)

lemma steps_clear_unfinalized:
  assumes "clear_unfinalized rs now x o' current d = Inr d2"
  shows "worker_steps d d2"
proof -
  let ?keep = "\<lambda>v. if o_status o' = Failed then Given v else Unset"
  let ?d1 = "if t_claim_token current = Some (x_claim_token x)
       then fst (clear_task_claim (x_task_id x) (x_claim_token x) (Some (x_task_run_id x))
              (?keep (o_error_code o')) (?keep (o_error_text o')) d) else d"
  have s1: "worker_steps d ?d1"
    using steps_guarded [of "Clear _ _ _"] by simp
  let ?up = "repo_update_task now (x_task_profile_id x) (x_task_id x)
       (no_patch\<lparr>p_ready_at := Given (Some (blocked_revisit_ready_at rs now (x_attempt x)))\<rparr>) ?d1"
  from assms consider "d2 = ?d1" | r where "?up = Inr r" "d2 = fst r"
    by (auto simp: clear_unfinalized_def Let_def bindE_eq_Inr_iff split: if_splits)
  then show ?thesis
  proof cases
    case 1
    with s1 show ?thesis by simp
  next
    case 2
    with steps_update [of now "x_task_profile_id x" "x_task_id x" _ ?d1 "fst r" "snd r"]
    have "worker_steps ?d1 d2" by simp
    with s1 show ?thesis by (rule rtranclp_trans)
  qed
qed

lemma steps_unfinalized:
  assumes "handle_unfinalized_outcome rs now x o' d = Inr (d', b)"
  shows "worker_steps d d'"
proof (cases "get_task (x_task_profile_id x) (x_task_id x) d")
  case None
  with assms have "db_tasks d' = db_tasks d" by (auto simp: handle_unfinalized_outcome_def)
  then show ?thesis by (rule steps_elsewhere)
next
  case (Some current)
  with assms obtain d2 where "clear_unfinalized rs now x o' current d = Inr d2"
    and "d' = record_unfinalized now x o' current d2"
    by (auto simp: handle_unfinalized_outcome_def bindE_eq_Inr_iff)
  then show ?thesis using steps_then [OF steps_clear_unfinalized] by simp
qed

lemma persist_outcome_cases:
  assumes "persist_outcome rs now x o' d = (d', r)"
  obtains (rolled_back) e where "d' = d" "r = Inl e"
    | (kept) d1 fin d2 b where
      "finalize_task_claim (x_task_id x) (x_claim_token x) (outcome_values rs now x o') d = (d1, fin)"
      "fin \<Longrightarrow> db_tasks d2 = db_tasks d1"
      "\<not> fin \<Longrightarrow> handle_unfinalized_outcome rs now x o' d1 = Inr (d2, b)"
      "d' = d2 \<or> (if fin then o_status o' = Completed else b)
         \<and> reconcile_completed_task now (x_task_profile_id x) (x_task_id x) d2 = Inr d'"
proof -
  obtain d1 fin where f:
    "finalize_task_claim (x_task_id x) (x_claim_token x) (outcome_values rs now x o') d = (d1, fin)"
    by (cases "finalize_task_claim (x_task_id x) (x_claim_token x) (outcome_values rs now x o') d")
  let ?s = "if fin then Inr (record_finalized rs now x o' d1, o_status o' = Completed)
      else handle_unfinalized_outcome rs now x o' d1"
  show thesis
  proof (cases ?s)
    case (Inl e)
    then have "d' = d" "r = Inl e" using assms f by (auto simp: persist_outcome_def)
    then show thesis by (rule rolled_back)
  next
    case (Inr y)
    obtain d2 b where y: "y = (d2, b)" by (cases y)
    have "d' = d2 \<or> (if fin then o_status o' = Completed else b)
        \<and> reconcile_completed_task now (x_task_profile_id x) (x_task_id x) d2 = Inr d'"
      using assms f Inr y by (auto simp: persist_outcome_def split: if_splits sum.splits)
    moreover have "db_tasks d2 = db_tasks d1" if fin using that Inr y by auto
    moreover have "handle_unfinalized_outcome rs now x o' d1 = Inr (d2, b)" if "\<not> fin"
      using that Inr y by simp
    ultimately show thesis using kept [OF f] by blast
  qed
qed

lemma steps_persist:
  assumes "persist_outcome rs now x o' d = (d', r)" and "\<not> active_status (o_status o')"
  shows "worker_steps d d'"
  using assms(1)
proof (cases rule: persist_outcome_cases)
  case (kept d1 fin d2 b)
  have "op_statuses_ok (Finalize (outcome_values rs now x o'))"
    using assms(2) by (simp add: outcome_values_def)
  then have s1: "worker_steps d d1" using steps_guarded kept(1) by (metis finalize_op fst_conv)
  have "worker_steps d1 d2"
    using kept(2,3) steps_elsewhere [of d2 d1] steps_unfinalized by blast
  moreover have "worker_steps d2 d'" using kept(4) steps_reconcile_completed by blast
  ultimately show ?thesis using s1 by (meson rtranclp_trans)
qed simp

text \<open>In a well-formed table an active-work update by the holder of a claim always applies.\<close>

lemma active_op_applies:
  assumes "store_ok d" and "claim_of x d" and "claim.held (x_claim_token x) d"
    and "\<And>t. holds_claim (x_task_id x) (x_claim_token x) t \<Longrightarrow> active_status (t_status t)
           \<Longrightarrow> op_guard y (x_task_id x) (x_claim_token x) t"
  shows "snd (run_claim_op y (x_task_id x) (x_claim_token x) d)"
proof -
  from assms(3) obtain t where t: "t \<in> set (db_tasks d)" "t_claim_token t = Some (x_claim_token x)"
    unfolding claim.held_def by blast
  have "active_status (t_status t)"
    using assms(1) t by (auto simp: store_ok_def row_ok_def unclaimed_def)
  moreover have "holds_claim (x_task_id x) (x_claim_token x) t"
    using assms(2) t by (simp add: claim_of_def holds_claim_def)
  ultimately show ?thesis unfolding run_claim_op_eq snd_guarded_update using t(1) assms(4) by blast
qed

lemma ending_op_not_held:
  assumes ok: "store_ok d" and cl: "claim_of x d" and gu: "gives_up y"
    and act: "\<And>t. holds_claim (x_task_id x) (x_claim_token x) t \<Longrightarrow> active_status (t_status t)
           \<Longrightarrow> op_guard y (x_task_id x) (x_claim_token x) t"
    and st: "op_statuses_ok y"
  shows "\<not> claim.held (x_claim_token x) (fst (run_claim_op y (x_task_id x) (x_claim_token x) d))"
proof (cases "claim.held (x_claim_token x) d")
  case True
  have "unique_index t_claim_token (db_tasks d)" using ok by (simp add: store_ok_def)
  from gives_up_not_held [OF this gu active_op_applies [OF ok cl True act]] show ?thesis .
next
  case False
  then show ?thesis using worker_steps_not_held [OF steps_guarded [OF st]] by blast
qed

lemma persist_ends_claim:
  assumes ok: "store_ok d" and cl: "claim_of x d" and st: "\<not> active_status (o_status o')"
    and p: "persist_outcome rs now x o' d = (d', Inr ())"
  shows "\<not> claim.held (x_claim_token x) d'"
  using p
proof (cases rule: persist_outcome_cases)
  case (kept d1 fin d2 b)
  let ?y = "Finalize (outcome_values rs now x o')"
  have so: "op_statuses_ok ?y" using st by (simp add: outcome_values_def)
  have "\<not> claim.held (x_claim_token x) (fst (run_claim_op ?y (x_task_id x) (x_claim_token x) d))"
    by (rule ending_op_not_held [OF ok cl _ _ so]) simp_all
  moreover have "fst (run_claim_op ?y (x_task_id x) (x_claim_token x) d) = d1"
    using kept(1) by simp
  ultimately have "\<not> claim.held (x_claim_token x) d1" by simp
  moreover have "worker_steps d1 d2" using kept(2,3) steps_elsewhere [of d2 d1] steps_unfinalized by blast
  moreover have "worker_steps d2 d'" using kept(4) steps_reconcile_completed by blast
  ultimately show ?thesis using worker_steps_not_held by blast
qed simp

lemma outcome_status [simp]:
  "o_status (outcome_of s) = s" "o_status (blocked_outcome c t i) = Blocked"
  "o_status (failed_outcome c t i) = Failed"
  by (simp_all add: outcome_of_def blocked_outcome_def failed_outcome_def)

lemma classify_event_status:
  "classify_run_event i e = Some o' \<Longrightarrow> o_status o' = Blocked \<or> o_status o' = Failed"
  unfolding classify_run_event_def Let_def by (auto split: if_split_asm)

lemma classify_runlog_status:
  "classify_runlog_failure i es = Some o' \<Longrightarrow> o_status o' = Blocked \<or> o_status o' = Failed"
  by (induction i es rule: classify_runlog_failure.induct)
    (auto dest: classify_event_status split: option.splits)

lemma classify_turn_status: "\<not> active_status (o_status (classify_turn_result x r es))"
proof (cases "classify_runlog_failure (tr_run_id r) (take 256 es)")
  case None
  then show ?thesis by (simp add: classify_turn_result_def)
next
  case (Some o')
  with classify_runlog_status [OF this] show ?thesis by (auto simp: classify_turn_result_def)
qed

lemma steps_mark_started: "worker_steps d (fst (mark_started now x d))"
proof -
  have "worker_steps d (fst (mark_task_started (x_task_id x) (x_claim_token x) now d))"
    using steps_guarded [of "Start now"] by simp
  moreover have "db_tasks (fst (mark_started now x d))
      = db_tasks (fst (mark_task_started (x_task_id x) (x_claim_token x) now d))"
    by (simp add: mark_started_def case_prod_beta)
  ultimately show ?thesis by (rule steps_then)
qed

lemma release_for_retry_not_held:
  assumes "store_ok d" and "claim_of x d"
  shows "\<not> claim.held (x_claim_token x) (release_for_retry now x code text d)"
proof -
  let ?st = "claim_release_status (Some (x_source_status x))"
  let ?y = "Release (if ?st = Review then None else Some now) ?st (Some code) (Some text)"
  have "\<not> claim.held (x_claim_token x) (fst (run_claim_op ?y (x_task_id x) (x_claim_token x) d))"
    by (rule ending_op_not_held [OF assms]) (simp_all add: claim_release_status_def)
  then show ?thesis by (simp add: release_for_retry_def Let_def claim.held_def)
qed

section \<open>Properties\<close>

text \<open>Whatever the agent turn did to the database and however it ended (an outcome, an error,
  a cancellation, a lost start), when the execution returns no task carries the worker's token
  any more: the claim was finalised, released or cleared. (The execution that raises instead is
  the subject of the next property.)\<close>

theorem finished_execution_ends_claim:
  assumes "reachable d" and "claim_of x d"
    and during: "\<And>e. reachable e \<Longrightarrow> reachable (during e)" "\<And>e. claim_of x e \<Longrightarrow> claim_of x (during e)"
    and run: "execute_claimed_task env rs s now during ended x d = (d', r)"
    and r: "r = Finished \<or> r = Cancelled_Error"
  shows "\<not> claim.held (x_claim_token x) d'"
proof -
  obtain d1 b where ms: "mark_started s x d = (d1, b)" by (cases "mark_started s x d")
  then have s1: "worker_steps d d1" using steps_mark_started [of d s x] by simp
  have r1: "reachable d1" and c1: "claim_of x d1"
    using worker_steps_reachable [OF s1 assms(1)] worker_steps_claim_of [OF s1 assms(2)] by simp_all
  have r2: "reachable (during d1)" and c2: "claim_of x (during d1)" using during r1 c1 by blast+
  have fail: "\<not> claim.held (x_claim_token x) e'"
    if "reachable e" "claim_of x e" "persist_failure rs now x c m e = (e', Inr u)" for e e' c m u
  proof (rule persist_ends_claim [OF reachable_store_ok [OF that(1)] that(2)])
    let ?o = "(outcome_of Failed)\<lparr>o_error_code := Some c, o_error_text := Some m\<rparr>"
    show "\<not> active_status (o_status ?o)" by simp
    show "persist_outcome rs now x ?o e = (e', Inr ())" using that(3) by (simp add: persist_failure_def)
  qed
  have release: "\<not> claim.held (x_claim_token x) (release_for_retry now x c m e)"
    if "reachable e" "claim_of x e" for e c m
    by (rule release_for_retry_not_held [OF reachable_store_ok [OF that(1)] that(2)])
  consider (lost) c m where "d' = release_for_retry now x c m d1"
    | (cancelled) c m where "d' = release_for_retry now x c m (during d1)"
    | (raised) c m where "persist_failure rs now x c m (during d1) = (d', Inr ())"
    | (turn) res es where "persist_outcome rs now x (classify_turn_result x res es) (during d1) = (d', Inr ())"
    | (failed) res es d3 err c m where
        "persist_outcome rs now x (classify_turn_result x res es) (during d1) = (d3, Inl err)"
        "persist_failure rs now x c m d3 = (d', Inr ())"
    using run ms r
    by (auto simp: execute_claimed_task_def Let_def split: if_splits sum.splits turn_end.splits prod.splits)
  then show ?thesis
  proof cases
    case turn
    from persist_ends_claim [OF reachable_store_ok [OF r2] c2 classify_turn_status turn] show ?thesis .
  next
    case failed
    from steps_persist [OF failed(1) classify_turn_status] have "worker_steps (during d1) d3" .
    from worker_steps_reachable [OF this r2] worker_steps_claim_of [OF this c2] fail failed(2)
    show ?thesis by blast
  qed (use fail release r1 c1 r2 c2 in blast)+
qed

definition example_settings :: runtime_settings where
  "example_settings = \<lparr>rs_claim_ttl_sec = 60, rs_profile_id = None, rs_owner_ref = None,
     rs_batch_size = 4, rs_revisit_initial_sec = 300, rs_revisit_max_sec = 3600\<rparr>"

definition example_claim :: claimed_execution where
  "example_claim = claimed_execution_of ''w1'' ''t1''
     (claimed_row example_request urgent_task 5 urgent_task) (employee_type, ''ann'') 1 []"

definition example_result :: turn_result where
  "example_result = \<lparr>tr_action = ''finalize'', tr_message = Some ''done'',
     tr_blocked_reason = None, tr_run_id = 7\<rparr>"

definition example_turn :: turn_end where
  "example_turn = Turn_Done example_result []"

lemma example_claim_of: "claim_of example_claim claimed_two_tasks"
  by code_simp

theorem finished_execution_ends_claim_witness:
  "claim.held ''t1'' claimed_two_tasks
   \<and> \<not> claim.held ''t1'' (fst (execute_claimed_task example_env example_settings 20 30 id
          example_turn example_claim claimed_two_tasks))"
proof
  show "claim.held ''t1'' claimed_two_tasks" unfolding claim.held_def by code_simp
  let ?e = "execute_claimed_task example_env example_settings 20 30 id example_turn example_claim
      claimed_two_tasks"
  let ?m = "mark_started 20 example_claim claimed_two_tasks"
  have m: "snd ?m" and t: "runtime_target_ok example_env example_claim = Inr ()"
    and "is_ok (snd (persist_outcome example_settings 30 example_claim
       (classify_turn_result example_claim example_result []) (fst ?m)))"
    by code_simp+
  then have "snd ?e = Finished"
    by (auto simp: execute_claimed_task_def case_prod_beta example_turn_def is_ok_def split: sum.splits)
  then have "?e = (fst ?e, Finished)" by (simp add: prod_eq_iff)
  from finished_execution_ends_claim [OF reachable_claimed example_claim_of _ _ this]
  have "\<not> claim.held (x_claim_token example_claim) (fst ?e)" by simp
  moreover have "x_claim_token example_claim = ''t1''" by code_simp
  ultimately show "\<not> claim.held ''t1'' (fst ?e)" by simp
qed

text \<open>When the executor's descriptor cannot be used at the moment the execution starts, the
  execution raises after the task was marked as running and leaves it running under the claim:
  only the expiry of the lease brings it back.\<close>

theorem missing_executor_leaves_task_running:
  assumes "mark_started s x d = (d1, True)" and "runtime_target_ok env x = Inl err"
  shows "execute_claimed_task env rs s now during ended x d = (d1, Raised err)
    \<and> (\<exists>t \<in> set (db_tasks d1). holds_claim (x_task_id x) (x_claim_token x) t \<and> t_status t = Running)"
proof
  show "execute_claimed_task env rs s now during ended x d = (d1, Raised err)"
    using assms by (simp add: execute_claimed_task_def)
  let ?r = "run_claim_op (Start s) (x_task_id x) (x_claim_token x) d"
  have d1: "db_tasks d1 = db_tasks (fst ?r)" and "snd ?r"
    using assms(1) by (auto simp: mark_started_def case_prod_beta split: if_splits)
  then obtain t where t: "t \<in> set (db_tasks d)" "op_guard (Start s) (x_task_id x) (x_claim_token x) t"
    unfolding run_claim_op_eq snd_guarded_update by blast
  then have "(op_effect (Start s) t)\<lparr>t_updated_at := db_clock d\<rparr> \<in> set (db_tasks d1)"
    unfolding d1 run_claim_op_eq set_guarded_update by (intro bexI [of _ t]) simp_all
  then show "\<exists>t \<in> set (db_tasks d1). holds_claim (x_task_id x) (x_claim_token x) t \<and> t_status t = Running"
    by (rule bexI [rotated]) (use t(2) in \<open>simp add: holds_claim_def\<close>)
qed

theorem missing_executor_leaves_task_running_witness:
  "\<exists>e. snd (execute_claimed_task (example_env\<lparr>env_files := \<lambda>_. []\<rparr>) example_settings 20 30 id
          example_turn example_claim claimed_two_tasks) = Raised e
   \<and> list_ex (\<lambda>t. t_id t = ''b'' \<and> t_status t = Running)
       (db_tasks (fst (execute_claimed_task (example_env\<lparr>env_files := \<lambda>_. []\<rparr>) example_settings 20 30 id
          example_turn example_claim claimed_two_tasks)))"
proof -
  let ?env = "example_env\<lparr>env_files := \<lambda>_. []\<rparr>"
  let ?m = "mark_started 20 example_claim claimed_two_tasks"
  have "snd ?m" and "\<not> is_ok (runtime_target_ok ?env example_claim)"
    and x: "x_task_id example_claim = ''b''" by code_simp+
  then have m: "?m = (fst ?m, True)" by (simp add: prod_eq_iff)
  from \<open>\<not> is_ok _\<close> obtain err where err: "runtime_target_ok ?env example_claim = Inl err"
    by (cases "runtime_target_ok ?env example_claim") simp_all
  from missing_executor_leaves_task_running [OF m err, of example_settings 30 id example_turn] x
  show ?thesis by (auto simp: list_ex_iff holds_claim_def)
qed

section \<open>The sweep\<close>

definition claim_expired :: "instant \<Rightarrow> string option \<Rightarrow> string option \<Rightarrow> task \<Rightarrow> bool" where
  "claim_expired now profile owner_ref t =
     (fst (active_claim_owner_of t) = employee_type
      \<and> active_status (t_status t) \<and> t_claim_token t \<noteq> None
      \<and> due_at_or_before (t_lease_until t) now
      \<and> (case profile of None \<Rightarrow> True | Some p \<Rightarrow> t_profile_id t = p)
      \<and> (case owner_ref of None \<Rightarrow> True | Some r \<Rightarrow> snd (active_claim_owner_of t) = r))"

lemma set_list_expired: "set (list_expired_claimed_tasks now p r None d) =
    {t \<in> set (db_tasks d). claim_expired now p r t}"
  by (simp add: list_expired_claimed_tasks_def claim_expired_def)

lemma list_expired_take: "list_expired_claimed_tasks now p r (Some n) d =
    take n (list_expired_claimed_tasks now p r None d)"
  by (simp add: list_expired_claimed_tasks_def Let_def)

lemma distinct_map_sort_key: "distinct (map f (sort_key k xs)) = distinct (map f xs)"
  by (metis distinct_map distinct_sort set_sort)

lemma distinct_ids_expired:
  assumes "ids_unique d"
  shows "distinct (map t_id (list_expired_claimed_tasks now p r None d))"
  using assms by (simp add: list_expired_claimed_tasks_def ids_unique_def distinct_map_sort_key
      distinct_map_filter)

definition swept_row :: "instant \<Rightarrow> instant \<Rightarrow> task \<Rightarrow> task" where
  "swept_row clock now t =
     (let st = claim_release_status (t_claim_source_status t) in
      (released_row st (if st = Review then None else Some now)
        (Some ''task_lease_expired'') (Some lease_expired_text) t)\<lparr>t_updated_at := clock\<rparr>)"

lemma swept_row_sel [simp]:
  "t_id (swept_row c now t) = t_id t"
  "t_claim_token (swept_row c now t) = None"
  "t_status (swept_row c now t) = claim_release_status (t_claim_source_status t)"
  by (simp_all add: swept_row_def Let_def)

lemma swept_not_expired: "\<not> claim_expired now p r (swept_row c now t)"
  by (simp add: claim_expired_def)

definition sweepable :: "instant \<Rightarrow> task \<Rightarrow> bool" where
  "sweepable now t \<longleftrightarrow> active_status (t_status t) \<and> due_at_or_before (t_lease_until t) now
     \<and> (\<exists>tok. t_claim_token t = Some tok \<and> trimmed tok \<and> tok \<noteq> [])"

lemma update_run_clock [simp]: "db_clock (update_task_run i st p d) = db_clock d"
  by (simp add: update_task_run_def Let_def)

lemma record_event_clock [simp]: "db_clock (record_task_event ev d) = db_clock d"
  by (simp add: record_task_event_def create_task_event_def Let_def)

lemma sweep_one_sweepable:
  assumes ids: "ids_unique (fst s)" and row: "row \<in> set (db_tasks (fst s))" and sw: "sweepable now row"
  shows "db_tasks (fst (sweep_one now w row s))
       = map (\<lambda>t. if t_id t = t_id row then swept_row (db_clock (fst s)) now t else t) (db_tasks (fst s))"
    and "snd (sweep_one now w row s) = Suc (snd s)"
    and "db_clock (fst (sweep_one now w row s)) = db_clock (fst s)"
proof -
  from sw obtain tok where tok: "t_claim_token row = Some tok" "trimmed tok" "tok \<noteq> []"
    and act: "active_status (t_status row)" "due_at_or_before (t_lease_until row) now"
    by (auto simp: sweepable_def)
  let ?st = "claim_release_status (t_claim_source_status row)"
  let ?ready = "if ?st = Review then None else Some now"
  let ?rel = "release_expired_task_claim (t_id row) tok now ?ready ?st
      (Some ''task_lease_expired'') (Some lease_expired_text) (fst s)"
  let ?g = "\<lambda>t. holds_claim (t_id row) tok t \<and> active_status (t_status t) \<and> due_at_or_before (t_lease_until t) now"
  have g: "?g t \<longleftrightarrow> t = row" if "t \<in> set (db_tasks (fst s))" for t
    using ids_unique_eqD [OF ids that row] tok act by (auto simp: holds_claim_def)
  have one: "t_id t = t_id row \<longleftrightarrow> t = row" if "t \<in> set (db_tasks (fst s))" for t
    using ids_unique_eqD [OF ids that row] by auto
  have rel: "snd ?rel"
    using g [OF row] row by (auto simp: release_expired_task_claim_def snd_guarded_update)
  have tasks: "db_tasks (fst ?rel)
      = map (\<lambda>t. if t_id t = t_id row then swept_row (db_clock (fst s)) now t else t) (db_tasks (fst s))"
    using g one
    by (simp add: release_expired_task_claim_def guarded_update_def update_where_def swept_row_def Let_def)
  have clock: "db_clock (fst ?rel) = db_clock (fst s)"
    by (simp add: release_expired_task_claim_def guarded_update_def)
  have st: "strip tok = tok" using tok by (simp add: strip_trimmed)
  show "db_tasks (fst (sweep_one now w row s))
       = map (\<lambda>t. if t_id t = t_id row then swept_row (db_clock (fst s)) now t else t) (db_tasks (fst s))"
    and "snd (sweep_one now w row s) = Suc (snd s)"
    and "db_clock (fst (sweep_one now w row s)) = db_clock (fst s)"
    using rel tasks clock tok st
    by (cases "t_last_run_id row";
        simp add: sweep_one_def Let_def case_prod_beta str_or_empty_def split del: if_split)+
qed


lemma sweep_fold:
  assumes "ids_unique (fst s)" and "distinct (map t_id rows)"
    and "\<And>t. t \<in> set rows \<Longrightarrow> t \<in> set (db_tasks (fst s)) \<and> sweepable now t"
  shows "db_tasks (fst (fold (sweep_one now w) rows s)) = map (\<lambda>t. if t_id t \<in> t_id ` set rows
       then swept_row (db_clock (fst s)) now t else t) (db_tasks (fst s))
    \<and> snd (fold (sweep_one now w) rows s) = snd s + length rows"
  using assms
proof (induction rows arbitrary: s)
  case (Cons row rows)
  let ?s1 = "sweep_one now w row s"
  have row: "row \<in> set (db_tasks (fst s))" "sweepable now row" using Cons.prems(3) by simp_all
  note S = sweep_one_sweepable [OF Cons.prems(1) row, of w]
  have "map t_id (db_tasks (fst ?s1)) = map t_id (db_tasks (fst s))" unfolding S(1) by simp
  then have ids: "ids_unique (fst ?s1)" using Cons.prems(1) by (simp add: ids_unique_def)
  have rest: "t \<in> set (db_tasks (fst ?s1)) \<and> sweepable now t" if "t \<in> set rows" for t
  proof -
    have "t_id row \<notin> t_id ` set rows" using Cons.prems(2) by simp
    then have "t_id t \<noteq> t_id row" using that by (metis image_eqI)
    then show ?thesis using Cons.prems(3) that unfolding S(1) by (auto intro!: image_eqI [of _ _ t])
  qed
  have "distinct (map t_id rows)" using Cons.prems(2) by simp
  note IH = Cons.IH [OF ids this rest]
  have "t_id row \<notin> t_id ` set rows" using Cons.prems(2) by simp
  with IH S show ?case by (simp add: comp_def)
qed simp

text \<open>The sweep releases exactly the expired claims it may (at most its limit, those whose lease
  ran out first): each goes back to todo, or to review when it was claimed for a review, without
  its token, and the expired claims that remain are those beyond the limit.\<close>

theorem sweep_releases_expired:
  assumes "reachable d"
    and tok: "\<And>t k. t \<in> set (db_tasks d) \<Longrightarrow> t_claim_token t = Some k \<Longrightarrow> trimmed k \<and> k \<noteq> []"
    and sw: "sweep_expired_claims now w limit p r d = (d', n)"
    and L: "L = list_expired_claimed_tasks now p r None d" and k: "k = nat (max 1 limit)"
  shows "n = min k (length L)
    \<and> set (list_expired_claimed_tasks now p r None d') = set (drop k L)
    \<and> (\<forall>t \<in> set (take k L). \<exists>u \<in> set (db_tasks d'). t_id u = t_id t \<and> t_claim_token u = None
         \<and> t_status u = (if t_claim_source_status t = Some Review then Review else Todo))"
proof -
  have ids: "ids_unique d" using reachable_store_ok [OF assms(1)] by (simp add: store_ok_def)
  have dist: "distinct (map t_id L)" unfolding L by (rule distinct_ids_expired [OF ids])
  have mem: "t \<in> set (db_tasks d) \<and> claim_expired now p r t" if "t \<in> set L" for t
    using that unfolding L set_list_expired by simp
  have swp: "sweepable now t" if "t \<in> set L" for t
    using mem [OF that] tok [of t] by (auto simp: claim_expired_def sweepable_def)
  let ?hit = "t_id ` set (take k L)"
  have "distinct (map t_id (take k L))" using dist by (simp add: take_map [symmetric])
  moreover have "t \<in> set (db_tasks (fst (d, 0 :: nat))) \<and> sweepable now t" if "t \<in> set (take k L)" for t
    using mem swp in_set_takeD [OF that] by simp
  ultimately have F: "db_tasks (fst (fold (sweep_one now w) (take k L) (d, 0)))
      = map (\<lambda>t. if t_id t \<in> ?hit then swept_row (db_clock d) now t else t) (db_tasks d)"
    "snd (fold (sweep_one now w) (take k L) (d, 0)) = length (take k L)"
    using sweep_fold [of "(d, 0)" "take k L" now w] ids by simp_all
  have run: "fold (sweep_one now w) (take k L) (d, 0) = (d', n)"
    using sw by (simp add: sweep_expired_claims_def list_expired_take L k)
  note fold = F(1) [unfolded run fst_conv] and n = F(2) [unfolded run snd_conv]
  have disj: "t_id t \<in> ?hit \<longleftrightarrow> t \<in> set (take k L)" if "t \<in> set (db_tasks d)" for t
    using ids_unique_eqD [OF ids that] mem in_set_takeD [of _ k L] by blast
  have split: "set (drop k L) = set L - set (take k L)"
  proof -
    have "distinct L" using dist by (simp add: distinct_map)
    then have "set (take k L) \<inter> set (drop k L) = {}" by (metis append_take_drop_id distinct_append)
    moreover have "set L = set (take k L) \<union> set (drop k L)" by (metis append_take_drop_id set_append)
    ultimately show ?thesis by blast
  qed
  have "u \<in> set (list_expired_claimed_tasks now p r None d') \<longleftrightarrow> u \<in> set (drop k L)" for u
  proof
    assume "u \<in> set (list_expired_claimed_tasks now p r None d')"
    then have u: "u \<in> set (db_tasks d')" "claim_expired now p r u" unfolding set_list_expired by simp_all
    then obtain t where t: "t \<in> set (db_tasks d)"
      "u = (if t_id t \<in> ?hit then swept_row (db_clock d) now t else t)" unfolding fold by auto
    with u(2) swept_not_expired have "t_id t \<notin> ?hit" by metis
    with t u(2) disj show "u \<in> set (drop k L)" unfolding split by (simp add: L set_list_expired)
  next
    assume "u \<in> set (drop k L)"
    then have u: "u \<in> set L" "u \<notin> set (take k L)" unfolding split by simp_all
    with mem disj have "t_id u \<notin> ?hit" by blast
    then have "u \<in> set (db_tasks d')"
      unfolding fold using mem [OF u(1)] by (auto intro!: image_eqI [of _ _ u])
    then show "u \<in> set (list_expired_claimed_tasks now p r None d')"
      using mem [OF u(1)] unfolding set_list_expired by simp
  qed
  then have "set (list_expired_claimed_tasks now p r None d') = set (drop k L)" by blast
  moreover have "\<exists>u \<in> set (db_tasks d'). t_id u = t_id t \<and> t_claim_token u = None
         \<and> t_status u = (if t_claim_source_status t = Some Review then Review else Todo)"
    if t: "t \<in> set (take k L)" for t
  proof -
    have "swept_row (db_clock d) now t \<in> set (db_tasks d')"
      unfolding fold using t mem [OF in_set_takeD [OF t]] by (auto intro!: image_eqI [of _ _ t])
    then show ?thesis by (rule bexI [rotated]) (simp add: claim_release_status_def)
  qed
  ultimately show ?thesis using n by simp
qed

theorem sweep_releases_expired_witness:
  "snd (sweep_expired_claims 1000000000 ''w2'' 100 None None claimed_two_tasks) = 1"
proof -
  let ?L = "list_expired_claimed_tasks 1000000000 None None None claimed_two_tasks"
  have tok: "list_all (\<lambda>t. t_claim_token t = None \<or> t_claim_token t = Some ''t1'') (db_tasks claimed_two_tasks)"
    by code_simp
  have t: "trimmed k \<and> k \<noteq> []" if "t \<in> set (db_tasks claimed_two_tasks)" "t_claim_token t = Some k" for t k
  proof -
    have "trimmed ''t1''" by code_simp
    moreover have "k = ''t1''" using tok that by (auto simp: list_all_iff)
    ultimately show ?thesis by simp
  qed
  have "length ?L = 1" by code_simp
  with sweep_releases_expired [OF reachable_claimed t prod.collapse [symmetric] refl refl] show ?thesis by simp
qed

section \<open>The outcome on the task\<close>

text \<open>Reconciling dependents leaves alone every task that is not blocked.\<close>

lemma reconcile_dependents_keeps:
  assumes "reconcile_dependent_tasks now p j d = Inr d'" and "ids_unique d"
    and "get_task p i d = Some t" and "t_status t \<noteq> Blocked"
  shows "ids_unique d' \<and> get_task p i d' = Some t"
proof (rule foldE_invariant [where P = "\<lambda>s. ids_unique s \<and> get_task p i s = Some t",
      OF assms(1) [unfolded reconcile_dependent_tasks_def]])
  fix e s s'
  assume P: "ids_unique s \<and> get_task p i s = Some t"
    and st: "(case get_task p (dep_task_id e) s of None \<Rightarrow> Inr s
        | Some u \<Rightarrow> bindE (reconcile_task_readiness now u s) (\<lambda>r. Inr (fst r))) = Inr s'"
  show "ids_unique s' \<and> get_task p i s' = Some t"
  proof (cases "get_task p (dep_task_id e) s")
    case None
    with P st show ?thesis by simp
  next
    case (Some u)
    with st obtain u' where rc: "reconcile_task_readiness now u s = Inr (s', u')"
      by (auto simp: bindE_eq_Inr_iff)
    note D = get_task_SomeD [OF Some]
    from rc show ?thesis
    proof (cases rule: reconcile_task_readiness_cases)
      case same
      with P show ?thesis by simp
    next
      case promoted
      have "u \<noteq> t" using promoted(4) assms(4) by (auto simp: waits_on_dependencies_def)
      then have "t_id u \<noteq> i" using P Some D by auto
      moreover have "local_change (t_id u) s s'"
        by (rule promote_task_InrD(1) [OF _ _ promoted(1)]) (use P Some D in simp_all)
      ultimately show ?thesis using P by (simp add: local_change_def)
    qed
  qed
qed (use assms in simp)

lemma persist_reconcile_keeps:
  assumes "d' = d \<or> reconcile_completed_task now p j d = Inr d'" and "ids_unique d"
    and "get_task p i d = Some t" and "t_status t \<noteq> Blocked \<or> d' = d"
  shows "get_task p i d' = Some t"
  using assms reconcile_dependents_keeps [OF _ assms(2,3)]
  by (auto simp: reconcile_completed_task_def bindE_eq_Inr_iff)


lemma store_ok_ids [simp]: "store_ok d \<Longrightarrow> ids_unique d"
  by (simp add: store_ok_def)

lemma ids_unique_cong: "db_tasks d = db_tasks d' \<Longrightarrow> ids_unique d = ids_unique d'"
  by (simp add: ids_unique_def)

text \<open>The outcome of a worker that still holds its claim is what the task shows afterwards:
  its status, blocker and revisit time are those of the outcome, and the claim is gone.\<close>

theorem outcome_takes_effect:
  assumes "reachable d" and "claim_of x d" and "claim.held (x_claim_token x) d"
    and st: "\<not> active_status (o_status o')"
    and p: "persist_outcome rs now x o' d = (d', Inr ())"
  shows "\<exists>t. get_task (x_task_profile_id x) (x_task_id x) d' = Some t
    \<and> t_status t = o_status o' \<and> unclaimed t \<and> t_finished_at t = Some now
    \<and> t_blocked_reason_code t = o_blocked_code o' \<and> t_blocked_reason_text t = o_blocked_text o'
    \<and> t_ready_at t = revisit_at rs now x o'"
  using p
proof (cases rule: persist_outcome_cases)
  case (kept d1 fin d2 b)
  let ?v = "outcome_values rs now x o'" and ?i = "x_task_id x" and ?tok = "x_claim_token x"
  let ?op = "run_claim_op (Finalize ?v) ?i ?tok d"
  have ok: "store_ok d" by (rule reachable_store_ok [OF assms(1)])
  have op: "?op = (d1, fin)" using kept(1) by simp
  have fin: "fin" using active_op_applies [OF ok assms(2,3), of "Finalize ?v"] op by simp
  from assms(2,3) obtain t where t: "t \<in> set (db_tasks d)" "t_claim_token t = Some ?tok"
    and key: "t_id t = ?i" "t_profile_id t = x_task_profile_id x"
    unfolding claim.held_def claim_of_def by blast
  have act: "active_status (t_status t)" using ok t by (auto simp: store_ok_def row_ok_def unclaimed_def)
  let ?u = "(finalized_row ?v t)\<lparr>t_updated_at := db_clock d\<rparr>"
  have "?u \<in> set (db_tasks (fst ?op))"
    unfolding run_claim_op_eq set_guarded_update using t key act
    by (intro bexI [of _ t]) (simp_all add: holds_claim_def)
  then have u: "?u \<in> set (db_tasks d1)" using op by simp
  have "store_ok d1" by (rule store_ok_guarded [OF ok _ op]) (use st in \<open>simp add: outcome_values_def\<close>)
  then have ids1: "ids_unique d1" by simp
  have tasks: "db_tasks d2 = db_tasks d1" by (rule kept(2) [OF fin])
  have ids2: "ids_unique d2" using ids1 ids_unique_cong [OF tasks] by simp
  have get: "get_task (x_task_profile_id x) ?i d2 = Some ?u"
    unfolding get_task_eq_Some_iff [OF ids2] tasks using u key by simp
  have "get_task (x_task_profile_id x) ?i d' = Some ?u"
    by (rule persist_reconcile_keeps [OF _ ids2 get])
      (use kept(4) fin in \<open>auto simp: outcome_values_def\<close>)
  moreover have "unclaimed ?u" by (simp add: unclaimed_def finalized_row_def clear_claim_columns_def)
  ultimately show ?thesis
    by (simp add: finalized_row_def clear_claim_columns_def outcome_values_def)
qed simp

text \<open>A worker that lost its claim does not overwrite the task: whatever outcome it still
  persists, the task stays as the others left it (except that a task they blocked on external
  polling without a revisit time is given one).\<close>

theorem late_outcome_keeps_task:
  assumes "reachable d" and "\<not> claim.held (x_claim_token x) d"
    and st: "\<not> active_status (o_status o')"
    and p: "persist_outcome rs now x o' d = (d', Inr ())"
    and t: "get_task (x_task_profile_id x) (x_task_id x) d = Some t"
    and poll: "\<not> (t_status t = Blocked \<and> t_ready_at t = None
      \<and> should_schedule_blocked_revisit (t_blocked_reason_code t))"
  shows "get_task (x_task_profile_id x) (x_task_id x) d' = Some t"
  using p
proof (cases rule: persist_outcome_cases)
  case (kept d1 fin d2 b)
  let ?op = "run_claim_op (Finalize (outcome_values rs now x o')) (x_task_id x) (x_claim_token x) d"
  have op: "?op = (d1, fin)" using kept(1) by simp
  have none: "\<not> op_guard y (x_task_id x) (x_claim_token x) u" if "u \<in> set (db_tasks d)" for y u
    using op_guardD assms(2) that unfolding claim.held_def by blast
  have fin: "\<not> fin"
    using op none snd_guarded_update unfolding run_claim_op_eq by (metis snd_conv)
  have d1: "db_tasks d1 = db_tasks d"
  proof -
    have "d1 = fst (guarded_update (op_guard (Finalize (outcome_values rs now x o')) (x_task_id x)
        (x_claim_token x)) (op_effect (Finalize (outcome_values rs now x o'))) d)"
      using op unfolding run_claim_op_eq by simp
    moreover have "\<forall>u \<in> set (db_tasks d). \<not> op_guard (Finalize (outcome_values rs now x o'))
        (x_task_id x) (x_claim_token x) u" using none by blast
    ultimately show ?thesis by (simp only: guarded_update_def fst_conv update_where_none) simp
  qed
  have t1: "get_task (x_task_profile_id x) (x_task_id x) d1 = Some t"
    using t get_task_cong [OF d1] by simp
  have tok: "t_claim_token t \<noteq> Some (x_claim_token x)"
    using get_task_SomeD [OF t] assms(2) unfolding claim.held_def by blast
  have "clear_unfinalized rs now x o' t d1 = Inr d1"
    using tok poll by (auto simp: clear_unfinalized_def Let_def)
  then have d2: "db_tasks d2 = db_tasks d1" and b: "b \<Longrightarrow> t_status t = Completed"
    using kept(3) [OF fin] t1 by (auto simp: handle_unfinalized_outcome_def)
  have ids: "ids_unique d" using reachable_store_ok [OF assms(1)] by simp
  have ids2: "ids_unique d2" using ids ids_unique_cong [OF d1] ids_unique_cong [OF d2] by simp
  have "get_task (x_task_profile_id x) (x_task_id x) d2 = Some t"
    using t1 get_task_cong [OF d2] by simp
  then show ?thesis
    by (rule persist_reconcile_keeps [OF _ ids2, rotated]) (use kept(4) fin b in auto)
qed simp

theorem outcome_takes_effect_witness:
  "\<exists>t. get_task ''default'' ''b'' (fst (persist_outcome example_settings 30 example_claim
      (outcome_of Completed) claimed_two_tasks)) = Some t \<and> t_status t = Completed"
proof -
  let ?p = "persist_outcome example_settings 30 example_claim (outcome_of Completed) claimed_two_tasks"
  have "is_ok (snd ?p)" by code_simp
  then have "?p = (fst ?p, Inr ())" by (cases ?p) (auto simp: is_ok_def split: sum.splits)
  moreover have "claim.held (x_claim_token example_claim) claimed_two_tasks"
    unfolding claim.held_def by code_simp
  moreover have "x_task_profile_id example_claim = ''default''" "x_task_id example_claim = ''b''"
    by code_simp+
  ultimately show ?thesis
    using outcome_takes_effect [OF reachable_claimed example_claim_of, of "outcome_of Completed"
        example_settings 30] by auto
qed

theorem late_outcome_keeps_task_witness:
  "get_task ''default'' ''b'' (fst (persist_outcome example_settings 30 (example_claim\<lparr>x_claim_token := ''t0''\<rparr>)
      (outcome_of Completed) claimed_two_tasks)) = get_task ''default'' ''b'' claimed_two_tasks"
proof -
  let ?x = "example_claim\<lparr>x_claim_token := ''t0''\<rparr>"
  let ?p = "persist_outcome example_settings 30 ?x (outcome_of Completed) claimed_two_tasks"
  let ?t = "claimed_row example_request urgent_task 5 urgent_task"
  have "is_ok (snd ?p)" by code_simp
  then have p: "?p = (fst ?p, Inr ())" by (cases ?p) (auto simp: is_ok_def split: sum.splits)
  have held: "\<not> claim.held (x_claim_token ?x) claimed_two_tasks" unfolding claim.held_def by code_simp
  have t: "get_task (x_task_profile_id ?x) (x_task_id ?x) claimed_two_tasks = Some ?t"
    and "t_status ?t \<noteq> Blocked"
    and x: "x_task_profile_id ?x = ''default''" "x_task_id ?x = ''b''" by code_simp+
  then show ?thesis using late_outcome_keeps_task [OF reachable_claimed held _ p t] t by simp
qed

end
