(* ===== verification/Py_Values.thy ===== *)
theory Py_Values
  imports Py_Strings "HOL-Library.AList"
begin

text \<open>
  The JSON values that travel through automation graphs, with the operations the code
  applies to them: truth value, \<open>str\<close>, dictionary lookup and dotted paths. A dictionary is
  the list of its items in insertion order (the library's association lists, whose update
  replaces a key in place and appends a new one, as a Python dict does); a float is kept as
  its \<open>repr\<close>.
\<close>

datatype pyval =
    V_None
  | V_Bool bool
  | V_Int int
  | V_Float string
  | V_Str string
  | V_List "pyval list"
  | V_Dict "(string \<times> pyval) list"

type_synonym py_dict = "(string \<times> pyval) list"

section \<open>Truth value\<close>

definition zero_floats :: "string list" where
  "zero_floats = [''0.0'', ''-0.0'']"

fun truthy :: "pyval \<Rightarrow> bool" where
  "truthy V_None = False"
| "truthy (V_Bool b) = b"
| "truthy (V_Int i) = (i \<noteq> 0)"
| "truthy (V_Float r) = (r \<notin> set zero_floats)"
| "truthy (V_Str s) = (s \<noteq> [])"
| "truthy (V_List xs) = (xs \<noteq> [])"
| "truthy (V_Dict xs) = (xs \<noteq> [])"

section \<open>Text\<close>

definition hex_char :: "nat \<Rightarrow> char" where
  "hex_char d = (if d < 10 then char_of (48 + d) else char_of (87 + d))"

definition printable :: "char \<Rightarrow> bool" where
  "printable c = (let p = code_pt c in (32 \<le> p \<and> p < 127) \<or> (161 \<le> p \<and> p \<noteq> 173))"

definition repr_char :: "char \<Rightarrow> char \<Rightarrow> string" where
  "repr_char quote c =
     (let p = code_pt c; bs = char_of (92 :: nat) in
      if c = quote \<or> c = bs then [bs, c]
      else if p = 10 then [bs, CHR ''n'']
      else if p = 13 then [bs, CHR ''r'']
      else if p = 9 then [bs, CHR ''t'']
      else if printable c then [c]
      else [bs, CHR ''x'', hex_char (p div 16), hex_char (p mod 16)])"

definition single_quote :: char where "single_quote = char_of (39 :: nat)"
definition double_quote :: char where "double_quote = char_of (34 :: nat)"

definition repr_str :: "string \<Rightarrow> string" where
  "repr_str s =
     (let quote = (if single_quote \<in> set s \<and> double_quote \<notin> set s then double_quote
                   else single_quote)
      in [quote] @ concat (map (repr_char quote) s) @ [quote])"

definition int_str :: "int \<Rightarrow> string" where
  "int_str i = (if i < 0 then CHR ''-'' # nat_str (nat (- i)) else nat_str (nat i))"

fun py_repr :: "pyval \<Rightarrow> string" where
  "py_repr V_None = ''None''"
| "py_repr (V_Bool b) = (if b then ''True'' else ''False'')"
| "py_repr (V_Int i) = int_str i"
| "py_repr (V_Float r) = r"
| "py_repr (V_Str s) = repr_str s"
| "py_repr (V_List xs) = ''['' @ join_with '', '' (map py_repr xs) @ '']''"
| "py_repr (V_Dict xs) =
     ''{'' @ join_with '', '' (map (\<lambda>(k, v). repr_str k @ '': '' @ py_repr v) xs) @ ''}''"

definition py_str :: "pyval \<Rightarrow> string" where
  "py_str v = (case v of V_Str s \<Rightarrow> s | _ \<Rightarrow> py_repr v)"

text \<open>\<open>str(v or d)\<close>, and \<open>str(config.get(field) or "")\<close>.\<close>

definition str_or :: "pyval \<Rightarrow> string \<Rightarrow> string" where
  "str_or v d = (if truthy v then py_str v else d)"

definition py_get :: "py_dict \<Rightarrow> string \<Rightarrow> pyval" where
  "py_get d k = (case map_of d k of None \<Rightarrow> V_None | Some v \<Rightarrow> v)"

definition config_text :: "py_dict \<Rightarrow> string \<Rightarrow> string" where
  "config_text d k = strip (str_or (py_get d k) [])"

section \<open>Dotted paths\<close>

fun resolve_segments :: "pyval \<Rightarrow> string list \<Rightarrow> pyval" where
  "resolve_segments current [] = current"
| "resolve_segments current (segment # rest) =
     (let key = strip segment in
      if key = [] then resolve_segments current rest
      else (case current of
          V_Dict d \<Rightarrow> (case map_of d key of None \<Rightarrow> V_None | Some v \<Rightarrow> resolve_segments v rest)
        | _ \<Rightarrow> V_None))"

definition resolve_path :: "pyval \<Rightarrow> string \<Rightarrow> pyval" where
  "resolve_path payload path =
     (if path = [] then payload else resolve_segments payload (split_on (CHR ''.'') path))"

end
