(* ===== verification/Graph_Spec.thy ===== *)
theory Graph_Spec
  imports Py_Values Worklist
begin

text \<open>
  Automation graph specifications and their validation (services/automations/graph/service.py,
  \<open>_validate_nodes_and_edges\<close> and \<open>_validate_spec\<close>, contracts.py). The validation sorts the
  nodes topologically by counting incoming edges; the lemmas show that it accepts exactly the
  non-empty acyclic graphs with distinct keys and known end points.
\<close>

section \<open>Specifications\<close>

record version_spec =
  vs_runtime :: string
  vs_label :: "string option"
  vs_source :: string
  vs_config_schema :: "py_dict option"
  vs_input_schema :: "py_dict option"
  vs_output_schema :: "py_dict option"

record node_spec =
  ns_key :: string
  ns_name :: string
  ns_kind :: string
  ns_type :: string
  ns_config :: py_dict
  ns_version :: "version_spec option"

record edge_spec =
  es_source :: string
  es_target :: string
  es_source_port :: string
  es_target_port :: string

record graph_spec =
  gs_name :: string
  gs_nodes :: "node_spec list"
  gs_edges :: "edge_spec list"

datatype graph_error =
    Empty_Graph
  | Duplicate_Key string
  | Unknown_Source string
  | Unknown_Target string
  | Graph_Cycle
  | Unsupported_Adapter string string
  | Version_Missing string
  | Runtime_Not_Python string
  | Source_Code_Empty string
  | Schema_Invalid string string
  | Prompt_Missing string string
  | Timeout_Not_Integer string
  | Timeout_Not_Positive string
  | Adapter_Error string

section \<open>The shape of the graph\<close>

fun duplicate_errors :: "string list \<Rightarrow> string list \<Rightarrow> graph_error list" where
  "duplicate_errors seen [] = []"
| "duplicate_errors seen (key # keys) =
     (if key \<in> set seen then [Duplicate_Key key] else []) @ duplicate_errors (key # seen) keys"

definition edge_errors :: "string list \<Rightarrow> string \<times> string \<Rightarrow> graph_error list" where
  "edge_errors seen e =
     (if fst e \<in> set seen then [] else [Unknown_Source (fst e)])
     @ (if snd e \<in> set seen then [] else [Unknown_Target (snd e)])"

definition incoming_count :: "('a \<times> 'a) list \<Rightarrow> 'a \<Rightarrow> int" where
  "incoming_count es key = int (length (filter (\<lambda>e. snd e = key) es))"

text \<open>
  The inner loop over the targets of a visited node: every count goes down by one, a count
  that reaches zero appends its node to the queue.
\<close>

fun relax :: "'a list \<Rightarrow> ('a \<Rightarrow> int) \<Rightarrow> 'a list \<Rightarrow> ('a \<Rightarrow> int) \<times> 'a list" where
  "relax [] count queue = (count, queue)"
| "relax (t # ts) count queue =
     (let count' = count(t := count t - 1)
      in relax ts count' (if count' t = 0 then queue @ [t] else queue))"

definition open_targets :: "('a \<times> 'a) list \<Rightarrow> ('a \<Rightarrow> int) \<Rightarrow> nat" where
  "open_targets es count = card {t \<in> snd ` set es. 0 < count t}"

lemma relax_measure:
  assumes "set ts \<subseteq> snd ` set es"
  shows "length (snd (relax ts count queue)) + open_targets es (fst (relax ts count queue))
    \<le> length queue + open_targets es count"
  using assms
proof (induction ts count queue rule: relax.induct)
  case (2 t ts count queue)
  let ?count = "count(t := count t - 1)"
  let ?queue = "if ?count t = 0 then queue @ [t] else queue"
  have "length ?queue + open_targets es ?count \<le> length queue + open_targets es count"
  proof (cases "count t = 1")
    case True
    then have "{u \<in> snd ` set es. 0 < count u} = insert t {u \<in> snd ` set es. 0 < ?count u}"
      using "2.prems" by (auto split: if_splits)
    then have "open_targets es count = Suc (open_targets es ?count)"
      using True by (simp add: open_targets_def)
    with True show ?thesis by simp
  next
    case False
    have "open_targets es ?count \<le> open_targets es count"
      unfolding open_targets_def by (rule card_mono) (auto split: if_splits)
    with False show ?thesis by simp
  qed
  moreover have "set ts \<subseteq> snd ` set es" using "2.prems" by simp
  note "2.IH" [OF refl this]
  ultimately show ?case unfolding relax.simps Let_def by (rule le_trans [rotated])
qed simp

function kahn_loop :: "('a \<times> 'a) list \<Rightarrow> 'a list \<Rightarrow> ('a \<Rightarrow> int) \<Rightarrow> 'a list \<Rightarrow> 'a list" where
  "kahn_loop es [] count visited = visited"
| "kahn_loop es (key # queue) count visited =
     (let r = relax (succs es key) count queue
      in kahn_loop es (snd r) (fst r) (visited @ [key]))"
  by pat_completeness auto
termination
proof (relation "measure (\<lambda>(es, queue, count, visited). length queue + open_targets es count)",
  goal_cases)
  case (2 es key queue count visited r)
  have "set (succs es key) \<subseteq> snd ` set es" by (force simp: succs_def)
  from relax_measure [OF this, of count queue] 2 show ?case by simp
qed simp

definition validate_nodes_and_edges ::
    "string list \<Rightarrow> (string \<times> string) list \<Rightarrow> bool \<Rightarrow> graph_error list" where
  "validate_nodes_and_edges node_keys edges nodes_present =
     (if \<not> nodes_present then [Empty_Graph]
      else
        (let seen = uniq_first [] node_keys;
             known = filter (\<lambda>e. fst e \<in> set seen \<and> snd e \<in> set seen) edges;
             count = incoming_count known;
             queue = sort (filter (\<lambda>key. count key = 0) seen);
             visited = kahn_loop known queue count []
         in duplicate_errors [] node_keys @ concat (map (edge_errors seen) edges)
            @ (if length visited \<noteq> length seen then [Graph_Cycle] else [])))"

section \<open>Specifications of single nodes\<close>

text \<open>
  \<open>check_schema\<close> stands for jsonschema's Draft202012Validator.check_schema (None when the
  document is a schema), \<open>adapters\<close> for the registered adapters: a registered pair carries its
  own \<open>validate_spec\<close>, or the constant empty answer when the adapter has none.
\<close>

definition schema_errors :: "(py_dict \<Rightarrow> bool) \<Rightarrow> string \<Rightarrow> string \<times> py_dict option \<Rightarrow> graph_error list" where
  "schema_errors check_schema key s =
     (case snd s of
        None \<Rightarrow> []
      | Some payload \<Rightarrow> if check_schema payload then [] else [Schema_Invalid key (fst s)])"

definition version_errors :: "(py_dict \<Rightarrow> bool) \<Rightarrow> node_spec \<Rightarrow> graph_error list" where
  "version_errors check_schema n =
     (case ns_version n of
        None \<Rightarrow> [Version_Missing (ns_key n)]
      | Some v \<Rightarrow>
          (if lower (strip (vs_runtime v)) \<noteq> ''python'' then [Runtime_Not_Python (ns_key n)] else [])
          @ (if strip (vs_source v) = [] then [Source_Code_Empty (ns_key n)] else [])
          @ concat (map (schema_errors check_schema (ns_key n))
              [(''config_schema'', vs_config_schema v), (''input_schema'', vs_input_schema v),
               (''output_schema'', vs_output_schema v)]))"

definition prompt_errors :: "node_spec \<Rightarrow> graph_error list" where
  "prompt_errors n =
     (if ns_kind n \<in> {''ai'', ''agent''} \<and> config_text (ns_config n) ''prompt'' = []
      then [Prompt_Missing (ns_kind n) (ns_key n)] else [])"

definition timeout_errors :: "node_spec \<Rightarrow> graph_error list" where
  "timeout_errors n =
     (if ns_kind n \<noteq> ''agent'' then []
      else (case map_of (ns_config n) ''timeout_sec'' of
          None \<Rightarrow> []
        | Some v \<Rightarrow>
            (case py_int (strip (py_str v)) of
               None \<Rightarrow> [Timeout_Not_Integer (ns_key n)]
             | Some t \<Rightarrow> if t \<le> 0 then [Timeout_Not_Positive (ns_key n)] else [])))"

type_synonym adapter_specs = "string \<times> string \<Rightarrow> (node_spec \<Rightarrow> string list) option"

definition node_errors :: "(py_dict \<Rightarrow> bool) \<Rightarrow> adapter_specs \<Rightarrow> node_spec \<Rightarrow> graph_error list" where
  "node_errors check_schema adapters n =
     (case adapters (ns_kind n, ns_type n) of
        None \<Rightarrow> [Unsupported_Adapter (ns_kind n) (ns_type n)]
      | Some validator \<Rightarrow>
          (if ns_kind n = ''code'' then version_errors check_schema n else [])
          @ prompt_errors n @ timeout_errors n @ map Adapter_Error (validator n))"

definition validate_spec :: "(py_dict \<Rightarrow> bool) \<Rightarrow> adapter_specs \<Rightarrow> graph_spec \<Rightarrow> graph_error list" where
  "validate_spec check_schema adapters spec =
     validate_nodes_and_edges (map ns_key (gs_nodes spec))
       (map (\<lambda>e. (es_source e, es_target e)) (gs_edges spec)) (gs_nodes spec \<noteq> [])
     @ concat (map (node_errors check_schema adapters) (gs_nodes spec))"

section \<open>The topological sort\<close>

text \<open>What counting down computes: the occurrences are taken off, the nodes that hit zero follow.\<close>

lemma relax_count: "fst (relax ts count queue) u = count u - int (count_list ts u)"
proof (induction ts count queue rule: relax.induct)
  case (2 t ts count queue)
  from "2.IH" [OF refl] show ?case by (simp only: relax.simps Let_def) simp
qed simp

lemma relax_queue:
  assumes "\<And>t. int (count_list ts t) \<le> count t"
  shows "\<exists>new. snd (relax ts count queue) = queue @ new \<and> distinct new
    \<and> set new = {t \<in> set ts. count t = int (count_list ts t)}"
  using assms
proof (induction ts count queue rule: relax.induct)
  case (2 t ts count queue)
  let ?count = "count(t := count t - 1)"
  have le: "int (count_list ts u) \<le> ?count u" for u
    using "2.prems" [of u] by (auto split: if_splits)
  let ?q = "if ?count t = 0 then queue @ [t] else queue"
  obtain new where new: "snd (relax ts ?count ?q) = ?q @ new" "distinct new"
    "set new = {u \<in> set ts. ?count u = int (count_list ts u)}"
    using "2.IH" [OF refl le] by blast
  have step: "snd (relax (t # ts) count queue) = snd (relax ts ?count ?q)"
    by (simp only: relax.simps Let_def)
  show ?case
  proof (cases "?count t = 0")
    case True
    then have nt: "count_list ts t = 0" using le [of t] by simp
    then have t: "t \<notin> set ts" by (simp add: count_list_0_iff)
    have q: "?q = queue @ [t]" using True by (rule if_P)
    have "snd (relax (t # ts) count queue) = queue @ t # new" 
      by (simp only: step new(1)) (simp only: q append_assoc append_Cons append_Nil)
    moreover have "distinct (t # new)" using new(2,3) t by simp
    moreover have "u \<in> set (t # new) \<longleftrightarrow> u \<in> set (t # ts) \<and> count u = int (count_list (t # ts) u)" for u
    proof (cases "u = t")
      case u: True
      from True have "count t = 1" by simp
      with u nt show ?thesis by simp
    next
      case False
      then show ?thesis by (simp add: new(3))
    qed
    then have "set (t # new) = {u \<in> set (t # ts). count u = int (count_list (t # ts) u)}" by blast
    ultimately show ?thesis by blast
  next
    case False
    have q: "?q = queue" using False by (rule if_not_P)
    have "snd (relax (t # ts) count queue) = queue @ new" 
      by (simp only: step new(1)) (simp only: q append_assoc append_Cons append_Nil)
    moreover have "u \<in> set new \<longleftrightarrow> u \<in> set (t # ts) \<and> count u = int (count_list (t # ts) u)" for u
    proof (cases "u = t")
      case True
      have "t \<in> set new \<longleftrightarrow> t \<in> set ts \<and> count t - 1 = int (count_list ts t)"
        unfolding new(3) by simp
      moreover have "count t - 1 = int (count_list ts t) \<Longrightarrow> t \<in> set ts"
        using False count_list_0_iff [of ts t] by (cases "t \<in> set ts") simp_all
      ultimately show ?thesis using True by force
    next
      case False
      then show ?thesis unfolding new(3) by simp
    qed
    then have "set new = {u \<in> set (t # ts). count u = int (count_list (t # ts) u)}" by blast
    ultimately show ?thesis using new(2) by blast
  qed
qed simp

text \<open>
  The counts are those of the edges from nodes not yet visited; queue and visited nodes are
  the ones without such an edge, and the visited ones are in topological order.
\<close>

definition open_count :: "('a \<times> 'a) list \<Rightarrow> 'a list \<Rightarrow> 'a \<Rightarrow> nat" where
  "open_count es visited v = length (filter (\<lambda>e. snd e = v \<and> fst e \<notin> set visited) es)"

lemma open_count_visit:
  assumes "key \<notin> set visited"
  shows "open_count es (visited @ [key]) v + count_list (succs es key) v = open_count es visited v"
  using assms by (induction es) (auto simp: open_count_def succs_def)

lemma open_count_0_iff:
  "open_count es visited v = 0 \<longleftrightarrow> (\<forall>s. (s, v) \<in> set es \<longrightarrow> s \<in> set visited)"
  by (force simp: open_count_def filter_empty_conv)

definition kahn_inv :: "('a \<times> 'a) list \<Rightarrow> 'a set \<Rightarrow> 'a list \<Rightarrow> ('a \<Rightarrow> int) \<Rightarrow> 'a list \<Rightarrow> bool" where
  "kahn_inv es V queue count visited \<longleftrightarrow>
     (\<forall>v. count v = int (open_count es visited v)) \<and> distinct (visited @ queue)
     \<and> set (visited @ queue) = {v \<in> V. open_count es visited v = 0}
     \<and> topological (set es) visited"

lemma kahn_invD:
  assumes "kahn_inv es V queue count visited"
  shows "\<And>v. count v = int (open_count es visited v)" and "distinct (visited @ queue)"
    and "\<And>v. v \<in> set (visited @ queue) \<longleftrightarrow> v \<in> V \<and> open_count es visited v = 0"
    and "topological (set es) visited"
  using assms unfolding kahn_inv_def by blast+

lemma kahn_inv_step:
  assumes "set es \<subseteq> V \<times> V" and inv: "kahn_inv es V (key # queue) count visited"
  shows "kahn_inv es V (snd (relax (succs es key) count queue)) (fst (relax (succs es key) count queue))
    (visited @ [key])"
proof -
  let ?ts = "succs es key"
  note cnt = kahn_invD(1) [OF inv] and dst = kahn_invD(2) [OF inv] and mem = kahn_invD(3) [OF inv]
    and top = kahn_invD(4) [OF inv]
  have key: "key \<notin> set visited" using dst by simp
  note visit = open_count_visit [OF key, of es]
  have le: "int (count_list ?ts t) \<le> count t" for t using cnt [of t] visit [of t] by linarith
  obtain new where new: "snd (relax ?ts count queue) = queue @ new" "distinct new"
    "set new = {t \<in> set ?ts. count t = int (count_list ?ts t)}"
    using relax_queue [OF le] by blast
  have new_iff: "t \<in> set new \<longleftrightarrow> t \<in> set ?ts \<and> open_count es (visited @ [key]) t = 0" for t
    unfolding new(3) using cnt [of t] visit [of t] by auto
  have zero: "open_count es (visited @ [key]) t = 0 \<longleftrightarrow> open_count es visited t = 0 \<or> t \<in> set new" for t
  proof (cases "t \<in> set ?ts")
    case False
    then have "count_list ?ts t = 0" by (simp only: count_list_0_iff not_False_eq_True)
    with visit [of t] False new_iff [of t] show ?thesis by linarith
  next
    case True
    then have "count_list ?ts t \<noteq> 0" by (simp only: count_list_0_iff not_True_eq_False simp_thms)
    with visit [of t] True new_iff [of t] show ?thesis by linarith
  qed
  have fresh: "t \<notin> set (visited @ key # queue)" if "t \<in> set new" for t
  proof -
    have "t \<in> set ?ts" using that new_iff by blast
    then have "count_list ?ts t \<noteq> 0" by (simp only: count_list_0_iff not_True_eq_False simp_thms)
    then have "open_count es visited t \<noteq> 0" using visit [of t] by linarith
    then show ?thesis using mem [of t] by (simp del: set_append)
  qed
  have V: "set new \<subseteq> V" using new_iff assms(1) by (auto simp only: set_succs)
  have "distinct ((visited @ key # queue) @ new)"
    using dst new(2) fresh unfolding distinct_append by blast
  then have "distinct ((visited @ [key]) @ snd (relax ?ts count queue))" unfolding new(1) by simp
  moreover have "t \<in> set ((visited @ [key]) @ snd (relax ?ts count queue))
      \<longleftrightarrow> t \<in> V \<and> open_count es (visited @ [key]) t = 0" for t
  proof -
    have "t \<in> set ((visited @ [key]) @ snd (relax ?ts count queue))
        \<longleftrightarrow> t \<in> set (visited @ key # queue) \<or> t \<in> set new" unfolding new(1) by auto
    then show ?thesis using mem [of t] zero [of t] V by blast
  qed
  moreover have "open_count es visited key = 0" using mem [of key] by simp
  then have "topological (set es) (visited @ [key])"
    using top by (auto simp: topological_snoc open_count_0_iff)
  moreover have "fst (relax ?ts count queue) v = int (open_count es (visited @ [key]) v)" for v
    using relax_count [of ?ts count queue v] visit [of v] cnt [of v] by linarith
  ultimately show ?thesis unfolding kahn_inv_def by blast
qed

lemma kahn_loop_inv:
  assumes "set es \<subseteq> V \<times> V" and "kahn_inv es V queue count visited"
  shows "\<exists>count'. kahn_inv es V [] count' (kahn_loop es queue count visited)"
  using assms
proof (induction es queue count visited rule: kahn_loop.induct)
  case (2 es key queue count visited)
  from "2.IH" [OF refl "2.prems"(1) kahn_inv_step [OF "2.prems"]] show ?case by (simp add: Let_def)
qed auto

lemma kahn_complete_iff:
  assumes "set es \<subseteq> V \<times> V" and "finite V" and "kahn_inv es V [] count visited"
  shows "length visited = card V \<longleftrightarrow> acyclic (set es)"
proof -
  note dst = kahn_invD(2) [OF assms(3), unfolded append_Nil2]
    and mem = kahn_invD(3) [OF assms(3), unfolded append_Nil2] and top = kahn_invD(4) [OF assms(3)]
  have sub: "set visited \<subseteq> V" using mem by blast
  have len: "length visited = card (set visited)" using distinct_card [OF dst] by (rule sym)
  have "length visited = card V \<longleftrightarrow> set visited = V"
    using card_subset_eq [OF assms(2) sub] len by auto
  also have "\<dots> \<longleftrightarrow> acyclic (set es)"
  proof
    assume "set visited = V"
    with assms(1) have "snd ` set es \<subseteq> set visited" by auto
    with top show "acyclic (set es)" by (rule topological_acyclic)
  next
    assume ac: "acyclic (set es)"
    have "V - set visited = {}"
    proof (rule acyclic_no_predecessors [OF _ ac])
      fix u assume u: "u \<in> V - set visited"
      then have "open_count es visited u \<noteq> 0" using mem [of u] by force
      then obtain s where s: "(s, u) \<in> set es" "s \<notin> set visited" by (auto simp: open_count_0_iff)
      with assms(1) show "\<exists>s \<in> V - set visited. (s, u) \<in> set es" by blast
    qed simp
    with sub show "set visited = V" by blast
  qed
  finally show ?thesis .
qed

lemma kahn_inv_init:
  assumes "distinct queue" and "set queue = {v \<in> V. incoming_count es v = 0}"
  shows "kahn_inv es V queue (incoming_count es) []"
  using assms by (auto simp: kahn_inv_def incoming_count_def open_count_def)

section \<open>What validation accepts\<close>

lemma duplicate_errors_Nil_iff:
  "duplicate_errors seen keys = [] \<longleftrightarrow> distinct keys \<and> set keys \<inter> set seen = {}"
  by (induction seen keys rule: duplicate_errors.induct) auto

lemma edge_errors_Nil_iff: "edge_errors seen e = [] \<longleftrightarrow> fst e \<in> set seen \<and> snd e \<in> set seen"
  by (simp add: edge_errors_def)

lemma set_uniq_first_Nil [simp]: "set (uniq_first [] xs) = set xs"
  by (simp add: set_uniq_first)

lemma shape_valid_iff:
  "validate_nodes_and_edges keys edges present = [] \<longleftrightarrow>
     present \<and> distinct keys \<and> set edges \<subseteq> set keys \<times> set keys \<and> acyclic (set edges)"
proof -
  let ?seen = "uniq_first [] keys"
  let ?known = "filter (\<lambda>e. fst e \<in> set ?seen \<and> snd e \<in> set ?seen) edges"
  let ?queue = "sort (filter (\<lambda>key. incoming_count ?known key = 0) ?seen)"
  let ?visited = "kahn_loop ?known ?queue (incoming_count ?known) []"
  have sub: "set ?known \<subseteq> set ?seen \<times> set ?seen" by auto
  have "kahn_inv ?known (set ?seen) ?queue (incoming_count ?known) []"
    by (rule kahn_inv_init) auto
  from kahn_loop_inv [OF sub this] obtain c where "kahn_inv ?known (set ?seen) [] c ?visited" by blast
  note complete = kahn_complete_iff [OF sub finite_set this]
  have "length ?seen = card (set ?seen)" using distinct_card [OF distinct_uniq_first] by (rule sym)
  with complete have cyc: "length ?visited \<noteq> length ?seen \<longleftrightarrow> \<not> acyclic (set ?known)" by simp
  have known: "concat (map (edge_errors ?seen) edges) = [] \<longleftrightarrow> set edges \<subseteq> set keys \<times> set keys"
    by (auto simp: edge_errors_Nil_iff subset_iff)
  have "set ?known = set edges" if "set edges \<subseteq> set keys \<times> set keys" using that by auto
  with cyc known show ?thesis
    unfolding validate_nodes_and_edges_def Let_def
    by (cases "set edges \<subseteq> set keys \<times> set keys") (simp_all add: duplicate_errors_Nil_iff del: set_filter)
qed

lemma version_errors_Nil_iff:
  "version_errors check_schema n = [] \<longleftrightarrow>
     (\<exists>v. ns_version n = Some v \<and> lower (strip (vs_runtime v)) = ''python'' \<and> strip (vs_source v) \<noteq> []
        \<and> (\<forall>s \<in> {vs_config_schema v, vs_input_schema v, vs_output_schema v}.
              \<forall>doc. s = Some doc \<longrightarrow> check_schema doc))"
  by (auto simp: version_errors_def schema_errors_def split: option.splits)

lemma timeout_errors_Nil_iff:
  "timeout_errors n = [] \<longleftrightarrow>
     (ns_kind n = ''agent'' \<longrightarrow> (\<forall>v. map_of (ns_config n) ''timeout_sec'' = Some v \<longrightarrow>
        (\<exists>t > 0. py_int (strip (py_str v)) = Some t)))"
  by (auto simp: timeout_errors_def split: option.splits)

text \<open>C10 A graph specification is accepted exactly when it has nodes with distinct keys, edges between
  them and no cycle, and every node names a registered adapter that has no complaint, brings python
  source with valid schemas when it is a code node, a prompt when it is an AI or agent node and a
  positive integer time-out when an agent node gives one.\<close>

theorem graph_accepted_iff:
  "validate_spec check_schema adapters spec = [] \<longleftrightarrow>
     gs_nodes spec \<noteq> [] \<and> distinct (map ns_key (gs_nodes spec))
     \<and> (\<forall>e \<in> set (gs_edges spec). es_source e \<in> ns_key ` set (gs_nodes spec)
          \<and> es_target e \<in> ns_key ` set (gs_nodes spec))
     \<and> acyclic ((\<lambda>e. (es_source e, es_target e)) ` set (gs_edges spec))
     \<and> (\<forall>n \<in> set (gs_nodes spec).
          (\<exists>validator. adapters (ns_kind n, ns_type n) = Some validator \<and> validator n = [])
          \<and> (ns_kind n = ''code'' \<longrightarrow> (\<exists>v. ns_version n = Some v \<and> lower (strip (vs_runtime v)) = ''python''
               \<and> strip (vs_source v) \<noteq> []
               \<and> (\<forall>s \<in> {vs_config_schema v, vs_input_schema v, vs_output_schema v}.
                     \<forall>doc. s = Some doc \<longrightarrow> check_schema doc)))
          \<and> (ns_kind n \<in> {''ai'', ''agent''} \<longrightarrow> config_text (ns_config n) ''prompt'' \<noteq> [])
          \<and> (ns_kind n = ''agent'' \<longrightarrow> (\<forall>v. map_of (ns_config n) ''timeout_sec'' = Some v \<longrightarrow>
               (\<exists>t > 0. py_int (strip (py_str v)) = Some t))))"
proof -
  have "node_errors check_schema adapters n = [] \<longleftrightarrow>
      (\<exists>validator. adapters (ns_kind n, ns_type n) = Some validator \<and> validator n = [])
      \<and> (ns_kind n = ''code'' \<longrightarrow> version_errors check_schema n = [])
      \<and> (ns_kind n \<in> {''ai'', ''agent''} \<longrightarrow> config_text (ns_config n) ''prompt'' \<noteq> [])
      \<and> timeout_errors n = []" for n
    by (cases "adapters (ns_kind n, ns_type n)") (auto simp: node_errors_def prompt_errors_def)
  note node = this [unfolded version_errors_Nil_iff timeout_errors_Nil_iff]
  have "set (map (\<lambda>e. (es_source e, es_target e)) (gs_edges spec))
      \<subseteq> set (map ns_key (gs_nodes spec)) \<times> set (map ns_key (gs_nodes spec))
    \<longleftrightarrow> (\<forall>e \<in> set (gs_edges spec). es_source e \<in> ns_key ` set (gs_nodes spec)
          \<and> es_target e \<in> ns_key ` set (gs_nodes spec))" by auto
  then show ?thesis
    unfolding validate_spec_def append_is_Nil_conv shape_valid_iff concat_eq_Nil_conv node [symmetric]
    by simp
qed

definition no_check :: "py_dict \<Rightarrow> bool" where "no_check doc = True"

definition example_adapters :: adapter_specs where
  "example_adapters p =
     (if p \<in> {(''builtin'', ''trigger.input''), (''ai'', ''ai.prompt'')} then Some (\<lambda>n. []) else None)"

definition plain_node :: "string \<Rightarrow> string \<Rightarrow> string \<Rightarrow> py_dict \<Rightarrow> node_spec" where
  "plain_node key kind ty config =
     \<lparr>ns_key = key, ns_name = key, ns_kind = kind, ns_type = ty, ns_config = config, ns_version = None\<rparr>"

definition example_graph_spec :: graph_spec where
  "example_graph_spec = \<lparr>gs_name = ''g'',
     gs_nodes = [plain_node ''in'' ''builtin'' ''trigger.input'' [],
                 plain_node ''ask'' ''ai'' ''ai.prompt'' [(''prompt'', V_Str ''Hi'')]],
     gs_edges = [\<lparr>es_source = ''in'', es_target = ''ask'', es_source_port = ''default'',
                  es_target_port = ''default''\<rparr>]\<rparr>"

theorem graph_accepted_iff_witness:
  "validate_spec no_check example_adapters example_graph_spec = []
   \<and> acyclic ((\<lambda>e. (es_source e, es_target e)) ` set (gs_edges example_graph_spec))"
proof -
  have "validate_spec no_check example_adapters example_graph_spec = []" by code_simp
  with graph_accepted_iff [of no_check example_adapters example_graph_spec] show ?thesis by blast
qed

end
