(* ===== verification/Graph_Store.thy ===== *)
theory Graph_Store
  imports Graph_Spec
begin

text \<open>
  The automation graph tables with their repository (repositories/automation_graph_repo.py)
  and the part of services/automations/graph/service.py that writes and loads definitions:
  \<open>apply_graph\<close>, \<open>_load_graph\<close>, \<open>get_graph\<close>. A JSON column is kept as the value it encodes; the dump sorts the
  keys, which is modelled for the configuration of a node, the one column that is handed out again
  (the schemas go to the checker only, which does not see the order).
  \<open>session_scope\<close> commits what an operation did or, when it raises, nothing of it.
\<close>

section \<open>Tables\<close>

record automation =
  am_id :: nat
  am_profile :: string
  am_prompt :: string
  am_trigger_type :: string
  am_status :: string
  am_execution_mode :: string
  am_fallback_mode :: string

record graph_flow =
  gf_id :: nat
  gf_automation :: nat
  gf_name :: string
  gf_status :: string
  gf_version :: int

record node_definition =
  nd_id :: nat
  nd_profile :: string
  nd_slug :: string
  nd_kind :: string
  nd_type :: string
  nd_name :: string

record node_version =
  nv_id :: nat
  nv_definition :: nat
  nv_label :: string
  nv_spec :: version_spec

record graph_node =
  gn_id :: nat
  gn_flow :: nat
  gn_definition :: "nat option"
  gn_version :: "nat option"
  gn_key :: string
  gn_name :: string
  gn_kind :: string
  gn_type :: string
  gn_config :: py_dict

record graph_edge =
  ge_id :: nat
  ge_flow :: nat
  ge_source :: nat
  ge_target :: nat
  ge_source_port :: string
  ge_target_port :: string

text \<open>Side effects a node reports, and the ledger of graph and node runs.\<close>

record node_effect =
  fx_kind :: string
  fx_safety :: string
  fx_committed :: bool
  fx_key :: "string option"
  fx_metadata :: py_dict

datatype node_status = Node_Pending | Node_Running | Node_Succeeded | Node_Failed | Node_Skipped

record graph_run =
  gr_id :: nat
  gr_automation :: nat
  gr_flow :: "nat option"
  gr_profile :: string
  gr_trigger_type :: string
  gr_status :: string
  gr_session :: "string option"
  gr_event_hash :: "string option"
  gr_payload :: py_dict
  gr_output :: "py_dict option"
  gr_fallback :: "string option"
  gr_error_code :: "string option"
  gr_reason :: "string option"
  gr_started_at :: instant
  gr_completed_at :: "instant option"

record node_run =
  nr_id :: nat
  nr_run :: nat
  nr_node :: nat
  nr_key :: string
  nr_status :: node_status
  nr_index :: "nat option"
  nr_ports :: "string list option"
  nr_effects :: "node_effect list option"
  nr_input :: "py_dict option"
  nr_output :: "py_dict option"
  nr_error_code :: "string option"
  nr_reason :: "string option"
  nr_child_task :: "string option"
  nr_child_session :: "string option"
  nr_child_run :: "int option"
  nr_started_at :: "instant option"
  nr_completed_at :: "instant option"

record graph_db =
  gd_automations :: "automation list"
  gd_flows :: "graph_flow list"
  gd_definitions :: "node_definition list"
  gd_versions :: "node_version list"
  gd_nodes :: "graph_node list"
  gd_edges :: "graph_edge list"
  gd_runs :: "graph_run list"
  gd_node_runs :: "node_run list"
  gd_next_flow :: nat
  gd_next_definition :: nat
  gd_next_version :: nat
  gd_next_node :: nat
  gd_next_edge :: nat
  gd_next_run :: nat
  gd_next_node_run :: nat

section \<open>Definitions\<close>

definition get_automation :: "string \<Rightarrow> nat \<Rightarrow> graph_db \<Rightarrow> automation option" where
  "get_automation profile_id automation_id d =
     find (\<lambda>a. am_profile a = profile_id \<and> am_id a = automation_id) (gd_automations d)"

definition set_automation_execution_mode :: "string \<Rightarrow> nat \<Rightarrow> string \<Rightarrow> graph_db \<Rightarrow> graph_db" where
  "set_automation_execution_mode profile_id automation_id mode d =
     d\<lparr>gd_automations := update_where (\<lambda>a. am_profile a = profile_id \<and> am_id a = automation_id)
        (\<lambda>a. a\<lparr>am_execution_mode := mode\<rparr>) (gd_automations d)\<rparr>"

definition list_graph_flows :: "nat \<Rightarrow> graph_db \<Rightarrow> graph_flow list" where
  "list_graph_flows automation_id d =
     sort_key (\<lambda>f. (gf_version f, gf_id f)) (filter (\<lambda>f. gf_automation f = automation_id) (gd_flows d))"

definition archive_active_flows :: "nat \<Rightarrow> graph_db \<Rightarrow> graph_db" where
  "archive_active_flows automation_id d =
     d\<lparr>gd_flows := update_where (\<lambda>f. gf_automation f = automation_id \<and> gf_status f = ''active'')
        (\<lambda>f. f\<lparr>gf_status := ''archived''\<rparr>) (gd_flows d)\<rparr>"

definition create_graph_flow :: "nat \<Rightarrow> string \<Rightarrow> int \<Rightarrow> graph_db \<Rightarrow> graph_db \<times> graph_flow" where
  "create_graph_flow automation_id name version d =
     (let row = \<lparr>gf_id = gd_next_flow d, gf_automation = automation_id, gf_name = name,
                 gf_status = ''active'', gf_version = version\<rparr>
      in (d\<lparr>gd_flows := gd_flows d @ [row], gd_next_flow := Suc (gd_next_flow d)\<rparr>, row))"

text \<open>\<open>ORDER BY version DESC, id DESC\<close>, first row.\<close>

definition get_active_flow :: "nat \<Rightarrow> graph_db \<Rightarrow> graph_flow option" where
  "get_active_flow automation_id d =
     min_on (\<lambda>f. (- gf_version f, - int (gf_id f)))
       (filter (\<lambda>f. gf_automation f = automation_id \<and> gf_status f = ''active'') (gd_flows d))"

definition get_definition :: "string \<Rightarrow> string \<Rightarrow> graph_db \<Rightarrow> node_definition option" where
  "get_definition profile_id slug d =
     find (\<lambda>x. nd_profile x = profile_id \<and> nd_slug x = slug) (gd_definitions d)"

definition create_definition ::
    "string \<Rightarrow> string \<Rightarrow> node_spec \<Rightarrow> graph_db \<Rightarrow> graph_db \<times> node_definition" where
  "create_definition profile_id slug n d =
     (let row = \<lparr>nd_id = gd_next_definition d, nd_profile = profile_id, nd_slug = slug,
                 nd_kind = ns_kind n, nd_type = ns_type n, nd_name = ns_name n\<rparr>
      in (d\<lparr>gd_definitions := gd_definitions d @ [row],
             gd_next_definition := Suc (gd_next_definition d)\<rparr>, row))"

definition count_versions :: "nat \<Rightarrow> graph_db \<Rightarrow> nat" where
  "count_versions definition_id d =
     length (filter (\<lambda>v. nv_definition v = definition_id) (gd_versions d))"

definition create_version ::
    "nat \<Rightarrow> string \<Rightarrow> version_spec \<Rightarrow> graph_db \<Rightarrow> graph_db \<times> node_version" where
  "create_version definition_id label v d =
     (let row = \<lparr>nv_id = gd_next_version d, nv_definition = definition_id, nv_label = label,
                 nv_spec = v\<rparr>
      in (d\<lparr>gd_versions := gd_versions d @ [row], gd_next_version := Suc (gd_next_version d)\<rparr>, row))"

text \<open>\<open>json.dumps\<close> with \<open>sort_keys\<close>, and back: the keys of every object in order.\<close>

fun sorted_keys :: "pyval \<Rightarrow> pyval" where
  "sorted_keys (V_Dict xs) = V_Dict (sort_key fst (map (\<lambda>(k, v). (k, sorted_keys v)) xs))"
| "sorted_keys (V_List vs) = V_List (map sorted_keys vs)"
| "sorted_keys v = v"

definition stored_config :: "py_dict \<Rightarrow> py_dict" where
  "stored_config c = sort_key fst (map (\<lambda>(k, v). (k, sorted_keys v)) c)"

text \<open>The key of a node is unique in its flow (\<open>ux_automation_node_flow_key\<close>).\<close>

definition create_node ::
    "nat \<Rightarrow> node_spec \<Rightarrow> nat option \<Rightarrow> nat option \<Rightarrow> graph_db \<Rightarrow> (graph_db \<times> graph_node) res" where
  "create_node flow_id n definition_id version_id d =
     (let row = \<lparr>gn_id = gd_next_node d, gn_flow = flow_id, gn_definition = definition_id,
                 gn_version = version_id, gn_key = ns_key n, gn_name = ns_name n,
                 gn_kind = ns_kind n, gn_type = ns_type n, gn_config = stored_config (ns_config n)\<rparr>
      in if list_ex (\<lambda>r. gn_flow r = flow_id \<and> gn_key r = ns_key n) (gd_nodes d)
         then Inl (Integrity_Error ''ux_automation_node_flow_key'')
         else Inr (d\<lparr>gd_nodes := gd_nodes d @ [row], gd_next_node := Suc (gd_next_node d)\<rparr>, row))"

definition create_edge ::
    "nat \<Rightarrow> nat \<Rightarrow> nat \<Rightarrow> string \<Rightarrow> string \<Rightarrow> graph_db \<Rightarrow> graph_db \<times> graph_edge" where
  "create_edge flow_id source target source_port target_port d =
     (let row = \<lparr>ge_id = gd_next_edge d, ge_flow = flow_id, ge_source = source, ge_target = target,
                 ge_source_port = source_port, ge_target_port = target_port\<rparr>
      in (d\<lparr>gd_edges := gd_edges d @ [row], gd_next_edge := Suc (gd_next_edge d)\<rparr>, row))"

definition list_nodes :: "nat \<Rightarrow> graph_db \<Rightarrow> graph_node list" where
  "list_nodes flow_id d = sort_key gn_id (filter (\<lambda>n. gn_flow n = flow_id) (gd_nodes d))"

definition list_edges :: "nat \<Rightarrow> graph_db \<Rightarrow> graph_edge list" where
  "list_edges flow_id d = sort_key ge_id (filter (\<lambda>e. ge_flow e = flow_id) (gd_edges d))"

definition list_versions :: "nat list \<Rightarrow> graph_db \<Rightarrow> (nat \<times> node_version) list" where
  "list_versions ids d = map (\<lambda>v. (nv_id v, v)) (filter (\<lambda>v. nv_id v \<in> set ids) (gd_versions d))"

section \<open>Replacing the active graph\<close>

definition definition_slug :: "nat \<Rightarrow> node_spec \<Rightarrow> string" where
  "definition_slug automation_id n = ''automation:'' @ nat_str automation_id @ '':'' @ ns_key n"

definition ensure_definition ::
    "string \<Rightarrow> nat \<Rightarrow> node_spec \<Rightarrow> graph_db \<Rightarrow> graph_db \<times> node_definition" where
  "ensure_definition profile_id automation_id n d =
     (let slug = definition_slug automation_id n in
      case get_definition profile_id slug d of
        Some x \<Rightarrow> (d, x)
      | None \<Rightarrow> create_definition profile_id slug n d)"

definition version_label :: "version_spec \<Rightarrow> nat \<Rightarrow> string" where
  "version_label v count =
     (let label = str_or_empty (vs_label v)
      in if label \<noteq> [] then label else CHR ''v'' # nat_str (count + 1))"

definition create_code_version ::
    "string \<Rightarrow> nat \<Rightarrow> node_spec \<Rightarrow> graph_db \<Rightarrow> (graph_db \<times> nat option \<times> nat option) res" where
  "create_code_version profile_id automation_id n d =
     (if ns_kind n \<noteq> ''code'' then Inr (d, None, None)
      else (case ns_version n of
          None \<Rightarrow> service_error ''invalid_graph_spec''
        | Some v \<Rightarrow>
            (case ensure_definition profile_id automation_id n d of
               (d1, x) \<Rightarrow>
                 (case create_version (nd_id x) (version_label v (count_versions (nd_id x) d1)) v d1 of
                    (d2, row) \<Rightarrow> Inr (d2, Some (nd_id x), Some (nv_id row))))))"

definition add_node ::
    "string \<Rightarrow> nat \<Rightarrow> nat \<Rightarrow> node_spec \<Rightarrow> graph_db \<times> (string \<times> nat) list
     \<Rightarrow> (graph_db \<times> (string \<times> nat) list) res" where
  "add_node profile_id automation_id flow_id n s =
     bindE (create_code_version profile_id automation_id n (fst s)) (\<lambda>(d1, definition_id, version_id).
     bindE (create_node flow_id n definition_id version_id d1) (\<lambda>(d2, row).
       Inr (d2, AList.update (ns_key n) (gn_id row) (snd s))))"

definition add_edge :: "nat \<Rightarrow> (string \<times> nat) list \<Rightarrow> edge_spec \<Rightarrow> graph_db \<Rightarrow> graph_db res" where
  "add_edge flow_id nodes_by_key e d =
     (case (map_of nodes_by_key (es_source e), map_of nodes_by_key (es_target e)) of
        (Some s, Some t) \<Rightarrow> Inr (fst (create_edge flow_id s t (es_source_port e) (es_target_port e) d))
      | _ \<Rightarrow> Inl Key_Error)"

definition next_flow_version :: "nat \<Rightarrow> graph_db \<Rightarrow> int" where
  "next_flow_version automation_id d = fold max (map gf_version (list_graph_flows automation_id d)) 0 + 1"

definition replace_graph :: "string \<Rightarrow> nat \<Rightarrow> graph_spec \<Rightarrow> graph_db \<Rightarrow> graph_db res" where
  "replace_graph profile_id automation_id spec d =
     (case get_automation profile_id automation_id d of
        None \<Rightarrow> service_error ''automation_not_found''
      | Some a \<Rightarrow>
          if am_status a = ''deleted'' then service_error ''automation_not_found''
          else
            (case create_graph_flow automation_id (gs_name spec) (next_flow_version automation_id d)
                    (archive_active_flows automation_id d) of
               (d1, flow) \<Rightarrow>
                 bindE (foldE (add_node profile_id automation_id (gf_id flow)) (gs_nodes spec) (d1, [])) (\<lambda>s.
                 bindE (foldE (add_edge (gf_id flow) (snd s)) (gs_edges spec) (fst s)) (\<lambda>d2.
                   Inr (set_automation_execution_mode profile_id automation_id ''graph'' d2)))))"

section \<open>Loading the active graph\<close>

record node_schemas =
  sc_input :: "py_dict option"
  sc_output :: "py_dict option"

record loaded_graph =
  lg_automation :: automation
  lg_flow :: graph_flow
  lg_nodes :: "graph_node list"
  lg_edges :: "graph_edge list"
  lg_versions :: "(nat \<times> node_version) list"
  lg_schemas :: "(nat \<times> node_schemas) list"

definition validated_schema :: "(py_dict \<Rightarrow> bool) \<Rightarrow> py_dict option \<Rightarrow> py_dict option res" where
  "validated_schema check_schema raw =
     (case raw of
        None \<Rightarrow> Inr None
      | Some payload \<Rightarrow>
          if check_schema payload then Inr (Some payload) else service_error ''invalid_graph_spec'')"

text \<open>\<open>versions.get(node.node_version_id or -1)\<close>: no version row has the id 0 or -1.\<close>

definition version_of :: "(nat \<times> node_version) list \<Rightarrow> graph_node \<Rightarrow> node_version option" where
  "version_of versions n =
     (case gn_version n of None \<Rightarrow> None | Some v \<Rightarrow> if v = 0 then None else map_of versions v)"

definition prepare_node_schemas ::
    "(py_dict \<Rightarrow> bool) \<Rightarrow> (nat \<times> node_version) list \<Rightarrow> graph_node \<Rightarrow> (nat \<times> node_schemas) list
     \<Rightarrow> (nat \<times> node_schemas) list res" where
  "prepare_node_schemas check_schema versions n acc =
     (case version_of versions n of
        None \<Rightarrow> Inr acc
      | Some v \<Rightarrow>
          bindE (validated_schema check_schema (vs_input_schema (nv_spec v))) (\<lambda>i.
          bindE (validated_schema check_schema (vs_output_schema (nv_spec v))) (\<lambda>out.
            if i = None \<and> out = None then Inr acc
            else Inr (AList.update (gn_id n) \<lparr>sc_input = i, sc_output = out\<rparr> acc))))"

definition load_graph :: "(py_dict \<Rightarrow> bool) \<Rightarrow> string \<Rightarrow> nat \<Rightarrow> graph_db \<Rightarrow> loaded_graph res" where
  "load_graph check_schema profile_id automation_id d =
     (case get_automation profile_id automation_id d of
        None \<Rightarrow> service_error ''automation_not_found''
      | Some a \<Rightarrow>
          if am_status a = ''deleted'' then service_error ''automation_not_found''
          else
            (case get_active_flow automation_id d of
               None \<Rightarrow> service_error ''automation_graph_missing''
             | Some flow \<Rightarrow>
                 (let nodes = list_nodes (gf_id flow) d;
                      versions = list_versions (List.map_filter gn_version nodes) d
                  in bindE (foldE (prepare_node_schemas check_schema versions) nodes []) (\<lambda>schemas.
                       Inr \<lparr>lg_automation = a, lg_flow = flow, lg_nodes = nodes,
                            lg_edges = list_edges (gf_id flow) d, lg_versions = versions,
                            lg_schemas = schemas\<rparr>))))"

section \<open>Read model\<close>

record node_metadata =
  nm_id :: nat
  nm_key :: string
  nm_name :: string
  nm_kind :: string
  nm_type :: string
  nm_config :: py_dict
  nm_version :: "nat option"

record edge_metadata =
  em_id :: nat
  em_source :: string
  em_target :: string
  em_source_port :: string
  em_target_port :: string

record graph_metadata =
  gm_flow_id :: nat
  gm_automation_id :: nat
  gm_mode :: string
  gm_fallback :: string
  gm_name :: string
  gm_version :: int
  gm_status :: string
  gm_nodes :: "node_metadata list"
  gm_edges :: "edge_metadata list"

definition as_execution_mode :: "string \<Rightarrow> string res" where
  "as_execution_mode v =
     (if v \<in> {''prompt'', ''graph''} then Inr v else service_error ''invalid_execution_mode'')"

definition runtime_fallback_mode :: "string \<Rightarrow> string res" where
  "runtime_fallback_mode v =
     (if v = ''branch_error_only'' then Inr ''fail_closed''
      else if v \<in> {''fail_closed'', ''resume_with_ai'', ''resume_with_ai_if_safe''} then Inr v
      else service_error ''invalid_graph_fallback_mode'')"

definition as_graph_node_kind :: "string \<Rightarrow> string res" where
  "as_graph_node_kind v =
     (if v \<in> {''builtin'', ''code'', ''ai'', ''agent'', ''task'', ''action''} then Inr v
      else service_error ''invalid_graph_node_kind'')"

definition node_to_metadata :: "graph_node \<Rightarrow> node_metadata res" where
  "node_to_metadata n =
     bindE (as_graph_node_kind (gn_kind n)) (\<lambda>kind.
       Inr \<lparr>nm_id = gn_id n, nm_key = gn_key n, nm_name = gn_name n, nm_kind = kind,
            nm_type = gn_type n, nm_config = gn_config n, nm_version = gn_version n\<rparr>)"

definition edge_to_metadata :: "(nat \<times> graph_node) list \<Rightarrow> graph_edge \<Rightarrow> edge_metadata res" where
  "edge_to_metadata node_by_id e =
     (case (map_of node_by_id (ge_source e), map_of node_by_id (ge_target e)) of
        (Some s, Some t) \<Rightarrow>
          Inr \<lparr>em_id = ge_id e, em_source = gn_key s, em_target = gn_key t,
               em_source_port = ge_source_port e, em_target_port = ge_target_port e\<rparr>
      | _ \<Rightarrow> Inl Key_Error)"

definition nodes_by_id :: "graph_node list \<Rightarrow> (nat \<times> graph_node) list" where
  "nodes_by_id nodes = foldl (\<lambda>acc n. AList.update (gn_id n) n acc) [] nodes"

definition to_graph_metadata :: "loaded_graph \<Rightarrow> graph_metadata res" where
  "to_graph_metadata g =
     bindE (as_execution_mode (am_execution_mode (lg_automation g))) (\<lambda>mode.
     bindE (runtime_fallback_mode (am_fallback_mode (lg_automation g))) (\<lambda>fallback.
     bindE (mapE node_to_metadata (lg_nodes g)) (\<lambda>nodes.
     bindE (mapE (edge_to_metadata (nodes_by_id (lg_nodes g))) (lg_edges g)) (\<lambda>edges.
       Inr \<lparr>gm_flow_id = gf_id (lg_flow g), gm_automation_id = am_id (lg_automation g),
            gm_mode = mode, gm_fallback = fallback, gm_name = gf_name (lg_flow g),
            gm_version = gf_version (lg_flow g), gm_status = gf_status (lg_flow g),
            gm_nodes = nodes, gm_edges = edges\<rparr>))))"

definition get_graph :: "(py_dict \<Rightarrow> bool) \<Rightarrow> string \<Rightarrow> nat \<Rightarrow> graph_db \<Rightarrow> graph_metadata res" where
  "get_graph check_schema profile_id automation_id d =
     bindE (load_graph check_schema profile_id automation_id d) to_graph_metadata"

definition apply_graph ::
    "(py_dict \<Rightarrow> bool) \<Rightarrow> adapter_specs \<Rightarrow> string \<Rightarrow> nat \<Rightarrow> graph_spec \<Rightarrow> graph_db
     \<Rightarrow> graph_db \<times> graph_metadata res" where
  "apply_graph check_schema adapters profile_id automation_id spec d =
     (if validate_spec check_schema adapters spec \<noteq> [] then (d, service_error ''invalid_graph_spec'')
      else (case replace_graph profile_id automation_id spec d of
          Inl e \<Rightarrow> (d, Inl e)
        | Inr d' \<Rightarrow> (d', get_graph check_schema profile_id automation_id d')))"

section \<open>Well-formed stores\<close>

definition graph_store_ok :: "graph_db \<Rightarrow> bool" where
  "graph_store_ok d \<longleftrightarrow>
     distinct (map am_id (gd_automations d))
     \<and> distinct (map gn_id (gd_nodes d))
     \<and> (\<forall>n \<in> set (gd_nodes d). gn_id n < gd_next_node d \<and> gn_flow n < gd_next_flow d)
     \<and> (\<forall>e \<in> set (gd_edges d). ge_id e < gd_next_edge d \<and> ge_flow e < gd_next_flow d)
     \<and> (\<forall>f \<in> set (gd_flows d). gf_id f < gd_next_flow d)
     \<and> distinct (map nv_id (gd_versions d))
     \<and> (\<forall>v \<in> set (gd_versions d). 0 < nv_id v \<and> nv_id v < gd_next_version d)
     \<and> 0 < gd_next_version d"

text \<open>The stored node a specification becomes in flow \<open>f\<close>, its source in the version rows \<open>vs\<close>.\<close>

definition stored_as :: "nat \<Rightarrow> node_version list \<Rightarrow> node_spec \<Rightarrow> graph_node \<Rightarrow> bool" where
  "stored_as f vs n r \<longleftrightarrow>
     gn_flow r = f \<and> gn_key r = ns_key n \<and> gn_name r = ns_name n \<and> gn_kind r = ns_kind n
     \<and> gn_type r = ns_type n \<and> gn_config r = stored_config (ns_config n)
     \<and> (if ns_kind n = ''code''
         then \<exists>v \<in> set vs. gn_version r = Some (nv_id v) \<and> ns_version n = Some (nv_spec v)
         else gn_version r = None)"

lemma stored_as_mono: "stored_as f vs n r \<Longrightarrow> set vs \<subseteq> set vs' \<Longrightarrow> stored_as f vs' n r"
  by (auto simp: stored_as_def split: if_splits)

text \<open>What adding nodes leaves alone, and how the version table grows.\<close>

definition grows :: "graph_db \<Rightarrow> graph_db \<Rightarrow> bool" where
  "grows d d' \<longleftrightarrow>
     gd_automations d' = gd_automations d \<and> gd_flows d' = gd_flows d \<and> gd_edges d' = gd_edges d
     \<and> gd_next_flow d' = gd_next_flow d \<and> gd_next_edge d' = gd_next_edge d
     \<and> gd_runs d' = gd_runs d \<and> gd_node_runs d' = gd_node_runs d
     \<and> (\<exists>vs. gd_versions d' = gd_versions d @ vs
          \<and> map nv_id vs = [gd_next_version d..<gd_next_version d'])
     \<and> gd_next_version d \<le> gd_next_version d'"

lemma grows_refl [simp]: "grows d d"
  by (simp add: grows_def)

lemma grows_trans:
  assumes "grows d d'" and "grows d' d''"
  shows "grows d d''"
proof -
  from assms obtain vs ws where "gd_versions d'' = gd_versions d @ vs @ ws"
    "map nv_id (vs @ ws) = [gd_next_version d..<gd_next_version d''] "
    unfolding grows_def by (metis append_assoc map_append upt_add_eq_append le_Suc_ex)
  with assms show ?thesis unfolding grows_def by auto
qed

lemma create_code_version_code:
  assumes "ns_kind n = ''code''" and "ns_version n = Some v"
  shows "\<exists>d' x. create_code_version p a n d = Inr (d', Some x, Some (gd_next_version d))
    \<and> grows d d' \<and> gd_nodes d' = gd_nodes d \<and> gd_next_node d' = gd_next_node d
    \<and> (\<exists>row \<in> set (gd_versions d'). nv_id row = gd_next_version d \<and> nv_spec row = v)"
  using assms
  by (auto simp: create_code_version_def ensure_definition_def create_definition_def
      create_version_def Let_def grows_def split: option.splits)

lemma create_code_version_other:
  "ns_kind n \<noteq> ''code'' \<Longrightarrow> create_code_version p a n d = Inr (d, None, None)"
  by (simp add: create_code_version_def)

lemma create_node_fresh:
  assumes "\<not> list_ex (\<lambda>r. gn_flow r = f \<and> gn_key r = ns_key n) (gd_nodes d)"
  shows "\<exists>d' row. create_node f n di vi d = Inr (d', row) \<and> grows d d'
    \<and> gd_nodes d' = gd_nodes d @ [row] \<and> gd_next_node d' = Suc (gd_next_node d)
    \<and> gd_versions d' = gd_versions d \<and> gn_id row = gd_next_node d
    \<and> gn_flow row = f \<and> gn_key row = ns_key n \<and> gn_name row = ns_name n \<and> gn_kind row = ns_kind n
    \<and> gn_type row = ns_type n \<and> gn_config row = stored_config (ns_config n) \<and> gn_version row = vi"
  using assms by (auto simp: create_node_def Let_def grows_def)

definition code_ready :: "node_spec \<Rightarrow> bool" where
  "code_ready n \<longleftrightarrow> (ns_kind n = ''code'' \<longrightarrow> ns_version n \<noteq> None)"

lemma add_node_step:
  assumes "code_ready n"
    and fresh: "\<not> list_ex (\<lambda>r. gn_flow r = f \<and> gn_key r = ns_key n) (gd_nodes d)"
  shows "\<exists>d' row. add_node p a f n (d, acc) = Inr (d', AList.update (ns_key n) (gn_id row) acc)
    \<and> grows d d' \<and> gd_nodes d' = gd_nodes d @ [row] \<and> gn_id row = gd_next_node d
    \<and> gd_next_node d' = Suc (gd_next_node d) \<and> stored_as f (gd_versions d') n row"
proof (cases "ns_kind n = ''code''")
  case True
  with assms(1) obtain v where v: "ns_version n = Some v" by (auto simp: code_ready_def)
  from create_code_version_code [OF True v, of p a d] obtain d1 x where
    d1: "create_code_version p a n d = Inr (d1, Some x, Some (gd_next_version d))" "grows d d1"
    "gd_nodes d1 = gd_nodes d" "gd_next_node d1 = gd_next_node d"
    and row: "\<exists>row \<in> set (gd_versions d1). nv_id row = gd_next_version d \<and> nv_spec row = v" by blast
  from create_node_fresh [of f n d1 "Some x" "Some (gd_next_version d)"] fresh d1(3)
  obtain d2 r where d2: "create_node f n (Some x) (Some (gd_next_version d)) d1 = Inr (d2, r)"
    "grows d1 d2" "gd_nodes d2 = gd_nodes d1 @ [r]" "gd_next_node d2 = Suc (gd_next_node d1)"
    "gd_versions d2 = gd_versions d1" "gn_id r = gd_next_node d1" "gn_flow r = f"
    "gn_key r = ns_key n" "gn_name r = ns_name n" "gn_kind r = ns_kind n" "gn_type r = ns_type n"
    "gn_config r = stored_config (ns_config n)" "gn_version r = Some (gd_next_version d)" by auto
  have "stored_as f (gd_versions d2) n r"
    using d2 row True v by (force simp: stored_as_def)
  moreover have "add_node p a f n (d, acc) = Inr (d2, AList.update (ns_key n) (gn_id r) acc)"
    by (simp add: add_node_def d1(1) d2(1))
  moreover have "grows d d2" by (rule grows_trans [OF d1(2) d2(2)])
  ultimately show ?thesis using d1 d2 by auto
next
  case False
  note other = create_code_version_other [OF False, of p a d]
  from create_node_fresh [OF fresh, of None None]
  obtain d2 r where d2: "create_node f n None None d = Inr (d2, r)"
    "grows d d2" "gd_nodes d2 = gd_nodes d @ [r]" "gd_next_node d2 = Suc (gd_next_node d)"
    "gn_id r = gd_next_node d" "gn_flow r = f"
    "gn_key r = ns_key n" "gn_name r = ns_name n" "gn_kind r = ns_kind n" "gn_type r = ns_type n"
    "gn_config r = stored_config (ns_config n)" "gn_version r = None" by auto
  moreover have "stored_as f (gd_versions d2) n r" using d2 False by (simp add: stored_as_def)
  moreover have "add_node p a f n (d, acc) = Inr (d2, AList.update (ns_key n) (gn_id r) acc)"
    by (simp add: add_node_def other d2(1))
  ultimately show ?thesis by blast
qed

lemma add_nodes_fold:
  assumes "\<forall>n \<in> set ns. code_ready n" and "distinct (map ns_key ns)"
    and "\<forall>r \<in> set (gd_nodes d). gn_flow r = f \<longrightarrow> gn_key r \<notin> ns_key ` set ns"
  shows "\<exists>d' rows acc'. foldE (add_node p a f) ns (d, acc) = Inr (d', acc')
    \<and> grows d d' \<and> gd_nodes d' = gd_nodes d @ rows
    \<and> map gn_id rows = [gd_next_node d..<gd_next_node d']
    \<and> gd_next_node d' = gd_next_node d + length ns
    \<and> list_all2 (stored_as f (gd_versions d')) ns rows
    \<and> map_of acc' = map_of acc ++ map_of (rev (zip (map ns_key ns) (map gn_id rows)))"
  using assms
proof (induction ns arbitrary: d acc)
  case Nil
  then show ?case by simp
next
  case (Cons n ns)
  have fresh: "\<not> list_ex (\<lambda>r. gn_flow r = f \<and> gn_key r = ns_key n) (gd_nodes d)"
    using Cons.prems(3) by (auto simp: list_ex_iff)
  from add_node_step [OF _ fresh, of p a acc] Cons.prems(1) obtain d1 row where
    s: "add_node p a f n (d, acc) = Inr (d1, AList.update (ns_key n) (gn_id row) acc)"
    "grows d d1" "gd_nodes d1 = gd_nodes d @ [row]" "gn_id row = gd_next_node d"
    "gd_next_node d1 = Suc (gd_next_node d)" "stored_as f (gd_versions d1) n row" by auto
  have key: "gn_key row = ns_key n" using s(6) by (simp add: stored_as_def)
  have "\<forall>r \<in> set (gd_nodes d1). gn_flow r = f \<longrightarrow> gn_key r \<notin> ns_key ` set ns"
    using Cons.prems(2,3) key unfolding s(3) by auto
  with Cons.IH [of d1 "AList.update (ns_key n) (gn_id row) acc"] Cons.prems(1,2)
  obtain d' rows acc' where
    t: "foldE (add_node p a f) ns (d1, AList.update (ns_key n) (gn_id row) acc) = Inr (d', acc')"
    "grows d1 d'" "gd_nodes d' = gd_nodes d1 @ rows"
    "map gn_id rows = [gd_next_node d1..<gd_next_node d']"
    "gd_next_node d' = gd_next_node d1 + length ns"
    "list_all2 (stored_as f (gd_versions d')) ns rows"
    "map_of acc' = map_of (AList.update (ns_key n) (gn_id row) acc)
       ++ map_of (rev (zip (map ns_key ns) (map gn_id rows)))"
    by auto
  have sub: "set (gd_versions d1) \<subseteq> set (gd_versions d')" using t(2) by (auto simp: grows_def)
  have "foldE (add_node p a f) (n # ns) (d, acc) = Inr (d', acc')" using s(1) t(1) by simp
  moreover have "grows d d'" by (rule grows_trans [OF s(2) t(2)])
  moreover have "gd_nodes d' = gd_nodes d @ row # rows" using s(3) t(3) by simp
  moreover have "map gn_id (row # rows) = [gd_next_node d..<gd_next_node d']"
    using s(4,5) t(4,5) by (simp add: upt_rec)
  moreover have "list_all2 (stored_as f (gd_versions d')) (n # ns) (row # rows)"
    using t(6) stored_as_mono [OF s(6) sub] by simp
  moreover have "map_of acc' = map_of acc
      ++ map_of (rev (zip (map ns_key (n # ns)) (map gn_id (row # rows))))"
    unfolding t(7) AList.update_conv' by (simp add: map_add_upd_left)
  ultimately show ?case using s(5) t(5) by auto
qed

definition edge_stored_as :: "nat \<Rightarrow> (string \<times> nat) list \<Rightarrow> edge_spec \<Rightarrow> graph_edge \<Rightarrow> bool" where
  "edge_stored_as f ids e r \<longleftrightarrow>
     ge_flow r = f \<and> map_of ids (es_source e) = Some (ge_source r)
     \<and> map_of ids (es_target e) = Some (ge_target r)
     \<and> ge_source_port r = es_source_port e \<and> ge_target_port r = es_target_port e"

lemma add_edges_fold:
  assumes "\<forall>e \<in> set es. map_of ids (es_source e) \<noteq> None \<and> map_of ids (es_target e) \<noteq> None"
  shows "\<exists>d' rows. foldE (add_edge f ids) es d = Inr d'
    \<and> d' = d\<lparr>gd_edges := gd_edges d @ rows, gd_next_edge := gd_next_edge d + length es\<rparr>
    \<and> map ge_id rows = [gd_next_edge d..<gd_next_edge d + length es]
    \<and> list_all2 (edge_stored_as f ids) es rows"
  using assms
proof (induction es arbitrary: d)
  case Nil
  then show ?case by simp
next
  case (Cons e es)
  from Cons.prems obtain s t where st: "map_of ids (es_source e) = Some s" "map_of ids (es_target e) = Some t"
    by auto
  let ?row = "\<lparr>ge_id = gd_next_edge d, ge_flow = f, ge_source = s, ge_target = t,
    ge_source_port = es_source_port e, ge_target_port = es_target_port e\<rparr>"
  let ?d1 = "d\<lparr>gd_edges := gd_edges d @ [?row], gd_next_edge := Suc (gd_next_edge d)\<rparr>"
  have step: "add_edge f ids e d = Inr ?d1" by (simp add: add_edge_def st create_edge_def Let_def)
  from Cons.IH [of ?d1] Cons.prems obtain d' rows where
    t: "foldE (add_edge f ids) es ?d1 = Inr d'"
    "d' = ?d1\<lparr>gd_edges := gd_edges ?d1 @ rows, gd_next_edge := gd_next_edge ?d1 + length es\<rparr>"
    "map ge_id rows = [gd_next_edge ?d1..<gd_next_edge ?d1 + length es]"
    "list_all2 (edge_stored_as f ids) es rows" by auto
  have "list_all2 (edge_stored_as f ids) (e # es) (?row # rows)"
    using t(4) st by (simp add: edge_stored_as_def)
  moreover have "map ge_id (?row # rows) = [gd_next_edge d..<gd_next_edge d + length (e # es)]"
    using t(3) by (simp add: upt_rec)
  moreover have "foldE (add_edge f ids) (e # es) d = Inr d'" using step t(1) by simp
  moreover have "d' = d\<lparr>gd_edges := gd_edges d @ ?row # rows,
      gd_next_edge := gd_next_edge d + length (e # es)\<rparr>" unfolding t(2) by simp
  ultimately show ?case by blast
qed

lemma nodes_by_id_distinct:
  assumes "distinct (map gn_id nodes)"
  shows "map_of (nodes_by_id nodes) = map_of (map (\<lambda>n. (gn_id n, n)) nodes)"
proof -
  have "map_of (foldl (\<lambda>acc n. AList.update (gn_id n) n acc) acc nodes)
      = map_of acc ++ map_of (map (\<lambda>n. (gn_id n, n)) nodes)"
    if "distinct (map gn_id nodes)" for acc and nodes :: "graph_node list"
    using that
  proof (induction nodes arbitrary: acc)
    case (Cons n nodes)
    then have "map_of (map (\<lambda>n. (gn_id n, n)) nodes) (gn_id n) = None"
      by (force simp: map_of_eq_None_iff)
    with Cons show ?case by (simp add: AList.update_conv' map_add_upd_left fun_eq_iff map_add_def split: option.splits)
  qed simp
  from this [OF assms, of "[]"] show ?thesis by (simp add: nodes_by_id_def)
qed

section \<open>The stored graph is the specified one\<close>

lemma key_to_node:
  assumes "list_all2 (stored_as f vs) ns rows" and "distinct (map gn_id rows)"
    and "map_of (rev (zip (map ns_key ns) (map gn_id rows))) k = Some i"
  shows "\<exists>n. map_of (nodes_by_id rows) i = Some n \<and> gn_key n = k"
proof -
  from map_of_SomeD [OF assms(3)] obtain j where j: "j < length ns" "j < length rows"
    "ns_key (ns ! j) = k" "gn_id (rows ! j) = i" by (auto simp: in_set_zip)
  have "stored_as f vs (ns ! j) (rows ! j)" using assms(1) j by (simp add: list_all2_conv_all_nth)
  then have "gn_key (rows ! j) = k" using j(3) by (simp add: stored_as_def)
  moreover have "map_of (map (\<lambda>n. (gn_id n, n)) rows) i = Some (rows ! j)"
    using assms(2) j by (intro map_of_is_SomeI) (auto simp: comp_def image_iff intro!: bexI [of _ "rows ! j"])
  ultimately show ?thesis by (simp add: nodes_by_id_distinct [OF assms(2)])
qed

lemma key_has_id:
  assumes "length ns = length rows" and "k \<in> ns_key ` set ns"
  shows "map_of (rev (zip (map ns_key ns) (map gn_id rows))) k \<noteq> None"
proof -
  from assms(2) obtain j where "j < length ns" "ns_key (ns ! j) = k" by (auto simp: in_set_conv_nth)
  with assms(1) have "(k, gn_id (rows ! j)) \<in> set (zip (map ns_key ns) (map gn_id rows))"
    by (auto simp: in_set_zip intro!: exI [of _ j])
  then have "(k, gn_id (rows ! j)) \<in> set (rev (zip (map ns_key ns) (map gn_id rows)))" by simp
  from weak_map_of_SomeI [OF this] show ?thesis by blast
qed

text \<open>The database after replacing a graph, in terms of the rows that were added.\<close>

definition replaced ::
    "string \<Rightarrow> nat \<Rightarrow> graph_spec \<Rightarrow> graph_db \<Rightarrow> graph_db \<Rightarrow> graph_node list \<Rightarrow> graph_edge list \<Rightarrow> bool" where
  "replaced p a spec d d' rows erows \<longleftrightarrow>
     gd_automations d' = update_where (\<lambda>x. am_profile x = p \<and> am_id x = a)
        (\<lambda>x. x\<lparr>am_execution_mode := ''graph''\<rparr>) (gd_automations d)
     \<and> gd_flows d' = gd_flows (archive_active_flows a d)
          @ [\<lparr>gf_id = gd_next_flow d, gf_automation = a, gf_name = gs_name spec,
               gf_status = ''active'', gf_version = next_flow_version a d\<rparr>]
     \<and> gd_next_flow d' = Suc (gd_next_flow d)
     \<and> gd_nodes d' = gd_nodes d @ rows \<and> gd_edges d' = gd_edges d @ erows
     \<and> map gn_id rows = [gd_next_node d..<gd_next_node d'] \<and> gd_next_node d \<le> gd_next_node d'
     \<and> map ge_id erows = [gd_next_edge d..<gd_next_edge d'] \<and> gd_next_edge d \<le> gd_next_edge d'
     \<and> list_all2 (stored_as (gd_next_flow d) (gd_versions d')) (gs_nodes spec) rows
     \<and> list_all2 (edge_stored_as (gd_next_flow d)
          (rev (zip (map ns_key (gs_nodes spec)) (map gn_id rows)))) (gs_edges spec) erows
     \<and> (\<exists>vs. gd_versions d' = gd_versions d @ vs
          \<and> map nv_id vs = [gd_next_version d..<gd_next_version d'])
     \<and> gd_next_version d \<le> gd_next_version d'
     \<and> gd_runs d' = gd_runs d \<and> gd_node_runs d' = gd_node_runs d"

lemma replace_graph_replaced:
  assumes ok: "graph_store_ok d"
    and codes: "\<forall>n \<in> set (gs_nodes spec). code_ready n"
    and keys: "distinct (map ns_key (gs_nodes spec))"
    and ends: "\<forall>e \<in> set (gs_edges spec). es_source e \<in> ns_key ` set (gs_nodes spec)
          \<and> es_target e \<in> ns_key ` set (gs_nodes spec)"
    and am: "get_automation p a d = Some am" "am_status am \<noteq> ''deleted''"
  shows "\<exists>d' rows erows. replace_graph p a spec d = Inr d' \<and> replaced p a spec d d' rows erows"
proof -
  let ?f = "gd_next_flow d"
  let ?flow = "\<lparr>gf_id = ?f, gf_automation = a, gf_name = gs_name spec, gf_status = ''active'',
    gf_version = next_flow_version a d\<rparr>"
  let ?d1 = "d\<lparr>gd_flows := gd_flows (archive_active_flows a d) @ [?flow], gd_next_flow := Suc ?f\<rparr>"
  have d1: "create_graph_flow a (gs_name spec) (next_flow_version a d) (archive_active_flows a d) = (?d1, ?flow)"
    by (simp add: create_graph_flow_def archive_active_flows_def Let_def)
  have "\<forall>r \<in> set (gd_nodes ?d1). gn_flow r = ?f \<longrightarrow> gn_key r \<notin> ns_key ` set (gs_nodes spec)"
    using ok by (force simp: graph_store_ok_def)
  from add_nodes_fold [OF codes keys this, of p a "[]"] obtain d2 rows ids where
    t: "foldE (add_node p a ?f) (gs_nodes spec) (?d1, []) = Inr (d2, ids)" "grows ?d1 d2"
    "gd_nodes d2 = gd_nodes d @ rows" "map gn_id rows = [gd_next_node d..<gd_next_node d2]"
    "gd_next_node d2 = gd_next_node d + length (gs_nodes spec)"
    "list_all2 (stored_as ?f (gd_versions d2)) (gs_nodes spec) rows"
    "map_of ids = map_of (rev (zip (map ns_key (gs_nodes spec)) (map gn_id rows)))" by auto
  have len: "length (gs_nodes spec) = length rows" using t(6) by (rule list_all2_lengthD)
  have "\<forall>e \<in> set (gs_edges spec). map_of ids (es_source e) \<noteq> None \<and> map_of ids (es_target e) \<noteq> None"
    unfolding t(7) using ends key_has_id [OF len] by blast
  from add_edges_fold [OF this, of ?f d2] obtain d3 erows where
    u: "foldE (add_edge ?f ids) (gs_edges spec) d2 = Inr d3"
    "d3 = d2\<lparr>gd_edges := gd_edges d2 @ erows, gd_next_edge := gd_next_edge d2 + length (gs_edges spec)\<rparr>"
    "map ge_id erows = [gd_next_edge d2..<gd_next_edge d2 + length (gs_edges spec)]"
    "list_all2 (edge_stored_as ?f ids) (gs_edges spec) erows" by blast
  let ?d' = "set_automation_execution_mode p a ''graph'' d3"
  have "replace_graph p a spec d = Inr ?d'"
    using am by (simp add: replace_graph_def d1 t(1) u(1))
  moreover have "replaced p a spec d ?d' rows erows"
    using t u unfolding replaced_def edge_stored_as_def grows_def set_automation_execution_mode_def
    by simp
  ultimately show ?thesis by blast
qed

lemma replaced_store_ok:
  assumes "graph_store_ok d" and "replaced p a spec d d' rows erows"
  shows "graph_store_ok d'"
proof -
  note r = assms(2) [unfolded replaced_def] and ok = assms(1) [unfolded graph_store_ok_def]
  have new: "gd_next_node d \<le> gn_id n \<and> gn_id n < gd_next_node d'" if "n \<in> set rows" for n
  proof -
    have "gn_id n \<in> set (map gn_id rows)" using that by simp
    moreover have "map gn_id rows = [gd_next_node d..<gd_next_node d']" using r by blast
    ultimately show ?thesis by simp
  qed
  have enew: "ge_id e < gd_next_edge d'" if "e \<in> set erows" for e
  proof -
    have "ge_id e \<in> set (map ge_id erows)" using that by simp
    moreover have "map ge_id erows = [gd_next_edge d..<gd_next_edge d']" using r by blast
    ultimately show ?thesis by simp
  qed
  have flow: "gn_flow n = gd_next_flow d" if "n \<in> set rows" for n
  proof -
    from r have "list_all2 (stored_as (gd_next_flow d) (gd_versions d')) (gs_nodes spec) rows" by blast
    from list_all2_rightD [OF this that] show ?thesis by (auto simp: stored_as_def)
  qed
  have eflow: "ge_flow e = gd_next_flow d" if "e \<in> set erows" for e
  proof -
    from r have "list_all2 (edge_stored_as (gd_next_flow d)
      (rev (zip (map ns_key (gs_nodes spec)) (map gn_id rows)))) (gs_edges spec) erows" by blast
    from list_all2_rightD [OF this that] show ?thesis by (auto simp: edge_stored_as_def)
  qed
  have "map am_id (gd_automations d') = map am_id (gd_automations d)"
    using r by (simp add: map_update_where)
  then have autos: "distinct (map am_id (gd_automations d'))" using ok by simp
  have "distinct (map gn_id rows)" using r by (metis distinct_upt)
  then have nodes: "distinct (map gn_id (gd_nodes d'))"
    using r ok new by (fastforce simp del: distinct_upt)
  have fl: "gd_flows d' = gd_flows (archive_active_flows a d)
          @ [\<lparr>gf_id = gd_next_flow d, gf_automation = a, gf_name = gs_name spec,
               gf_status = ''active'', gf_version = next_flow_version a d\<rparr>]"
    and nf: "gd_next_flow d' = Suc (gd_next_flow d)" using r by blast+
  have "map gf_id (gd_flows (archive_active_flows a d)) = map gf_id (gd_flows d)"
    by (simp add: archive_active_flows_def map_update_where)
  then have "gf_id ` set (gd_flows d') = insert (gd_next_flow d) (gf_id ` set (gd_flows d))"
    unfolding fl by (simp add: image_set del: set_map) 
  moreover have "\<forall>i \<in> gf_id ` set (gd_flows d). i < gd_next_flow d" using ok by blast
  ultimately have flows: "\<forall>f \<in> set (gd_flows d'). gf_id f < gd_next_flow d'"
    unfolding nf by (metis image_eqI insert_iff less_Suc_eq)
  obtain vs where vs: "gd_versions d' = gd_versions d @ vs" "map nv_id vs = [gd_next_version d..<gd_next_version d']"
    using r by blast
  have vnew: "gd_next_version d \<le> nv_id v \<and> nv_id v < gd_next_version d'" if "v \<in> set vs" for v
  proof -
    have "nv_id v \<in> set (map nv_id vs)" using that by simp
    then show ?thesis unfolding vs(2) by simp
  qed
  have "distinct (map nv_id vs)" using vs(2) by (metis distinct_upt)
  then have "distinct (map nv_id (gd_versions d'))" using vs(1) ok vnew by fastforce
  moreover have "\<forall>v \<in> set (gd_versions d'). 0 < nv_id v \<and> nv_id v < gd_next_version d'"
    using vs(1) ok vnew r by fastforce
  moreover have "\<forall>n \<in> set (gd_nodes d'). gn_id n < gd_next_node d' \<and> gn_flow n < gd_next_flow d'"
    using r ok new flow by fastforce
  moreover have "\<forall>e \<in> set (gd_edges d'). ge_id e < gd_next_edge d' \<and> ge_flow e < gd_next_flow d'"
    using r ok enew eflow by fastforce
  ultimately show ?thesis using autos nodes flows r ok by (simp add: graph_store_ok_def)
qed

lemma sort_key_by_upt:
  assumes "map key xs = [m..<n]"
  shows "sort_key key xs = xs"
proof -
  have "sorted (map key xs)" unfolding assms by simp
  then show ?thesis by (rule sort_key_id_if_sorted)
qed

text \<open>The new flow is the one active flow, and it holds exactly the added rows.\<close>

lemma replaced_views:
  assumes ok: "graph_store_ok d" and rep: "replaced p a spec d d' rows erows"
  shows "list_nodes (gd_next_flow d) d' = rows" and "list_edges (gd_next_flow d) d' = erows"
    and "get_automation p a d' = map_option (\<lambda>x. x\<lparr>am_execution_mode := ''graph''\<rparr>) (get_automation p a d)"
proof -
  note r = rep [unfolded replaced_def] and ok' = ok [unfolded graph_store_ok_def]
  have rows: "list_all2 (stored_as (gd_next_flow d) (gd_versions d')) (gs_nodes spec) rows"
    and "map gn_id rows = [gd_next_node d..<gd_next_node d']"
    and nodes: "gd_nodes d' = gd_nodes d @ rows"
    and erows: "list_all2 (edge_stored_as (gd_next_flow d)
          (rev (zip (map ns_key (gs_nodes spec)) (map gn_id rows)))) (gs_edges spec) erows"
    and "map ge_id erows = [gd_next_edge d..<gd_next_edge d']"
    and edges: "gd_edges d' = gd_edges d @ erows"
    and autos: "gd_automations d' = update_where (\<lambda>x. am_profile x = p \<and> am_id x = a)
        (\<lambda>x. x\<lparr>am_execution_mode := ''graph''\<rparr>) (gd_automations d)"
    using r by blast+
  note srt = sort_key_by_upt [OF this(2)] sort_key_by_upt [OF this(5)]
  have "\<forall>n \<in> set rows. gn_flow n = gd_next_flow d"
    using list_all2_rightD [OF rows] by (auto simp: stored_as_def)
  then have "filter (\<lambda>n. gn_flow n = gd_next_flow d) rows = rows" by simp
  moreover have "\<forall>n \<in> set (gd_nodes d). gn_flow n \<noteq> gd_next_flow d" using ok' by (metis less_irrefl)
  then have "filter (\<lambda>n. gn_flow n = gd_next_flow d) (gd_nodes d) = []" by simp
  ultimately show "list_nodes (gd_next_flow d) d' = rows" by (simp add: list_nodes_def nodes srt)
  have "\<forall>e \<in> set erows. ge_flow e = gd_next_flow d"
    using list_all2_rightD [OF erows] by (auto simp: edge_stored_as_def)
  then have "filter (\<lambda>e. ge_flow e = gd_next_flow d) erows = erows" by simp
  moreover have "\<forall>e \<in> set (gd_edges d). ge_flow e \<noteq> gd_next_flow d" using ok' by (metis less_irrefl)
  then have "filter (\<lambda>e. ge_flow e = gd_next_flow d) (gd_edges d) = []" by simp
  ultimately show "list_edges (gd_next_flow d) d' = erows" by (simp add: list_edges_def edges srt)
  show "get_automation p a d' = map_option (\<lambda>x. x\<lparr>am_execution_mode := ''graph''\<rparr>) (get_automation p a d)"
    unfolding get_automation_def autos by (rule find_update_where) simp
qed

lemma fold_max_upper:
  fixes x :: "'a::linorder"
  shows "x \<le> fold max xs x" and "y \<in> set xs \<Longrightarrow> y \<le> fold max xs x"
proof -
  have "x \<le> fold max xs x \<and> (\<forall>y \<in> set xs. y \<le> fold max xs x)" for x :: 'a
  proof (induction xs arbitrary: x)
    case (Cons z zs)
    from Cons [of "max z x"] show ?case by auto
  qed simp
  then show "x \<le> fold max xs x" and "y \<in> set xs \<Longrightarrow> y \<le> fold max xs x" by blast+
qed

lemma next_flow_version_above:
  "f \<in> set (gd_flows d) \<Longrightarrow> gf_automation f = a \<Longrightarrow> gf_version f < next_flow_version a d"
  using fold_max_upper(2) [of "gf_version f" "map gf_version (list_graph_flows a d)" 0]
  by (simp add: next_flow_version_def list_graph_flows_def)

lemma replaced_active_flow:
  assumes "replaced p a spec d d' rows erows"
  shows "get_active_flow a d' = Some \<lparr>gf_id = gd_next_flow d, gf_automation = a, gf_name = gs_name spec,
      gf_status = ''active'', gf_version = next_flow_version a d\<rparr>"
    and "\<And>f. f \<in> set (gd_flows d') \<Longrightarrow> gf_automation f = a \<Longrightarrow> gf_status f = ''active'' \<Longrightarrow>
      gf_id f = gd_next_flow d"
proof -
  let ?flow = "\<lparr>gf_id = gd_next_flow d, gf_automation = a, gf_name = gs_name spec,
      gf_status = ''active'', gf_version = next_flow_version a d\<rparr>"
  let ?old = "gd_flows (archive_active_flows a d)"
  have flows: "gd_flows d' = ?old @ [?flow]" using assms by (simp add: replaced_def)
  have old: "\<not> (gf_automation f = a \<and> gf_status f = ''active'')" if "f \<in> set ?old" for f
  proof -
    from that obtain r where
      "f = (if gf_automation r = a \<and> gf_status r = ''active'' then r\<lparr>gf_status := ''archived''\<rparr> else r)"
      by (force simp: archive_active_flows_def set_update_where)
    then show ?thesis by (cases "gf_automation r = a \<and> gf_status r = ''active''") simp_all
  qed
  then have "filter (\<lambda>f. gf_automation f = a \<and> gf_status f = ''active'') ?old = []" by simp
  then show "get_active_flow a d' = Some ?flow" by (simp add: get_active_flow_def flows)
  fix f assume "f \<in> set (gd_flows d')" "gf_automation f = a" "gf_status f = ''active''"
  with old flows have "f = ?flow" by auto
  then show "gf_id f = gd_next_flow d" using arg_cong [of f ?flow gf_id] by simp
qed

text \<open>Loading finds every version, with schemas the validation has checked.\<close>

lemma loaded_schemas:
  assumes ok: "graph_store_ok d'" and rows: "list_all2 (stored_as f (gd_versions d')) ns rows"
    and valid: "\<And>n v s doc. n \<in> set ns \<Longrightarrow> ns_kind n = ''code'' \<Longrightarrow> ns_version n = Some v \<Longrightarrow>
      s \<in> {vs_config_schema v, vs_input_schema v, vs_output_schema v} \<Longrightarrow> s = Some doc \<Longrightarrow> check_schema doc"
  shows "\<exists>sc. foldE (prepare_node_schemas check_schema
      (list_versions (List.map_filter gn_version rows) d')) rows [] = Inr sc"
proof (rule foldE_total)
  fix r :: graph_node and acc
  assume "r \<in> set rows"
  from list_all2_rightD [OF rows this] obtain n where n: "n \<in> set ns"
    and st: "stored_as f (gd_versions d') n r" by blast
  let ?vs = "list_versions (List.map_filter gn_version rows) d'"
  have ids: "distinct (map nv_id (gd_versions d'))" using ok by (simp add: graph_store_ok_def)
  have chk: "validated_schema check_schema s = Inr s"
    if "version_of ?vs r = Some v" "s \<in> {vs_input_schema (nv_spec v), vs_output_schema (nv_spec v)}" for v s
  proof -
    from that(1) obtain i where i: "gn_version r = Some i" "map_of ?vs i = Some v"
      by (auto simp: version_of_def split: option.splits if_splits)
    from map_of_SomeD [OF i(2)] have v: "v \<in> set (gd_versions d')" "nv_id v = i"
      by (auto simp: list_versions_def)
    from st i(1) obtain w where w: "ns_kind n = ''code''" "w \<in> set (gd_versions d')" "nv_id w = i"
      "ns_version n = Some (nv_spec w)" by (auto simp: stored_as_def split: if_splits)
    have "w = v" by (rule distinct_key_eqD [OF ids w(2) v(1)]) (simp add: w(3) v(2))
    with valid [OF n w(1,4)] that(2) show ?thesis
      by (auto simp: validated_schema_def split: option.splits)
  qed
  show "\<exists>acc'. prepare_node_schemas check_schema ?vs r acc = Inr acc'"
  proof (cases "version_of ?vs r")
    case None
    then show ?thesis by (simp add: prepare_node_schemas_def)
  next
    case (Some v)
    with chk [OF Some] show ?thesis by (simp add: prepare_node_schemas_def)
  qed
qed

text \<open>A stored configuration has the keys it was given, each with its value.\<close>

lemma map_of_map_filter: "map_of xs k = (case filter (\<lambda>kv. fst kv = k) xs of [] \<Rightarrow> None | kv # _ \<Rightarrow> Some (snd kv))"
  by (induction xs) auto

lemma filter_sort_key_fst: "filter (\<lambda>kv. fst kv = k) (sort_key fst xs) = filter (\<lambda>kv. fst kv = k) (xs :: (string \<times> 'v) list)"
  using sort_key_stable [of fst k xs] by simp

lemma stored_config_lookup: "map_of (stored_config c) k = map_option sorted_keys (map_of c k)"
proof -
  have "map_of (stored_config c) k = map_of (map (\<lambda>(k, v). (k, sorted_keys v)) c) k"
    unfolding stored_config_def map_of_map_filter [of "sort_key _ _"] map_of_map_filter [of "map _ _"] filter_sort_key_fst ..
  then show ?thesis by (simp add: map_of_map)
qed

text \<open>C11 Replacing the graph of an automation by an accepted specification and reading it back gives
  the specification: the same nodes in the same order, the same edges between the same keys and
  ports, under a flow with a higher version that is now the automation's only active one. The configurations come
  back with their keys sorted and are otherwise the same: the same objects as Python compares them.\<close>

theorem applied_graph_reads_back:
  assumes ok: "graph_store_ok d" and valid: "validate_spec check_schema adapters spec = []"
    and am: "get_automation p a d = Some am" "am_status am \<noteq> ''deleted''"
    and mode: "am_fallback_mode am \<in> {''fail_closed'', ''resume_with_ai'', ''resume_with_ai_if_safe''}"
    and kinds: "\<And>n. n \<in> set (gs_nodes spec) \<Longrightarrow>
      ns_kind n \<in> {''builtin'', ''code'', ''ai'', ''agent'', ''task'', ''action''}"
  shows "\<exists>d' g. apply_graph check_schema adapters p a spec d = (d', Inr g)
    \<and> map (\<lambda>n. (nm_key n, nm_name n, nm_kind n, nm_type n, nm_config n)) (gm_nodes g)
        = map (\<lambda>n. (ns_key n, ns_name n, ns_kind n, ns_type n, stored_config (ns_config n))) (gs_nodes spec)
    \<and> map (\<lambda>e. (em_source e, em_target e, em_source_port e, em_target_port e)) (gm_edges g)
        = map (\<lambda>e. (es_source e, es_target e, es_source_port e, es_target_port e)) (gs_edges spec)
    \<and> gm_name g = gs_name spec \<and> gm_mode g = ''graph'' \<and> gm_status g = ''active''
    \<and> (\<forall>f \<in> set (gd_flows d). gf_automation f = a \<longrightarrow> gf_version f < gm_version g)
    \<and> (\<forall>f \<in> set (gd_flows d'). gf_automation f = a \<longrightarrow> gf_status f = ''active'' \<longrightarrow> gf_id f = gm_flow_id g)
    \<and> graph_store_ok d'"
proof -
  note acc = valid [unfolded graph_accepted_iff]
  have codes: "\<forall>n \<in> set (gs_nodes spec). code_ready n" using acc by (auto simp: code_ready_def)
  from replace_graph_replaced [OF ok codes _ _ am] acc obtain d' rows erows where
    rep: "replace_graph p a spec d = Inr d'" "replaced p a spec d d' rows erows" by blast
  have ok': "graph_store_ok d'" by (rule replaced_store_ok [OF ok rep(2)])
  note views = replaced_views [OF ok rep(2)] and active = replaced_active_flow [OF rep(2)]
  have st: "list_all2 (stored_as (gd_next_flow d) (gd_versions d')) (gs_nodes spec) rows"
    and est: "list_all2 (edge_stored_as (gd_next_flow d)
        (rev (zip (map ns_key (gs_nodes spec)) (map gn_id rows)))) (gs_edges spec) erows"
    and ids: "map gn_id rows = [gd_next_node d..<gd_next_node d']"
    using rep(2) unfolding replaced_def by blast+
  have dist: "distinct (map gn_id rows)" unfolding ids by simp
  have chk: "check_schema doc" if "n \<in> set (gs_nodes spec)" "ns_kind n = ''code''" "ns_version n = Some v"
    "s \<in> {vs_config_schema v, vs_input_schema v, vs_output_schema v}" "s = Some doc" for n v s doc
    using acc that by (metis option.inject)
  have "\<exists>sc. foldE (prepare_node_schemas check_schema
      (list_versions (List.map_filter gn_version rows) d')) rows [] = Inr sc"
    by (rule loaded_schemas [OF ok' st]) (rule chk)
  then obtain sc where sc: "foldE (prepare_node_schemas check_schema
      (list_versions (List.map_filter gn_version rows) d')) rows [] = Inr sc" ..
  have nmv: "\<exists>m. node_to_metadata r = Inr m \<and> (nm_key m, nm_name m, nm_kind m, nm_type m, nm_config m)
      = (ns_key n, ns_name n, ns_kind n, ns_type n, stored_config (ns_config n))"
    if "n \<in> set (gs_nodes spec) \<and> stored_as (gd_next_flow d) (gd_versions d') n r" for n r
    using that kinds [of n] by (auto simp: node_to_metadata_def as_graph_node_kind_def stored_as_def)
  have "\<exists>nms. mapE node_to_metadata rows = Inr nms
      \<and> map (\<lambda>n. (nm_key n, nm_name n, nm_kind n, nm_type n, nm_config n)) nms
        = map (\<lambda>n. (ns_key n, ns_name n, ns_kind n, ns_type n, stored_config (ns_config n))) (gs_nodes spec)"
    by (rule mapE_view [OF list_all2_left_mem [OF st]]) (rule nmv)
  then obtain nms where nms: "mapE node_to_metadata rows = Inr nms"
      "map (\<lambda>n. (nm_key n, nm_name n, nm_kind n, nm_type n, nm_config n)) nms
        = map (\<lambda>n. (ns_key n, ns_name n, ns_kind n, ns_type n, stored_config (ns_config n))) (gs_nodes spec)" by blast
  have emv: "\<exists>m. edge_to_metadata (nodes_by_id rows) r = Inr m
      \<and> (em_source m, em_target m, em_source_port m, em_target_port m)
        = (es_source e, es_target e, es_source_port e, es_target_port e)"
    if e: "edge_stored_as (gd_next_flow d)
        (rev (zip (map ns_key (gs_nodes spec)) (map gn_id rows))) e r" for e r
  proof -
    from e obtain s t where "map_of (nodes_by_id rows) (ge_source r) = Some s" "gn_key s = es_source e"
      "map_of (nodes_by_id rows) (ge_target r) = Some t" "gn_key t = es_target e"
      using key_to_node [OF st dist] unfolding edge_stored_as_def by metis
    with e show ?thesis by (simp add: edge_to_metadata_def edge_stored_as_def)
  qed
  have "\<exists>ems. mapE (edge_to_metadata (nodes_by_id rows)) erows = Inr ems
      \<and> map (\<lambda>e. (em_source e, em_target e, em_source_port e, em_target_port e)) ems
        = map (\<lambda>e. (es_source e, es_target e, es_source_port e, es_target_port e)) (gs_edges spec)"
    by (rule mapE_view [OF est]) (rule emv)
  then obtain ems where ems: "mapE (edge_to_metadata (nodes_by_id rows)) erows = Inr ems"
      "map (\<lambda>e. (em_source e, em_target e, em_source_port e, em_target_port e)) ems
        = map (\<lambda>e. (es_source e, es_target e, es_source_port e, es_target_port e)) (gs_edges spec)" by blast
  let ?flow = "\<lparr>gf_id = gd_next_flow d, gf_automation = a, gf_name = gs_name spec,
      gf_status = ''active'', gf_version = next_flow_version a d\<rparr>"
  let ?g = "\<lparr>gm_flow_id = gd_next_flow d, gm_automation_id = am_id am, gm_mode = ''graph'',
    gm_fallback = am_fallback_mode am, gm_name = gs_name spec, gm_version = next_flow_version a d,
    gm_status = ''active'', gm_nodes = nms, gm_edges = ems\<rparr>"
  have "get_graph check_schema p a d' = Inr ?g"
    using am mode
    by (auto simp: get_graph_def load_graph_def to_graph_metadata_def views active(1) Let_def sc nms(1)
        ems(1) as_execution_mode_def runtime_fallback_mode_def)
  then have "apply_graph check_schema adapters p a spec d = (d', Inr ?g)"
    by (simp add: apply_graph_def valid rep(1))
  with nms(2) ems(2) ok' active(2) next_flow_version_above [of _ d a] show ?thesis
    by (intro exI [of _ d'] exI [of _ ?g]) simp
qed

definition example_automation :: automation where
  "example_automation = \<lparr>am_id = 1, am_profile = ''p'', am_prompt = ''do'', am_trigger_type = ''cron'',
     am_status = ''active'', am_execution_mode = ''prompt'', am_fallback_mode = ''resume_with_ai_if_safe''\<rparr>"

definition example_graph_db :: graph_db where
  "example_graph_db = \<lparr>gd_automations = [example_automation],
     gd_flows = [\<lparr>gf_id = 1, gf_automation = 1, gf_name = ''old'', gf_status = ''active'', gf_version = 4\<rparr>],
     gd_definitions = [], gd_versions = [],
     gd_nodes = [\<lparr>gn_id = 1, gn_flow = 1, gn_definition = None, gn_version = None, gn_key = ''in'',
        gn_name = ''in'', gn_kind = ''builtin'', gn_type = ''trigger.input'', gn_config = []\<rparr>],
     gd_edges = [], gd_runs = [], gd_node_runs = [], gd_next_flow = 2, gd_next_definition = 1,
     gd_next_version = 1, gd_next_node = 2, gd_next_edge = 1, gd_next_run = 1, gd_next_node_run = 1\<rparr>"

theorem applied_graph_reads_back_witness:
  "\<exists>d' g. apply_graph no_check example_adapters ''p'' 1 example_graph_spec example_graph_db = (d', Inr g)
    \<and> map nm_key (gm_nodes g) = [''in'', ''ask''] \<and> 4 < gm_version g \<and> graph_store_ok d'"
proof -
  have ok: "graph_store_ok example_graph_db" by code_simp
  have valid: "validate_spec no_check example_adapters example_graph_spec = []" by code_simp
  have am: "get_automation ''p'' 1 example_graph_db = Some example_automation" by code_simp
  have st: "am_status example_automation \<noteq> ''deleted''" by code_simp
  have mode: "am_fallback_mode example_automation
      \<in> {''fail_closed'', ''resume_with_ai'', ''resume_with_ai_if_safe''}" by code_simp
  have "\<forall>n \<in> set (gs_nodes example_graph_spec).
      ns_kind n \<in> {''builtin'', ''code'', ''ai'', ''agent'', ''task'', ''action''}" by code_simp
  note kinds = bspec [OF this]
  have keys: "map ns_key (gs_nodes example_graph_spec) = [''in'', ''ask'']" by code_simp
  have old: "\<exists>f \<in> set (gd_flows example_graph_db). gf_automation f = 1 \<and> gf_version f = 4" by code_simp
  from applied_graph_reads_back [OF ok valid am st mode kinds] obtain d' g where
    r: "apply_graph no_check example_adapters ''p'' 1 example_graph_spec example_graph_db = (d', Inr g)"
    "map (\<lambda>n. (nm_key n, nm_name n, nm_kind n, nm_type n, nm_config n)) (gm_nodes g)
        = map (\<lambda>n. (ns_key n, ns_name n, ns_kind n, ns_type n, stored_config (ns_config n))) (gs_nodes example_graph_spec)"
    "\<forall>f \<in> set (gd_flows example_graph_db). gf_automation f = 1 \<longrightarrow> gf_version f < gm_version g"
    "graph_store_ok d'" by blast
  from arg_cong [OF r(2), of "map fst"] have "map nm_key (gm_nodes g) = map ns_key (gs_nodes example_graph_spec)"
    by (simp add: comp_def)
  with keys old r show ?thesis by auto
qed

end
