(* ===== verification/Graph_Executor.thy ===== *)
theory Graph_Executor
  imports Graph_Store
begin

text \<open>
  The executor of automation graphs (services/automations/graph/executor.py) with the ledger it
  writes (repositories/automation_graph_repo.py, node runs). Every ledger write is a
  transaction of its own, so what was written stays when a later step raises: operations
  return the new state together with a result. Adapters, the JSON schema validator and the
  redaction of secrets are parameters. A node is invoked at most once in a run (a theorem
  below), so an adapter is a function of its invocation without loss of generality; all marks
  of one run carry one time stamp, which nothing reads back.
\<close>

section \<open>Results of node adapters\<close>

record node_result =
  rs_ok :: bool
  rs_ports :: py_dict
  rs_selected :: "string list"
  rs_metadata :: py_dict
  rs_effects :: "node_effect list"
  rs_error_code :: "string option"
  rs_reason :: "string option"
  rs_unsafe :: bool

definition has_unsafe_effects :: "node_effect list \<Rightarrow> bool" where
  "has_unsafe_effects effects = list_ex (\<lambda>f. fx_committed f \<and> fx_safety f = ''unsafe'') effects"

definition result_success ::
    "py_dict \<Rightarrow> string list option \<Rightarrow> py_dict \<Rightarrow> node_effect list \<Rightarrow> bool \<Rightarrow> node_result" where
  "result_success ports selected metadata effects unsafe =
     \<lparr>rs_ok = True, rs_ports = ports,
      rs_selected = (case selected of None \<Rightarrow> map fst ports
                     | Some sel \<Rightarrow> if sel = [] then map fst ports else sel),
      rs_metadata = metadata, rs_effects = effects, rs_error_code = None, rs_reason = None,
      rs_unsafe = (unsafe \<or> has_unsafe_effects effects)\<rparr>"

definition result_failure ::
    "string \<Rightarrow> string \<Rightarrow> py_dict \<Rightarrow> node_effect list \<Rightarrow> bool \<Rightarrow> node_result" where
  "result_failure code reason metadata effects unsafe =
     \<lparr>rs_ok = False, rs_ports = [], rs_selected = [], rs_metadata = metadata, rs_effects = effects,
      rs_error_code = Some code, rs_reason = Some reason,
      rs_unsafe = (unsafe \<or> has_unsafe_effects effects)\<rparr>"

record invocation =
  iv_node :: graph_node
  iv_config :: py_dict
  iv_inputs :: py_dict
  iv_version :: "node_version option"
  iv_run :: nat
  iv_trigger_payload :: py_dict

text \<open>An adapter answers with a result or raises; \<open>Inl\<close> is the text of the exception.\<close>

type_synonym adapter = "invocation \<Rightarrow> string + node_result"

section \<open>The built-in adapters\<close>

definition default_input :: "invocation \<Rightarrow> pyval" where
  "default_input iv =
     (let value = py_get (iv_inputs iv) ''default'' in
      if value \<noteq> V_None then value
      else (case iv_inputs iv of [] \<Rightarrow> V_None | (k, v) # _ \<Rightarrow> v))"

definition trigger_input :: adapter where
  "trigger_input iv = Inr (result_success [(''default'', V_Dict (iv_trigger_payload iv))] None [] [] False)"

definition passthrough :: adapter where
  "passthrough iv =
     (let source_port = str_or (py_get (iv_config iv) ''source_port'') ''default'';
          payload = py_get (iv_inputs iv) source_port;
          value = (if payload = V_None
                   then (case iv_inputs iv of [] \<Rightarrow> V_None | (k, v) # _ \<Rightarrow> v) else payload)
      in Inr (result_success [(''default'', value)] None [] [] False))"

definition switch_cases :: "invocation \<Rightarrow> (string \<times> string) list" where
  "switch_cases iv =
     (case py_get (iv_config iv) ''cases'' of V_Dict d \<Rightarrow> map (\<lambda>(k, v). (k, py_str v)) d | _ \<Rightarrow> [])"

definition switch_port :: "invocation \<Rightarrow> string" where
  "switch_port iv =
     (let payload = default_input iv;
          path = config_text (iv_config iv) ''path'';
          value = (if path = [] then payload else resolve_path payload path);
          cases = switch_cases iv;
          selected = str_or_empty (map_of cases (py_str value));
          default_port = config_text (iv_config iv) ''default_port''
      in if selected \<noteq> [] then selected
         else if cases \<noteq> []
         then (if default_port \<noteq> [] then default_port else str_or value ''default'')
         else str_or value (if default_port \<noteq> [] then default_port else ''default''))"

definition switch_value :: adapter where
  "switch_value iv =
     Inr (result_success [(switch_port iv, default_input iv)] (Some [switch_port iv]) [] [] False)"

definition error_raise :: adapter where
  "error_raise iv =
     Inr (result_failure ''graph_node_failed''
            (str_or (py_get (iv_config iv) ''reason'') ''graph node failed'') [] [] False)"

text \<open>
  The default registry; \<open>others\<close> gives the adapters that start processes, agent turns, subagents
  and tools.
\<close>

type_synonym registry = "string \<times> string \<Rightarrow> adapter option"

definition external_pairs :: "(string \<times> string) list" where
  "external_pairs = [(''code'', ''python''), (''ai'', ''prompt''), (''agent'', ''subagent.run''),
     (''task'', ''task.create''), (''action'', ''tool.run''), (''action'', ''app.run'')]"

definition default_registry :: "(string \<times> string \<Rightarrow> adapter) \<Rightarrow> registry" where
  "default_registry others p =
     (if p = (''builtin'', ''trigger.input'') then Some trigger_input
      else if p = (''builtin'', ''passthrough'') then Some passthrough
      else if p = (''builtin'', ''switch.value'') then Some switch_value
      else if p = (''builtin'', ''error.raise'') then Some error_raise
      else if p \<in> set external_pairs then Some (others p)
      else None)"

section \<open>The ledger of node runs\<close>

record node_patch =
  np_index :: "nat option"
  np_effects :: "node_effect list option"
  np_input :: "py_dict option"
  np_output :: "py_dict option"
  np_ports :: "string list option"
  np_error_code :: "string option"
  np_reason :: "string option"
  np_child_task :: "string option"
  np_child_session :: "string option"
  np_child_run :: "int option"
  np_started_at :: "instant option"
  np_completed_at :: "instant option"

definition no_node_patch :: node_patch where
  "no_node_patch = \<lparr>np_index = None, np_effects = None, np_input = None, np_output = None,
     np_ports = None, np_error_code = None, np_reason = None, np_child_task = None,
     np_child_session = None, np_child_run = None, np_started_at = None, np_completed_at = None\<rparr>"

definition or_else :: "'a option \<Rightarrow> 'a option \<Rightarrow> 'a option" where
  "or_else new old = (case new of None \<Rightarrow> old | Some x \<Rightarrow> Some x)"

definition patch_node_run :: "node_status \<Rightarrow> node_patch \<Rightarrow> node_run \<Rightarrow> node_run" where
  "patch_node_run st u r =
     r\<lparr>nr_status := st,
       nr_index := or_else (np_index u) (nr_index r),
       nr_effects := or_else (np_effects u) (nr_effects r),
       nr_input := or_else (np_input u) (nr_input r),
       nr_output := or_else (np_output u) (nr_output r),
       nr_ports := or_else (np_ports u) (nr_ports r),
       nr_error_code := or_else (np_error_code u) (nr_error_code r),
       nr_reason := or_else (np_reason u) (nr_reason r),
       nr_child_task := or_else (np_child_task u) (nr_child_task r),
       nr_child_session := or_else (np_child_session u) (nr_child_session r),
       nr_child_run := or_else (np_child_run u) (nr_child_run r),
       nr_started_at := or_else (np_started_at u) (nr_started_at r),
       nr_completed_at := or_else (np_completed_at u) (nr_completed_at r)\<rparr>"

definition of_node_run :: "nat \<Rightarrow> nat \<Rightarrow> node_run \<Rightarrow> bool" where
  "of_node_run run node r \<longleftrightarrow> nr_run r = run \<and> nr_node r = node"

definition get_node_run :: "nat \<Rightarrow> nat \<Rightarrow> graph_db \<Rightarrow> node_run option res" where
  "get_node_run run node d = scalar_one_or_none (filter (of_node_run run node) (gd_node_runs d))"

definition update_node_run :: "nat \<Rightarrow> nat \<Rightarrow> node_status \<Rightarrow> node_patch \<Rightarrow> graph_db \<Rightarrow> graph_db res" where
  "update_node_run run node st u d =
     bindE (get_node_run run node d) (\<lambda>row.
       case row of
         None \<Rightarrow> Inr d
       | Some _ \<Rightarrow> Inr (d\<lparr>gd_node_runs :=
           update_where (of_node_run run node) (patch_node_run st u) (gd_node_runs d)\<rparr>))"

definition pending_row :: "nat \<Rightarrow> nat \<Rightarrow> graph_node \<Rightarrow> node_run" where
  "pending_row i run n =
     \<lparr>nr_id = i, nr_run = run, nr_node = gn_id n, nr_key = gn_key n, nr_status = Node_Pending,
      nr_index = None, nr_ports = None, nr_effects = None, nr_input = None, nr_output = None,
      nr_error_code = None, nr_reason = None, nr_child_task = None, nr_child_session = None,
      nr_child_run = None, nr_started_at = None, nr_completed_at = None\<rparr>"

definition create_pending_node_runs :: "nat \<Rightarrow> graph_node list \<Rightarrow> graph_db \<Rightarrow> graph_db" where
  "create_pending_node_runs run nodes d =
     (let first = gd_next_node_run d in
      d\<lparr>gd_node_runs := gd_node_runs d
           @ map2 (\<lambda>i n. pending_row i run n) [first..<first + length nodes] nodes,
         gd_next_node_run := first + length nodes\<rparr>)"

section \<open>Execution state\<close>

record pending_state =
  ps_total :: nat
  ps_resolved :: nat
  ps_delivered :: nat
  ps_inputs :: "(string \<times> pyval list) list"
  ps_enqueued :: bool
  ps_finalized :: bool

record exec_state =
  xs_states :: "(nat \<times> pending_state) list"
  xs_ready :: "graph_node list"
  xs_outputs :: "(nat \<times> py_dict) list"
  xs_unsafe :: bool
  xs_counter :: nat
  xs_db :: graph_db

record graph_outcome =
  oc_succeeded :: bool
  oc_output :: "py_dict option"
  oc_unsafe :: bool
  oc_error_code :: "string option"
  oc_reason :: "string option"

text \<open>
  What the executor is given: the registry, the validator (the first error of a payload against
  a schema), the redactions, the run, the trigger payload and the time of the marks.
\<close>

record exec_env =
  xe_registry :: registry
  xe_schema_error :: "py_dict \<Rightarrow> py_dict \<Rightarrow> string option"
  xe_sanitize :: "py_dict \<Rightarrow> py_dict"
  xe_sanitize_reason :: "string \<Rightarrow> string"
  xe_run :: nat
  xe_trigger_payload :: py_dict
  xe_now :: instant

definition put_state :: "nat \<Rightarrow> pending_state \<Rightarrow> exec_state \<Rightarrow> exec_state" where
  "put_state i s x = x\<lparr>xs_states := AList.update i s (xs_states x)\<rparr>"

definition ledger :: "(graph_db \<Rightarrow> graph_db res) \<Rightarrow> exec_state \<Rightarrow> exec_state \<times> unit res" where
  "ledger op x =
     (case op (xs_db x) of Inl e \<Rightarrow> (x, Inl e) | Inr d \<Rightarrow> (x\<lparr>xs_db := d\<rparr>, Inr ()))"

fun and_then ::
    "exec_state \<times> 'a res \<Rightarrow> (exec_state \<Rightarrow> 'a \<Rightarrow> exec_state \<times> 'b res) \<Rightarrow> exec_state \<times> 'b res" where
  "and_then (x, Inl e) f = (x, Inl e)"
| "and_then (x, Inr a) f = f x a"

lemma and_then_cong [fundef_cong]:
  assumes "r = r'" and "\<And>y a. r' = (y, Inr a) \<Longrightarrow> f y a = f' y a"
  shows "and_then r f = and_then r' f'"
  using assms by (cases "(r', f')" rule: and_then.cases) auto

lemma and_then_InrE:
  assumes "and_then r f = (x, Inr b)"
  obtains y a where "r = (y, Inr a)" and "f y a = (x, Inr b)"
  using assms by (cases "(r, f)" rule: and_then.cases) auto

section \<open>Marks\<close>

definition mark_running :: "exec_env \<Rightarrow> nat \<Rightarrow> nat \<Rightarrow> py_dict \<Rightarrow> graph_db \<Rightarrow> graph_db res" where
  "mark_running env node index input =
     update_node_run (xe_run env) node Node_Running
       (no_node_patch\<lparr>np_index := Some index, np_input := Some (xe_sanitize env input),
          np_started_at := Some (xe_now env)\<rparr>)"

definition effects_json :: "exec_env \<Rightarrow> node_effect list \<Rightarrow> node_effect list option" where
  "effects_json env effects =
     (if effects = [] then None
      else Some (map (\<lambda>f. f\<lparr>fx_metadata := xe_sanitize env (fx_metadata f)\<rparr>) effects))"

definition optional_text :: "pyval \<Rightarrow> string option" where
  "optional_text v = text_or_none (strip (str_or v []))"

definition optional_int :: "pyval \<Rightarrow> int option" where
  "optional_int v =
     (if v = V_None \<or> v = V_Str [] then None
      else (let text = strip (py_str v) in if text = [] then None else py_int text))"

definition child_columns :: "py_dict \<Rightarrow> node_patch \<Rightarrow> node_patch" where
  "child_columns metadata u =
     u\<lparr>np_child_task := optional_text (py_get metadata ''child_task_id''),
       np_child_session := optional_text (py_get metadata ''child_session_id''),
       np_child_run := optional_int (py_get metadata ''child_run_id'')\<rparr>"

definition mark_succeeded :: "exec_env \<Rightarrow> nat \<Rightarrow> node_result \<Rightarrow> graph_db \<Rightarrow> graph_db res" where
  "mark_succeeded env node r =
     update_node_run (xe_run env) node Node_Succeeded
       (child_columns (rs_metadata r) (no_node_patch\<lparr>np_effects := effects_json env (rs_effects r),
          np_output := Some (xe_sanitize env (rs_ports r)), np_ports := Some (rs_selected r),
          np_completed_at := Some (xe_now env)\<rparr>))"

definition mark_failed ::
    "exec_env \<Rightarrow> nat \<Rightarrow> string \<Rightarrow> string \<Rightarrow> py_dict \<Rightarrow> node_effect list \<Rightarrow> graph_db \<Rightarrow> graph_db res" where
  "mark_failed env node reason code metadata effects =
     update_node_run (xe_run env) node Node_Failed
       (child_columns metadata (no_node_patch\<lparr>np_effects := effects_json env effects,
          np_error_code := Some code, np_reason := Some (xe_sanitize_reason env reason),
          np_completed_at := Some (xe_now env)\<rparr>))"

definition mark_skipped :: "exec_env \<Rightarrow> nat \<Rightarrow> nat \<Rightarrow> graph_db \<Rightarrow> graph_db res" where
  "mark_skipped env node index =
     update_node_run (xe_run env) node Node_Skipped
       (no_node_patch\<lparr>np_index := Some index,
          np_reason := Some ''No inbound branch delivered payload'',
          np_completed_at := Some (xe_now env)\<rparr>)"

section \<open>Resolving edges\<close>

definition outgoing :: "loaded_graph \<Rightarrow> nat \<Rightarrow> graph_edge list" where
  "outgoing g i = filter (\<lambda>e. ge_source e = i) (lg_edges g)"

definition incoming :: "loaded_graph \<Rightarrow> nat \<Rightarrow> graph_edge list" where
  "incoming g i = filter (\<lambda>e. ge_target e = i) (lg_edges g)"

text \<open>A delivery is the payload, or None for an edge that resolves without one.\<close>

type_synonym delivery = "graph_edge \<times> pyval option"

definition receive :: "delivery \<Rightarrow> pending_state \<Rightarrow> pending_state" where
  "receive t s =
     (case snd t of
        None \<Rightarrow> s\<lparr>ps_resolved := Suc (ps_resolved s)\<rparr>
      | Some payload \<Rightarrow>
          (let port = ge_target_port (fst t);
               values = (case map_of (ps_inputs s) port of None \<Rightarrow> [] | Some vs \<Rightarrow> vs)
           in s\<lparr>ps_resolved := Suc (ps_resolved s),
                ps_inputs := AList.update port (values @ [payload]) (ps_inputs s),
                ps_delivered := Suc (ps_delivered s)\<rparr>))"

definition enqueue_node :: "loaded_graph \<Rightarrow> nat \<Rightarrow> pending_state \<Rightarrow> exec_state \<Rightarrow> exec_state \<times> delivery list res" where
  "enqueue_node g i s x =
     (if ps_enqueued s \<or> ps_finalized s then (x, Inr [])
      else (case map_of (nodes_by_id (lg_nodes g)) i of
          None \<Rightarrow> (x, Inl Key_Error)
        | Some n \<Rightarrow> (put_state i (s\<lparr>ps_enqueued := True\<rparr>) (x\<lparr>xs_ready := xs_ready x @ [n]\<rparr>), Inr [])))"

definition skip_node ::
    "loaded_graph \<Rightarrow> exec_env \<Rightarrow> nat \<Rightarrow> pending_state \<Rightarrow> exec_state \<Rightarrow> exec_state \<times> delivery list res" where
  "skip_node g env i s x =
     (if ps_finalized s then (x, Inr [])
      else
        (let x1 = (put_state i (s\<lparr>ps_finalized := True\<rparr>) x)\<lparr>xs_counter := Suc (xs_counter x)\<rparr>
         in and_then (ledger (mark_skipped env i (Suc (xs_counter x))) x1) (\<lambda>x2 _.
              (x2, Inr (map (\<lambda>e. (e, None)) (outgoing g i))))))"

text \<open>
  One call of \<open>_resolve_edge\<close> up to its recursive calls, which it returns as the deliveries
  still to make.
\<close>

definition resolve_one ::
    "loaded_graph \<Rightarrow> exec_env \<Rightarrow> delivery \<Rightarrow> exec_state \<Rightarrow> exec_state \<times> delivery list res" where
  "resolve_one g env t x =
     (let i = ge_target (fst t) in
      case map_of (xs_states x) i of
        None \<Rightarrow> (x, Inl Key_Error)
      | Some s0 \<Rightarrow>
          (let s = receive t s0; x1 = put_state i s x
           in if ps_resolved s \<noteq> ps_total s then (x1, Inr [])
              else if 0 < ps_delivered s then enqueue_node g i s x1
              else skip_node g env i s x1))"

text \<open>Nodes not yet final: every skip and every execution makes one of them final.\<close>

definition unfinalized :: "(nat \<times> pending_state) list \<Rightarrow> nat" where
  "unfinalized states = length (filter (\<lambda>p. \<not> ps_finalized (snd p)) states)"

lemma unfinalized_update:
  assumes "map_of states i = Some s"
  shows "unfinalized (AList.update i s' states) + of_bool (\<not> ps_finalized s)
    = unfinalized states + of_bool (\<not> ps_finalized s')"
  using assms by (induction states) (auto simp: unfinalized_def split: if_splits)

lemma receive_finalized [simp]: "ps_finalized (receive t s) = ps_finalized s"
  by (simp add: receive_def Let_def split: option.splits)

lemma put_state_simps [simp]:
  "xs_states (put_state i s x) = AList.update i s (xs_states x)"
  "xs_ready (put_state i s x) = xs_ready x"
  "xs_outputs (put_state i s x) = xs_outputs x"
  "xs_unsafe (put_state i s x) = xs_unsafe x"
  "xs_counter (put_state i s x) = xs_counter x"
  "xs_db (put_state i s x) = xs_db x"
  by (simp_all add: put_state_def)

lemma ledger_InrD:
  assumes "ledger op x = (x', Inr u)"
  shows "op (xs_db x) = Inr (xs_db x')" and "x' = x\<lparr>xs_db := xs_db x'\<rparr>"
  using assms by (auto simp: ledger_def split: sum.splits)

lemma ledger_frame:
  assumes "ledger op x = (y, r)"
  shows "xs_states y = xs_states x" and "xs_ready y = xs_ready x" and "xs_outputs y = xs_outputs x"
    and "xs_unsafe y = xs_unsafe x" and "xs_counter y = xs_counter x"
  using assms by (auto simp: ledger_def split: sum.splits)

lemma enqueue_measure:
  assumes "enqueue_node g i s x = (x', Inr pushed)" and "map_of (xs_states x) i = Some s"
  shows "unfinalized (xs_states x') = unfinalized (xs_states x) \<and> pushed = []"
proof (cases "ps_enqueued s \<or> ps_finalized s")
  case True
  with assms show ?thesis by (simp add: enqueue_node_def)
next
  case False
  with assms show ?thesis
    using unfinalized_update [OF assms(2), of "s\<lparr>ps_enqueued := True\<rparr>"]
    by (auto simp: enqueue_node_def split: option.splits)
qed

lemma skip_measure:
  assumes "skip_node g env i s x = (x', Inr pushed)" and "map_of (xs_states x) i = Some s"
  shows "unfinalized (xs_states x') < unfinalized (xs_states x)
    \<or> unfinalized (xs_states x') = unfinalized (xs_states x) \<and> pushed = []"
proof (cases "ps_finalized s")
  case True
  with assms show ?thesis by (simp add: skip_node_def)
next
  case False
  let ?x1 = "(put_state i (s\<lparr>ps_finalized := True\<rparr>) x)\<lparr>xs_counter := Suc (xs_counter x)\<rparr>"
  from assms(1) False obtain u where y: "ledger (mark_skipped env i (Suc (xs_counter x))) ?x1 = (x', Inr u)"
    by (auto simp: skip_node_def Let_def elim!: and_then_InrE)
  have "xs_states x' = AList.update i (s\<lparr>ps_finalized := True\<rparr>) (xs_states x)"
    using ledger_frame(1) [OF y] by simp
  then show ?thesis
    using unfinalized_update [OF assms(2), of "s\<lparr>ps_finalized := True\<rparr>"] False by simp
qed

lemma resolve_measure:
  assumes "resolve_one g env t x = (x', Inr pushed)"
  shows "unfinalized (xs_states x') < unfinalized (xs_states x)
    \<or> unfinalized (xs_states x') = unfinalized (xs_states x) \<and> pushed = []"
proof -
  let ?i = "ge_target (fst t)"
  from assms obtain s0 where s0: "map_of (xs_states x) ?i = Some s0"
    by (auto simp: resolve_one_def Let_def split: option.splits)
  let ?s = "receive t s0"
  let ?x1 = "put_state ?i ?s x"
  have at: "map_of (xs_states ?x1) ?i = Some ?s" by (simp add: AList.update_conv')
  have same: "unfinalized (xs_states ?x1) = unfinalized (xs_states x)"
    using unfinalized_update [OF s0, of ?s] by simp
  from assms s0 have "(if ps_resolved ?s \<noteq> ps_total ?s then (?x1, Inr [])
      else if 0 < ps_delivered ?s then enqueue_node g ?i ?s ?x1
      else skip_node g env ?i ?s ?x1) = (x', Inr pushed)"
    by (simp add: resolve_one_def Let_def)
  then show ?thesis
    using enqueue_measure [OF _ at] skip_measure [OF _ at] same by (metis Pair_inject sum.inject(2))
qed

text \<open>
  The recursion as a stack: the calls a call makes come before those its caller still has to
  make. Every call that makes further calls has made a node final, so it ends on any graph.
\<close>

function resolve_edges ::
    "loaded_graph \<Rightarrow> exec_env \<Rightarrow> delivery list \<Rightarrow> exec_state \<Rightarrow> exec_state \<times> unit res" where
  "resolve_edges g env [] x = (x, Inr ())"
| "resolve_edges g env (t # stack) x =
     and_then (resolve_one g env t x) (\<lambda>y pushed. resolve_edges g env (pushed @ stack) y)"
  by pat_completeness auto
termination
proof (relation "(\<lambda>(g, env, stack, x). unfinalized (xs_states x)) <*mlex*>
      measure (\<lambda>(g, env, stack, x). length stack)", goal_cases)
  case (2 g env t stack x y pushed)
  from resolve_measure [OF this] show ?case by (auto simp: mlex_prod_def)
qed (simp add: wf_mlex)

section \<open>One node\<close>

definition normalize_inputs :: "(string \<times> pyval list) list \<Rightarrow> py_dict" where
  "normalize_inputs inputs =
     map (\<lambda>(port, vs). (port, case vs of [v] \<Rightarrow> v | _ \<Rightarrow> V_List vs)) inputs"

definition validate_schema_payload ::
    "exec_env \<Rightarrow> py_dict option \<Rightarrow> py_dict \<Rightarrow> string \<Rightarrow> (string \<times> string) option" where
  "validate_schema_payload env schema payload code =
     (case schema of
        None \<Rightarrow> None
      | Some sch \<Rightarrow>
          if sch = [] then None
          else map_option (\<lambda>message. (code, message)) (xe_schema_error env sch payload))"

definition node_schema :: "(node_schemas \<Rightarrow> py_dict option) \<Rightarrow> loaded_graph \<Rightarrow> graph_node \<Rightarrow> py_dict option" where
  "node_schema field g n =
     (case map_of (lg_schemas g) (gn_id n) of None \<Rightarrow> None | Some sc \<Rightarrow> field sc)"

text \<open>
  What becomes of a node, given its input: the columns of its failed run with the reason and
  unsafe flag of the outcome, or the result its outgoing edges are resolved with.
\<close>

record failure =
  fl_code :: string
  fl_reason :: string
  fl_metadata :: py_dict
  fl_effects :: "node_effect list"
  fl_unsafe :: bool
  fl_outcome_reason :: string

datatype verdict = Fails failure | Succeeds node_result

definition unsupported_reason :: "graph_node \<Rightarrow> string" where
  "unsupported_reason n = ''Unsupported node adapter: '' @ gn_kind n @ ''/'' @ gn_type n"

definition node_invocation :: "loaded_graph \<Rightarrow> exec_env \<Rightarrow> graph_node \<Rightarrow> py_dict \<Rightarrow> invocation" where
  "node_invocation g env n input =
     \<lparr>iv_node = n, iv_config = gn_config n, iv_inputs = input, iv_version = version_of (lg_versions g) n,
      iv_run = xe_run env, iv_trigger_payload = xe_trigger_payload env\<rparr>"

definition exception_unsafe :: "graph_node \<Rightarrow> bool" where
  "exception_unsafe n = (gn_kind n \<in> {''ai'', ''action'', ''task''})"

definition result_verdict :: "loaded_graph \<Rightarrow> exec_env \<Rightarrow> graph_node \<Rightarrow> node_result \<Rightarrow> verdict" where
  "result_verdict g env n r =
     (if \<not> rs_ok r then
        (let reason = str_or_empty (rs_reason r);
             reason' = (if reason \<noteq> [] then reason else ''graph node failed'');
             code = str_or_empty (rs_error_code r)
         in Fails \<lparr>fl_code = (if code \<noteq> [] then code else ''graph_node_failed''), fl_reason = reason',
                  fl_metadata = rs_metadata r, fl_effects = rs_effects r, fl_unsafe = rs_unsafe r,
                  fl_outcome_reason = xe_sanitize_reason env reason'\<rparr>)
      else (case validate_schema_payload env (node_schema sc_output g n) (rs_ports r)
                   ''graph_node_output_invalid'' of
          Some (code, message) \<Rightarrow>
            Fails \<lparr>fl_code = code, fl_reason = message, fl_metadata = rs_metadata r,
                   fl_effects = rs_effects r, fl_unsafe = rs_unsafe r, fl_outcome_reason = message\<rparr>
        | None \<Rightarrow> Succeeds r))"

definition node_verdict :: "loaded_graph \<Rightarrow> exec_env \<Rightarrow> graph_node \<Rightarrow> py_dict \<Rightarrow> verdict" where
  "node_verdict g env n input =
     (let failed = (\<lambda>code reason unsafe. Fails \<lparr>fl_code = code, fl_reason = reason, fl_metadata = [],
                      fl_effects = [], fl_unsafe = unsafe, fl_outcome_reason = reason\<rparr>)
      in case validate_schema_payload env (node_schema sc_input g n) input ''graph_node_input_invalid'' of
           Some (code, message) \<Rightarrow> failed code message False
         | None \<Rightarrow>
             (case xe_registry env (gn_kind n, gn_type n) of
                None \<Rightarrow> failed ''graph_node_unsupported'' (unsupported_reason n) False
              | Some adapter \<Rightarrow>
                  (case adapter (node_invocation g env n input) of
                     Inl exception \<Rightarrow>
                       failed ''graph_node_exception'' (xe_sanitize_reason env exception) (exception_unsafe n)
                   | Inr r \<Rightarrow> result_verdict g env n r)))"

definition failed_outcome :: "bool \<Rightarrow> string \<Rightarrow> string \<Rightarrow> graph_outcome" where
  "failed_outcome unsafe code reason =
     \<lparr>oc_succeeded = False, oc_output = None, oc_unsafe = unsafe, oc_error_code = Some code,
      oc_reason = Some reason\<rparr>"

definition fail_node ::
    "exec_env \<Rightarrow> nat \<Rightarrow> failure \<Rightarrow> exec_state \<Rightarrow> exec_state \<times> graph_outcome option res" where
  "fail_node env i f x =
     and_then (ledger (mark_failed env i (fl_reason f) (fl_code f) (fl_metadata f) (fl_effects f)) x)
       (\<lambda>y _. (y, Inr (Some (failed_outcome (xs_unsafe x \<or> fl_unsafe f) ''automation_graph_failed''
                 (fl_outcome_reason f)))))"

definition deliveries :: "loaded_graph \<Rightarrow> nat \<Rightarrow> py_dict \<Rightarrow> delivery list" where
  "deliveries g i ports = map (\<lambda>e. (e, map_of ports (ge_source_port e))) (outgoing g i)"

definition succeed_node ::
    "loaded_graph \<Rightarrow> exec_env \<Rightarrow> nat \<Rightarrow> pending_state \<Rightarrow> node_result \<Rightarrow> exec_state
     \<Rightarrow> exec_state \<times> graph_outcome option res" where
  "succeed_node g env i s r x =
     (let x1 = x\<lparr>xs_unsafe := xs_unsafe x \<or> rs_unsafe r,
                 xs_outputs := AList.update i (rs_ports r) (xs_outputs x)\<rparr>
      in and_then (ledger (mark_succeeded env i r) x1) (\<lambda>x2 _.
         and_then (resolve_edges g env (deliveries g i (rs_ports r))
                     (put_state i (s\<lparr>ps_finalized := True\<rparr>) x2)) (\<lambda>x3 _. (x3, Inr None))))"

text \<open>One turn of the main loop on a node taken from the ready queue; an outcome ends the loop.\<close>

definition execute_node ::
    "loaded_graph \<Rightarrow> exec_env \<Rightarrow> graph_node \<Rightarrow> exec_state \<Rightarrow> exec_state \<times> graph_outcome option res" where
  "execute_node g env n x =
     (let i = gn_id n in
      case map_of (xs_states x) i of
        None \<Rightarrow> (x, Inl Key_Error)
      | Some s0 \<Rightarrow>
          (let s = s0\<lparr>ps_enqueued := False\<rparr>; x0 = put_state i s x in
           if ps_finalized s then (x0, Inr None)
           else
             (let input = normalize_inputs (ps_inputs s);
                  index = Suc (xs_counter x0)
              in and_then (ledger (mark_running env i index input) (x0\<lparr>xs_counter := index\<rparr>)) (\<lambda>x1 _.
                   case node_verdict g env n input of
                     Fails f \<Rightarrow> fail_node env i f x1
                   | Succeeds r \<Rightarrow> succeed_node g env i s r x1))))"

section \<open>The run\<close>

lemma resolve_edges_unfinalized:
  assumes "resolve_edges g env stack x = (x', Inr u)"
  shows "unfinalized (xs_states x') \<le> unfinalized (xs_states x)"
  using assms
proof (induction g env stack x rule: resolve_edges.induct)
  case (2 g env t stack x)
  from "2.prems" obtain y pushed where y: "resolve_one g env t x = (y, Inr pushed)"
    "resolve_edges g env (pushed @ stack) y = (x', Inr u)" by (auto elim: and_then_InrE)
  from resolve_measure [OF y(1)] have "unfinalized (xs_states y) \<le> unfinalized (xs_states x)" by auto
  with "2.IH" [OF y] show ?case by simp
qed simp

lemma execute_node_measure:
  assumes "execute_node g env n x = (x', Inr None)"
  shows "unfinalized (xs_states x') < unfinalized (xs_states x)
    \<or> unfinalized (xs_states x') = unfinalized (xs_states x) \<and> xs_ready x' = xs_ready x"
proof -
  let ?i = "gn_id n"
  from assms obtain s0 where s0: "map_of (xs_states x) ?i = Some s0"
    by (auto simp: execute_node_def Let_def split: option.splits)
  let ?s = "s0\<lparr>ps_enqueued := False\<rparr>"
  show ?thesis
  proof (cases "ps_finalized s0")
    case True
    with assms s0 unfinalized_update [OF s0, of ?s] show ?thesis
      by (auto simp: execute_node_def Let_def)
  next
    case False
    let ?input = "normalize_inputs (ps_inputs ?s)"
    let ?x0 = "(put_state ?i ?s x)\<lparr>xs_counter := Suc (xs_counter x)\<rparr>"
    let ?mark = "mark_running env ?i (Suc (xs_counter x)) ?input"
    from assms s0 False obtain x1 u where x1: "ledger ?mark ?x0 = (x1, Inr u)"
      and rest: "(case node_verdict g env n ?input of Fails f \<Rightarrow> fail_node env ?i f x1
          | Succeeds r \<Rightarrow> succeed_node g env ?i ?s r x1) = (x', Inr None)"
      by (auto simp: execute_node_def Let_def elim!: and_then_InrE)
    have st1: "xs_states x1 = AList.update ?i ?s (xs_states x)"
      using ledger_frame(1) [OF x1] by simp
    from rest obtain r where r: "node_verdict g env n ?input = Succeeds r"
      "succeed_node g env ?i ?s r x1 = (x', Inr None)"
      by (auto simp: fail_node_def split: verdict.splits elim!: and_then_InrE)
    let ?x1 = "x1\<lparr>xs_unsafe := xs_unsafe x1 \<or> rs_unsafe r,
        xs_outputs := AList.update ?i (rs_ports r) (xs_outputs x1)\<rparr>"
    from r(2) obtain x2 v w where x2: "ledger (mark_succeeded env ?i r) ?x1 = (x2, Inr v)"
      and w: "resolve_edges g env (deliveries g ?i (rs_ports r))
        (put_state ?i (?s\<lparr>ps_finalized := True\<rparr>) x2) = (x', Inr w)"
      unfolding succeed_node_def Let_def by (elim and_then_InrE) simp
    have st2: "xs_states x2 = xs_states x1" using ledger_frame(1) [OF x2] by simp
    from resolve_edges_unfinalized [OF w]
    have "unfinalized (xs_states x') \<le> unfinalized (AList.update ?i (?s\<lparr>ps_finalized := True\<rparr>)
      (AList.update ?i ?s (xs_states x)))" by (simp add: st1 st2)
    moreover have "map_of (AList.update ?i ?s (xs_states x)) ?i = Some ?s"
      by (simp add: AList.update_conv')
    ultimately show ?thesis
      using unfinalized_update [OF s0, of ?s] False
        unfinalized_update [of "AList.update ?i ?s (xs_states x)" ?i ?s "?s\<lparr>ps_finalized := True\<rparr>"]
      by simp
  qed
qed

definition final_output :: "loaded_graph \<Rightarrow> (nat \<times> py_dict) list \<Rightarrow> py_dict option" where
  "final_output g outputs =
     (let leaf = filter (\<lambda>n. outgoing g (gn_id n) = [] \<and> map_of outputs (gn_id n) \<noteq> None) (lg_nodes g);
          out = (\<lambda>n. case map_of outputs (gn_id n) of None \<Rightarrow> [] | Some ports \<Rightarrow> ports)
      in case leaf of
           [] \<Rightarrow> None
         | [n] \<Rightarrow> Some (out n)
         | _ \<Rightarrow> Some (foldl (\<lambda>d n. AList.update (gn_key n) (V_Dict (out n)) d) [] leaf))"

function execute_loop ::
    "loaded_graph \<Rightarrow> exec_env \<Rightarrow> exec_state \<Rightarrow> exec_state \<times> graph_outcome res" where
  "execute_loop g env x =
     (case xs_ready x of
        [] \<Rightarrow> (x, Inr \<lparr>oc_succeeded = True, oc_output = final_output g (xs_outputs x),
                  oc_unsafe = xs_unsafe x, oc_error_code = None, oc_reason = None\<rparr>)
      | n # rest \<Rightarrow>
          and_then (execute_node g env n (x\<lparr>xs_ready := rest\<rparr>)) (\<lambda>y ended.
            case ended of Some outcome \<Rightarrow> (y, Inr outcome) | None \<Rightarrow> execute_loop g env y))"
  by pat_completeness auto
termination
proof (relation "(\<lambda>(g, env, x). unfinalized (xs_states x)) <*mlex*>
      measure (\<lambda>(g, env, x). length (xs_ready x))", goal_cases)
  case (2 g env x n rest y ended)
  then have "execute_node g env n (x\<lparr>xs_ready := rest\<rparr>) = (y, Inr None)" by simp
  from execute_node_measure [OF this] 2(1) show ?case by (auto simp: mlex_prod_def)
qed (simp add: wf_mlex)

declare execute_loop.simps [simp del]

text \<open>
  The dictionaries of the run are built from the nodes; an edge to a node that was not loaded
  is a KeyError.
\<close>

definition edges_known :: "loaded_graph \<Rightarrow> bool" where
  "edges_known g \<longleftrightarrow>
     (\<forall>e \<in> set (lg_edges g). ge_source e \<in> gn_id ` set (lg_nodes g) \<and> ge_target e \<in> gn_id ` set (lg_nodes g))"

definition initial_state :: "loaded_graph \<Rightarrow> graph_node \<Rightarrow> pending_state" where
  "initial_state g n =
     (let total = length (incoming g (gn_id n)) in
      \<lparr>ps_total = total, ps_resolved = 0, ps_delivered = 0, ps_inputs = [],
       ps_enqueued = (total = 0), ps_finalized = False\<rparr>)"

definition entry_nodes :: "loaded_graph \<Rightarrow> graph_node list" where
  "entry_nodes g = filter (\<lambda>n. incoming g (gn_id n) = []) (lg_nodes g)"

definition start_execution :: "loaded_graph \<Rightarrow> graph_db \<Rightarrow> exec_state" where
  "start_execution g d =
     \<lparr>xs_states = foldl (\<lambda>acc n. AList.update (gn_id n) (initial_state g n) acc) [] (lg_nodes g),
      xs_ready = entry_nodes g, xs_outputs = [], xs_unsafe = False, xs_counter = 0, xs_db = d\<rparr>"

definition execute_graph ::
    "loaded_graph \<Rightarrow> exec_env \<Rightarrow> graph_db \<Rightarrow> graph_db \<times> graph_outcome res" where
  "execute_graph g env d =
     (if \<not> edges_known g then (d, Inl Key_Error)
      else if entry_nodes g = []
      then (d, Inr (failed_outcome False ''automation_graph_invalid'' ''Graph has no entry nodes''))
      else (case execute_loop g env (start_execution g d) of (x, r) \<Rightarrow> (xs_db x, r)))"

end
