(* ===== verification/Graph_Run.thy ===== *)
theory Graph_Run
  imports Graph_Executor
begin

text \<open>
  The invariant of a graph execution and what it gives for whole runs: every loaded node of an
  acyclic graph ends as succeeded or skipped, in topological order, exactly those run whose
  inputs were delivered, a failure leaves everything behind it untouched, and the unsafe flag
  covers every unsafe effect in the ledger.
\<close>

section \<open>Counting edges\<close>

definition cnt :: "('a \<Rightarrow> bool) \<Rightarrow> 'a list \<Rightarrow> nat" where
  "cnt p xs = length (filter p xs)"

lemma cnt_simps [simp]:
  "cnt p [] = 0"
  "cnt p (x # xs) = of_bool (p x) + cnt p xs"
  "cnt p (xs @ ys) = cnt p xs + cnt p ys"
  by (simp_all add: cnt_def)

lemma cnt_map [simp]: "cnt p (map f xs) = cnt (\<lambda>x. p (f x)) xs"
  by (induction xs) simp_all

lemma cnt_filter [simp]: "cnt p (filter q xs) = cnt (\<lambda>x. p x \<and> q x) xs"
  by (induction xs) simp_all

lemma cnt_disjoint: "\<forall>x \<in> set xs. \<not> (p x \<and> q x) \<Longrightarrow> cnt (\<lambda>x. p x \<or> q x) xs = cnt p xs + cnt q xs"
  by (induction xs) auto

lemma cnt_mono: "(\<And>x. x \<in> set xs \<Longrightarrow> p x \<Longrightarrow> q x) \<Longrightarrow> cnt p xs \<le> cnt q xs"
  by (induction xs) (auto simp: le_SucI)

lemma cnt_cong: "(\<And>x. x \<in> set xs \<Longrightarrow> p x \<longleftrightarrow> q x) \<Longrightarrow> cnt p xs = cnt q xs"
  by (induction xs) auto

lemma cnt_eq_all:
  "cnt (\<lambda>x. p x \<and> q x) xs = cnt p xs \<longleftrightarrow> (\<forall>x \<in> set xs. p x \<longrightarrow> q x)"
proof (induction xs)
  case (Cons x xs)
  have "cnt (\<lambda>x. p x \<and> q x) xs \<le> cnt p xs" by (rule cnt_mono) simp
  with Cons show ?case by auto
qed simp

lemma cnt_pos_iff: "0 < cnt p xs \<longleftrightarrow> (\<exists>x \<in> set xs. p x)"
  by (auto simp: cnt_def filter_empty_conv)

lemma cnt_0_iff: "cnt p xs = 0 \<longleftrightarrow> (\<forall>x \<in> set xs. \<not> p x)"
  by (auto simp: cnt_def filter_empty_conv)

section \<open>The invariant\<close>

type_synonym states = "nat \<Rightarrow> pending_state option"
type_synonym outputs = "nat \<Rightarrow> py_dict option"

definition fin :: "states \<Rightarrow> nat \<Rightarrow> bool" where
  "fin M i \<longleftrightarrow> (\<exists>s. M i = Some s \<and> ps_finalized s)"

definition delivers :: "outputs \<Rightarrow> graph_edge \<Rightarrow> bool" where
  "delivers outs e \<longleftrightarrow> (\<exists>ports. outs (ge_source e) = Some ports \<and> map_of ports (ge_source_port e) \<noteq> None)"

lemma fin_upd: "fin (M(i \<mapsto> s)) j = (if j = i then ps_finalized s else fin M j)"
  by (simp add: fin_def)

lemma fin_same: "M i = Some s \<Longrightarrow> ps_finalized s' = ps_finalized s \<Longrightarrow> fin (M(i \<mapsto> s')) = fin M"
  by (rule ext) (simp add: fin_upd, simp add: fin_def)

text \<open>
  What a node has resolved and received, plus what is still on the stack for it, is what its
  final predecessors have to say.
\<close>

definition counts_ok :: "loaded_graph \<Rightarrow> delivery list \<Rightarrow> states \<Rightarrow> outputs \<Rightarrow> bool" where
  "counts_ok g S M outs \<longleftrightarrow>
     (\<forall>i s. M i = Some s \<longrightarrow>
        ps_total s = cnt (\<lambda>e. ge_target e = i) (lg_edges g)
        \<and> ps_resolved s + cnt (\<lambda>t. ge_target (fst t) = i) S
            = cnt (\<lambda>e. ge_target e = i \<and> fin M (ge_source e)) (lg_edges g)
        \<and> ps_delivered s + cnt (\<lambda>t. ge_target (fst t) = i \<and> snd t \<noteq> None) S
            = cnt (\<lambda>e. ge_target e = i \<and> delivers outs e) (lg_edges g))"

definition complete :: "pending_state \<Rightarrow> bool" where
  "complete s \<longleftrightarrow> ps_resolved s = ps_total s"

definition live :: "pending_state \<Rightarrow> bool" where
  "live s \<longleftrightarrow> ps_total s = 0 \<or> 0 < ps_delivered s"

text \<open>
  The queue holds the complete nodes with a delivery (or without any predecessor) that are not
  final, and a node is final with an output exactly when it was one of them.
\<close>

definition node_ok :: "nat set \<Rightarrow> outputs \<Rightarrow> nat \<Rightarrow> pending_state \<Rightarrow> bool" where
  "node_ok queued outs i s \<longleftrightarrow>
     (ps_enqueued s \<longleftrightarrow> i \<in> queued)
     \<and> (ps_enqueued s \<longrightarrow> \<not> ps_finalized s \<and> complete s \<and> live s)
     \<and> (complete s \<longrightarrow> ps_enqueued s \<or> ps_finalized s)
     \<and> (ps_finalized s \<longrightarrow> complete s \<and> (outs i \<noteq> None \<longleftrightarrow> live s))
     \<and> (\<not> ps_finalized s \<longrightarrow> outs i = None)"

definition queue_ok :: "loaded_graph \<Rightarrow> graph_node list \<Rightarrow> states \<Rightarrow> outputs \<Rightarrow> bool" where
  "queue_ok g ready M outs \<longleftrightarrow>
     dom M = gn_id ` set (lg_nodes g) \<and> set ready \<subseteq> set (lg_nodes g) \<and> distinct (map gn_id ready)
     \<and> (\<forall>i s. M i = Some s \<longrightarrow> node_ok (gn_id ` set ready) outs i s)
     \<and> dom outs \<subseteq> dom M"

lemma queue_okD:
  assumes "queue_ok g ready M outs"
  shows "dom M = gn_id ` set (lg_nodes g)" and "set ready \<subseteq> set (lg_nodes g)"
    and "distinct (map gn_id ready)" and "\<And>i s. M i = Some s \<Longrightarrow> node_ok (gn_id ` set ready) outs i s"
    and "dom outs \<subseteq> dom M"
  using assms unfolding queue_ok_def by blast+

lemma queue_upd:
  assumes ok: "queue_ok g ready M outs" and s0: "M i = Some s0"
    and new: "node_ok (gn_id ` set ready') outs' i s'"
    and old: "\<And>j. j \<noteq> i \<Longrightarrow> (j \<in> gn_id ` set ready' \<longleftrightarrow> j \<in> gn_id ` set ready) \<and> outs' j = outs j"
    and "set ready' \<subseteq> set (lg_nodes g)" and "distinct (map gn_id ready')"
  shows "queue_ok g ready' (M(i \<mapsto> s')) outs'"
proof -
  note okD = queue_okD [OF ok]
  have "node_ok (gn_id ` set ready') outs' j s" if "(M(i \<mapsto> s')) j = Some s" for j s
  proof (cases "j = i")
    case True
    with that new show ?thesis by simp
  next
    case False
    with that have "M j = Some s" by simp
    note okj = okD(4) [OF this]
    have eq: "(j \<in> gn_id ` set ready') = (j \<in> gn_id ` set ready)" "outs' j = outs j"
      using old [OF False] by blast+
    show ?thesis using okj unfolding node_ok_def eq .
  qed
  moreover have "dom (M(i \<mapsto> s')) = dom M" using s0 by auto
  moreover have "dom outs' \<subseteq> dom M"
  proof
    fix j assume "j \<in> dom outs'"
    then have "j = i \<or> j \<in> dom outs" using old [of j] by (cases "j = i") (simp_all add: dom_def)
    then show "j \<in> dom M" using okD(5) s0 by blast
  qed
  ultimately show ?thesis using assms(5,6) okD(1) unfolding queue_ok_def by blast
qed

lemma counts_okD:
  assumes "counts_ok g S M outs" and "M i = Some s"
  shows "ps_total s = cnt (\<lambda>e. ge_target e = i) (lg_edges g)"
    and "ps_resolved s + cnt (\<lambda>t. ge_target (fst t) = i) S
            = cnt (\<lambda>e. ge_target e = i \<and> fin M (ge_source e)) (lg_edges g)"
    and "ps_delivered s + cnt (\<lambda>t. ge_target (fst t) = i \<and> snd t \<noteq> None) S
            = cnt (\<lambda>e. ge_target e = i \<and> delivers outs e) (lg_edges g)"
  using assms unfolding counts_ok_def by blast+

lemma receive_simps [simp]:
  "ps_total (receive t s) = ps_total s"
  "ps_resolved (receive t s) = Suc (ps_resolved s)"
  "ps_delivered (receive t s) = ps_delivered s + of_bool (snd t \<noteq> None)"
  "ps_enqueued (receive t s) = ps_enqueued s"
  by (auto simp: receive_def Let_def split: option.splits)

lemma counts_receive:
  assumes "counts_ok g (t # S) M outs" and "M i = Some s" and "i = ge_target (fst t)"
  shows "counts_ok g S (M(i \<mapsto> receive t s)) outs"
  unfolding counts_ok_def
proof (intro allI impI)
  fix j r assume r: "(M(i \<mapsto> receive t s)) j = Some r"
  have same: "fin (M(i \<mapsto> receive t s)) = fin M" using assms(2) by (simp add: fin_same)
  show "ps_total r = cnt (\<lambda>e. ge_target e = j) (lg_edges g)
        \<and> ps_resolved r + cnt (\<lambda>t. ge_target (fst t) = j) S
            = cnt (\<lambda>e. ge_target e = j \<and> fin (M(i \<mapsto> receive t s)) (ge_source e)) (lg_edges g)
        \<and> ps_delivered r + cnt (\<lambda>t. ge_target (fst t) = j \<and> snd t \<noteq> None) S
            = cnt (\<lambda>e. ge_target e = j \<and> delivers outs e) (lg_edges g)"
  proof (cases "j = i")
    case True
    with r have "r = receive t s" by simp
    with counts_okD [OF assms(1,2)] True assms(3) show ?thesis unfolding same by simp
  next
    case False
    with r have "M j = Some r" by simp
    with counts_okD [OF assms(1) this] False assms(3) show ?thesis unfolding same by simp
  qed
qed

text \<open>Flags do not count.\<close>

lemma counts_flags:
  assumes "counts_ok g S M outs" and "M i = Some s" and "ps_total s' = ps_total s"
    and "ps_resolved s' = ps_resolved s" and "ps_delivered s' = ps_delivered s"
    and "ps_finalized s' = ps_finalized s"
  shows "counts_ok g S (M(i \<mapsto> s')) outs"
proof -
  have same: "fin (M(i \<mapsto> s')) = fin M" using assms(2,6) by (simp add: fin_same)
  show ?thesis
    unfolding counts_ok_def same
  proof (intro allI impI)
    fix j r assume r: "(M(i \<mapsto> s')) j = Some r"
    obtain r0 where "M j = Some r0" "ps_total r = ps_total r0" "ps_resolved r = ps_resolved r0"
      "ps_delivered r = ps_delivered r0"
      using r assms(2-5) by (cases "j = i") auto
    with counts_okD [OF assms(1) this(1)] show "ps_total r = cnt (\<lambda>e. ge_target e = j) (lg_edges g)
        \<and> ps_resolved r + cnt (\<lambda>t. ge_target (fst t) = j) S
            = cnt (\<lambda>e. ge_target e = j \<and> fin M (ge_source e)) (lg_edges g)
        \<and> ps_delivered r + cnt (\<lambda>t. ge_target (fst t) = j \<and> snd t \<noteq> None) S
            = cnt (\<lambda>e. ge_target e = j \<and> delivers outs e) (lg_edges g)" by simp
  qed
qed

text \<open>A node becomes final: its outgoing edges are put on the stack.\<close>

lemma counts_finalize:
  assumes "counts_ok g S M outs" and s: "M i = Some s" "\<not> ps_finalized s" and "outs i = None"
    and out: "outs' = outs \<or> (\<exists>ports. outs' = outs(i \<mapsto> ports))"
  shows "counts_ok g (map (\<lambda>e. (e, case outs' i of None \<Rightarrow> None | Some ports \<Rightarrow> map_of ports (ge_source_port e)))
            (outgoing g i) @ S) (M(i \<mapsto> s\<lparr>ps_finalized := True\<rparr>)) outs'"
  unfolding counts_ok_def
proof (intro allI impI)
  let ?M = "M(i \<mapsto> s\<lparr>ps_finalized := True\<rparr>)"
  let ?val = "\<lambda>e. case outs' i of None \<Rightarrow> None | Some ports \<Rightarrow> map_of ports (ge_source_port e)"
  let ?S = "map (\<lambda>e. (e, ?val e)) (outgoing g i) @ S"
  fix j r assume r: "?M j = Some r"
  obtain r0 where r0: "M j = Some r0" "ps_total r = ps_total r0" "ps_resolved r = ps_resolved r0"
    "ps_delivered r = ps_delivered r0"
    using r s by (cases "j = i") auto
  note old = counts_okD [OF assms(1) r0(1)]
  have nfin: "\<not> fin M i" using s by (simp add: fin_def)
  have "cnt (\<lambda>e. ge_target e = j \<and> fin ?M (ge_source e)) (lg_edges g)
      = cnt (\<lambda>e. (ge_target e = j \<and> fin M (ge_source e)) \<or> (ge_target e = j \<and> ge_source e = i)) (lg_edges g)"
    by (rule cnt_cong) (auto simp: fin_upd)
  also have "\<dots> = cnt (\<lambda>e. ge_target e = j \<and> fin M (ge_source e)) (lg_edges g)
      + cnt (\<lambda>e. ge_target e = j \<and> ge_source e = i) (lg_edges g)"
    by (rule cnt_disjoint) (use nfin in auto)
  finally have res: "ps_resolved r + cnt (\<lambda>t. ge_target (fst t) = j) ?S
      = cnt (\<lambda>e. ge_target e = j \<and> fin ?M (ge_source e)) (lg_edges g)"
    using old(2) r0(3) by (simp add: outgoing_def)
  have del: "delivers outs' e \<longleftrightarrow> delivers outs e \<or> ge_source e = i \<and> ?val e \<noteq> None" for e
    using out assms(4) by (cases "ge_source e = i") (auto simp: delivers_def)
  have "cnt (\<lambda>e. ge_target e = j \<and> delivers outs' e) (lg_edges g)
      = cnt (\<lambda>e. (ge_target e = j \<and> delivers outs e)
          \<or> (ge_target e = j \<and> ge_source e = i \<and> ?val e \<noteq> None)) (lg_edges g)"
    by (rule cnt_cong) (use del in blast)
  also have "\<dots> = cnt (\<lambda>e. ge_target e = j \<and> delivers outs e) (lg_edges g)
      + cnt (\<lambda>e. ge_target e = j \<and> ge_source e = i \<and> ?val e \<noteq> None) (lg_edges g)"
    by (rule cnt_disjoint) (use assms(4) in \<open>auto simp: delivers_def\<close>)
  also have "cnt (\<lambda>e. ge_target e = j \<and> ge_source e = i \<and> ?val e \<noteq> None) (lg_edges g)
      = cnt (\<lambda>e. (ge_target e = j \<and> ?val e \<noteq> None) \<and> ge_source e = i) (lg_edges g)"
    by (rule cnt_cong) blast
  finally have "ps_delivered r + cnt (\<lambda>t. ge_target (fst t) = j \<and> snd t \<noteq> None) ?S
      = cnt (\<lambda>e. ge_target e = j \<and> delivers outs' e) (lg_edges g)"
    using old(3) r0(4) by (simp add: outgoing_def)
  with res old(1) r0(2) show "ps_total r = cnt (\<lambda>e. ge_target e = j) (lg_edges g)
        \<and> ps_resolved r + cnt (\<lambda>t. ge_target (fst t) = j) ?S
            = cnt (\<lambda>e. ge_target e = j \<and> fin ?M (ge_source e)) (lg_edges g)
        \<and> ps_delivered r + cnt (\<lambda>t. ge_target (fst t) = j \<and> snd t \<noteq> None) ?S
            = cnt (\<lambda>e. ge_target e = j \<and> delivers outs' e) (lg_edges g)" by simp
qed

text \<open>A complete node has only final predecessors, and nothing is left on the stack for it.\<close>

lemma complete_sources_fin:
  assumes "counts_ok g S M outs" and "M i = Some s" and "complete s"
    and "e \<in> set (lg_edges g)" and "ge_target e = i"
  shows "fin M (ge_source e)"
proof -
  have "cnt (\<lambda>e. ge_target e = i \<and> fin M (ge_source e)) (lg_edges g) \<le> cnt (\<lambda>e. ge_target e = i) (lg_edges g)"
    by (rule cnt_mono) simp
  with counts_okD(1,2) [OF assms(1,2)] assms(3)
  have "cnt (\<lambda>e. ge_target e = i \<and> fin M (ge_source e)) (lg_edges g) = cnt (\<lambda>e. ge_target e = i) (lg_edges g)"
    by (simp add: complete_def)
  with assms(4,5) show ?thesis by (auto simp: cnt_eq_all)
qed

lemma stack_target_open:
  assumes "counts_ok g (t # S) M outs" and "M (ge_target (fst t)) = Some s"
  shows "\<not> complete s"
proof -
  let ?i = "ge_target (fst t)"
  have "cnt (\<lambda>e. ge_target e = ?i \<and> fin M (ge_source e)) (lg_edges g) \<le> cnt (\<lambda>e. ge_target e = ?i) (lg_edges g)"
    by (rule cnt_mono) simp
  with counts_okD(1,2) [OF assms] show ?thesis by (simp add: complete_def)
qed

section \<open>The ledger\<close>

definition row_of :: "nat \<Rightarrow> graph_db \<Rightarrow> nat \<Rightarrow> node_run option" where
  "row_of run d i = find (of_node_run run i) (gd_node_runs d)"

definition rows_ok :: "loaded_graph \<Rightarrow> nat \<Rightarrow> graph_db \<Rightarrow> bool" where
  "rows_ok g run d \<longleftrightarrow>
     (\<forall>n \<in> set (lg_nodes g). length (filter (of_node_run run (gn_id n)) (gd_node_runs d)) = 1)"

lemma patch_keeps_key [simp]: "of_node_run run i (patch_node_run st u r) = of_node_run run i r"
  by (simp add: of_node_run_def patch_node_run_def)

lemma row_of_other:
  assumes "run' \<noteq> run \<or> i' \<noteq> i"
  shows "find (of_node_run run' i') (update_where (of_node_run run i) (patch_node_run st u) rows)
    = find (of_node_run run' i') rows"
proof -
  have "\<not> (of_node_run run' i' r \<and> of_node_run run i r)" for r
    using assms by (auto simp: of_node_run_def)
  then show ?thesis by (induction rows) (auto simp: update_where_def)
qed

lemma filter_patched:
  "length (filter (of_node_run run' i') (update_where (of_node_run run i) (patch_node_run st u) rows))
    = length (filter (of_node_run run' i') rows)"
  by (induction rows) (auto simp: update_where_def)

lemma find_filter_single: "filter p xs = [r] \<Longrightarrow> find p xs = Some r"
  by (induction xs) (auto split: if_splits)

lemma update_node_run_ok:
  assumes "length (filter (of_node_run run i) (gd_node_runs d)) = 1"
  shows "\<exists>d' r. update_node_run run i st u d = Inr d' \<and> row_of run d i = Some r
    \<and> row_of run d' = (row_of run d)(i \<mapsto> patch_node_run st u r)
    \<and> (\<forall>g. rows_ok g run d' = rows_ok g run d)
    \<and> (\<forall>run'. run' \<noteq> run \<longrightarrow> row_of run' d' = row_of run' d)"
proof -
  let ?d' = "d\<lparr>gd_node_runs := update_where (of_node_run run i) (patch_node_run st u) (gd_node_runs d)\<rparr>"
  from assms obtain r where r: "filter (of_node_run run i) (gd_node_runs d) = [r]"
    by (auto simp: length_Suc_conv)
  then have find: "find (of_node_run run i) (gd_node_runs d) = Some r"
    by (rule find_filter_single)
  have "update_node_run run i st u d = Inr ?d'"
    by (simp add: update_node_run_def get_node_run_def scalar_one_or_none_def r)
  moreover have "row_of run ?d' j = ((row_of run d)(i \<mapsto> patch_node_run st u r)) j" for j
    using find by (cases "j = i") (simp_all add: row_of_def find_update_where row_of_other)
  then have "row_of run ?d' = (row_of run d)(i \<mapsto> patch_node_run st u r)" by blast
  moreover have "rows_ok g run ?d' = rows_ok g run d" for g
    by (simp add: rows_ok_def filter_patched)
  moreover have "row_of run' ?d' = row_of run' d" if "run' \<noteq> run" for run'
    using that by (auto simp: row_of_def row_of_other)
  ultimately show ?thesis using find by (auto simp: row_of_def)
qed

text \<open>
  Status, execution index and recorded output of every node: pending while it is not final, then
  skipped or succeeded under an index of its own that is above those of its predecessors.
\<close>

type_synonym marks = "nat \<Rightarrow> (node_status \<times> nat option \<times> py_dict option) option"

definition marks_of :: "nat \<Rightarrow> graph_db \<Rightarrow> marks" where
  "marks_of run d i = map_option (\<lambda>r. (nr_status r, nr_index r, nr_output r)) (row_of run d i)"

definition idx :: "marks \<Rightarrow> nat \<Rightarrow> nat option" where
  "idx V i = (case V i of None \<Rightarrow> None | Some (st, k, out) \<Rightarrow> k)"

definition final_mark :: "(py_dict \<Rightarrow> py_dict) \<Rightarrow> py_dict option \<Rightarrow> nat \<Rightarrow> node_status \<times> nat option \<times> py_dict option" where
  "final_mark san out k =
     (case out of None \<Rightarrow> (Node_Skipped, Some k, None) | Some ports \<Rightarrow> (Node_Succeeded, Some k, Some (san ports)))"

definition marks_ok ::
    "loaded_graph \<Rightarrow> (py_dict \<Rightarrow> py_dict) \<Rightarrow> states \<Rightarrow> outputs \<Rightarrow> nat \<Rightarrow> marks \<Rightarrow> bool" where
  "marks_ok g san M outs c V \<longleftrightarrow>
     (\<forall>i \<in> gn_id ` set (lg_nodes g).
        if fin M i then (\<exists>k \<le> c. V i = Some (final_mark san (outs i) k))
        else V i = Some (Node_Pending, None, None))
     \<and> (\<forall>i j k. fin M i \<longrightarrow> fin M j \<longrightarrow> idx V i = Some k \<longrightarrow> idx V j = Some k \<longrightarrow> i = j)
     \<and> (\<forall>e \<in> set (lg_edges g). fin M (ge_target e) \<longrightarrow>
          (\<exists>k l. idx V (ge_source e) = Some k \<and> idx V (ge_target e) = Some l \<and> k < l))"

lemma final_mark_index [simp]: "fst (snd (final_mark san out k)) = Some k"
  by (simp add: final_mark_def split: option.splits)

lemma idx_final: "V i = Some (final_mark san out k) \<Longrightarrow> idx V i = Some k"
  by (simp add: idx_def final_mark_def split: option.splits)

lemma marks_ok_upd_same:
  assumes "marks_ok g san M outs c V" and "M i = Some s" and "ps_finalized s' = ps_finalized s"
  shows "marks_ok g san (M(i \<mapsto> s')) outs c V"
  using assms(1) unfolding marks_ok_def by (simp only: fin_same [of M i s s', OF assms(2,3)])

lemma marks_ok_index:
  assumes "marks_ok g san M outs c V" and "fin M i" and "i \<in> gn_id ` set (lg_nodes g)"
  shows "\<exists>k \<le> c. idx V i = Some k"
proof -
  from assms obtain k where "k \<le> c" "V i = Some (final_mark san (outs i) k)"
    unfolding marks_ok_def by (metis (no_types, lifting))
  with idx_final show ?thesis by blast
qed

lemma marks_ok_finalize:
  assumes ok: "marks_ok g san M outs c V" and known: "edges_known g" and dom: "dom M = gn_id ` set (lg_nodes g)"
    and s: "M i = Some s" "\<not> ps_finalized s"
    and preds: "\<And>e. e \<in> set (lg_edges g) \<Longrightarrow> ge_target e = i \<Longrightarrow> fin M (ge_source e)"
    and outs: "\<And>j. j \<noteq> i \<Longrightarrow> outs' j = outs j"
    and V: "V' = V(i \<mapsto> final_mark san (outs' i) (Suc c))"
  shows "marks_ok g san (M(i \<mapsto> s\<lparr>ps_finalized := True\<rparr>)) outs' (Suc c) V'"
proof -
  let ?M = "M(i \<mapsto> s\<lparr>ps_finalized := True\<rparr>)"
  have nfin: "\<not> fin M i" using s by (simp add: fin_def)
  have fin: "fin ?M j \<longleftrightarrow> j = i \<or> fin M j" for j by (simp add: fin_upd)
  have dm: "fin M j \<Longrightarrow> j \<in> gn_id ` set (lg_nodes g)" for j using dom by (auto simp: fin_def)
  have idx_i: "idx V' i = Some (Suc c)" by (rule idx_final) (simp add: V)
  have idx_j: "idx V' j = idx V j" if "j \<noteq> i" for j using that by (simp add: V idx_def)
  have idx: "\<exists>k \<le> c. idx V' j = Some k" if "fin M j" for j
    using marks_ok_index [OF ok that dm [OF that]] idx_j [of j] nfin that by metis
  have 1: "if fin ?M j then (\<exists>k \<le> Suc c. V' j = Some (final_mark san (outs' j) k))
        else V' j = Some (Node_Pending, None, None)" if "j \<in> gn_id ` set (lg_nodes g)" for j
  proof (cases "j = i")
    case True
    then show ?thesis by (auto simp: fin V)
  next
    case False
    then have "V' j = V j" "outs' j = outs j" "fin ?M j = fin M j" using outs by (simp_all add: V fin)
    moreover have "if fin M j then (\<exists>k \<le> c. V j = Some (final_mark san (outs j) k))
        else V j = Some (Node_Pending, None, None)"
      using ok that unfolding marks_ok_def by blast
    ultimately show ?thesis by (metis le_SucI)
  qed
  have inj: "\<And>j j' k. fin M j \<Longrightarrow> fin M j' \<Longrightarrow> idx V j = Some k \<Longrightarrow> idx V j' = Some k \<Longrightarrow> j = j'"
    using ok unfolding marks_ok_def by blast
  have 2: "j = j'" if "fin ?M j" "fin ?M j'" "idx V' j = Some k" "idx V' j' = Some k" for j j' k
  proof -
    have "k = Suc c \<longleftrightarrow> l = i" if "fin ?M l" "idx V' l = Some k" for l
      using that idx_i idx [of l] fin [of l] by auto
    with that inj idx_j fin show ?thesis by metis
  qed
  have 3: "\<exists>k l. idx V' (ge_source e) = Some k \<and> idx V' (ge_target e) = Some l \<and> k < l"
    if e: "e \<in> set (lg_edges g)" "fin ?M (ge_target e)" for e
  proof (cases "ge_target e = i")
    case True
    from idx [OF preds [OF e(1) True]] obtain k where "k \<le> c" "idx V' (ge_source e) = Some k"
      by blast
    with True idx_i show ?thesis by auto
  next
    case False
    then have ft: "fin M (ge_target e)" using e(2) fin by simp
    with ok e(1) obtain k l where kl: "idx V (ge_source e) = Some k" "idx V (ge_target e) = Some l" "k < l"
      unfolding marks_ok_def by blast
    have "ge_source e \<noteq> i"
    proof
      assume "ge_source e = i"
      moreover have "i \<in> gn_id ` set (lg_nodes g)" using s dom by blast
      then have "V i = Some (Node_Pending, None, None)" using ok nfin unfolding marks_ok_def by auto
      ultimately show False using kl(1) by (simp add: idx_def)
    qed
    with kl idx_j False show ?thesis by metis
  qed
  show ?thesis unfolding marks_ok_def using 1 2 3 by blast
qed

section \<open>Preservation\<close>

definition run_inv :: "loaded_graph \<Rightarrow> exec_env \<Rightarrow> delivery list \<Rightarrow> exec_state \<Rightarrow> bool" where
  "run_inv g env S x \<longleftrightarrow>
     counts_ok g S (map_of (xs_states x)) (map_of (xs_outputs x))
     \<and> queue_ok g (xs_ready x) (map_of (xs_states x)) (map_of (xs_outputs x))
     \<and> rows_ok g (xe_run env) (xs_db x)
     \<and> marks_ok g (xe_sanitize env) (map_of (xs_states x)) (map_of (xs_outputs x)) (xs_counter x) (marks_of (xe_run env) (xs_db x))"

lemma run_invI:
  assumes "counts_ok g S (map_of (xs_states x)) (map_of (xs_outputs x))"
    and "queue_ok g (xs_ready x) (map_of (xs_states x)) (map_of (xs_outputs x))"
    and "rows_ok g (xe_run env) (xs_db x)"
    and "marks_ok g (xe_sanitize env) (map_of (xs_states x)) (map_of (xs_outputs x)) (xs_counter x) (marks_of (xe_run env) (xs_db x))"
  shows "run_inv g env S x"
  using assms unfolding run_inv_def by blast

lemma run_invD:
  assumes "run_inv g env S x"
  shows "counts_ok g S (map_of (xs_states x)) (map_of (xs_outputs x))"
    and "queue_ok g (xs_ready x) (map_of (xs_states x)) (map_of (xs_outputs x))"
    and "rows_ok g (xe_run env) (xs_db x)"
    and "marks_ok g (xe_sanitize env) (map_of (xs_states x)) (map_of (xs_outputs x)) (xs_counter x) (marks_of (xe_run env) (xs_db x))"
  using assms unfolding run_inv_def by blast+

definition graph_ok :: "loaded_graph \<Rightarrow> bool" where
  "graph_ok g \<longleftrightarrow> distinct (map gn_id (lg_nodes g)) \<and> edges_known g"

lemma node_lookup:
  assumes "graph_ok g" and "i \<in> gn_id ` set (lg_nodes g)"
  shows "\<exists>n. map_of (nodes_by_id (lg_nodes g)) i = Some n \<and> n \<in> set (lg_nodes g) \<and> gn_id n = i"
proof -
  from assms(2) obtain n where n: "n \<in> set (lg_nodes g)" "gn_id n = i" by blast
  have "distinct (map gn_id (lg_nodes g))" using assms(1) by (simp add: graph_ok_def)
  then have "map_of (nodes_by_id (lg_nodes g)) i = Some n"
    using n by (simp add: nodes_by_id_distinct) (intro map_of_is_SomeI, auto simp: comp_def)
  with n show ?thesis by blast
qed

lemma ledger_mark:
  assumes "rows_ok g run (xs_db x)" and "i \<in> gn_id ` set (lg_nodes g)"
  shows "\<exists>y r. ledger (update_node_run run i st u) x = (y, Inr ()) \<and> y = x\<lparr>xs_db := xs_db y\<rparr>
    \<and> rows_ok g run (xs_db y) \<and> row_of run (xs_db x) i = Some r
    \<and> row_of run (xs_db y) = (row_of run (xs_db x))(i \<mapsto> patch_node_run st u r)
    \<and> (\<forall>run'. run' \<noteq> run \<longrightarrow> row_of run' (xs_db y) = row_of run' (xs_db x))"
proof -
  from assms have "length (filter (of_node_run run i) (gd_node_runs (xs_db x))) = 1"
    by (auto simp: rows_ok_def)
  from update_node_run_ok [OF this, of st u] obtain d' r where
    "update_node_run run i st u (xs_db x) = Inr d'" "row_of run (xs_db x) i = Some r"
    "row_of run d' = (row_of run (xs_db x))(i \<mapsto> patch_node_run st u r)"
    "rows_ok g run d'" "\<forall>run'. run' \<noteq> run \<longrightarrow> row_of run' d' = row_of run' (xs_db x)"
    using assms(1) by blast
  then show ?thesis by (intro exI [of _ "x\<lparr>xs_db := d'\<rparr>"] exI [of _ r]) (simp add: ledger_def)
qed

lemma resolve_open:
  assumes inv: "run_inv g env (t # S) x" and ok: "graph_ok g" and t: "fst t \<in> set (lg_edges g)"
  shows "\<exists>s. map_of (xs_states x) (ge_target (fst t)) = Some s \<and> \<not> complete s \<and> \<not> ps_enqueued s
    \<and> \<not> ps_finalized s \<and> map_of (xs_outputs x) (ge_target (fst t)) = None
    \<and> ge_target (fst t) \<notin> gn_id ` set (xs_ready x) \<and> 0 < ps_total s"
proof -
  let ?i = "ge_target (fst t)"
  note q = queue_okD [OF run_invD(2) [OF inv]]
  have "?i \<in> dom (map_of (xs_states x))" using ok t unfolding q(1) by (auto simp: graph_ok_def edges_known_def)
  then obtain s where s: "map_of (xs_states x) ?i = Some s" by blast
  have nc: "\<not> complete s" by (rule stack_target_open [OF run_invD(1) [OF inv] s])
  have "0 < cnt (\<lambda>e. ge_target e = ?i) (lg_edges g)" using t by (auto simp: cnt_pos_iff)
  then have "0 < ps_total s" using counts_okD(1) [OF run_invD(1) [OF inv] s] by simp
  with q(4) [OF s] s nc show ?thesis unfolding node_ok_def by blast
qed

lemma resolve_one_inv:
  assumes inv: "run_inv g env (t # S) x" and ok: "graph_ok g" and t: "fst t \<in> set (lg_edges g)"
  shows "\<exists>y pushed. resolve_one g env t x = (y, Inr pushed) \<and> run_inv g env (pushed @ S) y
    \<and> (\<forall>p \<in> set pushed. fst p \<in> set (lg_edges g))
    \<and> xs_outputs y = xs_outputs x \<and> xs_unsafe y = xs_unsafe x"
proof -
  let ?i = "ge_target (fst t)" and ?M = "map_of (xs_states x)" and ?outs = "map_of (xs_outputs x)"
  note I = run_invD [OF inv] and q = queue_okD [OF run_invD(2) [OF inv]]
  from resolve_open [OF inv ok t] obtain s0 where s0: "?M ?i = Some s0" "\<not> complete s0" "\<not> ps_enqueued s0"
    "\<not> ps_finalized s0" "?outs ?i = None" "?i \<notin> gn_id ` set (xs_ready x)" "0 < ps_total s0" by blast
  let ?s = "receive t s0"
  let ?x1 = "put_state ?i ?s x"
  have M1: "map_of (xs_states ?x1) = ?M(?i \<mapsto> ?s)" by (simp add: AList.update_conv')
  have c1: "counts_ok g S (?M(?i \<mapsto> ?s)) ?outs" by (rule counts_receive [OF I(1) s0(1) refl])
  have m1: "marks_ok g (xe_sanitize env) (?M(?i \<mapsto> ?s)) ?outs (xs_counter x) (marks_of (xe_run env) (xs_db x))"
    by (rule marks_ok_upd_same [OF I(4) s0(1)]) simp
  have step: "resolve_one g env t x = (if ps_resolved ?s \<noteq> ps_total ?s then (?x1, Inr [])
      else if 0 < ps_delivered ?s then enqueue_node g ?i ?s ?x1 else skip_node g env ?i ?s ?x1)"
    using s0(1) by (simp add: resolve_one_def Let_def)
  have iin: "?i \<in> gn_id ` set (lg_nodes g)" using s0(1) q(1) by blast
  consider "\<not> complete ?s" | "complete ?s" "0 < ps_delivered ?s" | "complete ?s" "ps_delivered ?s = 0"
    by blast
  then show ?thesis
  proof cases
    case 1
    have q1: "queue_ok g (xs_ready x) (?M(?i \<mapsto> ?s)) ?outs"
      by (rule queue_upd [OF I(2) s0(1)]) (use 1 s0 q in \<open>auto simp: node_ok_def\<close>)
    have "run_inv g env S ?x1"
      unfolding run_inv_def M1 using q1 c1 m1 I(3) by simp
    with 1 step show ?thesis by (auto simp: complete_def)
  next
    case 2
    from node_lookup [OF ok iin] obtain n where n: "map_of (nodes_by_id (lg_nodes g)) ?i = Some n"
      "n \<in> set (lg_nodes g)" "gn_id n = ?i" by blast
    let ?s' = "?s\<lparr>ps_enqueued := True\<rparr>"
    let ?y = "put_state ?i ?s' (?x1\<lparr>xs_ready := xs_ready x @ [n]\<rparr>)"
    have y: "resolve_one g env t x = (?y, Inr [])"
      using 2 step s0 n by (simp add: enqueue_node_def complete_def)
    have My: "map_of (xs_states ?y) = ?M(?i \<mapsto> ?s')" by (simp add: AList.update_conv')
    have q1: "queue_ok g (xs_ready x @ [n]) (?M(?i \<mapsto> ?s')) ?outs"
      by (rule queue_upd [OF I(2) s0(1)]) (use 2 s0 q n in \<open>auto simp: node_ok_def complete_def live_def\<close>)
    have c2: "counts_ok g S ((?M(?i \<mapsto> ?s))(?i \<mapsto> ?s')) ?outs"
      by (rule counts_flags [OF c1, of ?i ?s ?s']) simp_all
    have m2: "marks_ok g (xe_sanitize env) ((?M(?i \<mapsto> ?s))(?i \<mapsto> ?s')) ?outs (xs_counter x) (marks_of (xe_run env) (xs_db x))"
      by (rule marks_ok_upd_same [OF m1, of ?i ?s ?s']) simp_all
    have "run_inv g env S ?y"
      unfolding run_inv_def My using q1 c2 m2 I(3) by simp
    with y show ?thesis by auto
  next
    case 3
    let ?s' = "?s\<lparr>ps_finalized := True\<rparr>"
    let ?x2 = "(put_state ?i ?s' ?x1)\<lparr>xs_counter := Suc (xs_counter x)\<rparr>"
    let ?u = "no_node_patch\<lparr>np_index := Some (Suc (xs_counter x)),
          np_reason := Some ''No inbound branch delivered payload'', np_completed_at := Some (xe_now env)\<rparr>"
    have "rows_ok g (xe_run env) (xs_db ?x2)" using I(3) by simp
    from ledger_mark [OF this iin, of Node_Skipped ?u] obtain y r where
      y: "ledger (mark_skipped env ?i (Suc (xs_counter x))) ?x2 = (y, Inr ())" "y = ?x2\<lparr>xs_db := xs_db y\<rparr>"
      "rows_ok g (xe_run env) (xs_db y)"
      "row_of (xe_run env) (xs_db y) = (row_of (xe_run env) (xs_db x))(?i \<mapsto> patch_node_run Node_Skipped ?u r)"
      and rx: "row_of (xe_run env) (xs_db x) ?i = Some r"
      by (auto simp: mark_skipped_def)
    have "\<not> fin ?M ?i" using s0(1,4) by (simp add: fin_def)
    then have "marks_of (xe_run env) (xs_db x) ?i = Some (Node_Pending, None, None)"
      using I(4) iin unfolding marks_ok_def by auto
    with rx have noout: "nr_output r = None" by (simp add: marks_of_def)
    let ?pushed = "map (\<lambda>e. (e, None)) (outgoing g ?i)"
    have res: "resolve_one g env t x = (y, Inr ?pushed)"
      using 3 step s0 y(1) by (simp add: skip_node_def complete_def Let_def)
    have ys: "xs_states y = xs_states ?x2" "xs_ready y = xs_ready x" "xs_outputs y = xs_outputs x"
      "xs_counter y = Suc (xs_counter x)" "xs_unsafe y = xs_unsafe x"
      using arg_cong [OF y(2), of xs_states] arg_cong [OF y(2), of xs_ready] arg_cong [OF y(2), of xs_outputs]
        arg_cong [OF y(2), of xs_counter] arg_cong [OF y(2), of xs_unsafe] by simp_all
    have My: "map_of (xs_states y) = ?M(?i \<mapsto> ?s')" unfolding ys by (simp add: AList.update_conv')
    have nl: "\<not> live ?s" using 3 s0(7) by (simp add: live_def)
    have q1: "queue_ok g (xs_ready x) (?M(?i \<mapsto> ?s')) ?outs"
      by (rule queue_upd [OF I(2) s0(1)]) (use 3 s0 q nl in \<open>auto simp: node_ok_def complete_def live_def\<close>)
    have c2: "counts_ok g (?pushed @ S) ((?M(?i \<mapsto> ?s))(?i \<mapsto> ?s')) ?outs"
      using counts_finalize [OF c1, of ?i ?s ?outs] s0(4,5) by simp
    have m2: "marks_ok g (xe_sanitize env) ((?M(?i \<mapsto> ?s))(?i \<mapsto> ?s')) ?outs (Suc (xs_counter x)) (marks_of (xe_run env) (xs_db y))"
    proof (rule marks_ok_finalize [OF m1])
      show "edges_known g" using ok by (simp add: graph_ok_def)
      show "dom (?M(?i \<mapsto> ?s)) = gn_id ` set (lg_nodes g)" using q(1) s0(1) by auto
      show "fin (?M(?i \<mapsto> ?s)) (ge_source e)" if "e \<in> set (lg_edges g)" "ge_target e = ?i" for e
        using complete_sources_fin [OF c1 _ 3(1) that] by simp
      show "marks_of (xe_run env) (xs_db y) = (marks_of (xe_run env) (xs_db x))
          (?i \<mapsto> final_mark (xe_sanitize env) (?outs ?i) (Suc (xs_counter x)))"
        using noout by (intro ext) (simp add: marks_of_def y(4) s0(5) patch_node_run_def or_else_def final_mark_def no_node_patch_def)
    qed (use s0(4) in simp_all)
    have "run_inv g env (?pushed @ S) y"
      unfolding run_inv_def My ys(2-4) using q1 c2 m2 y(3) by simp
    with res ys show ?thesis by (auto simp: outgoing_def)
  qed
qed

lemma resolve_edges_inv:
  assumes "run_inv g env S x" and "graph_ok g" and "\<forall>t \<in> set S. fst t \<in> set (lg_edges g)"
  shows "\<exists>y. resolve_edges g env S x = (y, Inr ()) \<and> run_inv g env [] y
    \<and> xs_outputs y = xs_outputs x \<and> xs_unsafe y = xs_unsafe x"
  using assms
proof (induction g env S x rule: resolve_edges.induct)
  case (2 g env t stack x)
  from resolve_one_inv [OF "2.prems"(1,2)] "2.prems"(3) obtain y pushed where
    y: "resolve_one g env t x = (y, Inr pushed)" "run_inv g env (pushed @ stack) y"
    "\<forall>p \<in> set pushed. fst p \<in> set (lg_edges g)" "xs_outputs y = xs_outputs x" "xs_unsafe y = xs_unsafe x"
    by auto
  from "2.IH" [OF y(1) y(2) "2.prems"(2)] y "2.prems"(3) show ?case by auto
qed auto

text \<open>
  The head of the queue: its node is complete and live, and taking it off breaks the invariant
  for this node only.
\<close>

definition popped :: "loaded_graph \<Rightarrow> exec_env \<Rightarrow> graph_node \<Rightarrow> exec_state \<Rightarrow> bool" where
  "popped g env n x \<longleftrightarrow> run_inv g env [] (x\<lparr>xs_ready := n # xs_ready x\<rparr>)"

lemma popped_state:
  assumes "popped g env n x"
  shows "\<exists>s. map_of (xs_states x) (gn_id n) = Some s \<and> \<not> ps_finalized s \<and> complete s \<and> live s
    \<and> map_of (xs_outputs x) (gn_id n) = None \<and> gn_id n \<notin> gn_id ` set (xs_ready x) \<and> n \<in> set (lg_nodes g)"
proof -
  note q = queue_okD [OF run_invD(2) [OF assms [unfolded popped_def]]]
  have n: "n \<in> set (lg_nodes g)" using q(2) by simp
  then have "gn_id n \<in> dom (map_of (xs_states x))" using q(1) by simp
  then obtain s where s: "map_of (xs_states x) (gn_id n) = Some s" by blast
  with q(4) [of "gn_id n" s] have "ps_enqueued s" by (simp add: node_ok_def)
  with q(4) [of "gn_id n" s] s q(3) n show ?thesis by (auto simp: node_ok_def)
qed

lemma succeed_node_inv:
  assumes pop: "popped g env n x" and ok: "graph_ok g"
    and s0: "map_of (xs_states x) (gn_id n) = Some s0"
    and x1: "xs_states x1 = AList.update (gn_id n) (s0\<lparr>ps_enqueued := False\<rparr>) (xs_states x)"
      "xs_ready x1 = xs_ready x" "xs_outputs x1 = xs_outputs x" "xs_counter x1 = Suc (xs_counter x)"
    and rows: "rows_ok g (xe_run env) (xs_db x1)"
      "row_of (xe_run env) (xs_db x1) = (row_of (xe_run env) (xs_db x))(gn_id n \<mapsto> r1)"
      "nr_index r1 = Some (Suc (xs_counter x))"
  shows "\<exists>y. succeed_node g env (gn_id n) (s0\<lparr>ps_enqueued := False\<rparr>) r x1 = (y, Inr None)
    \<and> run_inv g env [] y
    \<and> xs_outputs y = AList.update (gn_id n) (rs_ports r) (xs_outputs x)
    \<and> xs_unsafe y = (xs_unsafe x1 \<or> rs_unsafe r)"
proof -
  let ?i = "gn_id n" and ?M = "map_of (xs_states x)" and ?outs = "map_of (xs_outputs x)"
  let ?run = "xe_run env" and ?s1 = "s0\<lparr>ps_enqueued := False\<rparr>"
  let ?s2 = "s0\<lparr>ps_enqueued := False, ps_finalized := True\<rparr>"
  note I = run_invD [OF pop [unfolded popped_def]]
  note q = queue_okD [OF I(2)]
  from popped_state [OF pop] s0 have st: "\<not> ps_finalized s0" "complete s0" "live s0" "?outs ?i = None"
    "?i \<notin> gn_id ` set (xs_ready x)" "n \<in> set (lg_nodes g)" by auto
  have iin: "?i \<in> gn_id ` set (lg_nodes g)" using st(6) by blast
  let ?x2 = "x1\<lparr>xs_unsafe := xs_unsafe x1 \<or> rs_unsafe r,
      xs_outputs := AList.update ?i (rs_ports r) (xs_outputs x1)\<rparr>"
  have "rows_ok g ?run (xs_db ?x2)" using rows(1) by simp
  from ledger_mark [OF this iin, of Node_Succeeded "child_columns (rs_metadata r)
      (no_node_patch\<lparr>np_effects := effects_json env (rs_effects r),
          np_output := Some (xe_sanitize env (rs_ports r)), np_ports := Some (rs_selected r),
          np_completed_at := Some (xe_now env)\<rparr>)"]
  obtain x3 r3 where x3: "ledger (mark_succeeded env ?i r) ?x2 = (x3, Inr ())" "rows_ok g ?run (xs_db x3)"
    and r3: "row_of ?run (xs_db ?x2) ?i = Some r3"
    and V3: "row_of ?run (xs_db x3) = (row_of ?run (xs_db ?x2))(?i \<mapsto> patch_node_run Node_Succeeded
      (child_columns (rs_metadata r) (no_node_patch\<lparr>np_effects := effects_json env (rs_effects r),
          np_output := Some (xe_sanitize env (rs_ports r)), np_ports := Some (rs_selected r),
          np_completed_at := Some (xe_now env)\<rparr>)) r3)"
    by (auto simp: mark_succeeded_def)
  have "r3 = r1" using r3 rows(2) by simp
  then have V: "marks_of ?run (xs_db x3) = (marks_of ?run (xs_db x))
      (?i \<mapsto> (Node_Succeeded, Some (Suc (xs_counter x)), Some (xe_sanitize env (rs_ports r))))"
    using V3 rows(2,3)
    by (intro ext) (simp add: marks_of_def patch_node_run_def child_columns_def no_node_patch_def or_else_def)
  note f3 = ledger_frame [OF x3(1)]
  let ?x4 = "put_state ?i (?s1\<lparr>ps_finalized := True\<rparr>) x3"
  have M4: "map_of (xs_states ?x4) = ?M(?i \<mapsto> ?s2)" by (simp add: f3 x1 AList.update_conv')
  have O4: "map_of (xs_outputs ?x4) = ?outs(?i \<mapsto> rs_ports r)" by (simp add: f3 x1 AList.update_conv')
  have "counts_ok g [] (?M(?i \<mapsto> ?s1)) ?outs"
    by (rule counts_flags [of g "[]" ?M ?outs ?i s0 ?s1]) (use I(1) s0 in simp_all)
  from counts_finalize [OF this, of ?i ?s1 "?outs(?i \<mapsto> rs_ports r)"] st(1,4)
  have c4: "counts_ok g (deliveries g ?i (rs_ports r)) (?M(?i \<mapsto> ?s2)) (?outs(?i \<mapsto> rs_ports r))"
    by (auto simp: deliveries_def)
  have q4: "queue_ok g (xs_ready x) (?M(?i \<mapsto> ?s2)) (?outs(?i \<mapsto> rs_ports r))"
  proof (rule queue_upd [of g "n # xs_ready x"])
    show "queue_ok g (n # xs_ready x) ?M ?outs" using I(2) by simp
  qed (use st s0 q in \<open>auto simp: node_ok_def complete_def live_def\<close>)
  have m4: "marks_ok g (xe_sanitize env) (?M(?i \<mapsto> ?s2)) (?outs(?i \<mapsto> rs_ports r)) (Suc (xs_counter x)) (marks_of ?run (xs_db x3))"
  proof -
    have m1: "marks_ok g (xe_sanitize env) (?M(?i \<mapsto> ?s1)) ?outs (xs_counter x) (marks_of ?run (xs_db x))"
      by (rule marks_ok_upd_same [of g "xe_sanitize env" ?M ?outs _ _ ?i s0 ?s1]) (use I(4) s0 in simp_all)
    have "marks_ok g (xe_sanitize env) ((?M(?i \<mapsto> ?s1))(?i \<mapsto> ?s1\<lparr>ps_finalized := True\<rparr>)) (?outs(?i \<mapsto> rs_ports r))
        (Suc (xs_counter x)) (marks_of ?run (xs_db x3))"
    proof (rule marks_ok_finalize [OF m1])
      show "edges_known g" using ok by (simp add: graph_ok_def)
      show "dom (?M(?i \<mapsto> ?s1)) = gn_id ` set (lg_nodes g)" using q(1) s0 by auto
      show "fin (?M(?i \<mapsto> ?s1)) (ge_source e)" if "e \<in> set (lg_edges g)" "ge_target e = ?i" for e
      proof -
        have "fin ?M (ge_source e)"
          by (rule complete_sources_fin [of g "[]" ?M ?outs ?i s0]) (use I(1) s0 st that in simp_all)
        then show ?thesis using fin_same [of ?M ?i s0 ?s1] s0 by simp
      qed
    qed (use st(1) V in \<open>simp_all add: final_mark_def\<close>)
    then show ?thesis by simp
  qed
  have "run_inv g env (deliveries g ?i (rs_ports r)) ?x4"
    unfolding run_inv_def M4 O4 using c4 q4 m4 x3(2) by (simp add: f3 x1)
  moreover have "\<forall>t \<in> set (deliveries g ?i (rs_ports r)). fst t \<in> set (lg_edges g)"
    by (auto simp: deliveries_def outgoing_def)
  ultimately obtain y where "resolve_edges g env (deliveries g ?i (rs_ports r)) ?x4 = (y, Inr ())"
    "run_inv g env [] y" "xs_outputs y = xs_outputs ?x4" "xs_unsafe y = xs_unsafe ?x4"
    using resolve_edges_inv [OF _ ok] by blast
  moreover from this(1) have "succeed_node g env ?i ?s1 r x1 = (y, Inr None)"
    by (simp add: succeed_node_def Let_def x3(1))
  ultimately show ?thesis by (intro exI [of _ y]) (simp add: f3 x1)
qed

section \<open>A whole run\<close>

text \<open>The mark of a failed node, on top of what held when it was taken from the queue.\<close>

definition stopped_at :: "loaded_graph \<Rightarrow> exec_env \<Rightarrow> exec_state \<Rightarrow> graph_db \<Rightarrow> bool" where
  "stopped_at g env z d \<longleftrightarrow>
     (\<exists>n out. popped g env n z
        \<and> marks_of (xe_run env) d = (marks_of (xe_run env) (xs_db z))
            (gn_id n \<mapsto> (Node_Failed, Some (Suc (xs_counter z)), out)))"

lemma execute_node_result:
  assumes pop: "popped g env n x" and ok: "graph_ok g"
  shows "\<exists>y res. execute_node g env n x = (y, Inr res)
    \<and> (case res of None \<Rightarrow> run_inv g env [] y
       | Some oc \<Rightarrow> \<not> oc_succeeded oc \<and> stopped_at g env x (xs_db y))"
proof -
  let ?i = "gn_id n" and ?run = "xe_run env"
  from popped_state [OF pop] obtain s0 where s0: "map_of (xs_states x) ?i = Some s0" "\<not> ps_finalized s0"
    and n: "n \<in> set (lg_nodes g)" by blast
  have iin: "?i \<in> gn_id ` set (lg_nodes g)" using n by blast
  let ?s1 = "s0\<lparr>ps_enqueued := False\<rparr>"
  let ?input = "normalize_inputs (ps_inputs s0)"
  let ?x0 = "(put_state ?i ?s1 x)\<lparr>xs_counter := Suc (xs_counter x)\<rparr>"
  have "rows_ok g ?run (xs_db ?x0)" using run_invD(3) [OF pop [unfolded popped_def]] by simp
  from ledger_mark [OF this iin, of Node_Running "no_node_patch\<lparr>np_index := Some (Suc (xs_counter x)),
      np_input := Some (xe_sanitize env ?input), np_started_at := Some (xe_now env)\<rparr>"]
  obtain x1 r where x1: "ledger (mark_running env ?i (Suc (xs_counter x)) ?input) ?x0 = (x1, Inr ())"
    "rows_ok g ?run (xs_db x1)"
    and V1: "row_of ?run (xs_db x1) = (row_of ?run (xs_db x))(?i \<mapsto> patch_node_run Node_Running
      (no_node_patch\<lparr>np_index := Some (Suc (xs_counter x)),
        np_input := Some (xe_sanitize env ?input), np_started_at := Some (xe_now env)\<rparr>) r)"
    by (auto simp: mark_running_def)
  note f1 = ledger_frame [OF x1(1)]
  let ?r1 = "patch_node_run Node_Running (no_node_patch\<lparr>np_index := Some (Suc (xs_counter x)),
        np_input := Some (xe_sanitize env ?input), np_started_at := Some (xe_now env)\<rparr>) r"
  have r1: "nr_index ?r1 = Some (Suc (xs_counter x))" by (simp add: patch_node_run_def or_else_def)
  have exec: "execute_node g env n x = (case node_verdict g env n ?input of
      Fails f \<Rightarrow> fail_node env ?i f x1 | Succeeds r \<Rightarrow> succeed_node g env ?i ?s1 r x1)"
    using s0 x1(1) by (simp add: execute_node_def Let_def)
  show ?thesis
  proof (cases "node_verdict g env n ?input")
    case (Succeeds r')
    have "\<exists>y. succeed_node g env ?i ?s1 r' x1 = (y, Inr None) \<and> run_inv g env [] y
      \<and> xs_outputs y = AList.update ?i (rs_ports r') (xs_outputs x)
      \<and> xs_unsafe y = (xs_unsafe x1 \<or> rs_unsafe r')"
      by (rule succeed_node_inv [OF pop ok s0(1)]) (use f1 x1(2) V1 r1 in simp_all)
    with exec Succeeds show ?thesis by auto
  next
    case (Fails f)
    from ledger_mark [OF x1(2) iin, of Node_Failed "child_columns (fl_metadata f) (no_node_patch
        \<lparr>np_effects := effects_json env (fl_effects f), np_error_code := Some (fl_code f),
          np_reason := Some (xe_sanitize_reason env (fl_reason f)), np_completed_at := Some (xe_now env)\<rparr>)"]
    obtain y r2 where y: "ledger (mark_failed env ?i (fl_reason f) (fl_code f) (fl_metadata f) (fl_effects f)) x1
        = (y, Inr ())"
      and r2: "row_of ?run (xs_db x1) ?i = Some r2"
      and V2: "row_of ?run (xs_db y) = (row_of ?run (xs_db x1))(?i \<mapsto> patch_node_run Node_Failed
        (child_columns (fl_metadata f) (no_node_patch\<lparr>np_effects := effects_json env (fl_effects f),
          np_error_code := Some (fl_code f), np_reason := Some (xe_sanitize_reason env (fl_reason f)),
          np_completed_at := Some (xe_now env)\<rparr>)) r2)"
      by (auto simp: mark_failed_def)
    have "r2 = ?r1" using r2 V1 by simp
    then have "nr_index r2 = Some (Suc (xs_counter x))" using r1 by blast
    then have "marks_of ?run (xs_db y) = (marks_of ?run (xs_db x))
        (?i \<mapsto> (Node_Failed, Some (Suc (xs_counter x)), nr_output r2))"
      using V1 V2
      by (intro ext) (simp add: marks_of_def patch_node_run_def child_columns_def no_node_patch_def or_else_def)
    with pop have "stopped_at g env x (xs_db y)" unfolding stopped_at_def by blast
    with exec Fails y show ?thesis by (simp add: fail_node_def failed_outcome_def)
  qed
qed

lemma run_inv_popped:
  assumes "run_inv g env [] x" and "xs_ready x = n # rest"
  shows "popped g env n (x\<lparr>xs_ready := rest\<rparr>)"
proof -
  have "x\<lparr>xs_ready := rest, xs_ready := n # rest\<rparr> = x" using assms(2) by simp
  with assms(1) show ?thesis by (simp add: popped_def)
qed

lemma execute_loop_result:
  assumes "run_inv g env [] x" and "graph_ok g"
  shows "\<exists>y oc. execute_loop g env x = (y, Inr oc)
    \<and> (if oc_succeeded oc
       then run_inv g env [] y \<and> xs_ready y = [] \<and> oc_output oc = final_output g (xs_outputs y)
       else \<exists>z. stopped_at g env z (xs_db y))"
  using assms
proof (induction g env x rule: execute_loop.induct)
  case (1 g env x)
  show ?case
  proof (cases "xs_ready x")
    case Nil
    with "1.prems" show ?thesis by (subst execute_loop.simps) simp
  next
    case (Cons n rest)
    from execute_node_result [OF run_inv_popped [OF "1.prems"(1) Cons] "1.prems"(2)] obtain y res where
      y: "execute_node g env n (x\<lparr>xs_ready := rest\<rparr>) = (y, Inr res)"
      "case res of None \<Rightarrow> run_inv g env [] y
       | Some oc \<Rightarrow> \<not> oc_succeeded oc \<and> stopped_at g env (x\<lparr>xs_ready := rest\<rparr>) (xs_db y)" by blast
    show ?thesis
    proof (cases res)
      case None
      with y have inv: "run_inv g env [] y" by simp
      have "execute_loop g env x = execute_loop g env y"
        using Cons y(1) None by (subst execute_loop.simps) simp
      with "1.IH" [OF Cons y(1) None inv "1.prems"(2)] show ?thesis by simp
    next
      case (Some oc)
      have "execute_loop g env x = (y, Inr oc)"
        using Cons y(1) Some by (subst execute_loop.simps) simp
      with y(2) Some show ?thesis by auto
    qed
  qed
qed

text \<open>The first state: everything pending, the nodes without predecessors in the queue.\<close>

definition fresh_rows :: "loaded_graph \<Rightarrow> nat \<Rightarrow> graph_db \<Rightarrow> bool" where
  "fresh_rows g run d \<longleftrightarrow>
     rows_ok g run d \<and> (\<forall>r \<in> set (gd_node_runs d). nr_run r = run \<longrightarrow>
        nr_status r = Node_Pending \<and> nr_index r = None \<and> nr_output r = None \<and> nr_effects r = None)"

lemma initial_states:
  assumes "distinct (map gn_id (lg_nodes g))"
  shows "map_of (xs_states (start_execution g d)) = map_of (map (\<lambda>n. (gn_id n, initial_state g n)) (lg_nodes g))"
proof -
  have "map_of (foldl (\<lambda>acc n. AList.update (gn_id n) (initial_state g n) acc) acc ns)
      = map_of acc ++ map_of (map (\<lambda>n. (gn_id n, initial_state g n)) ns)"
    if "distinct (map gn_id ns)" for acc ns
    using that
  proof (induction ns arbitrary: acc)
    case (Cons n ns)
    then have "map_of (map (\<lambda>n. (gn_id n, initial_state g n)) ns) (gn_id n) = None"
      by (force simp: map_of_eq_None_iff)
    with Cons show ?case
      by (simp add: AList.update_conv' map_add_upd_left fun_eq_iff map_add_def split: option.splits)
  qed simp
  from this [OF assms, of "[]"] show ?thesis by (simp add: start_execution_def)
qed

lemma initial_lookup:
  assumes "distinct (map gn_id (lg_nodes g))"
    and "map_of (xs_states (start_execution g d)) i = Some s"
  shows "\<exists>n \<in> set (lg_nodes g). gn_id n = i \<and> s = initial_state g n"
  using assms by (auto simp: initial_states dest!: map_of_SomeD)

lemma start_inv:
  assumes ok: "graph_ok g" and fresh: "fresh_rows g (xe_run env) d"
  shows "run_inv g env [] (start_execution g d)"
proof -
  let ?x = "start_execution g d"
  let ?M = "map_of (xs_states ?x)"
  have ids: "distinct (map gn_id (lg_nodes g))" using ok by (simp add: graph_ok_def)
  note look = initial_lookup [OF ids, of d]
  have nofin: "\<not> fin ?M i" for i
  proof
    assume "fin ?M i"
    then obtain s where s: "?M i = Some s" "ps_finalized s" by (auto simp: fin_def)
    from look [OF s(1)] s(2) show False by (auto simp: initial_state_def Let_def)
  qed
  have dom: "dom ?M = gn_id ` set (lg_nodes g)"
    by (simp add: initial_states [OF ids] dom_map_of_conv_image_fst image_image)
  have outs: "map_of (xs_outputs ?x) = Map.empty" and cn: "xs_counter ?x = 0" and db: "xs_db ?x = d"
    and rd: "xs_ready ?x = entry_nodes g"
    by (simp_all add: start_execution_def)
  have entry: "n \<in> set (entry_nodes g) \<longleftrightarrow> n \<in> set (lg_nodes g) \<and> cnt (\<lambda>e. ge_target e = gn_id n) (lg_edges g) = 0" for n
    by (auto simp: entry_nodes_def incoming_def cnt_def)
  have total: "ps_total (initial_state g n) = cnt (\<lambda>e. ge_target e = gn_id n) (lg_edges g)" for n
    by (simp add: initial_state_def Let_def incoming_def cnt_def)
  have "counts_ok g [] ?M Map.empty"
    unfolding counts_ok_def
  proof (intro allI impI)
    fix i s assume "?M i = Some s"
    from look [OF this] obtain n where n: "gn_id n = i" "s = initial_state g n" by blast
    have "ps_resolved s = 0" "ps_delivered s = 0" using n(2) by (simp_all add: initial_state_def Let_def)
    with total [of n] n show "ps_total s = cnt (\<lambda>e. ge_target e = i) (lg_edges g)
        \<and> ps_resolved s + cnt (\<lambda>t. ge_target (fst t) = i) []
            = cnt (\<lambda>e. ge_target e = i \<and> fin ?M (ge_source e)) (lg_edges g)
        \<and> ps_delivered s + cnt (\<lambda>t. ge_target (fst t) = i \<and> snd t \<noteq> None) []
            = cnt (\<lambda>e. ge_target e = i \<and> delivers Map.empty e) (lg_edges g)"
      by (simp add: nofin delivers_def cnt_0_iff)
  qed
  moreover have "queue_ok g (entry_nodes g) ?M Map.empty"
  proof -
    have "node_ok (gn_id ` set (entry_nodes g)) Map.empty i s" if "?M i = Some s" for i s
    proof -
      from look [OF that] obtain n where n: "n \<in> set (lg_nodes g)" "gn_id n = i" "s = initial_state g n" by blast
      have "i \<in> gn_id ` set (entry_nodes g) \<longleftrightarrow> ps_total s = 0"
        using n entry total by auto
      moreover have "ps_resolved s = 0" "ps_delivered s = 0" "\<not> ps_finalized s" "ps_enqueued s = (ps_total s = 0)"
        using n(3) by (simp_all add: initial_state_def Let_def)
      ultimately show ?thesis by (auto simp: node_ok_def complete_def live_def)
    qed
    moreover have "distinct (map gn_id (entry_nodes g))"
      using ids unfolding entry_nodes_def by (rule distinct_map_filter)
    ultimately show ?thesis using dom entry unfolding queue_ok_def by auto
  qed
  moreover have "marks_ok g (xe_sanitize env) ?M Map.empty 0 (marks_of (xe_run env) d)"
  proof -
    have "marks_of (xe_run env) d i = Some (Node_Pending, None, None)" if i: "i \<in> gn_id ` set (lg_nodes g)" for i
    proof -
      from i fresh have "length (filter (of_node_run (xe_run env) i) (gd_node_runs d)) = 1"
        by (auto simp: fresh_rows_def rows_ok_def)
      then obtain r where r: "filter (of_node_run (xe_run env) i) (gd_node_runs d) = [r]"
        by (auto simp: length_Suc_conv)
      then have "r \<in> set (filter (of_node_run (xe_run env) i) (gd_node_runs d))" by simp
      with fresh have "nr_status r = Node_Pending \<and> nr_index r = None \<and> nr_output r = None"
        by (auto simp: fresh_rows_def of_node_run_def)
      with find_filter_single [OF r] show ?thesis by (simp add: marks_of_def row_of_def)
    qed
    with nofin show ?thesis unfolding marks_ok_def by auto
  qed
  ultimately show ?thesis
    using fresh unfolding run_inv_def outs cn db rd by (simp add: fresh_rows_def)
qed

section \<open>What a run leaves in the ledger\<close>

definition graph_rel :: "loaded_graph \<Rightarrow> (nat \<times> nat) set" where
  "graph_rel g = (\<lambda>e. (ge_source e, ge_target e)) ` set (lg_edges g)"

lemma finite_graph_rel [simp]: "finite (graph_rel g)"
  by (simp add: graph_rel_def)

lemma incoming_Nil_iff: "incoming g i = [] \<longleftrightarrow> cnt (\<lambda>e. ge_target e = i) (lg_edges g) = 0"
  by (simp add: incoming_def cnt_def)

text \<open>With an empty queue every node that is not final waits for one that is not.\<close>

lemma all_final:
  assumes inv: "run_inv g env [] x" and ok: "graph_ok g" and ac: "acyclic (graph_rel g)"
    and empty: "xs_ready x = []"
  shows "\<forall>i \<in> gn_id ` set (lg_nodes g). fin (map_of (xs_states x)) i"
proof -
  let ?M = "map_of (xs_states x)"
  note I = run_invD [OF inv] and q = queue_okD [OF run_invD(2) [OF inv]]
  let ?U = "{i \<in> gn_id ` set (lg_nodes g). \<not> fin ?M i}"
  have "?U = {}"
  proof (rule acyclic_no_predecessors [OF finite_graph_rel ac])
    fix u assume u: "u \<in> ?U"
    then have "u \<in> dom ?M" using q(1) by simp
    then obtain s where s: "?M u = Some s" by blast
    have "\<not> ps_finalized s" using u s by (simp add: fin_def)
    with q(4) [OF s] empty have nc: "\<not> complete s" by (auto simp: node_ok_def)
    have "cnt (\<lambda>e. ge_target e = u \<and> fin ?M (ge_source e)) (lg_edges g) \<noteq> cnt (\<lambda>e. ge_target e = u) (lg_edges g)"
      using counts_okD(1,2) [OF I(1) s] nc by (simp add: complete_def)
    then obtain e where "e \<in> set (lg_edges g)" "ge_target e = u" "\<not> fin ?M (ge_source e)"
      by (auto simp: cnt_eq_all)
    with ok show "\<exists>w \<in> ?U. (w, u) \<in> graph_rel g"
      by (intro bexI [of _ "ge_source e"]) (auto simp: graph_ok_def edges_known_def graph_rel_def)
  qed
  then show ?thesis by blast
qed

lemma fin_downward:
  assumes inv: "run_inv g env [] x" and m: "(i, j) \<in> (graph_rel g)\<^sup>+" and "fin (map_of (xs_states x)) j"
  shows "fin (map_of (xs_states x)) i"
proof -
  note I = run_invD [OF inv] and q = queue_okD [OF run_invD(2) [OF inv]]
  have edge: "fin (map_of (xs_states x)) a" if "(a, b) \<in> graph_rel g" "fin (map_of (xs_states x)) b" for a b
  proof -
    from that(1) obtain e where e: "e \<in> set (lg_edges g)" "ge_source e = a" "ge_target e = b"
      by (auto simp: graph_rel_def)
    from that(2) obtain s where s: "map_of (xs_states x) b = Some s" "ps_finalized s" by (auto simp: fin_def)
    then have "complete s" using q(4) [OF s(1)] by (simp add: node_ok_def)
    from complete_sources_fin [OF I(1) s(1) this e(1,3)] e(2) show ?thesis by simp
  qed
  from m show ?thesis
  proof (induction rule: converse_trancl_induct)
    case (base a)
    then show ?case using edge assms(3) by blast
  next
    case (step a b)
    then show ?case using edge by blast
  qed
qed

lemma popped_inv:
  assumes "popped g env n z"
  shows "run_inv g env [] (z\<lparr>xs_ready := n # xs_ready z\<rparr>)"
  using assms by (simp add: popped_def)

lemma entry_exists:
  assumes ok: "graph_ok g" and ac: "acyclic (graph_rel g)" and "lg_nodes g \<noteq> []"
  shows "entry_nodes g \<noteq> []"
proof
  assume none: "entry_nodes g = []"
  have "gn_id ` set (lg_nodes g) = {}"
  proof (rule acyclic_no_predecessors [OF finite_graph_rel ac])
    fix u assume "u \<in> gn_id ` set (lg_nodes g)"
    then obtain n where "n \<in> set (lg_nodes g)" "gn_id n = u" by blast
    with none have "incoming g u \<noteq> []" by (auto simp: entry_nodes_def filter_empty_conv)
    then obtain e where "e \<in> set (lg_edges g)" "ge_target e = u" by (auto simp: incoming_def filter_empty_conv)
    with ok show "\<exists>w \<in> gn_id ` set (lg_nodes g). (w, u) \<in> graph_rel g"
      by (intro bexI [of _ "ge_source e"]) (auto simp: graph_ok_def edges_known_def graph_rel_def)
  qed
  with assms(3) show False by simp
qed

text \<open>The end of a run: either everything is final, or one node failed.\<close>

lemma execute_graph_result:
  assumes ok: "graph_ok g" and ac: "acyclic (graph_rel g)" and fresh: "fresh_rows g (xe_run env) d"
    and ne: "lg_nodes g \<noteq> []"
  shows "\<exists>d' oc. execute_graph g env d = (d', Inr oc)
    \<and> (if oc_succeeded oc
       then \<exists>y. run_inv g env [] y \<and> xs_ready y = [] \<and> xs_db y = d'
         \<and> oc_output oc = final_output g (xs_outputs y)
         \<and> (\<forall>i \<in> gn_id ` set (lg_nodes g). fin (map_of (xs_states y)) i)
       else \<exists>z. stopped_at g env z d')"
proof -
  from execute_loop_result [OF start_inv [OF ok fresh] ok] obtain y oc where
    y: "execute_loop g env (start_execution g d) = (y, Inr oc)"
    "if oc_succeeded oc then run_inv g env [] y \<and> xs_ready y = [] \<and> oc_output oc = final_output g (xs_outputs y)
     else \<exists>z. stopped_at g env z (xs_db y)" by blast
  have "execute_graph g env d = (xs_db y, Inr oc)"
    using ok entry_exists [OF ok ac ne] y(1) by (simp add: execute_graph_def graph_ok_def)
  with y(2) all_final [OF _ ok ac, of env y] show ?thesis
    by (cases "oc_succeeded oc") auto
qed

text \<open>What marks_ok says of single rows.\<close>

lemma final_row:
  assumes "run_inv g env [] y" and "i \<in> gn_id ` set (lg_nodes g)" and "fin (map_of (xs_states y)) i"
  shows "\<exists>r k. row_of (xe_run env) (xs_db y) i = Some r \<and> nr_index r = Some k
    \<and> (case map_of (xs_outputs y) i of
         None \<Rightarrow> nr_status r = Node_Skipped \<and> nr_output r = None
       | Some ports \<Rightarrow> nr_status r = Node_Succeeded \<and> nr_output r = Some (xe_sanitize env ports))"
proof -
  from run_invD(4) [OF assms(1)] assms(2,3) obtain k where
    "marks_of (xe_run env) (xs_db y) i = Some (final_mark (xe_sanitize env) (map_of (xs_outputs y) i) k)"
    unfolding marks_ok_def by (metis (no_types, lifting))
  then show ?thesis by (auto simp: marks_of_def final_mark_def split: option.splits)
qed

lemma idx_marks_of: "idx (marks_of run d) i = (case row_of run d i of None \<Rightarrow> None | Some r \<Rightarrow> nr_index r)"
  by (simp add: idx_def marks_of_def split: option.splits)

lemma delivered_row_iff:
  assumes "run_inv g env [] y" and "graph_ok g" and "e \<in> set (lg_edges g)"
    and "\<forall>i \<in> gn_id ` set (lg_nodes g). fin (map_of (xs_states y)) i"
    and keys: "\<And>m. map fst (xe_sanitize env m) = map fst m"
  shows "delivers (map_of (xs_outputs y)) e \<longleftrightarrow>
    (\<exists>r ports. row_of (xe_run env) (xs_db y) (ge_source e) = Some r \<and> nr_output r = Some ports
       \<and> ge_source_port e \<in> fst ` set ports)"
proof -
  have "ge_source e \<in> gn_id ` set (lg_nodes g)" using assms(2,3) by (auto simp: graph_ok_def edges_known_def)
  with final_row [OF assms(1) this] assms(4) obtain r where
    r: "row_of (xe_run env) (xs_db y) (ge_source e) = Some r"
    "case map_of (xs_outputs y) (ge_source e) of None \<Rightarrow> nr_output r = None
       | Some ports \<Rightarrow> nr_output r = Some (xe_sanitize env ports)" by (auto split: option.splits)
  have "fst ` set (xe_sanitize env m) = fst ` set m" for m
    using arg_cong [OF keys, of set] by simp
  note keys' = this
  show ?thesis
  proof (cases "map_of (xs_outputs y) (ge_source e)")
    case None
    with r show ?thesis by (simp add: delivers_def)
  next
    case (Some ports)
    have "delivers (map_of (xs_outputs y)) e \<longleftrightarrow> map_of ports (ge_source_port e) \<noteq> None"
      unfolding delivers_def Some by blast
    also have "\<dots> \<longleftrightarrow> ge_source_port e \<in> fst ` set ports" by (metis map_of_eq_None_iff)
    finally show ?thesis using r Some keys' by simp
  qed
qed

text \<open>C12 When a run of an acyclic graph succeeds, every node has ended: it ran and stored an output if it
  has no predecessor or some predecessor produced the port of an edge to it, and was skipped
  otherwise; the execution indices are distinct and every node comes after its predecessors.\<close>

theorem successful_run_settles:
  assumes ok: "graph_ok g" and ac: "acyclic (graph_rel g)" and fresh: "fresh_rows g (xe_run env) d"
    and ne: "lg_nodes g \<noteq> []" and keys: "\<And>m. map fst (xe_sanitize env m) = map fst m"
    and run: "execute_graph g env d = (d', res)" and succ: "\<And>oc. res = Inr oc \<Longrightarrow> oc_succeeded oc"
  shows "(\<forall>n \<in> set (lg_nodes g). \<exists>r. row_of (xe_run env) d' (gn_id n) = Some r \<and>
      (if incoming g (gn_id n) = []
          \<or> (\<exists>e \<in> set (incoming g (gn_id n)). \<exists>q ports. row_of (xe_run env) d' (ge_source e) = Some q
               \<and> nr_output q = Some ports \<and> ge_source_port e \<in> fst ` set ports)
       then nr_status r = Node_Succeeded \<and> nr_output r \<noteq> None
       else nr_status r = Node_Skipped \<and> nr_output r = None))
    \<and> (\<forall>e \<in> set (lg_edges g). \<exists>p q k l. row_of (xe_run env) d' (ge_source e) = Some p
         \<and> row_of (xe_run env) d' (ge_target e) = Some q
         \<and> nr_index p = Some k \<and> nr_index q = Some l \<and> k < l)
    \<and> (\<forall>n \<in> set (lg_nodes g). \<forall>m \<in> set (lg_nodes g). \<forall>p q k. row_of (xe_run env) d' (gn_id n) = Some p
         \<longrightarrow> row_of (xe_run env) d' (gn_id m) = Some q
         \<longrightarrow> nr_index p = Some k \<longrightarrow> nr_index q = Some k \<longrightarrow> gn_id n = gn_id m)"
proof -
  from execute_graph_result [OF ok ac fresh ne] run succ obtain y where
    inv: "run_inv g env [] y" and db: "xs_db y = d'"
    and fin: "\<forall>i \<in> gn_id ` set (lg_nodes g). fin (map_of (xs_states y)) i"
    by auto
  note I = run_invD [OF inv] and q = queue_okD [OF run_invD(2) [OF inv]]
  let ?M = "map_of (xs_states y)" and ?outs = "map_of (xs_outputs y)"
  have ran: "\<exists>r. row_of (xe_run env) d' (gn_id n) = Some r \<and>
      (if incoming g (gn_id n) = []
          \<or> (\<exists>e \<in> set (incoming g (gn_id n)). \<exists>q ports. row_of (xe_run env) d' (ge_source e) = Some q
               \<and> nr_output q = Some ports \<and> ge_source_port e \<in> fst ` set ports)
       then nr_status r = Node_Succeeded \<and> nr_output r \<noteq> None
       else nr_status r = Node_Skipped \<and> nr_output r = None)" if n: "n \<in> set (lg_nodes g)" for n
  proof -
    let ?i = "gn_id n"
    have iin: "?i \<in> gn_id ` set (lg_nodes g)" using n by blast
    with fin obtain s where s: "?M ?i = Some s" "ps_finalized s" by (auto simp: fin_def)
    have live: "?outs ?i \<noteq> None \<longleftrightarrow> live s" using q(4) [OF s(1)] s(2) by (simp add: node_ok_def)
    have "0 < ps_delivered s \<longleftrightarrow> (\<exists>e \<in> set (incoming g ?i). delivers ?outs e)"
      using counts_okD(3) [OF I(1) s(1)] by (auto simp: cnt_pos_iff incoming_def)
    moreover have "ps_total s = 0 \<longleftrightarrow> incoming g ?i = []"
      using counts_okD(1) [OF I(1) s(1)] by (simp add: incoming_Nil_iff)
    moreover have "delivers ?outs e \<longleftrightarrow> (\<exists>q ports. row_of (xe_run env) d' (ge_source e) = Some q
               \<and> nr_output q = Some ports \<and> ge_source_port e \<in> fst ` set ports)"
      if "e \<in> set (incoming g ?i)" for e
      using delivered_row_iff [OF inv ok _ fin keys, of e] that by (simp add: db incoming_def)
    ultimately have "?outs ?i \<noteq> None \<longleftrightarrow> incoming g ?i = []
          \<or> (\<exists>e \<in> set (incoming g ?i). \<exists>q ports. row_of (xe_run env) d' (ge_source e) = Some q
               \<and> nr_output q = Some ports \<and> ge_source_port e \<in> fst ` set ports)"
      using live by (auto simp: live_def)
    with final_row [OF inv iin] fin iin show ?thesis
      by (cases "?outs ?i") (simp_all add: db, blast+)
  qed
  have order: "\<exists>p q k l. row_of (xe_run env) d' (ge_source e) = Some p
         \<and> row_of (xe_run env) d' (ge_target e) = Some q
         \<and> nr_index p = Some k \<and> nr_index q = Some l \<and> k < l" if "e \<in> set (lg_edges g)" for e
  proof -
    have "fin ?M (ge_target e)" using fin that ok by (auto simp: graph_ok_def edges_known_def)
    with I(4) that obtain k l where "idx (marks_of (xe_run env) d') (ge_source e) = Some k"
      "idx (marks_of (xe_run env) d') (ge_target e) = Some l" "k < l"
      unfolding marks_ok_def db by blast
    then show ?thesis by (auto simp: idx_marks_of split: option.splits)
  qed
  have inj: "gn_id n = gn_id m" if "n \<in> set (lg_nodes g)" "m \<in> set (lg_nodes g)"
    "row_of (xe_run env) d' (gn_id n) = Some p" "row_of (xe_run env) d' (gn_id m) = Some q"
    "nr_index p = Some k" "nr_index q = Some k" for n m p q k
  proof -
    have "fin ?M (gn_id n)" "fin ?M (gn_id m)" using fin that(1,2) by blast+
    moreover have "idx (marks_of (xe_run env) d') (gn_id n) = Some k"
      "idx (marks_of (xe_run env) d') (gn_id m) = Some k" using that(3-6) by (simp_all add: idx_marks_of)
    ultimately show ?thesis using I(4) unfolding marks_ok_def db by blast
  qed
  show ?thesis using ran order inj by blast
qed

text \<open>When a run fails, exactly one node is marked failed; everything that can be reached from it is
  still pending without an execution index, and every other node is pending, skipped or succeeded.\<close>

theorem failed_run_stops:
  assumes ok: "graph_ok g" and ac: "acyclic (graph_rel g)" and fresh: "fresh_rows g (xe_run env) d"
    and ne: "lg_nodes g \<noteq> []"
    and run: "execute_graph g env d = (d', Inr oc)" and "\<not> oc_succeeded oc"
  shows "\<exists>n \<in> set (lg_nodes g).
      (\<exists>r. row_of (xe_run env) d' (gn_id n) = Some r \<and> nr_status r = Node_Failed)
    \<and> (\<forall>m \<in> set (lg_nodes g). gn_id m \<noteq> gn_id n \<longrightarrow>
         (\<exists>r. row_of (xe_run env) d' (gn_id m) = Some r
            \<and> nr_status r \<in> {Node_Pending, Node_Skipped, Node_Succeeded}
            \<and> ((gn_id n, gn_id m) \<in> (graph_rel g)\<^sup>+ \<longrightarrow> nr_status r = Node_Pending \<and> nr_index r = None)))"
proof -
  from execute_graph_result [OF ok ac fresh ne] run assms(6) obtain z where "stopped_at g env z d'" by auto
  then obtain n out where pop: "popped g env n z"
    and V: "marks_of (xe_run env) d' = (marks_of (xe_run env) (xs_db z))
            (gn_id n \<mapsto> (Node_Failed, Some (Suc (xs_counter z)), out))"
    unfolding stopped_at_def by blast
  let ?M = "map_of (xs_states z)" and ?outs = "map_of (xs_outputs z)"
  note inv = popped_inv [OF pop]
  have mk: "marks_ok g (xe_sanitize env) ?M ?outs (xs_counter z) (marks_of (xe_run env) (xs_db z))"
    using run_invD(4) [OF inv] by simp
  from popped_state [OF pop] have n: "n \<in> set (lg_nodes g)" and nfin: "\<not> fin ?M (gn_id n)" by (auto simp: fin_def)
  have "\<exists>r. row_of (xe_run env) d' (gn_id n) = Some r \<and> nr_status r = Node_Failed"
    using fun_cong [OF V, of "gn_id n"] by (auto simp: marks_of_def)
  moreover have "\<exists>r. row_of (xe_run env) d' (gn_id m) = Some r
            \<and> nr_status r \<in> {Node_Pending, Node_Skipped, Node_Succeeded}
            \<and> ((gn_id n, gn_id m) \<in> (graph_rel g)\<^sup>+ \<longrightarrow> nr_status r = Node_Pending \<and> nr_index r = None)"
    if m: "m \<in> set (lg_nodes g)" "gn_id m \<noteq> gn_id n" for m
  proof -
    have Vm: "marks_of (xe_run env) d' (gn_id m) = marks_of (xe_run env) (xs_db z) (gn_id m)"
      using V m(2) by simp
    have min: "gn_id m \<in> gn_id ` set (lg_nodes g)" using m(1) by blast
    show ?thesis
    proof (cases "fin ?M (gn_id m)")
      case True
      with mk min obtain k where "marks_of (xe_run env) d' (gn_id m)
          = Some (final_mark (xe_sanitize env) (?outs (gn_id m)) k)"
        unfolding marks_ok_def Vm by (metis (no_types, lifting))
      moreover have "(gn_id n, gn_id m) \<notin> (graph_rel g)\<^sup>+"
        using fin_downward [OF inv, of "gn_id n" "gn_id m"] True nfin by auto
      ultimately show ?thesis by (auto simp: marks_of_def final_mark_def split: option.splits)
    next
      case False
      with mk min have "marks_of (xe_run env) d' (gn_id m) = Some (Node_Pending, None, None)"
        unfolding marks_ok_def Vm by (metis (no_types, lifting))
      then show ?thesis by (auto simp: marks_of_def)
    qed
  qed
  ultimately show ?thesis using n by blast
qed

section \<open>Unsafe effects\<close>

text \<open>
  An adapter is honest when a committed unsafe effect in its result comes with the unsafe flag,
  as the two constructors of results guarantee.
\<close>

definition honest :: "registry \<Rightarrow> bool" where
  "honest reg \<longleftrightarrow>
     (\<forall>p adapter iv r. reg p = Some adapter \<longrightarrow> adapter iv = Inr r \<longrightarrow>
        has_unsafe_effects (rs_effects r) \<longrightarrow> rs_unsafe r)"

lemma constructors_honest:
  "has_unsafe_effects (rs_effects (result_success ports sel md fx u)) \<Longrightarrow> rs_unsafe (result_success ports sel md fx u)"
  "has_unsafe_effects (rs_effects (result_failure code reason md fx u)) \<Longrightarrow> rs_unsafe (result_failure code reason md fx u)"
  by (simp_all add: result_success_def result_failure_def)

lemma default_registry_honest:
  assumes "\<And>p iv r. p \<in> set external_pairs \<Longrightarrow> others p iv = Inr r \<Longrightarrow>
    has_unsafe_effects (rs_effects r) \<Longrightarrow> rs_unsafe r"
  shows "honest (default_registry others)"
  unfolding honest_def
proof (intro allI impI)
  fix p adapter iv r
  assume reg: "default_registry others p = Some adapter" and r: "adapter iv = Inr r"
    and fx: "has_unsafe_effects (rs_effects r)"
  then consider "adapter = trigger_input" | "adapter = passthrough" | "adapter = switch_value"
    | "adapter = error_raise" | "p \<in> set external_pairs" "adapter = others p"
    by (auto simp: default_registry_def split: if_splits)
  then show "rs_unsafe r"
  proof cases
    case 5
    with assms r fx show ?thesis by blast
  qed (use r fx in \<open>auto simp: trigger_input_def passthrough_def switch_value_def error_raise_def Let_def
        result_success_def result_failure_def has_unsafe_effects_def\<close>)
qed

definition effects_covered :: "nat \<Rightarrow> bool \<Rightarrow> graph_db \<Rightarrow> bool" where
  "effects_covered run unsafe d \<longleftrightarrow>
     (\<forall>r \<in> set (gd_node_runs d). nr_run r = run \<longrightarrow>
        (\<forall>fx. nr_effects r = Some fx \<longrightarrow> has_unsafe_effects fx \<longrightarrow> unsafe))"

lemma effects_covered_mono: "effects_covered run u d \<Longrightarrow> (u \<Longrightarrow> u') \<Longrightarrow> effects_covered run u' d"
  by (auto simp: effects_covered_def)

lemma effects_covered_update:
  assumes cov: "effects_covered run unsafe d" and upd: "update_node_run run' i st u d = Inr d'"
    and fx: "\<And>fx. np_effects u = Some fx \<Longrightarrow> has_unsafe_effects fx \<Longrightarrow> unsafe"
  shows "effects_covered run unsafe d'"
proof -
  from upd have "d' = d \<or> d' = d\<lparr>gd_node_runs :=
      update_where (of_node_run run' i) (patch_node_run st u) (gd_node_runs d)\<rparr>"
    by (auto simp: update_node_run_def bindE_eq_Inr_iff split: option.splits)
  moreover have "effects_covered run unsafe (d\<lparr>gd_node_runs :=
      update_where (of_node_run run' i) (patch_node_run st u) (gd_node_runs d)\<rparr>)"
    unfolding effects_covered_def
  proof (intro ballI impI allI)
    fix r fx assume r: "r \<in> set (gd_node_runs (d\<lparr>gd_node_runs :=
        update_where (of_node_run run' i) (patch_node_run st u) (gd_node_runs d)\<rparr>))"
      "nr_run r = run" "nr_effects r = Some fx" "has_unsafe_effects fx"
    from r(1) obtain r0 where r0: "r0 \<in> set (gd_node_runs d)" "r = r0 \<or> r = patch_node_run st u r0"
      by (auto simp: set_update_where)
    from r0(2) have "nr_run r0 = run \<and> (nr_effects r0 = Some fx \<or> np_effects u = Some fx)"
    proof
      assume "r = patch_node_run st u r0"
      then have "nr_run r = nr_run r0" "nr_effects r = or_else (np_effects u) (nr_effects r0)"
        by (simp_all add: patch_node_run_def)
      with r(2,3) show ?thesis by (cases "np_effects u") (simp_all add: or_else_def)
    qed (use r(2,3) in simp)
    with cov r0(1) r(4) fx show unsafe unfolding effects_covered_def by blast
  qed
  ultimately show ?thesis using cov by blast
qed

lemma ledger_covered:
  assumes "effects_covered run unsafe (xs_db x)" and "ledger (update_node_run run' i st u) x = (y, res)"
    and "\<And>fx. np_effects u = Some fx \<Longrightarrow> has_unsafe_effects fx \<Longrightarrow> unsafe"
  shows "effects_covered run unsafe (xs_db y)"
proof (cases "update_node_run run' i st u (xs_db x)")
  case (Inl e)
  with assms(1,2) show ?thesis by (auto simp: ledger_def)
next
  case (Inr d)
  with effects_covered_update [OF assms(1) this] assms(2,3) show ?thesis by (auto simp: ledger_def)
qed

lemma unsafe_after_sanitize [simp]:
  "has_unsafe_effects (map (\<lambda>f. f\<lparr>fx_metadata := san (fx_metadata f)\<rparr>) fx) = has_unsafe_effects fx"
  by (simp add: has_unsafe_effects_def list_ex_iff)

lemma effects_json_unsafe: "effects_json env fx = Some fx' \<Longrightarrow> has_unsafe_effects fx' = has_unsafe_effects fx"
  by (auto simp: effects_json_def split: if_splits)

lemma resolve_one_covered:
  assumes "effects_covered run unsafe (xs_db x)" and "resolve_one g env t x = (y, res)"
  shows "effects_covered run unsafe (xs_db y) \<and> xs_unsafe y = xs_unsafe x"
proof -
  have skip: "effects_covered run unsafe (xs_db y) \<and> xs_unsafe y = xs_unsafe z"
    if cov: "effects_covered run unsafe (xs_db z)" and eq: "skip_node g env i s z = (y, res)" for i s z
  proof (cases "ps_finalized s")
    case True
    with that show ?thesis by (simp add: skip_node_def)
  next
    case False
    let ?z = "(put_state i (s\<lparr>ps_finalized := True\<rparr>) z)\<lparr>xs_counter := Suc (xs_counter z)\<rparr>"
    obtain w r where w: "ledger (mark_skipped env i (Suc (xs_counter z))) ?z = (w, r)" by fastforce
    have "effects_covered run unsafe (xs_db w)"
      by (rule ledger_covered [OF _ w [unfolded mark_skipped_def]]) (use cov in \<open>simp_all add: no_node_patch_def\<close>)
    moreover have "y = w" using eq False w by (cases r) (auto simp: skip_node_def Let_def)
    ultimately show ?thesis using ledger_frame(4) [OF w] by simp
  qed
  have enq: "effects_covered run unsafe (xs_db y) \<and> xs_unsafe y = xs_unsafe z"
    if "effects_covered run unsafe (xs_db z)" "enqueue_node g i s z = (y, res)" for i s z
    using that by (auto simp: enqueue_node_def split: if_splits option.splits)
  let ?i = "ge_target (fst t)"
  show ?thesis
  proof (cases "map_of (xs_states x) ?i")
    case None
    with assms show ?thesis by (simp add: resolve_one_def Let_def)
  next
    case (Some s0)
    let ?s = "receive t s0"
    let ?x1 = "put_state ?i ?s x"
    have cov1: "effects_covered run unsafe (xs_db ?x1)" using assms(1) by simp
    from assms(2) Some have "(if ps_resolved ?s \<noteq> ps_total ?s then (?x1, Inr [])
      else if 0 < ps_delivered ?s then enqueue_node g ?i ?s ?x1
      else skip_node g env ?i ?s ?x1) = (y, res)" by (simp add: resolve_one_def Let_def)
    then show ?thesis using skip [OF cov1] enq [OF cov1] cov1
      by (cases "ps_resolved ?s \<noteq> ps_total ?s"; cases "0 < ps_delivered ?s") auto
  qed
qed

lemma resolve_edges_covered:
  assumes "effects_covered run unsafe (xs_db x)" and "resolve_edges g env S x = (y, res)"
  shows "effects_covered run unsafe (xs_db y) \<and> xs_unsafe y = xs_unsafe x"
  using assms
proof (induction g env S x rule: resolve_edges.induct)
  case (2 g env t stack x)
  obtain z r where z: "resolve_one g env t x = (z, r)" by fastforce
  from resolve_one_covered [OF "2.prems"(1) z]
  have cov: "effects_covered run unsafe (xs_db z)" "xs_unsafe z = xs_unsafe x" by simp_all
  show ?case
  proof (cases r)
    case (Inl e)
    with "2.prems"(2) z cov show ?thesis by simp
  next
    case (Inr pushed)
    with "2.prems"(2) z have "resolve_edges g env (pushed @ stack) z = (y, res)" by simp
    with "2.IH" [OF _ cov(1), of pushed] z Inr cov show ?thesis by simp
  qed
qed simp

lemma node_verdict_honest:
  assumes "honest (xe_registry env)"
  shows "case node_verdict g env n input of
      Fails f \<Rightarrow> has_unsafe_effects (fl_effects f) \<longrightarrow> fl_unsafe f
    | Succeeds r \<Rightarrow> has_unsafe_effects (rs_effects r) \<longrightarrow> rs_unsafe r"
proof -
  have res: "case result_verdict g env n r of
      Fails f \<Rightarrow> has_unsafe_effects (fl_effects f) \<longrightarrow> fl_unsafe f
    | Succeeds r \<Rightarrow> has_unsafe_effects (rs_effects r) \<longrightarrow> rs_unsafe r"
    if "has_unsafe_effects (rs_effects r) \<longrightarrow> rs_unsafe r" for r
    using that by (auto simp: result_verdict_def Let_def split: option.splits)
  have none: "\<not> has_unsafe_effects []" by (simp add: has_unsafe_effects_def)
  show ?thesis
    using assms res none
    by (auto simp: node_verdict_def Let_def honest_def split: option.splits sum.splits)
qed

lemma execute_node_covered:
  assumes hon: "honest (xe_registry env)" and cov: "effects_covered run (xs_unsafe x) (xs_db x)"
    and run: "execute_node g env n x = (y, Inr res)"
  shows "effects_covered run (case res of None \<Rightarrow> xs_unsafe y | Some oc \<Rightarrow> oc_unsafe oc) (xs_db y)"
proof -
  let ?i = "gn_id n"
  from run obtain s0 where s0: "map_of (xs_states x) ?i = Some s0"
    by (auto simp: execute_node_def Let_def split: option.splits)
  let ?s = "s0\<lparr>ps_enqueued := False\<rparr>"
  show ?thesis
  proof (cases "ps_finalized s0")
    case True
    with run s0 cov show ?thesis by (auto simp: execute_node_def Let_def)
  next
    case False
    let ?input = "normalize_inputs (ps_inputs ?s)"
    let ?x0 = "(put_state ?i ?s x)\<lparr>xs_counter := Suc (xs_counter x)\<rparr>"
    from run s0 False obtain x1 u where x1: "ledger (mark_running env ?i (Suc (xs_counter x)) ?input) ?x0 = (x1, Inr u)"
      and rest: "(case node_verdict g env n ?input of Fails f \<Rightarrow> fail_node env ?i f x1
          | Succeeds r \<Rightarrow> succeed_node g env ?i ?s r x1) = (y, Inr res)"
      by (auto simp: execute_node_def Let_def elim!: and_then_InrE)
    have cov1: "effects_covered run (xs_unsafe x) (xs_db x1)"
      by (rule ledger_covered [OF _ x1 [unfolded mark_running_def]]) (use cov in \<open>simp_all add: no_node_patch_def\<close>)
    have un1: "xs_unsafe x1 = xs_unsafe x" using ledger_frame(4) [OF x1] by simp
    note hv = node_verdict_honest [OF hon, of g n ?input]
    show ?thesis
    proof (cases "node_verdict g env n ?input")
      case (Fails f)
      from rest [unfolded Fails verdict.case fail_node_def] obtain v where
        v: "ledger (mark_failed env ?i (fl_reason f) (fl_code f) (fl_metadata f) (fl_effects f)) x1 = (y, Inr v)"
        "res = Some (failed_outcome (xs_unsafe x1 \<or> fl_unsafe f) ''automation_graph_failed'' (fl_outcome_reason f))"
        by (elim and_then_InrE) simp
      have "effects_covered run (xs_unsafe x \<or> fl_unsafe f) (xs_db y)"
      proof (rule ledger_covered [OF _ v(1) [unfolded mark_failed_def]])
        show "effects_covered run (xs_unsafe x \<or> fl_unsafe f) (xs_db x1)"
          by (rule effects_covered_mono [OF cov1]) simp
      qed (use hv Fails effects_json_unsafe in \<open>auto simp: child_columns_def\<close>)
      with v(2) un1 show ?thesis by (simp add: failed_outcome_def)
    next
      case (Succeeds r)
      let ?x1 = "x1\<lparr>xs_unsafe := xs_unsafe x1 \<or> rs_unsafe r,
                 xs_outputs := AList.update ?i (rs_ports r) (xs_outputs x1)\<rparr>"
      from rest [unfolded Succeeds verdict.case succeed_node_def Let_def] obtain x2 v w where
        x2: "ledger (mark_succeeded env ?i r) ?x1 = (x2, Inr v)"
        and w: "resolve_edges g env (deliveries g ?i (rs_ports r)) (put_state ?i (?s\<lparr>ps_finalized := True\<rparr>) x2) = (y, Inr w)"
        and res: "res = None" by (elim and_then_InrE) simp
      have "effects_covered run (xs_unsafe x \<or> rs_unsafe r) (xs_db x2)"
      proof (rule ledger_covered [OF _ x2 [unfolded mark_succeeded_def]])
        show "effects_covered run (xs_unsafe x \<or> rs_unsafe r) (xs_db ?x1)"
          using effects_covered_mono [OF cov1] by simp
      qed (use hv Succeeds effects_json_unsafe in \<open>auto simp: child_columns_def\<close>)
      then have "effects_covered run (xs_unsafe x \<or> rs_unsafe r)
          (xs_db (put_state ?i (?s\<lparr>ps_finalized := True\<rparr>) x2))" by simp
      from resolve_edges_covered [OF this w] show ?thesis
        using ledger_frame(4) [OF x2] res un1 by simp
    qed
  qed
qed

lemma execute_loop_covered:
  assumes "honest (xe_registry env)" and "effects_covered run (xs_unsafe x) (xs_db x)"
    and "execute_loop g env x = (y, Inr oc)"
  shows "effects_covered run (oc_unsafe oc) (xs_db y)"
  using assms
proof (induction g env x rule: execute_loop.induct)
  case (1 g env x)
  show ?case
  proof (cases "xs_ready x")
    case Nil
    with "1.prems"(2,3) show ?thesis by (subst (asm) execute_loop.simps) auto
  next
    case (Cons n rest)
    let ?x = "x\<lparr>xs_ready := rest\<rparr>"
    obtain z r where z: "execute_node g env n ?x = (z, r)" by fastforce
    have cov: "effects_covered run (xs_unsafe ?x) (xs_db ?x)" using "1.prems"(2) by simp
    show ?thesis
    proof (cases r)
      case (Inl e)
      with "1.prems"(3) Cons z show ?thesis by (subst (asm) execute_loop.simps) simp
    next
      case (Inr res)
      from execute_node_covered [OF "1.prems"(1) cov z [unfolded Inr]]
      have c: "effects_covered run (case res of None \<Rightarrow> xs_unsafe z | Some oc \<Rightarrow> oc_unsafe oc) (xs_db z)" .
      show ?thesis
      proof (cases res)
        case None
        have "execute_loop g env z = (y, Inr oc)"
          using "1.prems"(3) Cons z Inr None by (subst (asm) execute_loop.simps) simp
        with "1.IH" [OF Cons z [unfolded Inr] None "1.prems"(1)] None c show ?thesis by simp
      next
        case (Some o')
        with "1.prems"(3) Cons z Inr have "y = z" "oc = o'" by (subst (asm) execute_loop.simps, simp)+
        with c Some show ?thesis by simp
      qed
    qed
  qed
qed

lemma execute_graph_covered:
  assumes hon: "honest (xe_registry env)" and cov: "effects_covered run False d"
    and res: "execute_graph g env d = (d', Inr oc)"
  shows "effects_covered run (oc_unsafe oc) d'"
proof -
  have start: "effects_covered run (xs_unsafe (start_execution g d)) (xs_db (start_execution g d))"
    using cov by (simp add: start_execution_def)
  obtain y r where y: "execute_loop g env (start_execution g d) = (y, r)" by fastforce
  show ?thesis
  proof (cases "edges_known g \<and> entry_nodes g \<noteq> []")
    case True
    with res y have "r = Inr oc" "d' = xs_db y" by (simp_all add: execute_graph_def)
    with execute_loop_covered [OF hon start] y show ?thesis by simp
  next
    case False
    with res cov show ?thesis by (auto simp: execute_graph_def failed_outcome_def split: if_splits)
  qed
qed

section \<open>A concrete run\<close>

text \<open>
  The trigger payload goes through a switch: node 3 gets port \<open>a\<close>, node 4 port \<open>b\<close>, and node 5
  joins them.
\<close>

definition example_node :: "nat \<Rightarrow> string \<Rightarrow> string \<Rightarrow> string \<Rightarrow> py_dict \<Rightarrow> graph_node" where
  "example_node i key kind ty config = \<lparr>gn_id = i, gn_flow = 1, gn_definition = None, gn_version = None,
     gn_key = key, gn_name = key, gn_kind = kind, gn_type = ty, gn_config = config\<rparr>"

definition example_edge :: "nat \<Rightarrow> nat \<Rightarrow> string \<Rightarrow> nat \<Rightarrow> graph_edge" where
  "example_edge i s port t = \<lparr>ge_id = i, ge_flow = 1, ge_source = s, ge_target = t,
     ge_source_port = port, ge_target_port = ''default''\<rparr>"

definition example_loaded :: "graph_node list \<Rightarrow> graph_edge list \<Rightarrow> loaded_graph" where
  "example_loaded nodes edges = \<lparr>lg_automation = example_automation,
     lg_flow = \<lparr>gf_id = 1, gf_automation = 1, gf_name = ''g'', gf_status = ''active'', gf_version = 1\<rparr>,
     lg_nodes = nodes, lg_edges = edges, lg_versions = [], lg_schemas = []\<rparr>"

definition example_switch_graph :: loaded_graph where
  "example_switch_graph = example_loaded
     [example_node 1 ''in'' ''builtin'' ''trigger.input'' [],
      example_node 2 ''sw'' ''builtin'' ''switch.value'' [(''path'', V_Str ''kind'')],
      example_node 3 ''a'' ''builtin'' ''passthrough'' [],
      example_node 4 ''b'' ''builtin'' ''passthrough'' [],
      example_node 5 ''join'' ''builtin'' ''passthrough'' []]
     [example_edge 1 1 ''default'' 2, example_edge 2 2 ''a'' 3, example_edge 3 2 ''b'' 4,
      example_edge 4 3 ''default'' 5, example_edge 5 4 ''default'' 5]"

definition example_failing_graph :: loaded_graph where
  "example_failing_graph = example_loaded
     [example_node 1 ''in'' ''builtin'' ''trigger.input'' [],
      example_node 2 ''err'' ''builtin'' ''error.raise'' [],
      example_node 3 ''out'' ''builtin'' ''passthrough'' []]
     [example_edge 1 1 ''default'' 2, example_edge 2 2 ''default'' 3]"

definition raising :: "string \<times> string \<Rightarrow> adapter" where
  "raising p iv = Inl ''RuntimeError''"

definition example_env :: exec_env where
  "example_env = \<lparr>xe_registry = default_registry raising, xe_schema_error = (\<lambda>_ _. None),
     xe_sanitize = (\<lambda>d. d), xe_sanitize_reason = (\<lambda>s. s), xe_run = 1,
     xe_trigger_payload = [(''kind'', V_Str ''a'')], xe_now = 0\<rparr>"

definition example_rows :: "loaded_graph \<Rightarrow> graph_db" where
  "example_rows g = create_pending_node_runs 1 (lg_nodes g) example_graph_db"

definition statuses :: "nat \<Rightarrow> graph_db \<Rightarrow> nat list \<Rightarrow> node_status option list" where
  "statuses run d ids = map (\<lambda>i. map_option nr_status (row_of run d i)) ids"

lemma example_switch_run:
  "(\<lambda>r. (statuses 1 (fst r) [1, 2, 3, 4, 5], snd r)) (execute_graph example_switch_graph example_env (example_rows example_switch_graph))
   = ([Some Node_Succeeded, Some Node_Succeeded, Some Node_Succeeded, Some Node_Skipped, Some Node_Succeeded],
      Inr \<lparr>oc_succeeded = True, oc_output = Some [(''default'', V_Dict [(''kind'', V_Str ''a'')])], oc_unsafe = False,
           oc_error_code = None, oc_reason = None\<rparr>)"
  by code_simp

lemma increasing_acyclic:
  assumes "\<forall>e \<in> set (lg_edges g). ge_source e < ge_target e"
  shows "acyclic (graph_rel g)"
proof (rule acyclicI_order)
  fix a b assume "(a, b) \<in> graph_rel g"
  with assms show "- int b < - int a" by (auto simp: graph_rel_def)
qed

lemma example_graphs_ok:
  "graph_ok example_switch_graph" "graph_ok example_failing_graph"
  "acyclic (graph_rel example_switch_graph)" "acyclic (graph_rel example_failing_graph)"
  "fresh_rows example_switch_graph 1 (example_rows example_switch_graph)"
  "fresh_rows example_failing_graph 1 (example_rows example_failing_graph)"
  "lg_nodes example_switch_graph \<noteq> []" "lg_nodes example_failing_graph \<noteq> []"
  "xe_run example_env = 1"
  by (code_simp, code_simp, (rule increasing_acyclic, code_simp)+, code_simp+)

theorem successful_run_settles_witness:
  "\<exists>d'. fst (execute_graph example_switch_graph example_env (example_rows example_switch_graph)) = d'
    \<and> (\<exists>r. row_of 1 d' 5 = Some r \<and> nr_status r = Node_Succeeded)
    \<and> (\<exists>p q k l. row_of 1 d' 2 = Some p \<and> row_of 1 d' 4 = Some q
         \<and> nr_index p = Some k \<and> nr_index q = Some l \<and> k < l)"
proof -
  let ?g = "example_switch_graph"
  let ?d = "example_rows ?g"
  obtain d' res where run: "execute_graph ?g example_env ?d = (d', res)" by fastforce
  have st: "statuses 1 d' [1, 2, 3, 4, 5] = [Some Node_Succeeded, Some Node_Succeeded, Some Node_Succeeded,
      Some Node_Skipped, Some Node_Succeeded]"
    and res: "\<And>oc. res = Inr oc \<Longrightarrow> oc_succeeded oc"
    using example_switch_run run by auto
  have keys: "map fst (xe_sanitize example_env m) = map fst m" for m by (simp add: example_env_def)
  note ok = example_graphs_ok
  have e: "example_edge 3 2 ''b'' 4 \<in> set (lg_edges ?g)" by code_simp
  have "\<exists>p q k l. row_of 1 d' 2 = Some p \<and> row_of 1 d' 4 = Some q
      \<and> nr_index p = Some k \<and> nr_index q = Some l \<and> k < l"
    using successful_run_settles [OF ok(1,3) _ ok(7) keys run res, unfolded ok(9), OF ok(5)] e
    by (auto simp: example_edge_def dest!: bspec [OF _ e])
  moreover have "\<exists>r. row_of 1 d' 5 = Some r \<and> nr_status r = Node_Succeeded"
    using st by (auto simp: statuses_def)
  ultimately show ?thesis using run by simp
qed

lemma example_failing_run:
  "(\<lambda>r. case snd r of Inl e \<Rightarrow> True | Inr oc \<Rightarrow> oc_succeeded oc)
     (execute_graph example_failing_graph example_env (example_rows example_failing_graph)) = False"
  by code_simp

theorem failed_run_stops_witness:
  "\<exists>n \<in> set (lg_nodes example_failing_graph). \<exists>r.
     row_of 1 (fst (execute_graph example_failing_graph example_env (example_rows example_failing_graph))) (gn_id n)
       = Some r \<and> nr_status r = Node_Failed"
proof -
  let ?g = "example_failing_graph"
  let ?d = "example_rows ?g"
  obtain d' res where run: "execute_graph ?g example_env ?d = (d', res)" by fastforce
  with example_failing_run obtain oc where oc: "res = Inr oc" "\<not> oc_succeeded oc"
    by (cases res) simp_all
  note ok = example_graphs_ok
  from failed_run_stops [OF ok(2,4) _ ok(8) run [unfolded oc(1)] oc(2), unfolded ok(9), OF ok(6)] run
  show ?thesis by auto
qed

end
