(* ===== verification/Graph_Service.thy ===== *)
theory Graph_Service
  imports Graph_Run
begin

text \<open>
  The triggered execution of an automation graph (services/automations/graph/service.py,
  \<open>execute_triggered_automation\<close>): the ledger of the run, the executor, and the fallback to an AI
  turn when the run failed. The turn is a parameter: it answers with a value or raises. The
  theorems say that every started run ends in a final status and that the fallback restricted
  to safe runs is never started after an unsafe effect in the ledger.
\<close>

section \<open>The ledger of runs\<close>

record run_request =
  rq_profile :: string
  rq_automation :: nat
  rq_trigger_type :: string
  rq_payload :: py_dict
  rq_session :: "string option"
  rq_event_hash :: "string option"

definition create_run :: "loaded_graph \<Rightarrow> run_request \<Rightarrow> instant \<Rightarrow> graph_db \<Rightarrow> graph_db \<times> graph_run" where
  "create_run g rq now d =
     (let row = \<lparr>gr_id = gd_next_run d, gr_automation = rq_automation rq,
                 gr_flow = Some (gf_id (lg_flow g)), gr_profile = rq_profile rq,
                 gr_trigger_type = rq_trigger_type rq, gr_status = ''running'',
                 gr_session = rq_session rq, gr_event_hash = rq_event_hash rq,
                 gr_payload = rq_payload rq, gr_output = None, gr_fallback = None,
                 gr_error_code = None, gr_reason = None, gr_started_at = now,
                 gr_completed_at = None\<rparr>
      in (d\<lparr>gd_runs := gd_runs d @ [row], gd_next_run := Suc (gd_next_run d)\<rparr>, row))"

definition bootstrap_run :: "loaded_graph \<Rightarrow> run_request \<Rightarrow> instant \<Rightarrow> graph_db \<Rightarrow> graph_db \<times> nat" where
  "bootstrap_run g rq now d =
     (case create_run g rq now d of
        (d1, row) \<Rightarrow> (create_pending_node_runs (gr_id row) (lg_nodes g) d1, gr_id row))"

definition complete_run ::
    "nat \<Rightarrow> string \<Rightarrow> py_dict option \<Rightarrow> string option \<Rightarrow> instant \<Rightarrow> graph_db \<Rightarrow> graph_db" where
  "complete_run run st output fallback now d =
     d\<lparr>gd_runs := update_where (\<lambda>r. gr_id r = run)
        (\<lambda>r. r\<lparr>gr_status := st, gr_output := output, gr_fallback := fallback,
              gr_completed_at := Some now\<rparr>) (gd_runs d)\<rparr>"

definition fail_run ::
    "nat \<Rightarrow> string \<Rightarrow> string \<Rightarrow> string \<Rightarrow> string option \<Rightarrow> instant \<Rightarrow> graph_db \<Rightarrow> graph_db" where
  "fail_run run st code reason fallback now d =
     d\<lparr>gd_runs := update_where (\<lambda>r. gr_id r = run)
        (\<lambda>r. r\<lparr>gr_status := st, gr_error_code := Some code, gr_reason := Some reason,
              gr_fallback := fallback, gr_completed_at := Some now\<rparr>) (gd_runs d)\<rparr>"

definition get_run :: "string \<Rightarrow> nat \<Rightarrow> graph_db \<Rightarrow> graph_run res" where
  "get_run profile_id run d =
     (case find (\<lambda>r. gr_profile r = profile_id \<and> gr_id r = run) (gd_runs d) of
        None \<Rightarrow> service_error ''automation_graph_run_not_found''
      | Some r \<Rightarrow> Inr r)"

section \<open>Executing a triggered automation\<close>

text \<open>
  \<open>sv_env\<close> is the executor's environment up to the run and its payload, \<open>sv_fallback\<close> is the AI turn on the trace
  of the run, \<open>sv_error_text\<close> the redacted text of an exception.
\<close>

record graph_services =
  sv_check_schema :: "py_dict \<Rightarrow> bool"
  sv_env :: exec_env
  sv_fallback :: "graph_db \<Rightarrow> nat \<Rightarrow> graph_outcome \<Rightarrow> string + pyval"
  sv_error_text :: "app_error \<Rightarrow> string"
  sv_now :: instant

definition run_env :: "graph_services \<Rightarrow> run_request \<Rightarrow> nat \<Rightarrow> exec_env" where
  "run_env sv rq run = (sv_env sv)\<lparr>xe_run := run, xe_trigger_payload := rq_payload rq\<rparr>"

definition outcome_code :: "graph_outcome \<Rightarrow> string" where
  "outcome_code oc = (let c = str_or_empty (oc_error_code oc) in if c \<noteq> [] then c else ''automation_graph_failed'')"

definition outcome_reason :: "graph_outcome \<Rightarrow> string" where
  "outcome_reason oc =
     (let r = str_or_empty (oc_reason oc) in if r \<noteq> [] then r else ''Automation graph execution failed'')"

definition run_fallback ::
    "graph_services \<Rightarrow> run_request \<Rightarrow> nat \<Rightarrow> graph_outcome \<Rightarrow> graph_db \<Rightarrow> graph_db \<times> graph_run res" where
  "run_fallback sv rq run oc d =
     (case sv_fallback sv d run oc of
        Inl reason \<Rightarrow>
          (fail_run run ''fallback_failed'' ''automation_graph_fallback_failed'' reason (Some ''failed'') (sv_now sv) d,
           service_error ''automation_graph_fallback_failed'')
      | Inr v \<Rightarrow>
          (let d' = complete_run run ''fallback_succeeded'' (Some [(''fallback'', v)]) (Some ''succeeded'')
                      (sv_now sv) d
           in (d', get_run (rq_profile rq) run d')))"

definition settle_failure ::
    "graph_services \<Rightarrow> run_request \<Rightarrow> string \<Rightarrow> nat \<Rightarrow> graph_outcome \<Rightarrow> graph_db \<Rightarrow> graph_db \<times> graph_run res" where
  "settle_failure sv rq mode run oc d =
     (case runtime_fallback_mode mode of
        Inl e \<Rightarrow> (d, Inl e)
      | Inr m \<Rightarrow>
          if m = ''fail_closed'' then
            (fail_run run ''failed'' (outcome_code oc) (outcome_reason oc) (Some ''not_attempted'') (sv_now sv) d,
             service_error (outcome_code oc))
          else if m = ''resume_with_ai_if_safe'' \<and> oc_unsafe oc then
            (fail_run run ''failed'' (outcome_code oc) (outcome_reason oc) (Some ''skipped_unsafe'') (sv_now sv) d,
             service_error (outcome_code oc))
          else run_fallback sv rq run oc d)"

definition settle_run ::
    "graph_services \<Rightarrow> run_request \<Rightarrow> string \<Rightarrow> nat \<Rightarrow> graph_outcome res \<Rightarrow> graph_db \<Rightarrow> graph_db \<times> graph_run res" where
  "settle_run sv rq mode run res d =
     (case res of
        Inl e \<Rightarrow>
          (fail_run run ''failed'' ''automation_graph_runtime_error'' (sv_error_text sv e) (Some ''not_attempted'')
             (sv_now sv) d,
           service_error ''automation_graph_runtime_error'')
      | Inr oc \<Rightarrow>
          if oc_succeeded oc then
            (let d' = complete_run run ''succeeded'' (oc_output oc) None (sv_now sv) d
             in (d', get_run (rq_profile rq) run d'))
          else settle_failure sv rq mode run oc d)"

definition execute_triggered_automation ::
    "graph_services \<Rightarrow> run_request \<Rightarrow> graph_db \<Rightarrow> graph_db \<times> graph_run res" where
  "execute_triggered_automation sv rq d =
     (case load_graph (sv_check_schema sv) (rq_profile rq) (rq_automation rq) d of
        Inl e \<Rightarrow> (d, Inl e)
      | Inr g \<Rightarrow>
          (case bootstrap_run g rq (sv_now sv) d of
             (d1, run) \<Rightarrow>
               (case execute_graph g (run_env sv rq run) d1 of
                  (d2, res) \<Rightarrow> settle_run sv rq (am_fallback_mode (lg_automation g)) run res d2)))"

section \<open>The run row\<close>

definition run_row :: "nat \<Rightarrow> graph_db \<Rightarrow> graph_run option" where
  "run_row run d = find (\<lambda>r. gr_id r = run) (gd_runs d)"

lemma run_row_complete:
  "run_row run (complete_run run st output fb now d)
   = map_option (\<lambda>r. r\<lparr>gr_status := st, gr_output := output, gr_fallback := fb, gr_completed_at := Some now\<rparr>)
       (run_row run d)"
  by (simp add: run_row_def complete_run_def find_update_where)

lemma run_row_fail:
  "run_row run (fail_run run st code reason fb now d)
   = map_option (\<lambda>r. r\<lparr>gr_status := st, gr_error_code := Some code, gr_reason := Some reason,
              gr_fallback := fb, gr_completed_at := Some now\<rparr>) (run_row run d)"
  by (simp add: run_row_def fail_run_def find_update_where)

lemma run_writes_keep_nodes [simp]:
  "gd_node_runs (complete_run run st output fb now d) = gd_node_runs d"
  "gd_node_runs (fail_run run st code reason fb now d) = gd_node_runs d"
  by (simp_all add: complete_run_def fail_run_def)

text \<open>
  The executor writes the database through updates of node runs only: what they all preserve,
  a whole execution preserves, however it ends.
\<close>

definition node_run_invariant :: "nat \<Rightarrow> (graph_db \<Rightarrow> bool) \<Rightarrow> bool" where
  "node_run_invariant run P \<longleftrightarrow> (\<forall>i st u d d'. P d \<longrightarrow> update_node_run run i st u d = Inr d' \<longrightarrow> P d')"

lemma inv_and_then:
  assumes "P (xs_db (fst r))" and "\<And>y a. P (xs_db y) \<Longrightarrow> P (xs_db (fst (f y a)))"
  shows "P (xs_db (fst (and_then r f)))"
  using assms by (cases "(r, f)" rule: and_then.cases) auto

lemma inv_ledger:
  assumes "node_run_invariant (xe_run env) P" and "P (xs_db x)"
  shows "P (xs_db (fst (ledger (mark_running env i k inp) x)))"
    and "P (xs_db (fst (ledger (mark_succeeded env i res) x)))"
    and "P (xs_db (fst (ledger (mark_failed env i reason code md fx) x)))"
    and "P (xs_db (fst (ledger (mark_skipped env i k) x)))"
proof -
  have "P (xs_db (fst (ledger (update_node_run (xe_run env) i st u) x)))" for st u
    using assms by (auto simp: node_run_invariant_def ledger_def split: sum.splits)
  then show "P (xs_db (fst (ledger (mark_running env i k inp) x)))"
    and "P (xs_db (fst (ledger (mark_succeeded env i res) x)))"
    and "P (xs_db (fst (ledger (mark_failed env i reason code md fx) x)))"
    and "P (xs_db (fst (ledger (mark_skipped env i k) x)))"
    by (simp_all add: mark_running_def mark_succeeded_def mark_failed_def mark_skipped_def)
qed

lemma inv_resolve_one:
  assumes inv: "node_run_invariant (xe_run env) P" and "P (xs_db x)"
  shows "P (xs_db (fst (resolve_one g env t x)))"
proof -
  have skip: "P (xs_db (fst (skip_node g env i s z)))" if "P (xs_db z)" for i s z
  proof (cases "ps_finalized s")
    case True
    with that show ?thesis by (simp add: skip_node_def)
  next
    case False
    have "P (xs_db (fst (ledger (mark_skipped env i k) ((put_state i s' z)\<lparr>xs_counter := c\<rparr>))))" for k s' c
      by (rule inv_ledger(4) [OF inv]) (simp add: that)
    with False show ?thesis
      unfolding skip_node_def Let_def if_not_P [OF False] by (intro inv_and_then [where P = P]) simp_all
  qed
  have enq: "P (xs_db (fst (enqueue_node g i s z)))" if "P (xs_db z)" for i s z
    using that by (simp add: enqueue_node_def split: option.splits)
  show ?thesis using skip enq assms(2) by (simp add: resolve_one_def Let_def split: option.splits)
qed

lemma inv_resolve_edges:
  assumes "node_run_invariant (xe_run env) P" and "P (xs_db x)"
  shows "P (xs_db (fst (resolve_edges g env S x)))"
  using assms
proof (induction g env S x rule: resolve_edges.induct)
  case (2 g env t stack x)
  obtain y r where y: "resolve_one g env t x = (y, r)" by fastforce
  have P: "P (xs_db y)" using inv_resolve_one [OF "2.prems", of g t] y by simp
  show ?case
  proof (cases r)
    case (Inl e)
    with y P show ?thesis by simp
  next
    case (Inr pushed)
    from y [unfolded this] have "P (xs_db (fst (resolve_edges g env (pushed @ stack) y)))"
      by (rule "2.IH" [OF _ "2.prems"(1) P])
    with y Inr show ?thesis by simp
  qed
qed simp

lemma inv_execute_node:
  assumes inv: "node_run_invariant (xe_run env) P" and "P (xs_db x)"
  shows "P (xs_db (fst (execute_node g env n x)))"
proof -
  have fail: "P (xs_db (fst (fail_node env i f z)))" if "P (xs_db z)" for i f z
    unfolding fail_node_def
    by (rule inv_and_then [where P = P, OF inv_ledger(3) [OF inv that]]) simp
  have succeed: "P (xs_db (fst (succeed_node g env i s r z)))" if "P (xs_db z)" for i s r z
  proof -
    have "P (xs_db (fst (ledger (mark_succeeded env i r) (z\<lparr>xs_unsafe := u, xs_outputs := out\<rparr>))))" for u out
      by (rule inv_ledger(2) [OF inv]) (simp add: that)
    moreover have "P (xs_db (fst (resolve_edges g env S (put_state i s' y))))" if "P (xs_db y)" for S s' y
      by (rule inv_resolve_edges [OF inv]) (simp add: that)
    ultimately show ?thesis
      unfolding succeed_node_def Let_def by (intro inv_and_then [where P = P]) simp_all
  qed
  show ?thesis
  proof (cases "map_of (xs_states x) (gn_id n)")
    case None
    with assms(2) show ?thesis by (simp add: execute_node_def Let_def)
  next
    case (Some s0)
    show ?thesis
    proof (cases "ps_finalized s0")
      case True
      with Some assms(2) show ?thesis by (simp add: execute_node_def Let_def)
    next
      case False
      have "P (xs_db (fst (ledger (mark_running env i k inp) ((put_state i s x)\<lparr>xs_counter := c\<rparr>))))" for i k inp s c
        by (rule inv_ledger(1) [OF inv]) (simp add: assms(2))
      with Some False fail succeed show ?thesis
        unfolding execute_node_def Let_def Some option.case
        by (simp, intro inv_and_then [where P = P]) (simp_all split: verdict.split)
    qed
  qed
qed

lemma inv_execute_loop:
  assumes "node_run_invariant (xe_run env) P" and "P (xs_db x)"
  shows "P (xs_db (fst (execute_loop g env x)))"
  using assms
proof (induction g env x rule: execute_loop.induct)
  case (1 g env x)
  show ?case
  proof (cases "xs_ready x")
    case Nil
    with "1.prems" show ?thesis by (subst execute_loop.simps) simp
  next
    case (Cons n rest)
    obtain y r where y: "execute_node g env n (x\<lparr>xs_ready := rest\<rparr>) = (y, r)" by fastforce
    have P: "P (xs_db y)"
      using inv_execute_node [OF "1.prems"(1), of "x\<lparr>xs_ready := rest\<rparr>" g n] "1.prems"(2) y by simp
    show ?thesis
    proof (cases r)
      case (Inl e)
      with Cons y P show ?thesis by (subst execute_loop.simps) simp
    next
      case (Inr res)
      with Cons y P "1.IH" [OF Cons y [unfolded Inr] _ "1.prems"(1) P] show ?thesis
        by (cases res) (subst execute_loop.simps, simp)+
    qed
  qed
qed

lemma inv_execute_graph:
  assumes "node_run_invariant (xe_run env) P" and "P d" and "execute_graph g env d = (d', res)"
  shows "P d'"
proof -
  have "P (xs_db (fst (execute_loop g env (start_execution g d))))"
    by (rule inv_execute_loop [OF assms(1)]) (simp add: start_execution_def assms(2))
  with assms(2,3) show ?thesis
    by (auto simp: execute_graph_def split: if_splits prod.splits)
qed

lemma runs_invariant: "node_run_invariant run (\<lambda>d. gd_runs d = rs)"
  by (auto simp: node_run_invariant_def update_node_run_def bindE_eq_Inr_iff split: option.splits)

section \<open>Every run ends\<close>

definition runs_numbered :: "graph_db \<Rightarrow> bool" where
  "runs_numbered d \<longleftrightarrow>
     (\<forall>r \<in> set (gd_runs d). gr_id r < gd_next_run d)
     \<and> (\<forall>r \<in> set (gd_node_runs d). nr_run r < gd_next_run d)"

definition known_modes :: "string list" where
  "known_modes = [''branch_error_only'', ''fail_closed'', ''resume_with_ai'', ''resume_with_ai_if_safe'']"

definition started_row :: "loaded_graph \<Rightarrow> run_request \<Rightarrow> instant \<Rightarrow> graph_db \<Rightarrow> graph_run" where
  "started_row g rq now d = snd (create_run g rq now d)"

lemma bootstrap_run_facts:
  assumes "bootstrap_run g rq now d = (d1, run)"
  shows "run = gd_next_run d" and "gd_runs d1 = gd_runs d @ [started_row g rq now d]"
    and "gr_id (started_row g rq now d) = gd_next_run d"
    and "gr_profile (started_row g rq now d) = rq_profile rq"
    and "gd_node_runs d1 = gd_node_runs d @ map2 (\<lambda>i n. pending_row i run n)
        [gd_next_node_run d..<gd_next_node_run d + length (lg_nodes g)] (lg_nodes g)"
  using assms
  by (auto simp: bootstrap_run_def create_run_def started_row_def Let_def create_pending_node_runs_def)

lemma find_update_where_other:
  assumes "\<And>t. p t \<Longrightarrow> \<not> q t \<and> \<not> q (f t)"
  shows "find q (update_where p f rows) = find q rows"
  using assms by (induction rows) (auto simp: update_where_def)

lemma run_row_other:
  assumes "q \<noteq> run"
  shows "run_row q (complete_run run st output fb now d) = run_row q d"
    and "run_row q (fail_run run st code reason fb now d) = run_row q d"
  using assms
  by (simp_all add: run_row_def complete_run_def fail_run_def)
    (rule find_update_where_other, simp)+

lemma get_run_ok: "run_row run d = Some r \<Longrightarrow> is_ok (get_run (gr_profile r) run d)"
  by (auto simp: get_run_def run_row_def is_ok_def find_None_iff find_Some_iff split: option.splits)

lemma service_error_not_ok [simp]: "\<not> is_ok (service_error code)"
  by (simp add: is_ok_def service_error_def)

text \<open>How a run row is left: final, closed, and with the fallback column of its branch.\<close>

definition settled :: "graph_services \<Rightarrow> nat \<Rightarrow> bool \<Rightarrow> bool \<Rightarrow> graph_db \<Rightarrow> graph_db \<Rightarrow> bool" where
  "settled sv run ok resumed d d' \<longleftrightarrow>
     (\<exists>r'. run_row run d' = Some r' \<and> gr_completed_at r' = Some (sv_now sv)
        \<and> gr_status r' \<in> {''succeeded'', ''failed'', ''fallback_succeeded'', ''fallback_failed''}
        \<and> (ok \<longleftrightarrow> gr_status r' \<in> {''succeeded'', ''fallback_succeeded''})
        \<and> (resumed \<longleftrightarrow> gr_fallback r' \<in> {Some ''succeeded'', Some ''failed''}))
     \<and> (\<forall>q. q \<noteq> run \<longrightarrow> run_row q d' = run_row q d) \<and> gd_node_runs d' = gd_node_runs d"

lemma settled_fail:
  assumes "run_row run d = Some r" and "fb \<in> {Some ''not_attempted'', Some ''skipped_unsafe''}"
  shows "settled sv run False False d (fail_run run ''failed'' code reason fb (sv_now sv) d)"
  using assms by (auto simp: settled_def run_row_fail run_row_other)

lemma settled_fallback:
  assumes row: "run_row run d = Some r" and prof: "gr_profile r = rq_profile rq"
    and run: "run_fallback sv rq run oc d = (d', out)"
  shows "settled sv run (is_ok out) True d d'"
proof (cases "sv_fallback sv d run oc")
  case (Inl reason)
  with row run show ?thesis by (auto simp: run_fallback_def settled_def run_row_fail run_row_other)
next
  case (Inr v)
  let ?d = "complete_run run ''fallback_succeeded'' (Some [(''fallback'', v)]) (Some ''succeeded'') (sv_now sv) d"
  let ?r = "r\<lparr>gr_status := ''fallback_succeeded'', gr_output := Some [(''fallback'', v)],
              gr_fallback := Some ''succeeded'', gr_completed_at := Some (sv_now sv)\<rparr>"
  have new: "run_row run ?d = Some ?r" using row by (simp add: run_row_complete)
  from get_run_ok [OF this] prof have "is_ok (get_run (rq_profile rq) run ?d)" by simp
  moreover from run Inr have "d' = ?d" "out = get_run (rq_profile rq) run ?d"
    by (auto simp: run_fallback_def Let_def)
  ultimately show ?thesis using new by (simp add: settled_def run_row_other)
qed

lemma settled_success:
  assumes row: "run_row run d = Some r" and prof: "gr_profile r = rq_profile rq" and "gr_fallback r = None"
    and d': "d' = complete_run run ''succeeded'' output None (sv_now sv) d"
  shows "settled sv run (is_ok (get_run (rq_profile rq) run d')) False d d'"
proof -
  have new: "run_row run d' = Some (r\<lparr>gr_status := ''succeeded'', gr_output := output,
              gr_fallback := None, gr_completed_at := Some (sv_now sv)\<rparr>)"
    using row by (simp add: run_row_complete d')
  from get_run_ok [OF this] prof have "is_ok (get_run (rq_profile rq) run d')" by simp
  with new show ?thesis by (simp add: settled_def run_row_other d')
qed

lemma settle_run_settled:
  assumes run: "settle_run sv rq mode run res d = (d', out)" and mode: "mode \<in> set known_modes"
    and row: "run_row run d = Some r" and prof: "gr_profile r = rq_profile rq" and "gr_fallback r = None"
  shows "\<exists>resumed. settled sv run (is_ok out) resumed d d'
    \<and> (resumed \<longrightarrow> (\<exists>oc. res = Inr oc \<and> \<not> oc_succeeded oc
          \<and> (mode = ''resume_with_ai_if_safe'' \<longrightarrow> \<not> oc_unsafe oc)))"
proof (cases res)
  case (Inl e)
  with run show ?thesis by (auto simp: settle_run_def intro!: exI [of _ False] settled_fail [OF row])
next
  case (Inr oc)
  show ?thesis
  proof (cases "oc_succeeded oc")
    case True
    with run Inr show ?thesis by (auto simp: settle_run_def Let_def intro!: exI [of _ False] settled_success [OF assms(3-5) refl])
  next
    case False
    obtain m where m: "runtime_fallback_mode mode = Inr m" "mode = ''resume_with_ai_if_safe'' \<longleftrightarrow> m = ''resume_with_ai_if_safe''"
      using mode by (auto simp: runtime_fallback_mode_def known_modes_def)
    from run Inr False have step: "settle_failure sv rq mode run oc d = (d', out)" by (simp add: settle_run_def)
    show ?thesis
    proof (cases "m = ''fail_closed'' \<or> m = ''resume_with_ai_if_safe'' \<and> oc_unsafe oc")
      case True
      with step m(1) show ?thesis by (auto simp: settle_failure_def split: if_splits intro!: exI [of _ False] settled_fail [OF row])
    next
      case no: False
      then have "run_fallback sv rq run oc d = (d', out)"
        using step m(1) by (simp add: settle_failure_def split: if_splits)
      from settled_fallback [OF row prof this] Inr False no m(2) show ?thesis by blast
    qed
  qed
qed

lemma run_row_new:
  assumes "gd_runs d1 = gd_runs d @ [r]" and "gr_id r = gd_next_run d" and "runs_numbered d"
  shows "run_row (gd_next_run d) d1 = Some r" and "q \<noteq> gd_next_run d \<Longrightarrow> run_row q d1 = run_row q d"
proof -
  have none: "find (\<lambda>r. gr_id r = gd_next_run d) (gd_runs d) = None"
    using assms(3) by (auto simp: find_None_iff runs_numbered_def)
  have "find p (xs @ [r]) = (case find p xs of None \<Rightarrow> if p r then Some r else None | Some y \<Rightarrow> Some y)"
    for p and xs :: "graph_run list" by (induction xs) auto
  with none assms(1,2) show "run_row (gd_next_run d) d1 = Some r"
    and "q \<noteq> gd_next_run d \<Longrightarrow> run_row q d1 = run_row q d"
    by (auto simp: run_row_def split: option.split)
qed

lemma triggered_run_settled:
  assumes load: "load_graph (sv_check_schema sv) (rq_profile rq) (rq_automation rq) d = Inr g"
    and num: "runs_numbered d" and mode: "am_fallback_mode (lg_automation g) \<in> set known_modes"
    and run: "execute_triggered_automation sv rq d = (d', out)"
  obtains d1 d2 res resumed where
    "bootstrap_run g rq (sv_now sv) d = (d1, gd_next_run d)"
    and "execute_graph g (run_env sv rq (gd_next_run d)) d1 = (d2, res)"
    and "settled sv (gd_next_run d) (is_ok out) resumed d2 d'"
    and "\<And>q. q \<noteq> gd_next_run d \<Longrightarrow> run_row q d2 = run_row q d"
    and "resumed \<longrightarrow> (\<exists>oc. res = Inr oc \<and> \<not> oc_succeeded oc
          \<and> (am_fallback_mode (lg_automation g) = ''resume_with_ai_if_safe'' \<longrightarrow> \<not> oc_unsafe oc))"
proof -
  let ?run = "gd_next_run d"
  let ?row = "started_row g rq (sv_now sv) d"
  obtain d1 i where boot: "bootstrap_run g rq (sv_now sv) d = (d1, i)" by fastforce
  note facts = bootstrap_run_facts [OF boot]
  obtain d2 res where exec: "execute_graph g (run_env sv rq ?run) d1 = (d2, res)" by fastforce
  have rows: "gd_runs d2 = gd_runs d @ [?row]"
    by (rule inv_execute_graph [where P = "\<lambda>d. gd_runs d = gd_runs d1", OF runs_invariant refl exec,
        unfolded facts(2)])
  have settle: "settle_run sv rq (am_fallback_mode (lg_automation g)) ?run res d2 = (d', out)"
    using run load boot exec facts(1) by (simp add: execute_triggered_automation_def)
  have fb: "gr_fallback ?row = None" by (simp add: started_row_def create_run_def Let_def)
  from settle_run_settled [OF settle mode run_row_new(1) [OF rows facts(3) num] facts(4) fb]
  show ?thesis using that boot exec facts(1) run_row_new(2) [OF rows facts(3) num] by blast
qed

text \<open>
  How an execution can come to its end. It may be cut short at any point, by a cancellation (which no
  handler of the service catches), by a failure of one of the service's own writes, or with the process:
  before the run row is committed, or after the executor has made some of its writes (all updates of node runs
  of the run) and before the final write is committed, also while the AI turn works. A failing write of a
  node run is an exception of the executor, which ends the run as failed.
\<close>

inductive node_writes :: "nat \<Rightarrow> graph_db \<Rightarrow> graph_db \<Rightarrow> bool" for run where
  no_write: "node_writes run d d"
| one_more: "node_writes run d d1 \<Longrightarrow> update_node_run run i st u d1 = Inr d2 \<Longrightarrow> node_writes run d d2"

datatype run_ending = Came_Back "graph_run res" | Cut_Short

inductive triggered_run :: "graph_services \<Rightarrow> run_request \<Rightarrow> graph_db \<Rightarrow> graph_db \<Rightarrow> run_ending \<Rightarrow> bool" for sv rq d where
  came_back: "execute_triggered_automation sv rq d = (d', out) \<Longrightarrow> triggered_run sv rq d d' (Came_Back out)"
| cut_before: "triggered_run sv rq d d Cut_Short"
| cut_running: "load_graph (sv_check_schema sv) (rq_profile rq) (rq_automation rq) d = Inr g \<Longrightarrow>
     bootstrap_run g rq (sv_now sv) d = (d1, run) \<Longrightarrow> node_writes run d1 d2 \<Longrightarrow> triggered_run sv rq d d2 Cut_Short"
| raised_running: "load_graph (sv_check_schema sv) (rq_profile rq) (rq_automation rq) d = Inr g \<Longrightarrow>
     bootstrap_run g rq (sv_now sv) d = (d1, run) \<Longrightarrow> node_writes run d1 d2 \<Longrightarrow>
     settle_run sv rq (am_fallback_mode (lg_automation g)) run (Inl e) d2 = (d', out) \<Longrightarrow>
     ending = Came_Back out \<or> ending = Cut_Short \<Longrightarrow> triggered_run sv rq d d' ending"
| cut_settled: "execute_triggered_automation sv rq d = (d', out) \<Longrightarrow> triggered_run sv rq d d' Cut_Short"

lemma executor_writes: "execute_graph g (run_env sv rq run) d = (d', res) \<Longrightarrow> node_writes run d d'"
  by (rule inv_execute_graph [where P = "node_writes run d"])
    (auto simp: node_run_invariant_def run_env_def intro: node_writes.intros)

lemma node_writes_keep_runs: "node_writes run d d' \<Longrightarrow> gd_runs d' = gd_runs d"
  by (induction rule: node_writes.induct) (auto simp: update_node_run_def bindE_eq_Inr_iff split: option.splits)

text \<open>What a triggered run of an automation with graph \<open>g\<close> leaves behind.\<close>

definition run_left :: "graph_services \<Rightarrow> loaded_graph \<Rightarrow> run_ending \<Rightarrow> graph_run \<Rightarrow> bool" where
  "run_left sv g ending r \<longleftrightarrow>
     (if gr_completed_at r = None
      then gr_status r = ''running'' \<and> (ending = Cut_Short \<or> am_fallback_mode (lg_automation g) \<notin> set known_modes \<and> (\<exists>e. ending = Came_Back (Inl e)))
      else gr_completed_at r = Some (sv_now sv)
        \<and> gr_status r \<in> {''succeeded'', ''failed'', ''fallback_succeeded'', ''fallback_failed''}
        \<and> (\<forall>out. ending = Came_Back out \<longrightarrow> (is_ok out \<longleftrightarrow> gr_status r \<in> {''succeeded'', ''fallback_succeeded''})))"

lemma settled_left:
  assumes "settled sv run (is_ok out) resumed d d'" and "ending = Came_Back out \<or> ending = Cut_Short"
  shows "\<exists>r. run_row run d' = Some r \<and> run_left sv g ending r"
  using assms unfolding settled_def run_left_def by fastforce

lemma unknown_mode_left:
  assumes "settle_run sv rq mode run res d = (d', out)" and "mode \<notin> set known_modes"
    and row: "run_row run d = Some r" and prof: "gr_profile r = rq_profile rq" and "gr_fallback r = None"
  shows "(\<exists>resumed. settled sv run (is_ok out) resumed d d') \<or> d' = d \<and> (\<exists>e. out = Inl e)"
proof (cases res)
  case (Inl e)
  with assms(1) show ?thesis by (auto simp: settle_run_def intro!: exI [of _ False] settled_fail [OF row])
next
  case (Inr oc)
  show ?thesis
  proof (cases "oc_succeeded oc")
    case True
    with assms(1) Inr show ?thesis by (auto simp: settle_run_def Let_def intro!: exI [of _ False] settled_success [OF assms(3-5) refl])
  next
    case False
    have "\<exists>e. runtime_fallback_mode mode = Inl e"
      using assms(2) by (auto simp: runtime_fallback_mode_def known_modes_def service_error_def split: if_splits)
    with assms(1) Inr False show ?thesis by (auto simp: settle_run_def settle_failure_def)
  qed
qed

lemma came_back_left:
  assumes load: "load_graph (sv_check_schema sv) (rq_profile rq) (rq_automation rq) d = Inr g"
    and num: "runs_numbered d" and run: "execute_triggered_automation sv rq d = (d', out)"
    and ending: "ending = Came_Back out \<or> ending = Cut_Short"
  shows "(\<exists>r. run_row (gd_next_run d) d' = Some r \<and> run_left sv g ending r) \<and> (\<forall>q. q \<noteq> gd_next_run d \<longrightarrow> run_row q d' = run_row q d)"
proof (cases "am_fallback_mode (lg_automation g) \<in> set known_modes")
  case True
  from triggered_run_settled [OF load num True run] obtain d2 resumed where
    "settled sv (gd_next_run d) (is_ok out) resumed d2 d'" "\<And>q. q \<noteq> gd_next_run d \<Longrightarrow> run_row q d2 = run_row q d" by metis
  with settled_left [OF this(1) ending] show ?thesis unfolding settled_def by auto
next
  case unknown: False
  let ?run = "gd_next_run d"
  let ?row = "started_row g rq (sv_now sv) d"
  obtain d1 i where boot: "bootstrap_run g rq (sv_now sv) d = (d1, i)" by fastforce
  note facts = bootstrap_run_facts [OF boot]
  obtain d2 res where exec: "execute_graph g (run_env sv rq ?run) d1 = (d2, res)" by fastforce
  have rows: "gd_runs d2 = gd_runs d @ [?row]"
    using node_writes_keep_runs [OF executor_writes [OF exec]] facts(2) by simp
  note new = run_row_new [OF rows facts(3) num]
  have settle: "settle_run sv rq (am_fallback_mode (lg_automation g)) ?run res d2 = (d', out)"
    using run load boot exec facts(1) by (simp add: execute_triggered_automation_def)
  have row: "gr_fallback ?row = None" "gr_completed_at ?row = None" "gr_status ?row = ''running''"
    by (simp_all add: started_row_def create_run_def Let_def)
  from unknown_mode_left [OF settle unknown new(1) facts(4) row(1)] show ?thesis
  proof (elim disjE exE conjE)
    fix resumed assume "settled sv ?run (is_ok out) resumed d2 d'"
    with settled_left [OF this ending] new(2) show ?thesis unfolding settled_def by auto
  next
    fix e assume "d' = d2" "out = Inl e"
    then show ?thesis using new row unknown ending by (auto simp: run_left_def)
  qed
qed

text \<open>C14 However a triggered run ends, the executor, an adapter, the AI turn or a write of a node run
  failing, or the run being cut short by a cancellation, a crash or a failing write of its own row: no other run is touched, and the run has no row, because it was cut short before that was
  committed, or a row that is closed, with a completion time and a final status that is a success
  exactly when the caller gets the run back, or a row left at running. The last happens only to a run that
  was cut short or that failed under a fallback mode the code does not know.\<close>

theorem triggered_run_ends:
  assumes "load_graph (sv_check_schema sv) (rq_profile rq) (rq_automation rq) d = Inr g"
    and "runs_numbered d" and "triggered_run sv rq d d' ending"
  shows "(\<forall>q. q \<noteq> gd_next_run d \<longrightarrow> run_row q d' = run_row q d)
    \<and> (case run_row (gd_next_run d) d' of
         None \<Rightarrow> ending = Cut_Short \<and> d' = d
       | Some r \<Rightarrow>
           if gr_completed_at r = None
           then gr_status r = ''running'' \<and> (ending = Cut_Short \<or> am_fallback_mode (lg_automation g) \<notin> set known_modes \<and> (\<exists>e. ending = Came_Back (Inl e)))
           else gr_completed_at r = Some (sv_now sv)
             \<and> gr_status r \<in> {''succeeded'', ''failed'', ''fallback_succeeded'', ''fallback_failed''}
             \<and> (\<forall>out. ending = Came_Back out \<longrightarrow> (is_ok out \<longleftrightarrow> gr_status r \<in> {''succeeded'', ''fallback_succeeded''})))"
  using assms(3)
proof cases
  case (came_back out)
  from came_back_left [OF assms(1,2) came_back(2), of ending] came_back(1) show ?thesis by (auto simp: run_left_def)
next
  case (cut_settled out)
  from came_back_left [OF assms(1,2) cut_settled(2), of ending] cut_settled(1) show ?thesis by (auto simp: run_left_def)
next
  case cut_before
  have "run_row (gd_next_run d) d = None"
    using assms(2) by (auto simp: run_row_def find_None_iff runs_numbered_def)
  with cut_before show ?thesis by simp
next
  case (cut_running g' d1 run)
  with assms(1) have boot: "bootstrap_run g rq (sv_now sv) d = (d1, run)" by simp
  note facts = bootstrap_run_facts [OF boot]
  have rows: "gd_runs d' = gd_runs d @ [started_row g rq (sv_now sv) d]"
    using node_writes_keep_runs [OF cut_running(4)] facts(2) by simp
  have "gr_completed_at (started_row g rq (sv_now sv) d) = None" "gr_status (started_row g rq (sv_now sv) d) = ''running''"
    by (simp_all add: started_row_def create_run_def Let_def)
  with run_row_new [OF rows facts(3) assms(2)] cut_running(1) show ?thesis by simp
next
  case (raised_running g' d1 run d2 e out)
  with assms(1) have boot: "bootstrap_run g rq (sv_now sv) d = (d1, run)" by simp
  note facts = bootstrap_run_facts [OF boot]
  have rows: "gd_runs d2 = gd_runs d @ [started_row g rq (sv_now sv) d]"
    using node_writes_keep_runs [OF raised_running(3)] facts(2) by simp
  note new = run_row_new [OF rows facts(3) assms(2)]
  from raised_running(4) have "settled sv run (is_ok out) False d2 d'"
    using settled_fail [OF new(1)] facts(1) by (auto simp: settle_run_def)
  with settled_left [OF this raised_running(5)] new(2) facts(1) show ?thesis
    unfolding settled_def run_left_def by auto
qed

text \<open>C13 Under the mode that resumes only safe runs the AI turn is never started behind an unsafe
  effect: when the run row says the fallback was attempted, no node run of the run records a
  committed unsafe effect, provided the adapters flag the unsafe effects they report.\<close>

theorem fallback_only_after_safe_runs:
  assumes load: "load_graph (sv_check_schema sv) (rq_profile rq) (rq_automation rq) d = Inr g"
    and num: "runs_numbered d" and mode: "am_fallback_mode (lg_automation g) = ''resume_with_ai_if_safe''"
    and hon: "honest (xe_registry (sv_env sv))"
    and run: "execute_triggered_automation sv rq d = (d', out)"
    and row: "run_row (gd_next_run d) d' = Some r" "gr_fallback r \<in> {Some ''succeeded'', Some ''failed''}"
    and node: "n \<in> set (gd_node_runs d')" "nr_run n = gd_next_run d" "nr_effects n = Some fx"
  shows "\<not> has_unsafe_effects fx"
proof -
  have known: "am_fallback_mode (lg_automation g) \<in> set known_modes" by (simp add: mode known_modes_def)
  from triggered_run_settled [OF load num known run] obtain d1 d2 res resumed where
    boot: "bootstrap_run g rq (sv_now sv) d = (d1, gd_next_run d)"
    and exec: "execute_graph g (run_env sv rq (gd_next_run d)) d1 = (d2, res)"
    and settled: "settled sv (gd_next_run d) (is_ok out) resumed d2 d'"
    and res: "resumed \<longrightarrow> (\<exists>oc. res = Inr oc \<and> \<not> oc_succeeded oc
      \<and> (am_fallback_mode (lg_automation g) = ''resume_with_ai_if_safe'' \<longrightarrow> \<not> oc_unsafe oc))" by metis
  from settled row have resumed and nodes: "gd_node_runs d' = gd_node_runs d2"
    unfolding settled_def by auto
  with res mode obtain oc where oc: "res = Inr oc" "\<not> oc_unsafe oc" by blast
  have "effects_covered (gd_next_run d) False d1"
    using num unfolding effects_covered_def bootstrap_run_facts(5) [OF boot]
    by (auto simp: runs_numbered_def pending_row_def set_zip)
  from execute_graph_covered [OF _ this exec [unfolded oc(1)]] hon
  have "effects_covered (gd_next_run d) (oc_unsafe oc) d2" by (simp add: run_env_def)
  with node nodes oc(2) show ?thesis by (auto simp: effects_covered_def)
qed

section \<open>A concrete fallback\<close>

text \<open>A graph whose second node raises, under an automation that resumes safe runs with a turn.\<close>

definition example_resume_db :: graph_db where
  "example_resume_db = example_graph_db\<lparr>
     gd_automations := [example_automation\<lparr>am_fallback_mode := ''resume_with_ai_if_safe''\<rparr>],
     gd_nodes := lg_nodes example_failing_graph, gd_edges := lg_edges example_failing_graph\<rparr>"

definition example_services :: graph_services where
  "example_services = \<lparr>sv_check_schema = (\<lambda>_. True), sv_env = example_env,
     sv_fallback = (\<lambda>_ _ _. Inr (V_Str ''done'')), sv_error_text = (\<lambda>_. ''error''), sv_now = 7\<rparr>"

definition example_request :: run_request where
  "example_request = \<lparr>rq_profile = ''p'', rq_automation = 1, rq_trigger_type = ''cron'', rq_payload = [],
     rq_session = None, rq_event_hash = None\<rparr>"

lemma example_resume_load:
  "map_option (\<lambda>g. am_fallback_mode (lg_automation g))
     (case load_graph (sv_check_schema example_services) (rq_profile example_request)
        (rq_automation example_request) example_resume_db of Inl _ \<Rightarrow> None | Inr g \<Rightarrow> Some g)
   = Some ''resume_with_ai_if_safe''"
  by code_simp

lemma example_resume_numbered: "runs_numbered example_resume_db"
  by code_simp

lemma example_resume_run:
  "(\<lambda>r. (map_option (\<lambda>w. (gr_status w, gr_fallback w)) (run_row 1 (fst r)),
         map (\<lambda>n. (nr_run n, nr_status n, nr_effects n)) (gd_node_runs (fst r)), is_ok (snd r)))
     (execute_triggered_automation example_services example_request example_resume_db)
   = (Some (''fallback_succeeded'', Some ''succeeded''),
      [(1, Node_Succeeded, None), (1, Node_Failed, None), (1, Node_Pending, None)], True)"
  by code_simp

lemma example_honest: "honest (xe_registry (sv_env example_services))"
  by (simp add: example_services_def example_env_def) (rule default_registry_honest, simp add: raising_def)

lemma example_resume_loaded:
  obtains g where "load_graph (sv_check_schema example_services) (rq_profile example_request)
      (rq_automation example_request) example_resume_db = Inr g"
    and "am_fallback_mode (lg_automation g) = ''resume_with_ai_if_safe''"
  using example_resume_load by (auto split: sum.splits)

theorem triggered_run_ends_witness:
  "\<exists>d' out r. execute_triggered_automation example_services example_request example_resume_db = (d', out)
    \<and> run_row 1 d' = Some r \<and> gr_completed_at r = Some 7 \<and> gr_status r = ''fallback_succeeded'' \<and> is_ok out"
proof -
  obtain g where g: "load_graph (sv_check_schema example_services) (rq_profile example_request)
      (rq_automation example_request) example_resume_db = Inr g"
    "am_fallback_mode (lg_automation g) = ''resume_with_ai_if_safe''" by (rule example_resume_loaded)
  obtain d' out where run: "execute_triggered_automation example_services example_request example_resume_db = (d', out)"
    by fastforce
  have next_run: "gd_next_run example_resume_db = 1" and now: "sv_now example_services = 7" by code_simp+
  have known: "am_fallback_mode (lg_automation g) \<in> set known_modes" unfolding g(2) by code_simp
  from example_resume_run run obtain r where r: "run_row 1 d' = Some r" "gr_status r = ''fallback_succeeded''" "is_ok out"
    by (auto simp: map_option_case split: option.splits)
  from triggered_run_ends [OF g(1) example_resume_numbered triggered_run.came_back [OF run], unfolded next_run now r(1) option.case]
  have "gr_completed_at r = Some 7" using r(2) by (cases "gr_completed_at r") simp_all
  with r run show ?thesis by blast
qed

theorem fallback_only_after_safe_runs_witness:
  "\<exists>d' out r. execute_triggered_automation example_services example_request example_resume_db = (d', out)
    \<and> run_row 1 d' = Some r \<and> gr_fallback r = Some ''succeeded''
    \<and> (\<forall>n \<in> set (gd_node_runs d'). \<forall>fx. nr_run n = 1 \<longrightarrow> nr_effects n = Some fx \<longrightarrow> \<not> has_unsafe_effects fx)"
proof -
  obtain g where g: "load_graph (sv_check_schema example_services) (rq_profile example_request)
      (rq_automation example_request) example_resume_db = Inr g"
    "am_fallback_mode (lg_automation g) = ''resume_with_ai_if_safe''" by (rule example_resume_loaded)
  obtain d' out where run: "execute_triggered_automation example_services example_request example_resume_db = (d', out)"
    by fastforce
  have next_run: "gd_next_run example_resume_db = 1" by code_simp
  from example_resume_run run obtain r where r: "run_row 1 d' = Some r" "gr_fallback r = Some ''succeeded''"
    by auto
  then have "gr_fallback r \<in> {Some ''succeeded'', Some ''failed''}" by simp
  from fallback_only_after_safe_runs [OF g(1) example_resume_numbered g(2) example_honest run,
      unfolded next_run, OF r(1) this] r run
  show ?thesis by blast
qed

text \<open>
  An exception of an AI node counts as unsafe, one of an agent node does not: after the same
  failure the turn is started behind the agent node only.
\<close>

definition example_single_db :: "string \<Rightarrow> string \<Rightarrow> graph_db" where
  "example_single_db kind ty = example_resume_db\<lparr>
     gd_nodes := [example_node 1 ''n'' kind ty []], gd_edges := []\<rparr>"

lemma agent_exception_counts_as_safe:
  "(\<lambda>r. map_option gr_fallback (run_row 1 (fst r)))
     (execute_triggered_automation example_services example_request (example_single_db ''ai'' ''prompt''))
   = Some (Some ''skipped_unsafe'')"
  "(\<lambda>r. map_option gr_fallback (run_row 1 (fst r)))
     (execute_triggered_automation example_services example_request (example_single_db ''agent'' ''subagent.run''))
   = Some (Some ''succeeded'')"
  by (code_simp, code_simp)

end
