(* ===== verification/Trigger_Store.thy ===== *)
theory Trigger_Store
  imports Graph_Store Lease
begin

text \<open>
  The rows of automations with their triggers and the repository operations on them
  (models/automation*.py, repositories/automation_repo_crud.py, automation_repo_claims.py). A
  cron trigger is claimed under a token until an instant; a webhook trigger is claimed for the
  hash of one event, and the hashes of completed events are kept.
\<close>

section \<open>Rows\<close>

record auto_row = automation +
  am_name :: string
  am_delivery_mode :: string
  am_created_at :: instant
  am_updated_at :: instant

record cron_trigger =
  cr_automation :: nat
  cr_expr :: string
  cr_timezone :: string
  cr_next_run_at :: "instant option"
  cr_last_run_at :: "instant option"
  cr_token :: "string option"
  cr_claimed_until :: "instant option"

record webhook_trigger =
  wh_automation :: nat
  wh_token_ref :: string
  wh_token_hash :: string
  wh_encrypted :: "string option"
  wh_key_version :: "string option"
  wh_last_event :: "string option"
  wh_event :: "string option"
  wh_token :: "string option"
  wh_until :: "instant option"
  wh_last_session :: "string option"
  wh_last_started :: "instant option"
  wh_last_succeeded :: "instant option"
  wh_last_failed :: "instant option"
  wh_last_error :: "string option"
  wh_last_received :: "instant option"

text \<open>\<open>wh_event\<close> and \<open>wh_until\<close> are \<open>in_progress_event_hash\<close> and \<open>in_progress_until\<close>.\<close>

record trigger_db =
  tg_profiles :: "string list"
  tg_autos :: "auto_row list"
  tg_crons :: "cron_trigger list"
  tg_hooks :: "webhook_trigger list"
  tg_processed :: "(nat \<times> string) list"
  tg_next_id :: nat

section \<open>Creating and reading\<close>

definition create_cron_automation ::
    "string \<Rightarrow> string \<Rightarrow> string \<Rightarrow> string \<Rightarrow> string \<Rightarrow> instant option \<Rightarrow> string \<Rightarrow> string \<Rightarrow> string \<Rightarrow> instant
     \<Rightarrow> trigger_db \<Rightarrow> trigger_db \<times> auto_row \<times> cron_trigger" where
  "create_cron_automation profile_id nm prompt cron_expr tz next_run_at mode fallback delivery now d =
     (let a = \<lparr>am_id = tg_next_id d, am_profile = profile_id, am_prompt = prompt, am_trigger_type = ''cron'',
               am_status = ''active'', am_execution_mode = mode, am_fallback_mode = fallback,
               am_name = nm, am_delivery_mode = delivery, am_created_at = now, am_updated_at = now\<rparr>;
          c = \<lparr>cr_automation = tg_next_id d, cr_expr = cron_expr, cr_timezone = tz,
               cr_next_run_at = next_run_at, cr_last_run_at = None, cr_token = None, cr_claimed_until = None\<rparr>
      in (d\<lparr>tg_autos := tg_autos d @ [a], tg_crons := tg_crons d @ [c], tg_next_id := tg_next_id d + 1\<rparr>, a, c))"

text \<open>The two unique indexes on webhook tokens.\<close>

definition check_webhook_indexes :: "trigger_db \<Rightarrow> unit res" where
  "check_webhook_indexes d =
     (if \<not> distinct (map wh_token_ref (tg_hooks d)) then Inl (Integrity_Error ''ix_automation_webhook_token'')
      else if \<not> distinct (map wh_token_hash (tg_hooks d))
      then Inl (Integrity_Error ''ix_automation_webhook_token_hash'')
      else Inr ())"

definition stored_webhook_token_ref :: "string \<Rightarrow> string" where
  "stored_webhook_token_ref token_hash = ''sha256:'' @ strip token_hash"

definition webhook_token_column :: "string option \<Rightarrow> string \<Rightarrow> string" where
  "webhook_token_column token_ref token_hash =
     (if str_or_empty token_ref \<noteq> [] then str_or_empty token_ref else stored_webhook_token_ref token_hash)"

definition create_webhook_automation ::
    "string \<Rightarrow> string \<Rightarrow> string \<Rightarrow> string \<Rightarrow> string option \<Rightarrow> string option \<Rightarrow> string option \<Rightarrow> string \<Rightarrow> string
     \<Rightarrow> string \<Rightarrow> instant \<Rightarrow> trigger_db \<Rightarrow> (trigger_db \<times> auto_row \<times> webhook_trigger) res" where
  "create_webhook_automation profile_id nm prompt token_hash token_ref encrypted key_version mode fallback
       delivery now d =
     (let a = \<lparr>am_id = tg_next_id d, am_profile = profile_id, am_prompt = prompt, am_trigger_type = ''webhook'',
               am_status = ''active'', am_execution_mode = mode, am_fallback_mode = fallback,
               am_name = nm, am_delivery_mode = delivery, am_created_at = now, am_updated_at = now\<rparr>;
          w = \<lparr>wh_automation = tg_next_id d, wh_token_ref = webhook_token_column token_ref token_hash,
               wh_token_hash = token_hash, wh_encrypted = encrypted, wh_key_version = key_version,
               wh_last_event = None, wh_event = None, wh_token = None, wh_until = None,
               wh_last_session = None, wh_last_started = None, wh_last_succeeded = None,
               wh_last_failed = None, wh_last_error = None, wh_last_received = None\<rparr>;
          d' = d\<lparr>tg_autos := tg_autos d @ [a], tg_hooks := tg_hooks d @ [w], tg_next_id := tg_next_id d + 1\<rparr>
      in bindE (check_webhook_indexes d') (\<lambda>_. Inr (d', a, w)))"

text \<open>\<open>automation_id\<close> is the primary key of both trigger tables.\<close>

definition cron_of :: "nat \<Rightarrow> trigger_db \<Rightarrow> cron_trigger option" where
  "cron_of i d = find (\<lambda>c. cr_automation c = i) (tg_crons d)"

definition webhook_of :: "nat \<Rightarrow> trigger_db \<Rightarrow> webhook_trigger option" where
  "webhook_of i d = find (\<lambda>w. wh_automation w = i) (tg_hooks d)"

type_synonym automation_join = "auto_row \<times> cron_trigger option \<times> webhook_trigger option"

definition base_automation_join :: "trigger_db \<Rightarrow> automation_join list" where
  "base_automation_join d =
     filter (\<lambda>(a, c, w). (am_trigger_type a = ''cron'' \<or> c = None) \<and> (am_trigger_type a = ''webhook'' \<or> w = None))
       (map (\<lambda>a. (a, cron_of (am_id a) d, webhook_of (am_id a) d)) (tg_autos d))"

definition get_by_id :: "string \<Rightarrow> nat \<Rightarrow> trigger_db \<Rightarrow> automation_join option res" where
  "get_by_id profile_id automation_id d =
     scalar_one_or_none (filter (\<lambda>(a, c, w). am_profile a = profile_id \<and> am_id a = automation_id)
       (base_automation_join d))"

definition list_by_profile :: "string \<Rightarrow> bool \<Rightarrow> trigger_db \<Rightarrow> automation_join list" where
  "list_by_profile profile_id include_deleted d =
     sort_key (\<lambda>(a, c, w). am_id a)
       (filter (\<lambda>(a, c, w). am_profile a = profile_id \<and> (include_deleted \<or> am_status a \<noteq> ''deleted''))
         (base_automation_join d))"

text \<open>
  A changed row gets a new \<open>updated_at\<close> when it is flushed (\<open>onupdate\<close> of TimestampMixin); a row
  whose columns keep their values is not written.
\<close>

definition flushed :: "instant \<Rightarrow> auto_row \<Rightarrow> auto_row \<Rightarrow> auto_row" where
  "flushed now old new = (if new = old then old else new\<lparr>am_updated_at := now\<rparr>)"

definition soft_delete :: "string \<Rightarrow> nat \<Rightarrow> instant \<Rightarrow> trigger_db \<Rightarrow> (trigger_db \<times> bool) res" where
  "soft_delete profile_id automation_id now d =
     bindE (get_by_id profile_id automation_id d) (\<lambda>row.
       case row of
         None \<Rightarrow> Inr (d, False)
       | Some (a, _, _) \<Rightarrow>
           if am_status a = ''deleted'' then Inr (d, False)
           else Inr (d\<lparr>tg_autos := update_where (\<lambda>r. am_id r = automation_id)
                         (\<lambda>r. flushed now r (r\<lparr>am_status := ''deleted''\<rparr>))
                         (tg_autos d)\<rparr>, True))"

definition set_if :: "'a option \<Rightarrow> ('a \<Rightarrow> 'r \<Rightarrow> 'r) \<Rightarrow> 'r \<Rightarrow> 'r" where
  "set_if v f r = (case v of None \<Rightarrow> r | Some x \<Rightarrow> f x r)"

definition update_automation ::
    "string \<Rightarrow> nat \<Rightarrow> string option \<Rightarrow> string option \<Rightarrow> string option \<Rightarrow> string option \<Rightarrow> string option
     \<Rightarrow> instant \<Rightarrow> trigger_db \<Rightarrow> (trigger_db \<times> auto_row option) res" where
  "update_automation profile_id automation_id nm prompt status mode fallback now d =
     bindE (scalar_one_or_none (filter (\<lambda>a. am_profile a = profile_id \<and> am_id a = automation_id) (tg_autos d))) (\<lambda>row.
       case row of
         None \<Rightarrow> Inr (d, None)
       | Some a \<Rightarrow>
           (let a' = flushed now a (set_if fallback (\<lambda>v r. r\<lparr>am_fallback_mode := v\<rparr>)
                      (set_if mode (\<lambda>v r. r\<lparr>am_execution_mode := v\<rparr>)
                        (set_if status (\<lambda>v r. r\<lparr>am_status := v\<rparr>)
                          (set_if prompt (\<lambda>v r. r\<lparr>am_prompt := v\<rparr>)
                            (set_if nm (\<lambda>v r. r\<lparr>am_name := v\<rparr>) a)))))
            in Inr (d\<lparr>tg_autos := update_where (\<lambda>r. am_id r = automation_id) (\<lambda>_. a') (tg_autos d)\<rparr>, Some a')))"

definition touch_automation :: "string \<Rightarrow> nat \<Rightarrow> instant \<Rightarrow> trigger_db \<Rightarrow> (trigger_db \<times> auto_row option) res" where
  "touch_automation profile_id automation_id now d =
     bindE (scalar_one_or_none (filter (\<lambda>a. am_profile a = profile_id \<and> am_id a = automation_id) (tg_autos d))) (\<lambda>row.
       case row of
         None \<Rightarrow> Inr (d, None)
       | Some a \<Rightarrow> Inr (d\<lparr>tg_autos := update_where (\<lambda>r. am_id r = automation_id) (\<lambda>_. a\<lparr>am_updated_at := now\<rparr>)
                             (tg_autos d)\<rparr>, Some (a\<lparr>am_updated_at := now\<rparr>)))"

definition update_cron_trigger ::
    "nat \<Rightarrow> string option \<Rightarrow> string option \<Rightarrow> instant option \<Rightarrow> trigger_db \<Rightarrow> trigger_db \<times> cron_trigger option" where
  "update_cron_trigger automation_id cron_expr tz next_run_at d =
     (case cron_of automation_id d of
        None \<Rightarrow> (d, None)
      | Some c \<Rightarrow>
          (let c' = set_if next_run_at (\<lambda>v r. r\<lparr>cr_next_run_at := Some v\<rparr>)
                     (set_if tz (\<lambda>v r. r\<lparr>cr_timezone := v\<rparr>) (set_if cron_expr (\<lambda>v r. r\<lparr>cr_expr := v\<rparr>) c))
           in (d\<lparr>tg_crons := update_where (\<lambda>r. cr_automation r = automation_id) (\<lambda>_. c') (tg_crons d)\<rparr>, Some c')))"

definition update_webhook_trigger ::
    "nat \<Rightarrow> string option \<Rightarrow> string option \<Rightarrow> string option \<Rightarrow> string option \<Rightarrow> trigger_db
     \<Rightarrow> (trigger_db \<times> webhook_trigger option) res" where
  "update_webhook_trigger automation_id token_hash token_ref encrypted key_version d =
     (case webhook_of automation_id d of
        None \<Rightarrow> Inr (d, None)
      | Some w \<Rightarrow>
          (let w' = set_if token_hash (\<lambda>h r. r\<lparr>wh_token_hash := h, wh_token_ref := webhook_token_column token_ref h,
                       wh_encrypted := encrypted, wh_key_version := key_version\<rparr>) w;
               d' = d\<lparr>tg_hooks := update_where (\<lambda>r. wh_automation r = automation_id) (\<lambda>_. w') (tg_hooks d)\<rparr>
           in bindE (check_webhook_indexes d') (\<lambda>_. Inr (d', Some w'))))"

definition find_webhook_by_target ::
    "(string \<Rightarrow> string) \<Rightarrow> string \<Rightarrow> string \<Rightarrow> trigger_db \<Rightarrow> (auto_row \<times> webhook_trigger) option res" where
  "find_webhook_by_target hash profile_id token d =
     scalar_one_or_none
       (filter (\<lambda>(a, w). wh_automation w = am_id a \<and> am_profile a = profile_id \<and> wh_token_hash w = hash token
                  \<and> am_status a = ''active'' \<and> am_trigger_type a = ''webhook'')
         (List.product (tg_autos d) (tg_hooks d)))"

text \<open>Ascending with NULLs first.\<close>

definition nulls_first :: "instant option \<Rightarrow> nat \<times> instant" where
  "nulls_first v = (case v of None \<Rightarrow> (0, 0) | Some t \<Rightarrow> (1, t))"

definition at_or_before :: "instant option \<Rightarrow> instant \<Rightarrow> bool" where
  "at_or_before v t \<longleftrightarrow> (case v of None \<Rightarrow> True | Some u \<Rightarrow> u \<le> t)"

definition due_cron :: "instant \<Rightarrow> cron_trigger \<Rightarrow> bool" where
  "due_cron now c \<longleftrightarrow> at_or_before (cr_next_run_at c) now \<and> at_or_before (cr_claimed_until c) now"

definition list_due_cron :: "instant \<Rightarrow> int option \<Rightarrow> trigger_db \<Rightarrow> (auto_row \<times> cron_trigger) list" where
  "list_due_cron now limit d =
     (let rows = sort_key (\<lambda>(a, c). (nulls_first (cr_last_run_at c), nulls_first (cr_next_run_at c), am_id a))
                   (filter (\<lambda>(a, c). cr_automation c = am_id a \<and> am_status a = ''active''
                              \<and> am_trigger_type a = ''cron'' \<and> due_cron now c)
                     (List.product (tg_autos d) (tg_crons d)))
      in case limit of None \<Rightarrow> rows | Some n \<Rightarrow> take (nat (max 1 n)) rows)"

section \<open>Claims\<close>

text \<open>The correlated \<open>EXISTS\<close> of the claim statements.\<close>

definition active_automation :: "nat \<Rightarrow> string \<Rightarrow> trigger_db \<Rightarrow> bool" where
  "active_automation i ty d \<longleftrightarrow>
     list_ex (\<lambda>a. am_id a = i \<and> am_status a = ''active'' \<and> am_trigger_type a = ty) (tg_autos d)"

definition update_crons ::
    "(cron_trigger \<Rightarrow> bool) \<Rightarrow> (cron_trigger \<Rightarrow> cron_trigger) \<Rightarrow> trigger_db \<Rightarrow> trigger_db \<times> bool" where
  "update_crons p f d = (d\<lparr>tg_crons := update_where p f (tg_crons d)\<rparr>, 0 < rowcount p (tg_crons d))"

definition update_hooks ::
    "(webhook_trigger \<Rightarrow> bool) \<Rightarrow> (webhook_trigger \<Rightarrow> webhook_trigger) \<Rightarrow> trigger_db \<Rightarrow> trigger_db \<times> bool" where
  "update_hooks p f d = (d\<lparr>tg_hooks := update_where p f (tg_hooks d)\<rparr>, 0 < rowcount p (tg_hooks d))"

definition claim_cron_execution ::
    "nat \<Rightarrow> instant \<Rightarrow> instant \<Rightarrow> string \<Rightarrow> trigger_db \<Rightarrow> trigger_db \<times> bool" where
  "claim_cron_execution automation_id due claim_until claim_token d =
     update_crons (\<lambda>c. cr_automation c = automation_id \<and> active_automation automation_id ''cron'' d \<and> due_cron due c)
       (\<lambda>c. c\<lparr>cr_claimed_until := Some claim_until, cr_token := Some claim_token\<rparr>) d"

definition holds_cron :: "nat \<Rightarrow> string \<Rightarrow> cron_trigger \<Rightarrow> bool" where
  "holds_cron automation_id claim_token c \<longleftrightarrow> cr_automation c = automation_id \<and> cr_token c = Some claim_token"

definition mark_cron_executed ::
    "nat \<Rightarrow> instant \<Rightarrow> instant \<Rightarrow> string \<Rightarrow> trigger_db \<Rightarrow> trigger_db \<times> bool" where
  "mark_cron_executed automation_id next_run_at executed_at claim_token =
     update_crons (holds_cron automation_id claim_token)
       (\<lambda>c. c\<lparr>cr_last_run_at := Some executed_at, cr_next_run_at := Some next_run_at,
              cr_token := None, cr_claimed_until := None\<rparr>)"

definition refresh_cron_claim :: "nat \<Rightarrow> string \<Rightarrow> instant \<Rightarrow> trigger_db \<Rightarrow> trigger_db \<times> bool" where
  "refresh_cron_claim automation_id claim_token claim_until =
     update_crons (holds_cron automation_id claim_token) (\<lambda>c. c\<lparr>cr_claimed_until := Some claim_until\<rparr>)"

definition release_cron_claim :: "nat \<Rightarrow> string \<Rightarrow> trigger_db \<Rightarrow> trigger_db \<times> bool" where
  "release_cron_claim automation_id claim_token =
     update_crons (holds_cron automation_id claim_token) (\<lambda>c. c\<lparr>cr_claimed_until := None, cr_token := None\<rparr>)"

definition free_webhook :: "instant \<Rightarrow> webhook_trigger \<Rightarrow> bool" where
  "free_webhook received_at w \<longleftrightarrow> wh_event w = None \<or> at_or_before (wh_until w) received_at"

definition claim_webhook_event ::
    "nat \<Rightarrow> instant \<Rightarrow> string \<Rightarrow> instant \<Rightarrow> string \<Rightarrow> string \<Rightarrow> trigger_db \<Rightarrow> trigger_db \<times> bool" where
  "claim_webhook_event automation_id received_at event_hash lease_until claim_token session_id d =
     (if (automation_id, event_hash) \<in> set (tg_processed d) then (d, False)
      else update_hooks
        (\<lambda>w. wh_automation w = automation_id \<and> active_automation automation_id ''webhook'' d
           \<and> (automation_id, event_hash) \<notin> set (tg_processed d) \<and> free_webhook received_at w)
        (\<lambda>w. w\<lparr>wh_event := Some event_hash, wh_token := Some claim_token, wh_until := Some lease_until,
               wh_last_received := Some received_at, wh_last_session := Some session_id, wh_last_error := None\<rparr>) d)"

definition holds_webhook :: "nat \<Rightarrow> string \<Rightarrow> string \<Rightarrow> webhook_trigger \<Rightarrow> bool" where
  "holds_webhook automation_id event_hash claim_token w \<longleftrightarrow>
     wh_automation w = automation_id \<and> wh_event w = Some event_hash \<and> wh_token w = Some claim_token"

text \<open>The nested insert loses against an existing row and changes nothing then.\<close>

definition record_processed_webhook_event :: "nat \<Rightarrow> string \<Rightarrow> trigger_db \<Rightarrow> trigger_db" where
  "record_processed_webhook_event automation_id event_hash d =
     (if (automation_id, event_hash) \<in> set (tg_processed d) then d
      else d\<lparr>tg_processed := tg_processed d @ [(automation_id, event_hash)]\<rparr>)"

definition complete_webhook_event ::
    "nat \<Rightarrow> string \<Rightarrow> string \<Rightarrow> instant \<Rightarrow> trigger_db \<Rightarrow> trigger_db \<times> bool" where
  "complete_webhook_event automation_id event_hash claim_token completed_at d =
     (case update_hooks (holds_webhook automation_id event_hash claim_token)
         (\<lambda>w. w\<lparr>wh_last_event := Some event_hash, wh_event := None, wh_token := None, wh_until := None,
                wh_last_succeeded := Some completed_at, wh_last_error := None\<rparr>) d of
        (d1, ok) \<Rightarrow> if \<not> ok then (d1, False)
                    else (record_processed_webhook_event automation_id event_hash d1, True))"

definition release_webhook_event ::
    "nat \<Rightarrow> string \<Rightarrow> string \<Rightarrow> instant \<Rightarrow> string \<Rightarrow> trigger_db \<Rightarrow> trigger_db \<times> bool" where
  "release_webhook_event automation_id event_hash claim_token failed_at error_message =
     update_hooks (holds_webhook automation_id event_hash claim_token)
       (\<lambda>w. w\<lparr>wh_event := None, wh_token := None, wh_until := None,
              wh_last_failed := Some failed_at, wh_last_error := Some error_message\<rparr>)"

definition mark_webhook_started ::
    "nat \<Rightarrow> string \<Rightarrow> string \<Rightarrow> instant \<Rightarrow> trigger_db \<Rightarrow> trigger_db \<times> bool" where
  "mark_webhook_started automation_id event_hash claim_token started_at =
     update_hooks (holds_webhook automation_id event_hash claim_token) (\<lambda>w. w\<lparr>wh_last_started := Some started_at\<rparr>)"

definition refresh_webhook_claim ::
    "nat \<Rightarrow> string \<Rightarrow> string \<Rightarrow> instant \<Rightarrow> trigger_db \<Rightarrow> trigger_db \<times> bool" where
  "refresh_webhook_claim automation_id event_hash claim_token lease_until =
     update_hooks (holds_webhook automation_id event_hash claim_token) (\<lambda>w. w\<lparr>wh_until := Some lease_until\<rparr>)"

section \<open>Held rows\<close>

datatype cron_op = Executed instant instant | Refresh_Cron instant | Release_Cron

fun run_cron_op :: "cron_op \<Rightarrow> nat \<Rightarrow> string \<Rightarrow> trigger_db \<Rightarrow> trigger_db \<times> bool" where
  "run_cron_op (Executed next_run now) i t d = mark_cron_executed i next_run now t d"
| "run_cron_op (Refresh_Cron until) i t d = refresh_cron_claim i t until d"
| "run_cron_op Release_Cron i t d = release_cron_claim i t d"

datatype webhook_op =
    Complete_Event string instant
  | Release_Event string instant string
  | Start_Event string instant
  | Refresh_Event string instant

fun run_webhook_op :: "webhook_op \<Rightarrow> nat \<Rightarrow> string \<Rightarrow> trigger_db \<Rightarrow> trigger_db \<times> bool" where
  "run_webhook_op (Complete_Event h now) i t d = complete_webhook_event i h t now d"
| "run_webhook_op (Release_Event h now e) i t d = release_webhook_event i h t now e d"
| "run_webhook_op (Start_Event h now) i t d = mark_webhook_started i h t now d"
| "run_webhook_op (Refresh_Event h until) i t d = refresh_webhook_claim i h t until d"

lemma update_hooks_none: "\<forall>w \<in> set (tg_hooks d). \<not> p w \<Longrightarrow> update_hooks p f d = (d, False)"
  by (simp add: update_hooks_def update_where_none rowcount_0_iff)

lemma update_crons_none: "\<forall>c \<in> set (tg_crons d). \<not> p c \<Longrightarrow> update_crons p f d = (d, False)"
  by (simp add: update_crons_def update_where_none rowcount_0_iff)

lemmas cron_op_defs = mark_cron_executed_def refresh_cron_claim_def release_cron_claim_def update_crons_def
  holds_cron_def

lemmas webhook_op_defs = complete_webhook_event_def release_webhook_event_def mark_webhook_started_def
  refresh_webhook_claim_def update_hooks_def holds_webhook_def record_processed_webhook_event_def

interpretation cron: lease "\<lambda>d::trigger_db. set (tg_crons d)" cr_automation cr_token run_cron_op
proof unfold_locales
  fix r x k t and d :: trigger_db
  assume "r \<in> set (tg_crons d)" and "\<not> (cr_automation r = k \<and> cr_token r = Some t)"
  then show "r \<in> set (tg_crons (fst (run_cron_op x k t d)))"
    by (cases x) (auto simp: cron_op_defs set_update_where)
next
  fix r x k t and d :: trigger_db
  assume "r \<in> set (tg_crons (fst (run_cron_op x k t d)))" and "r \<notin> set (tg_crons d)"
  then show "(\<exists>r0 \<in> set (tg_crons d). cr_automation r0 = k \<and> cr_token r0 = Some t) \<and> cr_automation r = k
      \<and> (cr_token r = Some t \<or> cr_token r = None)"
    by (cases x) (auto simp: cron_op_defs set_update_where split: if_splits)
next
  fix x k t and d :: trigger_db
  assume "snd (run_cron_op x k t d)"
  then show "\<exists>r \<in> set (tg_crons d). cr_automation r = k \<and> cr_token r = Some t"
    by (cases x) (auto simp: cron_op_defs rowcount_pos_iff)
qed

interpretation webhook: lease "\<lambda>d::trigger_db. set (tg_hooks d)" wh_automation wh_token run_webhook_op
proof unfold_locales
  fix r x k t and d :: trigger_db
  assume "r \<in> set (tg_hooks d)" and "\<not> (wh_automation r = k \<and> wh_token r = Some t)"
  then show "r \<in> set (tg_hooks (fst (run_webhook_op x k t d)))"
    by (cases x) (auto simp: webhook_op_defs set_update_where Let_def)
next
  fix r x k t and d :: trigger_db
  assume "r \<in> set (tg_hooks (fst (run_webhook_op x k t d)))" and "r \<notin> set (tg_hooks d)"
  then show "(\<exists>r0 \<in> set (tg_hooks d). wh_automation r0 = k \<and> wh_token r0 = Some t) \<and> wh_automation r = k
      \<and> (wh_token r = Some t \<or> wh_token r = None)"
    by (cases x) (auto simp: webhook_op_defs set_update_where Let_def split: if_splits)
next
  fix x k t and d :: trigger_db
  assume "snd (run_webhook_op x k t d)"
  then show "\<exists>r \<in> set (tg_hooks d). wh_automation r = k \<and> wh_token r = Some t"
    by (cases x) (auto simp: webhook_op_defs rowcount_pos_iff split: if_splits)
qed

section \<open>Every write of the repository\<close>

inductive trigger_step :: "trigger_db \<Rightarrow> trigger_db \<Rightarrow> bool" where
  create_cron: "create_cron_automation p n pr e tz nx m f dl now d = (d', a, c) \<Longrightarrow> trigger_step d d'"
| create_webhook: "create_webhook_automation p n pr h rf en kv m f dl now d = Inr (d', a, w) \<Longrightarrow> trigger_step d d'"
| delete: "soft_delete p i now d = Inr (d', b) \<Longrightarrow> trigger_step d d'"
| update: "update_automation p i n pr s m f now d = Inr (d', ao) \<Longrightarrow> trigger_step d d'"
| touch: "touch_automation p i now d = Inr (d', ao) \<Longrightarrow> trigger_step d d'"
| update_cron: "update_cron_trigger i e tz nx d = (d', co) \<Longrightarrow> trigger_step d d'"
| update_webhook: "update_webhook_trigger i h rf en kv d = Inr (d', wo) \<Longrightarrow> trigger_step d d'"
| claim_cron: "claim_cron_execution i due until t d = (d', b) \<Longrightarrow> trigger_step d d'"
| cron_op: "run_cron_op x i t d = (d', b) \<Longrightarrow> trigger_step d d'"
| claim_webhook: "claim_webhook_event i now h until t s d = (d', b) \<Longrightarrow> trigger_step d d'"
| webhook_op: "run_webhook_op y i t d = (d', b) \<Longrightarrow> trigger_step d d'"

abbreviation trigger_steps :: "trigger_db \<Rightarrow> trigger_db \<Rightarrow> bool" where
  "trigger_steps \<equiv> trigger_step\<^sup>*\<^sup>*"

text \<open>Processed events are never forgotten.\<close>

lemma step_keeps_processed: "trigger_step d d' \<Longrightarrow> set (tg_processed d) \<subseteq> set (tg_processed d')"
proof (induction rule: trigger_step.induct)
  case (create_cron p n pr e tz nx m f dl now d d' a c)
  then show ?case by (auto simp: create_cron_automation_def Let_def)
next
  case (create_webhook p n pr h rf en kv m f dl now d d' a w)
  then show ?case by (auto simp: create_webhook_automation_def Let_def bindE_eq_Inr_iff)
next
  case (delete p i now d d' b)
  then show ?case by (auto simp: soft_delete_def bindE_eq_Inr_iff split: option.splits prod.splits if_splits)
next
  case (update p i n pr s m f now d d' ao)
  then show ?case by (auto simp: update_automation_def Let_def bindE_eq_Inr_iff split: option.splits)
next
  case (touch p i now d d' ao)
  then show ?case by (auto simp: touch_automation_def bindE_eq_Inr_iff split: option.splits)
next
  case (update_cron i e tz nx d d' co)
  then show ?case by (auto simp: update_cron_trigger_def Let_def split: option.splits)
next
  case (update_webhook i h rf en kv d d' wo)
  then show ?case by (auto simp: update_webhook_trigger_def Let_def bindE_eq_Inr_iff split: option.splits)
next
  case (claim_cron i due until t d d' b)
  then show ?case by (auto simp: claim_cron_execution_def update_crons_def)
next
  case (cron_op x i t d d' b)
  then show ?case by (cases x) (auto simp: cron_op_defs)
next
  case (claim_webhook i now h until t s d d' b)
  then show ?case by (auto simp: claim_webhook_event_def update_hooks_def split: if_splits)
next
  case (webhook_op y i t d d' b)
  then show ?case by (cases y) (auto simp: webhook_op_defs split: if_splits)
qed

lemma steps_keep_processed: "trigger_steps d d' \<Longrightarrow> set (tg_processed d) \<subseteq> set (tg_processed d')"
  by (induction rule: rtranclp_induct) (auto dest: step_keeps_processed)

end
