(* ===== verification/Cron.thy ===== *)
theory Cron
  imports Py_Values
begin

text \<open>
  Cron expressions and the normalisers of automation arguments
  (services/automations/validators.py). Instants are microseconds since the epoch in UTC; the
  time-zone database is a parameter that answers a zone's offset from UTC at an instant, None
  for a name it does not have, and an error for a malformed one.
\<close>

section \<open>Normalisers\<close>

definition validate_create_payload :: "string \<Rightarrow> string \<Rightarrow> unit res" where
  "validate_create_payload nm prompt =
     (if strip nm = [] then service_error ''invalid_name''
      else if strip prompt = [] then service_error ''invalid_prompt'' else Inr ())"

definition normalize_update_status :: "string \<Rightarrow> string res" where
  "normalize_update_status status =
     (let normalized = lower (strip status) in
      if normalized \<in> {''active'', ''paused''} then Inr normalized else service_error ''invalid_status'')"

definition normalize_execution_mode :: "string \<Rightarrow> string res" where
  "normalize_execution_mode value =
     (let normalized = lower (strip value) in
      if normalized \<in> {''prompt'', ''graph''} then Inr normalized
      else service_error ''invalid_execution_mode'')"

definition normalize_graph_fallback_mode :: "string \<Rightarrow> string res" where
  "normalize_graph_fallback_mode value =
     (let normalized = lower (strip value) in
      if normalized \<in> {''fail_closed'', ''resume_with_ai'', ''resume_with_ai_if_safe''} then Inr normalized
      else service_error ''invalid_graph_fallback_mode'')"

section \<open>Fields\<close>

definition isdigit :: "string \<Rightarrow> bool" where
  "isdigit s \<longleftrightarrow> s \<noteq> [] \<and> list_all is_py_digit s"

text \<open>\<open>int(s)\<close>: superscripts pass \<open>isdigit\<close> and raise ValueError here.\<close>

definition int_or_raise :: "string \<Rightarrow> int res" where
  "int_or_raise s = (case py_int s of None \<Rightarrow> Inl Value_Error | Some n \<Rightarrow> Inr n)"

definition cron_field_error :: "'a res" where
  "cron_field_error = service_error ''invalid_cron_expr''"

definition parse_step :: "string \<Rightarrow> (string \<times> int) res" where
  "parse_step part =
     (case partition_at (CHR ''/'') part of
        (base, slash, step_text) \<Rightarrow>
          if \<not> slash then Inr (part, 1)
          else if \<not> isdigit step_text then cron_field_error
          else bindE (int_or_raise step_text) (\<lambda>step.
            if step \<le> 0 then cron_field_error else Inr (base, step)))"

definition parse_base :: "int \<Rightarrow> int \<Rightarrow> string \<Rightarrow> (int \<times> int) res" where
  "parse_base minimum maximum base =
     (if base = ''*'' then Inr (minimum, maximum)
      else (case partition_at (CHR ''-'') base of
        (start_text, dash, end_text) \<Rightarrow>
          if dash
          then (if \<not> isdigit start_text \<or> \<not> isdigit end_text then cron_field_error
                else bindE (int_or_raise start_text) (\<lambda>start.
                     bindE (int_or_raise end_text) (\<lambda>stop. Inr (start, stop))))
          else (if \<not> isdigit base then cron_field_error
                else bindE (int_or_raise base) (\<lambda>n. Inr (n, n)))))"

definition py_range :: "int \<Rightarrow> int \<Rightarrow> int \<Rightarrow> int list" where
  "py_range start stop step = filter (\<lambda>v. (v - start) mod step = 0) [start..stop]"

definition parse_part :: "int \<Rightarrow> int \<Rightarrow> bool \<Rightarrow> string \<Rightarrow> int set res" where
  "parse_part minimum maximum map_seven raw_part =
     (let part = strip raw_part in
      if part = [] then cron_field_error
      else bindE (parse_step part) (\<lambda>(base, step).
           bindE (parse_base minimum maximum base) (\<lambda>(start, stop).
             if start < minimum \<or> maximum < stop \<or> stop < start then cron_field_error
             else Inr (set (map (\<lambda>v. if map_seven \<and> v = 7 then 0 else v) (py_range start stop step))))))"

fun collect_parts :: "int \<Rightarrow> int \<Rightarrow> bool \<Rightarrow> string list \<Rightarrow> int set res" where
  "collect_parts minimum maximum map_seven [] = Inr {}"
| "collect_parts minimum maximum map_seven (p # ps) =
     bindE (parse_part minimum maximum map_seven p) (\<lambda>vs.
     bindE (collect_parts minimum maximum map_seven ps) (\<lambda>rest. Inr (vs \<union> rest)))"

definition parse_field :: "int \<Rightarrow> int \<Rightarrow> bool \<Rightarrow> string \<Rightarrow> int set res" where
  "parse_field minimum maximum map_seven field =
     bindE (collect_parts minimum maximum map_seven (split_on (CHR '','') field)) (\<lambda>values.
       if values = {} then cron_field_error else Inr values)"

record cron_fields =
  minute_values :: "int set"
  hour_values :: "int set"
  day_values :: "int set"
  month_values :: "int set"
  weekday_values :: "int set"

definition parse_cron_fields :: "string \<Rightarrow> cron_fields res" where
  "parse_cron_fields cron_expr =
     (case split_words cron_expr of
        [minute, hour, day, month, weekday] \<Rightarrow>
          bindE (parse_field 0 59 False minute) (\<lambda>mi.
          bindE (parse_field 0 23 False hour) (\<lambda>h.
          bindE (parse_field 1 31 False day) (\<lambda>d.
          bindE (parse_field 1 12 False month) (\<lambda>mo.
          bindE (parse_field 0 7 True weekday) (\<lambda>w.
            Inr \<lparr>minute_values = mi, hour_values = h, day_values = d, month_values = mo, weekday_values = w\<rparr>)))))
      | _ \<Rightarrow> service_error ''invalid_cron_expr'')"

definition normalize_cron_expr :: "string \<Rightarrow> string res" where
  "normalize_cron_expr cron_expr =
     (let normalized = strip cron_expr in
      if normalized = [] then service_error ''invalid_cron_expr''
      else bindE (parse_cron_fields normalized) (\<lambda>_. Inr normalized))"

section \<open>The calendar\<close>

type_synonym zone_db = "string \<Rightarrow> (instant \<Rightarrow> int) option res"

definition normalize_timezone_name :: "zone_db \<Rightarrow> string \<Rightarrow> string res" where
  "normalize_timezone_name zones timezone_name =
     (let normalized = (if strip timezone_name = [] then ''UTC'' else strip timezone_name) in
      bindE (zones normalized) (\<lambda>z. case z of None \<Rightarrow> service_error ''invalid_timezone''
        | Some _ \<Rightarrow> Inr normalized))"

definition minute_us :: int where
  "minute_us = 60000000"

text \<open>Month and day of the proleptic Gregorian calendar, from days since 1970-01-01.\<close>

definition month_day :: "int \<Rightarrow> int \<times> int" where
  "month_day days =
     (let doe = (days + 719468) mod 146097;
          yoe = (doe - doe div 1460 + doe div 36524 - doe div 146096) div 365;
          doy = doe - (365 * yoe + yoe div 4 - yoe div 100);
          mp = (5 * doy + 2) div 153
      in (if mp < 10 then mp + 3 else mp - 9, doy - (153 * mp + 2) div 5 + 1))"

record local_time =
  lt_month :: int
  lt_day :: int
  lt_weekday :: int
  lt_hour :: int
  lt_minute :: int

text \<open>\<open>lt_weekday\<close> counts from Monday as \<open>datetime.weekday\<close> does.\<close>

definition astimezone :: "(instant \<Rightarrow> int) \<Rightarrow> instant \<Rightarrow> local_time" where
  "astimezone offset t =
     (let l = t + offset t; minutes = l div minute_us; days = minutes div 1440
      in \<lparr>lt_month = fst (month_day days), lt_day = snd (month_day days), lt_weekday = (days + 3) mod 7,
          lt_hour = minutes mod 1440 div 60, lt_minute = minutes mod 60\<rparr>)"

definition matches_day :: "local_time \<Rightarrow> cron_fields \<Rightarrow> bool" where
  "matches_day candidate f =
     (let day_is_any = (card (day_values f) = 31); weekday_is_any = (card (weekday_values f) = 7);
          day_match = (lt_day candidate \<in> day_values f);
          cron_weekday = (lt_weekday candidate + 1) mod 7;
          weekday_match = (cron_weekday \<in> weekday_values f)
      in if day_is_any \<and> weekday_is_any then True
         else if day_is_any then weekday_match
         else if weekday_is_any then day_match
         else day_match \<or> weekday_match)"

definition cron_matches :: "cron_fields \<Rightarrow> local_time \<Rightarrow> bool" where
  "cron_matches f candidate =
     (if lt_month candidate \<notin> month_values f then False
      else if \<not> matches_day candidate f then False
      else if lt_hour candidate \<notin> hour_values f then False
      else lt_minute candidate \<in> minute_values f)"

primrec first_match :: "nat \<Rightarrow> (instant \<Rightarrow> bool) \<Rightarrow> instant \<Rightarrow> instant option" where
  "first_match 0 p t = None"
| "first_match (Suc n) p t = (if p t then Some t else first_match n p (t + minute_us))"

definition search_minutes :: nat where
  "search_minutes = 366 * 24 * 60"

definition compute_next_run_at :: "zone_db \<Rightarrow> string \<Rightarrow> instant \<Rightarrow> string \<Rightarrow> instant res" where
  "compute_next_run_at zones cron_expr now timezone_name =
     bindE (normalize_timezone_name zones timezone_name) (\<lambda>name.
     bindE (zones name) (\<lambda>zone. case zone of None \<Rightarrow> service_error ''invalid_timezone'' | Some offset \<Rightarrow>
     bindE (parse_cron_fields (strip cron_expr)) (\<lambda>f.
       (case first_match search_minutes (\<lambda>t. cron_matches f (astimezone offset t))
               (now - now mod minute_us + minute_us) of
          None \<Rightarrow> service_error ''invalid_cron_expr''
        | Some t \<Rightarrow> Inr t))))"

section \<open>The first match\<close>

definition next_minute :: "instant \<Rightarrow> instant" where
  "next_minute now = now - now mod minute_us + minute_us"

lemma minute_pos [simp]: "0 < minute_us"
  by (simp add: minute_us_def)

lemma first_match_Some_iff:
  "first_match n p t = Some r \<longleftrightarrow>
     (\<exists>i < n. r = t + int i * minute_us \<and> p r \<and> (\<forall>j < i. \<not> p (t + int j * minute_us)))"
proof (induction n arbitrary: t)
  case 0
  then show ?case by simp
next
  case (Suc n)
  have shift: "t + minute_us + int j * minute_us = t + int (Suc j) * minute_us" for j
    by (simp add: algebra_simps)
  show ?case
  proof (cases "p t")
    case True
    then have "(\<exists>i < Suc n. r = t + int i * minute_us \<and> p r \<and> (\<forall>j < i. \<not> p (t + int j * minute_us))) \<longleftrightarrow> r = t"
      by (metis add.right_neutral mult_zero_left of_nat_0 not_gr_zero zero_less_Suc not_less0)
    with True show ?thesis by auto
  next
    case False
    have "(\<exists>i < Suc n. r = t + int i * minute_us \<and> p r \<and> (\<forall>j < i. \<not> p (t + int j * minute_us)))
      \<longleftrightarrow> (\<exists>i < n. r = t + int (Suc i) * minute_us \<and> p r \<and> (\<forall>j < Suc i. \<not> p (t + int j * minute_us)))"
      using False by (subst Ex_less_Suc2) (auto simp del: of_nat_Suc)
    also have "\<dots> \<longleftrightarrow> (\<exists>i < n. r = t + int (Suc i) * minute_us \<and> p r \<and> (\<forall>j < i. \<not> p (t + int (Suc j) * minute_us)))"
      using False by (subst All_less_Suc2) (simp del: of_nat_Suc)
    finally show ?thesis using False Suc.IH [of "t + minute_us"] by (simp only: first_match.simps shift if_False)
  qed
qed

text \<open>The whole minutes after an instant.\<close>

lemma whole_minute_iff: "now < u \<and> u mod minute_us = 0 \<longleftrightarrow> (\<exists>i. u = next_minute now + int i * minute_us)"
proof
  assume u: "now < u \<and> u mod minute_us = 0"
  define k where "k = u div minute_us - now div minute_us - 1"
  have u': "u = u div minute_us * minute_us" using u by (simp add: minus_mod_eq_div_mult [symmetric])
  have now: "now - now mod minute_us = now div minute_us * minute_us" by (rule minus_mod_eq_div_mult)
  have "now div minute_us < u div minute_us"
  proof (rule ccontr)
    assume "\<not> ?thesis"
    then have "u div minute_us * minute_us \<le> now div minute_us * minute_us"
      by (intro mult_right_mono) (simp_all add: minute_us_def)
    also have "\<dots> \<le> now" using now pos_mod_sign [OF minute_pos, of now] by linarith
    finally show False using u u' by simp
  qed
  then have k: "0 \<le> k" by (simp add: k_def)
  have "u = next_minute now + k * minute_us"
    using u' now by (simp add: k_def next_minute_def algebra_simps)
  with k show "\<exists>i. u = next_minute now + int i * minute_us" by (metis nat_0_le)
next
  assume "\<exists>i. u = next_minute now + int i * minute_us"
  then obtain i where i: "u = next_minute now + int i * minute_us" by blast
  have "now < next_minute now" using pos_mod_bound [of minute_us now] by (simp add: next_minute_def)
  moreover have "0 \<le> int i * minute_us" by (simp add: minute_us_def)
  ultimately have "now < u" using i by linarith
  moreover have "u = (now div minute_us + 1 + int i) * minute_us"
    using i minus_mod_eq_div_mult [of now minute_us] by (simp add: next_minute_def algebra_simps)
  ultimately show "now < u \<and> u mod minute_us = 0" by simp
qed

definition horizon :: "instant \<Rightarrow> instant" where
  "horizon now = next_minute now + 366 * 24 * 60 * minute_us"

lemma least_on_grid:
  fixes g :: "nat \<Rightarrow> instant"
  assumes "\<And>i j. g j < g i \<longleftrightarrow> j < i"
  shows "(\<exists>i. r = g i \<and> r < h \<and> p r \<and> (\<forall>j < i. \<not> p (g j)))
    \<longleftrightarrow> (\<exists>i. r = g i) \<and> r < h \<and> p r \<and> (\<forall>u. (\<exists>j. u = g j) \<and> u < r \<longrightarrow> \<not> p u)"
  using assms by metis

lemma first_match_next_iff:
  "first_match search_minutes p (next_minute now) = Some r \<longleftrightarrow>
     (r mod minute_us = 0 \<and> p r) \<and> now < r \<and> r < horizon now
     \<and> (\<forall>u. now < u \<and> u < r \<longrightarrow> \<not> (u mod minute_us = 0 \<and> p u))"
proof -
  have order: "next_minute now + int j * minute_us < next_minute now + int i * minute_us \<longleftrightarrow> j < i" for i j
    by (simp add: minute_us_def)
  have hor: "next_minute now + int i * minute_us < horizon now \<longleftrightarrow> i < search_minutes" for i
    by (simp add: horizon_def search_minutes_def minute_us_def)
  have "first_match search_minutes p (next_minute now) = Some r \<longleftrightarrow>
      (\<exists>i. r = next_minute now + int i * minute_us \<and> r < horizon now \<and> p r
        \<and> (\<forall>j < i. \<not> p (next_minute now + int j * minute_us)))"
    unfolding first_match_Some_iff using hor by metis
  also have "\<dots> \<longleftrightarrow> (\<exists>i. r = next_minute now + int i * minute_us) \<and> r < horizon now \<and> p r
      \<and> (\<forall>u. (\<exists>j. u = next_minute now + int j * minute_us) \<and> u < r \<longrightarrow> \<not> p u)"
    by (rule least_on_grid) (rule order)
  also have "\<dots> \<longleftrightarrow> (r mod minute_us = 0 \<and> p r) \<and> now < r \<and> r < horizon now
      \<and> (\<forall>u. now < u \<and> u < r \<longrightarrow> \<not> (u mod minute_us = 0 \<and> p u))"
    unfolding whole_minute_iff [symmetric] by (intro iffI conjI allI impI notI; elim conjE; simp)
  finally show ?thesis .
qed

lemma first_match_next_None:
  "first_match search_minutes p (next_minute now) = None \<longleftrightarrow>
     (\<forall>u. now < u \<and> u < horizon now \<longrightarrow> \<not> (u mod minute_us = 0 \<and> p u))"
proof
  assume none: "first_match search_minutes p (next_minute now) = None"
  have all: "first_match n p t = None \<Longrightarrow> i < n \<Longrightarrow> \<not> p (t + int i * minute_us)" for n t i
  proof (induction n arbitrary: t i)
    case 0
    then show ?case by simp
  next
    case (Suc n)
    then have t: "\<not> p t" "first_match n p (t + minute_us) = None" by (simp_all split: if_splits)
    show ?case
    proof (cases i)
      case 0
      with t show ?thesis by simp
    next
      case (Suc j)
      with Suc.prems Suc.IH [OF t(2), of j] show ?thesis by (simp add: algebra_simps)
    qed
  qed
  show "\<forall>u. now < u \<and> u < horizon now \<longrightarrow> \<not> (u mod minute_us = 0 \<and> p u)"
  proof (intro allI impI notI)
    fix u assume u: "now < u \<and> u < horizon now" and due: "u mod minute_us = 0 \<and> p u"
    have "now < u \<and> u mod minute_us = 0" using u due by simp
    then obtain i where i: "u = next_minute now + int i * minute_us" unfolding whole_minute_iff ..
    with u have "i < search_minutes" by (simp add: horizon_def search_minutes_def minute_us_def)
    with all [OF none] i due show False by simp
  qed
next
  assume "\<forall>u. now < u \<and> u < horizon now \<longrightarrow> \<not> (u mod minute_us = 0 \<and> p u)"
  then show "first_match search_minutes p (next_minute now) = None"
    using first_match_next_iff [of p now] by (metis not_None_eq)
qed

lemma next_run_later:
  assumes "compute_next_run_at zones e now tz = Inr t"
  shows "now < t"
proof -
  from assms obtain name zone where "zones name = Inr zone"
    and z: "(case zone of None \<Rightarrow> service_error ''invalid_timezone''
      | Some offset \<Rightarrow> bindE (parse_cron_fields (strip e)) (\<lambda>f.
       (case first_match search_minutes (\<lambda>t. cron_matches f (astimezone offset t)) (now - now mod minute_us + minute_us) of
          None \<Rightarrow> service_error ''invalid_cron_expr'' | Some t \<Rightarrow> Inr t))) = Inr t"
    unfolding compute_next_run_at_def by (elim bindE_InrE)
  from z obtain offset where "bindE (parse_cron_fields (strip e)) (\<lambda>f.
       (case first_match search_minutes (\<lambda>t. cron_matches f (astimezone offset t)) (now - now mod minute_us + minute_us) of
          None \<Rightarrow> service_error ''invalid_cron_expr'' | Some t \<Rightarrow> Inr t)) = Inr t"
    by (cases zone) auto
  then obtain f where "(case first_match search_minutes (\<lambda>t. cron_matches f (astimezone offset t))
      (now - now mod minute_us + minute_us) of None \<Rightarrow> service_error ''invalid_cron_expr'' | Some t \<Rightarrow> Inr t) = Inr t"
    by (elim bindE_InrE)
  then have "first_match search_minutes (\<lambda>t. cron_matches f (astimezone offset t)) (next_minute now) = Some t"
    by (simp add: next_minute_def split: option.splits)
  then show ?thesis by (simp add: first_match_next_iff)
qed

text \<open>C37 The next run of a schedule is the first whole minute after the given instant whose local time
  matches the expression, if there is one within 366 days; otherwise the expression is rejected.\<close>

theorem next_run_is_first_match:
  assumes zone: "zones name = Inr (Some offset)" and name: "normalize_timezone_name zones tz = Inr name"
    and fields: "parse_cron_fields (strip cron_expr) = Inr f"
  defines "due \<equiv> \<lambda>u. u mod minute_us = 0 \<and> cron_matches f (astimezone offset u)"
  shows "(compute_next_run_at zones cron_expr now tz = Inr t \<longleftrightarrow>
           due t \<and> now < t \<and> t < horizon now \<and> (\<forall>u. now < u \<and> u < t \<longrightarrow> \<not> due u))
    \<and> (compute_next_run_at zones cron_expr now tz = Inl e \<longleftrightarrow>
           e = Service_Error ''invalid_cron_expr'' \<and> (\<forall>u. now < u \<and> u < horizon now \<longrightarrow> \<not> due u))"
proof -
  let ?p = "\<lambda>u. cron_matches f (astimezone offset u)"
  let ?found = "first_match search_minutes ?p (next_minute now)"
  have run: "compute_next_run_at zones cron_expr now tz =
      (case ?found of None \<Rightarrow> service_error ''invalid_cron_expr'' | Some t \<Rightarrow> Inr t)"
    unfolding compute_next_run_at_def name zone fields next_minute_def by (simp add: bindE_def zone)
  have ok: "compute_next_run_at zones cron_expr now tz = Inr t \<longleftrightarrow> ?found = Some t"
    unfolding run by (simp add: service_error_def split: option.splits)
  have err: "compute_next_run_at zones cron_expr now tz = Inl e \<longleftrightarrow>
      e = Service_Error ''invalid_cron_expr'' \<and> ?found = None"
    unfolding run by (auto simp: service_error_def split: option.splits)
  show ?thesis
    unfolding ok err first_match_next_iff first_match_next_None due_def by simp
qed

section \<open>What is accepted\<close>

text \<open>A list of numbers, as the text of a field.\<close>

definition list_field :: "nat list \<Rightarrow> string" where
  "list_field ns = join_with '','' (map nat_str ns)"

lemma nat_str_free:
  assumes "\<not> is_ascii_digit c" shows "c \<notin> set (nat_str n)"
  using nat_str_digits [of n] assms by auto

lemma isdigit_nat_str [simp]: "isdigit (nat_str n)"
  using nat_str_digits [of n] by (auto simp: isdigit_def list_all_iff is_py_digit_def)

lemma parse_part_number:
  assumes "minimum \<le> int n" and "int n \<le> maximum"
  shows "parse_part minimum maximum seven (nat_str n) = Inr {if seven \<and> n = 7 then 0 else int n}"
proof -
  have "nat_str n \<noteq> ''*''" using nat_str_digits [of n] by auto
  moreover have "py_range (int n) (int n) 1 = [int n]" by (simp add: py_range_def)
  ultimately show ?thesis
    using assms
    by (cases "seven \<and> n = 7") (auto simp: parse_part_def parse_step_def parse_base_def partition_at_free
        nat_str_free int_or_raise_def bindE_def)
qed

lemma parse_field_list:
  assumes "ns \<noteq> []" and "\<forall>n \<in> set ns. minimum \<le> int n \<and> int n \<le> maximum" and "seven \<longrightarrow> 7 \<notin> set ns"
  shows "parse_field minimum maximum seven (list_field ns) = Inr (int ` set ns)"
proof -
  have "collect_parts minimum maximum seven (map nat_str ns) = Inr (int ` set ns)"
    using assms(2,3)
  proof (induction ns)
    case Nil
    then show ?case by simp
  next
    case (Cons n ns)
    then show ?case by (auto simp: parse_part_number bindE_def)
  qed
  moreover have "split_on (CHR '','') (list_field ns) = map nat_str ns"
    unfolding list_field_def using assms(1) by (intro split_on_join) (auto simp: nat_str_free)
  ultimately show ?thesis using assms(1) by (simp add: parse_field_def bindE_def)
qed

lemma parse_part_range:
  assumes "parse_part minimum maximum seven part = Inr vs"
  shows "vs \<noteq> {} \<and> (\<forall>v \<in> vs. (minimum \<le> v \<and> v \<le> maximum \<or> seven \<and> v = 0) \<and> (seven \<longrightarrow> v \<noteq> 7))"
proof -
  from assms obtain base step where step: "parse_step (strip part) = Inr (base, step)"
    unfolding parse_part_def Let_def
    by (auto simp: bindE_def cron_field_error_def service_error_def split: if_splits sum.splits)
  with assms obtain start stop where range: "minimum \<le> start" "stop \<le> maximum" "start \<le> stop"
    and vs: "vs = set (map (\<lambda>v. if seven \<and> v = 7 then 0 else v) (py_range start stop step))"
    unfolding parse_part_def Let_def
    by (auto simp: bindE_def cron_field_error_def service_error_def not_less split: if_splits sum.splits)
  have "start \<in> set (py_range start stop step)" using range by (simp add: py_range_def)
  then have "vs \<noteq> {}" using vs by force
  moreover have "\<forall>v \<in> set (py_range start stop step). minimum \<le> v \<and> v \<le> maximum"
    using range by (auto simp: py_range_def)
  ultimately show ?thesis using vs by auto
qed

lemma parse_field_range:
  assumes "parse_field minimum maximum seven field = Inr vs"
  shows "vs \<noteq> {} \<and> (\<forall>v \<in> vs. (minimum \<le> v \<and> v \<le> maximum \<or> seven \<and> v = 0) \<and> (seven \<longrightarrow> v \<noteq> 7))"
proof -
  have parts: "\<forall>v \<in> vs. (minimum \<le> v \<and> v \<le> maximum \<or> seven \<and> v = 0) \<and> (seven \<longrightarrow> v \<noteq> 7)"
    if "collect_parts minimum maximum seven ps = Inr vs" for ps vs
    using that
  proof (induction ps arbitrary: vs)
    case Nil
    then show ?case by simp
  next
    case (Cons p ps)
    from Cons.prems obtain a b where a: "parse_part minimum maximum seven p = Inr a"
      and b: "collect_parts minimum maximum seven ps = Inr b" and vs: "vs = a \<union> b"
      by (auto elim!: bindE_InrE)
    from parse_part_range [OF a] Cons.IH [OF b] vs show ?case by blast
  qed
  from assms obtain vals where c: "collect_parts minimum maximum seven (split_on (CHR '','') field) = Inr vals"
    and rest: "(if vals = {} then cron_field_error else Inr vals) = Inr vs"
    unfolding parse_field_def by (elim bindE_InrE)
  from rest have "vs = vals \<and> vals \<noteq> {}" by (simp add: cron_field_error_def service_error_def split: if_splits)
  with parts [OF c] show ?thesis by blast
qed

text \<open>The tuples of value sets a cron expression can have.\<close>

definition valid_fields :: "cron_fields \<Rightarrow> bool" where
  "valid_fields f \<longleftrightarrow>
     minute_values f \<noteq> {} \<and> minute_values f \<subseteq> {0..59} \<and> hour_values f \<noteq> {} \<and> hour_values f \<subseteq> {0..23}
     \<and> day_values f \<noteq> {} \<and> day_values f \<subseteq> {1..31} \<and> month_values f \<noteq> {} \<and> month_values f \<subseteq> {1..12}
     \<and> weekday_values f \<noteq> {} \<and> weekday_values f \<subseteq> {0..6}"

lemma parsed_fields_valid:
  assumes "parse_cron_fields cron_expr = Inr f" shows "valid_fields f"
proof -
  from assms obtain a b c d e where "split_words cron_expr = [a, b, c, d, e]"
    unfolding parse_cron_fields_def by (auto simp: service_error_def split: list.splits)
  with assms obtain mi h dm mo w where
    "parse_field 0 59 False a = Inr mi" "parse_field 0 23 False b = Inr h" "parse_field 1 31 False c = Inr dm"
    "parse_field 1 12 False d = Inr mo" "parse_field 0 7 True e = Inr w"
    and f: "f = \<lparr>minute_values = mi, hour_values = h, day_values = dm, month_values = mo, weekday_values = w\<rparr>"
    unfolding parse_cron_fields_def by (auto elim!: bindE_InrE)
  from this(1-5) [THEN parse_field_range] show ?thesis
    unfolding f valid_fields_def by (force simp: subset_eq)
qed

lemma parse_list_set:
  assumes "V \<noteq> {}" and "V \<subseteq> {minimum..maximum}" and "0 \<le> minimum" and "seven \<longrightarrow> 7 \<notin> V"
  shows "\<exists>ns. ns \<noteq> [] \<and> parse_field minimum maximum seven (list_field ns) = Inr V"
proof -
  have fin: "finite V" using assms(2) finite_subset by blast
  define ns where "ns = map nat (sorted_list_of_set V)"
  have img: "int ` set ns = V"
  proof -
    have "int ` set ns = (\<lambda>v. int (nat v)) ` V" using fin by (simp add: ns_def image_image)
    also have "\<dots> = V" using assms(2,3) by force
    finally show ?thesis .
  qed
  have "ns \<noteq> []" using assms(1) img by auto
  moreover have "parse_field minimum maximum seven (list_field ns) = Inr (int ` set ns)"
  proof (rule parse_field_list)
    show "ns \<noteq> []" by fact
    show "\<forall>n \<in> set ns. minimum \<le> int n \<and> int n \<le> maximum" using assms(2) img by force
    show "seven \<longrightarrow> 7 \<notin> set ns" using assms(4) img by force
  qed
  ultimately show ?thesis using img by auto
qed

lemma list_field_word: "ns \<noteq> [] \<Longrightarrow> list_field ns \<noteq> [] \<and> (\<forall>c \<in> set (list_field ns). \<not> is_space c)"
proof (induction ns)
  case Nil
  then show ?case by simp
next
  case (Cons n ns)
  have n: "\<forall>c \<in> set (nat_str n). \<not> is_space c" using nat_str_digits [of n] digit_not_space by blast
  have comma: "\<not> is_space (CHR '','')" by (simp add: is_space_def code_pt_def)
  show ?case
  proof (cases ns)
    case Nil
    with n show ?thesis by (simp add: list_field_def)
  next
    case (Cons m ms)
    with Cons.IH n comma show ?thesis by (auto simp: list_field_def)
  qed
qed

text \<open>C38 The parser's values are exactly the schedules: every accepted expression has five nonempty sets of
  values within the bounds of their fields, with Sunday as 0 only, and every such tuple of sets is
  the meaning of some expression.\<close>

theorem cron_expressions_denote: "(\<exists>cron_expr. parse_cron_fields cron_expr = Inr f) \<longleftrightarrow> valid_fields f"
proof
  assume "\<exists>cron_expr. parse_cron_fields cron_expr = Inr f"
  then show "valid_fields f" using parsed_fields_valid by blast
next
  assume valid: "valid_fields f"
  obtain a where a: "a \<noteq> []" "parse_field 0 59 False (list_field a) = Inr (minute_values f)"
    using parse_list_set [of "minute_values f" 0 59 False] valid by (auto simp: valid_fields_def)
  obtain b where b: "b \<noteq> []" "parse_field 0 23 False (list_field b) = Inr (hour_values f)"
    using parse_list_set [of "hour_values f" 0 23 False] valid by (auto simp: valid_fields_def)
  obtain c where c: "c \<noteq> []" "parse_field 1 31 False (list_field c) = Inr (day_values f)"
    using parse_list_set [of "day_values f" 1 31 False] valid by (auto simp: valid_fields_def)
  obtain d where d: "d \<noteq> []" "parse_field 1 12 False (list_field d) = Inr (month_values f)"
    using parse_list_set [of "month_values f" 1 12 False] valid by (auto simp: valid_fields_def)
  have "weekday_values f \<subseteq> {0..7}" "7 \<notin> weekday_values f" using valid by (auto simp: valid_fields_def)
  then obtain e where e: "e \<noteq> []" "parse_field 0 7 True (list_field e) = Inr (weekday_values f)"
    using parse_list_set [of "weekday_values f" 0 7 True] valid by (auto simp: valid_fields_def)
  let ?ws = "[list_field a, list_field b, list_field c, list_field d, list_field e]"
  have "split_words (join_with '' '' ?ws) = ?ws"
    using a b c d e list_field_word by (intro split_words_join) auto
  then have "parse_cron_fields (join_with '' '' ?ws) = Inr f"
    unfolding parse_cron_fields_def using a b c d e by (simp add: bindE_def)
  then show "\<exists>cron_expr. parse_cron_fields cron_expr = Inr f" ..
qed

section \<open>Evaluation\<close>

definition utc_zones :: zone_db where
  "utc_zones name = Inr (if name = ''UTC'' then Some (\<lambda>t. 0) else None)"

lemma epoch_date: "month_day 0 = (1, 1)"
  by code_simp

lemma first_local_minute:
  "astimezone (\<lambda>t. 0) 60000000 = \<lparr>lt_month = 1, lt_day = 1, lt_weekday = 3, lt_hour = 0, lt_minute = 1\<rparr>"
  by (simp add: astimezone_def minute_us_def epoch_date)

theorem next_run_is_first_match_witness:
  "compute_next_run_at utc_zones ''2 0 1 1 4'' 0 '' '' = Inr 120000000"
proof -
  have zone: "utc_zones ''UTC'' = Inr (Some (\<lambda>t. 0))" by (simp add: utc_zones_def)
  have name: "normalize_timezone_name utc_zones '' '' = Inr ''UTC''"
    by code_simp
  have fields: "parse_cron_fields (strip ''2 0 1 1 4'') =
      Inr \<lparr>minute_values = {2}, hour_values = {0}, day_values = {1}, month_values = {1}, weekday_values = {4}\<rparr>"
    by code_simp
  note local1 = first_local_minute
  have local2: "astimezone (\<lambda>t. 0) 120000000
      = \<lparr>lt_month = 1, lt_day = 1, lt_weekday = 3, lt_hour = 0, lt_minute = 2\<rparr>"
    by (simp add: astimezone_def minute_us_def epoch_date)
  have due: "cron_matches \<lparr>minute_values = {2}, hour_values = {0}, day_values = {1},
      month_values = {1}, weekday_values = {4}\<rparr> (astimezone (\<lambda>t. 0) 120000000)"
    unfolding cron_matches_def matches_day_def local2 by simp
  have early: "\<not> cron_matches \<lparr>minute_values = {2}, hour_values = {0}, day_values = {1},
      month_values = {1}, weekday_values = {4}\<rparr> (astimezone (\<lambda>t. 0) 60000000)"
    unfolding cron_matches_def local1 by simp
  have only: "u = 60000000" if "0 < u" "u < 120000000" "u mod minute_us = 0" for u
  proof -
    have "u = u div minute_us * 60000000" using that(3) minus_mod_eq_div_mult [of u minute_us] by (simp add: minute_us_def)
    moreover from this that(1,2) have "0 < u div minute_us" "u div minute_us < 2" by linarith+
    then have "u div minute_us = 1" by linarith
    ultimately show ?thesis by simp
  qed
  have "(120000000::int) < horizon 0" by (simp add: horizon_def next_minute_def minute_us_def)
  moreover have "(120000000::int) mod minute_us = 0" by (simp add: minute_us_def)
  moreover have "\<not> (u mod minute_us = 0 \<and> cron_matches \<lparr>minute_values = {2}, hour_values = {0},
      day_values = {1}, month_values = {1}, weekday_values = {4}\<rparr> (astimezone (\<lambda>t. 0) u))"
    if "0 < u \<and> u < 120000000" for u
  proof
    assume due_u: "u mod minute_us = 0 \<and> cron_matches \<lparr>minute_values = {2}, hour_values = {0},
      day_values = {1}, month_values = {1}, weekday_values = {4}\<rparr> (astimezone (\<lambda>t. 0) u)"
    have "u = 60000000"
      by (rule only [OF that [THEN conjunct1] that [THEN conjunct2] due_u [THEN conjunct1]])
    with due_u [THEN conjunct2] early show False by (simp only: simp_thms)
  qed
  ultimately show ?thesis
    by (intro next_run_is_first_match [OF zone name fields, THEN conjunct1, THEN iffD2] conjI allI impI due) simp_all
qed

text \<open>
  A schedule for the 29th of February is rejected whenever the next leap day is more than 366 days
  away: here on 2024-03-01, although 2028 has one.
\<close>

lemma no_leap_day:
  assumes "19783 \<le> days" and "days \<le> 20149"
  shows "month_day days \<noteq> (2, 29)"
proof -
  define doe where "doe = days - 11017"
  have range: "8766 \<le> doe" "doe \<le> 9132" using assms by (simp_all add: doe_def)
  define yoe where "yoe = (if doe < 9131 then 24 else 25 :: int)"
  have era: "(days + 719468) mod 146097 = doe"
    by (rule int_mod_pos_eq [of _ _ 5]) (use range in \<open>simp_all add: doe_def\<close>)
  have "doe div 1460 = 6" by (rule int_div_pos_eq [of _ _ _ "doe - 8760"]) (use range in simp_all)
  moreover have "doe div 36524 = 0" "doe div 146096 = 0" using range by simp_all
  moreover have "(doe - 6) div 365 = yoe"
  proof (cases "doe < 9131")
    case True
    have "(doe - 6) div 365 = 24" by (rule int_div_pos_eq [of _ _ _ "doe - 8766"]) (use True range in simp_all)
    with True show ?thesis by (simp add: yoe_def)
  next
    case False
    have "(doe - 6) div 365 = 25" by (rule int_div_pos_eq [of _ _ _ "doe - 9131"]) (use False range in simp_all)
    with False show ?thesis by (simp add: yoe_def)
  qed
  ultimately have year: "(doe - doe div 1460 + doe div 36524 - doe div 146096) div 365 = yoe" by simp
  have start: "365 * yoe + yoe div 4 - yoe div 100 = (if doe < 9131 then 8766 else 9131)" by (simp add: yoe_def)
  have month: "month_day days = (let doy = doe - (if doe < 9131 then 8766 else 9131); mp = (5 * doy + 2) div 153
      in (if mp < 10 then mp + 3 else mp - 9, doy - (153 * mp + 2) div 5 + 1))"
    unfolding month_day_def Let_def era year start ..
  define doy where "doy = doe - (if doe < 9131 then 8766 else 9131)"
  have doy: "0 \<le> doy" "doy \<le> 364" using range by (simp_all add: doy_def)
  have "mp < 10 \<longrightarrow> mp + 3 \<noteq> 2" if "mp = (5 * doy + 2) div 153" for mp
    using that doy(1) pos_imp_zdiv_nonneg_iff [of 153 "5 * doy + 2"] by linarith
  moreover have "doy - (153 * 11 + 2) div 5 + 1 \<noteq> 29" using doy(2) by simp
  ultimately show ?thesis unfolding month Let_def doy_def [symmetric] by (auto split: if_splits)
qed

lemma leap_day_schedule_rejected:
  "compute_next_run_at utc_zones ''0 0 29 2 *'' 1709251200000000 ''UTC'' = Inl (Service_Error ''invalid_cron_expr'')"
proof -
  let ?now = "1709251200000000 :: int"
  let ?f = "\<lparr>minute_values = {0}, hour_values = {0}, day_values = {29}, month_values = {2}, weekday_values = {0..6}\<rparr>"
  have zone: "utc_zones ''UTC'' = Inr (Some (\<lambda>t. 0))" by (simp add: utc_zones_def)
  have name: "normalize_timezone_name utc_zones ''UTC'' = Inr ''UTC''" by code_simp
  have fields: "parse_cron_fields (strip ''0 0 29 2 *'') = Inr ?f" by code_simp
  have "\<not> cron_matches ?f (astimezone (\<lambda>t. 0) u)" if u: "?now < u" "u < horizon ?now" for u
  proof -
    have "u < 1740873660000000" using u(2) by (simp add: horizon_def next_minute_def minute_us_def)
    with u(1) have "19783 \<le> u div minute_us div 1440" "u div minute_us div 1440 \<le> 20149"
      by (simp_all add: minute_us_def)
    then have "month_day (u div minute_us div 1440) \<noteq> (2, 29)" by (rule no_leap_day)
    then show ?thesis
      by (auto simp: cron_matches_def matches_day_def astimezone_def Let_def prod_eq_iff)
  qed
  then have "first_match search_minutes (\<lambda>t. cron_matches ?f (astimezone (\<lambda>t. 0) t)) (next_minute ?now) = None"
    unfolding first_match_next_None by blast
  then show ?thesis
    unfolding compute_next_run_at_def name fields next_minute_def by (simp add: bindE_def zone service_error_def)
qed

lemma example_next_run: "compute_next_run_at utc_zones ''1 0 1 1 4'' 0 ''UTC'' = Inr 60000000"
proof -
  let ?f = "\<lparr>minute_values = {1}, hour_values = {0}, day_values = {1}, month_values = {1}, weekday_values = {4}\<rparr>"
  have zone: "utc_zones ''UTC'' = Inr (Some (\<lambda>t. 0))" by (simp add: utc_zones_def)
  have name: "normalize_timezone_name utc_zones ''UTC'' = Inr ''UTC''" by code_simp
  have fields: "parse_cron_fields (strip ''1 0 1 1 4'') = Inr ?f" by code_simp
  have minutes: "search_minutes = Suc 527039" by (simp add: search_minutes_def)
  have due: "cron_matches ?f (astimezone (\<lambda>t. 0) 60000000)"
    unfolding cron_matches_def matches_day_def first_local_minute by simp
  have "first_match search_minutes (\<lambda>t. cron_matches ?f (astimezone (\<lambda>t. 0) t)) 60000000 = Some 60000000"
    unfolding minutes first_match.simps using due by (simp only: if_True)
  moreover have "(0 :: int) - 0 mod minute_us + minute_us = 60000000" by (simp add: minute_us_def)
  ultimately show ?thesis
    unfolding compute_next_run_at_def name fields by (simp add: bindE_def zone)
qed

end
