(* ===== verification/Triggers.thy ===== *)
theory Triggers
  imports Trigger_Store Cron
begin

text \<open>
  Automations and their triggers (services/automations/service.py, update_runtime.py,
  cron_execution.py, webhook_execution.py, lease_runtime.py, payloads.py, metadata.py). What a
  triggered run does, and what other workers do to the database meanwhile, is an argument:
  a list of periods between refreshes of the lease and an end.
\<close>

section \<open>Creating automations\<close>

record trigger_env =
  te_hash :: "string \<Rightarrow> string"
  te_zones :: zone_db
  te_encrypt :: "string \<Rightarrow> (string \<times> string) option"
  te_redact :: "string \<Rightarrow> string"
  te_error_text :: "app_error \<Rightarrow> string"

text \<open>\<open>te_encrypt\<close>: the credentials vault, None when it is not configured.\<close>

definition tg_ensure_profile :: "string \<Rightarrow> trigger_db \<Rightarrow> unit res" where
  "tg_ensure_profile profile_id d = guardE (profile_id \<in> set (tg_profiles d)) (Service_Error ''profile_not_found'')"

definition require_durable_webhook_reveal :: "trigger_env \<Rightarrow> unit res" where
  "require_durable_webhook_reveal env =
     (case te_encrypt env ''probe-webhook-token'' of
        Some (encrypted, key_version) \<Rightarrow>
          if encrypted \<noteq> [] \<and> key_version \<noteq> [] then Inr ()
          else service_error ''automation_webhook_reveal_unavailable''
      | None \<Rightarrow> service_error ''automation_webhook_reveal_unavailable'')"

definition create_cron ::
    "trigger_env \<Rightarrow> string \<Rightarrow> string \<Rightarrow> string \<Rightarrow> string \<Rightarrow> string \<Rightarrow> string \<Rightarrow> string \<Rightarrow> instant \<Rightarrow> trigger_db
     \<Rightarrow> (trigger_db \<times> auto_row \<times> cron_trigger) res" where
  "create_cron env profile_id nm prompt cron_expr timezone_name mode fallback now d =
     bindE (validate_create_payload nm prompt) (\<lambda>_.
     bindE (normalize_cron_expr cron_expr) (\<lambda>expr.
     bindE (normalize_timezone_name (te_zones env) timezone_name) (\<lambda>tz.
     bindE (normalize_execution_mode mode) (\<lambda>m.
     bindE (normalize_graph_fallback_mode fallback) (\<lambda>f.
     bindE (compute_next_run_at (te_zones env) expr now tz) (\<lambda>next_run.
     bindE (tg_ensure_profile profile_id d) (\<lambda>_.
       Inr (create_cron_automation profile_id (strip nm) (strip prompt) expr tz (Some next_run) m f ''tool'' now d))))))))"

definition is_webhook_token_conflict :: "string \<Rightarrow> bool" where
  "is_webhook_token_conflict message \<longleftrightarrow> occurs_in ''webhook_token'' (lower message)"

text \<open>
  \<open>for attempt in range(...)\<close> over the drawn tokens: a token collision draws the next one, any
  other error ends the loop, and so does success.
\<close>

fun retry_tokens :: "(string \<Rightarrow> 'a res) \<Rightarrow> string list \<Rightarrow> 'a res" where
  "retry_tokens op [] = service_error ''automation_webhook_token_conflict''"
| "retry_tokens op (token # tokens) =
     (case op token of
        Inl (Integrity_Error message) \<Rightarrow>
          if is_webhook_token_conflict message then retry_tokens op tokens else Inl (Integrity_Error message)
      | r \<Rightarrow> r)"

definition create_webhook ::
    "trigger_env \<Rightarrow> string list \<Rightarrow> string \<Rightarrow> string \<Rightarrow> string \<Rightarrow> string option \<Rightarrow> string \<Rightarrow> string \<Rightarrow> instant
     \<Rightarrow> trigger_db \<Rightarrow> (trigger_db \<times> auto_row \<times> webhook_trigger) res" where
  "create_webhook env drawn profile_id nm prompt webhook_token mode fallback now d =
     bindE (validate_create_payload nm prompt) (\<lambda>_.
     bindE (require_durable_webhook_reveal env) (\<lambda>_.
     bindE (normalize_execution_mode mode) (\<lambda>m.
     bindE (normalize_graph_fallback_mode fallback) (\<lambda>f.
       (let given = strip (str_or_empty webhook_token);
            tokens = (if given \<noteq> [] then [given] else take 5 drawn)
        in retry_tokens (\<lambda>token.
             bindE (tg_ensure_profile profile_id d) (\<lambda>_.
               create_webhook_automation profile_id (strip nm) (strip prompt) (te_hash env token) None
                 (map_option fst (te_encrypt env token)) (map_option snd (te_encrypt env token)) m f ''tool'' now d))
             tokens)))))"

section \<open>Reading and deleting\<close>

definition as_trigger_type :: "string \<Rightarrow> string res" where
  "as_trigger_type v = (if v \<in> {''cron'', ''webhook''} then Inr v else service_error ''invalid_trigger_type'')"

definition as_status :: "string \<Rightarrow> string res" where
  "as_status v = (if v \<in> {''active'', ''paused'', ''deleted''} then Inr v else service_error ''invalid_status'')"

definition as_graph_fallback_mode :: "string \<Rightarrow> string res" where
  "as_graph_fallback_mode v =
     (if v = ''branch_error_only'' then Inr ''fail_closed''
      else if v \<in> {''fail_closed'', ''resume_with_ai'', ''resume_with_ai_if_safe''} then Inr v
      else service_error ''invalid_graph_fallback_mode'')"

definition webhook_execution_status :: "webhook_trigger \<Rightarrow> string" where
  "webhook_execution_status w =
     (if str_or_empty (wh_event w) \<noteq> [] then ''running''
      else (case (wh_last_succeeded w, wh_last_failed w) of
          (Some s, None) \<Rightarrow> ''succeeded''
        | (Some s, Some f) \<Rightarrow> if f \<le> s then ''succeeded'' else ''failed''
        | (None, Some f) \<Rightarrow> ''failed''
        | (None, None) \<Rightarrow> if wh_last_received w \<noteq> None then ''received'' else ''idle''))"

record automation_view =
  av_row :: auto_row
  av_cron :: "cron_trigger option"
  av_webhook :: "webhook_trigger option"
  av_webhook_status :: "string option"

text \<open>The fields of the row after the checks of the response type.\<close>

definition to_metadata :: "automation_join \<Rightarrow> automation_view res" where
  "to_metadata row =
     (case row of (a, c, w) \<Rightarrow>
        bindE (as_trigger_type (am_trigger_type a)) (\<lambda>ty.
        bindE (as_status (am_status a)) (\<lambda>st.
        bindE (as_execution_mode (am_execution_mode a)) (\<lambda>m.
        bindE (as_graph_fallback_mode (am_fallback_mode a)) (\<lambda>f.
          Inr \<lparr>av_row = a\<lparr>am_trigger_type := ty, am_status := st, am_execution_mode := m, am_fallback_mode := f\<rparr>,
               av_cron = c, av_webhook = w, av_webhook_status = map_option webhook_execution_status w\<rparr>)))))"

definition get_automation_view :: "string \<Rightarrow> nat \<Rightarrow> trigger_db \<Rightarrow> automation_view res" where
  "get_automation_view profile_id automation_id d =
     bindE (tg_ensure_profile profile_id d) (\<lambda>_.
     bindE (get_by_id profile_id automation_id d) (\<lambda>row.
       case row of
         None \<Rightarrow> service_error ''automation_not_found''
       | Some (a, c, w) \<Rightarrow>
           if am_status a = ''deleted'' then service_error ''automation_not_found'' else to_metadata (a, c, w)))"

definition list_automations :: "string \<Rightarrow> bool \<Rightarrow> trigger_db \<Rightarrow> automation_view list res" where
  "list_automations profile_id include_deleted d =
     bindE (tg_ensure_profile profile_id d) (\<lambda>_. mapE to_metadata (list_by_profile profile_id include_deleted d))"

definition delete_automation :: "string \<Rightarrow> nat \<Rightarrow> instant \<Rightarrow> trigger_db \<Rightarrow> (trigger_db \<times> bool) res" where
  "delete_automation profile_id automation_id now d =
     bindE (tg_ensure_profile profile_id d) (\<lambda>_.
     bindE (soft_delete profile_id automation_id now d) (\<lambda>(d', deleted).
     bindE (guardE deleted (Service_Error ''automation_not_found'')) (\<lambda>_. Inr (d', True))))"

section \<open>Updating\<close>

record automation_update =
  up_name :: "string option"
  up_prompt :: "string option"
  up_status :: "string option"
  up_mode :: "string option"
  up_fallback :: "string option"
  up_cron :: "string option"
  up_timezone :: "string option"

definition has_base_updates :: "automation_update \<Rightarrow> bool" where
  "has_base_updates u \<longleftrightarrow>
     up_name u \<noteq> None \<or> up_prompt u \<noteq> None \<or> up_status u \<noteq> None \<or> up_mode u \<noteq> None \<or> up_fallback u \<noteq> None"

definition has_cron_updates :: "automation_update \<Rightarrow> bool" where
  "has_cron_updates u \<longleftrightarrow> up_cron u \<noteq> None \<or> up_timezone u \<noteq> None"

definition required_text :: "string \<Rightarrow> string \<Rightarrow> string res" where
  "required_text code v = (if strip v = [] then service_error code else Inr (strip v))"

definition optional :: "('a \<Rightarrow> 'b res) \<Rightarrow> 'a option \<Rightarrow> 'b option res" where
  "optional f v = (case v of None \<Rightarrow> Inr None | Some x \<Rightarrow> bindE (f x) (\<lambda>y. Inr (Some y)))"

definition normalize_automation_update :: "trigger_env \<Rightarrow> automation_update \<Rightarrow> automation_update res" where
  "normalize_automation_update env u =
     bindE (optional (required_text ''invalid_name'') (up_name u)) (\<lambda>nm.
     bindE (optional (required_text ''invalid_prompt'') (up_prompt u)) (\<lambda>prompt.
     bindE (optional normalize_update_status (up_status u)) (\<lambda>status.
     bindE (optional normalize_execution_mode (up_mode u)) (\<lambda>mode.
     bindE (optional normalize_graph_fallback_mode (up_fallback u)) (\<lambda>fallback.
     bindE (optional normalize_cron_expr (up_cron u)) (\<lambda>cron_expr.
     bindE (optional (normalize_timezone_name (te_zones env)) (up_timezone u)) (\<lambda>tz.
       Inr \<lparr>up_name = nm, up_prompt = prompt, up_status = status, up_mode = mode, up_fallback = fallback,
            up_cron = cron_expr, up_timezone = tz\<rparr>)))))))"

definition check_update_target :: "automation_update \<Rightarrow> bool \<Rightarrow> auto_row \<Rightarrow> unit res" where
  "check_update_target u rotating a =
     (if am_status a = ''deleted'' then service_error ''invalid_status''
      else if am_trigger_type a = ''cron''
      then (if rotating then service_error ''invalid_update_payload'' else Inr ())
      else if am_trigger_type a = ''webhook''
      then (if has_cron_updates u then service_error ''invalid_update_payload'' else Inr ())
      else service_error ''invalid_trigger_type'')"

definition effective_prompt :: "automation_update \<Rightarrow> auto_row \<Rightarrow> string" where
  "effective_prompt u a = strip (case up_prompt u of None \<Rightarrow> am_prompt a | Some p \<Rightarrow> p)"

definition required_row :: "string \<Rightarrow> ('d \<times> 'r option) \<Rightarrow> ('d \<times> 'r) res" where
  "required_row code r = (case r of (d, None) \<Rightarrow> service_error code | (d, Some x) \<Rightarrow> Inr (d, x))"

definition apply_base_update ::
    "string \<Rightarrow> nat \<Rightarrow> automation_update \<Rightarrow> auto_row \<Rightarrow> instant \<Rightarrow> trigger_db \<Rightarrow> (trigger_db \<times> auto_row) res" where
  "apply_base_update profile_id automation_id u a now d =
     (let prompt = effective_prompt u a; changed = (up_prompt u \<noteq> None \<or> prompt \<noteq> am_prompt a) in
      if has_base_updates u \<or> changed
      then bindE (update_automation profile_id automation_id (up_name u) (if changed then Some prompt else None)
                    (up_status u) (up_mode u) (up_fallback u) now d) (required_row ''automation_not_found'')
      else Inr (d, a))"

definition text_or :: "string option \<Rightarrow> string \<Rightarrow> string" where
  "text_or v fallback = (if str_or_empty v \<noteq> [] then str_or_empty v else fallback)"

definition apply_cron_update ::
    "trigger_env \<Rightarrow> nat \<Rightarrow> automation_update \<Rightarrow> cron_trigger option \<Rightarrow> instant \<Rightarrow> trigger_db
     \<Rightarrow> (trigger_db \<times> cron_trigger) res" where
  "apply_cron_update env automation_id u cron now d =
     (case cron of
        None \<Rightarrow> service_error ''invalid_trigger_type''
      | Some c \<Rightarrow>
          bindE (compute_next_run_at (te_zones env) (text_or (up_cron u) (cr_expr c)) now
                   (text_or (up_timezone u) (cr_timezone c))) (\<lambda>next_run.
            required_row ''invalid_trigger_type''
              (update_cron_trigger automation_id (up_cron u) (up_timezone u) (Some next_run) d)))"

definition apply_webhook_update ::
    "trigger_env \<Rightarrow> nat \<Rightarrow> string \<Rightarrow> webhook_trigger option \<Rightarrow> trigger_db \<Rightarrow> (trigger_db \<times> webhook_trigger) res" where
  "apply_webhook_update env automation_id token webhook d =
     (case webhook of
        None \<Rightarrow> service_error ''invalid_trigger_type''
      | Some _ \<Rightarrow>
          bindE (update_webhook_trigger automation_id (Some (te_hash env token)) None
                   (map_option fst (te_encrypt env token)) (map_option snd (te_encrypt env token)) d)
            (required_row ''invalid_trigger_type''))"

definition apply_trigger_update ::
    "trigger_env \<Rightarrow> nat \<Rightarrow> automation_update \<Rightarrow> string option \<Rightarrow> string \<Rightarrow> cron_trigger option \<Rightarrow> webhook_trigger option
     \<Rightarrow> instant \<Rightarrow> trigger_db \<Rightarrow> (trigger_db \<times> cron_trigger option \<times> webhook_trigger option \<times> bool) res" where
  "apply_trigger_update env automation_id u token trigger_type cron webhook now d =
     bindE (if trigger_type = ''cron'' \<and> has_cron_updates u
            then bindE (apply_cron_update env automation_id u cron now d) (\<lambda>(d1, c). Inr (d1, Some c, True))
            else Inr (d, cron, False)) (\<lambda>(d1, cron1, changed).
     (case token of
        Some tok \<Rightarrow>
          if trigger_type = ''webhook''
          then bindE (apply_webhook_update env automation_id tok webhook d1) (\<lambda>(d2, w). Inr (d2, cron1, Some w, True))
          else Inr (d1, cron1, webhook, changed)
      | None \<Rightarrow> Inr (d1, cron1, webhook, changed)))"

definition apply_automation_update ::
    "trigger_env \<Rightarrow> string \<Rightarrow> nat \<Rightarrow> automation_update \<Rightarrow> bool \<Rightarrow> string option \<Rightarrow> instant \<Rightarrow> trigger_db
     \<Rightarrow> (trigger_db \<times> automation_view) res" where
  "apply_automation_update env profile_id automation_id u rotating token now d =
     bindE (tg_ensure_profile profile_id d) (\<lambda>_.
     bindE (get_by_id profile_id automation_id d) (\<lambda>row.
       case row of
         None \<Rightarrow> service_error ''automation_not_found''
       | Some (a, cron, webhook) \<Rightarrow>
           bindE (check_update_target u rotating a) (\<lambda>_.
           bindE (apply_base_update profile_id automation_id u a now d) (\<lambda>(d1, a1).
           bindE (apply_trigger_update env automation_id u token (am_trigger_type a1) cron webhook now d1)
             (\<lambda>(d2, cron2, webhook2, changed).
           bindE (if changed
                  then bindE (touch_automation profile_id automation_id now d2) (required_row ''automation_not_found'')
                  else Inr (d2, a1)) (\<lambda>(d3, a3).
           bindE (to_metadata (a3, cron2, webhook2)) (\<lambda>view. Inr (d3, view))))))))"

definition update_automation_service ::
    "trigger_env \<Rightarrow> string list \<Rightarrow> string \<Rightarrow> nat \<Rightarrow> automation_update \<Rightarrow> bool option \<Rightarrow> instant \<Rightarrow> trigger_db
     \<Rightarrow> (trigger_db \<times> automation_view) res" where
  "update_automation_service env drawn profile_id automation_id u rotate_webhook_token now d =
     (let rotating = (rotate_webhook_token = Some True) in
      if \<not> has_base_updates u \<and> \<not> has_cron_updates u \<and> \<not> rotating then service_error ''invalid_update_payload''
      else bindE (normalize_automation_update env u) (\<lambda>v.
        if \<not> rotating then apply_automation_update env profile_id automation_id v False None now d
        else bindE (require_durable_webhook_reveal env) (\<lambda>_.
          retry_tokens (\<lambda>token. apply_automation_update env profile_id automation_id v True (Some token) now d)
            (take 5 drawn))))"

end
