(* ===== verification/Trigger_Runs.thy ===== *)
theory Trigger_Runs
  imports Triggers
begin

text \<open>
  Running triggered automations (services/automations/cron_execution.py, webhook_execution.py,
  lease_runtime.py, payloads.py). A run holds its trigger row under a fresh token, refreshes the
  lease every third of its time to live, and ends by completing or releasing the row.
\<close>

section \<open>A run under a lease\<close>

datatype run_end = Run_Returns | Run_Raises app_error | Run_Times_Out | Run_Interrupted

text \<open>
  A period ends with a refresh at an instant, or with a refresh that raises (None); its first
  component is what happens to the database during the period.
\<close>

type_synonym period = "(trigger_db \<Rightarrow> trigger_db) \<times> instant option"

record work =
  wk_periods :: "period list"
  wk_last :: "trigger_db \<Rightarrow> trigger_db"
  wk_end :: run_end

datatype run_answer = Run_Done | Run_Failed app_error | Run_Cancelled

fun lease_periods ::
    "(instant \<Rightarrow> trigger_db \<Rightarrow> trigger_db \<times> bool) \<Rightarrow> period list \<Rightarrow> trigger_db \<Rightarrow> trigger_db \<times> app_error option" where
  "lease_periods refresh [] d = (d, None)"
| "lease_periods refresh ((during, at) # periods) d =
     (case at of
        None \<Rightarrow> (during d, Some (Service_Error ''automation_lease_refresh_failed''))
      | Some now \<Rightarrow>
          (case refresh now (during d) of
             (d1, True) \<Rightarrow> lease_periods refresh periods d1
           | (d1, False) \<Rightarrow> (d1, Some (Service_Error ''automation_lease_lost''))))"

definition run_answer_of :: "run_end \<Rightarrow> run_answer" where
  "run_answer_of e =
     (case e of
        Run_Returns \<Rightarrow> Run_Done
      | Run_Times_Out \<Rightarrow> Run_Failed (Service_Error ''automation_run_timeout'')
      | Run_Raises err \<Rightarrow> Run_Failed (if err = Timeout_Error then Service_Error ''automation_run_timeout'' else err)
      | Run_Interrupted \<Rightarrow> Run_Cancelled)"

definition run_with_lease_refresh ::
    "(instant \<Rightarrow> trigger_db \<Rightarrow> trigger_db \<times> bool) \<Rightarrow> work \<Rightarrow> trigger_db \<Rightarrow> trigger_db \<times> run_answer" where
  "run_with_lease_refresh refresh wk d =
     (case lease_periods refresh (wk_periods wk) d of
        (d1, Some e) \<Rightarrow> (d1, Run_Failed e)
      | (d1, None) \<Rightarrow> (wk_last wk d1, run_answer_of (wk_end wk)))"

text \<open>Fifteen minutes, \<open>CRON_CLAIM_TTL\<close> and \<open>WEBHOOK_CLAIM_TTL\<close>.\<close>

definition trigger_claim_ttl :: int where
  "trigger_claim_ttl = 15 * minute_us"

section \<open>Cron ticks\<close>

text \<open>
  How a call of \<open>with_repo\<close> ends: it commits and returns, it raises and is rolled back, or it is cancelled before or
  after its commit.
\<close>

datatype db_call = Call_Done | Call_Raised | Call_Cut bool

text \<open>
  Per due row: the token drawn for it, the clock at its claim, what others do before the claim,
  its run, and how the calls that claim, complete and release the row end.
\<close>

record cron_work =
  cw_token :: string
  cw_claimed_at :: instant
  cw_before :: "trigger_db \<Rightarrow> trigger_db"
  cw_work :: work
  cw_claiming :: db_call
  cw_completing :: db_call
  cw_releasing :: db_call

datatype row_outcome = Row_Skipped | Row_Triggered | Row_Failed | Row_Cancelled | Row_Raised

definition release_row :: "db_call \<Rightarrow> nat \<Rightarrow> string \<Rightarrow> trigger_db \<Rightarrow> row_outcome \<Rightarrow> trigger_db \<times> row_outcome" where
  "release_row call i token d out =
     (let released = fst (release_cron_claim i token d) in
      case call of
        Call_Done \<Rightarrow> (released, out)
      | Call_Raised \<Rightarrow> (d, Row_Raised)
      | Call_Cut committed \<Rightarrow> (if committed then released else d, Row_Cancelled))"

text \<open>The claim is made outside the \<open>try\<close>, the release inside the handlers: what these calls raise ends the tick.\<close>

definition tick_row ::
    "trigger_env \<Rightarrow> instant \<Rightarrow> cron_work \<Rightarrow> auto_row \<Rightarrow> cron_trigger \<Rightarrow> trigger_db \<Rightarrow> trigger_db \<times> row_outcome" where
  "tick_row env now cw a c d =
     (let i = am_id a; token = cw_token cw; release = release_row (cw_releasing cw) i token
      in case claim_cron_execution i now (cw_claimed_at cw + trigger_claim_ttl) token (cw_before cw d) of
           (d1, claimed) \<Rightarrow>
             (case cw_claiming cw of
                Call_Raised \<Rightarrow> (cw_before cw d, Row_Raised)
              | Call_Cut committed \<Rightarrow> (if committed then d1 else cw_before cw d, Row_Cancelled)
              | Call_Done \<Rightarrow>
                  if \<not> claimed then (d1, Row_Skipped)
                  else
             (case compute_next_run_at (te_zones env) (cr_expr c) now (cr_timezone c) of
                Inl e \<Rightarrow> release d1 Row_Failed
              | Inr next_run \<Rightarrow>
                  (case run_with_lease_refresh (\<lambda>at. refresh_cron_claim i token (at + trigger_claim_ttl)) (cw_work cw) d1 of
                     (d2, Run_Cancelled) \<Rightarrow> release d2 Row_Cancelled
                   | (d2, Run_Failed e) \<Rightarrow> release d2 Row_Failed
                   | (d2, Run_Done) \<Rightarrow>
                       (case mark_cron_executed i next_run now token d2 of
                          (d3, ok) \<Rightarrow>
                            (case cw_completing cw of
                               Call_Done \<Rightarrow> if ok then (d3, Row_Triggered) else release d3 Row_Failed
                             | Call_Raised \<Rightarrow> release d2 Row_Failed
                             | Call_Cut committed \<Rightarrow> release (if committed then d3 else d2) Row_Cancelled))))))"

text \<open>The triggered and the failed ids; a cancellation or an exception that escapes ends the tick without a result.\<close>

fun tick_rows ::
    "trigger_env \<Rightarrow> instant \<Rightarrow> (nat \<Rightarrow> cron_work) \<Rightarrow> (auto_row \<times> cron_trigger) list \<Rightarrow> trigger_db
     \<Rightarrow> trigger_db \<times> (nat list \<times> nat list) option" where
  "tick_rows env now works [] d = (d, Some ([], []))"
| "tick_rows env now works ((a, c) # rows) d =
     (case tick_row env now (works (am_id a)) a c d of
        (d1, Row_Cancelled) \<Rightarrow> (d1, None)
      | (d1, Row_Raised) \<Rightarrow> (d1, None)
      | (d1, out) \<Rightarrow>
          (case tick_rows env now works rows d1 of
             (d2, None) \<Rightarrow> (d2, None)
           | (d2, Some (triggered, failed)) \<Rightarrow>
               (d2, Some (if out = Row_Triggered then am_id a # triggered else triggered,
                          if out = Row_Failed then am_id a # failed else failed))))"

definition tick_cron_automations ::
    "trigger_env \<Rightarrow> instant \<Rightarrow> int option \<Rightarrow> (nat \<Rightarrow> cron_work) \<Rightarrow> trigger_db
     \<Rightarrow> trigger_db \<times> (nat list \<times> nat list) option" where
  "tick_cron_automations env now max_due works d =
     tick_rows env now works (list_due_cron now (map_option (max 1) max_due) d) d"

section \<open>Webhook payloads\<close>

definition event_key_candidates :: "string list" where
  "event_key_candidates = [''event_id'', ''idempotency_key'', ''delivery_id'', ''message_id'', ''request_id'', ''update_id'']"

definition event_header_candidates :: "string list" where
  "event_header_candidates = [''x-github-delivery'', ''x-request-id'', ''x-idempotency-key'', ''x-event-id'']"

text \<open>\<open>isinstance(value, (str, int))\<close>: a bool is an int.\<close>

definition event_key_of :: "pyval option \<Rightarrow> string option" where
  "event_key_of v =
     (case v of
        Some (V_Str s) \<Rightarrow> text_or_none (strip s)
      | Some (V_Int n) \<Rightarrow> text_or_none (strip (py_str (V_Int n)))
      | Some (V_Bool b) \<Rightarrow> text_or_none (strip (py_str (V_Bool b)))
      | _ \<Rightarrow> None)"

fun first_event_key :: "py_dict \<Rightarrow> string list \<Rightarrow> string option" where
  "first_event_key d [] = None"
| "first_event_key d (k # ks) = (case event_key_of (map_of d k) of Some v \<Rightarrow> Some v | None \<Rightarrow> first_event_key d ks)"

text \<open>Of headers that differ in case only, the last one counts.\<close>

definition lower_keys :: "py_dict \<Rightarrow> py_dict" where
  "lower_keys d = rev (map (\<lambda>(k, v). (lower k, v)) d)"

definition extract_webhook_event_key :: "py_dict \<Rightarrow> string option" where
  "extract_webhook_event_key payload =
     (case first_event_key payload event_key_candidates of
        Some k \<Rightarrow> Some k
      | None \<Rightarrow> (case map_of payload ''headers'' of
            Some (V_Dict headers) \<Rightarrow> first_event_key (lower_keys headers) event_header_candidates
          | _ \<Rightarrow> None))"

definition resolve_webhook_event_hash :: "(string \<Rightarrow> string) \<Rightarrow> string \<Rightarrow> py_dict \<Rightarrow> string" where
  "resolve_webhook_event_hash hash random payload =
     (case extract_webhook_event_key payload of None \<Rightarrow> hash random | Some k \<Rightarrow> hash (''event:'' @ k))"

definition is_sensitive_field_name :: "string \<Rightarrow> bool" where
  "is_sensitive_field_name field_name \<longleftrightarrow>
     list_ex (\<lambda>part. occurs_in part (lower field_name)) [''secret'', ''token'', ''password'', ''api_key'', ''authorization'']"

definition sensitive_value_hint :: "py_dict \<Rightarrow> bool" where
  "sensitive_value_hint d \<longleftrightarrow>
     list_ex (\<lambda>(k, v). lower k \<in> {''name'', ''field'', ''key'', ''slug'', ''credential_name'', ''credential_slug''}
        \<and> (case v of V_Str s \<Rightarrow> is_sensitive_field_name s | _ \<Rightarrow> False)) d"

fun sanitize_payload_value :: "(string \<Rightarrow> string) \<Rightarrow> string option \<Rightarrow> pyval \<Rightarrow> pyval" where
  "sanitize_payload_value redact field v =
     (if (case field of None \<Rightarrow> False | Some f \<Rightarrow> is_sensitive_field_name f) then V_Str ''[REDACTED]''
      else (case v of
          V_Str s \<Rightarrow> V_Str (redact s)
        | V_Dict d \<Rightarrow>
            V_Dict (map (\<lambda>(k, item).
              (k, if lower k = ''value'' \<and> sensitive_value_hint d \<and> item \<noteq> V_None then V_Str ''[REDACTED]''
                  else sanitize_payload_value redact (Some k) item)) d)
        | V_List vs \<Rightarrow> V_List (map (sanitize_payload_value redact None) vs)
        | other \<Rightarrow> other))"

declare sanitize_payload_value.simps [simp del]

definition sanitize_payload :: "(string \<Rightarrow> string) \<Rightarrow> py_dict \<Rightarrow> py_dict" where
  "sanitize_payload redact payload = map (\<lambda>(k, v). (k, sanitize_payload_value redact (Some k) v)) payload"

section \<open>Webhook deliveries\<close>

record delivery =
  dl_profile :: string
  dl_token :: string
  dl_payload :: py_dict
  dl_random :: string
  dl_claim_token :: string
  dl_received_at :: instant
  dl_started_at :: instant
  dl_ended_at :: instant
  dl_between :: "trigger_db \<Rightarrow> trigger_db"
  dl_work :: work

record webhook_result =
  wr_automation :: nat
  wr_profile :: string
  wr_session :: string
  wr_payload :: py_dict
  wr_deduplicated :: bool

datatype webhook_answer = Webhook_Result webhook_result | Webhook_Error app_error | Webhook_Cancelled

definition webhook_session_id :: "nat \<Rightarrow> string \<Rightarrow> string" where
  "webhook_session_id i event_hash = ''automation-webhook-'' @ nat_str i @ ''-'' @ take 16 event_hash"

definition state_conflict :: app_error where
  "state_conflict = Service_Error ''automation_webhook_state_conflict''"

definition event_hash_of :: "trigger_env \<Rightarrow> delivery \<Rightarrow> string" where
  "event_hash_of env dl = resolve_webhook_event_hash (te_hash env) (dl_random dl) (dl_payload dl)"

text \<open>Releasing after a failure, and the exception that leaves the handler.\<close>

definition release_delivery ::
    "trigger_env \<Rightarrow> delivery \<Rightarrow> nat \<Rightarrow> string \<Rightarrow> webhook_answer \<Rightarrow> trigger_db \<Rightarrow> trigger_db \<times> webhook_answer" where
  "release_delivery env dl i message ans d =
     (case release_webhook_event i (event_hash_of env dl) (dl_claim_token dl) (dl_ended_at dl) message d of
        (d1, True) \<Rightarrow> (d1, ans)
      | (d1, False) \<Rightarrow> (d1, Webhook_Error state_conflict))"

definition run_delivery ::
    "trigger_env \<Rightarrow> delivery \<Rightarrow> nat \<Rightarrow> webhook_result \<Rightarrow> trigger_db \<Rightarrow> trigger_db \<times> webhook_answer" where
  "run_delivery env dl i result d =
     (let h = event_hash_of env dl; token = dl_claim_token dl in
      case mark_webhook_started i h token (dl_started_at dl) d of
        (d1, False) \<Rightarrow> release_delivery env dl i (te_error_text env state_conflict) (Webhook_Error state_conflict) d1
      | (d1, True) \<Rightarrow>
          (case run_with_lease_refresh (\<lambda>at. refresh_webhook_claim i h token (at + trigger_claim_ttl)) (dl_work dl) d1 of
             (d2, Run_Cancelled) \<Rightarrow> release_delivery env dl i ''CancelledError'' Webhook_Cancelled d2
           | (d2, Run_Failed e) \<Rightarrow> release_delivery env dl i (te_error_text env e) (Webhook_Error e) d2
           | (d2, Run_Done) \<Rightarrow>
               (case complete_webhook_event i h token (dl_ended_at dl) d2 of
                  (d3, True) \<Rightarrow> (d3, Webhook_Result result)
                | (d3, False) \<Rightarrow> (d3, Webhook_Error state_conflict))))"

definition trigger_webhook_automation :: "trigger_env \<Rightarrow> delivery \<Rightarrow> trigger_db \<Rightarrow> trigger_db \<times> webhook_answer" where
  "trigger_webhook_automation env dl d =
     (let h = event_hash_of env dl in
      case find_webhook_by_target (te_hash env) (strip (dl_profile dl)) (strip (dl_token dl)) d of
        Inl e \<Rightarrow> (d, Webhook_Error e)
      | Inr None \<Rightarrow> (d, Webhook_Error (Service_Error ''automation_not_found''))
      | Inr (Some (a, w)) \<Rightarrow>
          (let session_id = webhook_session_id (am_id a) h;
               result = \<lparr>wr_automation = am_id a, wr_profile = am_profile a, wr_session = session_id,
                         wr_payload = sanitize_payload (te_redact env) (dl_payload dl), wr_deduplicated = False\<rparr>
           in case claim_webhook_event (wh_automation w) (dl_received_at dl) h (dl_received_at dl + trigger_claim_ttl)
                     (dl_claim_token dl) session_id d of
                (d1, False) \<Rightarrow> (d1, Webhook_Result (result\<lparr>wr_deduplicated := True\<rparr>))
              | (d1, True) \<Rightarrow> run_delivery env dl (am_id a) result (dl_between dl d1)))"

section \<open>An event runs once\<close>

lemma find_target_Some:
  assumes "find_webhook_by_target hash p tok d = Inr (Some (a, w))"
  shows "wh_automation w = am_id a" and "w \<in> set (tg_hooks d)" and "a \<in> set (tg_autos d)"
    and "am_status a = ''active''" and "am_trigger_type a = ''webhook''"
  using scalar_filter_Some [OF assms [unfolded find_webhook_by_target_def]] by auto

lemma complete_records:
  "complete_webhook_event i h t now d = (d', True) \<Longrightarrow> (i, h) \<in> set (tg_processed d')"
  by (auto simp: complete_webhook_event_def update_hooks_def record_processed_webhook_event_def split: if_splits)

lemma release_delivery_result:
  "release_delivery env dl i message ans d = (d', Webhook_Result r) \<Longrightarrow> ans = Webhook_Result r"
  by (auto simp: release_delivery_def split: prod.splits bool.splits)

lemma run_delivery_result:
  assumes "run_delivery env dl i result d = (d', Webhook_Result r)"
  shows "r = result \<and> (i, event_hash_of env dl) \<in> set (tg_processed d')"
proof -
  note run = assms [unfolded run_delivery_def Let_def]
  obtain d1 started where 1: "mark_webhook_started i (event_hash_of env dl) (dl_claim_token dl) (dl_started_at dl) d
      = (d1, started)" by fastforce
  have started: "started" using run unfolding 1 by (cases started) (auto dest: release_delivery_result)
  note run = run [unfolded 1 prod.case, simplified started bool.case]
  obtain d2 ans where 2: "run_with_lease_refresh (\<lambda>at. refresh_webhook_claim i (event_hash_of env dl)
      (dl_claim_token dl) (at + trigger_claim_ttl)) (dl_work dl) d1 = (d2, ans)" by fastforce
  have fin: "ans = Run_Done" using run unfolding 2 by (cases ans) (auto dest: release_delivery_result)
  note run = run [unfolded 2 prod.case fin run_answer.case]
  obtain d3 ok where 3: "complete_webhook_event i (event_hash_of env dl) (dl_claim_token dl) (dl_ended_at dl) d2
      = (d3, ok)" by fastforce
  have "ok" "d' = d3" "r = result" using run unfolding 3 by (cases ok; simp)+
  with complete_records [of i "event_hash_of env dl" _ _ d2 d3] 3 show ?thesis by simp
qed

lemma delivered_event_processed:
  assumes "trigger_webhook_automation env dl d = (d', Webhook_Result r)" and "\<not> wr_deduplicated r"
  shows "(wr_automation r, event_hash_of env dl) \<in> set (tg_processed d')"
proof -
  note run = assms(1) [unfolded trigger_webhook_automation_def Let_def]
  obtain a w where found: "find_webhook_by_target (te_hash env) (strip (dl_profile dl)) (strip (dl_token dl)) d
      = Inr (Some (a, w))"
    using run by (cases "find_webhook_by_target (te_hash env) (strip (dl_profile dl)) (strip (dl_token dl)) d")
      (auto split: option.splits)
  note run = run [unfolded found sum.case option.case prod.case]
  obtain d1 claimed where claim: "claim_webhook_event (wh_automation w) (dl_received_at dl) (event_hash_of env dl)
      (dl_received_at dl + trigger_claim_ttl) (dl_claim_token dl) (webhook_session_id (am_id a) (event_hash_of env dl)) d
      = (d1, claimed)" by fastforce
  have "claimed" using run assms(2) unfolding claim by (cases claimed) auto
  with run run_delivery_result show ?thesis unfolding claim by fastforce
qed

lemma processed_event_deduplicated:
  assumes "find_webhook_by_target (te_hash env) (strip (dl_profile dl)) (strip (dl_token dl)) d = Inr (Some (a, w))"
    and "(am_id a, event_hash_of env dl) \<in> set (tg_processed d)"
  shows "\<exists>r. trigger_webhook_automation env dl d = (d, Webhook_Result r) \<and> wr_deduplicated r
    \<and> wr_automation r = am_id a"
  using assms find_target_Some(1) [OF assms(1)]
  by (simp add: trigger_webhook_automation_def Let_def claim_webhook_event_def)

text \<open>C39 A webhook event that was carried out is never carried out again: however the database is written
  in the meantime (deliveries, ticks, updates, deletions), a later delivery of the same event key to
  the automation is answered as a duplicate and changes nothing, whatever other workers did during
  the first run.\<close>

theorem webhook_event_runs_once:
  assumes first: "trigger_webhook_automation env dl d = (d1, Webhook_Result r)" and fresh: "\<not> wr_deduplicated r"
    and later: "trigger_steps d1 d2"
    and same: "extract_webhook_event_key (dl_payload dl') = extract_webhook_event_key (dl_payload dl)"
    and key: "extract_webhook_event_key (dl_payload dl) = Some k"
    and target: "find_webhook_by_target (te_hash env) (strip (dl_profile dl')) (strip (dl_token dl')) d2 = Inr (Some (a, w))"
    and auto_id: "am_id a = wr_automation r"
  shows "\<exists>r'. trigger_webhook_automation env dl' d2 = (d2, Webhook_Result r') \<and> wr_deduplicated r'
    \<and> wr_automation r' = wr_automation r"
proof -
  have "event_hash_of env dl' = event_hash_of env dl"
    using same key by (simp add: event_hash_of_def resolve_webhook_event_hash_def)
  then have "(am_id a, event_hash_of env dl') \<in> set (tg_processed d2)"
    using delivered_event_processed [OF first fresh] steps_keep_processed [OF later] auto_id by auto
  from processed_event_deduplicated [OF target this] auto_id show ?thesis by simp
qed

text \<open>A delivery that arrives while the trigger still holds another event is answered as a duplicate and
  dropped: nothing is written, and its event is not recorded as processed.\<close>

theorem busy_webhook_drops_event:
  assumes target: "find_webhook_by_target (te_hash env) (strip (dl_profile dl)) (strip (dl_token dl)) d = Inr (Some (a, w))"
    and busy: "wh_event w = Some other" "wh_until w = Some until" "dl_received_at dl < until"
    and pk: "distinct (map wh_automation (tg_hooks d))"
  shows "\<exists>r. trigger_webhook_automation env dl d = (d, Webhook_Result r) \<and> wr_deduplicated r"
proof -
  note T = find_target_Some [OF target]
  have "\<not> free_webhook (dl_received_at dl) v" if "v \<in> set (tg_hooks d)" "wh_automation v = am_id a" for v
  proof -
    have "v = w" using pk that T(1,2) by (metis (no_types) inj_on_def distinct_map)
    with busy show ?thesis by (simp add: free_webhook_def at_or_before_def)
  qed
  then have "claim_webhook_event (wh_automation w) now h until' t s d = (d, False)" if "now = dl_received_at dl" for now h until' t s
    using that T(1) unfolding claim_webhook_event_def by (simp add: update_hooks_none)
  then show ?thesis using target by (simp add: trigger_webhook_automation_def Let_def)
qed

section \<open>Ticks end their claims\<close>

text \<open>What others do to the database never writes the token, and never moves it to another row.\<close>

definition leaves_token :: "string \<Rightarrow> (trigger_db \<Rightarrow> trigger_db) \<Rightarrow> bool" where
  "leaves_token t f \<longleftrightarrow>
     (\<forall>d. \<forall>r \<in> set (tg_crons (f d)). cr_token r = Some t \<longrightarrow>
        (\<exists>r0 \<in> set (tg_crons d). cr_token r0 = Some t \<and> cr_automation r0 = cr_automation r))"

definition quiet_work :: "string \<Rightarrow> cron_work \<Rightarrow> bool" where
  "quiet_work t cw \<longleftrightarrow>
     leaves_token t (cw_before cw) \<and> leaves_token t (wk_last (cw_work cw))
     \<and> (\<forall>p \<in> set (wk_periods (cw_work cw)). leaves_token t (fst p))"

text \<open>The token is on the rows of one automation at most.\<close>

definition token_within :: "string \<Rightarrow> nat set \<Rightarrow> trigger_db \<Rightarrow> bool" where
  "token_within t A d \<longleftrightarrow> (\<forall>r \<in> set (tg_crons d). cr_token r = Some t \<longrightarrow> cr_automation r \<in> A)"

lemma not_held_iff: "\<not> cron.held t d \<longleftrightarrow> token_within t {} d"
  by (auto simp: cron.held_def token_within_def)

lemma leaves_token_within: "leaves_token t f \<Longrightarrow> token_within t A d \<Longrightarrow> token_within t A (f d)"
  unfolding leaves_token_def token_within_def by metis

lemma cron_op_within: "token_within t A d \<Longrightarrow> token_within t A (fst (run_cron_op x i t' d))"
  by (cases x) (auto simp: cron_op_defs token_within_def set_update_where)

lemmas refresh_within = cron_op_within [of _ _ _ "Refresh_Cron _", simplified run_cron_op.simps]
  and release_within = cron_op_within [of _ _ _ Release_Cron, simplified run_cron_op.simps]
  and executed_within = cron_op_within [of _ _ _ "Executed _ _", simplified run_cron_op.simps]

lemma update_clears:
  assumes within: "token_within t {i} d" and clears: "\<And>c. cr_token (f c) = None"
  shows "token_within t {} (fst (update_crons (holds_cron i t) f d))"
  unfolding token_within_def update_crons_def fst_conv
proof (intro ballI impI)
  fix r
  assume "r \<in> set (tg_crons (d\<lparr>tg_crons := update_where (holds_cron i t) f (tg_crons d)\<rparr>))" and tok: "cr_token r = Some t"
  then obtain r0 where r0: "r0 \<in> set (tg_crons d)" "r = (if holds_cron i t r0 then f r0 else r0)"
    by (auto simp: update_where_def)
  show "cr_automation r \<in> {}"
  proof (cases "holds_cron i t r0")
    case True
    then have "cr_token r = None" using r0(2) clears by (simp only: if_True)
    with tok show ?thesis by simp
  next
    case False
    then have "r = r0" using r0(2) by (simp only: if_False)
    then have "cr_token r0 = Some t" using tok by (simp only:)
    then have "cr_automation r0 = i" using within r0(1) by (simp add: token_within_def)
    with False \<open>cr_token r0 = Some t\<close> show ?thesis by (simp add: holds_cron_def)
  qed
qed

lemma release_clears: "token_within t {i} d \<Longrightarrow> token_within t {} (fst (release_cron_claim i t d))"
  unfolding release_cron_claim_def by (rule update_clears) simp_all

lemma executed_clears: "token_within t {i} d \<Longrightarrow> token_within t {} (fst (mark_cron_executed i nx now t d))"
  unfolding mark_cron_executed_def by (rule update_clears) simp_all

lemma claim_within:
  assumes "token_within t {} d"
  shows "token_within t (if t = t' then {i} else {}) (fst (claim_cron_execution i due until t' d))"
  using assms by (auto simp: claim_cron_execution_def update_crons_def token_within_def set_update_where split: if_splits)

lemma claim_failed: "claim_cron_execution i due until t d = (d', False) \<Longrightarrow> d' = d"
  unfolding claim_cron_execution_def update_crons_def
  by (auto simp: rowcount_0_iff update_where_none)

lemma lease_periods_within:
  assumes "\<forall>p \<in> set periods. leaves_token t (fst p)" and "token_within t A d"
    and "\<And>now d. token_within t A d \<Longrightarrow> token_within t A (fst (refresh now d))"
  shows "token_within t A (fst (lease_periods refresh periods d))"
  using assms(1,2)
proof (induction periods arbitrary: d)
  case (Cons p periods)
  obtain during at where p: "p = (during, at)" by (cases p)
  have during: "token_within t A (during d)" using Cons.prems leaves_token_within p by auto
  show ?case
  proof (cases at)
    case None
    with during p show ?thesis by simp
  next
    case (Some now)
    obtain d1 ok where r: "refresh now (during d) = (d1, ok)" by fastforce
    with assms(3) [OF during, of now] have "token_within t A d1" by simp
    with Cons r Some p show ?thesis by (cases ok) simp_all
  qed
qed simp

lemma run_within:
  assumes "quiet_work t cw" and "token_within t A d"
  shows "token_within t A (fst (run_with_lease_refresh (\<lambda>at. refresh_cron_claim i t' (at + trigger_claim_ttl)) (cw_work cw) d))"
proof -
  let ?refresh = "\<lambda>at. refresh_cron_claim i t' (at + trigger_claim_ttl)"
  obtain d1 e where p: "lease_periods ?refresh (wk_periods (cw_work cw)) d = (d1, e)" by fastforce
  have "token_within t A d1"
    using lease_periods_within [of "wk_periods (cw_work cw)" t A d ?refresh] assms refresh_within p
    by (auto simp: quiet_work_def)
  then show ?thesis
    using assms(1) leaves_token_within p by (cases e) (auto simp: run_with_lease_refresh_def quiet_work_def)
qed

text \<open>The calls whose end leaves the claim of a row where it is.\<close>

definition left_claimed :: "cron_work \<Rightarrow> bool" where
  "left_claimed cw \<longleftrightarrow> cw_claiming cw = Call_Cut True \<or> cw_releasing cw \<in> {Call_Raised, Call_Cut False}"

definition row_left :: "string \<Rightarrow> cron_work \<Rightarrow> nat \<Rightarrow> trigger_db \<times> row_outcome \<Rightarrow> bool" where
  "row_left t cw i r \<longleftrightarrow> token_within t {} (fst r)
     \<or> token_within t {i} (fst r) \<and> snd r \<in> {Row_Cancelled, Row_Raised} \<and> t = cw_token cw \<and> left_claimed cw"

lemma token_within_mono: "token_within t A d \<Longrightarrow> A \<subseteq> B \<Longrightarrow> token_within t B d"
  by (auto simp: token_within_def)

lemma release_row_left:
  assumes d: "token_within t (if t = cw_token cw then {i} else {}) d"
  shows "row_left t cw i (release_row (cw_releasing cw) i (cw_token cw) d out)"
proof -
  have released: "token_within t {} (fst (release_cron_claim i (cw_token cw) d))"
    using d release_clears release_within by (cases "t = cw_token cw") simp_all
  have kept: "token_within t {i} d" by (rule token_within_mono [OF d]) simp
  show ?thesis
  proof (cases "cw_releasing cw")
    case Call_Done
    with released show ?thesis by (simp add: row_left_def release_row_def)
  next
    case Call_Raised
    with d kept show ?thesis by (cases "t = cw_token cw") (simp_all add: row_left_def release_row_def left_claimed_def)
  next
    case (Call_Cut committed)
    with d kept released show ?thesis
      by (cases "t = cw_token cw"; cases committed) (simp_all add: row_left_def release_row_def left_claimed_def)
  qed
qed

lemma tick_row_left:
  assumes quiet: "quiet_work t cw" and free: "token_within t {} d"
  shows "row_left t cw (am_id a) (tick_row env now cw a c d)"
proof -
  let ?i = "am_id a" and ?tok = "cw_token cw"
  let ?A = "if t = ?tok then {?i} else {}"
  have executed: "token_within t {} (fst (mark_cron_executed ?i nx now ?tok d'))" if "token_within t ?A d'" for d' nx
    using that executed_clears executed_within by (cases "t = ?tok") simp_all
  have empty: "token_within t ?A d'" if "token_within t {} d'" for d' by (rule token_within_mono [OF that]) simp
  have d0: "token_within t {} (cw_before cw d)"
    using quiet free leaves_token_within by (auto simp: quiet_work_def)
  obtain d1 claimed where claim: "claim_cron_execution ?i now (cw_claimed_at cw + trigger_claim_ttl) ?tok (cw_before cw d)
      = (d1, claimed)" by fastforce
  have d1: "token_within t ?A d1" using claim_within [OF d0, of ?tok ?i now "cw_claimed_at cw + trigger_claim_ttl"] claim by simp
  note tick = tick_row_def [of env now cw a c d, unfolded Let_def claim prod.case]
  show ?thesis
  proof (cases "cw_claiming cw")
    case Call_Raised
    with d0 show ?thesis unfolding tick by (simp add: row_left_def)
  next
    case (Call_Cut committed)
    with d0 d1 show ?thesis unfolding tick by (cases committed; cases "t = ?tok") (simp_all add: row_left_def left_claimed_def)
  next
    case Call_Done
    note tick = tick [unfolded this db_call.case]
    show ?thesis
    proof (cases claimed)
      case False
      with claim have "d1 = cw_before cw d" by (simp add: claim_failed)
      with False d0 show ?thesis unfolding tick by (simp add: row_left_def)
    next
      case True
      note tick = tick [unfolded eqTrueI [OF this] not_True_eq_False if_False]
      show ?thesis
      proof (cases "compute_next_run_at (te_zones env) (cr_expr c) now (cr_timezone c)")
        case (Inl e)
        with release_row_left [OF d1] show ?thesis unfolding tick by simp
      next
        case (Inr nx)
        obtain d2 ans where run: "run_with_lease_refresh (\<lambda>at. refresh_cron_claim ?i ?tok (at + trigger_claim_ttl)) (cw_work cw) d1
            = (d2, ans)" by fastforce
        have d2: "token_within t ?A d2" using run_within [OF quiet d1, of ?i ?tok] run by simp
        note tick = tick [unfolded Inr sum.case run prod.case]
        show ?thesis
        proof (cases ans)
          case Run_Done
          obtain d3 ok where mark: "mark_cron_executed ?i nx now ?tok d2 = (d3, ok)" by fastforce
          have d3: "token_within t {} d3" using executed [OF d2, of nx] mark by simp
          note left = release_row_left [OF d2] release_row_left [OF empty [OF d3]]
          show ?thesis
          proof (cases "cw_completing cw")
            case Call_Done
            with d3 left Run_Done mark show ?thesis unfolding tick by (cases ok) (simp_all add: row_left_def)
          next
            case Call_Raised
            with left Run_Done mark show ?thesis unfolding tick by simp
          next
            case (Call_Cut committed)
            with left Run_Done mark show ?thesis unfolding tick by (cases committed) simp_all
          qed
        next
          case (Run_Failed e)
          with release_row_left [OF d2] show ?thesis unfolding tick by simp
        next
          case Run_Cancelled
          with release_row_left [OF d2] show ?thesis unfolding tick by simp
        qed
      qed
    qed
  qed
qed

lemma tick_rows_left:
  assumes "\<forall>i. quiet_work t (works i)" and "token_within t {} d" and "tick_rows env now works rows d = (d', res)"
  shows "token_within t {} d' \<or> res = None \<and> (\<exists>i. token_within t {i} d' \<and> cw_token (works i) = t \<and> left_claimed (works i))"
  using assms(2,3)
proof (induction rows arbitrary: d d' res)
  case (Cons row rows)
  obtain a c where row: "row = (a, c)" by (cases row)
  obtain d1 out where r: "tick_row env now (works (am_id a)) a c d = (d1, out)" by fastforce
  have left: "row_left t (works (am_id a)) (am_id a) (d1, out)"
    using tick_row_left [of t "works (am_id a)" d a env now c] assms(1) Cons.prems(1) r by simp
  show ?case
  proof (cases "out \<in> {Row_Cancelled, Row_Raised}")
    case True
    then have "d' = d1 \<and> res = None" using Cons.prems(2) r unfolding row by auto
    with left show ?thesis by (auto simp: row_left_def)
  next
    case False
    then have d1: "token_within t {} d1" using left by (simp add: row_left_def)
    obtain d2 rest where rest: "tick_rows env now works rows d1 = (d2, rest)" by fastforce
    from False rest Cons.prems(2) r have "d' = d2 \<and> (res = None \<longleftrightarrow> rest = None)"
      unfolding row by (cases out; cases rest) auto
    with Cons.IH [OF d1 rest] show ?thesis by blast
  qed
qed simp

lemma due_row_claimed:
  assumes "r \<in> set (tg_crons d)" and "active_automation (cr_automation r) ''cron'' d" and "due_cron due r"
  shows "snd (claim_cron_execution (cr_automation r) due until token d)"
  using assms unfolding claim_cron_execution_def update_crons_def by (auto simp: rowcount_pos_iff)

text \<open>C40 What a cron tick leaves of its claims, whatever happens meanwhile (failures, lost leases, timeouts, database
  errors, a cancellation anywhere, other writers that do not write its tokens). A row is left claimed under a
  token of the tick only if the tick was ended without a result by one of two calls of that very row: its claim,
  cancelled after the commit, or its release, which raised or was cancelled before the commit. Such a row
  is claimed by the first tick that finds it due after the lease has run out, whoever holds its token.\<close>

theorem cron_tick_ends_claims:
  assumes "\<not> (\<exists>r \<in> set (tg_crons d). cr_token r = Some t)" and "\<forall>i. quiet_work t (works i)"
    and "tick_cron_automations env now max_due works d = (d', result)"
    and "r \<in> set (tg_crons d')" and "cr_token r = Some t"
  shows "result = None \<and> cw_token (works (cr_automation r)) = t
    \<and> (cw_claiming (works (cr_automation r)) = Call_Cut True \<or> cw_releasing (works (cr_automation r)) \<in> {Call_Raised, Call_Cut False})
    \<and> (\<forall>due until token. active_automation (cr_automation r) ''cron'' d' \<longrightarrow> at_or_before (cr_next_run_at r) due
         \<longrightarrow> at_or_before (cr_claimed_until r) due \<longrightarrow> snd (claim_cron_execution (cr_automation r) due until token d'))"
proof -
  have "token_within t {} d" using assms(1) by (auto simp: token_within_def)
  from tick_rows_left [OF assms(2) this assms(3) [unfolded tick_cron_automations_def]] assms(4,5)
  have "result = None \<and> cw_token (works (cr_automation r)) = t \<and> left_claimed (works (cr_automation r))"
    by (auto simp: token_within_def)
  moreover have "snd (claim_cron_execution (cr_automation r) due until token d')"
    if "active_automation (cr_automation r) ''cron'' d'" "at_or_before (cr_next_run_at r) due" "at_or_before (cr_claimed_until r) due"
    for due until token
    using due_row_claimed [OF assms(4) that(1), of due] that(2,3) by (simp add: due_cron_def)
  ultimately show ?thesis unfolding left_claimed_def by blast
qed

lemma release_not_triggered: "release_row call i token d out = (d', Row_Triggered) \<Longrightarrow> out = Row_Triggered"
  by (auto simp: release_row_def Let_def split: db_call.splits)

text \<open>A row reported as triggered has had its run, is unclaimed, and is due again only at the next time
  after the tick at which its schedule (as the tick listed it) matches.\<close>

theorem triggered_row_rescheduled:
  assumes "tick_row env now cw a c d = (d', Row_Triggered)"
  shows "\<exists>t r. compute_next_run_at (te_zones env) (cr_expr c) now (cr_timezone c) = Inr t \<and> now < t
    \<and> r \<in> set (tg_crons d') \<and> cr_automation r = am_id a \<and> cr_next_run_at r = Some t
    \<and> cr_last_run_at r = Some now \<and> cr_token r = None \<and> \<not> due_cron now r"
proof -
  obtain d1 claimed where 1: "claim_cron_execution (am_id a) now (cw_claimed_at cw + trigger_claim_ttl) (cw_token cw)
      (cw_before cw d) = (d1, claimed)" by fastforce
  note run = assms [unfolded tick_row_def Let_def 1 prod.case]
  have done': "cw_claiming cw = Call_Done" "claimed" using run by (cases "cw_claiming cw"; cases claimed; simp split: if_splits)+
  note run = run [unfolded done'(1) db_call.case, simplified done'(2), simplified]
  obtain t where t: "compute_next_run_at (te_zones env) (cr_expr c) now (cr_timezone c) = Inr t"
    using run by (cases "compute_next_run_at (te_zones env) (cr_expr c) now (cr_timezone c)") (auto dest: release_not_triggered)
  note run = run [unfolded t sum.case]
  obtain d2 ans where 2: "run_with_lease_refresh (\<lambda>at. refresh_cron_claim (am_id a) (cw_token cw) (at + trigger_claim_ttl))
      (cw_work cw) d1 = (d2, ans)" by fastforce
  have fin: "ans = Run_Done" using run unfolding 2 by (cases ans) (auto dest: release_not_triggered)
  note run = run [unfolded 2 prod.case fin run_answer.case]
  obtain d3 ok where 3: "mark_cron_executed (am_id a) t now (cw_token cw) d2 = (d3, ok)" by fastforce
  have ok: "ok" "d' = d3" using run unfolding 3 by (cases "cw_completing cw"; cases ok; auto dest: release_not_triggered)+
  from 3 ok obtain r where r: "r \<in> set (tg_crons d2)" "holds_cron (am_id a) (cw_token cw) r"
    unfolding mark_cron_executed_def update_crons_def by (auto simp: rowcount_pos_iff)
  let ?r = "r\<lparr>cr_last_run_at := Some now, cr_next_run_at := Some t, cr_token := None, cr_claimed_until := None\<rparr>"
  have "?r \<in> set (tg_crons d')"
    using 3 ok(2) update_where_mem [OF r(1), of "holds_cron (am_id a) (cw_token cw)"] r(2)
    unfolding mark_cron_executed_def update_crons_def by auto
  moreover have "cr_automation ?r = am_id a" using r(2) by (simp add: holds_cron_def)
  moreover have "now < t" using t by (rule next_run_later)
  ultimately show ?thesis
    using t by (intro exI [of _ t] exI [of _ ?r]) (simp add: due_cron_def at_or_before_def)
qed

text \<open>A row whose next time cannot be computed is claimed and released without a run, and stays due.\<close>

lemma unschedulable_row_never_runs:
  assumes "compute_next_run_at (te_zones env) (cr_expr c) now (cr_timezone c) = Inl e"
    and "tick_row env now cw a c d = (d', out)"
  shows "out \<noteq> Row_Triggered
    \<and> map cr_next_run_at (tg_crons d') = map cr_next_run_at (tg_crons (cw_before cw d))
    \<and> map cr_last_run_at (tg_crons d') = map cr_last_run_at (tg_crons (cw_before cw d))"
proof -
  obtain d1 claimed where 1: "claim_cron_execution (am_id a) now (cw_claimed_at cw + trigger_claim_ttl) (cw_token cw)
      (cw_before cw d) = (d1, claimed)" by fastforce
  then have d1: "map f (tg_crons d1) = map f (tg_crons (cw_before cw d))"
    if "\<And>x t u. f (x\<lparr>cr_claimed_until := u, cr_token := t\<rparr>) = f x" for f :: "cron_trigger \<Rightarrow> instant option"
    using that unfolding claim_cron_execution_def update_crons_def by (auto simp: map_update_where)
  have rel: "map f (tg_crons (fst (release_cron_claim i t d1))) = map f (tg_crons d1)"
    if "\<And>x t u. f (x\<lparr>cr_claimed_until := u, cr_token := t\<rparr>) = f x" for f :: "cron_trigger \<Rightarrow> instant option" and i t
    using that by (simp add: release_cron_claim_def update_crons_def map_update_where)
  show ?thesis
    using assms(2) 1 d1 rel
    by (cases claimed) (auto simp: tick_row_def release_row_def Let_def assms(1) split: db_call.splits if_splits)
qed

section \<open>Examples\<close>

definition example_trigger_env :: trigger_env where
  "example_trigger_env = \<lparr>te_hash = (\<lambda>s. s), te_zones = utc_zones, te_encrypt = (\<lambda>t. Some (t, ''k'')),
     te_redact = (\<lambda>s. s), te_error_text = (\<lambda>_. ''error'')\<rparr>"

definition example_auto :: "nat \<Rightarrow> string \<Rightarrow> auto_row" where
  "example_auto i ty = \<lparr>am_id = i, am_profile = ''p'', am_prompt = ''go'', am_trigger_type = ty,
     am_status = ''active'', am_execution_mode = ''prompt'', am_fallback_mode = ''fail_closed'',
     am_name = ''n'', am_delivery_mode = ''tool'', am_created_at = 0, am_updated_at = 0\<rparr>"

definition example_cron :: cron_trigger where
  "example_cron = \<lparr>cr_automation = 2, cr_expr = ''1 0 1 1 4'', cr_timezone = ''UTC'', cr_next_run_at = None,
     cr_last_run_at = None, cr_token = None, cr_claimed_until = None\<rparr>"

definition example_hook :: "string option \<Rightarrow> instant option \<Rightarrow> webhook_trigger" where
  "example_hook event until = \<lparr>wh_automation = 1, wh_token_ref = ''sha256:tok'', wh_token_hash = ''tok'',
     wh_encrypted = None, wh_key_version = None, wh_last_event = None, wh_event = event, wh_token = event,
     wh_until = until, wh_last_session = None, wh_last_started = None, wh_last_succeeded = None,
     wh_last_failed = None, wh_last_error = None, wh_last_received = None\<rparr>"

definition example_trigger_db :: "webhook_trigger \<Rightarrow> trigger_db" where
  "example_trigger_db w = \<lparr>tg_profiles = [''p''],
     tg_autos = [example_auto 1 ''webhook'', example_auto 2 ''cron''], tg_crons = [example_cron],
     tg_hooks = [w], tg_processed = [], tg_next_id = 3\<rparr>"

definition example_work :: "period list \<Rightarrow> run_end \<Rightarrow> work" where
  "example_work ps e = \<lparr>wk_periods = ps, wk_last = (\<lambda>d. d), wk_end = e\<rparr>"

definition example_delivery :: "string \<Rightarrow> string \<Rightarrow> delivery" where
  "example_delivery event token = \<lparr>dl_profile = ''p'', dl_token = ''tok'',
     dl_payload = [(''event_id'', V_Str event)], dl_random = ''r'', dl_claim_token = token,
     dl_received_at = 10, dl_started_at = 11, dl_ended_at = 12, dl_between = (\<lambda>d. d),
     dl_work = example_work [(\<lambda>d. d, Some 300)] Run_Returns\<rparr>"

definition example_cron_work :: cron_work where
  "example_cron_work = \<lparr>cw_token = ''c1'', cw_claimed_at = 1, cw_before = (\<lambda>d. d),
     cw_work = example_work [(\<lambda>d. d, Some 300)] Run_Returns, cw_claiming = Call_Done, cw_completing = Call_Done,
     cw_releasing = Call_Done\<rparr>"

lemmas example_trigger_defs = example_trigger_env_def example_auto_def example_cron_def example_hook_def
  example_trigger_db_def example_work_def example_delivery_def example_cron_work_def

definition example_claim :: "string \<Rightarrow> trigger_db \<times> bool" where
  "example_claim sid = claim_webhook_event 1 10 ''event:e1'' (10 + trigger_claim_ttl) ''t1'' sid
     (example_trigger_db (example_hook None None))"

lemma example_claim_ok: "snd (example_claim sid)"
  by code_simp

lemma example_run_ok:
  "snd (run_delivery example_trigger_env (example_delivery '' e1 '' ''t1'') 1 r (fst (example_claim sid))) = Webhook_Result r"
  by code_simp

lemma example_target:
  "case find_webhook_by_target (te_hash example_trigger_env) (strip (dl_profile (example_delivery ''e1'' ''t2'')))
      (strip (dl_token (example_delivery ''e1'' ''t2'')))
      (fst (run_delivery example_trigger_env (example_delivery '' e1 '' ''t1'') 1 r (fst (example_claim sid)))) of
     Inr (Some (a, w)) \<Rightarrow> am_id a = 1 | _ \<Rightarrow> False"
  by code_simp

theorem webhook_event_runs_once_witness:
  "\<exists>d1 r r'. trigger_webhook_automation example_trigger_env (example_delivery '' e1 '' ''t1'')
        (example_trigger_db (example_hook None None)) = (d1, Webhook_Result r)
     \<and> \<not> wr_deduplicated r
     \<and> trigger_webhook_automation example_trigger_env (example_delivery ''e1'' ''t2'') d1 = (d1, Webhook_Result r')
     \<and> wr_deduplicated r'"
proof -
  let ?env = example_trigger_env and ?d = "example_trigger_db (example_hook None None)"
  let ?dl = "example_delivery '' e1 '' ''t1''" and ?dl' = "example_delivery ''e1'' ''t2''"
  let ?sid = "webhook_session_id 1 ''event:e1''"
  let ?r = "\<lparr>wr_automation = 1, wr_profile = ''p'', wr_session = ?sid,
    wr_payload = sanitize_payload (te_redact ?env) (dl_payload ?dl), wr_deduplicated = False\<rparr>"
  let ?claimed = "fst (example_claim ?sid)"
  have hash: "event_hash_of ?env ?dl = ''event:e1''" by code_simp
  have found: "find_webhook_by_target (te_hash ?env) (strip (dl_profile ?dl)) (strip (dl_token ?dl)) ?d
      = Inr (Some (example_auto 1 ''webhook'', example_hook None None))" by code_simp
  have "trigger_webhook_automation ?env ?dl ?d = run_delivery ?env ?dl 1 ?r ?claimed"
  proof -
    obtain d1 where claim: "example_claim ?sid = (d1, True)"
      using example_claim_ok [of ?sid] by (cases "example_claim ?sid") simp
    have fields: "wh_automation (example_hook None None) = 1" "am_id (example_auto 1 ''webhook'') = 1"
      "am_profile (example_auto 1 ''webhook'') = ''p''" "dl_received_at ?dl = 10" "dl_claim_token ?dl = ''t1''"
      "dl_between ?dl d1 = d1"
      by (simp_all only: example_hook_def example_auto_def example_delivery_def webhook_trigger.simps
          automation.simps auto_row.simps delivery.simps)
    show ?thesis
      unfolding trigger_webhook_automation_def Let_def hash found sum.case option.case prod.case fields
        claim [unfolded example_claim_def] bool.case claim fst_conv ..
  qed
  then have "snd (trigger_webhook_automation ?env ?dl ?d) = Webhook_Result ?r"
    and "fst (trigger_webhook_automation ?env ?dl ?d) = fst (run_delivery ?env ?dl 1 ?r ?claimed)"
    using example_run_ok by simp_all
  then obtain d1 where first: "trigger_webhook_automation ?env ?dl ?d = (d1, Webhook_Result ?r)"
    and d1: "d1 = fst (run_delivery ?env ?dl 1 ?r ?claimed)"
    by (metis prod.collapse)
  have fresh: "\<not> wr_deduplicated ?r" by simp
  from example_target [of ?r ?sid] obtain a w where
    target: "find_webhook_by_target (te_hash ?env) (strip (dl_profile ?dl')) (strip (dl_token ?dl')) d1 = Inr (Some (a, w))"
    and auto_id: "am_id a = wr_automation ?r" unfolding d1
    by (auto split: sum.splits option.splits)
  have same: "extract_webhook_event_key (dl_payload ?dl') = extract_webhook_event_key (dl_payload ?dl)" by code_simp
  have key: "extract_webhook_event_key (dl_payload ?dl) = Some ''e1''" by code_simp
  from webhook_event_runs_once [OF first fresh rtranclp.rtrancl_refl same key target auto_id] first fresh
  show ?thesis by blast
qed

theorem busy_webhook_drops_event_witness:
  "\<exists>r. trigger_webhook_automation example_trigger_env (example_delivery ''e2'' ''t2'')
      (example_trigger_db (example_hook (Some ''event:e1'') (Some 100)))
    = (example_trigger_db (example_hook (Some ''event:e1'') (Some 100)), Webhook_Result r) \<and> wr_deduplicated r"
proof (rule busy_webhook_drops_event)
  show "find_webhook_by_target (te_hash example_trigger_env) (strip (dl_profile (example_delivery ''e2'' ''t2'')))
      (strip (dl_token (example_delivery ''e2'' ''t2''))) (example_trigger_db (example_hook (Some ''event:e1'') (Some 100)))
    = Inr (Some (example_auto 1 ''webhook'', example_hook (Some ''event:e1'') (Some 100)))"
    by code_simp
  show "wh_event (example_hook (Some ''event:e1'') (Some 100)) = Some ''event:e1''"
    and "wh_until (example_hook (Some ''event:e1'') (Some 100)) = Some 100"
    and "dl_received_at (example_delivery ''e2'' ''t2'') < (100 :: instant)"
    and "distinct (map wh_automation (tg_hooks (example_trigger_db (example_hook (Some ''event:e1'') (Some 100)))))"
    by (simp_all add: example_trigger_defs)
qed

text \<open>A tick that is cancelled right after its first claim was committed: the claim stays, as the property allows.\<close>

definition example_cut_work :: cron_work where
  "example_cut_work = example_cron_work\<lparr>cw_claiming := Call_Cut True\<rparr>"

lemma cancelled_claim_stays:
  "\<exists>d' r. tick_cron_automations example_trigger_env 0 (Some 5) (\<lambda>_. example_cut_work)
      (example_trigger_db (example_hook None None)) = (d', None)
    \<and> r \<in> set (tg_crons d') \<and> cr_token r = Some ''c1'' \<and> cr_automation r = 2"
proof -
  let ?tick = "tick_cron_automations example_trigger_env 0 (Some 5) (\<lambda>_. example_cut_work) (example_trigger_db (example_hook None None))"
  have "list_ex (\<lambda>r. cr_token r = Some ''c1'' \<and> cr_automation r = 2) (tg_crons (fst ?tick))" "snd ?tick = None"
    by (code_simp, code_simp)
  then show ?thesis unfolding list_ex_iff by (metis prod.collapse)
qed

theorem cron_tick_ends_claims_witness:
  "\<exists>d' r. tick_cron_automations example_trigger_env 0 (Some 5) (\<lambda>_. example_cut_work)
      (example_trigger_db (example_hook None None)) = (d', None)
    \<and> r \<in> set (tg_crons d') \<and> cr_token r = Some ''c1'' \<and> left_claimed example_cut_work"
proof -
  obtain d' r where tick: "tick_cron_automations example_trigger_env 0 (Some 5) (\<lambda>_. example_cut_work)
      (example_trigger_db (example_hook None None)) = (d', None)" "r \<in> set (tg_crons d')" "cr_token r = Some ''c1''"
    using cancelled_claim_stays by blast
  have free: "\<not> (\<exists>r \<in> set (tg_crons (example_trigger_db (example_hook None None))). cr_token r = Some ''c1'')"
    by (simp add: example_trigger_defs)
  have "leaves_token ''c1'' (\<lambda>d. d)" by (auto simp: leaves_token_def)
  then have quiet: "\<forall>i. quiet_work ''c1'' ((\<lambda>_. example_cut_work) i)"
    by (simp add: quiet_work_def example_cut_work_def example_trigger_defs)
  from cron_tick_ends_claims [OF free quiet tick] tick show ?thesis unfolding left_claimed_def by blast
qed

theorem triggered_row_rescheduled_witness:
  "\<exists>d' t. tick_row example_trigger_env 0 example_cron_work (example_auto 2 ''cron'') example_cron
      (example_trigger_db (example_hook None None)) = (d', Row_Triggered)
    \<and> compute_next_run_at utc_zones ''1 0 1 1 4'' 0 ''UTC'' = Inr t \<and> 0 < t"
proof -
  let ?tick = "tick_row example_trigger_env 0 example_cron_work (example_auto 2 ''cron'') example_cron
      (example_trigger_db (example_hook None None))"
  have next_run: "compute_next_run_at (te_zones example_trigger_env) (cr_expr example_cron) 0 (cr_timezone example_cron)
      = Inr 60000000"
    by (simp add: example_trigger_defs example_next_run)
  have "snd ?tick = Row_Triggered"
    unfolding tick_row_def Let_def next_run
    by (simp add: example_trigger_defs claim_cron_execution_def update_crons_def active_automation_def due_cron_def
        at_or_before_def rowcount_def update_where_def run_with_lease_refresh_def refresh_cron_claim_def
        holds_cron_def run_answer_of_def mark_cron_executed_def)
  then obtain d' where tick: "?tick = (d', Row_Triggered)" by (cases ?tick) simp
  from triggered_row_rescheduled [OF tick] show ?thesis
    using tick next_run by (auto simp: example_trigger_env_def example_cron_def)
qed

end
