(* ===== verification/Connect.thy ===== *)
theory Connect
  imports Py_Values
begin

text \<open>
  Pairing of desktop clients (services/connect, repositories/connect_repo.py): one-time claim
  tokens with a PIN, refresh sessions with rotating tokens, access tokens and revocation. Only
  hashes of tokens are stored. The hash function, the random tokens, the clock and the
  normalisation of the base URL are arguments. Every operation is one transaction; what other
  requests commit between its first read and its first write is an argument too (\<open>meddle\<close>). A
  metadata column holds the object it encodes.
\<close>

section \<open>Tables\<close>

record claim_token =
  ct_id :: nat
  ct_profile :: string
  ct_session :: string
  ct_base_url :: string
  ct_hash :: string
  ct_pin_hash :: "string option"
  ct_failed :: int
  ct_blocked_at :: "instant option"
  ct_diagnostics :: bool
  ct_metadata :: "py_dict option"
  ct_overlay :: "string option"
  ct_expires_at :: instant
  ct_used_at :: "instant option"

record refresh_session =
  rf_id :: nat
  rf_profile :: string
  rf_session :: string
  rf_base_url :: string
  rf_hash :: string
  rf_proof_hash :: "string option"
  rf_diagnostics :: bool
  rf_metadata :: "py_dict option"
  rf_overlay :: "string option"
  rf_expires_at :: instant
  rf_revoked_at :: "instant option"

record access_token =
  ac_id :: nat
  ac_profile :: string
  ac_session :: string
  ac_refresh :: nat
  ac_base_url :: string
  ac_hash :: string
  ac_diagnostics :: bool
  ac_metadata :: "py_dict option"
  ac_overlay :: "string option"
  ac_expires_at :: instant
  ac_revoked_at :: "instant option"

record connect_db =
  cn_profiles :: "string list"
  cn_sessions :: "(string \<times> string) list"
  cn_claims :: "claim_token list"
  cn_refresh :: "refresh_session list"
  cn_access :: "access_token list"
  cn_next_claim :: nat
  cn_next_refresh :: nat
  cn_next_access :: nat

section \<open>Repository\<close>

definition create_claim_token :: "claim_token \<Rightarrow> connect_db \<Rightarrow> connect_db res" where
  "create_claim_token row d =
     (if \<exists>r \<in> set (cn_claims d). ct_hash r = ct_hash row
      then Inl (Integrity_Error ''uq_connect_claim_token_hash'')
      else Inr (d\<lparr>cn_claims := cn_claims d @ [row\<lparr>ct_id := cn_next_claim d\<rparr>],
                  cn_next_claim := Suc (cn_next_claim d)\<rparr>))"

definition get_claim_token_by_hash :: "string \<Rightarrow> connect_db \<Rightarrow> claim_token option res" where
  "get_claim_token_by_hash h d = scalar_one_or_none (filter (\<lambda>r. ct_hash r = h) (cn_claims d))"

definition unused_claim :: "nat \<Rightarrow> claim_token \<Rightarrow> bool" where
  "unused_claim i r \<longleftrightarrow> ct_id r = i \<and> ct_used_at r = None"

definition consume_claim_token :: "nat \<Rightarrow> instant \<Rightarrow> connect_db \<Rightarrow> connect_db \<times> bool" where
  "consume_claim_token i now d =
     (d\<lparr>cn_claims := update_where (unused_claim i) (\<lambda>r. r\<lparr>ct_used_at := Some now\<rparr>) (cn_claims d)\<rparr>,
      0 < rowcount (unused_claim i) (cn_claims d))"

definition update_claim_pin_failure_state ::
    "nat \<Rightarrow> int \<Rightarrow> instant option \<Rightarrow> connect_db \<Rightarrow> connect_db \<times> bool" where
  "update_claim_pin_failure_state i failed blocked d =
     (d\<lparr>cn_claims := update_where (unused_claim i)
          (\<lambda>r. r\<lparr>ct_failed := failed, ct_blocked_at := blocked\<rparr>) (cn_claims d)\<rparr>,
      0 < rowcount (unused_claim i) (cn_claims d))"

definition create_refresh_session :: "refresh_session \<Rightarrow> connect_db \<Rightarrow> (connect_db \<times> refresh_session) res" where
  "create_refresh_session row d =
     (if \<exists>r \<in> set (cn_refresh d). rf_hash r = rf_hash row
      then Inl (Integrity_Error ''uq_connect_session_refresh_token_hash'')
      else (let r = row\<lparr>rf_id := cn_next_refresh d\<rparr>
            in Inr (d\<lparr>cn_refresh := cn_refresh d @ [r], cn_next_refresh := Suc (cn_next_refresh d)\<rparr>, r)))"

definition create_access_token :: "access_token \<Rightarrow> connect_db \<Rightarrow> connect_db res" where
  "create_access_token row d =
     (if \<exists>r \<in> set (cn_access d). ac_hash r = ac_hash row
      then Inl (Integrity_Error ''uq_connect_access_token_hash'')
      else Inr (d\<lparr>cn_access := cn_access d @ [row\<lparr>ac_id := cn_next_access d\<rparr>],
                  cn_next_access := Suc (cn_next_access d)\<rparr>))"

definition get_access_token_by_hash :: "string \<Rightarrow> connect_db \<Rightarrow> access_token option res" where
  "get_access_token_by_hash h d = scalar_one_or_none (filter (\<lambda>r. ac_hash r = h) (cn_access d))"

definition get_refresh_session_by_hash :: "string \<Rightarrow> connect_db \<Rightarrow> refresh_session option res" where
  "get_refresh_session_by_hash h d = scalar_one_or_none (filter (\<lambda>r. rf_hash r = h) (cn_refresh d))"

definition get_refresh_session_by_id :: "nat \<Rightarrow> connect_db \<Rightarrow> refresh_session option res" where
  "get_refresh_session_by_id i d = scalar_one_or_none (filter (\<lambda>r. rf_id r = i) (cn_refresh d))"

definition revoke_access_tokens_by_refresh_session :: "nat \<Rightarrow> instant \<Rightarrow> connect_db \<Rightarrow> connect_db" where
  "revoke_access_tokens_by_refresh_session i now d =
     d\<lparr>cn_access := update_where (\<lambda>r. ac_refresh r = i \<and> ac_revoked_at r = None)
          (\<lambda>r. r\<lparr>ac_revoked_at := Some now\<rparr>) (cn_access d)\<rparr>"

definition live_session :: "nat \<Rightarrow> refresh_session \<Rightarrow> bool" where
  "live_session i r \<longleftrightarrow> rf_id r = i \<and> rf_revoked_at r = None"

definition revoke_refresh_session :: "nat \<Rightarrow> instant \<Rightarrow> connect_db \<Rightarrow> connect_db \<times> bool" where
  "revoke_refresh_session i now d =
     (d\<lparr>cn_refresh := update_where (live_session i) (\<lambda>r. r\<lparr>rf_revoked_at := Some now\<rparr>) (cn_refresh d)\<rparr>,
      0 < rowcount (live_session i) (cn_refresh d))"

text \<open>The unique index on refresh hashes is checked when the statement is flushed.\<close>

definition rotate_refresh_session_token ::
    "nat \<Rightarrow> string \<Rightarrow> string \<Rightarrow> connect_db \<Rightarrow> (connect_db \<times> bool) res" where
  "rotate_refresh_session_token i current new d =
     (let guard = (\<lambda>r. live_session i r \<and> rf_hash r = current);
          rows = update_where guard (\<lambda>r. r\<lparr>rf_hash := new\<rparr>) (cn_refresh d)
      in if distinct (map rf_hash rows) then Inr (d\<lparr>cn_refresh := rows\<rparr>, 0 < rowcount guard (cn_refresh d))
         else Inl (Integrity_Error ''uq_connect_session_refresh_token_hash''))"

section \<open>Arguments\<close>

definition normalize_ttl :: "int option \<Rightarrow> int" where
  "normalize_ttl value =
     (let ttl = (case value of None \<Rightarrow> 120 | Some v \<Rightarrow> v)
      in if ttl < 30 then 30 else if 3600 < ttl then 3600 else ttl)"

definition normalize_connect_session_id :: "string option \<Rightarrow> string \<Rightarrow> string res" where
  "normalize_connect_session_id value fallback =
     (let normalized = strip (str_or_empty value);
          resolved = (if normalized \<noteq> [] then normalized else fallback)
      in if 64 < length resolved then service_error ''connect_session_invalid'' else Inr resolved)"

definition normalize_claim_pin :: "string option \<Rightarrow> string option res" where
  "normalize_claim_pin value =
     (let normalized = strip (str_or_empty value)
      in if normalized = [] then Inr None
         else if length normalized < 4 then service_error ''connect_claim_pin_invalid''
         else if 64 < length normalized then service_error ''connect_claim_pin_invalid''
         else Inr (Some normalized))"

definition validate_session_proof :: "(string \<Rightarrow> string) \<Rightarrow> string option \<Rightarrow> string option \<Rightarrow> unit res" where
  "validate_session_proof hash required proof_token =
     (if str_or_empty required = [] then Inr ()
      else (let normalized = strip (str_or_empty proof_token)
            in if normalized = [] then service_error ''connect_session_proof_missing''
               else if Some (hash normalized) \<noteq> required then service_error ''connect_session_proof_invalid''
               else Inr ()))"

definition validate_claim_pin :: "(string \<Rightarrow> string) \<Rightarrow> string option \<Rightarrow> string option \<Rightarrow> unit res" where
  "validate_claim_pin hash required claim_pin =
     (if str_or_empty required = [] then Inr ()
      else bindE (normalize_claim_pin claim_pin) (\<lambda>normalized.
        case normalized of
          None \<Rightarrow> service_error ''connect_claim_pin_missing''
        | Some pin \<Rightarrow>
            if Some (hash pin) \<noteq> required then service_error ''connect_claim_pin_invalid'' else Inr ()))"

section \<open>Context snapshots\<close>

record client_metadata =
  cl_platform :: "string option"
  cl_app_version :: "string option"

definition client_payload :: "client_metadata \<Rightarrow> py_dict" where
  "client_payload c =
     filter (\<lambda>(k, v). v \<noteq> V_Str [])
       [(''platform'', V_Str (strip (str_or_empty (cl_platform c)))),
        (''app_version'', V_Str (strip (str_or_empty (cl_app_version c))))]"

text \<open>A snapshot is the pair of runtime metadata and prompt overlay.\<close>

type_synonym snapshot = "py_dict option \<times> string option"

definition overlay_text :: "string option \<Rightarrow> string option" where
  "overlay_text v = text_or_none (strip (str_or_empty v))"

definition snapshot_of :: "py_dict option \<Rightarrow> string option \<Rightarrow> snapshot option" where
  "snapshot_of metadata overlay =
     (if metadata = None \<and> overlay = None then None else Some (metadata, overlay))"

definition snapshot_from_claim_row :: "claim_token \<Rightarrow> snapshot option" where
  "snapshot_from_claim_row r = snapshot_of (ct_metadata r) (overlay_text (ct_overlay r))"

definition serialize_runtime_metadata :: "py_dict option \<Rightarrow> py_dict option" where
  "serialize_runtime_metadata m = (case m of None \<Rightarrow> None | Some v \<Rightarrow> if v = [] then None else Some v)"

definition merge_client_metadata :: "snapshot option \<Rightarrow> client_metadata option \<Rightarrow> snapshot option" where
  "merge_client_metadata snap client =
     (case client of
        None \<Rightarrow> snap
      | Some c \<Rightarrow>
          (let payload = client_payload c in
           if payload = [] then snap
           else
             (let metadata = (case snap of None \<Rightarrow> [] | Some (None, _) \<Rightarrow> [] | Some (Some m, _) \<Rightarrow> m);
                  merged = (case py_get metadata ''client'' of
                      V_Dict existing \<Rightarrow> foldl (\<lambda>acc (k, v). AList.update k v acc) existing payload
                    | _ \<Rightarrow> payload)
              in Some (Some (AList.update ''client'' (V_Dict merged) metadata),
                       case snap of None \<Rightarrow> None | Some (_, overlay) \<Rightarrow> overlay))))"

section \<open>Requests\<close>

record connect_env =
  ce_hash :: "string \<Rightarrow> string"
  ce_now :: instant
  ce_pin_max_attempts :: int

definition seconds :: "int \<Rightarrow> instant" where
  "seconds n = 1000000 * n"

record issue_request =
  iq_session :: string
  iq_base_url :: "string res"
  iq_profile_id :: "string res"
  iq_ttl :: "int option"
  iq_diagnostics :: bool
  iq_pin :: "string option"
  iq_metadata :: "py_dict option"
  iq_overlay :: "string option"
  iq_new_token :: string

text \<open>\<open>iq_base_url\<close> and \<open>iq_profile_id\<close> are the normalised base URL and profile id, or the error.\<close>

definition session_get_or_create :: "string \<Rightarrow> string \<Rightarrow> connect_db \<Rightarrow> connect_db res" where
  "session_get_or_create sid profile d =
     (case map_of (cn_sessions d) sid of
        Some p \<Rightarrow> if p = profile then Inr d else service_error ''connect_session_profile_mismatch''
      | None \<Rightarrow>
          Inr (d\<lparr>cn_profiles := (if profile \<in> set (cn_profiles d) then cn_profiles d
                                 else cn_profiles d @ [profile]),
                cn_sessions := cn_sessions d @ [(sid, profile)]\<rparr>))"

definition issue_connect_url :: "connect_env \<Rightarrow> issue_request \<Rightarrow> connect_db \<Rightarrow> connect_db res" where
  "issue_connect_url env rq d =
     bindE (iq_base_url rq) (\<lambda>base.
     bindE (normalize_connect_session_id (Some (iq_session rq)) ''desktop-session'') (\<lambda>sid.
     bindE (normalize_claim_pin (iq_pin rq)) (\<lambda>pin.
     bindE (iq_profile_id rq) (\<lambda>profile.
     bindE (guardE (profile \<in> set (cn_profiles d)) (Service_Error ''connect_profile_not_found'')) (\<lambda>_.
     bindE (session_get_or_create sid profile d) (\<lambda>d1.
       (let metadata = serialize_runtime_metadata (iq_metadata rq)
        in create_claim_token
             \<lparr>ct_id = 0, ct_profile = profile, ct_session = sid, ct_base_url = base,
              ct_hash = ce_hash env (iq_new_token rq), ct_pin_hash = map_option (ce_hash env) pin,
              ct_failed = 0, ct_blocked_at = None, ct_diagnostics = iq_diagnostics rq,
              ct_metadata = metadata, ct_overlay = overlay_text (iq_overlay rq),
              ct_expires_at = ce_now env + seconds (normalize_ttl (iq_ttl rq)), ct_used_at = None\<rparr> d1)))))))"

record connect_claim_request =
  cq_token :: string
  cq_pin :: "string option"
  cq_client :: "client_metadata option"
  cq_access_ttl :: int
  cq_refresh_ttl :: int
  cq_new_access :: string
  cq_new_refresh :: string
  cq_new_proof :: string

record connect_claim_result =
  cr_expires_in :: int
  cr_base_url :: string
  cr_profile :: string
  cr_session :: string

definition claim_row_ready :: "instant \<Rightarrow> claim_token \<Rightarrow> unit res" where
  "claim_row_ready now r =
     (if ct_used_at r \<noteq> None then service_error ''connect_token_used''
      else if ct_expires_at r \<le> now then service_error ''connect_token_expired''
      else if ct_blocked_at r \<noteq> None then service_error ''connect_claim_pin_locked''
      else Inr ())"

definition record_pin_failure ::
    "connect_env \<Rightarrow> claim_token \<Rightarrow> app_error \<Rightarrow> connect_db \<Rightarrow> connect_db \<times> connect_claim_result res" where
  "record_pin_failure env r e d =
     (let failed = ct_failed r + 1;
          blocked = (if max (ce_pin_max_attempts env) 1 \<le> failed then Some (ce_now env) else None)
      in (fst (update_claim_pin_failure_state (ct_id r) failed blocked d),
          if blocked \<noteq> None then service_error ''connect_claim_pin_locked'' else Inl e))"

definition named_error :: "string \<Rightarrow> 'a res \<Rightarrow> 'a res" where
  "named_error code r = (case r of Inl (Integrity_Error _) \<Rightarrow> service_error code | _ \<Rightarrow> r)"

definition claim_expires_in :: "connect_claim_request \<Rightarrow> int" where
  "claim_expires_in rq = max 60 (cq_access_ttl rq)"

definition issue_credentials ::
    "connect_env \<Rightarrow> connect_claim_request \<Rightarrow> claim_token \<Rightarrow> connect_db \<Rightarrow> (connect_db \<times> connect_claim_result) res" where
  "issue_credentials env rq r d =
     (case consume_claim_token (ct_id r) (ce_now env) d of
        (d1, consumed) \<Rightarrow>
          bindE (guardE consumed (Service_Error ''connect_token_used'')) (\<lambda>_.
            (let snap = merge_client_metadata (snapshot_from_claim_row r) (cq_client rq);
                 metadata = serialize_runtime_metadata (case snap of None \<Rightarrow> None | Some s \<Rightarrow> fst s);
                 overlay = (case snap of None \<Rightarrow> None | Some s \<Rightarrow> snd s)
             in bindE (named_error ''connect_refresh_issue_failed'' (create_refresh_session
                  \<lparr>rf_id = 0, rf_profile = ct_profile r, rf_session = ct_session r,
                   rf_base_url = ct_base_url r, rf_hash = ce_hash env (cq_new_refresh rq),
                   rf_proof_hash = Some (ce_hash env (cq_new_proof rq)),
                   rf_diagnostics = ct_diagnostics r, rf_metadata = metadata, rf_overlay = overlay,
                   rf_expires_at = ce_now env + seconds (max 60 (cq_refresh_ttl rq)),
                   rf_revoked_at = None\<rparr> d1)) (\<lambda>(d2, session).
                bindE (named_error ''connect_access_issue_failed'' (create_access_token
                  \<lparr>ac_id = 0, ac_profile = ct_profile r, ac_session = ct_session r,
                   ac_refresh = rf_id session, ac_base_url = ct_base_url r,
                   ac_hash = ce_hash env (cq_new_access rq), ac_diagnostics = ct_diagnostics r,
                   ac_metadata = metadata, ac_overlay = overlay,
                   ac_expires_at = ce_now env + seconds (claim_expires_in rq),
                   ac_revoked_at = None\<rparr> d2)) (\<lambda>d3.
                Inr (d3, \<lparr>cr_expires_in = claim_expires_in rq, cr_base_url = ct_base_url r,
                          cr_profile = ct_profile r, cr_session = ct_session r\<rparr>))))))"

text \<open>A transaction that raises leaves what the others committed.\<close>

definition committed :: "connect_db \<Rightarrow> (connect_db \<times> 'a) res \<Rightarrow> connect_db \<times> 'a res" where
  "committed d r = (case r of Inl e \<Rightarrow> (d, Inl e) | Inr (d', x) \<Rightarrow> (d', Inr x))"

definition claim_connect_token ::
    "connect_env \<Rightarrow> (connect_db \<Rightarrow> connect_db) \<Rightarrow> connect_claim_request \<Rightarrow> connect_db \<Rightarrow> connect_db \<times> connect_claim_result res" where
  "claim_connect_token env meddle rq d =
     (let token = strip (cq_token rq) in
      if token = [] then (meddle d, service_error ''connect_token_invalid'')
      else (case get_claim_token_by_hash (ce_hash env token) d of
          Inl e \<Rightarrow> (meddle d, Inl e)
        | Inr None \<Rightarrow> (meddle d, service_error ''connect_token_invalid'')
        | Inr (Some r) \<Rightarrow>
            (case claim_row_ready (ce_now env) r of
               Inl e \<Rightarrow> (meddle d, Inl e)
             | Inr _ \<Rightarrow>
                 (case validate_claim_pin (ce_hash env) (ct_pin_hash r) (cq_pin rq) of
                    Inl e \<Rightarrow>
                      if e \<in> {Service_Error ''connect_claim_pin_missing'',
                              Service_Error ''connect_claim_pin_invalid''}
                      then record_pin_failure env r e (meddle d)
                      else (meddle d, Inl e)
                  | Inr _ \<Rightarrow> committed (meddle d) (issue_credentials env rq r (meddle d))))))"

record refresh_request =
  fq_token :: string
  fq_proof :: "string option"
  fq_session :: "string option"
  fq_access_ttl :: int
  fq_new_access :: string
  fq_new_refresh :: string

definition proof_bound :: "refresh_session \<Rightarrow> bool" where
  "proof_bound r \<longleftrightarrow> strip (str_or_empty (rf_proof_hash r)) \<noteq> []"

text \<open>What the refresh reads, up to the rotation: the session row and the resolved session id.\<close>

definition refresh_checks :: "connect_env \<Rightarrow> refresh_request \<Rightarrow> refresh_session \<Rightarrow> string res" where
  "refresh_checks env rq r =
     (if rf_revoked_at r \<noteq> None then service_error ''connect_refresh_token_revoked''
      else if rf_expires_at r \<le> ce_now env then service_error ''connect_refresh_token_expired''
      else if \<not> proof_bound r then service_error ''connect_session_reauth_required''
      else bindE (validate_session_proof (ce_hash env) (rf_proof_hash r) (fq_proof rq)) (\<lambda>_.
           bindE (normalize_connect_session_id (fq_session rq) (rf_session r)) (\<lambda>sid.
             if sid \<noteq> rf_session r then service_error ''connect_session_override_forbidden'' else Inr sid)))"

definition rotate_credentials ::
    "connect_env \<Rightarrow> refresh_request \<Rightarrow> refresh_session \<Rightarrow> string \<Rightarrow> connect_db \<Rightarrow> (connect_db \<times> string) res" where
  "rotate_credentials env rq r sid d =
     bindE (rotate_refresh_session_token (rf_id r) (ce_hash env (strip (fq_token rq)))
              (ce_hash env (fq_new_refresh rq)) d) (\<lambda>(d1, rotated).
     bindE (guardE rotated (Service_Error ''connect_refresh_token_invalid'')) (\<lambda>_.
     bindE (session_get_or_create sid (rf_profile r) d1) (\<lambda>d2.
     bindE (named_error ''connect_access_issue_failed'' (create_access_token
              \<lparr>ac_id = 0, ac_profile = rf_profile r, ac_session = sid, ac_refresh = rf_id r,
               ac_base_url = rf_base_url r, ac_hash = ce_hash env (fq_new_access rq),
               ac_diagnostics = rf_diagnostics r, ac_metadata = rf_metadata r, ac_overlay = rf_overlay r,
               ac_expires_at = ce_now env + seconds (max 60 (fq_access_ttl rq)),
               ac_revoked_at = None\<rparr> d2)) (\<lambda>d3. Inr (d3, sid)))))"

definition refresh_connect_access_token ::
    "connect_env \<Rightarrow> (connect_db \<Rightarrow> connect_db) \<Rightarrow> refresh_request \<Rightarrow> connect_db \<Rightarrow> connect_db \<times> string res" where
  "refresh_connect_access_token env meddle rq d =
     (let token = strip (fq_token rq) in
      if token = [] then (meddle d, service_error ''connect_refresh_token_invalid'')
      else (case get_refresh_session_by_hash (ce_hash env token) d of
          Inl e \<Rightarrow> (meddle d, Inl e)
        | Inr None \<Rightarrow> (meddle d, service_error ''connect_refresh_token_invalid'')
        | Inr (Some r) \<Rightarrow>
            (case refresh_checks env rq r of
               Inl e \<Rightarrow> (meddle d, Inl e)
             | Inr sid \<Rightarrow> committed (meddle d) (rotate_credentials env rq r sid (meddle d)))))"

definition revoke_checks :: "connect_env \<Rightarrow> string option \<Rightarrow> refresh_session \<Rightarrow> unit res" where
  "revoke_checks env session_proof r =
     (if \<not> proof_bound r then service_error ''connect_session_reauth_required''
      else validate_session_proof (ce_hash env) (rf_proof_hash r) session_proof)"

definition revoke_writes :: "instant \<Rightarrow> refresh_session \<Rightarrow> connect_db \<Rightarrow> connect_db \<times> bool" where
  "revoke_writes now r d =
     (if rf_revoked_at r \<noteq> None then (revoke_access_tokens_by_refresh_session (rf_id r) now d, True)
      else (case revoke_refresh_session (rf_id r) now d of
              (d1, revoked) \<Rightarrow> (revoke_access_tokens_by_refresh_session (rf_id r) now d1, revoked)))"

definition revoke_connect_session ::
    "connect_env \<Rightarrow> (connect_db \<Rightarrow> connect_db) \<Rightarrow> string \<Rightarrow> string option \<Rightarrow> connect_db \<Rightarrow> connect_db \<times> bool res" where
  "revoke_connect_session env meddle refresh_token session_proof d =
     (let token = strip refresh_token in
      if token = [] then (meddle d, service_error ''connect_refresh_token_invalid'')
      else (case get_refresh_session_by_hash (ce_hash env token) d of
          Inl e \<Rightarrow> (meddle d, Inl e)
        | Inr None \<Rightarrow> (meddle d, service_error ''connect_refresh_token_invalid'')
        | Inr (Some r) \<Rightarrow>
            (case revoke_checks env session_proof r of
               Inl e \<Rightarrow> (meddle d, Inl e)
             | Inr _ \<Rightarrow> (case revoke_writes (ce_now env) r (meddle d) of (d', b) \<Rightarrow> (d', Inr b)))))"

record token_context =
  tc_profile :: string
  tc_session :: string
  tc_base_url :: string
  tc_expires_at :: instant
  tc_diagnostics :: bool
  tc_metadata :: "py_dict option"
  tc_overlay :: "string option"

definition validate_connect_access_token ::
    "connect_env \<Rightarrow> string \<Rightarrow> string option \<Rightarrow> connect_db \<Rightarrow> token_context res" where
  "validate_connect_access_token env access session_proof d =
     (let token = strip access in
      if token = [] then service_error ''connect_access_token_invalid''
      else bindE (get_access_token_by_hash (ce_hash env token) d) (\<lambda>found.
        case found of
          None \<Rightarrow> service_error ''connect_access_token_invalid''
        | Some r \<Rightarrow>
            if ac_revoked_at r \<noteq> None then service_error ''connect_access_token_revoked''
            else if ac_expires_at r \<le> ce_now env then service_error ''connect_access_token_expired''
            else bindE (get_refresh_session_by_id (ac_refresh r) d) (\<lambda>session.
              case session of
                None \<Rightarrow> service_error ''connect_access_token_invalid''
              | Some f \<Rightarrow>
                  if rf_profile f \<noteq> ac_profile r \<or> rf_base_url f \<noteq> ac_base_url r
                  then service_error ''connect_access_token_invalid''
                  else if rf_revoked_at f \<noteq> None then service_error ''connect_access_token_revoked''
                  else if \<not> proof_bound f then service_error ''connect_session_reauth_required''
                  else bindE (validate_session_proof (ce_hash env) (rf_proof_hash f) session_proof) (\<lambda>_.
                    Inr \<lparr>tc_profile = ac_profile r, tc_session = ac_session r, tc_base_url = ac_base_url r,
                         tc_expires_at = ac_expires_at r, tc_diagnostics = ac_diagnostics r,
                         tc_metadata = ac_metadata r, tc_overlay = overlay_text (ac_overlay r)\<rparr>))))"

section \<open>Every write is a step\<close>

text \<open>
  The writing part of a request runs against a database that may have moved since the request
  read its row; the row is whatever it read then.
\<close>

inductive connect_step :: "connect_db \<Rightarrow> connect_db \<Rightarrow> bool" where
  issue: "issue_connect_url env rq d = Inr d' \<Longrightarrow> connect_step d d'"
| pin_failure: "record_pin_failure env r e d = (d', out) \<Longrightarrow> connect_step d d'"
| claim: "issue_credentials env rq r d = Inr (d', out) \<Longrightarrow> connect_step d d'"
| rotate: "rotate_credentials env rq' f sid d = Inr (d', sid') \<Longrightarrow> connect_step d d'"
| revoke: "revoke_writes now f d = (d', b) \<Longrightarrow> connect_step d d'"

definition connect_ok :: "connect_db \<Rightarrow> bool" where
  "connect_ok d \<longleftrightarrow>
     distinct (map ct_id (cn_claims d)) \<and> distinct (map ct_hash (cn_claims d))
     \<and> (\<forall>r \<in> set (cn_claims d). ct_id r < cn_next_claim d)
     \<and> distinct (map rf_id (cn_refresh d)) \<and> distinct (map rf_hash (cn_refresh d))
     \<and> (\<forall>r \<in> set (cn_refresh d). rf_id r < cn_next_refresh d)
     \<and> distinct (map ac_hash (cn_access d))
     \<and> (\<forall>r \<in> set (cn_access d). ac_refresh r < cn_next_refresh d)"

text \<open>Rows keep their identity; used, revoked and bound stay so.\<close>

definition evolves :: "connect_db \<Rightarrow> connect_db \<Rightarrow> bool" where
  "evolves d d' \<longleftrightarrow>
     (\<forall>r \<in> set (cn_claims d). \<exists>r' \<in> set (cn_claims d'). ct_id r' = ct_id r \<and> ct_hash r' = ct_hash r
        \<and> (ct_used_at r \<noteq> None \<longrightarrow> ct_used_at r' \<noteq> None))
     \<and> (\<forall>f \<in> set (cn_refresh d). \<exists>f' \<in> set (cn_refresh d'). rf_id f' = rf_id f
        \<and> rf_proof_hash f' = rf_proof_hash f \<and> (rf_revoked_at f \<noteq> None \<longrightarrow> rf_revoked_at f' \<noteq> None))"

definition good_step :: "connect_db \<Rightarrow> connect_db \<Rightarrow> bool" where
  "good_step d d' \<longleftrightarrow> (connect_ok d \<longrightarrow> connect_ok d' \<and> evolves d d')"

lemma evolves_refl: "evolves d d"
  unfolding evolves_def by blast

lemma evolves_trans:
  assumes "evolves d d'" and "evolves d' d''"
  shows "evolves d d''"
  unfolding evolves_def
proof (intro conjI ballI)
  fix r assume "r \<in> set (cn_claims d)"
  with assms(1) obtain r' where r': "r' \<in> set (cn_claims d')" "ct_id r' = ct_id r" "ct_hash r' = ct_hash r"
    "ct_used_at r \<noteq> None \<longrightarrow> ct_used_at r' \<noteq> None" unfolding evolves_def by blast
  with assms(2) obtain r'' where "r'' \<in> set (cn_claims d'')" "ct_id r'' = ct_id r'" "ct_hash r'' = ct_hash r'"
    "ct_used_at r' \<noteq> None \<longrightarrow> ct_used_at r'' \<noteq> None" unfolding evolves_def by blast
  with r' show "\<exists>r'' \<in> set (cn_claims d''). ct_id r'' = ct_id r \<and> ct_hash r'' = ct_hash r
      \<and> (ct_used_at r \<noteq> None \<longrightarrow> ct_used_at r'' \<noteq> None)" by (intro bexI [of _ r'']) simp_all
next
  fix f assume "f \<in> set (cn_refresh d)"
  with assms(1) obtain f' where f': "f' \<in> set (cn_refresh d')" "rf_id f' = rf_id f"
    "rf_proof_hash f' = rf_proof_hash f" "rf_revoked_at f \<noteq> None \<longrightarrow> rf_revoked_at f' \<noteq> None"
    unfolding evolves_def by blast
  with assms(2) obtain f'' where "f'' \<in> set (cn_refresh d'')" "rf_id f'' = rf_id f'"
    "rf_proof_hash f'' = rf_proof_hash f'" "rf_revoked_at f' \<noteq> None \<longrightarrow> rf_revoked_at f'' \<noteq> None"
    unfolding evolves_def by blast
  with f' show "\<exists>f'' \<in> set (cn_refresh d''). rf_id f'' = rf_id f \<and> rf_proof_hash f'' = rf_proof_hash f
      \<and> (rf_revoked_at f \<noteq> None \<longrightarrow> rf_revoked_at f'' \<noteq> None)" by (intro bexI [of _ f'']) simp_all
qed

lemma good_refl [simp]: "good_step d d"
  by (simp add: good_step_def evolves_refl)

lemma good_trans: "good_step d d' \<Longrightarrow> good_step d' d'' \<Longrightarrow> good_step d d''"
  unfolding good_step_def using evolves_trans by blast

text \<open>The primitive writes.\<close>

lemma good_create_claim: "create_claim_token row d = Inr d' \<Longrightarrow> good_step d d'"
  by (auto simp: create_claim_token_def good_step_def connect_ok_def evolves_def less_SucI split: if_splits)
    (metis less_irrefl_nat)+

lemma good_claim_update:
  assumes "\<And>r. ct_id (f r) = ct_id r" and "\<And>r. ct_hash (f r) = ct_hash r"
    and "\<And>r. ct_used_at r \<noteq> None \<Longrightarrow> ct_used_at (f r) \<noteq> None"
  shows "good_step d (d\<lparr>cn_claims := update_where p f (cn_claims d)\<rparr>)"
proof -
  have "map ct_id (update_where p f (cn_claims d)) = map ct_id (cn_claims d)"
    and "map ct_hash (update_where p f (cn_claims d)) = map ct_hash (cn_claims d)"
    by (simp_all add: map_update_where assms)
  moreover have "\<exists>r' \<in> set (update_where p f (cn_claims d)). ct_id r' = ct_id r \<and> ct_hash r' = ct_hash r
      \<and> (ct_used_at r \<noteq> None \<longrightarrow> ct_used_at r' \<noteq> None)" if "r \<in> set (cn_claims d)" for r
    by (rule bexI [of _ "if p r then f r else r"]) (use that assms in \<open>auto simp: set_update_where\<close>)
  moreover have "\<forall>r \<in> set (update_where p f (cn_claims d)). ct_id r < cn_next_claim d"
    if "\<forall>r \<in> set (cn_claims d). ct_id r < cn_next_claim d"
    using that assms(1) by (auto simp: set_update_where)
  ultimately show ?thesis unfolding good_step_def connect_ok_def evolves_def by auto
qed

lemma good_refresh_update:
  assumes "\<And>r. rf_id (f r) = rf_id r" and "\<And>r. rf_proof_hash (f r) = rf_proof_hash r"
    and "\<And>r. rf_revoked_at r \<noteq> None \<Longrightarrow> rf_revoked_at (f r) \<noteq> None"
    and dist: "connect_ok d \<Longrightarrow> distinct (map rf_hash (update_where p f (cn_refresh d)))"
  shows "good_step d (d\<lparr>cn_refresh := update_where p f (cn_refresh d)\<rparr>)"
proof -
  have "map rf_id (update_where p f (cn_refresh d)) = map rf_id (cn_refresh d)"
    by (simp add: map_update_where assms)
  moreover have "\<exists>r' \<in> set (update_where p f (cn_refresh d)). rf_id r' = rf_id r
      \<and> rf_proof_hash r' = rf_proof_hash r \<and> (rf_revoked_at r \<noteq> None \<longrightarrow> rf_revoked_at r' \<noteq> None)"
    if "r \<in> set (cn_refresh d)" for r
    by (rule bexI [of _ "if p r then f r else r"]) (use that assms in \<open>auto simp: set_update_where\<close>)
  moreover have "\<forall>r \<in> set (update_where p f (cn_refresh d)). rf_id r < cn_next_refresh d"
    if "\<forall>r \<in> set (cn_refresh d). rf_id r < cn_next_refresh d"
    using that assms(1) by (auto simp: set_update_where)
  ultimately show ?thesis using dist unfolding good_step_def connect_ok_def evolves_def by auto
qed

lemma good_access_update:
  assumes "\<And>r. ac_hash (f r) = ac_hash r" and "\<And>r. ac_refresh (f r) = ac_refresh r"
  shows "good_step d (d\<lparr>cn_access := update_where p f (cn_access d)\<rparr>)"
proof -
  have "map ac_hash (update_where p f (cn_access d)) = map ac_hash (cn_access d)"
    by (simp add: map_update_where assms)
  moreover have "\<forall>r \<in> set (update_where p f (cn_access d)). ac_refresh r < cn_next_refresh d"
    if "\<forall>r \<in> set (cn_access d). ac_refresh r < cn_next_refresh d"
    using that assms(2) by (auto simp: set_update_where)
  ultimately show ?thesis unfolding good_step_def connect_ok_def evolves_def by auto
qed

lemma good_create_refresh: "create_refresh_session row d = Inr (d', r) \<Longrightarrow> good_step d d'"
  by (auto simp: create_refresh_session_def good_step_def connect_ok_def evolves_def less_SucI Let_def
      split: if_splits) (metis less_irrefl_nat)+

lemma good_create_access:
  "create_access_token row d = Inr d' \<Longrightarrow> ac_refresh row < cn_next_refresh d \<Longrightarrow> good_step d d'"
  by (auto simp: create_access_token_def good_step_def connect_ok_def evolves_def split: if_splits) metis

lemma good_session: "session_get_or_create sid p d = Inr d' \<Longrightarrow> good_step d d'"
  by (auto simp: session_get_or_create_def good_step_def connect_ok_def evolves_def split: option.splits if_splits)

lemma good_consume: "good_step d (fst (consume_claim_token i now d))"
  unfolding consume_claim_token_def fst_conv by (rule good_claim_update) simp_all

lemma good_pin_failure: "good_step d (fst (record_pin_failure env r e d))"
  unfolding record_pin_failure_def update_claim_pin_failure_state_def Let_def fst_conv
  by (rule good_claim_update) simp_all

lemma good_revoke_access: "good_step d (revoke_access_tokens_by_refresh_session i now d)"
  unfolding revoke_access_tokens_by_refresh_session_def by (rule good_access_update) simp_all

lemma good_revoke_refresh: "good_step d (fst (revoke_refresh_session i now d))"
  unfolding revoke_refresh_session_def fst_conv
  by (rule good_refresh_update) (simp_all add: map_update_where connect_ok_def)

lemma good_revoke: "good_step d (fst (revoke_writes now r d))"
proof (cases "rf_revoked_at r")
  case None
  obtain d1 b where d1: "revoke_refresh_session (rf_id r) now d = (d1, b)" by fastforce
  with good_revoke_refresh [of d "rf_id r" now] have "good_step d d1" by simp
  from good_trans [OF this good_revoke_access] None d1 show ?thesis by (simp add: revoke_writes_def)
next
  case (Some t)
  then show ?thesis by (simp add: revoke_writes_def good_revoke_access)
qed

lemma rotate_InrD:
  assumes "rotate_refresh_session_token i current new d = Inr (d', b)"
  shows "d' = d\<lparr>cn_refresh := update_where (\<lambda>r. live_session i r \<and> rf_hash r = current)
      (\<lambda>r. r\<lparr>rf_hash := new\<rparr>) (cn_refresh d)\<rparr>"
    and "distinct (map rf_hash (cn_refresh d'))"
    and "b \<longleftrightarrow> (\<exists>r \<in> set (cn_refresh d). rf_id r = i \<and> rf_revoked_at r = None \<and> rf_hash r = current)"
  using assms by (auto simp: rotate_refresh_session_token_def Let_def rowcount_pos_iff live_session_def
      split: if_splits)

lemma good_rotate: "rotate_refresh_session_token i current new d = Inr (d', b) \<Longrightarrow> good_step d d'"
  by (frule rotate_InrD(1), drule rotate_InrD(2), hypsubst, rule good_refresh_update) simp_all

lemma named_error_Inr [simp]: "named_error code r = Inr x \<longleftrightarrow> r = Inr x"
  by (auto simp: named_error_def service_error_def split: sum.splits app_error.splits)

lemma create_refresh_InrD:
  assumes "create_refresh_session row d = Inr (d', r)"
  shows "r = row\<lparr>rf_id := cn_next_refresh d\<rparr>" and "cn_refresh d' = cn_refresh d @ [r]"
    and "cn_next_refresh d' = Suc (cn_next_refresh d)" and "cn_claims d' = cn_claims d"
    and "\<forall>f \<in> set (cn_refresh d). rf_hash f \<noteq> rf_hash row"
  using assms by (auto simp: create_refresh_session_def Let_def split: if_splits)

lemma create_access_InrD:
  assumes "create_access_token row d = Inr d'"
  shows "cn_refresh d' = cn_refresh d" and "cn_claims d' = cn_claims d"
    and "cn_next_refresh d' = cn_next_refresh d"
  using assms by (auto simp: create_access_token_def split: if_splits)

lemma session_InrD:
  assumes "session_get_or_create sid p d = Inr d'"
  shows "cn_refresh d' = cn_refresh d" and "cn_claims d' = cn_claims d"
    and "cn_next_refresh d' = cn_next_refresh d"
  using assms by (auto simp: session_get_or_create_def split: option.splits if_splits)

text \<open>The credentials of a claim, and those of a refresh, as their writes.\<close>

lemma issue_credentials_InrD:
  assumes "issue_credentials env rq r d = Inr (d', out)"
  obtains d1 d2 row f arow where "d1 = fst (consume_claim_token (ct_id r) (ce_now env) d)"
    and "\<exists>c \<in> set (cn_claims d). unused_claim (ct_id r) c"
    and "create_refresh_session row d1 = Inr (d2, f)" and "create_access_token arow d2 = Inr d'"
    and "ac_refresh arow = rf_id f" and "rf_hash row = ce_hash env (cq_new_refresh rq)"
    and "rf_proof_hash row = Some (ce_hash env (cq_new_proof rq))" and "rf_revoked_at row = None"
    and "rf_profile row = ct_profile r"
  using assms
  by (auto simp: issue_credentials_def consume_claim_token_def bindE_eq_Inr_iff Let_def rowcount_pos_iff
      split: prod.splits)

lemma rotate_credentials_InrD:
  assumes "rotate_credentials env rq r sid d = Inr (d', out)"
  obtains d1 d2 arow where "rotate_refresh_session_token (rf_id r) (ce_hash env (strip (fq_token rq)))
      (ce_hash env (fq_new_refresh rq)) d = Inr (d1, True)"
    and "session_get_or_create sid (rf_profile r) d1 = Inr d2"
    and "create_access_token arow d2 = Inr d'" and "ac_refresh arow = rf_id r" and "out = sid"
  using assms by (auto simp: rotate_credentials_def bindE_eq_Inr_iff)

lemma good_issue_credentials: "issue_credentials env rq r d = Inr (d', out) \<Longrightarrow> good_step d d'"
proof (erule issue_credentials_InrD)
  fix d1 d2 row f arow
  assume d1: "d1 = fst (consume_claim_token (ct_id r) (ce_now env) d)"
    and f: "create_refresh_session row d1 = Inr (d2, f)" and a: "create_access_token arow d2 = Inr d'"
    and ref: "ac_refresh arow = rf_id f"
  have "ac_refresh arow < cn_next_refresh d2" using create_refresh_InrD [OF f] ref by simp
  from good_create_access [OF a this] good_create_refresh [OF f] good_consume [of d] d1
  show ?thesis by (metis good_trans)
qed

lemma good_rotate_credentials: "rotate_credentials env rq r sid d = Inr (d', out) \<Longrightarrow> good_step d d'"
  unfolding good_step_def
proof (intro impI, erule rotate_credentials_InrD)
  fix d1 d2 arow
  assume ok: "connect_ok d" and r: "rotate_refresh_session_token (rf_id r) (ce_hash env (strip (fq_token rq)))
      (ce_hash env (fq_new_refresh rq)) d = Inr (d1, True)"
    and s: "session_get_or_create sid (rf_profile r) d1 = Inr d2"
    and a: "create_access_token arow d2 = Inr d'" and ref: "ac_refresh arow = rf_id r"
  have "rf_id r < cn_next_refresh d" using ok rotate_InrD(3) [OF r] by (auto simp: connect_ok_def)
  moreover have "cn_next_refresh d2 = cn_next_refresh d" using session_InrD(3) [OF s] rotate_InrD(1) [OF r] by simp
  ultimately have "good_step d2 d'" using good_create_access [OF a] ref by simp
  with good_rotate [OF r] good_session [OF s] have "good_step d d'" by (metis good_trans)
  with ok show "connect_ok d' \<and> evolves d d'" by (simp add: good_step_def)
qed

lemma good_issue:
  assumes "issue_connect_url env rq d = Inr d'"
  shows "good_step d d'"
proof -
  from assms obtain sid profile d1 row where
    "session_get_or_create sid profile d = Inr d1" "create_claim_token row d1 = Inr d'"
    unfolding issue_connect_url_def Let_def by (elim bindE_InrE)
  from good_trans [OF good_session [OF this(1)] good_create_claim [OF this(2)]] show ?thesis .
qed

lemma connect_step_good: "connect_step d d' \<Longrightarrow> good_step d d'"
proof (induction rule: connect_step.induct)
  case (pin_failure env r e d d' out)
  then show ?case using good_pin_failure [of d env r e] by simp
next
  case (revoke now f d d' b)
  then show ?case using good_revoke [of d now f] by simp
qed (rule good_issue good_issue_credentials good_rotate_credentials, assumption)+

lemma connect_steps_good: "connect_step\<^sup>*\<^sup>* d d' \<Longrightarrow> good_step d d'"
  by (induction rule: rtranclp_induct) (use good_trans connect_step_good in \<open>auto\<close>)

section \<open>One-time claims\<close>

lemma record_pin_failure_fails [simp]: "record_pin_failure env r e d \<noteq> (d', Inr out)"
  by (simp add: record_pin_failure_def Let_def service_error_def)

lemma claim_ok_cases:
  assumes run: "claim_connect_token env meddle rq d = (d', Inr out)"
  obtains r where "get_claim_token_by_hash (ce_hash env (strip (cq_token rq))) d = Inr (Some r)"
    and "r \<in> set (cn_claims d)" and "ct_hash r = ce_hash env (strip (cq_token rq))"
    and "ct_used_at r = None" and "ct_blocked_at r = None" and "ce_now env < ct_expires_at r"
    and "validate_claim_pin (ce_hash env) (ct_pin_hash r) (cq_pin rq) = Inr ()"
    and "issue_credentials env rq r (meddle d) = Inr (d', out)"
proof -
  let ?h = "ce_hash env (strip (cq_token rq))"
  have tok: "strip (cq_token rq) \<noteq> []" using run by (auto simp: claim_connect_token_def service_error_def)
  note run = run [unfolded claim_connect_token_def Let_def if_not_P [OF tok]]
  obtain r where r: "get_claim_token_by_hash ?h d = Inr (Some r)"
    using run by (cases "get_claim_token_by_hash ?h d"; cases "projr (get_claim_token_by_hash ?h d)")
      (simp_all add: service_error_def)
  note run = run [unfolded r sum.case option.case]
  have ready: "claim_row_ready (ce_now env) r = Inr ()"
    using run by (cases "claim_row_ready (ce_now env) r") simp_all
  note run = run [unfolded ready sum.case]
  have pin: "validate_claim_pin (ce_hash env) (ct_pin_hash r) (cq_pin rq) = Inr ()"
    using run by (cases "validate_claim_pin (ce_hash env) (ct_pin_hash r) (cq_pin rq)") (simp_all split: if_splits)
  from run [unfolded pin sum.case] have "issue_credentials env rq r (meddle d) = Inr (d', out)"
    by (cases "issue_credentials env rq r (meddle d)") (auto simp: committed_def)
  moreover have "r \<in> set (cn_claims d) \<and> ct_hash r = ?h"
    using r unfolding get_claim_token_by_hash_def by (rule scalar_filter_Some)
  moreover have "ct_used_at r = None \<and> ct_blocked_at r = None \<and> ce_now env < ct_expires_at r"
    using ready by (auto simp: claim_row_ready_def service_error_def split: if_splits)
  ultimately show ?thesis using that r pin by blast
qed

lemma consumed_used:
  assumes "issue_credentials env rq r d = Inr (d', out)" and ok: "connect_ok d"
    and c: "c \<in> set (cn_claims d)" "ct_id c = ct_id r"
  shows "\<exists>c' \<in> set (cn_claims d'). ct_id c' = ct_id c \<and> ct_hash c' = ct_hash c \<and> ct_used_at c' \<noteq> None"
proof -
  from assms(1) obtain d1 d2 row f arow where d1: "d1 = fst (consume_claim_token (ct_id r) (ce_now env) d)"
    and f: "create_refresh_session row d1 = Inr (d2, f)" and a: "create_access_token arow d2 = Inr d'"
    by (rule issue_credentials_InrD)
  let ?c = "if unused_claim (ct_id r) c then c\<lparr>ct_used_at := Some (ce_now env)\<rparr> else c"
  have "?c \<in> set (cn_claims d1)" using c d1 by (auto simp: consume_claim_token_def set_update_where)
  moreover have "cn_claims d' = cn_claims d1" using create_refresh_InrD(4) [OF f] create_access_InrD(2) [OF a] by simp
  ultimately show ?thesis using c(2) by (intro bexI [of _ ?c]) (auto simp: unused_claim_def)
qed

text \<open>C15 A claim token is good for one session: once a claim of it has been answered with credentials, no
  other claim of the same token is, whether it comes later or had already read the unused row.\<close>

theorem claim_token_single_use:
  assumes ok: "connect_ok d" and m: "connect_step\<^sup>*\<^sup>* d (meddle d)"
    and first: "claim_connect_token env meddle rq d = (d1, Inr c1)"
    and ok': "connect_ok d'" and m': "connect_step\<^sup>*\<^sup>* d' (meddle' d')" and after: "connect_step\<^sup>*\<^sup>* d1 (meddle' d')"
    and same: "ce_hash env' (strip (cq_token rq')) = ce_hash env (strip (cq_token rq))"
  shows "\<not> is_ok (snd (claim_connect_token env' meddle' rq' d'))"
proof
  let ?h = "ce_hash env (strip (cq_token rq))"
  assume "is_ok (snd (claim_connect_token env' meddle' rq' d'))"
  then obtain e c2 where second: "claim_connect_token env' meddle' rq' d' = (e, Inr c2)"
    by (auto simp: is_ok_def split: sum.splits intro: that [OF prod_eqI])
  have mid: "connect_ok (meddle d)" "evolves d (meddle d)"
    using connect_steps_good [OF m] ok by (simp_all add: good_step_def)
  obtain r where r: "r \<in> set (cn_claims d)" "ct_hash r = ?h" and iss: "issue_credentials env rq r (meddle d) = Inr (d1, c1)"
    using claim_ok_cases [OF first] by metis
  from mid(2) r obtain c where c: "c \<in> set (cn_claims (meddle d))" "ct_id c = ct_id r" "ct_hash c = ?h"
    unfolding evolves_def by metis
  from consumed_used [OF iss mid(1) c(1,2)] c(3) obtain u where u: "u \<in> set (cn_claims d1)" "ct_hash u = ?h"
    "ct_used_at u \<noteq> None" by auto
  have "connect_ok d1" using good_issue_credentials [OF iss] mid(1) by (simp add: good_step_def)
  then have fin: "connect_ok (meddle' d')" "evolves d1 (meddle' d')"
    using connect_steps_good [OF after] by (simp_all add: good_step_def)
  with u obtain u' where u': "u' \<in> set (cn_claims (meddle' d'))" "ct_hash u' = ?h" "ct_used_at u' \<noteq> None"
    unfolding evolves_def by metis
  obtain r' where r': "r' \<in> set (cn_claims d')" "ct_hash r' = ?h"
    and iss': "issue_credentials env' rq' r' (meddle' d') = Inr (e, c2)"
    using claim_ok_cases [OF second] same by metis
  have "evolves d' (meddle' d')" using connect_steps_good [OF m'] ok' by (simp add: good_step_def)
  with r' obtain w where w: "w \<in> set (cn_claims (meddle' d'))" "ct_id w = ct_id r'" "ct_hash w = ?h"
    unfolding evolves_def by metis
  from iss' obtain x where x: "x \<in> set (cn_claims (meddle' d'))" "unused_claim (ct_id r') x"
    by (rule issue_credentials_InrD) blast
  have dist: "distinct (map ct_id (cn_claims (meddle' d')))" "distinct (map ct_hash (cn_claims (meddle' d')))"
    using fin(1) by (simp_all add: connect_ok_def)
  have "x = w" using distinct_key_eqD [OF dist(1) x(1) w(1)] x(2) w(2) by (simp add: unused_claim_def)
  moreover have "w = u'" using distinct_key_eqD [OF dist(2) w(1) u'(1)] w(3) u'(2) by simp
  ultimately show False using x(2) u'(3) by (simp add: unused_claim_def)
qed

section \<open>Live sessions\<close>

text \<open>
  What the tables promise: a partial map from session ids to the session a refresh token still
  opens. Opening, rotating and closing are the only changes.
\<close>

record live_view =
  lv_hash :: string
  lv_proof :: "string option"
  lv_profile :: string
  lv_expires_at :: instant

definition view_of :: "refresh_session \<Rightarrow> live_view" where
  "view_of r = \<lparr>lv_hash = rf_hash r, lv_proof = rf_proof_hash r, lv_profile = rf_profile r,
     lv_expires_at = rf_expires_at r\<rparr>"

definition live_sessions :: "connect_db \<Rightarrow> nat \<Rightarrow> live_view option" where
  "live_sessions d i = map_option view_of (find (live_session i) (cn_refresh d))"

datatype connect_call =
    Call_Issue issue_request
  | Call_Claim connect_claim_request
  | Call_Refresh refresh_request
  | Call_Revoke string "string option"

fun run_call :: "connect_env \<Rightarrow> (connect_db \<Rightarrow> connect_db) \<Rightarrow> connect_call \<Rightarrow> connect_db \<Rightarrow> connect_db \<times> bool" where
  "run_call env meddle (Call_Issue rq) d =
     (case issue_connect_url env rq (meddle d) of Inl e \<Rightarrow> (meddle d, False) | Inr d' \<Rightarrow> (d', True))"
| "run_call env meddle (Call_Claim rq) d = map_prod id is_ok (claim_connect_token env meddle rq d)"
| "run_call env meddle (Call_Refresh rq) d = map_prod id is_ok (refresh_connect_access_token env meddle rq d)"
| "run_call env meddle (Call_Revoke tok proof) d = map_prod id is_ok (revoke_connect_session env meddle tok proof d)"

text \<open>The proof of possession a session asks for: the token whose hash it stores.\<close>

definition proves :: "connect_env \<Rightarrow> string option \<Rightarrow> live_view \<Rightarrow> bool" where
  "proves env session_proof s \<longleftrightarrow>
     strip (str_or_empty session_proof) \<noteq> [] \<and> lv_proof s = Some (ce_hash env (strip (str_or_empty session_proof)))"

text \<open>
  \<open>M0\<close> are the sessions when the request reads its row, \<open>M\<close> when it writes and \<open>M'\<close> afterwards. An accepted
  revocation closes the very session its token opened when it was read; it changes nothing only when the
  token opened none (its session was closed before).
\<close>

fun spec_allows :: "connect_env \<Rightarrow> connect_call \<Rightarrow> bool \<Rightarrow> (nat \<Rightarrow> live_view option) \<Rightarrow> (nat \<Rightarrow> live_view option) \<Rightarrow>
    (nat \<Rightarrow> live_view option) \<Rightarrow> bool" where
  "spec_allows env (Call_Issue rq) ok M0 M M' \<longleftrightarrow> M' = M"
| "spec_allows env (Call_Claim rq) ok M0 M M' \<longleftrightarrow>
     (if ok then \<exists>i s. M i = None \<and> M' = M(i \<mapsto> s) \<and> lv_hash s = ce_hash env (cq_new_refresh rq)
         \<and> lv_proof s = Some (ce_hash env (cq_new_proof rq))
         \<and> (\<forall>j t. M j = Some t \<longrightarrow> lv_hash t \<noteq> lv_hash s)
      else M' = M)"
| "spec_allows env (Call_Refresh rq) ok M0 M M' \<longleftrightarrow>
     (if ok then \<exists>i s. M i = Some s \<and> lv_hash s = ce_hash env (strip (fq_token rq)) \<and> proves env (fq_proof rq) s
         \<and> M' = M(i \<mapsto> s\<lparr>lv_hash := ce_hash env (fq_new_refresh rq)\<rparr>)
      else M' = M)"
| "spec_allows env (Call_Revoke tok proof) ok M0 M M' \<longleftrightarrow>
     (if \<not> ok then M' = M
      else if \<exists>i s. M0 i = Some s \<and> lv_hash s = ce_hash env (strip tok)
      then \<exists>i s. M0 i = Some s \<and> lv_hash s = ce_hash env (strip tok) \<and> proves env proof s \<and> M' = M(i := None)
      else M' = M)"

lemma live_sessions_eq_Some:
  assumes "connect_ok d"
  shows "live_sessions d i = Some s \<longleftrightarrow> (\<exists>r \<in> set (cn_refresh d). live_session i r \<and> s = view_of r)"
proof
  assume "live_sessions d i = Some s"
  then show "\<exists>r \<in> set (cn_refresh d). live_session i r \<and> s = view_of r"
    by (auto simp: live_sessions_def dest: find_SomeD)
next
  assume "\<exists>r \<in> set (cn_refresh d). live_session i r \<and> s = view_of r"
  then obtain r where r: "r \<in> set (cn_refresh d)" "live_session i r" "s = view_of r" by blast
  then obtain q where q: "find (live_session i) (cn_refresh d) = Some q"
    by (cases "find (live_session i) (cn_refresh d)") (auto simp: find_None_iff)
  from find_SomeD [OF q] have "q \<in> set (cn_refresh d)" "live_session i q" by blast+
  with r assms have "q = r"
    using distinct_key_eqD [of rf_id "cn_refresh d" q r] by (simp add: connect_ok_def live_session_def)
  with q r(3) show "live_sessions d i = Some s" by (simp add: live_sessions_def)
qed

lemma live_sessions_cong: "cn_refresh d' = cn_refresh d \<Longrightarrow> live_sessions d' = live_sessions d"
  by (rule ext) (simp add: live_sessions_def)

lemma map_eqI:
  assumes "\<And>i s. M' i = Some s \<longleftrightarrow> M i = Some s"
  shows "M' = M"
proof (rule ext)
  fix i show "M' i = M i" using assms [of i] by (cases "M i"; cases "M' i") auto
qed

lemma live_opened:
  assumes "create_refresh_session row d = Inr (d', r)" and "connect_ok d" and "rf_revoked_at row = None"
  shows "live_sessions d (cn_next_refresh d) = None"
    and "live_sessions d' = (live_sessions d)(cn_next_refresh d \<mapsto> view_of r)"
proof -
  note D = create_refresh_InrD [OF assms(1)]
  have ok': "connect_ok d'" using good_create_refresh [OF assms(1)] assms(2) by (simp add: good_step_def)
  have fresh: "\<forall>f \<in> set (cn_refresh d). rf_id f \<noteq> cn_next_refresh d"
    using assms(2) by (auto simp: connect_ok_def)
  then show none: "live_sessions d (cn_next_refresh d) = None"
    using live_sessions_eq_Some [OF assms(2)] by (cases "live_sessions d (cn_next_refresh d)") (auto simp: live_session_def)
  show "live_sessions d' = (live_sessions d)(cn_next_refresh d \<mapsto> view_of r)"
  proof (rule map_eqI)
    fix i s
    show "live_sessions d' i = Some s \<longleftrightarrow> ((live_sessions d)(cn_next_refresh d \<mapsto> view_of r)) i = Some s"
      using fresh D(1,2) assms(3) live_sessions_eq_Some [OF assms(2), of i s] live_sessions_eq_Some [OF ok', of i s]
      by (cases "i = cn_next_refresh d") (auto simp: live_session_def)
  qed
qed

lemma live_rotated:
  assumes rot: "rotate_refresh_session_token i current new d = Inr (d', True)" and ok: "connect_ok d"
  obtains s where "live_sessions d i = Some s" and "lv_hash s = current"
    and "live_sessions d' = (live_sessions d)(i \<mapsto> s\<lparr>lv_hash := new\<rparr>)"
proof -
  note D = rotate_InrD [OF rot]
  have ok': "connect_ok d'" using good_rotate [OF rot] ok by (simp add: good_step_def)
  from D(3) obtain r where r: "r \<in> set (cn_refresh d)" "live_session i r" "rf_hash r = current"
    by (auto simp: live_session_def)
  have only: "q = r" if "q \<in> set (cn_refresh d)" "live_session i q" for q
    using distinct_key_eqD [of rf_id "cn_refresh d" q r] that r ok by (simp add: connect_ok_def live_session_def)
  have "live_sessions d' = (live_sessions d)(i \<mapsto> (view_of r)\<lparr>lv_hash := new\<rparr>)"
  proof (rule map_eqI)
    fix j s
    let ?upd = "\<lambda>q. if live_session i q \<and> rf_hash q = current then q\<lparr>rf_hash := new\<rparr> else q"
    have mem: "q \<in> set (cn_refresh d') \<longleftrightarrow> (\<exists>p \<in> set (cn_refresh d). q = ?upd p)" for q
      unfolding D(1) by (auto simp: set_update_where)
    have "live_sessions d' j = Some s \<longleftrightarrow> (\<exists>p \<in> set (cn_refresh d). live_session j (?upd p) \<and> s = view_of (?upd p))"
      unfolding live_sessions_eq_Some [OF ok'] Bex_def mem by blast
    also have "\<dots> \<longleftrightarrow> (\<exists>p \<in> set (cn_refresh d). live_session j p \<and> s = view_of (?upd p))"
      by (auto simp: live_session_def)
    also have "\<dots> \<longleftrightarrow> ((live_sessions d)(i \<mapsto> (view_of r)\<lparr>lv_hash := new\<rparr>)) j = Some s"
    proof (cases "j = i")
      case True
      have "(\<exists>p \<in> set (cn_refresh d). live_session j p \<and> s = view_of (?upd p)) \<longleftrightarrow> s = view_of (?upd r)"
        using r(1,2) only True by blast
      also have "view_of (?upd r) = (view_of r)\<lparr>lv_hash := new\<rparr>" using r(2,3) by (simp add: view_of_def)
      finally show ?thesis using True by auto
    next
      case False
      with live_sessions_eq_Some [OF ok, of j s] show ?thesis by (auto simp: live_session_def)
    qed
    finally show "live_sessions d' j = Some s \<longleftrightarrow> \<dots>" .
  qed
  moreover have "live_sessions d i = Some (view_of r)" using live_sessions_eq_Some [OF ok] r by blast
  ultimately show ?thesis using r(3) by (intro that [of "view_of r"]) (simp_all add: view_of_def)
qed

lemma live_revoked:
  assumes "connect_ok d" and "revoke_writes now r d = (d', b)"
  shows "b \<Longrightarrow> rf_revoked_at r = None \<Longrightarrow> live_sessions d' = (live_sessions d)(rf_id r := None)"
    and "\<not> b \<or> rf_revoked_at r \<noteq> None \<Longrightarrow> live_sessions d' = live_sessions d"
proof -
  have ok': "connect_ok d'" using good_revoke [of d now r] assms by (simp add: good_step_def)
  {
    assume r: "rf_revoked_at r = None"
    then have d': "cn_refresh d' = update_where (live_session (rf_id r)) (\<lambda>q. q\<lparr>rf_revoked_at := Some now\<rparr>) (cn_refresh d)"
      and b: "b \<longleftrightarrow> (\<exists>q \<in> set (cn_refresh d). live_session (rf_id r) q)"
      using assms(2) by (auto simp: revoke_writes_def revoke_refresh_session_def rowcount_pos_iff
          revoke_access_tokens_by_refresh_session_def)
    have "live_sessions d' = (live_sessions d)(rf_id r := None)"
    proof (rule map_eqI)
      fix j s
      let ?upd = "\<lambda>q. if live_session (rf_id r) q then q\<lparr>rf_revoked_at := Some now\<rparr> else q"
      have mem: "q \<in> set (cn_refresh d') \<longleftrightarrow> (\<exists>p \<in> set (cn_refresh d). q = ?upd p)" for q
        unfolding d' by (auto simp: set_update_where)
      have "live_sessions d' j = Some s
          \<longleftrightarrow> (\<exists>p \<in> set (cn_refresh d). live_session j (?upd p) \<and> s = view_of (?upd p))"
        unfolding live_sessions_eq_Some [OF ok'] Bex_def mem by blast
      also have "\<dots> \<longleftrightarrow> j \<noteq> rf_id r \<and> (\<exists>p \<in> set (cn_refresh d). live_session j p \<and> s = view_of p)"
        by (auto simp: live_session_def)
      also have "\<dots> \<longleftrightarrow> ((live_sessions d)(rf_id r := None)) j = Some s"
        unfolding live_sessions_eq_Some [OF assms(1), symmetric] by simp
      finally show "live_sessions d' j = Some s \<longleftrightarrow> \<dots>" .
    qed
    moreover have "live_sessions d (rf_id r) = None" if "\<not> b"
      using that b live_sessions_eq_Some [OF assms(1), of "rf_id r"]
      by (cases "live_sessions d (rf_id r)") auto
    ultimately have "live_sessions d' = (live_sessions d)(rf_id r := None)"
      and "\<not> b \<Longrightarrow> live_sessions d' = live_sessions d" by auto
  } note live = this
  show "b \<Longrightarrow> rf_revoked_at r = None \<Longrightarrow> live_sessions d' = (live_sessions d)(rf_id r := None)"
    by (rule live(1))
  have "live_sessions d' = live_sessions d" if "rf_revoked_at r \<noteq> None"
    using assms(2) that
    by (intro live_sessions_cong) (auto simp: revoke_writes_def revoke_access_tokens_by_refresh_session_def)
  with live(2) show "\<not> b \<or> rf_revoked_at r \<noteq> None \<Longrightarrow> live_sessions d' = live_sessions d" by blast
qed

lemma proof_bound_valid:
  assumes "validate_session_proof h required p = Inr ()" and "strip (str_or_empty required) \<noteq> []"
  shows "strip (str_or_empty p) \<noteq> []" and "required = Some (h (strip (str_or_empty p)))"
proof -
  have "str_or_empty required \<noteq> []" using assms(2) by auto
  with assms(1) show "strip (str_or_empty p) \<noteq> []" and "required = Some (h (strip (str_or_empty p)))"
    by (auto simp: validate_session_proof_def Let_def service_error_def split: if_splits)
qed

lemma refresh_ok_cases:
  assumes "refresh_connect_access_token env meddle rq d = (d', Inr out)"
  obtains r sid where "r \<in> set (cn_refresh d)" and "rf_hash r = ce_hash env (strip (fq_token rq))"
    and "get_refresh_session_by_hash (ce_hash env (strip (fq_token rq))) d = Inr (Some r)"
    and "refresh_checks env rq r = Inr sid" and "rf_revoked_at r = None"
    and "proves env (fq_proof rq) (view_of r)"
    and "rotate_credentials env rq r sid (meddle d) = Inr (d', out)"
proof -
  let ?h = "ce_hash env (strip (fq_token rq))"
  from assms obtain r sid where r: "get_refresh_session_by_hash ?h d = Inr (Some r)"
    "refresh_checks env rq r = Inr sid" "committed (meddle d) (rotate_credentials env rq r sid (meddle d)) = (d', Inr out)"
    by (auto simp: refresh_connect_access_token_def Let_def service_error_def
        split: if_splits sum.splits option.splits)
  from r(1) have "r \<in> set (cn_refresh d) \<and> rf_hash r = ?h"
    unfolding get_refresh_session_by_hash_def by (rule scalar_filter_Some)
  moreover from r(2) have v: "validate_session_proof (ce_hash env) (rf_proof_hash r) (fq_proof rq) = Inr ()"
    "proof_bound r" "rf_revoked_at r = None"
    by (auto simp: refresh_checks_def bindE_eq_Inr_iff service_error_def split: if_splits)
  moreover have "proves env (fq_proof rq) (view_of r)"
    using proof_bound_valid [OF v(1)] v(2) by (simp add: proves_def proof_bound_def view_of_def)
  ultimately show ?thesis
    using that r by (auto simp: committed_def split: sum.splits)
qed

lemma not_ok_live:
  shows "\<not> is_ok (snd (claim_connect_token env meddle rq d)) \<Longrightarrow>
      live_sessions (fst (claim_connect_token env meddle rq d)) = live_sessions (meddle d)"
    and "\<not> is_ok (snd (refresh_connect_access_token env meddle rq' d)) \<Longrightarrow>
      live_sessions (fst (refresh_connect_access_token env meddle rq' d)) = live_sessions (meddle d)"
proof -
  have pin: "live_sessions (fst (record_pin_failure env r e d0)) = live_sessions d0" for r e d0
    by (rule live_sessions_cong) (simp add: record_pin_failure_def update_claim_pin_failure_state_def Let_def)
  show "\<not> is_ok (snd (claim_connect_token env meddle rq d)) \<Longrightarrow>
      live_sessions (fst (claim_connect_token env meddle rq d)) = live_sessions (meddle d)"
    by (auto simp: claim_connect_token_def Let_def committed_def pin split: if_splits sum.splits option.splits)
  show "\<not> is_ok (snd (refresh_connect_access_token env meddle rq' d)) \<Longrightarrow>
      live_sessions (fst (refresh_connect_access_token env meddle rq' d)) = live_sessions (meddle d)"
    by (auto simp: refresh_connect_access_token_def Let_def committed_def split: if_splits sum.splits option.splits)
qed

lemma live_after:
  assumes "connect_ok d" and "connect_step\<^sup>*\<^sup>* d e" and r: "r \<in> set (cn_refresh d)"
    and "live_sessions e (rf_id r) = Some s"
  shows "lv_proof s = rf_proof_hash r" and "rf_revoked_at r = None"
proof -
  have e: "connect_ok e" "evolves d e"
    using connect_steps_good [OF assms(2)] assms(1) by (simp_all add: good_step_def)
  from e(2) r obtain r' where r': "r' \<in> set (cn_refresh e)" "rf_id r' = rf_id r"
    "rf_proof_hash r' = rf_proof_hash r" "rf_revoked_at r \<noteq> None \<longrightarrow> rf_revoked_at r' \<noteq> None"
    unfolding evolves_def by blast
  from assms(4) obtain q where q: "q \<in> set (cn_refresh e)" "live_session (rf_id r) q" "s = view_of q"
    unfolding live_sessions_eq_Some [OF e(1)] by blast
  have "q = r'"
    using distinct_key_eqD [of rf_id "cn_refresh e" q r'] q(1,2) r'(1,2) e(1)
    by (simp add: connect_ok_def live_session_def)
  with q r' show "lv_proof s = rf_proof_hash r" and "rf_revoked_at r = None"
    by (auto simp: view_of_def live_session_def)
qed

lemma credentials_open:
  assumes "issue_credentials env rq r d = Inr (d', out)" and ok: "connect_ok d"
  shows "spec_allows env (Call_Claim rq) True M0 (live_sessions d) (live_sessions d')"
proof -
  from assms(1) obtain d1 d2 row f arow where d1: "d1 = fst (consume_claim_token (ct_id r) (ce_now env) d)"
    and f: "create_refresh_session row d1 = Inr (d2, f)" and a: "create_access_token arow d2 = Inr d'"
    and row: "rf_hash row = ce_hash env (cq_new_refresh rq)"
      "rf_proof_hash row = Some (ce_hash env (cq_new_proof rq))" "rf_revoked_at row = None"
    by (rule issue_credentials_InrD)
  have ok1: "connect_ok d1" using good_consume [of d "ct_id r" "ce_now env"] ok d1 by (simp add: good_step_def)
  have same: "live_sessions d1 = live_sessions d" "live_sessions d' = live_sessions d2"
    using d1 create_access_InrD(1) [OF a] by (auto intro!: live_sessions_cong simp: consume_claim_token_def)
  have "lv_hash t \<noteq> rf_hash row" if "live_sessions d1 j = Some t" for j t
    using that create_refresh_InrD(5) [OF f] unfolding live_sessions_eq_Some [OF ok1] by (auto simp: view_of_def)
  with live_opened [OF f ok1 row(3)] create_refresh_InrD(1) [OF f] row(1,2) same show ?thesis
    by (auto simp: view_of_def intro!: exI [of _ "cn_next_refresh d1"] exI [of _ "view_of f"])
qed

lemma issue_refines:
  assumes "run_call env meddle (Call_Issue rq) d = (d', b)"
  shows "live_sessions d' = live_sessions (meddle d)"
proof (cases "issue_connect_url env rq (meddle d)")
  case (Inr e)
  then have "cn_refresh e = cn_refresh (meddle d)"
    by (auto simp: issue_connect_url_def bindE_eq_Inr_iff Let_def create_claim_token_def
        split: if_splits dest!: session_InrD(1))
  with Inr assms show ?thesis by (auto intro: live_sessions_cong)
qed (use assms in auto)

lemma claim_refines:
  assumes run: "claim_connect_token env meddle rq d = (d', out)" and ok': "connect_ok (meddle d)"
  shows "spec_allows env (Call_Claim rq) (is_ok out) (live_sessions d) (live_sessions (meddle d)) (live_sessions d')"
proof (cases out)
  case (Inr x)
  from run [unfolded this] obtain r where "issue_credentials env rq r (meddle d) = Inr (d', x)" by (rule claim_ok_cases)
  from credentials_open [OF this ok'] Inr show ?thesis by simp
next
  case (Inl e)
  with run not_ok_live(1) [of env meddle rq d] show ?thesis by simp
qed

lemma refresh_refines:
  assumes ok: "connect_ok d" and m: "connect_step\<^sup>*\<^sup>* d (meddle d)" and ok': "connect_ok (meddle d)"
    and run: "refresh_connect_access_token env meddle rq d = (d', out)"
  shows "spec_allows env (Call_Refresh rq) (is_ok out) (live_sessions d) (live_sessions (meddle d)) (live_sessions d')"
proof (cases out)
  case (Inr x)
  from run [unfolded this] obtain r sid where r: "r \<in> set (cn_refresh d)" "proves env (fq_proof rq) (view_of r)"
    and rot: "rotate_credentials env rq r sid (meddle d) = Inr (d', x)" by (rule refresh_ok_cases)
  from rot obtain d1 d2 arow where d1: "rotate_refresh_session_token (rf_id r) (ce_hash env (strip (fq_token rq)))
      (ce_hash env (fq_new_refresh rq)) (meddle d) = Inr (d1, True)"
    and d2: "session_get_or_create sid (rf_profile r) d1 = Inr d2" "create_access_token arow d2 = Inr d'"
    by (rule rotate_credentials_InrD)
  from live_rotated [OF d1 ok'] obtain s where s: "live_sessions (meddle d) (rf_id r) = Some s"
    "lv_hash s = ce_hash env (strip (fq_token rq))"
    "live_sessions d1 = (live_sessions (meddle d))(rf_id r \<mapsto> s\<lparr>lv_hash := ce_hash env (fq_new_refresh rq)\<rparr>)"
    by metis
  have "live_sessions d' = live_sessions d1"
    using session_InrD(1) [OF d2(1)] create_access_InrD(1) [OF d2(2)] by (auto intro: live_sessions_cong)
  moreover have "proves env (fq_proof rq) s"
    using r(2) live_after(1) [OF ok m r(1) s(1)] by (simp add: proves_def view_of_def)
  ultimately show ?thesis using s Inr by auto
next
  case (Inl e)
  with run not_ok_live(2) [of env meddle rq d] show ?thesis by simp
qed

lemma revoke_ok_cases:
  assumes run: "revoke_connect_session env meddle tok p d = (d', Inr b)"
  obtains r where "get_refresh_session_by_hash (ce_hash env (strip tok)) d = Inr (Some r)"
    and "revoke_checks env p r = Inr ()" and "revoke_writes (ce_now env) r (meddle d) = (d', b)"
proof -
  have tok: "strip tok \<noteq> []" using run by (auto simp: revoke_connect_session_def service_error_def)
  note run = run [unfolded revoke_connect_session_def Let_def if_not_P [OF tok]]
  show ?thesis
  proof (cases "get_refresh_session_by_hash (ce_hash env (strip tok)) d")
    case (Inr found)
    show ?thesis
    proof (cases found)
      case (Some r)
      show ?thesis
      proof (cases "revoke_checks env p r")
        case (Inr u)
        with run \<open>get_refresh_session_by_hash _ _ = Inr found\<close> Some that show ?thesis
          by (cases "revoke_writes (ce_now env) r (meddle d)") simp
      qed (use run Inr Some in simp)
    qed (use run Inr in \<open>simp add: service_error_def\<close>)
  qed (use run in simp)
qed

lemma revoke_refines:
  assumes ok: "connect_ok d" and m: "connect_step\<^sup>*\<^sup>* d (meddle d)" and ok': "connect_ok (meddle d)"
    and run: "revoke_connect_session env meddle tok p d = (d', out)"
  shows "spec_allows env (Call_Revoke tok p) (is_ok out) (live_sessions d) (live_sessions (meddle d)) (live_sessions d')"
proof (cases out)
  case (Inr b)
  from run [unfolded this] obtain r where r: "get_refresh_session_by_hash (ce_hash env (strip tok)) d = Inr (Some r)"
    "revoke_checks env p r = Inr ()" and w: "revoke_writes (ce_now env) r (meddle d) = (d', b)"
    by (rule revoke_ok_cases)
  have mem: "r \<in> set (cn_refresh d)"
    using r(1) unfolding get_refresh_session_by_hash_def by (rule scalar_filter_Some [THEN conjunct1])
  from r(2) have v: "validate_session_proof (ce_hash env) (rf_proof_hash r) p = Inr ()" "proof_bound r"
    by (auto simp: revoke_checks_def service_error_def split: if_splits)
  have hash: "rf_hash r = ce_hash env (strip tok)"
    using r(1) unfolding get_refresh_session_by_hash_def by (auto dest: scalar_filter_Some)
  show ?thesis
  proof (cases "rf_revoked_at r")
    case None
    let ?M = "live_sessions (meddle d)"
    have "?M (rf_id r) = None" if "\<not> b"
    proof (cases "?M (rf_id r)")
      case (Some s)
      with w that None show ?thesis unfolding live_sessions_eq_Some [OF ok']
        by (auto simp: revoke_writes_def revoke_refresh_session_def rowcount_pos_iff)
    qed
    with live_revoked [OF ok' w] None have "live_sessions d' = ?M(rf_id r := None)" by (cases b) auto
    moreover have "live_sessions d (rf_id r) = Some (view_of r)"
      using live_sessions_eq_Some [OF ok] mem None by (auto simp: live_session_def)
    moreover have "proves env p (view_of r)"
      using proof_bound_valid [OF v(1)] v(2) by (simp add: proves_def proof_bound_def view_of_def)
    moreover have "lv_hash (view_of r) = ce_hash env (strip tok)" using hash by (simp add: view_of_def)
    ultimately show ?thesis using Inr by auto
  next
    case (Some t)
    have "lv_hash s \<noteq> ce_hash env (strip tok)" if s: "live_sessions d i = Some s" for i s
    proof
      assume same: "lv_hash s = ce_hash env (strip tok)"
      from s obtain q where q: "q \<in> set (cn_refresh d)" "rf_revoked_at q = None" "s = view_of q"
        unfolding live_sessions_eq_Some [OF ok] by (auto simp: live_session_def)
      with same hash have "rf_hash q = rf_hash r" by (simp add: view_of_def)
      with q(1,2) mem Some ok show False
        using distinct_key_eqD [of rf_hash "cn_refresh d" q r] by (simp add: connect_ok_def)
    qed
    with live_revoked(2) [OF ok' w] Some Inr show ?thesis by auto
  qed
next
  case (Inl e)
  with run have "d' = meddle d"
    by (auto simp: revoke_connect_session_def Let_def split: if_splits sum.splits option.splits prod.splits)
  with Inl show ?thesis by simp
qed

text \<open>C16 Seen through the sessions a refresh token still opens, the service is the abstract one: a claim opens
  one new session under the hash of the token it hands out, a refresh needs the current token and
  the proof of possession and replaces the token, an accepted revocation had the proof of possession and
  closes the very session its token opened when it was read (it leaves all as it is only when that session had
  been closed before), and every request that is refused changes nothing, whatever other requests commit in
  between.\<close>

theorem connect_refines_sessions:
  assumes ok: "connect_ok d" and m: "connect_step\<^sup>*\<^sup>* d (meddle d)" and run: "run_call env meddle c d = (d', b)"
  shows "spec_allows env c b (live_sessions d) (live_sessions (meddle d)) (live_sessions d')"
proof -
  have ok': "connect_ok (meddle d)" using connect_steps_good [OF m] ok by (simp add: good_step_def)
  show ?thesis
  proof (cases c)
    case (Call_Issue rq)
    with issue_refines run show ?thesis by simp
  next
    case (Call_Claim rq)
    with run obtain out where "claim_connect_token env meddle rq d = (d', out)" "b = is_ok out"
      by (cases "claim_connect_token env meddle rq d") auto
    from claim_refines [OF this(1) ok'] this(2) Call_Claim show ?thesis by simp
  next
    case (Call_Refresh rq)
    with run obtain out where "refresh_connect_access_token env meddle rq d = (d', out)" "b = is_ok out"
      by (cases "refresh_connect_access_token env meddle rq d") auto
    from refresh_refines [of d meddle env rq, OF ok m ok' this(1)] this(2) Call_Refresh show ?thesis by simp
  next
    case (Call_Revoke tok p)
    with run obtain out where "revoke_connect_session env meddle tok p d = (d', out)" "b = is_ok out"
      by (cases "revoke_connect_session env meddle tok p d") auto
    from revoke_refines [of d meddle env tok p, OF ok m ok' this(1)] this(2) Call_Revoke show ?thesis by simp
  qed
qed

section \<open>Revocation\<close>

lemma revoked_after:
  assumes ok: "connect_ok d" and m: "connect_step\<^sup>*\<^sup>* d (meddle d)"
    and run: "revoke_connect_session env meddle tok p d = (d', Inr b)"
    and f: "get_refresh_session_by_hash (ce_hash env (strip tok)) d = Inr (Some f)"
    and later: "connect_step\<^sup>*\<^sup>* d' e"
  shows "connect_ok e \<and> (\<exists>q \<in> set (cn_refresh e). rf_id q = rf_id f \<and> rf_revoked_at q \<noteq> None)"
proof -
  have mid: "connect_ok (meddle d)" "evolves d (meddle d)"
    using connect_steps_good [OF m] ok by (simp_all add: good_step_def)
  from run obtain r where "get_refresh_session_by_hash (ce_hash env (strip tok)) d = Inr (Some r)"
    and w: "revoke_writes (ce_now env) r (meddle d) = (d', b)" by (rule revoke_ok_cases)
  with f have r: "r = f" by simp
  have "f \<in> set (cn_refresh d)"
    using f unfolding get_refresh_session_by_hash_def by (rule scalar_filter_Some [THEN conjunct1])
  with mid(2) obtain q where q: "q \<in> set (cn_refresh (meddle d))" "rf_id q = rf_id f"
    "rf_revoked_at f \<noteq> None \<longrightarrow> rf_revoked_at q \<noteq> None" unfolding evolves_def by blast
  let ?q = "if rf_revoked_at f = None \<and> live_session (rf_id f) q then q\<lparr>rf_revoked_at := Some (ce_now env)\<rparr> else q"
  have "?q \<in> set (cn_refresh d')"
  proof (cases "rf_revoked_at f")
    case None
    then have "cn_refresh d' = update_where (live_session (rf_id f)) (\<lambda>q. q\<lparr>rf_revoked_at := Some (ce_now env)\<rparr>)
        (cn_refresh (meddle d))"
      using w unfolding r by (auto simp: revoke_writes_def revoke_refresh_session_def
          revoke_access_tokens_by_refresh_session_def)
    with update_where_mem [OF q(1), of "live_session (rf_id f)" "\<lambda>q. q\<lparr>rf_revoked_at := Some (ce_now env)\<rparr>"] None
    show ?thesis by simp
  next
    case (Some t)
    with w q(1) show ?thesis
      unfolding r by (auto simp: revoke_writes_def revoke_access_tokens_by_refresh_session_def)
  qed
  moreover have "rf_id ?q = rf_id f" "rf_revoked_at ?q \<noteq> None" using q(2,3) by (auto simp: live_session_def)
  ultimately have revoked: "\<exists>q \<in> set (cn_refresh d'). rf_id q = rf_id f \<and> rf_revoked_at q \<noteq> None" by blast
  have "connect_ok d'" using good_revoke [of "meddle d" "ce_now env" r] w mid(1) by (simp add: good_step_def)
  then have "connect_ok e" "evolves d' e" using connect_steps_good [OF later] by (simp_all add: good_step_def)
  with revoked show ?thesis unfolding evolves_def by metis
qed

lemma revoked_access_refused:
  assumes ok: "connect_ok e" and q: "q \<in> set (cn_refresh e)" "rf_revoked_at q \<noteq> None"
    and a: "a \<in> set (cn_access e)" "ac_refresh a = rf_id q" "ac_hash a = ce_hash env (strip access)"
  shows "\<not> is_ok (validate_connect_access_token env access p e)"
proof -
  have "get_access_token_by_hash (ce_hash env (strip access)) e = Inr (Some a)"
    unfolding get_access_token_by_hash_def
    by (rule scalar_unique) (use ok a in \<open>simp_all add: connect_ok_def\<close>)
  moreover have "get_refresh_session_by_id (ac_refresh a) e = Inr (Some q)"
    unfolding get_refresh_session_by_id_def
    by (rule scalar_unique) (use ok q a(2) in \<open>simp_all add: connect_ok_def\<close>)
  ultimately show ?thesis using q(2) by (auto simp: validate_connect_access_token_def Let_def service_error_def)
qed

lemma revoked_refresh_refused:
  assumes ok: "connect_ok e" and q: "q \<in> set (cn_refresh e)" "rf_revoked_at q \<noteq> None"
    and h: "rf_hash q = ce_hash env (strip (fq_token rq))"
  shows "\<not> is_ok (snd (refresh_connect_access_token env meddle rq e))"
proof -
  have "get_refresh_session_by_hash (ce_hash env (strip (fq_token rq))) e = Inr (Some q)"
    unfolding get_refresh_session_by_hash_def
    by (rule scalar_unique) (use ok q h in \<open>simp_all add: connect_ok_def\<close>)
  with q(2) show ?thesis
    by (auto simp: refresh_connect_access_token_def Let_def refresh_checks_def service_error_def)
qed

text \<open>C17 A revocation that was answered is final: afterwards, whatever else happens, no access token of the
  session is accepted and no refresh token opens it again.\<close>

theorem revoked_session_stays_out:
  assumes ok: "connect_ok d" and m: "connect_step\<^sup>*\<^sup>* d (meddle d)"
    and run: "revoke_connect_session env meddle tok p d = (d', Inr b)"
    and f: "get_refresh_session_by_hash (ce_hash env (strip tok)) d = Inr (Some f)"
    and later: "connect_step\<^sup>*\<^sup>* d' e"
  shows "(\<forall>a \<in> set (cn_access e). \<forall>env' t p'. ac_refresh a = rf_id f \<longrightarrow> ac_hash a = ce_hash env' (strip t) \<longrightarrow>
      \<not> is_ok (validate_connect_access_token env' t p' e))
    \<and> (\<forall>q \<in> set (cn_refresh e). \<forall>env' meddle' rq. rf_id q = rf_id f \<longrightarrow> rf_hash q = ce_hash env' (strip (fq_token rq)) \<longrightarrow>
      \<not> is_ok (snd (refresh_connect_access_token env' meddle' rq e)))"
proof -
  from revoked_after [OF assms] obtain q where q: "connect_ok e" "q \<in> set (cn_refresh e)" "rf_id q = rf_id f"
    "rf_revoked_at q \<noteq> None" by blast
  have same: "q' = q" if "q' \<in> set (cn_refresh e)" "rf_id q' = rf_id f" for q'
    using distinct_key_eqD [of rf_id "cn_refresh e" q' q] that q by (simp add: connect_ok_def)
  show ?thesis
    using revoked_access_refused [OF q(1,2,4)] revoked_refresh_refused [OF q(1,2,4)] q(3) same by metis
qed

section \<open>A pairing\<close>

definition plain_hash :: "string \<Rightarrow> string" where
  "plain_hash s = CHR ''#'' # s"

definition example_connect_env :: connect_env where
  "example_connect_env = \<lparr>ce_hash = plain_hash, ce_now = 0, ce_pin_max_attempts = 5\<rparr>"

definition example_claim_row :: claim_token where
  "example_claim_row = \<lparr>ct_id = 1, ct_profile = ''p'', ct_session = ''s'', ct_base_url = ''http://localhost'',
     ct_hash = ''#claim'', ct_pin_hash = Some ''#1234'', ct_failed = 0, ct_blocked_at = None,
     ct_diagnostics = False, ct_metadata = None, ct_overlay = None, ct_expires_at = 100, ct_used_at = None\<rparr>"

definition example_connect_db :: connect_db where
  "example_connect_db = \<lparr>cn_profiles = [''p''], cn_sessions = [(''s'', ''p'')], cn_claims = [example_claim_row],
     cn_refresh = [], cn_access = [], cn_next_claim = 2, cn_next_refresh = 1, cn_next_access = 1\<rparr>"

definition example_claim_request :: connect_claim_request where
  "example_claim_request = \<lparr>cq_token = '' claim'', cq_pin = Some ''1234'', cq_client = None, cq_access_ttl = 3600,
     cq_refresh_ttl = 86400, cq_new_access = ''access'', cq_new_refresh = ''refresh'', cq_new_proof = ''proof''\<rparr>"

definition paired_db :: connect_db where
  "paired_db = fst (claim_connect_token example_connect_env (\<lambda>d. d) example_claim_request example_connect_db)"

definition example_refresh_request :: refresh_request where
  "example_refresh_request = \<lparr>fq_token = ''refresh'', fq_proof = Some ''proof'', fq_session = None,
     fq_access_ttl = 3600, fq_new_access = ''access2'', fq_new_refresh = ''refresh2''\<rparr>"

lemma example_connect_ok: "connect_ok example_connect_db" "connect_ok paired_db"
  by (code_simp, code_simp)

lemma example_pairing:
  "is_ok (snd (claim_connect_token example_connect_env (\<lambda>d. d) example_claim_request example_connect_db))"
  "snd (run_call example_connect_env (\<lambda>d. d) (Call_Refresh example_refresh_request) paired_db)"
  "is_ok (validate_connect_access_token example_connect_env ''access'' (Some ''proof'') paired_db)"
  "is_ok (snd (revoke_connect_session example_connect_env (\<lambda>d. d) ''refresh'' (Some ''proof'') paired_db))"
  by (code_simp, code_simp, code_simp, code_simp)

theorem claim_token_single_use_witness:
  "is_ok (snd (claim_connect_token example_connect_env (\<lambda>d. d) example_claim_request example_connect_db))
   \<and> \<not> is_ok (snd (claim_connect_token example_connect_env (\<lambda>_. paired_db) example_claim_request example_connect_db))"
proof -
  obtain c where c: "claim_connect_token example_connect_env (\<lambda>d. d) example_claim_request example_connect_db
      = (paired_db, Inr c)"
    using example_pairing(1) by (auto simp: paired_db_def is_ok_def split: sum.splits intro: that [OF prod_eqI])
  obtain r where "issue_credentials example_connect_env example_claim_request r example_connect_db = Inr (paired_db, c)"
    using claim_ok_cases [OF c] by metis
  then have "connect_step example_connect_db paired_db" by (rule connect_step.claim)
  then have "connect_step\<^sup>*\<^sup>* example_connect_db ((\<lambda>_. paired_db) example_connect_db)" by simp
  from claim_token_single_use [OF example_connect_ok(1) _ c example_connect_ok(1) this, of example_connect_env
      example_claim_request] example_pairing(1)
  show ?thesis by simp
qed

theorem connect_refines_sessions_witness:
  "\<exists>i s d'. run_call example_connect_env (\<lambda>d. d) (Call_Refresh example_refresh_request) paired_db = (d', True)
    \<and> live_sessions paired_db i = Some s \<and> lv_hash s = ''#refresh''
    \<and> live_sessions d' = (live_sessions paired_db)(i \<mapsto> s\<lparr>lv_hash := ''#refresh2''\<rparr>)"
proof -
  obtain d' where d': "run_call example_connect_env (\<lambda>d. d) (Call_Refresh example_refresh_request) paired_db = (d', True)"
    using example_pairing(2) by (metis prod.collapse)
  have h: "ce_hash example_connect_env (strip (fq_token example_refresh_request)) = ''#refresh''"
    "ce_hash example_connect_env (fq_new_refresh example_refresh_request) = ''#refresh2''" by code_simp+
  from connect_refines_sessions [OF example_connect_ok(2) _ d', unfolded spec_allows.simps h] d'
  show ?thesis by auto
qed

theorem revoked_session_stays_out_witness:
  "\<exists>d'. fst (revoke_connect_session example_connect_env (\<lambda>d. d) ''refresh'' (Some ''proof'') paired_db) = d'
    \<and> \<not> is_ok (validate_connect_access_token example_connect_env ''access'' (Some ''proof'') d')"
proof -
  obtain d' b where run: "revoke_connect_session example_connect_env (\<lambda>d. d) ''refresh'' (Some ''proof'') paired_db = (d', Inr b)"
    using example_pairing(4) by (auto simp: is_ok_def split: sum.splits intro: that [OF prod_eqI])
  obtain f where f: "get_refresh_session_by_hash (ce_hash example_connect_env (strip ''refresh'')) paired_db = Inr (Some f)"
    and id: "rf_id f = 1"
  proof -
    have "map_option rf_id (projr (get_refresh_session_by_hash (ce_hash example_connect_env (strip ''refresh'')) paired_db)) = Some 1
      \<and> is_ok (get_refresh_session_by_hash (ce_hash example_connect_env (strip ''refresh'')) paired_db)" by code_simp
    then show ?thesis using that by (auto simp: is_ok_def split: sum.splits)
  qed
  have "\<exists>a \<in> set (cn_access (fst (revoke_connect_session example_connect_env (\<lambda>d. d) ''refresh'' (Some ''proof'') paired_db))).
      ac_refresh a = 1 \<and> ac_hash a = ce_hash example_connect_env (strip ''access'')" by code_simp
  with run obtain a where a: "a \<in> set (cn_access d')" "ac_refresh a = rf_id f"
    "ac_hash a = ce_hash example_connect_env (strip ''access'')" unfolding id by auto
  from revoked_session_stays_out [OF example_connect_ok(2) _ run f] a run show ?thesis by auto
qed

end
