(* ===== verification/Rate_Limit.thy ===== *)
theory Rate_Limit
  imports Py_Values
begin

text \<open>
  The sliding-window rate limiter of the public connect endpoints (services/connect/rate_limit.py).
  A bucket is the list of accepted instants of one key, oldest first. The monotonic clock is read
  in microseconds where the code reads it in floating-point seconds; windows are whole seconds.
\<close>

section \<open>The limiter\<close>

type_synonym buckets = "(string \<times> instant list) list"

definition window_of :: "int \<Rightarrow> instant" where
  "window_of window_sec = 1000000 * max window_sec 1"

definition limit_of :: "int \<Rightarrow> nat" where
  "limit_of max_attempts = nat (max max_attempts 1)"

text \<open>\<open>ceil\<close> of a number of microseconds in seconds.\<close>

definition ceil_sec :: "int \<Rightarrow> int" where
  "ceil_sec us = - ((- us) div 1000000)"

definition bucket_of :: "buckets \<Rightarrow> string \<Rightarrow> instant list" where
  "bucket_of ev key = (case map_of ev key of None \<Rightarrow> [] | Some b \<Rightarrow> b)"

definition check :: "instant \<Rightarrow> string \<Rightarrow> int \<Rightarrow> int \<Rightarrow> buckets \<Rightarrow> buckets \<times> int option" where
  "check now key window_sec max_attempts ev =
     (let w = window_of window_sec;
          bucket = dropWhile (\<lambda>t. t \<le> now - w) (bucket_of ev key)
      in if limit_of max_attempts \<le> length bucket
         then (AList.update key bucket ev, Some (max 1 (ceil_sec (hd bucket + w - now))))
         else (AList.update key (bucket @ [now]) ev, None))"

section \<open>Requests\<close>

record limit_settings =
  ls_enabled :: bool
  ls_policies :: "(string \<times> int \<times> int) list"

text \<open>\<open>ls_policies\<close>: window and attempts of the scopes claim, refresh and revoke.\<close>

definition policy_for_scope :: "limit_settings \<Rightarrow> string \<Rightarrow> (int \<times> int) res" where
  "policy_for_scope st scope =
     (let normalized = lower (strip scope) in
      if normalized \<in> {''claim'', ''refresh'', ''revoke''}
      then (case map_of (ls_policies st) normalized of None \<Rightarrow> Inl Key_Error | Some p \<Rightarrow> Inr p)
      else Inl Value_Error)"

definition normalize_remote_host :: "string option \<Rightarrow> string" where
  "normalize_remote_host host =
     (let normalized = strip (str_or_empty host) in if normalized \<noteq> [] then normalized else ''unknown'')"

definition rate_limit_keys :: "(string \<Rightarrow> string) \<Rightarrow> string \<Rightarrow> string \<Rightarrow> string option \<Rightarrow> string list" where
  "rate_limit_keys hash scope host token =
     (let remote = scope @ '':remote:'' @ host; normalized = strip (str_or_empty token) in
      if normalized = [] then [remote]
      else [remote, scope @ '':token:'' @ take 16 (hash normalized)])"

fun check_keys :: "instant \<Rightarrow> int \<Rightarrow> int \<Rightarrow> string list \<Rightarrow> buckets \<Rightarrow> buckets \<times> int list" where
  "check_keys now w n [] ev = (ev, [])"
| "check_keys now w n (key # keys) ev =
     (case check now key w n ev of
        (ev1, r) \<Rightarrow> (case check_keys now w n keys ev1 of
          (ev2, rs) \<Rightarrow> (ev2, (case r of None \<Rightarrow> rs | Some s \<Rightarrow> s # rs))))"

text \<open>None lets the request pass; otherwise the seconds after which to retry.\<close>

definition enforce_connect_rate_limit ::
    "limit_settings \<Rightarrow> (string \<Rightarrow> string) \<Rightarrow> instant \<Rightarrow> string \<Rightarrow> string option \<Rightarrow> string option \<Rightarrow> buckets
     \<Rightarrow> buckets \<times> int option res" where
  "enforce_connect_rate_limit st hash now scope remote token ev =
     (if \<not> ls_enabled st then (ev, Inr None)
      else (case policy_for_scope st scope of
          Inl e \<Rightarrow> (ev, Inl e)
        | Inr (w, n) \<Rightarrow>
            (case check_keys now w n (rate_limit_keys hash scope (normalize_remote_host remote) token) ev of
               (ev', []) \<Rightarrow> (ev', Inr None)
             | (ev', r # rs) \<Rightarrow> (ev', Inr (Some (foldl max r rs))))))"

section \<open>The bound\<close>

definition in_window :: "instant \<Rightarrow> instant \<Rightarrow> instant \<Rightarrow> bool" where
  "in_window w t u \<longleftrightarrow> t - w < u \<and> u \<le> t"

text \<open>
  The history of one key: the times at which it was checked, with what was answered, latest first.
  Other keys may be checked in between.
\<close>

fun history :: "int \<Rightarrow> int \<Rightarrow> string \<Rightarrow> (instant \<times> string) list \<Rightarrow> buckets \<Rightarrow> buckets \<times> instant list" where
  "history w n key [] ev = (ev, [])"
| "history w n key ((now, k) # calls) ev =
     (case check now k w n ev of
        (ev1, r) \<Rightarrow> (case history w n key calls ev1 of
          (ev2, accepted) \<Rightarrow> (ev2, if k = key \<and> r = None then now # accepted else accepted)))"

lemma bucket_of_update [simp]: "bucket_of (AList.update k b ev) key = (if key = k then b else bucket_of ev key)"
  by (auto simp: bucket_of_def update_conv')

lemma check_other: "check now k w n ev = (ev', r) \<Longrightarrow> key \<noteq> k \<Longrightarrow> bucket_of ev' key = bucket_of ev key"
  by (auto simp: check_def Let_def split: if_splits)

lemma check_key:
  assumes "check now key w n ev = (ev', r)"
  defines "b \<equiv> dropWhile (\<lambda>t. t \<le> now - window_of w) (bucket_of ev key)"
  shows "bucket_of ev' key = (if r = None then b @ [now] else b)"
    and "r = None \<longleftrightarrow> length b < limit_of n"
    and "r \<noteq> None \<Longrightarrow> r = Some (max 1 (ceil_sec (hd b + window_of w - now)))"
  using assms by (auto simp: check_def Let_def split: if_splits)

definition bounded :: "instant \<Rightarrow> nat \<Rightarrow> instant list \<Rightarrow> bool" where
  "bounded w m accepted \<longleftrightarrow> (\<forall>t. length (filter (in_window w t) accepted) \<le> m)"

text \<open>What a bucket no longer holds is out of every window that ends from now on.\<close>

definition bucket_inv :: "int \<Rightarrow> int \<Rightarrow> instant \<Rightarrow> instant list \<Rightarrow> instant list \<Rightarrow> bool" where
  "bucket_inv w n now accepted bucket \<longleftrightarrow>
     bounded (window_of w) (limit_of n) accepted \<and> length bucket \<le> limit_of n
     \<and> (\<exists>old. accepted = old @ bucket \<and> (\<forall>u \<in> set old. u \<le> now - window_of w))"

lemma bucket_invI:
  assumes "bounded (window_of w) (limit_of n) accepted" and "length bucket \<le> limit_of n"
    and "accepted = old @ bucket" and "\<forall>u \<in> set old. u \<le> now - window_of w"
  shows "bucket_inv w n now accepted bucket"
  unfolding bucket_inv_def using assms by (intro conjI exI [of _ old])

lemma limit_pos [simp]: "0 < limit_of n"
  by (simp add: limit_of_def)

lemma bounded_snoc:
  assumes "bounded w m (old @ b)" and "\<forall>u \<in> set old. u \<le> now - w" and "length b < m"
  shows "bounded w m ((old @ b) @ [now])"
  unfolding bounded_def
proof
  fix t
  show "length (filter (in_window w t) ((old @ b) @ [now])) \<le> m"
  proof (cases "now \<le> t")
    case True
    have "length (filter (in_window w t) old) = 0"
      using assms(2) True by (fastforce simp: filter_empty_conv in_window_def)
    moreover have "length (filter (in_window w t) b) \<le> length b" by (rule length_filter_le)
    moreover have "length (filter (in_window w t) [now]) \<le> 1"
      using length_filter_le [of "in_window w t" "[now]"] by (simp only: list.size)
    ultimately have "length (filter (in_window w t) old) + length (filter (in_window w t) b)
        + length (filter (in_window w t) [now]) \<le> m"
      using assms(3) by linarith
    then show ?thesis by (simp only: filter_append length_append)
  next
    case False
    then have "filter (in_window w t) [now] = []" by (simp add: in_window_def)
    with assms(1) show ?thesis by (simp add: bounded_def)
  qed
qed

lemma bucket_inv_check:
  assumes inv: "bucket_inv w n T accepted (bucket_of ev key)" and "T \<le> now"
    and chk: "check now key w n ev = (ev', r)"
  shows "bucket_inv w n now (if r = None then accepted @ [now] else accepted) (bucket_of ev' key)"
proof -
  let ?w = "window_of w"
  let ?b = "dropWhile (\<lambda>t. t \<le> now - ?w) (bucket_of ev key)"
  let ?gone = "takeWhile (\<lambda>t. t \<le> now - ?w) (bucket_of ev key)"
  from inv obtain old where old: "accepted = old @ bucket_of ev key" "\<forall>u \<in> set old. u \<le> T - ?w"
    and bnd: "bounded ?w (limit_of n) accepted" and len: "length (bucket_of ev key) \<le> limit_of n"
    unfolding bucket_inv_def by blast
  have acc: "accepted = (old @ ?gone) @ ?b" using old(1) by simp
  have gone: "\<forall>u \<in> set (old @ ?gone). u \<le> now - ?w"
    using old(2) \<open>T \<le> now\<close> by (auto dest: set_takeWhileD)
  have lb: "length ?b \<le> limit_of n" using len length_dropWhile_le order_trans by blast
  show ?thesis
  proof (cases r)
    case None
    with check_key [OF chk] have b: "length ?b < limit_of n" "bucket_of ev' key = ?b @ [now]" by simp_all
    have "bounded ?w (limit_of n) (accepted @ [now])"
      using bounded_snoc [OF _ gone b(1)] bnd acc by simp
    then have "bucket_inv w n now (accepted @ [now]) (bucket_of ev' key)"
      by (rule bucket_invI [OF _ _ _ gone]) (use b acc in simp_all)
    then show ?thesis using None by simp
  next
    case (Some s)
    with check_key [OF chk] have "bucket_of ev' key = ?b" by simp
    then have "bucket_inv w n now accepted (bucket_of ev' key)"
      using bucket_invI [OF bnd lb acc gone] by simp
    then show ?thesis using Some by simp
  qed
qed

lemma history_inv:
  assumes "history w n key calls ev = (ev', new)" and "bucket_inv w n T accepted (bucket_of ev key)"
    and "sorted (map fst calls)" and "\<forall>c \<in> set calls. T \<le> fst c"
  shows "bucket_inv w n (if calls = [] then T else fst (last calls)) (accepted @ new) (bucket_of ev' key)"
  using assms
proof (induction w n key calls ev arbitrary: T accepted new ev' rule: history.induct)
  case (1 w n key ev)
  then show ?case by simp
next
  case (2 w n key now k calls ev)
  obtain ev1 r where c: "check now k w n ev = (ev1, r)" by fastforce
  obtain ev2 rest where h: "history w n key calls ev1 = (ev2, rest)" by fastforce
  from "2.prems"(1) c h have new: "ev' = ev2" "new = (if k = key \<and> r = None then now # rest else rest)" by simp_all
  have now: "T \<le> now" using "2.prems"(4) by simp
  let ?acc = "if k = key \<and> r = None then accepted @ [now] else accepted"
  have inv1: "bucket_inv w n now ?acc (bucket_of ev1 key)"
  proof (cases "k = key")
    case True
    with bucket_inv_check [OF "2.prems"(2) now] c show ?thesis by simp
  next
    case False
    with check_other [OF c] have "bucket_of ev1 key = bucket_of ev key" by simp
    with "2.prems"(2) now False show ?thesis unfolding bucket_inv_def by fastforce
  qed
  have "sorted (map fst calls)" "\<forall>c \<in> set calls. now \<le> fst c" using "2.prems"(3) by auto
  from "2.IH" [OF c [symmetric] h inv1 this] new show ?case by auto
qed

lemma ceil_sec_ge: "us \<le> 1000000 * ceil_sec us"
proof -
  have "1000000 * ((- us) div 1000000) \<le> - us" by (simp add: minus_mod_eq_mult_div [symmetric])
  then show ?thesis by (simp add: ceil_sec_def)
qed

text \<open>C18 However a key is used, in no time window of the configured length are more requests let through than
  the configured number; and a caller that is refused and retries after the seconds it was told,
  without any other request on the key in between, is let through.\<close>

theorem rate_limit_bound:
  assumes hist: "history w n key calls [] = (ev, accepted)" and sorted: "sorted (map fst calls)"
  shows "(\<forall>t. length (filter (in_window (window_of w) t) accepted) \<le> limit_of n)
    \<and> (\<forall>now ev1 s later. check now key w n ev = (ev1, Some s) \<longrightarrow> now + 1000000 * s \<le> later \<longrightarrow>
         snd (check later key w n ev1) = None)"
proof -
  define T where "T = (if calls = [] then 0 else Min (fst ` set calls))"
  have "\<forall>c \<in> set calls. T \<le> fst c" by (auto simp: T_def)
  moreover have "bucket_inv w n T [] (bucket_of [] key)" by (simp add: bucket_inv_def bounded_def bucket_of_def)
  ultimately have "\<exists>T'. bucket_inv w n T' accepted (bucket_of ev key)"
    using history_inv [OF hist _ sorted] by fastforce
  then have inv: "bounded (window_of w) (limit_of n) accepted" "length (bucket_of ev key) \<le> limit_of n"
    unfolding bucket_inv_def by blast+
  have "snd (check later key w n ev1) = None"
    if chk: "check now key w n ev = (ev1, Some s)" and later: "now + 1000000 * s \<le> later" for now ev1 s later
  proof -
    let ?b = "dropWhile (\<lambda>t. t \<le> now - window_of w) (bucket_of ev key)"
    note C = check_key [OF chk]
    have len: "length ?b = limit_of n"
      using C(2) inv(2) length_dropWhile_le [of "\<lambda>t. t \<le> now - window_of w" "bucket_of ev key"] by simp
    have "?b \<noteq> []" using len limit_pos [of n] by (simp only: length_greater_0_conv [symmetric])
    then obtain t b where b: "?b = t # b" by (meson list.exhaust)
    have s: "s = max 1 (ceil_sec (t + window_of w - now))" using C(3) b by simp
    have "t + window_of w - now \<le> 1000000 * s"
      using ceil_sec_ge [of "t + window_of w - now"] s by (simp add: max_def)
    with later have "t \<le> later - window_of w" by simp
    moreover have "bucket_of ev1 key = t # b" using C(1) b by simp
    ultimately have "length (dropWhile (\<lambda>t. t \<le> later - window_of w) (bucket_of ev1 key)) < limit_of n"
      using length_dropWhile_le [of "\<lambda>t. t \<le> later - window_of w" b] len b by simp
    moreover obtain ev2 r where "check later key w n ev1 = (ev2, r)" by fastforce
    ultimately show ?thesis using check_key(2) [of later key w n ev1] by auto
  qed
  with inv(1) show ?thesis by (simp add: bounded_def)
qed

theorem rate_limit_bound_witness:
  "\<exists>ev ev1 s. history 1 2 ''k'' [(0, ''k''), (10, ''x''), (20, ''k''), (30, ''k'')] [] = (ev, [0, 20])
    \<and> check 40 ''k'' 1 2 ev = (ev1, Some s) \<and> snd (check (40 + 1000000 * s) ''k'' 1 2 ev1) = None
    \<and> length (filter (in_window (window_of 1) 40) [0, 20]) \<le> limit_of 2"
proof -
  let ?calls = "[(0, ''k''), (10, ''x''), (20, ''k''), (30, ''k'')] :: (instant \<times> string) list"
  have acc: "snd (history 1 2 ''k'' ?calls []) = [0, 20]" by code_simp
  obtain ev where h: "history 1 2 ''k'' ?calls [] = (ev, [0, 20])" using acc by (metis prod.collapse)
  have "(case history 1 2 ''k'' ?calls [] of (ev, _) \<Rightarrow> snd (check 40 ''k'' 1 2 ev)) \<noteq> None" by code_simp
  with h obtain ev1 s where c: "check 40 ''k'' 1 2 ev = (ev1, Some s)" by (cases "check 40 ''k'' 1 2 ev") auto
  have "sorted (map fst ?calls)" by simp
  from rate_limit_bound [OF h this] h c show ?thesis by blast
qed

end
