(* ===== verification/Shell_Words.thy ===== *)
theory Shell_Words
  imports Py_Values
begin

text \<open>
  How the policy reads shell commands (services/policy/evaluation_helpers.py): words as
  \<open>shlex.split\<close> makes them, segments between the separators the code knows, the first word that
  is a command, and the commands of a whole expression with \<open>sh -c\<close> nested in it.
\<close>

section \<open>shlex.split\<close>

definition backslash :: char where "backslash = CHR 0x5C"
definition newline :: char where "newline = CHR 0x0A"
definition backtick :: char where "backtick = CHR 0x60"

definition shlex_space :: "char \<Rightarrow> bool" where
  "shlex_space c \<longleftrightarrow> c \<in> {CHR '' '', CHR 0x09, CHR 0x0D, CHR 0x0A}"

definition is_quote :: "char \<Rightarrow> bool" where
  "is_quote c \<longleftrightarrow> c = single_quote \<or> c = double_quote"

text \<open>
  The states of the lexer in posix mode with \<open>whitespace_split\<close>; an escape remembers whether it
  stands in double quotes. None is a ValueError (an open quotation or a trailing backslash).
\<close>

datatype lex_state = Between | Word | Quoted char | Escape_Word | Escape_Quoted char

definition emit :: "string \<Rightarrow> bool \<Rightarrow> string list \<Rightarrow> string list" where
  "emit token quoted rest = (if token \<noteq> [] \<or> quoted then token # rest else rest)"

fun shlex :: "lex_state \<Rightarrow> string \<Rightarrow> bool \<Rightarrow> string \<Rightarrow> string list option" where
  "shlex Between token quoted [] = Some []"
| "shlex Between token quoted (c # cs) =
     (if shlex_space c then shlex Between [] False cs
      else if c = backslash then shlex Escape_Word [] False cs
      else if is_quote c then shlex (Quoted c) [] False cs
      else shlex Word [c] False cs)"
| "shlex Word token quoted [] = Some (emit token quoted [])"
| "shlex Word token quoted (c # cs) =
     (if shlex_space c then map_option (emit token quoted) (shlex Between [] False cs)
      else if is_quote c then shlex (Quoted c) token quoted cs
      else if c = backslash then shlex Escape_Word token quoted cs
      else shlex Word (token @ [c]) quoted cs)"
| "shlex (Quoted q) token quoted [] = None"
| "shlex (Quoted q) token quoted (c # cs) =
     (if c = q then shlex Word token True cs
      else if c = backslash \<and> q = double_quote then shlex (Escape_Quoted q) token True cs
      else shlex (Quoted q) (token @ [c]) True cs)"
| "shlex Escape_Word token quoted [] = None"
| "shlex Escape_Word token quoted (c # cs) = shlex Word (token @ [c]) quoted cs"
| "shlex (Escape_Quoted q) token quoted [] = None"
| "shlex (Escape_Quoted q) token quoted (c # cs) =
     shlex (Quoted q) (if c \<noteq> backslash \<and> c \<noteq> q then token @ [backslash, c] else token @ [c]) quoted cs"

definition shlex_split :: "string \<Rightarrow> string list option" where
  "shlex_split s = shlex Between [] False s"

lemma quote_codes [code]: "single_quote = CHR 0x27" "double_quote = CHR 0x22"
  by (simp_all add: single_quote_def double_quote_def char_of_def bit_0)

section \<open>Segments\<close>

text \<open>\<open>re.split\<close> on \<open>||\<close>, \<open>&&\<close>, \<open>;\<close>, \<open>|\<close> and newline; a single \<open>&\<close> does not separate.\<close>

fun split_segments :: "string \<Rightarrow> string \<Rightarrow> string list" where
  "split_segments piece [] = [piece]"
| "split_segments piece (c # cs) =
     (if c = CHR ''|'' then
        (case cs of
           [] \<Rightarrow> piece # split_segments [] []
         | d # ds \<Rightarrow> if d = CHR ''|'' then piece # split_segments [] ds else piece # split_segments [] (d # ds))
      else if c = CHR ''&'' then
        (case cs of
           [] \<Rightarrow> split_segments (piece @ [c]) []
         | d # ds \<Rightarrow> if d = CHR ''&'' then piece # split_segments [] ds else split_segments (piece @ [c]) (d # ds))
      else if c = CHR '';'' \<or> c = newline then piece # split_segments [] cs
      else split_segments (piece @ [c]) cs)"

section \<open>The first command\<close>

definition is_alpha :: "char \<Rightarrow> bool" where
  "is_alpha c = (let n = code_pt c in
     is_ascii_lower c \<or> is_ascii_upper c \<or> n \<in> {170, 181, 186} \<or> (192 \<le> n \<and> n \<noteq> 215 \<and> n \<noteq> 247))"

text \<open>\<open>NAME=value\<close>: a name of word characters whose first one is a letter.\<close>

definition is_assignment :: "string \<Rightarrow> bool" where
  "is_assignment token \<longleftrightarrow>
     (case partition_at (CHR ''='') token of
        (nm, found, _) \<Rightarrow> found \<and> nm \<noteq> [] \<and> list_all is_word_char nm \<and> is_alpha (hd nm))"

definition wrappers :: "string list" where
  "wrappers = [''env'', ''command'', ''sudo'', ''nohup'', ''time'']"

text \<open>The rest of the words from the executable on; the second argument is the word before.\<close>

fun from_command :: "string option \<Rightarrow> string list \<Rightarrow> string list" where
  "from_command before [] = []"
| "from_command before (token # tokens) =
     (if token = ''--'' then from_command (Some token) tokens
      else if is_assignment token then from_command (Some token) tokens
      else if token \<in> set wrappers then from_command (Some token) tokens
      else if has_prefix ''-'' token \<and> (before = Some ''env'' \<or> before = Some ''command'')
      then from_command (Some token) tokens
      else token # tokens)"

text \<open>\<open>Path(s).name\<close>.\<close>

definition path_name :: "string \<Rightarrow> string" where
  "path_name s =
     (case rev (filter (\<lambda>p. p \<noteq> [] \<and> p \<noteq> ''.'') (split_on (CHR ''/'') s)) of [] \<Rightarrow> [] | p # _ \<Rightarrow> p)"

definition first_command_token :: "string \<Rightarrow> string option" where
  "first_command_token raw =
     (let stripped = strip raw in
      if stripped = [] then None
      else (case from_command None (case shlex_split stripped of None \<Rightarrow> split_words stripped | Some parts \<Rightarrow> parts) of
              [] \<Rightarrow> None
            | token # _ \<Rightarrow> Some (path_name token)))"

section \<open>Whole expressions\<close>

definition shells :: "string list" where
  "shells = [''sh'', ''bash'', ''zsh'', ''dash'', ''fish'']"

text \<open>The word after the first \<open>-c\<close> that is not the last word.\<close>

fun after_dash_c :: "string list \<Rightarrow> string option" where
  "after_dash_c (token # next # rest) = (if token = ''-c'' then Some next else after_dash_c (next # rest))"
| "after_dash_c _ = None"

definition nested_shell_argument :: "string \<Rightarrow> string option" where
  "nested_shell_argument raw =
     (case shlex_split raw of
        None \<Rightarrow> None
      | Some parts \<Rightarrow>
          if length parts < 3 then None
          else if path_name (hd parts) \<notin> set shells then None
          else after_dash_c parts)"

text \<open>\<open>fuel\<close> counts down from the four levels the code looks at (\<open>depth\<close> 0 to 3).\<close>

fun command_tokens :: "nat \<Rightarrow> string \<Rightarrow> string list" where
  "command_tokens 0 raw = []"
| "command_tokens (Suc levels) raw =
     (let normalized = strip raw in
      if normalized = [] then []
      else uniq_first [] (concat (map (\<lambda>segment.
        (let chunk = strip segment in
         if chunk = [] then []
         else (case first_command_token chunk of None \<Rightarrow> [] | Some t \<Rightarrow> if t = [] then [] else [t])
              @ (case nested_shell_argument chunk of None \<Rightarrow> [] | Some nested \<Rightarrow> command_tokens levels nested)))
        (split_segments [] normalized))))"

end
