(* ===== verification/Policy.thy ===== *)
theory Policy
  imports Shell_Words
begin

text \<open>
  The policy engine of a profile (services/policy/engine.py, evaluation_helpers.py,
  file_access.py): which tools a planner sees and which calls the gate lets through. The stored
  JSON lists are taken parsed. Resolving a path on the file system and parsing a URL are
  parameters: a path becomes the list of its components, a URL its scheme and host name (None for
  a ValueError).
\<close>

section \<open>Policy rows\<close>

datatype policy_list = Blank | Bad_Json | Parsed pyval

record profile_policy =
  pl_profile :: string
  pl_enabled :: bool
  pl_preset :: string
  pl_capabilities :: policy_list
  pl_iterations_main :: int
  pl_iterations_subagent :: int
  pl_allowed_tools :: policy_list
  pl_denied_tools :: policy_list
  pl_allowed_dirs :: policy_list
  pl_sandbox :: string
  pl_shell_allowed :: policy_list
  pl_shell_denied :: policy_list
  pl_network :: policy_list

record policy_env =
  pe_resolve :: "string \<Rightarrow> string list"
  pe_url :: "string \<Rightarrow> (string \<times> string option) option"

definition violation :: "'a res" where
  "violation = service_error ''profile_policy_violation''"

definition parse_string_set :: "policy_list \<Rightarrow> string list res" where
  "parse_string_set raw =
     (case raw of
        Blank \<Rightarrow> Inr []
      | Bad_Json \<Rightarrow> violation
      | Parsed (V_List items) \<Rightarrow> Inr (uniq_first [] (filter (\<lambda>s. s \<noteq> []) (map (\<lambda>v. strip (py_str v)) items)))
      | Parsed _ \<Rightarrow> violation)"

text \<open>A list of strings as it is stored.\<close>

definition strings :: "string list \<Rightarrow> policy_list" where
  "strings xs = Parsed (V_List (map V_Str xs))"

section \<open>Tool lists\<close>

definition has_suffix :: "string \<Rightarrow> string \<Rightarrow> bool" where
  "has_suffix x s \<longleftrightarrow> length x \<le> length s \<and> drop (length s - length x) s = x"

definition tool_rule_matches :: "string \<Rightarrow> string \<Rightarrow> bool" where
  "tool_rule_matches rule tool_name =
     (let r = strip rule in
      if r = [] then False
      else if last r = CHR ''*'' then has_prefix (butlast r) tool_name
      else tool_name = r)"

definition enforce_tool_lists :: "profile_policy \<Rightarrow> string \<Rightarrow> string list \<Rightarrow> unit res" where
  "enforce_tool_lists policy tool_name approved =
     bindE (parse_string_set (pl_denied_tools policy)) (\<lambda>denied.
     if list_ex (\<lambda>rule. tool_rule_matches rule tool_name) denied then violation
     else bindE (parse_string_set (pl_allowed_tools policy)) (\<lambda>allowed.
       if approved \<noteq> [] \<and> tool_name \<in> set approved then Inr ()
       else if allowed \<noteq> [] \<and> \<not> list_ex (\<lambda>rule. tool_rule_matches rule tool_name) allowed then violation
       else Inr ()))"

definition allowed_tool_names :: "profile_policy \<Rightarrow> string list \<Rightarrow> string list" where
  "allowed_tool_names policy available =
     (if \<not> pl_enabled policy then available
      else (case bindE (parse_string_set (pl_denied_tools policy)) (\<lambda>denied.
                 bindE (parse_string_set (pl_allowed_tools policy)) (\<lambda>allowed. Inr (denied, allowed))) of
              Inl _ \<Rightarrow> []
            | Inr (denied, allowed) \<Rightarrow>
                filter (\<lambda>nm. \<not> list_ex (\<lambda>rule. tool_rule_matches rule nm) denied
                   \<and> (allowed = [] \<or> list_ex (\<lambda>rule. tool_rule_matches rule nm) allowed)) available))"

definition is_tool_denied :: "profile_policy \<Rightarrow> string \<Rightarrow> bool res" where
  "is_tool_denied policy tool_name =
     (if \<not> pl_enabled policy then Inr False
      else bindE (parse_string_set (pl_denied_tools policy)) (\<lambda>denied.
        Inr (list_ex (\<lambda>rule. tool_rule_matches rule tool_name) denied)))"

definition effective_main_iterations :: "profile_policy \<Rightarrow> int \<Rightarrow> int" where
  "effective_main_iterations policy runtime_limit =
     (if \<not> pl_enabled policy then max 1 runtime_limit
      else min (max 1 runtime_limit) (max 0 (pl_iterations_main policy)))"

section \<open>Parameters of a call\<close>

text \<open>The strings of a nested value, each with the name of the field it stands under.\<close>

fun collect_leaves :: "(string \<Rightarrow> string \<Rightarrow> 'a list) \<Rightarrow> string option \<Rightarrow> pyval \<Rightarrow> 'a list" where
  "collect_leaves f field (V_Dict d) = concat (map (\<lambda>(k, item). collect_leaves f (Some k) item) d)"
| "collect_leaves f field (V_List vs) = concat (map (collect_leaves f field) vs)"
| "collect_leaves f field (V_Str s) = (case field of None \<Rightarrow> [] | Some n \<Rightarrow> f n s)"
| "collect_leaves f field v = []"

definition path_param_names :: "string list" where
  "path_param_names = [''path'', ''paths'', ''cwd'', ''dir'', ''dirs'', ''directory'', ''directories'', ''document'',
     ''file_path'', ''filepath'', ''photo'', ''input_path'', ''output_path'', ''root_path'', ''root_dir'',
     ''working_dir'', ''working_directory'']"

definition is_path_field_name :: "string \<Rightarrow> bool" where
  "is_path_field_name field \<longleftrightarrow>
     field \<in> set path_param_names \<or> has_suffix ''_path'' field \<or> has_suffix ''_dir'' field
     \<or> has_suffix ''_directory'' field"

definition extract_path_values :: "py_dict \<Rightarrow> string list" where
  "extract_path_values params =
     collect_leaves (\<lambda>field s. if is_path_field_name (lower field) then [s] else []) None (V_Dict params)"

definition is_shell_field :: "string \<Rightarrow> bool" where
  "is_shell_field field \<longleftrightarrow> lower field \<in> {''cmd'', ''command'', ''chars''}"

definition extract_command_tokens :: "string \<Rightarrow> string list" where
  "extract_command_tokens raw = command_tokens 4 raw"

definition extract_commands :: "py_dict \<Rightarrow> string list" where
  "extract_commands params =
     collect_leaves (\<lambda>field s. if is_shell_field field then extract_command_tokens s else []) None (V_Dict params)"

definition has_substitution :: "string \<Rightarrow> bool" where
  "has_substitution s \<longleftrightarrow> occurs_in ''$('' s \<or> backtick \<in> set s"

definition contains_command_substitution :: "py_dict \<Rightarrow> bool" where
  "contains_command_substitution params \<longleftrightarrow>
     True \<in> set (collect_leaves (\<lambda>field s. [is_shell_field field \<and> has_substitution s]) None (V_Dict params))"

section \<open>Hosts\<close>

definition parsed_host :: "policy_env \<Rightarrow> string \<Rightarrow> string option" where
  "parsed_host env s = (case pe_url env s of None \<Rightarrow> None | Some (scheme, host) \<Rightarrow> host)"

definition extract_hostname_from_shell_token :: "policy_env \<Rightarrow> string \<Rightarrow> string option" where
  "extract_hostname_from_shell_token env token =
     (let candidate = strip token in
      if candidate = [] \<or> has_prefix ''@'' candidate then None
      else if occurs_in ''://'' candidate then parsed_host env candidate
      else (case parsed_host env (''//'' @ candidate) of
              None \<Rightarrow> None
            | Some host \<Rightarrow>
                if CHR ''.'' \<in> set host \<or> CHR '':'' \<in> set candidate \<or> host = ''localhost'' then Some host else None))"

definition option_list :: "'a option \<Rightarrow> 'a list" where
  "option_list v = (case v of None \<Rightarrow> [] | Some x \<Rightarrow> [x])"

definition extract_ssh_jump_hosts :: "policy_env \<Rightarrow> string \<Rightarrow> string list" where
  "extract_ssh_jump_hosts env value =
     concat (map (\<lambda>c. option_list (extract_hostname_from_shell_token env c)) (split_on (CHR '','') value))"

text \<open>\<open>rsplit(":", 2)\<close>: the part between the last two colons.\<close>

definition extract_ssh_forward_target_host :: "policy_env \<Rightarrow> string \<Rightarrow> string option" where
  "extract_ssh_forward_target_host env value =
     (let parts = split_on (CHR '':'') (strip value) in
      if length parts < 3 then None else extract_hostname_from_shell_token env (parts ! (length parts - 2)))"

definition ssh_direct_options :: "string list" where "ssh_direct_options = [''-J'', ''-W'']"
definition ssh_forward_options :: "string list" where "ssh_forward_options = [''-L'', ''-R'']"

definition extract_hosts_from_ssh_option_value :: "policy_env \<Rightarrow> string \<Rightarrow> string \<Rightarrow> string list" where
  "extract_hosts_from_ssh_option_value env option value =
     (if option = ''-J'' then extract_ssh_jump_hosts env value
      else if option = ''-W'' then option_list (extract_hostname_from_shell_token env value)
      else if option \<in> set ssh_forward_options then option_list (extract_ssh_forward_target_host env value)
      else [])"

definition extract_hosts_from_inline_ssh_option :: "policy_env \<Rightarrow> string \<Rightarrow> string list option" where
  "extract_hosts_from_inline_ssh_option env token =
     (case find (\<lambda>option. has_prefix option token \<and> length token \<noteq> length option) (ssh_direct_options @ ssh_forward_options) of
        None \<Rightarrow> None
      | Some option \<Rightarrow> Some (extract_hosts_from_ssh_option_value env option (drop (length option) token)))"

definition host_arg_options :: "string \<Rightarrow> string list" where
  "host_arg_options command_name =
     (if command_name = ''curl'' then
        [''-o'', ''--output'', ''-x'', ''--proxy'', ''-A'', ''--user-agent'', ''-u'', ''--user'', ''-H'', ''--header'',
         ''-d'', ''--data'', ''--data-raw'', ''--data-binary'', ''-e'', ''--referer'', ''--interface'',
         ''--connect-to'', ''--resolve'', ''--url'', ''--request'', ''-X'', ''--form'', ''-F'', ''--cookie'', ''-b'',
         ''--config'', ''-K'', ''--cacert'', ''--capath'', ''-E'', ''--cert'', ''--key'', ''--proto-redir'',
         ''--connect-timeout'', ''--max-time'']
      else if command_name = ''wget'' then
        [''-O'', ''--output-document'', ''-o'', ''--output-file'', ''--header'', ''--user'', ''--password'',
         ''--post-data'', ''--post-file'', ''--body-data'', ''--body-file'', ''--timeout'', ''-e'', ''--execute'',
         ''--referer'', ''--directory-prefix'', ''-P'', ''--input-file'', ''-i'']
      else if command_name = ''ping'' then [''-c'', ''-i'', ''-W'', ''-w'', ''-t'', ''-s'', ''-I'', ''-m'']
      else if command_name = ''ssh'' then
        [''-b'', ''-c'', ''-D'', ''-E'', ''-e'', ''-F'', ''-i'', ''-I'', ''-l'', ''-m'', ''-O'', ''-o'', ''-p'', ''-Q'',
         ''-S'', ''-w'']
      else [])"

text \<open>\<open>pending\<close>: the SSH option whose value comes next; \<open>skip\<close>: the next word is an option value.\<close>

fun argument_hosts :: "policy_env \<Rightarrow> string \<Rightarrow> string option \<Rightarrow> bool \<Rightarrow> string list \<Rightarrow> string list" where
  "argument_hosts env cmd pending skip [] = []"
| "argument_hosts env cmd pending skip (token # tokens) =
     (case pending of
        Some option \<Rightarrow> extract_hosts_from_ssh_option_value env option token @ argument_hosts env cmd None skip tokens
      | None \<Rightarrow>
          if skip then argument_hosts env cmd None False tokens
          else (case (if cmd = ''ssh'' then extract_hosts_from_inline_ssh_option env token else None) of
                  Some hosts \<Rightarrow> hosts @ argument_hosts env cmd None False tokens
                | None \<Rightarrow>
                    if cmd = ''ssh'' \<and> token \<in> set (ssh_direct_options @ ssh_forward_options)
                    then argument_hosts env cmd (Some token) False tokens
                    else if token \<in> set (host_arg_options cmd) then argument_hosts env cmd None True tokens
                    else if has_prefix ''-'' token then argument_hosts env cmd None False tokens
                    else option_list (extract_hostname_from_shell_token env token)
                         @ argument_hosts env cmd None False tokens))"

definition url_hosts :: "policy_env \<Rightarrow> string list \<Rightarrow> string list" where
  "url_hosts env tokens =
     concat (map (\<lambda>token. case pe_url env token of
        Some (scheme, Some host) \<Rightarrow> if lower scheme \<in> {''http'', ''https''} then [host] else []
      | _ \<Rightarrow> []) tokens)"

definition extract_hosts_from_shell_command :: "policy_env \<Rightarrow> string \<Rightarrow> string list" where
  "extract_hosts_from_shell_command env raw =
     (case shlex_split raw of
        None \<Rightarrow> []
      | Some tokens \<Rightarrow>
          (let hosts = url_hosts env tokens in
           case from_command None tokens of
             [] \<Rightarrow> hosts
           | cmd # args \<Rightarrow>
               if path_name cmd \<notin> {''curl'', ''wget'', ''ping'', ''ssh''} then hosts
               else uniq_first [] (hosts @ argument_hosts env (path_name cmd) None False args)))"

definition is_url_field :: "string \<Rightarrow> bool" where
  "is_url_field field \<longleftrightarrow> list_ex (\<lambda>part. occurs_in part (lower field)) [''url'', ''uri'', ''endpoint'', ''host'', ''domain'']"

definition field_hosts :: "policy_env \<Rightarrow> string \<Rightarrow> string \<Rightarrow> string list" where
  "field_hosts env field s =
     (if is_shell_field field then extract_hosts_from_shell_command env s
      else if \<not> is_url_field field then []
      else (case parsed_host env s of Some host \<Rightarrow> [host] | None \<Rightarrow> option_list (parsed_host env (''//'' @ s))))"

definition extract_hosts :: "policy_env \<Rightarrow> py_dict \<Rightarrow> string list" where
  "extract_hosts env params = collect_leaves (field_hosts env) None (V_Dict params)"

definition host_matches :: "string \<Rightarrow> string \<Rightarrow> bool" where
  "host_matches host allowed =
     (let h = lower (strip host); a = lower (strip allowed) in
      if h = [] \<or> a = [] then False
      else if a = ''*'' then True
      else h = a \<or> has_suffix (''.'' @ a) h)"

section \<open>The gate\<close>

definition is_relative_to :: "string list \<Rightarrow> string list \<Rightarrow> bool" where
  "is_relative_to path root \<longleftrightarrow> take (length root) path = root"

definition enforce_path_lists :: "policy_env \<Rightarrow> profile_policy \<Rightarrow> py_dict \<Rightarrow> unit res" where
  "enforce_path_lists env policy params =
     bindE (parse_string_set (pl_allowed_dirs policy)) (\<lambda>dirs.
       if dirs = [] then Inr ()
       else if list_all (\<lambda>p. list_ex (\<lambda>r. is_relative_to (pe_resolve env p) (pe_resolve env r)) dirs)
                 (extract_path_values params)
       then Inr () else violation)"

definition enforce_shell_lists :: "profile_policy \<Rightarrow> py_dict \<Rightarrow> unit res" where
  "enforce_shell_lists policy params =
     (let commands = extract_commands params in
      if commands = [] then Inr ()
      else bindE (parse_string_set (pl_shell_denied policy)) (\<lambda>denied.
           bindE (parse_string_set (pl_shell_allowed policy)) (\<lambda>allowed.
             if (allowed \<noteq> [] \<or> denied \<noteq> []) \<and> contains_command_substitution params then violation
             else if list_ex (\<lambda>c. c \<in> set denied) commands then violation
             else if allowed \<noteq> [] \<and> list_ex (\<lambda>c. c \<notin> set allowed) commands then violation
             else Inr ())))"

definition fixed_outbound_hosts :: "string \<Rightarrow> string list" where
  "fixed_outbound_hosts tool_name =
     (if tool_name = ''channel.history.list'' then [''api.partyflow.ru'']
      else if tool_name = ''web.search'' then [''api.search.brave.com''] else [])"

definition target_hosts :: "policy_env \<Rightarrow> string \<Rightarrow> py_dict \<Rightarrow> string list" where
  "target_hosts env tool_name params =
     (let hosts = extract_hosts env params; fixed = fixed_outbound_hosts tool_name in
      if fixed \<noteq> [] then uniq_first [] (hosts @ fixed) else hosts)"

definition enforce_network_allowlist ::
    "policy_env \<Rightarrow> profile_policy \<Rightarrow> string \<Rightarrow> py_dict \<Rightarrow> string list \<Rightarrow> unit res" where
  "enforce_network_allowlist env policy tool_name params approved =
     (let hosts = filter (\<lambda>h. \<not> list_ex (host_matches h) approved) (target_hosts env tool_name params) in
      if hosts = [] then Inr ()
      else bindE (parse_string_set (pl_network policy)) (\<lambda>allowlist.
        if allowlist = [] then violation
        else if list_all (\<lambda>h. list_ex (host_matches h) allowlist) hosts then Inr () else violation))"

definition enforce_parameters ::
    "policy_env \<Rightarrow> profile_policy \<Rightarrow> string \<Rightarrow> py_dict \<Rightarrow> string list \<Rightarrow> unit res" where
  "enforce_parameters env policy tool_name params approved_hosts =
     bindE (enforce_path_lists env policy params) (\<lambda>_.
     bindE (enforce_shell_lists policy params) (\<lambda>_.
       enforce_network_allowlist env policy tool_name params approved_hosts))"

definition ensure_subagent_run_allowed :: "policy_env \<Rightarrow> profile_policy \<Rightarrow> unit res" where
  "ensure_subagent_run_allowed env policy =
     (if \<not> pl_enabled policy then Inr ()
      else bindE (enforce_tool_lists policy ''subagent.run'' []) (\<lambda>_.
           bindE (enforce_parameters env policy ''subagent.run'' [] []) (\<lambda>_.
             if pl_iterations_subagent policy \<le> 0 then violation else Inr ())))"

definition job_kind :: "pyval \<Rightarrow> string" where
  "job_kind job = (case job of V_Dict d \<Rightarrow> lower (config_text d ''kind'') | _ \<Rightarrow> [])"

definition enforce_session_job_nested_tools :: "policy_env \<Rightarrow> profile_policy \<Rightarrow> py_dict \<Rightarrow> unit res" where
  "enforce_session_job_nested_tools env policy params =
     (case py_get params ''jobs'' of
        V_List jobs \<Rightarrow>
          bindE (if ''bash'' \<in> set (map job_kind jobs) then enforce_tool_lists policy ''bash.exec'' [] else Inr ()) (\<lambda>_.
            if ''subagent'' \<in> set (map job_kind jobs) then ensure_subagent_run_allowed env policy else Inr ())
      | _ \<Rightarrow> Inr ())"

definition ensure_tool_call_allowed ::
    "policy_env \<Rightarrow> profile_policy \<Rightarrow> string \<Rightarrow> py_dict \<Rightarrow> string list \<Rightarrow> string list \<Rightarrow> unit res" where
  "ensure_tool_call_allowed env policy tool_name params approved_tools approved_hosts =
     (if \<not> pl_enabled policy then Inr ()
      else bindE (enforce_tool_lists policy tool_name approved_tools) (\<lambda>_.
           bindE (if tool_name = ''session.job.run'' then enforce_session_job_nested_tools env policy params
                  else Inr ()) (\<lambda>_.
             enforce_parameters env policy tool_name params approved_hosts)))"

section \<open>What is collected\<close>

inductive leaf :: "string option \<Rightarrow> pyval \<Rightarrow> string \<Rightarrow> string \<Rightarrow> bool" where
  here: "leaf (Some n) (V_Str s) n s"
| in_dict: "(k, item) \<in> set d \<Longrightarrow> leaf (Some k) item n s \<Longrightarrow> leaf field (V_Dict d) n s"
| in_list: "v \<in> set vs \<Longrightarrow> leaf field v n s \<Longrightarrow> leaf field (V_List vs) n s"

inductive_cases leaf_cases: "leaf field v n s"

lemma leaf_collected: "leaf field v n s \<Longrightarrow> x \<in> set (f n s) \<Longrightarrow> x \<in> set (collect_leaves f field v)"
  by (induction rule: leaf.induct) auto

lemma collected_leaf: "x \<in> set (collect_leaves f field v) \<Longrightarrow> \<exists>n s. leaf field v n s \<and> x \<in> set (f n s)"
proof (induction f field v rule: collect_leaves.induct)
  case (1 f field d)
  then obtain k item where mem: "(k, item) \<in> set d" "x \<in> set (collect_leaves f (Some k) item)" by auto
  from 1(1) [OF mem(1) refl mem(2)] leaf.in_dict [OF mem(1)] show ?case by blast
next
  case (2 f field vs)
  then obtain v where mem: "v \<in> set vs" "x \<in> set (collect_leaves f field v)" by auto
  from 2(1) [OF mem] leaf.in_list [OF mem(1)] show ?case by blast
next
  case (3 f field s)
  then show ?case by (cases field) (auto intro: leaf.here)
qed simp_all

lemma set_collect_leaves: "x \<in> set (collect_leaves f field v) \<longleftrightarrow> (\<exists>n s. leaf field v n s \<and> x \<in> set (f n s))"
  using leaf_collected collected_leaf by metis

section \<open>The gate admits what it should\<close>

lemma enforce_tool_lists_iff:
  "enforce_tool_lists policy tool approved = Inr () \<longleftrightarrow>
     (\<exists>denied allowed. parse_string_set (pl_denied_tools policy) = Inr denied
        \<and> parse_string_set (pl_allowed_tools policy) = Inr allowed
        \<and> \<not> (\<exists>r \<in> set denied. tool_rule_matches r tool)
        \<and> (tool \<in> set approved \<or> allowed = [] \<or> (\<exists>r \<in> set allowed. tool_rule_matches r tool)))"
  unfolding enforce_tool_lists_def
  by (cases "parse_string_set (pl_denied_tools policy)"; cases "parse_string_set (pl_allowed_tools policy)")
    (auto simp: violation_def service_error_def list_ex_iff split: if_splits)

text \<open>C33 The tools shown to the planner are the available ones that the tool lists of the gate let through;
  a call that passes the gate without an approval is a call of a tool that is shown.\<close>

theorem visible_tools_pass_gate:
  "(nm \<in> set (allowed_tool_names policy names) \<longleftrightarrow>
      nm \<in> set names \<and> (pl_enabled policy \<longrightarrow> enforce_tool_lists policy nm [] = Inr ()))
   \<and> (ensure_tool_call_allowed env policy nm params [] hosts = Inr () \<longrightarrow> nm \<in> set names \<longrightarrow>
        nm \<in> set (allowed_tool_names policy names))"
proof -
  have visible: "nm \<in> set (allowed_tool_names policy names) \<longleftrightarrow>
      nm \<in> set names \<and> (pl_enabled policy \<longrightarrow> enforce_tool_lists policy nm [] = Inr ())"
    unfolding allowed_tool_names_def enforce_tool_lists_iff
    by (cases "parse_string_set (pl_denied_tools policy)"; cases "parse_string_set (pl_allowed_tools policy)")
      (auto simp: list_ex_iff)
  moreover have "enforce_tool_lists policy nm [] = Inr ()"
    if "ensure_tool_call_allowed env policy nm params [] hosts = Inr ()" "pl_enabled policy"
    using that unfolding ensure_tool_call_allowed_def by (auto elim: bindE_InrE)
  ultimately show ?thesis by blast
qed

lemma shell_lists_pass:
  assumes "enforce_shell_lists policy params = Inr ()" and "leaf None (V_Dict params) n s" and "is_shell_field n"
    and "c \<in> set (extract_command_tokens s)"
  shows "\<exists>denied allowed. parse_string_set (pl_shell_denied policy) = Inr denied
    \<and> parse_string_set (pl_shell_allowed policy) = Inr allowed \<and> c \<notin> set denied
    \<and> (allowed = [] \<or> c \<in> set allowed) \<and> ((allowed \<noteq> [] \<or> denied \<noteq> []) \<longrightarrow> \<not> has_substitution s)"
proof -
  have c: "c \<in> set (extract_commands params)"
    unfolding extract_commands_def set_collect_leaves using assms(2-4) by auto
  then have "extract_commands params \<noteq> []" by auto
  with assms(1) obtain denied allowed where lists: "parse_string_set (pl_shell_denied policy) = Inr denied"
      "parse_string_set (pl_shell_allowed policy) = Inr allowed"
    and pass: "(if (allowed \<noteq> [] \<or> denied \<noteq> []) \<and> contains_command_substitution params then violation
       else if list_ex (\<lambda>c. c \<in> set denied) (extract_commands params) then violation
       else if allowed \<noteq> [] \<and> list_ex (\<lambda>c. c \<notin> set allowed) (extract_commands params) then violation
       else Inr ()) = Inr ()"
    unfolding enforce_shell_lists_def Let_def by (auto elim!: bindE_InrE)
  have ok: "\<not> ((allowed \<noteq> [] \<or> denied \<noteq> []) \<and> contains_command_substitution params)"
    "\<not> list_ex (\<lambda>c. c \<in> set denied) (extract_commands params)"
    "\<not> (allowed \<noteq> [] \<and> list_ex (\<lambda>c. c \<notin> set allowed) (extract_commands params))"
    using pass by (auto simp: violation_def split: if_splits)
  have "contains_command_substitution params" if "has_substitution s"
    unfolding contains_command_substitution_def set_collect_leaves using assms(2,3) that by auto
  with ok c lists show ?thesis by (auto simp: list_ex_iff)
qed

lemma network_pass:
  assumes "enforce_network_allowlist env policy tool params approved = Inr ()" and "h \<in> set (target_hosts env tool params)"
  shows "(\<exists>a \<in> set approved. host_matches h a)
    \<or> (\<exists>allowlist. parse_string_set (pl_network policy) = Inr allowlist \<and> (\<exists>a \<in> set allowlist. host_matches h a))"
proof (cases "list_ex (host_matches h) approved")
  case True
  then show ?thesis by (auto simp: list_ex_iff)
next
  case False
  let ?hosts = "filter (\<lambda>h. \<not> list_ex (host_matches h) approved) (target_hosts env tool params)"
  have h: "h \<in> set ?hosts" using False assms(2) by simp
  then have "?hosts \<noteq> []" by (metis length_pos_if_in_set less_numeral_extra(3) list.size(3))
  with assms(1) obtain allowlist where "parse_string_set (pl_network policy) = Inr allowlist"
    and "(if allowlist = [] then violation
        else if list_all (\<lambda>h. list_ex (host_matches h) allowlist) ?hosts then Inr () else violation) = Inr ()"
    unfolding enforce_network_allowlist_def Let_def by (auto elim!: bindE_InrE)
  with h show ?thesis by (auto simp: violation_def list_all_iff list_ex_iff split: if_splits)
qed

lemma network_listed:
  assumes "parse_string_set (pl_network policy) = Inr network"
    and "\<And>h. h \<in> set (target_hosts env tool params) \<Longrightarrow> \<exists>a \<in> set approved \<union> set network. host_matches h a"
  shows "enforce_network_allowlist env policy tool params approved = Inr ()"
proof -
  let ?hosts = "filter (\<lambda>h. \<not> list_ex (host_matches h) approved) (target_hosts env tool params)"
  have listed: "\<exists>a \<in> set network. host_matches h a" if "h \<in> set ?hosts" for h
    using that assms(2) by (auto simp: list_ex_iff)
  show ?thesis
  proof (cases "?hosts = []")
    case False
    then have "hd ?hosts \<in> set ?hosts" by (rule hd_in_set)
    with listed have "network \<noteq> []" by force
    with listed show ?thesis
      unfolding enforce_network_allowlist_def Let_def assms(1) bindE_def by (simp add: list_all_iff list_ex_iff)
  qed (simp add: enforce_network_allowlist_def)
qed

lemma hosts_in_target: "leaf None (V_Dict params) n s \<Longrightarrow> h \<in> set (field_hosts env n s) \<Longrightarrow> h \<in> set (target_hosts env tool params)"
  unfolding target_hosts_def Let_def extract_hosts_def
  using set_collect_leaves [of h "field_hosts env" None "V_Dict params"] by (auto simp: set_uniq_first)

text \<open>C34 A call the enabled gate lets through is confined, however deep in its parameters a value stands: a
  path lies under an allowed root when there are any, every command the code reads in a shell
  string is not denied, is allowed when there is an allowlist, and then without command
  substitution, and every host is approved or on the network allowlist.\<close>

theorem admitted_call_is_confined:
  assumes pass: "ensure_tool_call_allowed env policy tool params tools hosts = Inr ()" and enabled: "pl_enabled policy"
    and leaf: "leaf None (V_Dict params) n s"
  shows "(is_path_field_name (lower n) \<longrightarrow> (\<exists>dirs. parse_string_set (pl_allowed_dirs policy) = Inr dirs
            \<and> (dirs = [] \<or> (\<exists>r \<in> set dirs. is_relative_to (pe_resolve env s) (pe_resolve env r)))))
    \<and> (is_shell_field n \<longrightarrow> (\<forall>c \<in> set (extract_command_tokens s). \<exists>denied allowed.
            parse_string_set (pl_shell_denied policy) = Inr denied
            \<and> parse_string_set (pl_shell_allowed policy) = Inr allowed \<and> c \<notin> set denied
            \<and> (allowed = [] \<or> c \<in> set allowed) \<and> ((allowed \<noteq> [] \<or> denied \<noteq> []) \<longrightarrow> \<not> has_substitution s)))
    \<and> (\<forall>h \<in> set (field_hosts env n s). (\<exists>a \<in> set hosts. host_matches h a)
            \<or> (\<exists>allowlist. parse_string_set (pl_network policy) = Inr allowlist
                 \<and> (\<exists>a \<in> set allowlist. host_matches h a)))"
proof -
  from pass enabled have "enforce_parameters env policy tool params hosts = Inr ()"
    unfolding ensure_tool_call_allowed_def by (auto elim!: bindE_InrE)
  then have path: "enforce_path_lists env policy params = Inr ()" and shell: "enforce_shell_lists policy params = Inr ()"
    and net: "enforce_network_allowlist env policy tool params hosts = Inr ()"
    unfolding enforce_parameters_def by (auto elim!: bindE_InrE)
  have "\<exists>dirs. parse_string_set (pl_allowed_dirs policy) = Inr dirs
      \<and> (dirs = [] \<or> (\<exists>r \<in> set dirs. is_relative_to (pe_resolve env s) (pe_resolve env r)))"
    if field: "is_path_field_name (lower n)"
  proof -
    have "s \<in> set (extract_path_values params)"
      unfolding extract_path_values_def set_collect_leaves using leaf field by auto
    with path show ?thesis
      unfolding enforce_path_lists_def
      by (auto simp: violation_def list_all_iff list_ex_iff elim!: bindE_InrE split: if_splits)
  qed
  with shell_lists_pass [OF shell leaf] network_pass [OF net hosts_in_target [OF leaf]] show ?thesis by blast
qed

section \<open>A command behind a single ampersand\<close>

definition plain_char :: "char \<Rightarrow> bool" where
  "plain_char c \<longleftrightarrow> c \<notin> {CHR ''|'', CHR ''&'', CHR '';'', newline, single_quote, double_quote, backslash, CHR ''$'', backtick}"

lemma special_chars [simp]:
  "newline \<noteq> CHR ''|''" "newline \<noteq> CHR ''&''" "newline \<noteq> CHR '' ''" "CHR '' '' \<noteq> newline" "CHR ''&'' \<noteq> newline"
  "CHR ''l'' \<noteq> newline" "CHR ''s'' \<noteq> newline" "CHR '' '' \<noteq> backslash" "CHR ''&'' \<noteq> backslash"
  "CHR ''l'' \<noteq> backslash" "CHR ''s'' \<noteq> backslash" "\<not> is_quote (CHR '' '')" "\<not> is_quote (CHR ''&'')"
  "\<not> is_quote (CHR ''l'')" "\<not> is_quote (CHR ''s'')" "shlex_space (CHR '' '')" "\<not> shlex_space (CHR ''&'')"
  "\<not> shlex_space (CHR ''l'')" "\<not> shlex_space (CHR ''s'')" "CHR ''l'' \<noteq> backtick" "CHR ''s'' \<noteq> backtick"
  "CHR '' '' \<noteq> backtick" "CHR ''&'' \<noteq> backtick"
  by (simp_all add: newline_def backslash_def backtick_def is_quote_def shlex_space_def quote_codes)

lemma split_plain: "\<forall>c \<in> set s. plain_char c \<Longrightarrow> split_segments piece s = [piece @ s]"
  by (induction s arbitrary: piece) (auto simp: plain_char_def)

lemma shlex_plain:
  assumes "\<forall>c \<in> set s. plain_char c"
  shows "(\<exists>ts. shlex Between tok q s = Some ts) \<and> (\<exists>ts. shlex Word tok q s = Some ts)"
  using assms
proof (induction s arbitrary: tok q)
  case Nil
  then show ?case by simp
next
  case (Cons c cs)
  have c: "c \<noteq> backslash" "\<not> is_quote c" using Cons.prems by (auto simp: plain_char_def is_quote_def)
  have cs: "\<forall>c \<in> set cs. plain_char c" using Cons.prems by simp
  obtain t1 where 1: "shlex Between [] False cs = Some t1" using Cons.IH [OF cs] by blast
  obtain t2 where 2: "shlex Word [c] False cs = Some t2" using Cons.IH [OF cs] by blast
  obtain t3 where 3: "shlex Word (tok @ [c]) q cs = Some t3" using Cons.IH [OF cs] by blast
  from c 1 2 3 show ?case by simp
qed

lemma ampersand_segment:
  assumes "rest = [] \<or> (\<exists>r. rest = CHR '' '' # r)" and "\<forall>c \<in> set rest. plain_char c"
  shows "split_segments [] (''ls &'' @ rest) = [''ls &'' @ rest]"
proof -
  have "split_segments (''ls '' @ ''&'') rest = [''ls &'' @ rest]" using split_plain [OF assms(2)] by simp
  then show ?thesis using assms(1) by (elim disjE exE) (simp_all del: split_segments.simps(1))
qed

lemma ampersand_words:
  assumes "rest = [] \<or> (\<exists>r. rest = CHR '' '' # r)" and "\<forall>c \<in> set rest. plain_char c"
  shows "\<exists>ts. shlex_split (''ls &'' @ rest) = Some (''ls'' # ts)"
proof -
  obtain ts where "shlex Word ''&'' False rest = Some ts" using shlex_plain [OF assms(2)] by blast
  then show ?thesis by (simp add: shlex_split_def emit_def)
qed

lemma rstrip_through: "\<not> is_space x \<Longrightarrow> rstrip (p @ x # r) = p @ x # rstrip r"
  by (simp add: rstrip_def dropWhile_append)

lemma strip_ampersand:
  assumes "\<forall>c \<in> set cmd. plain_char c"
  obtains rest where "strip (''ls & '' @ cmd) = ''ls &'' @ rest" and "rest = [] \<or> (\<exists>r. rest = CHR '' '' # r)"
    and "\<forall>c \<in> set rest. plain_char c"
proof
  let ?rest = "rstrip (CHR '' '' # cmd)"
  have "\<not> is_space (CHR ''&'')" "\<not> is_space (CHR ''l'')" by (simp_all add: is_space_def code_pt_def)
  then show "strip (''ls & '' @ cmd) = ''ls &'' @ ?rest"
    using rstrip_through [of "CHR ''&''" "''ls ''" "CHR '' '' # cmd"] by (simp add: strip_def lstrip_def)
  obtain w where w: "CHR '' '' # cmd = ?rest @ w" using rstrip_decomp by blast
  then show "?rest = [] \<or> (\<exists>r. ?rest = CHR '' '' # r)" by (cases ?rest) auto
  have "plain_char (CHR '' '')" by (simp add: plain_char_def quote_codes)
  then show "\<forall>c \<in> set ?rest. plain_char c" using w assms by (metis Un_iff set_append set_ConsD)
qed

lemma background_command_hidden:
  assumes "\<forall>c \<in> set cmd. plain_char c"
  shows "extract_command_tokens (''ls & '' @ cmd) = [''ls'']"
proof -
  obtain rest where rest: "strip (''ls & '' @ cmd) = ''ls &'' @ rest" "rest = [] \<or> (\<exists>r. rest = CHR '' '' # r)"
      "\<forall>c \<in> set rest. plain_char c"
    using strip_ampersand [OF assms] by blast
  let ?s = "''ls &'' @ rest"
  have chunk: "strip ?s = ?s" using rest(1) strip_idem by metis
  obtain ts where words: "shlex_split ?s = Some (''ls'' # ts)" using ampersand_words [OF rest(2,3)] by blast
  have first: "from_command None (''ls'' # ts) = ''ls'' # ts"
    by (simp add: is_assignment_def wrappers_def)
  have nm: "path_name ''ls'' = ''ls''" by code_simp
  have 1: "first_command_token ?s = Some ''ls''"
    unfolding first_command_token_def Let_def chunk words option.case first list.case nm by simp
  have "''ls'' \<notin> set shells" by (simp add: shells_def)
  then have 2: "nested_shell_argument ?s = None"
    unfolding nested_shell_argument_def words option.case list.sel nm by simp
  have "command_tokens (Suc 3) (''ls & '' @ cmd) = [''ls'']"
    unfolding command_tokens.simps Let_def rest(1) ampersand_segment [OF rest(2,3)]
    by (simp add: chunk [simplified] 1 [simplified] 2 [simplified])
  then show ?thesis by (simp add: extract_command_tokens_def numeral_eq_Suc)
qed

lemma background_command_lists:
  assumes plain: "\<forall>c \<in> set cmd. plain_char c"
    and allowed: "parse_string_set (pl_shell_allowed policy) = Inr [''ls'']"
    and denied: "parse_string_set (pl_shell_denied policy) = Inr denied" and "''ls'' \<notin> set denied"
  shows "enforce_shell_lists policy [(''command'', V_Str (''ls & '' @ cmd))] = Inr ()"
proof -
  have field: "is_shell_field ''command''" by code_simp
  have tokens: "extract_command_tokens (CHR ''l'' # CHR ''s'' # CHR '' '' # CHR ''&'' # CHR '' '' # cmd) = [''ls'']"
    using background_command_hidden [OF plain] by simp
  have no_dollar: "CHR ''$'' \<notin> set cmd" "backtick \<notin> set cmd" using plain by (auto simp: plain_char_def)
  have "\<not> occurs_in ''$('' (''ls & '' @ cmd)"
  proof
    assume "occurs_in ''$('' (''ls & '' @ cmd)"
    then obtain u v where "''ls & '' @ cmd = u @ ''$('' @ v" unfolding occurs_in_iff by blast
    moreover have "CHR ''$'' \<in> set (u @ ''$('' @ v)" by simp
    ultimately have "CHR ''$'' \<in> set (''ls & '' @ cmd)" by metis
    with no_dollar(1) show False by simp
  qed
  then have "\<not> has_substitution (''ls & '' @ cmd)" using no_dollar(2) by (simp add: has_substitution_def backtick_def)
  then show ?thesis
    using assms(2-4) tokens field
    by (simp add: enforce_shell_lists_def extract_commands_def contains_command_substitution_def)
qed

text \<open>The only hosts seen in it are those of its words that are URLs.\<close>

lemma background_command_hosts:
  assumes "\<forall>c \<in> set cmd. plain_char c"
  obtains words where "shlex_split (''ls & '' @ cmd) = Some words"
    and "target_hosts env ''bash.exec'' [(''command'', V_Str (''ls & '' @ cmd))] = url_hosts env words"
proof -
  have "plain_char (CHR '' '')" by code_simp
  with assms have "\<forall>c \<in> set (CHR '' '' # cmd). plain_char c" by simp
  from ampersand_words [OF _ this] obtain ts where words: "shlex_split (''ls & '' @ cmd) = Some (''ls'' # ts)" by auto
  have first: "from_command None (''ls'' # ts) = ''ls'' # ts" by (simp add: is_assignment_def wrappers_def)
  have nm: "path_name ''ls'' = ''ls''" and field: "is_shell_field ''command''" by code_simp+
  have "extract_hosts_from_shell_command env (''ls & '' @ cmd) = url_hosts env (''ls'' # ts)"
    unfolding extract_hosts_from_shell_command_def words option.case Let_def first list.case nm by simp
  then have "extract_hosts env [(''command'', V_Str (''ls & '' @ cmd))] = url_hosts env (''ls'' # ts)"
    using field by (simp add: extract_hosts_def field_hosts_def)
  with words that show ?thesis by (simp add: target_hosts_def fixed_outbound_hosts_def Let_def)
qed

text \<open>C35 A command after a single ampersand escapes the shell lists of the whole gate: with an allowlist of \<open>ls\<close> alone and
  whatever denylist that does not name \<open>ls\<close>, a call of \<open>bash.exec\<close> that the tool lists let through is admitted with
  \<open>ls & \<close> followed by any command of ordinary characters. Of that command only the words that are http or https URLs
  are looked at: their hosts have to be approved or on the network allowlist.\<close>

theorem background_command_unchecked:
  assumes plain: "\<forall>c \<in> set cmd. plain_char c"
    and allowed: "parse_string_set (pl_shell_allowed policy) = Inr [''ls'']"
    and denied: "parse_string_set (pl_shell_denied policy) = Inr denied" "''ls'' \<notin> set denied"
    and dirs: "parse_string_set (pl_allowed_dirs policy) = Inr dirs" and network: "parse_string_set (pl_network policy) = Inr network"
    and tool: "enforce_tool_lists policy ''bash.exec'' tools = Inr ()"
    and urls: "\<And>words h. shlex_split (''ls & '' @ cmd) = Some words \<Longrightarrow> h \<in> set (url_hosts env words) \<Longrightarrow>
      \<exists>a \<in> set hosts \<union> set network. host_matches h a"
  shows "ensure_tool_call_allowed env policy ''bash.exec'' [(''command'', V_Str (''ls & '' @ cmd))] tools hosts = Inr ()"
proof -
  let ?params = "[(''command'', V_Str (''ls & '' @ cmd))]"
  have "\<not> is_path_field_name (lower ''command'')" by code_simp
  then have "extract_path_values ?params = []" by (simp add: extract_path_values_def)
  then have paths: "enforce_path_lists env policy ?params = Inr ()" by (simp add: enforce_path_lists_def dirs bindE_def)
  obtain words where "shlex_split (''ls & '' @ cmd) = Some words" "target_hosts env ''bash.exec'' ?params = url_hosts env words"
    by (rule background_command_hosts [OF plain])
  with urls have hosts: "\<exists>a \<in> set hosts \<union> set network. host_matches h a" if "h \<in> set (target_hosts env ''bash.exec'' ?params)" for h
    using that by simp
  have "enforce_network_allowlist env policy ''bash.exec'' ?params hosts = Inr ()"
    by (rule network_listed [OF network hosts])
  with paths background_command_lists [OF plain allowed denied] tool show ?thesis
    by (simp add: ensure_tool_call_allowed_def enforce_parameters_def bindE_def)
qed

text \<open>An option of \<open>sudo\<close> is taken for the command, so a denylist does not see what follows.\<close>

lemma sudo_option_hides_command: "extract_command_tokens ''sudo -u root rm -rf /'' = [''-u'']"
  by code_simp

section \<open>Examples\<close>

definition example_policy :: profile_policy where
  "example_policy = \<lparr>pl_profile = ''default'', pl_enabled = True, pl_preset = ''medium'', pl_capabilities = Blank,
     pl_iterations_main = 5, pl_iterations_subagent = 0,
     pl_allowed_tools = strings [''file.*'', '' bash.exec ''], pl_denied_tools = strings [''file.write''],
     pl_allowed_dirs = strings [''/work''], pl_sandbox = ''disabled'', pl_shell_allowed = strings [''ls''], pl_shell_denied = strings [''rm''],
     pl_network = Blank\<rparr>"

definition example_policy_env :: policy_env where
  "example_policy_env = \<lparr>pe_resolve = (\<lambda>s. filter (\<lambda>p. p \<noteq> []) (split_on (CHR ''/'') s)), pe_url = (\<lambda>_. None)\<rparr>"

definition example_call :: py_dict where
  "example_call = [(''jobs'', V_List [V_Dict [(''cwd'', V_Str ''/work/a''), (''cmd'', V_Str ''ls -l; ls'')]])]"

theorem visible_tools_pass_gate_witness:
  "allowed_tool_names example_policy [''file.read'', ''file.write'', ''web.search''] = [''file.read'']
   \<and> enforce_tool_lists example_policy ''file.read'' [] = Inr ()"
proof -
  have shown: "allowed_tool_names example_policy [''file.read'', ''file.write'', ''web.search''] = [''file.read'']"
    by code_simp
  then have "''file.read'' \<in> set (allowed_tool_names example_policy [''file.read'', ''file.write'', ''web.search''])"
    by simp
  moreover have "pl_enabled example_policy" by (simp add: example_policy_def)
  ultimately show ?thesis
    using shown visible_tools_pass_gate [THEN conjunct1, THEN iffD1] by blast
qed

theorem admitted_call_is_confined_witness:
  "ensure_tool_call_allowed example_policy_env example_policy ''bash.exec'' example_call [] [] = Inr ()
   \<and> (\<exists>dirs. parse_string_set (pl_allowed_dirs example_policy) = Inr dirs
        \<and> (dirs = [] \<or> (\<exists>r \<in> set dirs. is_relative_to (pe_resolve example_policy_env ''/work/a'')
             (pe_resolve example_policy_env r))))"
proof -
  have pass: "ensure_tool_call_allowed example_policy_env example_policy ''bash.exec'' example_call [] [] = Inr ()"
    by code_simp
  have enabled: "pl_enabled example_policy" by (simp add: example_policy_def)
  have leaf: "leaf None (V_Dict example_call) ''cwd'' ''/work/a''"
    unfolding example_call_def 
    by (rule leaf.in_dict [OF list.set_intros(1)], rule leaf.in_list [OF list.set_intros(1)],
        rule leaf.in_dict [OF list.set_intros(1)], rule leaf.here)
  have "is_path_field_name (lower ''cwd'')" by code_simp
  with admitted_call_is_confined [OF pass enabled leaf] pass show ?thesis by blast
qed

theorem background_command_unchecked_witness:
  "ensure_tool_call_allowed example_policy_env example_policy ''bash.exec'' [(''command'', V_Str (''ls & '' @ ''rm -rf /''))] [] [] = Inr ()"
proof (rule background_command_unchecked)
  show "\<forall>c \<in> set ''rm -rf /''. plain_char c" by code_simp
  show "parse_string_set (pl_shell_allowed example_policy) = Inr [''ls'']" by code_simp
  show "parse_string_set (pl_shell_denied example_policy) = Inr [''rm'']" by code_simp
  show "parse_string_set (pl_allowed_dirs example_policy) = Inr [''/work'']" by code_simp
  show "parse_string_set (pl_network example_policy) = Inr []" by code_simp
  show "enforce_tool_lists example_policy ''bash.exec'' [] = Inr ()" by code_simp
qed (simp_all add: url_hosts_def example_policy_env_def)

end
