(* ===== verification/Policy_Presets.thy ===== *)
theory Policy_Presets
  imports Policy
begin

text \<open>
  From the answers of the setup wizard to the stored policy of a profile: capabilities and presets
  (services/policy/presets_catalog.py, presets_resolver.py), the file access mode and the workspace
  scope (file_access.py), the sandbox default (shell_sandbox.py), the mapping of the wizard's
  answers (services/wizard/profile_intent_mapper.py) and the row that is written
  (repositories/profile_policy_repo.py).
\<close>

section \<open>Capabilities and presets\<close>

datatype preset_level = Simple | Medium | Strict

datatype capability =
  C_Files | C_Shell | C_Memory | C_Credentials | C_Subagents | C_Automation | C_Taskflow | C_Http | C_Web
| C_Browser | C_Skills | C_Apps | C_Mcp | C_Email | C_Telegram | C_Debug

primrec preset_value :: "preset_level \<Rightarrow> string" where
  "preset_value Simple = ''simple''"
| "preset_value Medium = ''medium''"
| "preset_value Strict = ''strict''"

primrec capability_value :: "capability \<Rightarrow> string" where
  "capability_value C_Files = ''files''"
| "capability_value C_Shell = ''shell''"
| "capability_value C_Memory = ''memory''"
| "capability_value C_Credentials = ''credentials''"
| "capability_value C_Subagents = ''subagents''"
| "capability_value C_Automation = ''automation''"
| "capability_value C_Taskflow = ''taskflow''"
| "capability_value C_Http = ''http''"
| "capability_value C_Web = ''web''"
| "capability_value C_Browser = ''browser''"
| "capability_value C_Skills = ''skills''"
| "capability_value C_Apps = ''apps''"
| "capability_value C_Mcp = ''mcp''"
| "capability_value C_Email = ''email''"
| "capability_value C_Telegram = ''telegram''"
| "capability_value C_Debug = ''debug''"

definition capability_order :: "capability list" where
  "capability_order = [C_Files, C_Shell, C_Memory, C_Credentials, C_Subagents, C_Automation, C_Taskflow, C_Http,
     C_Web, C_Browser, C_Skills, C_Apps, C_Mcp, C_Debug]"

text \<open>The tool names and the tool name prefixes of a capability.\<close>

primrec capability_tools :: "capability \<Rightarrow> string list" where
  "capability_tools C_Files = [''diffs.render'']"
| "capability_tools C_Shell = [''bash.exec'', ''session.job.run'']"
| "capability_tools C_Memory = []"
| "capability_tools C_Credentials = []"
| "capability_tools C_Subagents = [''session.job.run'']"
| "capability_tools C_Automation = []"
| "capability_tools C_Taskflow = []"
| "capability_tools C_Http = [''http.request'']"
| "capability_tools C_Web = []"
| "capability_tools C_Browser = [''browser.control'']"
| "capability_tools C_Skills = []"
| "capability_tools C_Apps = [''app.list'', ''app.run'', ''channel.send'']"
| "capability_tools C_Mcp = []"
| "capability_tools C_Email = [''app.run'', ''app.list'', ''channel.send'']"
| "capability_tools C_Telegram = [''app.run'', ''app.list'', ''channel.send'']"
| "capability_tools C_Debug = [''debug.echo'']"

primrec capability_prefixes :: "capability \<Rightarrow> string list" where
  "capability_prefixes C_Files = [''file.'']"
| "capability_prefixes C_Shell = []"
| "capability_prefixes C_Memory = [''memory.'']"
| "capability_prefixes C_Credentials = [''credentials.'']"
| "capability_prefixes C_Subagents = [''subagent.'']"
| "capability_prefixes C_Automation = [''automation.'']"
| "capability_prefixes C_Taskflow = [''task.'']"
| "capability_prefixes C_Http = []"
| "capability_prefixes C_Web = [''web.'']"
| "capability_prefixes C_Browser = []"
| "capability_prefixes C_Skills = [''skill.profile.'', ''skill.marketplace.'']"
| "capability_prefixes C_Apps = []"
| "capability_prefixes C_Mcp = [''mcp.'']"
| "capability_prefixes C_Email = []"
| "capability_prefixes C_Telegram = []"
| "capability_prefixes C_Debug = []"

definition default_llm_max_iterations :: int where
  "default_llm_max_iterations = 500"

text \<open>Every preset has the default iteration limits.\<close>

definition preset_iterations :: "preset_level \<Rightarrow> int \<times> int" where
  "preset_iterations level = (default_llm_max_iterations, default_llm_max_iterations)"

primrec default_capabilities_for_preset :: "preset_level \<Rightarrow> capability list" where
  "default_capabilities_for_preset Simple = filter (\<lambda>c. c \<noteq> C_Debug) capability_order"
| "default_capabilities_for_preset Medium = [C_Memory, C_Credentials, C_Subagents, C_Automation, C_Taskflow, C_Http,
     C_Web, C_Skills, C_Apps, C_Mcp]"
| "default_capabilities_for_preset Strict = [C_Memory, C_Credentials, C_Http]"

definition value_error :: "'a res" where
  "value_error = service_error ''value_error''"

definition parse_preset_level :: "string \<Rightarrow> preset_level res" where
  "parse_preset_level raw =
     (let normalized = lower (strip raw) in
      if normalized = ''light'' \<or> normalized = ''easy'' then Inr Simple
      else if normalized = ''hard'' then Inr Strict
      else (case find (\<lambda>level. preset_value level = normalized) [Simple, Medium, Strict] of
              Some level \<Rightarrow> Inr level
            | None \<Rightarrow> value_error))"

definition capability_of_value :: "string \<Rightarrow> capability res" where
  "capability_of_value v =
     (case find (\<lambda>c. capability_value c = v) capability_order of
        Some c \<Rightarrow> Inr c
      | None \<Rightarrow> if v = ''email'' \<or> v = ''telegram'' then Inr C_Apps else value_error)"

definition parse_capability_ids :: "string list \<Rightarrow> capability list res" where
  "parse_capability_ids raw_values =
     bindE (mapE capability_of_value (filter (\<lambda>v. v \<noteq> []) (map (\<lambda>raw. lower (strip raw)) raw_values)))
       (\<lambda>ids. Inr (uniq_first [] ids))"

record policy_selection =
  ps_enabled :: bool
  ps_preset :: preset_level
  ps_capabilities :: "capability list"

record resolved_policy =
  rp_enabled :: bool
  rp_preset :: preset_level
  rp_capabilities :: "capability list"
  rp_allowed :: "string list"
  rp_iterations_main :: int
  rp_iterations_subagent :: int

definition matches_capability :: "capability \<Rightarrow> string \<Rightarrow> bool" where
  "matches_capability c tool_name \<longleftrightarrow>
     tool_name \<in> set (capability_tools c) \<or> list_ex (\<lambda>p. has_prefix p tool_name) (capability_prefixes c)"

definition resolve_policy :: "policy_selection \<Rightarrow> string list \<Rightarrow> resolved_policy" where
  "resolve_policy sel available =
     (let specs = filter (\<lambda>c. c \<in> set (ps_capabilities sel)) capability_order;
          allowed = filter (\<lambda>tool. list_ex (\<lambda>c. matches_capability c tool) specs) (sort (remdups available));
          allowed = (if C_Mcp \<in> set (ps_capabilities sel) then allowed @ [''mcp.*''] else allowed)
      in \<lparr>rp_enabled = ps_enabled sel, rp_preset = ps_preset sel, rp_capabilities = ps_capabilities sel,
          rp_allowed = sort (remdups allowed), rp_iterations_main = fst (preset_iterations (ps_preset sel)),
          rp_iterations_subagent = snd (preset_iterations (ps_preset sel))\<rparr>)"

section \<open>File access and workspace scope\<close>

definition file_read_only_tools :: "string list" where
  "file_read_only_tools = [''file.list'', ''file.read'', ''file.search'']"

definition file_mutating_tools :: "string list" where
  "file_mutating_tools = [''file.write'', ''file.edit'']"

definition apply_file_access_mode :: "string list \<Rightarrow> string \<Rightarrow> string list" where
  "apply_file_access_mode allowed mode =
     (let m = lower (strip mode) in
      if m = ''read_only'' then filter (\<lambda>nm. nm \<notin> set file_mutating_tools) allowed
      else if m = ''none'' then filter (\<lambda>nm. nm \<notin> set (file_read_only_tools @ file_mutating_tools)) allowed
      else allowed)"

definition infer_file_access_mode :: "string list \<Rightarrow> string" where
  "infer_file_access_mode allowed =
     (if list_ex (\<lambda>nm. nm \<in> set file_mutating_tools) allowed then ''read_write''
      else if list_ex (\<lambda>nm. nm \<in> set file_read_only_tools) allowed then ''read_only''
      else ''none'')"

text \<open>
  A path is its list of components. \<open>fs_resolve\<close> resolves the text of a path, \<open>fs_expand\<close>
  replaces a leading \<open>~\<close>; the text of an absolute path is \<open>path_text\<close>.
\<close>

record file_system =
  fs_resolve :: "string \<Rightarrow> string list"
  fs_expand :: "string \<Rightarrow> string"

definition path_text :: "string list \<Rightarrow> string" where
  "path_text parts = CHR ''/'' # join_with ''/'' parts"

definition workspace_scope_modes :: "string list" where
  "workspace_scope_modes = [''profile_only'', ''project_only'', ''profile_and_project'', ''full_system'', ''custom'']"

definition normalize_workspace_scope_mode :: "string \<Rightarrow> string res" where
  "normalize_workspace_scope_mode v =
     (let normalized = lower (strip v) in
      if normalized \<in> set workspace_scope_modes then Inr normalized else value_error)"

definition profile_root_of :: "file_system \<Rightarrow> string \<Rightarrow> string \<Rightarrow> string list" where
  "profile_root_of fs root_dir profile_root =
     (if has_prefix ''/'' profile_root then fs_resolve fs profile_root
      else fs_resolve fs (root_dir @ ''/'' @ profile_root))"

definition normalize_allowed_directories :: "file_system \<Rightarrow> string list list \<Rightarrow> string list" where
  "normalize_allowed_directories fs paths =
     uniq_first [] (map (\<lambda>p. path_text (fs_resolve fs (path_text p))) paths)"

definition expanded_roots :: "file_system \<Rightarrow> string list \<Rightarrow> string list list" where
  "expanded_roots fs items = map (\<lambda>item. fs_resolve fs (fs_expand fs item)) (filter (\<lambda>item. strip item \<noteq> []) items)"

definition resolve_allowed_directories_for_scope_mode ::
    "file_system \<Rightarrow> string \<Rightarrow> string \<Rightarrow> string \<Rightarrow> string list \<Rightarrow> string list res" where
  "resolve_allowed_directories_for_scope_mode fs root_dir profile_root scope_mode customs =
     bindE (normalize_workspace_scope_mode scope_mode) (\<lambda>mode.
       let profile = profile_root_of fs root_dir profile_root; project = fs_resolve fs root_dir in
       Inr (if mode = ''full_system'' then [path_text (fs_resolve fs ''/'')]
            else if mode = ''project_only'' then [path_text project]
            else if mode = ''profile_and_project'' then normalize_allowed_directories fs [profile, project]
            else if mode = ''custom'' then normalize_allowed_directories fs (profile # expanded_roots fs customs)
            else [path_text profile]))"

definition default_allowed_directories :: "file_system \<Rightarrow> string \<Rightarrow> string \<Rightarrow> string list res" where
  "default_allowed_directories fs root_dir profile_root =
     resolve_allowed_directories_for_scope_mode fs root_dir profile_root ''profile_only'' []"

definition infer_workspace_scope_mode :: "file_system \<Rightarrow> string \<Rightarrow> string \<Rightarrow> string list \<Rightarrow> string" where
  "infer_workspace_scope_mode fs root_dir profile_root allowed_dirs =
     (let dirs = uniq_first [] (map path_text (expanded_roots fs allowed_dirs));
          profile = path_text (profile_root_of fs root_dir profile_root);
          project = path_text (fs_resolve fs root_dir)
      in if dirs = [] then ''profile_only''
         else if path_text (fs_resolve fs ''/'') \<in> set dirs then ''full_system''
         else if dirs = [profile] then ''profile_only''
         else if dirs = [project] then ''project_only''
         else if set dirs = {profile, project} then ''profile_and_project''
         else ''custom'')"

definition normalize_shell_sandbox_mode :: "pyval \<Rightarrow> string res" where
  "normalize_shell_sandbox_mode v =
     (case v of
        V_Str s \<Rightarrow>
          (let normalized = map (\<lambda>c. if c = CHR ''-'' then CHR ''_'' else c) (lower (strip s)) in
           if normalized \<in> {''disabled'', ''best_effort'', ''required''} then Inr normalized else value_error)
      | _ \<Rightarrow> value_error)"

definition default_shell_sandbox_mode :: "bool \<Rightarrow> string list \<Rightarrow> string \<Rightarrow> string" where
  "default_shell_sandbox_mode enabled capabilities scope_mode =
     (if \<not> enabled \<or> ''shell'' \<notin> set (map (\<lambda>c. lower (strip c)) capabilities) then ''disabled''
      else if lower (strip scope_mode) = ''full_system'' then ''disabled''
      else ''required'')"

definition scope_requires_shell_sandbox :: "file_system \<Rightarrow> string list list \<Rightarrow> bool" where
  "scope_requires_shell_sandbox fs roots \<longleftrightarrow>
     roots \<noteq> [] \<and> \<not> list_ex (\<lambda>r. fs_resolve fs (path_text r) = fs_resolve fs ''/'') roots"

section \<open>The answers of the wizard\<close>

record intent_selection =
  in_depth :: string
  in_contexts :: "string list"
  in_actions :: "string list"
  in_isolation :: string
  in_confirmation :: string
  in_network :: string
  in_allowlist :: "string list"

record intent_policy =
  ip_enabled :: bool
  ip_preset :: string
  ip_capabilities :: "string list"
  ip_file_access :: string
  ip_scope :: string
  ip_sandbox :: string
  ip_commands :: "string list"
  ip_network :: string

definition restricted_shell_commands :: "string list" where
  "restricted_shell_commands = [''ls'', ''cat'', ''pwd'', ''grep'', ''rg'', ''sed'', ''head'', ''tail'']"

definition add_capability :: "string \<Rightarrow> string list \<Rightarrow> string list" where
  "add_capability v vs = (if v \<in> set vs then vs else vs @ [v])"

definition add_if :: "bool \<Rightarrow> string list \<Rightarrow> string list \<Rightarrow> string list" where
  "add_if b items vs = (if b then fold add_capability items vs else vs)"

definition normalized_isolation :: "intent_selection \<Rightarrow> string" where
  "normalized_isolation sel =
     (let isolation = lower (strip (in_isolation sel)) in
      if isolation \<in> {''no_files'', ''profile_only'', ''project_read'', ''project_write'', ''profile_shell'',
          ''project_shell'', ''danger_full_system''} then isolation else ''no_files'')"

definition normalized_actions :: "intent_selection \<Rightarrow> string list" where
  "normalized_actions sel =
     uniq_first [] (map (\<lambda>item. lower (strip item)) (filter (\<lambda>item. strip item \<noteq> []) (in_actions sel)))"

text \<open>The capabilities the actions ask for, before the isolation is looked at.\<close>

definition action_capabilities :: "string \<Rightarrow> string list \<Rightarrow> string \<Rightarrow> string list" where
  "action_capabilities depth actions isolation =
     (let has = (\<lambda>a. a \<in> set actions);
          caps = add_if True [''memory''] [];
          caps = add_if (has ''taskflow'') [''taskflow''] caps;
          caps = add_if (has ''automation'') [''automation''] caps;
          caps = add_if (has ''project_read'' \<or> has ''project_write'' \<or> has ''sandbox_write'' \<or> has ''shell_allowlist'')
                   [''files''] caps;
          caps = add_if (has ''internet_docs'') [''http'', ''web''] caps;
          caps = add_if (has ''browser'') [''http'', ''web'', ''browser''] caps;
          caps = add_if (has ''external_services'') [''http''] caps;
          expert = (depth = ''expert'');
          caps = add_if (expert \<and> has ''subagents'') [''subagents''] caps;
          caps = add_if (expert \<and> has ''credentials'') [''credentials''] caps;
          caps = add_if (expert \<and> has ''afkbot_admin'')
                   [''credentials'', ''subagents'', ''automation'', ''taskflow'', ''http'', ''web'', ''browser'',
                    ''skills'', ''apps'', ''mcp''] caps
      in add_if (expert \<and> has ''afkbot_admin'' \<and> isolation = ''danger_full_system'') [''files'', ''shell''] caps)"

text \<open>What the isolation makes of them: capabilities, file access, scope, sandbox and commands.\<close>

definition apply_isolation ::
    "string \<Rightarrow> string list \<Rightarrow> string list \<Rightarrow> string list \<times> string \<times> string \<times> string \<times> string list" where
  "apply_isolation isolation actions caps =
     (let has = (\<lambda>a. a \<in> set actions) in
      if isolation = ''no_files'' then
        (filter (\<lambda>c. c \<noteq> ''files'' \<and> c \<noteq> ''shell'') caps, ''none'', ''profile_only'', ''disabled'', [])
      else if isolation = ''profile_only'' then
        (add_capability ''files'' caps, if has ''sandbox_write'' then ''read_write'' else ''read_only'',
         ''profile_only'', ''disabled'', [])
      else if isolation = ''project_read'' then
        (add_capability ''files'' caps, ''read_only'', ''project_only'', ''disabled'', [])
      else if isolation = ''project_write'' then
        (add_capability ''files'' caps, ''read_write'', ''project_only'', ''disabled'', [])
      else if isolation = ''profile_shell'' then
        (add_capability ''shell'' (add_capability ''files'' caps), ''read_write'', ''profile_only'', ''required'',
         restricted_shell_commands)
      else if isolation = ''project_shell'' then
        (add_capability ''shell'' (add_capability ''files'' caps), ''read_write'', ''project_only'', ''required'',
         restricted_shell_commands)
      else if isolation = ''danger_full_system'' then
        (add_if (has ''shell_allowlist'' \<or> has ''afkbot_admin'') [''shell''] (add_capability ''files'' caps),
         ''read_write'', ''full_system'', ''disabled'', [])
      else (caps, ''none'', ''profile_only'', ''disabled'', []))"

definition normalized_network :: "intent_selection \<Rightarrow> string" where
  "normalized_network sel =
     (let network = lower (strip (in_network sel)) in
      if network \<in> {''deny_all'', ''recommended'', ''custom'', ''unrestricted''} then network else ''recommended'')"

definition preset_for_confirmation :: "string \<Rightarrow> string" where
  "preset_for_confirmation confirmation =
     (let normalized = lower (strip confirmation) in
      if normalized = ''fast'' then ''simple'' else if normalized = ''strict'' then ''strict'' else ''medium'')"

definition ordered_capabilities :: "string list \<Rightarrow> string list" where
  "ordered_capabilities caps =
     filter (\<lambda>c. c \<in> set caps)
       [''files'', ''shell'', ''memory'', ''credentials'', ''subagents'', ''automation'', ''taskflow'', ''http'',
        ''web'', ''browser'', ''skills'', ''apps'', ''mcp'']"

definition map_profile_intent_to_policy :: "intent_selection \<Rightarrow> intent_policy" where
  "map_profile_intent_to_policy sel =
     (let isolation = normalized_isolation sel; actions = normalized_actions sel;
          network = normalized_network sel
      in case apply_isolation isolation actions
                (action_capabilities (lower (strip (in_depth sel))) actions isolation) of
           (caps, access, scope, sandbox, commands) \<Rightarrow>
             (let caps = (if ''shell_allowlist'' \<in> set actions
                             \<and> isolation \<notin> {''profile_shell'', ''project_shell'', ''danger_full_system''}
                          then filter (\<lambda>c. c \<noteq> ''shell'') caps else caps);
                  caps = (if network = ''deny_all''
                          then filter (\<lambda>c. c \<notin> {''http'', ''web'', ''browser'', ''apps''}) caps else caps)
              in \<lparr>ip_enabled = True, ip_preset = preset_for_confirmation (in_confirmation sel),
                  ip_capabilities = ordered_capabilities caps, ip_file_access = access, ip_scope = scope,
                  ip_sandbox = sandbox, ip_commands = commands, ip_network = network\<rparr>))"

section \<open>The stored row\<close>

definition default_policy :: "string \<Rightarrow> profile_policy" where
  "default_policy profile_id = \<lparr>pl_profile = profile_id, pl_enabled = True, pl_preset = ''medium'',
     pl_capabilities = strings [], pl_iterations_main = default_llm_max_iterations,
     pl_iterations_subagent = default_llm_max_iterations, pl_allowed_tools = strings [],
     pl_denied_tools = strings [], pl_allowed_dirs = strings [], pl_sandbox = ''disabled'',
     pl_shell_allowed = strings [], pl_shell_denied = strings [], pl_network = strings []\<rparr>"

type_synonym policies = "string \<Rightarrow> profile_policy option"

definition get_or_create_default :: "policies \<Rightarrow> string \<Rightarrow> profile_policy" where
  "get_or_create_default policies profile_id =
     (case policies profile_id of Some row \<Rightarrow> row | None \<Rightarrow> default_policy profile_id)"

definition or_text :: "string \<Rightarrow> string \<Rightarrow> string" where
  "or_text s d = (if s = [] then d else s)"

definition sorted_texts :: "(string \<Rightarrow> string) \<Rightarrow> string list \<Rightarrow> policy_list" where
  "sorted_texts f items = strings (sort (remdups (map f (filter (\<lambda>item. strip item \<noteq> []) items))))"

record policy_args =
  pg_enabled :: bool
  pg_preset :: "string option"
  pg_capabilities :: "string list"
  pg_file_access :: string
  pg_allowed_dirs :: "string list"
  pg_sandbox :: string
  pg_commands :: "string list"
  pg_network :: "string list"

definition apply_resolved_policy ::
    "policies \<Rightarrow> string \<Rightarrow> resolved_policy \<Rightarrow> string list \<Rightarrow> string list \<Rightarrow> policy_args \<Rightarrow> policies" where
  "apply_resolved_policy policies profile_id resolved allowed_tools allowed_dirs args =
     policies(profile_id \<mapsto> (get_or_create_default policies profile_id)
       \<lparr>pl_enabled := rp_enabled resolved,
        pl_preset := or_text (strip (preset_value (rp_preset resolved))) ''medium'',
        pl_capabilities := strings (map capability_value (rp_capabilities resolved)),
        pl_iterations_main := max 1 (rp_iterations_main resolved),
        pl_iterations_subagent := max 0 (rp_iterations_subagent resolved),
        pl_allowed_tools := strings allowed_tools,
        pl_allowed_dirs := sorted_texts strip allowed_dirs,
        pl_sandbox := or_text (lower (strip (pg_sandbox args))) ''disabled'',
        pl_shell_allowed := sorted_texts strip (pg_commands args),
        pl_denied_tools := strings [],
        pl_network := sorted_texts (\<lambda>item. lower (strip item)) (pg_network args)\<rparr>)"

text \<open>The policy part of \<open>ProfileService.create\<close>.\<close>

definition create_profile_policy ::
    "file_system \<Rightarrow> string \<Rightarrow> string \<Rightarrow> string list \<Rightarrow> policies \<Rightarrow> string \<Rightarrow> policy_args \<Rightarrow> policies res" where
  "create_profile_policy fs root_dir profile_root available policies profile_id args =
     bindE (parse_preset_level (case pg_preset args of None \<Rightarrow> ''medium'' | Some p \<Rightarrow> or_text p ''medium'')) (\<lambda>preset.
     bindE (parse_capability_ids (pg_capabilities args)) (\<lambda>capabilities.
       let resolved = resolve_policy
             \<lparr>ps_enabled = pg_enabled args, ps_preset = preset, ps_capabilities = capabilities\<rparr> available;
           allowed = apply_file_access_mode (rp_allowed resolved) (pg_file_access args) in
       bindE (if pg_allowed_dirs args \<noteq> [] then Inr (pg_allowed_dirs args)
              else default_allowed_directories fs root_dir profile_root) (\<lambda>dirs.
         Inr (apply_resolved_policy policies profile_id resolved allowed dirs args))))"

text \<open>The arguments the wizard hands over for its mapped answers.\<close>

definition wizard_args :: "intent_selection \<Rightarrow> string list \<Rightarrow> string list \<Rightarrow> policy_args" where
  "wizard_args sel dirs network =
     (let p = map_profile_intent_to_policy sel in
      \<lparr>pg_enabled = ip_enabled p, pg_preset = Some (ip_preset p), pg_capabilities = ip_capabilities p,
       pg_file_access = ip_file_access p, pg_allowed_dirs = dirs, pg_sandbox = ip_sandbox p,
       pg_commands = ip_commands p, pg_network = network\<rparr>)"

section \<open>What a stored row lets through\<close>

lemma parse_strings: "parse_string_set (strings xs) = Inr (uniq_first [] (filter (\<lambda>s. s \<noteq> []) (map strip xs)))"
  by (simp add: parse_string_set_def strings_def py_str_def comp_def)

lemma tool_rule_matches_strip [simp]: "tool_rule_matches (strip r) t \<longleftrightarrow> tool_rule_matches r t"
  by (simp add: tool_rule_matches_def)

lemma tool_rule_matches_blank: "strip r = [] \<Longrightarrow> \<not> tool_rule_matches r t"
  by (simp add: tool_rule_matches_def)

lemma stored_lists_admit:
  assumes "pl_denied_tools row = strings []" and "pl_allowed_tools row = strings xs"
  shows "enforce_tool_lists row t [] = Inr () \<longleftrightarrow> (\<forall>x \<in> set xs. strip x = []) \<or> (\<exists>x \<in> set xs. tool_rule_matches x t)"
proof -
  let ?ys = "uniq_first [] (filter (\<lambda>s. s \<noteq> []) (map strip xs))"
  have ys: "set ?ys = {y \<in> strip ` set xs. y \<noteq> []}" by (auto simp: set_uniq_first)
  have "?ys = [] \<longleftrightarrow> set ?ys = {}" by simp
  then have empty: "?ys = [] \<longleftrightarrow> (\<forall>x \<in> set xs. strip x = [])" unfolding ys by auto
  have rule: "(\<exists>r \<in> set ?ys. tool_rule_matches r t) \<longleftrightarrow> (\<exists>x \<in> set xs. tool_rule_matches x t)"
    unfolding ys using tool_rule_matches_blank by fastforce
  show ?thesis
    unfolding enforce_tool_lists_iff assms parse_strings using empty rule by simp
qed

definition tool_name_ok :: "string \<Rightarrow> bool" where
  "tool_name_ok t \<longleftrightarrow> t \<noteq> [] \<and> strip t = t \<and> last t \<noteq> CHR ''*''"

lemma tool_name_matches: "tool_name_ok t \<Longrightarrow> tool_rule_matches t x \<longleftrightarrow> x = t"
  by (simp add: tool_name_ok_def tool_rule_matches_def)

lemma mcp_rule: "tool_rule_matches ''mcp.*'' t \<longleftrightarrow> has_prefix ''mcp.'' t" and strip_mcp: "strip ''mcp.*'' = ''mcp.*''"
proof -
  show "strip ''mcp.*'' = ''mcp.*''" by code_simp
  then show "tool_rule_matches ''mcp.*'' t \<longleftrightarrow> has_prefix ''mcp.'' t" by (simp add: tool_rule_matches_def)
qed

text \<open>The available tools a selection keeps, after the file access mode.\<close>

definition hidden_tools :: "string \<Rightarrow> string list" where
  "hidden_tools mode =
     (let m = lower (strip mode) in
      if m = ''read_only'' then file_mutating_tools
      else if m = ''none'' then file_read_only_tools @ file_mutating_tools else [])"

definition selects :: "capability list \<Rightarrow> string \<Rightarrow> string \<Rightarrow> bool" where
  "selects caps mode t \<longleftrightarrow>
     t \<notin> set (hidden_tools mode) \<and> (\<exists>c \<in> set caps. c \<in> set capability_order \<and> matches_capability c t)"

lemma apply_mode_set: "set (apply_file_access_mode xs mode) = {x \<in> set xs. x \<notin> set (hidden_tools mode)}"
  by (auto simp: apply_file_access_mode_def hidden_tools_def Let_def)

lemma resolve_policy_allowed:
  "set (rp_allowed (resolve_policy sel available)) =
     {t \<in> set available. \<exists>c \<in> set (ps_capabilities sel). c \<in> set capability_order \<and> matches_capability c t}
     \<union> (if C_Mcp \<in> set (ps_capabilities sel) then {''mcp.*''} else {})"
  by (auto simp: resolve_policy_def Let_def list_ex_iff)

lemma mcp_not_hidden: "''mcp.*'' \<notin> set (hidden_tools mode)"
  by (simp add: hidden_tools_def file_read_only_tools_def file_mutating_tools_def Let_def)

lemma apply_resolved_fields:
  "apply_resolved_policy policies pid resolved allowed dirs args pid = Some row \<Longrightarrow>
     pl_denied_tools row = strings [] \<and> pl_allowed_tools row = strings allowed \<and> pl_enabled row = rp_enabled resolved"
  by (auto simp: apply_resolved_policy_def)

lemma create_policy_row:
  assumes "create_profile_policy fs root profile available policies pid args = Inr policies'"
  obtains caps allowed row where "parse_capability_ids (pg_capabilities args) = Inr caps"
    and "policies' pid = Some row" and "pl_enabled row = pg_enabled args"
    and "pl_denied_tools row = strings []" and "pl_allowed_tools row = strings allowed"
    and "set allowed = {t \<in> set available. selects caps (pg_file_access args) t}
           \<union> (if C_Mcp \<in> set caps then {''mcp.*''} else {})"
proof -
  from assms obtain preset caps dirs where caps: "parse_capability_ids (pg_capabilities args) = Inr caps"
    and fin: "policies' = apply_resolved_policy policies pid
        (resolve_policy \<lparr>ps_enabled = pg_enabled args, ps_preset = preset, ps_capabilities = caps\<rparr> available)
        (apply_file_access_mode (rp_allowed (resolve_policy
           \<lparr>ps_enabled = pg_enabled args, ps_preset = preset, ps_capabilities = caps\<rparr> available)) (pg_file_access args))
        dirs args"
    unfolding create_profile_policy_def Let_def by (elim bindE_InrE) (rule that, assumption, erule sum.inject(2) [THEN iffD1, symmetric])
  let ?resolved = "resolve_policy \<lparr>ps_enabled = pg_enabled args, ps_preset = preset, ps_capabilities = caps\<rparr> available"
  let ?allowed = "apply_file_access_mode (rp_allowed ?resolved) (pg_file_access args)"
  have some: "policies' pid = Some (the (policies' pid))" by (simp add: fin apply_resolved_policy_def)
  have enabled: "rp_enabled ?resolved = pg_enabled args" by (simp add: resolve_policy_def Let_def)
  have "set ?allowed = {t \<in> set available. selects caps (pg_file_access args) t}
           \<union> (if C_Mcp \<in> set caps then {''mcp.*''} else {})"
    unfolding apply_mode_set resolve_policy_allowed using mcp_not_hidden [of "pg_file_access args"] by (auto simp: selects_def)
  with that [OF caps some] apply_resolved_fields [of policies pid ?resolved ?allowed dirs args] some enabled
  show ?thesis by (metis fin)
qed

text \<open>A profile created from a selection of capabilities lets a tool through exactly when an available tool
  of a selected capability that the file access mode keeps has its name, or the MCP capability is
  selected and the name starts with \<open>mcp.\<close> -- or when the selection keeps no tool at all, for an
  empty list of allowed tools means that every tool is allowed.\<close>

lemma stored_policy_admits:
  assumes created: "create_profile_policy fs root profile available policies pid args = Inr policies'"
    and names: "\<forall>t \<in> set available. tool_name_ok t"
  shows "\<exists>caps row. parse_capability_ids (pg_capabilities args) = Inr caps \<and> policies' pid = Some row
    \<and> (enforce_tool_lists row tool [] = Inr () \<longleftrightarrow>
         (tool \<in> set available \<and> selects caps (pg_file_access args) tool)
         \<or> (C_Mcp \<in> set caps \<and> has_prefix ''mcp.'' tool)
         \<or> (C_Mcp \<notin> set caps \<and> \<not> (\<exists>t \<in> set available. selects caps (pg_file_access args) t)))"
proof -
  obtain caps allowed row
    where caps: "parse_capability_ids (pg_capabilities args) = Inr caps" and row: "policies' pid = Some row"
    and lists: "pl_denied_tools row = strings []" "pl_allowed_tools row = strings allowed"
    and allowed: "set allowed = {t \<in> set available. selects caps (pg_file_access args) t}
           \<union> (if C_Mcp \<in> set caps then {''mcp.*''} else {})"
    by (rule create_policy_row [OF created])
  have blank: "(\<forall>x \<in> set allowed. strip x = []) \<longleftrightarrow>
      C_Mcp \<notin> set caps \<and> \<not> (\<exists>t \<in> set available. selects caps (pg_file_access args) t)"
    unfolding allowed using names strip_mcp by (auto simp: tool_name_ok_def)
  have rule: "(\<exists>x \<in> set allowed. tool_rule_matches x tool) \<longleftrightarrow>
      (tool \<in> set available \<and> selects caps (pg_file_access args) tool) \<or> (C_Mcp \<in> set caps \<and> has_prefix ''mcp.'' tool)"
    unfolding allowed using names by (auto simp: tool_name_matches mcp_rule)
  from caps row stored_lists_admit [OF lists, of tool] blank rule show ?thesis by blast
qed

section \<open>Capabilities of the wizard\<close>

definition wizard_capabilities :: "capability list" where
  "wizard_capabilities = filter (\<lambda>c. c \<noteq> C_Debug) capability_order"

lemma uniq_first_distinct: "distinct xs \<Longrightarrow> set xs \<inter> set seen = {} \<Longrightarrow> uniq_first seen xs = xs"
  by (induction xs arbitrary: seen) auto

lemma ordered_capabilities_values:
  "ordered_capabilities names = map capability_value (filter (\<lambda>c. capability_value c \<in> set names) wizard_capabilities)"
proof -
  have "[''files'', ''shell'', ''memory'', ''credentials'', ''subagents'', ''automation'', ''taskflow'', ''http'',
        ''web'', ''browser'', ''skills'', ''apps'', ''mcp''] = map capability_value wizard_capabilities"
    by code_simp
  then show ?thesis by (simp only: ordered_capabilities_def filter_map comp_def)
qed

lemma capability_of_value_value: "c \<in> set wizard_capabilities \<Longrightarrow> capability_of_value (capability_value c) = Inr c"
proof -
  have "list_all (\<lambda>c. capability_of_value (capability_value c) = Inr c) wizard_capabilities" by code_simp
  then show "c \<in> set wizard_capabilities \<Longrightarrow> capability_of_value (capability_value c) = Inr c" by (simp add: list_all_iff)
qed

lemma strip_capability_value:
  "c \<in> set wizard_capabilities \<Longrightarrow> capability_value c \<noteq> [] \<and> lower (strip (capability_value c)) = capability_value c"
proof -
  have "list_all (\<lambda>c. capability_value c \<noteq> [] \<and> lower (strip (capability_value c)) = capability_value c) wizard_capabilities"
    by code_simp
  then show "c \<in> set wizard_capabilities \<Longrightarrow> ?thesis" by (simp add: list_all_iff)
qed

lemma mapE_values: "set cs \<subseteq> set wizard_capabilities \<Longrightarrow> mapE capability_of_value (map capability_value cs) = Inr cs"
  by (induction cs) (simp_all add: capability_of_value_value)

lemma parse_ordered_capabilities:
  "parse_capability_ids (ordered_capabilities names) =
     Inr (filter (\<lambda>c. capability_value c \<in> set names) wizard_capabilities)"
proof -
  let ?cs = "filter (\<lambda>c. capability_value c \<in> set names) wizard_capabilities"
  have same: "map (\<lambda>raw. lower (strip raw)) (map capability_value cs) = map capability_value cs"
    and kept: "filter (\<lambda>v. v \<noteq> []) (map capability_value cs) = map capability_value cs"
    if "set cs \<subseteq> set wizard_capabilities" for cs
    using that by (induction cs) (simp_all add: strip_capability_value)
  have "set ?cs \<subseteq> set wizard_capabilities" by auto
  note same [OF this] kept [OF this]
  moreover have "mapE capability_of_value (map capability_value ?cs) = Inr ?cs" by (rule mapE_values) auto
  moreover have "distinct ?cs" unfolding wizard_capabilities_def capability_order_def by (intro distinct_filter) simp
  then have "uniq_first [] ?cs = ?cs" by (simp add: uniq_first_distinct)
  ultimately show ?thesis
    unfolding parse_capability_ids_def ordered_capabilities_values by (simp only: bindE_simps)
qed

lemma set_add_capability [simp]: "set (add_capability v vs) = insert v (set vs)"
  by (auto simp: add_capability_def)

lemma set_fold_add: "set (fold add_capability items vs) = set items \<union> set vs"
  by (induction items arbitrary: vs) auto

lemma mem_add_if [simp]: "x \<in> set (add_if b items vs) \<longleftrightarrow> b \<and> x \<in> set items \<or> x \<in> set vs"
  by (simp add: add_if_def set_fold_add)

lemma isolation_cases:
  "normalized_isolation sel \<in> {''no_files'', ''profile_only'', ''project_read'', ''project_write'', ''profile_shell'',
     ''project_shell'', ''danger_full_system''}"
  by (simp add: normalized_isolation_def Let_def)

text \<open>What the wizard's answers grant.\<close>

definition grants_shell :: "intent_selection \<Rightarrow> bool" where
  "grants_shell sel \<longleftrightarrow>
     normalized_isolation sel \<in> {''profile_shell'', ''project_shell''}
     \<or> normalized_isolation sel = ''danger_full_system''
       \<and> (''shell_allowlist'' \<in> set (normalized_actions sel) \<or> ''afkbot_admin'' \<in> set (normalized_actions sel))"

definition grants_writing :: "intent_selection \<Rightarrow> bool" where
  "grants_writing sel \<longleftrightarrow>
     normalized_isolation sel \<in> {''project_write'', ''profile_shell'', ''project_shell'', ''danger_full_system''}
     \<or> normalized_isolation sel = ''profile_only'' \<and> ''sandbox_write'' \<in> set (normalized_actions sel)"

lemma mem_action_capabilities:
  "''memory'' \<in> set (action_capabilities depth actions isolation)"
  "''shell'' \<in> set (action_capabilities depth actions isolation) \<longleftrightarrow>
     depth = ''expert'' \<and> ''afkbot_admin'' \<in> set actions \<and> isolation = ''danger_full_system''"
  by (simp_all add: action_capabilities_def Let_def)

lemma mem_wizard_capabilities:
  fixes sel :: intent_selection
  defines "isolation \<equiv> normalized_isolation sel" and "actions \<equiv> normalized_actions sel"
  shows "v \<in> set (ip_capabilities (map_profile_intent_to_policy sel)) \<longleftrightarrow>
     v \<in> capability_value ` set wizard_capabilities
     \<and> v \<in> set (fst (apply_isolation isolation actions (action_capabilities (lower (strip (in_depth sel))) actions isolation)))
     \<and> \<not> (v = ''shell'' \<and> ''shell_allowlist'' \<in> set actions
            \<and> isolation \<notin> {''profile_shell'', ''project_shell'', ''danger_full_system''})
     \<and> \<not> (normalized_network sel = ''deny_all'' \<and> v \<in> {''http'', ''web'', ''browser'', ''apps''})"
  unfolding map_profile_intent_to_policy_def Let_def isolation_def actions_def
  by (auto simp: ordered_capabilities_values split: prod.split)

lemma wizard_capabilities_granted:
  "''memory'' \<in> set (ip_capabilities (map_profile_intent_to_policy sel))"
  "''shell'' \<in> set (ip_capabilities (map_profile_intent_to_policy sel)) \<longleftrightarrow> grants_shell sel"
  "''files'' \<in> set (ip_capabilities (map_profile_intent_to_policy sel)) \<longleftrightarrow> normalized_isolation sel \<noteq> ''no_files''"
proof -
  have known: "''memory'' \<in> capability_value ` set wizard_capabilities"
    "''shell'' \<in> capability_value ` set wizard_capabilities" "''files'' \<in> capability_value ` set wizard_capabilities"
    by (simp_all add: wizard_capabilities_def capability_order_def)
  show "''memory'' \<in> set (ip_capabilities (map_profile_intent_to_policy sel))"
    using isolation_cases [of sel] known
    by (auto simp: mem_wizard_capabilities apply_isolation_def Let_def mem_action_capabilities)
  show "''shell'' \<in> set (ip_capabilities (map_profile_intent_to_policy sel)) \<longleftrightarrow> grants_shell sel"
    using isolation_cases [of sel] known
    by (auto simp: mem_wizard_capabilities apply_isolation_def Let_def mem_action_capabilities grants_shell_def)
  show "''files'' \<in> set (ip_capabilities (map_profile_intent_to_policy sel)) \<longleftrightarrow> normalized_isolation sel \<noteq> ''no_files''"
    using isolation_cases [of sel] known
    by (auto simp: mem_wizard_capabilities apply_isolation_def Let_def mem_action_capabilities)
qed

lemma wizard_file_access:
  fixes sel :: intent_selection
  defines "hidden \<equiv> set (hidden_tools (ip_file_access (map_profile_intent_to_policy sel)))"
  shows "w \<in> {''file.write'', ''file.edit''} \<Longrightarrow> w \<notin> hidden \<longleftrightarrow> grants_writing sel"
    and "r \<in> {''file.list'', ''file.read'', ''file.search''} \<Longrightarrow> r \<notin> hidden \<longleftrightarrow> normalized_isolation sel \<noteq> ''no_files''"
proof -
  have "ip_file_access (map_profile_intent_to_policy sel) =
      (if grants_writing sel then ''read_write''
       else if normalized_isolation sel = ''no_files'' then ''none'' else ''read_only'')"
    using isolation_cases [of sel]
    by (auto simp: map_profile_intent_to_policy_def apply_isolation_def grants_writing_def Let_def)
  moreover have "lower (strip ''read_write'') = ''read_write''" "lower (strip ''none'') = ''none''"
    "lower (strip ''read_only'') = ''read_only''"
    by code_simp+
  moreover have "grants_writing sel \<Longrightarrow> normalized_isolation sel \<noteq> ''no_files''" by (auto simp: grants_writing_def)
  ultimately show "w \<in> {''file.write'', ''file.edit''} \<Longrightarrow> w \<notin> hidden \<longleftrightarrow> grants_writing sel"
    and "r \<in> {''file.list'', ''file.read'', ''file.search''} \<Longrightarrow> r \<notin> hidden \<longleftrightarrow> normalized_isolation sel \<noteq> ''no_files''"
    by (auto simp: hidden_def hidden_tools_def file_mutating_tools_def file_read_only_tools_def Let_def)
qed

text \<open>The capabilities that bring the tools of the shell, the files and the network.\<close>

lemma matches_bash: "matches_capability c ''bash.exec'' \<longleftrightarrow> c = C_Shell"
  by (cases c) (simp_all add: matches_capability_def)

lemma matches_file: "matches_capability c (''file.'' @ r) \<longleftrightarrow> c = C_Files"
  by (cases c) (simp_all add: matches_capability_def)

lemma matches_web: "matches_capability c (''web.'' @ r) \<longleftrightarrow> c = C_Web"
  by (cases c) (simp_all add: matches_capability_def)

lemma matches_http: "matches_capability c ''http.request'' \<longleftrightarrow> c = C_Http"
  and matches_browser: "matches_capability c ''browser.control'' \<longleftrightarrow> c = C_Browser"
  by (cases c; simp add: matches_capability_def)+

lemma prefix_decomp: "has_prefix p t \<Longrightarrow> \<exists>r. t = p @ r"
  by (metis append_take_drop_id has_prefix.simps)

lemma matches_memory: "has_prefix ''memory.'' t \<Longrightarrow> matches_capability C_Memory t"
  by (simp add: matches_capability_def)

definition wizard_caps :: "intent_selection \<Rightarrow> capability list" where
  "wizard_caps sel =
     filter (\<lambda>c. capability_value c \<in> set (ip_capabilities (map_profile_intent_to_policy sel))) wizard_capabilities"

lemma parse_wizard_caps:
  "parse_capability_ids (ip_capabilities (map_profile_intent_to_policy sel)) = Inr (wizard_caps sel)"
proof -
  have "\<exists>names. ip_capabilities (map_profile_intent_to_policy sel) = ordered_capabilities names"
    unfolding map_profile_intent_to_policy_def Let_def by (auto split: prod.split)
  then obtain names where names: "ip_capabilities (map_profile_intent_to_policy sel) = ordered_capabilities names" by blast
  have "c \<in> set wizard_capabilities \<Longrightarrow>
      capability_value c \<in> set (ordered_capabilities names) \<longleftrightarrow> capability_value c \<in> set names" for c
    by (auto simp: ordered_capabilities_values)
  then have "wizard_caps sel = filter (\<lambda>c. capability_value c \<in> set names) wizard_capabilities"
    unfolding wizard_caps_def names by (intro filter_cong) auto
  then show ?thesis unfolding names parse_ordered_capabilities by simp
qed

lemma mem_wizard_caps:
  "c \<in> set (wizard_caps sel) \<longleftrightarrow>
     c \<in> set wizard_capabilities \<and> capability_value c \<in> set (ip_capabilities (map_profile_intent_to_policy sel))"
  by (auto simp: wizard_caps_def)

lemma wizard_caps_known: "c \<in> set (wizard_caps sel) \<Longrightarrow> c \<in> set capability_order"
  by (simp add: mem_wizard_caps wizard_capabilities_def)

lemma wizard_row_admits:
  assumes created: "create_profile_policy fs root profile available policies pid (wizard_args sel dirs network) = Inr policies'"
    and names: "\<forall>t \<in> set available. tool_name_ok t" and memory: "\<exists>t \<in> set available. has_prefix ''memory.'' t"
  shows "\<exists>row. policies' pid = Some row
    \<and> (\<forall>tool. \<not> has_prefix ''mcp.'' tool \<longrightarrow> (enforce_tool_lists row tool [] = Inr () \<longleftrightarrow>
           tool \<in> set available \<and> tool \<notin> set (hidden_tools (ip_file_access (map_profile_intent_to_policy sel)))
           \<and> (\<exists>c \<in> set (wizard_caps sel). matches_capability c tool)))"
proof -
  let ?mode = "ip_file_access (map_profile_intent_to_policy sel)"
  have args: "pg_capabilities (wizard_args sel dirs network) = ip_capabilities (map_profile_intent_to_policy sel)"
    "pg_file_access (wizard_args sel dirs network) = ?mode"
    by (simp_all add: wizard_args_def Let_def)
  obtain t where t: "t \<in> set available" "has_prefix ''memory.'' t" using memory by blast
  have cap: "C_Memory \<in> set (wizard_caps sel)"
    using wizard_capabilities_granted(1) by (simp add: mem_wizard_caps wizard_capabilities_def capability_order_def)
  have "t \<notin> set (hidden_tools ?mode)"
    using prefix_decomp [OF t(2)] by (auto simp: hidden_tools_def file_mutating_tools_def file_read_only_tools_def Let_def)
  with cap matches_memory [OF t(2)] wizard_caps_known have kept: "selects (wizard_caps sel) ?mode t"
    unfolding selects_def by blast
  have all: "\<exists>row. policies' pid = Some row \<and> (enforce_tool_lists row tool [] = Inr () \<longleftrightarrow>
       tool \<in> set available \<and> selects (wizard_caps sel) ?mode tool
       \<or> C_Mcp \<in> set (wizard_caps sel) \<and> has_prefix ''mcp.'' tool)" for tool
    using stored_policy_admits [OF created names, of tool] t(1) kept unfolding args parse_wizard_caps by auto
  then obtain row where row: "policies' pid = Some row" by blast
  have "enforce_tool_lists row tool [] = Inr () \<longleftrightarrow>
      tool \<in> set available \<and> tool \<notin> set (hidden_tools ?mode) \<and> (\<exists>c \<in> set (wizard_caps sel). matches_capability c tool)"
    if "\<not> has_prefix ''mcp.'' tool" for tool
    using all [of tool] row that wizard_caps_known by (auto simp: selects_def)
  with row show ?thesis by blast
qed

text \<open>C36 The wizard's answers hold at the tool lists of the gate, on an installation that offers some memory tool (the
  wizard always selects the memory, and a selection that keeps no tool would let every tool through): a profile
  created from them is let through to \<open>bash.exec\<close> exactly when the isolation grants a shell, to the tools that
  change files, \<open>file.write\<close> and \<open>file.edit\<close>, exactly when it grants writing, to those that list, read and search
  files exactly when it is not \<open>no_files\<close>, under which no file tool passes at all, and to neither the web tools, HTTP
  requests nor the browser when the network is denied.\<close>

theorem wizard_answers_enforced:
  assumes created: "create_profile_policy fs root profile available policies pid (wizard_args sel dirs network) = Inr policies'"
    and names: "\<forall>t \<in> set available. tool_name_ok t" and memory: "\<exists>t \<in> set available. has_prefix ''memory.'' t"
  shows "\<exists>row. policies' pid = Some row
    \<and> (enforce_tool_lists row ''bash.exec'' [] = Inr () \<longleftrightarrow> ''bash.exec'' \<in> set available \<and> grants_shell sel)
    \<and> (\<forall>w \<in> {''file.write'', ''file.edit''}. enforce_tool_lists row w [] = Inr () \<longleftrightarrow> w \<in> set available \<and> grants_writing sel)
    \<and> (\<forall>r \<in> {''file.list'', ''file.read'', ''file.search''}.
         enforce_tool_lists row r [] = Inr () \<longleftrightarrow> r \<in> set available \<and> normalized_isolation sel \<noteq> ''no_files'')
    \<and> (normalized_isolation sel = ''no_files'' \<longrightarrow> (\<forall>r. enforce_tool_lists row (''file.'' @ r) [] \<noteq> Inr ()))
    \<and> (normalized_network sel = ''deny_all'' \<longrightarrow> enforce_tool_lists row ''http.request'' [] \<noteq> Inr ()
         \<and> enforce_tool_lists row ''browser.control'' [] \<noteq> Inr ()
         \<and> (\<forall>r. enforce_tool_lists row (''web.'' @ r) [] \<noteq> Inr ()))"
proof -
  obtain row where row: "policies' pid = Some row"
    and admits: "\<And>tool. \<not> has_prefix ''mcp.'' tool \<Longrightarrow> enforce_tool_lists row tool [] = Inr () \<longleftrightarrow>
           tool \<in> set available \<and> tool \<notin> set (hidden_tools (ip_file_access (map_profile_intent_to_policy sel)))
           \<and> (\<exists>c \<in> set (wizard_caps sel). matches_capability c tool)"
    using wizard_row_admits [OF assms] by blast
  have known: "C_Shell \<in> set wizard_capabilities" "C_Files \<in> set wizard_capabilities"
    by (simp_all add: wizard_capabilities_def capability_order_def)
  have shell: "C_Shell \<in> set (wizard_caps sel) \<longleftrightarrow> grants_shell sel"
    and files: "C_Files \<in> set (wizard_caps sel) \<longleftrightarrow> normalized_isolation sel \<noteq> ''no_files''"
    using known wizard_capabilities_granted by (simp_all add: mem_wizard_caps)
  have file_tool: "enforce_tool_lists row (''file.'' @ r) [] = Inr () \<longleftrightarrow> ''file.'' @ r \<in> set available
      \<and> ''file.'' @ r \<notin> set (hidden_tools (ip_file_access (map_profile_intent_to_policy sel))) \<and> normalized_isolation sel \<noteq> ''no_files''" for r
    using admits [of "''file.'' @ r"] files matches_file [of _ r] by auto
  have "grants_writing sel \<Longrightarrow> normalized_isolation sel \<noteq> ''no_files''" by (auto simp: grants_writing_def)
  then have writes: "\<forall>w \<in> {''file.write'', ''file.edit''}. enforce_tool_lists row w [] = Inr () \<longleftrightarrow> w \<in> set available \<and> grants_writing sel"
    using file_tool [of "''write''"] file_tool [of "''edit''"] wizard_file_access(1) [of _ sel] by auto
  have reads: "\<forall>r \<in> {''file.list'', ''file.read'', ''file.search''}.
      enforce_tool_lists row r [] = Inr () \<longleftrightarrow> r \<in> set available \<and> normalized_isolation sel \<noteq> ''no_files''"
    using file_tool [of "''list''"] file_tool [of "''read''"] file_tool [of "''search''"] wizard_file_access(2) [of _ sel] by auto
  have "''bash.exec'' \<notin> set (hidden_tools mode)" for mode
    by (simp add: hidden_tools_def file_mutating_tools_def file_read_only_tools_def Let_def)
  then have bash: "enforce_tool_lists row ''bash.exec'' [] = Inr () \<longleftrightarrow> ''bash.exec'' \<in> set available \<and> grants_shell sel"
    using admits [of "''bash.exec''"] shell by (simp add: matches_bash)
  have no_files: "enforce_tool_lists row (''file.'' @ r) [] \<noteq> Inr ()" if "normalized_isolation sel = ''no_files''" for r
    using admits [of "''file.'' @ r"] files that matches_file [of _ r] by auto
  have "c \<notin> set (wizard_caps sel)" if "normalized_network sel = ''deny_all''" "c \<in> {C_Http, C_Web, C_Browser}" for c
    using that by (auto simp: mem_wizard_caps mem_wizard_capabilities)
  then have none: "C_Http \<notin> set (wizard_caps sel) \<and> C_Browser \<notin> set (wizard_caps sel) \<and> C_Web \<notin> set (wizard_caps sel)"
    if "normalized_network sel = ''deny_all''"
    using that by simp
  have http: "enforce_tool_lists row ''http.request'' [] = Inr () \<longrightarrow> C_Http \<in> set (wizard_caps sel)"
    using admits [of "''http.request''"] by (simp add: matches_http)
  have browser: "enforce_tool_lists row ''browser.control'' [] = Inr () \<longrightarrow> C_Browser \<in> set (wizard_caps sel)"
    using admits [of "''browser.control''"] by (simp add: matches_browser)
  have "enforce_tool_lists row (''web.'' @ r) [] = Inr () \<longrightarrow> C_Web \<in> set (wizard_caps sel)" for r
    using admits [of "''web.'' @ r"] matches_web [of _ r] by simp
  with none http browser have deny: "enforce_tool_lists row ''http.request'' [] \<noteq> Inr ()
      \<and> enforce_tool_lists row ''browser.control'' [] \<noteq> Inr () \<and> (\<forall>r. enforce_tool_lists row (''web.'' @ r) [] \<noteq> Inr ())"
    if "normalized_network sel = ''deny_all''"
    using that by blast
  show ?thesis
    by (rule exI [of _ row], intro conjI impI allI row bash writes reads no_files deny [THEN conjunct1]
        deny [THEN conjunct2, THEN conjunct1] deny [THEN conjunct2, THEN conjunct2, rule_format])
qed

text \<open>A profile whose selection of capabilities is empty, under an enabled policy, lets every tool through
  the gate, although an explicitly empty selection is meant to allow none.\<close>

theorem empty_selection_admits_every_tool:
  assumes created: "create_profile_policy fs root profile available policies pid args = Inr policies'"
    and "pg_capabilities args = []"
  shows "\<exists>row. policies' pid = Some row \<and> pl_enabled row = pg_enabled args \<and> enforce_tool_lists row tool [] = Inr ()"
proof -
  obtain caps allowed row where caps: "parse_capability_ids (pg_capabilities args) = Inr caps"
    and row: "policies' pid = Some row" "pl_enabled row = pg_enabled args"
    and lists: "pl_denied_tools row = strings []" "pl_allowed_tools row = strings allowed"
    and allowed: "set allowed = {t \<in> set available. selects caps (pg_file_access args) t}
           \<union> (if C_Mcp \<in> set caps then {''mcp.*''} else {})"
    by (rule create_policy_row [OF created])
  from caps assms(2) have "caps = []" by (simp add: parse_capability_ids_def)
  with allowed have "allowed = []" by (simp add: selects_def)
  with row stored_lists_admit [OF lists] show ?thesis by simp
qed

section \<open>Workspace scopes read back\<close>

text \<open>What resolving a path promises: proper components, a fixed point, and \<open>~\<close> only at the front.\<close>

definition file_system_ok :: "file_system \<Rightarrow> bool" where
  "file_system_ok fs \<longleftrightarrow>
     (\<forall>s. \<forall>c \<in> set (fs_resolve fs s). c \<noteq> [] \<and> CHR ''/'' \<notin> set c)
     \<and> (\<forall>s. fs_resolve fs (path_text (fs_resolve fs s)) = fs_resolve fs s)
     \<and> (\<forall>s. has_prefix ''/'' s \<longrightarrow> fs_expand fs s = s) \<and> fs_resolve fs ''/'' = []"

lemma path_text_inject:
  assumes "\<forall>c \<in> set p. c \<noteq> [] \<and> CHR ''/'' \<notin> set c" and "\<forall>c \<in> set q. c \<noteq> [] \<and> CHR ''/'' \<notin> set c"
  shows "path_text p = path_text q \<longleftrightarrow> p = q"
proof
  assume "path_text p = path_text q"
  then have eq: "join_with ''/'' p = join_with ''/'' q" by (simp add: path_text_def)
  have none: "join_with ''/'' r = [] \<Longrightarrow> r = []" if "\<forall>c \<in> set r. c \<noteq> [] \<and> CHR ''/'' \<notin> set c" for r
    using that by (cases r; cases "tl r") auto
  show "p = q"
  proof (cases "p = [] \<or> q = []")
    case True
    then have "join_with ''/'' p = []" using eq by auto
    then show ?thesis using eq none [OF assms(1)] none [OF assms(2)] by simp
  next
    case False
    then have "p \<noteq> []" "q \<noteq> []" by blast+
    have slashes: "\<forall>w \<in> set p. CHR ''/'' \<notin> set w" "\<forall>w \<in> set q. CHR ''/'' \<notin> set w" using assms by blast+
    have "p = split_on (CHR ''/'') (join_with ''/'' p)" by (rule split_on_join [OF \<open>p \<noteq> []\<close> slashes(1), symmetric])
    also have "\<dots> = split_on (CHR ''/'') (join_with ''/'' q)" by (rule arg_cong [OF eq])
    also have "\<dots> = q" by (rule split_on_join [OF \<open>q \<noteq> []\<close> slashes(2)])
    finally show ?thesis .
  qed
qed simp

lemma resolved_inject:
  "file_system_ok fs \<Longrightarrow> path_text (fs_resolve fs s) = path_text (fs_resolve fs t) \<longleftrightarrow> fs_resolve fs s = fs_resolve fs t"
  by (rule path_text_inject) (simp_all add: file_system_ok_def)

lemma strip_path_text: "strip (path_text p) \<noteq> []"
proof -
  have "\<not> is_space (CHR ''/'')" by (simp add: is_space_def code_pt_def)
  then show ?thesis using rstrip_through [of "CHR ''/''" "[]"] by (simp add: path_text_def strip_def lstrip_def)
qed

lemma expanded_resolved:
  assumes "file_system_ok fs" and "\<forall>d \<in> set dirs. \<exists>s. d = path_text (fs_resolve fs s)"
  shows "map path_text (expanded_roots fs dirs) = dirs"
  using assms(2)
proof (induction dirs)
  case Nil
  then show ?case by (simp add: expanded_roots_def)
next
  case (Cons d dirs)
  then obtain s where d: "d = path_text (fs_resolve fs s)" by auto
  have "has_prefix ''/'' d" by (simp add: d path_text_def)
  then have "fs_resolve fs (fs_expand fs d) = fs_resolve fs s" using assms(1) by (simp add: file_system_ok_def d)
  moreover have "strip d \<noteq> []" by (simp add: d strip_path_text)
  ultimately show ?case using Cons by (simp add: expanded_roots_def d)
qed

lemma profile_root_resolved: "\<exists>s. profile_root_of fs root profile = fs_resolve fs s"
  unfolding profile_root_of_def by metis

lemma expanded_roots_resolved: "r \<in> set (expanded_roots fs items) \<Longrightarrow> \<exists>s. r = fs_resolve fs s"
  by (auto simp: expanded_roots_def)

lemma normalize_resolved:
  assumes "file_system_ok fs" and "\<forall>r \<in> set roots. \<exists>s. r = fs_resolve fs s"
  shows "normalize_allowed_directories fs roots = uniq_first [] (map path_text roots)"
proof -
  have "map (\<lambda>p. path_text (fs_resolve fs (path_text p))) roots = map path_text roots"
    using assms by (auto simp: file_system_ok_def)
  then show ?thesis by (simp only: normalize_allowed_directories_def)
qed

lemma distinct_single: "distinct xs \<Longrightarrow> xs = [x] \<longleftrightarrow> set xs = {x}"
  by (cases xs; cases "tl xs") auto

text \<open>The scope that the texts of resolved roots read as.\<close>

lemma infer_resolved:
  assumes fs: "file_system_ok fs" and roots: "\<forall>r \<in> set roots. \<exists>s. r = fs_resolve fs s" and "roots \<noteq> []"
    and dirs: "dirs = uniq_first [] (map path_text roots)"
  shows "infer_workspace_scope_mode fs root profile dirs =
    (if [] \<in> set roots then ''full_system''
     else if set roots = {profile_root_of fs root profile} then ''profile_only''
     else if set roots = {fs_resolve fs root} then ''project_only''
     else if set roots = {profile_root_of fs root profile, fs_resolve fs root} then ''profile_and_project'' else ''custom'')"
proof -
  let ?P = "profile_root_of fs root profile" and ?J = "fs_resolve fs root"
  let ?U = "range (fs_resolve fs)"
  have slash: "fs_resolve fs ''/'' = []" using fs by (simp add: file_system_ok_def)
  have inj: "inj_on path_text ?U" using resolved_inject [OF fs] by (auto intro: inj_onI)
  have U: "set roots \<subseteq> ?U" "?P \<in> ?U" "?J \<in> ?U" "[] \<in> ?U"
    using roots profile_root_resolved [of fs root profile] slash [symmetric] by auto
  have set_dirs: "set dirs = path_text ` set roots" by (simp add: dirs set_uniq_first)
  have image: "path_text ` set roots = path_text ` T \<longleftrightarrow> set roots = T" if "T \<subseteq> ?U" for T
    by (rule inj_on_image_eq_iff [OF inj U(1) that])
  have "distinct dirs" by (simp add: dirs)
  note single = distinct_single [OF this, unfolded set_dirs]
  have "\<forall>d \<in> set dirs. \<exists>s. d = path_text (fs_resolve fs s)" unfolding set_dirs using roots by auto
  from expanded_resolved [OF fs this]
  have "uniq_first [] (map path_text (expanded_roots fs dirs)) = dirs"
    by (simp add: uniq_first_distinct \<open>distinct dirs\<close>)
  moreover have "dirs \<noteq> []" using set_dirs assms(3) by auto
  moreover have "path_text [] \<in> set dirs \<longleftrightarrow> [] \<in> set roots"
    unfolding set_dirs by (rule inj_on_image_mem_iff [OF inj U(4) U(1)])
  moreover have "dirs = [path_text ?P] \<longleftrightarrow> set roots = {?P}" using single image [of "{?P}"] U(2) by simp
  moreover have "dirs = [path_text ?J] \<longleftrightarrow> set roots = {?J}" using single image [of "{?J}"] U(3) by simp
  moreover have "set dirs = {path_text ?P, path_text ?J} \<longleftrightarrow> set roots = {?P, ?J}"
    unfolding set_dirs using image [of "{?P, ?J}"] U(2,3) by simp
  ultimately show ?thesis unfolding infer_workspace_scope_mode_def Let_def slash by simp
qed

text \<open>The directories stored for a workspace scope read back as that scope, when the profile and the project
  are two directories below the root; a custom scope reads back as custom exactly when its
  directories are more than the profile's and the project's and not the whole system.\<close>

theorem scope_mode_reads_back:
  assumes fs: "file_system_ok fs"
    and stored: "resolve_allowed_directories_for_scope_mode fs root profile mode customs = Inr dirs"
    and proper: "profile_root_of fs root profile \<noteq> []" "fs_resolve fs root \<noteq> []"
      "profile_root_of fs root profile \<noteq> fs_resolve fs root"
  shows "infer_workspace_scope_mode fs root profile dirs =
    (if lower (strip mode) \<noteq> ''custom'' then lower (strip mode)
     else if [] \<in> set (expanded_roots fs customs) then ''full_system''
     else if set (expanded_roots fs customs) \<subseteq> {profile_root_of fs root profile} then ''profile_only''
     else if set (expanded_roots fs customs) \<subseteq> {profile_root_of fs root profile, fs_resolve fs root}
     then ''profile_and_project'' else ''custom'')"
proof -
  let ?P = "profile_root_of fs root profile" and ?J = "fs_resolve fs root" and ?R = "expanded_roots fs customs"
  let ?m = "lower (strip mode)"
  have slash: "fs_resolve fs ''/'' = []" using fs by (simp add: file_system_ok_def)
  have P: "\<exists>s. ?P = fs_resolve fs s" and J: "\<exists>s. ?J = fs_resolve fs s" and top: "\<exists>s. [] = fs_resolve fs s"
    using profile_root_resolved slash by metis+
  have R: "\<forall>r \<in> set (?P # ?R). \<exists>s. r = fs_resolve fs s" using P expanded_roots_resolved by auto
  have PJ: "\<forall>r \<in> set [?P, ?J]. \<exists>s. r = fs_resolve fs s" using P J by auto
  have "bindE (normalize_workspace_scope_mode mode) f = Inr x \<Longrightarrow> ?m \<in> set workspace_scope_modes \<and> f ?m = Inr x"
    for f and x :: "string list"
    by (auto simp: normalize_workspace_scope_mode_def value_error_def service_error_def Let_def split: if_splits)
  note this [OF stored [unfolded resolve_allowed_directories_for_scope_mode_def]]
  then have mode: "?m \<in> set workspace_scope_modes"
    and dirs: "dirs = (if ?m = ''full_system'' then [path_text []] else if ?m = ''project_only'' then [path_text ?J]
       else if ?m = ''profile_and_project'' then normalize_allowed_directories fs [?P, ?J]
       else if ?m = ''custom'' then normalize_allowed_directories fs (?P # ?R) else [path_text ?P])"
    unfolding Let_def slash by simp_all
  have one: "infer_workspace_scope_mode fs root profile [path_text r] =
      (if r = [] then ''full_system'' else if r = ?P then ''profile_only'' else if r = ?J then ''project_only''
       else if {r} = {?P, ?J} then ''profile_and_project'' else ''custom'')"
    if "\<exists>s. r = fs_resolve fs s" for r
    using infer_resolved [OF fs, of "[r]"] that by auto
  consider "?m = ''full_system''" | "?m = ''profile_only''" | "?m = ''project_only''" | "?m = ''profile_and_project''" | "?m = ''custom''"
    using mode by (auto simp: workspace_scope_modes_def)
  then show ?thesis
  proof cases
    case 4
    then have "dirs = uniq_first [] (map path_text [?P, ?J])" using dirs normalize_resolved [OF fs PJ] by simp
    from infer_resolved [OF fs PJ _ this] proper 4 show ?thesis by auto
  next
    case 5
    then have "dirs = uniq_first [] (map path_text (?P # ?R))" using dirs normalize_resolved [OF fs R] by simp
    from infer_resolved [OF fs R _ this] proper 5 show ?thesis by auto
  qed (use dirs one [OF P] one [OF J] one [OF top] proper in simp_all)
qed

section \<open>Examples\<close>

definition example_files :: file_system where
  "example_files = \<lparr>fs_resolve = (\<lambda>s. filter (\<lambda>p. p \<noteq> []) (split_on (CHR ''/'') s)), fs_expand = (\<lambda>s. s)\<rparr>"

lemma split_on_pieces: "\<forall>w \<in> set (split_on c s). c \<notin> set w"
proof (induction s)
  case (Cons d s)
  then show ?case by (cases "split_on c s") auto
qed simp

lemma example_files_ok: "file_system_ok example_files"
proof -
  let ?resolve = "\<lambda>s. filter (\<lambda>p. p \<noteq> []) (split_on (CHR ''/'') s)"
  have pieces: "\<forall>w \<in> set (?resolve s). w \<noteq> [] \<and> CHR ''/'' \<notin> set w" for s using split_on_pieces by auto
  have "?resolve (path_text (?resolve s)) = ?resolve s" for s
  proof (cases "?resolve s = []")
    case True
    then show ?thesis unfolding True by (simp add: path_text_def)
  next
    case False
    let ?ps = "?resolve s"
    have "split_on (CHR ''/'') (join_with ''/'' ?ps) = ?ps" using pieces by (intro split_on_join [OF False]) blast
    then have "split_on (CHR ''/'') (path_text ?ps) = [] # ?ps" by (simp add: path_text_def)
    moreover have "filter (\<lambda>p. p \<noteq> []) ([] # ?ps) = ?ps" by simp
    ultimately show ?thesis by (simp only:)
  qed
  with pieces show ?thesis unfolding file_system_ok_def example_files_def by auto
qed

definition example_answers :: intent_selection where
  "example_answers = \<lparr>in_depth = ''guided'', in_contexts = [], in_actions = [''reply'', ''project_write'', ''shell_allowlist''],
     in_isolation = ''project_write'', in_confirmation = ''balanced'', in_network = ''deny_all'', in_allowlist = []\<rparr>"

definition example_tools :: "string list" where
  "example_tools = [''bash.exec'', ''file.write'', ''http.request'', ''memory.search'']"

lemma example_created:
  "\<exists>policies. create_profile_policy example_files ''/work'' ''p'' example_tools Map.empty ''p''
     (wizard_args example_answers [''/work''] []) = Inr policies"
proof -
  have "parse_preset_level (preset_for_confirmation (in_confirmation example_answers)) = Inr Medium" by code_simp
  moreover have "preset_for_confirmation (in_confirmation example_answers) \<noteq> []" by (simp add: preset_for_confirmation_def Let_def)
  moreover have "ip_preset (map_profile_intent_to_policy example_answers) = preset_for_confirmation (in_confirmation example_answers)"
    unfolding map_profile_intent_to_policy_def Let_def by (auto split: prod.split)
  ultimately show ?thesis
    using parse_wizard_caps [of example_answers]
    by (simp add: create_profile_policy_def wizard_args_def Let_def or_text_def)
qed

theorem wizard_answers_enforced_witness:
  "\<exists>policies row. create_profile_policy example_files ''/work'' ''p'' example_tools Map.empty ''p''
     (wizard_args example_answers [''/work''] []) = Inr policies \<and> policies ''p'' = Some row
     \<and> enforce_tool_lists row ''file.write'' [] = Inr () \<and> enforce_tool_lists row ''bash.exec'' [] \<noteq> Inr ()
     \<and> enforce_tool_lists row ''http.request'' [] \<noteq> Inr ()"
proof -
  obtain policies where created: "create_profile_policy example_files ''/work'' ''p'' example_tools Map.empty ''p''
     (wizard_args example_answers [''/work''] []) = Inr policies"
    using example_created by blast
  have names: "list_all tool_name_ok example_tools" and memory: "list_ex (has_prefix ''memory.'') example_tools" by code_simp+
  have facts: "\<not> grants_shell example_answers" "grants_writing example_answers" "normalized_network example_answers = ''deny_all''"
    "''file.write'' \<in> set example_tools"
    by code_simp+
  have names': "\<forall>t \<in> set example_tools. tool_name_ok t" and memory': "\<exists>t \<in> set example_tools. has_prefix ''memory.'' t"
    using names memory by (simp_all add: list_all_iff list_ex_iff)
  from wizard_answers_enforced [OF created names' memory'] obtain row where row: "policies ''p'' = Some row"
    and bash: "enforce_tool_lists row ''bash.exec'' [] = Inr () \<longleftrightarrow> ''bash.exec'' \<in> set example_tools \<and> grants_shell example_answers"
    and writes: "\<forall>w \<in> {''file.write'', ''file.edit''}. enforce_tool_lists row w [] = Inr () \<longleftrightarrow> w \<in> set example_tools \<and> grants_writing example_answers"
    and deny: "normalized_network example_answers = ''deny_all'' \<longrightarrow> enforce_tool_lists row ''http.request'' [] \<noteq> Inr ()
         \<and> enforce_tool_lists row ''browser.control'' [] \<noteq> Inr () \<and> (\<forall>r. enforce_tool_lists row (''web.'' @ r) [] \<noteq> Inr ())"
    by (elim exE conjE) (rule that)
  have "enforce_tool_lists row ''file.write'' [] = Inr ()" using writes facts(2,4) by simp
  moreover have "enforce_tool_lists row ''bash.exec'' [] \<noteq> Inr ()" using bash facts(1) by simp
  moreover have "enforce_tool_lists row ''http.request'' [] \<noteq> Inr ()" by (rule deny [rule_format, THEN conjunct1]) (rule facts(3))
  ultimately show ?thesis using created row by (intro exI [of _ policies] exI [of _ row] conjI)
qed

theorem empty_selection_admits_every_tool_witness:
  "\<exists>policies row. create_profile_policy example_files ''/work'' ''p'' example_tools Map.empty ''p''
       \<lparr>pg_enabled = True, pg_preset = None, pg_capabilities = [], pg_file_access = ''none'', pg_allowed_dirs = [''/work''],
        pg_sandbox = ''disabled'', pg_commands = [], pg_network = []\<rparr> = Inr policies
     \<and> policies ''p'' = Some row \<and> pl_enabled row \<and> enforce_tool_lists row ''bash.exec'' [] = Inr ()"
proof -
  let ?args = "\<lparr>pg_enabled = True, pg_preset = None, pg_capabilities = [], pg_file_access = ''none'', pg_allowed_dirs = [''/work''],
        pg_sandbox = ''disabled'', pg_commands = [], pg_network = []\<rparr>"
  have "parse_preset_level ''medium'' = Inr Medium" by code_simp
  then obtain policies where created:
      "create_profile_policy example_files ''/work'' ''p'' example_tools Map.empty ''p'' ?args = Inr policies"
    by (simp add: create_profile_policy_def parse_capability_ids_def Let_def)
  from empty_selection_admits_every_tool [OF created, of "''bash.exec''"] created show ?thesis by auto
qed

theorem scope_mode_reads_back_witness:
  "infer_workspace_scope_mode example_files ''/work'' ''p'' [''/work/p'', ''/work''] = ''profile_and_project''"
proof -
  have "resolve_allowed_directories_for_scope_mode example_files ''/work'' ''p'' '' Profile_And_Project'' [] =
      Inr [''/work/p'', ''/work'']" by code_simp
  moreover have "profile_root_of example_files ''/work'' ''p'' = [''work'', ''p'']" "fs_resolve example_files ''/work'' = [''work'']"
    "lower (strip '' Profile_And_Project'') = ''profile_and_project''"
    by code_simp+
  ultimately show ?thesis using scope_mode_reads_back [OF example_files_ok] by fastforce
qed

end
