(* ===== verification/Session_Ids.thy ===== *)
theory Session_Ids
  imports Py_Values
begin

text \<open>
  Session identifiers (services/session_ids.py): percent-encoded fragments joined by colons, cut to 64
  characters with a digest behind when they are longer. \<open>sha\<close> is the hexadecimal SHA-256 of a
  string. The encoding is reversible, and a composed identifier determines its fragments.
\<close>

section \<open>Percent encoding\<close>

text \<open>\<open>quote(value, safe="")\<close>: the UTF-8 bytes of a character that is not unreserved.\<close>

definition unreserved :: "char \<Rightarrow> bool" where
  "unreserved c \<longleftrightarrow> is_ascii_lower c \<or> is_ascii_upper c \<or> is_ascii_digit c
     \<or> c \<in> {CHR ''_'', CHR ''.'', CHR ''-'', CHR 0x7E}"

definition upper_hex :: "nat \<Rightarrow> char" where
  "upper_hex d = (if d < 10 then char_of (48 + d) else char_of (55 + d))"

definition percent :: "nat \<Rightarrow> string" where
  "percent byte = [CHR ''%'', upper_hex (byte div 16), upper_hex (byte mod 16)]"

definition encode_char :: "char \<Rightarrow> string" where
  "encode_char c =
     (let n = code_pt c in
      if unreserved c then [c]
      else if n < 128 then percent n
      else percent (192 + n div 64) @ percent (128 + n mod 64))"

definition encode_session_component :: "string \<Rightarrow> string" where
  "encode_session_component s = concat (map encode_char s)"

section \<open>Bounded composition\<close>

definition max_session_id_length :: nat where
  "max_session_id_length = 64"

definition hash_hex_length :: nat where
  "hash_hex_length = 12"

definition rstrip_colon :: "string \<Rightarrow> string" where
  "rstrip_colon s = rev (dropWhile (\<lambda>c. c = CHR '':'') (rev s))"

definition bounded_id :: "(string \<Rightarrow> string) \<Rightarrow> nat \<Rightarrow> string \<Rightarrow> string" where
  "bounded_id sha max_length raw =
     (if length raw \<le> max_length then raw
      else (let suffix = '':h:'' @ take hash_hex_length (sha raw);
                budget = max 1 (max_length - length suffix);
                prefix = rstrip_colon (take budget raw)
            in (if prefix = [] then take budget raw else prefix) @ suffix))"

definition compose_bounded_session_id :: "(string \<Rightarrow> string) \<Rightarrow> nat \<Rightarrow> string list \<Rightarrow> string" where
  "compose_bounded_session_id sha max_length parts =
     bounded_id sha max_length (join_with '':'' (filter (\<lambda>p. p \<noteq> []) (map strip parts)))"

section \<open>The encoding is reversible\<close>

lemma code_pt_upper_hex: "d < 16 \<Longrightarrow> code_pt (upper_hex d) = (if d < 10 then 48 + d else 55 + d)"
  by (simp add: upper_hex_def)

lemma upper_hex_inject:
  assumes "a < 16" and "b < 16" and "upper_hex a = upper_hex b"
  shows "a = b"
proof -
  have "code_pt (upper_hex a) = code_pt (upper_hex b)" using assms(3) by simp
  then show ?thesis unfolding code_pt_upper_hex [OF assms(1)] code_pt_upper_hex [OF assms(2)] by (simp split: if_splits)
qed

lemma percent_inject:
  assumes "a < 256" and "b < 256" and "percent a @ r = percent b @ s"
  shows "a = b \<and> r = s"
proof -
  have "upper_hex (a div 16) = upper_hex (b div 16)" "upper_hex (a mod 16) = upper_hex (b mod 16)" "r = s"
    using assms(3) by (simp_all add: percent_def)
  moreover have "a div 16 < 16" "b div 16 < 16" "a mod 16 < 16" "b mod 16 < 16" using assms(1,2) by simp_all
  ultimately have "a div 16 = b div 16" "a mod 16 = b mod 16" "r = s" using upper_hex_inject by blast+
  then show ?thesis by (metis div_mult_mod_eq)
qed

lemma percent_not_unreserved: "\<not> unreserved (CHR ''%'')"
  by (simp add: unreserved_def is_ascii_lower_def is_ascii_upper_def is_ascii_digit_def code_pt_def)

lemma encode_char_prefix:
  assumes "encode_char c @ r = encode_char d @ s"
  shows "c = d \<and> r = s"
proof -
  let ?m = "code_pt c" and ?n = "code_pt d"
  have bytes: "192 + ?m div 64 < 256" "128 + ?m mod 64 < 256" "192 + ?n div 64 < 256" "128 + ?n mod 64 < 256"
    using code_pt_less [of c] code_pt_less [of d] by linarith+
  have head: "percent b @ t = CHR ''%'' # u \<longleftrightarrow> u = [upper_hex (b div 16), upper_hex (b mod 16)] @ t" for b t u
    by (auto simp: percent_def)
  consider "unreserved c \<or> unreserved d" | "\<not> unreserved c" "\<not> unreserved d" "?m < 128" "?n < 128"
    | "\<not> unreserved c" "\<not> unreserved d" "?m < 128" "128 \<le> ?n" | "\<not> unreserved c" "\<not> unreserved d" "128 \<le> ?m" "?n < 128"
    | "\<not> unreserved c" "\<not> unreserved d" "128 \<le> ?m" "128 \<le> ?n" by linarith
  then show ?thesis
  proof cases
    case 1
    then show ?thesis
      using assms percent_not_unreserved by (auto simp: encode_char_def Let_def percent_def split: if_splits)
  next
    case 2
    then have "percent ?m @ r = percent ?n @ s" using assms by (simp add: encode_char_def)
    from percent_inject [OF _ _ this] show ?thesis by (simp add: code_pt_inject)
  next
    case 3
    then have "percent ?m @ r = percent (192 + ?n div 64) @ percent (128 + ?n mod 64) @ s"
      using assms by (simp add: encode_char_def Let_def)
    from percent_inject [OF _ bytes(3) this] 3 show ?thesis by simp
  next
    case 4
    then have "percent (192 + ?m div 64) @ percent (128 + ?m mod 64) @ r = percent ?n @ s"
      using assms by (simp add: encode_char_def Let_def)
    from percent_inject [OF bytes(1) _ this] 4 show ?thesis by simp
  next
    case 5
    then have eq: "percent (192 + ?m div 64) @ percent (128 + ?m mod 64) @ r
        = percent (192 + ?n div 64) @ percent (128 + ?n mod 64) @ s"
      using assms by (simp add: encode_char_def Let_def)
    note one = percent_inject [OF bytes(1,3) eq]
    from one have "percent (128 + ?m mod 64) @ r = percent (128 + ?n mod 64) @ s" by blast
    from percent_inject [OF bytes(2,4) this] one have "?m div 64 = ?n div 64" "?m mod 64 = ?n mod 64" "r = s" by simp_all
    then have "?m = ?n" by (metis div_mult_mod_eq)
    then show ?thesis using \<open>r = s\<close> by (simp add: code_pt_inject)
  qed
qed

lemma encode_char_not_Nil [simp]: "encode_char c \<noteq> []"
  by (simp add: encode_char_def percent_def Let_def)

lemma encode_session_component_Nil [simp]: "encode_session_component s = [] \<longleftrightarrow> s = []"
  by (cases s) (simp_all add: encode_session_component_def)

lemma encode_session_component_inject [simp]: "encode_session_component s = encode_session_component t \<longleftrightarrow> s = t"
proof
  show "encode_session_component s = encode_session_component t \<Longrightarrow> s = t"
  proof (induction s arbitrary: t)
    case Nil
    then show ?case by (metis encode_session_component_Nil)
  next
    case (Cons c s)
    then obtain d t' where t: "t = d # t'" by (cases t) (auto simp: encode_session_component_def)
    have "encode_char c @ encode_session_component s = encode_char d @ encode_session_component t'"
      using Cons.prems by (simp add: t encode_session_component_def)
    from encode_char_prefix [OF this] Cons.IH show ?case by (simp add: t)
  qed
qed simp

text \<open>Encoded characters are neither colons nor white space.\<close>

definition plain_id_char :: "char \<Rightarrow> bool" where
  "plain_id_char c \<longleftrightarrow> c \<noteq> CHR '':'' \<and> \<not> is_space c"

lemma plain_id_char_code: "code_pt c \<in> {33..57} \<union> {59..126} \<Longrightarrow> plain_id_char c"
  by (auto simp: plain_id_char_def is_space_def code_pt_def Let_def)

lemma plain_id_char_upper_hex: "d < 16 \<Longrightarrow> plain_id_char (upper_hex d)"
  by (rule plain_id_char_code) (simp add: code_pt_upper_hex)

lemma plain_id_char_percent: "b < 256 \<Longrightarrow> \<forall>c \<in> set (percent b). plain_id_char c"
  using plain_id_char_upper_hex [of "b div 16"] plain_id_char_upper_hex [of "b mod 16"]
  by (simp add: percent_def plain_id_char_def is_space_def code_pt_def)

lemma plain_id_char_unreserved: "unreserved c \<Longrightarrow> plain_id_char c"
  by (rule plain_id_char_code) (auto simp: unreserved_def is_ascii_lower_def is_ascii_upper_def is_ascii_digit_def Let_def code_pt_def)

lemma plain_id_char_encode_char: "\<forall>x \<in> set (encode_char c). plain_id_char x"
proof -
  have "192 + code_pt c div 64 < 256" "128 + code_pt c mod 64 < 256" using code_pt_less [of c] by linarith+
  then show ?thesis
    using plain_id_char_percent [of "192 + code_pt c div 64"] plain_id_char_percent [of "128 + code_pt c mod 64"]
      plain_id_char_percent [of "code_pt c"] plain_id_char_unreserved [of c]
    by (auto simp: encode_char_def Let_def)
qed

lemma plain_id_char_encode: "\<forall>x \<in> set (encode_session_component s). plain_id_char x"
  using plain_id_char_encode_char by (auto simp: encode_session_component_def)

section \<open>Scopes\<close>

text \<open>
  What a composed identifier stands for: a list of fields with their values, as \<open>chat\<close> and the
  identifier of the chat.
\<close>

type_synonym scope = "(string \<times> string) list"

definition scope_tags :: "string list" where
  "scope_tags = [''profile'', ''chat'', ''thread'', ''user'']"

definition scope_tokens :: "scope \<Rightarrow> string list" where
  "scope_tokens scope = concat (map (\<lambda>(tag, v). [tag, encode_session_component v]) scope)"

definition scope_ok :: "scope \<Rightarrow> bool" where
  "scope_ok scope \<longleftrightarrow> scope \<noteq> [] \<and> (\<forall>(tag, v) \<in> set scope. tag \<in> set scope_tags \<and> v \<noteq> [])"

lemma split_on_append_any: "split_on c (a @ c # b) = split_on c a @ split_on c b"
proof (induction a)
  case (Cons x a)
  then show ?case by (cases "split_on c a") auto
qed simp

lemma scope_tokens_inject: "scope_tokens s = scope_tokens t \<longleftrightarrow> s = t"
proof
  show "scope_tokens s = scope_tokens t \<Longrightarrow> s = t"
  proof (induction s arbitrary: t)
    case Nil
    then show ?case by (cases t) (auto simp: scope_tokens_def)
  next
    case (Cons p s)
    then show ?case by (cases t; cases p) (auto simp: scope_tokens_def)
  qed
qed simp

lemma plain_tags: "tag \<in> set scope_tags \<Longrightarrow> tag \<noteq> [] \<and> (\<forall>c \<in> set tag. plain_id_char c)"
proof -
  have "list_all (\<lambda>tag. tag \<noteq> [] \<and> list_all plain_id_char tag) scope_tags" by code_simp
  then show "tag \<in> set scope_tags \<Longrightarrow> tag \<noteq> [] \<and> (\<forall>c \<in> set tag. plain_id_char c)" by (simp add: list_all_iff)
qed

lemma scope_tokens_plain:
  assumes "scope_ok s" and "t \<in> set (scope_tokens s)"
  shows "t \<noteq> [] \<and> (\<forall>c \<in> set t. plain_id_char c)"
proof -
  from assms(2) obtain tag v where mem: "(tag, v) \<in> set s" and t: "t = tag \<or> t = encode_session_component v"
    unfolding scope_tokens_def by auto
  from assms(1) mem have "tag \<in> set scope_tags" "v \<noteq> []" by (auto simp: scope_ok_def)
  with t plain_tags plain_id_char_encode show ?thesis by (elim disjE) simp_all
qed

lemma scope_tokens_last:
  assumes "scope_ok s"
  shows "\<exists>xs tag v. scope_tokens s = xs @ [tag, v] \<and> tag \<in> set scope_tags"
proof -
  have "s \<noteq> []" using assms by (simp add: scope_ok_def)
  then obtain s' p where s: "s = s' @ [p]" by (cases s rule: rev_exhaust) blast+
  then have "fst p \<in> set scope_tags" using assms by (auto simp: scope_ok_def)
  moreover have "scope_tokens s = scope_tokens s' @ [fst p, encode_session_component (snd p)]"
    by (simp add: s scope_tokens_def split: prod.split)
  ultimately show ?thesis by blast
qed

lemma plain_strip: "\<forall>c \<in> set t. plain_id_char c \<Longrightarrow> strip t = t"
  by (rule strip_no_space) (auto simp: plain_id_char_def)

lemma compose_plain:
  assumes "\<forall>t \<in> set ts. t \<noteq> [] \<and> strip t = t"
  shows "compose_bounded_session_id sha n ts = bounded_id sha n (join_with '':'' ts)"
proof -
  have "filter (\<lambda>p. p \<noteq> []) (map strip ts) = ts" using assms by (induction ts) auto
  then show ?thesis by (simp add: compose_bounded_session_id_def)
qed

lemma compose_scope: "scope_ok s \<Longrightarrow>
    compose_bounded_session_id sha n (scope_tokens s) = bounded_id sha n (join_with '':'' (scope_tokens s))"
  using scope_tokens_plain plain_strip by (intro compose_plain) blast

lemma scope_tokens_not_Nil: "scope_ok s \<Longrightarrow> scope_tokens s \<noteq> []"
  using scope_tokens_last by fastforce

lemma split_raw: "scope_ok s \<Longrightarrow> split_on (CHR '':'') (join_with '':'' (scope_tokens s)) = scope_tokens s"
  by (rule split_on_join [OF scope_tokens_not_Nil]) (use scope_tokens_plain in \<open>auto simp: plain_id_char_def\<close>)

lemma raw_inject:
  assumes "scope_ok s" and "scope_ok t" and "join_with '':'' (scope_tokens s) = join_with '':'' (scope_tokens t)"
  shows "s = t"
  using split_raw [OF assms(1)] split_raw [OF assms(2)] assms(3) scope_tokens_inject by metis

section \<open>Bounded identifiers\<close>

text \<open>What the code relies on of the digest: 64 characters, none of them a colon or white space.\<close>

definition digest_ok :: "(string \<Rightarrow> string) \<Rightarrow> bool" where
  "digest_ok sha \<longleftrightarrow> (\<forall>s. length (sha s) = 64 \<and> (\<forall>c \<in> set (sha s). plain_id_char c))"

definition short_digest :: "(string \<Rightarrow> string) \<Rightarrow> string \<Rightarrow> string" where
  "short_digest sha s = take hash_hex_length (sha s)"

lemma short_digest_props:
  "digest_ok sha \<Longrightarrow> length (short_digest sha s) = 12 \<and> CHR '':'' \<notin> set (short_digest sha s)"
  by (auto simp: digest_ok_def short_digest_def hash_hex_length_def plain_id_char_def dest: in_set_takeD)

definition bounded_prefix :: "string \<Rightarrow> string" where
  "bounded_prefix raw = (if rstrip_colon (take 49 raw) = [] then take 49 raw else rstrip_colon (take 49 raw))"

lemma bounded_id_short: "length raw \<le> 64 \<Longrightarrow> bounded_id sha 64 raw = raw"
  by (simp add: bounded_id_def)

lemma bounded_id_long:
  assumes "digest_ok sha" and "64 < length raw"
  shows "bounded_id sha 64 raw = bounded_prefix raw @ '':h:'' @ short_digest sha raw"
proof -
  have "length (short_digest sha raw) = 12" using short_digest_props [OF assms(1)] by blast
  then show ?thesis using assms(2) by (simp add: bounded_id_def bounded_prefix_def short_digest_def Let_def)
qed

lemma rstrip_colon_decomp: "\<exists>k. s = rstrip_colon s @ replicate k (CHR '':'')"
proof -
  let ?cs = "takeWhile (\<lambda>c. c = CHR '':'') (rev s)"
  have "rev s = ?cs @ dropWhile (\<lambda>c. c = CHR '':'') (rev s)" by simp
  then have "s = rstrip_colon s @ rev ?cs" unfolding rstrip_colon_def by (metis rev_append rev_rev_ident)
  moreover have "rev ?cs = replicate (length ?cs) (CHR '':'')"
    using replicate_length_same [of ?cs "CHR '':''"] by (metis rev_replicate set_takeWhileD)
  ultimately show ?thesis by metis
qed

lemma bounded_prefix_le: "length (bounded_prefix raw) \<le> 49"
proof -
  obtain k where "take 49 raw = rstrip_colon (take 49 raw) @ replicate k (CHR '':'')" using rstrip_colon_decomp by blast
  then have "length (rstrip_colon (take 49 raw)) \<le> length (take 49 raw)" by (metis length_append le_add1)
  then show ?thesis by (simp add: bounded_prefix_def)
qed

text \<open>A composed session identifier has at most 64 characters, whatever the parts.\<close>

lemma session_id_bounded:
  assumes digest: "digest_ok sha"
  shows "length (compose_bounded_session_id sha max_session_id_length parts) \<le> max_session_id_length"
proof -
  have "length (bounded_id sha 64 raw) \<le> 64" for raw
  proof (cases "64 < length raw")
    case True
    then show ?thesis
      using bounded_prefix_le [of raw] short_digest_props [OF digest] by (simp add: bounded_id_long [OF digest])
  qed (simp add: bounded_id_short)
  then show ?thesis by (simp add: compose_bounded_session_id_def max_session_id_length_def)
qed

text \<open>Fields are not empty, so at most one colon is cut off, and a cut identifier has at least 63 characters.\<close>

lemma raw_no_double_colon:
  assumes "scope_ok s"
  shows "join_with '':'' (scope_tokens s) \<noteq> u @ ''::'' @ v"
proof
  assume "join_with '':'' (scope_tokens s) = u @ ''::'' @ v"
  then have "scope_tokens s = split_on (CHR '':'') (u @ CHR '':'' # [] @ CHR '':'' # v)" using split_raw [OF assms] by simp
  then have "[] \<in> set (scope_tokens s)" unfolding split_on_append_any by simp
  with scope_tokens_plain [OF assms] show False by blast
qed

lemma bounded_prefix_ge:
  assumes "scope_ok s" and long: "64 < length (join_with '':'' (scope_tokens s))"
  shows "48 \<le> length (bounded_prefix (join_with '':'' (scope_tokens s)))"
proof -
  let ?raw = "join_with '':'' (scope_tokens s)"
  obtain k where k: "take 49 ?raw = rstrip_colon (take 49 ?raw) @ replicate k (CHR '':'')" using rstrip_colon_decomp by blast
  have "k \<le> 1"
  proof (rule ccontr)
    assume "\<not> k \<le> 1"
    then obtain j where "k = Suc (Suc j)" by (metis Suc_le_D not_less_eq_eq One_nat_def)
    then have "replicate k (CHR '':'') = ''::'' @ replicate j (CHR '':'')" by simp
    then have "?raw = rstrip_colon (take 49 ?raw) @ ''::'' @ (replicate j (CHR '':'') @ drop 49 ?raw)"
      using k append_take_drop_id [of 49 ?raw] by (metis append.assoc)
    with raw_no_double_colon [OF assms(1)] show False by blast
  qed
  have "length (take 49 ?raw) = length (rstrip_colon (take 49 ?raw)) + k" using arg_cong [OF k, of length] by simp
  with \<open>k \<le> 1\<close> long show ?thesis by (auto simp: bounded_prefix_def)
qed

text \<open>An identifier that was cut is told from one that was not by its last two fields.\<close>

lemma split_bounded_long:
  assumes "digest_ok sha" and "64 < length raw"
  shows "split_on (CHR '':'') (bounded_id sha 64 raw)
    = split_on (CHR '':'') (bounded_prefix raw) @ [''h'', short_digest sha raw]"
proof -
  have 1: "split_on (CHR '':'') (short_digest sha raw) = [short_digest sha raw]"
    using short_digest_props [OF assms(1)] by (intro split_on_free) blast
  have 2: "split_on (CHR '':'') ''h'' = [''h'']" by (rule split_on_free) simp
  have 3: "split_on (CHR '':'') (''h'' @ CHR '':'' # short_digest sha raw) = [''h'', short_digest sha raw]"
    unfolding split_on_append_any 1 2 by simp
  have "bounded_id sha 64 raw = bounded_prefix raw @ CHR '':'' # (''h'' @ CHR '':'' # short_digest sha raw)"
    by (simp add: bounded_id_long [OF assms])
  then have "split_on (CHR '':'') (bounded_id sha 64 raw)
      = split_on (CHR '':'') (bounded_prefix raw) @ split_on (CHR '':'') (''h'' @ CHR '':'' # short_digest sha raw)"
    by (simp only: split_on_append_any)
  then show ?thesis unfolding 3 .
qed

lemma h_not_tag: "''h'' \<notin> set scope_tags"
  by (simp add: scope_tags_def)

lemma long_not_tokens:
  assumes "digest_ok sha" and "64 < length raw" and "scope_ok s"
  shows "split_on (CHR '':'') (bounded_id sha 64 raw) \<noteq> xs @ scope_tokens s"
proof
  assume "split_on (CHR '':'') (bounded_id sha 64 raw) = xs @ scope_tokens s"
  moreover obtain ys tag v where "scope_tokens s = ys @ [tag, v]" "tag \<in> set scope_tags" using scope_tokens_last [OF assms(3)] by blast
  ultimately show False using split_bounded_long [OF assms(1,2)] h_not_tag by simp
qed

lemma long_digest:
  assumes "digest_ok sha" and "64 < length a" and "64 < length b" and "bounded_id sha 64 a = bounded_id sha 64 b"
  shows "short_digest sha a = short_digest sha b"
  using split_bounded_long [OF assms(1,2)] split_bounded_long [OF assms(1,3)] assms(4) by simp

text \<open>The identifier of a scope determines it, when the digests of the two do not collide.\<close>

lemma scope_id_inject:
  assumes "digest_ok sha" and "scope_ok s" and "scope_ok t"
    and collision: "short_digest sha (join_with '':'' (scope_tokens s)) = short_digest sha (join_with '':'' (scope_tokens t))
      \<longrightarrow> join_with '':'' (scope_tokens s) = join_with '':'' (scope_tokens t)"
    and eq: "bounded_id sha 64 (join_with '':'' (scope_tokens s)) = bounded_id sha 64 (join_with '':'' (scope_tokens t))"
  shows "s = t"
proof -
  let ?a = "join_with '':'' (scope_tokens s)" and ?b = "join_with '':'' (scope_tokens t)"
  consider "64 < length ?a" "64 < length ?b" | "64 < length ?a" "length ?b \<le> 64" | "length ?a \<le> 64" "64 < length ?b"
    | "length ?a \<le> 64" "length ?b \<le> 64" by linarith
  then have "?a = ?b"
  proof cases
    case 1
    then show ?thesis using long_digest [OF assms(1) 1 eq] collision by blast
  next
    case 2
    then show ?thesis using long_not_tokens [OF assms(1) 2(1) assms(3), of "[]"] split_raw [OF assms(3)] eq by (simp add: bounded_id_short)
  next
    case 3
    then show ?thesis using long_not_tokens [OF assms(1) 3(2) assms(2), of "[]"] split_raw [OF assms(2)] eq by (simp add: bounded_id_short)
  next
    case 4
    then show ?thesis using eq by (simp add: bounded_id_short)
  qed
  then show ?thesis using raw_inject assms(2,3) by blast
qed

section \<open>Identifiers scoped by a profile\<close>

text \<open>An identifier behind the profile it belongs to, each composed for itself.\<close>

definition profile_raw :: "string \<Rightarrow> string \<Rightarrow> string" where
  "profile_raw profile_id session_id = join_with '':'' [''profile'', encode_session_component profile_id, session_id]"

lemma split_profile_raw:
  "split_on (CHR '':'') (profile_raw p i) = [''profile'', encode_session_component p] @ split_on (CHR '':'') i"
proof -
  have free: "split_on (CHR '':'') ''profile'' = [''profile'']"
    "split_on (CHR '':'') (encode_session_component p) = [encode_session_component p]"
    using plain_id_char_encode by (intro split_on_free; force simp: plain_id_char_def)+
  have "profile_raw p i = ''profile'' @ CHR '':'' # (encode_session_component p @ CHR '':'' # i)"
    by (simp add: profile_raw_def)
  then have "split_on (CHR '':'') (profile_raw p i)
      = split_on (CHR '':'') (''profile'' @ CHR '':'' # (encode_session_component p @ CHR '':'' # i))"
    by (rule arg_cong)
  then show ?thesis unfolding split_on_append_any free by simp
qed

lemma profile_raw_inject: "profile_raw p i = profile_raw q j \<Longrightarrow> p = q \<and> i = j"
proof -
  assume eq: "profile_raw p i = profile_raw q j"
  then have "[''profile'', encode_session_component p] @ split_on (CHR '':'') i
      = [''profile'', encode_session_component q] @ split_on (CHR '':'') j"
    using split_profile_raw by metis
  then have "p = q" by simp
  with eq show "p = q \<and> i = j" by (simp add: profile_raw_def)
qed

lemma length_profile_raw: "length (profile_raw p i) = 9 + length (encode_session_component p) + length i"
  by (simp add: profile_raw_def)

text \<open>A scoped identifier that was not cut holds one that was not cut.\<close>

lemma short_profile_tokens:
  assumes "digest_ok sha" and "scope_ok s" and "length (profile_raw p (bounded_id sha 64 (join_with '':'' (scope_tokens s)))) \<le> 64"
  shows "bounded_id sha 64 (join_with '':'' (scope_tokens s)) = join_with '':'' (scope_tokens s)"
proof (rule ccontr)
  let ?raw = "join_with '':'' (scope_tokens s)"
  assume "\<not> ?thesis"
  then have "64 < length ?raw" using bounded_id_short [of ?raw sha] by linarith
  then have "63 \<le> length (bounded_id sha 64 ?raw)"
    using bounded_prefix_ge [OF assms(2)] bounded_id_long [OF assms(1)] short_digest_props [OF assms(1)] by simp
  with assms(3) show False by (simp add: length_profile_raw)
qed

lemma profile_id_inject:
  fixes s t :: scope
  defines "a \<equiv> join_with '':'' (scope_tokens s)" and "b \<equiv> join_with '':'' (scope_tokens t)"
  assumes digest: "digest_ok sha" and scopes: "scope_ok s" "scope_ok t"
    and inner: "short_digest sha a = short_digest sha b \<longrightarrow> a = b"
    and outer: "short_digest sha (profile_raw p (bounded_id sha 64 a)) = short_digest sha (profile_raw q (bounded_id sha 64 b))
      \<longrightarrow> profile_raw p (bounded_id sha 64 a) = profile_raw q (bounded_id sha 64 b)"
    and eq: "bounded_id sha 64 (profile_raw p (bounded_id sha 64 a)) = bounded_id sha 64 (profile_raw q (bounded_id sha 64 b))"
  shows "p = q \<and> s = t"
proof -
  let ?A = "profile_raw p (bounded_id sha 64 a)" and ?B = "profile_raw q (bounded_id sha 64 b)"
  have short: "split_on (CHR '':'') (bounded_id sha 64 (profile_raw p' (bounded_id sha 64 (join_with '':'' (scope_tokens s')))))
      = [''profile'', encode_session_component p'] @ scope_tokens s'"
    if "scope_ok s'" "length (profile_raw p' (bounded_id sha 64 (join_with '':'' (scope_tokens s')))) \<le> 64" for p' s'
    using bounded_id_short [OF that(2), of sha] short_profile_tokens [OF digest that] split_profile_raw split_raw [OF that(1)] by simp
  consider "64 < length ?A" "64 < length ?B" | "64 < length ?A" "length ?B \<le> 64" | "length ?A \<le> 64" "64 < length ?B"
    | "length ?A \<le> 64" "length ?B \<le> 64" by linarith
  then have "?A = ?B"
  proof cases
    case 1
    then show ?thesis using long_digest [OF digest 1 eq] outer by blast
  next
    case 2
    then show ?thesis using short [OF scopes(2)] long_not_tokens [OF digest 2(1) scopes(2)] eq unfolding a_def b_def by metis
  next
    case 3
    then show ?thesis using short [OF scopes(1)] long_not_tokens [OF digest 3(2) scopes(1)] eq unfolding a_def b_def by metis
  next
    case 4
    then show ?thesis using eq by (simp add: bounded_id_short)
  qed
  then have "p = q" and "bounded_id sha 64 a = bounded_id sha 64 b" using profile_raw_inject by blast+
  with scope_id_inject [OF digest scopes] inner show ?thesis unfolding a_def b_def by blast
qed

lemma bounded_id_plain:
  assumes "digest_ok sha" and "\<forall>c \<in> set raw. \<not> is_space c"
  shows "strip (bounded_id sha 64 raw) = bounded_id sha 64 raw"
proof (rule strip_no_space)
  have digest: "\<forall>c \<in> set (short_digest sha raw). \<not> is_space c"
  proof
    fix c assume "c \<in> set (short_digest sha raw)"
    then have "c \<in> set (sha raw)" unfolding short_digest_def by (rule in_set_takeD)
    with assms(1) have "plain_id_char c" unfolding digest_ok_def by blast
    then show "\<not> is_space c" by (simp add: plain_id_char_def)
  qed
  have "set (bounded_prefix raw) \<subseteq> set raw"
  proof -
    obtain k where "take 49 raw = rstrip_colon (take 49 raw) @ replicate k (CHR '':'')" using rstrip_colon_decomp by blast
    then have "set (rstrip_colon (take 49 raw)) \<subseteq> set (take 49 raw)" by (metis Un_upper1 set_append)
    then show ?thesis using set_take_subset [of 49 raw] by (simp add: bounded_prefix_def subset_trans)
  qed
  moreover have "\<not> is_space (CHR '':'')" "\<not> is_space (CHR ''h'')" by (simp_all add: is_space_def code_pt_def)
  ultimately have "\<forall>c \<in> set (bounded_id sha 64 raw). \<not> is_space c"
    using digest assms(2) bounded_id_long [OF assms(1), of raw] bounded_id_short [of raw sha]
    by (cases "length raw \<le> 64") auto
  then show "\<forall>c \<in> set (bounded_id sha 64 raw). \<not> is_space c" .
qed

lemma set_join: "set (join_with '':'' ts) \<subseteq> insert (CHR '':'') (\<Union> (set ` set ts))"
  by (induction "'':''" ts rule: join_with.induct) auto

lemma scope_raw_plain:
  assumes "scope_ok s"
  shows "\<forall>c \<in> set (join_with '':'' (scope_tokens s)). \<not> is_space c"
proof
  fix c assume "c \<in> set (join_with '':'' (scope_tokens s))"
  then consider "c = CHR '':''" | t where "t \<in> set (scope_tokens s)" "c \<in> set t" using set_join by blast
  then show "\<not> is_space c"
  proof cases
    case 1
    then show ?thesis by (simp add: is_space_def code_pt_def)
  next
    case 2
    then show ?thesis using scope_tokens_plain [OF assms] by (auto simp: plain_id_char_def)
  qed
qed

end
