(* ===== verification/Routing.thy ===== *)
theory Routing
  imports Session_Ids Employees
begin

text \<open>
  Routing of inbound channel messages (services/channel_routing, repositories/channel_binding_repo.py):
  bindings from a transport context to a profile and a session policy, the choice of the best
  binding, the session it leads to, the fall-back of transports without one, and the counters of
  the outcomes.
\<close>

section \<open>Bindings\<close>

datatype session_policy = Main_Session | Per_Chat | Per_Thread | Per_User_In_Group

record binding_rule =
  cb_id :: string
  cb_transport :: string
  cb_profile :: string
  cb_policy :: session_policy
  cb_priority :: int
  cb_enabled :: bool
  cb_account :: "string option"
  cb_peer :: "string option"
  cb_thread :: "string option"
  cb_user :: "string option"
  cb_overlay :: "string option"

record routing_input =
  ri_transport :: string
  ri_account :: "string option"
  ri_peer :: "string option"
  ri_thread :: "string option"
  ri_user :: "string option"
  ri_default :: string

record routing_decision =
  cd_binding :: string
  cd_profile :: string
  cd_policy :: session_policy
  cd_session :: string
  cd_overlay :: "string option"

definition validation_error :: "'a res" where
  "validation_error = service_error ''validation_error''"

definition clean :: "string option \<Rightarrow> string option" where
  "clean v = text_or_none (strip (str_or_empty v))"

text \<open>The field validators of a rule, as run on a rule and again on a stored row.\<close>

definition validate_rule :: "binding_rule \<Rightarrow> binding_rule res" where
  "validate_rule r =
     (let transport = lower (strip (cb_transport r)); profile = strip (cb_profile r) in
      if cb_id r = [] \<or> transport = [] \<or> profile = [] then validation_error
      else Inr (r\<lparr>cb_transport := transport, cb_profile := profile, cb_account := clean (cb_account r),
                  cb_peer := clean (cb_peer r), cb_thread := clean (cb_thread r), cb_user := clean (cb_user r)\<rparr>))"

definition validate_input :: "routing_input \<Rightarrow> routing_input res" where
  "validate_input i =
     (let transport = lower (strip (ri_transport i)) in
      if transport = [] \<or> ri_default i = [] then validation_error
      else Inr (i\<lparr>ri_transport := transport, ri_account := clean (ri_account i), ri_peer := clean (ri_peer i),
                  ri_thread := clean (ri_thread i), ri_user := clean (ri_user i)\<rparr>))"

section \<open>The best binding\<close>

definition matches_field :: "string option \<Rightarrow> string option \<Rightarrow> bool" where
  "matches_field expected actual \<longleftrightarrow> expected = None \<or> expected = actual"

definition binding_matches :: "binding_rule \<Rightarrow> routing_input \<Rightarrow> bool" where
  "binding_matches b i \<longleftrightarrow>
     matches_field (cb_account b) (ri_account i) \<and> matches_field (cb_peer b) (ri_peer i)
     \<and> matches_field (cb_thread b) (ri_thread i) \<and> matches_field (cb_user b) (ri_user i)"

definition specificity :: "binding_rule \<Rightarrow> nat" where
  "specificity b = length (filter (\<lambda>v. v \<noteq> None) [cb_account b, cb_peer b, cb_thread b, cb_user b])"

definition binding_key :: "binding_rule \<Rightarrow> nat \<times> int \<times> string" where
  "binding_key b = (specificity b, cb_priority b, cb_id b)"

text \<open>\<open>max(xs, key=key)\<close>: the first of the greatest items.\<close>

fun max_from :: "('a \<Rightarrow> 'k::linorder) \<Rightarrow> 'a \<Rightarrow> 'a list \<Rightarrow> 'a" where
  "max_from key best [] = best"
| "max_from key best (x # xs) = max_from key (if key best < key x then x else best) xs"

definition applies :: "routing_input \<Rightarrow> binding_rule \<Rightarrow> bool" where
  "applies i b \<longleftrightarrow> cb_enabled b \<and> cb_transport b = ri_transport i \<and> binding_matches b i"

section \<open>The session\<close>

definition session_id :: "(string \<Rightarrow> string) \<Rightarrow> string list \<Rightarrow> string" where
  "session_id sha parts = compose_bounded_session_id sha max_session_id_length parts"

definition resolve_session_id :: "(string \<Rightarrow> string) \<Rightarrow> session_policy \<Rightarrow> routing_input \<Rightarrow> string" where
  "resolve_session_id sha policy i =
     (let peer = str_or_empty (ri_peer i); thread = str_or_empty (ri_thread i); user = str_or_empty (ri_user i);
          chat_part = [''chat'', encode_session_component peer];
          thread_part = [''thread'', encode_session_component thread];
          user_part = [''user'', encode_session_component user]
      in case policy of
           Main_Session \<Rightarrow> ri_default i
         | Per_Chat \<Rightarrow> if peer \<noteq> [] then session_id sha chat_part else ri_default i
         | Per_Thread \<Rightarrow>
             if peer \<noteq> [] \<and> thread \<noteq> [] then session_id sha (chat_part @ thread_part)
             else if peer \<noteq> [] then session_id sha chat_part
             else if thread \<noteq> [] then session_id sha thread_part
             else ri_default i
         | Per_User_In_Group \<Rightarrow>
             if peer \<noteq> [] \<and> thread \<noteq> [] \<and> user \<noteq> [] then session_id sha (chat_part @ thread_part @ user_part)
             else if peer \<noteq> [] \<and> user \<noteq> [] then session_id sha (chat_part @ user_part)
             else if user \<noteq> [] then session_id sha user_part
             else if peer \<noteq> [] then session_id sha chat_part
             else ri_default i)"

definition scope_binding_session_id :: "(string \<Rightarrow> string) \<Rightarrow> string \<Rightarrow> string \<Rightarrow> string" where
  "scope_binding_session_id sha profile_id sid =
     session_id sha [''profile'', encode_session_component profile_id, sid]"

definition decision_of :: "(string \<Rightarrow> string) \<Rightarrow> routing_input \<Rightarrow> binding_rule \<Rightarrow> routing_decision" where
  "decision_of sha i b =
     \<lparr>cd_binding = cb_id b, cd_profile = cb_profile b, cd_policy = cb_policy b,
      cd_session = scope_binding_session_id sha (cb_profile b) (resolve_session_id sha (cb_policy b) i),
      cd_overlay = cb_overlay b\<rparr>"

definition resolve_channel_binding ::
    "(string \<Rightarrow> string) \<Rightarrow> binding_rule list \<Rightarrow> routing_input \<Rightarrow> routing_decision option" where
  "resolve_channel_binding sha bindings i =
     (case filter (applies i) bindings of
        [] \<Rightarrow> None
      | b # bs \<Rightarrow> Some (decision_of sha i (max_from binding_key b bs)))"

section \<open>Transports\<close>

record routing_settings =
  rs_fallbacks :: "string list"
  rs_telemetry :: bool
  rs_history :: int

definition normalize_transport_name :: "string option \<Rightarrow> string option" where
  "normalize_transport_name transport = text_or_none (lower (strip (str_or_empty transport)))"

definition user_facing_transports :: "string list" where
  "user_facing_transports = [''telegram'', ''telegram_user'', ''discord'', ''slack'', ''smtp'', ''email'', ''partyflow'']"

definition is_user_facing_transport :: "string option \<Rightarrow> bool" where
  "is_user_facing_transport transport =
     (case normalize_transport_name transport of None \<Rightarrow> False | Some t \<Rightarrow> t \<in> set user_facing_transports)"

definition allow_binding_fallback :: "routing_settings \<Rightarrow> string option \<Rightarrow> bool" where
  "allow_binding_fallback cfg transport =
     (case normalize_transport_name transport of
        None \<Rightarrow> False
      | Some t \<Rightarrow> t \<in> set (map (\<lambda>item. lower (strip item)) (filter (\<lambda>item. strip item \<noteq> []) (rs_fallbacks cfg))))"

definition requires_strict_binding_match :: "routing_settings \<Rightarrow> string option \<Rightarrow> bool \<Rightarrow> bool" where
  "requires_strict_binding_match cfg transport require =
     (if require then True else \<not> allow_binding_fallback cfg transport)"

section \<open>The service\<close>

record selectors =
  se_transport :: "string option"
  se_account :: "string option"
  se_peer :: "string option"
  se_thread :: "string option"
  se_user :: "string option"

definition build_routing_selectors :: "selectors \<Rightarrow> selectors" where
  "build_routing_selectors s =
     \<lparr>se_transport = normalize_transport_name (se_transport s), se_account = clean (se_account s),
      se_peer = clean (se_peer s), se_thread = clean (se_thread s), se_user = clean (se_user s)\<rparr>"

record telemetry_event =
  te_transport :: string
  te_selectors :: selectors
  te_strict :: bool
  te_matched :: bool
  te_no_match :: bool
  te_fallback :: bool
  te_binding :: "string option"
  te_profile :: "string option"
  te_policy :: "session_policy option"
  te_overlay :: bool

datatype metric = M_Total | M_Matched | M_Fallback | M_No_Match | M_Strict_No_Match

record routing_state =
  rt_profiles :: "string list"
  rt_bindings :: "binding_rule list"
  rt_counts :: "string \<times> metric \<Rightarrow> nat"
  rt_events :: "telemetry_event list"

definition find_binding :: "string \<Rightarrow> routing_state \<Rightarrow> binding_rule option" where
  "find_binding binding_id st = find (\<lambda>b. cb_id b = binding_id) (rt_bindings st)"

definition list_all_bindings :: "string option \<Rightarrow> string option \<Rightarrow> routing_state \<Rightarrow> binding_rule list" where
  "list_all_bindings transport profile st =
     filter (\<lambda>b. (case profile of None \<Rightarrow> True | Some p \<Rightarrow> cb_profile b = p))
       (filter (\<lambda>b. (case transport of None \<Rightarrow> True | Some t \<Rightarrow> cb_transport b = lower (strip t)))
         (sort_key (\<lambda>b. (cb_transport b, cb_id b)) (rt_bindings st)))"

definition put_row :: "binding_rule \<Rightarrow> binding_rule list \<Rightarrow> binding_rule list" where
  "put_row rule rows =
     (let row = rule\<lparr>cb_transport := lower (strip (cb_transport rule))\<rparr> in
      if list_ex (\<lambda>b. cb_id b = cb_id rule) rows then update_where (\<lambda>b. cb_id b = cb_id rule) (\<lambda>_. row) rows
      else rows @ [row])"

definition put_binding :: "binding_rule \<Rightarrow> routing_state \<Rightarrow> (routing_state \<times> binding_rule) res" where
  "put_binding rule st =
     (if cb_profile rule \<notin> set (rt_profiles st) then service_error ''channel_binding_profile_not_found''
      else (let rows = put_row rule (rt_bindings st) in
            bindE (validate_rule (rule\<lparr>cb_transport := lower (strip (cb_transport rule))\<rparr>)) (\<lambda>r.
              Inr (st\<lparr>rt_bindings := rows\<rparr>, r))))"

definition get_binding :: "string \<Rightarrow> routing_state \<Rightarrow> binding_rule res" where
  "get_binding binding_id st =
     (case find_binding binding_id st of
        None \<Rightarrow> service_error ''channel_binding_not_found''
      | Some row \<Rightarrow> validate_rule row)"

definition delete_binding :: "string \<Rightarrow> routing_state \<Rightarrow> (routing_state \<times> bool) res" where
  "delete_binding binding_id st =
     (case find_binding binding_id st of
        None \<Rightarrow> service_error ''channel_binding_not_found''
      | Some row \<Rightarrow> Inr (st\<lparr>rt_bindings := delete_where (\<lambda>b. cb_id b = binding_id) (rt_bindings st)\<rparr>, True))"

definition list_bindings :: "string option \<Rightarrow> string option \<Rightarrow> routing_state \<Rightarrow> binding_rule list res" where
  "list_bindings transport profile st =
     mapE validate_rule (list_all_bindings
       (case transport of None \<Rightarrow> None | Some t \<Rightarrow> if t = [] then None else Some (strip t))
       (case profile of None \<Rightarrow> None | Some p \<Rightarrow> if p = [] then None else Some (strip p)) st)"

definition resolve_binding ::
    "(string \<Rightarrow> string) \<Rightarrow> routing_input \<Rightarrow> routing_state \<Rightarrow> routing_decision option res" where
  "resolve_binding sha i st =
     bindE (mapE validate_rule (list_all_bindings (Some (ri_transport i)) None st)) (\<lambda>rules.
       Inr (resolve_channel_binding sha rules i))"

section \<open>Counters\<close>

definition counted :: "telemetry_event \<Rightarrow> metric \<Rightarrow> bool" where
  "counted e m =
     (case m of
        M_Total \<Rightarrow> True
      | M_Matched \<Rightarrow> te_matched e
      | M_Fallback \<Rightarrow> te_fallback e
      | M_No_Match \<Rightarrow> te_no_match e
      | M_Strict_No_Match \<Rightarrow> te_strict e \<and> te_no_match e)"

definition all_transports :: string where
  "all_transports = ''__all__''"

definition bump :: "string \<times> metric \<Rightarrow> (string \<times> metric \<Rightarrow> nat) \<Rightarrow> string \<times> metric \<Rightarrow> nat" where
  "bump k counts = counts(k := Suc (counts k))"

definition count_event :: "string \<Rightarrow> telemetry_event \<Rightarrow> metric \<Rightarrow>
    (string \<times> metric \<Rightarrow> nat) \<Rightarrow> string \<times> metric \<Rightarrow> nat" where
  "count_event transport e m counts =
     (if counted e m then bump (transport, m) (bump (all_transports, m) counts) else counts)"

definition history_size :: "routing_settings \<Rightarrow> nat" where
  "history_size cfg = nat (max 1 (rs_history cfg))"

definition record_outcome :: "routing_settings \<Rightarrow> telemetry_event \<Rightarrow> routing_state \<Rightarrow> routing_state" where
  "record_outcome cfg e st =
     (if \<not> rs_telemetry cfg then st
      else (let transport = lower (strip (te_transport e)); events = rt_events st @ [e] in
            st\<lparr>rt_events := drop (length events - history_size cfg) events,
               rt_counts := fold (count_event transport e) [M_Total, M_Matched, M_Fallback, M_No_Match, M_Strict_No_Match]
                 (rt_counts st)\<rparr>))"

record transport_diagnostics =
  td_total :: nat
  td_matched :: nat
  td_fallback :: nat
  td_no_match :: nat
  td_strict_no_match :: nat

definition diagnostics_of :: "routing_settings \<Rightarrow> string \<Rightarrow> routing_state \<Rightarrow> transport_diagnostics" where
  "diagnostics_of cfg transport st =
     (if \<not> rs_telemetry cfg then \<lparr>td_total = 0, td_matched = 0, td_fallback = 0, td_no_match = 0, td_strict_no_match = 0\<rparr>
      else \<lparr>td_total = rt_counts st (transport, M_Total), td_matched = rt_counts st (transport, M_Matched),
            td_fallback = rt_counts st (transport, M_Fallback), td_no_match = rt_counts st (transport, M_No_Match),
            td_strict_no_match = rt_counts st (transport, M_Strict_No_Match)\<rparr>)"

section \<open>The runtime target\<close>

record target_args =
  ta_profile :: "string option"
  ta_session :: "string option"
  ta_resolve :: bool
  ta_require :: bool
  ta_selectors :: selectors
  ta_default_profile :: string
  ta_default_session :: string

record runtime_target =
  tg_profile :: string
  tg_session :: string
  tg_routing :: "routing_decision option"

definition validate_profile_id :: "string \<Rightarrow> string res" where
  "validate_profile_id s = (if profile_id_ok s then Inr s else service_error ''invalid_profile_id'')"

definition or_default :: "string option \<Rightarrow> string \<Rightarrow> string" where
  "or_default v d = (case clean v of None \<Rightarrow> d | Some s \<Rightarrow> s)"

definition target_event :: "selectors \<Rightarrow> routing_decision option \<Rightarrow> bool \<Rightarrow> bool \<Rightarrow> telemetry_event" where
  "target_event s decision strict fallback =
     \<lparr>te_transport = (case se_transport s of None \<Rightarrow> ''unknown'' | Some t \<Rightarrow> if t = [] then ''unknown'' else t),
      te_selectors = s, te_strict = strict, te_matched = (decision \<noteq> None), te_no_match = (decision = None),
      te_fallback = fallback, te_binding = map_option cd_binding decision, te_profile = map_option cd_profile decision,
      te_policy = map_option cd_policy decision,
      te_overlay = (case decision of None \<Rightarrow> False | Some d \<Rightarrow> str_or_empty (cd_overlay d) \<noteq> [])\<rparr>"

definition target_input :: "target_args \<Rightarrow> string \<Rightarrow> routing_input" where
  "target_input args transport =
     (let s = build_routing_selectors (ta_selectors args) in
      \<lparr>ri_transport = transport, ri_account = se_account s, ri_peer = se_peer s, ri_thread = se_thread s,
       ri_user = se_user s, ri_default = or_default (ta_session args) (ta_default_session args)\<rparr>)"

text \<open>The counters are updated before a strict miss is raised, so the state is returned with the result.\<close>

definition resolve_runtime_target ::
    "(string \<Rightarrow> string) \<Rightarrow> routing_settings \<Rightarrow> target_args \<Rightarrow> routing_state \<Rightarrow> routing_state \<times> runtime_target res" where
  "resolve_runtime_target sha cfg args st =
     (case validate_profile_id (or_default (ta_profile args) (ta_default_profile args)) of
        Inl e \<Rightarrow> (st, Inl e)
      | Inr fallback_profile \<Rightarrow>
          (let fallback_session = or_default (ta_session args) (ta_default_session args);
               s = build_routing_selectors (ta_selectors args);
               fallback = \<lparr>tg_profile = fallback_profile, tg_session = fallback_session, tg_routing = None\<rparr>
           in if \<not> ta_resolve args then (st, Inr fallback)
              else case normalize_transport_name (se_transport s) of
                     None \<Rightarrow> (st, service_error ''channel_binding_transport_required'')
                   | Some transport \<Rightarrow>
                       (let strict = requires_strict_binding_match cfg (Some transport) (ta_require args) in
                        case bindE (validate_input (target_input args transport)) (\<lambda>i. resolve_binding sha i st) of
                          Inl e \<Rightarrow> (st, Inl e)
                        | Inr None \<Rightarrow>
                            (let st' = record_outcome cfg (target_event s None strict (\<not> strict)) st in
                             if strict then (st', service_error ''channel_binding_no_match'') else (st', Inr fallback))
                        | Inr (Some d) \<Rightarrow>
                            (record_outcome cfg (target_event s (Some d) strict False) st,
                             Inr \<lparr>tg_profile = cd_profile d, tg_session = cd_session d, tg_routing = Some d\<rparr>))))"

section \<open>The stored bindings stay valid\<close>

definition bindings_ok :: "routing_state \<Rightarrow> bool" where
  "bindings_ok st \<longleftrightarrow> distinct (map cb_id (rt_bindings st)) \<and> (\<forall>b \<in> set (rt_bindings st). validate_rule b = Inr b)"

lemma clean_clean [simp]: "clean (clean v) = clean v"
  by (simp add: clean_def text_or_none_def)

lemma strip_lower_strip [simp]: "strip (lower (strip s)) = lower (strip s)"
  by (rule strip_trimmed) simp

lemma validate_rule_InrD:
  assumes "validate_rule r = Inr r'"
  shows "validate_rule r' = Inr r'" and "cb_id r' = cb_id r" and "cb_profile r' \<noteq> []"
  using assms by (auto simp: validate_rule_def Let_def validation_error_def service_error_def split: if_splits)

lemma valid_transport:
  assumes "validate_rule r = Inr r"
  shows "lower (strip (cb_transport r)) = cb_transport r"
proof -
  from assms have "r = r\<lparr>cb_transport := lower (strip (cb_transport r)), cb_profile := strip (cb_profile r),
      cb_account := clean (cb_account r), cb_peer := clean (cb_peer r), cb_thread := clean (cb_thread r),
      cb_user := clean (cb_user r)\<rparr>"
    by (auto simp: validate_rule_def Let_def validation_error_def service_error_def split: if_splits)
  from arg_cong [OF this, of cb_transport] show ?thesis by simp
qed

text \<open>The service takes a rule that has been validated, as the construction of the model class does.\<close>

lemma put_row_valid: "validate_rule rule = Inr rule \<Longrightarrow> put_row rule rows =
    (if list_ex (\<lambda>b. cb_id b = cb_id rule) rows then update_where (\<lambda>b. cb_id b = cb_id rule) (\<lambda>_. rule) rows
     else rows @ [rule])"
  by (simp add: put_row_def Let_def valid_transport)

lemma put_binding_eq:
  assumes "validate_rule rule = Inr rule" and "cb_profile rule \<in> set (rt_profiles st)"
  shows "put_binding rule st = Inr (st\<lparr>rt_bindings := put_row rule (rt_bindings st)\<rparr>, rule)"
  using assms by (simp add: put_binding_def Let_def valid_transport)

lemma put_row_set:
  assumes "validate_rule rule = Inr rule"
  shows "set (put_row rule rows) = insert rule {b \<in> set rows. cb_id b \<noteq> cb_id rule}"
  unfolding put_row_valid [OF assms] by (auto simp: list_ex_iff update_where_def)

lemma put_row_distinct:
  assumes "validate_rule rule = Inr rule" and "distinct (map cb_id rows)"
  shows "distinct (map cb_id (put_row rule rows))"
proof -
  have "map cb_id (update_where (\<lambda>b. cb_id b = cb_id rule) (\<lambda>_. rule) rows) = map cb_id rows"
    by (simp add: update_where_def)
  then show ?thesis using assms(2) unfolding put_row_valid [OF assms(1)] by (auto simp: list_ex_iff)
qed

lemma put_binding_ok:
  assumes "bindings_ok st" and "validate_rule rule = Inr rule" and "put_binding rule st = Inr (st', r)"
  shows "bindings_ok st'"
proof -
  have "cb_profile rule \<in> set (rt_profiles st)"
    using assms(3) by (auto simp: put_binding_def service_error_def split: if_splits)
  from assms(3) [unfolded put_binding_eq [OF assms(2) this]]
  have "st' = st\<lparr>rt_bindings := put_row rule (rt_bindings st)\<rparr>" by blast
  with assms(1,2) show ?thesis by (auto simp: bindings_ok_def put_row_set put_row_distinct)
qed

lemma delete_binding_ok: "bindings_ok st \<Longrightarrow> delete_binding i st = Inr (st', r) \<Longrightarrow> bindings_ok st'"
  by (auto simp: delete_binding_def bindings_ok_def delete_where_def service_error_def distinct_map_filter
      split: option.splits)

section \<open>The best binding is selected\<close>

lemma max_from_in: "max_from key b bs \<in> set (b # bs)"
  by (induction bs arbitrary: b) force+

lemma max_from_ge: "x \<in> set (b # bs) \<Longrightarrow> key x \<le> key (max_from key b bs)"
proof (induction bs arbitrary: b x)
  case (Cons c bs)
  let ?best = "if key b < key c then c else b"
  have "key b \<le> key ?best" "key c \<le> key ?best" by auto
  moreover have "key ?best \<le> key (max_from key ?best bs)" by (rule Cons.IH) simp
  moreover have "x \<in> set bs \<Longrightarrow> key x \<le> key (max_from key ?best bs)" by (rule Cons.IH) simp
  ultimately show ?case using Cons.prems by auto
qed simp

lemma mapE_valid: "\<forall>b \<in> set rows. validate_rule b = Inr b \<Longrightarrow> mapE validate_rule rows = Inr rows"
  by (induction rows) auto

lemma resolve_binding_eq:
  assumes "bindings_ok st"
  shows "resolve_binding sha i st = Inr (resolve_channel_binding sha (list_all_bindings (Some (ri_transport i)) None st) i)"
  using assms mapE_valid [of "list_all_bindings (Some (ri_transport i)) None st"]
  by (simp add: resolve_binding_def bindings_ok_def list_all_bindings_def)

lemma valid_input_transport: "validate_input i = Inr i \<Longrightarrow> lower (strip (ri_transport i)) = ri_transport i"
proof -
  assume "validate_input i = Inr i"
  then have "i = i\<lparr>ri_transport := lower (strip (ri_transport i)), ri_account := clean (ri_account i),
      ri_peer := clean (ri_peer i), ri_thread := clean (ri_thread i), ri_user := clean (ri_user i)\<rparr>"
    by (auto simp: validate_input_def Let_def validation_error_def service_error_def split: if_splits)
  from arg_cong [OF this, of ri_transport] show ?thesis by simp
qed

text \<open>C19 A message is routed by the best binding: among the stored bindings that are enabled for its transport
  and match it, the one with the most selectors, then the highest priority, then the greatest id;
  and it is not routed exactly when no stored binding applies.\<close>

theorem best_binding_selected:
  assumes ok: "bindings_ok st" and i: "validate_input i = Inr i"
  shows "\<exists>d. resolve_binding sha i st = Inr d \<and>
    (case d of
       None \<Rightarrow> \<not> (\<exists>b \<in> set (rt_bindings st). applies i b)
     | Some d' \<Rightarrow> \<exists>b \<in> set (rt_bindings st). applies i b \<and> d' = decision_of sha i b
          \<and> (\<forall>c \<in> set (rt_bindings st). applies i c \<longrightarrow> binding_key c \<le> binding_key b))"
proof -
  let ?rows = "filter (applies i) (list_all_bindings (Some (ri_transport i)) None st)"
  have rows: "set ?rows = {b \<in> set (rt_bindings st). applies i b}"
    using valid_input_transport [OF i] by (auto simp: list_all_bindings_def applies_def)
  note eq = resolve_binding_eq [OF ok, of sha i]
  show ?thesis
  proof (cases ?rows)
    case Nil
    then have "\<not> (\<exists>b \<in> set (rt_bindings st). applies i b)" using rows by auto
    then show ?thesis using eq Nil by (simp add: resolve_channel_binding_def)
  next
    case (Cons b bs)
    let ?best = "max_from binding_key b bs"
    have "resolve_binding sha i st = Inr (Some (decision_of sha i ?best))"
      using eq Cons by (simp add: resolve_channel_binding_def)
    moreover have "?best \<in> set ?rows" using max_from_in Cons by metis
    moreover have "\<forall>c \<in> set ?rows. binding_key c \<le> binding_key ?best" using max_from_ge Cons by metis
    ultimately show ?thesis using rows by auto
  qed
qed

section \<open>The session determines its scope\<close>

text \<open>What a policy keeps apart: the fields of the input its sessions are named after.\<close>

definition scope_field :: "string \<Rightarrow> string option \<Rightarrow> scope" where
  "scope_field tag v = (if str_or_empty v = [] then [] else [(tag, str_or_empty v)])"

definition session_scope :: "session_policy \<Rightarrow> routing_input \<Rightarrow> scope" where
  "session_scope policy i =
     (case policy of
        Main_Session \<Rightarrow> []
      | Per_Chat \<Rightarrow> scope_field ''chat'' (ri_peer i)
      | Per_Thread \<Rightarrow> scope_field ''chat'' (ri_peer i) @ scope_field ''thread'' (ri_thread i)
      | Per_User_In_Group \<Rightarrow>
          if str_or_empty (ri_user i) = [] then scope_field ''chat'' (ri_peer i)
          else scope_field ''chat'' (ri_peer i)
            @ (if str_or_empty (ri_peer i) = [] then [] else scope_field ''thread'' (ri_thread i))
            @ scope_field ''user'' (ri_user i))"

lemma session_scope_ok: "session_scope policy i \<noteq> [] \<Longrightarrow> scope_ok (session_scope policy i)"
  by (cases policy) (auto simp: session_scope_def scope_field_def scope_ok_def scope_tags_def split: if_splits)

lemma resolve_session_id_scope:
  "resolve_session_id sha policy i =
     (if session_scope policy i = [] then ri_default i else session_id sha (scope_tokens (session_scope policy i)))"
  by (cases policy) (simp_all add: resolve_session_id_def session_scope_def scope_field_def scope_tokens_def Let_def)

definition scope_raw :: "session_policy \<Rightarrow> routing_input \<Rightarrow> string" where
  "scope_raw policy i = join_with '':'' (scope_tokens (session_scope policy i))"

lemma decision_session:
  assumes "digest_ok sha" and "session_scope (cb_policy b) i \<noteq> []" and "cb_profile b \<noteq> []"
  shows "cd_session (decision_of sha i b)
    = bounded_id sha 64 (profile_raw (cb_profile b) (bounded_id sha 64 (scope_raw (cb_policy b) i)))"
proof -
  let ?s = "session_scope (cb_policy b) i"
  have ok: "scope_ok ?s" by (rule session_scope_ok [OF assms(2)])
  let ?inner = "bounded_id sha 64 (scope_raw (cb_policy b) i)"
  have inner: "resolve_session_id sha (cb_policy b) i = ?inner"
    using assms(2) compose_scope [OF ok] by (simp add: resolve_session_id_scope session_id_def max_session_id_length_def scope_raw_def)
  have trimmed: "strip ?inner = ?inner"
    unfolding scope_raw_def by (rule bounded_id_plain [OF assms(1) scope_raw_plain [OF ok]])
  have "?inner \<noteq> []"
  proof
    assume "?inner = []"
    then have "scope_raw (cb_policy b) i = []"
      using bounded_id_long [OF assms(1), of "scope_raw (cb_policy b) i"] bounded_id_short [of "scope_raw (cb_policy b) i" sha]
      by (cases "length (scope_raw (cb_policy b) i) \<le> 64") auto
    then have "split_on (CHR '':'') [] = scope_tokens ?s" using split_raw [OF ok] by (simp add: scope_raw_def)
    then have "[] \<in> set (scope_tokens ?s)" by (metis list.set_intros(1) split_on.simps(1))
    with scope_tokens_plain [OF ok] show False by blast
  qed
  moreover have "strip (encode_session_component (cb_profile b)) = encode_session_component (cb_profile b)"
    by (rule plain_strip) (rule plain_id_char_encode)
  moreover have "strip ''profile'' = ''profile''" by (rule plain_strip) (use plain_tags [of "''profile''"] in \<open>simp add: scope_tags_def\<close>)
  ultimately have "\<forall>t \<in> set [''profile'', encode_session_component (cb_profile b), ?inner]. t \<noteq> [] \<and> strip t = t"
    using trimmed assms(3) by simp
  from compose_plain [OF this] show ?thesis
    by (simp only: decision_of_def routing_decision.simps scope_binding_session_id_def session_id_def inner
        max_session_id_length_def profile_raw_def)
qed

text \<open>Two strings whose digests tell them apart.\<close>

definition no_collision :: "(string \<Rightarrow> string) \<Rightarrow> string \<Rightarrow> string \<Rightarrow> bool" where
  "no_collision sha a b \<longleftrightarrow> (short_digest sha a = short_digest sha b \<longrightarrow> a = b)"

lemma resolve_channel_bindingD:
  assumes "resolve_channel_binding sha rules i = Some d"
  obtains b where "b \<in> set rules" and "applies i b" and "d = decision_of sha i b"
proof -
  from assms obtain b bs where rows: "filter (applies i) rules = b # bs" and d: "d = decision_of sha i (max_from binding_key b bs)"
    unfolding resolve_channel_binding_def by (auto split: list.splits)
  have "max_from binding_key b bs \<in> set (filter (applies i) rules)" unfolding rows by (rule max_from_in)
  with d that show thesis by auto
qed

text \<open>C20 The session of a routed message determines the profile it belongs to and the chat, thread and user that
  its policy keeps apart: two messages routed under such a policy share a session only if both agree,
  however long the identifiers are, as long as the digests of the names do not collide.\<close>

theorem session_id_determines_scope:
  assumes digest: "digest_ok sha"
    and d: "resolve_channel_binding sha rules i = Some d" and e: "resolve_channel_binding sha rules' j = Some e"
    and profiles: "\<forall>r \<in> set rules \<union> set rules'. cb_profile r \<noteq> []"
    and scopes: "session_scope (cd_policy d) i \<noteq> []" "session_scope (cd_policy e) j \<noteq> []"
    and inner: "no_collision sha (scope_raw (cd_policy d) i) (scope_raw (cd_policy e) j)"
    and outer: "no_collision sha (profile_raw (cd_profile d) (bounded_id sha 64 (scope_raw (cd_policy d) i)))
      (profile_raw (cd_profile e) (bounded_id sha 64 (scope_raw (cd_policy e) j)))"
    and same: "cd_session d = cd_session e"
  shows "cd_profile d = cd_profile e \<and> session_scope (cd_policy d) i = session_scope (cd_policy e) j"
proof -
  obtain b where b: "b \<in> set rules" "d = decision_of sha i b" by (rule resolve_channel_bindingD [OF d])
  obtain c where c: "c \<in> set rules'" "e = decision_of sha j c" by (rule resolve_channel_bindingD [OF e])
  have fields: "cd_policy d = cb_policy b" "cd_profile d = cb_profile b" "cd_policy e = cb_policy c" "cd_profile e = cb_profile c"
    by (simp_all add: b(2) c(2) decision_of_def)
  have "cb_profile b \<noteq> []" "cb_profile c \<noteq> []" using profiles b(1) c(1) by auto
  with decision_session [OF digest, of b i] decision_session [OF digest, of c j] scopes same fields b(2) c(2)
  have "bounded_id sha 64 (profile_raw (cb_profile b) (bounded_id sha 64 (scope_raw (cb_policy b) i)))
      = bounded_id sha 64 (profile_raw (cb_profile c) (bounded_id sha 64 (scope_raw (cb_policy c) j)))"
    by simp
  with profile_id_inject [OF digest session_scope_ok [OF scopes(1)] session_scope_ok [OF scopes(2)]] inner outer
  show ?thesis unfolding fields no_collision_def scope_raw_def by blast
qed

text \<open>The transport and the account are not part of the scope.\<close>

lemma transports_share_session:
  assumes "cb_policy b = Per_Chat" and "cb_policy c = Per_Chat" and "cb_profile b = cb_profile c"
    and "ri_peer i = ri_peer j" and "str_or_empty (ri_peer i) \<noteq> []"
  shows "cd_session (decision_of sha i b) = cd_session (decision_of sha j c)"
  using assms by (simp add: decision_of_def resolve_session_id_def Let_def)

section \<open>Falling back\<close>

lemma normalize_transport_idem [simp]: "normalize_transport_name (normalize_transport_name t) = normalize_transport_name t"
  by (cases "strip (str_or_empty t) = []") (simp_all add: normalize_transport_name_def text_or_none_def)

lemma allow_binding_fallback_iff:
  "allow_binding_fallback cfg (Some transport) \<longleftrightarrow>
     lower (strip transport) \<noteq> [] \<and> (\<exists>item \<in> set (rs_fallbacks cfg). lower (strip item) = lower (strip transport))"
proof -
  have "t \<in> set (map (\<lambda>item. lower (strip item)) (filter (\<lambda>item. strip item \<noteq> []) items)) \<longleftrightarrow>
      (\<exists>item \<in> set items. lower (strip item) = t)" if "t \<noteq> []" for t items
    using that by (induction items) auto
  then show ?thesis
    by (simp add: allow_binding_fallback_def normalize_transport_name_def text_or_none_def str_or_empty_def del: set_map set_filter)
qed

lemma record_outcome_bindings [simp]: "rt_bindings (record_outcome cfg e st) = rt_bindings st"
  by (simp add: record_outcome_def Let_def)

lemma validate_inputD:
  assumes "validate_input i = Inr i'"
  shows "validate_input i' = Inr i'"
  using assms by (auto simp: validate_input_def Let_def validation_error_def service_error_def split: if_splits)

lemma target_input_valid:
  assumes "normalize_transport_name (se_transport (build_routing_selectors (ta_selectors args))) = Some transport"
    and "validate_input (target_input args transport) = Inr i"
  shows "i = target_input args transport"
proof -
  have "strip transport = transport" "lower transport = transport"
    using assms(1) by (auto simp: normalize_transport_name_def text_or_none_def split: if_splits)
  then show ?thesis
    using assms(2) by (auto simp: validate_input_def target_input_def build_routing_selectors_def Let_def
        validation_error_def service_error_def split: if_splits)
qed

text \<open>C21 Routing fails closed: when bindings are resolved, a message reaches a profile only by the best binding
  that applies, or by the fall-back, and that only if no binding applies, the caller does not require
  one and the settings name the transport for falling back.\<close>

theorem strict_routing_fails_closed:
  assumes ok: "bindings_ok st" and run: "resolve_runtime_target sha cfg args st = (st', Inr target)" and "ta_resolve args"
  shows "\<exists>transport. normalize_transport_name (se_transport (ta_selectors args)) = Some transport
    \<and> ((\<exists>b \<in> set (rt_bindings st). applies (target_input args transport) b
          \<and> (\<forall>c \<in> set (rt_bindings st). applies (target_input args transport) c \<longrightarrow> binding_key c \<le> binding_key b)
          \<and> tg_routing target = Some (decision_of sha (target_input args transport) b) \<and> tg_profile target = cb_profile b)
       \<or> (tg_routing target = None \<and> (\<forall>b \<in> set (rt_bindings st). \<not> applies (target_input args transport) b)
          \<and> \<not> ta_require args \<and> (\<exists>item \<in> set (rs_fallbacks cfg). lower (strip item) = transport)))"
proof -
  let ?s = "build_routing_selectors (ta_selectors args)"
  from run obtain profile where "validate_profile_id (or_default (ta_profile args) (ta_default_profile args)) = Inr profile"
    unfolding resolve_runtime_target_def by (auto split: sum.splits)
  note run = run [unfolded resolve_runtime_target_def this sum.case Let_def, simplified \<open>ta_resolve args\<close> simp_thms if_False]
  from run obtain transport where transport: "normalize_transport_name (se_transport ?s) = Some transport"
    by (auto simp: service_error_def split: option.splits)
  note run = run [unfolded transport option.case]
  let ?strict = "requires_strict_binding_match cfg (Some transport) (ta_require args)"
  from run obtain i decision where i: "validate_input (target_input args transport) = Inr i"
    and decision: "resolve_binding sha i st = Inr decision"
    by (cases "validate_input (target_input args transport)"; cases "resolve_binding sha (target_input args transport) st")
      (auto split: sum.splits)
  have i_eq: "i = target_input args transport" by (rule target_input_valid [OF transport i])
  from best_binding_selected [OF ok validate_inputD [OF i], of sha] decision
  have best: "case decision of None \<Rightarrow> \<not> (\<exists>b \<in> set (rt_bindings st). applies i b)
     | Some d' \<Rightarrow> \<exists>b \<in> set (rt_bindings st). applies i b \<and> d' = decision_of sha i b
          \<and> (\<forall>c \<in> set (rt_bindings st). applies i c \<longrightarrow> binding_key c \<le> binding_key b)"
    by auto
  note run = run [unfolded i bindE_simps decision sum.case]
  have transport': "normalize_transport_name (se_transport (ta_selectors args)) = Some transport"
    using transport by (simp add: build_routing_selectors_def)
  show ?thesis
  proof (cases decision)
    case None
    with run have "\<not> ?strict" and "tg_routing target = None" by (auto simp: service_error_def split: if_splits)
    then have "\<not> ta_require args" and "allow_binding_fallback cfg (Some transport)"
      by (simp_all add: requires_strict_binding_match_def split: if_splits)
    moreover have "lower (strip transport) = transport"
      using transport by (auto simp: normalize_transport_name_def text_or_none_def split: if_splits)
    ultimately obtain item where "item \<in> set (rs_fallbacks cfg)" "lower (strip item) = transport"
      unfolding allow_binding_fallback_iff by auto
    with transport' best None i_eq \<open>tg_routing target = None\<close> \<open>\<not> ta_require args\<close> show ?thesis by auto
  next
    case (Some d)
    with run have target: "target = \<lparr>tg_profile = cd_profile d, tg_session = cd_session d, tg_routing = Some d\<rparr>" by auto
    from best Some obtain b where "b \<in> set (rt_bindings st)" "applies i b" "d = decision_of sha i b"
      "\<forall>c \<in> set (rt_bindings st). applies i c \<longrightarrow> binding_key c \<le> binding_key b" by auto
    with transport' target i_eq show ?thesis by (auto simp: decision_of_def)
  qed
qed

section \<open>The counters\<close>

text \<open>The abstract view: the outcomes so far, counted anew.\<close>

definition event_transport :: "telemetry_event \<Rightarrow> string" where
  "event_transport e = lower (strip (te_transport e))"

definition tally :: "telemetry_event list \<Rightarrow> string \<Rightarrow> metric \<Rightarrow> nat" where
  "tally es transport m = length (filter (\<lambda>e. (transport = all_transports \<or> event_transport e = transport) \<and> counted e m) es)"

definition fresh_routing :: "routing_state \<Rightarrow> routing_state" where
  "fresh_routing st = st\<lparr>rt_counts := (\<lambda>_. 0), rt_events := []\<rparr>"

lemma fold_count_event:
  assumes "event_transport e \<noteq> all_transports" and "distinct ms"
  shows "fold (count_event (event_transport e) e) ms counts (t, m) =
    counts (t, m) + (if m \<in> set ms \<and> counted e m \<and> (t = all_transports \<or> event_transport e = t) then 1 else 0)"
  using assms(2)
proof (induction ms arbitrary: counts)
  case (Cons x ms)
  have "count_event (event_transport e) e x counts (t, m) =
      counts (t, m) + (if m = x \<and> counted e m \<and> (t = all_transports \<or> event_transport e = t) then 1 else 0)"
    using assms(1) by (auto simp: count_event_def bump_def)
  then show ?case using Cons by auto
qed simp

lemma record_outcome_counts:
  assumes "rs_telemetry cfg" and "event_transport e \<noteq> all_transports"
  shows "rt_counts (record_outcome cfg e st) (t, m) = rt_counts st (t, m) + tally [e] t m"
proof -
  have all: "m \<in> set [M_Total, M_Matched, M_Fallback, M_No_Match, M_Strict_No_Match]" by (cases m) auto
  have "rt_counts (record_outcome cfg e st) =
      fold (count_event (event_transport e) e) [M_Total, M_Matched, M_Fallback, M_No_Match, M_Strict_No_Match] (rt_counts st)"
    using assms(1) by (simp add: record_outcome_def event_transport_def Let_def)
  then show ?thesis
    using fold_count_event [OF assms(2), of "[M_Total, M_Matched, M_Fallback, M_No_Match, M_Strict_No_Match]" "rt_counts st" t m] all
    by (auto simp: tally_def)
qed

text \<open>The telemetry refines the log of outcomes: after any outcomes, the counters of a transport and of all
  transports are those of the log counted anew, and the recent events are its last ones, as many as
  the history keeps; when every outcome is matched or not, the total is the sum of both.\<close>

theorem diagnostics_tally:
  fixes st :: routing_state and es :: "telemetry_event list" and cfg :: routing_settings
  assumes "rs_telemetry cfg" and "\<forall>e \<in> set es. event_transport e \<noteq> all_transports"
  defines "st' \<equiv> fold (record_outcome cfg) es (fresh_routing st)"
  shows "diagnostics_of cfg transport st' =
      \<lparr>td_total = tally es transport M_Total, td_matched = tally es transport M_Matched,
       td_fallback = tally es transport M_Fallback, td_no_match = tally es transport M_No_Match,
       td_strict_no_match = tally es transport M_Strict_No_Match\<rparr>
    \<and> rt_events st' = drop (length es - history_size cfg) es
    \<and> ((\<forall>e \<in> set es. te_no_match e \<longleftrightarrow> \<not> te_matched e) \<longrightarrow>
         td_total (diagnostics_of cfg transport st')
           = td_matched (diagnostics_of cfg transport st') + td_no_match (diagnostics_of cfg transport st'))"
proof -
  have counts: "rt_counts st' (t, m) = tally es t m" for t m
    unfolding st'_def using assms(2)
  proof (induction es rule: rev_induct)
    case Nil
    then show ?case by (simp add: fresh_routing_def tally_def)
  next
    case (snoc e es)
    then show ?case using record_outcome_counts [OF assms(1), of e] by (simp add: tally_def)
  qed
  have events: "rt_events st' = drop (length es - history_size cfg) es"
    unfolding st'_def
  proof (induction es rule: rev_induct)
    case Nil
    then show ?case by (simp add: fresh_routing_def)
  next
    case (snoc e es)
    have "rt_events (record_outcome cfg e s) = drop (length (rt_events s @ [e]) - history_size cfg) (rt_events s @ [e])" for s
      using assms(1) by (simp add: record_outcome_def Let_def)
    moreover have "Suc n - (n - h + h) + (n - h) = Suc n - h" for n h :: nat by arith
    ultimately show ?case using snoc by simp
  qed
  have "tally es transport M_Total = tally es transport M_Matched + tally es transport M_No_Match"
    if "\<forall>e \<in> set es. te_no_match e \<longleftrightarrow> \<not> te_matched e"
    using that by (induction es) (auto simp: tally_def counted_def)
  with assms(1) counts events show ?thesis by (simp add: diagnostics_of_def)
qed

section \<open>Examples\<close>

definition example_sha :: "string \<Rightarrow> string" where
  "example_sha s = replicate 64 (CHR ''a'')"

definition example_rule :: "string \<Rightarrow> string option \<Rightarrow> session_policy \<Rightarrow> binding_rule" where
  "example_rule i peer policy = \<lparr>cb_id = i, cb_transport = ''telegram'', cb_profile = ''support'', cb_policy = policy,
     cb_priority = 0, cb_enabled = True, cb_account = None, cb_peer = peer, cb_thread = None, cb_user = None, cb_overlay = None\<rparr>"

definition example_routing :: routing_state where
  "example_routing = \<lparr>rt_profiles = [''support''],
     rt_bindings = [example_rule ''a'' (Some ''42'') Per_Thread, example_rule ''b'' None Per_Chat],
     rt_counts = (\<lambda>_. 0), rt_events = []\<rparr>"

definition example_input :: "string option \<Rightarrow> routing_input" where
  "example_input account = \<lparr>ri_transport = ''telegram'', ri_account = account, ri_peer = Some ''42'', ri_thread = Some ''7'',
     ri_user = Some ''u'', ri_default = ''main''\<rparr>"

definition example_target :: target_args where
  "example_target = \<lparr>ta_profile = None, ta_session = None, ta_resolve = True, ta_require = False,
     ta_selectors = \<lparr>se_transport = Some '' Telegram '', se_account = None, se_peer = Some ''42'', se_thread = Some ''7'', se_user = None\<rparr>,
     ta_default_profile = ''default'', ta_default_session = ''main''\<rparr>"

definition example_cfg :: routing_settings where
  "example_cfg = \<lparr>rs_fallbacks = [''cli''], rs_telemetry = True, rs_history = 1\<rparr>"

lemma example_rules_valid: "validate_rule (example_rule ''a'' (Some ''42'') Per_Thread) = Inr (example_rule ''a'' (Some ''42'') Per_Thread)"
  "validate_rule (example_rule ''b'' None Per_Chat) = Inr (example_rule ''b'' None Per_Chat)"
  by code_simp+

lemma example_routing_ok: "bindings_ok example_routing"
  using example_rules_valid by (simp add: bindings_ok_def example_routing_def example_rule_def)

lemma example_digest_ok: "digest_ok example_sha"
  by (auto simp: digest_ok_def example_sha_def plain_id_char_def is_space_def code_pt_def)

theorem best_binding_selected_witness:
  "resolve_binding example_sha (example_input None) example_routing
     = Inr (Some (decision_of example_sha (example_input None) (example_rule ''a'' (Some ''42'') Per_Thread)))
   \<and> validate_input (example_input None) = Inr (example_input None)
   \<and> (\<exists>d. resolve_binding example_sha (example_input None) example_routing = Inr (Some d)
        \<and> (\<exists>b \<in> set (rt_bindings example_routing). applies (example_input None) b \<and> d = decision_of example_sha (example_input None) b))"
proof -
  have i: "validate_input (example_input None) = Inr (example_input None)" by code_simp
  have applies: "filter (applies (example_input None)) (list_all_bindings (Some ''telegram'') None example_routing)
      = [example_rule ''a'' (Some ''42'') Per_Thread, example_rule ''b'' None Per_Chat]" by code_simp
  have "max_from binding_key (example_rule ''a'' (Some ''42'') Per_Thread) [example_rule ''b'' None Per_Chat]
      = example_rule ''a'' (Some ''42'') Per_Thread" by code_simp
  then have first: "resolve_binding example_sha (example_input None) example_routing
     = Inr (Some (decision_of example_sha (example_input None) (example_rule ''a'' (Some ''42'') Per_Thread)))"
    using resolve_binding_eq [OF example_routing_ok] applies by (simp add: resolve_channel_binding_def example_input_def)
  from best_binding_selected [OF example_routing_ok i, of example_sha] first i show ?thesis by auto
qed

theorem session_id_determines_scope_witness:
  "\<exists>d e. resolve_channel_binding example_sha [example_rule ''a'' None Per_Thread] (example_input None) = Some d
    \<and> resolve_channel_binding example_sha [example_rule ''b'' None Per_Thread] (example_input (Some ''bot'')) = Some e
    \<and> cd_session d = cd_session e \<and> cd_profile d = cd_profile e
    \<and> session_scope (cd_policy d) (example_input None) = session_scope (cd_policy e) (example_input (Some ''bot''))"
proof -
  let ?d = "decision_of example_sha (example_input None) (example_rule ''a'' None Per_Thread)"
  let ?e = "decision_of example_sha (example_input (Some ''bot'')) (example_rule ''b'' None Per_Thread)"
  have d: "resolve_channel_binding example_sha [example_rule ''a'' None Per_Thread] (example_input None) = Some ?d"
    and e: "resolve_channel_binding example_sha [example_rule ''b'' None Per_Thread] (example_input (Some ''bot'')) = Some ?e"
    by (simp_all add: resolve_channel_binding_def applies_def example_rule_def example_input_def binding_matches_def matches_field_def)
  have same: "cd_session ?d = cd_session ?e"
    by (simp add: decision_of_def example_rule_def example_input_def resolve_session_id_def Let_def)
  have profiles: "\<forall>r \<in> set [example_rule ''a'' None Per_Thread] \<union> set [example_rule ''b'' None Per_Thread]. cb_profile r \<noteq> []"
    by (simp add: example_rule_def)
  have raws: "scope_raw (cd_policy ?d) (example_input None) = scope_raw (cd_policy ?e) (example_input (Some ''bot''))"
    "cd_profile ?d = cd_profile ?e"
    by (simp_all add: decision_of_def example_rule_def example_input_def scope_raw_def session_scope_def)
  have scopes: "session_scope (cd_policy ?d) (example_input None) \<noteq> []"
    "session_scope (cd_policy ?e) (example_input (Some ''bot'')) \<noteq> []"
    by (simp_all add: decision_of_def example_rule_def example_input_def session_scope_def scope_field_def)
  have "cd_profile ?d = cd_profile ?e
      \<and> session_scope (cd_policy ?d) (example_input None) = session_scope (cd_policy ?e) (example_input (Some ''bot''))"
    by (rule session_id_determines_scope [OF example_digest_ok d e profiles scopes _ _ same]) (simp_all add: no_collision_def raws)
  with d e same show ?thesis by blast
qed

theorem strict_routing_fails_closed_witness:
  "\<exists>st target. resolve_runtime_target example_sha example_cfg example_target example_routing = (st, Inr target)
    \<and> (\<exists>b \<in> set (rt_bindings example_routing). tg_profile target = cb_profile b)"
proof -
  let ?run = "resolve_runtime_target example_sha example_cfg example_target example_routing"
  have "is_ok (snd ?run) \<and> (case snd ?run of Inl _ \<Rightarrow> False | Inr t \<Rightarrow> tg_routing t \<noteq> None)" by code_simp
  then obtain st target where run: "?run = (st, Inr target)" and "tg_routing target \<noteq> None"
    by (cases ?run) (auto split: sum.splits)
  moreover have "ta_resolve example_target" by (simp add: example_target_def)
  ultimately show ?thesis using strict_routing_fails_closed [OF example_routing_ok run] by auto
qed

theorem diagnostics_tally_witness:
  "td_total (diagnostics_of example_cfg ''telegram''
      (fold (record_outcome example_cfg) [target_event (ta_selectors example_target) None True False]
         (fresh_routing example_routing))) = 1"
proof -
  let ?es = "[target_event (ta_selectors example_target) None True False]"
  have "rs_telemetry example_cfg" by (simp add: example_cfg_def)
  moreover have "\<forall>e \<in> set ?es. event_transport e \<noteq> all_transports" by code_simp
  moreover have "tally ?es ''telegram'' M_Total = 1" by code_simp
  ultimately show ?thesis using diagnostics_tally [of example_cfg ?es "''telegram''" example_routing] by simp
qed

end
