(* ===== verification/Subagents.thy ===== *)
theory Subagents
  imports Policy
begin

text \<open>
  Persisted subagent tasks (services/subagents: runtime_support.py, task_store.py,
  state_transitions.py, executor.py, lifecycle.py; repositories/subagent_task_repo.py). A task is
  accepted as running, claimed once by a worker and settled once; whoever reads an overdue task
  settles it as timed out. The run of the child agent, the loader of the descriptor and the
  launcher of the worker are arguments; what other processes do to the table between two
  transactions is an explicit change.
\<close>

section \<open>Rows\<close>

datatype subagent_status = Sub_Running | Sub_Completed | Sub_Failed | Sub_Cancelled | Sub_Timeout

record subagent_task =
  sa_id :: string
  sa_profile :: string
  sa_session :: string
  sa_run :: "int option"
  sa_name :: string
  sa_prompt :: string
  sa_timeout :: int
  sa_status :: subagent_status
  sa_created :: instant
  sa_started :: "instant option"
  sa_finished :: "instant option"
  sa_child_session :: "string option"
  sa_child_run :: "int option"
  sa_output :: "string option"
  sa_error :: "string option"
  sa_reason :: "string option"

type_synonym subagent_rows = "subagent_task list"

record subagent_settings =
  ss_timeout_default :: int
  ss_timeout_max :: int
  ss_timeout_grace :: int
  ss_wait_default :: int
  ss_wait_max :: int
  ss_task_ttl :: int

section \<open>The repository\<close>

definition create_task :: "subagent_task \<Rightarrow> subagent_rows \<Rightarrow> subagent_rows" where
  "create_task row rows = rows @ [row]"

definition get_subagent :: "string \<Rightarrow> subagent_rows \<Rightarrow> subagent_task option" where
  "get_subagent task_id rows = find (\<lambda>r. sa_id r = task_id) rows"

definition claimable :: "string \<Rightarrow> subagent_task \<Rightarrow> bool" where
  "claimable task_id r \<longleftrightarrow> sa_id r = task_id \<and> sa_status r = Sub_Running \<and> sa_started r = None \<and> sa_finished r = None"

definition claim_task_start :: "string \<Rightarrow> instant \<Rightarrow> subagent_rows \<Rightarrow> subagent_rows \<times> subagent_task option" where
  "claim_task_start task_id now rows =
     (if rowcount (claimable task_id) rows = 0 then (rows, None)
      else (let rows' = update_where (claimable task_id) (\<lambda>r. r\<lparr>sa_started := Some now\<rparr>) rows
            in (rows', get_subagent task_id rows')))"

record subagent_outcome =
  so_status :: subagent_status
  so_child_session :: "string option"
  so_child_run :: "int option"
  so_output :: "string option"
  so_error :: "string option"
  so_reason :: "string option"

definition finishable :: "string \<Rightarrow> subagent_task \<Rightarrow> bool" where
  "finishable task_id r \<longleftrightarrow> sa_id r = task_id \<and> sa_status r = Sub_Running \<and> sa_finished r = None"

definition finished_task :: "instant \<Rightarrow> subagent_outcome \<Rightarrow> subagent_task \<Rightarrow> subagent_task" where
  "finished_task now oc r =
     r\<lparr>sa_status := so_status oc, sa_finished := Some now, sa_child_session := so_child_session oc,
       sa_child_run := so_child_run oc, sa_output := so_output oc, sa_error := so_error oc, sa_reason := so_reason oc\<rparr>"

definition finish_task :: "string \<Rightarrow> instant \<Rightarrow> subagent_outcome \<Rightarrow> subagent_rows \<Rightarrow> subagent_rows \<times> bool" where
  "finish_task task_id now oc rows =
     (update_where (finishable task_id) (finished_task now oc) rows, 0 < rowcount (finishable task_id) rows)"

definition delete_finished_before :: "instant \<Rightarrow> subagent_rows \<Rightarrow> subagent_rows" where
  "delete_finished_before before rows =
     delete_where (\<lambda>r. case sa_finished r of None \<Rightarrow> False | Some t \<Rightarrow> t < before) rows"

section \<open>The store\<close>

definition sub_seconds :: "int \<Rightarrow> int" where
  "sub_seconds n = 1000000 * n"

definition resolve_timeout :: "int option \<Rightarrow> subagent_settings \<Rightarrow> int" where
  "resolve_timeout timeout cfg =
     (case timeout of None \<Rightarrow> ss_timeout_default cfg | Some t \<Rightarrow> max 1 (min t (ss_timeout_max cfg)))"

definition resolve_wait_timeout :: "int option \<Rightarrow> subagent_settings \<Rightarrow> int" where
  "resolve_wait_timeout timeout cfg =
     sub_seconds (case timeout of None \<Rightarrow> ss_wait_default cfg | Some t \<Rightarrow> max 1 (min t (ss_wait_max cfg)))"

definition ensure_owner_access :: "subagent_task \<Rightarrow> string option \<Rightarrow> string option \<Rightarrow> unit res" where
  "ensure_owner_access r profile session =
     (if (case profile of None \<Rightarrow> False | Some p \<Rightarrow> sa_profile r \<noteq> p) then service_error ''subagent_task_forbidden''
      else if (case session of None \<Rightarrow> False | Some s \<Rightarrow> sa_session r \<noteq> s) then service_error ''subagent_task_forbidden''
      else Inr ())"

definition task_deadline :: "subagent_settings \<Rightarrow> subagent_task \<Rightarrow> instant" where
  "task_deadline cfg r =
     (case sa_started r of None \<Rightarrow> sa_created r | Some t \<Rightarrow> t)
     + sub_seconds (max 1 (sa_timeout r) + max 0 (ss_timeout_grace cfg))"

definition is_task_overdue :: "subagent_settings \<Rightarrow> instant \<Rightarrow> subagent_task \<Rightarrow> bool" where
  "is_task_overdue cfg now r \<longleftrightarrow> task_deadline cfg r \<le> now"

definition timeout_outcome :: "int \<Rightarrow> subagent_outcome" where
  "timeout_outcome secs = \<lparr>so_status = Sub_Timeout, so_child_session = None, so_child_run = None, so_output = None,
     so_error = Some ''subagent_timeout'', so_reason = Some (''Subagent timed out after '' @ int_str secs @ '' seconds'')\<rparr>"

text \<open>\<open>now\<close> is the clock when the task is looked at, \<open>later\<close> when it is settled.\<close>

definition load_state ::
    "subagent_settings \<Rightarrow> string \<Rightarrow> string option \<Rightarrow> string option \<Rightarrow> bool \<Rightarrow> instant \<Rightarrow> instant \<Rightarrow> subagent_rows
       \<Rightarrow> (subagent_rows \<times> subagent_task) res" where
  "load_state cfg task_id profile session mark now later rows =
     (case get_subagent task_id rows of
        None \<Rightarrow> service_error ''subagent_task_not_found''
      | Some r \<Rightarrow>
          bindE (ensure_owner_access r profile session) (\<lambda>_.
            if mark \<and> sa_status r = Sub_Running \<and> is_task_overdue cfg now r then
              (let rows' = fst (finish_task task_id later ((timeout_outcome (sa_timeout r))
                     \<lparr>so_child_session := sa_child_session r, so_child_run := sa_child_run r\<rparr>) rows) in
               case get_subagent task_id rows' of
                 None \<Rightarrow> service_error ''subagent_task_not_found''
               | Some r' \<Rightarrow> Inr (rows', r'))
            else Inr (rows, r)))"

definition prune_expired_tasks :: "subagent_settings \<Rightarrow> instant \<Rightarrow> subagent_rows \<Rightarrow> subagent_rows" where
  "prune_expired_tasks cfg now rows = delete_finished_before (now - sub_seconds (max 1 (ss_task_ttl cfg))) rows"

section \<open>Transitions\<close>

definition complete_outcome :: "string option \<Rightarrow> int option \<Rightarrow> string option \<Rightarrow> subagent_outcome" where
  "complete_outcome session run output =
     \<lparr>so_status = Sub_Completed, so_child_session = session, so_child_run = run, so_output = output, so_error = None, so_reason = None\<rparr>"

definition fail_outcome :: "string \<Rightarrow> string \<Rightarrow> subagent_outcome" where
  "fail_outcome error reason =
     \<lparr>so_status = Sub_Failed, so_child_session = None, so_child_run = None, so_output = None, so_error = Some error,
      so_reason = Some reason\<rparr>"

definition cancel_outcome :: subagent_outcome where
  "cancel_outcome = \<lparr>so_status = Sub_Cancelled, so_child_session = None, so_child_run = None, so_output = None,
     so_error = Some ''subagent_cancelled'', so_reason = Some ''Subagent task was cancelled''\<rparr>"

definition crash_outcome :: "string \<Rightarrow> subagent_outcome" where
  "crash_outcome text' = fail_outcome ''subagent_failed'' text'"

section \<open>The worker\<close>

text \<open>
  The loader, the run of the child and each of the settling writes may raise or be cancelled. A write that raised
  is rolled back; a cancelled one may have been committed before the cancellation arrived.
\<close>

datatype load_result = Loaded string | Load_Missing string | Load_Raised | Load_Cancelled

datatype run_exception = Run_Error string string | Run_Timed_Out | Run_Cancelled | Run_Crashed string

datatype run_result = Run_Output string string int | Run_Raised run_exception

datatype completion_end = Completed | Completion_Raised bool run_exception

datatype write_end = Written | Write_Raised | Write_Cancelled bool

datatype execution = Executed bool | Execution_Raised | Execution_Cancelled

definition exception_outcome :: "int \<Rightarrow> run_exception \<Rightarrow> subagent_outcome" where
  "exception_outcome secs exc =
     (case exc of
        Run_Error error reason \<Rightarrow> fail_outcome error reason
      | Run_Timed_Out \<Rightarrow> timeout_outcome secs
      | Run_Cancelled \<Rightarrow> cancel_outcome
      | Run_Crashed text' \<Rightarrow> crash_outcome text')"

definition last_write ::
    "write_end \<Rightarrow> string \<Rightarrow> instant \<Rightarrow> subagent_outcome \<Rightarrow> execution \<Rightarrow> subagent_rows \<Rightarrow> subagent_rows \<times> execution" where
  "last_write ending task_id later oc answer rows =
     (let settled = fst (finish_task task_id later oc rows) in
      case ending of
        Written \<Rightarrow> (settled, answer)
      | Write_Raised \<Rightarrow> (rows, Execution_Raised)
      | Write_Cancelled committed \<Rightarrow> (if committed then settled else rows, Execution_Cancelled))"

definition handle_exception ::
    "write_end \<Rightarrow> string \<Rightarrow> instant \<Rightarrow> int \<Rightarrow> run_exception \<Rightarrow> subagent_rows \<Rightarrow> subagent_rows \<times> execution" where
  "handle_exception ending task_id later secs exc rows =
     last_write ending task_id later (exception_outcome secs exc)
       (if exc = Run_Cancelled then Execution_Cancelled else Executed False) rows"

text \<open>
  \<open>meanwhile\<close> is what other processes do between the claim and the settling writes, \<open>completing\<close> how the write of a
  completed run ends (its exceptions are handled with those of the run) and \<open>ending\<close> how the last write does.
\<close>

definition execute_persisted_task ::
    "subagent_settings \<Rightarrow> string \<Rightarrow> instant \<Rightarrow> instant \<Rightarrow> (subagent_task \<Rightarrow> load_result) \<Rightarrow> (subagent_task \<Rightarrow> string \<Rightarrow> run_result)
       \<Rightarrow> completion_end \<Rightarrow> write_end \<Rightarrow> (subagent_rows \<Rightarrow> subagent_rows) \<Rightarrow> subagent_rows \<Rightarrow> subagent_rows \<times> execution" where
  "execute_persisted_task cfg task_id now later load run completing ending meanwhile rows =
     (let rows = prune_expired_tasks cfg now rows in
      case claim_task_start task_id now rows of
        (rows, None) \<Rightarrow> (rows, Executed False)
      | (rows, Some state) \<Rightarrow>
          (case load state of
             Load_Raised \<Rightarrow> (meanwhile rows, Execution_Raised)
           | Load_Cancelled \<Rightarrow> (meanwhile rows, Execution_Cancelled)
           | Load_Missing text' \<Rightarrow>
               last_write ending task_id later (fail_outcome ''subagent_not_found'' (''Subagent not found: '' @ text'))
                 (Executed False) (meanwhile rows)
           | Loaded markdown \<Rightarrow>
               (case run state markdown of
                  Run_Raised exc \<Rightarrow> handle_exception ending task_id later (sa_timeout state) exc (meanwhile rows)
                | Run_Output out session child \<Rightarrow>
                    (let completed = fst (finish_task task_id later
                           (complete_outcome (Some session) (Some child) (Some out)) (meanwhile rows)) in
                     case completing of
                       Completed \<Rightarrow> (completed, Executed True)
                     | Completion_Raised committed exc \<Rightarrow>
                         handle_exception ending task_id later (sa_timeout state) exc
                           (if committed then completed else meanwhile rows)))))"

section \<open>The lifecycle\<close>

record subagent_context =
  sc_profile :: string
  sc_session :: string
  sc_run :: int
  sc_actor :: string

record run_accepted =
  ra_task :: string
  ra_name :: string
  ra_timeout :: int

text \<open>
  \<open>resolved\<close> is the name of the descriptor found, \<open>spawned\<close> None when the worker was started and the
  exception otherwise. The task is committed before the worker is started.
\<close>

definition run_subagent ::
    "subagent_settings \<Rightarrow> policy_env \<Rightarrow> profile_policy \<Rightarrow> subagent_context \<Rightarrow> string \<Rightarrow> int option \<Rightarrow> string res \<Rightarrow> string
       \<Rightarrow> instant \<Rightarrow> instant \<Rightarrow> string option \<Rightarrow> subagent_rows \<Rightarrow> subagent_rows \<times> run_accepted res" where
  "run_subagent cfg env policy ctx prompt timeout resolved task_id now later spawned rows =
     (if sc_actor ctx = ''subagent'' then (rows, service_error ''subagent_recursive_spawn_forbidden'')
      else (let rows = prune_expired_tasks cfg now rows in
        case bindE resolved (\<lambda>nm. bindE (ensure_subagent_run_allowed env policy) (\<lambda>_. Inr nm)) of
          Inl e \<Rightarrow> (rows, Inl e)
        | Inr nm \<Rightarrow>
            (let limit = resolve_timeout timeout cfg;
                 rows = create_task \<lparr>sa_id = task_id, sa_profile = sc_profile ctx, sa_session = sc_session ctx,
                    sa_run = Some (sc_run ctx), sa_name = nm, sa_prompt = prompt, sa_timeout = limit,
                    sa_status = Sub_Running, sa_created = now, sa_started = None, sa_finished = None,
                    sa_child_session = None, sa_child_run = None, sa_output = None, sa_error = None, sa_reason = None\<rparr> rows
             in case spawned of
                  Some exc \<Rightarrow>
                    (fst (finish_task task_id later (fail_outcome ''subagent_worker_spawn_failed'' (''Failed to start worker: '' @ exc)) rows),
                     service_error ''subagent_worker_spawn_failed'')
                | None \<Rightarrow> (rows, Inr \<lparr>ra_task = task_id, ra_name = nm, ra_timeout = limit\<rparr>))))"

record subagent_response =
  sr_task :: string
  sr_status :: subagent_status
  sr_child_session :: "string option"
  sr_child_run :: "int option"
  sr_output :: "string option"
  sr_error :: "string option"
  sr_reason :: "string option"

definition stored_response :: "subagent_task \<Rightarrow> subagent_response" where
  "stored_response r = \<lparr>sr_task = sa_id r, sr_status = sa_status r, sr_child_session = sa_child_session r,
     sr_child_run = sa_child_run r, sr_output = sa_output r, sr_error = sa_error r, sr_reason = sa_reason r\<rparr>"

definition subagent_result ::
    "subagent_settings \<Rightarrow> string \<Rightarrow> string \<Rightarrow> string \<Rightarrow> instant \<Rightarrow> instant \<Rightarrow> subagent_rows
       \<Rightarrow> (subagent_rows \<times> subagent_response) res" where
  "subagent_result cfg task_id profile session now later rows =
     bindE (load_state cfg task_id (Some profile) (Some session) True now later (prune_expired_tasks cfg now rows)) (\<lambda>(rows, r).
       Inr (rows, if sa_status r = Sub_Running
         then (stored_response r)\<lparr>sr_output := None, sr_error := Some ''subagent_not_finished'',
                 sr_reason := Some ''Subagent task is still running''\<rparr>
         else stored_response r))"

text \<open>\<open>meanwhile\<close>: what happens to the table while the worker is being stopped.\<close>

definition cancel_subagent ::
    "subagent_settings \<Rightarrow> string \<Rightarrow> string \<Rightarrow> string \<Rightarrow> instant \<Rightarrow> instant \<Rightarrow> (subagent_rows \<Rightarrow> subagent_rows) \<Rightarrow> subagent_rows
       \<Rightarrow> (subagent_rows \<times> subagent_response) res" where
  "cancel_subagent cfg task_id profile session now later meanwhile rows =
     bindE (load_state cfg task_id (Some profile) (Some session) False now now (prune_expired_tasks cfg now rows)) (\<lambda>(rows, r).
       if sa_status r \<noteq> Sub_Running then Inr (rows, stored_response r)
       else Inr (fst (finish_task task_id later cancel_outcome (meanwhile rows)),
         \<lparr>sr_task = task_id, sr_status = Sub_Cancelled, sr_child_session = None, sr_child_run = None, sr_output = None,
          sr_error = Some ''subagent_cancelled'', sr_reason = Some ''Subagent task was cancelled''\<rparr>))"

text \<open>
  One poll of the wait loop: the change by others before it, the clock of the table and the
  monotonic clock of the loop. None: the polls given have been used up.
\<close>

fun wait_polls ::
    "subagent_settings \<Rightarrow> string \<Rightarrow> string \<Rightarrow> string \<Rightarrow> int \<Rightarrow> ((subagent_rows \<Rightarrow> subagent_rows) \<times> instant \<times> int) list
       \<Rightarrow> subagent_rows \<Rightarrow> (subagent_rows \<times> subagent_status \<times> bool) res option" where
  "wait_polls cfg task_id profile session deadline [] rows = None"
| "wait_polls cfg task_id profile session deadline ((others, now, clock) # polls) rows =
     (case load_state cfg task_id (Some profile) (Some session) True now now (others rows) of
        Inl e \<Rightarrow> Some (Inl e)
      | Inr (rows, r) \<Rightarrow>
          if sa_status r \<noteq> Sub_Running then Some (Inr (rows, sa_status r, True))
          else if deadline \<le> clock then Some (Inr (rows, sa_status r, False))
          else wait_polls cfg task_id profile session deadline polls rows)"

definition wait_subagent ::
    "subagent_settings \<Rightarrow> string \<Rightarrow> string \<Rightarrow> string \<Rightarrow> int option \<Rightarrow> instant \<Rightarrow> int
       \<Rightarrow> ((subagent_rows \<Rightarrow> subagent_rows) \<times> instant \<times> int) list \<Rightarrow> subagent_rows
       \<Rightarrow> (subagent_rows \<times> subagent_status \<times> bool) res option" where
  "wait_subagent cfg task_id profile session timeout now start polls rows =
     wait_polls cfg task_id profile session (start + resolve_wait_timeout timeout cfg) polls (prune_expired_tasks cfg now rows)"

section \<open>The table\<close>

definition subagents_ok :: "subagent_rows \<Rightarrow> bool" where
  "subagents_ok rows \<longleftrightarrow> distinct (map sa_id rows) \<and> (\<forall>r \<in> set rows. sa_status r = Sub_Running \<longleftrightarrow> sa_finished r = None)"

text \<open>
  The writes of all processes. Identifiers are fresh (uuid4): a task created from here on has none
  of the identifiers in \<open>known\<close>.
\<close>

inductive sub_step :: "string set \<Rightarrow> subagent_rows \<Rightarrow> subagent_rows \<Rightarrow> bool" for known where
  created: "sa_id r \<notin> known \<union> sa_id ` set rows \<Longrightarrow> sa_status r = Sub_Running \<Longrightarrow> sa_finished r = None \<Longrightarrow>
     sub_step known rows (create_task r rows)"
| claimed: "sub_step known rows (fst (claim_task_start i now rows))"
| finished: "so_status oc \<noteq> Sub_Running \<Longrightarrow> sub_step known rows (fst (finish_task i now oc rows))"
| pruned: "sub_step known rows (delete_finished_before before rows)"

inductive_cases sub_step_cases: "sub_step known rows rows'"

lemma fst_claim: "fst (claim_task_start i now rows) = update_where (claimable i) (\<lambda>r. r\<lparr>sa_started := Some now\<rparr>) rows"
  by (simp add: claim_task_start_def Let_def rowcount_0_iff update_where_none)

lemma fst_finish: "fst (finish_task i now oc rows) = update_where (finishable i) (finished_task now oc) rows"
  by (simp add: finish_task_def)

lemma map_id_update: "(\<And>r. sa_id (f r) = sa_id r) \<Longrightarrow> map sa_id (update_where p f rows) = map sa_id rows"
  by (simp add: update_where_def)

lemma ball_update_where:
  "(\<And>r. r \<in> set rows \<Longrightarrow> p r \<Longrightarrow> P (f r)) \<Longrightarrow> (\<And>r. r \<in> set rows \<Longrightarrow> \<not> p r \<Longrightarrow> P r)
     \<Longrightarrow> \<forall>r \<in> set (update_where p f rows). P r"
  by (auto simp: update_where_def)

lemma sub_step_ok:
  assumes "sub_step known rows rows'" and "subagents_ok rows"
  shows "subagents_ok rows'"
  using assms
proof (cases rule: sub_step.cases)
  case (created r)
  then show ?thesis using assms(2) by (auto simp: subagents_ok_def create_task_def)
next
  case (claimed i now)
  have "map sa_id rows' = map sa_id rows" unfolding claimed fst_claim by (rule map_id_update) simp
  moreover have "\<forall>r \<in> set rows'. sa_status r = Sub_Running \<longleftrightarrow> sa_finished r = None"
    unfolding claimed fst_claim by (rule ball_update_where) (use assms(2) in \<open>simp_all add: subagents_ok_def\<close>)
  ultimately show ?thesis using assms(2) unfolding subagents_ok_def by simp
next
  case (finished oc i now)
  have "map sa_id rows' = map sa_id rows" unfolding finished fst_finish by (rule map_id_update) (simp add: finished_task_def)
  moreover have "\<forall>r \<in> set rows'. sa_status r = Sub_Running \<longleftrightarrow> sa_finished r = None"
    unfolding finished(1) fst_finish
    by (rule ball_update_where) (use assms(2) finished(2) in \<open>simp_all add: subagents_ok_def finished_task_def\<close>)
  ultimately show ?thesis using assms(2) unfolding subagents_ok_def by simp
next
  case (pruned before)
  then show ?thesis using assms(2) by (auto simp: subagents_ok_def delete_finished_before_def delete_where_def distinct_map_filter)
qed

lemma steps_ok: "(sub_step known)\<^sup>*\<^sup>* rows rows' \<Longrightarrow> subagents_ok rows \<Longrightarrow> subagents_ok rows'"
  by (induction rule: rtranclp_induct) (auto intro: sub_step_ok)

lemma ids_inject: "subagents_ok rows \<Longrightarrow> r \<in> set rows \<Longrightarrow> r' \<in> set rows \<Longrightarrow> sa_id r = sa_id r' \<Longrightarrow> r = r'"
  by (simp add: subagents_ok_def distinct_map inj_on_def)

text \<open>What a later row of a task still says of an earlier one.\<close>

definition same_task :: "subagent_task \<Rightarrow> subagent_task \<Rightarrow> bool" where
  "same_task r r' \<longleftrightarrow> sa_id r' = sa_id r \<and> sa_profile r' = sa_profile r \<and> sa_session r' = sa_session r
     \<and> sa_prompt r' = sa_prompt r \<and> sa_timeout r' = sa_timeout r
     \<and> (sa_started r \<noteq> None \<longrightarrow> sa_started r' = sa_started r)
     \<and> (sa_started r \<noteq> None \<longrightarrow> sa_status r' = Sub_Running \<longrightarrow> r' = r) \<and> (sa_status r \<noteq> Sub_Running \<longrightarrow> r' = r)"

lemma same_task_refl [simp]: "same_task r r"
  by (simp add: same_task_def)

lemma same_task_trans:
  assumes ab: "same_task a b" and bc: "same_task b c"
  shows "same_task a c"
proof (cases "sa_status b = Sub_Running")
  case True
  show ?thesis
  proof (cases "sa_started a = None")
    case none: True
    have "sa_status a = Sub_Running"
    proof (rule ccontr)
      assume "sa_status a \<noteq> Sub_Running"
      moreover from this ab have "b = a" by (simp add: same_task_def)
      ultimately show False using True by simp
    qed
    with ab bc True none show ?thesis unfolding same_task_def by simp
  next
    case False
    with ab True have "b = a" by (simp add: same_task_def)
    with bc show ?thesis by simp
  qed
next
  case False
  with bc have "c = b" by (simp add: same_task_def)
  with ab show ?thesis by simp
qed

lemma sub_step_same:
  assumes "sub_step known rows rows'" and r': "r' \<in> set rows'" and known: "sa_id r' \<in> known"
  obtains r where "r \<in> set rows" and "same_task r r'"
  using assms(1)
proof (cases rule: sub_step.cases)
  case (created r)
  with r' known that show thesis by (auto simp: create_task_def)
next
  case (claimed i now)
  with r' obtain r where "r \<in> set rows" "r' = (if claimable i r then r\<lparr>sa_started := Some now\<rparr> else r)"
    by (auto simp: fst_claim update_where_def)
  with that [of r] show thesis by (auto simp: same_task_def claimable_def)
next
  case (finished oc i now)
  with r' obtain r where "r \<in> set rows" "r' = (if finishable i r then finished_task now oc r else r)"
    by (auto simp: fst_finish update_where_def)
  moreover from finished(2) have "same_task r (finished_task now oc r)" if "finishable i r"
    using that by (simp add: same_task_def finishable_def finished_task_def)
  ultimately show thesis using that [of r] by (cases "finishable i r") simp_all
next
  case (pruned before)
  with r' that [of r'] show thesis by (auto simp: delete_finished_before_def delete_where_def)
qed

lemma steps_same:
  assumes "(sub_step known)\<^sup>*\<^sup>* rows rows'"
  shows "r' \<in> set rows' \<Longrightarrow> sa_id r' \<in> known \<Longrightarrow> \<exists>r \<in> set rows. same_task r r'"
  using assms
proof (induction arbitrary: r' rule: rtranclp_induct)
  case base
  then show ?case using same_task_refl by blast
next
  case (step rows1 rows2)
  obtain r1 where r1: "r1 \<in> set rows1" "same_task r1 r'" by (rule sub_step_same [OF step(2,4,5)])
  then have "sa_id r1 \<in> known" using step(5) by (simp add: same_task_def)
  from step(3) [OF r1(1) this] r1(2) same_task_trans show ?case by blast
qed

lemma get_subagent_None: "get_subagent i rows = None \<longleftrightarrow> i \<notin> sa_id ` set rows"
  unfolding get_subagent_def find_None_iff by blast

lemma get_subagent_Some:
  assumes "subagents_ok rows" and "r \<in> set rows"
  shows "get_subagent (sa_id r) rows = Some r"
proof (cases "get_subagent (sa_id r) rows")
  case None
  with assms(2) show ?thesis by (simp add: get_subagent_None)
next
  case (Some r')
  then have "r' \<in> set rows" "sa_id r' = sa_id r" by (auto simp: get_subagent_def find_Some_iff)
  with ids_inject [OF assms(1) _ assms(2)] Some show ?thesis by simp
qed

lemma claim_None_iff: "snd (claim_task_start i now rows) = None \<longleftrightarrow> (\<forall>r \<in> set rows. \<not> claimable i r)"
proof (cases "\<forall>r \<in> set rows. \<not> claimable i r")
  case True
  then show ?thesis by (simp add: claim_task_start_def rowcount_0_iff)
next
  case False
  then have "i \<in> set (map sa_id rows)" by (auto simp: claimable_def)
  then have "i \<in> set (map sa_id (update_where (claimable i) (\<lambda>r. r\<lparr>sa_started := Some now\<rparr>) rows))"
    by (subst map_id_update) simp_all
  with False show ?thesis by (simp add: claim_task_start_def Let_def rowcount_0_iff get_subagent_None)
qed

text \<open>C22 A subagent task is started once and settled once: whatever the processes do to the table, the row of a
  task keeps its owner, its prompt and its start, a settled row never changes, and a task that was
  started or settled is not claimed again.\<close>

theorem subagent_settles_once:
  assumes ok: "subagents_ok rows" and steps: "(sub_step known)\<^sup>*\<^sup>* rows rows'"
    and r: "r \<in> set rows" "sa_id r \<in> known" and r': "r' \<in> set rows'" "sa_id r' = sa_id r"
  shows "same_task r r' \<and> (sa_started r \<noteq> None \<or> sa_status r \<noteq> Sub_Running \<longrightarrow>
     snd (claim_task_start (sa_id r) now rows') = None)"
proof -
  have "sa_id r' \<in> known" using r(2) r'(2) by simp
  from steps_same [OF steps r'(1) this] obtain r0 where r0: "r0 \<in> set rows" "same_task r0 r'" by blast
  then have "sa_id r0 = sa_id r'" unfolding same_task_def by argo
  then have "r0 = r" using ids_inject [OF ok r0(1) r(1)] r'(2) by argo
  with r0(2) have same: "same_task r r'" by hypsubst
  have "\<not> claimable (sa_id r) c" if "sa_started r \<noteq> None \<or> sa_status r \<noteq> Sub_Running" "c \<in> set rows'" for c
  proof
    assume "claimable (sa_id r) c"
    moreover from this have "c = r'" using ids_inject [OF steps_ok [OF steps ok] that(2) r'(1)] r'(2) by (simp add: claimable_def)
    ultimately have c: "claimable (sa_id r) r'" by hypsubst
    show False
    proof (cases "sa_status r = Sub_Running")
      case True
      with that(1) same have "sa_started r' \<noteq> None" unfolding same_task_def by metis
      with c show False by (simp add: claimable_def)
    next
      case False
      with same have "r' = r" unfolding same_task_def by argo
      with c False show False by (simp add: claimable_def)
    qed
  qed
  then show ?thesis unfolding claim_None_iff using same by blast
qed

definition demo_subagent :: subagent_task where
  "demo_subagent = \<lparr>sa_id = ''t'', sa_profile = ''p'', sa_session = ''s'', sa_run = Some 1, sa_name = ''researcher'', sa_prompt = ''look'',
     sa_timeout = 60, sa_status = Sub_Running, sa_created = 0, sa_started = None, sa_finished = None,
     sa_child_session = None, sa_child_run = None, sa_output = None, sa_error = None, sa_reason = None\<rparr>"

definition demo_subagent_settings :: subagent_settings where
  "demo_subagent_settings = \<lparr>ss_timeout_default = 600, ss_timeout_max = 3600, ss_timeout_grace = 30, ss_wait_default = 15,
     ss_wait_max = 60, ss_task_ttl = 3600\<rparr>"

lemma demo_fields:
  "sa_id demo_subagent = ''t''" "sa_profile demo_subagent = ''p''" "sa_session demo_subagent = ''s''" "sa_status demo_subagent = Sub_Running"
  "sa_timeout demo_subagent = 60" "sa_created demo_subagent = 0" "sa_started demo_subagent = None" "sa_finished demo_subagent = None"
  "sa_child_session demo_subagent = None" "sa_child_run demo_subagent = None"
  by (simp_all add: demo_subagent_def)

lemma demo_prune: "prune_expired_tasks cfg now [demo_subagent] = [demo_subagent]"
  by (simp add: prune_expired_tasks_def delete_finished_before_def delete_where_def demo_fields)

lemma demo_subagents_ok: "subagents_ok [demo_subagent]" "subagents_ok [demo_subagent\<lparr>sa_started := Some 5\<rparr>]"
  by (simp_all add: subagents_ok_def demo_subagent_def)

theorem subagent_settles_once_witness:
  "snd (claim_task_start ''t'' 20 (fst (finish_task ''t'' 9 cancel_outcome [demo_subagent\<lparr>sa_started := Some 5\<rparr>]))) = None"
proof -
  let ?r = "demo_subagent\<lparr>sa_started := Some 5\<rparr>"
  have "(sub_step {''t''})\<^sup>*\<^sup>* [?r] (fst (finish_task ''t'' 9 cancel_outcome [?r]))"
    by (intro r_into_rtranclp sub_step.finished) (simp add: cancel_outcome_def)
  from subagent_settles_once [OF demo_subagents_ok(2) this, of ?r "finished_task 9 cancel_outcome ?r" 20] show ?thesis
    by (simp add: demo_subagent_def finish_task_def update_where_def finishable_def finished_task_def)
qed

text \<open>A running row is never pruned, and nothing but the end of a run takes a started row away.\<close>

lemma prune_sub_step: "sub_step known rows (prune_expired_tasks cfg now rows)"
  unfolding prune_expired_tasks_def by (rule sub_step.pruned)

lemma prune_subset: "set (prune_expired_tasks cfg now rows) \<subseteq> set rows"
  by (auto simp: prune_expired_tasks_def delete_finished_before_def delete_where_def)

lemma prune_running: "r \<in> set rows \<Longrightarrow> sa_finished r = None \<Longrightarrow> r \<in> set (prune_expired_tasks cfg now rows)"
  by (simp add: prune_expired_tasks_def delete_finished_before_def delete_where_def)

lemma finish_settles:
  assumes "so_status oc \<noteq> Sub_Running" and ok: "subagents_ok rows"
    and r: "r \<in> set (fst (finish_task i now oc rows))" "sa_id r = i"
  shows "sa_status r \<noteq> Sub_Running
    \<and> (r \<in> set rows \<or> (\<exists>r0 \<in> set rows. sa_id r0 = i \<and> sa_status r0 = Sub_Running \<and> r = finished_task now oc r0))"
proof -
  from r(1) obtain r0 where r0: "r0 \<in> set rows" "r = (if finishable i r0 then finished_task now oc r0 else r0)"
    by (auto simp: fst_finish update_where_def)
  show ?thesis
  proof (cases "finishable i r0")
    case True
    with r0 assms(1) show ?thesis by (auto simp: finishable_def finished_task_def)
  next
    case False
    with r0 have "r = r0" by simp
    with False r(2) ok r0(1) show ?thesis by (auto simp: finishable_def subagents_ok_def)
  qed
qed

lemma outcomes_final [simp]:
  "so_status (exception_outcome secs exc) \<noteq> Sub_Running" "so_status (complete_outcome cs cr out) \<noteq> Sub_Running"
  "so_status (fail_outcome e reason) \<noteq> Sub_Running" "so_status (timeout_outcome secs) \<noteq> Sub_Running"
  by (cases exc) (simp_all add: exception_outcome_def complete_outcome_def fail_outcome_def timeout_outcome_def cancel_outcome_def crash_outcome_def)

text \<open>A second settling write finds nothing to settle.\<close>

lemma finish_twice:
  assumes "so_status oc \<noteq> Sub_Running"
  shows "fst (finish_task i t' oc' (fst (finish_task i t oc rows))) = fst (finish_task i t oc rows)"
proof -
  have "\<forall>q \<in> set (fst (finish_task i t oc rows)). \<not> finishable i q"
    unfolding fst_finish by (rule ball_update_where) (use assms in \<open>simp_all add: finishable_def finished_task_def\<close>)
  then show ?thesis unfolding fst_finish [of i t' oc'] by (simp add: update_where_none)
qed

lemma claimed_row:
  assumes ok: "subagents_ok rows" and claim: "claim_task_start i now rows = (rows', Some state)"
  shows "state \<in> set rows'" and "sa_id state = i" and "sa_started state = Some now" and "sa_status state = Sub_Running"
proof -
  from claim have rows': "rows' = update_where (claimable i) (\<lambda>r. r\<lparr>sa_started := Some now\<rparr>) rows"
    and state: "get_subagent i rows' = Some state" and n: "rowcount (claimable i) rows \<noteq> 0"
    by (auto simp: claim_task_start_def Let_def split: if_splits)
  from state show st: "state \<in> set rows'" "sa_id state = i" by (auto simp: get_subagent_def find_Some_iff)
  from n obtain r where r: "r \<in> set rows" "claimable i r" by (auto simp: rowcount_0_iff)
  then have "r\<lparr>sa_started := Some now\<rparr> \<in> set rows'" unfolding rows' update_where_def by force
  moreover have "subagents_ok rows'"
    using sub_step_ok [OF sub_step.claimed [of undefined rows i now] ok] unfolding fst_claim rows' .
  ultimately have "state = r\<lparr>sa_started := Some now\<rparr>"
    using ids_inject [of rows' state "r\<lparr>sa_started := Some now\<rparr>"] st r by (simp add: claimable_def)
  with r(2) show "sa_started state = Some now" "sa_status state = Sub_Running" by (auto simp: claimable_def)
qed

definition committed_end :: "write_end \<Rightarrow> bool" where
  "committed_end ending \<longleftrightarrow> ending \<in> {Written, Write_Cancelled True}"

text \<open>The outcome a run commits, if it comes to commit one.\<close>

definition settling_outcome ::
    "(subagent_task \<Rightarrow> load_result) \<Rightarrow> (subagent_task \<Rightarrow> string \<Rightarrow> run_result) \<Rightarrow> completion_end \<Rightarrow> write_end \<Rightarrow> subagent_task \<Rightarrow>
       subagent_outcome option" where
  "settling_outcome load run completing ending state =
     (let last = (\<lambda>oc. if committed_end ending then Some oc else None) in
      case load state of
        Load_Raised \<Rightarrow> None
      | Load_Cancelled \<Rightarrow> None
      | Load_Missing text' \<Rightarrow> last (fail_outcome ''subagent_not_found'' (''Subagent not found: '' @ text'))
      | Loaded markdown \<Rightarrow>
          (case run state markdown of
             Run_Raised exc \<Rightarrow> last (exception_outcome (sa_timeout state) exc)
           | Run_Output out session child \<Rightarrow>
               (case completing of
                  Completion_Raised False exc \<Rightarrow> last (exception_outcome (sa_timeout state) exc)
                | _ \<Rightarrow> Some (complete_outcome (Some session) (Some child) (Some out)))))"

lemma settling_final: "settling_outcome load run completing ending state = Some oc \<Longrightarrow> so_status oc \<noteq> Sub_Running"
  by (auto simp: settling_outcome_def Let_def
      split: load_result.splits run_result.splits completion_end.splits if_splits bool.splits)

lemma last_write_rows:
  "fst (last_write ending i later oc answer rows) = (if committed_end ending then fst (finish_task i later oc rows) else rows)"
  by (cases ending) (auto simp: last_write_def committed_end_def Let_def)

lemma last_write_lost: "\<not> committed_end ending \<Longrightarrow> snd (last_write ending i later oc answer rows) \<in> {Execution_Raised, Execution_Cancelled}"
  by (cases ending) (auto simp: last_write_def committed_end_def Let_def)

lemma executed_rows:
  assumes claim: "claim_task_start task_id now (prune_expired_tasks cfg now rows) = (rows1, Some state)"
    and run: "execute_persisted_task cfg task_id now later load run completing ending meanwhile rows = (rows', answer)"
  shows "case settling_outcome load run completing ending state of
      None \<Rightarrow> rows' = meanwhile rows1 \<and> answer \<in> {Execution_Raised, Execution_Cancelled}
    | Some oc \<Rightarrow> rows' = fst (finish_task task_id later oc (meanwhile rows1))"
proof -
  have step: "rows' = fst r \<and> answer = snd r" if "execute_persisted_task cfg task_id now later load run completing ending meanwhile rows = r" for r
    using run that by auto
  note defs = execute_persisted_task_def Let_def claim settling_outcome_def handle_exception_def
  show ?thesis
  proof (cases "load state")
    case (Loaded md)
    show ?thesis
    proof (cases "run state md")
      case (Run_Output out cs cr)
      show ?thesis
      proof (cases completing)
        case (Completion_Raised committed exc)
        with step [OF refl] Loaded Run_Output last_write_lost [of ending] show ?thesis
          by (cases committed) (simp_all add: defs last_write_rows finish_twice)
      qed (use step [OF refl] Loaded Run_Output in \<open>simp add: defs\<close>)
    qed (use step [OF refl] Loaded last_write_lost [of ending] in \<open>simp add: defs last_write_rows\<close>)
  qed (use step [OF refl] last_write_lost [of ending] in \<open>simp_all add: defs last_write_rows\<close>)
qed

text \<open>A reader past the deadline of a task finds it settled, or settles it as timed out.\<close>

lemma overdue_settled:
  assumes ok: "subagents_ok rows" and r: "r \<in> set rows" "sa_id r = i" and due: "task_deadline cfg r \<le> now"
  shows "\<exists>rows' r'. load_state cfg i None None True now later rows = Inr (rows', r') \<and> sa_status r' \<noteq> Sub_Running"
proof -
  have get: "get_subagent i rows = Some r" using get_subagent_Some [OF ok r(1)] r(2) by simp
  let ?oc = "(timeout_outcome (sa_timeout r))\<lparr>so_child_session := sa_child_session r, so_child_run := sa_child_run r\<rparr>"
  let ?rows = "fst (finish_task i later ?oc rows)"
  have "map sa_id ?rows = map sa_id rows" unfolding fst_finish by (rule map_id_update) (simp add: finished_task_def)
  then have "i \<in> sa_id ` set ?rows" using r by (metis image_eqI list.set_map)
  then obtain r' where r': "get_subagent i ?rows = Some r'"
    using get_subagent_None [of i ?rows] by (cases "get_subagent i ?rows") auto
  then have mem: "r' \<in> set ?rows" "sa_id r' = i" by (auto simp: get_subagent_def find_Some_iff)
  have "so_status ?oc \<noteq> Sub_Running" by (simp add: timeout_outcome_def)
  from finish_settles [OF this ok mem] have "sa_status r' \<noteq> Sub_Running" by (rule conjunct1)
  with get r' due show ?thesis
    by (cases "sa_status r = Sub_Running") (auto simp: load_state_def ensure_owner_access_def is_task_overdue_def Let_def)
qed

text \<open>C23 What a claimed run leaves, whatever the child does (answers, fails, crashes, times out or is cancelled, or
  its descriptor is gone), however the loader and the settling writes end and whatever other processes do to
  the table meanwhile. When the run commits an outcome, the row of the task is not running afterwards: it
  holds that outcome unless somebody else settled it first, and then what they wrote. A run that commits none (the
  loader raised otherwise or was cancelled, or the last write raised or was cancelled) ends with an
  exception and leaves the row as it found it, and the first reader past the deadline of the task gets it
  settled.\<close>

theorem executed_subagent_settles:
  assumes ok: "subagents_ok rows"
    and claim: "claim_task_start task_id now (prune_expired_tasks cfg now rows) = (rows1, Some state)"
    and others: "(sub_step {task_id})\<^sup>*\<^sup>* rows1 (meanwhile rows1)"
    and run: "execute_persisted_task cfg task_id now later load run completing ending meanwhile rows = (rows', answer)"
    and r: "r \<in> set rows'" "sa_id r = task_id"
  shows "case settling_outcome load run completing ending state of
      Some oc \<Rightarrow> sa_status r \<noteq> Sub_Running \<and> (r = finished_task later oc state \<or> r \<in> set (meanwhile rows1))
    | None \<Rightarrow> answer \<in> {Execution_Raised, Execution_Cancelled} \<and> r \<in> set (meanwhile rows1)
        \<and> (sa_status r = Sub_Running \<longrightarrow> r = state)
        \<and> (\<forall>now' later'. task_deadline cfg r \<le> now' \<longrightarrow>
             (\<exists>rows'' r'. load_state cfg task_id None None True now' later' rows' = Inr (rows'', r') \<and> sa_status r' \<noteq> Sub_Running))"
proof -
  have ok0: "subagents_ok (prune_expired_tasks cfg now rows)" by (rule sub_step_ok [OF prune_sub_step [of undefined] ok])
  have ok1: "subagents_ok rows1"
    using sub_step_ok [OF sub_step.claimed [of undefined _ task_id now] ok0] claim by simp
  have ok2: "subagents_ok (meanwhile rows1)" by (rule steps_ok [OF others ok1])
  note state = claimed_row [OF ok0 claim]
  have same: "r0 = state" if r0: "r0 \<in> set (meanwhile rows1)" "sa_id r0 = task_id" "sa_status r0 = Sub_Running" for r0
  proof -
    from steps_same [OF others r0(1)] r0(2) obtain r1 where r1: "r1 \<in> set rows1" "same_task r1 r0" by blast
    then have "sa_id r1 = task_id" using r0(2) unfolding same_task_def by argo
    with ids_inject [OF ok1 r1(1) state(1)] state(2) have "r1 = state" by argo
    with r1(2) state(3) r0(3) show ?thesis unfolding same_task_def by simp
  qed
  show ?thesis
  proof (cases "settling_outcome load run completing ending state")
    case None
    with executed_rows [OF claim run] have rows': "rows' = meanwhile rows1" "answer \<in> {Execution_Raised, Execution_Cancelled}" by simp_all
    with None r same overdue_settled [OF ok2] show ?thesis by simp
  next
    case (Some oc)
    with executed_rows [OF claim run] have "rows' = fst (finish_task task_id later oc (meanwhile rows1))" by simp
    from finish_settles [OF settling_final [OF Some] ok2 r(1) [unfolded this] r(2)] same Some show ?thesis by auto
  qed
qed

theorem executed_subagent_settles_witness:
  "\<exists>r \<in> set (fst (execute_persisted_task demo_subagent_settings ''t'' 5 9 (\<lambda>r. Loaded ''# Researcher'') (\<lambda>r m. Run_Raised Run_Timed_Out)
       Completed Written (\<lambda>rows. rows) [demo_subagent])). sa_id r = ''t'' \<and> sa_status r \<noteq> Sub_Running"
proof -
  let ?load = "\<lambda>r. Loaded ''# Researcher''" and ?run = "\<lambda>r m. Run_Raised Run_Timed_Out"
  let ?r1 = "demo_subagent\<lparr>sa_started := Some 5\<rparr>"
  let ?r = "finished_task 9 (timeout_outcome 60) ?r1"
  have claim: "claim_task_start ''t'' 5 (prune_expired_tasks demo_subagent_settings 5 [demo_subagent]) = ([?r1], Some ?r1)"
    unfolding demo_prune by (simp add: claim_task_start_def rowcount_def Let_def update_where_def claimable_def get_subagent_def demo_fields)
  have run: "execute_persisted_task demo_subagent_settings ''t'' 5 9 ?load ?run Completed Written (\<lambda>rows. rows) [demo_subagent] = ([?r], Executed False)"
    unfolding execute_persisted_task_def Let_def claim
    by (simp add: handle_exception_def last_write_def finish_task_def update_where_def finishable_def exception_outcome_def demo_fields)
  have id: "sa_id ?r = ''t''" by (simp add: finished_task_def demo_fields)
  have r: "?r \<in> set [?r]" by simp
  have oc: "settling_outcome ?load ?run Completed Written ?r1 = Some (timeout_outcome 60)"
    by (simp add: settling_outcome_def committed_end_def exception_outcome_def Let_def demo_fields)
  from executed_subagent_settles [OF demo_subagents_ok(1) claim rtranclp.rtrancl_refl run r id, unfolded oc option.case]
  have "sa_status ?r \<noteq> Sub_Running" by (rule conjunct1)
  with run id show ?thesis by simp
qed

lemma loader_exception_leaves_running:
  assumes ok: "subagents_ok rows" and claim: "claim_task_start i now (prune_expired_tasks cfg now rows) = (rows1, Some state)"
    and load: "load state = Load_Raised"
  shows "execute_persisted_task cfg i now later load run completing ending meanwhile rows = (meanwhile rows1, Execution_Raised)"
    and "state \<in> set rows1 \<and> sa_status state = Sub_Running \<and> snd (claim_task_start i later' rows1) = None"
proof -
  show "execute_persisted_task cfg i now later load run completing ending meanwhile rows = (meanwhile rows1, Execution_Raised)"
    using load by (simp add: execute_persisted_task_def Let_def claim)
  have ok0: "subagents_ok (prune_expired_tasks cfg now rows)" by (rule sub_step_ok [OF prune_sub_step [of undefined] ok])
  have ok1: "subagents_ok rows1"
    using sub_step_ok [OF sub_step.claimed [of undefined _ i now] ok0] claim by simp
  note state = claimed_row [OF ok0 claim]
  have "\<not> claimable i c" if "c \<in> set rows1" for c
  proof
    assume c: "claimable i c"
    then have "c = state" using ids_inject [OF ok1 that state(1)] state(2) by (simp add: claimable_def)
    with c state(3) show False by (simp add: claimable_def)
  qed
  with state show "state \<in> set rows1 \<and> sa_status state = Sub_Running \<and> snd (claim_task_start i later' rows1) = None"
    unfolding claim_None_iff by blast
qed

text \<open>Reading a task.\<close>

lemma load_state_owner:
  assumes "load_state cfg i (Some profile) (Some session) mark now later rows = Inr (rows', r)"
  obtains r0 where "get_subagent i rows = Some r0" and "sa_profile r0 = profile" and "sa_session r0 = session"
  using assms
  by (auto simp: load_state_def ensure_owner_access_def service_error_def split: option.splits if_splits)

lemma load_state_cases:
  assumes ok: "subagents_ok rows" and load: "load_state cfg i profile session True now later rows = Inr (rows', r)"
  shows "get_subagent i rows' = Some r \<and> (sa_status r = Sub_Running \<longrightarrow> \<not> is_task_overdue cfg now r)"
proof -
  from load obtain r0 where r0: "get_subagent i rows = Some r0" by (auto simp: load_state_def service_error_def split: option.splits)
  show ?thesis
  proof (cases "sa_status r0 = Sub_Running \<and> is_task_overdue cfg now r0")
    case False
    with load r0 have "rows' = rows" "r = r0"
      by (auto simp: load_state_def ensure_owner_access_def service_error_def split: option.splits if_splits)
    with r0 False show ?thesis by simp
  next
    case True
    let ?oc = "(timeout_outcome (sa_timeout r0))\<lparr>so_child_session := sa_child_session r0, so_child_run := sa_child_run r0\<rparr>"
    from load r0 True have rows': "rows' = fst (finish_task i later ?oc rows)" and r: "get_subagent i rows' = Some r"
      by (auto simp: load_state_def ensure_owner_access_def service_error_def Let_def split: option.splits if_splits)
    from r have "r \<in> set rows'" "sa_id r = i" by (auto simp: get_subagent_def find_Some_iff)
    have "so_status ?oc \<noteq> Sub_Running" by (simp add: timeout_outcome_def)
    from finish_settles [OF this ok] \<open>r \<in> set rows'\<close> \<open>sa_id r = i\<close> have "sa_status r \<noteq> Sub_Running" unfolding rows' by blast
    with r show ?thesis by simp
  qed
qed

text \<open>A result is given only to the session that started the task, never says running past the deadline of
  the task (its start, or its acceptance when no worker ever started it, plus timeout and grace),
  and a final result is the settled row of the table.\<close>

theorem overdue_subagent_reported:
  assumes ok: "subagents_ok rows"
    and result: "subagent_result cfg task_id profile session now later rows = Inr (rows', resp)"
  shows "\<exists>r0 r. get_subagent task_id rows = Some r0 \<and> sa_profile r0 = profile \<and> sa_session r0 = session
    \<and> get_subagent task_id rows' = Some r \<and> sr_status resp = sa_status r
    \<and> (sa_status r = Sub_Running \<longrightarrow> now < task_deadline cfg r)
    \<and> (sa_status r \<noteq> Sub_Running \<longrightarrow> resp = stored_response r)"
proof -
  let ?rows = "prune_expired_tasks cfg now rows"
  from result obtain r where load: "load_state cfg task_id (Some profile) (Some session) True now later ?rows = Inr (rows', r)"
    and resp: "resp = (if sa_status r = Sub_Running
         then (stored_response r)\<lparr>sr_output := None, sr_error := Some ''subagent_not_finished'',
                 sr_reason := Some ''Subagent task is still running''\<rparr>
         else stored_response r)"
    by (auto simp: subagent_result_def bindE_def split: sum.splits prod.splits)
  have ok0: "subagents_ok ?rows" by (rule sub_step_ok [OF prune_sub_step [of undefined] ok])
  obtain r0 where r0: "get_subagent task_id ?rows = Some r0" "sa_profile r0 = profile" "sa_session r0 = session"
    by (rule load_state_owner [OF load])
  then have "r0 \<in> set rows" "sa_id r0 = task_id" using prune_subset [of cfg now rows] by (auto simp: get_subagent_def find_Some_iff)
  with get_subagent_Some [OF ok] have "get_subagent task_id rows = Some r0" by blast
  moreover have "get_subagent task_id rows' = Some r" "sa_status r = Sub_Running \<longrightarrow> now < task_deadline cfg r"
    using load_state_cases [OF ok0 load] by (simp_all add: is_task_overdue_def not_le)
  moreover have "sr_status resp = sa_status r" "sa_status r \<noteq> Sub_Running \<longrightarrow> resp = stored_response r"
    using resp by (simp_all add: stored_response_def)
  ultimately show ?thesis using r0 by blast
qed

theorem overdue_subagent_reported_witness:
  "\<exists>resp. sr_status resp = Sub_Timeout \<and> (\<exists>rows'. subagent_result demo_subagent_settings ''t'' ''p'' ''s'' 90000000 90000001 [demo_subagent] = Inr (rows', resp)
     \<and> (\<exists>r. get_subagent ''t'' rows' = Some r \<and> resp = stored_response r))"
proof -
  let ?r = "finished_task 90000001 (timeout_outcome 60) demo_subagent"
  have result: "subagent_result demo_subagent_settings ''t'' ''p'' ''s'' 90000000 90000001 [demo_subagent] = Inr ([?r], stored_response ?r)"
    by (simp add: subagent_result_def demo_prune load_state_def get_subagent_def ensure_owner_access_def bindE_def is_task_overdue_def task_deadline_def
        sub_seconds_def Let_def finish_task_def update_where_def finishable_def finished_task_def timeout_outcome_def demo_fields demo_subagent_settings_def)
  from overdue_subagent_reported [OF demo_subagents_ok(1) result] obtain r where
    r: "get_subagent ''t'' [?r] = Some r" "sr_status (stored_response ?r) = sa_status r" "sa_status r \<noteq> Sub_Running \<longrightarrow> stored_response ?r = stored_response r"
    by blast
  have "sr_status (stored_response ?r) = Sub_Timeout" by (simp add: stored_response_def finished_task_def timeout_outcome_def)
  with r result show ?thesis by (intro exI [of _ "stored_response ?r"] conjI exI [of _ "[?r]"] exI [of _ r]) simp_all
qed

text \<open>Waiting ends with the first poll past its deadline, and says done exactly for a settled task.\<close>

lemma wait_polls_ends:
  "poll \<in> set polls \<Longrightarrow> deadline \<le> snd (snd poll) \<Longrightarrow> wait_polls cfg i p s deadline polls rows \<noteq> None"
proof (induction polls arbitrary: rows)
  case (Cons first polls)
  obtain f now clock where first: "first = (f, now, clock)" by (cases first)
  show ?case
  proof (cases "deadline \<le> clock")
    case True
    with first show ?thesis by (auto split: sum.splits)
  next
    case False
    with Cons.prems first have "poll \<in> set polls" by auto
    with Cons.IH Cons.prems(2) first show ?thesis by (auto split: sum.splits)
  qed
qed simp

lemma wait_polls_done: "wait_polls cfg i p s deadline polls rows = Some (Inr (rows', st, fin)) \<Longrightarrow> fin \<longleftrightarrow> st \<noteq> Sub_Running"
proof (induction polls arbitrary: rows)
  case (Cons poll polls)
  obtain f now clock where poll: "poll = (f, now, clock)" by (cases poll)
  with Cons show ?case by (auto split: sum.splits if_splits)
qed simp

text \<open>What cancel answers may contradict the table: when the task is settled by its worker after cancel
  has read it as running, the settled outcome stays in the table, and cancel answers cancelled
  all the same.\<close>

theorem cancel_may_contradict_row:
  assumes ok: "subagents_ok rows" and r: "r \<in> set rows" "sa_status r = Sub_Running"
    and settled: "so_status oc \<noteq> Sub_Running"
  shows "\<exists>rows' resp. cancel_subagent cfg (sa_id r) (sa_profile r) (sa_session r) now later
      (\<lambda>rows. fst (finish_task (sa_id r) t oc rows)) rows = Inr (rows', resp)
    \<and> sr_status resp = Sub_Cancelled \<and> get_subagent (sa_id r) rows' = Some (finished_task t oc r)"
proof -
  let ?rows = "prune_expired_tasks cfg now rows"
  let ?rows1 = "fst (finish_task (sa_id r) t oc ?rows)"
  have fin: "sa_finished r = None" using ok r by (simp add: subagents_ok_def)
  have ok0: "subagents_ok ?rows" by (rule sub_step_ok [OF prune_sub_step [of undefined] ok])
  have ok1: "subagents_ok ?rows1" by (rule sub_step_ok [OF sub_step.finished [OF settled] ok0])
  have r0: "r \<in> set ?rows" by (rule prune_running [OF r(1) fin])
  have load: "load_state cfg (sa_id r) (Some (sa_profile r)) (Some (sa_session r)) False now now ?rows = Inr (?rows, r)"
    by (simp add: load_state_def get_subagent_Some [OF ok0 r0] ensure_owner_access_def bindE_def)
  have r1: "finished_task t oc r \<in> set ?rows1"
    using r0 r(2) fin unfolding fst_finish update_where_def by (force simp: finishable_def)
  have "\<not> finishable (sa_id r) c" if c: "c \<in> set ?rows1" for c
  proof
    assume f: "finishable (sa_id r) c"
    then have "c = finished_task t oc r" using ids_inject [OF ok1 c r1] by (simp add: finishable_def finished_task_def)
    with f settled show False by (simp add: finishable_def finished_task_def)
  qed
  then have "fst (finish_task (sa_id r) later cancel_outcome ?rows1) = ?rows1"
    unfolding fst_finish [of _ later] by (intro update_where_none) blast
  moreover have "get_subagent (sa_id r) ?rows1 = Some (finished_task t oc r)"
    using get_subagent_Some [OF ok1 r1] by (simp add: finished_task_def)
  ultimately show ?thesis using load r(2) by (simp add: cancel_subagent_def bindE_def)
qed

theorem cancel_may_contradict_row_witness:
  "\<exists>rows' resp. cancel_subagent demo_subagent_settings ''t'' ''p'' ''s'' 7 8
      (\<lambda>rows. fst (finish_task ''t'' 7 (complete_outcome (Some ''child'') (Some 2) (Some ''found it'')) rows)) [demo_subagent] = Inr (rows', resp)
    \<and> sr_status resp = Sub_Cancelled \<and> (\<exists>r. get_subagent ''t'' rows' = Some r \<and> sa_status r = Sub_Completed \<and> sa_output r = Some ''found it'')"
proof -
  let ?oc = "complete_outcome (Some ''child'') (Some 2) (Some ''found it'')"
  have "so_status ?oc \<noteq> Sub_Running" by (simp add: complete_outcome_def)
  from cancel_may_contradict_row [OF demo_subagents_ok(1) list.set_intros(1) demo_fields(4) this, of demo_subagent_settings 7 8 7]
  obtain rows' resp where *: "cancel_subagent demo_subagent_settings ''t'' ''p'' ''s'' 7 8 (\<lambda>rows. fst (finish_task ''t'' 7 ?oc rows)) [demo_subagent] = Inr (rows', resp)"
    "sr_status resp = Sub_Cancelled" "get_subagent ''t'' rows' = Some (finished_task 7 ?oc demo_subagent)"
    unfolding demo_fields by blast
  have "sa_status (finished_task 7 ?oc demo_subagent) = Sub_Completed" "sa_output (finished_task 7 ?oc demo_subagent) = Some ''found it''"
    by (simp_all add: finished_task_def complete_outcome_def)
  with * show ?thesis by blast
qed

end
