(* ===== verification/Chat_Turns.thy ===== *)
theory Chat_Turns
  imports Lease Py_Values
begin

text \<open>
  Idempotent chat turns of the API (services/agent_loop/api_runtime_turns.py and
  api_runtime_support.py, repositories/chat_turn_idempotency_repo.py): a request carries a client
  message id; the first one claims the key, runs the turn and stores its answer, the others wait
  for the stored answer. The turn itself, the JSON codec and the validation of the envelope are
  arguments. What other requests do between two transactions is an explicit change of the tables.
\<close>

section \<open>Tables\<close>

record turn_key =
  tk_profile :: string
  tk_session :: string
  tk_message :: string

record stored_turn =
  st_key :: turn_key
  st_run :: int
  st_envelope :: string

record turn_claim =
  tc_key :: turn_key
  tc_token :: string
  tc_updated :: instant

record turn_tables =
  tt_turns :: "stored_turn list"
  tt_claims :: "turn_claim list"

definition get_turn :: "turn_key \<Rightarrow> turn_tables \<Rightarrow> stored_turn option" where
  "get_turn key tables = find (\<lambda>r. st_key r = key) (tt_turns tables)"

text \<open>A write that violates the unique key is rolled back.\<close>

definition create_turn :: "stored_turn \<Rightarrow> turn_tables \<Rightarrow> turn_tables \<times> bool" where
  "create_turn row tables =
     (if st_key row \<in> st_key ` set (tt_turns tables) then (tables, False)
      else (tables\<lparr>tt_turns := tt_turns tables @ [row]\<rparr>, True))"

definition try_claim_turn :: "turn_key \<Rightarrow> string \<Rightarrow> instant \<Rightarrow> turn_tables \<Rightarrow> turn_tables \<times> bool" where
  "try_claim_turn key token now tables =
     (if key \<in> tc_key ` set (tt_claims tables) then (tables, False)
      else (tables\<lparr>tt_claims := tt_claims tables @ [\<lparr>tc_key = key, tc_token = token, tc_updated = now\<rparr>]\<rparr>, True))"

definition has_turn_claim :: "turn_key \<Rightarrow> turn_tables \<Rightarrow> bool" where
  "has_turn_claim key tables \<longleftrightarrow> list_ex (\<lambda>c. tc_key c = key) (tt_claims tables)"

definition owns_turn :: "turn_key \<Rightarrow> string \<Rightarrow> turn_claim \<Rightarrow> bool" where
  "owns_turn key token c \<longleftrightarrow> tc_key c = key \<and> tc_token c = token"

definition release_turn_claim :: "turn_key \<Rightarrow> string \<Rightarrow> turn_tables \<Rightarrow> turn_tables" where
  "release_turn_claim key token tables = tables\<lparr>tt_claims := delete_where (owns_turn key token) (tt_claims tables)\<rparr>"

definition stale_claim :: "turn_key \<Rightarrow> instant \<Rightarrow> turn_claim \<Rightarrow> bool" where
  "stale_claim key older c \<longleftrightarrow> tc_key c = key \<and> tc_updated c \<le> older"

definition release_stale_turn_claims :: "turn_key \<Rightarrow> instant \<Rightarrow> turn_tables \<Rightarrow> turn_tables \<times> nat" where
  "release_stale_turn_claims key older tables =
     (tables\<lparr>tt_claims := delete_where (stale_claim key older) (tt_claims tables)\<rparr>,
      rowcount (stale_claim key older) (tt_claims tables))"

definition touch_turn_claim :: "turn_key \<Rightarrow> string \<Rightarrow> instant \<Rightarrow> turn_tables \<Rightarrow> turn_tables \<times> bool" where
  "touch_turn_claim key token now tables =
     (tables\<lparr>tt_claims := update_where (owns_turn key token) (\<lambda>c. c\<lparr>tc_updated := now\<rparr>) (tt_claims tables)\<rparr>,
      0 < rowcount (owns_turn key token) (tt_claims tables))"

section \<open>Results\<close>

record 'e chat_turn_result =
  cr_run :: int
  cr_session :: string
  cr_profile :: string
  cr_envelope :: 'e

text \<open>
  \<open>cd_dump\<close>: the JSON text of an envelope; \<open>cd_parse\<close>: \<open>json.loads\<close>, None when it raises;
  \<open>cd_validate\<close>: the validation of the envelope's fields.
\<close>

record 'e codec =
  cd_dump :: "'e \<Rightarrow> string"
  cd_parse :: "string \<Rightarrow> pyval option"
  cd_validate :: "py_dict \<Rightarrow> 'e res"

definition envelope_payload :: "'e codec \<Rightarrow> string \<Rightarrow> py_dict" where
  "envelope_payload cd text' = (case cd_parse cd text' of Some (V_Dict xs) \<Rightarrow> xs | _ \<Rightarrow> [])"

definition idempotency_row_to_turn_result :: "'e codec \<Rightarrow> stored_turn \<Rightarrow> 'e chat_turn_result res" where
  "idempotency_row_to_turn_result cd row =
     bindE (cd_validate cd (envelope_payload cd (st_envelope row))) (\<lambda>envelope.
       Inr \<lparr>cr_run = st_run row, cr_session = tk_session (st_key row), cr_profile = tk_profile (st_key row), cr_envelope = envelope\<rparr>)"

section \<open>Claiming and waiting\<close>

text \<open>The answer of a stored turn, or whether the key has been claimed. \<open>between\<close>: what others do between the read and the claim.\<close>

datatype 'e claim_answer = Stored_Answer "'e chat_turn_result" | Claim_Answer bool

definition claim_or_load_existing_result ::
    "'e codec \<Rightarrow> turn_key \<Rightarrow> string \<Rightarrow> instant \<Rightarrow> (turn_tables \<Rightarrow> turn_tables) \<Rightarrow> turn_tables \<Rightarrow> turn_tables \<times> 'e claim_answer res" where
  "claim_or_load_existing_result cd key token now between tables =
     (case get_turn key tables of
        Some row \<Rightarrow> (tables, bindE (idempotency_row_to_turn_result cd row) (\<lambda>r. Inr (Stored_Answer r)))
      | None \<Rightarrow> (case try_claim_turn key token now (between tables) of
                   (tables, claimed) \<Rightarrow> (tables, Inr (Claim_Answer claimed))))"

definition wait_timeout :: int where
  "wait_timeout = 60 * 1000000"

definition turn_claim_ttl :: "int \<Rightarrow> int" where
  "turn_claim_ttl tool_timeout_max = max (300 * 1000000) (max (wait_timeout * 4) (tool_timeout_max * 3 * 1000000))"

definition idempotency_claim_cutoff :: "int \<Rightarrow> instant \<Rightarrow> instant" where
  "idempotency_claim_cutoff tool_timeout_max now = now - turn_claim_ttl tool_timeout_max"

text \<open>
  A poll: what others did since the last one, the monotonic clock, the clock of the tables. None:
  the polls given have been used up.
\<close>

type_synonym turn_poll = "(turn_tables \<Rightarrow> turn_tables) \<times> int \<times> instant"

fun wait_for_claimed_turn_result ::
    "'e codec \<Rightarrow> int \<Rightarrow> turn_key \<Rightarrow> int \<Rightarrow> turn_poll list \<Rightarrow> turn_tables \<Rightarrow> (turn_tables \<times> 'e chat_turn_result option res) option" where
  "wait_for_claimed_turn_result cd cfg key deadline [] tables = None"
| "wait_for_claimed_turn_result cd cfg key deadline ((others, clock, now) # polls) tables =
     (if deadline \<le> clock then Some (others tables, Inl Timeout_Error)
      else (let tables = others tables in
        case get_turn key tables of
          Some row \<Rightarrow> Some (tables, bindE (idempotency_row_to_turn_result cd row) (\<lambda>r. Inr (Some r)))
        | None \<Rightarrow>
            (case release_stale_turn_claims key (idempotency_claim_cutoff cfg now) tables of
               (tables, released) \<Rightarrow>
                 if 0 < released then Some (tables, Inr None)
                 else if \<not> has_turn_claim key tables then Some (tables, Inr None)
                 else wait_for_claimed_turn_result cd cfg key deadline polls tables)))"

text \<open>One round of the claim loop: interference, the time of the claim, the start of the wait and its polls.\<close>

record claim_round =
  rd_between :: "turn_tables \<Rightarrow> turn_tables"
  rd_now :: instant
  rd_start :: int
  rd_polls :: "turn_poll list"

datatype 'e claim_end = Claim_Won | Claim_Result "'e chat_turn_result" | Claim_Error app_error

fun claim_rounds ::
    "'e codec \<Rightarrow> int \<Rightarrow> turn_key \<Rightarrow> string \<Rightarrow> claim_round list \<Rightarrow> turn_tables \<Rightarrow> (turn_tables \<times> 'e claim_end) option" where
  "claim_rounds cd cfg key token [] tables = None"
| "claim_rounds cd cfg key token (rd # rds) tables =
     (case claim_or_load_existing_result cd key token (rd_now rd) (rd_between rd) tables of
        (tables, Inl e) \<Rightarrow> Some (tables, Claim_Error e)
      | (tables, Inr (Stored_Answer r)) \<Rightarrow> Some (tables, Claim_Result r)
      | (tables, Inr (Claim_Answer True)) \<Rightarrow> Some (tables, Claim_Won)
      | (tables, Inr (Claim_Answer False)) \<Rightarrow>
          (case wait_for_claimed_turn_result cd cfg key (rd_start rd + wait_timeout) (rd_polls rd) tables of
             None \<Rightarrow> None
           | Some (tables, Inl e) \<Rightarrow> Some (tables, Claim_Error e)
           | Some (tables, Inr (Some r)) \<Rightarrow> Some (tables, Claim_Result r)
           | Some (tables, Inr None) \<Rightarrow> claim_rounds cd cfg key token rds tables))"

section \<open>Running a turn\<close>

definition store_or_reuse_result ::
    "'e codec \<Rightarrow> turn_key \<Rightarrow> 'e chat_turn_result \<Rightarrow> turn_tables \<Rightarrow> turn_tables \<times> 'e chat_turn_result res" where
  "store_or_reuse_result cd key result tables =
     (case create_turn \<lparr>st_key = key, st_run = cr_run result, st_envelope = cd_dump cd (cr_envelope result)\<rparr> tables of
        (tables, True) \<Rightarrow> (tables, Inr result)
      | (tables, False) \<Rightarrow>
          (case get_turn key tables of
             Some row \<Rightarrow> (tables, idempotency_row_to_turn_result cd row)
           | None \<Rightarrow> (tables, Inr result)))"

text \<open>
  Exceptions (cancellation included) that reach the request once it has the claim: \<open>te_claimed\<close> between the commit of
  the claim and the \<open>try\<close>; \<open>te_stored\<close> while the answer is stored and \<open>te_released\<close> while the claim is released, each
  with whether the write had been committed; \<open>te_heartbeat\<close> the exception the heartbeat task ended with. Awaiting
  that task in the \<open>finally\<close> lets all but a cancellation through, past the release.
\<close>

record turn_endings =
  te_claimed :: "app_error option"
  te_stored :: "(bool \<times> app_error) option"
  te_heartbeat :: "app_error option"
  te_released :: "(bool \<times> app_error) option"

definition store_answer ::
    "'e codec \<Rightarrow> turn_key \<Rightarrow> turn_endings \<Rightarrow> 'e chat_turn_result \<Rightarrow> turn_tables \<Rightarrow> turn_tables \<times> 'e chat_turn_result res" where
  "store_answer cd key ends result tables =
     (case store_or_reuse_result cd key result tables of
        (tables', answer) \<Rightarrow>
          (case te_stored ends of
             None \<Rightarrow> (tables', answer)
           | Some (committed, e) \<Rightarrow> (if committed then tables' else tables, Inl e)))"

definition close_claim ::
    "turn_key \<Rightarrow> string \<Rightarrow> turn_endings \<Rightarrow> 'e chat_turn_result res \<Rightarrow> turn_tables \<Rightarrow> turn_tables \<times> 'e chat_turn_result res" where
  "close_claim key token ends answer tables =
     (case te_heartbeat ends of
        Some e \<Rightarrow> (tables, Inl e)
      | None \<Rightarrow>
          (case te_released ends of
             None \<Rightarrow> (release_turn_claim key token tables, answer)
           | Some (committed, e) \<Rightarrow> (if committed then release_turn_claim key token tables else tables, Inl e)))"

text \<open>
  \<open>during\<close>: the changes while the turn runs, its heartbeat among them; \<open>outcome\<close>: the turn's
  result or the exception (cancellation included) it ends with; \<open>later\<close>: what others do before
  the claim is released.
\<close>

definition run_idempotent_chat_turn ::
    "'e codec \<Rightarrow> int \<Rightarrow> turn_key \<Rightarrow> string \<Rightarrow> claim_round list \<Rightarrow> (turn_tables \<Rightarrow> turn_tables) \<Rightarrow> 'e chat_turn_result res
       \<Rightarrow> turn_endings \<Rightarrow> (turn_tables \<Rightarrow> turn_tables) \<Rightarrow> turn_tables \<Rightarrow> (turn_tables \<times> 'e chat_turn_result res) option" where
  "run_idempotent_chat_turn cd cfg key token rds during outcome ends later tables =
     (case claim_rounds cd cfg key token rds tables of
        None \<Rightarrow> None
      | Some (tables, Claim_Error e) \<Rightarrow> Some (tables, Inl e)
      | Some (tables, Claim_Result r) \<Rightarrow> Some (tables, Inr r)
      | Some (tables, Claim_Won) \<Rightarrow>
          (case te_claimed ends of
             Some e \<Rightarrow> Some (tables, Inl e)
           | None \<Rightarrow>
               (case (case outcome of
                        Inl e \<Rightarrow> (during tables, Inl e)
                      | Inr result \<Rightarrow> store_answer cd key ends result (during tables)) of
                  (tables, answer) \<Rightarrow> Some (close_claim key token ends answer (later tables)))))"

section \<open>The writes of other requests\<close>

text \<open>Tokens are fresh (uuid4): nobody else claims under \<open>token\<close>.\<close>

inductive turn_step :: "'e codec \<Rightarrow> string \<Rightarrow> turn_tables \<Rightarrow> turn_tables \<Rightarrow> bool" for cd token where
  stored: "st_envelope row = cd_dump cd e \<Longrightarrow> turn_step cd token tables (fst (create_turn row tables))"
| claimed: "token' \<noteq> token \<Longrightarrow> turn_step cd token tables (fst (try_claim_turn key token' now tables))"
| touched: "turn_step cd token tables (fst (touch_turn_claim key token' now tables))"
| released: "token' \<noteq> token \<Longrightarrow> turn_step cd token tables (release_turn_claim key token' tables)"
| expired: "turn_step cd token tables (fst (release_stale_turn_claims key older tables))"

definition turn_steps :: "'e codec \<Rightarrow> string \<Rightarrow> (turn_tables \<Rightarrow> turn_tables) \<Rightarrow> bool" where
  "turn_steps cd token f \<longleftrightarrow> (\<forall>tables. (turn_step cd token)\<^sup>*\<^sup>* tables (f tables))"

definition rounds_steps :: "'e codec \<Rightarrow> string \<Rightarrow> claim_round list \<Rightarrow> bool" where
  "rounds_steps cd token rds \<longleftrightarrow> (\<forall>rd \<in> set rds. turn_steps cd token (rd_between rd) \<and> (\<forall>p \<in> set (rd_polls rd). turn_steps cd token (fst p)))"

definition codec_ok :: "'e codec \<Rightarrow> bool" where
  "codec_ok cd \<longleftrightarrow> (\<forall>e. \<exists>xs. cd_parse cd (cd_dump cd e) = Some (V_Dict xs) \<and> cd_validate cd xs = Inr e)"

definition turns_ok :: "'e codec \<Rightarrow> turn_tables \<Rightarrow> bool" where
  "turns_ok cd tables \<longleftrightarrow> distinct (map st_key (tt_turns tables)) \<and> (\<forall>r \<in> set (tt_turns tables). \<exists>e. st_envelope r = cd_dump cd e)"

lemmas turn_row_defs = create_turn_def try_claim_turn_def touch_turn_claim_def release_turn_claim_def release_stale_turn_claims_def

lemma turns_kept [simp]:
  "tt_turns (fst (try_claim_turn key token now tables)) = tt_turns tables"
  "tt_turns (fst (touch_turn_claim key token now tables)) = tt_turns tables"
  "tt_turns (release_turn_claim key token tables) = tt_turns tables"
  "tt_turns (fst (release_stale_turn_claims key older tables)) = tt_turns tables"
  by (simp_all add: turn_row_defs)

lemma create_turn_ok:
  assumes "turns_ok cd tables" and "st_envelope row = cd_dump cd e"
  shows "turns_ok cd (fst (create_turn row tables))"
  using assms by (auto simp: turns_ok_def create_turn_def)

lemma turns_ok_cong: "tt_turns tables' = tt_turns tables \<Longrightarrow> turns_ok cd tables' \<longleftrightarrow> turns_ok cd tables"
  by (simp add: turns_ok_def)

lemma turn_step_ok:
  assumes "turn_step cd token tables tables'" and "turns_ok cd tables"
  shows "turns_ok cd tables'"
  using assms(1)
proof (cases rule: turn_step.cases)
  case (stored row e)
  with assms(2) show ?thesis by (simp add: create_turn_ok)
qed (use assms(2) in \<open>simp_all add: turns_ok_def\<close>)

lemma turn_step_stays:
  assumes "turn_step cd token tables tables'" and "row \<in> set (tt_turns tables)"
  shows "row \<in> set (tt_turns tables')"
  using assms by (cases rule: turn_step.cases) (auto simp: create_turn_def)

lemma turn_steps_stays: "(turn_step cd token)\<^sup>*\<^sup>* tables tables' \<Longrightarrow> row \<in> set (tt_turns tables) \<Longrightarrow> row \<in> set (tt_turns tables')"
  by (induction rule: rtranclp_induct) (auto intro: turn_step_stays)

lemma turn_steps_ok: "(turn_step cd token)\<^sup>*\<^sup>* tables tables' \<Longrightarrow> turns_ok cd tables \<Longrightarrow> turns_ok cd tables'"
  by (induction rule: rtranclp_induct) (auto intro: turn_step_ok)

lemma get_turn_in: "get_turn key tables = Some row \<Longrightarrow> row \<in> set (tt_turns tables) \<and> st_key row = key"
  by (auto simp: get_turn_def find_Some_iff)

lemma get_turn_None: "get_turn key tables = None \<longleftrightarrow> key \<notin> st_key ` set (tt_turns tables)"
  by (auto simp: get_turn_def find_None_iff)

lemma get_turn_unique:
  assumes ok: "turns_ok cd tables" and row: "row \<in> set (tt_turns tables)"
  shows "get_turn (st_key row) tables = Some row"
proof (cases "get_turn (st_key row) tables")
  case None
  with row show ?thesis by (simp add: get_turn_None)
next
  case (Some row')
  with get_turn_in have "row' \<in> set (tt_turns tables)" "st_key row' = st_key row" by blast+
  moreover have "inj_on st_key (set (tt_turns tables))" using ok by (simp add: turns_ok_def distinct_map)
  ultimately have "row' = row" using row by (simp add: inj_on_def)
  with Some show ?thesis by simp
qed

text \<open>\<open>answers\<close>: the table holds the answer of the key.\<close>

definition answers :: "'e codec \<Rightarrow> turn_key \<Rightarrow> 'e chat_turn_result \<Rightarrow> turn_tables \<Rightarrow> bool" where
  "answers cd key r tables \<longleftrightarrow> (\<exists>row \<in> set (tt_turns tables). st_key row = key \<and> idempotency_row_to_turn_result cd row = Inr r)"

lemma answers_stay: "(turn_step cd token)\<^sup>*\<^sup>* tables tables' \<Longrightarrow> answers cd key r tables \<Longrightarrow> answers cd key r tables'"
  unfolding answers_def using turn_steps_stays by blast

lemma answers_get: "turns_ok cd tables \<Longrightarrow> answers cd key r tables \<Longrightarrow>
    \<exists>row. get_turn key tables = Some row \<and> idempotency_row_to_turn_result cd row = Inr r"
  unfolding answers_def using get_turn_unique by blast

lemma bindE_Inr_iff: "bindE m (\<lambda>x. Inr (f x)) = Inr y \<longleftrightarrow> (\<exists>x. m = Inr x \<and> y = f x)"
  by (cases m) (auto simp: bindE_def)

lemma claim_wait_reaches:
  assumes "\<forall>p \<in> set polls. turn_steps cd token (fst p)"
    and "wait_for_claimed_turn_result cd cfg key deadline polls tables = Some (tables', answer)"
  shows "(turn_step cd token)\<^sup>*\<^sup>* tables tables' \<and> (\<forall>r. answer = Inr (Some r) \<longrightarrow> answers cd key r tables')"
  using assms
proof (induction polls arbitrary: tables)
  case (Cons p polls)
  obtain others clock now where p: "p = (others, clock, now)" by (cases p)
  let ?t = "others tables" and ?older = "idempotency_claim_cutoff cfg now"
  obtain t2 released where rel: "release_stale_turn_claims key ?older ?t = (t2, released)" by fastforce
  have t: "(turn_step cd token)\<^sup>*\<^sup>* tables ?t" using Cons.prems(1) p by (simp add: turn_steps_def)
  then have t2: "(turn_step cd token)\<^sup>*\<^sup>* tables t2"
    using turn_step.expired [of cd token ?t key ?older] rel by (simp add: rtranclp.rtrancl_into_rtrancl)
  note wait = Cons.prems(2) [unfolded p wait_for_claimed_turn_result.simps Let_def]
  show ?case
  proof (cases "deadline \<le> clock")
    case True
    with wait have "tables' = ?t" "answer = Inl Timeout_Error" by simp_all
    with t show ?thesis by simp
  next
    case running: False
    show ?thesis
    proof (cases "get_turn key ?t")
      case (Some row)
      with wait running have "tables' = ?t" "answer = bindE (idempotency_row_to_turn_result cd row) (\<lambda>r. Inr (Some r))" by simp_all
      with t get_turn_in [OF Some] show ?thesis by (auto simp: bindE_Inr_iff answers_def)
    next
      case None
      show ?thesis
      proof (cases "0 < released \<or> \<not> has_turn_claim key t2")
        case True
        with wait running None rel have "tables' = t2" "answer = Inr None" by (simp_all split: if_splits)
        with t2 show ?thesis by simp
      next
        case False
        with wait running None rel have "wait_for_claimed_turn_result cd cfg key deadline polls t2 = Some (tables', answer)" by simp
        from Cons.IH [OF _ this] Cons.prems(1) have "(turn_step cd token)\<^sup>*\<^sup>* t2 tables'" "\<forall>r. answer = Inr (Some r) \<longrightarrow> answers cd key r tables'"
          by simp_all
        with rtranclp_trans [OF t2] show ?thesis by blast
      qed
    qed
  qed
qed simp

lemma claim_reaches:
  assumes "rounds_steps cd token rds"
    and "claim_rounds cd cfg key token rds tables = Some (tables', e)"
  shows "(e \<noteq> Claim_Won \<longrightarrow> (turn_step cd token)\<^sup>*\<^sup>* tables tables')
    \<and> (\<forall>r. e = Claim_Result r \<longrightarrow> answers cd key r tables')
    \<and> (e = Claim_Won \<longrightarrow> (\<exists>t1 now. (turn_step cd token)\<^sup>*\<^sup>* tables t1 \<and> tables' = fst (try_claim_turn key token now t1)))"
  using assms
proof (induction rds arbitrary: tables)
  case (Cons rd rds)
  let ?t = "rd_between rd tables"
  have t: "(turn_step cd token)\<^sup>*\<^sup>* tables ?t" using Cons.prems(1) by (simp add: rounds_steps_def turn_steps_def)
  note claim = Cons.prems(2) [unfolded claim_rounds.simps claim_or_load_existing_result_def]
  show ?case
  proof (cases "get_turn key tables")
    case (Some row)
    show ?thesis
    proof (cases "idempotency_row_to_turn_result cd row")
      case (Inl x)
      with claim Some show ?thesis by (auto simp: bindE_def)
    next
      case (Inr r)
      with claim Some have "tables' = tables" "e = Claim_Result r" by (simp_all add: bindE_def)
      with Inr get_turn_in [OF Some] show ?thesis by (auto simp: answers_def)
    qed
  next
    case None
    obtain t1 won where tried: "try_claim_turn key token (rd_now rd) ?t = (t1, won)" by (cases "try_claim_turn key token (rd_now rd) ?t")
    show ?thesis
    proof (cases won)
      case True
      with claim None tried have "tables' = t1" "e = Claim_Won" by simp_all
      with t tried show ?thesis by (intro conjI impI exI [of _ ?t] exI [of _ "rd_now rd"]) simp_all
    next
      case False
      with tried have t1: "t1 = ?t" by (auto simp: try_claim_turn_def split: if_splits)
      from claim None tried False t1 obtain t2 w where
        w: "wait_for_claimed_turn_result cd cfg key (rd_start rd + wait_timeout) (rd_polls rd) ?t = Some (t2, w)"
        by (cases "wait_for_claimed_turn_result cd cfg key (rd_start rd + wait_timeout) (rd_polls rd) ?t") auto
      from claim_wait_reaches [OF _ w] Cons.prems(1) have t2: "(turn_step cd token)\<^sup>*\<^sup>* ?t t2" "\<forall>r. w = Inr (Some r) \<longrightarrow> answers cd key r t2"
        by (auto simp: rounds_steps_def)
      from t t2(1) have reach: "(turn_step cd token)\<^sup>*\<^sup>* tables t2" by (rule rtranclp_trans)
      consider (error) x where "w = Inl x" | (none) "w = Inr None" | (some) r where "w = Inr (Some r)"
        by (cases w) auto
      then show ?thesis
      proof cases
        case error
        with claim None tried False t1 w have "tables' = t2" "e = Claim_Error x" by simp_all
        with reach show ?thesis by simp
      next
        case some
        with claim None tried False t1 w have "tables' = t2" "e = Claim_Result r" by simp_all
        with reach t2(2) some show ?thesis by simp
      next
        case none
        with claim None tried False t1 w have "claim_rounds cd cfg key token rds t2 = Some (tables', e)" by simp
        moreover have "rounds_steps cd token rds" using Cons.prems(1) by (simp add: rounds_steps_def)
        ultimately have ih: "(e \<noteq> Claim_Won \<longrightarrow> (turn_step cd token)\<^sup>*\<^sup>* t2 tables')
    \<and> (\<forall>r. e = Claim_Result r \<longrightarrow> answers cd key r tables')
    \<and> (e = Claim_Won \<longrightarrow> (\<exists>t1 now. (turn_step cd token)\<^sup>*\<^sup>* t2 t1 \<and> tables' = fst (try_claim_turn key token now t1)))"
          by (intro Cons.IH)
        show ?thesis
        proof (intro conjI impI)
          assume "e \<noteq> Claim_Won"
          with ih show "(turn_step cd token)\<^sup>*\<^sup>* tables tables'" using rtranclp_trans [OF reach] by blast
        next
          show "\<forall>r. e = Claim_Result r \<longrightarrow> answers cd key r tables'" using ih by blast
        next
          assume "e = Claim_Won"
          with ih obtain t1 now where "(turn_step cd token)\<^sup>*\<^sup>* t2 t1" "tables' = fst (try_claim_turn key token now t1)" by blast
          with rtranclp_trans [OF reach] show "\<exists>t1 now. (turn_step cd token)\<^sup>*\<^sup>* tables t1 \<and> tables' = fst (try_claim_turn key token now t1)"
            by blast
        qed
      qed
    qed
  qed
qed simp

lemma row_result_of_dump:
  assumes "codec_ok cd"
  shows "idempotency_row_to_turn_result cd \<lparr>st_key = key, st_run = n, st_envelope = cd_dump cd e\<rparr>
    = Inr \<lparr>cr_run = n, cr_session = tk_session key, cr_profile = tk_profile key, cr_envelope = e\<rparr>"
proof -
  from assms obtain xs where "cd_parse cd (cd_dump cd e) = Some (V_Dict xs)" "cd_validate cd xs = Inr e"
    unfolding codec_ok_def by blast
  then show ?thesis by (simp add: idempotency_row_to_turn_result_def envelope_payload_def bindE_def)
qed

lemma stored_row_answers:
  assumes "codec_ok cd" and "turns_ok cd tables" and "row \<in> set (tt_turns tables)"
  obtains r where "idempotency_row_to_turn_result cd row = Inr r"
proof -
  obtain k n v where row: "row = \<lparr>st_key = k, st_run = n, st_envelope = v\<rparr>" by (cases row)
  moreover from assms(2,3) obtain e where "st_envelope row = cd_dump cd e" unfolding turns_ok_def by blast
  ultimately show thesis using row_result_of_dump [OF assms(1), of k n e] that by simp
qed

lemma store_answers:
  assumes cd: "codec_ok cd" and ok: "turns_ok cd tables"
    and own: "cr_session result = tk_session key" "cr_profile result = tk_profile key"
    and store: "store_or_reuse_result cd key result tables = (tables', answer)"
  shows "turn_step cd token tables tables' \<and> (\<exists>r. answer = Inr r \<and> answers cd key r tables')"
proof -
  let ?row = "\<lparr>st_key = key, st_run = cr_run result, st_envelope = cd_dump cd (cr_envelope result)\<rparr>"
  have step: "turn_step cd token tables (fst (create_turn ?row tables))" by (rule turn_step.stored) simp
  show ?thesis
  proof (cases "key \<in> st_key ` set (tt_turns tables)")
    case False
    then have created: "create_turn ?row tables = (tables\<lparr>tt_turns := tt_turns tables @ [?row]\<rparr>, True)" by (simp add: create_turn_def)
    with store have t': "tables' = tables\<lparr>tt_turns := tt_turns tables @ [?row]\<rparr>" "answer = Inr result"
      by (simp_all add: store_or_reuse_result_def)
    have "idempotency_row_to_turn_result cd ?row = Inr result" using own by (simp add: row_result_of_dump [OF cd])
    with t' have "answers cd key result tables'" by (simp add: answers_def)
    with step t' created show ?thesis by simp
  next
    case True
    then have kept: "create_turn ?row tables = (tables, False)" by (simp add: create_turn_def)
    from True get_turn_None obtain row where row: "get_turn key tables = Some row" by blast
    obtain r where r: "idempotency_row_to_turn_result cd row = Inr r"
      using stored_row_answers [OF cd ok] get_turn_in [OF row] by blast
    from store kept row r have "tables' = tables" "answer = Inr r" by (simp_all add: store_or_reuse_result_def)
    moreover have "answers cd key r tables" using get_turn_in [OF row] r by (auto simp: answers_def)
    ultimately show ?thesis using step kept by simp
  qed
qed

lemma answers_cong: "tt_turns tables' = tt_turns tables \<Longrightarrow> answers cd key r tables' \<longleftrightarrow> answers cd key r tables"
  by (simp add: answers_def)

lemma close_claim_Inr:
  assumes "close_claim key token ends answer tables = (tables', Inr r)"
  shows "tables' = release_turn_claim key token tables" and "answer = Inr r"
  using assms by (auto simp: close_claim_def split: option.splits)

lemma store_answer_Inr: "store_answer cd key ends result tables = (tables', Inr r) \<Longrightarrow> store_or_reuse_result cd key result tables = (tables', Inr r)"
  by (auto simp: store_answer_def split: option.splits prod.splits)

lemma run_answers:
  assumes cd: "codec_ok cd" and ok: "turns_ok cd tables" and rds: "rounds_steps cd token rds"
    and during: "turn_steps cd token during" and later: "turn_steps cd token later"
    and own: "\<And>r. outcome = Inr r \<Longrightarrow> cr_session r = tk_session key \<and> cr_profile r = tk_profile key"
    and run: "run_idempotent_chat_turn cd cfg key token rds during outcome ends later tables = Some (tables', Inr r)"
  shows "turns_ok cd tables' \<and> answers cd key r tables'"
proof -
  from run obtain t1 e where claim: "claim_rounds cd cfg key token rds tables = Some (t1, e)"
    by (auto simp: run_idempotent_chat_turn_def split: option.splits)
  note reach = claim_reaches [OF rds claim]
  show ?thesis
  proof (cases e)
    case (Claim_Error x)
    with run claim show ?thesis by (simp add: run_idempotent_chat_turn_def)
  next
    case (Claim_Result r')
    with run claim have "tables' = t1" "r' = r" by (simp_all add: run_idempotent_chat_turn_def)
    with reach Claim_Result turn_steps_ok [OF _ ok] show ?thesis by blast
  next
    case Claim_Won
    with reach obtain t0 now where t0: "(turn_step cd token)\<^sup>*\<^sup>* tables t0" "t1 = fst (try_claim_turn key token now t0)" by blast
    have "turns_ok cd t0" by (rule turn_steps_ok [OF t0(1) ok])
    with t0(2) have ok1: "turns_ok cd t1" by (simp add: turns_ok_def)
    have steps1: "(turn_step cd token)\<^sup>*\<^sup>* t1 (during t1)" using during by (simp add: turn_steps_def)
    have ok2: "turns_ok cd (during t1)" by (rule turn_steps_ok [OF steps1 ok1])
    from run claim Claim_Won have tc: "te_claimed ends = None"
      by (cases "te_claimed ends") (simp_all add: run_idempotent_chat_turn_def)
    show ?thesis
    proof (cases outcome)
      case (Inl x)
      with run claim Claim_Won tc show ?thesis by (auto simp: run_idempotent_chat_turn_def dest: close_claim_Inr)
    next
      case (Inr result)
      obtain t2 answer where store: "store_answer cd key ends result (during t1) = (t2, answer)" by fastforce
      from run claim Claim_Won Inr store tc have "close_claim key token ends answer (later t2) = (tables', Inr r)"
        by (simp add: run_idempotent_chat_turn_def)
      note t' = close_claim_Inr [OF this]
      from store t'(2) have store: "store_or_reuse_result cd key result (during t1) = (t2, answer)" by (simp add: store_answer_Inr)
      from own [OF Inr] have "cr_session result = tk_session key" "cr_profile result = tk_profile key" by blast+
      from store_answers [OF cd ok2 this store, of token] t'(2) have t2: "turn_step cd token (during t1) t2" "answers cd key r t2" by auto
      have steps2: "(turn_step cd token)\<^sup>*\<^sup>* t2 (later t2)" using later by (simp add: turn_steps_def)
      have "turns_ok cd (later t2)" "answers cd key r (later t2)"
        using turn_steps_ok [OF steps2 turn_step_ok [OF t2(1) ok2]] answers_stay [OF steps2 t2(2)] .
      with t'(1) show ?thesis by (simp add: turns_ok_def answers_def)
    qed
  qed
qed

text \<open>C24 All answers for one message agree: when a request has been answered, whatever other requests with the
  same or other keys did before, during and after it, every later request with the same key gets
  the same answer, and neither runs the turn nor changes a table.\<close>

theorem turn_answers_agree:
  assumes cd: "codec_ok cd" and ok: "turns_ok cd tables" and rds: "rounds_steps cd token rds"
    and during: "turn_steps cd token during" and later: "turn_steps cd token later"
    and own: "\<And>r. outcome = Inr r \<Longrightarrow> cr_session r = tk_session key \<and> cr_profile r = tk_profile key"
    and run: "run_idempotent_chat_turn cd cfg key token rds during outcome ends later tables = Some (tables', Inr r)"
    and after: "(turn_step cd token')\<^sup>*\<^sup>* tables' tables''"
  shows "run_idempotent_chat_turn cd cfg' key token'' (rd # rds') during' outcome' ends' later' tables'' = Some (tables'', Inr r)"
proof -
  have *: "turns_ok cd tables'" "answers cd key r tables'" using run_answers [OF cd ok rds during later own run] by blast+
  obtain row where "get_turn key tables'' = Some row" "idempotency_row_to_turn_result cd row = Inr r"
    using answers_get [OF turn_steps_ok [OF after *(1)] answers_stay [OF after *(2)]] by blast
  then show ?thesis by (simp add: run_idempotent_chat_turn_def claim_or_load_existing_result_def bindE_def)
qed

definition demo_codec :: "string codec" where
  "demo_codec = \<lparr>cd_dump = (\<lambda>e. e), cd_parse = (\<lambda>t. Some (V_Dict [(''message'', V_Str t)])),
     cd_validate = (\<lambda>xs. case map_of xs ''message'' of Some (V_Str t) \<Rightarrow> Inr t | _ \<Rightarrow> Inl Value_Error)\<rparr>"

definition demo_turn_key :: turn_key where
  "demo_turn_key = \<lparr>tk_profile = ''p'', tk_session = ''s'', tk_message = ''m1''\<rparr>"

definition demo_round :: claim_round where
  "demo_round = \<lparr>rd_between = (\<lambda>t. t), rd_now = 5, rd_start = 0, rd_polls = []\<rparr>"

definition demo_answer :: "string chat_turn_result" where
  "demo_answer = \<lparr>cr_run = 7, cr_session = ''s'', cr_profile = ''p'', cr_envelope = ''done''\<rparr>"

definition demo_after :: turn_tables where
  "demo_after = \<lparr>tt_turns = [\<lparr>st_key = demo_turn_key, st_run = 7, st_envelope = ''done''\<rparr>], tt_claims = []\<rparr>"

definition smooth_ends :: turn_endings where
  "smooth_ends = \<lparr>te_claimed = None, te_stored = None, te_heartbeat = None, te_released = None\<rparr>"

lemma demo_codec_ok: "codec_ok demo_codec"
  by (simp add: codec_ok_def demo_codec_def)

lemma demo_idle: "turn_steps cd token (\<lambda>t. t)"
  by (simp add: turn_steps_def)

lemma demo_rounds: "rounds_steps cd token [demo_round]"
  by (simp add: rounds_steps_def demo_round_def demo_idle)

lemma demo_run:
  "run_idempotent_chat_turn demo_codec 120 demo_turn_key ''a'' [demo_round] (\<lambda>t. t) (Inr demo_answer) smooth_ends (\<lambda>t. t) \<lparr>tt_turns = [], tt_claims = []\<rparr>
    = Some (demo_after, Inr demo_answer)"
  by (simp add: run_idempotent_chat_turn_def smooth_ends_def store_answer_def close_claim_def claim_or_load_existing_result_def demo_round_def get_turn_def try_claim_turn_def
      store_or_reuse_result_def create_turn_def release_turn_claim_def owns_turn_def delete_where_def demo_answer_def demo_codec_def demo_after_def)

theorem turn_answers_agree_witness:
  "run_idempotent_chat_turn demo_codec 120 demo_turn_key ''b'' [demo_round] (\<lambda>t. t) (Inl Timeout_Error) smooth_ends (\<lambda>t. t) demo_after
    = Some (demo_after, Inr demo_answer)"
proof -
  have "turns_ok demo_codec \<lparr>tt_turns = [], tt_claims = []\<rparr>" by (simp add: turns_ok_def)
  moreover have "cr_session r = tk_session demo_turn_key \<and> cr_profile r = tk_profile demo_turn_key" if "Inr demo_answer = Inr r" for r
    using that by (auto simp: demo_answer_def demo_turn_key_def)
  ultimately show ?thesis
    by (rule turn_answers_agree [OF demo_codec_ok _ demo_rounds demo_idle demo_idle _ demo_run rtranclp.rtrancl_refl]) simp_all
qed

section \<open>Claims\<close>

datatype turn_claim_op = Touch_Turn instant | Release_Turn

fun run_turn_claim_op :: "turn_claim_op \<Rightarrow> turn_key \<Rightarrow> string \<Rightarrow> turn_tables \<Rightarrow> turn_tables \<times> bool" where
  "run_turn_claim_op (Touch_Turn now) key token tables = touch_turn_claim key token now tables"
| "run_turn_claim_op Release_Turn key token tables = (release_turn_claim key token tables, False)"

interpretation turn_lease: lease "\<lambda>t. set (tt_claims t)" tc_key "\<lambda>c. Some (tc_token c)" run_turn_claim_op
proof unfold_locales
  fix r k t x and d :: turn_tables
  assume "r \<in> set (tt_claims d)" and "\<not> (tc_key r = k \<and> Some (tc_token r) = Some t)"
  then show "r \<in> set (tt_claims (fst (run_turn_claim_op x k t d)))"
    by (cases x) (auto simp: touch_turn_claim_def release_turn_claim_def owns_turn_def set_update_where set_delete_where)
next
  fix r k t x and d :: turn_tables
  assume "r \<in> set (tt_claims (fst (run_turn_claim_op x k t d)))" and "r \<notin> set (tt_claims d)"
  then show "(\<exists>r0 \<in> set (tt_claims d). tc_key r0 = k \<and> Some (tc_token r0) = Some t) \<and> tc_key r = k
      \<and> (Some (tc_token r) = Some t \<or> Some (tc_token r) = None)"
    by (cases x) (auto simp: touch_turn_claim_def release_turn_claim_def owns_turn_def set_update_where set_delete_where split: if_splits)
next
  fix k t x and d :: turn_tables
  assume "snd (run_turn_claim_op x k t d)"
  then show "\<exists>r \<in> set (tt_claims d). tc_key r = k \<and> Some (tc_token r) = Some t"
    by (cases x) (auto simp: touch_turn_claim_def owns_turn_def rowcount_def filter_empty_conv)
qed

text \<open>What rivals of the holder of a claim do, as long as the claim is younger than their cutoffs.\<close>

inductive rival_step :: "turn_claim \<Rightarrow> turn_tables \<Rightarrow> turn_tables \<Rightarrow> bool" for c where
  stores: "rival_step c tables (fst (create_turn row tables))"
| claims: "rival_step c tables (fst (try_claim_turn key token now tables))"
| runs: "token \<noteq> tc_token c \<Longrightarrow> rival_step c tables (fst (run_turn_claim_op x key token tables))"
| expires: "older < tc_updated c \<Longrightarrow> rival_step c tables (fst (release_stale_turn_claims key older tables))"

lemma rival_step_keeps:
  assumes "rival_step c tables tables'" and "c \<in> set (tt_claims tables)"
  shows "c \<in> set (tt_claims tables')"
  using assms(1)
proof (cases rule: rival_step.cases)
  case (runs token x key)
  with assms(2) show ?thesis using turn_lease.frame [of c tables key token x] by blast
qed (use assms(2) in \<open>auto simp: create_turn_def try_claim_turn_def release_stale_turn_claims_def stale_claim_def set_delete_where\<close>)

text \<open>A claim is exclusive: as long as it is touched within the time limit, no rival takes it away, and
  nobody else claims the same message.\<close>

theorem turn_claim_exclusive:
  assumes "c \<in> set (tt_claims tables)" and "(rival_step c)\<^sup>*\<^sup>* tables tables'"
  shows "c \<in> set (tt_claims tables') \<and> \<not> snd (try_claim_turn (tc_key c) token now tables')"
proof -
  from assms(2) have "c \<in> set (tt_claims tables')"
    by (induction rule: rtranclp_induct) (simp_all add: assms(1) rival_step_keeps)
  then show ?thesis by (simp add: try_claim_turn_def)
qed

theorem turn_claim_exclusive_witness:
  "\<not> snd (try_claim_turn demo_turn_key ''b'' 9 (fst (release_stale_turn_claims demo_turn_key 4
     \<lparr>tt_turns = [], tt_claims = [\<lparr>tc_key = demo_turn_key, tc_token = ''a'', tc_updated = 5\<rparr>]\<rparr>)))"
proof -
  let ?c = "\<lparr>tc_key = demo_turn_key, tc_token = ''a'', tc_updated = 5\<rparr>"
  let ?t = "\<lparr>tt_turns = [], tt_claims = [?c]\<rparr>"
  have "(rival_step ?c)\<^sup>*\<^sup>* ?t (fst (release_stale_turn_claims demo_turn_key 4 ?t))"
    by (intro r_into_rtranclp rival_step.expires) simp
  from turn_claim_exclusive [OF _ this, of "''b''" 9] show ?thesis by simp
qed

definition claimed_by :: "string \<Rightarrow> turn_tables \<Rightarrow> bool" where
  "claimed_by token tables \<longleftrightarrow> token \<in> tc_token ` set (tt_claims tables)"

lemma turn_step_not_claimed:
  assumes "turn_step cd token tables tables'" and "\<not> claimed_by token tables"
  shows "\<not> claimed_by token tables'"
  using assms(1)
proof (cases rule: turn_step.cases)
  case (touched key token' now)
  with assms(2) show ?thesis by (auto simp: claimed_by_def touch_turn_claim_def update_where_def)
qed (use assms(2) in \<open>auto simp: claimed_by_def create_turn_def try_claim_turn_def release_turn_claim_def release_stale_turn_claims_def set_delete_where\<close>)

lemma turn_steps_not_claimed: "(turn_step cd token)\<^sup>*\<^sup>* tables tables' \<Longrightarrow> \<not> claimed_by token tables \<Longrightarrow> \<not> claimed_by token tables'"
  by (induction rule: rtranclp_induct) (auto dest: turn_step_not_claimed)

text \<open>The claims of a token are for one key.\<close>

definition claims_only :: "string \<Rightarrow> turn_key \<Rightarrow> turn_tables \<Rightarrow> bool" where
  "claims_only token key tables \<longleftrightarrow> (\<forall>c \<in> set (tt_claims tables). tc_token c = token \<longrightarrow> tc_key c = key)"

lemma turn_step_claims_only:
  assumes "turn_step cd token tables tables'" and "claims_only token key tables"
  shows "claims_only token key tables'"
  using assms(1)
proof (cases rule: turn_step.cases)
  case (touched key token' now)
  with assms(2) show ?thesis by (auto simp: claims_only_def touch_turn_claim_def update_where_def)
qed (use assms(2) in \<open>auto simp: claims_only_def create_turn_def try_claim_turn_def release_turn_claim_def release_stale_turn_claims_def set_delete_where\<close>)

lemma turn_steps_claims_only: "(turn_step cd token)\<^sup>*\<^sup>* tables tables' \<Longrightarrow> claims_only token key tables \<Longrightarrow> claims_only token key tables'"
  by (induction rule: rtranclp_induct) (auto intro: turn_step_claims_only)

definition left_open :: "turn_endings \<Rightarrow> bool" where
  "left_open ends \<longleftrightarrow> te_claimed ends \<noteq> None \<or> te_heartbeat ends \<noteq> None \<or> (case te_released ends of Some (False, e) \<Rightarrow> True | _ \<Rightarrow> False)"

lemma close_claim_ends:
  assumes "close_claim key token ends answer tables = (tables', answer')"
    and "te_claimed ends = None"
  shows "if left_open ends then tables' = tables \<and> (\<exists>e. answer' = Inl e) else tables' = release_turn_claim key token tables"
proof (cases "te_heartbeat ends")
  case None
  show ?thesis
  proof (cases "te_released ends")
    case (Some w)
    obtain committed e where w: "w = (committed, e)" by (cases w)
    with None Some assms show ?thesis by (cases committed) (auto simp: close_claim_def left_open_def)
  qed (use None assms in \<open>simp add: close_claim_def left_open_def\<close>)
qed (use assms in \<open>auto simp: close_claim_def left_open_def\<close>)

lemma store_answer_claims:
  assumes "store_answer cd key ends result tables = (tables', answer)"
  shows "tt_claims tables' = tt_claims tables"
proof -
  obtain t ans where store: "store_or_reuse_result cd key result tables = (t, ans)" by fastforce
  then have "tt_claims t = tt_claims tables"
    by (auto simp: store_or_reuse_result_def create_turn_def split: if_splits option.splits)
  with assms store show ?thesis
    by (cases "te_stored ends") (auto simp: store_answer_def)
qed

lemma released_none:
  "claims_only token key tables \<Longrightarrow> claims_only token key (release_turn_claim key token tables)
     \<and> \<not> claimed_by token (release_turn_claim key token tables)"
proof -
  assume only: "claims_only token key tables"
  have left: "c \<in> set (tt_claims tables) \<and> \<not> owns_turn key token c"
    if "c \<in> set (tt_claims (release_turn_claim key token tables))" for c
    using that by (simp add: release_turn_claim_def set_delete_where)
  with only show ?thesis unfolding claims_only_def claimed_by_def owns_turn_def by blast
qed

lemma stale_cleanup:
  assumes "claims_only token key tables" and "\<forall>c \<in> set (tt_claims tables). tc_key c = key \<longrightarrow> tc_updated c \<le> older"
  shows "\<not> claimed_by token (fst (release_stale_turn_claims key older tables))"
    and "snd (try_claim_turn key token' now (fst (release_stale_turn_claims key older tables)))"
proof -
  have left: "c \<in> set (tt_claims tables)" "tc_key c \<noteq> key"
    if "c \<in> set (tt_claims (fst (release_stale_turn_claims key older tables)))" for c
    using that assms(2) by (auto simp: release_stale_turn_claims_def stale_claim_def set_delete_where)
  then show "\<not> claimed_by token (fst (release_stale_turn_claims key older tables))"
    using assms(1) unfolding claimed_by_def claims_only_def by blast
  from left show "snd (try_claim_turn key token' now (fst (release_stale_turn_claims key older tables)))"
    unfolding try_claim_turn_def by auto
qed

text \<open>What a request does from the moment it holds its claim.\<close>

lemma claim_won_ends:
  assumes run: "run_idempotent_chat_turn cd cfg key token rds during outcome ends later tables = Some (tables', answer)"
    and claim: "claim_rounds cd cfg key token rds tables = Some (t1, Claim_Won)"
    and only: "claims_only token key t1" and during: "turn_steps cd token during" and later: "turn_steps cd token later"
  shows "claims_only token key tables' \<and> (if left_open ends then \<exists>e. answer = Inl e else \<not> claimed_by token tables')"
proof (cases "te_claimed ends")
  case (Some e)
  with run claim have "tables' = t1" "answer = Inl e" by (simp_all add: run_idempotent_chat_turn_def)
  with Some only show ?thesis by (simp add: left_open_def)
next
  case None
  have "(turn_step cd token)\<^sup>*\<^sup>* t1 (during t1)" using during by (simp add: turn_steps_def)
  then have only1: "claims_only token key (during t1)" using only by (rule turn_steps_claims_only)
  obtain t2 answer1 where t2: "claims_only token key t2" and close: "close_claim key token ends answer1 (later t2) = (tables', answer)"
  proof (cases outcome)
    case (Inl x)
    with run claim None that only1 show thesis by (simp add: run_idempotent_chat_turn_def)
  next
    case (Inr result)
    obtain t2 ans where store: "store_answer cd key ends result (during t1) = (t2, ans)" by fastforce
    then have "tt_claims t2 = tt_claims (during t1)" by (rule store_answer_claims)
    with only1 have "claims_only token key t2" by (simp add: claims_only_def)
    with run claim None Inr store that show thesis by (simp add: run_idempotent_chat_turn_def)
  qed
  have "(turn_step cd token)\<^sup>*\<^sup>* t2 (later t2)" using later by (simp add: turn_steps_def)
  then have only2: "claims_only token key (later t2)" using t2 by (rule turn_steps_claims_only)
  show ?thesis
  proof (cases "left_open ends")
    case True
    with close_claim_ends [OF close None] only2 show ?thesis by simp
  next
    case False
    with close_claim_ends [OF close None] only2 released_none [of token key "later t2"] show ?thesis by simp
  qed
qed

text \<open>C25 What a request leaves of its claim, however it ends (answered, failed, cancelled, timed out waiting). No
  claim under its token is left, unless an exception reached it where the code does not release: right after
  the claim was committed, out of its heartbeat task, or in the release itself. Then the request has raised, what is
  left under its token are claims of its own message only, and as soon as the claims of that message are stale the
  cleanup of a waiting request removes them and the message can be claimed again.\<close>

theorem claim_always_released:
  assumes fresh: "\<not> claimed_by token tables" and rds: "rounds_steps cd token rds"
    and during: "turn_steps cd token during" and later: "turn_steps cd token later"
    and run: "run_idempotent_chat_turn cd cfg key token rds during outcome ends later tables = Some (tables', answer)"
  shows "\<not> claimed_by token tables'
    \<or> left_open ends \<and> (\<exists>e. answer = Inl e) \<and> (\<forall>c \<in> set (tt_claims tables'). tc_token c = token \<longrightarrow> tc_key c = key)
      \<and> (\<forall>older token' now. (\<forall>c \<in> set (tt_claims tables'). tc_key c = key \<longrightarrow> tc_updated c \<le> older) \<longrightarrow>
           (let cleaned = fst (release_stale_turn_claims key older tables')
            in \<not> claimed_by token cleaned \<and> snd (try_claim_turn key token' now cleaned)))"
proof -
  from run obtain t1 e where claim: "claim_rounds cd cfg key token rds tables = Some (t1, e)"
    by (auto simp: run_idempotent_chat_turn_def split: option.splits)
  note reach = claim_reaches [OF rds claim]
  show ?thesis
  proof (cases "e = Claim_Won")
    case False
    with run claim have "tables' = t1" by (cases e) (simp_all add: run_idempotent_chat_turn_def)
    with reach False turn_steps_not_claimed [OF _ fresh] show ?thesis by blast
  next
    case True
    with reach obtain t0 now where t0: "(turn_step cd token)\<^sup>*\<^sup>* tables t0" "t1 = fst (try_claim_turn key token now t0)" by blast
    have "\<not> claimed_by token t0" by (rule turn_steps_not_claimed [OF t0(1) fresh])
    with t0(2) have "claims_only token key t1" by (auto simp: claims_only_def claimed_by_def try_claim_turn_def)
    note ends = claim_won_ends [OF run claim [unfolded True] this during later]
    show ?thesis
    proof (cases "left_open ends")
      case open': True
      from ends have only: "claims_only token key tables'" by (rule conjunct1)
      from ends open' have raised: "\<exists>e. answer = Inl e" by simp
      have cleaned: "\<not> claimed_by token (fst (release_stale_turn_claims key older tables'))"
        "snd (try_claim_turn key token' now' (fst (release_stale_turn_claims key older tables')))"
        if "\<forall>c \<in> set (tt_claims tables'). tc_key c = key \<longrightarrow> tc_updated c \<le> older" for older token' now'
        by (rule stale_cleanup [OF only that])+
      with open' raised only show ?thesis unfolding Let_def claims_only_def by blast
    qed (use ends in simp)
  qed
qed

theorem claim_always_released_witness: "\<not> claimed_by ''a'' demo_after"
proof -
  have "\<not> claimed_by ''a'' \<lparr>tt_turns = [], tt_claims = []\<rparr>" by (simp add: claimed_by_def)
  from claim_always_released [OF this demo_rounds [of demo_codec] demo_idle demo_idle demo_run]
  show ?thesis by (auto simp: demo_answer_def)
qed

text \<open>
  A heartbeat that ended with an error of the database takes the place of the answer and of the release: the answer is
  stored, the request raises, and the claim stays.
\<close>

lemma heartbeat_error_keeps_claim:
  "run_idempotent_chat_turn demo_codec 120 demo_turn_key ''a'' [demo_round] (\<lambda>t. t) (Inr demo_answer)
     (smooth_ends\<lparr>te_heartbeat := Some (Service_Error ''database is locked'')\<rparr>) (\<lambda>t. t) \<lparr>tt_turns = [], tt_claims = []\<rparr>
    = Some (demo_after\<lparr>tt_claims := [\<lparr>tc_key = demo_turn_key, tc_token = ''a'', tc_updated = 5\<rparr>]\<rparr>, Inl (Service_Error ''database is locked''))"
  by (simp add: run_idempotent_chat_turn_def smooth_ends_def store_answer_def close_claim_def claim_or_load_existing_result_def
      demo_round_def get_turn_def try_claim_turn_def store_or_reuse_result_def create_turn_def demo_answer_def demo_codec_def demo_after_def)

text \<open>
  The read and the claim of one round are two steps: when the owner stores its answer and releases
  its claim between them, the claim succeeds although the turn has been carried out.
\<close>

theorem answered_turn_claimed_again:
  assumes none: "get_turn key tables = None" and owner: "\<forall>c \<in> set (tt_claims tables). tc_key c = key \<longrightarrow> tc_token c = owner"
    and row: "st_key row = key"
  shows "\<exists>tables'. claim_or_load_existing_result cd key token now (\<lambda>t. release_turn_claim key owner (fst (create_turn row t))) tables
      = (tables', Inr (Claim_Answer True)) \<and> row \<in> set (tt_turns tables')"
proof -
  let ?t = "release_turn_claim key owner (fst (create_turn row tables))"
  have "key \<notin> tc_key ` set (tt_claims ?t)"
    using owner by (auto simp: release_turn_claim_def create_turn_def owns_turn_def set_delete_where)
  moreover have "row \<in> set (tt_turns ?t)"
    using none row by (simp add: get_turn_None create_turn_def)
  ultimately show ?thesis using none by (simp add: claim_or_load_existing_result_def try_claim_turn_def)
qed

end
