(* ===== verification/UI_Auth.thy ===== *)
theory UI_Auth
  imports Rate_Limit
begin

text \<open>
  Authentication of the web interface (services/ui_auth, api/routes_auth.py,
  api/ui_auth_middleware.py): the limiter of failed logins, password hashes, the encrypted session
  cookie, the surfaces that need a session, the login route and the middleware. The scrypt and
  SHA-256 functions, base64, the encryption of the cookie together with its JSON text, the reading
  of a JSON float as an integer and the URL quoting are arguments. The limiter's clock is monotonic,
  in microseconds; the cookie's clock is in whole seconds.
\<close>

section \<open>The limiter\<close>

text \<open>\<open>OrderedDict\<close>: the least recently used key first.\<close>

definition max_rate_limit_buckets :: nat where
  "max_rate_limit_buckets = 4096"

definition trim_bucket :: "instant \<Rightarrow> int \<Rightarrow> instant list \<Rightarrow> instant list" where
  "trim_bucket now window_sec bucket = dropWhile (\<lambda>t. t \<le> now - window_of window_sec) bucket"

definition sweep :: "instant \<Rightarrow> int \<Rightarrow> buckets \<Rightarrow> buckets" where
  "sweep now window_sec ev = filter (\<lambda>kb. snd kb \<noteq> []) (map (\<lambda>(k, b). (k, trim_bucket now window_sec b)) ev)"

definition without_key :: "string \<Rightarrow> buckets \<Rightarrow> buckets" where
  "without_key key ev = filter (\<lambda>kb. fst kb \<noteq> key) ev"

definition evict_if_oversized :: "nat \<Rightarrow> buckets \<Rightarrow> buckets" where
  "evict_if_oversized max_buckets ev = drop (length ev - max max_buckets 1) ev"

definition seconds_left :: "instant \<Rightarrow> int \<Rightarrow> instant list \<Rightarrow> int" where
  "seconds_left now window_sec bucket = max 1 (ceil_sec (hd bucket + window_of window_sec - now))"

definition login_retry_after :: "instant \<Rightarrow> string \<Rightarrow> int \<Rightarrow> int \<Rightarrow> buckets \<Rightarrow> buckets \<times> int option" where
  "login_retry_after now key window_sec max_attempts ev =
     (let ev = sweep now window_sec ev in
      case map_of ev key of
        None \<Rightarrow> (ev, None)
      | Some bucket \<Rightarrow> (without_key key ev @ [(key, bucket)],
          if length bucket < limit_of max_attempts then None else Some (seconds_left now window_sec bucket)))"

definition add_login_failure :: "nat \<Rightarrow> instant \<Rightarrow> string \<Rightarrow> int \<Rightarrow> int \<Rightarrow> buckets \<Rightarrow> buckets \<times> int option" where
  "add_login_failure max_buckets now key window_sec max_attempts ev =
     (let ev = sweep now window_sec ev;
          bucket = bucket_of ev key @ [now]
      in (evict_if_oversized max_buckets (without_key key ev @ [(key, bucket)]),
          if length bucket < limit_of max_attempts then None else Some (seconds_left now window_sec bucket)))"

record ui_settings =
  us_mode :: string
  us_username :: "string option"
  us_password_hash :: "string option"
  us_session_ttl :: int
  us_idle_ttl :: int
  us_window :: int
  us_attempts :: int
  us_lockout :: int
  us_protected :: "string list"
  us_trust_proxy :: bool
  us_plugin_auth :: bool

definition normalize_key_part :: "(string \<Rightarrow> string) \<Rightarrow> string option \<Rightarrow> string" where
  "normalize_key_part hash value =
     (let normalized = lower (join_with '' '' (split_words (str_or_empty value))) in
      if normalized = [] then ''unknown''
      else take 64 normalized @ '':'' @ take 16 (hash normalized))"

definition ui_rate_limit_keys :: "(string \<Rightarrow> string) \<Rightarrow> string option \<Rightarrow> string option \<Rightarrow> string list" where
  "ui_rate_limit_keys hash remote_host username =
     (let host = normalize_key_part hash remote_host; user = normalize_key_part hash username in
      [''ui-auth:remote:'' @ host, ''ui-auth:user:'' @ user, ''ui-auth:remote-user:'' @ host @ '':'' @ user])"

definition login_window :: "ui_settings \<Rightarrow> int" where
  "login_window st = max (us_window st) (us_lockout st)"

fun visit_keys :: "(string \<Rightarrow> buckets \<Rightarrow> buckets \<times> int option) \<Rightarrow> int \<Rightarrow> string list \<Rightarrow> buckets \<Rightarrow> buckets \<times> int list" where
  "visit_keys f lockout [] ev = (ev, [])"
| "visit_keys f lockout (key # keys) ev =
     (case f key ev of (ev1, r) \<Rightarrow> (case visit_keys f lockout keys ev1 of
        (ev2, rs) \<Rightarrow> (ev2, (case r of None \<Rightarrow> rs | Some s \<Rightarrow> max s lockout # rs))))"

definition max_or_none :: "int list \<Rightarrow> int option" where
  "max_or_none rs = (case rs of [] \<Rightarrow> None | r # rs \<Rightarrow> Some (foldl max r rs))"

definition peek_ui_auth_retry_after ::
    "(string \<Rightarrow> string) \<Rightarrow> ui_settings \<Rightarrow> instant \<Rightarrow> string option \<Rightarrow> string option \<Rightarrow> buckets \<Rightarrow> buckets \<times> int option" where
  "peek_ui_auth_retry_after hash st now host user ev =
     (case visit_keys (\<lambda>key. login_retry_after now key (login_window st) (us_attempts st)) (us_lockout st)
            (ui_rate_limit_keys hash host user) ev of
        (ev, rs) \<Rightarrow> (ev, max_or_none rs))"

definition record_ui_auth_failure ::
    "(string \<Rightarrow> string) \<Rightarrow> ui_settings \<Rightarrow> instant \<Rightarrow> string option \<Rightarrow> string option \<Rightarrow> buckets \<Rightarrow> buckets \<times> int option" where
  "record_ui_auth_failure hash st now host user ev =
     (case visit_keys (\<lambda>key. add_login_failure max_rate_limit_buckets now key (login_window st) (us_attempts st)) (us_lockout st)
            (ui_rate_limit_keys hash host user) ev of
        (ev, rs) \<Rightarrow> (ev, max_or_none rs))"

definition reset_ui_auth_failures :: "(string \<Rightarrow> string) \<Rightarrow> string option \<Rightarrow> string option \<Rightarrow> buckets \<Rightarrow> buckets" where
  "reset_ui_auth_failures hash host user ev = fold without_key (ui_rate_limit_keys hash host user) ev"

section \<open>Passwords\<close>

type_synonym scrypt = "string \<Rightarrow> string \<Rightarrow> int \<Rightarrow> int \<Rightarrow> int \<Rightarrow> int \<Rightarrow> string option"

text \<open>\<open>scrypt password salt n r p dklen\<close>, None when it raises.\<close>

definition hash_ui_auth_password :: "scrypt \<Rightarrow> (string \<Rightarrow> string) \<Rightarrow> string \<Rightarrow> string \<Rightarrow> string res" where
  "hash_ui_auth_password scrypt b64encode salt password =
     (if length password < 8 then Inl Value_Error
      else (case scrypt password salt 16384 8 1 64 of
          None \<Rightarrow> Inl Value_Error
        | Some digest \<Rightarrow> Inr (join_with ''$'' [''scrypt'', int_str 16384, int_str 8, int_str 1, int_str 64, b64encode salt, b64encode digest])))"

definition parse_scrypt_hash :: "(string \<Rightarrow> string option) \<Rightarrow> string \<Rightarrow> (int \<times> int \<times> int \<times> int \<times> string \<times> string) option" where
  "parse_scrypt_hash b64decode encoded =
     (case split_on CHR ''$'' encoded of
        [prefix', n, r, p, dklen, salt, expected] \<Rightarrow>
          if prefix' \<noteq> ''scrypt'' then None
          else (case (py_int n, py_int r, py_int p, py_int dklen, b64decode salt, b64decode expected) of
              (Some n, Some r, Some p, Some dklen, Some salt, Some expected) \<Rightarrow>
                if n < 2 \<or> r < 1 \<or> p < 1 \<or> dklen < 16 then None else Some (n, r, p, dklen, salt, expected)
            | _ \<Rightarrow> None)
      | _ \<Rightarrow> None)"

text \<open>None: an exception leaves the function.\<close>

definition verify_ui_auth_password :: "scrypt \<Rightarrow> (string \<Rightarrow> string option) \<Rightarrow> string \<Rightarrow> string option \<Rightarrow> bool option" where
  "verify_ui_auth_password scrypt b64decode password encoded =
     (if str_or_empty encoded = [] then Some False
      else (case parse_scrypt_hash b64decode (str_or_empty encoded) of
          None \<Rightarrow> Some False
        | Some (n, r, p, dklen, salt, expected) \<Rightarrow>
            (case scrypt password salt n r p dklen of None \<Rightarrow> None | Some actual \<Rightarrow> Some (actual = expected))))"

definition password_hash_fingerprint :: "(string \<Rightarrow> string) \<Rightarrow> string option \<Rightarrow> string" where
  "password_hash_fingerprint hash encoded =
     (let normalized = strip (str_or_empty encoded) in if normalized = [] then [] else take 24 (hash normalized))"

text \<open>A stored password verifies exactly the passwords with the same digest under its salt.\<close>

lemma no_dollar: "CHR ''$'' \<notin> set (nat_str n)"
  using nat_str_digits [of n] by (auto simp: is_ascii_digit_def code_pt_def)

lemma password_verifies_iff:
  assumes b64: "\<And>x. b64decode (b64encode x) = Some x" "\<And>x. CHR ''$'' \<notin> set (b64encode x)"
    and stored: "hash_ui_auth_password scrypt b64encode salt password = Inr encoded"
  shows "\<exists>digest. scrypt password salt 16384 8 1 64 = Some digest
    \<and> verify_ui_auth_password scrypt b64decode other (Some encoded) = map_option (\<lambda>d. d = digest) (scrypt other salt 16384 8 1 64)"
proof -
  let ?parts = "\<lambda>d. [''scrypt'', int_str 16384, int_str 8, int_str 1, int_str 64, b64encode salt, b64encode d]"
  from stored obtain digest where d: "scrypt password salt 16384 8 1 64 = Some digest" and enc: "encoded = join_with ''$'' (?parts digest)"
    by (auto simp: hash_ui_auth_password_def split: if_splits option.splits)
  have free: "\<forall>x \<in> set [''scrypt'', int_str 16384, int_str 8, int_str 1, int_str 64]. CHR ''$'' \<notin> set x"
    by (simp add: int_str_def no_dollar)
  have parts: "split_on CHR ''$'' encoded = ?parts digest"
    unfolding enc by (rule split_on_join) (use free b64(2) in auto)
  have ints: "py_int (int_str 16384) = Some 16384" "py_int (int_str 8) = Some 8" "py_int (int_str 1) = Some 1" "py_int (int_str 64) = Some 64"
    by (simp_all add: int_str_def)
  have ne: "encoded \<noteq> []" unfolding enc by simp
  have "parse_scrypt_hash b64decode encoded = Some (16384, 8, 1, 64, salt, digest)"
    unfolding parse_scrypt_hash_def parts by (simp add: ints b64(1))
  with d ne show ?thesis by (auto simp: verify_ui_auth_password_def map_option_case split: option.splits)
qed

section \<open>The session cookie\<close>

record ui_session =
  un_username :: string
  un_issued :: int
  un_expires :: int
  un_last_seen :: int
  un_fingerprint :: string

record ui_cookie =
  ck_value :: string
  ck_max_age :: int
  ck_secure :: bool

text \<open>
  \<open>cc_seal\<close>: JSON text, then encryption; \<open>cc_open\<close>: decryption and JSON, None when one of them raises;
  \<open>cc_float_int\<close>: \<open>int\<close> of a JSON float.
\<close>

record cookie_codec =
  cc_hash :: "string \<Rightarrow> string"
  cc_seal :: "py_dict \<Rightarrow> string"
  cc_open :: "string \<Rightarrow> pyval option"
  cc_float_int :: "string \<Rightarrow> int option"

text \<open>\<open>int(x or d)\<close>.\<close>

definition int_or :: "int option \<Rightarrow> int \<Rightarrow> int" where
  "int_or x d = (case x of None \<Rightarrow> d | Some i \<Rightarrow> if i = 0 then d else i)"

definition cookie_payload :: "cookie_codec \<Rightarrow> ui_settings \<Rightarrow> int \<Rightarrow> string \<Rightarrow> int option \<Rightarrow> int option \<Rightarrow> int option \<Rightarrow> py_dict" where
  "cookie_payload cc st now username issued expires last_seen =
     (let issued_at = int_or issued now in
      [(''u'', V_Str username), (''iat'', V_Int issued_at), (''exp'', V_Int (int_or expires (issued_at + us_session_ttl st))),
       (''lst'', V_Int (int_or last_seen now)), (''pf'', V_Str (password_hash_fingerprint (cc_hash cc) (us_password_hash st)))])"

definition build_ui_auth_cookie :: "cookie_codec \<Rightarrow> ui_settings \<Rightarrow> int \<Rightarrow> string \<Rightarrow> int option \<Rightarrow> int option \<Rightarrow> int option \<Rightarrow> string" where
  "build_ui_auth_cookie cc st now username issued expires last_seen = cc_seal cc (cookie_payload cc st now username issued expires last_seen)"

fun cookie_int :: "cookie_codec \<Rightarrow> pyval \<Rightarrow> int option" where
  "cookie_int cc (V_Int i) = Some i"
| "cookie_int cc (V_Bool b) = Some (if b then 1 else 0)"
| "cookie_int cc (V_Float f) = cc_float_int cc f"
| "cookie_int cc (V_Str s) = py_int s"
| "cookie_int cc _ = None"

definition cookie_field :: "(pyval \<Rightarrow> 'a option) \<Rightarrow> py_dict \<Rightarrow> string \<Rightarrow> 'a option" where
  "cookie_field f xs name = (case map_of xs name of None \<Rightarrow> None | Some v \<Rightarrow> f v)"

definition cookie_session :: "cookie_codec \<Rightarrow> py_dict \<Rightarrow> ui_session option" where
  "cookie_session cc xs =
     (case (cookie_field (\<lambda>v. Some (strip (py_str v))) xs ''u'', cookie_field (cookie_int cc) xs ''iat'', cookie_field (cookie_int cc) xs ''exp'',
            cookie_field (cookie_int cc) xs ''lst'', cookie_field (\<lambda>v. Some (strip (py_str v))) xs ''pf'') of
        (Some u, Some iat, Some ex, Some lst, Some pf) \<Rightarrow>
          Some \<lparr>un_username = u, un_issued = iat, un_expires = ex, un_last_seen = lst, un_fingerprint = pf\<rparr>
      | _ \<Rightarrow> None)"

definition session_valid :: "cookie_codec \<Rightarrow> ui_settings \<Rightarrow> int \<Rightarrow> ui_session \<Rightarrow> bool" where
  "session_valid cc st now s \<longleftrightarrow> un_username s \<noteq> [] \<and> un_username s = strip (str_or_empty (us_username st))
     \<and> now < un_expires s \<and> now < un_last_seen s + us_idle_ttl st
     \<and> un_fingerprint s = password_hash_fingerprint (cc_hash cc) (us_password_hash st)"

definition is_ascii :: "string \<Rightarrow> bool" where
  "is_ascii s \<longleftrightarrow> list_all (\<lambda>c. code_pt c < 128) s"

definition read_ui_auth_session :: "cookie_codec \<Rightarrow> ui_settings \<Rightarrow> int \<Rightarrow> string option \<Rightarrow> ui_session option" where
  "read_ui_auth_session cc st now cookie =
     (let raw = strip (str_or_empty cookie) in
      if raw = [] \<or> \<not> is_ascii raw then None
      else (case cc_open cc raw of
          Some (V_Dict xs) \<Rightarrow>
            (case cookie_session cc xs of
               None \<Rightarrow> None
             | Some s \<Rightarrow> if session_valid cc st now s then Some s else None)
        | _ \<Rightarrow> None))"

record ui_request =
  rq_path :: string
  rq_query :: string
  rq_scheme :: string
  rq_cookie :: "string option"
  rq_forwarded_proto :: "string option"
  rq_forwarded_for :: "string option"
  rq_client :: "string option"

definition before_comma :: "string \<Rightarrow> string" where
  "before_comma s = takeWhile (\<lambda>c. c \<noteq> CHR '','') s"

definition cookie_secure :: "ui_settings \<Rightarrow> ui_request \<Rightarrow> bool" where
  "cookie_secure st rq =
     (let scheme = lower (strip (rq_scheme rq));
          forwarded = str_or_empty (rq_forwarded_proto rq);
          first = lower (strip (before_comma forwarded));
          scheme = (if us_trust_proxy st \<and> forwarded \<noteq> [] \<and> first \<noteq> [] then first else scheme)
      in scheme = ''https'')"

definition set_ui_auth_cookie ::
    "cookie_codec \<Rightarrow> ui_settings \<Rightarrow> ui_request \<Rightarrow> int \<Rightarrow> string \<Rightarrow> int option \<Rightarrow> int option \<Rightarrow> int option \<Rightarrow> ui_cookie" where
  "set_ui_auth_cookie cc st rq now username issued expires last_seen =
     \<lparr>ck_value = build_ui_auth_cookie cc st now username issued expires last_seen,
      ck_max_age = max 1 (int_or expires (now + us_session_ttl st) - now),
      ck_secure = cookie_secure st rq\<rparr>"

definition cookie_refresh_interval :: int where
  "cookie_refresh_interval = 60"

definition maybe_refresh_ui_auth_cookie :: "cookie_codec \<Rightarrow> ui_settings \<Rightarrow> ui_request \<Rightarrow> int \<Rightarrow> ui_session option \<Rightarrow> ui_cookie option" where
  "maybe_refresh_ui_auth_cookie cc st rq now session =
     (case session of
        None \<Rightarrow> None
      | Some s \<Rightarrow> if now - un_last_seen s < cookie_refresh_interval then None
          else Some (set_ui_auth_cookie cc st rq now (un_username s) (Some (un_issued s)) (Some (un_expires s)) (Some now)))"

section \<open>Protected surfaces\<close>

record plugin_mount =
  pm_plugin :: string
  pm_api :: "string option"
  pm_web :: "string option"
  pm_operator :: bool

record ui_surface =
  sf_protected :: bool
  sf_api :: bool
  sf_plugin :: "string option"
  sf_configured :: bool

definition ui_auth_is_configured :: "ui_settings \<Rightarrow> bool" where
  "ui_auth_is_configured st \<longleftrightarrow> us_mode st = ''password'' \<and> str_or_empty (us_username st) \<noteq> [] \<and> str_or_empty (us_password_hash st) \<noteq> []"

definition path_matches_prefix :: "string \<Rightarrow> string option \<Rightarrow> bool" where
  "path_matches_prefix path prefix' =
     (let p = strip (str_or_empty prefix') in p \<noteq> [] \<and> (path = p \<or> has_prefix (p @ ''/'') path))"

fun first_surface :: "bool \<Rightarrow> string \<Rightarrow> plugin_mount list \<Rightarrow> ui_surface option" where
  "first_surface configured path [] = None"
| "first_surface configured path (m # ms) =
     (if path_matches_prefix path (pm_api m)
      then Some \<lparr>sf_protected = True, sf_api = True, sf_plugin = Some (pm_plugin m), sf_configured = configured\<rparr>
      else if path_matches_prefix path (pm_web m)
      then Some \<lparr>sf_protected = True, sf_api = False, sf_plugin = Some (pm_plugin m), sf_configured = configured\<rparr>
      else first_surface configured path ms)"

definition protected_mount :: "ui_settings \<Rightarrow> plugin_mount \<Rightarrow> bool" where
  "protected_mount st m \<longleftrightarrow> pm_operator m
     \<or> pm_plugin m \<in> set (map (\<lambda>p. lower (strip p)) (filter (\<lambda>p. strip p \<noteq> []) (us_protected st)))"

definition resolve_ui_auth_surface :: "ui_settings \<Rightarrow> plugin_mount list \<Rightarrow> string \<Rightarrow> ui_surface" where
  "resolve_ui_auth_surface st mounts path =
     (let normalized = (if strip path = [] then ''/'' else strip path); configured = ui_auth_is_configured st in
      if configured \<and> us_plugin_auth st \<and> path_matches_prefix normalized (Some ''/v1/plugins'')
      then \<lparr>sf_protected = True, sf_api = True, sf_plugin = None, sf_configured = True\<rparr>
      else (case first_surface configured normalized (filter (protected_mount st) mounts) of
          Some s \<Rightarrow> s
        | None \<Rightarrow> \<lparr>sf_protected = False, sf_api = has_prefix ''/v1/'' normalized, sf_plugin = None, sf_configured = True\<rparr>))"

section \<open>Login and middleware\<close>

definition safe_next_path :: "string option \<Rightarrow> string" where
  "safe_next_path next_path =
     (let normalized = strip (str_or_empty next_path) in
      if \<not> has_prefix ''/'' normalized \<or> has_prefix ''//'' normalized then ''/'' else normalized)"

text \<open>The line of the login page's script that holds the path to go to: \<open>json.dumps\<close> of a string.\<close>

definition json_dumps_char :: "char \<Rightarrow> string" where
  "json_dumps_char c =
     (let p = code_pt c; bs = char_of (92 :: nat) in
      if c = double_quote \<or> c = bs then [bs, c]
      else if p = 10 then [bs, CHR ''n'']
      else if p = 13 then [bs, CHR ''r'']
      else if p = 9 then [bs, CHR ''t'']
      else if p = 8 then [bs, CHR ''b'']
      else if p = 12 then [bs, CHR ''f'']
      else if 32 \<le> p \<and> p < 127 then [c]
      else [bs, CHR ''u'', CHR ''0'', CHR ''0'', hex_char (p div 16), hex_char (p mod 16)])"

definition json_dumps_str :: "string \<Rightarrow> string" where
  "json_dumps_str s = [double_quote] @ concat (map json_dumps_char s) @ [double_quote]"

definition next_path_line :: "string option \<Rightarrow> string" where
  "next_path_line next_path = ''const nextPath = '' @ json_dumps_str (safe_next_path next_path) @ '';''"

definition remote_host :: "ui_settings \<Rightarrow> ui_request \<Rightarrow> string option" where
  "remote_host st rq =
     (let host = strip (before_comma (str_or_empty (rq_forwarded_for rq))) in
      if us_trust_proxy st \<and> str_or_empty (rq_forwarded_for rq) \<noteq> [] \<and> host \<noteq> [] then Some host else rq_client rq)"

text \<open>\<open>hmac.compare_digest\<close> of two strings, None when it raises: it accepts ASCII strings only.\<close>

definition compare_digest :: "string \<Rightarrow> string \<Rightarrow> bool option" where
  "compare_digest a b = (if is_ascii a \<and> is_ascii b then Some (a = b) else None)"

datatype login_answer =
  Login_Not_Configured
| Login_Limited int
| Login_Refused "int option"
| Login_Accepted ui_cookie
| Login_Raised

text \<open>\<open>now\<close> and \<open>later\<close>: the monotonic clock of the two visits to the limiter; \<open>clock\<close>: the time of the cookie.\<close>

definition post_auth_login ::
    "scrypt \<Rightarrow> (string \<Rightarrow> string option) \<Rightarrow> cookie_codec \<Rightarrow> ui_settings \<Rightarrow> ui_request \<Rightarrow> string \<Rightarrow> string \<Rightarrow> instant \<Rightarrow> instant \<Rightarrow> int
       \<Rightarrow> buckets \<Rightarrow> buckets \<times> login_answer" where
  "post_auth_login scrypt b64decode cc st rq username password now later clock ev =
     (if \<not> ui_auth_is_configured st then (ev, Login_Not_Configured)
      else (let host = remote_host st rq; provided = strip username in
        case peek_ui_auth_retry_after (cc_hash cc) st now host (Some provided) ev of
          (ev, Some s) \<Rightarrow> (ev, Login_Limited s)
        | (ev, None) \<Rightarrow>
            (case (verify_ui_auth_password scrypt b64decode password (us_password_hash st),
                   compare_digest provided (strip (str_or_empty (us_username st)))) of
               (Some password_ok, Some username_ok) \<Rightarrow>
                 if \<not> username_ok \<or> \<not> password_ok
                 then (case record_ui_auth_failure (cc_hash cc) st later host (Some provided) ev of (ev, r) \<Rightarrow> (ev, Login_Refused r))
                 else (reset_ui_auth_failures (cc_hash cc) host (Some provided) ev,
                       Login_Accepted (set_ui_auth_cookie cc st rq clock provided None None None))
             | _ \<Rightarrow> (ev, Login_Raised))))"

datatype ui_response =
  Passed_On "ui_cookie option"
| Rejected int string
| Redirected string

definition request_target :: "ui_request \<Rightarrow> string" where
  "request_target rq = (if rq_query rq = [] then rq_path rq else rq_path rq @ ''?'' @ rq_query rq)"

definition login_redirect_url :: "(string \<Rightarrow> string) \<Rightarrow> string \<Rightarrow> string" where
  "login_redirect_url quote next_path = ''/auth/login?next='' @ quote (safe_next_path (Some next_path))"

definition ui_auth_dispatch ::
    "cookie_codec \<Rightarrow> (string \<Rightarrow> string) \<Rightarrow> ui_settings \<Rightarrow> plugin_mount list \<Rightarrow> int \<Rightarrow> int \<Rightarrow> ui_request \<Rightarrow> ui_response" where
  "ui_auth_dispatch cc quote st mounts now later rq =
     (let surface = resolve_ui_auth_surface st mounts (rq_path rq) in
      if \<not> sf_protected surface then Passed_On None
      else if \<not> sf_configured surface then Rejected 503 ''ui_auth_not_configured''
      else (case read_ui_auth_session cc st now (rq_cookie rq) of
          None \<Rightarrow> if sf_api surface then Rejected 401 ''ui_auth_required''
                  else Redirected (login_redirect_url quote (request_target rq))
        | Some s \<Rightarrow> Passed_On (maybe_refresh_ui_auth_cookie cc st rq later (Some s))))"

section \<open>The bound on failed logins\<close>

definition bkeys :: "buckets \<Rightarrow> string set" where
  "bkeys ev = fst ` set ev"

definition keys_ok :: "buckets \<Rightarrow> bool" where
  "keys_ok ev \<longleftrightarrow> distinct (map fst ev)"

lemma trim_idem [simp]: "trim_bucket now w (trim_bucket now w b) = trim_bucket now w b"
  by (simp add: trim_bucket_def)

lemma length_trim: "length (trim_bucket now w b) \<le> length b"
  by (simp add: trim_bucket_def length_dropWhile_le)

lemma sweep_keys: "bkeys (sweep now w ev) \<subseteq> bkeys ev"
  by (force simp: sweep_def bkeys_def)

lemma sweep_ok: "keys_ok ev \<Longrightarrow> keys_ok (sweep now w ev)"
  unfolding keys_ok_def sweep_def by (rule distinct_map_filter) (simp add: comp_def split_beta)

lemma bucket_unknown: "key \<notin> bkeys ev \<Longrightarrow> bucket_of ev key = []"
  by (force simp: bucket_of_def bkeys_def split: option.splits dest: map_of_SomeD)

lemma bkeys_append: "bkeys (ev @ [(k, b)]) = insert k (bkeys ev)"
  by (simp add: bkeys_def)

lemma bucket_sweep:
  assumes "keys_ok ev"
  shows "bucket_of (sweep now w ev) key = trim_bucket now w (bucket_of ev key)"
  using assms
proof (induction ev)
  case Nil
  then show ?case by (simp add: sweep_def bucket_of_def trim_bucket_def)
next
  case (Cons kb ev)
  obtain k b where kb: "kb = (k, b)" by (cases kb)
  from Cons.prems kb have ok: "keys_ok ev" "k \<notin> bkeys ev" by (simp_all add: keys_ok_def bkeys_def)
  have rest: "bucket_of (sweep now w ev) k = []"
    using ok(2) sweep_keys [of now w ev] by (intro bucket_unknown) blast
  show ?case
  proof (cases "key = k")
    case True
    with kb rest show ?thesis by (cases "trim_bucket now w b") (simp_all add: sweep_def bucket_of_def)
  next
    case False
    with kb Cons.IH [OF ok(1)] show ?thesis by (simp add: sweep_def bucket_of_def)
  qed
qed

lemma without_key_keys: "bkeys (without_key key ev) = bkeys ev - {key}"
  by (auto simp: without_key_def bkeys_def)

lemma without_key_ok: "keys_ok ev \<Longrightarrow> keys_ok (without_key key ev)"
  by (simp add: keys_ok_def without_key_def distinct_map_filter)

lemma bucket_without: "bucket_of (without_key k ev) key = (if key = k then [] else bucket_of ev key)"
  unfolding without_key_def bucket_of_def by (induction ev) auto

lemma put_last_ok: "keys_ok ev \<Longrightarrow> keys_ok (without_key k ev @ [(k, b)])"
  using without_key_ok [of ev k] without_key_keys [of k ev] by (simp add: keys_ok_def bkeys_def)

lemma bucket_put_last: "bucket_of (without_key k ev @ [(k, b)]) key = (if key = k then b else bucket_of ev key)"
proof -
  have "map_of (without_key k ev) k = None" by (auto simp: without_key_def map_of_eq_None_iff)
  then show ?thesis using bucket_without [of k ev key]
    by (auto simp: bucket_of_def map_add_def split: option.splits)
qed

lemma retry_visit:
  assumes "keys_ok ev" and "login_retry_after now k w n ev = (ev', r)"
  shows "keys_ok ev'" and "bkeys ev' \<subseteq> bkeys ev"
    and "bucket_of ev' key = trim_bucket now w (bucket_of ev key)"
    and "r = None \<Longrightarrow> length (bucket_of ev' k) < limit_of n"
proof -
  let ?ev = "sweep now w ev"
  have ok: "keys_ok ?ev" by (rule sweep_ok [OF assms(1)])
  have *: "keys_ok ev' \<and> bkeys ev' \<subseteq> bkeys ev \<and> (\<forall>key. bucket_of ev' key = trim_bucket now w (bucket_of ev key))
    \<and> (r = None \<longrightarrow> length (bucket_of ev' k) < limit_of n)"
  proof (cases "map_of ?ev k")
    case None
    with assms(2) have "ev' = ?ev" by (simp add: login_retry_after_def)
    moreover have "bucket_of ?ev k = []" using None by (simp add: bucket_of_def)
    ultimately show ?thesis using ok sweep_keys [of now w ev] bucket_sweep [OF assms(1)] limit_pos [of n] by simp
  next
    case (Some b)
    with assms(2) have ev': "ev' = without_key k ?ev @ [(k, b)]" and r: "r = None \<longrightarrow> length b < limit_of n"
      by (auto simp: login_retry_after_def split: if_splits)
    have b: "bucket_of ?ev k = b" using Some by (simp add: bucket_of_def)
    have "k \<in> bkeys ?ev" using Some by (force simp: bkeys_def dest: map_of_SomeD)
    then have "bkeys ev' \<subseteq> bkeys ?ev" unfolding ev' bkeys_append without_key_keys by blast
    then have "bkeys ev' \<subseteq> bkeys ev" using sweep_keys [of now w ev] by blast
    moreover have same: "bucket_of ev' key = bucket_of ?ev key" for key using ev' b by (simp add: bucket_put_last)
    moreover have "r = None \<longrightarrow> length (bucket_of ev' k) < limit_of n" using r b unfolding same by simp
    moreover have "keys_ok ev'" unfolding ev' by (rule put_last_ok [OF ok])
    ultimately show ?thesis unfolding bucket_sweep [OF assms(1), symmetric] by blast
  qed
  then show "keys_ok ev'" "bkeys ev' \<subseteq> bkeys ev" "bucket_of ev' key = trim_bucket now w (bucket_of ev key)"
    "r = None \<Longrightarrow> length (bucket_of ev' k) < limit_of n" by blast+
qed

text \<open>Nothing is evicted as long as no more keys than buckets are in use.\<close>

lemma failure_visit:
  assumes ok: "keys_ok ev" and room: "bkeys ev \<union> {k} \<subseteq> K" "finite K" "card K \<le> m"
    and visit: "add_login_failure m now k w n ev = (ev', r)"
  shows "keys_ok ev'" and "bkeys ev' \<subseteq> K"
    and "bucket_of ev' key = trim_bucket now w (bucket_of ev key) @ (if key = k then [now] else [])"
proof -
  let ?ev = "sweep now w ev"
  let ?put = "without_key k ?ev @ [(k, bucket_of ?ev k @ [now])]"
  have ok': "keys_ok ?put" by (rule put_last_ok [OF sweep_ok [OF ok]])
  have keys: "bkeys ?put \<subseteq> K" using room(1) sweep_keys [of now w ev] unfolding bkeys_append without_key_keys by blast
  have "length ?put = card (bkeys ?put)" using ok' unfolding keys_ok_def bkeys_def by (metis distinct_card length_map list.set_map)
  also have "\<dots> \<le> card K" by (rule card_mono [OF room(2) keys])
  finally have "evict_if_oversized m ?put = ?put" using room(3) by (simp add: evict_if_oversized_def)
  with visit have ev': "ev' = ?put" by (simp add: add_login_failure_def Let_def)
  show "keys_ok ev'" "bkeys ev' \<subseteq> K" unfolding ev' by (fact ok' keys)+
  show "bucket_of ev' key = trim_bucket now w (bucket_of ev key) @ (if key = k then [now] else [])"
    unfolding ev' bucket_put_last by (simp add: bucket_sweep [OF ok])
qed

lemma bucket_inv_trim:
  assumes "bucket_inv w n T accepted b" and "T \<le> now"
  shows "bucket_inv w n now accepted (trim_bucket now w b)"
proof -
  from assms(1) obtain old where inv: "bounded (window_of w) (limit_of n) accepted" "length b \<le> limit_of n"
      "accepted = old @ b" "\<forall>u \<in> set old. u \<le> T - window_of w"
    unfolding bucket_inv_def by blast
  let ?gone = "takeWhile (\<lambda>t. t \<le> now - window_of w) b"
  show ?thesis
  proof (rule bucket_invI [OF inv(1)])
    show "length (trim_bucket now w b) \<le> limit_of n" using inv(2) length_trim order_trans by blast
    show "accepted = (old @ ?gone) @ trim_bucket now w b" using inv(3) by (simp add: trim_bucket_def)
    show "\<forall>u \<in> set (old @ ?gone). u \<le> now - window_of w" using inv(4) assms(2) by (auto dest: set_takeWhileD)
  qed
qed

lemma bucket_inv_later: "bucket_inv w n T accepted b \<Longrightarrow> T \<le> now \<Longrightarrow> bucket_inv w n now accepted b"
  unfolding bucket_inv_def by fastforce

lemma bucket_inv_refused:
  assumes "bucket_inv w n T accepted b" and "T \<le> now" and "length b < limit_of n"
  shows "bucket_inv w n now (accepted @ [now]) (trim_bucket now w b @ [now])"
proof -
  have len: "length (trim_bucket now w b) < limit_of n" using assms(3) length_trim le_less_trans by blast
  from bucket_inv_trim [OF assms(1,2)] obtain old where inv: "bounded (window_of w) (limit_of n) accepted"
      "accepted = old @ trim_bucket now w b" "\<forall>u \<in> set old. u \<le> now - window_of w"
    unfolding bucket_inv_def by blast
  show ?thesis
  proof (rule bucket_invI)
    show "bounded (window_of w) (limit_of n) (accepted @ [now])"
      using bounded_snoc [OF _ inv(3) len] inv(1) unfolding inv(2) by blast
    show "length (trim_bucket now w b @ [now]) \<le> limit_of n" using len by simp
    show "accepted @ [now] = old @ (trim_bucket now w b @ [now])" using inv(2) by simp
  qed (fact inv(3))
qed

lemma window_pos: "0 < window_of w"
  by (simp add: window_of_def)

lemma trim_snoc: "trim_bucket now w (trim_bucket now w b @ [now]) = trim_bucket now w b @ [now]"
proof (cases "trim_bucket now w b")
  case Nil
  show ?thesis unfolding Nil using window_pos [of w] by (simp add: trim_bucket_def)
next
  case (Cons t ts)
  then have "\<not> t \<le> now - window_of w" unfolding trim_bucket_def by (metis hd_dropWhile list.distinct(1) list.sel(1))
  with Cons show ?thesis by (simp add: trim_bucket_def)
qed

lemma peek_visits:
  assumes "keys_ok ev" and "visit_keys (\<lambda>key. login_retry_after now key w n) l keys ev = (ev', rs)"
  shows "keys_ok ev' \<and> bkeys ev' \<subseteq> bkeys ev \<and> (keys \<noteq> [] \<longrightarrow> bucket_of ev' key = trim_bucket now w (bucket_of ev key))
    \<and> (rs = [] \<longrightarrow> key \<in> set keys \<longrightarrow> length (bucket_of ev' key) < limit_of n)"
  using assms
proof (induction keys arbitrary: ev ev' rs)
  case (Cons k keys)
  obtain ev1 r where v: "login_retry_after now k w n ev = (ev1, r)" by fastforce
  obtain ev2 rs2 where vs: "visit_keys (\<lambda>key. login_retry_after now key w n) l keys ev1 = (ev2, rs2)" by fastforce
  from Cons.prems(2) v vs have ev': "ev' = ev2" and rs: "rs = (case r of None \<Rightarrow> rs2 | Some s \<Rightarrow> max s l # rs2)" by simp_all
  note one = retry_visit [OF Cons.prems(1) v]
  note ih = Cons.IH [OF one(1) vs]
  have bucket: "bucket_of ev2 key' = trim_bucket now w (bucket_of ev key')" if "key' = key" for key'
  proof (cases "keys = []")
    case True
    with vs have "ev2 = ev1" by simp
    then show ?thesis using one(3) by simp
  next
    case False
    with ih that show ?thesis using one(3) [of key] by simp
  qed
  have "length (bucket_of ev2 key) < limit_of n" if "rs = []" and "key \<in> set (k # keys)"
  proof -
    from that(1) rs have none: "r = None" "rs2 = []" by (simp_all split: option.splits)
    show ?thesis
    proof (cases "key = k")
      case True
      have "bucket_of ev1 key = trim_bucket now w (bucket_of ev key)" by (rule one(3))
      then have "bucket_of ev2 key = bucket_of ev1 key" using bucket [of key] by simp
      with one(4) [OF none(1)] True show ?thesis by simp
    next
      case False
      with that(2) ih none(2) show ?thesis by simp
    qed
  qed
  with ih one(2) bucket [of key] ev' show ?case by auto
qed simp

lemma failure_visits:
  assumes "keys_ok ev" and "bkeys ev \<union> set keys \<subseteq> K" and K: "finite K" "card K \<le> m" and "distinct keys"
    and "visit_keys (\<lambda>key. add_login_failure m now key w n) l keys ev = (ev', rs)"
  shows "keys_ok ev' \<and> bkeys ev' \<subseteq> K
    \<and> (keys \<noteq> [] \<longrightarrow> bucket_of ev' key = trim_bucket now w (bucket_of ev key) @ (if key \<in> set keys then [now] else []))"
  using assms(1,2,5,6)
proof (induction keys arbitrary: ev ev' rs)
  case (Cons k keys)
  obtain ev1 r where v: "add_login_failure m now k w n ev = (ev1, r)" by fastforce
  obtain ev2 rs2 where vs: "visit_keys (\<lambda>key. add_login_failure m now key w n) l keys ev1 = (ev2, rs2)" by fastforce
  from Cons.prems(4) v vs have ev': "ev' = ev2" by simp
  have room: "bkeys ev \<union> {k} \<subseteq> K" using Cons.prems(2) by simp
  note one = failure_visit [OF Cons.prems(1) room K v]
  have "bkeys ev1 \<union> set keys \<subseteq> K" "distinct keys" using one(2) Cons.prems(2,3) by auto
  note ih = Cons.IH [OF one(1) this vs]
  have "bucket_of ev2 key = trim_bucket now w (bucket_of ev key) @ (if key \<in> set (k # keys) then [now] else [])"
  proof (cases "keys = []")
    case True
    with vs have "ev2 = ev1" by simp
    with True one(3) [of key] show ?thesis by simp
  next
    case False
    with ih one(3) [of key] Cons.prems(3) show ?thesis by (auto simp: trim_snoc)
  qed
  with ih ev' show ?case by simp
qed simp

lemma reset_visits:
  "keys_ok ev \<Longrightarrow> keys_ok (fold without_key keys ev) \<and> bkeys (fold without_key keys ev) \<subseteq> bkeys ev
     \<and> bucket_of (fold without_key keys ev) key = (if key \<in> set keys then [] else bucket_of ev key)"
proof (induction keys arbitrary: ev)
  case (Cons k keys)
  from Cons.IH [OF without_key_ok [OF Cons.prems, of k]] show ?case
    unfolding fold_simps using without_key_keys [of k ev] bucket_without [of k ev key] by auto
qed simp

record login_attempt =
  la_request :: ui_request
  la_username :: string
  la_password :: string
  la_now :: instant
  la_later :: instant
  la_clock :: int

definition login_keys :: "cookie_codec \<Rightarrow> ui_settings \<Rightarrow> login_attempt \<Rightarrow> string list" where
  "login_keys cc st a = ui_rate_limit_keys (cc_hash cc) (remote_host st (la_request a)) (Some (strip (la_username a)))"

lemma login_keys_distinct: "distinct (login_keys cc st a)"
  by (simp add: login_keys_def ui_rate_limit_keys_def Let_def)

lemma login_keys_nonempty: "login_keys cc st a \<noteq> []"
  by (simp add: login_keys_def ui_rate_limit_keys_def Let_def)

text \<open>The instants of the refused logins under one key since the last accepted one.\<close>

definition refused_since :: "instant \<Rightarrow> login_answer \<Rightarrow> instant list \<Rightarrow> instant list" where
  "refused_since later answer since =
     (case answer of Login_Refused _ \<Rightarrow> since @ [later] | Login_Accepted _ \<Rightarrow> [] | _ \<Rightarrow> since)"

definition attempt_login ::
    "scrypt \<Rightarrow> (string \<Rightarrow> string option) \<Rightarrow> cookie_codec \<Rightarrow> ui_settings \<Rightarrow> login_attempt \<Rightarrow> buckets \<Rightarrow> buckets \<times> login_answer" where
  "attempt_login scrypt b64decode cc st a ev =
     post_auth_login scrypt b64decode cc st (la_request a) (la_username a) (la_password a) (la_now a) (la_later a) (la_clock a) ev"

fun login_history ::
    "scrypt \<Rightarrow> (string \<Rightarrow> string option) \<Rightarrow> cookie_codec \<Rightarrow> ui_settings \<Rightarrow> string \<Rightarrow> login_attempt list \<Rightarrow> buckets \<Rightarrow> instant list
       \<Rightarrow> buckets \<times> instant list" where
  "login_history scrypt b64decode cc st key [] ev since = (ev, since)"
| "login_history scrypt b64decode cc st key (a # as) ev since =
     (case attempt_login scrypt b64decode cc st a ev of
        (ev, answer) \<Rightarrow> login_history scrypt b64decode cc st key as ev
          (if key \<in> set (login_keys cc st a) then refused_since (la_later a) answer since else since))"

lemma max_or_none_None: "max_or_none rs = None \<longleftrightarrow> rs = []"
  by (simp add: max_or_none_def split: list.splits)

lemma attempt_inv:
  assumes ok: "keys_ok ev" and room: "bkeys ev \<union> set (login_keys cc st a) \<subseteq> K" "finite K" "card K \<le> max_rate_limit_buckets"
    and time: "T \<le> la_now a" "la_now a \<le> la_later a"
    and inv: "bucket_inv (login_window st) (us_attempts st) T since (bucket_of ev key)"
    and attempt: "attempt_login scrypt b64decode cc st a ev = (ev', answer)"
  shows "keys_ok ev' \<and> bkeys ev' \<subseteq> K
    \<and> bucket_inv (login_window st) (us_attempts st) (la_later a)
        (if key \<in> set (login_keys cc st a) then refused_since (la_later a) answer since else since) (bucket_of ev' key)"
proof -
  let ?w = "login_window st" and ?n = "us_attempts st" and ?keys = "login_keys cc st a"
  note login = attempt [unfolded attempt_login_def post_auth_login_def Let_def]
  show ?thesis
  proof (cases "ui_auth_is_configured st")
    case False
    with login have "ev' = ev" "answer = Login_Not_Configured" by simp_all
    with ok room(1) bucket_inv_later [OF inv] time show ?thesis by (simp add: refused_since_def)
  next
    case configured: True
    obtain ev1 rs where peek: "visit_keys (\<lambda>key. login_retry_after (la_now a) key ?w ?n) (us_lockout st) ?keys ev = (ev1, rs)" by fastforce
    then have peek': "peek_ui_auth_retry_after (cc_hash cc) st (la_now a) (remote_host st (la_request a)) (Some (strip (la_username a))) ev
        = (ev1, max_or_none rs)"
      by (simp add: peek_ui_auth_retry_after_def login_keys_def)
    have P: "keys_ok ev1" "bkeys ev1 \<subseteq> bkeys ev" "bucket_of ev1 key = trim_bucket (la_now a) ?w (bucket_of ev key)"
        "rs = [] \<longrightarrow> key \<in> set ?keys \<longrightarrow> length (bucket_of ev1 key) < limit_of ?n"
      using peek_visits [OF ok peek, of key] login_keys_nonempty by blast+
    have inv1: "bucket_inv ?w ?n (la_now a) since (bucket_of ev1 key)"
      unfolding P(3) by (rule bucket_inv_trim [OF inv time(1)])
    have keys1: "bkeys ev1 \<union> set ?keys \<subseteq> K" using P(2) room(1) by blast
    have idle: ?thesis if "ev' = ev1" "refused_since (la_later a) answer since = since"
      using that P(1) keys1 bucket_inv_later [OF inv1 time(2)] by simp
    show ?thesis
    proof (cases rs)
      case (Cons r rs')
      then obtain s where "max_or_none rs = Some s" by (simp add: max_or_none_def)
      with login configured peek' have "ev' = ev1" "answer = Login_Limited s" by simp_all
      then show ?thesis by (intro idle) (simp_all add: refused_since_def)
    next
      case Nil
      let ?verify = "verify_ui_auth_password scrypt b64decode (la_password a) (us_password_hash st)"
      let ?same = "compare_digest (strip (la_username a)) (strip (str_or_empty (us_username st)))"
      have none: "max_or_none rs = None" using Nil by (simp add: max_or_none_def)
      show ?thesis
      proof (cases "?verify = None \<or> ?same = None")
        case True
        with login configured peek' none have "ev' = ev1" "answer = Login_Raised" by (auto split: option.splits)
        then show ?thesis by (intro idle) (simp_all add: refused_since_def)
      next
        case False
        from False obtain pw where pw: "?verify = Some pw" by (cases ?verify) auto
        from False obtain same where same: "?same = Some same" by (cases ?same) auto
        note both = pw same
        show ?thesis
        proof (cases "\<not> same \<or> \<not> pw")
          case True
          obtain ev2 rs2 where rec: "visit_keys (\<lambda>key. add_login_failure max_rate_limit_buckets (la_later a) key ?w ?n) (us_lockout st) ?keys ev1 = (ev2, rs2)"
            by fastforce
          then have "record_ui_auth_failure (cc_hash cc) st (la_later a) (remote_host st (la_request a)) (Some (strip (la_username a))) ev1
              = (ev2, max_or_none rs2)"
            by (simp add: record_ui_auth_failure_def login_keys_def)
          with login configured peek' none both True have ans: "ev' = ev2" "answer = Login_Refused (max_or_none rs2)" by simp_all
          have R: "keys_ok ev2" "bkeys ev2 \<subseteq> K" "bucket_of ev2 key = trim_bucket (la_later a) ?w (bucket_of ev1 key) @ (if key \<in> set ?keys then [la_later a] else [])"
            using failure_visits [OF P(1) keys1 room(2,3) login_keys_distinct rec, of key] login_keys_nonempty by blast+
          show ?thesis
          proof (cases "key \<in> set ?keys")
            case visited: True
            with P(4) Nil have "length (bucket_of ev1 key) < limit_of ?n" by simp
            from bucket_inv_refused [OF inv1 time(2) this] R ans visited show ?thesis by (simp add: refused_since_def)
          next
            case False
            with bucket_inv_trim [OF inv1 time(2)] R ans show ?thesis by simp
          qed
        next
          case False
          with login configured peek' none both have
            ans: "ev' = fold without_key ?keys ev1" "\<exists>c. answer = Login_Accepted c"
            by (auto simp: reset_ui_auth_failures_def login_keys_def)
          note R = reset_visits [OF P(1), of ?keys key]
          have fresh: "bucket_inv ?w ?n (la_later a) [] []" by (simp add: bucket_inv_def bounded_def)
          show ?thesis
            using R ans keys1 fresh bucket_inv_later [OF inv1 time(2)] by (auto simp: refused_since_def)
        qed
      qed
    qed
  qed
qed

lemma history_login_inv:
  assumes "login_history scrypt b64decode cc st key as ev since = (ev', refused)"
    and "keys_ok ev" and "bkeys ev \<union> (\<Union>a \<in> set as. set (login_keys cc st a)) \<subseteq> K" and K: "finite K" "card K \<le> max_rate_limit_buckets"
    and "sorted (T # concat (map (\<lambda>a. [la_now a, la_later a]) as))"
    and "bucket_inv (login_window st) (us_attempts st) T since (bucket_of ev key)"
  shows "bounded (window_of (login_window st)) (limit_of (us_attempts st)) refused"
  using assms(1,2,3,6,7)
proof (induction as arbitrary: ev since T)
  case Nil
  then show ?case by (simp add: bucket_inv_def)
next
  case (Cons a as)
  obtain ev1 answer where one: "attempt_login scrypt b64decode cc st a ev = (ev1, answer)" by fastforce
  have room: "bkeys ev \<union> set (login_keys cc st a) \<subseteq> K" using Cons.prems(3) by auto
  have time: "T \<le> la_now a" "la_now a \<le> la_later a" and rest: "sorted (la_later a # concat (map (\<lambda>a. [la_now a, la_later a]) as))"
    using Cons.prems(4) by simp_all
  note inv = attempt_inv [OF Cons.prems(2) room K time Cons.prems(5) one]
  have "bkeys ev1 \<union> (\<Union>a \<in> set as. set (login_keys cc st a)) \<subseteq> K" using inv Cons.prems(3) by auto
  from Cons.IH [OF _ _ this rest] inv Cons.prems(1) one show ?case by simp
qed

text \<open>C26 Guessing passwords is bounded: whatever hosts and user names login attempts come with, no time window of
  the configured length contains more refused password checks under one limiter key (a host, a user
  name, or a host with a user name) since the last accepted login under it than configured, as long
  as the attempts use no more keys than the limiter has buckets for.\<close>

theorem login_guesses_bounded:
  assumes "login_history scrypt b64decode cc st key attempts [] [] = (ev, refused)"
    and "sorted (concat (map (\<lambda>a. [la_now a, la_later a]) attempts))"
    and "card (\<Union>a \<in> set attempts. set (login_keys cc st a)) \<le> max_rate_limit_buckets"
  shows "length (filter (in_window (window_of (login_window st)) t) refused) \<le> limit_of (us_attempts st)"
proof -
  define T where "T = (case attempts of [] \<Rightarrow> 0 | a # as \<Rightarrow> la_now a)"
  have "sorted (T # concat (map (\<lambda>a. [la_now a, la_later a]) attempts))"
    using assms(2) by (cases attempts) (auto simp: T_def)
  moreover have "keys_ok []" "bucket_inv (login_window st) (us_attempts st) T [] (bucket_of [] key)"
    by (simp_all add: keys_ok_def bucket_inv_def bounded_def bucket_of_def)
  moreover have "bkeys [] \<union> (\<Union>a \<in> set attempts. set (login_keys cc st a)) \<subseteq> (\<Union>a \<in> set attempts. set (login_keys cc st a))"
    by (simp add: bkeys_def)
  moreover have "finite (\<Union>a \<in> set attempts. set (login_keys cc st a))" by simp
  ultimately have "bounded (window_of (login_window st)) (limit_of (us_attempts st)) refused"
    by (intro history_login_inv [OF assms(1) _ _ _ assms(3)])
  then show ?thesis by (simp add: bounded_def)
qed

lemma login_key_count: "card (\<Union>a \<in> set as. set (login_keys cc st a)) \<le> 3 * length as"
proof -
  have "(\<Union>a \<in> set as. set (login_keys cc st a)) = set (concat (map (login_keys cc st) as))" by simp
  also have "card \<dots> \<le> length (concat (map (login_keys cc st) as))" by (rule card_length)
  also have "\<dots> = 3 * length as"
    by (induction as) (simp_all add: login_keys_def ui_rate_limit_keys_def Let_def)
  finally show ?thesis .
qed

definition demo_ui_settings :: ui_settings where
  "demo_ui_settings = \<lparr>us_mode = ''password'', us_username = Some ''op'', us_password_hash = Some ''x'', us_session_ttl = 100, us_idle_ttl = 50,
     us_window = 9, us_attempts = 1, us_lockout = 9, us_protected = [''ui''], us_trust_proxy = False, us_plugin_auth = True\<rparr>"

definition demo_payload :: py_dict where
  "demo_payload = [(''u'', V_Str ''op''), (''iat'', V_Int 10), (''exp'', V_Int 110), (''lst'', V_Int 10), (''pf'', V_Str ''h'')]"

definition demo_cookies :: cookie_codec where
  "demo_cookies = \<lparr>cc_hash = (\<lambda>_. ''h''), cc_seal = (\<lambda>xs. if xs = demo_payload then ''tok'' else ''other''),
     cc_open = (\<lambda>s. if s = ''tok'' then Some (V_Dict demo_payload) else None), cc_float_int = (\<lambda>_. None)\<rparr>"

definition demo_request :: ui_request where
  "demo_request = \<lparr>rq_path = ''/plugins/ui/home'', rq_query = [], rq_scheme = ''https'', rq_cookie = Some ''tok'', rq_forwarded_proto = None,
     rq_forwarded_for = None, rq_client = Some ''h1''\<rparr>"

definition demo_attempts :: "login_attempt list" where
  "demo_attempts = map (\<lambda>t. \<lparr>la_request = demo_request, la_username = ''op'', la_password = ''guess'', la_now = t, la_later = t, la_clock = 0\<rparr>) [1]"

lemma demo_login_facts:
  "ui_auth_is_configured demo_ui_settings" "remote_host demo_ui_settings rq = rq_client rq" "strip ''op'' = ''op''"
  "ui_rate_limit_keys (cc_hash demo_cookies) (Some ''h1'') (Some ''op'') = [''ui-auth:remote:h1:h'', ''ui-auth:user:op:h'', ''ui-auth:remote-user:h1:h:op:h'']"
  "verify_ui_auth_password (\<lambda>_ _ _ _ _ _. None) (\<lambda>_. None) pw (us_password_hash demo_ui_settings) = Some False"
  "compare_digest ''op'' (strip (str_or_empty (us_username demo_ui_settings))) = Some True"
  "login_window demo_ui_settings = 9" "us_attempts demo_ui_settings = 1" "us_lockout demo_ui_settings = 9"
proof -
  show "remote_host demo_ui_settings rq = rq_client rq" by (simp add: remote_host_def demo_ui_settings_def)
  show "verify_ui_auth_password (\<lambda>_ _ _ _ _ _. None) (\<lambda>_. None) pw (us_password_hash demo_ui_settings) = Some False"
    by (simp add: verify_ui_auth_password_def parse_scrypt_hash_def demo_ui_settings_def)
  show "login_window demo_ui_settings = 9" "us_attempts demo_ui_settings = 1" "us_lockout demo_ui_settings = 9"
    by (simp_all add: login_window_def demo_ui_settings_def)
qed code_simp+

theorem login_guesses_bounded_witness:
  "\<exists>ev. login_history (\<lambda>_ _ _ _ _ _. None) (\<lambda>_. None) demo_cookies demo_ui_settings ''ui-auth:user:op:h'' demo_attempts [] [] = (ev, [1])
    \<and> length (filter (in_window (window_of (login_window demo_ui_settings)) 2) [1]) \<le> limit_of (us_attempts demo_ui_settings)"
proof -
  have visit: "login_retry_after 1 key 9 1 [] = ([], None)" for key by (simp add: login_retry_after_def sweep_def)
  have "snd (login_history (\<lambda>_ _ _ _ _ _. None) (\<lambda>_. None) demo_cookies demo_ui_settings ''ui-auth:user:op:h'' demo_attempts [] []) = [1]"
    by (simp add: demo_attempts_def attempt_login_def post_auth_login_def demo_login_facts login_keys_def peek_ui_auth_retry_after_def
        visit max_or_none_def refused_since_def demo_request_def Let_def split: prod.splits)
  then obtain ev where h: "login_history (\<lambda>_ _ _ _ _ _. None) (\<lambda>_. None) demo_cookies demo_ui_settings ''ui-auth:user:op:h'' demo_attempts [] [] = (ev, [1])"
    by (metis prod.collapse)
  have "sorted (concat (map (\<lambda>a. [la_now a, la_later a]) demo_attempts))" by (simp add: demo_attempts_def)
  moreover have "card (\<Union>a \<in> set demo_attempts. set (login_keys demo_cookies demo_ui_settings a)) \<le> max_rate_limit_buckets"
    using login_key_count [of demo_cookies demo_ui_settings demo_attempts] by (simp add: max_rate_limit_buckets_def demo_attempts_def)
  ultimately show ?thesis using login_guesses_bounded [OF h] h by blast
qed

section \<open>Sessions\<close>

text \<open>The cookie opens to what was sealed in it.\<close>

definition sealed :: "cookie_codec \<Rightarrow> py_dict \<Rightarrow> bool" where
  "sealed cc xs \<longleftrightarrow> cc_open cc (cc_seal cc xs) = Some (V_Dict xs) \<and> is_ascii (cc_seal cc xs) \<and> trimmed (cc_seal cc xs) \<and> cc_seal cc xs \<noteq> []"

lemma payload_session:
  "cookie_session cc (cookie_payload cc st now username issued expires last_seen) =
     Some \<lparr>un_username = strip username, un_issued = int_or issued now,
       un_expires = int_or expires (int_or issued now + us_session_ttl st), un_last_seen = int_or last_seen now,
       un_fingerprint = strip (password_hash_fingerprint (cc_hash cc) (us_password_hash st))\<rparr>"
  by (simp add: cookie_session_def cookie_payload_def cookie_field_def Let_def py_str_def)

lemma read_sealed:
  assumes "sealed cc xs"
  shows "read_ui_auth_session cc st now (Some (cc_seal cc xs)) =
    (case cookie_session cc xs of None \<Rightarrow> None | Some s \<Rightarrow> if session_valid cc st now s then Some s else None)"
  using assms by (simp add: read_ui_auth_session_def sealed_def strip_trimmed Let_def)

text \<open>The cookie of a login reads back as the session of that login exactly as long as it has not expired, has
  not been idle for too long, and the user name and the password of the settings are still those
  it was issued under.\<close>

theorem ui_session_valid_iff:
  assumes cc: "sealed cc (cookie_payload cc st t username None None None)"
    and fp: "trimmed (password_hash_fingerprint (cc_hash cc) (us_password_hash st))"
    and user: "trimmed username" "username \<noteq> []" and t: "0 < t" "0 < us_session_ttl st"
  shows "read_ui_auth_session cc st' now (Some (ck_value (set_ui_auth_cookie cc st rq t username None None None))) =
    (if now < t + us_session_ttl st \<and> now < t + us_idle_ttl st' \<and> username = strip (str_or_empty (us_username st'))
        \<and> password_hash_fingerprint (cc_hash cc) (us_password_hash st) = password_hash_fingerprint (cc_hash cc) (us_password_hash st')
     then Some \<lparr>un_username = username, un_issued = t, un_expires = t + us_session_ttl st, un_last_seen = t,
                un_fingerprint = password_hash_fingerprint (cc_hash cc) (us_password_hash st)\<rparr>
     else None)"
  using user t fp
  by (simp add: set_ui_auth_cookie_def build_ui_auth_cookie_def read_sealed [OF cc] payload_session int_or_def strip_trimmed session_valid_def)

lemma demo_payload_eq: "cookie_payload demo_cookies demo_ui_settings 10 ''op'' None None None = demo_payload"
  by (simp add: cookie_payload_def demo_payload_def demo_ui_settings_def demo_cookies_def int_or_def password_hash_fingerprint_def strip_trimmed trimmed_def is_space_def code_pt_def)

lemma demo_sealed: "sealed demo_cookies demo_payload"
  by (simp add: sealed_def demo_cookies_def is_ascii_def code_pt_def trimmed_def is_space_def)

lemma demo_texts: "trimmed ''op''" "trimmed (password_hash_fingerprint (cc_hash demo_cookies) (us_password_hash demo_ui_settings))"
    "strip (str_or_empty (us_username demo_ui_settings)) = ''op''"
  by (code_simp, code_simp, code_simp)

theorem ui_session_valid_iff_witness:
  "read_ui_auth_session demo_cookies demo_ui_settings 40 (Some (ck_value (set_ui_auth_cookie demo_cookies demo_ui_settings demo_request 10 ''op'' None None None))) \<noteq> None
    \<and> read_ui_auth_session demo_cookies demo_ui_settings 60 (Some (ck_value (set_ui_auth_cookie demo_cookies demo_ui_settings demo_request 10 ''op'' None None None))) = None"
proof -
  have ttl: "us_session_ttl demo_ui_settings = 100" "us_idle_ttl demo_ui_settings = 50" by (simp_all add: demo_ui_settings_def)
  have "sealed demo_cookies (cookie_payload demo_cookies demo_ui_settings 10 ''op'' None None None)"
    unfolding demo_payload_eq by (rule demo_sealed)
  then have valid: "read_ui_auth_session demo_cookies demo_ui_settings now
      (Some (ck_value (set_ui_auth_cookie demo_cookies demo_ui_settings demo_request 10 ''op'' None None None))) =
    (if now < 10 + us_session_ttl demo_ui_settings \<and> now < 10 + us_idle_ttl demo_ui_settings \<and> ''op'' = strip (str_or_empty (us_username demo_ui_settings))
        \<and> password_hash_fingerprint (cc_hash demo_cookies) (us_password_hash demo_ui_settings) = password_hash_fingerprint (cc_hash demo_cookies) (us_password_hash demo_ui_settings)
     then Some \<lparr>un_username = ''op'', un_issued = 10, un_expires = 10 + us_session_ttl demo_ui_settings, un_last_seen = 10,
                un_fingerprint = password_hash_fingerprint (cc_hash demo_cookies) (us_password_hash demo_ui_settings)\<rparr>
     else None)" for now
    by (rule ui_session_valid_iff [OF _ demo_texts(2,1)]) (simp_all add: ttl)
  show ?thesis unfolding valid demo_texts(3) ttl by simp
qed

text \<open>Cookies that come from one login: the cookie of the login and those it was refreshed to, under any settings.\<close>

inductive cookie_of_login :: "cookie_codec \<Rightarrow> ui_settings \<Rightarrow> int \<Rightarrow> string \<Rightarrow> string \<Rightarrow> bool" for cc st t username where
  login: "cookie_of_login cc st t username (ck_value (set_ui_auth_cookie cc st rq t username None None None))"
| refresh: "cookie_of_login cc st t username v \<Longrightarrow> read_ui_auth_session cc st' now (Some v) = Some s \<Longrightarrow>
     maybe_refresh_ui_auth_cookie cc st' rq later (Some s) = Some c \<Longrightarrow> cookie_of_login cc st t username (ck_value c)"

lemma read_sealed_session:
  assumes opens: "\<And>xs v. cc_open cc (cc_seal cc xs) = Some v \<Longrightarrow> v = V_Dict xs" and seal: "trimmed (cc_seal cc xs)"
    and read: "read_ui_auth_session cc st now (Some (cc_seal cc xs)) = Some s"
  shows "cookie_session cc xs = Some s \<and> session_valid cc st now s"
proof -
  from read seal obtain ys where "cc_open cc (cc_seal cc xs) = Some (V_Dict ys)" "cookie_session cc ys = Some s" "session_valid cc st now s"
    by (auto simp: read_ui_auth_session_def strip_trimmed Let_def split: if_splits option.splits pyval.splits)
  with opens [of xs "V_Dict ys"] show ?thesis by simp
qed

lemma cookie_of_login_payload:
  assumes opens: "\<And>xs v. cc_open cc (cc_seal cc xs) = Some v \<Longrightarrow> v = V_Dict xs" and seal: "\<And>xs. trimmed (cc_seal cc xs)"
    and t: "0 < t" "0 < us_session_ttl st" and cookie: "cookie_of_login cc st t username v"
  shows "\<exists>xs. v = cc_seal cc xs \<and> (\<forall>s. cookie_session cc xs = Some s \<longrightarrow>
      un_username s = strip username \<and> un_issued s = t \<and> un_expires s = t + us_session_ttl st)"
  using cookie
proof induction
  case (login rq)
  show ?case
    by (intro exI [of _ "cookie_payload cc st t username None None None"])
      (use t in \<open>simp add: set_ui_auth_cookie_def build_ui_auth_cookie_def payload_session int_or_def\<close>)
next
  case (refresh v st' now s rq later c)
  then obtain xs where v: "v = cc_seal cc xs" and xs: "\<forall>s. cookie_session cc xs = Some s \<longrightarrow>
      un_username s = strip username \<and> un_issued s = t \<and> un_expires s = t + us_session_ttl st" by blast
  from refresh(2) have "read_ui_auth_session cc st' now (Some (cc_seal cc xs)) = Some s" unfolding v .
  from read_sealed_session [OF opens seal this] xs
  have s: "un_username s = strip username" "un_issued s = t" "un_expires s = t + us_session_ttl st" by simp_all
  from refresh(3) have "ck_value c = cc_seal cc (cookie_payload cc st' later (un_username s) (Some (un_issued s)) (Some (un_expires s)) (Some later))"
    by (auto simp: maybe_refresh_ui_auth_cookie_def set_ui_auth_cookie_def build_ui_auth_cookie_def split: if_splits)
  moreover have "int_or (Some t) later = t" "int_or (Some (t + us_session_ttl st)) x = t + us_session_ttl st" for x
    using t by (simp_all add: int_or_def)
  ultimately show ?case using s
    by (intro exI [of _ "cookie_payload cc st' later (un_username s) (Some (un_issued s)) (Some (un_expires s)) (Some later)"])
      (simp add: payload_session)
qed

text \<open>C27 A session ends with its lifetime: however often a cookie is refreshed, and whatever the settings become
  meanwhile, it is still the session of the user who logged in, and no request later than the
  lifetime set at the login is taken as authenticated by it.\<close>

theorem session_ends_at_ttl:
  assumes opens: "\<And>xs v. cc_open cc (cc_seal cc xs) = Some v \<Longrightarrow> v = V_Dict xs" and seal: "\<And>xs. trimmed (cc_seal cc xs)"
    and t: "0 < t" "0 < us_session_ttl st" and cookie: "cookie_of_login cc st t username v"
    and read: "read_ui_auth_session cc st' now (Some v) = Some s"
  shows "now < t + us_session_ttl st \<and> un_username s = strip username \<and> un_username s = strip (str_or_empty (us_username st'))"
proof -
  obtain xs where v: "v = cc_seal cc xs" and xs: "\<forall>s. cookie_session cc xs = Some s \<longrightarrow>
      un_username s = strip username \<and> un_issued s = t \<and> un_expires s = t + us_session_ttl st"
    using cookie_of_login_payload [OF opens seal t cookie] by blast
  from read_sealed_session [OF opens seal read [unfolded v]] xs show ?thesis by (simp add: session_valid_def)
qed

lemma demo_opens: "cc_open demo_cookies (cc_seal demo_cookies xs) = Some v \<Longrightarrow> v = V_Dict xs"
  by (auto simp: demo_cookies_def split: if_splits)

lemma demo_trimmed: "trimmed (cc_seal demo_cookies xs)"
  by (simp add: demo_cookies_def trimmed_def is_space_def code_pt_def)

lemma demo_cookie: "ck_value (set_ui_auth_cookie demo_cookies demo_ui_settings demo_request 10 ''op'' None None None) = ''tok''"
  by (simp add: set_ui_auth_cookie_def build_ui_auth_cookie_def demo_payload_eq) (simp add: demo_cookies_def)

lemma demo_read: "map_option un_username (read_ui_auth_session demo_cookies demo_ui_settings 40 (Some ''tok'')) = Some ''op''"
  by code_simp

theorem session_ends_at_ttl_witness:
  "\<exists>s. read_ui_auth_session demo_cookies demo_ui_settings 40 (Some ''tok'') = Some s \<and> (40 :: int) < 110 \<and> un_username s = ''op''"
proof -
  obtain s where s: "read_ui_auth_session demo_cookies demo_ui_settings 40 (Some ''tok'') = Some s" using demo_read by auto
  have cookie: "cookie_of_login demo_cookies demo_ui_settings 10 ''op'' ''tok''"
    using cookie_of_login.login [of demo_cookies demo_ui_settings 10 "''op''" demo_request] unfolding demo_cookie .
  have ttl: "us_session_ttl demo_ui_settings = 100" by (simp add: demo_ui_settings_def)
  from session_ends_at_ttl [OF demo_opens demo_trimmed _ _ cookie s] show ?thesis
    using s by (simp add: ttl strip_trimmed [OF demo_texts(1)])
qed

section \<open>The middleware\<close>

lemma first_surface_protected:
  assumes "m \<in> set ms" and "path_matches_prefix path (pm_api m) \<or> path_matches_prefix path (pm_web m)"
  shows "\<exists>s. first_surface configured path ms = Some s \<and> sf_protected s \<and> sf_configured s = configured"
  using assms by (induction ms) auto

text \<open>C28 No way around the login: a request for a path under the mount of a protected plugin is passed on only with
  a valid session, on a system on which authentication is configured.\<close>

theorem protected_surface_needs_session:
  assumes m: "m \<in> set mounts" "protected_mount st m"
    and path: "path_matches_prefix (strip (rq_path rq)) (pm_api m) \<or> path_matches_prefix (strip (rq_path rq)) (pm_web m)"
    and passed: "ui_auth_dispatch cc quote st mounts now later rq = Passed_On c"
  shows "ui_auth_is_configured st \<and> (\<exists>s. read_ui_auth_session cc st now (rq_cookie rq) = Some s \<and> session_valid cc st now s)"
proof -
  have ne: "strip (rq_path rq) \<noteq> []" using path by (auto simp: path_matches_prefix_def Let_def)
  have "sf_protected (resolve_ui_auth_surface st mounts (rq_path rq))
      \<and> (sf_configured (resolve_ui_auth_surface st mounts (rq_path rq)) \<longrightarrow> ui_auth_is_configured st)"
  proof -
    have "m \<in> set (filter (protected_mount st) mounts)" using m by simp
    from first_surface_protected [OF this path, of "ui_auth_is_configured st"]
    show ?thesis using ne by (auto simp: resolve_ui_auth_surface_def Let_def)
  qed
  with passed obtain s where "ui_auth_is_configured st" "read_ui_auth_session cc st now (rq_cookie rq) = Some s"
    by (auto simp: ui_auth_dispatch_def Let_def split: if_splits option.splits)
  moreover from this(2) have "session_valid cc st now s"
    by (auto simp: read_ui_auth_session_def Let_def split: if_splits option.splits pyval.splits)
  ultimately show ?thesis by blast
qed

definition demo_mounts :: "plugin_mount list" where
  "demo_mounts = [\<lparr>pm_plugin = ''ui'', pm_api = Some ''/v1/ui'', pm_web = Some ''/plugins/ui'', pm_operator = False\<rparr>]"

theorem protected_surface_needs_session_witness:
  "ui_auth_is_configured demo_ui_settings \<and> (\<exists>s. read_ui_auth_session demo_cookies demo_ui_settings 40 (Some ''tok'') = Some s)"
proof -
  let ?m = "\<lparr>pm_plugin = ''ui'', pm_api = Some ''/v1/ui'', pm_web = Some ''/plugins/ui'', pm_operator = False\<rparr>"
  have m: "?m \<in> set demo_mounts" by (simp add: demo_mounts_def)
  have prot: "protected_mount demo_ui_settings ?m" by code_simp
  have path: "path_matches_prefix (strip (rq_path demo_request)) (pm_api ?m) \<or> path_matches_prefix (strip (rq_path demo_request)) (pm_web ?m)"
    by code_simp
  have passed: "ui_auth_dispatch demo_cookies (\<lambda>s. s) demo_ui_settings demo_mounts 40 41 demo_request = Passed_On None" by code_simp
  from protected_surface_needs_session [OF m prot path passed] show ?thesis by (auto simp: demo_request_def)
qed

section \<open>Where the login fails\<close>

text \<open>
  A user name with a character outside ASCII makes \<open>compare_digest\<close> raise: the attempt is answered
  with a server error and no failure is recorded; a user of such a name can never log in.
\<close>

theorem non_ascii_name_raises:
  assumes "ui_auth_is_configured st" and "\<not> is_ascii (strip username) \<or> \<not> is_ascii (strip (str_or_empty (us_username st)))"
    and "peek_ui_auth_retry_after (cc_hash cc) st now (remote_host st rq) (Some (strip username)) ev = (ev1, None)"
  shows "post_auth_login scrypt b64decode cc st rq username password now later clock ev = (ev1, Login_Raised)"
  using assms by (auto simp: post_auth_login_def compare_digest_def Let_def split: option.splits)

text \<open>A plain path stands in the script as it is, tags included.\<close>

lemma json_dumps_plain: "\<forall>c \<in> set s. 32 \<le> code_pt c \<and> code_pt c < 127 \<and> code_pt c \<noteq> 34 \<and> code_pt c \<noteq> 92 \<Longrightarrow> json_dumps_str s = [double_quote] @ s @ [double_quote]"
proof -
  assume plain: "\<forall>c \<in> set s. 32 \<le> code_pt c \<and> code_pt c < 127 \<and> code_pt c \<noteq> 34 \<and> code_pt c \<noteq> 92"
  have "json_dumps_char c = [c]" if "c \<in> set s" for c
  proof -
    have c: "32 \<le> code_pt c" "code_pt c < 127" "code_pt c \<noteq> 34" "code_pt c \<noteq> 92" using plain that by blast+
    then have "c \<noteq> double_quote" "c \<noteq> char_of (92 :: nat)" by (auto simp: double_quote_def)
    with c show ?thesis by (simp add: json_dumps_char_def Let_def)
  qed
  then have "map json_dumps_char s = map (\<lambda>c. [c]) s" by (rule map_cong [OF refl])
  then have "concat (map json_dumps_char s) = s" by (simp only: concat_map_singleton map_ident)
  then show ?thesis by (simp add: json_dumps_str_def)
qed

theorem next_path_closes_script:
  "occurs_in ''</script><script>alert(1)</script>'' (next_path_line (Some ''/</script><script>alert(1)</script>''))"
proof -
  let ?s = "''</script><script>alert(1)</script>''"
  have "\<forall>c \<in> set (CHR ''/'' # ?s). 32 \<le> code_pt c \<and> code_pt c < 127 \<and> code_pt c \<noteq> 34 \<and> code_pt c \<noteq> 92"
    by (simp add: code_pt_def)
  then have line: "json_dumps_str (CHR ''/'' # ?s) = [double_quote] @ (CHR ''/'' # ?s) @ [double_quote]" by (rule json_dumps_plain)
  have "safe_next_path (Some (CHR ''/'' # ?s)) = CHR ''/'' # ?s" by code_simp
  with line have "next_path_line (Some (CHR ''/'' # ?s)) = (''const nextPath = '' @ [double_quote, CHR ''/'']) @ ?s @ ([double_quote] @ '';'')"
    unfolding next_path_line_def by (simp only: append_Cons append_Nil append_assoc)
  then show ?thesis unfolding occurs_in_iff by (intro exI)
qed

end
