(* ===== verification/Channel_Ingress.thy ===== *)
theory Channel_Ingress
  imports Py_Values
begin

text \<open>
  Inbound messages of the channel adapters before they become turns
  (services/channels/ingress_coalescer.py, ingress_persistence.py, access_policy.py,
  repositories/channel_ingress_pending_event_repo.py): a message is stored, gathered with others of
  its conversation until the conversation has been quiet for a while, carried out as one turn, and
  then removed from the store. The coalescer changes its state under one lock, so its operations
  are steps; a timer is the instant at which its sleep ends. Clocks are in microseconds.
\<close>

section \<open>Messages\<close>

record ingress_event =
  ie_endpoint :: string
  ie_transport :: string
  ie_account :: string
  ie_peer :: string
  ie_thread :: "string option"
  ie_user :: "string option"
  ie_key :: string
  ie_message :: string
  ie_text :: string
  ie_observed :: string
  ie_chat_kind :: "string option"
  ie_source :: "string option"

definition or_dash :: "string option \<Rightarrow> string" where
  "or_dash v = (if str_or_empty v = [] then ''-'' else str_or_empty v)"

definition conversation_key :: "ingress_event \<Rightarrow> string" where
  "conversation_key e = join_with ''|'' [ie_endpoint e, ie_transport e, ie_account e, ie_peer e, or_dash (ie_thread e), or_dash (ie_user e)]"

record ingress_batch =
  ib_endpoint :: string
  ib_transport :: string
  ib_account :: string
  ib_peer :: string
  ib_thread :: "string option"
  ib_user :: "string option"
  ib_chat_kind :: "string option"
  ib_events :: "ingress_event list"

definition batch_key :: "ingress_batch \<Rightarrow> string" where
  "batch_key b = join_with ''|'' [ib_endpoint b, ib_transport b, ib_account b, ib_peer b, or_dash (ib_thread b), or_dash (ib_user b)]"

text \<open>A batch with the selectors of an event.\<close>

definition batch_for :: "ingress_event \<Rightarrow> ingress_event list \<Rightarrow> ingress_batch" where
  "batch_for e es = \<lparr>ib_endpoint = ie_endpoint e, ib_transport = ie_transport e, ib_account = ie_account e, ib_peer = ie_peer e,
     ib_thread = ie_thread e, ib_user = ie_user e, ib_chat_kind = ie_chat_kind e, ib_events = es\<rparr>"

record batch_config =
  bc_enabled :: bool
  bc_debounce_ms :: int
  bc_cooldown_sec :: int
  bc_max_batch :: int
  bc_max_chars :: int

text \<open>The bounds the configuration is validated with.\<close>

definition batch_config_ok :: "batch_config \<Rightarrow> bool" where
  "batch_config_ok cfg \<longleftrightarrow> 100 \<le> bc_debounce_ms cfg \<and> bc_debounce_ms cfg \<le> 60000 \<and> 0 \<le> bc_cooldown_sec cfg \<and> bc_cooldown_sec cfg \<le> 3600
     \<and> 1 \<le> bc_max_batch cfg \<and> bc_max_batch cfg \<le> 200 \<and> 256 \<le> bc_max_chars cfg \<and> bc_max_chars cfg \<le> 200000
     \<and> \<not> (0 < bc_cooldown_sec cfg \<and> \<not> bc_enabled cfg) \<and> bc_max_batch cfg * 16 \<le> bc_max_chars cfg"

section \<open>The stored messages\<close>

type_synonym pending_rows = "ingress_event list"

definition same_event :: "ingress_event \<Rightarrow> ingress_event \<Rightarrow> bool" where
  "same_event a b \<longleftrightarrow> ie_endpoint a = ie_endpoint b \<and> ie_key a = ie_key b"

text \<open>False when the unique key (endpoint and event key) is taken; the write is rolled back.\<close>

definition record_pending :: "ingress_event \<Rightarrow> pending_rows \<Rightarrow> pending_rows \<times> bool" where
  "record_pending e rows = (if list_ex (same_event e) rows then (rows, False) else (rows @ [e], True))"

definition list_pending :: "string \<Rightarrow> pending_rows \<Rightarrow> ingress_event list" where
  "list_pending endpoint rows = filter (\<lambda>e. ie_endpoint e = endpoint) rows"

definition delete_by_event_keys :: "string \<Rightarrow> string list \<Rightarrow> pending_rows \<Rightarrow> pending_rows" where
  "delete_by_event_keys endpoint keys rows =
     (if keys = [] then rows else delete_where (\<lambda>e. ie_endpoint e = endpoint \<and> ie_key e \<in> set keys) rows)"

definition release_batch :: "ingress_batch \<Rightarrow> pending_rows \<Rightarrow> pending_rows" where
  "release_batch b rows = delete_by_event_keys (ib_endpoint b) (map ie_key (ib_events b)) rows"

definition release_event :: "string \<Rightarrow> string \<Rightarrow> pending_rows \<Rightarrow> pending_rows" where
  "release_event endpoint key rows = delete_by_event_keys endpoint [key] rows"

section \<open>The coalescer\<close>

text \<open>The dictionaries keep the order in which keys were put in.\<close>

record pending_batch =
  pb_batch :: ingress_batch
  pb_chars :: int
  pb_due :: "instant option"

record coalescer =
  co_pending :: "(string \<times> pending_batch) list"
  co_next :: "(string \<times> instant) list"

definition compute_flush_delay :: "batch_config \<Rightarrow> instant \<Rightarrow> string \<Rightarrow> coalescer \<Rightarrow> int" where
  "compute_flush_delay cfg now key co =
     (let debounce = 1000 * bc_debounce_ms cfg in
      if bc_cooldown_sec cfg \<le> 0 then debounce
      else (case map_of (co_next co) key of
          None \<Rightarrow> debounce
        | Some deadline \<Rightarrow> max debounce (max (deadline - now) 0)))"

definition append_event :: "ingress_event \<Rightarrow> pending_batch \<Rightarrow> pending_batch" where
  "append_event e p = p\<lparr>pb_batch := (pb_batch p)\<lparr>ib_events := ib_events (pb_batch p) @ [e]\<rparr>, pb_chars := pb_chars p + int (length (ie_text e))\<rparr>"

definition without_pending :: "string \<Rightarrow> (string \<times> pending_batch) list \<Rightarrow> (string \<times> pending_batch) list" where
  "without_pending key ps = filter (\<lambda>kp. fst kp \<noteq> key) ps"

text \<open>The flushed batch comes with whether the error handler may take a failure.\<close>

datatype enqueue_answer = Not_Accepted | Flush_Now ingress_batch bool | Buffered

definition buffer_event :: "batch_config \<Rightarrow> instant \<Rightarrow> ingress_event \<Rightarrow> coalescer \<Rightarrow> coalescer \<times> enqueue_answer" where
  "buffer_event cfg now e co =
     (if \<not> bc_enabled cfg then (co, Flush_Now (batch_for e [e]) False)
      else (let key = conversation_key e;
                p = append_event e (case map_of (co_pending co) key of Some p \<Rightarrow> p | None \<Rightarrow> \<lparr>pb_batch = batch_for e [], pb_chars = 0, pb_due = None\<rparr>);
                delay = compute_flush_delay cfg now key co
            in if (bc_max_batch cfg \<le> int (length (ib_events (pb_batch p))) \<or> bc_max_chars cfg \<le> pb_chars p) \<and> delay \<le> 0
               then (co\<lparr>co_pending := without_pending key (co_pending co)\<rparr>, Flush_Now (pb_batch p) True)
               else (co\<lparr>co_pending := AList.update key (p\<lparr>pb_due := Some (now + max delay 0)\<rparr>) (co_pending co)\<rparr>, Buffered)))"

definition enqueue_ingress :: "batch_config \<Rightarrow> instant \<Rightarrow> ingress_event \<Rightarrow> pending_rows \<Rightarrow> coalescer \<Rightarrow> pending_rows \<times> coalescer \<times> enqueue_answer" where
  "enqueue_ingress cfg now e rows co =
     (case record_pending e rows of
        (rows, False) \<Rightarrow> (rows, co, Not_Accepted)
      | (rows, True) \<Rightarrow> (case buffer_event cfg now e co of (co, a) \<Rightarrow> (rows, co, a)))"

text \<open>The timer of a conversation: nothing happens before it is due.\<close>

definition flush_after_delay :: "instant \<Rightarrow> string \<Rightarrow> coalescer \<Rightarrow> coalescer \<times> ingress_batch option" where
  "flush_after_delay now key co =
     (case map_of (co_pending co) key of
        None \<Rightarrow> (co, None)
      | Some p \<Rightarrow>
          if (case pb_due p of None \<Rightarrow> False | Some due \<Rightarrow> due \<le> now)
          then (co\<lparr>co_pending := without_pending key (co_pending co)\<rparr>, Some (pb_batch p))
          else (co, None))"

definition flush_all :: "coalescer \<Rightarrow> coalescer \<times> ingress_batch list" where
  "flush_all co = (co\<lparr>co_pending := []\<rparr>, map (\<lambda>kp. pb_batch (snd kp)) (co_pending co))"

definition flush_succeeded :: "batch_config \<Rightarrow> instant \<Rightarrow> ingress_batch \<Rightarrow> pending_rows \<Rightarrow> coalescer \<Rightarrow> pending_rows \<times> coalescer" where
  "flush_succeeded cfg now b rows co =
     (release_batch b rows,
      if 0 < bc_cooldown_sec cfg then co\<lparr>co_next := AList.update (batch_key b) (now + 1000000 * bc_cooldown_sec cfg) (co_next co)\<rparr> else co)"

section \<open>Restoring\<close>

fun group_events :: "ingress_event list \<Rightarrow> (string \<times> ingress_event list) list \<Rightarrow> (string \<times> ingress_event list) list" where
  "group_events [] groups = groups"
| "group_events (e # es) groups =
     group_events es (AList.update (conversation_key e)
       ((case map_of groups (conversation_key e) of None \<Rightarrow> [] | Some g \<Rightarrow> g) @ [e]) groups)"

fun split_group :: "batch_config \<Rightarrow> ingress_event list \<Rightarrow> int \<Rightarrow> ingress_event list \<Rightarrow> ingress_batch list" where
  "split_group cfg current chars [] = (if current = [] then [] else [batch_for (hd current) current])"
| "split_group cfg current chars (e # es) =
     (let n = int (length (ie_text e)) in
      if current \<noteq> [] \<and> (bc_max_batch cfg \<le> int (length current) \<or> bc_max_chars cfg < chars + n)
      then batch_for (hd current) current # split_group cfg [e] n es
      else split_group cfg (current @ [e]) (chars + n) es)"

definition split_restore_batches :: "batch_config \<Rightarrow> ingress_event list \<Rightarrow> ingress_batch list" where
  "split_restore_batches cfg es =
     concat (map (\<lambda>kg. if bc_enabled cfg then split_group cfg [] 0 (snd kg) else map (\<lambda>e. batch_for e [e]) (snd kg)) (group_events es []))"

section \<open>The message of a turn\<close>

definition newline_sep :: string where
  "newline_sep = [char_of (10 :: nat)]"

definition event_lines :: "nat \<Rightarrow> ingress_event \<Rightarrow> string list" where
  "event_lines i e =
     [''['' @ nat_str i @ ''] sender_id: '' @ or_dash (ie_user e), ''message_id: '' @ ie_message e, ''observed_at: '' @ ie_observed e, ie_text e, []]"

definition render_ingress_batch :: "ingress_batch \<Rightarrow> string" where
  "render_ingress_batch b =
     (case ib_events b of
        [e] \<Rightarrow> ie_text e
      | es \<Rightarrow> strip (join_with newline_sep
          ([''Multiple recent messages arrived from the same conversation.'',
            ''Consider them together and reply once to the combined context.'', [], ''Messages (oldest first):'']
           @ concat (map (\<lambda>(i, e). event_lines i e) (zip [1..<length es + 1] es)))))"

section \<open>Access\<close>

datatype access_mode = Access_Open | Access_Allowlist | Access_Disabled

record access_policy =
  ap_private :: access_mode
  ap_allow_from :: "string list"
  ap_group :: access_mode
  ap_groups :: "string list"
  ap_group_allow_from :: "string list"

definition matches_any :: "string list \<Rightarrow> string option list \<Rightarrow> bool" where
  "matches_any allowed values = list_ex (\<lambda>v. case v of None \<Rightarrow> False | Some x \<Rightarrow> x \<in> set allowed) values"

definition is_private_allowed :: "access_policy \<Rightarrow> string option \<Rightarrow> string option \<Rightarrow> bool" where
  "is_private_allowed p peer user =
     (if ap_private p = Access_Disabled then False
      else if ap_private p = Access_Open then True
      else ''*'' \<in> set (ap_allow_from p) \<or> matches_any (ap_allow_from p) [user, peer])"

definition is_group_allowed :: "access_policy \<Rightarrow> string option \<Rightarrow> string option \<Rightarrow> bool" where
  "is_group_allowed p peer user =
     (if ap_group p = Access_Disabled then False
      else if ap_groups p \<noteq> [] \<and> ''*'' \<notin> set (ap_groups p) \<and> (case peer of None \<Rightarrow> True | Some x \<Rightarrow> x \<notin> set (ap_groups p)) then False
      else if ap_group p = Access_Open then True
      else (let senders = (if ap_group_allow_from p = [] then ap_allow_from p else ap_group_allow_from p)
            in ''*'' \<in> set senders \<or> matches_any senders [user]))"

definition is_channel_message_allowed :: "access_policy \<Rightarrow> string option \<Rightarrow> string option \<Rightarrow> string option \<Rightarrow> bool" where
  "is_channel_message_allowed p chat_kind peer user =
     (if lower (strip (str_or_empty chat_kind)) = ''private'' then is_private_allowed p peer user else is_group_allowed p peer user)"

section \<open>Order and limits of batches\<close>

datatype coalescer_op = Op_Event ingress_event instant | Op_Timer string instant | Op_Flush_All

text \<open>What a sequence of accepted messages, timers and complete flushes hands over to be carried out.\<close>

definition coalesce_op :: "batch_config \<Rightarrow> coalescer_op \<Rightarrow> coalescer \<Rightarrow> coalescer \<times> ingress_batch list" where
  "coalesce_op cfg x co =
     (case x of
        Op_Event e now \<Rightarrow> (case buffer_event cfg now e co of (co, Flush_Now b _) \<Rightarrow> (co, [b]) | (co, _) \<Rightarrow> (co, []))
      | Op_Timer key now \<Rightarrow> (case flush_after_delay now key co of (co, Some b) \<Rightarrow> (co, [b]) | (co, None) \<Rightarrow> (co, []))
      | Op_Flush_All \<Rightarrow> flush_all co)"

fun coalesce :: "batch_config \<Rightarrow> coalescer_op list \<Rightarrow> coalescer \<Rightarrow> coalescer \<times> ingress_batch list" where
  "coalesce cfg [] co = (co, [])"
| "coalesce cfg (x # xs) co = (case coalesce_op cfg x co of (co, bs) \<Rightarrow> (case coalesce cfg xs co of (co, bs') \<Rightarrow> (co, bs @ bs')))"

definition op_events :: "coalescer_op list \<Rightarrow> ingress_event list" where
  "op_events xs = concat (map (\<lambda>x. case x of Op_Event e now \<Rightarrow> [e] | _ \<Rightarrow> []) xs)"

definition batch_events :: "string \<Rightarrow> ingress_batch list \<Rightarrow> ingress_event list" where
  "batch_events key bs = concat (map (\<lambda>b. if batch_key b = key then ib_events b else []) bs)"

definition buffered :: "string \<Rightarrow> coalescer \<Rightarrow> ingress_event list" where
  "buffered key co = (case map_of (co_pending co) key of None \<Rightarrow> [] | Some p \<Rightarrow> ib_events (pb_batch p))"

text \<open>A buffered conversation has messages, all of them its own; nothing is buffered when batching is off.\<close>

definition entry_ok :: "string \<Rightarrow> pending_batch \<Rightarrow> bool" where
  "entry_ok key p \<longleftrightarrow> batch_key (pb_batch p) = key \<and> ib_events (pb_batch p) \<noteq> []
     \<and> (\<forall>e \<in> set (ib_events (pb_batch p)). conversation_key e = key)"

definition coalescer_ok :: "batch_config \<Rightarrow> coalescer \<Rightarrow> bool" where
  "coalescer_ok cfg co \<longleftrightarrow> distinct (map fst (co_pending co)) \<and> (\<forall>kp \<in> set (co_pending co). entry_ok (fst kp) (snd kp))
     \<and> (\<not> bc_enabled cfg \<longrightarrow> co_pending co = [])"

definition batch_ok :: "ingress_batch \<Rightarrow> bool" where
  "batch_ok b \<longleftrightarrow> ib_events b \<noteq> [] \<and> (\<forall>e \<in> set (ib_events b). conversation_key e = batch_key b)"

lemma batch_key_for [simp]: "batch_key (batch_for e es) = conversation_key e"
  by (simp add: batch_key_def batch_for_def conversation_key_def)

lemma batch_key_append [simp]: "batch_key (pb_batch (append_event e p)) = batch_key (pb_batch p)"
  by (simp add: batch_key_def append_event_def)

lemma events_append [simp]: "ib_events (pb_batch (append_event e p)) = ib_events (pb_batch p) @ [e]"
  by (simp add: append_event_def)

lemma events_for [simp]: "ib_events (batch_for e es) = es"
  by (simp add: batch_for_def)

lemma entry_batch_ok: "entry_ok key p \<Longrightarrow> batch_ok (pb_batch p)"
  by (simp add: entry_ok_def batch_ok_def)

lemma map_of_without [simp]: "map_of (without_pending key ps) k = (if k = key then None else map_of ps k)"
  unfolding without_pending_def by (induction ps) auto

lemma without_ok: "coalescer_ok cfg co \<Longrightarrow> coalescer_ok cfg (co\<lparr>co_pending := without_pending key (co_pending co)\<rparr>)"
  by (auto simp: coalescer_ok_def without_pending_def distinct_map_filter)

lemma pending_entry: "coalescer_ok cfg co \<Longrightarrow> map_of (co_pending co) key = Some p \<Longrightarrow> entry_ok key p"
  unfolding coalescer_ok_def by (force dest: map_of_SomeD)

lemma set_update_pairs: "distinct (map fst ps) \<Longrightarrow> kp \<in> set (AList.update k v ps) \<Longrightarrow> kp = (k, v) \<or> kp \<in> set ps"
  by (induction ps) (auto split: if_splits)

lemma update_pending_ok:
  assumes "coalescer_ok cfg co" and "entry_ok key p" and "bc_enabled cfg"
  shows "coalescer_ok cfg (co\<lparr>co_pending := AList.update key p (co_pending co)\<rparr>)"
  using assms set_update_pairs [of "co_pending co" _ key p] by (fastforce simp: coalescer_ok_def distinct_update)

lemma buffered_append:
  fixes e :: ingress_event
  assumes "coalescer_ok cfg co"
  defines "p \<equiv> append_event e (case map_of (co_pending co) (conversation_key e) of Some p \<Rightarrow> p
     | None \<Rightarrow> \<lparr>pb_batch = batch_for e [], pb_chars = 0, pb_due = None\<rparr>)"
  shows "entry_ok (conversation_key e) p" and "ib_events (pb_batch p) = buffered (conversation_key e) co @ [e]"
proof -
  show "ib_events (pb_batch p) = buffered (conversation_key e) co @ [e]"
    by (simp add: p_def buffered_def split: option.splits)
  show "entry_ok (conversation_key e) p"
  proof (cases "map_of (co_pending co) (conversation_key e)")
    case None
    then show ?thesis by (simp add: p_def entry_ok_def)
  next
    case (Some q)
    with pending_entry [OF assms(1) Some] show ?thesis by (simp add: p_def entry_ok_def)
  qed
qed

lemma batch_events_simps [simp]: "batch_events key [] = []"
  "batch_events key (b # bs) = (if batch_key b = key then ib_events b else []) @ batch_events key bs"
  "batch_events key (bs @ bs') = batch_events key bs @ batch_events key bs'"
  by (simp_all add: batch_events_def)

lemma batch_events_pending:
  assumes "distinct (map fst ps)" and "\<forall>kp \<in> set ps. entry_ok (fst kp) (snd kp)"
  shows "batch_events key (map (\<lambda>kp. pb_batch (snd kp)) ps) = (case map_of ps key of None \<Rightarrow> [] | Some p \<Rightarrow> ib_events (pb_batch p))"
  using assms
proof (induction ps)
  case (Cons kp ps)
  obtain k p where kp: "kp = (k, p)" by (cases kp)
  show ?case
  proof (cases "k = key")
    case True
    then have "map_of ps key = None" using Cons.prems(1) kp by (auto simp: map_of_eq_None_iff)
    with True Cons kp show ?thesis by (simp add: entry_ok_def)
  next
    case False
    with Cons kp show ?thesis by (simp add: entry_ok_def)
  qed
qed simp

lemma coalesce_op_keeps:
  assumes ok: "coalescer_ok cfg co" and run: "coalesce_op cfg x co = (co', bs)"
  shows "coalescer_ok cfg co' \<and> (\<forall>b \<in> set bs. batch_ok b)
    \<and> batch_events key bs @ buffered key co' = buffered key co @ filter (\<lambda>e. conversation_key e = key) (op_events [x])"
proof (cases x)
  case (Op_Event e now)
  let ?k = "conversation_key e"
  define p where "p = append_event e (case map_of (co_pending co) ?k of Some p \<Rightarrow> p | None \<Rightarrow> \<lparr>pb_batch = batch_for e [], pb_chars = 0, pb_due = None\<rparr>)"
  define delay where "delay = compute_flush_delay cfg now ?k co"
  note p = buffered_append [OF ok, of e, folded p_def]
  show ?thesis
  proof (cases "bc_enabled cfg")
    case False
    with ok have "co_pending co = []" by (simp add: coalescer_ok_def)
    moreover from run Op_Event False have "co' = co" "bs = [batch_for e [e]]" by (simp_all add: coalesce_op_def buffer_event_def)
    ultimately show ?thesis using ok Op_Event by (simp add: op_events_def buffered_def batch_ok_def)
  next
    case enabled: True
    note run' = run [unfolded Op_Event coalesce_op_def coalescer_op.case buffer_event_def Let_def, folded delay_def p_def]
    show ?thesis
    proof (cases "(bc_max_batch cfg \<le> int (length (ib_events (pb_batch p))) \<or> bc_max_chars cfg \<le> pb_chars p) \<and> delay \<le> 0")
      case True
      with run' enabled have "co' = co\<lparr>co_pending := without_pending ?k (co_pending co)\<rparr>" "bs = [pb_batch p]"
        by (simp_all add: p_def [symmetric])
      with without_ok [OF ok] p entry_batch_ok [OF p(1)] Op_Event show ?thesis
        by (auto simp: op_events_def buffered_def entry_ok_def)
    next
      case False
      let ?p = "p\<lparr>pb_due := Some (now + max delay 0)\<rparr>"
      from run' enabled have co': "co' = co\<lparr>co_pending := AList.update ?k ?p (co_pending co)\<rparr>" "bs = []"
        by (simp_all add: if_not_P [OF False])
      have "entry_ok ?k ?p" using p(1) by (simp add: entry_ok_def)
      from update_pending_ok [OF ok this enabled] co' p(2) Op_Event show ?thesis
        by (auto simp: op_events_def buffered_def update_conv')
    qed
  qed
next
  case (Op_Timer k now)
  show ?thesis
  proof (cases "map_of (co_pending co) k")
    case None
    with run Op_Timer ok show ?thesis by (simp add: coalesce_op_def flush_after_delay_def op_events_def)
  next
    case (Some p)
    note entry = pending_entry [OF ok Some]
    show ?thesis
    proof (cases "case pb_due p of None \<Rightarrow> False | Some due \<Rightarrow> due \<le> now")
      case True
      with run Op_Timer Some have "co' = co\<lparr>co_pending := without_pending k (co_pending co)\<rparr>" "bs = [pb_batch p]"
        by (simp_all add: coalesce_op_def flush_after_delay_def)
      with without_ok [OF ok] entry entry_batch_ok [OF entry] Some Op_Timer show ?thesis
        by (auto simp: op_events_def buffered_def entry_ok_def)
    next
      case False
      with run Op_Timer Some ok show ?thesis by (simp add: coalesce_op_def flush_after_delay_def op_events_def)
    qed
  qed
next
  case Op_Flush_All
  with run have co': "co' = co\<lparr>co_pending := []\<rparr>" "bs = map (\<lambda>kp. pb_batch (snd kp)) (co_pending co)"
    by (simp_all add: coalesce_op_def flush_all_def)
  have "distinct (map fst (co_pending co))" "\<forall>kp \<in> set (co_pending co). entry_ok (fst kp) (snd kp)"
    using ok by (simp_all add: coalescer_ok_def)
  from batch_events_pending [OF this, of key] this(2) co' Op_Flush_All show ?thesis
    by (auto simp: coalescer_ok_def op_events_def buffered_def entry_batch_ok)
qed

lemma op_events_Cons: "op_events (x # xs) = op_events [x] @ op_events xs"
  by (simp add: op_events_def)

lemma coalesce_keeps:
  assumes "coalescer_ok cfg co" and "coalesce cfg xs co = (co', bs)"
  shows "coalescer_ok cfg co' \<and> (\<forall>b \<in> set bs. batch_ok b)
    \<and> batch_events key bs @ buffered key co' = buffered key co @ filter (\<lambda>e. conversation_key e = key) (op_events xs)"
  using assms
proof (induction xs arbitrary: co bs)
  case Nil
  then show ?case by (simp add: op_events_def)
next
  case (Cons x xs)
  obtain co1 bs1 where one: "coalesce_op cfg x co = (co1, bs1)" by fastforce
  obtain co2 bs2 where rest: "coalesce cfg xs co1 = (co2, bs2)" by fastforce
  from Cons.prems(2) one rest have eq: "co' = co2" "bs = bs1 @ bs2" by simp_all
  note K1 = coalesce_op_keeps [OF Cons.prems(1) one, of key]
  from Cons.IH [of co1 bs2] K1 rest eq have K2: "coalescer_ok cfg co2" "\<forall>b \<in> set bs2. batch_ok b"
      "batch_events key bs2 @ buffered key co2 = buffered key co1 @ filter (\<lambda>e. conversation_key e = key) (op_events xs)" by simp_all
  have "batch_events key (bs1 @ bs2) @ buffered key co2 = (batch_events key bs1 @ buffered key co1) @ filter (\<lambda>e. conversation_key e = key) (op_events xs)"
    using K2(3) by simp
  also have "\<dots> = buffered key co @ filter (\<lambda>e. conversation_key e = key) (op_events (x # xs))"
    unfolding op_events_Cons [of x xs] using K1 by simp
  finally show ?case using K1 K2 eq by auto
qed

text \<open>C30 No message is lost, doubled, reordered or mixed up by the batching: for every conversation, the
  batches handed over so far and then what is still buffered hold the messages accepted for it, each
  once and in the order of their arrival; and a batch has messages of one conversation only.\<close>

theorem coalescer_keeps_order:
  assumes "coalesce cfg xs \<lparr>co_pending = [], co_next = []\<rparr> = (co, bs)"
  shows "batch_events key bs @ buffered key co = filter (\<lambda>e. conversation_key e = key) (op_events xs) \<and> (\<forall>b \<in> set bs. batch_ok b)"
proof -
  have "coalescer_ok cfg \<lparr>co_pending = [], co_next = []\<rparr>" by (simp add: coalescer_ok_def)
  from coalesce_keeps [OF this assms, of key] show ?thesis by (simp add: buffered_def)
qed

definition demo_event :: "string \<Rightarrow> string \<Rightarrow> ingress_event" where
  "demo_event user key = \<lparr>ie_endpoint = ''tg'', ie_transport = ''telegram'', ie_account = ''bot'', ie_peer = ''7'', ie_thread = None,
     ie_user = Some user, ie_key = key, ie_message = key, ie_text = ''hi'' @ key, ie_observed = ''t'', ie_chat_kind = Some ''group'', ie_source = Some key\<rparr>"

definition demo_batching :: batch_config where
  "demo_batching = \<lparr>bc_enabled = True, bc_debounce_ms = 1500, bc_cooldown_sec = 0, bc_max_batch = 2, bc_max_chars = 256\<rparr>"

definition demo_ops :: "coalescer_op list" where
  "demo_ops = [Op_Event (demo_event ''a'' ''1'') 0, Op_Event (demo_event ''b'' ''2'') 10, Op_Event (demo_event ''a'' ''3'') 20,
     Op_Timer ''tg|telegram|bot|7|-|a'' 1500020, Op_Event (demo_event ''a'' ''4'') 1500030]"

lemma demo_coalesce:
  "coalesce demo_batching demo_ops \<lparr>co_pending = [], co_next = []\<rparr>
    = (\<lparr>co_pending = [(''tg|telegram|bot|7|-|b'', \<lparr>pb_batch = batch_for (demo_event ''b'' ''2'') [demo_event ''b'' ''2''], pb_chars = 3, pb_due = Some 1500010\<rparr>),
         (''tg|telegram|bot|7|-|a'', \<lparr>pb_batch = batch_for (demo_event ''a'' ''4'') [demo_event ''a'' ''4''], pb_chars = 3, pb_due = Some 3000030\<rparr>)], co_next = []\<rparr>,
       [batch_for (demo_event ''a'' ''1'') [demo_event ''a'' ''1'', demo_event ''a'' ''3'']])"
  by code_simp

lemma coalescer_keeps_order_witness:
  "batch_events ''tg|telegram|bot|7|-|a'' (snd (coalesce demo_batching demo_ops \<lparr>co_pending = [], co_next = []\<rparr>))
      @ buffered ''tg|telegram|bot|7|-|a'' (fst (coalesce demo_batching demo_ops \<lparr>co_pending = [], co_next = []\<rparr>))
     = filter (\<lambda>e. conversation_key e = ''tg|telegram|bot|7|-|a'') (op_events demo_ops)
   \<and> batch_ok (batch_for (demo_event ''a'' ''1'') [demo_event ''a'' ''1'', demo_event ''a'' ''3''])"
  using coalescer_keeps_order [OF demo_coalesce, of "''tg|telegram|bot|7|-|a''"] unfolding demo_coalesce fst_conv snd_conv by simp

text \<open>
  The limits on the size of a batch never apply: a delay is at least the validated debounce, hence never
  zero, so a full batch is buffered on, and every further message puts its flush off anew.
\<close>

lemma flush_delay_at_least: "1000 * bc_debounce_ms cfg \<le> compute_flush_delay cfg now key co"
  by (simp add: compute_flush_delay_def Let_def split: option.splits)

theorem batch_limits_never_apply:
  assumes "batch_config_ok cfg" and "bc_enabled cfg" and "buffer_event cfg now e co = (co', a)"
  shows "a = Buffered \<and> buffered (conversation_key e) co' = buffered (conversation_key e) co @ [e]
    \<and> (\<forall>t < now + 1000 * bc_debounce_ms cfg. flush_after_delay t (conversation_key e) co' = (co', None))"
proof -
  let ?k = "conversation_key e"
  let ?p = "append_event e (case map_of (co_pending co) ?k of Some p \<Rightarrow> p | None \<Rightarrow> \<lparr>pb_batch = batch_for e [], pb_chars = 0, pb_due = None\<rparr>)"
  have "1000 * bc_debounce_ms cfg \<le> compute_flush_delay cfg now ?k co" by (rule flush_delay_at_least)
  moreover have "100 \<le> bc_debounce_ms cfg" using assms(1) by (simp add: batch_config_ok_def)
  ultimately have delay: "0 < compute_flush_delay cfg now ?k co"
      "1000 * bc_debounce_ms cfg \<le> max (compute_flush_delay cfg now ?k co) 0" by simp_all
  then have co': "a = Buffered"
      "co' = co\<lparr>co_pending := AList.update ?k (?p\<lparr>pb_due := Some (now + max (compute_flush_delay cfg now ?k co) 0)\<rparr>) (co_pending co)\<rparr>"
    using assms(2,3) by (simp_all add: buffer_event_def Let_def)
  have "buffered ?k co' = buffered ?k co @ [e]"
    unfolding co' by (simp add: buffered_def update_conv' split: option.splits)
  moreover have "flush_after_delay t ?k co' = (co', None)" if "t < now + 1000 * bc_debounce_ms cfg" for t
    using that delay unfolding co' by (simp add: flush_after_delay_def update_conv')
  ultimately show ?thesis using co'(1) by simp
qed

lemma batch_limits_never_apply_witness:
  "snd (buffer_event demo_batching 0 (demo_event ''a'' ''9'')
     (fst (buffer_event demo_batching 0 (demo_event ''a'' ''8'') \<lparr>co_pending = [], co_next = []\<rparr>))) = Buffered"
proof -
  have "batch_config_ok demo_batching" "bc_enabled demo_batching" by (simp_all add: batch_config_ok_def demo_batching_def)
  from batch_limits_never_apply [OF this surjective_pairing] show ?thesis by simp
qed

section \<open>What is restored after a restart\<close>

definition batch_within :: "batch_config \<Rightarrow> ingress_batch \<Rightarrow> bool" where
  "batch_within cfg b \<longleftrightarrow> length (ib_events b) = 1
     \<or> int (length (ib_events b)) \<le> bc_max_batch cfg \<and> sum_list (map (\<lambda>e. int (length (ie_text e))) (ib_events b)) \<le> bc_max_chars cfg"

definition group_of :: "string \<Rightarrow> (string \<times> ingress_event list) list \<Rightarrow> ingress_event list" where
  "group_of key groups = (case map_of groups key of None \<Rightarrow> [] | Some g \<Rightarrow> g)"

definition groups_ok :: "(string \<times> ingress_event list) list \<Rightarrow> bool" where
  "groups_ok groups \<longleftrightarrow> distinct (map fst groups) \<and> (\<forall>kg \<in> set groups. \<forall>e \<in> set (snd kg). conversation_key e = fst kg)"

lemma group_events_ok:
  assumes "groups_ok groups"
  shows "groups_ok (group_events es groups) \<and> group_of key (group_events es groups) = group_of key groups @ filter (\<lambda>e. conversation_key e = key) es"
  using assms
proof (induction es arbitrary: groups)
  case (Cons e es)
  let ?k = "conversation_key e"
  let ?g = "(case map_of groups ?k of None \<Rightarrow> [] | Some g \<Rightarrow> g) @ [e]"
  have "\<forall>x \<in> set ?g. conversation_key x = ?k"
    using Cons.prems by (auto simp: groups_ok_def split: option.splits dest!: map_of_SomeD)
  moreover have "distinct (map fst groups)" using Cons.prems by (simp add: groups_ok_def)
  ultimately have "groups_ok (AList.update ?k ?g groups)"
    using Cons.prems set_update_pairs [of groups _ ?k ?g] unfolding groups_ok_def by (fastforce simp: distinct_update)
  moreover have "group_of key (AList.update ?k ?g groups) = group_of key groups @ (if ?k = key then [e] else [])"
    by (auto simp: group_of_def update_conv')
  ultimately show ?case using Cons.IH [of "AList.update ?k ?g groups"] by simp
qed simp

lemma split_group_ok:
  assumes "\<forall>e \<in> set (current @ es). conversation_key e = key"
    and "chars = sum_list (map (\<lambda>e. int (length (ie_text e))) current)"
    and "length current \<le> 1 \<or> int (length current) \<le> bc_max_batch cfg \<and> chars \<le> bc_max_chars cfg"
  shows "concat (map ib_events (split_group cfg current chars es)) = current @ es
    \<and> (\<forall>b \<in> set (split_group cfg current chars es). batch_key b = key \<and> batch_ok b \<and> batch_within cfg b)"
  using assms
proof (induction cfg current chars es rule: split_group.induct)
  case (1 cfg current chars)
  show ?case
  proof (cases current)
    case (Cons e cs)
    with 1 have "length current = 1 \<or> int (length current) \<le> bc_max_batch cfg \<and> chars \<le> bc_max_chars cfg" by auto
    with 1 Cons show ?thesis by (auto simp: batch_ok_def batch_within_def)
  qed simp
next
  case (2 cfg current chars e es)
  let ?n = "int (length (ie_text e))"
  show ?case
  proof (cases "current \<noteq> [] \<and> (bc_max_batch cfg \<le> int (length current) \<or> bc_max_chars cfg < chars + ?n)")
    case True
    have IH: "concat (map ib_events (split_group cfg [e] ?n es)) = [e] @ es
        \<and> (\<forall>b \<in> set (split_group cfg [e] ?n es). batch_key b = key \<and> batch_ok b \<and> batch_within cfg b)"
      using 2(1) [OF refl True] 2(3) by simp
    have "length current = 1 \<or> int (length current) \<le> bc_max_batch cfg \<and> chars \<le> bc_max_chars cfg"
      using 2(5) True by (cases current) auto
    then have "batch_within cfg (batch_for (hd current) current)" using 2(4) by (simp add: batch_within_def)
    moreover have "hd current \<in> set (current @ e # es)" using True by simp
    ultimately show ?thesis using IH True 2(3) by (simp add: Let_def batch_ok_def)
  next
    case False
    then have "length (current @ [e]) \<le> 1 \<or> int (length (current @ [e])) \<le> bc_max_batch cfg \<and> chars + ?n \<le> bc_max_chars cfg" by auto
    with 2(2) [OF refl False] 2(3,4) have "concat (map ib_events (split_group cfg (current @ [e]) (chars + ?n) es)) = (current @ [e]) @ es
        \<and> (\<forall>b \<in> set (split_group cfg (current @ [e]) (chars + ?n) es). batch_key b = key \<and> batch_ok b \<and> batch_within cfg b)"
      by simp
    moreover have "split_group cfg current chars (e # es) = split_group cfg (current @ [e]) (chars + ?n) es"
      unfolding split_group.simps Let_def by (rule if_not_P [OF False])
    ultimately show ?thesis by simp
  qed
qed

lemma batch_events_one_key: "\<forall>b \<in> set bs. batch_key b = k \<Longrightarrow> batch_events key bs = (if k = key then concat (map ib_events bs) else [])"
  by (induction bs) auto

lemma batch_events_groups:
  assumes "distinct (map fst groups)"
    and "\<And>k g. (k, g) \<in> set groups \<Longrightarrow> concat (map ib_events (f k g)) = g \<and> (\<forall>b \<in> set (f k g). batch_key b = k)"
  shows "batch_events key (concat (map (\<lambda>kg. f (fst kg) (snd kg)) groups)) = group_of key groups"
  using assms
proof (induction groups)
  case Nil
  then show ?case by (simp add: group_of_def)
next
  case (Cons kg groups)
  obtain k g where kg: "kg = (k, g)" by (cases kg)
  have one: "batch_events key (f k g) = (if k = key then g else [])"
    using Cons.prems(2) [of k g] batch_events_one_key [of "f k g" k key] kg by force
  have rest: "batch_events key (concat (map (\<lambda>kg. f (fst kg) (snd kg)) groups)) = group_of key groups"
    using Cons.prems by (intro Cons.IH) auto
  have "k = key \<Longrightarrow> map_of groups key = None"
    using Cons.prems(1) kg by (simp add: map_of_eq_None_iff)
  then have "k = key \<Longrightarrow> group_of key groups = []" by (simp add: group_of_def)
  with one rest kg show ?case by (auto simp: group_of_def)
qed

lemma split_restore_ok:
  "batch_events key (split_restore_batches cfg es) = filter (\<lambda>e. conversation_key e = key) es"
  "list_all (\<lambda>b. batch_ok b \<and> (if bc_enabled cfg then batch_within cfg b else length (ib_events b) = 1)) (split_restore_batches cfg es)"
proof -
  define groups where "groups = group_events es []"
  define f where "f k g = (if bc_enabled cfg then split_group cfg [] 0 g else map (\<lambda>e. batch_for e [e]) g)" for k :: string and g
  have "groups_ok []" by (simp add: groups_ok_def)
  from group_events_ok [OF this, of es key] have ok: "groups_ok groups" and group: "group_of key groups = filter (\<lambda>e. conversation_key e = key) es"
    by (simp_all add: groups_def group_of_def)
  have parts: "concat (map ib_events (f k g)) = g
      \<and> (\<forall>b \<in> set (f k g). batch_key b = k \<and> batch_ok b \<and> (if bc_enabled cfg then batch_within cfg b else length (ib_events b) = 1))"
    if "(k, g) \<in> set groups" for k g
  proof -
    have "\<forall>e \<in> set g. conversation_key e = k" using ok that by (force simp: groups_ok_def)
    then show ?thesis using split_group_ok [of "[]" g k 0 cfg]
      by (auto simp: f_def batch_ok_def o_def)
  qed
  have eq: "split_restore_batches cfg es = concat (map (\<lambda>kg. f (fst kg) (snd kg)) groups)"
    by (simp add: split_restore_batches_def f_def groups_def)
  have "distinct (map fst groups)" using ok by (simp add: groups_ok_def)
  from batch_events_groups [OF this, of f key] parts group eq
  show "batch_events key (split_restore_batches cfg es) = filter (\<lambda>e. conversation_key e = key) es" by force
  from parts eq show "list_all (\<lambda>b. batch_ok b \<and> (if bc_enabled cfg then batch_within cfg b else length (ib_events b) = 1)) (split_restore_batches cfg es)"
    by (fastforce simp: list_all_iff)
qed

lemma restored_event:
  assumes "b \<in> set (split_restore_batches cfg es)" and "e \<in> set (ib_events b)"
  shows "e \<in> set es"
proof -
  from assms have "e \<in> set (batch_events (batch_key b) (split_restore_batches cfg es))"
    by (auto simp: batch_events_def)
  then show ?thesis by (simp add: split_restore_ok)
qed

text \<open>C31 A restart picks up every stored message: the batches made of the stored messages hold, for every
  conversation, exactly its messages in the order in which they were stored; none is empty or mixes
  conversations, and with batching on no batch of several messages exceeds the configured limits, while
  with batching off each message is a batch of its own.\<close>

theorem restored_batches_complete:
  "batch_events key (split_restore_batches cfg es) = filter (\<lambda>e. conversation_key e = key) es
   \<and> list_all (\<lambda>b. batch_ok b \<and> (if bc_enabled cfg then batch_within cfg b else length (ib_events b) = 1)) (split_restore_batches cfg es)"
  by (simp add: split_restore_ok)

end
