(* ===== verification/Telegram_Updates.thy ===== *)
theory Telegram_Updates
  imports Channel_Ingress
begin

text \<open>
  What a Telegram Bot API update is for the bot (services/channels/telegram_polling_support.py,
  telegram_polling_runtime.py): the sender, the chat, the text with the attachments described, and
  whether the message is meant for the bot. An update is the decoded JSON object; ids are integers
  (a JSON boolean counts as the number it equals). The patterns that look for the bot's name are
  written out as scans of the text, with \<open>re.IGNORECASE\<close> as equality of the lower cases.
\<close>

section \<open>Values of the payload\<close>

fun is_py_int :: "pyval \<Rightarrow> bool" where
  "is_py_int (V_Int i) = True"
| "is_py_int (V_Bool b) = True"
| "is_py_int v = False"

fun py_int_val :: "pyval \<Rightarrow> int" where
  "py_int_val (V_Int i) = i"
| "py_int_val (V_Bool b) = (if b then 1 else 0)"
| "py_int_val v = 0"

definition dict_of_val :: "pyval \<Rightarrow> py_dict option" where
  "dict_of_val v = (case v of V_Dict d \<Rightarrow> Some d | _ \<Rightarrow> None)"

definition tg_text :: "pyval \<Rightarrow> string option" where
  "tg_text v = (case v of V_Str s \<Rightarrow> text_or_none (strip s) | _ \<Rightarrow> None)"

definition tg_int :: "pyval \<Rightarrow> int option" where
  "tg_int v = (case v of V_Int i \<Rightarrow> Some i | _ \<Rightarrow> None)"

definition tg_bool :: "pyval \<Rightarrow> bool" where
  "tg_bool v = (case v of V_Bool b \<Rightarrow> b | _ \<Rightarrow> False)"

definition positive_payload :: "pyval \<Rightarrow> bool" where
  "positive_payload v \<longleftrightarrow> is_py_int v \<and> 0 < py_int_val v"

section \<open>Attachments\<close>

record tg_attachment =
  at_kind :: string
  at_file_id :: string
  at_unique_id :: "string option"
  at_file_name :: "string option"
  at_mime :: "string option"
  at_size :: "int option"
  at_duration :: "int option"
  at_width :: "int option"
  at_height :: "int option"
  at_emoji :: "string option"
  at_animated :: bool
  at_video :: bool

definition attachment_from_payload :: "string \<Rightarrow> py_dict \<Rightarrow> tg_attachment option" where
  "attachment_from_payload kind p =
     map_option (\<lambda>file_id. \<lparr>at_kind = kind, at_file_id = file_id, at_unique_id = tg_text (py_get p ''file_unique_id''),
        at_file_name = tg_text (py_get p ''file_name''), at_mime = tg_text (py_get p ''mime_type''),
        at_size = tg_int (py_get p ''file_size''), at_duration = tg_int (py_get p ''duration''),
        at_width = tg_int (py_get p ''width''), at_height = tg_int (py_get p ''height''),
        at_emoji = tg_text (py_get p ''emoji''), at_animated = tg_bool (py_get p ''is_animated''),
        at_video = tg_bool (py_get p ''is_video'')\<rparr>)
       (tg_text (py_get p ''file_id''))"

definition photo_score :: "py_dict \<Rightarrow> int" where
  "photo_score p =
     (if positive_payload (py_get p ''file_size'') then py_int_val (py_get p ''file_size'')
      else if is_py_int (py_get p ''width'') \<and> is_py_int (py_get p ''height'')
      then max 0 (py_int_val (py_get p ''width'')) * max 0 (py_int_val (py_get p ''height'')) else 0)"

definition select_largest_photo :: "pyval list \<Rightarrow> py_dict option" where
  "select_largest_photo items = min_on (\<lambda>p. - photo_score p) (List.map_filter dict_of_val items)"

definition media_keys :: "string list" where
  "media_keys = [''sticker'', ''animation'', ''video'', ''audio'', ''voice'', ''video_note'', ''document'']"

definition extract_attachments :: "py_dict \<Rightarrow> tg_attachment list" where
  "extract_attachments m =
     (case py_get m ''photo'' of
        V_List items \<Rightarrow> (case Option.bind (select_largest_photo items) (attachment_from_payload ''photo'') of None \<Rightarrow> [] | Some a \<Rightarrow> [a])
      | _ \<Rightarrow> [])
     @ List.map_filter (\<lambda>key. Option.bind (dict_of_val (py_get m key)) (attachment_from_payload key)) media_keys"

definition comma_sep :: string where
  "comma_sep = '', ''"

definition labelled :: "string \<Rightarrow> string list \<Rightarrow> string" where
  "labelled label details = (if details = [] then label @ '' attached'' else label @ '': '' @ join_with comma_sep details)"

definition positive_suffix :: "int option \<Rightarrow> string \<Rightarrow> string list" where
  "positive_suffix v suffix = (case v of None \<Rightarrow> [] | Some n \<Rightarrow> if 0 < n then [int_str n @ suffix] else [])"

definition text_item :: "string option \<Rightarrow> string list" where
  "text_item v = (if str_or_empty v = [] then [] else [str_or_empty v])"

definition describe_attachment :: "tg_attachment \<Rightarrow> string" where
  "describe_attachment a =
     (if at_kind a = ''sticker'' \<and> str_or_empty (at_emoji a) \<noteq> []
      then labelled ''sticker'' (map strip (text_item (at_emoji a) @ text_item (at_file_name a) @ text_item (at_mime a)
             @ (case at_size a of None \<Rightarrow> [] | Some n \<Rightarrow> [int_str n])
             @ (if at_animated a then [''animated''] else []) @ (if at_video a then [''video''] else [])))
      else labelled (if at_kind a = ''video_note'' then ''video note'' else at_kind a)
             ((case (at_width a, at_height a) of
                 (Some w, Some h) \<Rightarrow> if at_kind a = ''photo'' \<and> w \<noteq> 0 \<and> h \<noteq> 0 then [int_str w @ ''x'' @ int_str h] else []
               | _ \<Rightarrow> [])
              @ text_item (at_file_name a) @ positive_suffix (at_duration a) ''s'' @ text_item (at_mime a)
              @ positive_suffix (at_size a) '' bytes''))"

definition positive_detail :: "pyval \<Rightarrow> string \<Rightarrow> string list" where
  "positive_detail v suffix = (if positive_payload v then [py_str v @ suffix] else [])"

definition describe_media_payload :: "string \<Rightarrow> py_dict \<Rightarrow> string" where
  "describe_media_payload label p =
     labelled label (text_item (tg_text (py_get p ''file_name'')) @ positive_detail (py_get p ''duration'') ''s''
       @ text_item (tg_text (py_get p ''mime_type'')) @ positive_detail (py_get p ''file_size'') '' bytes'')"

definition describe_sticker_payload :: "py_dict \<Rightarrow> string" where
  "describe_sticker_payload p =
     labelled ''sticker'' (text_item (tg_text (py_get p ''emoji'')) @ text_item (tg_text (py_get p ''set_name''))
       @ (if truthy (py_get p ''is_animated'') then [''animated''] else []) @ (if truthy (py_get p ''is_video'') then [''video''] else []))"

text \<open>A payload without a usable file id has no attachment; it is described from the payload itself.\<close>

definition undownloadable :: "py_dict \<Rightarrow> tg_attachment list \<Rightarrow> string \<Rightarrow> (py_dict \<Rightarrow> string) \<Rightarrow> string list" where
  "undownloadable m atts key describe =
     (case dict_of_val (py_get m key) of None \<Rightarrow> []
      | Some p \<Rightarrow> if list_ex (\<lambda>a. at_kind a = key) atts then [] else [describe p])"

definition render_attachment_summary :: "py_dict \<Rightarrow> tg_attachment list \<Rightarrow> string option" where
  "render_attachment_summary m atts =
     (let parts = map describe_attachment atts
        @ (case py_get m ''photo'' of
             V_List items \<Rightarrow> if items \<noteq> [] \<and> \<not> list_ex (\<lambda>a. at_kind a = ''photo'') atts then [''photo attached''] else []
           | _ \<Rightarrow> [])
        @ undownloadable m atts ''sticker'' describe_sticker_payload
        @ undownloadable m atts ''animation'' (describe_media_payload ''animation'')
        @ undownloadable m atts ''video'' (describe_media_payload ''video'')
        @ undownloadable m atts ''audio'' (describe_media_payload ''audio'')
        @ undownloadable m atts ''voice'' (describe_media_payload ''voice'')
        @ undownloadable m atts ''video_note'' (describe_media_payload ''video note'')
        @ undownloadable m atts ''document'' (describe_media_payload ''document'')
      in if parts = [] then None
         else Some (''Incoming Telegram attachments:'' @ newline_sep @ join_with newline_sep (map (\<lambda>p. ''- '' @ p) parts)))"

section \<open>References to the bot\<close>

record bot_identity =
  bi_id :: int
  bi_username :: "string option"

datatype trigger_mode = Mention_Or_Reply | Reply_Only | Mention_Only | All_Messages

text \<open>\<open>\b\<close> between two characters, either of which may be missing.\<close>

definition word_boundary :: "string \<Rightarrow> string \<Rightarrow> bool" where
  "word_boundary before after \<longleftrightarrow> (before \<noteq> [] \<and> is_word_char (last before)) \<noteq> (after \<noteq> [] \<and> is_word_char (hd after))"

text \<open>The user name without regard to case, and the end of a word after it.\<close>

definition name_follows :: "string \<Rightarrow> string \<Rightarrow> bool" where
  "name_follows name s \<longleftrightarrow> length name \<le> length s \<and> lower (take (length name) s) = lower name
     \<and> word_boundary (take (length name) s) (drop (length name) s)"

definition is_command_char :: "char \<Rightarrow> bool" where
  "is_command_char c \<longleftrightarrow> is_ascii_digit c \<or> is_ascii_lower c \<or> is_ascii_upper c \<or> c = CHR ''_''"

text \<open>The text before the at sign, read backwards: a slash and then a non-empty run of the characters.\<close>

definition slash_run :: "(char \<Rightarrow> bool) \<Rightarrow> string \<Rightarrow> bool" where
  "slash_run P before \<longleftrightarrow> takeWhile P before \<noteq> [] \<and> dropWhile P before \<noteq> [] \<and> hd (dropWhile P before) = CHR ''/''"

fun reference_in :: "string \<Rightarrow> string \<Rightarrow> string \<Rightarrow> bool" where
  "reference_in name before [] = False"
| "reference_in name before (c # cs) =
     ((c = CHR ''@'' \<and> name_follows name cs
        \<and> ((before = [] \<or> \<not> (is_word_char (hd before) \<or> hd before = CHR ''/'')) \<or> slash_run is_command_char before))
      \<or> reference_in name (c # before) cs)"

definition contains_bot_reference :: "string \<Rightarrow> bot_identity option \<Rightarrow> bool" where
  "contains_bot_reference text identity =
     (case identity of None \<Rightarrow> False
      | Some b \<Rightarrow> str_or_empty (bi_username b) \<noteq> [] \<and> reference_in (str_or_empty (bi_username b)) [] text)"

text \<open>Each match of \<open>@name\<close> whose context satisfies the condition is taken out; the text of a match is
  not looked at again.\<close>

function remove_mentions :: "(string \<Rightarrow> bool) \<Rightarrow> string \<Rightarrow> string \<Rightarrow> string \<Rightarrow> string" where
  "remove_mentions ctx name before [] = []"
| "remove_mentions ctx name before (c # cs) =
     (if c = CHR ''@'' \<and> name_follows name cs \<and> ctx before then remove_mentions ctx name [] (drop (length name) cs)
      else c # remove_mentions ctx name (c # before) cs)"
  by pat_completeness auto
termination by (relation "measure (\<lambda>(ctx, name, before, s). length s)") auto

definition strip_bot_reference :: "string \<Rightarrow> bot_identity option \<Rightarrow> string" where
  "strip_bot_reference text identity =
     (case identity of None \<Rightarrow> strip text
      | Some b \<Rightarrow> (let name = str_or_empty (bi_username b) in
          if name = [] then strip text
          else strip (remove_mentions (\<lambda>before. True) name [] (remove_mentions (slash_run is_word_char) name [] text))))"

definition should_process_message :: "py_dict \<Rightarrow> string \<Rightarrow> string \<Rightarrow> bot_identity option \<Rightarrow> trigger_mode \<Rightarrow> bool" where
  "should_process_message m text chat_type identity mode =
     (case identity of None \<Rightarrow> False
      | Some b \<Rightarrow>
          if chat_type = ''private'' \<or> mode = All_Messages then True
          else (let reply_to_bot = (case dict_of_val (py_get m ''reply_to_message'') of None \<Rightarrow> False
                      | Some r \<Rightarrow> (case dict_of_val (py_get r ''from'') of None \<Rightarrow> False
                          | Some sender \<Rightarrow> is_py_int (py_get sender ''id'') \<and> py_int_val (py_get sender ''id'') = bi_id b));
                    mention = contains_bot_reference text identity
                in if mode = Reply_Only then reply_to_bot else if mode = Mention_Only then mention else reply_to_bot \<or> mention))"

section \<open>The inbound message\<close>

record tg_inbound =
  in_update :: int
  in_chat :: string
  in_chat_type :: string
  in_user :: string
  in_text :: string
  in_thread :: "string option"
  in_attachments :: "tg_attachment list"
  in_callback :: "string option"

definition message_content_text :: "py_dict \<Rightarrow> string option" where
  "message_content_text m =
     (case tg_text (py_get m ''text'') of Some t \<Rightarrow> Some t | None \<Rightarrow> tg_text (py_get m ''caption''))"

definition thread_of :: "py_dict \<Rightarrow> string option" where
  "thread_of m = (if is_py_int (py_get m ''message_thread_id'') then Some (py_str (py_get m ''message_thread_id'')) else None)"

text \<open>The person who sent it: not a bot, and with an integer id.\<close>

definition human_sender :: "py_dict \<Rightarrow> string option" where
  "human_sender p =
     (case dict_of_val (py_get p ''from'') of None \<Rightarrow> None
      | Some sender \<Rightarrow> if truthy (py_get sender ''is_bot'') \<or> \<not> is_py_int (py_get sender ''id'') then None else Some (py_str (py_get sender ''id'')))"

definition chat_of :: "py_dict \<Rightarrow> (string \<times> string) option" where
  "chat_of m =
     (case dict_of_val (py_get m ''chat'') of None \<Rightarrow> None
      | Some chat \<Rightarrow> if is_py_int (py_get chat ''id'')
          then Some (py_str (py_get chat ''id''), lower (strip (str_or (py_get chat ''type'') []))) else None)"

definition find_button_text :: "py_dict \<Rightarrow> string \<Rightarrow> string option" where
  "find_button_text m data =
     (case dict_of_val (py_get m ''reply_markup'') of None \<Rightarrow> None
      | Some markup \<Rightarrow>
          (case py_get markup ''inline_keyboard'' of
             V_List rows \<Rightarrow>
               (case List.map_filter (\<lambda>button. Option.bind (dict_of_val button)
                       (\<lambda>b. if py_get b ''callback_data'' = V_Str data then tg_text (py_get b ''text'') else None))
                     (concat (map (\<lambda>row. case row of V_List buttons \<Rightarrow> buttons | _ \<Rightarrow> []) rows)) of
                  [] \<Rightarrow> None | t # _ \<Rightarrow> Some t)
           | _ \<Rightarrow> None))"

definition callback_payload :: "py_dict \<Rightarrow> (string \<times> string) option" where
  "callback_payload q =
     (case tg_text (py_get q ''data'') of
        Some d \<Rightarrow> Some (''callback_data'', d)
      | None \<Rightarrow> map_option (\<lambda>g. (''game_short_name'', g)) (tg_text (py_get q ''game_short_name'')))"

definition callback_text :: "py_dict \<Rightarrow> string \<Rightarrow> string \<Rightarrow> string" where
  "callback_text m label payload =
     join_with newline_sep ([''Telegram button pressed:'']
       @ (case find_button_text m payload of None \<Rightarrow> [] | Some t \<Rightarrow> [''- button: '' @ t])
       @ [''- '' @ label @ '': '' @ payload]
       @ (case message_content_text m of None \<Rightarrow> [] | Some t \<Rightarrow> [''- original message: '' @ t]))"

definition extract_callback_query :: "int \<Rightarrow> py_dict \<Rightarrow> tg_inbound option" where
  "extract_callback_query update_id q =
     (case (tg_text (py_get q ''id''), human_sender q, dict_of_val (py_get q ''message'')) of
        (Some callback_id, Some user, Some m) \<Rightarrow>
          (case (chat_of m, callback_payload q) of
             (Some (chat, kind), Some (label, payload)) \<Rightarrow>
               Some \<lparr>in_update = update_id, in_chat = chat, in_chat_type = (if kind = [] then ''private'' else kind), in_user = user,
                 in_text = callback_text m label payload, in_thread = thread_of m, in_attachments = [], in_callback = Some callback_id\<rparr>
           | _ \<Rightarrow> None)
      | _ \<Rightarrow> None)"

definition compose_inbound_text :: "string \<Rightarrow> string option \<Rightarrow> string" where
  "compose_inbound_text text summary =
     (if str_or_empty summary = [] then strip text
      else if strip text = [] then str_or_empty summary
      else strip text @ newline_sep @ newline_sep @ str_or_empty summary)"

definition extract_message :: "int \<Rightarrow> py_dict \<Rightarrow> bot_identity option \<Rightarrow> trigger_mode \<Rightarrow> tg_inbound option" where
  "extract_message update_id m identity mode =
     (case (human_sender m, chat_of m) of
        (Some user, Some (chat, kind)) \<Rightarrow>
          (let trigger = str_or_empty (message_content_text m);
               atts = extract_attachments m;
               summary = render_attachment_summary m atts;
               stripped = (if trigger = [] then [] else strip_bot_reference trigger identity);
               text = compose_inbound_text stripped summary
           in if trigger = [] \<and> summary = None \<or> \<not> should_process_message m trigger kind identity mode \<or> text = [] then None
              else Some \<lparr>in_update = update_id, in_chat = chat, in_chat_type = kind, in_user = user, in_text = text,
                in_thread = thread_of m, in_attachments = atts, in_callback = None\<rparr>)
      | _ \<Rightarrow> None)"

definition extract_inbound_message :: "int \<Rightarrow> py_dict \<Rightarrow> bot_identity option \<Rightarrow> trigger_mode \<Rightarrow> tg_inbound option" where
  "extract_inbound_message update_id u identity mode =
     (case dict_of_val (py_get u ''callback_query'') of
        Some q \<Rightarrow> extract_callback_query update_id q
      | None \<Rightarrow> Option.bind (dict_of_val (py_get u ''message'')) (\<lambda>m. extract_message update_id m identity mode))"

section \<open>What counts as addressing the bot\<close>

lemma reference_in_iff:
  "reference_in name before s \<longleftrightarrow> (\<exists>u v. s = u @ CHR ''@'' # v \<and> name_follows name v
     \<and> (let b = rev u @ before in b = [] \<or> \<not> (is_word_char (hd b) \<or> hd b = CHR ''/'') \<or> slash_run is_command_char b))"
proof (induction s arbitrary: before)
  case (Cons c cs)
  let ?ctx = "\<lambda>b. b = [] \<or> \<not> (is_word_char (hd b) \<or> hd b = CHR ''/'') \<or> slash_run is_command_char b"
  have "(\<exists>u v. c # cs = u @ CHR ''@'' # v \<and> name_follows name v \<and> ?ctx (rev u @ before))
    \<longleftrightarrow> (c = CHR ''@'' \<and> name_follows name cs \<and> ?ctx before)
      \<or> (\<exists>u v. cs = u @ CHR ''@'' # v \<and> name_follows name v \<and> ?ctx (rev u @ c # before))"
  proof
    assume "\<exists>u v. c # cs = u @ CHR ''@'' # v \<and> name_follows name v \<and> ?ctx (rev u @ before)"
    then obtain u v where *: "c # cs = u @ CHR ''@'' # v" "name_follows name v" "?ctx (rev u @ before)" by blast
    show "(c = CHR ''@'' \<and> name_follows name cs \<and> ?ctx before)
      \<or> (\<exists>u v. cs = u @ CHR ''@'' # v \<and> name_follows name v \<and> ?ctx (rev u @ c # before))"
    proof (cases u)
      case Nil
      with * show ?thesis by simp
    next
      case (Cons d u')
      with *(1) have "d = c" "cs = u' @ CHR ''@'' # v" by simp_all
      moreover have "?ctx (rev u' @ c # before)" using *(3) Cons \<open>d = c\<close> by simp
      ultimately show ?thesis using *(2) by blast
    qed
  next
    assume "(c = CHR ''@'' \<and> name_follows name cs \<and> ?ctx before)
      \<or> (\<exists>u v. cs = u @ CHR ''@'' # v \<and> name_follows name v \<and> ?ctx (rev u @ c # before))"
    then show "\<exists>u v. c # cs = u @ CHR ''@'' # v \<and> name_follows name v \<and> ?ctx (rev u @ before)"
    proof
      assume "c = CHR ''@'' \<and> name_follows name cs \<and> ?ctx before"
      then show ?thesis by (intro exI [of _ "[]"] exI [of _ cs]) simp
    next
      assume "\<exists>u v. cs = u @ CHR ''@'' # v \<and> name_follows name v \<and> ?ctx (rev u @ c # before)"
      then obtain u v where "cs = u @ CHR ''@'' # v" "name_follows name v" "?ctx (rev u @ c # before)" by blast
      then show ?thesis by (intro exI [of _ "c # u"] exI [of _ v]) simp
    qed
  qed
  then show ?case using Cons.IH [of "c # before"] by (simp add: Let_def)
qed simp

text \<open>The text mentions the bot: its name after an at sign that begins a word, or as the target of a command.\<close>

definition mentions_bot :: "string \<Rightarrow> string \<Rightarrow> bool" where
  "mentions_bot name text \<longleftrightarrow> name \<noteq> [] \<and> (\<exists>u v. text = u @ CHR ''@'' # v \<and> name_follows name v
     \<and> (u = [] \<or> \<not> (is_word_char (last u) \<or> last u = CHR ''/'') \<or> slash_run is_command_char (rev u)))"

lemma contains_bot_reference_iff:
  "contains_bot_reference text (Some b) \<longleftrightarrow> mentions_bot (str_or_empty (bi_username b)) text"
  by (simp add: contains_bot_reference_def mentions_bot_def reference_in_iff Let_def hd_rev)

definition replies_to :: "py_dict \<Rightarrow> int \<Rightarrow> bool" where
  "replies_to m owner \<longleftrightarrow> (\<exists>r sender. py_get m ''reply_to_message'' = V_Dict r \<and> py_get r ''from'' = V_Dict sender
     \<and> is_py_int (py_get sender ''id'') \<and> py_int_val (py_get sender ''id'') = owner)"

lemma dict_of_val_Some [simp]: "dict_of_val v = Some d \<longleftrightarrow> v = V_Dict d"
  by (auto simp: dict_of_val_def split: pyval.splits)

lemma should_process_group:
  assumes "should_process_message m text kind identity mode" and "kind \<noteq> ''private''" and "mode \<noteq> All_Messages"
  shows "\<exists>b. identity = Some b \<and> (replies_to m (bi_id b) \<or> mentions_bot (str_or_empty (bi_username b)) text)
    \<and> (mode = Reply_Only \<longrightarrow> replies_to m (bi_id b)) \<and> (mode = Mention_Only \<longrightarrow> mentions_bot (str_or_empty (bi_username b)) text)"
proof (cases identity)
  case None
  with assms show ?thesis by (simp add: should_process_message_def)
next
  case (Some b)
  define r where "r \<longleftrightarrow> (case dict_of_val (py_get m ''reply_to_message'') of None \<Rightarrow> False
     | Some r \<Rightarrow> (case dict_of_val (py_get r ''from'') of None \<Rightarrow> False
        | Some sender \<Rightarrow> is_py_int (py_get sender ''id'') \<and> py_int_val (py_get sender ''id'') = bi_id b))"
  have "r \<Longrightarrow> replies_to m (bi_id b)" by (auto simp: r_def replies_to_def split: option.splits)
  moreover have "if mode = Reply_Only then r else if mode = Mention_Only then contains_bot_reference text (Some b) else r \<or> contains_bot_reference text (Some b)"
    using assms Some by (simp add: should_process_message_def r_def Let_def split: if_splits)
  ultimately show ?thesis using Some by (auto simp: contains_bot_reference_iff split: if_splits)
qed

lemma message_no_callback:
  assumes "extract_message u m identity mode = Some x"
  shows "in_callback x = None"
proof -
  obtain user chat kind where "human_sender m = Some user" "chat_of m = Some (chat, kind)"
    using assms by (auto simp: extract_message_def split: option.splits)
  with assms show ?thesis by (auto simp: extract_message_def Let_def split: if_split_asm)
qed

lemma human_sender_person:
  assumes "human_sender p = Some user"
  obtains sender where "py_get p ''from'' = V_Dict sender" and "\<not> truthy (py_get sender ''is_bot'')"
    and "is_py_int (py_get sender ''id'')" and "user = py_str (py_get sender ''id'')"
  using assms by (auto simp: human_sender_def split: option.splits if_splits)

text \<open>C32 A message or a button press becomes work for the bot, in whatever chat and trigger mode, only when a person
  sent it, whose id is the user of the work; and a message in a group, unless the bot listens to everything, only
  when it replies to the bot or mentions it, as the trigger mode asks.\<close>

theorem group_message_addressed:
  assumes "extract_inbound_message u d identity mode = Some x"
  shows "\<exists>m sender. py_get d (if in_callback x = None then ''message'' else ''callback_query'') = V_Dict m
    \<and> py_get m ''from'' = V_Dict sender \<and> \<not> truthy (py_get sender ''is_bot'')
    \<and> is_py_int (py_get sender ''id'') \<and> in_user x = py_str (py_get sender ''id'')
    \<and> (in_callback x = None \<longrightarrow> in_chat_type x \<noteq> ''private'' \<longrightarrow> mode \<noteq> All_Messages \<longrightarrow>
        (\<exists>b. identity = Some b
          \<and> (replies_to m (bi_id b) \<or> mentions_bot (str_or_empty (bi_username b)) (str_or_empty (message_content_text m)))
          \<and> (mode = Reply_Only \<longrightarrow> replies_to m (bi_id b))
          \<and> (mode = Mention_Only \<longrightarrow> mentions_bot (str_or_empty (bi_username b)) (str_or_empty (message_content_text m)))))"
proof (cases "in_callback x")
  case None
  from assms None obtain m where m: "py_get d ''message'' = V_Dict m" and x: "extract_message u m identity mode = Some x"
    by (auto simp: extract_inbound_message_def extract_callback_query_def bind_eq_Some_conv split: option.splits prod.splits)
  from x have user: "human_sender m = Some (in_user x)"
      and go: "should_process_message m (str_or_empty (message_content_text m)) (in_chat_type x) identity mode"
    by (auto simp: extract_message_def Let_def split: option.splits prod.splits if_splits)
  from human_sender_person [OF user] obtain sender where sender: "py_get m ''from'' = V_Dict sender" "\<not> truthy (py_get sender ''is_bot'')"
    "is_py_int (py_get sender ''id'')" "in_user x = py_str (py_get sender ''id'')" by blast
  show ?thesis
    by (rule exI [of _ m], rule exI [of _ sender]) (use m sender None should_process_group [OF go] in simp)
next
  case (Some c)
  with assms message_no_callback [of u _ identity mode x]
  obtain q where q: "py_get d ''callback_query'' = V_Dict q" and x: "extract_callback_query u q = Some x"
    by (auto simp: extract_inbound_message_def bind_eq_Some_conv split: option.splits)
  from x have user: "human_sender q = Some (in_user x)"
    by (auto simp: extract_callback_query_def split: option.splits prod.splits)
  from human_sender_person [OF user] q Some show ?thesis by auto
qed

definition demo_bot :: bot_identity where
  "demo_bot = \<lparr>bi_id = 9, bi_username = Some ''B''\<rparr>"

definition demo_message :: "string \<Rightarrow> py_dict" where
  "demo_message text = [(''from'', V_Dict [(''id'', V_Int 3), (''is_bot'', V_Bool False)]),
     (''chat'', V_Dict [(''id'', V_Int 7), (''type'', V_Str ''group'')]), (''text'', V_Str text)]"

definition demo_update :: "string \<Rightarrow> py_dict" where
  "demo_update text = [(''update_id'', V_Int 5), (''message'', V_Dict (demo_message text))]"

lemma demo_parts:
  "human_sender (demo_message text) = Some ''3''"
  "chat_of (demo_message text) = Some (''7'', ''group'')"
  "extract_attachments (demo_message text) = []"
  "render_attachment_summary (demo_message text) [] = None"
  "message_content_text (demo_message text) = text_or_none (strip text)"
  "thread_of (demo_message text) = None"
proof -
  have "lower (strip ''group'') = ''group''" by code_simp
  then show "chat_of (demo_message text) = Some (''7'', ''group'')"
    by (simp add: char_of_def bit_iff_odd chat_of_def demo_message_def py_get_def py_str_def int_str_def str_or_def dict_of_val_def nat_str.simps)
qed (simp_all add: char_of_def bit_iff_odd human_sender_def demo_message_def py_get_def py_str_def int_str_def extract_attachments_def media_keys_def dict_of_val_def
  map_filter_simps render_attachment_summary_def undownloadable_def message_content_text_def tg_text_def thread_of_def nat_str.simps text_or_none_def split: option.splits)

lemma demo_updates:
  "extract_inbound_message 5 (demo_update text) identity mode = extract_message 5 (demo_message text) identity mode"
  by (simp add: extract_inbound_message_def demo_update_def py_get_def dict_of_val_def)

lemma demo_mention:
  "text_or_none (strip ''@b 1'') = Some ''@b 1''" "contains_bot_reference ''@b 1'' (Some demo_bot)" "strip_bot_reference ''@b 1'' (Some demo_bot) = ''1''"
  "strip ''1'' = ''1''" "text_or_none (strip ''a@b'') = Some ''a@b''" "\<not> contains_bot_reference ''a@b'' (Some demo_bot)"
  by code_simp+

lemma demo_extract:
  "extract_inbound_message 5 (demo_update ''@b 1'') (Some demo_bot) Mention_Only
     = Some \<lparr>in_update = 5, in_chat = ''7'', in_chat_type = ''group'', in_user = ''3'', in_text = ''1'', in_thread = None,
         in_attachments = [], in_callback = None\<rparr>"
  by (simp add: demo_updates extract_message_def demo_parts demo_mention compose_inbound_text_def should_process_message_def Let_def)

lemma group_message_addressed_witness:
  "\<exists>m. py_get (demo_update ''@b 1'') ''message'' = V_Dict m
     \<and> mentions_bot ''B'' (str_or_empty (message_content_text m))"
  using group_message_addressed [OF demo_extract] by (auto simp: demo_bot_def)

lemma unaddressed_ignored:
  "extract_inbound_message 5 (demo_update ''a@b'') (Some demo_bot) Mention_Only = None"
  by (simp add: demo_updates extract_message_def demo_parts demo_mention compose_inbound_text_def should_process_message_def Let_def)

end
