(* ===== verification/Telegram_Polling.thy ===== *)
theory Telegram_Polling
  imports Telegram_Updates
begin

text \<open>
  The Telegram polling service (services/channels/telegram_polling.py, telegram_polling_runtime.py,
  offset functions of telegram_polling_support.py): updates are fetched from an offset, examined one
  by one, stored and gathered into batches (Channel_Ingress), carried out as turns, and acknowledged
  by a persisted offset that stays behind the first update not yet acknowledged. The coroutines meet
  at their locks, so their critical sections are the steps; a turn, the delivery of a reply and a
  download are outcomes a step is given. Clocks are in microseconds.
\<close>

section \<open>The offsets\<close>

text \<open>The update ids under acknowledgment in the order they were met, each with whether it is done.\<close>

record offset_tracker =
  ot_next :: "int option"
  ot_persisted :: "int option"
  ot_order :: "int list"
  ot_status :: "int \<rightharpoonup> bool"

record offset_file =
  of_offset :: int
  of_account :: string

definition load_next_update_offset :: "string \<Rightarrow> offset_file option \<Rightarrow> int option" where
  "load_next_update_offset account f =
     (case f of None \<Rightarrow> None
      | Some f \<Rightarrow>
          if strip (of_account f) \<noteq> [] \<and> strip (of_account f) \<noteq> account then None
          else if 0 \<le> of_offset f then Some (of_offset f) else None)"

definition reset_offset_tracking :: "int option \<Rightarrow> offset_tracker" where
  "reset_offset_tracking v = \<lparr>ot_next = v, ot_persisted = v, ot_order = [], ot_status = Map.empty\<rparr>"

definition register_pending_update :: "int \<Rightarrow> offset_tracker \<Rightarrow> offset_tracker" where
  "register_pending_update i t =
     (if ot_status t i \<noteq> None then t else t\<lparr>ot_order := ot_order t @ [i], ot_status := (ot_status t)(i \<mapsto> False)\<rparr>)"

definition advance_fetch_offset :: "int \<Rightarrow> offset_tracker \<Rightarrow> offset_tracker" where
  "advance_fetch_offset i t =
     (if (case ot_next t of None \<Rightarrow> True | Some n \<Rightarrow> n < i + 1) then t\<lparr>ot_next := Some (i + 1)\<rparr> else t)"

fun drain_acknowledged :: "int list \<Rightarrow> (int \<rightharpoonup> bool) \<Rightarrow> int option \<Rightarrow> int list \<times> (int \<rightharpoonup> bool) \<times> int option" where
  "drain_acknowledged [] status acc = ([], status, acc)"
| "drain_acknowledged (i # order) status acc =
     (if status i = Some True then drain_acknowledged order (status(i := None)) (Some (i + 1)) else (i # order, status, acc))"

text \<open>The new tracker and the offset to write, when there is one.\<close>

definition mark_update_processed :: "int \<Rightarrow> offset_tracker \<Rightarrow> offset_tracker \<times> int option" where
  "mark_update_processed i t =
     (let order = (if ot_status t i = None then ot_order t @ [i] else ot_order t) in
      case drain_acknowledged order ((ot_status t)(i \<mapsto> True)) None of
        (order, status, acc) \<Rightarrow>
          (let t' = t\<lparr>ot_order := order, ot_status := status\<rparr> in
           if acc = None \<or> acc = ot_persisted t then (t', None) else (t'\<lparr>ot_persisted := acc\<rparr>, acc)))"

section \<open>The service\<close>

record tg_endpoint =
  te_id :: string
  te_account :: string
  te_batch :: batch_config
  te_access :: access_policy
  te_identity :: "bot_identity option"
  te_mode :: trigger_mode

text \<open>A retry sleeps until it is due.\<close>

record delivery_retry =
  dr_batch :: ingress_batch
  dr_due :: instant

text \<open>
  The memory of the service, the offset file and the stored messages: the updates of the last fetch
  still to be examined, the batches whose turn is running, the retries and their counts by conversation.
  \<open>po_done\<close> is a record of the history, not a field of the code: the messages of the batches whose flush came to its
  end, each with whether a turn was run for it (no turn is run where no channel binding matches).
\<close>

record polling =
  po_tracker :: offset_tracker
  po_file :: "offset_file option"
  po_rows :: pending_rows
  po_coalescer :: coalescer
  po_todo :: "py_dict list"
  po_flushing :: "ingress_batch list"
  po_retries :: "(string \<times> delivery_retry) list"
  po_attempts :: "string \<rightharpoonup> nat"
  po_restored :: bool
  po_done :: "(string \<times> bool) list"

definition mark_processed :: "tg_endpoint \<Rightarrow> int \<Rightarrow> polling \<Rightarrow> polling" where
  "mark_processed ep i st =
     (case mark_update_processed i (po_tracker st) of
        (t, None) \<Rightarrow> st\<lparr>po_tracker := t\<rparr>
      | (t, Some offset) \<Rightarrow> st\<lparr>po_tracker := t, po_file := Some \<lparr>of_offset = offset, of_account = te_account ep\<rparr>\<rparr>)"

definition source_update :: "ingress_event \<Rightarrow> int option" where
  "source_update e = py_int (if str_or_empty (ie_source e) = [] then ie_key e else str_or_empty (ie_source e))"

fun mark_events_processed :: "tg_endpoint \<Rightarrow> ingress_event list \<Rightarrow> polling \<Rightarrow> polling" where
  "mark_events_processed ep [] st = st"
| "mark_events_processed ep (e # es) st =
     mark_events_processed ep es (case source_update e of None \<Rightarrow> st | Some i \<Rightarrow> mark_processed ep i st)"

definition mark_batch_processed :: "tg_endpoint \<Rightarrow> ingress_batch \<Rightarrow> polling \<Rightarrow> polling" where
  "mark_batch_processed ep b st = mark_events_processed ep (ib_events b) st"

section \<open>Carrying out a batch\<close>

text \<open>What the services a flush calls come back with; the typing shown before a reply fails as its delivery does.\<close>

datatype route_answer = Routed | Route_Error string

record turn_answer =
  ta_action :: string
  ta_error_code :: "string option"
  ta_message :: string

datatype delivery_answer = Delivered | Delivery_Failed string | Delivery_Raised

record flush_answers =
  fa_route :: route_answer
  fa_turn :: "turn_answer option"
  fa_delivery :: delivery_answer

definition should_suppress_channel_reply :: "turn_answer \<Rightarrow> bool" where
  "should_suppress_channel_reply a = has_prefix ''llm_'' (strip (str_or_empty (ta_error_code a)))"

definition is_action_timeout :: "string \<Rightarrow> bool" where
  "is_action_timeout reason = has_prefix ''Telegram action timed out after '' reason"

text \<open>A flush that comes to its end clears the retry count when a reply went out, and has run a turn or not; one
  that raises may be a transient timeout.\<close>

datatype flush_end = Flush_Done bool bool | Flush_Raised bool

definition flush_inbound_batch :: "flush_answers \<Rightarrow> flush_end" where
  "flush_inbound_batch a =
     (case fa_route a of
        Route_Error code \<Rightarrow> if code = ''channel_binding_no_match'' then Flush_Done False False else Flush_Raised False
      | Routed \<Rightarrow>
          (case fa_turn a of
             None \<Rightarrow> Flush_Raised False
           | Some t \<Rightarrow>
               if ta_action t \<noteq> ''finalize'' \<or> should_suppress_channel_reply t \<or> strip (ta_message t) = [] then Flush_Done False True
               else (case fa_delivery a of
                       Delivered \<Rightarrow> Flush_Done True True
                     | Delivery_Failed reason \<Rightarrow> Flush_Raised (is_action_timeout reason)
                     | Delivery_Raised \<Rightarrow> Flush_Raised False)))"

definition retry_delay :: "nat \<Rightarrow> int" where
  "retry_delay attempt = 1000000 * min 60 (5 * 2 ^ (attempt - 1))"

text \<open>A retry of the conversation that is not done yet is left as it is.\<close>

definition schedule_delivery_retry :: "ingress_batch \<Rightarrow> instant \<Rightarrow> polling \<Rightarrow> polling" where
  "schedule_delivery_retry b now st =
     (let key = batch_key b;
          attempt = (case po_attempts st key of None \<Rightarrow> 0 | Some n \<Rightarrow> n) + 1;
          st = st\<lparr>po_attempts := (po_attempts st)(key \<mapsto> attempt)\<rparr>
      in if map_of (po_retries st) key \<noteq> None then st
         else st\<lparr>po_retries := po_retries st @ [(key, \<lparr>dr_batch = b, dr_due = now + retry_delay attempt\<rparr>)]\<rparr>)"

text \<open>The flush of a batch through the coalescer; the flag is set when the exception passes on.\<close>

definition flush_batch_safe :: "tg_endpoint \<Rightarrow> flush_answers \<Rightarrow> instant \<Rightarrow> bool \<Rightarrow> ingress_batch \<Rightarrow> polling \<Rightarrow> polling \<times> bool" where
  "flush_batch_safe ep a now allow b st =
     (case flush_inbound_batch a of
        Flush_Done clear turn \<Rightarrow>
          (let st = mark_batch_processed ep b (if clear then st\<lparr>po_attempts := (po_attempts st)(batch_key b := None)\<rparr> else st) in
           case flush_succeeded (te_batch ep) now b (po_rows st) (po_coalescer st) of
             (rows, co) \<Rightarrow> (st\<lparr>po_rows := rows, po_coalescer := co, po_done := po_done st @ map (\<lambda>e. (ie_key e, turn)) (ib_events b)\<rparr>, False))
      | Flush_Raised transient \<Rightarrow>
          if \<not> allow then (st, True)
          else (if transient then schedule_delivery_retry b now st else st, False))"

section \<open>Examining an update\<close>

definition inbound_event :: "tg_endpoint \<Rightarrow> tg_inbound \<Rightarrow> string \<Rightarrow> string \<Rightarrow> ingress_event" where
  "inbound_event ep m text observed =
     \<lparr>ie_endpoint = te_id ep, ie_transport = ''telegram'', ie_account = te_account ep, ie_peer = in_chat m, ie_thread = in_thread m,
      ie_user = Some (in_user m), ie_key = int_str (in_update m), ie_message = int_str (in_update m), ie_text = text,
      ie_observed = observed, ie_chat_kind = Some (in_chat_type m), ie_source = Some (int_str (in_update m))\<rparr>"

definition inbound_allowed :: "tg_endpoint \<Rightarrow> tg_inbound \<Rightarrow> bool" where
  "inbound_allowed ep m = is_channel_message_allowed (te_access ep) (Some (in_chat_type m)) (Some (in_chat m)) (Some (in_user m))"

text \<open>
  What a step of the environment supplies: the text with the downloaded media described (None when the
  acknowledgment of a button or a download raises), the time stamp, and the answers of a flush that
  happens within the step. The flag of the result is set when the handling raises.
\<close>

record handling =
  ha_text :: "string option"
  ha_observed :: string
  ha_flush :: flush_answers

definition handle_inbound_message :: "tg_endpoint \<Rightarrow> handling \<Rightarrow> instant \<Rightarrow> tg_inbound \<Rightarrow> polling \<Rightarrow> polling \<times> bool" where
  "handle_inbound_message ep h now m st =
     (if \<not> inbound_allowed ep m then (st, False)
      else (case ha_text h of
          None \<Rightarrow> (st, True)
        | Some text \<Rightarrow>
            (case enqueue_ingress (te_batch ep) now (inbound_event ep m text (ha_observed h)) (po_rows st) (po_coalescer st) of
               (rows, co, answer) \<Rightarrow>
                 (let st = st\<lparr>po_rows := rows, po_coalescer := co\<rparr> in
                  case answer of
                    Flush_Now b allow \<Rightarrow> flush_batch_safe ep (ha_flush h) now allow b st
                  | _ \<Rightarrow> (st, False)))))"

definition update_id :: "py_dict \<Rightarrow> int option" where
  "update_id u = (if is_py_int (py_get u ''update_id'') then Some (py_int_val (py_get u ''update_id'')) else None)"

definition extract_update :: "tg_endpoint \<Rightarrow> py_dict \<Rightarrow> tg_inbound option" where
  "extract_update ep u =
     (case update_id u of None \<Rightarrow> None | Some i \<Rightarrow> extract_inbound_message i u (te_identity ep) (te_mode ep))"

text \<open>The next update of the fetch. An exception leaves the rest of the fetch unexamined.\<close>

definition process_update :: "tg_endpoint \<Rightarrow> handling \<Rightarrow> instant \<Rightarrow> polling \<Rightarrow> polling" where
  "process_update ep h now st =
     (case po_todo st of
        [] \<Rightarrow> st
      | u # rest \<Rightarrow>
          (let st = st\<lparr>po_todo := rest\<rparr> in
           case update_id u of
             None \<Rightarrow> st
           | Some i \<Rightarrow>
               (let st = st\<lparr>po_tracker := register_pending_update i (po_tracker st)\<rparr> in
                case extract_update ep u of
                  None \<Rightarrow> mark_processed ep i (st\<lparr>po_tracker := advance_fetch_offset i (po_tracker st)\<rparr>)
                | Some m \<Rightarrow>
                    (case handle_inbound_message ep h now m st of
                       (st, True) \<Rightarrow>
                         (if bc_enabled (te_batch ep) then st else st\<lparr>po_rows := release_event (te_id ep) (int_str (in_update m)) (po_rows st)\<rparr>)
                           \<lparr>po_todo := []\<rparr>
                     | (st, False) \<Rightarrow>
                         (let st = st\<lparr>po_tracker := advance_fetch_offset i (po_tracker st)\<rparr>
                          in if bc_enabled (te_batch ep) then st else mark_processed ep i st)))))"

section \<open>Restoring, retrying, starting and stopping\<close>

fun flush_batches :: "tg_endpoint \<Rightarrow> flush_answers list \<Rightarrow> instant \<Rightarrow> ingress_batch list \<Rightarrow> polling \<Rightarrow> polling" where
  "flush_batches ep as now [] st = st"
| "flush_batches ep [] now (b # bs) st = st"
| "flush_batches ep (a # as) now (b # bs) st = flush_batches ep as now bs (fst (flush_batch_safe ep a now True b st))"

text \<open>With as many answers as batches every batch is flushed; fewer mean that the service was cut off.\<close>

definition restore_pending_ingress :: "tg_endpoint \<Rightarrow> flush_answers list \<Rightarrow> instant \<Rightarrow> polling \<Rightarrow> polling" where
  "restore_pending_ingress ep as now st =
     (if po_restored st then st
      else (let bs = split_restore_batches (te_batch ep) (list_pending (te_id ep) (po_rows st)) in
            (flush_batches ep as now bs st)\<lparr>po_restored := (length bs \<le> length as)\<rparr>))"

text \<open>A retry whose time has come; it leaves the table of retries when it has run.\<close>

definition run_delivery_retry :: "tg_endpoint \<Rightarrow> flush_answers list \<Rightarrow> instant \<Rightarrow> string \<Rightarrow> polling \<Rightarrow> polling" where
  "run_delivery_retry ep as now key st =
     (case map_of (po_retries st) key of
        None \<Rightarrow> st
      | Some r \<Rightarrow>
          if now < dr_due r then st
          else (let st = flush_batches ep as now (split_restore_batches (te_batch ep) (ib_events (dr_batch r))) st
                in st\<lparr>po_retries := filter (\<lambda>kr. fst kr \<noteq> key) (po_retries st)\<rparr>))"

definition start_service :: "tg_endpoint \<Rightarrow> polling \<Rightarrow> polling" where
  "start_service ep st = st\<lparr>po_tracker := reset_offset_tracking (load_next_update_offset (te_account ep) (po_file st))\<rparr>"

text \<open>Stopping cancels the retries and flushes what is buffered, whose turns then run to their end.\<close>

definition flush_all_pending :: "polling \<Rightarrow> polling" where
  "flush_all_pending st = (case flush_all (po_coalescer st) of (co, bs) \<Rightarrow> st\<lparr>po_coalescer := co, po_flushing := po_flushing st @ bs\<rparr>)"

definition stop_service :: "polling \<Rightarrow> polling" where
  "stop_service st = (flush_all_pending (st\<lparr>po_retries := [], po_attempts := Map.empty, po_todo := []\<rparr>))\<lparr>po_restored := False\<rparr>"

definition reset_saved_offset :: "polling \<Rightarrow> polling" where
  "reset_saved_offset st = st\<lparr>po_tracker := reset_offset_tracking None, po_file := None\<rparr>"

text \<open>A new process has the file and the stored messages only.\<close>

definition new_process :: "polling \<Rightarrow> polling" where
  "new_process st = \<lparr>po_tracker = reset_offset_tracking None, po_file = po_file st, po_rows = po_rows st,
     po_coalescer = \<lparr>co_pending = [], co_next = []\<rparr>, po_todo = [], po_flushing = [], po_retries = [], po_attempts = Map.empty, po_restored = False,
     po_done = po_done st\<rparr>"

definition flush_timer :: "instant \<Rightarrow> string \<Rightarrow> polling \<Rightarrow> polling" where
  "flush_timer now key st =
     (case flush_after_delay now key (po_coalescer st) of
        (co, None) \<Rightarrow> st\<lparr>po_coalescer := co\<rparr>
      | (co, Some b) \<Rightarrow> st\<lparr>po_coalescer := co, po_flushing := po_flushing st @ [b]\<rparr>)"

text \<open>The offset a fetch asks for.\<close>

definition prepare_fetch :: "tg_endpoint \<Rightarrow> polling \<Rightarrow> polling" where
  "prepare_fetch ep st = (if ot_next (po_tracker st) = None then start_service ep st else st)"

section \<open>The service and the Bot API\<close>

text \<open>
  The updates the Bot API still holds for the bot, all that ever arrived, and those it dropped unfetched. As its
  documentation says, a request returns the earliest held updates from its offset on, the updates below the
  offset of a request are confirmed and not returned again, and no update is held longer than 24 hours
  (\<open>Expire\<close>: the oldest go first). Ids grow with the arrivals, except that after a week without updates the next id is
  random: arrivals are arbitrary here, and where growing ids are needed it is a hypothesis (\<open>ids_ok\<close>).
\<close>

record world =
  wd_service :: polling
  wd_held :: "py_dict list"
  wd_arrived :: "py_dict list"
  wd_expired :: "py_dict list"

datatype tg_op =
    Arrive py_dict
  | Expire nat
  | Fetch nat bool
  | Examine handling instant
  | Cut_Off handling instant
  | Flush_Timer string instant
  | Turn_Ends ingress_batch flush_answers instant
  | Restore "flush_answers list" instant
  | Retry_Due string "flush_answers list" instant
  | Flush_All
  | Start | Stop | Reset_Offset | Crash

definition held_from :: "int option \<Rightarrow> py_dict list \<Rightarrow> py_dict list" where
  "held_from offset us = (case offset of None \<Rightarrow> us | Some n \<Rightarrow> filter (\<lambda>u. case update_id u of None \<Rightarrow> False | Some i \<Rightarrow> n \<le> i) us)"

text \<open>The process ends after it has stored the message of the update it was examining.\<close>

definition cut_off :: "tg_endpoint \<Rightarrow> handling \<Rightarrow> polling \<Rightarrow> polling" where
  "cut_off ep h st =
     (case po_todo st of
        [] \<Rightarrow> new_process st
      | u # rest \<Rightarrow>
          (case (extract_update ep u, ha_text h) of
             (Some m, Some text) \<Rightarrow>
               new_process (if inbound_allowed ep m then st\<lparr>po_rows := fst (record_pending (inbound_event ep m text (ha_observed h)) (po_rows st))\<rparr> else st)
           | _ \<Rightarrow> new_process st))"

text \<open>An unanswered request may still have confirmed. Polling begins when the stored messages are restored.\<close>

definition fetch_updates :: "tg_endpoint \<Rightarrow> nat \<Rightarrow> bool \<Rightarrow> world \<Rightarrow> world" where
  "fetch_updates ep limit answered w =
     (if \<not> po_restored (wd_service w) \<or> po_todo (wd_service w) \<noteq> [] then w
      else (let st = prepare_fetch ep (wd_service w);
                held = held_from (ot_next (po_tracker st)) (wd_held w)
            in w\<lparr>wd_service := st\<lparr>po_todo := (if answered then take limit held else [])\<rparr>, wd_held := held\<rparr>))"

definition turn_ends :: "tg_endpoint \<Rightarrow> ingress_batch \<Rightarrow> flush_answers \<Rightarrow> instant \<Rightarrow> polling \<Rightarrow> polling" where
  "turn_ends ep b a now st =
     (if b \<notin> set (po_flushing st) then st
      else fst (flush_batch_safe ep a now True b (st\<lparr>po_flushing := remove1 b (po_flushing st)\<rparr>)))"

definition service_op :: "tg_endpoint \<Rightarrow> tg_op \<Rightarrow> polling \<Rightarrow> polling" where
  "service_op ep x st =
     (case x of
        Examine h now \<Rightarrow> process_update ep h now st
      | Cut_Off h now \<Rightarrow> cut_off ep h st
      | Flush_Timer key now \<Rightarrow> flush_timer now key st
      | Turn_Ends b a now \<Rightarrow> turn_ends ep b a now st
      | Restore as now \<Rightarrow> restore_pending_ingress ep as now st
      | Retry_Due key as now \<Rightarrow> run_delivery_retry ep as now key st
      | Flush_All \<Rightarrow> flush_all_pending st
      | Start \<Rightarrow> start_service ep st
      | Stop \<Rightarrow> stop_service st
      | Reset_Offset \<Rightarrow> reset_saved_offset st
      | Crash \<Rightarrow> new_process st
      | _ \<Rightarrow> st)"

definition tg_step :: "tg_endpoint \<Rightarrow> tg_op \<Rightarrow> world \<Rightarrow> world" where
  "tg_step ep x w =
     (case x of
        Arrive u \<Rightarrow> w\<lparr>wd_held := wd_held w @ [u], wd_arrived := wd_arrived w @ [u]\<rparr>
      | Expire n \<Rightarrow> w\<lparr>wd_held := drop n (wd_held w), wd_expired := wd_expired w @ take n (wd_held w)\<rparr>
      | Fetch limit answered \<Rightarrow> fetch_updates ep limit answered w
      | _ \<Rightarrow> w\<lparr>wd_service := service_op ep x (wd_service w)\<rparr>)"

definition fresh_polling :: polling where
  "fresh_polling = \<lparr>po_tracker = reset_offset_tracking None, po_file = None, po_rows = [],
     po_coalescer = \<lparr>co_pending = [], co_next = []\<rparr>, po_todo = [], po_flushing = [], po_retries = [], po_attempts = Map.empty, po_restored = False,
     po_done = []\<rparr>"

definition run_world :: "tg_endpoint \<Rightarrow> tg_op list \<Rightarrow> world" where
  "run_world ep xs = fold (tg_step ep) xs \<lparr>wd_service = fresh_polling, wd_held = [], wd_arrived = [], wd_expired = []\<rparr>"

text \<open>What the bot has to take up, and what it cannot lose any more.\<close>

definition update_wanted :: "tg_endpoint \<Rightarrow> py_dict \<Rightarrow> bool" where
  "update_wanted ep u = (case extract_update ep u of None \<Rightarrow> False | Some m \<Rightarrow> inbound_allowed ep m)"

definition update_safe :: "tg_endpoint \<Rightarrow> polling \<Rightarrow> py_dict \<Rightarrow> bool" where
  "update_safe ep st u =
     (case update_id u of None \<Rightarrow> False
      | Some i \<Rightarrow> int_str i \<in> fst ` set (po_done st) \<or> list_ex (\<lambda>e. ie_endpoint e = te_id ep \<and> ie_key e = int_str i) (po_rows st))"

section \<open>Offsets stay behind what is safe\<close>

definition acks_ok :: "(int \<Rightarrow> bool) \<Rightarrow> (int \<rightharpoonup> bool) \<Rightarrow> bool" where
  "acks_ok B status \<longleftrightarrow> (\<forall>i. status i = Some True \<longrightarrow> B (i + 1))"

definition offset_ok :: "(int \<Rightarrow> bool) \<Rightarrow> int option \<Rightarrow> bool" where
  "offset_ok B v \<longleftrightarrow> (\<forall>n. v = Some n \<longrightarrow> B n)"

definition tracker_ok :: "(int \<Rightarrow> bool) \<Rightarrow> offset_tracker \<Rightarrow> bool" where
  "tracker_ok B t \<longleftrightarrow> offset_ok B (ot_next t) \<and> acks_ok B (ot_status t)"

definition event_acked_ok :: "(int \<Rightarrow> bool) \<Rightarrow> ingress_event \<Rightarrow> bool" where
  "event_acked_ok B e \<longleftrightarrow> (\<forall>i. source_update e = Some i \<longrightarrow> B (i + 1))"

definition batch_acked_ok :: "(int \<Rightarrow> bool) \<Rightarrow> ingress_batch \<Rightarrow> bool" where
  "batch_acked_ok B b \<longleftrightarrow> (\<forall>e \<in> set (ib_events b). event_acked_ok B e)"

definition service_ok :: "(int \<Rightarrow> bool) \<Rightarrow> polling \<Rightarrow> bool" where
  "service_ok B st \<longleftrightarrow> tracker_ok B (po_tracker st) \<and> offset_ok B (map_option of_offset (po_file st))
     \<and> (\<forall>e \<in> set (po_rows st). event_acked_ok B e)
     \<and> (\<forall>kp \<in> set (co_pending (po_coalescer st)). batch_acked_ok B (pb_batch (snd kp)))
     \<and> (\<forall>b \<in> set (po_flushing st). batch_acked_ok B b) \<and> (\<forall>kr \<in> set (po_retries st). batch_acked_ok B (dr_batch (snd kr)))"

lemma offset_ok_simps [simp]: "offset_ok B None" "offset_ok B (Some n) = B n"
  by (simp_all add: offset_ok_def)

lemma acks_ok_simps [simp]: "acks_ok B Map.empty"
  "acks_ok B status \<Longrightarrow> acks_ok B (status(i := None))" "acks_ok B status \<Longrightarrow> acks_ok B (status(i \<mapsto> False))"
  "acks_ok B status \<Longrightarrow> B (i + 1) \<Longrightarrow> acks_ok B (status(i \<mapsto> True))"
  by (simp_all add: acks_ok_def)

lemma acks_okD: "acks_ok B status \<Longrightarrow> status i = Some True \<Longrightarrow> B (i + 1)"
  by (simp add: acks_ok_def)

lemma tracker_reset: "offset_ok B v \<Longrightarrow> tracker_ok B (reset_offset_tracking v)"
  by (simp add: tracker_ok_def reset_offset_tracking_def)

lemma tracker_register: "tracker_ok B t \<Longrightarrow> tracker_ok B (register_pending_update i t)"
  by (simp add: tracker_ok_def register_pending_update_def)

lemma tracker_advance: "tracker_ok B t \<Longrightarrow> B (i + 1) \<Longrightarrow> tracker_ok B (advance_fetch_offset i t)"
  by (simp add: tracker_ok_def advance_fetch_offset_def)

lemma drain_ok:
  assumes "acks_ok B status" and "offset_ok B acc"
  shows "acks_ok B (fst (snd (drain_acknowledged order status acc))) \<and> offset_ok B (snd (snd (drain_acknowledged order status acc)))"
  using assms
proof (induction order arbitrary: status acc)
  case (Cons i order)
  show ?case
  proof (cases "status i = Some True")
    case True
    with Cons.IH [of "status(i := None)" "Some (i + 1)"] Cons.prems(1) acks_okD [OF Cons.prems(1) True]
    show ?thesis by (simp del: fun_upd_apply)
  next
    case False
    then show ?thesis using Cons.prems by simp
  qed
qed simp

lemma mark_ok:
  assumes "mark_update_processed i t = (t', r)" and "tracker_ok B t" and "B (i + 1)"
  shows "tracker_ok B t' \<and> offset_ok B r"
proof -
  obtain order status acc where drain: "drain_acknowledged (if ot_status t i = None then ot_order t @ [i] else ot_order t)
      ((ot_status t)(i \<mapsto> True)) None = (order, status, acc)" by (metis prod_cases3)
  have "acks_ok B ((ot_status t)(i \<mapsto> True))" using assms by (simp add: tracker_ok_def)
  from drain_ok [OF this, of None "if ot_status t i = None then ot_order t @ [i] else ot_order t"] drain
  have ok: "acks_ok B status" "offset_ok B acc" by simp_all
  have eq: "(t', r) = (if acc = None \<or> acc = ot_persisted t then (t\<lparr>ot_order := order, ot_status := status\<rparr>, None)
      else (t\<lparr>ot_order := order, ot_status := status, ot_persisted := acc\<rparr>, acc))"
    using assms(1) drain by (simp add: mark_update_processed_def Let_def)
  show ?thesis
  proof (cases "acc = None \<or> acc = ot_persisted t")
    case True
    with eq have "t' = t\<lparr>ot_order := order, ot_status := status\<rparr>" "r = None" by simp_all
    then show ?thesis using assms(2) ok by (simp add: tracker_ok_def)
  next
    case False
    with eq have "t' = t\<lparr>ot_order := order, ot_status := status, ot_persisted := acc\<rparr>" "r = acc" by simp_all
    then show ?thesis using assms(2) ok by (simp add: tracker_ok_def)
  qed
qed

lemma mark_processed_frame [simp]:
  "po_rows (mark_processed ep i st) = po_rows st" "po_coalescer (mark_processed ep i st) = po_coalescer st"
  "po_todo (mark_processed ep i st) = po_todo st" "po_flushing (mark_processed ep i st) = po_flushing st"
  "po_retries (mark_processed ep i st) = po_retries st" "po_done (mark_processed ep i st) = po_done st"
  by (simp_all add: mark_processed_def split: prod.splits option.splits)

lemma mark_processed_ok: "service_ok B st \<Longrightarrow> B (i + 1) \<Longrightarrow> service_ok B (mark_processed ep i st)"
  using mark_ok [of i "po_tracker st" _ _ B]
  by (auto simp: service_ok_def mark_processed_def split: prod.splits option.splits)

lemma mark_events_frame [simp]:
  "po_rows (mark_events_processed ep es st) = po_rows st" "po_coalescer (mark_events_processed ep es st) = po_coalescer st"
  "po_todo (mark_events_processed ep es st) = po_todo st" "po_flushing (mark_events_processed ep es st) = po_flushing st"
  "po_retries (mark_events_processed ep es st) = po_retries st" "po_done (mark_events_processed ep es st) = po_done st"
  by (induction es arbitrary: st) (simp_all split: option.splits)

lemma mark_events_ok: "service_ok B st \<Longrightarrow> \<forall>e \<in> set es. event_acked_ok B e \<Longrightarrow> service_ok B (mark_events_processed ep es st)"
  by (induction es arbitrary: st) (auto simp: event_acked_ok_def mark_processed_ok split: option.splits)

lemma service_ok_attempts [simp]: "service_ok B (st\<lparr>po_attempts := x\<rparr>) = service_ok B st"
  by (simp add: service_ok_def)

lemma service_ok_restored [simp]: "service_ok B (st\<lparr>po_restored := x\<rparr>) = service_ok B st"
  by (simp add: service_ok_def)

lemma service_ok_todo [simp]: "service_ok B (st\<lparr>po_todo := x\<rparr>) = service_ok B st"
  by (simp add: service_ok_def)

lemma service_ok_done [simp]: "service_ok B (st\<lparr>po_done := x\<rparr>) = service_ok B st"
  by (simp add: service_ok_def)

lemma service_ok_mono: "service_ok B st \<Longrightarrow> (\<And>n. B n \<Longrightarrow> B' n) \<Longrightarrow> service_ok B' st"
  unfolding service_ok_def tracker_ok_def offset_ok_def acks_ok_def batch_acked_ok_def event_acked_ok_def by blast

text \<open>What a step keeps: nothing that was safe is lost, and the rest of the fetch stays.\<close>

definition keeps_safe :: "tg_endpoint \<Rightarrow> polling \<Rightarrow> polling \<Rightarrow> bool" where
  "keeps_safe ep st st' \<longleftrightarrow> (\<forall>u. update_safe ep st u \<longrightarrow> update_safe ep st' u)"

lemma keeps_safe_refl [simp]: "keeps_safe ep st st"
  by (simp add: keeps_safe_def)

lemma keeps_safe_trans: "keeps_safe ep st st' \<Longrightarrow> keeps_safe ep st' st'' \<Longrightarrow> keeps_safe ep st st''"
  by (simp add: keeps_safe_def)

lemma update_safe_same: "po_rows st' = po_rows st \<Longrightarrow> po_done st' = po_done st \<Longrightarrow> update_safe ep st' u = update_safe ep st u"
  by (simp add: update_safe_def split: option.split)

lemma update_safe_fields [simp]:
  "update_safe ep (st\<lparr>po_tracker := x1\<rparr>) = update_safe ep st" "update_safe ep (st\<lparr>po_todo := x2\<rparr>) = update_safe ep st"
  "update_safe ep (st\<lparr>po_flushing := x3\<rparr>) = update_safe ep st" "update_safe ep (st\<lparr>po_restored := x4\<rparr>) = update_safe ep st"
  "update_safe ep (st\<lparr>po_retries := x5\<rparr>) = update_safe ep st" "update_safe ep (st\<lparr>po_coalescer := x6\<rparr>) = update_safe ep st"
  by (simp_all add: fun_eq_iff update_safe_def split: option.split)

lemma keeps_safe_same: "po_rows st' = po_rows st \<Longrightarrow> po_done st' = po_done st \<Longrightarrow> keeps_safe ep st st'"
  unfolding keeps_safe_def using update_safe_same [of st' st ep] by simp

lemma keeps_safe_release:
  assumes rows: "po_rows st' = release_batch b (po_rows st)" and carried: "po_done st' = po_done st @ map (\<lambda>e. (ie_key e, turn)) (ib_events b)"
  shows "keeps_safe ep st st'"
proof -
  have "int_str i \<in> fst ` set (po_done st') \<or> e \<in> set (po_rows st')" if "e \<in> set (po_rows st)" "ie_key e = int_str i" for e i
  proof (cases "ie_endpoint e = ib_endpoint b \<and> ie_key e \<in> set (map ie_key (ib_events b))")
    case True
    then have "ie_key e \<in> fst ` set (po_done st')" unfolding carried by force
    then show ?thesis using that(2) by simp
  next
    case False
    then show ?thesis using that(1) unfolding rows release_batch_def delete_by_event_keys_def delete_where_def by simp
  qed
  then show ?thesis using carried by (fastforce simp: keeps_safe_def update_safe_def list_ex_iff split: option.splits)
qed

lemma service_ok_rows:
  assumes "service_ok B st" and "set rows \<subseteq> set (po_rows st)"
    and "\<forall>kp \<in> set (co_pending co). batch_acked_ok B (pb_batch (snd kp))"
  shows "service_ok B (st\<lparr>po_rows := rows, po_coalescer := co\<rparr>)"
  using assms by (auto simp: service_ok_def)

lemma schedule_ok: "service_ok B st \<Longrightarrow> batch_acked_ok B b \<Longrightarrow> service_ok B (schedule_delivery_retry b now st)"
  by (auto simp: service_ok_def schedule_delivery_retry_def Let_def)

lemma schedule_frame [simp]:
  "po_rows (schedule_delivery_retry b now st) = po_rows st" "po_done (schedule_delivery_retry b now st) = po_done st"
  "po_todo (schedule_delivery_retry b now st) = po_todo st"
  by (simp_all add: schedule_delivery_retry_def Let_def)

lemma flush_batch_ok:
  assumes ok: "service_ok B st" and b: "batch_acked_ok B b"
  shows "service_ok B (fst (flush_batch_safe ep a now allow b st)) \<and> keeps_safe ep st (fst (flush_batch_safe ep a now allow b st))
    \<and> po_todo (fst (flush_batch_safe ep a now allow b st)) = po_todo st"
proof (cases "flush_inbound_batch a")
  case (Flush_Done clear turn)
  define st1 where "st1 = mark_batch_processed ep b (if clear then st\<lparr>po_attempts := (po_attempts st)(batch_key b := None)\<rparr> else st)"
  have ok1: "service_ok B st1"
    unfolding st1_def mark_batch_processed_def using ok b by (intro mark_events_ok) (simp_all add: batch_acked_ok_def)
  have same: "po_rows st1 = po_rows st" "po_done st1 = po_done st" "po_todo st1 = po_todo st"
    by (simp_all add: st1_def mark_batch_processed_def)
  obtain co where co: "flush_succeeded (te_batch ep) now b (po_rows st1) (po_coalescer st1) = (release_batch b (po_rows st1), co)"
      "co_pending co = co_pending (po_coalescer st1)"
    by (simp add: flush_succeeded_def)
  have "service_ok B (st1\<lparr>po_rows := release_batch b (po_rows st1), po_coalescer := co\<rparr>)"
    by (rule service_ok_rows [OF ok1])
      (use ok1 co(2) in \<open>auto simp: service_ok_def release_batch_def delete_by_event_keys_def delete_where_def\<close>)
  then show ?thesis
    using Flush_Done co(1) same keeps_safe_release [of _ b st turn ep] by (simp add: flush_batch_safe_def st1_def [symmetric] Let_def service_ok_def)
next
  case (Flush_Raised transient)
  then show ?thesis using ok b by (simp add: flush_batch_safe_def schedule_ok keeps_safe_same)
qed

lemma flush_batch_handled: "\<not> snd (flush_batch_safe ep a now True b st)"
  by (simp add: flush_batch_safe_def Let_def split: flush_end.splits prod.splits)

lemma flush_batches_ok:
  assumes "service_ok B st" and "\<forall>b \<in> set bs. batch_acked_ok B b"
  shows "service_ok B (flush_batches ep as now bs st) \<and> keeps_safe ep st (flush_batches ep as now bs st)
    \<and> po_todo (flush_batches ep as now bs st) = po_todo st"
  using assms
proof (induction ep as now bs st rule: flush_batches.induct)
  case (3 ep a as now b bs st)
  from flush_batch_ok [of B st b ep a now True] 3(2,3) have one: "service_ok B (fst (flush_batch_safe ep a now True b st))"
      "keeps_safe ep st (fst (flush_batch_safe ep a now True b st))" "po_todo (fst (flush_batch_safe ep a now True b st)) = po_todo st"
    by simp_all
  with 3(1) [OF one(1)] 3(3) keeps_safe_trans [OF one(2)] show ?case by simp
qed simp_all

lemma restored_acked:
  "\<forall>e \<in> set es. event_acked_ok B e \<Longrightarrow> \<forall>b \<in> set (split_restore_batches cfg es). batch_acked_ok B b"
  by (auto simp: batch_acked_ok_def dest: restored_event)

lemma restore_ok:
  assumes "service_ok B st"
  shows "service_ok B (restore_pending_ingress ep as now st) \<and> keeps_safe ep st (restore_pending_ingress ep as now st)
    \<and> po_todo (restore_pending_ingress ep as now st) = po_todo st"
proof -
  let ?bs = "split_restore_batches (te_batch ep) (list_pending (te_id ep) (po_rows st))"
  have "\<forall>e \<in> set (list_pending (te_id ep) (po_rows st)). event_acked_ok B e"
    using assms by (simp add: service_ok_def list_pending_def)
  from flush_batches_ok [OF assms restored_acked [OF this], of ep as now "te_batch ep"] show ?thesis
    by (auto simp: restore_pending_ingress_def Let_def keeps_safe_def assms)
qed

lemma retry_ok:
  assumes ok: "service_ok B st"
  shows "service_ok B (run_delivery_retry ep as now key st) \<and> keeps_safe ep st (run_delivery_retry ep as now key st)
    \<and> po_todo (run_delivery_retry ep as now key st) = po_todo st"
proof (cases "map_of (po_retries st) key")
  case None
  then show ?thesis using ok by (simp add: run_delivery_retry_def)
next
  case (Some r)
  then have "\<forall>e \<in> set (ib_events (dr_batch r)). event_acked_ok B e"
    using ok by (force simp: service_ok_def batch_acked_ok_def dest: map_of_SomeD)
  from flush_batches_ok [OF ok restored_acked [OF this], of ep as now "te_batch ep"] Some ok show ?thesis
    by (auto simp: run_delivery_retry_def Let_def service_ok_def keeps_safe_def)
qed

lemma timer_ok:
  assumes "service_ok B st"
  shows "service_ok B (flush_timer now key st) \<and> keeps_safe ep st (flush_timer now key st) \<and> po_todo (flush_timer now key st) = po_todo st"
  using assms
  by (auto simp: flush_timer_def flush_after_delay_def service_ok_def without_pending_def keeps_safe_same
      dest!: map_of_SomeD split: option.splits)

lemma flush_all_ok:
  assumes "service_ok B st"
  shows "service_ok B (flush_all_pending st) \<and> keeps_safe ep st (flush_all_pending st) \<and> po_todo (flush_all_pending st) = po_todo st"
  using assms by (auto simp: flush_all_pending_def flush_all_def service_ok_def keeps_safe_same)

lemma start_ok:
  assumes "service_ok B st"
  shows "service_ok B (start_service ep st) \<and> keeps_safe ep st (start_service ep st) \<and> po_todo (start_service ep st) = po_todo st"
  using assms
  by (auto simp: start_service_def service_ok_def keeps_safe_same load_next_update_offset_def intro!: tracker_reset split: option.splits if_splits)

lemma stop_ok:
  assumes "service_ok B st"
  shows "service_ok B (stop_service st) \<and> keeps_safe ep st (stop_service st) \<and> po_todo (stop_service st) = []"
  using assms by (auto simp: stop_service_def flush_all_pending_def flush_all_def service_ok_def keeps_safe_same)

lemma reset_ok:
  assumes "service_ok B st"
  shows "service_ok B (reset_saved_offset st) \<and> keeps_safe ep st (reset_saved_offset st) \<and> po_todo (reset_saved_offset st) = po_todo st"
  using assms by (auto simp: reset_saved_offset_def service_ok_def keeps_safe_same intro!: tracker_reset)

lemma new_process_ok:
  assumes "service_ok B st"
  shows "service_ok B (new_process st) \<and> keeps_safe ep st (new_process st) \<and> po_todo (new_process st) = []"
  using assms by (auto simp: new_process_def service_ok_def keeps_safe_same intro!: tracker_reset)

lemma turn_ends_ok:
  assumes ok: "service_ok B st"
  shows "service_ok B (turn_ends ep b a now st) \<and> keeps_safe ep st (turn_ends ep b a now st) \<and> po_todo (turn_ends ep b a now st) = po_todo st"
proof (cases "b \<in> set (po_flushing st)")
  case True
  let ?st = "st\<lparr>po_flushing := remove1 b (po_flushing st)\<rparr>"
  have "service_ok B ?st" using ok by (auto simp: service_ok_def dest: notin_set_remove1)
  moreover have "batch_acked_ok B b" using ok True by (simp add: service_ok_def)
  ultimately show ?thesis using flush_batch_ok [of B ?st b ep a now True] True
    by (simp add: turn_ends_def keeps_safe_def)
qed (use ok in \<open>simp add: turn_ends_def\<close>)

section \<open>No update is lost\<close>

text \<open>An offset is no further than one past an update that arrived, and every update before it is safe.\<close>

text \<open>An update that expired at the Bot API may be missed.\<close>

definition needs :: "tg_endpoint \<Rightarrow> py_dict list \<Rightarrow> py_dict \<Rightarrow> bool" where
  "needs ep expired u \<longleftrightarrow> update_wanted ep u \<and> u \<notin> set expired"

definition bound_ok :: "tg_endpoint \<Rightarrow> py_dict list \<Rightarrow> py_dict list \<Rightarrow> polling \<Rightarrow> int \<Rightarrow> bool" where
  "bound_ok ep ex us st n \<longleftrightarrow> (\<exists>u \<in> set us. \<exists>i. update_id u = Some i \<and> n \<le> i + 1)
     \<and> (\<forall>u \<in> set us. \<forall>i. update_id u = Some i \<and> i < n \<and> needs ep ex u \<longrightarrow> update_safe ep st u)"

lemma bound_ok_mono: "bound_ok ep ex us st n \<Longrightarrow> keeps_safe ep st st' \<Longrightarrow> bound_ok ep ex us st' n"
  unfolding bound_ok_def keeps_safe_def by blast

lemma service_ok_keeps:
  "service_ok (bound_ok ep ex us st) st' \<Longrightarrow> keeps_safe ep st st' \<Longrightarrow> service_ok (bound_ok ep ex us st') st'"
  by (rule service_ok_mono, assumption, erule bound_ok_mono)

lemma extract_message_id: "extract_message i m identity mode = Some x \<Longrightarrow> in_update x = i"
  unfolding extract_message_def Let_def by (auto split: option.splits prod.splits if_split_asm)

lemma extract_callback_id: "extract_callback_query i q = Some x \<Longrightarrow> in_update x = i"
  unfolding extract_callback_query_def by (auto split: option.splits prod.splits)

lemma extract_update_id: "extract_update ep u = Some m \<Longrightarrow> update_id u = Some (in_update m)"
  by (auto simp: extract_update_def extract_inbound_message_def bind_eq_Some_conv dest: extract_message_id extract_callback_id
      split: option.splits)

lemma py_int_int_str: "0 \<le> i \<Longrightarrow> py_int (int_str i) = Some i"
  by (simp add: int_str_def)

lemma int_str_not_Nil: "int_str i \<noteq> []"
  by (simp add: int_str_def)

lemma source_inbound: "0 \<le> in_update m \<Longrightarrow> source_update (inbound_event ep m text observed) = Some (in_update m)"
  by (simp add: source_update_def inbound_event_def str_or_empty_def int_str_not_Nil py_int_int_str)

lemma set_update_any: "kp \<in> set (AList.update k v ps) \<Longrightarrow> kp = (k, v) \<or> kp \<in> set ps"
  by (induction ps) (auto split: if_splits)

lemma buffer_acked:
  assumes "\<forall>kp \<in> set (co_pending co). batch_acked_ok B (pb_batch (snd kp))" and "event_acked_ok B e"
    and "buffer_event cfg now e co = (co', a)" and "bc_enabled cfg"
  shows "(\<forall>kp \<in> set (co_pending co'). batch_acked_ok B (pb_batch (snd kp))) \<and> (\<forall>b flag. a = Flush_Now b flag \<longrightarrow> flag \<and> batch_acked_ok B b)"
proof -
  let ?k = "conversation_key e"
  define p where "p = append_event e (case map_of (co_pending co) ?k of Some p \<Rightarrow> p | None \<Rightarrow> \<lparr>pb_batch = batch_for e [], pb_chars = 0, pb_due = None\<rparr>)"
  define delay where "delay = compute_flush_delay cfg now ?k co"
  have p: "batch_acked_ok B (pb_batch p)"
    using assms(1,2) by (auto simp: p_def batch_acked_ok_def dest!: map_of_SomeD split: option.splits)
  show ?thesis
  proof (cases "(bc_max_batch cfg \<le> int (length (ib_events (pb_batch p))) \<or> bc_max_chars cfg \<le> pb_chars p) \<and> delay \<le> 0")
    case True
    with assms(3,4) have "co' = co\<lparr>co_pending := without_pending ?k (co_pending co)\<rparr>" "a = Flush_Now (pb_batch p) True"
      by (simp_all add: buffer_event_def Let_def p_def delay_def)
    then show ?thesis using assms(1) p by (simp add: without_pending_def)
  next
    case False
    have "buffer_event cfg now e co = (co\<lparr>co_pending := AList.update ?k (p\<lparr>pb_due := Some (now + max delay 0)\<rparr>) (co_pending co)\<rparr>, Buffered)"
      using assms(4) unfolding buffer_event_def Let_def p_def [symmetric] delay_def [symmetric] by (simp add: if_not_P [OF False])
    with assms(3) have "co' = co\<lparr>co_pending := AList.update ?k (p\<lparr>pb_due := Some (now + max delay 0)\<rparr>) (co_pending co)\<rparr>" "a = Buffered" by simp_all
    then show ?thesis using assms(1) p by (auto dest: set_update_any)
  qed
qed

text \<open>Storing the message of an update makes it safe, and with it the offset after it.\<close>

lemma stored_update:
  assumes ok: "service_ok (bound_ok ep ex us st) st" and u: "u \<in> set us" and m: "extract_update ep u = Some m" and pos: "0 \<le> in_update m"
    and before: "\<And>v i. v \<in> set us \<Longrightarrow> update_id v = Some i \<Longrightarrow> i < in_update m \<Longrightarrow> needs ep ex v \<Longrightarrow> update_safe ep st v"
    and rows: "record_pending (inbound_event ep m text observed) (po_rows st) = (rows, flag)"
  defines "st' \<equiv> st\<lparr>po_rows := rows\<rparr>"
  shows "service_ok (bound_ok ep ex us st') st' \<and> keeps_safe ep st st' \<and> update_safe ep st' u
    \<and> bound_ok ep ex us st' (in_update m + 1) \<and> event_acked_ok (bound_ok ep ex us st') (inbound_event ep m text observed)"
proof -
  let ?e = "inbound_event ep m text observed"
  note id = extract_update_id [OF m]
  have grow: "rows = po_rows st @ (if flag then [?e] else [])" and has: "list_ex (same_event ?e) rows"
    using rows by (auto simp: record_pending_def same_event_def split: if_splits)
  have keeps: "keeps_safe ep st st'"
    by (auto simp: keeps_safe_def update_safe_def st'_def grow split: option.splits)
  have stored: "update_safe ep st' v" if "update_id v = Some (in_update m)" for v
    using has that by (auto simp: update_safe_def st'_def list_ex_iff same_event_def inbound_event_def split: option.splits)
  have bound: "bound_ok ep ex us st' (in_update m + 1)"
    unfolding bound_ok_def
  proof (intro conjI ballI allI impI)
    show "\<exists>u \<in> set us. \<exists>i. update_id u = Some i \<and> in_update m + 1 \<le> i + 1" using u id by auto
  next
    fix v i assume v: "v \<in> set us" "update_id v = Some i \<and> i < in_update m + 1 \<and> needs ep ex v"
    show "update_safe ep st' v"
    proof (cases "i = in_update m")
      case True
      then show ?thesis using stored v(2) by simp
    next
      case False
      then have "update_safe ep st v" using before [OF v(1)] v(2) by simp
      then show ?thesis using keeps by (simp add: keeps_safe_def)
    qed
  qed
  then have event: "event_acked_ok (bound_ok ep ex us st') ?e"
    by (simp add: event_acked_ok_def source_inbound [OF pos])
  have "service_ok (bound_ok ep ex us st') st"
    by (rule service_ok_mono [OF ok]) (rule bound_ok_mono [OF _ keeps])
  then have "service_ok (bound_ok ep ex us st') st'"
    using event by (auto simp: service_ok_def st'_def grow)
  then show ?thesis using keeps stored [OF id] bound event by simp
qed

text \<open>What is known of the next update when it is examined.\<close>

definition next_ok :: "tg_endpoint \<Rightarrow> py_dict list \<Rightarrow> py_dict list \<Rightarrow> polling \<Rightarrow> py_dict \<Rightarrow> bool" where
  "next_ok ep ex us st u \<longleftrightarrow> u \<in> set us
     \<and> (\<exists>i \<ge> 0. update_id u = Some i \<and> (\<forall>v \<in> set us. \<forall>j. update_id v = Some j \<longrightarrow>
          (j = i \<longrightarrow> v = u) \<and> (j < i \<and> needs ep ex v \<longrightarrow> update_safe ep st v)))"

lemma next_bound:
  assumes "next_ok ep ex us st u" and "update_id u = Some i" and "update_wanted ep u \<longrightarrow> update_safe ep st u"
  shows "bound_ok ep ex us st (i + 1)"
  unfolding bound_ok_def
proof (intro conjI ballI allI impI)
  show "\<exists>v \<in> set us. \<exists>j. update_id v = Some j \<and> i + 1 \<le> j + 1"
    using assms(1,2) by (auto simp: next_ok_def)
next
  fix v j assume "v \<in> set us" "update_id v = Some j \<and> j < i + 1 \<and> needs ep ex v"
  then show "update_safe ep st v"
    using assms by (cases "j = i") (auto simp: next_ok_def needs_def)
qed

lemma tracker_field_ok: "service_ok B st \<Longrightarrow> tracker_ok B t \<Longrightarrow> service_ok B (st\<lparr>po_tracker := t\<rparr>)"
  by (simp add: service_ok_def)

lemma service_tracker: "service_ok B st \<Longrightarrow> tracker_ok B (po_tracker st)"
  by (simp add: service_ok_def)

lemma next_ok_mono: "next_ok ep ex us st u \<Longrightarrow> keeps_safe ep st st' \<Longrightarrow> next_ok ep ex us st' u"
  unfolding next_ok_def keeps_safe_def by blast

lemma handle_inbound_ok:
  assumes en: "bc_enabled (te_batch ep)" and ok: "service_ok (bound_ok ep ex us st) st" and u: "next_ok ep ex us st u"
    and m: "extract_update ep u = Some m" and run: "handle_inbound_message ep h now m st = (st', raised)"
  shows "service_ok (bound_ok ep ex us st') st' \<and> keeps_safe ep st st' \<and> po_todo st' = po_todo st
    \<and> (\<not> raised \<longrightarrow> update_wanted ep u \<longrightarrow> update_safe ep st' u)"
proof (cases "inbound_allowed ep m")
  case False
  with run have "st' = st" "\<not> raised" by (simp_all add: handle_inbound_message_def)
  moreover have "\<not> update_wanted ep u" using False m by (simp add: update_wanted_def)
  ultimately show ?thesis using ok by simp
next
  case allowed: True
  show ?thesis
  proof (cases "ha_text h")
    case None
    with run allowed ok show ?thesis by (auto simp: handle_inbound_message_def)
  next
    case (Some body)
    let ?e = "inbound_event ep m body (ha_observed h)"
    obtain rows flag where rec: "record_pending ?e (po_rows st) = (rows, flag)" by fastforce
    define st1 where "st1 = st\<lparr>po_rows := rows\<rparr>"
    have pos: "0 \<le> in_update m" and before: "v \<in> set us \<Longrightarrow> update_id v = Some i \<Longrightarrow> i < in_update m \<Longrightarrow> needs ep ex v \<Longrightarrow> update_safe ep st v" for v i
      using u extract_update_id [OF m] by (auto simp: next_ok_def)
    have S: "service_ok (bound_ok ep ex us st1) st1" "keeps_safe ep st st1" "update_safe ep st1 u" "event_acked_ok (bound_ok ep ex us st1) ?e"
      using stored_update [OF ok _ m pos before rec, folded st1_def] u by (auto simp: next_ok_def)
    show ?thesis
    proof (cases flag)
      case False
      with run allowed Some rec have "st' = st1" "\<not> raised" by (simp_all add: handle_inbound_message_def enqueue_ingress_def st1_def)
      then show ?thesis using S by (simp add: st1_def)
    next
      case True
      obtain co answer where buf: "buffer_event (te_batch ep) now ?e (po_coalescer st) = (co, answer)" by fastforce
      define st2 where "st2 = st1\<lparr>po_coalescer := co\<rparr>"
      have "\<forall>kp \<in> set (co_pending (po_coalescer st)). batch_acked_ok (bound_ok ep ex us st1) (pb_batch (snd kp))"
        using S(1) by (simp add: service_ok_def st1_def)
      from buffer_acked [OF this S(4) buf en] have acked: "\<forall>kp \<in> set (co_pending co). batch_acked_ok (bound_ok ep ex us st1) (pb_batch (snd kp))"
          "\<And>b fl. answer = Flush_Now b fl \<Longrightarrow> fl \<and> batch_acked_ok (bound_ok ep ex us st1) b" by auto
      have S2: "service_ok (bound_ok ep ex us st1) st2" using S(1) acked(1) by (simp add: service_ok_def st2_def)
      have k2: "keeps_safe ep st1 st2" by (simp add: keeps_safe_same st2_def)
      have run2: "(st', raised) = (case answer of Flush_Now b allow \<Rightarrow> flush_batch_safe ep (ha_flush h) now allow b st2 | _ \<Rightarrow> (st2, False))"
        using run allowed Some rec True buf unfolding st2_def st1_def by (simp add: handle_inbound_message_def enqueue_ingress_def Let_def)
      have "service_ok (bound_ok ep ex us st1) st' \<and> keeps_safe ep st2 st' \<and> po_todo st' = po_todo st2 \<and> \<not> raised"
      proof (cases answer)
        case (Flush_Now b fl)
        with acked(2) have fl: "fl" and "batch_acked_ok (bound_ok ep ex us st1) b" by simp_all
        from run2 Flush_Now fl have "(st', raised) = flush_batch_safe ep (ha_flush h) now True b st2" by simp
        then have "st' = fst (flush_batch_safe ep (ha_flush h) now True b st2)" "raised = snd (flush_batch_safe ep (ha_flush h) now True b st2)"
          by (metis fst_conv, metis snd_conv)
        then show ?thesis using flush_batch_ok [OF S2 \<open>batch_acked_ok _ b\<close>, of ep "ha_flush h" now True] flush_batch_handled [of ep "ha_flush h" now b st2]
          by simp
      qed (use S2 run2 in simp_all)
      then have F: "service_ok (bound_ok ep ex us st1) st'" "keeps_safe ep st1 st'" "po_todo st' = po_todo st2" "\<not> raised"
        using keeps_safe_trans [OF k2] by blast+
      have "service_ok (bound_ok ep ex us st') st'" by (rule service_ok_keeps [OF F(1,2)])
      moreover have "keeps_safe ep st st'" by (rule keeps_safe_trans [OF S(2) F(2)])
      moreover have "update_safe ep st' u" using S(3) F(2) by (simp add: keeps_safe_def)
      ultimately show ?thesis using F(3) by (simp add: st2_def st1_def)
    qed
  qed
qed

lemma process_ok:
  fixes h :: handling and now :: instant
  assumes en: "bc_enabled (te_batch ep)" and ok: "service_ok (bound_ok ep ex us st) st" and todo: "po_todo st = u # rest" and u: "next_ok ep ex us st u"
  defines "st' \<equiv> process_update ep h now st"
  shows "service_ok (bound_ok ep ex us st') st' \<and> keeps_safe ep st st'
    \<and> (po_todo st' = [] \<or> po_todo st' = rest \<and> (update_wanted ep u \<longrightarrow> update_safe ep st' u))"
proof -
  from u obtain i where i: "update_id u = Some i" by (auto simp: next_ok_def)
  define st1 where "st1 = st\<lparr>po_todo := rest, po_tracker := register_pending_update i (po_tracker st)\<rparr>"
  have same: "keeps_safe ep st st1" "bound_ok ep ex us st1 = bound_ok ep ex us st" "next_ok ep ex us st1 u" "po_todo st1 = rest"
    using u by (simp_all add: st1_def keeps_safe_same fun_eq_iff bound_ok_def next_ok_def)
  have ok1: "service_ok (bound_ok ep ex us st1) st1"
    using ok service_tracker [OF ok] unfolding same(2) by (simp add: st1_def service_ok_def tracker_register)
  show ?thesis
  proof (cases "extract_update ep u")
    case None
    then have "\<not> update_wanted ep u" by (simp add: update_wanted_def)
    with next_bound [OF same(3) i] have B: "bound_ok ep ex us st1 (i + 1)" by simp
    let ?st2 = "st1\<lparr>po_tracker := advance_fetch_offset i (po_tracker st1)\<rparr>"
    have "service_ok (bound_ok ep ex us st1) ?st2"
      by (rule tracker_field_ok [OF ok1 tracker_advance]) (use service_tracker [OF ok1] B in simp_all)
    then have F: "service_ok (bound_ok ep ex us st1) (mark_processed ep i ?st2)" using B by (rule mark_processed_ok)
    have st': "st' = mark_processed ep i ?st2" using todo i None by (simp add: st'_def process_update_def st1_def Let_def)
    have k: "keeps_safe ep st1 st'" unfolding st' by (rule keeps_safe_same) simp_all
    from service_ok_keeps [OF F [folded st'] k] keeps_safe_trans [OF same(1) k] show ?thesis
      using \<open>\<not> update_wanted ep u\<close> by (simp add: st' same(4))
  next
    case (Some m)
    obtain st2 raised where handle: "handle_inbound_message ep h now m st1 = (st2, raised)" by fastforce
    note H = handle_inbound_ok [OF en ok1 same(3) Some handle]
    have k: "keeps_safe ep st st2" using keeps_safe_trans [OF same(1)] H by blast
    have st': "st' = (if raised then st2\<lparr>po_todo := []\<rparr> else st2\<lparr>po_tracker := advance_fetch_offset i (po_tracker st2)\<rparr>)"
      using todo i Some handle en by (simp add: st'_def process_update_def st1_def Let_def)
    show ?thesis
    proof (cases raised)
      case True
      then have "st' = st2\<lparr>po_todo := []\<rparr>" using st' by simp
      then show ?thesis using H k service_ok_keeps [of ep ex us st2 st'] by (simp add: keeps_safe_def)
    next
      case False
      have "next_ok ep ex us st2 u" using same(3) H next_ok_mono by blast
      with next_bound [OF _ i] H False have B: "bound_ok ep ex us st2 (i + 1)" by blast
      have st2': "st' = st2\<lparr>po_tracker := advance_fetch_offset i (po_tracker st2)\<rparr>" using st' False by simp
      have ok2: "service_ok (bound_ok ep ex us st2) st2" using H by simp
      have "service_ok (bound_ok ep ex us st2) st'"
        unfolding st2' by (rule tracker_field_ok [OF ok2 tracker_advance]) (use service_tracker [OF ok2] B in simp_all)
      moreover have k2: "keeps_safe ep st2 st'" unfolding st2' by (rule keeps_safe_same) simp_all
      ultimately have "service_ok (bound_ok ep ex us st') st'" by (rule service_ok_keeps)
      then show ?thesis using keeps_safe_trans [OF k k2] H False same(4) k2 by (auto simp: st2' keeps_safe_def)
    qed
  qed
qed

text \<open>The process ends in the middle of an update, after storing its message or before.\<close>

lemma cut_off_ok:
  assumes ok: "service_ok (bound_ok ep ex us st) st" and u: "\<And>v rest. po_todo st = v # rest \<Longrightarrow> next_ok ep ex us st v"
  shows "service_ok (bound_ok ep ex us (cut_off ep h st)) (cut_off ep h st) \<and> keeps_safe ep st (cut_off ep h st) \<and> po_todo (cut_off ep h st) = []"
proof (cases "\<exists>v rest m body. po_todo st = v # rest \<and> extract_update ep v = Some m \<and> ha_text h = Some body \<and> inbound_allowed ep m")
  case False
  then have "cut_off ep h st = new_process st" by (auto simp: cut_off_def split: list.splits option.splits)
  then show ?thesis using new_process_ok [OF ok, of ep] service_ok_keeps by metis
next
  case True
  then obtain v rest m body where v: "po_todo st = v # rest" and m: "extract_update ep v = Some m"
      and body: "ha_text h = Some body" "inbound_allowed ep m" by blast
  obtain rows flag where rec: "record_pending (inbound_event ep m body (ha_observed h)) (po_rows st) = (rows, flag)" by fastforce
  define st1 where "st1 = st\<lparr>po_rows := rows\<rparr>"
  have n: "next_ok ep ex us st v" by (rule u [OF v])
  have pos: "0 \<le> in_update m" and before: "w \<in> set us \<Longrightarrow> update_id w = Some i \<Longrightarrow> i < in_update m \<Longrightarrow> needs ep ex w \<Longrightarrow> update_safe ep st w" for w i
    using n extract_update_id [OF m] by (auto simp: next_ok_def)
  have S: "service_ok (bound_ok ep ex us st1) st1" "keeps_safe ep st st1"
    using stored_update [OF ok _ m pos before rec, folded st1_def] n by (auto simp: next_ok_def)
  have eq: "cut_off ep h st = new_process st1" using v m body rec by (simp add: cut_off_def st1_def)
  have N: "service_ok (bound_ok ep ex us st1) (new_process st1)" "keeps_safe ep st1 (new_process st1)" "po_todo (new_process st1) = []"
    using new_process_ok [OF S(1), of ep] by blast+
  from service_ok_keeps [OF N(1,2)] keeps_safe_trans [OF S(2) N(2)] N(3) show ?thesis unfolding eq by simp
qed

text \<open>
  The updates that arrived, in the order of their ids, fall into those confirmed, all of them safe when
  wanted, and those held; and what is left of a fetch is a stretch of them with only safe ones before it.
\<close>

definition prefix_safe :: "tg_endpoint \<Rightarrow> py_dict list \<Rightarrow> polling \<Rightarrow> py_dict list \<Rightarrow> bool" where
  "prefix_safe ep ex st us \<longleftrightarrow> (\<forall>u \<in> set us. needs ep ex u \<longrightarrow> update_safe ep st u)"

definition ids_ok :: "py_dict list \<Rightarrow> bool" where
  "ids_ok us \<longleftrightarrow> (\<forall>u \<in> set us. \<exists>i \<ge> 0. update_id u = Some i) \<and> sorted_wrt (\<lambda>u v. the (update_id u) < the (update_id v)) us"

definition world_ok :: "tg_endpoint \<Rightarrow> world \<Rightarrow> bool" where
  "world_ok ep w \<longleftrightarrow> ids_ok (wd_arrived w) \<and> service_ok (bound_ok ep (wd_expired w) (wd_arrived w) (wd_service w)) (wd_service w)
     \<and> (\<exists>gone. wd_arrived w = gone @ wd_held w \<and> prefix_safe ep (wd_expired w) (wd_service w) gone)
     \<and> (\<exists>before after. wd_arrived w = before @ po_todo (wd_service w) @ after \<and> prefix_safe ep (wd_expired w) (wd_service w) before)"

lemma prefix_safe_mono: "prefix_safe ep ex st us \<Longrightarrow> keeps_safe ep st st' \<Longrightarrow> prefix_safe ep ex st' us"
  by (simp add: prefix_safe_def keeps_safe_def)

lemma next_from_stretch:
  assumes "ids_ok us" and "us = before @ (u # rest) @ after" and "prefix_safe ep ex st before"
  shows "next_ok ep ex us st u"
proof -
  obtain i where i: "update_id u = Some i" "0 \<le> i" using assms(1,2) by (auto simp: ids_ok_def)
  have "(j = i \<longrightarrow> v = u) \<and> (j < i \<and> needs ep ex v \<longrightarrow> update_safe ep st v)"
    if v: "v \<in> set us" "update_id v = Some j" for v j
  proof -
    have sorted: "\<forall>x \<in> set before. the (update_id x) < i" "\<forall>x \<in> set (rest @ after). i < the (update_id x)"
      using assms(1,2) i by (simp_all add: ids_ok_def sorted_wrt_append)
    have "v \<in> set before \<or> v = u \<or> v \<in> set (rest @ after)" using assms(2) v(1) by auto
    then show ?thesis
    proof (elim disjE)
      assume b: "v \<in> set before"
      with sorted(1) v(2) have "j < i" by force
      with b assms(3) show ?thesis by (simp add: prefix_safe_def)
    next
      assume "v = u"
      with v(2) i(1) show ?thesis by simp
    next
      assume "v \<in> set (rest @ after)"
      with sorted(2) v(2) have "i < j" by force
      then show ?thesis by simp
    qed
  qed
  then show ?thesis using i assms(2) by (auto simp: next_ok_def)
qed

text \<open>A step of the service that keeps what is safe and goes on with the fetch, or drops it.\<close>

lemma world_service:
  assumes "world_ok ep w" and "service_ok (bound_ok ep (wd_expired w) (wd_arrived w) (wd_service w)) st'" and k: "keeps_safe ep (wd_service w) st'"
    and "po_todo st' = po_todo (wd_service w) \<or> po_todo st' = []"
  shows "world_ok ep (w\<lparr>wd_service := st'\<rparr>)"
proof -
  from assms(1) obtain gone before after where W: "ids_ok (wd_arrived w)" "wd_arrived w = gone @ wd_held w" "prefix_safe ep (wd_expired w) (wd_service w) gone"
      "wd_arrived w = before @ po_todo (wd_service w) @ after" "prefix_safe ep (wd_expired w) (wd_service w) before"
    unfolding world_ok_def by blast
  have "\<exists>before after. wd_arrived w = before @ po_todo st' @ after \<and> prefix_safe ep (wd_expired w) st' before"
    using assms(4)
  proof
    assume "po_todo st' = po_todo (wd_service w)"
    then show ?thesis using W(4) prefix_safe_mono [OF W(5) k] by auto
  next
    assume "po_todo st' = []"
    then show ?thesis by (intro exI [of _ "[]"] exI [of _ "wd_arrived w"]) (simp add: prefix_safe_def)
  qed
  moreover have "\<exists>gone. wd_arrived w = gone @ wd_held w \<and> prefix_safe ep (wd_expired w) st' gone"
    using W(2) prefix_safe_mono [OF W(3) k] by blast
  ultimately show ?thesis using W(1) service_ok_keeps [OF assms(2) k] by (simp add: world_ok_def)
qed

lemma held_from_sorted:
  assumes "ids_ok us"
  shows "\<exists>old. us = old @ held_from offset us \<and> (\<forall>u \<in> set old. \<exists>i n. update_id u = Some i \<and> offset = Some n \<and> i < n)"
proof (cases offset)
  case None
  then show ?thesis by (simp add: held_from_def)
next
  case (Some n)
  from assms show ?thesis
  proof (induction us)
    case (Cons u us)
    then obtain i where i: "update_id u = Some i" by (auto simp: ids_ok_def)
    from Cons.prems have later: "\<forall>v \<in> set us. \<exists>j. update_id v = Some j \<and> i < j" using i by (force simp: ids_ok_def)
    have "ids_ok us" using Cons.prems by (simp add: ids_ok_def)
    with Cons.IH obtain old where old: "us = old @ held_from offset us" "\<forall>v \<in> set old. \<exists>j n. update_id v = Some j \<and> offset = Some n \<and> j < n" by blast
    show ?case
    proof (cases "n \<le> i")
      case True
      have "held_from offset (u # us) = u # us"
        unfolding held_from_def Some option.case by (rule filter_True) (use later i True in force)
      then show ?thesis by (intro exI [of _ "[]"]) simp
    next
      case False
      then have "held_from offset (u # us) = held_from offset us" using i Some by (simp add: held_from_def)
      then show ?thesis using old i Some False by (intro exI [of _ "u # old"]) auto
    qed
  qed (simp add: held_from_def Some)
qed

lemma ids_ok_append: "ids_ok (us @ vs) \<Longrightarrow> ids_ok vs"
  by (simp add: ids_ok_def sorted_wrt_append)

lemma world_fetch:
  assumes w: "world_ok ep w"
  shows "world_ok ep (fetch_updates ep limit answered w)"
proof (cases "\<not> po_restored (wd_service w) \<or> po_todo (wd_service w) \<noteq> []")
  case True
  then show ?thesis using w by (simp add: fetch_updates_def)
next
  case False
  define st where "st = prepare_fetch ep (wd_service w)"
  let ?B = "bound_ok ep (wd_expired w) (wd_arrived w) (wd_service w)"
  have "service_ok ?B (wd_service w)" using w by (simp add: world_ok_def)
  then have st: "service_ok ?B st" "keeps_safe ep (wd_service w) st" "po_todo st = po_todo (wd_service w)"
    using start_ok [of ?B "wd_service w" ep] by (simp_all add: st_def prepare_fetch_def)
  have B: "bound_ok ep (wd_expired w) (wd_arrived w) st = ?B"
    by (simp add: st_def prepare_fetch_def start_service_def bound_ok_def fun_eq_iff)
  have "world_ok ep (w\<lparr>wd_service := st\<rparr>)" by (rule world_service [OF w st(1,2)]) (simp add: st(3))
  then obtain gone where W: "ids_ok (wd_arrived w)" "wd_arrived w = gone @ wd_held w" "prefix_safe ep (wd_expired w) st gone"
    by (auto simp: world_ok_def)
  define held where "held = held_from (ot_next (po_tracker st)) (wd_held w)"
  have "ids_ok (wd_held w)" using ids_ok_append [of gone] W(1) unfolding W(2) by simp
  from held_from_sorted [OF this] obtain old where old: "wd_held w = old @ held"
      "\<forall>u \<in> set old. \<exists>i n. update_id u = Some i \<and> ot_next (po_tracker st) = Some n \<and> i < n"
    unfolding held_def by blast
  have "update_safe ep st u" if u: "u \<in> set old" "needs ep (wd_expired w) u" for u
  proof -
    from old(2) u(1) obtain i n where n: "update_id u = Some i" "ot_next (po_tracker st) = Some n" "i < n" by blast
    have "bound_ok ep (wd_expired w) (wd_arrived w) st n" using st(1) n(2) unfolding B by (simp add: service_ok_def tracker_ok_def)
    moreover have "u \<in> set (wd_arrived w)" using W(2) old(1) u(1) by simp
    ultimately show ?thesis using n u(2) by (auto simp: bound_ok_def)
  qed
  then have safe: "prefix_safe ep (wd_expired w) st (gone @ old)" using W(3) by (auto simp: prefix_safe_def)
  define st' where "st' = st\<lparr>po_todo := (if answered then take limit held else [])\<rparr>"
  have k: "keeps_safe ep st st'" by (simp add: st'_def keeps_safe_same)
  have "fetch_updates ep limit answered w = w\<lparr>wd_service := st', wd_held := held\<rparr>"
    using False by (simp add: fetch_updates_def st_def [symmetric] st'_def held_def Let_def)
  moreover have "service_ok (bound_ok ep (wd_expired w) (wd_arrived w) st') st'"
    by (rule service_ok_keeps [OF _ k]) (use st(1) in \<open>simp add: B st'_def\<close>)
  moreover have "wd_arrived w = (gone @ old) @ held" using W(2) old(1) by simp
  moreover have "prefix_safe ep (wd_expired w) st' (gone @ old)" by (rule prefix_safe_mono [OF safe k])
  moreover have "\<exists>before after. wd_arrived w = before @ po_todo st' @ after \<and> prefix_safe ep (wd_expired w) st' before"
  proof (cases answered)
    case True
    then have "wd_arrived w = (gone @ old) @ po_todo st' @ drop limit held" using W(2) old(1) by (simp add: st'_def)
    then show ?thesis using \<open>prefix_safe ep (wd_expired w) st' (gone @ old)\<close> by blast
  next
    case False
    then show ?thesis by (intro exI [of _ "[]"] exI [of _ "wd_arrived w"]) (simp add: st'_def prefix_safe_def)
  qed
  ultimately show ?thesis using W(1) unfolding world_ok_def by auto
qed

lemma world_expire:
  assumes w: "world_ok ep w"
  shows "world_ok ep (w\<lparr>wd_held := drop n (wd_held w), wd_expired := wd_expired w @ take n (wd_held w)\<rparr>)"
proof -
  let ?st = "wd_service w" and ?ex = "wd_expired w @ take n (wd_held w)"
  from w obtain gone before after where W: "ids_ok (wd_arrived w)" "wd_arrived w = gone @ wd_held w" "prefix_safe ep (wd_expired w) ?st gone"
      "wd_arrived w = before @ po_todo ?st @ after" "prefix_safe ep (wd_expired w) ?st before"
      and ok: "service_ok (bound_ok ep (wd_expired w) (wd_arrived w) ?st) ?st"
    unfolding world_ok_def by blast
  have less: "needs ep ?ex u \<Longrightarrow> needs ep (wd_expired w) u" for u by (simp add: needs_def)
  have "service_ok (bound_ok ep ?ex (wd_arrived w) ?st) ?st"
    by (rule service_ok_mono [OF ok]) (use less in \<open>unfold bound_ok_def, blast\<close>)
  moreover have "prefix_safe ep ?ex ?st (gone @ take n (wd_held w))" "prefix_safe ep ?ex ?st before"
    using W(3,5) less unfolding prefix_safe_def by (auto simp: needs_def)
  moreover have "wd_arrived w = (gone @ take n (wd_held w)) @ drop n (wd_held w)" using W(2) by simp
  ultimately have "\<exists>gone. wd_arrived w = gone @ drop n (wd_held w) \<and> prefix_safe ep ?ex ?st gone"
    "\<exists>before after. wd_arrived w = before @ po_todo ?st @ after \<and> prefix_safe ep ?ex ?st before"
    "service_ok (bound_ok ep ?ex (wd_arrived w) ?st) ?st" using W(4) by blast+
  then show ?thesis using W(1) by (simp add: world_ok_def)
qed

lemma world_arrive:
  assumes w: "world_ok ep w" and u: "ids_ok (wd_arrived w @ [u])"
  shows "world_ok ep (w\<lparr>wd_held := wd_held w @ [u], wd_arrived := wd_arrived w @ [u]\<rparr>)"
proof -
  from u obtain i where i: "update_id u = Some i" "0 \<le> i" "\<forall>v \<in> set (wd_arrived w). \<exists>j. update_id v = Some j \<and> j < i"
    by (force simp: ids_ok_def sorted_wrt_append)
  have "bound_ok ep (wd_expired w) (wd_arrived w @ [u]) (wd_service w) n" if n: "bound_ok ep (wd_expired w) (wd_arrived w) (wd_service w) n" for n
  proof -
    from n obtain v j where v: "v \<in> set (wd_arrived w)" "update_id v = Some j" "n \<le> j + 1" unfolding bound_ok_def by blast
    with i(3) have "j < i" by force
    show ?thesis
      unfolding bound_ok_def
    proof (intro conjI ballI allI impI)
      show "\<exists>u \<in> set (wd_arrived w @ [u]). \<exists>i. update_id u = Some i \<and> n \<le> i + 1" using v by auto
    next
      fix x k assume x: "x \<in> set (wd_arrived w @ [u])" "update_id x = Some k \<and> k < n \<and> needs ep (wd_expired w) x"
      with \<open>j < i\<close> v(3) i(1) have "x \<in> set (wd_arrived w)" by auto
      with n x(2) show "update_safe ep (wd_service w) x" unfolding bound_ok_def by blast
    qed
  qed
  then have "service_ok (bound_ok ep (wd_expired w) (wd_arrived w @ [u]) (wd_service w)) (wd_service w)"
    using w service_ok_mono unfolding world_ok_def by blast
  moreover have "ids_ok (wd_arrived w @ [u])"
    by (rule u)
  moreover have "\<exists>before after. wd_arrived w @ [u] = before @ po_todo (wd_service w) @ after \<and> prefix_safe ep (wd_expired w) (wd_service w) before"
  proof -
    from w obtain before after where "wd_arrived w = before @ po_todo (wd_service w) @ after" "prefix_safe ep (wd_expired w) (wd_service w) before"
      unfolding world_ok_def by blast
    then show ?thesis by (intro exI [of _ before] exI [of _ "after @ [u]"]) simp
  qed
  moreover have "\<exists>gone. wd_arrived w = gone @ wd_held w \<and> prefix_safe ep (wd_expired w) (wd_service w) gone"
    using w unfolding world_ok_def by blast
  ultimately show ?thesis by (simp add: world_ok_def)
qed

lemma world_examine:
  assumes en: "bc_enabled (te_batch ep)" and w: "world_ok ep w"
  shows "world_ok ep (w\<lparr>wd_service := process_update ep h now (wd_service w)\<rparr>)"
proof (cases "po_todo (wd_service w)")
  case Nil
  then have "process_update ep h now (wd_service w) = wd_service w" by (simp add: process_update_def)
  then show ?thesis using w by simp
next
  case (Cons u rest)
  let ?st = "wd_service w"
  let ?st' = "process_update ep h now ?st"
  from w obtain before after where W0: "ids_ok (wd_arrived w)" "wd_arrived w = before @ po_todo ?st @ after" "prefix_safe ep (wd_expired w) ?st before"
    unfolding world_ok_def by blast
  note W = W0 [unfolded Cons]
  have ok: "service_ok (bound_ok ep (wd_expired w) (wd_arrived w) ?st) ?st" using w by (simp add: world_ok_def)
  note P = process_ok [OF en ok Cons next_from_stretch [OF W], of h now]
  then have k: "keeps_safe ep ?st ?st'" and ok': "service_ok (bound_ok ep (wd_expired w) (wd_arrived w) ?st') ?st'" by blast+
  obtain gone where gone: "wd_arrived w = gone @ wd_held w" "prefix_safe ep (wd_expired w) ?st gone" using w unfolding world_ok_def by blast
  have "\<exists>before after. wd_arrived w = before @ po_todo ?st' @ after \<and> prefix_safe ep (wd_expired w) ?st' before"
  proof (cases "po_todo ?st' = []")
    case True
    then show ?thesis by (intro exI [of _ "[]"] exI [of _ "wd_arrived w"]) (simp add: prefix_safe_def)
  next
    case False
    with P have "po_todo ?st' = rest" "update_wanted ep u \<longrightarrow> update_safe ep ?st' u" by blast+
    moreover from this prefix_safe_mono [OF W(3) k] have "prefix_safe ep (wd_expired w) ?st' (before @ [u])" by (auto simp: prefix_safe_def needs_def)
    ultimately show ?thesis using W(2) by (intro exI [of _ "before @ [u]"] exI [of _ after]) simp
  qed
  then show ?thesis using W(1) ok' gone(1) prefix_safe_mono [OF gone(2) k] by (auto simp: world_ok_def)
qed

lemma world_cut_off:
  assumes w: "world_ok ep w"
  shows "world_ok ep (w\<lparr>wd_service := cut_off ep h (wd_service w)\<rparr>)"
proof -
  let ?st = "wd_service w"
  have "next_ok ep (wd_expired w) (wd_arrived w) ?st v" if v: "po_todo ?st = v # rest" for v rest
  proof -
    from w obtain before after where W: "ids_ok (wd_arrived w)" "wd_arrived w = before @ po_todo ?st @ after" "prefix_safe ep (wd_expired w) ?st before"
      unfolding world_ok_def by blast
    show ?thesis by (rule next_from_stretch [OF W [unfolded v]])
  qed
  moreover have "service_ok (bound_ok ep (wd_expired w) (wd_arrived w) ?st) ?st" using w by (simp add: world_ok_def)
  ultimately have C: "service_ok (bound_ok ep (wd_expired w) (wd_arrived w) (cut_off ep h ?st)) (cut_off ep h ?st)" "keeps_safe ep ?st (cut_off ep h ?st)"
      "po_todo (cut_off ep h ?st) = []"
    using cut_off_ok [of ep "wd_expired w" "wd_arrived w" ?st h] by blast+
  obtain gone where gone: "wd_arrived w = gone @ wd_held w" "prefix_safe ep (wd_expired w) ?st gone" using w unfolding world_ok_def by blast
  have "\<exists>before after. wd_arrived w = before @ po_todo (cut_off ep h ?st) @ after \<and> prefix_safe ep (wd_expired w) (cut_off ep h ?st) before"
    by (intro exI [of _ "[]"] exI [of _ "wd_arrived w"]) (simp add: prefix_safe_def C(3))
  then show ?thesis using w C(1) gone(1) prefix_safe_mono [OF gone(2) C(2)] by (auto simp: world_ok_def)
qed

lemma tg_step_ok:
  assumes en: "bc_enabled (te_batch ep)" and w: "world_ok ep w" and ids: "ids_ok (wd_arrived (tg_step ep x w))"
  shows "world_ok ep (tg_step ep x w)"
proof -
  have ok: "service_ok (bound_ok ep (wd_expired w) (wd_arrived w) (wd_service w)) (wd_service w)" using w by (simp add: world_ok_def)
  note step = world_service [OF w]
  show ?thesis
  proof (cases x)
    case (Arrive u)
    then show ?thesis using world_arrive [OF w] ids by (simp add: tg_step_def)
  next
    case (Expire n)
    then show ?thesis using world_expire [OF w] by (simp add: tg_step_def)
  next
    case (Fetch limit answered)
    then show ?thesis using world_fetch [OF w] by (simp add: tg_step_def)
  next
    case (Examine h now)
    then show ?thesis using world_examine [OF en w] by (simp add: tg_step_def service_op_def)
  next
    case (Cut_Off h now)
    then show ?thesis using world_cut_off [OF w] by (simp add: tg_step_def service_op_def)
  next
    case (Flush_Timer key now)
    then show ?thesis using step timer_ok [OF ok] by (simp add: tg_step_def service_op_def)
  next
    case (Turn_Ends b a now)
    then show ?thesis using step turn_ends_ok [OF ok] by (simp add: tg_step_def service_op_def)
  next
    case (Restore as now)
    then show ?thesis using step restore_ok [OF ok] by (simp add: tg_step_def service_op_def)
  next
    case (Retry_Due key as now)
    then show ?thesis using step retry_ok [OF ok] by (simp add: tg_step_def service_op_def)
  next
    case Flush_All
    then show ?thesis using step flush_all_ok [OF ok] by (simp add: tg_step_def service_op_def)
  next
    case Start
    then show ?thesis using step start_ok [OF ok] by (simp add: tg_step_def service_op_def)
  next
    case Stop
    then show ?thesis using step stop_ok [OF ok] by (simp add: tg_step_def service_op_def)
  next
    case Reset_Offset
    then show ?thesis using step reset_ok [OF ok] by (simp add: tg_step_def service_op_def)
  next
    case Crash
    then show ?thesis using step new_process_ok [OF ok] by (simp add: tg_step_def service_op_def)
  qed
qed

fun arrivals :: "tg_op list \<Rightarrow> py_dict list" where
  "arrivals [] = []"
| "arrivals (Arrive u # xs) = u # arrivals xs"
| "arrivals (_ # xs) = arrivals xs"

lemma arrivals_append: "arrivals (xs @ ys) = arrivals xs @ arrivals ys"
  by (induction xs rule: arrivals.induct) simp_all

lemma fetch_arrived: "wd_arrived (fetch_updates ep limit answered w) = wd_arrived w"
  by (simp add: fetch_updates_def Let_def)

lemma step_arrived: "wd_arrived (tg_step ep x w) = wd_arrived w @ arrivals [x]"
  by (cases x) (simp_all add: tg_step_def fetch_arrived)

lemma run_world_snoc: "run_world ep (xs @ [x]) = tg_step ep x (run_world ep xs)"
  by (simp add: run_world_def)

lemma run_world_arrived: "wd_arrived (run_world ep xs) = arrivals xs"
proof (induction xs rule: rev_induct)
  case Nil
  show ?case by (simp add: run_world_def)
qed (simp add: run_world_snoc step_arrived arrivals_append)

lemma run_world_ok:
  assumes en: "bc_enabled (te_batch ep)" and ids: "ids_ok (arrivals xs)"
  shows "world_ok ep (run_world ep xs)"
  using ids
proof (induction xs rule: rev_induct)
  case Nil
  show ?case
    by (simp add: run_world_def world_ok_def ids_ok_def fresh_polling_def service_ok_def prefix_safe_def tracker_reset)
next
  case (snoc x xs)
  have "ids_ok (arrivals xs)" using snoc.prems by (simp add: arrivals_append ids_ok_def sorted_wrt_append)
  then have "world_ok ep (run_world ep xs)" by (rule snoc.IH)
  then show ?case using snoc.prems
    unfolding run_world_snoc by (intro tg_step_ok [OF en]) (simp_all add: step_arrived run_world_arrived arrivals_append)
qed

text \<open>C29 With batching on and as long as the ids of the updates grow (the Bot API promises it but for the first update
  after a week of silence), no message meant for the bot is lost by the service: whatever the order of arrivals,
  fetches, failed turns, retries, restarts, stops and crashes, an update that the access policy admits is still
  held by the Bot API, or its message is stored, or its batch came to its end (with a turn, or without one because
  no channel binding matches), unless it expired at the Bot API. And the offset file never passes an
  update that is not stored, done or expired.\<close>

theorem no_update_lost:
  assumes "bc_enabled (te_batch ep)" and "ids_ok (arrivals xs)" and "u \<in> set (arrivals xs)" and "update_wanted ep u"
    and "u \<notin> set (wd_expired (run_world ep xs))"
  shows "(u \<in> set (wd_held (run_world ep xs)) \<or> update_safe ep (wd_service (run_world ep xs)) u)
    \<and> (\<forall>f i. po_file (wd_service (run_world ep xs)) = Some f \<longrightarrow> update_id u = Some i \<longrightarrow> i < of_offset f
         \<longrightarrow> update_safe ep (wd_service (run_world ep xs)) u)"
proof -
  let ?w = "run_world ep xs"
  have ok: "world_ok ep ?w" by (rule run_world_ok [OF assms(1,2)])
  then obtain gone where gone: "wd_arrived ?w = gone @ wd_held ?w" "prefix_safe ep (wd_expired ?w) (wd_service ?w) gone" unfolding world_ok_def by blast
  have u: "u \<in> set (wd_arrived ?w)" "needs ep (wd_expired ?w) u" using assms(3-5) by (simp_all add: run_world_arrived needs_def)
  have "u \<in> set (wd_held ?w) \<or> update_safe ep (wd_service ?w) u"
    using u gone by (auto simp: prefix_safe_def)
  moreover have "update_safe ep (wd_service ?w) u"
    if "po_file (wd_service ?w) = Some f" "update_id u = Some i" "i < of_offset f" for f i
  proof -
    have "bound_ok ep (wd_expired ?w) (wd_arrived ?w) (wd_service ?w) (of_offset f)"
      using ok that(1) by (simp add: world_ok_def service_ok_def)
    then show ?thesis using u that(2,3) by (auto simp: bound_ok_def)
  qed
  ultimately show ?thesis by blast
qed

text \<open>
  The growing ids are needed: the offset file does not forget, so an update whose random id lies below it
  is confirmed by the next request without ever being looked at.
\<close>

lemma lower_id_confirmed_unseen:
  fixes ep :: tg_endpoint and limit :: nat
  assumes "po_restored (wd_service w)" and "po_todo (wd_service w) = []" and "ot_next (po_tracker (wd_service w)) = Some n"
    and "update_id u = Some i" and "i < n"
  defines "w' \<equiv> fetch_updates ep limit True w"
  shows "u \<notin> set (wd_held w') \<and> u \<notin> set (po_todo (wd_service w'))
    \<and> po_rows (wd_service w') = po_rows (wd_service w) \<and> po_done (wd_service w') = po_done (wd_service w)"
  using assms by (auto simp: fetch_updates_def prepare_fetch_def held_from_def Let_def dest: in_set_takeD)

definition demo_tg :: tg_endpoint where
  "demo_tg = \<lparr>te_id = ''tg'', te_account = ''bot'', te_batch = demo_batching,
     te_access = \<lparr>ap_private = Access_Open, ap_allow_from = [], ap_group = Access_Open, ap_groups = [], ap_group_allow_from = []\<rparr>,
     te_identity = Some demo_bot, te_mode = Mention_Only\<rparr>"

definition demo_handling :: handling where
  "demo_handling = \<lparr>ha_text = Some ''1'', ha_observed = ''t'', ha_flush = \<lparr>fa_route = Routed, fa_turn = None, fa_delivery = Delivered\<rparr>\<rparr>"

definition demo_tg_ops :: "tg_op list" where
  "demo_tg_ops = [Arrive (demo_update ''@b 1''), Start, Restore [] 0, Fetch 10 True, Examine demo_handling 0, Fetch 10 True, Crash]"

lemma demo_wanted:
  "update_id (demo_update t) = Some 5" "update_wanted demo_tg (demo_update ''@b 1'')"
proof -
  show id: "update_id (demo_update t) = Some 5" for t by (simp add: update_id_def demo_update_def py_get_def)
  have "lower (strip ''group'') \<noteq> ''private''" by code_simp
  then show "update_wanted demo_tg (demo_update ''@b 1'')"
    by (simp add: update_wanted_def extract_update_def id demo_tg_def demo_extract inbound_allowed_def is_channel_message_allowed_def
        str_or_empty_def is_group_allowed_def)
qed

lemma demo_world:
  "wd_expired (run_world demo_tg demo_tg_ops) = [] \<and> wd_held (run_world demo_tg demo_tg_ops) = []"
proof -
  have "lower (strip ''group'') \<noteq> ''private''" by code_simp
  then show ?thesis
  by (simp add: run_world_def demo_tg_ops_def tg_step_def service_op_def demo_wanted start_service_def fresh_polling_def
      reset_offset_tracking_def load_next_update_offset_def restore_pending_ingress_def list_pending_def split_restore_batches_def
      fetch_updates_def prepare_fetch_def held_from_def process_update_def register_pending_update_def extract_update_def
      demo_tg_def demo_extract handle_inbound_message_def inbound_allowed_def is_channel_message_allowed_def str_or_empty_def is_group_allowed_def
      demo_handling_def enqueue_ingress_def record_pending_def buffer_event_def demo_batching_def compute_flush_delay_def
      append_event_def batch_for_def advance_fetch_offset_def new_process_def Let_def)
qed

lemma no_update_lost_witness:
  "update_safe demo_tg (wd_service (run_world demo_tg demo_tg_ops)) (demo_update ''@b 1'')"
proof -
  have "bc_enabled (te_batch demo_tg)" by (simp add: demo_tg_def demo_batching_def)
  moreover have "arrivals demo_tg_ops = [demo_update ''@b 1'']" by (simp add: demo_tg_ops_def)
  moreover from this have "ids_ok (arrivals demo_tg_ops)" by (simp add: ids_ok_def demo_wanted)
  ultimately show ?thesis using no_update_lost [of demo_tg demo_tg_ops, OF _ _ _ demo_wanted(2)] demo_world by simp
qed

section \<open>Where the bookkeeping falls behind\<close>

text \<open>An update that is still to be acknowledged keeps the offset file where it is.\<close>

definition stalled :: "int \<Rightarrow> offset_tracker \<Rightarrow> bool" where
  "stalled i t \<longleftrightarrow> (\<exists>rest. ot_order t = i # rest) \<and> ot_status t i = Some False"

lemma mark_stalled:
  assumes "stalled i (po_tracker st)" and "j \<noteq> i"
  shows "stalled i (po_tracker (mark_processed ep j st)) \<and> po_file (mark_processed ep j st) = po_file st"
proof -
  from assms obtain rest where "ot_order (po_tracker st) = i # rest" "ot_status (po_tracker st) i = Some False" by (auto simp: stalled_def)
  with assms(2) show ?thesis by (simp add: mark_processed_def mark_update_processed_def stalled_def Let_def)
qed

lemma mark_events_stalled:
  assumes "stalled i (po_tracker st)" and "\<forall>e \<in> set es. source_update e \<noteq> Some i"
  shows "stalled i (po_tracker (mark_events_processed ep es st)) \<and> po_file (mark_events_processed ep es st) = po_file st"
  using assms
proof (induction es arbitrary: st)
  case (Cons e es)
  show ?case
  proof (cases "source_update e")
    case None
    with Cons show ?thesis by simp
  next
    case (Some j)
    with Cons.prems(2) have "j \<noteq> i" by auto
    note M = mark_stalled [OF Cons.prems(1) this, of ep]
    with Cons.IH [of "mark_processed ep j st"] Cons.prems(2) Some show ?thesis by simp
  qed
qed simp

text \<open>
  With batching on, an update that the access policy refuses is examined and left unacknowledged, so that
  no batch carried out after it moves the offset file.
\<close>

lemma denied_update_stalls_offset:
  fixes h :: handling and now :: instant
  assumes "bc_enabled (te_batch ep)" and "po_todo st = u # rest" and "extract_update ep u = Some m" and "\<not> inbound_allowed ep m"
    and "ot_order (po_tracker st) = []" and "ot_status (po_tracker st) (in_update m) = None"
  defines "st' \<equiv> process_update ep h now st"
  assumes "\<forall>e \<in> set es. source_update e \<noteq> Some (in_update m)"
  shows "po_todo st' = rest \<and> po_file (mark_events_processed ep es st') = po_file st"
proof -
  note id = extract_update_id [OF assms(3)]
  have "stalled (in_update m) (po_tracker st')" "po_todo st' = rest" "po_file st' = po_file st"
    using assms(1-6) id by (simp_all add: st'_def process_update_def handle_inbound_message_def register_pending_update_def
        advance_fetch_offset_def stalled_def Let_def)
  with mark_events_stalled [OF this(1), of es ep] assms(8) show ?thesis by simp
qed

text \<open>A retry that times out again finds itself in the table of retries, and nothing is left to try the batch once more.\<close>

lemma flush_raised:
  assumes "flush_inbound_batch a = Flush_Raised True" and "map_of (po_retries st) (batch_key b) \<noteq> None"
  shows "fst (flush_batch_safe ep a now True b st)
    = st\<lparr>po_attempts := (po_attempts st)(batch_key b \<mapsto> (case po_attempts st (batch_key b) of None \<Rightarrow> 0 | Some n \<Rightarrow> n) + 1)\<rparr>"
  using assms by (simp add: flush_batch_safe_def schedule_delivery_retry_def Let_def)

lemma failed_retry_not_rescheduled:
  assumes "map_of (po_retries st) key = Some r" and "dr_due r \<le> now"
    and "split_restore_batches (te_batch ep) (ib_events (dr_batch r)) = [b]" and "batch_key b = key" and "flush_inbound_batch a = Flush_Raised True"
  shows "map_of (po_retries (run_delivery_retry ep [a] now key st)) key = None
    \<and> po_rows (run_delivery_retry ep [a] now key st) = po_rows st \<and> po_flushing (run_delivery_retry ep [a] now key st) = po_flushing st
    \<and> po_coalescer (run_delivery_retry ep [a] now key st) = po_coalescer st"
proof -
  have none: "map_of (filter (\<lambda>kr. fst kr \<noteq> key) rs) key = None" for rs :: "(string \<times> delivery_retry) list"
    by (induction rs) auto
  have "map_of (po_retries st) (batch_key b) \<noteq> None" using assms(1,4) by simp
  from flush_raised [OF assms(5) this, of ep now] assms(1-4) none show ?thesis
    by (simp add: run_delivery_retry_def Let_def)
qed

text \<open>Carrying out a restored message leaves the offset of the next fetch behind it: held updates come again.\<close>

lemma mark_keeps_next: "ot_next (po_tracker (mark_processed ep i st)) = ot_next (po_tracker st)"
  by (auto simp: mark_processed_def mark_update_processed_def Let_def split: prod.splits option.splits if_splits)

lemma mark_events_keep_next: "ot_next (po_tracker (mark_events_processed ep es st)) = ot_next (po_tracker st)"
  by (induction es arbitrary: st) (simp_all add: mark_keeps_next split: option.splits)

lemma flush_keeps_next: "ot_next (po_tracker (fst (flush_batch_safe ep a now allow b st))) = ot_next (po_tracker st)"
  by (simp add: flush_batch_safe_def schedule_delivery_retry_def mark_batch_processed_def mark_events_keep_next Let_def
      split: flush_end.splits prod.splits)

lemma flushes_keep_next: "ot_next (po_tracker (flush_batches ep as now bs st)) = ot_next (po_tracker st)"
  by (induction ep as now bs st rule: flush_batches.induct) (simp_all add: flush_keeps_next)

lemma restored_update_fetched_again:
  assumes "po_todo (wd_service w) = []" and "u \<in> set (wd_held w)" and "update_id u = Some i"
    and "ot_next (po_tracker (wd_service w)) = Some n" and "n \<le> i" and "length (wd_held w) \<le> limit"
    and "po_restored (restore_pending_ingress ep as now (wd_service w))"
  shows "u \<in> set (po_todo (wd_service (fetch_updates ep limit True (w\<lparr>wd_service := restore_pending_ingress ep as now (wd_service w)\<rparr>))))"
proof -
  let ?st = "restore_pending_ingress ep as now (wd_service w)"
  have next': "ot_next (po_tracker ?st) = Some n" using assms(4) by (simp add: restore_pending_ingress_def flushes_keep_next Let_def)
  have todo: "po_todo ?st = []"
  proof -
    have "service_ok (\<lambda>_. True) (wd_service w)"
      by (simp add: service_ok_def tracker_ok_def offset_ok_def acks_ok_def batch_acked_ok_def event_acked_ok_def)
    with restore_ok [of "\<lambda>_. True" "wd_service w" ep as now] assms(1) show ?thesis by simp
  qed
  have "length (held_from (Some n) (wd_held w)) \<le> limit" using assms(6) by (simp add: held_from_def) (meson length_filter_le le_trans)
  then show ?thesis using assms(2,3,5,7) next' todo
    by (simp add: fetch_updates_def prepare_fetch_def Let_def) (simp add: held_from_def)
qed

end
