(* ===== verification/Spec2Isabelle.thy ===== *)
theory Spec2Isabelle
  imports Task_Worker Graph_Service Trigger_Runs Connect Rate_Limit Policy_Presets Routing Subagents Chat_Turns UI_Auth Telegram_Polling
begin

text \<open>
  A verification development for \<open>afkbot\<close>, an agent platform in Python (sources under
  \<open>src/afkbot\<close>). It models the two parts of the program that carry durable state through
  concurrent and failing work: Task Flow, the task scheduler of the platform with its detached
  workers, and automation graphs, the executor of triggered workflows. The definitions are
  translated from the source; the theorems are about those definitions. Around them it models the
  triggers that start automations (cron schedules and webhooks), the pairing of desktop clients, the
  policy that decides which tool calls of a profile are let through, and the way of an inbound chat
  message from the polling service to the session it belongs to.

  \<^bold>\<open>The parts and how they interact.\<close> Users, AI chats and employees (profile-local AI workers
  described by markdown files) create and update tasks through \<open>TaskFlowService\<close>. A detached
  runtime claims runnable tasks in the database under a secret token and a lease, lets an
  agent turn work on them (turns of one session pass through a queue of markers), and writes the
  outcome back under the same token. Tasks depend on one another; completing one wakes its
  dependents. Automations are started by cron ticks and by webhook deliveries, each under
  a lease on the trigger's row, and run either a turn or a graph: a graph is validated, stored as rows,
  and executed node by node with a ledger of node runs; a failed run may be handed to an AI turn.

  \<^bold>\<open>Which theory models what.\<close>
  \<^item> \<open>Prelude\<close>, \<open>Worklist\<close>, \<open>Lease\<close>: no code of their own. Results (\<open>app_error + 'a\<close>, with \<open>bindE\<close> as
    the sequence of statements that may raise), tables as lists of rows with filtered update and
    delete, SQL's order of nullable columns (an instance of \<open>linorder\<close>); the stack searches of
    the cycle checks; the locale \<open>lease\<close> of rows held under a token, and \<open>guarded_graph\<close> of
    graphs that grow under a reachability check. The locales are interpreted on the model: \<open>lease\<close> by
    the task claims, the turn queue, the cron rows, the webhook rows and the claims of chat turns, \<open>guarded_graph\<close> by the dependency edges,
    \<open>row_store\<close> (in Task_Store) by the task rows.
  \<^item> \<open>Py_Strings\<close>, \<open>Py_Values\<close>: the Python string, integer and JSON value operations the code uses.
  \<^item> \<open>Task_Store\<close>: models/task*.py and the row operations of repositories/task_flow_repo.py.
    The record \<open>db\<close> is the database of one profile store, one list of rows per table.
  \<^item> \<open>Task_Claims\<close>: the claim protocol of the repository, \<open>claim_next_runnable_task\<close> to
    \<open>clear_task_claim\<close>; \<open>Task_Lifecycle\<close>: the inductive step relation of all its writes.
  \<^item> \<open>Employees\<close>: services/employees (descriptors, organisation chart, hard tool gate).
  \<^item> \<open>Task_Inputs\<close>, \<open>Task_Deps\<close>, \<open>Task_Guards\<close>, \<open>Task_Events\<close>, \<open>Task_Update\<close>, \<open>Task_Service\<close>:
    services/task_flow/service.py with its helpers, one theory per group of operations, in the
    order in which they call one another.
  \<^item> \<open>Turn_Queue\<close>: repositories/chat_session_turn_queue_repo.py and the wait loop of
    services/session_orchestration/service.py.
  \<^item> \<open>Task_Runtime\<close>, \<open>Task_Worker\<close>: services/task_flow/runtime_service.py (sweeping, claiming,
    executing, persisting outcomes) and its writes as steps of \<open>Task_Lifecycle\<close>.
  \<^item> \<open>Graph_Spec\<close>, \<open>Graph_Store\<close>, \<open>Graph_Executor\<close>, \<open>Graph_Run\<close>, \<open>Graph_Service\<close>:
    services/automations/graph (contracts.py, service.py, executor.py) and
    repositories/automation_graph_repo.py. The record \<open>graph_db\<close> holds their tables,
    \<open>exec_state\<close> the local variables of the execution loop.

  \<^item> \<open>Cron\<close>: services/automations/validators.py, cron expressions and the search for the next run.
  \<^item> \<open>Trigger_Store\<close>, \<open>Triggers\<close>, \<open>Trigger_Runs\<close>: repositories/automation_repo_crud.py and
    automation_repo_claims.py, services/automations/service.py and update_runtime.py, and
    cron_execution.py, webhook_execution.py, lease_runtime.py and payloads.py. The record
    \<open>trigger_db\<close> holds the automations with their trigger rows and the processed events.
  \<^item> \<open>Connect\<close>, \<open>Rate_Limit\<close>: services/connect and repositories/connect_repo.py, the pairing of desktop
    clients: one-time claim tokens, rotating refresh tokens, access tokens, and the sliding-window
    limiter in front of them. The record \<open>connect_db\<close> holds their tables.
  \<^item> \<open>Shell_Words\<close>, \<open>Policy\<close>: services/policy/engine.py and evaluation_helpers.py: the commands, paths
    and hosts in the parameters of a tool call and the checks of the gate on them.
  \<^item> \<open>Policy_Presets\<close>: how a policy row comes about, from the wizard's answers
    (services/wizard/profile_intent_mapper.py) over capabilities, file access and workspace scope
    (services/policy) to repositories/profile_policy_repo.py.
  \<^item> \<open>Session_Ids\<close>, \<open>Routing\<close>: services/session_ids.py, services/channel_routing and
    repositories/channel_binding_repo.py: which profile and session an inbound message reaches. The
    record \<open>routing_state\<close> holds the bindings and the counters of the outcomes.
  \<^item> \<open>Subagents\<close>: services/subagents and repositories/subagent_task_repo.py, the table of background
    subagent tasks: accepted, claimed by a worker process, settled, read by the session that started them.
  \<^item> \<open>Chat_Turns\<close>: services/agent_loop/api_runtime_turns.py and api_runtime_support.py with
    repositories/chat_turn_idempotency_repo.py, API turns that carry a client message id and are run
    under a claim on it. The record \<open>turn_tables\<close> holds the answers and the claims.
  \<^item> \<open>UI_Auth\<close>: services/ui_auth, api/routes_auth.py and api/ui_auth_middleware.py, the login of the web
    interface: the limiter of failed logins, the encrypted session cookie, the protected paths.
  \<^item> \<open>Channel_Ingress\<close>, \<open>Telegram_Updates\<close>, \<open>Telegram_Polling\<close>: services/channels, the way of an inbound
    message: access policy, stored messages and batches by conversation (ingress_coalescer.py), what a
    Telegram update is for the bot, and the polling service with its offsets, retries and restarts.
    The record \<open>polling\<close> holds the memory, the offset file and the stored messages of one endpoint,
    \<open>world\<close> adds the updates the Bot API holds; \<open>tg_step\<close> is one step of either.

  \<^bold>\<open>How state and failures are represented.\<close> An operation takes the database and returns it
  changed. An operation that runs in one transaction answers \<open>Inl\<close> an error or \<open>Inr\<close> the new
  database, so a raise leaves nothing behind; one that commits in several transactions (the
  runtime, the graph executor) returns the state reached together with the result. Identifiers
  drawn from uuid4, clock readings, the agent turn, node adapters, the JSON schema validator, the
  text of downloaded media and the redaction of secrets are arguments. What other workers do meanwhile is an explicit
  change of the database between a read and the write that depends on it (the interference
  arguments of the claim and of the execution). Cancellations and database calls that fail are outcomes of
  the step they hit, where a theorem speaks of every ending: an argument of the operation (the cron tick, the
  subagent execution, the API turn, the wait for admission) or a case of a relation around it (the triggered
  run of a graph).

  \<^bold>\<open>What the lemmas show.\<close>
  \<^item> Claims: the task taken is the most urgent runnable one; at most one active task per AI
    executor in every reachable table; claim columns are set exactly in active statuses; a token holder that lost its lease
    changes nothing; every execution ends its claim; expired claims are released.
  \<^item> Dependencies and lifecycle: edges stay acyclic, a task with open prerequisites waits,
    completion wakes what waited, deletion leaves no reference; who may manage which task.
  \<^item> Organisation: derived reports are the transitive closure, cycles are reported exactly when
    there are any, the tool gate admits exactly the tools of the descriptor.
  \<^item> Turn queue: the marker admitted is the oldest of its session; a waiting request sleeps a
    bounded time in all and ends in admission, the exception of a poll, the timeout or the overflow of the delay.
  \<^item> Graphs: validation accepts exactly the acyclic graphs with distinct keys, known end points
    and valid nodes; a stored graph reads back as specified, its configurations with sorted keys; a run of an accepted graph
    settles every node in topological order or stops at the one that failed; the run row
    ends, unless the run was cut short or failed under an unknown fallback mode: then it stays at running; the AI fallback for safe runs is not started behind a recorded unsafe effect.
  \<^item> Triggers: the next run is the first matching minute, and the expressions accepted are exactly the
    schedules of nonempty value sets; a tick leaves a claim behind only on a row whose own database calls were cut or failed, until the
    claim runs out; an event that was carried out
    is not carried out again.
  \<^item> Connect: a claim token pairs one client at most; the service refines sessions that are created,
    rotated and revoked, each by the token that was presented; a revoked session stays out; the limiter never lets more requests
    through a window than configured.
  \<^item> Policy: the planner sees exactly the tools the gate lets through; an admitted call is confined to
    the allowed paths, commands and hosts at every depth of its parameters; the wizard's answers
    hold at the gate of the profile created from them (the shell, the file tools that read and that write, the network), where
    the installation offers a memory tool; two shapes of a command line and the empty
    selection escape the lists (the findings of the manifest).
  \<^item> Routing: the best stored binding is chosen, a session identifier determines the profile and the
    scope of the policy, a transport without a binding reaches a profile only where the settings allow
    it, and the counters are those of the log of outcomes.
  \<^item> Subagents: a task is started once and settled once, whatever the processes do; an execution settles
    its task unless its last write failed or was cut, and then the first reader past the deadline does; a result is never running past the deadline of the task.
  \<^item> Chat turns: all answers for one message agree; a claim is exclusive while it is touched and
    is released, unless an exception met the turn where the code skips the release: then until it is stale.
  \<^item> Web login: refused guesses per key are bounded in every window; a session ends with the lifetime set
    at its login; a protected path is never passed on without a valid session.
  \<^item> Channels: batching loses, doubles and reorders no message of a conversation; a restart picks up
    every stored message; with batching on no admitted update is lost whatever fails or restarts, as long as the
    ids of the Bot API grow and it still holds the update; only messages of persons are taken up, in a
    group only those that address the bot.

  \<^bold>\<open>Termination and bounds.\<close> No definition uses fuel; the nesting of
  \<open>sh -c\<close> in a command line is followed four levels deep, as the code does. The searches of \<open>Worklist\<close> and the Kahn loop
  end because every step uses up edges or makes an open target final; the recursion of
  \<open>_resolve_edge\<close> is a stack whose measure is the number of nodes not yet final and then the length of the stack;
  the execution loop decreases the same number or the ready queue; the cycle
  walk of the organisation chart is bounded by the employees not yet on the path; the
  queue wait is bounded by its timeout over the least delay. Python's integers are unbounded
  and so are the model's.

  \<^bold>\<open>What is not modelled and why.\<close> Strings hold code points below 256, where case folding and digit tests are decidable
  by table. The agent loop, LLM providers, tools, the PartyFlow adapter and the delivery of replies, MCP, the HTTP API, the CLI
  and the setup code drive networks, processes and terminals; they appear
  only as parameters. Of Task Flow the flow and document CRUD, attachments and read-only views
  are left out; of the automations the HTTP daemon, the code sandbox and the external node
  adapters. The heartbeat is modelled as the guarded update it makes, not as a
  concurrent task.
\<close>

end
